(* ===== verification/NNIS_Prelude.thy ===== *)
theory NNIS_Prelude
  imports Main "HOL-Library.Word"
begin

text \<open>
  Shared vocabulary of the development.

  Rust's \<open>Result<T, E>\<close> is \<open>'e + 'a\<close>, with \<open>Err\<close> for \<open>Inl\<close> and \<open>Ok\<close> for \<open>Inr\<close>; the \<open>?\<close> operator is
  \<open>and_then\<close>.  The unsigned integer types that the program only counts, indexes and
  accounts with (\<open>u32\<close>, \<open>u64\<close>, \<open>usize\<close>, all on a 64-bit host) are \<open>nat\<close> with the width
  written out in every checked or truncating operation; those it computes with bitwise are
  words.  A \<open>for\<close> loop with an early return is \<open>for_each_res\<close>.  A mutable slice is a list with
  \<open>slice\<close> (borrow) and \<open>overwrite\<close> (\<open>copy_from_slice\<close>).
\<close>

named_theorems width_defs \<open>the machine widths, unfolded where a concrete value is needed\<close>
named_theorems checked_simps \<open>success conditions of the checked operations\<close>

type_synonym u8 = "8 word"

section \<open>Results\<close>

abbreviation Ok :: "'a \<Rightarrow> 'e + 'a" where "Ok \<equiv> Inr"
abbreviation Err :: "'e \<Rightarrow> 'e + 'a" where "Err \<equiv> Inl"

definition and_then :: "'e + 'a \<Rightarrow> ('a \<Rightarrow> 'e + 'b) \<Rightarrow> 'e + 'b" where
  "and_then m k = (case m of Inl e \<Rightarrow> Inl e | Inr a \<Rightarrow> k a)"

definition map_err :: "('e \<Rightarrow> 'f) \<Rightarrow> 'e + 'a \<Rightarrow> 'f + 'a" where
  "map_err f m = (case m of Inl e \<Rightarrow> Inl (f e) | Inr a \<Rightarrow> Inr a)"

definition ok_or :: "'e \<Rightarrow> 'a option \<Rightarrow> 'e + 'a" where
  "ok_or e m = (case m of None \<Rightarrow> Inl e | Some a \<Rightarrow> Inr a)"

definition is_ok :: "'e + 'a \<Rightarrow> bool" where
  "is_ok m = (case m of Inl _ \<Rightarrow> False | Inr _ \<Rightarrow> True)"

lemma and_then_simps [simp]:
  "and_then (Inl e) k = Inl e"
  "and_then (Inr a) k = k a"
  by (simp_all add: and_then_def)

lemma and_then_Ok_iff [simp]:
  "and_then m k = Inr b \<longleftrightarrow> (\<exists>a. m = Inr a \<and> k a = Inr b)"
  by (cases m) simp_all

lemma and_then_Err_iff:
  "and_then m k = Inl e \<longleftrightarrow> m = Inl e \<or> (\<exists>a. m = Inr a \<and> k a = Inl e)"
  by (cases m) simp_all

lemma and_then_cong [cong]:
  "m = m' \<Longrightarrow> (\<And>a. m' = Inr a \<Longrightarrow> k a = k' a) \<Longrightarrow> and_then m k = and_then m' k'"
  by (cases m') simp_all

lemma map_err_simps [simp]:
  "map_err f (Inl e) = Inl (f e)"
  "map_err f (Inr a) = Inr a"
  by (simp_all add: map_err_def)

lemma map_err_Ok_iff [simp]: "map_err f m = Inr a \<longleftrightarrow> m = Inr a"
  by (cases m) simp_all

lemma ok_or_simps [simp]:
  "ok_or e None = Inl e"
  "ok_or e (Some a) = Inr a"
  by (simp_all add: ok_or_def)

lemma ok_or_Ok_iff [simp]: "ok_or e m = Inr a \<longleftrightarrow> m = Some a"
  by (cases m) simp_all

lemma ok_or_Err_iff [simp]: "ok_or e m = Inl d \<longleftrightarrow> m = None \<and> d = e"
  by (cases m) auto

lemma is_ok_simps [simp]:
  "is_ok (Inr a)"
  "\<not> is_ok (Inl e)"
  by (simp_all add: is_ok_def)

lemma is_ok_iff: "is_ok m \<longleftrightarrow> (\<exists>a. m = Inr a)"
  by (cases m) simp_all

section \<open>Loops with an early return\<close>

fun for_each_res :: "('s \<Rightarrow> 'a \<Rightarrow> 'e + 's) \<Rightarrow> 's \<Rightarrow> 'a list \<Rightarrow> 'e + 's" where
  "for_each_res f s [] = Inr s"
| "for_each_res f s (x # xs) = and_then (f s x) (\<lambda>s'. for_each_res f s' xs)"

lemma for_each_res_append:
  "for_each_res f s (xs @ ys) = and_then (for_each_res f s xs) (\<lambda>t. for_each_res f t ys)"
proof (induction xs arbitrary: s)
  case Nil
  then show ?case by simp
next
  case (Cons x xs)
  then show ?case by (cases "f s x") simp_all
qed

lemma for_each_res_inv:
  assumes "for_each_res f s xs = Inr t" and "P s"
    and "\<And>s x t. x \<in> set xs \<Longrightarrow> P s \<Longrightarrow> f s x = Inr t \<Longrightarrow> P t"
  shows "P t"
  using assms by (induction xs arbitrary: s) auto

text \<open>A loop whose body refuses some elements and otherwise updates the state.\<close>

lemma for_each_res_guarded:
  assumes "\<And>s x. f s x = (if ok x then Inr (g x s) else Inl (e x))"
  shows "for_each_res f s xs = Inr t \<longleftrightarrow> (\<forall>x \<in> set xs. ok x) \<and> t = fold g xs s"
  by (induction xs arbitrary: s) (auto simp: assms)

text \<open>The same with the loop's state kept on an early return: what a \<open>&mut self\<close> method leaves.\<close>

fun for_each_st :: "('s \<Rightarrow> 'a \<Rightarrow> 's \<times> ('e + unit)) \<Rightarrow> 's \<Rightarrow> 'a list \<Rightarrow> 's \<times> ('e + unit)" where
  "for_each_st f s [] = (s, Inr ())"
| "for_each_st f s (x # xs) =
     (case f s x of (s', Inl e) \<Rightarrow> (s', Inl e) | (s', Inr _) \<Rightarrow> for_each_st f s' xs)"

lemma for_each_st_append:
  "for_each_st f s (xs @ ys) =
     (case for_each_st f s xs of (t, Inl e) \<Rightarrow> (t, Inl e) | (t, Inr _) \<Rightarrow> for_each_st f t ys)"
  by (induction xs arbitrary: s) (auto split: prod.splits sum.splits)

lemma for_each_st_fold:
  "(\<And>s x. x \<in> set xs \<Longrightarrow> P s \<Longrightarrow> f s x = (g x s, Inr ()) \<and> P (g x s)) \<Longrightarrow> P s \<Longrightarrow>
     for_each_st f s xs = (fold g xs s, Inr ())"
  by (induction xs arbitrary: s) auto

lemma for_each_res_fold:
  "(\<And>s x. x \<in> set xs \<Longrightarrow> P s \<Longrightarrow> f s x = Inr (g x s) \<and> P (g x s)) \<Longrightarrow> P s \<Longrightarrow>
     for_each_res f s xs = Inr (fold g xs s)"
  by (induction xs arbitrary: s) auto

text \<open>A loop that only checks: it stops at the first element the check rejects.\<close>

definition check_all :: "('a \<Rightarrow> 'e + unit) \<Rightarrow> 'a list \<Rightarrow> 'e + unit" where
  "check_all c xs = for_each_res (\<lambda>_. c) () xs"

lemma check_all_simps [simp]:
  "check_all c [] = Inr ()"
  "check_all c (x # xs) = and_then (c x) (\<lambda>_. check_all c xs)"
  by (simp_all add: check_all_def)

lemma check_all_Ok_iff [simp]:
  "check_all c xs = Inr u \<longleftrightarrow> (\<forall>x \<in> set xs. c x = Inr ())"
  by (induction xs) auto

text \<open>\<open>iter().enumerate()\<close>.\<close>

lemma enumerate_map_nth: "enumerate 0 xs = map (\<lambda>i. (i, xs ! i)) [0..<length xs]"
  by (rule nth_equalityI) (simp_all add: nth_enumerate_eq)

lemma check_enumerate_Ok [simp]:
  "check_all c (enumerate 0 xs) = Inr u \<longleftrightarrow> (\<forall>i < length xs. c (i, xs ! i) = Inr ())"
  by (auto simp: enumerate_map_nth)

lemma length_filter_enumerate [simp]:
  "length (filter (\<lambda>(_, x). P x) (enumerate n xs)) = length (filter P xs)"
  by (induction xs arbitrary: n) simp_all

lemma all_less_Suc_split: "(\<forall>j < Suc n. P j) \<longleftrightarrow> P 0 \<and> (\<forall>j < n. P (Suc j))"
  using less_Suc_eq_0_disj by auto

text \<open>\<open>iter().position(p)\<close>.\<close>

fun position :: "('a \<Rightarrow> bool) \<Rightarrow> 'a list \<Rightarrow> nat option" where
  "position p [] = None"
| "position p (x # xs) = (if p x then Some 0 else map_option Suc (position p xs))"

lemma position_None [simp]: "position p xs = None \<longleftrightarrow> (\<forall>x \<in> set xs. \<not> p x)"
  by (induction xs) auto

lemma position_Some:
  "position p xs = Some i \<longleftrightarrow> i < length xs \<and> p (xs ! i) \<and> (\<forall>j < i. \<not> p (xs ! j))"
proof (induction xs arbitrary: i)
  case Nil
  then show ?case by simp
next
  case (Cons x xs)
  show ?case
  proof (cases i)
    case 0
    then show ?thesis by simp
  next
    case (Suc k)
    then show ?thesis by (auto simp: Cons.IH all_less_Suc_split)
  qed
qed

section \<open>Machine integers held as natural numbers\<close>

definition u32_lim :: nat where "u32_lim = 4294967296"
definition u64_lim :: nat where "u64_lim = 18446744073709551616"

lemma u32_lim_pow: "u32_lim = 2 ^ 32" and u64_lim_pow: "u64_lim = 2 ^ 64"
  by (simp_all add: u32_lim_def u64_lim_def)

declare u32_lim_def [width_defs] u64_lim_def [width_defs]

lemma u32_lim_less_u64_lim: "u32_lim < u64_lim"
  by (simp add: width_defs)

text \<open>\<open>checked_add\<close>, \<open>checked_mul\<close> and \<open>checked_sub\<close> of \<open>u64\<close>/\<open>usize\<close>, \<open>saturating_mul\<close> and the
  conversions between the two types, which agree on a 64-bit host.\<close>

definition checked_add :: "nat \<Rightarrow> nat \<Rightarrow> nat option" where
  "checked_add a b = (if a + b < u64_lim then Some (a + b) else None)"

definition checked_mul :: "nat \<Rightarrow> nat \<Rightarrow> nat option" where
  "checked_mul a b = (if a * b < u64_lim then Some (a * b) else None)"

definition checked_sub :: "nat \<Rightarrow> nat \<Rightarrow> nat option" where
  "checked_sub a b = (if b \<le> a then Some (a - b) else None)"

definition saturating_mul :: "nat \<Rightarrow> nat \<Rightarrow> nat" where
  "saturating_mul a b = min (a * b) (u64_lim - 1)"

definition checked_mul32 :: "nat \<Rightarrow> nat \<Rightarrow> nat option" where
  "checked_mul32 a b = (if a * b < u32_lim then Some (a * b) else None)"

definition usize_of_u64 :: "nat \<Rightarrow> nat option" where
  "usize_of_u64 n = (if n < u64_lim then Some n else None)"

definition u64_of_usize :: "nat \<Rightarrow> nat option" where
  "u64_of_usize n = (if n < u64_lim then Some n else None)"

definition u32_of_usize :: "nat \<Rightarrow> nat option" where
  "u32_of_usize n = (if n < u32_lim then Some n else None)"

text \<open>\<open>x as u32\<close> keeps the low bits.\<close>

definition as_u32 :: "nat \<Rightarrow> nat" where
  "as_u32 n = n mod u32_lim"

lemma checked_Some_iff [simp, checked_simps]:
  "checked_add a b = Some c \<longleftrightarrow> c = a + b \<and> a + b < u64_lim"
  "checked_mul a b = Some c \<longleftrightarrow> c = a * b \<and> a * b < u64_lim"
  "checked_sub a b = Some c \<longleftrightarrow> c = a - b \<and> b \<le> a"
  "checked_mul32 a b = Some c \<longleftrightarrow> c = a * b \<and> a * b < u32_lim"
  "usize_of_u64 n = Some c \<longleftrightarrow> c = n \<and> n < u64_lim"
  "u64_of_usize n = Some c \<longleftrightarrow> c = n \<and> n < u64_lim"
  "u32_of_usize n = Some c \<longleftrightarrow> c = n \<and> n < u32_lim"
  by (auto simp: checked_add_def checked_mul_def checked_sub_def checked_mul32_def
      usize_of_u64_def u64_of_usize_def u32_of_usize_def)

lemma checked_None_iff [simp, checked_simps]:
  "checked_add a b = None \<longleftrightarrow> u64_lim \<le> a + b"
  "checked_mul a b = None \<longleftrightarrow> u64_lim \<le> a * b"
  "checked_sub a b = None \<longleftrightarrow> a < b"
  "checked_mul32 a b = None \<longleftrightarrow> u32_lim \<le> a * b"
  "usize_of_u64 n = None \<longleftrightarrow> u64_lim \<le> n"
  "u64_of_usize n = None \<longleftrightarrow> u64_lim \<le> n"
  "u32_of_usize n = None \<longleftrightarrow> u32_lim \<le> n"
  by (auto simp: checked_add_def checked_mul_def checked_sub_def checked_mul32_def
      usize_of_u64_def u64_of_usize_def u32_of_usize_def)

lemma as_u32_id [simp]: "n < u32_lim \<Longrightarrow> as_u32 n = n"
  by (simp add: as_u32_def)

lemma as_u32_less: "as_u32 n < u32_lim"
  by (simp add: as_u32_def u32_lim_def)

lemma saturating_mul_exact [simp]: "a * b < u64_lim \<Longrightarrow> saturating_mul a b = a * b"
  by (simp add: saturating_mul_def)

text \<open>\<open>div_ceil\<close> of the standard library.\<close>

definition div_ceil :: "nat \<Rightarrow> nat \<Rightarrow> nat" where
  "div_ceil a b = (a div b) + (if a mod b > 0 then 1 else 0)"

lemma div_ceil_bounds:
  assumes "0 < b"
  shows "a \<le> div_ceil a b * b" and "div_ceil a b * b < a + b"
proof -
  define q r where "q = a div b" and "r = a mod b"
  have "a = q * b + r" "r < b" and "div_ceil a b = q + (if r > 0 then 1 else 0)"
    using assms by (simp_all add: q_def r_def div_ceil_def)
  then show "a \<le> div_ceil a b * b" and "div_ceil a b * b < a + b"
    using assms by (simp_all add: add_mult_distrib)
qed

lemma div_ceil_le_self: "0 < b \<Longrightarrow> div_ceil a b \<le> a"
proof -
  assume b: "0 < b"
  show ?thesis
  proof (cases "a mod b = 0")
    case True
    then show ?thesis by (simp add: div_ceil_def)
  next
    case False
    then have "0 < a" by (cases a) auto
    show ?thesis
    proof (cases "b = 1")
      case True
      with False show ?thesis by simp
    next
      case False
      with b have "a div b < a" using \<open>0 < a\<close> by simp
      then show ?thesis by (simp add: div_ceil_def)
    qed
  qed
qed

lemma div_ceil_pos: "0 < a \<Longrightarrow> 0 < b \<Longrightarrow> 0 < div_ceil a b"
  using div_ceil_bounds(1) [of b a] by (cases "div_ceil a b") auto

section \<open>Slices of a vector\<close>

definition slice :: "nat \<Rightarrow> nat \<Rightarrow> 'a list \<Rightarrow> 'a list" where
  "slice start len xs = take len (drop start xs)"

definition overwrite :: "nat \<Rightarrow> 'a list \<Rightarrow> 'a list \<Rightarrow> 'a list" where
  "overwrite start ys xs = take start xs @ ys @ drop (start + length ys) xs"

lemma length_slice [simp]: "start + len \<le> length xs \<Longrightarrow> length (slice start len xs) = len"
  by (simp add: slice_def)

lemma length_overwrite [simp]:
  "start + length ys \<le> length xs \<Longrightarrow> length (overwrite start ys xs) = length xs"
  by (simp add: overwrite_def)

lemma nth_slice [simp]:
  "start + len \<le> length xs \<Longrightarrow> i < len \<Longrightarrow> slice start len xs ! i = xs ! (start + i)"
  by (simp add: slice_def add.commute)

lemma nth_overwrite:
  assumes "start + length ys \<le> length xs" "i < length xs"
  shows "overwrite start ys xs ! i =
    (if start \<le> i \<and> i < start + length ys then ys ! (i - start) else xs ! i)"
  using assms by (auto simp: overwrite_def nth_append min_def)

lemma slice_overwrite_same:
  "start + length ys \<le> length xs \<Longrightarrow> slice start (length ys) (overwrite start ys xs) = ys"
  by (simp add: slice_def overwrite_def min_def)

lemma slice_overwrite_disjoint:
  assumes "start + length ys \<le> length xs" "s + n \<le> length xs"
    and "s + n \<le> start \<or> start + length ys \<le> s"
  shows "slice s n (overwrite start ys xs) = slice s n xs"
proof (rule nth_equalityI)
  show "length (slice s n (overwrite start ys xs)) = length (slice s n xs)"
    using assms by simp
next
  fix i assume "i < length (slice s n (overwrite start ys xs))"
  then have "i < n" using assms by simp
  then show "slice s n (overwrite start ys xs) ! i = slice s n xs ! i"
    using assms by (auto simp: nth_overwrite)
qed

lemma slice_all [simp]: "slice 0 (length xs) xs = xs"
  by (simp add: slice_def)

lemma slice_0 [simp]: "slice s 0 xs = []"
  by (simp add: slice_def)

text \<open>\<open>chunks_exact\<close>: full chunks only; the remainder is dropped.\<close>

function chunks_exact :: "nat \<Rightarrow> 'a list \<Rightarrow> 'a list list" where
  "chunks_exact n xs =
     (if n = 0 \<or> length xs < n then [] else take n xs # chunks_exact n (drop n xs))"
  by pat_completeness auto
termination
  by (relation "measure (\<lambda>(n, xs). length xs)") auto

declare chunks_exact.simps [simp del]

definition chunks_remainder :: "nat \<Rightarrow> 'a list \<Rightarrow> 'a list" where
  "chunks_remainder n xs = drop (length xs div n * n) xs"

lemma chunks_exact_short [simp]: "length xs < n \<Longrightarrow> chunks_exact n xs = []"
  by (simp add: chunks_exact.simps [of n xs])

lemma chunks_exact_append [simp]:
  "0 < n \<Longrightarrow> length ys = n \<Longrightarrow> chunks_exact n (ys @ xs) = ys # chunks_exact n xs"
  by (simp add: chunks_exact.simps [of n "ys @ xs"])

lemma length_chunks_exact: "0 < n \<Longrightarrow> length (chunks_exact n xs) = length xs div n"
proof (induction n xs rule: chunks_exact.induct)
  case (1 n xs)
  show ?case
  proof (cases "length xs < n")
    case True
    then show ?thesis using 1 by simp
  next
    case False
    with 1 have "length (chunks_exact n (drop n xs)) = (length xs - n) div n"
      by simp
    with False 1(2) show ?thesis
      by (simp add: chunks_exact.simps [of n xs] le_div_geq)
  qed
qed

lemma chunks_exact_lengths: "ys \<in> set (chunks_exact n xs) \<Longrightarrow> length ys = n"
proof (induction n xs rule: chunks_exact.induct)
  case (1 n xs)
  then show ?case
    by (cases "n = 0 \<or> length xs < n") (auto simp: chunks_exact.simps [of n xs])
qed

lemma chunks_exact_remainder:
  "0 < n \<Longrightarrow> concat (chunks_exact n xs) @ chunks_remainder n xs = xs"
proof (induction n xs rule: chunks_exact.induct)
  case (1 n xs)
  show ?case
  proof (cases "length xs < n")
    case True
    with 1 show ?thesis by (simp add: chunks_remainder_def)
  next
    case False
    with 1 have IH: "concat (chunks_exact n (drop n xs)) @ chunks_remainder n (drop n xs) = drop n xs"
      by simp
    have "chunks_remainder n (drop n xs) = chunks_remainder n xs"
      using False 1(2) by (simp add: chunks_remainder_def le_div_geq add.commute)
    with IH False 1(2) show ?thesis
      by (simp add: chunks_exact.simps [of n xs])
  qed
qed

lemma length_chunks_remainder: "length (chunks_remainder n xs) = length xs mod n"
  by (simp add: chunks_remainder_def minus_div_mult_eq_mod)

lemma chunks_exact_split:
  assumes "0 < n"
  shows "chunks_exact n (xs @ ys) = chunks_exact n xs @ chunks_exact n (chunks_remainder n xs @ ys)"
  using assms
proof (induction n xs rule: chunks_exact.induct)
  case (1 n xs)
  show ?case
  proof (cases "length xs < n")
    case True
    with 1 show ?thesis by (simp add: chunks_remainder_def)
  next
    case False
    with 1 have IH: "chunks_exact n (drop n xs @ ys) =
        chunks_exact n (drop n xs) @ chunks_exact n (chunks_remainder n (drop n xs) @ ys)"
      by simp
    have "chunks_remainder n (drop n xs) = chunks_remainder n xs"
      using False 1(2) by (simp add: chunks_remainder_def le_div_geq add.commute)
    moreover have "chunks_exact n (xs @ ys) = take n xs # chunks_exact n (drop n xs @ ys)"
      using False 1(2) chunks_exact_append [of n "take n xs" "drop n xs @ ys"]
      by (simp flip: append_assoc)
    ultimately show ?thesis
      using IH False 1(2) by (simp add: chunks_exact.simps [of n xs])
  qed
qed

lemma chunks_remainder_split:
  assumes "0 < n"
  shows "chunks_remainder n (xs @ ys) = chunks_remainder n (chunks_remainder n xs @ ys)"
proof -
  have "concat (chunks_exact n (xs @ ys)) @ chunks_remainder n (xs @ ys) = xs @ ys"
    and "concat (chunks_exact n (chunks_remainder n xs @ ys)) @
      chunks_remainder n (chunks_remainder n xs @ ys) = chunks_remainder n xs @ ys"
    and "concat (chunks_exact n xs) @ chunks_remainder n xs = xs"
    using assms by (simp_all add: chunks_exact_remainder)
  then show ?thesis
    by (metis append_assoc chunks_exact_split [OF assms] concat_append same_append_eq)
qed

lemma chunks_remainder_short [simp]: "length xs < n \<Longrightarrow> chunks_remainder n xs = xs"
  by (simp add: chunks_remainder_def)

section \<open>Little-endian bytes\<close>

fun le_bytes :: "nat \<Rightarrow> nat \<Rightarrow> u8 list" where
  "le_bytes 0 n = []"
| "le_bytes (Suc k) n = of_nat (n mod 256) # le_bytes k (n div 256)"

lemma length_le_bytes [simp]: "length (le_bytes k n) = k"
  by (induction k arbitrary: n) simp_all

lemma u8_of_nat_inj: "a < 256 \<Longrightarrow> b < 256 \<Longrightarrow> (of_nat a :: u8) = of_nat b \<longleftrightarrow> a = b"
proof -
  assume "a < 256" "b < 256"
  then have "unat (of_nat a :: u8) = a" "unat (of_nat b :: u8) = b"
    by (simp_all add: unat_of_nat)
  then show ?thesis by metis
qed

lemma le_bytes_inj: "n < 256 ^ k \<Longrightarrow> m < 256 ^ k \<Longrightarrow> le_bytes k n = le_bytes k m \<longleftrightarrow> n = m"
proof (induction k arbitrary: n m)
  case 0
  then show ?case by simp
next
  case (Suc k)
  then have "n div 256 < 256 ^ k" "m div 256 < 256 ^ k"
    by (simp_all add: less_mult_imp_div_less mult.commute)
  then have "le_bytes (Suc k) n = le_bytes (Suc k) m \<longleftrightarrow> n mod 256 = m mod 256 \<and> n div 256 = m div 256"
    using Suc.IH by (simp add: u8_of_nat_inj)
  then show ?case by (metis div_mod_decomp)
qed

lemma append_split:
  "length a = length b \<Longrightarrow> a @ r = b @ s \<longleftrightarrow> a = b \<and> r = s"
  by (rule append_eq_append_conv) simp

text \<open>\<open>is_power_of_two\<close> of a \<open>usize\<close> or \<open>u64\<close>.\<close>

definition is_power_of_two :: "nat \<Rightarrow> bool" where
  "is_power_of_two n \<longleftrightarrow> list_ex (\<lambda>k. n = 2 ^ k) [0..<64]"

lemma is_power_of_two_iff: "is_power_of_two n \<longleftrightarrow> (\<exists>k < 64. n = 2 ^ k)"
  by (auto simp: is_power_of_two_def list_ex_iff)

end
