(* ===== verification/Rust_Str.thy ===== *)
theory Rust_Str
  imports NNIS_Prelude
begin

text \<open>
  The part of Rust's strings the program relies on.  A \<open>String\<close> is the list of its Unicode
  scalar values (\<open>rstr\<close>); \<open>as_bytes\<close> is its UTF-8 encoding, \<open>from_utf8\<close> the strict decoder of the
  standard library (no overlong form, no surrogate, nothing above U+10FFFF), and \<open>str_len\<close>, which
  is \<open>str::len\<close>, counts bytes.  The two codecs are inverse to each other.  Static messages are
  HOL strings; \<open>lit\<close> turns one into a \<open>rstr\<close>.
\<close>

type_synonym rstr = "nat list"

definition lit :: "string \<Rightarrow> rstr" where
  "lit s = map of_char s"

definition is_scalar :: "nat \<Rightarrow> bool" where
  "is_scalar c \<longleftrightarrow> c < 0x110000 \<and> \<not> (0xD800 \<le> c \<and> c < 0xE000)"

definition wf_str :: "rstr \<Rightarrow> bool" where
  "wf_str s \<longleftrightarrow> (\<forall>c \<in> set s. is_scalar c)"

lemma wf_str_simps [simp]:
  "wf_str []"
  "wf_str (c # s) \<longleftrightarrow> is_scalar c \<and> wf_str s"
  "wf_str (s @ t) \<longleftrightarrow> wf_str s \<and> wf_str t"
  by (auto simp: wf_str_def)

section \<open>UTF-8\<close>

text \<open>Bytes as numbers below 256 first; \<open>as_bytes\<close> and \<open>from_utf8\<close> lift them to \<open>u8\<close>.\<close>

definition utf8_char :: "nat \<Rightarrow> nat list" where
  "utf8_char c =
     (if c < 0x80 then [c]
      else if c < 0x800 then [0xC0 + c div 64, 0x80 + c mod 64]
      else if c < 0x10000 then [0xE0 + c div 4096, 0x80 + c div 64 mod 64, 0x80 + c mod 64]
      else [0xF0 + c div 262144, 0x80 + c div 4096 mod 64, 0x80 + c div 64 mod 64,
            0x80 + c mod 64])"

definition utf8_nats :: "rstr \<Rightarrow> nat list" where
  "utf8_nats s = concat (map utf8_char s)"

lemma utf8_nats_simps [simp]:
  "utf8_nats [] = []"
  "utf8_nats (c # s) = utf8_char c @ utf8_nats s"
  "utf8_nats (s @ t) = utf8_nats s @ utf8_nats t"
  by (simp_all add: utf8_nats_def)

definition is_cont :: "nat \<Rightarrow> bool" where
  "is_cont b \<longleftrightarrow> 0x80 \<le> b \<and> b < 0xC0"

text \<open>The accepted lead bytes and the range each allows for the second byte.\<close>

fun utf8_decode :: "nat list \<Rightarrow> rstr option" where
  "utf8_decode [] = Some []"
| "utf8_decode (b # bs) =
     (if b < 0x80 then map_option (Cons b) (utf8_decode bs)
      else if 0xC2 \<le> b \<and> b < 0xE0 then
        (case bs of
           c # bs' \<Rightarrow>
             if is_cont c
             then map_option (Cons ((b - 0xC0) * 64 + (c - 0x80))) (utf8_decode bs') else None
         | _ \<Rightarrow> None)
      else if 0xE0 \<le> b \<and> b < 0xF0 then
        (case bs of
           c # d # bs' \<Rightarrow>
             if is_cont c \<and> is_cont d \<and> (b = 0xE0 \<longrightarrow> 0xA0 \<le> c) \<and> (b = 0xED \<longrightarrow> c < 0xA0)
             then map_option (Cons ((b - 0xE0) * 4096 + (c - 0x80) * 64 + (d - 0x80)))
                    (utf8_decode bs') else None
         | _ \<Rightarrow> None)
      else if 0xF0 \<le> b \<and> b < 0xF5 then
        (case bs of
           c # d # e # bs' \<Rightarrow>
             if is_cont c \<and> is_cont d \<and> is_cont e \<and> (b = 0xF0 \<longrightarrow> 0x90 \<le> c) \<and>
                (b = 0xF4 \<longrightarrow> c < 0x90)
             then map_option (Cons ((b - 0xF0) * 262144 + (c - 0x80) * 4096 + (d - 0x80) * 64 +
                                    (e - 0x80))) (utf8_decode bs') else None
         | _ \<Rightarrow> None)
      else None)"

text \<open>The four shapes, by the digits of the scalar value in base 64.\<close>

lemma utf8_char_2:
  assumes "2 \<le> x" "x < 32" "y < 64"
  shows "utf8_char (x * 64 + y) = [0xC0 + x, 0x80 + y]"
  using assms by (simp add: utf8_char_def)

lemma div_digits:
  fixes c :: nat
  shows "c div 4096 = c div 64 div 64" and "c div 262144 = c div 64 div 64 div 64"
  by (simp_all add: div_mult2_eq [symmetric])

lemma base64_digit:
  fixes a y :: nat
  assumes "y < 64"
  shows "(a * 64 + y) div 64 = a" and "(a * 64 + y) mod 64 = y"
  using assms by simp_all

lemma utf8_char_3:
  assumes "x < 16" "y < 64" "z < 64" "x = 0 \<Longrightarrow> 32 \<le> y"
  shows "utf8_char ((x * 64 + y) * 64 + z) = [0xE0 + x, 0x80 + y, 0x80 + z]"
proof -
  let ?c = "(x * 64 + y) * 64 + z"
  have d: "?c div 64 = x * 64 + y" "?c mod 64 = z" "(x * 64 + y) div 64 = x"
    "(x * 64 + y) mod 64 = y"
    by (simp_all only: base64_digit assms)
  moreover have "\<not> ?c < 0x800" "?c < 0x10000"
    using assms by (cases "x = 0"; simp)+
  ultimately show ?thesis unfolding utf8_char_def div_digits d by simp
qed

lemma utf8_char_4:
  assumes "w < 5" "x < 64" "y < 64" "z < 64" "w = 0 \<Longrightarrow> 16 \<le> x"
  shows "utf8_char (((w * 64 + x) * 64 + y) * 64 + z) = [0xF0 + w, 0x80 + x, 0x80 + y, 0x80 + z]"
proof -
  let ?c = "((w * 64 + x) * 64 + y) * 64 + z"
  have d: "?c div 64 = (w * 64 + x) * 64 + y" "?c mod 64 = z"
    "((w * 64 + x) * 64 + y) div 64 = w * 64 + x" "((w * 64 + x) * 64 + y) mod 64 = y"
    "(w * 64 + x) div 64 = w" "(w * 64 + x) mod 64 = x"
    by (simp_all only: base64_digit assms)
  moreover have "\<not> ?c < 0x10000"
    using assms by (cases "w = 0") simp_all
  ultimately show ?thesis unfolding utf8_char_def div_digits d by simp
qed

lemma scalar_digits:
  assumes "is_scalar c"
  obtains (one) "c < 0x80"
  | (two) x y where "c = x * 64 + y" "2 \<le> x" "x < 32" "y < 64"
  | (three) x y z where "c = (x * 64 + y) * 64 + z" "x < 16" "y < 64" "z < 64"
      "x = 0 \<Longrightarrow> 32 \<le> y" "x = 13 \<Longrightarrow> y < 32"
  | (four) w x y z where "c = ((w * 64 + x) * 64 + y) * 64 + z" "w < 5" "x < 64" "y < 64"
      "z < 64" "w = 0 \<Longrightarrow> 16 \<le> x" "w = 4 \<Longrightarrow> x < 16"
proof -
  consider "c < 0x80" | "0x80 \<le> c" "c < 0x800" | "0x800 \<le> c" "c < 0x10000"
    | "0x10000 \<le> c" "c < 0x110000"
    using assms unfolding is_scalar_def by linarith
  then show thesis
  proof cases
    case 1
    then show thesis by (rule one)
  next
    case 2
    then show thesis by (intro two [of "c div 64" "c mod 64"]) simp_all
  next
    case 3
    define x y z where "x = c div 64 div 64" and "y = c div 64 mod 64" and "z = c mod 64"
    have c: "c = (x * 64 + y) * 64 + z" by (simp add: x_def y_def z_def)
    moreover have "x < 16" "y < 64" "z < 64"
      using 3 by (simp_all add: x_def y_def z_def div_digits [symmetric])
    moreover have "32 \<le> y" if "x = 0"
      using 3 that \<open>z < 64\<close> unfolding c by simp
    moreover have "y < 32" if "x = 13"
      using assms that \<open>y < 64\<close> \<open>z < 64\<close> unfolding c is_scalar_def by simp
    ultimately show thesis by (intro three)
  next
    case 4
    define w x y z where "w = c div 64 div 64 div 64" and "x = c div 64 div 64 mod 64"
      and "y = c div 64 mod 64" and "z = c mod 64"
    have c: "c = ((w * 64 + x) * 64 + y) * 64 + z" by (simp add: w_def x_def y_def z_def)
    moreover have "w < 5" "x < 64" "y < 64" "z < 64"
      using 4 by (simp_all add: w_def x_def y_def z_def div_digits [symmetric])
    moreover have "16 \<le> x" if "w = 0"
      using 4 that \<open>y < 64\<close> \<open>z < 64\<close> unfolding c by simp
    moreover have "x < 16" if "w = 4"
      using 4 that \<open>y < 64\<close> \<open>z < 64\<close> unfolding c by simp
    ultimately show thesis by (intro four)
  qed
qed

lemma utf8_decode_char:
  assumes "is_scalar c"
  shows "utf8_decode (utf8_char c @ bs) = map_option (Cons c) (utf8_decode bs)"
  using assms
proof (cases rule: scalar_digits)
  case one
  then show ?thesis by (simp add: utf8_char_def)
next
  case (two x y)
  then show ?thesis by (simp add: utf8_char_2 is_cont_def)
next
  case (three x y z)
  then have "utf8_char c = [0xE0 + x, 0x80 + y, 0x80 + z]"
    by (simp only: utf8_char_3)
  then show ?thesis using three by (auto simp: is_cont_def mult.commute)
next
  case (four w x y z)
  then have "utf8_char c = [0xF0 + w, 0x80 + x, 0x80 + y, 0x80 + z]"
    by (simp only: utf8_char_4)
  then show ?thesis using four by (auto simp: is_cont_def mult.commute)
qed

lemma utf8_decode_append:
  "wf_str s \<Longrightarrow> utf8_decode (utf8_nats s @ bs) = map_option ((@) s) (utf8_decode bs)"
proof (induction s)
  case Nil
  then show ?case by (simp add: option.map_id0 [unfolded id_def])
next
  case (Cons c s)
  then show ?case
    by (simp add: utf8_decode_char option.map_comp comp_def)
qed

lemma utf8_decode_nats: "wf_str s \<Longrightarrow> utf8_decode (utf8_nats s) = Some s"
  using utf8_decode_append [of s "[]"] by simp

lemma utf8_char_bytes: "is_scalar c \<Longrightarrow> b \<in> set (utf8_char c) \<Longrightarrow> b < 256"
  by (auto simp: utf8_char_def is_scalar_def split: if_splits)

lemma utf8_nats_bytes: "wf_str s \<Longrightarrow> b \<in> set (utf8_nats s) \<Longrightarrow> b < 256"
  by (induction s) (auto dest: utf8_char_bytes)

text \<open>Decoding accepts nothing but the encoding of a well-formed string.\<close>

lemma utf8_decode_Some:
  assumes "utf8_decode bs = Some s"
  shows "wf_str s \<and> utf8_nats s = bs"
  using assms
proof (induction bs arbitrary: s rule: utf8_decode.induct)
  case 1
  then show ?case by simp
next
  case (2 b bs)
  note IH = "2.IH" and eq = "2.prems"
  consider "b < 0x80" | "0xC2 \<le> b" "b < 0xE0" | "0xE0 \<le> b" "b < 0xF0" | "0xF0 \<le> b" "b < 0xF5"
    using eq by (auto split: if_splits)
  then show ?case
  proof cases
    case 1
    with eq IH(1) show ?thesis by (auto simp: utf8_char_def is_scalar_def)
  next
    case 2
    with eq obtain c bs' s' where *: "bs = c # bs'" "is_cont c" "utf8_decode bs' = Some s'"
      "s = ((b - 0xC0) * 64 + (c - 0x80)) # s'"
      by (auto split: list.splits if_splits)
    have IH': "wf_str s' \<and> utf8_nats s' = bs'" using IH(2) 2 * by simp
    define x y where "x = b - 0xC0" and "y = c - 0x80"
    have "b = 0xC0 + x" "c = 0x80 + y" "2 \<le> x" "x < 32" "y < 64"
      using 2 * by (auto simp: x_def y_def is_cont_def)
    then show ?thesis using IH' * by (simp add: utf8_char_2 is_scalar_def)
  next
    case 3
    with eq obtain c d bs' s' where *: "bs = c # d # bs'" "is_cont c" "is_cont d"
      "b = 0xE0 \<longrightarrow> 0xA0 \<le> c" "b = 0xED \<longrightarrow> c < 0xA0" "utf8_decode bs' = Some s'"
      "s = ((b - 0xE0) * 4096 + (c - 0x80) * 64 + (d - 0x80)) # s'"
      by (auto split: list.splits if_splits)
    have IH': "wf_str s' \<and> utf8_nats s' = bs'" using IH(3) 3 * by simp
    define x y z where "x = b - 0xE0" and "y = c - 0x80" and "z = d - 0x80"
    have dig: "b = 0xE0 + x" "c = 0x80 + y" "d = 0x80 + z" "x < 16" "y < 64" "z < 64"
      "x = 0 \<Longrightarrow> 32 \<le> y" "x = 13 \<Longrightarrow> y < 32"
      using 3 * by (auto simp: x_def y_def z_def is_cont_def)
    then have "utf8_char ((x * 64 + y) * 64 + z) = [b, c, d]"
      by (simp only: utf8_char_3)
    moreover have "is_scalar ((x * 64 + y) * 64 + z)"
      using dig(4-8) by (cases "x = 13"; cases "x < 13") (auto simp: is_scalar_def)
    ultimately show ?thesis using IH' *(1,7) by (simp add: x_def y_def z_def mult.commute)
  next
    case 4
    with eq obtain c d e bs' s' where *: "bs = c # d # e # bs'" "is_cont c" "is_cont d" "is_cont e"
      "b = 0xF0 \<longrightarrow> 0x90 \<le> c" "b = 0xF4 \<longrightarrow> c < 0x90" "utf8_decode bs' = Some s'"
      "s = ((b - 0xF0) * 262144 + (c - 0x80) * 4096 + (d - 0x80) * 64 + (e - 0x80)) # s'"
      by (auto split: list.splits if_splits)
    have IH': "wf_str s' \<and> utf8_nats s' = bs'" using IH(4) 4 * by simp
    define w x y z where "w = b - 0xF0" and "x = c - 0x80" and "y = d - 0x80" and "z = e - 0x80"
    have dig: "b = 0xF0 + w" "c = 0x80 + x" "d = 0x80 + y" "e = 0x80 + z" "w < 5" "x < 64" "y < 64"
      "z < 64" "w = 0 \<Longrightarrow> 16 \<le> x" "w = 4 \<Longrightarrow> x < 16"
      using 4 * by (auto simp: w_def x_def y_def z_def is_cont_def)
    then have "utf8_char (((w * 64 + x) * 64 + y) * 64 + z) = [b, c, d, e]"
      by (simp only: utf8_char_4)
    moreover have "is_scalar (((w * 64 + x) * 64 + y) * 64 + z)"
      using dig(5-10) by (cases "w = 4"; cases "w = 0") (auto simp: is_scalar_def)
    ultimately show ?thesis using IH' *(1,8)
      by (simp add: w_def x_def y_def z_def mult.commute)
  qed
qed

definition as_bytes :: "rstr \<Rightarrow> u8 list" where
  "as_bytes s = map of_nat (utf8_nats s)"

definition from_utf8 :: "u8 list \<Rightarrow> rstr option" where
  "from_utf8 bs = utf8_decode (map unat bs)"

definition str_len :: "rstr \<Rightarrow> nat" where
  "str_len s = length (as_bytes s)"

lemma as_bytes_simps [simp]:
  "as_bytes [] = []"
  "as_bytes (s @ t) = as_bytes s @ as_bytes t"
  by (simp_all add: as_bytes_def)

lemma as_bytes_Cons: "as_bytes (c # s) = map of_nat (utf8_char c) @ as_bytes s"
  by (simp add: as_bytes_def)

lemma as_bytes_ascii [simp]: "c < 0x80 \<Longrightarrow> as_bytes (c # s) = of_nat c # as_bytes s"
  by (simp add: as_bytes_Cons utf8_char_def)

lemma unat_as_bytes: "wf_str s \<Longrightarrow> map unat (as_bytes s) = utf8_nats s"
  by (auto simp: as_bytes_def unat_of_nat intro!: map_idI dest: utf8_nats_bytes)

lemma from_utf8_as_bytes [simp]: "wf_str s \<Longrightarrow> from_utf8 (as_bytes s) = Some s"
  by (simp add: from_utf8_def unat_as_bytes utf8_decode_nats)

lemma from_utf8_Some: "from_utf8 bs = Some s \<Longrightarrow> wf_str s \<and> as_bytes s = bs"
  by (auto simp: from_utf8_def as_bytes_def dest!: utf8_decode_Some intro!: map_idI)

lemma as_bytes_inj: "wf_str s \<Longrightarrow> wf_str t \<Longrightarrow> as_bytes s = as_bytes t \<longleftrightarrow> s = t"
  by (metis from_utf8_as_bytes option.inject)

section \<open>Trimming\<close>

text \<open>\<open>char::is_whitespace\<close>: the Unicode \<open>White_Space\<close> property.\<close>

definition is_white :: "nat \<Rightarrow> bool" where
  "is_white c \<longleftrightarrow> (9 \<le> c \<and> c \<le> 13) \<or> c = 32 \<or> c = 0x85 \<or> c = 0xA0 \<or> c = 0x1680 \<or>
     (0x2000 \<le> c \<and> c \<le> 0x200A) \<or> c = 0x2028 \<or> c = 0x2029 \<or> c = 0x202F \<or> c = 0x205F \<or> c = 0x3000"

definition trim :: "rstr \<Rightarrow> rstr" where
  "trim s = rev (dropWhile is_white (rev (dropWhile is_white s)))"

lemma trim_Nil_iff: "trim s = [] \<longleftrightarrow> (\<forall>c \<in> set s. is_white c)"
proof -
  have "(\<forall>c \<in> set (dropWhile is_white s). is_white c) \<longleftrightarrow> (\<forall>c \<in> set s. is_white c)"
    by (induction s) auto
  then show ?thesis by (simp add: trim_def dropWhile_eq_Nil_conv)
qed

text \<open>A string is its own trimming exactly when it does not begin or end with white space.\<close>

lemma trim_id_iff:
  "trim s = s \<longleftrightarrow> s = [] \<or> (\<not> is_white (hd s) \<and> \<not> is_white (last s))"
proof (cases s)
  case Nil
  then show ?thesis by (simp add: trim_def)
next
  case (Cons c r)
  have drop_id: "dropWhile is_white xs = xs \<longleftrightarrow> xs = [] \<or> \<not> is_white (hd xs)" for xs
    by (cases xs) (auto, metis length_dropWhile_le impossible_Cons)
  show ?thesis
  proof (cases "is_white c")
    case True
    have "length (trim s) \<le> length (dropWhile is_white s)"
      by (simp add: trim_def) (metis length_dropWhile_le length_rev)
    also have "\<dots> < length s"
      using True Cons by (simp add: le_imp_less_Suc length_dropWhile_le)
    finally show ?thesis using True Cons by auto
  next
    case False
    then have "trim s = rev (dropWhile is_white (rev s))"
      using Cons by (simp add: trim_def)
    then have "trim s = s \<longleftrightarrow> dropWhile is_white (rev s) = rev s"
      by (metis rev_swap)
    also have "\<dots> \<longleftrightarrow> \<not> is_white (last s)"
      using Cons by (simp add: drop_id hd_rev del: rev.simps)
    finally show ?thesis using False Cons by simp
  qed
qed

section \<open>Numbers as text\<close>

text \<open>\<open>to_string\<close> of an unsigned integer.\<close>

fun dec :: "nat \<Rightarrow> rstr" where
  "dec n = (if n < 10 then [48 + n] else dec (n div 10) @ [48 + n mod 10])"

declare dec.simps [simp del]

definition is_digit :: "nat \<Rightarrow> bool" where
  "is_digit c \<longleftrightarrow> 48 \<le> c \<and> c \<le> 57"

definition dec_value :: "rstr \<Rightarrow> nat" where
  "dec_value s = foldl (\<lambda>v c. 10 * v + (c - 48)) 0 s"

lemma dec_digits: "c \<in> set (dec n) \<Longrightarrow> is_digit c"
proof (induction n rule: dec.induct)
  case (1 n)
  then show ?case by (cases "n < 10") (auto simp: dec.simps [of n] is_digit_def)
qed

lemma dec_nonempty [simp]: "dec n \<noteq> []"
  by (simp add: dec.simps [of n])

lemma dec_value_dec [simp]: "dec_value (dec n) = n"
proof (induction n rule: dec.induct)
  case (1 n)
  show ?case
  proof (cases "n < 10")
    case True
    then show ?thesis by (simp add: dec.simps [of n] dec_value_def)
  next
    case False
    with 1 have "dec_value (dec (n div 10)) = n div 10" by simp
    with False show ?thesis by (simp add: dec.simps [of n] dec_value_def)
  qed
qed

lemma dec_inj: "dec m = dec n \<longleftrightarrow> m = n"
  by (metis dec_value_dec)

text \<open>No leading zero: the text is a single \<open>0\<close> or starts with another digit.\<close>

lemma dec_hd: "hd (dec n) = 48 \<longleftrightarrow> n = 0"
proof (induction n rule: dec.induct)
  case (1 n)
  show ?case
  proof (cases "n < 10")
    case True
    then show ?thesis by (simp add: dec.simps [of n])
  next
    case False
    then have "n div 10 \<noteq> 0" by simp
    with 1 False show ?thesis by (simp add: dec.simps [of n])
  qed
qed

end
