(* ===== verification/Sha256.thy ===== *)
theory Sha256
  imports Rust_Str
begin

unbundle bit_operations_syntax

text \<open>
  \<open>nnis-core/src/sha256.rs\<close>: the dependency-free SHA-256 that fingerprints artifacts and
  evidence.  The hasher is modelled as the code keeps it: the chaining value, a 64-byte block
  buffer of which the first \<open>buffered\<close> bytes are live, and a wrapping 64-bit byte count.  The
  lemmas show that the buffering is invisible: any sequence of updates followed by
  \<open>finalize\<close> is the digest of the concatenation, as the FIPS 180-4 reading \<open>sha256_spec\<close> (pad, cut
  into blocks, fold the compression function) defines it.
\<close>

section \<open>The compression function\<close>

text \<open>The round constants \<open>K\<close> of the source, written in decimal, eight to a line as there.\<close>

definition sha_K :: "32 word list" where
  "sha_K = [
    1116352408, 1899447441, 3049323471, 3921009573, 961987163, 1508970993, 2453635748, 2870763221,
    3624381080, 310598401, 607225278, 1426881987, 1925078388, 2162078206, 2614888103, 3248222580,
    3835390401, 4022224774, 264347078, 604807628, 770255983, 1249150122, 1555081692, 1996064986,
    2554220882, 2821834349, 2952996808, 3210313671, 3336571891, 3584528711, 113926993, 338241895,
    666307205, 773529912, 1294757372, 1396182291, 1695183700, 1986661051, 2177026350, 2456956037,
    2730485921, 2820302411, 3259730800, 3345764771, 3516065817, 3600352804, 4094571909, 275423344,
    430227734, 506948616, 659060556, 883997877, 958139571, 1322822218, 1537002063, 1747873779,
    1955562222, 2024104815, 2227730452, 2361852424, 2428436474, 2756734187, 3204031479, 3329325298]"

definition sha_H0 :: "32 word list" where
  "sha_H0 = [0x6a09e667, 0xbb67ae85, 0x3c6ef372, 0xa54ff53a, 0x510e527f, 0x9b05688c, 0x1f83d9ab,
    0x5be0cd19]"

definition be_word :: "u8 list \<Rightarrow> 32 word" where
  "be_word bs = push_bit 24 (ucast (bs ! 0)) OR push_bit 16 (ucast (bs ! 1)) OR
     push_bit 8 (ucast (bs ! 2)) OR ucast (bs ! 3)"

definition be_bytes32 :: "32 word \<Rightarrow> u8 list" where
  "be_bytes32 w = [ucast (drop_bit 24 w), ucast (drop_bit 16 w), ucast (drop_bit 8 w), ucast w]"

definition be_bytes64 :: "64 word \<Rightarrow> u8 list" where
  "be_bytes64 w = [ucast (drop_bit 56 w), ucast (drop_bit 48 w), ucast (drop_bit 40 w),
     ucast (drop_bit 32 w), ucast (drop_bit 24 w), ucast (drop_bit 16 w), ucast (drop_bit 8 w), ucast w]"

definition small_sigma0 :: "32 word \<Rightarrow> 32 word" where
  "small_sigma0 x = word_rotr 7 x XOR word_rotr 18 x XOR drop_bit 3 x"

definition small_sigma1 :: "32 word \<Rightarrow> 32 word" where
  "small_sigma1 x = word_rotr 17 x XOR word_rotr 19 x XOR drop_bit 10 x"

text \<open>The two loops that fill \<open>w\<close>, on an array of 64 words.\<close>

definition load_block :: "u8 list \<Rightarrow> 32 word list" where
  "load_block block =
     fold (\<lambda>(index, chunk) w. w[index := be_word chunk])
       (enumerate 0 (chunks_exact 4 block)) (replicate 64 0)"

definition extend_step :: "nat \<Rightarrow> 32 word list \<Rightarrow> 32 word list" where
  "extend_step index w =
     w[index := w ! (index - 16) + small_sigma0 (w ! (index - 15)) + w ! (index - 7) +
                small_sigma1 (w ! (index - 2))]"

definition message_schedule :: "u8 list \<Rightarrow> 32 word list" where
  "message_schedule block = fold extend_step [16..<64] (load_block block)"

type_synonym working_vars =
  "32 word \<times> 32 word \<times> 32 word \<times> 32 word \<times> 32 word \<times> 32 word \<times> 32 word \<times> 32 word"

fun round_step :: "32 word list \<Rightarrow> nat \<Rightarrow> working_vars \<Rightarrow> working_vars" where
  "round_step w index (a, b, c, d, e, f, g, h) =
     (let s1 = word_rotr 6 e XOR word_rotr 11 e XOR word_rotr 25 e;
          ch = (e AND f) XOR ((NOT e) AND g);
          t1 = h + s1 + ch + sha_K ! index + w ! index;
          s0 = word_rotr 2 a XOR word_rotr 13 a XOR word_rotr 22 a;
          majority = (a AND b) XOR (a AND c) XOR (b AND c);
          t2 = s0 + majority
      in (t1 + t2, a, b, c, d + t1, e, f, g))"

definition compress :: "32 word list \<Rightarrow> u8 list \<Rightarrow> 32 word list" where
  "compress state block =
     (let w = message_schedule block;
          (a, b, c, d, e, f, g, h) =
            fold (round_step w) [0..<64]
              (state ! 0, state ! 1, state ! 2, state ! 3, state ! 4, state ! 5, state ! 6, state ! 7)
      in map2 (+) state [a, b, c, d, e, f, g, h])"

lemma length_compress [simp]: "length st = 8 \<Longrightarrow> length (compress st block) = 8"
  by (simp add: compress_def Let_def split: prod.split)

text \<open>The array loop computes the recursive message schedule of the standard.\<close>

fun fips_W :: "u8 list \<Rightarrow> nat \<Rightarrow> 32 word" where
  "fips_W block t =
     (if t < 16 then be_word (slice (4 * t) 4 block)
      else small_sigma1 (fips_W block (t - 2)) + fips_W block (t - 7) +
           small_sigma0 (fips_W block (t - 15)) + fips_W block (t - 16))"

declare fips_W.simps [simp del]

lemma chunks_exact_nth:
  "0 < n \<Longrightarrow> i < length xs div n \<Longrightarrow> chunks_exact n xs ! i = slice (n * i) n xs"
proof (induction n xs arbitrary: i rule: chunks_exact.induct)
  case (1 n xs)
  then have ge: "\<not> length xs < n" by auto
  show ?case
  proof (cases i)
    case 0
    then show ?thesis using ge 1(2) by (simp add: chunks_exact.simps [of n xs] slice_def)
  next
    case (Suc j)
    have "j < length (drop n xs) div n"
      using 1(3) Suc ge 1(2) by (simp add: le_div_geq)
    then have "chunks_exact n (drop n xs) ! j = slice (n * j) n (drop n xs)"
      using 1 ge by simp
    then show ?thesis
      using ge 1(2) Suc by (simp add: chunks_exact.simps [of n xs] slice_def add.commute)
  qed
qed

lemma fold_enumerate_update:
  "k + length xs \<le> length ys \<Longrightarrow>
   fold (\<lambda>(i, x) w. w[i := f x]) (enumerate k xs) ys = overwrite k (map f xs) ys"
proof (induction xs arbitrary: k ys)
  case Nil
  then show ?case by (simp add: overwrite_def)
next
  case (Cons x xs)
  have "overwrite (Suc k) (map f xs) (ys[k := f x]) = overwrite k (map f (x # xs)) ys"
    using Cons.prems by (auto simp: overwrite_def take_Suc_conv_app_nth list_update_append
        upd_conv_take_nth_drop add.commute)
  then show ?case using Cons by simp
qed

lemma load_block_nth:
  assumes "length block = 64"
  shows "i < 16 \<Longrightarrow> load_block block ! i = fips_W block i" and "length (load_block block) = 64"
proof -
  have len: "length (chunks_exact 4 block) = 16"
    using assms by (simp add: length_chunks_exact)
  then have eq: "load_block block = overwrite 0 (map be_word (chunks_exact 4 block)) (replicate 64 0)"
    unfolding load_block_def by (intro fold_enumerate_update) simp
  show "length (load_block block) = 64" using eq len by simp
  show "load_block block ! i = fips_W block i" if "i < 16"
    using eq len assms that by (simp add: nth_overwrite fips_W.simps [of block i] chunks_exact_nth)
qed

lemma extend_prefix:
  assumes "length block = 64" "16 \<le> n" "n \<le> 64"
  shows "length (fold extend_step [16..<n] (load_block block)) = 64 \<and>
    (\<forall>t < n. fold extend_step [16..<n] (load_block block) ! t = fips_W block t)"
  using assms(2,3)
proof (induction n rule: nat_induct_at_least)
  case base
  then show ?case using assms(1) load_block_nth by simp
next
  case (Suc n)
  define w where "w = fold extend_step [16..<n] (load_block block)"
  have w: "length w = 64" "\<And>t. t < n \<Longrightarrow> w ! t = fips_W block t"
    using Suc by (simp_all add: w_def)
  have step: "fold extend_step [16..<Suc n] (load_block block) = extend_step n w"
    using Suc by (simp add: w_def)
  have "extend_step n w ! t = fips_W block t" if "t < Suc n" for t
    using that w \<open>16 \<le> n\<close> \<open>Suc n \<le> 64\<close>
    by (cases "t = n") (simp_all add: extend_step_def fips_W.simps [of block n] ac_simps)
  moreover have "length (extend_step n w) = 64" using w(1) by (simp add: extend_step_def)
  ultimately show ?case unfolding step by blast
qed

lemma message_schedule_fips:
  "length block = 64 \<Longrightarrow> t < 64 \<Longrightarrow> message_schedule block ! t = fips_W block t"
  using extend_prefix [of block 64] by (simp add: message_schedule_def)

section \<open>The incremental hasher\<close>

record sha256 =
  sha_state :: "32 word list"
  sha_buffer :: "u8 list"
  sha_buffered :: nat
  sha_length :: "64 word"

definition sha_new :: sha256 where
  "sha_new = \<lparr>sha_state = sha_H0, sha_buffer = replicate 64 0, sha_buffered = 0, sha_length = 0\<rparr>"

definition sha_absorb :: "sha256 \<Rightarrow> u8 list \<Rightarrow> sha256" where
  "sha_absorb h bytes =
     (let rest = chunks_remainder 64 bytes
      in h\<lparr>sha_state := foldl compress (sha_state h) (chunks_exact 64 bytes),
           sha_buffer := overwrite 0 rest (sha_buffer h),
           sha_buffered := length rest\<rparr>)"

definition sha_update :: "sha256 \<Rightarrow> u8 list \<Rightarrow> sha256" where
  "sha_update h0 bytes =
     (let h = h0\<lparr>sha_length := sha_length h0 + of_nat (length bytes)\<rparr>
      in if sha_buffered h > 0 then
           let taken = min (64 - sha_buffered h) (length bytes);
               buffer = overwrite (sha_buffered h) (take taken bytes) (sha_buffer h);
               buffered = sha_buffered h + taken;
               bytes' = drop taken bytes
           in if buffered < 64 then h\<lparr>sha_buffer := buffer, sha_buffered := buffered\<rparr>
              else sha_absorb
                     (h\<lparr>sha_buffer := buffer, sha_state := compress (sha_state h) buffer,
                        sha_buffered := 0\<rparr>) bytes'
         else sha_absorb h bytes)"

definition sha_finalize :: "sha256 \<Rightarrow> u8 list" where
  "sha_finalize h =
     (let bit_length = sha_length h * 8;
          padding = 0x80 # replicate 71 0;
          pad_len = if sha_buffered h < 56 then 56 - sha_buffered h else 120 - sha_buffered h;
          h1 = sha_update h (take pad_len padding);
          h2 = sha_update h1 (be_bytes64 bit_length)
      in concat (map be_bytes32 (sha_state h2)))"

definition sha256_digest :: "u8 list \<Rightarrow> u8 list" where
  "sha256_digest bytes = sha_finalize (sha_update sha_new bytes)"

section \<open>What the hasher computes\<close>

definition sha_pad :: "u8 list \<Rightarrow> u8 list" where
  "sha_pad m =
     (let r = length m mod 64; zeros = (if r < 56 then 55 - r else 119 - r)
      in 0x80 # replicate zeros 0 @ be_bytes64 (of_nat (8 * length m)))"

definition sha256_spec :: "u8 list \<Rightarrow> u8 list" where
  "sha256_spec m = concat (map be_bytes32 (foldl compress sha_H0 (chunks_exact 64 (m @ sha_pad m))))"

text \<open>The state after absorbing \<open>m\<close>: only the first \<open>buffered\<close> bytes of the buffer are determined.\<close>

definition sha_holds :: "sha256 \<Rightarrow> u8 list \<Rightarrow> bool" where
  "sha_holds h m \<longleftrightarrow>
     sha_state h = foldl compress sha_H0 (chunks_exact 64 m) \<and>
     length (sha_buffer h) = 64 \<and>
     sha_buffered h = length m mod 64 \<and>
     take (sha_buffered h) (sha_buffer h) = chunks_remainder 64 m \<and>
     sha_length h = of_nat (length m)"

lemma sha_holds_new: "sha_holds sha_new []"
  by (simp add: sha_holds_def sha_new_def)

lemma sha_absorb_holds:
  assumes "sha_state h = foldl compress sha_H0 (chunks_exact 64 m)" "chunks_remainder 64 m = []"
    and "length (sha_buffer h) = 64" "sha_length h = of_nat (length (m @ bytes))"
  shows "sha_holds (sha_absorb h bytes) (m @ bytes)"
proof -
  have len: "length (chunks_remainder 64 bytes) < 64"
    by (simp add: length_chunks_remainder)
  have "length m mod 64 = 0"
    using arg_cong [OF assms(2), of length] by (simp add: length_chunks_remainder)
  then have "length (m @ bytes) mod 64 = length bytes mod 64"
    by (metis add_0 length_append mod_add_left_eq)
  then show ?thesis
    using assms len chunks_exact_split [of 64 m bytes] chunks_remainder_split [of 64 m bytes]
    by (simp add: sha_holds_def sha_absorb_def Let_def length_chunks_remainder overwrite_def)
qed

lemma sha_update_holds:
  assumes "sha_holds h m"
  shows "sha_holds (sha_update h bytes) (m @ bytes)"
proof -
  let ?n = "sha_buffered h" and ?rem = "chunks_remainder 64 m"
  have h: "sha_state h = foldl compress sha_H0 (chunks_exact 64 m)" "length (sha_buffer h) = 64"
    "?n = length m mod 64" "take ?n (sha_buffer h) = ?rem" "sha_length h = of_nat (length m)"
    using assms unfolding sha_holds_def by blast+
  have n: "?n < 64" "length ?rem = ?n"
    using h by (simp_all add: length_chunks_remainder)
  consider (empty) "?n = 0" | (fits) "?n > 0" "?n + length bytes < 64"
    | (fills) "?n > 0" "64 \<le> ?n + length bytes" by linarith
  then show ?thesis
  proof cases
    case empty
    then have "?rem = []" using n by simp
    then show ?thesis
      using empty h by (simp add: sha_update_def Let_def) (rule sha_absorb_holds; simp)
  next
    case fits
    have "chunks_exact 64 (m @ bytes) = chunks_exact 64 m"
      "chunks_remainder 64 (m @ bytes) = ?rem @ bytes"
      using fits n chunks_exact_split [of 64 m bytes] chunks_remainder_split [of 64 m bytes]
      by simp_all
    moreover have "length (m @ bytes) mod 64 = ?n + length bytes"
      using fits h(3) by (metis length_append mod_add_left_eq mod_less)
    moreover have "sha_update h bytes =
        h\<lparr>sha_length := sha_length h + of_nat (length bytes),
          sha_buffer := overwrite ?n bytes (sha_buffer h), sha_buffered := ?n + length bytes\<rparr>"
      using fits by (simp add: sha_update_def Let_def)
    moreover have "take (?n + length bytes) (overwrite ?n bytes (sha_buffer h)) = ?rem @ bytes"
      using fits h(2,4) n(2) by (simp add: overwrite_def)
    moreover have "length (overwrite ?n bytes (sha_buffer h)) = 64"
      using fits h(2) by simp
    ultimately show ?thesis
      using h(1,5) by (simp add: sha_holds_def)
  next
    case fills
    let ?t = "64 - ?n"
    let ?buf = "overwrite ?n (take ?t bytes) (sha_buffer h)"
    have buf: "?buf = ?rem @ take ?t bytes"
      using fills h n by (simp add: overwrite_def min_def)
    have len: "length (?rem @ take ?t bytes) = 64"
      using fills n by simp
    have "chunks_exact 64 (m @ take ?t bytes) = chunks_exact 64 m @ [?buf]"
      "chunks_remainder 64 (m @ take ?t bytes) = []"
      using chunks_exact_split [of 64 m "take ?t bytes"] chunks_remainder_split [of 64 m "take ?t bytes"]
        chunks_exact_append [of 64 "?rem @ take ?t bytes" "[]"] len buf
      by (simp_all add: chunks_remainder_def)
    then have "sha_holds (sha_absorb (h\<lparr>sha_length := sha_length h + of_nat (length bytes),
        sha_buffer := ?buf, sha_state := compress (sha_state h) ?buf, sha_buffered := 0\<rparr>)
        (drop ?t bytes)) ((m @ take ?t bytes) @ drop ?t bytes)"
      using h len buf by (intro sha_absorb_holds) simp_all
    moreover have "min ?t (length bytes) = ?t" "\<not> ?n + ?t < 64"
      using fills by simp_all
    then have "sha_update h bytes = sha_absorb (h\<lparr>sha_length := sha_length h + of_nat (length bytes),
        sha_buffer := ?buf, sha_state := compress (sha_state h) ?buf, sha_buffered := 0\<rparr>)
        (drop ?t bytes)"
      using fills(1) by (simp add: sha_update_def Let_def)
    ultimately show ?thesis by simp
  qed
qed

lemma sha_updates_hold:
  "sha_holds h m \<Longrightarrow> sha_holds (foldl sha_update h parts) (m @ concat parts)"
proof (induction parts arbitrary: h m)
  case Nil
  then show ?case by simp
next
  case (Cons p ps)
  from sha_update_holds [OF Cons.prems] have "sha_holds (sha_update h p) (m @ p)" .
  from Cons.IH [OF this] show ?case by simp
qed

lemma sha_finalize_holds:
  assumes "sha_holds h m"
  shows "sha_finalize h = sha256_spec m"
proof -
  define zeros where "zeros = (if sha_buffered h < 56 then 55 - sha_buffered h else 119 - sha_buffered h)"
  define pad :: "u8 list" where "pad = 0x80 # replicate zeros 0"
  have r: "sha_buffered h = length m mod 64" "sha_length h = of_nat (length m)"
    using assms by (simp_all add: sha_holds_def)
  have lt: "sha_buffered h < 64" using r by simp
  have take_pad: "take (if sha_buffered h < 56 then 56 - sha_buffered h else 120 - sha_buffered h)
      (0x80 # replicate 71 (0::u8)) = pad"
    using lt by (auto simp: pad_def zeros_def take_Cons' min_def)
  have "sha_holds (sha_update (sha_update h pad) (be_bytes64 (sha_length h * 8)))
      ((m @ pad) @ be_bytes64 (sha_length h * 8))"
    by (intro sha_update_holds assms)
  moreover have "(m @ pad) @ be_bytes64 (sha_length h * 8) = m @ sha_pad m"
    using r by (simp add: sha_pad_def pad_def zeros_def Let_def mult.commute)
  ultimately show ?thesis
    by (simp add: sha_finalize_def Let_def take_pad sha256_spec_def) (simp add: sha_holds_def)
qed

section \<open>The contract of an incremental hasher\<close>

text \<open>What the fingerprinting code relies on: how the input is cut into updates does not matter.\<close>

locale incremental_hash =
  fixes fresh :: 'h
    and absorb :: "'h \<Rightarrow> u8 list \<Rightarrow> 'h"
    and finish :: "'h \<Rightarrow> u8 list"
    and digest :: "u8 list \<Rightarrow> u8 list"
  assumes finish_parts: "finish (foldl absorb fresh parts) = digest (concat parts)"
begin

lemma finish_regroup:
  "concat parts = concat parts' \<Longrightarrow>
   finish (foldl absorb fresh parts) = finish (foldl absorb fresh parts')"
  by (simp add: finish_parts)

lemma finish_one: "finish (absorb fresh m) = digest m"
  using finish_parts [of "[m]"] by simp

lemma finish_append:
  "finish (absorb (foldl absorb fresh parts) m) = digest (concat parts @ m)"
  using finish_parts [of "parts @ [m]"] by simp

end

interpretation sha: incremental_hash sha_new sha_update sha_finalize sha256_spec
proof unfold_locales
  fix parts
  have "sha_holds (foldl sha_update sha_new parts) ([] @ concat parts)"
    by (rule sha_updates_hold [OF sha_holds_new])
  then show "sha_finalize (foldl sha_update sha_new parts) = sha256_spec (concat parts)"
    using sha_finalize_holds by simp
qed

lemma length_digest [simp]: "length (sha256_spec m) = 32"
proof -
  have "length (foldl compress st bs) = 8" if "length st = 8" for st :: "32 word list" and bs
    using that by (induction bs arbitrary: st) simp_all
  then have "length (foldl compress sha_H0 (chunks_exact 64 (m @ sha_pad m))) = 8"
    by (simp add: sha_H0_def)
  moreover have "length (concat (map be_bytes32 ws)) = 4 * length ws" for ws
    by (induction ws) (simp_all add: be_bytes32_def)
  ultimately show ?thesis by (simp add: sha256_spec_def)
qed

section \<open>Hexadecimal text\<close>

definition hex_digit :: "nat \<Rightarrow> nat" where
  "hex_digit n = lit ''0123456789abcdef'' ! n"

definition to_hex :: "u8 list \<Rightarrow> rstr" where
  "to_hex digest = concat (map (\<lambda>b. [hex_digit (unat (drop_bit 4 b)), hex_digit (unat (b AND 0xF))]) digest)"

definition is_lower_hex :: "nat \<Rightarrow> bool" where
  "is_lower_hex c \<longleftrightarrow> is_digit c \<or> (97 \<le> c \<and> c \<le> 102)"

lemma hex_digit_eq: "n < 16 \<Longrightarrow> hex_digit n = (if n < 10 then 48 + n else 87 + n)"
proof -
  have "\<forall>n \<in> set [0..<16]. hex_digit n = (if n < 10 then 48 + n else 87 + n)"
    by code_simp
  then show "n < 16 \<Longrightarrow> ?thesis" by simp
qed

lemma nibbles:
  fixes b :: u8
  shows "unat (drop_bit 4 b) = unat b div 16" and "unat (b AND 0xF) = unat b mod 16"
    and "unat (drop_bit 4 b) < 16"
proof -
  show *: "unat (drop_bit 4 b) = unat b div 16"
    by (simp only: unat_drop_bit_eq) (simp add: drop_bit_eq_div)
  have "b AND 0xF = take_bit 4 b"
    by (simp add: take_bit_eq_mask mask_eq_exp_minus_1)
  then show "unat (b AND 0xF) = unat b mod 16"
    by (simp only: unsigned_take_bit_eq) (simp add: take_bit_eq_mod)
  show "unat (drop_bit 4 b) < 16"
    using unsigned_less [of b, where ?'a = nat] by (simp add: *)
qed

lemma to_hex_simps [simp]:
  "to_hex [] = []"
  "to_hex (b # bs) = hex_digit (unat b div 16) # hex_digit (unat b mod 16) # to_hex bs"
  by (simp_all add: to_hex_def nibbles)

lemma length_to_hex [simp]: "length (to_hex bs) = 2 * length bs"
  by (induction bs) simp_all

lemma hex_digit_inj: "m < 16 \<Longrightarrow> n < 16 \<Longrightarrow> hex_digit m = hex_digit n \<longleftrightarrow> m = n"
  by (auto simp: hex_digit_eq split: if_splits)

lemma unat_div16: "unat (b::u8) div 16 < 16"
  using unsigned_less [of b, where ?'a = nat] by simp

lemma to_hex_inj: "to_hex a = to_hex b \<Longrightarrow> a = b"
proof (induction a arbitrary: b)
  case Nil
  then show ?case by (cases b) simp_all
next
  case (Cons x xs)
  then obtain y ys where b: "b = y # ys" by (cases b) auto
  with Cons.prems have "unat x div 16 = unat y div 16" "unat x mod 16 = unat y mod 16"
    by (simp_all add: hex_digit_inj unat_div16)
  then have "unat x = unat y" by (metis div_mult_mod_eq)
  then have "x = y" by (simp only: word_unat_eq_iff)
  then show ?case using Cons b by simp
qed

lemma to_hex_lower: "c \<in> set (to_hex bs) \<Longrightarrow> is_lower_hex c"
proof (induction bs)
  case Nil
  then show ?case by simp
next
  case (Cons b bs)
  have hex: "is_lower_hex (hex_digit n)" if "n < 16" for n
    using that by (simp add: hex_digit_eq is_lower_hex_def is_digit_def)
  from Cons show ?case by (auto simp: hex unat_div16)
qed

section \<open>Properties\<close>

text \<open>Buffering is invisible: absorbing any sequence of pieces and finalizing gives the one-shot
  digest of their concatenation, so splitting the input differently never changes a fingerprint.\<close>

theorem sha_updates_one_shot:
  "sha_finalize (foldl sha_update sha_new parts) = sha256_digest (concat parts)"
  by (simp add: sha256_digest_def sha.finish_parts sha.finish_one)

text \<open>C38. The one-shot digest is the FIPS 180-4 construction: pad with 0x80, zeros and the 64-bit bit
  length, cut into 64-byte blocks, fold the compression function from the initial value; and the
  message schedule each compression uses is the recurrence of the standard.\<close>

theorem sha256_digest_fips:
  "sha256_digest m = sha256_spec m \<and> (length m + length (sha_pad m)) mod 64 = 0 \<and>
   (\<forall>block \<in> set (chunks_exact 64 (m @ sha_pad m)). \<forall>t \<in> {..<64}.
      message_schedule block ! t = fips_W block t)"
proof -
  have "(length m + length (sha_pad m)) mod 64 = 0"
  proof (cases "length m mod 64 < 56")
    case True
    then have "length (sha_pad m) = 64 - length m mod 64"
      by (simp add: sha_pad_def Let_def be_bytes64_def)
    then show ?thesis using True by presburger
  next
    case False
    then have "length (sha_pad m) = 128 - length m mod 64"
      by (simp add: sha_pad_def Let_def be_bytes64_def)
    then show ?thesis using False by presburger
  qed
  then show ?thesis
    by (auto simp: sha256_digest_def sha.finish_one message_schedule_fips dest: chunks_exact_lengths)
qed

theorem sha256_digest_fips_witness:
  "message_schedule (take 64 (sha_pad [])) ! 0 = fips_W (take 64 (sha_pad [])) 0"
proof -
  have len: "length (sha_pad []) = 64"
    by (simp add: sha_pad_def Let_def be_bytes64_def)
  then have "chunks_exact 64 ([] @ sha_pad []) = [sha_pad []]"
    using chunks_exact_append [of 64 "sha_pad []" "[]"] by simp
  then show ?thesis using sha256_digest_fips [of "[]"] len by simp
qed

text \<open>The FIPS 180-4 test vector for \<open>abc\<close>, evaluated by the kernel through the padding, all 64
  rounds and the hexadecimal encoding.\<close>

theorem sha256_abc_vector:
  "to_hex (sha256_digest (as_bytes (lit ''abc''))) =
   lit ''ba7816bf8f01cfea414140de5dae2223b00361a396177a9cb410ff61f20015ad''"
  by code_simp

text \<open>A rendered fingerprint is 64 lowercase hexadecimal digits and determines the digest bytes.\<close>

theorem to_hex_faithful:
  "length (to_hex (sha256_digest m)) = 64 \<and> list_all is_lower_hex (to_hex (sha256_digest m)) \<and>
   (to_hex a = to_hex b \<longleftrightarrow> a = b)"
  by (auto simp: sha256_digest_def sha.finish_one list_all_iff to_hex_lower dest: to_hex_inj)

end
