(* ===== verification/F32_Bits.thy ===== *)
theory F32_Bits
  imports NNIS_Prelude
begin

unbundle bit_operations_syntax

text \<open>
  Rust's \<open>f32\<close> as its IEEE 754 bit pattern.  The comparisons and classifications the program uses
  are exact on bit patterns: a value is finite when its exponent field is not all ones, and the
  order of two numbers is the order of their signed magnitudes, with both zeros equal and
  every comparison with a NaN false.  Also \<open>nnis-rt/src/bf16.rs\<close>, the two conversions between
  \<open>f32\<close> and \<open>bfloat16\<close>.
\<close>

type_synonym f32 = "32 word"

definition f32_mag :: "f32 \<Rightarrow> nat" where
  "f32_mag x = unat (x AND 0x7FFFFFFF)"

definition f32_sign_negative :: "f32 \<Rightarrow> bool" where
  "f32_sign_negative x \<longleftrightarrow> bit x 31"

definition f32_is_nan :: "f32 \<Rightarrow> bool" where
  "f32_is_nan x \<longleftrightarrow> f32_mag x > 0x7F800000"

definition f32_is_finite :: "f32 \<Rightarrow> bool" where
  "f32_is_finite x \<longleftrightarrow> f32_mag x < 0x7F800000"

definition f32_key :: "f32 \<Rightarrow> int" where
  "f32_key x = (if f32_sign_negative x then - int (f32_mag x) else int (f32_mag x))"

definition f32_le :: "f32 \<Rightarrow> f32 \<Rightarrow> bool" where
  "f32_le x y \<longleftrightarrow> \<not> f32_is_nan x \<and> \<not> f32_is_nan y \<and> f32_key x \<le> f32_key y"

definition f32_lt :: "f32 \<Rightarrow> f32 \<Rightarrow> bool" where
  "f32_lt x y \<longleftrightarrow> \<not> f32_is_nan x \<and> \<not> f32_is_nan y \<and> f32_key x < f32_key y"

definition f32_zero :: f32 where "f32_zero = 0"
definition f32_one :: f32 where "f32_one = 0x3F800000"

lemma f32_finite_not_nan: "f32_is_finite x \<Longrightarrow> \<not> f32_is_nan x"
  by (simp add: f32_is_finite_def f32_is_nan_def)

lemma f32_key_zero [simp]: "f32_key f32_zero = 0" and f32_zero_not_nan [simp]: "\<not> f32_is_nan f32_zero"
  by (simp_all add: f32_key_def f32_zero_def f32_mag_def f32_is_nan_def)

lemma f32_le_refl: "\<not> f32_is_nan x \<Longrightarrow> f32_le x x"
  by (simp add: f32_le_def)

lemma f32_le_trans: "f32_le x y \<Longrightarrow> f32_le y z \<Longrightarrow> f32_le x z"
  by (simp add: f32_le_def)

lemma f32_le_not_lt: "\<not> f32_is_nan x \<Longrightarrow> \<not> f32_is_nan y \<Longrightarrow> f32_le x y \<longleftrightarrow> \<not> f32_lt y x"
  by (auto simp: f32_le_def f32_lt_def)

text \<open>\<open>(0.0..=1.0).contains(x)\<close>.\<close>

definition f32_in_unit :: "f32 \<Rightarrow> bool" where
  "f32_in_unit x \<longleftrightarrow> f32_le f32_zero x \<and> f32_le x f32_one"

lemma f32_in_unit_finite: "f32_in_unit x \<Longrightarrow> f32_is_finite x"
proof -
  assume *: "f32_in_unit x"
  have "f32_key f32_one = 0x3F800000"
    by (simp add: f32_key_def f32_one_def f32_mag_def f32_sign_negative_def bit_iff_odd)
  with * have "0 \<le> f32_key x" "f32_key x \<le> 0x3F800000"
    by (simp_all add: f32_in_unit_def f32_le_def)
  then have "f32_mag x \<le> 0x3F800000"
    by (simp add: f32_key_def split: if_splits)
  then show ?thesis by (simp add: f32_is_finite_def)
qed

section \<open>bfloat16\<close>

type_synonym bf16 = "16 word"

definition f32_to_bf16_rne :: "f32 \<Rightarrow> bf16" where
  "f32_to_bf16_rne bits =
     (if bits AND 0x7FFFFFFF > 0x7F800000 then ucast (drop_bit 16 (bits OR 0x00400000))
      else let lsb = drop_bit 16 bits AND 1; rounded = bits + (0x7FFF + lsb)
           in ucast (drop_bit 16 rounded))"

definition bf16_bits_to_f32 :: "bf16 \<Rightarrow> f32" where
  "bf16_bits_to_f32 bits = push_bit 16 (ucast bits)"

definition bf16_is_nan :: "bf16 \<Rightarrow> bool" where
  "bf16_is_nan b \<longleftrightarrow> unat (b AND 0x7FFF) > 0x7F80"

lemma unat_and_mask:
  fixes x :: "'a::len word"
  shows "unat (x AND mask n) = unat x mod 2 ^ n"
  by (simp add: unsigned_and_eq take_bit_eq_mask [symmetric] take_bit_eq_mod)
     (metis take_bit_eq_mask take_bit_eq_mod unsigned_take_bit_eq)

lemma f32_mag_mod: "f32_mag x = unat x mod 2 ^ 31"
  using unat_and_mask [of x 31] by (simp add: f32_mag_def mask_eq_exp_minus_1)

lemma f32_nan_word: "x AND 0x7FFFFFFF > 0x7F800000 \<longleftrightarrow> f32_is_nan x"
  by (simp add: f32_is_nan_def f32_mag_def word_less_nat_alt)

lemma unat_high_half: "unat (ucast (drop_bit 16 (x :: f32)) :: bf16) = unat x div 65536"
proof -
  have "unat (drop_bit 16 x) = unat x div 65536"
    by (simp only: unat_drop_bit_eq) (simp add: drop_bit_eq_div)
  moreover have "unat x div 65536 < 65536"
    using unsigned_less [of x, where ?'a = nat] by simp
  ultimately show ?thesis
    by (simp add: unsigned_ucast_eq take_bit_eq_mod)
qed

text \<open>Away from NaN the addition does not wrap: the largest such pattern is minus infinity.\<close>

lemma bf16_rne_value:
  assumes "\<not> f32_is_nan x"
  shows "unat (f32_to_bf16_rne x) = (unat x + 0x7FFF + unat x div 65536 mod 2) div 65536"
proof -
  define l where "l = drop_bit 16 x AND 1"
  have l: "unat l = unat x div 65536 mod 2"
    using unat_and_mask [of "drop_bit 16 x" 1]
    by (simp add: l_def mask_eq_exp_minus_1)
       (simp only: unat_drop_bit_eq, simp add: drop_bit_eq_div)
  have "unat x mod 2147483648 \<le> 0x7F800000" "unat x < 4294967296"
    using assms unsigned_less [of x, where ?'a = nat]
    by (simp_all add: f32_is_nan_def f32_mag_mod)
  moreover have "unat x = unat x div 2147483648 * 2147483648 + unat x mod 2147483648"
    by (simp only: div_mult_mod_eq)
  moreover have "unat x div 2147483648 \<le> 1"
    using \<open>unat x < 4294967296\<close> by (simp add: less_mult_imp_div_less less_Suc_eq_le [symmetric])
  ultimately have bound: "unat x \<le> 0xFF800000" by linarith
  have "unat (0x7FFF + l) = 0x7FFF + unat l"
    using l by (simp add: unat_word_ariths)
  then have "unat (x + (0x7FFF + l)) = unat x + (0x7FFF + unat l)"
    using bound l by (simp add: unat_word_ariths)
  then have "unat (ucast (drop_bit 16 (x + (0x7FFF + l))) :: bf16) =
      (unat x + 0x7FFF + unat x div 65536 mod 2) div 65536"
    unfolding l by (simp add: unat_high_half add.assoc)
  moreover have "f32_to_bf16_rne x = ucast (drop_bit 16 (x + (0x7FFF + l)))"
    using assms by (simp add: f32_to_bf16_rne_def Let_def l_def f32_nan_word)
  ultimately show ?thesis by simp
qed

lemma unat_bf16_widen: "unat (bf16_bits_to_f32 b) = unat b * 65536"
proof -
  have b: "unat b < 65536" using unsigned_less [of b, where ?'a = nat] by simp
  have "unat (ucast b :: f32) = unat b"
    using b by (simp add: unsigned_ucast_eq take_bit_eq_mod)
  then show ?thesis
    using b unfolding bf16_bits_to_f32_def unsigned_push_bit_eq
    by (simp add: push_bit_eq_mult take_bit_eq_mod)
qed

section \<open>Properties\<close>

text \<open>Conversion to bfloat16 rounds to nearest, ties to even: away from NaN the widened result is
  within half a unit of the input, and at exactly half a unit the kept pattern is even.\<close>

theorem bf16_round_to_nearest_even:
  assumes "\<not> f32_is_nan x"
  defines "r \<equiv> unat (bf16_bits_to_f32 (f32_to_bf16_rne x))"
  shows "r \<le> unat x + 32768 \<and> unat x \<le> r + 32768 \<and>
    (r = unat x + 32768 \<or> unat x = r + 32768 \<longrightarrow> even (unat (f32_to_bf16_rne x)))"
proof -
  define q t where "q = unat x div 65536" and "t = unat x mod 65536"
  have x: "unat x = q * 65536 + t" and t: "t < 65536"
    by (simp_all add: q_def t_def)
  have v: "unat (f32_to_bf16_rne x) = (q * 65536 + (t + 0x7FFF + q mod 2)) div 65536"
    using bf16_rne_value [OF assms(1)] x t by (simp add: q_def [symmetric] add.assoc)
  consider (down) "t + 0x7FFF + q mod 2 < 65536" | (up) "65536 \<le> t + 0x7FFF + q mod 2" by linarith
  then show ?thesis
  proof cases
    case down
    then have "unat (f32_to_bf16_rne x) = q" using v by simp
    then show ?thesis
      using down x by (auto simp: r_def unat_bf16_widen even_iff_mod_2_eq_zero)
  next
    case up
    have "unat (f32_to_bf16_rne x) = q + 1"
      using up t v by (simp add: div_add1_eq [of "q * 65536"])
    then show ?thesis
      using up x t by (auto simp: r_def unat_bf16_widen even_iff_mod_2_eq_zero) presburger
  qed
qed

theorem bf16_round_to_nearest_even_witness:
  "\<not> f32_is_nan 0x3F808000 \<and> even (unat (f32_to_bf16_rne 0x3F808000))"
proof -
  have h: "\<not> f32_is_nan 0x3F808000" by (simp add: f32_is_nan_def f32_mag_def)
  have "unat (bf16_bits_to_f32 (f32_to_bf16_rne 0x3F808000)) + 32768 = unat (0x3F808000 :: f32)"
    using bf16_rne_value [OF h] by (simp add: unat_bf16_widen)
  then show ?thesis using h bf16_round_to_nearest_even [OF h] by auto
qed

end
