(* ===== verification/Portable.thy ===== *)
theory Portable
  imports Rust_Str
begin

unbundle bit_operations_syntax

text \<open>
  \<open>nnis-core/src/lib.rs\<close>: the vocabulary of the portable runtime - backend identities, capability
  limits, buffer descriptors with their usage bits, and the error type every backend reports.
\<close>

section \<open>Errors\<close>

datatype portable_error =
    InvalidDescriptor string
  | OutOfBounds (oob_offset: nat) (oob_size: nat) (oob_buffer: nat)
  | Unsupported rstr
  | Backend rstr

fun display_portable_error :: "portable_error \<Rightarrow> rstr" where
  "display_portable_error (InvalidDescriptor message) = lit message"
| "display_portable_error (OutOfBounds off size_bytes buffer_bytes) =
     lit ''range offset='' @ dec off @ lit '' size='' @ dec size_bytes @
     lit '' exceeds buffer size '' @ dec buffer_bytes"
| "display_portable_error (Unsupported message) = lit ''unsupported operation: '' @ message"
| "display_portable_error (Backend message) = lit ''backend error: '' @ message"

section \<open>Backend identity\<close>

datatype backend_family = Cpu | Wgpu

record backend_id =
  bid_family :: backend_family
  bid_name :: rstr

definition backend_id_new :: "backend_family \<Rightarrow> rstr \<Rightarrow> portable_error + backend_id" where
  "backend_id_new family name =
     (if trim name = [] then Err (InvalidDescriptor ''backend name must not be empty'')
      else Ok \<lparr>bid_family = family, bid_name = name\<rparr>)"

section \<open>Capabilities\<close>

record capability_set =
  max_buffer_bytes :: nat
  max_workgroup_invocations :: nat
  max_workgroup_size :: "nat list"
  max_bindings :: nat
  supports_f16 :: bool
  supports_timestamps :: bool

definition capability_validate :: "capability_set \<Rightarrow> portable_error + capability_set" where
  "capability_validate c =
     (if max_buffer_bytes c = 0 then Err (InvalidDescriptor ''max_buffer_bytes must be non-zero'')
      else if max_workgroup_invocations c = 0 then
        Err (InvalidDescriptor ''max_workgroup_invocations must be non-zero'')
      else if 0 \<in> set (max_workgroup_size c) then
        Err (InvalidDescriptor ''max_workgroup_size dimensions must be non-zero'')
      else if max_bindings c = 0 then Err (InvalidDescriptor ''max_bindings must be non-zero'')
      else Ok c)"

section \<open>Buffers\<close>

datatype memory_class = Host | Shared | DeviceLocal

type_synonym buffer_usages = "32 word"

definition usage_empty :: buffer_usages where "usage_empty = 0"
definition usage_storage :: buffer_usages where "usage_storage = push_bit 0 1"
definition usage_uniform :: buffer_usages where "usage_uniform = push_bit 1 1"
definition usage_copy_src :: buffer_usages where "usage_copy_src = push_bit 2 1"
definition usage_copy_dst :: buffer_usages where "usage_copy_dst = push_bit 3 1"

definition usage_contains :: "buffer_usages \<Rightarrow> buffer_usages \<Rightarrow> bool" where
  "usage_contains u other \<longleftrightarrow> u AND other = other"

definition usage_is_empty :: "buffer_usages \<Rightarrow> bool" where
  "usage_is_empty u \<longleftrightarrow> u = 0"

definition usage_or :: "buffer_usages \<Rightarrow> buffer_usages \<Rightarrow> buffer_usages" where
  "usage_or u v = u OR v"

lemma usage_contains_iff: "usage_contains u v \<longleftrightarrow> (\<forall>n. bit v n \<longrightarrow> bit u n)"
proof -
  have len: "bit v n \<Longrightarrow> n < 32" for n
    using bit_imp_le_length [of v n] by simp
  show ?thesis
    by (auto simp: usage_contains_def bit_eq_iff bit_and_iff dest: len)
qed

lemma usage_contains_or_iff: "usage_contains u (usage_or v w) \<longleftrightarrow> usage_contains u v \<and> usage_contains u w"
  by (auto simp: usage_contains_iff usage_or_def bit_or_iff)

lemma usage_or_contains [intro]:
  "usage_contains u w \<Longrightarrow> usage_contains (usage_or u v) w"
  "usage_contains v w \<Longrightarrow> usage_contains (usage_or u v) w"
  by (auto simp: usage_contains_iff usage_or_def bit_or_iff)

record buffer_desc =
  size_bytes :: nat
  usages :: buffer_usages
  memory :: memory_class

definition buffer_desc_validate :: "buffer_desc \<Rightarrow> portable_error + buffer_desc" where
  "buffer_desc_validate d =
     (if size_bytes d = 0 then Err (InvalidDescriptor ''buffer size must be non-zero'')
      else if usage_is_empty (usages d) then
        Err (InvalidDescriptor ''buffer usage set must not be empty'')
      else Ok d)"

definition buffer_desc_new ::
  "nat \<Rightarrow> buffer_usages \<Rightarrow> memory_class \<Rightarrow> portable_error + buffer_desc" where
  "buffer_desc_new n us m = buffer_desc_validate \<lparr>size_bytes = n, usages = us, memory = m\<rparr>"

datatype fence_status = Pending | Complete

lemma buffer_desc_validate_Ok [simp]:
  "buffer_desc_validate d = Ok d' \<longleftrightarrow> d' = d \<and> 0 < size_bytes d \<and> usages d \<noteq> 0"
  by (auto simp: buffer_desc_validate_def usage_is_empty_def)

lemma capability_validate_Ok:
  "capability_validate c = Ok c' \<longleftrightarrow> c' = c \<and> 0 < max_buffer_bytes c \<and>
     0 < max_workgroup_invocations c \<and> (\<forall>d \<in> set (max_workgroup_size c). 0 < d) \<and> 0 < max_bindings c"
  by (auto simp: capability_validate_def) (metis gr0I)

end
