(* ===== verification/Graph.thy ===== *)
theory Graph
  imports Portable
begin

text \<open>
  \<open>nnis-core/src/graph.rs\<close>: the F32 graph plan and its fail-closed validation.  Values are numbered
  as inputs followed by node outputs; validation infers each node's shape, refuses forward or
  missing operands, and accounts payload bytes and work against caller limits in checked
  64-bit arithmetic.  The lemmas characterise acceptance exactly: which graphs pass, that the budget
  returned is the plain sum it documents, and that no limit is exceeded.
\<close>

section \<open>Plans\<close>

definition F32_GRAPH_VERSION :: nat where "F32_GRAPH_VERSION = 1"
definition F32_GRAPH_POLICY :: rstr where "F32_GRAPH_POLICY = lit ''finite-f32-le-ordered-fma-v1''"

datatype f32_shape = Vector nat | Matrix (rows: nat) (cols: nat)

datatype f32_op =
    Add (left: nat) (right: nat)
  | Multiply (left: nat) (right: nat)
  | Relu (input: nat)
  | Sum (input: nat)
  | ProjectKn (input: nat) (weights: nat)
  | Gather (input: nat) (gather_indices: "nat list")
  | ScatterAdd (base: nat) (source: nat) (scatter_indices: "nat list")

record f32_node =
  node_operation :: f32_op
  node_output :: f32_shape

record f32_graph =
  schema_version :: nat
  numerical_policy :: rstr
  inputs :: "f32_shape list"
  nodes :: "f32_node list"

record f32_graph_limits =
  max_inputs :: nat
  max_nodes :: nat
  max_tensor_bytes :: nat
  max_live_payload_bytes :: nat
  max_scratch_bytes :: nat
  max_work_items :: nat

record f32_graph_budget =
  input_payload_bytes :: nat
  node_payload_bytes :: nat
  max_scratch_payload_bytes :: nat
  live_payload_bound_bytes :: nat
  work_items :: nat

record validated_f32_graph =
  plan :: f32_graph
  budget :: f32_graph_budget

type_synonym 'a graph_result = "portable_error + 'a"

definition invalid :: "string \<Rightarrow> portable_error" where
  "invalid message = InvalidDescriptor message"

definition graph_add :: "nat \<Rightarrow> nat \<Rightarrow> nat graph_result" where
  "graph_add a b = ok_or (invalid ''graph accounting overflows u64'') (checked_add a b)"

definition graph_mul :: "nat \<Rightarrow> nat \<Rightarrow> nat graph_result" where
  "graph_mul a b = ok_or (invalid ''graph accounting overflows u64'') (checked_mul a b)"

lemma graph_add_Ok [simp]: "graph_add a b = Ok c \<longleftrightarrow> c = a + b \<and> a + b < u64_lim"
  and graph_mul_Ok [simp]: "graph_mul a b = Ok c \<longleftrightarrow> c = a * b \<and> a * b < u64_lim"
  by (simp_all add: graph_add_def graph_mul_def)

section \<open>Shapes\<close>

definition shape_elements :: "f32_shape \<Rightarrow> nat graph_result" where
  "shape_elements shape =
     and_then
       (case shape of
          Vector count \<Rightarrow> Ok count
        | Matrix r c \<Rightarrow>
            if r = 0 \<or> c = 0 then Err (invalid ''graph matrix dimensions must be positive'')
            else graph_mul r c)
       (\<lambda>count. if count = 0 then Err (invalid ''graph tensor must be non-empty'') else Ok count)"

definition shape_bytes :: "f32_shape \<Rightarrow> nat graph_result" where
  "shape_bytes shape = and_then (shape_elements shape) (\<lambda>n. graph_mul n 4)"

fun shape_vector :: "f32_shape \<Rightarrow> nat graph_result" where
  "shape_vector (Vector count) = Ok count"
| "shape_vector _ = Err (invalid ''graph operation requires a vector'')"

definition tensor_bytes :: "f32_shape \<Rightarrow> nat \<Rightarrow> nat graph_result" where
  "tensor_bytes shape limit =
     and_then (shape_bytes shape) (\<lambda>bytes.
       if bytes > limit then Err (invalid ''graph tensor exceeds per-buffer limit'') else Ok bytes)"

definition check_work :: "nat \<Rightarrow> nat \<Rightarrow> unit graph_result" where
  "check_work work limit =
     (if work > limit then Err (invalid ''graph exceeds logical work limit'') else Ok ())"

section \<open>Inference\<close>

definition shape_before :: "f32_graph \<Rightarrow> nat \<Rightarrow> nat \<Rightarrow> f32_shape graph_result" where
  "shape_before g val node_index =
     (if val < length (inputs g) then Ok (inputs g ! val)
      else let producer = val - length (inputs g)
           in if producer \<ge> node_index then
                Err (invalid ''graph operand is missing, forward, cyclic or in-place'')
              else Ok (node_output (nodes g ! producer)))"

text \<open>The inferred output shape, the work, the indices to scan and their exclusive bound.\<close>

definition infer_binary ::
  "f32_graph \<Rightarrow> nat \<Rightarrow> nat \<Rightarrow> nat \<Rightarrow> (f32_shape \<times> nat \<times> nat list \<times> nat) graph_result" where
  "infer_binary g l r index =
     and_then (and_then (shape_before g l index) shape_vector) (\<lambda>n.
     and_then (shape_before g r index) (\<lambda>rs.
       if rs \<noteq> Vector n then Err (invalid ''graph binary operands have different shapes'')
       else and_then (graph_mul n 4) (\<lambda>work. Ok (Vector n, work, [], 0))))"

fun infer ::
  "f32_graph \<Rightarrow> f32_op \<Rightarrow> nat \<Rightarrow> (f32_shape \<times> nat \<times> nat list \<times> nat) graph_result" where
  "infer g (Add l r) index = infer_binary g l r index"
| "infer g (Multiply l r) index = infer_binary g l r index"
| "infer g (Relu i) index =
     and_then (and_then (shape_before g i index) shape_vector) (\<lambda>count.
     and_then (graph_mul count 3) (\<lambda>work. Ok (Vector count, work, [], 0)))"
| "infer g (Sum i) index =
     and_then (and_then (shape_before g i index) shape_vector) (\<lambda>count.
     and_then (and_then (graph_mul count 2) (\<lambda>m. graph_add m 1)) (\<lambda>work.
       Ok (Vector 1, work, [], 0)))"
| "infer g (ProjectKn i w) index =
     and_then (and_then (shape_before g i index) shape_vector) (\<lambda>k.
     and_then (and_then (shape_before g w index) (\<lambda>s.
         case s of Matrix r c \<Rightarrow> Ok (r, c)
         | _ \<Rightarrow> Err (invalid ''graph projection requires matrix weights''))) (\<lambda>(r, c).
       if r \<noteq> k then Err (invalid ''graph projection K dimension mismatch'')
       else and_then (graph_mul r c) (\<lambda>rc.
            and_then (graph_mul rc 2) (\<lambda>rc2.
            and_then (graph_add k rc2) (\<lambda>s.
            and_then (graph_add s c) (\<lambda>work. Ok (Vector c, work, [], 0)))))))"
| "infer g (Gather i idx) index =
     and_then (and_then (shape_before g i index) shape_vector) (\<lambda>count.
     and_then (ok_or (invalid ''graph index count exceeds u64'') (u64_of_usize (length idx))) (\<lambda>selected.
       if selected = 0 then Err (invalid ''graph gather indices must be non-empty'')
       else and_then (graph_mul selected 2) (\<lambda>s2.
            and_then (graph_add count s2) (\<lambda>work. Ok (Vector selected, work, idx, count)))))"
| "infer g (ScatterAdd b s idx) index =
     and_then (and_then (shape_before g b index) shape_vector) (\<lambda>count.
     and_then (and_then (shape_before g s index) shape_vector) (\<lambda>src.
       if u64_of_usize (length idx) \<noteq> Some src then
         Err (invalid ''graph scatter source/index length mismatch'')
       else and_then (graph_mul count 3) (\<lambda>c3.
            and_then (graph_mul src 2) (\<lambda>s2.
            and_then (graph_add c3 s2) (\<lambda>work. Ok (Vector count, work, idx, count))))))"

section \<open>Validation\<close>

definition check_index :: "nat \<Rightarrow> nat \<Rightarrow> unit graph_result" where
  "check_index index_limit val =
     and_then (ok_or (invalid ''graph index exceeds u64'') (u64_of_usize val)) (\<lambda>v.
       if v \<ge> index_limit then Err (invalid ''graph index is out of range'') else Ok ())"

definition charge_input ::
  "f32_graph_limits \<Rightarrow> f32_graph_budget \<Rightarrow> f32_shape \<Rightarrow> f32_graph_budget graph_result" where
  "charge_input limits b shape =
     and_then (tensor_bytes shape (max_tensor_bytes limits)) (\<lambda>bytes.
     and_then (graph_add (input_payload_bytes b) bytes) (\<lambda>ip.
     and_then (shape_elements shape) (\<lambda>elems.
     and_then (graph_add (work_items b) elems) (\<lambda>wi.
       Ok (b\<lparr>input_payload_bytes := ip, work_items := wi\<rparr>)))))"

definition charge_node ::
  "f32_graph \<Rightarrow> f32_graph_limits \<Rightarrow> f32_graph_budget \<Rightarrow> nat \<times> f32_node \<Rightarrow>
   f32_graph_budget graph_result" where
  "charge_node g limits b = (\<lambda>(index, node).
     and_then (tensor_bytes (node_output node) (max_tensor_bytes limits)) (\<lambda>bytes.
       if bytes > max_scratch_bytes limits then
         Err (invalid ''graph node exceeds scratch payload limit'')
       else
         and_then (graph_add (node_payload_bytes b) bytes) (\<lambda>np.
         let scratch = max (max_scratch_payload_bytes b) bytes in
         and_then (infer g (node_operation node) index) (\<lambda>(expected, work, indices, index_limit).
           if expected \<noteq> node_output node then
             Err (invalid ''graph output shape does not match operation'')
           else
             and_then (ok_or (invalid ''graph index count exceeds u64'') (u64_of_usize (length indices)))
               (\<lambda>index_work.
             and_then (graph_add work index_work) (\<lambda>w.
             and_then (graph_add (work_items b) w) (\<lambda>wi.
             and_then (check_work wi (max_work_items limits)) (\<lambda>_.
             and_then (check_all (check_index index_limit) indices) (\<lambda>_.
             and_then (graph_add (input_payload_bytes b) np) (\<lambda>payload.
             and_then (graph_add payload scratch) (\<lambda>live.
               if live > max_live_payload_bytes limits then
                 Err (invalid ''graph exceeds live payload admission limit'')
               else Ok (b\<lparr>node_payload_bytes := np, max_scratch_payload_bytes := scratch,
                          live_payload_bound_bytes := live, work_items := wi\<rparr>))))))))))))"

definition empty_budget :: f32_graph_budget where
  "empty_budget = \<lparr>input_payload_bytes = 0, node_payload_bytes = 0, max_scratch_payload_bytes = 0,
     live_payload_bound_bytes = 0, work_items = 0\<rparr>"

definition graph_validate :: "f32_graph \<Rightarrow> f32_graph_limits \<Rightarrow> validated_f32_graph graph_result" where
  "graph_validate g limits =
     (if schema_version g \<noteq> F32_GRAPH_VERSION \<or> numerical_policy g \<noteq> F32_GRAPH_POLICY then
        Err (invalid ''unsupported graph schema or numerical policy'')
      else if max_inputs limits = 0 \<or> max_nodes limits = 0 \<or> max_tensor_bytes limits = 0 \<or>
        max_live_payload_bytes limits = 0 \<or> max_scratch_bytes limits = 0 \<or> max_work_items limits = 0
      then Err (invalid ''graph limits must be positive'')
      else if inputs g = [] \<or> length (inputs g) > max_inputs limits \<or> nodes g = [] \<or>
        length (nodes g) > max_nodes limits
      then Err (invalid ''graph input/node count exceeds admission contract'')
      else
        and_then (ok_or (invalid ''graph value count overflows usize'')
          (checked_add (length (inputs g)) (length (nodes g)))) (\<lambda>_.
        and_then (for_each_res (charge_input limits) empty_budget (inputs g)) (\<lambda>b.
        and_then (check_work (work_items b) (max_work_items limits)) (\<lambda>_.
        and_then (for_each_res (charge_node g limits) b (enumerate 0 (nodes g))) (\<lambda>b'.
          Ok \<lparr>plan = g, budget = b'\<rparr>)))))"

section \<open>What validation accepts\<close>

text \<open>The same notions without checks: sizes, operands, and the typing rule of each operation.\<close>

fun elements_spec :: "f32_shape \<Rightarrow> nat" where
  "elements_spec (Vector n) = n"
| "elements_spec (Matrix r c) = r * c"

definition bytes_spec :: "f32_shape \<Rightarrow> nat" where
  "bytes_spec s = 4 * elements_spec s"

definition graph_value :: "f32_graph \<Rightarrow> nat \<Rightarrow> f32_shape" where
  "graph_value g v = (inputs g @ map node_output (nodes g)) ! v"

fun op_operands :: "f32_op \<Rightarrow> nat list" where
  "op_operands (Add l r) = [l, r]"
| "op_operands (Multiply l r) = [l, r]"
| "op_operands (Relu i) = [i]"
| "op_operands (Sum i) = [i]"
| "op_operands (ProjectKn i w) = [i, w]"
| "op_operands (Gather i _) = [i]"
| "op_operands (ScatterAdd b s _) = [b, s]"

fun binary_spec :: "f32_shape \<Rightarrow> f32_shape \<Rightarrow> (f32_shape \<times> nat \<times> nat list \<times> nat) option" where
  "binary_spec (Vector n) (Vector m) = (if n = m then Some (Vector n, 4 * n, [], 0) else None)"
| "binary_spec _ _ = None"

fun op_spec :: "(nat \<Rightarrow> f32_shape) \<Rightarrow> f32_op \<Rightarrow> (f32_shape \<times> nat \<times> nat list \<times> nat) option" where
  "op_spec sh (Add l r) = binary_spec (sh l) (sh r)"
| "op_spec sh (Multiply l r) = binary_spec (sh l) (sh r)"
| "op_spec sh (Relu i) = (case sh i of Vector n \<Rightarrow> Some (Vector n, 3 * n, [], 0) | _ \<Rightarrow> None)"
| "op_spec sh (Sum i) = (case sh i of Vector n \<Rightarrow> Some (Vector 1, 2 * n + 1, [], 0) | _ \<Rightarrow> None)"
| "op_spec sh (ProjectKn i w) =
     (case (sh i, sh w) of
        (Vector k, Matrix r c) \<Rightarrow>
          if r = k then Some (Vector c, k + 2 * (r * c) + c, [], 0) else None
      | _ \<Rightarrow> None)"
| "op_spec sh (Gather i idx) =
     (case sh i of
        Vector n \<Rightarrow>
          if idx \<noteq> [] then Some (Vector (length idx), n + 2 * length idx, idx, n) else None
      | _ \<Rightarrow> None)"
| "op_spec sh (ScatterAdd b s idx) =
     (case (sh b, sh s) of
        (Vector n, Vector m) \<Rightarrow>
          if length idx = m then Some (Vector n, 3 * n + 2 * m, idx, n) else None
      | _ \<Rightarrow> None)"

lemma shape_elements_Ok:
  "shape_elements s = Ok n \<longleftrightarrow> n = elements_spec s \<and> 0 < n \<and> (\<forall>r c. s = Matrix r c \<longrightarrow> n < u64_lim)"
  by (cases s) (auto simp: shape_elements_def)

lemma tensor_bytes_Ok:
  "tensor_bytes s limit = Ok b \<longleftrightarrow>
     b = bytes_spec s \<and> 0 < elements_spec s \<and> b < u64_lim \<and> b \<le> limit"
  by (cases s) (auto simp: tensor_bytes_def shape_bytes_def shape_elements_Ok bytes_spec_def
      mult.commute)

lemma shape_vector_Ok [simp]: "shape_vector s = Ok n \<longleftrightarrow> s = Vector n"
  by (cases s) auto

lemma shape_before_Ok:
  assumes "i \<le> length (nodes g)"
  shows "shape_before g v i = Ok s \<longleftrightarrow> v < length (inputs g) + i \<and> s = graph_value g v"
  using assms by (auto simp: shape_before_def graph_value_def Let_def nth_append)

lemma infer_binary_Ok:
  assumes "i \<le> length (nodes g)"
  shows "infer_binary g l r i = Ok (s, w, ix, lim) \<longleftrightarrow>
    l < length (inputs g) + i \<and> r < length (inputs g) + i \<and>
    binary_spec (graph_value g l) (graph_value g r) = Some (s, w, ix, lim) \<and> w < u64_lim"
  using assms
  by (cases "graph_value g l"; cases "graph_value g r")
     (auto simp: infer_binary_def shape_before_Ok mult.commute)

lemma infer_Ok:
  assumes "i \<le> length (nodes g)"
  shows "infer g op i = Ok (s, w, ix, lim) \<longleftrightarrow>
    (\<forall>v \<in> set (op_operands op). v < length (inputs g) + i) \<and>
    op_spec (graph_value g) op = Some (s, w, ix, lim) \<and> w < u64_lim"
proof (cases op)
  case (ProjectKn a b)
  then show ?thesis
    using assms
    by (cases "graph_value g a"; cases "graph_value g b")
       (auto simp: shape_before_Ok mult.commute split: f32_shape.splits)
next
  case (Gather a idx)
  then show ?thesis
    using assms by (cases "graph_value g a") (auto simp: shape_before_Ok mult.commute)
next
  case (ScatterAdd a b idx)
  then show ?thesis
    using assms
    by (cases "graph_value g a"; cases "graph_value g b") (auto simp: shape_before_Ok mult.commute)
next
  case (Relu a)
  then show ?thesis
    using assms by (cases "graph_value g a") (auto simp: shape_before_Ok mult.commute)
next
  case (Sum a)
  then show ?thesis
    using assms by (cases "graph_value g a") (auto simp: shape_before_Ok mult.commute)
qed (use assms infer_binary_Ok in simp_all)

lemma check_index_Ok:
  "check_index lim v = Ok u \<longleftrightarrow> v < u64_lim \<and> v < lim"
  by (auto simp: check_index_def)

lemma op_spec_lim_le_work: "op_spec sh op = Some (s, w, ix, lim) \<Longrightarrow> ix \<noteq> [] \<Longrightarrow> lim \<le> w"
proof (cases op)
  case (Add l r)
  moreover assume "op_spec sh op = Some (s, w, ix, lim)" "ix \<noteq> []"
  ultimately show ?thesis by (cases "sh l"; cases "sh r") (auto split: if_splits)
next
  case (Multiply l r)
  moreover assume "op_spec sh op = Some (s, w, ix, lim)" "ix \<noteq> []"
  ultimately show ?thesis by (cases "sh l"; cases "sh r") (auto split: if_splits)
qed (auto split: f32_shape.splits if_splits)

text \<open>The admission rule of a node, the work it is charged, and the budget of a whole plan.\<close>

definition node_admissible :: "f32_graph \<Rightarrow> f32_graph_limits \<Rightarrow> nat \<Rightarrow> f32_node \<Rightarrow> bool" where
  "node_admissible g limits i n \<longleftrightarrow>
     0 < elements_spec (node_output n) \<and>
     bytes_spec (node_output n) \<le> max_tensor_bytes limits \<and>
     bytes_spec (node_output n) \<le> max_scratch_bytes limits \<and>
     (\<forall>v \<in> set (op_operands (node_operation n)). v < length (inputs g) + i) \<and>
     (case op_spec (graph_value g) (node_operation n) of
        None \<Rightarrow> False
      | Some (s, w, ix, lim) \<Rightarrow> s = node_output n \<and> list_all (\<lambda>v. v < lim) ix)"

definition node_cost :: "f32_graph \<Rightarrow> f32_node \<Rightarrow> nat" where
  "node_cost g n =
     (case op_spec (graph_value g) (node_operation n) of
        None \<Rightarrow> 0 | Some (s, w, ix, lim) \<Rightarrow> w + length ix)"

definition input_admissible :: "f32_graph_limits \<Rightarrow> f32_shape \<Rightarrow> bool" where
  "input_admissible limits s \<longleftrightarrow> 0 < elements_spec s \<and> bytes_spec s \<le> max_tensor_bytes limits"

definition out_bytes :: "f32_node \<Rightarrow> nat" where
  "out_bytes n = bytes_spec (node_output n)"

definition budget_spec :: "f32_graph \<Rightarrow> f32_graph_budget" where
  "budget_spec g =
     (let ip = sum_list (map bytes_spec (inputs g));
          nb = map out_bytes (nodes g);
          scratch = fold max nb 0
      in \<lparr>input_payload_bytes = ip, node_payload_bytes = sum_list nb,
          max_scratch_payload_bytes = scratch,
          live_payload_bound_bytes = ip + sum_list nb + scratch,
          work_items = sum_list (map elements_spec (inputs g)) + sum_list (map (node_cost g) (nodes g))\<rparr>)"

lemma charge_input_Ok:
  "charge_input limits b s = Ok b' \<longleftrightarrow>
     input_admissible limits s \<and> input_payload_bytes b + bytes_spec s < u64_lim \<and>
     work_items b + elements_spec s < u64_lim \<and>
     b' = b\<lparr>input_payload_bytes := input_payload_bytes b + bytes_spec s,
            work_items := work_items b + elements_spec s\<rparr>"
  by (auto simp: charge_input_def input_admissible_def tensor_bytes_Ok shape_elements_Ok bytes_spec_def)

lemma charge_inputs_Ok:
  assumes "input_payload_bytes b < u64_lim" "work_items b < u64_lim"
  shows "for_each_res (charge_input limits) b ss = Ok b' \<longleftrightarrow>
     (\<forall>s \<in> set ss. input_admissible limits s) \<and>
     input_payload_bytes b + sum_list (map bytes_spec ss) < u64_lim \<and>
     work_items b + sum_list (map elements_spec ss) < u64_lim \<and>
     b' = b\<lparr>input_payload_bytes := input_payload_bytes b + sum_list (map bytes_spec ss),
            work_items := work_items b + sum_list (map elements_spec ss)\<rparr>"
  using assms
proof (induction ss arbitrary: b)
  case Nil
  then show ?case by auto
next
  case (Cons s ss)
  define b1 where "b1 = b\<lparr>input_payload_bytes := input_payload_bytes b + bytes_spec s,
     work_items := work_items b + elements_spec s\<rparr>"
  have IH: "input_payload_bytes b1 < u64_lim \<Longrightarrow> work_items b1 < u64_lim \<Longrightarrow>
      for_each_res (charge_input limits) b1 ss = Ok b' \<longleftrightarrow>
      (\<forall>s \<in> set ss. input_admissible limits s) \<and>
      input_payload_bytes b1 + sum_list (map bytes_spec ss) < u64_lim \<and>
      work_items b1 + sum_list (map elements_spec ss) < u64_lim \<and>
      b' = b1\<lparr>input_payload_bytes := input_payload_bytes b1 + sum_list (map bytes_spec ss),
              work_items := work_items b1 + sum_list (map elements_spec ss)\<rparr>"
    by (rule Cons.IH)
  have "for_each_res (charge_input limits) b (s # ss) = Ok b' \<longleftrightarrow>
      (charge_input limits b s = Ok b1 \<and> for_each_res (charge_input limits) b1 ss = Ok b')"
    by (auto simp: charge_input_Ok b1_def)
  then show ?case
    using IH by (auto simp: charge_input_Ok b1_def add.assoc)
qed

lemma charge_node_Ok:
  assumes "i \<le> length (nodes g)" "max_work_items limits < u64_lim"
    and "max_live_payload_bytes limits < u64_lim"
  shows "charge_node g limits b (i, n) = Ok b' \<longleftrightarrow>
     node_admissible g limits i n \<and>
     work_items b + node_cost g n \<le> max_work_items limits \<and>
     input_payload_bytes b + (node_payload_bytes b + out_bytes n) +
       max (max_scratch_payload_bytes b) (out_bytes n) \<le> max_live_payload_bytes limits \<and>
     b' = b\<lparr>node_payload_bytes := node_payload_bytes b + out_bytes n,
            max_scratch_payload_bytes := max (max_scratch_payload_bytes b) (out_bytes n),
            live_payload_bound_bytes := input_payload_bytes b +
              (node_payload_bytes b + out_bytes n) +
              max (max_scratch_payload_bytes b) (out_bytes n),
            work_items := work_items b + node_cost g n\<rparr>"
    (is "?l \<longleftrightarrow> ?r")
proof
  show "?l \<Longrightarrow> ?r"
    by (auto simp: charge_node_def infer_Ok [OF assms(1)] tensor_bytes_Ok check_work_def check_index_Ok
        node_admissible_def node_cost_def out_bytes_def list_all_iff Let_def split: if_splits)
  assume r: ?r
  obtain s w ix lim where op: "op_spec (graph_value g) (node_operation n) = Some (s, w, ix, lim)"
    using r by (auto simp: node_admissible_def split: option.splits)
  have w: "work_items b + w + length ix < u64_lim" and c: "node_cost g n = w + length ix"
    using r op assms(2) by (auto simp: node_cost_def)
  have ix: "v < u64_lim" if "v \<in> set ix" for v
    using that r op op_spec_lim_le_work [OF op] w by (fastforce simp: node_admissible_def list_all_iff)
  show ?l
    using r op w c ix assms(3)
    by (auto simp: charge_node_def infer_Ok [OF assms(1)] tensor_bytes_Ok check_work_def check_index_Ok
        node_admissible_def out_bytes_def list_all_iff Let_def)
qed

lemma fold_max_ge: "(m::nat) \<le> fold max xs m"
proof (induction xs arbitrary: m)
  case Nil
  then show ?case by simp
next
  case (Cons x xs)
  have "m \<le> max x m" by simp
  also have "\<dots> \<le> fold max xs (max x m)" by (rule Cons.IH)
  finally show ?case by simp
qed

lemma charge_nodes_Ok:
  assumes "i + length ns \<le> length (nodes g)" "max_work_items limits < u64_lim"
    and "max_live_payload_bytes limits < u64_lim"
  shows "for_each_res (charge_node g limits) b (enumerate i ns) = Ok b' \<longleftrightarrow>
     (\<forall>j < length ns. node_admissible g limits (i + j) (ns ! j)) \<and>
     (ns \<noteq> [] \<longrightarrow> work_items b' \<le> max_work_items limits \<and>
        live_payload_bound_bytes b' \<le> max_live_payload_bytes limits) \<and>
     (let nb = map out_bytes ns;
          np = node_payload_bytes b + sum_list nb;
          scratch = fold max nb (max_scratch_payload_bytes b)
      in b' = b\<lparr>node_payload_bytes := np, max_scratch_payload_bytes := scratch,
         live_payload_bound_bytes := (if ns = [] then live_payload_bound_bytes b
                                      else input_payload_bytes b + np + scratch),
         work_items := work_items b + sum_list (map (node_cost g) ns)\<rparr>)"
  using assms
proof (induction ns arbitrary: i b)
  case Nil
  then show ?case by auto
next
  case (Cons n ns)
  define sc where "sc = max (max_scratch_payload_bytes b) (out_bytes n)"
  define b1 where "b1 = b\<lparr>node_payload_bytes := node_payload_bytes b + out_bytes n,
     max_scratch_payload_bytes := sc,
     live_payload_bound_bytes := input_payload_bytes b +
       (node_payload_bytes b + out_bytes n) + sc,
     work_items := work_items b + node_cost g n\<rparr>"
  have node: "charge_node g limits b (i, n) = Ok c \<longleftrightarrow>
      node_admissible g limits i n \<and> work_items b1 \<le> max_work_items limits \<and>
      live_payload_bound_bytes b1 \<le> max_live_payload_bytes limits \<and> c = b1" for c
    using Cons.prems by (simp add: charge_node_Ok b1_def sc_def)
  have IH: "for_each_res (charge_node g limits) b1 (enumerate (Suc i) ns) = Ok b' \<longleftrightarrow>
     (\<forall>j < length ns. node_admissible g limits (Suc i + j) (ns ! j)) \<and>
     (ns \<noteq> [] \<longrightarrow> work_items b' \<le> max_work_items limits \<and>
        live_payload_bound_bytes b' \<le> max_live_payload_bytes limits) \<and>
     (let nb = map out_bytes ns;
          np = node_payload_bytes b1 + sum_list nb;
          scratch = fold max nb (max_scratch_payload_bytes b1)
      in b' = b1\<lparr>node_payload_bytes := np, max_scratch_payload_bytes := scratch,
         live_payload_bound_bytes := (if ns = [] then live_payload_bound_bytes b1
                                      else input_payload_bytes b1 + np + scratch),
         work_items := work_items b1 + sum_list (map (node_cost g) ns)\<rparr>)"
    using Cons.prems by (intro Cons.IH) simp_all
  have split: "for_each_res (charge_node g limits) b (enumerate i (n # ns)) = Ok b' \<longleftrightarrow>
      (charge_node g limits b (i, n) = Ok b1 \<and>
       for_each_res (charge_node g limits) b1 (enumerate (Suc i) ns) = Ok b')"
    using node by auto
  have adm: "(\<forall>j < length (n # ns). node_admissible g limits (i + j) ((n # ns) ! j)) \<longleftrightarrow>
      node_admissible g limits i n \<and> (\<forall>j < length ns. node_admissible g limits (Suc i + j) (ns ! j))"
    by (auto simp: nth_Cons split: nat.splits)
  show ?case
  proof (cases "ns = []")
    case True
    then show ?thesis
      unfolding split IH adm
      by (auto simp: node b1_def sc_def Let_def max.commute add.assoc)
  next
    case False
    have "sc \<le> fold max (map out_bytes ns) sc"
      by (rule fold_max_ge)
    with False show ?thesis
      unfolding split IH adm
      by (auto simp: node b1_def sc_def Let_def max.commute add.assoc)
  qed
qed

lemma charge_nodes_all:
  assumes "nodes g \<noteq> []" "max_work_items limits < u64_lim"
    and "max_live_payload_bytes limits < u64_lim"
  shows "for_each_res (charge_node g limits) b (enumerate 0 (nodes g)) = Ok b' \<longleftrightarrow>
     (\<forall>j < length (nodes g). node_admissible g limits j (nodes g ! j)) \<and>
     work_items b' \<le> max_work_items limits \<and>
     live_payload_bound_bytes b' \<le> max_live_payload_bytes limits \<and>
     (let nb = map out_bytes (nodes g);
          np = node_payload_bytes b + sum_list nb;
          scratch = fold max nb (max_scratch_payload_bytes b)
      in b' = b\<lparr>node_payload_bytes := np, max_scratch_payload_bytes := scratch,
         live_payload_bound_bytes := input_payload_bytes b + np + scratch,
         work_items := work_items b + sum_list (map (node_cost g) (nodes g))\<rparr>)"
  using charge_nodes_Ok [of 0 "nodes g" g limits b b'] assms by simp

definition graph_admissible :: "f32_graph \<Rightarrow> f32_graph_limits \<Rightarrow> bool" where
  "graph_admissible g limits \<longleftrightarrow>
     schema_version g = 1 \<and> numerical_policy g = F32_GRAPH_POLICY \<and>
     0 < max_inputs limits \<and> 0 < max_nodes limits \<and> 0 < max_tensor_bytes limits \<and>
     0 < max_live_payload_bytes limits \<and> 0 < max_scratch_bytes limits \<and> 0 < max_work_items limits \<and>
     inputs g \<noteq> [] \<and> length (inputs g) \<le> max_inputs limits \<and>
     nodes g \<noteq> [] \<and> length (nodes g) \<le> max_nodes limits \<and>
     length (inputs g) + length (nodes g) < u64_lim \<and>
     list_all (input_admissible limits) (inputs g) \<and>
     list_all (\<lambda>j. node_admissible g limits j (nodes g ! j)) [0..<length (nodes g)] \<and>
     work_items (budget_spec g) \<le> max_work_items limits \<and>
     live_payload_bound_bytes (budget_spec g) \<le> max_live_payload_bytes limits"

lemma graph_validate_Ok:
  assumes "max_work_items limits < u64_lim" "max_live_payload_bytes limits < u64_lim"
  shows "graph_validate g limits = Ok v \<longleftrightarrow>
    graph_admissible g limits \<and> v = \<lparr>plan = g, budget = budget_spec g\<rparr>"
    (is "?l \<longleftrightarrow> ?r")
proof -
  define b1 where "b1 = empty_budget\<lparr>input_payload_bytes := sum_list (map bytes_spec (inputs g)),
     work_items := sum_list (map elements_spec (inputs g))\<rparr>"
  have inp: "for_each_res (charge_input limits) empty_budget (inputs g) = Ok b \<longleftrightarrow>
      (\<forall>s \<in> set (inputs g). input_admissible limits s) \<and> input_payload_bytes b1 < u64_lim \<and>
      work_items b1 < u64_lim \<and> b = b1" for b
    by (subst charge_inputs_Ok) (simp_all add: empty_budget_def b1_def width_defs)
  define nb where "nb = map out_bytes (nodes g)"
  have spec: "budget_spec g = b1\<lparr>node_payload_bytes := node_payload_bytes b1 + sum_list nb,
      max_scratch_payload_bytes := fold max nb (max_scratch_payload_bytes b1),
      live_payload_bound_bytes := input_payload_bytes b1 + (node_payload_bytes b1 + sum_list nb) +
        fold max nb (max_scratch_payload_bytes b1),
      work_items := work_items b1 + sum_list (map (node_cost g) (nodes g))\<rparr>"
    by (simp add: budget_spec_def b1_def nb_def empty_budget_def Let_def)
  have nod: "nodes g \<noteq> [] \<Longrightarrow> for_each_res (charge_node g limits) b1 (enumerate 0 (nodes g)) = Ok b \<longleftrightarrow>
      list_all (\<lambda>j. node_admissible g limits j (nodes g ! j)) [0..<length (nodes g)] \<and>
      work_items (budget_spec g) \<le> max_work_items limits \<and>
      live_payload_bound_bytes (budget_spec g) \<le> max_live_payload_bytes limits \<and>
      b = budget_spec g" for b
    unfolding charge_nodes_all [OF _ assms] spec
    by (auto simp: list_all_iff Let_def nb_def)
  have ge: "input_payload_bytes b1 \<le> live_payload_bound_bytes (budget_spec g)"
    "work_items b1 \<le> work_items (budget_spec g)"
    by (simp_all add: spec)
  show ?thesis
  proof
    assume ?l
    then show ?r
      by (auto simp: graph_validate_def inp nod graph_admissible_def F32_GRAPH_VERSION_def list_all_iff
          split: if_splits)
  next
    assume ?r
    then have "check_work (work_items b1) (max_work_items limits) = Ok ()" "work_items b1 < u64_lim"
      "input_payload_bytes b1 < u64_lim"
      using ge assms by (auto simp: graph_admissible_def check_work_def)
    with \<open>?r\<close> show ?l
      by (simp add: graph_validate_def inp nod graph_admissible_def F32_GRAPH_VERSION_def list_all_iff)
  qed
qed

section \<open>Properties\<close>

text \<open>C13. \<open>validate\<close> accepts exactly the admissible plans: right schema, positive limits, counts and
  tensors within the limits, every operand an earlier value of the shape its operation wants, every
  gather and scatter index below the length it indexes; and the budget it returns is the documented
  one, namely total input bytes, total output bytes, the largest output, the sum of the three and
  the total work with the index scans, with the last two within their limits and no overflow.\<close>

theorem graph_validate_exact:
  assumes "max_work_items limits < u64_lim" "max_live_payload_bytes limits < u64_lim"
  shows "graph_validate g limits = Ok v \<longleftrightarrow>
    graph_admissible g limits \<and> v = \<lparr>plan = g, budget = budget_spec g\<rparr>"
  by (rule graph_validate_Ok [OF assms])

text \<open>A two-node plan over a vector and a matrix: project, then gather two entries.\<close>

definition demo_graph :: f32_graph where
  "demo_graph = \<lparr>schema_version = 1, numerical_policy = F32_GRAPH_POLICY,
     inputs = [Vector 2, Matrix 2 3],
     nodes = [\<lparr>node_operation = ProjectKn 0 1, node_output = Vector 3\<rparr>,
              \<lparr>node_operation = Gather 2 [2, 0], node_output = Vector 2\<rparr>]\<rparr>"

definition demo_limits :: f32_graph_limits where
  "demo_limits = \<lparr>max_inputs = 4, max_nodes = 4, max_tensor_bytes = 64, max_live_payload_bytes = 128,
     max_scratch_bytes = 64, max_work_items = 64\<rparr>"

lemma demo_admissible: "graph_admissible demo_graph demo_limits"
  by (simp add: graph_admissible_def demo_graph_def demo_limits_def node_admissible_def
      input_admissible_def bytes_spec_def budget_spec_def out_bytes_def graph_value_def node_cost_def
      u64_lim_def upt_rec numeral_2_eq_2)

theorem graph_validate_exact_witness:
  "graph_validate demo_graph demo_limits = Ok \<lparr>plan = demo_graph, budget = budget_spec demo_graph\<rparr> \<and>
   work_items (budget_spec demo_graph) = 34"
proof -
  have "max_work_items demo_limits < u64_lim" "max_live_payload_bytes demo_limits < u64_lim"
    by (simp_all add: demo_limits_def u64_lim_def)
  note * = graph_validate_exact [OF this, of demo_graph "\<lparr>plan = demo_graph, budget = budget_spec demo_graph\<rparr>"]
  show ?thesis
    using * demo_admissible
    by (simp add: budget_spec_def out_bytes_def demo_graph_def graph_value_def node_cost_def Let_def)
qed

text \<open>In an admitted plan every node computes from values that exist before it: an operand is
  never the node itself, a later node or a missing value, the lookup of its shape succeeds, and every
  index of a gather or scatter addresses an element of the tensor it reads or updates.\<close>

theorem graph_operands_earlier:
  assumes "graph_validate g limits = Ok v" "max_work_items limits < u64_lim"
    "max_live_payload_bytes limits < u64_lim" "i < length (nodes g)"
    and "op = node_operation (nodes g ! i)"
  shows "list_all (\<lambda>operand. operand < length (inputs g) + i \<and>
      shape_before g operand i = Ok (graph_value g operand)) (op_operands op) \<and>
    (op = Gather a idx \<or> op = ScatterAdd a s idx \<longrightarrow>
      list_all (\<lambda>v. v < elements_spec (graph_value g a)) idx)"
proof -
  have "node_admissible g limits i (nodes g ! i)"
    using assms by (auto simp: graph_validate_Ok graph_admissible_def list_all_iff)
  then show ?thesis
    using assms(4,5)
    by (auto simp: node_admissible_def list_all_iff shape_before_Ok
        split: option.splits f32_shape.splits if_splits)
qed

theorem graph_operands_earlier_witness:
  "list_all (\<lambda>v. v < 3) [2, 0 :: nat] \<and> shape_before demo_graph 2 1 = Ok (Vector 3)"
proof -
  have lim: "max_work_items demo_limits < u64_lim" "max_live_payload_bytes demo_limits < u64_lim"
    by (simp_all add: demo_limits_def u64_lim_def)
  have v: "graph_validate demo_graph demo_limits = Ok \<lparr>plan = demo_graph, budget = budget_spec demo_graph\<rparr>"
    using demo_admissible by (simp add: graph_validate_Ok [OF lim])
  have n: "1 < length (nodes demo_graph)" and o: "Gather 2 [2, 0] = node_operation (nodes demo_graph ! 1)"
    by (simp_all add: demo_graph_def)
  have s: "graph_value demo_graph 2 = Vector 3"
    by (simp add: graph_value_def demo_graph_def)
  show ?thesis
    using graph_operands_earlier [OF v lim n o, of 2 "[2, 0]"]
    by (simp add: s)
qed

end
