(* ===== verification/Identity.thy ===== *)
theory Identity
  imports Rust_Str
begin

text \<open>
  The identity contract that the versioned plans of \<open>nnis-core\<close> share: an identity string is
  non-blank, in trimmed form and of bounded UTF-8 length.  Each module has its own
  \<open>validate_id\<close> over its own error type; they are the instances of \<open>validate_id_with\<close>.  The locale
  \<open>id_validator\<close> states what a caller relies on and is interpreted in each module.
\<close>

definition validate_id_with ::
  "(string \<Rightarrow> 'e) \<Rightarrow> (string \<Rightarrow> 'e) \<Rightarrow> (string \<Rightarrow> nat \<Rightarrow> 'e) \<Rightarrow> nat \<Rightarrow> string \<Rightarrow> rstr \<Rightarrow> 'e + unit" where
  "validate_id_with empty_id non_canonical too_long limit field value =
     (let trimmed = trim value in
      if trimmed = [] then Err (empty_id field)
      else if trimmed \<noteq> value then Err (non_canonical field)
      else if str_len value > limit then Err (too_long field (str_len value))
      else Ok ())"

definition id_wf :: "nat \<Rightarrow> rstr \<Rightarrow> bool" where
  "id_wf limit s \<longleftrightarrow> s \<noteq> [] \<and> \<not> is_white (hd s) \<and> \<not> is_white (last s) \<and> str_len s \<le> limit"

lemma validate_id_with_Ok:
  "validate_id_with e n t limit field s = Ok u \<longleftrightarrow> id_wf limit s"
proof (cases "s = []")
  case True
  then show ?thesis by (simp add: validate_id_with_def id_wf_def trim_def)
next
  case False
  then have "hd s \<in> set s" by simp
  then have "\<not> is_white (hd s) \<Longrightarrow> trim s \<noteq> []"
    unfolding trim_Nil_iff by blast
  with False show ?thesis
    using trim_id_iff [of s] by (auto simp: validate_id_with_def id_wf_def Let_def)
qed

locale id_validator =
  fixes validate :: "string \<Rightarrow> rstr \<Rightarrow> 'e + unit"
    and limit :: nat
  assumes validate_Ok_iff: "validate field s = Ok () \<longleftrightarrow> id_wf limit s"
begin

lemma validate_Ok [simp]: "validate field s = Ok u \<longleftrightarrow> id_wf limit s"
  using validate_Ok_iff by simp

lemma accepted_nonempty: "validate field s = Ok u \<Longrightarrow> s \<noteq> []"
  by (simp add: id_wf_def)

lemma field_irrelevant: "is_ok (validate f s) = is_ok (validate g s)"
  by (auto simp: is_ok_iff)

lemma two_ids:
  "and_then (validate f s) (\<lambda>_. and_then (validate g t) (\<lambda>_. k)) = Ok r \<longleftrightarrow>
     id_wf limit s \<and> id_wf limit t \<and> k = Ok r"
  by auto

end

lemma id_wf_simple [simp]:
  "c < 128 \<Longrightarrow> \<not> is_white c \<Longrightarrow> 1 \<le> limit \<Longrightarrow> id_wf limit [c]"
  by (simp add: id_wf_def str_len_def utf8_nats_def utf8_char_def)

end
