(* ===== verification/KvReusePlan.thy ===== *)
theory KvReusePlan
  imports Identity
begin

text \<open>
  \<open>nnis-core/src/kv_reuse_plan.rs\<close>: the validated plan that says, per layer and per component, whether
  a KV cache is owned or read from a strictly earlier owner.  The lemmas show which plans are
  accepted, and that resolving an owner in an accepted plan always lands on an owning layer.
\<close>

section \<open>Plans\<close>

definition MAX_KV_REUSE_PLAN_LAYERS :: nat where "MAX_KV_REUSE_PLAN_LAYERS = 4096"
definition MAX_KV_REUSE_PLAN_ID_BYTES :: nat where "MAX_KV_REUSE_PLAN_ID_BYTES = 128"

datatype kv_component = Key | Value

fun kv_component_name :: "kv_component \<Rightarrow> string" where
  "kv_component_name Key = ''key''"
| "kv_component_name Value = ''value''"

datatype kv_layer_source = Own | ReuseFrom nat

record kv_layer_reuse =
  key_source :: kv_layer_source
  value_source :: kv_layer_source

definition kv_layer_own :: kv_layer_reuse where
  "kv_layer_own = \<lparr>key_source = Own, value_source = Own\<rparr>"

fun layer_source :: "kv_layer_reuse \<Rightarrow> kv_component \<Rightarrow> kv_layer_source" where
  "layer_source l Key = key_source l"
| "layer_source l Value = value_source l"

record kv_reuse_plan =
  plan_id :: rstr
  plan_model_id :: rstr
  plan_schema_version :: nat
  plan_layers :: "kv_layer_reuse list"

datatype kv_reuse_error =
    EmptyId string
  | NonCanonicalId string
  | IdTooLong string nat
  | ZeroPlanSchemaVersion
  | NoLayers
  | TooManyLayers nat
  | NonCausalReuse nat kv_component nat
  | ChainedReuse nat kv_component nat
  | LayerOutOfRange nat nat

fun display_kv_reuse_error :: "kv_reuse_error \<Rightarrow> rstr" where
  "display_kv_reuse_error (EmptyId field) = lit field @ lit '' must not be empty''"
| "display_kv_reuse_error (NonCanonicalId field) =
     lit field @ lit '' must not have leading or trailing whitespace''"
| "display_kv_reuse_error (IdTooLong field bytes) =
     lit field @ lit '' uses '' @ dec bytes @ lit '' bytes, maximum is '' @
     dec MAX_KV_REUSE_PLAN_ID_BYTES"
| "display_kv_reuse_error ZeroPlanSchemaVersion =
     lit ''KV reuse plan schema version must be non-zero''"
| "display_kv_reuse_error NoLayers = lit ''KV reuse plan must declare at least one layer''"
| "display_kv_reuse_error (TooManyLayers layers) =
     lit ''KV reuse plan declares '' @ dec layers @ lit '' layers, maximum is '' @
     dec MAX_KV_REUSE_PLAN_LAYERS"
| "display_kv_reuse_error (NonCausalReuse layer kc producer) =
     lit ''layer '' @ dec layer @ lit '' '' @ lit (kv_component_name kc) @
     lit '' cache reuses non-earlier layer '' @ dec producer"
| "display_kv_reuse_error (ChainedReuse layer kc producer) =
     lit ''layer '' @ dec layer @ lit '' '' @ lit (kv_component_name kc) @
     lit '' cache reuses layer '' @ dec producer @ lit '', which does not own it''"
| "display_kv_reuse_error (LayerOutOfRange layer layers) =
     lit ''layer '' @ dec layer @ lit '' is outside the '' @ dec layers @ lit ''-layer plan''"

definition kv_reuse_validate_id :: "string \<Rightarrow> rstr \<Rightarrow> kv_reuse_error + unit" where
  "kv_reuse_validate_id = validate_id_with EmptyId NonCanonicalId IdTooLong MAX_KV_REUSE_PLAN_ID_BYTES"

interpretation reuse_id: id_validator kv_reuse_validate_id MAX_KV_REUSE_PLAN_ID_BYTES
  by unfold_locales (simp add: kv_reuse_validate_id_def validate_id_with_Ok)

section \<open>Construction\<close>

definition check_component ::
  "kv_layer_reuse list \<Rightarrow> nat \<Rightarrow> kv_layer_reuse \<Rightarrow> kv_component \<Rightarrow> kv_reuse_error + unit" where
  "check_component layers layer_index layer kc =
     (case layer_source layer kc of
        Own \<Rightarrow> Ok ()
      | ReuseFrom producer \<Rightarrow>
          if producer \<ge> layer_index then Err (NonCausalReuse layer_index kc producer)
          else if layer_source (layers ! producer) kc \<noteq> Own then
            Err (ChainedReuse layer_index kc producer)
          else Ok ())"

definition kv_reuse_plan_new ::
  "rstr \<Rightarrow> rstr \<Rightarrow> nat \<Rightarrow> kv_layer_reuse list \<Rightarrow> kv_reuse_error + kv_reuse_plan" where
  "kv_reuse_plan_new pid mid version layers =
     and_then (kv_reuse_validate_id ''plan_id'' pid) (\<lambda>_.
     and_then (kv_reuse_validate_id ''model_id'' mid) (\<lambda>_.
       if version = 0 then Err ZeroPlanSchemaVersion
       else if layers = [] then Err NoLayers
       else if length layers > MAX_KV_REUSE_PLAN_LAYERS then Err (TooManyLayers (length layers))
       else
         and_then (check_all (\<lambda>(index, layer).
                     check_all (check_component layers (as_u32 index) layer) [Key, Value])
                   (enumerate 0 layers)) (\<lambda>_.
           Ok \<lparr>plan_id = pid, plan_model_id = mid, plan_schema_version = version,
               plan_layers = layers\<rparr>)))"

section \<open>Queries\<close>

definition layer_count :: "kv_reuse_plan \<Rightarrow> nat" where
  "layer_count p = length (plan_layers p)"

definition plan_layer :: "kv_reuse_plan \<Rightarrow> nat \<Rightarrow> kv_reuse_error + kv_layer_reuse" where
  "plan_layer p l =
     (if l < length (plan_layers p) then Ok (plan_layers p ! l)
      else Err (LayerOutOfRange l (length (plan_layers p))))"

definition plan_owner :: "kv_reuse_plan \<Rightarrow> nat \<Rightarrow> kv_component \<Rightarrow> kv_reuse_error + nat" where
  "plan_owner p l kc =
     and_then (plan_layer p l) (\<lambda>layer.
       Ok (case layer_source layer kc of Own \<Rightarrow> l | ReuseFrom producer \<Rightarrow> producer))"

definition owning_layers :: "kv_reuse_plan \<Rightarrow> kv_component \<Rightarrow> nat list" where
  "owning_layers p kc =
     map (\<lambda>(index, _). as_u32 index)
       (filter (\<lambda>(_, layer). layer_source layer kc = Own) (enumerate 0 (plan_layers p)))"

definition owned_count :: "kv_reuse_plan \<Rightarrow> kv_component \<Rightarrow> nat" where
  "owned_count p kc = length (filter (\<lambda>layer. layer_source layer kc = Own) (plan_layers p))"

section \<open>Accepted plans\<close>

definition reuse_causal :: "kv_layer_reuse list \<Rightarrow> bool" where
  "reuse_causal layers \<longleftrightarrow>
     (\<forall>l < length layers. \<forall>kc q. layer_source (layers ! l) kc = ReuseFrom q \<longrightarrow>
        q < l \<and> layer_source (layers ! q) kc = Own)"

definition plan_wf :: "kv_reuse_plan \<Rightarrow> bool" where
  "plan_wf p \<longleftrightarrow>
     id_wf MAX_KV_REUSE_PLAN_ID_BYTES (plan_id p) \<and> id_wf MAX_KV_REUSE_PLAN_ID_BYTES (plan_model_id p) \<and>
     0 < plan_schema_version p \<and> plan_layers p \<noteq> [] \<and>
     length (plan_layers p) \<le> MAX_KV_REUSE_PLAN_LAYERS \<and> reuse_causal (plan_layers p)"

lemma check_component_Ok:
  "check_component layers i layer kc = Ok u \<longleftrightarrow>
     (\<forall>q. layer_source layer kc = ReuseFrom q \<longrightarrow> q < i \<and> layer_source (layers ! q) kc = Own)"
  by (auto simp: check_component_def split: kv_layer_source.splits)

lemma all_components: "(\<forall>c. P c) \<longleftrightarrow> P Key \<and> P Value"
  by (metis kv_component.exhaust)

lemma check_layers_Ok:
  assumes "length layers \<le> MAX_KV_REUSE_PLAN_LAYERS"
  shows "check_all (\<lambda>(index, layer). check_all (check_component layers (as_u32 index) layer) [Key, Value])
      (enumerate 0 layers) = Ok u \<longleftrightarrow> reuse_causal layers"
  using assms unfolding check_enumerate_Ok
  by (auto simp: check_component_Ok all_components MAX_KV_REUSE_PLAN_LAYERS_def u32_lim_def reuse_causal_def)

lemma plan_new_Ok:
  "kv_reuse_plan_new pid mid version layers = Ok p \<longleftrightarrow>
     p = \<lparr>plan_id = pid, plan_model_id = mid, plan_schema_version = version, plan_layers = layers\<rparr> \<and>
     plan_wf p"
proof (cases "length layers \<le> MAX_KV_REUSE_PLAN_LAYERS")
  case True
  then show ?thesis
    unfolding kv_reuse_plan_new_def plan_wf_def
    by (auto simp: check_layers_Ok simp del: check_enumerate_Ok check_all_Ok_iff check_all_simps
        split: if_splits)
next
  case False
  then show ?thesis
    by (auto simp: kv_reuse_plan_new_def plan_wf_def split: if_splits)
qed

lemma reuse_causal_cases:
  assumes "reuse_causal layers" "l < length layers"
  shows "layer_source (layers ! l) kc = Own \<or>
    (\<exists>q < l. layer_source (layers ! l) kc = ReuseFrom q \<and> layer_source (layers ! q) kc = Own)"
  using assms by (cases "layer_source (layers ! l) kc") (auto simp: reuse_causal_def)

lemma plan_wf_small: "plan_wf p \<Longrightarrow> l < length (plan_layers p) \<Longrightarrow> as_u32 l = l"
  by (simp add: plan_wf_def MAX_KV_REUSE_PLAN_LAYERS_def u32_lim_def)

lemma owning_layers_eq:
  assumes "plan_wf p"
  shows "owning_layers p kc =
    filter (\<lambda>l. layer_source (plan_layers p ! l) kc = Own) [0..<length (plan_layers p)]"
proof -
  have "enumerate 0 (plan_layers p) = map (\<lambda>l. (l, plan_layers p ! l)) [0..<length (plan_layers p)]"
    by (simp add: enumerate_map_nth)
  then show ?thesis
    using plan_wf_small [OF assms]
    by (auto simp: owning_layers_def filter_map o_def intro!: map_idI)
qed

lemma plan_owner_resolves:
  assumes "plan_wf p" "l < layer_count p"
  shows "\<exists>own. plan_owner p l kc = Ok own \<and> own \<le> l \<and> own \<in> set (owning_layers p kc) \<and>
    plan_owner p own kc = Ok own"
proof -
  have l: "l < length (plan_layers p)" and causal: "reuse_causal (plan_layers p)"
    using assms by (simp_all add: layer_count_def plan_wf_def)
  from reuse_causal_cases [OF causal l, of kc] show ?thesis
  proof (elim disjE exE conjE)
    assume "layer_source (plan_layers p ! l) kc = Own"
    with l show ?thesis
      by (intro exI [of _ l]) (simp add: plan_owner_def plan_layer_def owning_layers_eq [OF assms(1)])
  next
    fix q assume "q < l" "layer_source (plan_layers p ! l) kc = ReuseFrom q"
      "layer_source (plan_layers p ! q) kc = Own"
    with l show ?thesis
      by (intro exI [of _ q]) (simp add: plan_owner_def plan_layer_def owning_layers_eq [OF assms(1)])
  qed
qed

section \<open>Properties\<close>

text \<open>A plan is accepted exactly when both identities are well formed, the schema version is
  non-zero, there are between 1 and 4096 layers, and every reuse names a strictly earlier layer that
  owns the same component; and the accepted plan is the one supplied, never a repaired one.\<close>

theorem kv_reuse_plan_new_exact:
  "kv_reuse_plan_new pid mid version layers = Ok p \<longleftrightarrow>
     p = \<lparr>plan_id = pid, plan_model_id = mid, plan_schema_version = version, plan_layers = layers\<rparr> \<and>
     id_wf 128 pid \<and> id_wf 128 mid \<and> 0 < version \<and> 1 \<le> length layers \<and> length layers \<le> 4096 \<and>
     reuse_causal layers"
  unfolding plan_new_Ok plan_wf_def MAX_KV_REUSE_PLAN_ID_BYTES_def MAX_KV_REUSE_PLAN_LAYERS_def
  by (auto simp: Suc_le_eq)

definition demo_plan :: kv_reuse_plan where
  "demo_plan = \<lparr>plan_id = lit ''p'', plan_model_id = lit ''m'', plan_schema_version = 1,
     plan_layers = [kv_layer_own, \<lparr>key_source = ReuseFrom 0, value_source = Own\<rparr>]\<rparr>"

lemma demo_plan_causal: "reuse_causal (plan_layers demo_plan)"
  by (auto simp: reuse_causal_def demo_plan_def kv_layer_own_def all_components less_Suc_eq)

lemma demo_plan_new: "kv_reuse_plan_new (lit ''p'') (lit ''m'') 1 (plan_layers demo_plan) = Ok demo_plan"
  using demo_plan_causal
  by (simp add: plan_new_Ok plan_wf_def)
     (simp add: demo_plan_def lit_def MAX_KV_REUSE_PLAN_LAYERS_def MAX_KV_REUSE_PLAN_ID_BYTES_def
       is_white_def)

text \<open>C37. In an accepted plan every layer resolves, for each component, to one owner: a layer no later
  than itself that owns that component (so resolution never chains: the owner resolves to itself), and
  the owners are listed in strictly increasing order, as many as \<open>owned_count\<close> says.\<close>

theorem kv_reuse_owner_resolution:
  assumes "kv_reuse_plan_new pid mid version layers = Ok p" "l < layer_count p"
  shows "(\<exists>own. plan_owner p l kc = Ok own \<and> own \<le> l \<and> own \<in> set (owning_layers p kc) \<and>
      plan_owner p own kc = Ok own) \<and>
    sorted_wrt (<) (owning_layers p kc) \<and> length (owning_layers p kc) = owned_count p kc"
proof -
  have wf: "plan_wf p" using assms(1) unfolding plan_new_Ok by blast
  have "length (owning_layers p kc) = owned_count p kc"
    by (simp add: owning_layers_def owned_count_def)
  then show ?thesis
    using plan_owner_resolves [OF wf assms(2)] owning_layers_eq [OF wf]
    by (simp add: sorted_wrt_filter)
qed

theorem kv_reuse_owner_resolution_witness:
  "plan_owner demo_plan 1 Key = Ok 0 \<and> sorted_wrt (<) (owning_layers demo_plan Key)"
  using kv_reuse_owner_resolution [OF demo_plan_new, of 1 Key]
  by (simp add: demo_plan_def plan_owner_def plan_layer_def layer_count_def)

end
