(* ===== verification/ReplayState.thy ===== *)
theory ReplayState
  imports Identity
begin

text \<open>
  \<open>nnis-core/src/replay_state.rs\<close>: the identity of a replay source (an inclusive range of logical
  positions) and the bounded windows requested from it.  Positions are \<open>u64\<close>; a full-range
  source has \<open>2 ^ 64\<close> positions, one more than a \<open>u64\<close> counts, and the lemmas cover that
  edge: a recent window is exact, contained and never clamped.
\<close>

section \<open>Data\<close>

definition MAX_REPLAY_ID_BYTES :: nat where "MAX_REPLAY_ID_BYTES = 128"

record replay_representation =
  repr_id :: rstr
  repr_schema_version :: nat
  materialization_epoch :: nat

record replay_source =
  provider_id :: rstr
  source_id :: rstr
  source_generation :: nat
  source_representation :: replay_representation
  source_start :: nat
  source_end :: nat

record replay_window =
  window_source :: replay_source
  window_start :: nat
  window_end :: nat

datatype replay_error =
    EmptyReplayId string
  | ReplayIdTooLong string nat
  | NonCanonicalReplayId string
  | ZeroRepresentationSchemaVersion
  | InvalidSourceRange nat nat
  | InvalidWindowRange nat nat
  | WindowOutsideSource nat nat nat nat
  | ZeroWindowItems
  | RecentWindowExceedsSource nat nat
  | PositionOverflow
  | SourceIdentityMismatch

fun display_replay_error :: "replay_error \<Rightarrow> rstr" where
  "display_replay_error (EmptyReplayId field) = lit field @ lit '' must not be empty''"
| "display_replay_error (ReplayIdTooLong field bytes) =
     lit field @ lit '' uses '' @ dec bytes @ lit '' bytes, maximum is '' @ dec MAX_REPLAY_ID_BYTES"
| "display_replay_error (NonCanonicalReplayId field) =
     lit field @ lit '' must not have leading or trailing whitespace''"
| "display_replay_error ZeroRepresentationSchemaVersion =
     lit ''replay representation schema version must be non-zero''"
| "display_replay_error (InvalidSourceRange s e) =
     lit ''invalid replay source range '' @ dec s @ lit ''..='' @ dec e"
| "display_replay_error (InvalidWindowRange s e) =
     lit ''invalid replay window '' @ dec s @ lit ''..='' @ dec e"
| "display_replay_error (WindowOutsideSource ss se rs re) =
     lit ''replay window '' @ dec rs @ lit ''..='' @ dec re @ lit '' is outside source '' @
     dec ss @ lit ''..='' @ dec se"
| "display_replay_error ZeroWindowItems = lit ''recent replay window must be non-empty''"
| "display_replay_error (RecentWindowExceedsSource available requested) =
     lit ''recent replay window of '' @ dec requested @ lit '' items exceeds the '' @
     dec available @ lit '' source items''"
| "display_replay_error PositionOverflow = lit ''replay logical-position arithmetic overflow''"
| "display_replay_error SourceIdentityMismatch =
     lit ''replay request source identity no longer matches provider''"

definition replay_validate_id :: "string \<Rightarrow> rstr \<Rightarrow> replay_error + unit" where
  "replay_validate_id =
     validate_id_with EmptyReplayId NonCanonicalReplayId ReplayIdTooLong MAX_REPLAY_ID_BYTES"

interpretation replay_id: id_validator replay_validate_id MAX_REPLAY_ID_BYTES
  by unfold_locales (simp add: replay_validate_id_def validate_id_with_Ok)

section \<open>Construction\<close>

definition replay_representation_new :: "rstr \<Rightarrow> nat \<Rightarrow> nat \<Rightarrow> replay_error + replay_representation" where
  "replay_representation_new rid version epoch =
     and_then (replay_validate_id ''representation_id'' rid) (\<lambda>_.
       if version = 0 then Err ZeroRepresentationSchemaVersion
       else Ok \<lparr>repr_id = rid, repr_schema_version = version, materialization_epoch = epoch\<rparr>)"

definition replay_source_new ::
  "rstr \<Rightarrow> rstr \<Rightarrow> nat \<Rightarrow> replay_representation \<Rightarrow> nat \<Rightarrow> nat \<Rightarrow> replay_error + replay_source" where
  "replay_source_new pid sid gen repr start end_pos =
     and_then (replay_validate_id ''provider_id'' pid) (\<lambda>_.
     and_then (replay_validate_id ''source_id'' sid) (\<lambda>_.
       if start > end_pos then Err (InvalidSourceRange start end_pos)
       else Ok \<lparr>provider_id = pid, source_id = sid, source_generation = gen,
                source_representation = repr, source_start = start, source_end = end_pos\<rparr>))"

definition range_items :: "nat \<Rightarrow> nat \<Rightarrow> replay_error + nat" where
  "range_items start end_pos =
     ok_or PositionOverflow
       (case checked_sub end_pos start of None \<Rightarrow> None | Some delta \<Rightarrow> checked_add delta 1)"

definition source_logical_items :: "replay_source \<Rightarrow> replay_error + nat" where
  "source_logical_items s = range_items (source_start s) (source_end s)"

definition replay_window_new :: "replay_source \<Rightarrow> nat \<Rightarrow> nat \<Rightarrow> replay_error + replay_window" where
  "replay_window_new s start end_pos =
     (if start > end_pos then Err (InvalidWindowRange start end_pos)
      else if start < source_start s \<or> end_pos > source_end s then
        Err (WindowOutsideSource (source_start s) (source_end s) start end_pos)
      else Ok \<lparr>window_source = s, window_start = start, window_end = end_pos\<rparr>)"

definition replay_window_recent :: "replay_source \<Rightarrow> nat \<Rightarrow> replay_error + replay_window" where
  "replay_window_recent s window_items =
     (if window_items = 0 then Err ZeroWindowItems
      else
        let span = source_end s - source_start s;
            window_span = window_items - 1
        in if window_span > span then
             and_then (source_logical_items s) (\<lambda>available.
               Err (RecentWindowExceedsSource available window_items))
           else replay_window_new s (source_end s - window_span) (source_end s))"

definition window_logical_items :: "replay_window \<Rightarrow> replay_error + nat" where
  "window_logical_items w = range_items (window_start w) (window_end w)"

text \<open>The default method of the provider trait, over the identity the provider exposes now.\<close>

definition validate_replay_window :: "replay_source \<Rightarrow> replay_window \<Rightarrow> replay_error + unit" where
  "validate_replay_window current request =
     (if current \<noteq> window_source request then Err SourceIdentityMismatch else Ok ())"

section \<open>Well-formed sources and windows\<close>

definition source_wf :: "replay_source \<Rightarrow> bool" where
  "source_wf s \<longleftrightarrow>
     id_wf MAX_REPLAY_ID_BYTES (provider_id s) \<and> id_wf MAX_REPLAY_ID_BYTES (source_id s) \<and>
     source_start s \<le> source_end s \<and> source_end s < u64_lim"

definition window_wf :: "replay_window \<Rightarrow> bool" where
  "window_wf w \<longleftrightarrow>
     source_start (window_source w) \<le> window_start w \<and> window_start w \<le> window_end w \<and>
     window_end w \<le> source_end (window_source w)"

lemma range_items_Ok [simp]:
  "range_items a b = Ok n \<longleftrightarrow> a \<le> b \<and> n = b - a + 1 \<and> n < u64_lim"
  by (auto simp: range_items_def split: option.splits)

lemma replay_source_new_Ok:
  assumes "end_pos < u64_lim"
  shows "replay_source_new pid sid gen repr start end_pos = Ok s \<longleftrightarrow>
     s = \<lparr>provider_id = pid, source_id = sid, source_generation = gen,
          source_representation = repr, source_start = start, source_end = end_pos\<rparr> \<and> source_wf s"
  using assms by (auto simp: replay_source_new_def source_wf_def)

lemma replay_window_new_Ok:
  "replay_window_new s a b = Ok w \<longleftrightarrow>
     w = \<lparr>window_source = s, window_start = a, window_end = b\<rparr> \<and> window_wf w"
  by (auto simp: replay_window_new_def window_wf_def)

lemma recent_no_overflow:
  assumes "source_wf s" "n < u64_lim" "n \<noteq> 0" "source_end s - source_start s < n - 1"
  shows "source_logical_items s = Ok (source_end s - source_start s + 1)"
  using assms by (simp add: source_logical_items_def source_wf_def)

section \<open>Properties\<close>

text \<open>The recent window of \<open>n\<close> items is exact: it fails closed when \<open>n\<close> is zero or more than the
  source has, reporting how many there are, and otherwise is the last \<open>n\<close> positions of the source -
  for every \<open>u64\<close> source range, including the full one, whose item count overflows.\<close>

theorem replay_recent_exact:
  assumes "source_wf s" "n < u64_lim"
  shows "replay_window_recent s n =
    (if n = 0 then Err ZeroWindowItems
     else if n > source_end s - source_start s + 1 then
       Err (RecentWindowExceedsSource (source_end s - source_start s + 1) n)
     else Ok \<lparr>window_source = s, window_start = source_end s + 1 - n, window_end = source_end s\<rparr>)"
proof (cases "n = 0")
  case True
  then show ?thesis by (simp add: replay_window_recent_def)
next
  case False
  show ?thesis
  proof (cases "source_end s - source_start s < n - 1")
    case True
    with False recent_no_overflow [OF assms False True] show ?thesis
      by (simp add: replay_window_recent_def Let_def)
  next
    case le: False
    with False assms show ?thesis
      by (auto simp: replay_window_recent_def replay_window_new_def source_wf_def Let_def)
  qed
qed

definition full_source :: replay_source where
  "full_source = \<lparr>provider_id = lit ''p'', source_id = lit ''s'', source_generation = 0,
     source_representation = \<lparr>repr_id = lit ''r'', repr_schema_version = 1, materialization_epoch = 0\<rparr>,
     source_start = 0, source_end = 18446744073709551615\<rparr>"

lemma full_source_wf: "source_wf full_source"
  by (simp add: source_wf_def full_source_def lit_def is_white_def MAX_REPLAY_ID_BYTES_def u64_lim_def)

theorem replay_recent_exact_witness:
  "replay_window_recent full_source 1 = Ok \<lparr>window_source = full_source,
     window_start = 18446744073709551615, window_end = 18446744073709551615\<rparr> \<and>
   source_logical_items full_source = Err PositionOverflow"
  using replay_recent_exact [OF full_source_wf, of 1]
  by (simp add: source_logical_items_def range_items_def full_source_def u64_lim_def
      checked_sub_def checked_add_def)

text \<open>A window obtained through either constructor and still accepted by its provider lies wholly
  inside the range the provider exposes now, and counts exactly its positions unless it is the full
  \<open>u64\<close> range.\<close>

theorem replay_window_sound:
  assumes "source_wf s"
    and "replay_window_new s a b = Ok w \<or> (n < u64_lim \<and> replay_window_recent s n = Ok w)"
    and "validate_replay_window current w = Ok ()"
  shows "current = s \<and> source_start current \<le> window_start w \<and> window_end w \<le> source_end current \<and>
    (window_logical_items w = Ok (window_end w - window_start w + 1) \<or>
     window_logical_items w = Err PositionOverflow \<and> window_start w = 0 \<and> window_end w = u64_lim - 1)"
proof -
  have "window_source w = s \<and> window_wf w"
    using assms(2)
    by (auto simp: replay_window_recent_def replay_window_new_Ok Let_def split: if_splits)
  moreover have "current = window_source w"
    using assms(3) by (auto simp: validate_replay_window_def split: if_splits)
  ultimately have "current = s" and w: "source_start s \<le> window_start w" "window_start w \<le> window_end w"
    "window_end w \<le> source_end s"
    by (auto simp: window_wf_def)
  moreover have "window_end w < u64_lim"
    using w assms(1) by (simp add: source_wf_def)
  ultimately show ?thesis
    by (auto simp: window_logical_items_def range_items_def checked_sub_def checked_add_def)
qed

theorem replay_window_sound_witness:
  "\<exists>w. replay_window_new full_source 3 5 = Ok w \<and> window_logical_items w = Ok 3"
proof -
  let ?w = "\<lparr>window_source = full_source, window_start = 3, window_end = 5\<rparr>"
  have new: "replay_window_new full_source 3 5 = Ok ?w"
    by (simp add: replay_window_new_def full_source_def)
  have valid: "validate_replay_window full_source ?w = Ok ()"
    by (simp add: validate_replay_window_def)
  show ?thesis
    using replay_window_sound [OF full_source_wf disjI1 [OF new] valid] new by auto
qed

end
