(* ===== verification/KvFp4.thy ===== *)
theory KvFp4
  imports F32_Bits Rust_Str
begin

text \<open>
  \<open>nnis-core/src/kv_fp4.rs\<close>: the group-scaled FP4 E2M1 layout of KV rows - its code table and its
  storage accounting.  The lemmas show that the table is the E2M1 format, that the \<open>as u32\<close>
  truncation and the unchecked subtraction of the layout cannot go wrong in a valid one, and that
  the reported storage is exact.
\<close>

section \<open>Code table\<close>

definition FP4_CODE_BITS :: nat where "FP4_CODE_BITS = 4"
definition FP4_KV_DESCRIPTOR_BYTES :: nat where "FP4_KV_DESCRIPTOR_BYTES = 24"
definition MAX_FP4_GROUP_SIZE :: nat where "MAX_FP4_GROUP_SIZE = 4096"

text \<open>0.0, 0.5, 1.0, 1.5, 2.0, 3.0, 4.0, 6.0 as bit patterns.\<close>

definition FP4_E2M1_MAGNITUDES :: "f32 list" where
  "FP4_E2M1_MAGNITUDES = [0x00000000, 0x3F000000, 0x3F800000, 0x3FC00000,
                          0x40000000, 0x40400000, 0x40800000, 0x40C00000]"

datatype fp4_layout_error =
    ZeroRows
  | ZeroRowWidth
  | InvalidGroupSize nat
  | InvalidCode u8
  | SizeOverflow

text \<open>\<open>{code:#x}\<close>.\<close>

definition hex_u8 :: "u8 \<Rightarrow> rstr" where
  "hex_u8 b = (let d = (\<lambda>n. if n < 10 then 48 + n else 87 + n); n = unat b
     in lit ''0x'' @ (if n < 16 then [d n] else [d (n div 16), d (n mod 16)]))"

fun display_fp4_error :: "fp4_layout_error \<Rightarrow> rstr" where
  "display_fp4_error ZeroRows = lit ''FP4 KV layout must have at least one row''"
| "display_fp4_error ZeroRowWidth = lit ''FP4 KV row width must be non-zero''"
| "display_fp4_error (InvalidGroupSize group_size) =
     lit ''FP4 group size '' @ dec group_size @ lit '' must be even and in 2..='' @ dec MAX_FP4_GROUP_SIZE"
| "display_fp4_error (InvalidCode code) = lit ''FP4 code '' @ hex_u8 code @ lit '' exceeds 4 bits''"
| "display_fp4_error SizeOverflow = lit ''FP4 KV storage arithmetic overflow''"

definition f32_neg :: "f32 \<Rightarrow> f32" where
  "f32_neg x = x XOR 0x80000000"

definition fp4_e2m1_value :: "u8 \<Rightarrow> fp4_layout_error + f32" where
  "fp4_e2m1_value code =
     (if code > 0xF then Err (InvalidCode code)
      else let magnitude = FP4_E2M1_MAGNITUDES ! unat (code AND 7)
           in Ok (if code AND 8 \<noteq> 0 then f32_neg magnitude else magnitude))"

text \<open>The value of a finite \<open>f32\<close> in units of \<open>2 ^ - 149\<close>, and of an E2M1 code in halves: one sign
  bit, two exponent bits with bias 1, one mantissa bit.\<close>

definition f32_units :: "f32 \<Rightarrow> int" where
  "f32_units x =
     (let m = f32_mag x; e = m div 2 ^ 23; f = m mod 2 ^ 23;
          u = (if e = 0 then int f else int (2 ^ 23 + f) * 2 ^ (e - 1))
      in if f32_sign_negative x then - u else u)"

definition e2m1_halves :: "nat \<Rightarrow> int" where
  "e2m1_halves c =
     (let e = c div 2 mod 4; m = c mod 2;
          u = (if e = 0 then int m else int (2 + m) * 2 ^ (e - 1))
      in if c div 8 mod 2 = 1 then - u else u)"

section \<open>Layout\<close>

datatype fp4_scale_encoding = ScaleF32 | ScaleE8M0

fun scale_bytes_of :: "fp4_scale_encoding \<Rightarrow> nat" where
  "scale_bytes_of ScaleF32 = 4"
| "scale_bytes_of ScaleE8M0 = 1"

fun scale_tag :: "fp4_scale_encoding \<Rightarrow> u8" where
  "scale_tag ScaleF32 = 1"
| "scale_tag ScaleE8M0 = 2"

datatype dense_kv_baseline = DenseF32 | DenseF16 | DenseBF16

fun dense_scalar_bits :: "dense_kv_baseline \<Rightarrow> nat" where
  "dense_scalar_bits DenseF32 = 32"
| "dense_scalar_bits DenseF16 = 16"
| "dense_scalar_bits DenseBF16 = 16"

record fp4_layout =
  fp4_rows :: nat
  fp4_row_width :: nat
  fp4_group_size :: nat
  fp4_scale_encoding :: fp4_scale_encoding

record fp4_storage =
  logical_values :: nat
  storage_groups :: nat
  code_bytes :: nat
  scale_bytes :: nat
  padding_values :: nat
  metadata_bytes :: nat
  total_bytes :: nat

definition groups_per_row :: "fp4_layout \<Rightarrow> nat" where
  "groups_per_row l = as_u32 (div_ceil (fp4_row_width l) (fp4_group_size l))"

definition padded_row_width :: "fp4_layout \<Rightarrow> nat" where
  "padded_row_width l = groups_per_row l * fp4_group_size l"

definition code_bytes_per_row :: "fp4_layout \<Rightarrow> nat" where
  "code_bytes_per_row l = padded_row_width l div 2"

definition scale_bytes_per_row :: "fp4_layout \<Rightarrow> nat" where
  "scale_bytes_per_row l = groups_per_row l * scale_bytes_of (fp4_scale_encoding l)"

definition fp4_layout_storage :: "fp4_layout \<Rightarrow> fp4_layout_error + fp4_storage" where
  "fp4_layout_storage l =
     and_then (ok_or SizeOverflow (checked_mul (fp4_rows l) (fp4_row_width l))) (\<lambda>logical.
     let padding_per_row = padded_row_width l - fp4_row_width l in
     and_then (ok_or SizeOverflow (checked_mul (fp4_rows l) padding_per_row)) (\<lambda>padding.
     and_then (ok_or SizeOverflow (checked_mul (fp4_rows l) (code_bytes_per_row l))) (\<lambda>codes.
     and_then (ok_or SizeOverflow (checked_mul (fp4_rows l) (groups_per_row l))) (\<lambda>groups.
     and_then (ok_or SizeOverflow (checked_mul groups (scale_bytes_of (fp4_scale_encoding l)))) (\<lambda>scales.
     and_then (ok_or SizeOverflow
         (case checked_add codes scales of None \<Rightarrow> None
          | Some bytes \<Rightarrow> checked_add bytes FP4_KV_DESCRIPTOR_BYTES)) (\<lambda>total.
       Ok \<lparr>logical_values = logical, storage_groups = groups, code_bytes = codes,
           scale_bytes = scales, padding_values = padding,
           metadata_bytes = FP4_KV_DESCRIPTOR_BYTES, total_bytes = total\<rparr>))))))"

definition fp4_layout_new ::
  "nat \<Rightarrow> nat \<Rightarrow> nat \<Rightarrow> fp4_scale_encoding \<Rightarrow> fp4_layout_error + fp4_layout" where
  "fp4_layout_new n width grp enc =
     (if n = 0 then Err ZeroRows
      else if width = 0 then Err ZeroRowWidth
      else if grp = 0 \<or> grp mod 2 \<noteq> 0 \<or> grp > MAX_FP4_GROUP_SIZE then Err (InvalidGroupSize grp)
      else
        let l = \<lparr>fp4_rows = n, fp4_row_width = width, fp4_group_size = grp, fp4_scale_encoding = enc\<rparr>
        in and_then (fp4_layout_storage l) (\<lambda>_. Ok l))"

text \<open>The figures in \<open>u128\<close>, which they fit.\<close>

definition padding_bits :: "fp4_storage \<Rightarrow> nat" where
  "padding_bits s = padding_values s * FP4_CODE_BITS"

definition total_bits :: "fp4_storage \<Rightarrow> nat" where
  "total_bits s = total_bytes s * 8"

definition effective_bits_per_value_ratio :: "fp4_storage \<Rightarrow> nat \<times> nat" where
  "effective_bits_per_value_ratio s = (total_bits s, logical_values s)"

definition dense_bits :: "fp4_storage \<Rightarrow> dense_kv_baseline \<Rightarrow> nat" where
  "dense_bits s baseline = logical_values s * dense_scalar_bits baseline"

definition compression_ratio_against :: "fp4_storage \<Rightarrow> dense_kv_baseline \<Rightarrow> nat \<times> nat" where
  "compression_ratio_against s baseline = (dense_bits s baseline, total_bits s)"

section \<open>Arithmetic of a layout\<close>

definition layout_dims_ok :: "fp4_layout \<Rightarrow> bool" where
  "layout_dims_ok l \<longleftrightarrow>
     0 < fp4_row_width l \<and> fp4_row_width l < u32_lim \<and>
     0 < fp4_group_size l \<and> even (fp4_group_size l) \<and> fp4_group_size l \<le> MAX_FP4_GROUP_SIZE"

lemma groups_exact:
  assumes "layout_dims_ok l"
  shows "groups_per_row l = div_ceil (fp4_row_width l) (fp4_group_size l)"
    and "fp4_row_width l \<le> padded_row_width l"
    and "padded_row_width l < fp4_row_width l + fp4_group_size l"
    and "padded_row_width l < u64_lim"
    and "even (padded_row_width l)"
proof -
  have "div_ceil (fp4_row_width l) (fp4_group_size l) < u32_lim"
    using div_ceil_le_self [of "fp4_group_size l" "fp4_row_width l"] assms by (simp add: layout_dims_ok_def)
  then show g: "groups_per_row l = div_ceil (fp4_row_width l) (fp4_group_size l)"
    by (simp add: groups_per_row_def)
  show w: "fp4_row_width l \<le> padded_row_width l"
    and p: "padded_row_width l < fp4_row_width l + fp4_group_size l"
    using div_ceil_bounds [of "fp4_group_size l" "fp4_row_width l"] assms
    by (simp_all add: padded_row_width_def g layout_dims_ok_def)
  show "padded_row_width l < u64_lim"
    using p assms by (simp add: layout_dims_ok_def MAX_FP4_GROUP_SIZE_def width_defs)
  show "even (padded_row_width l)"
    using assms by (simp add: padded_row_width_def layout_dims_ok_def)
qed

lemma fp4_layout_storage_Ok:
  "fp4_layout_storage l = Ok s \<longleftrightarrow>
     fp4_rows l * fp4_row_width l < u64_lim \<and>
     fp4_rows l * (padded_row_width l - fp4_row_width l) < u64_lim \<and>
     fp4_rows l * groups_per_row l < u64_lim \<and>
     fp4_rows l * code_bytes_per_row l + fp4_rows l * scale_bytes_per_row l + 24 < u64_lim \<and>
     s = \<lparr>logical_values = fp4_rows l * fp4_row_width l, storage_groups = fp4_rows l * groups_per_row l,
          code_bytes = fp4_rows l * code_bytes_per_row l,
          scale_bytes = fp4_rows l * scale_bytes_per_row l,
          padding_values = fp4_rows l * (padded_row_width l - fp4_row_width l), metadata_bytes = 24,
          total_bytes = fp4_rows l * code_bytes_per_row l + fp4_rows l * scale_bytes_per_row l + 24\<rparr>"
  by (auto simp: fp4_layout_storage_def scale_bytes_per_row_def FP4_KV_DESCRIPTOR_BYTES_def Let_def
      mult.assoc split: option.splits)

lemma scale_bytes_of_pos: "1 \<le> scale_bytes_of e"
  by (cases e) simp_all

section \<open>Properties\<close>

text \<open>The code table is the E2M1 format: each 4-bit code decodes to the \<open>f32\<close> with exactly the value of
  its sign, exponent and mantissa bits (a negative code differs from its positive one in the sign bit
  alone, so \<open>0x8\<close> is negative zero), and every byte above \<open>0xF\<close> is refused.\<close>

theorem fp4_e2m1_table:
  "(case fp4_e2m1_value code of
      Inl e \<Rightarrow> 0xF < code \<and> e = InvalidCode code
    | Inr v \<Rightarrow> code \<le> 0xF \<and> f32_units v = e2m1_halves (unat code) * 2 ^ 148 \<and>
        f32_sign_negative v = bit code 3)"
proof (cases "code \<le> 0xF")
  case False
  then show ?thesis by (simp add: fp4_e2m1_value_def not_le)
next
  case True
  then have "unat code \<le> 15" by (simp add: word_le_nat_alt)
  then have "unat code \<in> {0, 1, 2, 3, 4, 5, 6, 7, 8, 9, 10, 11, 12, 13, 14, 15}"
    unfolding insert_iff empty_iff by presburger
  then have "code \<in> {0, 1, 2, 3, 4, 5, 6, 7, 8, 9, 10, 11, 12, 13, 14, 15}"
    by (auto simp: word_unat_eq_iff)
  then show ?thesis
    by (elim insertE emptyE)
       (simp_all add: fp4_e2m1_value_def FP4_E2M1_MAGNITUDES_def f32_units_def e2m1_halves_def f32_neg_def
         f32_mag_def f32_sign_negative_def Let_def)
qed

text \<open>A layout is accepted exactly when it has rows, a width and an even group of at most 4096 values and
  none of its storage figures overflows \<open>u64\<close>; then its padding never underflows, its groups
  per row are the rounded-up quotient, and the storage reported is exact: two codes per byte over
  logical plus padding values, one scale per group, 24 bytes of descriptor, and nothing else.\<close>

theorem fp4_layout_storage_exact:
  assumes "width < u32_lim" "fp4_layout_new n width grp enc = Ok l"
  shows "groups_per_row l = div_ceil width grp \<and> width \<le> padded_row_width l \<and>
    padded_row_width l < width + grp \<and>
    (\<exists>s. fp4_layout_storage l = Ok s \<and>
       2 * code_bytes s = logical_values s + padding_values s \<and>
       logical_values s = n * width \<and> storage_groups s = n * div_ceil width grp \<and>
       scale_bytes s = storage_groups s * scale_bytes_of enc \<and>
       total_bytes s = code_bytes s + scale_bytes s + metadata_bytes s \<and>
       total_bytes s < u64_lim \<and> 4 * logical_values s + padding_bits s < total_bits s)"
proof -
  have l: "l = \<lparr>fp4_rows = n, fp4_row_width = width, fp4_group_size = grp, fp4_scale_encoding = enc\<rparr>"
    and dims: "layout_dims_ok l" and "\<exists>s. fp4_layout_storage l = Ok s"
    using assms by (auto simp: fp4_layout_new_def layout_dims_ok_def Let_def split: if_splits)
  then obtain s where s: "fp4_layout_storage l = Ok s" by blast
  note g = groups_exact [OF dims]
  have codes: "2 * code_bytes_per_row l = padded_row_width l"
    using g(5) by (simp add: code_bytes_per_row_def)
  have "2 * (n * code_bytes_per_row l) = n * width + n * (padded_row_width l - width)"
    using g(2) codes by (simp add: l flip: distrib_left mult.left_commute)
  then show ?thesis
    using s g unfolding fp4_layout_storage_Ok
    by (auto simp: fp4_layout_storage_Ok l scale_bytes_per_row_def padding_bits_def total_bits_def
        FP4_CODE_BITS_def)
qed

theorem fp4_layout_storage_exact_witness:
  "\<exists>l s. fp4_layout_new 2 5 4 ScaleE8M0 = Ok l \<and> fp4_layout_storage l = Ok s \<and>
     2 * code_bytes s = logical_values s + padding_values s \<and> total_bytes s = 36"
proof -
  let ?l = "\<lparr>fp4_rows = 2, fp4_row_width = 5, fp4_group_size = 4, fp4_scale_encoding = ScaleE8M0\<rparr>"
  have new: "fp4_layout_new 2 5 4 ScaleE8M0 = Ok ?l"
    by (simp add: fp4_layout_new_def fp4_layout_storage_Ok groups_per_row_def padded_row_width_def
        code_bytes_per_row_def scale_bytes_per_row_def div_ceil_def as_u32_def width_defs Let_def
        MAX_FP4_GROUP_SIZE_def)
  have w: "(5 :: nat) < u32_lim" by (simp add: width_defs)
  show ?thesis
    using fp4_layout_storage_exact [OF w new] new
    by (auto simp: fp4_layout_storage_Ok groups_per_row_def padded_row_width_def
        code_bytes_per_row_def scale_bytes_per_row_def div_ceil_def as_u32_def width_defs)
qed

end
