(* ===== verification/SpecVerify.thy ===== *)
theory SpecVerify
  imports Identity F32_Bits
begin

text \<open>
  \<open>nnis-core/src/speculative_verify.rs\<close>: a caller's speculative draft, the confidence schedule that
  decides how much of it is verified, the verification rule, and the cumulative acceptance counts.
  The main result is the one speculative decoding needs: with teacher-forced target tokens, the
  emitted tokens are those that decoding one token at a time would have produced.
\<close>

section \<open>Errors\<close>

definition MAX_SPECULATIVE_DRAFT_TOKENS :: nat where "MAX_SPECULATIVE_DRAFT_TOKENS = 1024"
definition MAX_SPECULATIVE_POLICY_ID_BYTES :: nat where "MAX_SPECULATIVE_POLICY_ID_BYTES = 128"

datatype speculative_error =
    EmptyDraft
  | DraftTooLong nat
  | ConfidenceCountMismatch nat nat
  | InvalidConfidence nat
  | EmptyPolicyId
  | NonCanonicalPolicyId
  | PolicyIdTooLong nat
  | ZeroPolicySchemaVersion
  | InvalidThreshold
  | ZeroMaxVerifyTokens
  | TargetLengthMismatch nat nat
  | CounterOverflow

fun display_speculative_error :: "speculative_error \<Rightarrow> rstr" where
  "display_speculative_error EmptyDraft = lit ''speculative draft must not be empty''"
| "display_speculative_error (DraftTooLong tokens) =
     lit ''speculative draft has '' @ dec tokens @ lit '' tokens, maximum is '' @
     dec MAX_SPECULATIVE_DRAFT_TOKENS"
| "display_speculative_error (ConfidenceCountMismatch tokens confidences) =
     lit ''speculative draft has '' @ dec tokens @ lit '' tokens but '' @ dec confidences @
     lit '' confidences''"
| "display_speculative_error (InvalidConfidence index) =
     lit ''draft confidence '' @ dec index @ lit '' is not a finite value in 0..=1''"
| "display_speculative_error EmptyPolicyId = lit ''schedule policy id must not be empty''"
| "display_speculative_error NonCanonicalPolicyId =
     lit ''schedule policy id must not have leading or trailing whitespace''"
| "display_speculative_error (PolicyIdTooLong bytes) =
     lit ''schedule policy id uses '' @ dec bytes @ lit '' bytes, maximum is '' @
     dec MAX_SPECULATIVE_POLICY_ID_BYTES"
| "display_speculative_error ZeroPolicySchemaVersion =
     lit ''schedule policy schema version must be non-zero''"
| "display_speculative_error InvalidThreshold =
     lit ''schedule confidence threshold must be a finite value in 0..=1''"
| "display_speculative_error ZeroMaxVerifyTokens =
     lit ''schedule must allow at least one verified token''"
| "display_speculative_error (TargetLengthMismatch expected actual) =
     lit ''verification needs '' @ dec expected @ lit '' target tokens, got '' @ dec actual"
| "display_speculative_error CounterOverflow = lit ''speculative acceptance counter overflow''"

section \<open>Drafts and schedules\<close>

record speculative_draft =
  draft_tokens :: "nat list"
  draft_confidences :: "f32 list"

definition draft_new :: "nat list \<Rightarrow> f32 list \<Rightarrow> speculative_error + speculative_draft" where
  "draft_new tokens confidences =
     (if tokens = [] then Err EmptyDraft
      else if length tokens > MAX_SPECULATIVE_DRAFT_TOKENS then Err (DraftTooLong (length tokens))
      else if length confidences \<noteq> length tokens then
        Err (ConfidenceCountMismatch (length tokens) (length confidences))
      else case position (\<lambda>c. \<not> f32_in_unit c) confidences of
             Some index \<Rightarrow> Err (InvalidConfidence index)
           | None \<Rightarrow> Ok \<lparr>draft_tokens = tokens, draft_confidences = confidences\<rparr>)"

definition draft_len :: "speculative_draft \<Rightarrow> nat" where
  "draft_len d = as_u32 (length (draft_tokens d))"

record confidence_schedule =
  policy_id :: rstr
  policy_schema_version :: nat
  min_confidence :: f32
  max_verify_tokens :: nat

definition spec_validate_id :: "string \<Rightarrow> rstr \<Rightarrow> speculative_error + unit" where
  "spec_validate_id =
     validate_id_with (\<lambda>_. EmptyPolicyId) (\<lambda>_. NonCanonicalPolicyId) (\<lambda>_ bytes. PolicyIdTooLong bytes)
       MAX_SPECULATIVE_POLICY_ID_BYTES"

interpretation policy_id: id_validator spec_validate_id MAX_SPECULATIVE_POLICY_ID_BYTES
  by unfold_locales (simp add: spec_validate_id_def validate_id_with_Ok)

definition schedule_new :: "rstr \<Rightarrow> nat \<Rightarrow> f32 \<Rightarrow> nat \<Rightarrow> speculative_error + confidence_schedule" where
  "schedule_new pid version threshold max_tokens =
     and_then (spec_validate_id ''policy_id'' pid) (\<lambda>_.
       if version = 0 then Err ZeroPolicySchemaVersion
       else if \<not> f32_in_unit threshold then Err InvalidThreshold
       else if max_tokens = 0 then Err ZeroMaxVerifyTokens
       else Ok \<lparr>policy_id = pid, policy_schema_version = version, min_confidence = threshold,
                max_verify_tokens = max_tokens\<rparr>)"

definition scheduled_len :: "confidence_schedule \<Rightarrow> speculative_draft \<Rightarrow> nat" where
  "scheduled_len s d =
     (let leading = as_u32 (length (takeWhile (\<lambda>c. f32_le (min_confidence s) c) (draft_confidences d)))
      in min leading (max_verify_tokens s))"

section \<open>Verification\<close>

record speculative_verification =
  drafted :: nat
  scheduled :: nat
  accepted :: nat
  rejected_at :: "nat option"
  emitted_tokens :: "nat list"

definition skipped_by_schedule :: "speculative_verification \<Rightarrow> nat" where
  "skipped_by_schedule v = drafted v - scheduled v"

definition verify_scheduled_draft ::
  "speculative_draft \<Rightarrow> confidence_schedule \<Rightarrow> nat list \<Rightarrow> speculative_error + speculative_verification" where
  "verify_scheduled_draft d s target_tokens =
     (let n = scheduled_len s d; expected = n + 1 in
      if length target_tokens \<noteq> expected then
        Err (TargetLengthMismatch expected (length target_tokens))
      else
        let acc = length (takeWhile (\<lambda>(x, y). x = y) (zip (take n (draft_tokens d)) target_tokens));
            rejected = (if acc < n then Some (as_u32 acc) else None);
            emitted = take acc (draft_tokens d) @ [target_tokens ! acc]
        in Ok \<lparr>drafted = draft_len d, scheduled = n, accepted = as_u32 acc, rejected_at = rejected,
               emitted_tokens = emitted\<rparr>)"

section \<open>Counts\<close>

record acceptance_stats =
  stat_steps :: nat
  stat_drafted :: nat
  stat_scheduled :: nat
  stat_accepted :: nat
  stat_emitted :: nat
  stat_skipped :: nat
  stat_rejections :: nat

definition stats_default :: acceptance_stats where
  "stats_default = \<lparr>stat_steps = 0, stat_drafted = 0, stat_scheduled = 0, stat_accepted = 0,
     stat_emitted = 0, stat_skipped = 0, stat_rejections = 0\<rparr>"

definition count_add :: "nat \<Rightarrow> nat \<Rightarrow> speculative_error + nat" where
  "count_add l r = ok_or CounterOverflow (checked_add l r)"

definition stats_next :: "acceptance_stats \<Rightarrow> speculative_verification \<Rightarrow> speculative_error + acceptance_stats" where
  "stats_next st v =
     and_then (count_add (stat_steps st) 1) (\<lambda>steps.
     and_then (count_add (stat_drafted st) (drafted v)) (\<lambda>dr.
     and_then (count_add (stat_scheduled st) (scheduled v)) (\<lambda>sc.
     and_then (count_add (stat_accepted st) (accepted v)) (\<lambda>acc.
     and_then (count_add (stat_emitted st) (length (emitted_tokens v))) (\<lambda>em.
     and_then (count_add (stat_skipped st) (skipped_by_schedule v)) (\<lambda>sk.
     and_then (if rejected_at v \<noteq> None then count_add (stat_rejections st) 1
               else Ok (stat_rejections st)) (\<lambda>rj.
       Ok \<lparr>stat_steps = steps, stat_drafted = dr, stat_scheduled = sc, stat_accepted = acc,
           stat_emitted = em, stat_skipped = sk, stat_rejections = rj\<rparr>)))))))"

text \<open>\<open>record(&mut self)\<close>: the state after the call and what it returns.\<close>

definition stats_record ::
  "acceptance_stats \<Rightarrow> speculative_verification \<Rightarrow> acceptance_stats \<times> (speculative_error + unit)" where
  "stats_record st v =
     (case stats_next st v of Inl e \<Rightarrow> (st, Err e) | Inr st' \<Rightarrow> (st', Ok ()))"

definition acceptance_ratio :: "acceptance_stats \<Rightarrow> (nat \<times> nat) option" where
  "acceptance_ratio st =
     (if stat_scheduled st = 0 then None else Some (stat_accepted st, stat_scheduled st))"

section \<open>Accepted drafts\<close>

definition draft_wf :: "speculative_draft \<Rightarrow> bool" where
  "draft_wf d \<longleftrightarrow>
     draft_tokens d \<noteq> [] \<and> length (draft_tokens d) \<le> 1024 \<and>
     length (draft_confidences d) = length (draft_tokens d) \<and> list_all f32_in_unit (draft_confidences d)"

lemma draft_new_Ok:
  "draft_new ts cs = Ok d \<longleftrightarrow> d = \<lparr>draft_tokens = ts, draft_confidences = cs\<rparr> \<and> draft_wf d"
  by (auto simp: draft_new_def draft_wf_def MAX_SPECULATIVE_DRAFT_TOKENS_def list_all_iff position_Some
      split: option.splits)

lemma draft_len_wf [simp]: "draft_wf d \<Longrightarrow> draft_len d = length (draft_tokens d)"
  by (simp add: draft_len_def draft_wf_def u32_lim_def)

lemma le_length_takeWhile_iff:
  "k \<le> length (takeWhile P xs) \<longleftrightarrow> k \<le> length xs \<and> (\<forall>i < k. P (xs ! i))"
proof (induction xs arbitrary: k)
  case Nil
  then show ?case by auto
next
  case (Cons x xs)
  then show ?case
    by (cases k) (auto simp: all_less_Suc_split)
qed

lemma scheduled_len_le_iff:
  assumes "draft_wf d"
  shows "k \<le> scheduled_len s d \<longleftrightarrow> k \<le> max_verify_tokens s \<and> k \<le> length (draft_tokens d) \<and>
    (\<forall>i < k. f32_le (min_confidence s) (draft_confidences d ! i))"
proof -
  let ?w = "takeWhile (\<lambda>c. f32_le (min_confidence s) c) (draft_confidences d)"
  have "length ?w \<le> 1024"
    using assms length_takeWhile_le [of "\<lambda>c. f32_le (min_confidence s) c" "draft_confidences d"]
    by (simp add: draft_wf_def)
  then have "as_u32 (length ?w) = length ?w"
    by (simp add: u32_lim_def)
  then show ?thesis
    using assms le_length_takeWhile_iff [of k "\<lambda>c. f32_le (min_confidence s) c" "draft_confidences d"]
    by (auto simp: scheduled_len_def Let_def draft_wf_def)
qed

lemma scheduled_len_le: "draft_wf d \<Longrightarrow> scheduled_len s d \<le> length (draft_tokens d)"
  using scheduled_len_le_iff by blast

text \<open>The length of the agreed prefix.\<close>

definition agreed :: "nat \<Rightarrow> nat list \<Rightarrow> nat list \<Rightarrow> nat" where
  "agreed n xs ys = length (takeWhile (\<lambda>(x, y). x = y) (zip (take n xs) ys))"

lemma le_agreed_iff:
  assumes "n \<le> length xs" "n \<le> length ys"
  shows "k \<le> agreed n xs ys \<longleftrightarrow> k \<le> n \<and> (\<forall>i < k. xs ! i = ys ! i)"
  using assms by (auto simp: agreed_def le_length_takeWhile_iff)

lemma agreed_le: "n \<le> length xs \<Longrightarrow> n \<le> length ys \<Longrightarrow> agreed n xs ys \<le> n"
  using le_agreed_iff by blast

lemma verify_Ok:
  assumes "draft_wf d"
  shows "verify_scheduled_draft d s ts = Ok v \<longleftrightarrow>
    length ts = scheduled_len s d + 1 \<and>
    (let n = scheduled_len s d; k = agreed n (draft_tokens d) ts in
     v = \<lparr>drafted = length (draft_tokens d), scheduled = n, accepted = k,
          rejected_at = (if k < n then Some k else None),
          emitted_tokens = take k (draft_tokens d) @ [ts ! k]\<rparr>)"
proof -
  have n: "scheduled_len s d \<le> length (draft_tokens d)"
    by (rule scheduled_len_le [OF assms])
  have "as_u32 (agreed (scheduled_len s d) (draft_tokens d) ts) =
      agreed (scheduled_len s d) (draft_tokens d) ts" if "length ts = scheduled_len s d + 1"
    using agreed_le [OF n, of ts] that n assms by (simp add: draft_wf_def u32_lim_def)
  then show ?thesis
    using assms by (auto simp: verify_scheduled_draft_def Let_def agreed_def [symmetric])
qed

section \<open>Decoding one token at a time\<close>

text \<open>\<open>autoregress next ctx n\<close> are the \<open>n\<close> tokens decoded after \<open>ctx\<close> by a deterministic target;
  \<open>teacher_forced\<close> is what parallel verification computes instead: the target's token after each
  prefix of the draft.\<close>

fun autoregress :: "(nat list \<Rightarrow> nat) \<Rightarrow> nat list \<Rightarrow> nat \<Rightarrow> nat list" where
  "autoregress next_token ctx 0 = []"
| "autoregress next_token ctx (Suc n) =
     next_token ctx # autoregress next_token (ctx @ [next_token ctx]) n"

definition teacher_forced :: "(nat list \<Rightarrow> nat) \<Rightarrow> nat list \<Rightarrow> nat list \<Rightarrow> nat \<Rightarrow> nat list" where
  "teacher_forced next_token ctx tokens n =
     map (\<lambda>i. next_token (ctx @ take i tokens)) [0..<n + 1]"

lemma length_autoregress [simp]: "length (autoregress f ctx n) = n"
  by (induction n arbitrary: ctx) simp_all

lemma autoregress_snoc:
  "autoregress f ctx (Suc n) = autoregress f ctx n @ [f (ctx @ autoregress f ctx n)]"
proof (induction n arbitrary: ctx)
  case 0
  then show ?case by simp
next
  case (Suc n)
  have "autoregress f ctx (Suc (Suc n)) = f ctx # autoregress f (ctx @ [f ctx]) (Suc n)"
    by (rule autoregress.simps)
  also have "\<dots> = f ctx # autoregress f (ctx @ [f ctx]) n @
      [f ((ctx @ [f ctx]) @ autoregress f (ctx @ [f ctx]) n)]"
    by (simp only: Suc.IH)
  finally show ?case by simp
qed

lemma agreed_autoregress:
  assumes "k \<le> length ts"
  shows "(\<forall>i < k. ts ! i = f (ctx @ take i ts)) \<longleftrightarrow> take k ts = autoregress f ctx k"
  using assms
proof (induction k)
  case 0
  then show ?case by simp
next
  case (Suc k)
  then have IH: "(\<forall>i < k. ts ! i = f (ctx @ take i ts)) \<longleftrightarrow> take k ts = autoregress f ctx k"
    by simp
  have "take (Suc k) ts = take k ts @ [ts ! k]"
    using Suc.prems by (simp add: take_Suc_conv_app_nth)
  then have "take (Suc k) ts = autoregress f ctx (Suc k) \<longleftrightarrow>
      take k ts = autoregress f ctx k \<and> ts ! k = f (ctx @ take k ts)"
    unfolding autoregress_snoc by (metis append1_eq_conv)
  then show ?case
    using IH by (auto simp: less_Suc_eq)
qed

lemma verify_teacher_forced:
  assumes "draft_wf d" and n_def: "n = scheduled_len s d"
  shows "\<exists>v. verify_scheduled_draft d s (teacher_forced f ctx (draft_tokens d) n) = Ok v \<and>
    emitted_tokens v = autoregress f ctx (accepted v + 1) \<and> scheduled v = n \<and>
    (\<forall>k \<le> n. take k (draft_tokens d) = autoregress f ctx k \<longleftrightarrow> k \<le> accepted v)"
proof -
  let ?t = "teacher_forced f ctx (draft_tokens d) n"
  define k where "k = agreed n (draft_tokens d) ?t"
  have n: "n \<le> length (draft_tokens d)" and len: "length ?t = n + 1"
    using scheduled_len_le [OF assms(1)] by (simp_all add: n_def teacher_forced_def)
  have nth: "i \<le> n \<Longrightarrow> ?t ! i = f (ctx @ take i (draft_tokens d))" for i
    unfolding teacher_forced_def by (subst nth_map) (simp_all add: nth_append less_Suc_eq_le)
  have le: "j \<le> k \<longleftrightarrow> take j (draft_tokens d) = autoregress f ctx j" if "j \<le> n" for j
    using le_agreed_iff [OF n, of ?t j] agreed_autoregress [of j "draft_tokens d" f ctx] that len n nth
    by (auto simp: k_def)
  have "k \<le> n"
    using agreed_le [OF n] len by (simp add: k_def)
  then have "take k (draft_tokens d) @ [?t ! k] = autoregress f ctx (k + 1)"
    using le [of k] nth [of k] autoregress_snoc [of f ctx k] by simp
  then show ?thesis
    using verify_Ok [OF assms(1), of s ?t] len le
    by (auto simp: n_def [symmetric] k_def [symmetric] Let_def)
qed

section \<open>Count invariants\<close>

definition outcome_wf :: "speculative_verification \<Rightarrow> bool" where
  "outcome_wf v \<longleftrightarrow>
     accepted v \<le> scheduled v \<and> scheduled v \<le> drafted v \<and>
     length (emitted_tokens v) = accepted v + 1 \<and>
     rejected_at v = (if accepted v < scheduled v then Some (accepted v) else None)"

lemma verify_outcome_wf:
  assumes "draft_wf d" "verify_scheduled_draft d s ts = Ok v"
  shows "outcome_wf v"
proof -
  have n: "scheduled_len s d \<le> length (draft_tokens d)"
    by (rule scheduled_len_le [OF assms(1)])
  then have "agreed (scheduled_len s d) (draft_tokens d) ts \<le> scheduled_len s d"
    using assms by (intro agreed_le) (auto simp: verify_Ok)
  then show ?thesis
    using assms n by (auto simp: verify_Ok outcome_wf_def Let_def)
qed

definition stats_wf :: "acceptance_stats \<Rightarrow> bool" where
  "stats_wf st \<longleftrightarrow>
     stat_emitted st = stat_accepted st + stat_steps st \<and>
     stat_accepted st \<le> stat_scheduled st \<and>
     stat_drafted st = stat_scheduled st + stat_skipped st \<and>
     stat_rejections st \<le> stat_steps st \<and>
     stat_scheduled st - stat_accepted st \<ge> stat_rejections st \<and>
     stat_emitted st < u64_lim \<and> stat_drafted st < u64_lim"

lemma count_add_Ok [simp]: "count_add a b = Ok c \<longleftrightarrow> c = a + b \<and> a + b < u64_lim"
  by (auto simp: count_add_def)

lemma stats_next_wf: "stats_wf st \<Longrightarrow> outcome_wf v \<Longrightarrow> stats_next st v = Ok st' \<Longrightarrow> stats_wf st'"
  by (auto simp: stats_next_def stats_wf_def outcome_wf_def skipped_by_schedule_def split: if_splits)

text \<open>The statistics a caller can hold: the default, then any recorded outcomes of verification.\<close>

inductive stats_reachable :: "acceptance_stats \<Rightarrow> bool" where
  start: "stats_reachable stats_default"
| step: "stats_reachable st \<Longrightarrow> draft_wf d \<Longrightarrow> verify_scheduled_draft d s ts = Ok v \<Longrightarrow>
    stats_reachable (fst (stats_record st v))"

lemma stats_reachable_wf: "stats_reachable st \<Longrightarrow> stats_wf st"
proof (induction rule: stats_reachable.induct)
  case start
  then show ?case by (simp add: stats_wf_def stats_default_def u64_lim_def)
next
  case (step st d s ts v)
  then show ?case
    using verify_outcome_wf [of d s ts v] stats_next_wf [of st v]
    by (auto simp: stats_record_def split: sum.splits)
qed

section \<open>Properties\<close>

text \<open>C1. Speculative verification does not change what is decoded.  For an accepted draft, any schedule and
  any deterministic target, verification with the target's teacher-forced tokens succeeds, emits
  exactly the tokens that decoding one at a time would emit, one more than it accepts, and accepts the
  longest prefix of the scheduled draft that the target itself would have produced.\<close>

theorem speculative_equals_autoregressive:
  assumes "draft_new tokens confidences = Ok d"
  shows "\<exists>v. verify_scheduled_draft d s (teacher_forced next_token ctx tokens (scheduled_len s d)) = Ok v \<and>
    emitted_tokens v = autoregress next_token ctx (accepted v + 1) \<and>
    scheduled v = scheduled_len s d \<and>
    (\<forall>k \<le> scheduled_len s d. take k tokens = autoregress next_token ctx k \<longleftrightarrow> k \<le> accepted v)"
proof -
  have "draft_wf d" and "tokens = draft_tokens d"
    using assms by (auto simp: draft_new_Ok)
  then show ?thesis
    using verify_teacher_forced [of d "scheduled_len s d" s next_token ctx] by simp
qed

definition demo_draft :: speculative_draft where
  "demo_draft = \<lparr>draft_tokens = [1, 2, 7], draft_confidences = [f32_one, f32_one, f32_zero]\<rparr>"

lemma f32_unit_ends [simp]: "f32_in_unit f32_one" "f32_in_unit f32_zero"
  by (simp_all add: f32_in_unit_def f32_le_def f32_key_def f32_one_def f32_zero_def f32_mag_def
      f32_is_nan_def f32_sign_negative_def bit_iff_odd)

lemma demo_draft_new: "draft_new [1, 2, 7] [f32_one, f32_one, f32_zero] = Ok demo_draft"
  by (simp add: draft_new_Ok draft_wf_def demo_draft_def)

definition demo_schedule :: confidence_schedule where
  "demo_schedule = \<lparr>policy_id = lit ''p'', policy_schema_version = 1, min_confidence = f32_one,
     max_verify_tokens = 8\<rparr>"

lemma demo_scheduled: "scheduled_len demo_schedule demo_draft = 2"
proof -
  have "f32_le f32_one f32_one" "\<not> f32_le f32_one f32_zero"
    by (simp_all add: f32_le_def f32_key_def f32_one_def f32_zero_def f32_mag_def f32_is_nan_def
        f32_sign_negative_def bit_iff_odd)
  then show ?thesis
    by (simp add: scheduled_len_def demo_schedule_def demo_draft_def as_u32_def u32_lim_def)
qed

theorem speculative_equals_autoregressive_witness:
  "\<exists>v. verify_scheduled_draft demo_draft demo_schedule [1, 2, 3] = Ok v \<and>
     emitted_tokens v = autoregress (\<lambda>c. length c) [0] (accepted v + 1)"
proof -
  have "teacher_forced length [0] [1, 2, 7] 2 = [1, 2, 3]"
    by (simp add: teacher_forced_def upt_rec)
  then show ?thesis
    using speculative_equals_autoregressive [OF demo_draft_new, of demo_schedule length "[0]"]
    by (auto simp: demo_scheduled)
qed

text \<open>The outcome is decided by the target tokens up to the first mismatch: replacing every later one
  changes nothing.\<close>

theorem verify_ignores_rows_after_mismatch:
  assumes "draft_new tokens confidences = Ok d" "verify_scheduled_draft d s ts = Ok v"
    and "length ts' = length ts" "take (accepted v + 1) ts' = take (accepted v + 1) ts"
  shows "verify_scheduled_draft d s ts' = Ok v"
proof -
  define n where "n = scheduled_len s d"
  define k where "k = agreed n (draft_tokens d) ts"
  have wf: "draft_wf d" using assms(1) by (auto simp: draft_new_Ok)
  have v: "length ts = n + 1" "accepted v = k"
    using assms(2) by (auto simp: verify_Ok [OF wf] Let_def n_def k_def)
  have n: "n \<le> length (draft_tokens d)" "n \<le> length ts" "n \<le> length ts'"
    using scheduled_len_le [OF wf] v assms(3) by (auto simp: n_def)
  have same: "i \<le> k \<Longrightarrow> ts' ! i = ts ! i" for i
    using arg_cong [OF assms(4), of "\<lambda>xs. xs ! i"] v by simp
  have "j \<le> agreed n (draft_tokens d) ts' \<longleftrightarrow> j \<le> k" for j
  proof -
    have eq: "j \<le> agreed n (draft_tokens d) ts' \<longleftrightarrow> j \<le> n \<and> (\<forall>i < j. draft_tokens d ! i = ts' ! i)" for j
      by (rule le_agreed_iff [OF n(1) n(3)])
    have eqk: "j \<le> k \<longleftrightarrow> j \<le> n \<and> (\<forall>i < j. draft_tokens d ! i = ts ! i)" for j
      unfolding k_def by (rule le_agreed_iff [OF n(1) n(2)])
    show ?thesis
    proof
      assume "j \<le> k"
      then show "j \<le> agreed n (draft_tokens d) ts'" using eq [of j] eqk [of j] same by auto
    next
      assume j: "j \<le> agreed n (draft_tokens d) ts'"
      show "j \<le> k"
      proof (rule ccontr)
        assume "\<not> j \<le> k"
        then have "k + 1 \<le> n \<and> (\<forall>i < k + 1. draft_tokens d ! i = ts' ! i)"
          using j eq [of j] by auto
        then have "k + 1 \<le> k"
          using eqk [of "k + 1"] same by auto
        then show False by simp
      qed
    qed
  qed
  then have "agreed n (draft_tokens d) ts' = k"
    by (meson order_antisym order_refl)
  then show ?thesis
    using assms(2,3) v same [of k]
    by (auto simp: verify_Ok [OF wf] Let_def n_def [symmetric] k_def [symmetric])
qed

theorem verify_ignores_rows_after_mismatch_witness:
  "verify_scheduled_draft demo_draft demo_schedule [5, 9, 9] =
     Ok \<lparr>drafted = 3, scheduled = 2, accepted = 0, rejected_at = Some 0, emitted_tokens = [5]\<rparr>"
proof -
  let ?v = "\<lparr>drafted = 3, scheduled = 2, accepted = 0, rejected_at = Some 0, emitted_tokens = [5]\<rparr>"
  have "verify_scheduled_draft demo_draft demo_schedule [5, 2, 3] = Ok ?v"
    by (simp add: verify_scheduled_draft_def demo_scheduled Let_def as_u32_def u32_lim_def draft_len_def)
       (simp add: demo_draft_def)
  then show ?thesis
    by (rule verify_ignores_rows_after_mismatch [OF demo_draft_new]) simp_all
qed

text \<open>Statistics built from verification outcomes stay consistent, whatever mix of recordings succeeded or
  overflowed: every step emits one token beyond those accepted, accepted tokens are scheduled ones,
  every drafted token was scheduled or skipped, a rejection belongs to a step and to an unaccepted
  token; and a recording that overflows leaves all counters as they were.\<close>

theorem acceptance_stats_consistent:
  assumes "stats_reachable st"
  shows "stat_emitted st = stat_accepted st + stat_steps st \<and>
    stat_accepted st + stat_rejections st \<le> stat_scheduled st \<and>
    stat_drafted st = stat_scheduled st + stat_skipped st \<and> stat_rejections st \<le> stat_steps st \<and>
    (\<forall>v e. snd (stats_record st v) = Err e \<longrightarrow> fst (stats_record st v) = st)"
  using stats_reachable_wf [OF assms]
  by (auto simp: stats_wf_def stats_record_def split: sum.splits)

theorem acceptance_stats_consistent_witness:
  "\<exists>st. stats_reachable st \<and> stat_steps st = 1 \<and> stat_emitted st = 1 \<and> stat_emitted st = stat_accepted st + 1"
proof -
  let ?v = "\<lparr>drafted = 3, scheduled = 2, accepted = 0, rejected_at = Some 0, emitted_tokens = [5]\<rparr>"
  have v: "verify_scheduled_draft demo_draft demo_schedule [5, 2, 3] = Ok ?v"
    by (simp add: verify_scheduled_draft_def demo_scheduled Let_def as_u32_def u32_lim_def draft_len_def)
       (simp add: demo_draft_def)
  have "draft_wf demo_draft" using demo_draft_new by (auto simp: draft_new_Ok)
  then have r: "stats_reachable (fst (stats_record stats_default ?v))"
    using stats_reachable.step [OF stats_reachable.start] v by blast
  have s: "stat_steps (fst (stats_record stats_default ?v)) = 1"
    "stat_emitted (fst (stats_record stats_default ?v)) = 1"
    by (simp_all add: stats_record_def stats_next_def stats_default_def count_add_def checked_add_def
        u64_lim_def skipped_by_schedule_def)
  show ?thesis
    using acceptance_stats_consistent [OF r] r s by (intro exI [of _ "fst (stats_record stats_default ?v)"]) simp
qed

end
