(* ===== verification/SpecGreedy.thy ===== *)
theory SpecGreedy
  imports SpecVerify
begin

text \<open>
  \<open>nnis-cpu/src/speculative.rs\<close>: the CPU reference verifier.  It takes the target's logits for every
  scheduled position, picks each row's greedy token and applies the verification rule of
  \<open>SpecVerify\<close>.  The lemmas show that the token picked is the first maximum, and that the verifier
  agrees with greedy decoding one token at a time.
\<close>

section \<open>Model\<close>

datatype cpu_speculative_error =
    Contract speculative_error
  | ZeroVocabulary
  | TokenOutOfVocabulary nat nat
  | LogitsLengthMismatch nat nat
  | NonFiniteLogit nat nat
  | HostIndexOverflow

fun display_cpu_speculative_error :: "cpu_speculative_error \<Rightarrow> rstr" where
  "display_cpu_speculative_error (Contract error) =
     lit ''speculative contract: '' @ display_speculative_error error"
| "display_cpu_speculative_error ZeroVocabulary = lit ''verifier vocabulary size must be non-zero''"
| "display_cpu_speculative_error (TokenOutOfVocabulary index token) =
     lit ''draft token '' @ dec index @ lit '' ('' @ dec token @ lit '') is outside the vocabulary''"
| "display_cpu_speculative_error (LogitsLengthMismatch expected actual) =
     lit ''target logits have '' @ dec actual @ lit '' values, expected '' @ dec expected"
| "display_cpu_speculative_error (NonFiniteLogit row column) =
     lit ''target logit at row '' @ dec row @ lit '' column '' @ dec column @ lit '' is not finite''"
| "display_cpu_speculative_error HostIndexOverflow = lit ''logits size does not fit host indexing''"

definition greedy_step :: "f32 list \<Rightarrow> nat \<Rightarrow> nat \<times> f32 \<Rightarrow> nat + nat" where
  "greedy_step logits best = (\<lambda>(index, val).
     if \<not> f32_is_finite val then Err index
     else if f32_lt (logits ! best) val then Ok index
     else Ok best)"

definition greedy_argmax :: "f32 list \<Rightarrow> nat + nat" where
  "greedy_argmax logits =
     and_then (for_each_res (greedy_step logits) 0 (enumerate 0 logits)) (\<lambda>best. Ok (as_u32 best))"

record greedy_verifier =
  vocab_size :: nat

definition verifier_new :: "nat \<Rightarrow> cpu_speculative_error + greedy_verifier" where
  "verifier_new vocab = (if vocab = 0 then Err ZeroVocabulary else Ok \<lparr>vocab_size = vocab\<rparr>)"

definition push_target ::
  "nat list \<Rightarrow> nat \<times> f32 list \<Rightarrow> cpu_speculative_error + nat list" where
  "push_target target_tokens = (\<lambda>(row, logits).
     and_then (map_err (\<lambda>column. NonFiniteLogit row (as_u32 column)) (greedy_argmax logits)) (\<lambda>t.
       Ok (target_tokens @ [t])))"

definition verifier_verify ::
  "greedy_verifier \<Rightarrow> speculative_draft \<Rightarrow> confidence_schedule \<Rightarrow> f32 list \<Rightarrow>
   cpu_speculative_error + speculative_verification" where
  "verifier_verify self d s target_logits =
     (case position (\<lambda>token. token \<ge> vocab_size self) (draft_tokens d) of
        Some index \<Rightarrow> Err (TokenOutOfVocabulary index (draft_tokens d ! index))
      | None \<Rightarrow>
          let rows = scheduled_len s d + 1; vocab = vocab_size self in
          and_then (ok_or HostIndexOverflow (checked_mul rows vocab)) (\<lambda>expected.
            if length target_logits \<noteq> expected then
              Err (LogitsLengthMismatch expected (length target_logits))
            else
              and_then (for_each_res push_target [] (enumerate 0 (chunks_exact vocab target_logits)))
                (\<lambda>target_tokens. map_err Contract (verify_scheduled_draft d s target_tokens))))"

text \<open>\<open>verify_and_record\<close>: the statistics after the call, and its result.\<close>

definition verify_and_record ::
  "greedy_verifier \<Rightarrow> acceptance_stats \<Rightarrow> speculative_draft \<Rightarrow> confidence_schedule \<Rightarrow> f32 list \<Rightarrow>
   acceptance_stats \<times> (cpu_speculative_error + speculative_verification)" where
  "verify_and_record self st d s target_logits =
     (case verifier_verify self d s target_logits of
        Inl e \<Rightarrow> (st, Err e)
      | Inr outcome \<Rightarrow>
          (case stats_record st outcome of
             (st', Inl e) \<Rightarrow> (st', Err (Contract e))
           | (st', Inr _) \<Rightarrow> (st', Ok outcome)))"

section \<open>The greedy token\<close>

definition first_max :: "f32 list \<Rightarrow> nat \<Rightarrow> bool" where
  "first_max xs b \<longleftrightarrow>
     b < length xs \<and> (\<forall>i < length xs. f32_key (xs ! i) \<le> f32_key (xs ! b)) \<and>
     (\<forall>i < b. f32_key (xs ! i) < f32_key (xs ! b))"

definition all_finite :: "f32 list \<Rightarrow> bool" where
  "all_finite xs \<longleftrightarrow> list_all f32_is_finite xs"

lemma f32_lt_finite [simp]:
  "f32_is_finite x \<Longrightarrow> f32_is_finite y \<Longrightarrow> f32_lt x y \<longleftrightarrow> f32_key x < f32_key y"
  by (simp add: f32_lt_def f32_finite_not_nan)

lemma enumerate_snoc: "enumerate n (xs @ [x]) = enumerate n xs @ [(n + length xs, x)]"
  by (induction xs arbitrary: n) simp_all

text \<open>The loop after \<open>Suc k\<close> elements: either it stopped at the first non-finite one, or the best so far
  is the first maximum of what it has seen.\<close>

definition greedy_post :: "f32 list \<Rightarrow> nat + nat \<Rightarrow> bool" where
  "greedy_post xs r \<longleftrightarrow>
     (case r of
        Inl i \<Rightarrow> i < length xs \<and> \<not> f32_is_finite (xs ! i) \<and> (\<forall>j < i. f32_is_finite (xs ! j))
      | Inr b \<Rightarrow> all_finite xs \<and> first_max xs b)"

lemma greedy_loop:
  "k < length xs \<Longrightarrow>
     greedy_post (take (Suc k) xs) (for_each_res (greedy_step xs) 0 (enumerate 0 (take (Suc k) xs)))"
proof (induction k)
  case 0
  then obtain x r where "xs = x # r" by (cases xs) auto
  then show ?case
    by (auto simp: greedy_post_def greedy_step_def all_finite_def first_max_def)
next
  case (Suc k)
  let ?pre = "take (Suc k) xs" and ?x = "xs ! Suc k"
  have split: "take (Suc (Suc k)) xs = ?pre @ [?x]"
    using Suc.prems by (simp add: take_Suc_conv_app_nth)
  have len: "length ?pre = Suc k" using Suc.prems by simp
  have run: "for_each_res (greedy_step xs) 0 (enumerate 0 (take (Suc (Suc k)) xs)) =
      and_then (for_each_res (greedy_step xs) 0 (enumerate 0 ?pre)) (\<lambda>b. greedy_step xs b (Suc k, ?x))"
    unfolding split enumerate_snoc for_each_res_append
    using len by (cases "for_each_res (greedy_step xs) 0 (enumerate 0 ?pre)")
      (auto simp: greedy_step_def)
  show ?case
  proof (cases "for_each_res (greedy_step xs) 0 (enumerate 0 ?pre)")
    case (Inl i)
    then show ?thesis
      using Suc run by (auto simp: greedy_post_def)
  next
    case (Inr b)
    with Suc have b: "all_finite ?pre" "first_max ?pre b"
      by (simp_all add: greedy_post_def)
    then have "b < Suc k" using len by (simp add: first_max_def)
    then have nth: "?pre ! b = xs ! b" by simp
    have fin: "f32_is_finite (xs ! i)" if "i < Suc k" for i
      using b(1) that len by (auto simp: all_finite_def list_all_length)
    have mx: "f32_key (xs ! i) \<le> f32_key (xs ! b)" if "i < Suc k" for i
      using b(2) that len nth by (auto simp: first_max_def)
    have fst: "f32_key (xs ! i) < f32_key (xs ! b)" if "i < b" for i
      using b(2) that \<open>b < Suc k\<close> nth by (auto simp: first_max_def)
    have lt: "f32_key (xs ! i) < f32_key ?x" if "i < Suc k" "f32_key (xs ! b) < f32_key ?x" for i
      using mx [OF that(1)] that(2) by simp
    have step: "greedy_step xs b (Suc k, ?x) =
        (if \<not> f32_is_finite ?x then Err (Suc k)
         else if f32_key (xs ! b) < f32_key ?x then Ok (Suc k) else Ok b)"
      using fin [OF \<open>b < Suc k\<close>] by (simp add: greedy_step_def)
    have len2: "length (take (Suc (Suc k)) xs) = Suc (Suc k)" using Suc.prems by simp
    show ?thesis
      unfolding run Inr and_then_simps step greedy_post_def all_finite_def list_all_length first_max_def len2
      using fin mx fst lt \<open>b < Suc k\<close>
      by (auto simp: less_Suc_eq intro: less_imp_le)
  qed
qed

lemma greedy_argmax_post:
  assumes "xs \<noteq> []" "length xs \<le> u32_lim"
  shows "greedy_post xs (greedy_argmax xs)"
proof -
  obtain k where k: "length xs = Suc k" using assms(1) by (cases xs) auto
  have "greedy_post xs (for_each_res (greedy_step xs) 0 (enumerate 0 xs))"
    using greedy_loop [of k xs] k by simp
  then show ?thesis
    using assms(2)
    by (cases "for_each_res (greedy_step xs) 0 (enumerate 0 xs)")
       (auto simp: greedy_argmax_def greedy_post_def first_max_def)
qed

definition greedy_token :: "f32 list \<Rightarrow> nat" where
  "greedy_token row = (case greedy_argmax row of Inl _ \<Rightarrow> 0 | Inr t \<Rightarrow> t)"

lemma greedy_argmax_finite:
  assumes "xs \<noteq> []" "length xs \<le> u32_lim" "all_finite xs"
  shows "greedy_argmax xs = Ok (greedy_token xs)"
  using greedy_argmax_post [OF assms(1,2)] assms(3)
  by (cases "greedy_argmax xs") (auto simp: greedy_token_def greedy_post_def all_finite_def list_all_length)

section \<open>Rows of logits\<close>

lemma chunks_exact_concat:
  "0 < n \<Longrightarrow> (\<forall>x \<in> set xss. length x = n) \<Longrightarrow> chunks_exact n (concat xss) = xss"
  by (induction xss) simp_all

lemma push_targets:
  assumes "\<forall>x \<in> set xss. x \<noteq> [] \<and> length x \<le> u32_lim \<and> all_finite x"
  shows "for_each_res push_target acc (enumerate k xss) = Ok (acc @ map greedy_token xss)"
  using assms
proof (induction xss arbitrary: acc k)
  case Nil
  then show ?case by simp
next
  case (Cons x xss)
  then have "push_target acc (k, x) = Ok (acc @ [greedy_token x])"
    by (simp add: push_target_def greedy_argmax_finite)
  with Cons show ?case by simp
qed

section \<open>Properties\<close>

text \<open>The greedy token of a row is the first index at which the largest logit occurs, and a row with a NaN
  or an infinity is refused, naming the first such column.\<close>

theorem greedy_argmax_first_maximum:
  assumes "row \<noteq> []" "length row \<le> u32_lim"
  shows "case greedy_argmax row of
      Inl i \<Rightarrow> i < length row \<and> \<not> f32_is_finite (row ! i) \<and> list_all f32_is_finite (take i row)
    | Inr b \<Rightarrow> list_all f32_is_finite row \<and> b < length row \<and>
        (\<forall>i < length row. \<not> f32_lt (row ! b) (row ! i)) \<and> (\<forall>i < b. f32_lt (row ! i) (row ! b))"
  using greedy_argmax_post [OF assms]
  by (auto simp: greedy_post_def all_finite_def first_max_def list_all_length not_less
      split: sum.splits)

theorem greedy_argmax_first_maximum_witness:
  "\<exists>b. greedy_argmax [f32_zero, f32_one, f32_one] = Ok b \<and> b = 1 \<and> f32_lt f32_zero f32_one"
proof -
  have lt: "f32_lt f32_zero f32_one"
    by (simp add: f32_lt_def f32_key_def f32_one_def f32_zero_def f32_mag_def f32_is_nan_def
        f32_sign_negative_def bit_iff_odd)
  have fin: "f32_is_finite f32_zero" "f32_is_finite f32_one"
    by (simp_all add: f32_is_finite_def f32_mag_def f32_zero_def f32_one_def)
  have irr: "\<not> f32_lt f32_one f32_one" by (simp add: f32_lt_def)
  have "greedy_argmax [f32_zero, f32_one, f32_one] = Ok 1"
    using lt fin irr by (simp add: greedy_argmax_def greedy_step_def u32_lim_def as_u32_def)
  then show ?thesis
    using greedy_argmax_first_maximum [of "[f32_zero, f32_one, f32_one]"]
    by (simp add: u32_lim_def)
qed

text \<open>The CPU verifier is greedy decoding.  Given the finite logits of any target model after every prefix
  of an in-vocabulary draft, laid out row by row, it succeeds and emits exactly the tokens that taking
  the greedy token one position at a time would emit.\<close>

theorem greedy_verifier_equals_decoding:
  assumes "verifier_new vocab = Ok self" "vocab < u32_lim"
    and "draft_new tokens confidences = Ok d" "list_all (\<lambda>t. t < vocab) tokens"
    and "\<And>c. length (model_logits c) = vocab \<and> list_all f32_is_finite (model_logits c)"
  shows "\<exists>v. verifier_verify self d s
        (concat (map (\<lambda>i. model_logits (ctx @ take i tokens)) [0..<scheduled_len s d + 1])) = Ok v \<and>
    emitted_tokens v = autoregress (\<lambda>c. greedy_token (model_logits c)) ctx (accepted v + 1)"
proof -
  define n where "n = scheduled_len s d"
  define rows where "rows = map (\<lambda>i. model_logits (ctx @ take i tokens)) [0..<n + 1]"
  have self: "vocab_size self = vocab" "0 < vocab"
    using assms(1) by (auto simp: verifier_new_def split: if_splits)
  have wf: "draft_wf d" and tokens: "draft_tokens d = tokens"
    using assms(3) by (auto simp: draft_new_Ok)
  have "n \<le> 1024"
    using scheduled_len_le [OF wf, of s] wf by (simp add: n_def draft_wf_def)
  then have "(n + 1) * vocab \<le> 1025 * vocab" by (intro mult_le_mono1) simp
  also have "\<dots> < u64_lim" using assms(2) by (simp add: width_defs)
  finally have fits: "(n + 1) * vocab < u64_lim" .
  have len: "length (concat rows) = (n + 1) * vocab"
    using assms(5) by (simp add: rows_def length_concat o_def sum_list_triv)
  have chunks: "chunks_exact vocab (concat rows) = rows"
    using assms(5) self(2) by (intro chunks_exact_concat) (auto simp: rows_def)
  have "\<forall>x \<in> set rows. x \<noteq> [] \<and> length x \<le> u32_lim \<and> all_finite x"
    using assms(2,5) self(2) by (auto simp: rows_def all_finite_def simp flip: length_greater_0_conv)
  then have targets: "for_each_res push_target [] (enumerate 0 rows) = Ok (map greedy_token rows)"
    using push_targets [of rows "[]" 0] by simp
  have teacher: "map greedy_token rows =
      teacher_forced (\<lambda>c. greedy_token (model_logits c)) ctx (draft_tokens d) n"
    by (simp add: rows_def teacher_forced_def tokens)
  obtain v where v: "verify_scheduled_draft d s (map greedy_token rows) = Ok v"
    "emitted_tokens v = autoregress (\<lambda>c. greedy_token (model_logits c)) ctx (accepted v + 1)"
    using verify_teacher_forced [OF wf n_def, of "\<lambda>c. greedy_token (model_logits c)" ctx] teacher by auto
  have pos: "position (\<lambda>token. vocab_size self \<le> token) (draft_tokens d) = None"
    using assms(4) self by (auto simp: tokens list_all_iff)
  have "verifier_verify self d s (concat rows) = Ok v"
    unfolding verifier_verify_def pos option.case
    using fits len chunks targets v(1) self
    by (simp add: n_def [symmetric] Let_def)
  then show ?thesis
    using v(2) by (auto simp: rows_def n_def)
qed

theorem greedy_verifier_equals_decoding_witness:
  "\<exists>v. verifier_verify \<lparr>vocab_size = 8\<rparr> demo_draft demo_schedule
        (concat (map (\<lambda>i. replicate 8 f32_zero) [0..<3])) = Ok v \<and>
     emitted_tokens v = autoregress (\<lambda>c. greedy_token (replicate 8 f32_zero)) [] (accepted v + 1)"
proof -
  have new: "verifier_new 8 = Ok \<lparr>vocab_size = 8\<rparr>" by (simp add: verifier_new_def)
  have "f32_is_finite f32_zero" by (simp add: f32_is_finite_def f32_mag_def f32_zero_def)
  then have fin: "length (replicate 8 f32_zero) = 8 \<and> list_all f32_is_finite (replicate 8 f32_zero)"
    by (simp add: list_all_iff)
  show ?thesis
    using greedy_verifier_equals_decoding [OF new _ demo_draft_new, of "\<lambda>c. replicate 8 f32_zero"
        demo_schedule "[]"] fin
    by (simp add: demo_scheduled u32_lim_def)
qed

text \<open>\<open>verify_and_record\<close> updates the statistics exactly when it returns an outcome: on every error, of
  verification or of recording, they are unchanged.\<close>

theorem verify_and_record_all_or_nothing:
  "case verify_and_record self st d s logits of
     (st', Inl e) \<Rightarrow> st' = st
   | (st', Inr v) \<Rightarrow> verifier_verify self d s logits = Ok v \<and> stats_next st v = Ok st' \<and>
       stat_steps st' = stat_steps st + 1 \<and> stat_accepted st' = stat_accepted st + accepted v"
  by (auto simp: verify_and_record_def stats_record_def stats_next_def split: sum.splits prod.splits if_splits)

end
