(* ===== verification/KvSequence.thy ===== *)
theory KvSequence
  imports NNIS_Prelude
begin

text \<open>
  What callers of a KV cache rely on, whatever its layout: a list of rows, bounded by a capacity, to
  which a row is appended or from which the newest rows are cut.  A call that fails leaves the list as
  it was.  The locale's lemmas lift this to arbitrary sequences of calls and to speculative roll-back.
\<close>

section \<open>The interface: a bounded sequence of rows\<close>

datatype 'r kv_op = Push 'r | Cut nat

fun kv_exec_list :: "nat \<Rightarrow> ('r \<Rightarrow> bool) \<Rightarrow> 'r list \<Rightarrow> 'r kv_op \<Rightarrow> 'r list" where
  "kv_exec_list cap fits xs (Push r) = (if fits r \<and> length xs < cap then xs @ [r] else xs)"
| "kv_exec_list cap fits xs (Cut n) = (if n \<le> length xs then take n xs else xs)"

locale kv_sequence =
  fixes inv :: "'c \<Rightarrow> bool"
    and view :: "'c \<Rightarrow> 'r list"
    and bound :: "'c \<Rightarrow> nat"
    and fits :: "'c \<Rightarrow> 'r \<Rightarrow> bool"
    and push :: "'c \<Rightarrow> 'r \<Rightarrow> 'c \<times> ('e + unit)"
    and cut :: "'c \<Rightarrow> nat \<Rightarrow> 'c \<times> ('e + unit)"
  assumes view_bound: "inv c \<Longrightarrow> length (view c) \<le> bound c"
    and push_inv: "inv c \<Longrightarrow> inv (fst (push c r))"
    and push_const: "inv c \<Longrightarrow> bound (fst (push c r)) = bound c \<and> fits (fst (push c r)) = fits c"
    and push_Ok: "inv c \<Longrightarrow> snd (push c r) = Ok () \<longleftrightarrow> fits c r \<and> length (view c) < bound c"
    and push_view: "inv c \<Longrightarrow> view (fst (push c r)) = kv_exec_list (bound c) (fits c) (view c) (Push r)"
    and cut_inv: "inv c \<Longrightarrow> inv (fst (cut c n))"
    and cut_const: "inv c \<Longrightarrow> bound (fst (cut c n)) = bound c \<and> fits (fst (cut c n)) = fits c"
    and cut_Ok: "inv c \<Longrightarrow> snd (cut c n) = Ok () \<longleftrightarrow> n \<le> length (view c)"
    and cut_view: "inv c \<Longrightarrow> view (fst (cut c n)) = kv_exec_list (bound c) (fits c) (view c) (Cut n)"
begin

fun exec :: "'c \<Rightarrow> 'r kv_op \<Rightarrow> 'c" where
  "exec c (Push r) = fst (push c r)"
| "exec c (Cut n) = fst (cut c n)"

lemma exec_inv: "inv c \<Longrightarrow> inv (exec c a)"
  by (cases a) (simp_all add: push_inv cut_inv)

lemma exec_const: "inv c \<Longrightarrow> bound (exec c a) = bound c \<and> fits (exec c a) = fits c"
  by (cases a) (simp_all add: push_const cut_const)

lemma exec_view: "inv c \<Longrightarrow> view (exec c a) = kv_exec_list (bound c) (fits c) (view c) a"
  by (cases a) (simp_all only: exec.simps push_view cut_view)

text \<open>Any sequence of calls, failing ones included, is that sequence on the list of rows.\<close>

lemma run_refines:
  "inv c \<Longrightarrow> inv (foldl exec c as) \<and>
     view (foldl exec c as) = foldl (kv_exec_list (bound c) (fits c)) (view c) as \<and>
     length (view (foldl exec c as)) \<le> bound c"
proof (induction as arbitrary: c)
  case Nil
  then show ?case by (simp add: view_bound)
next
  case (Cons a as)
  then show ?case
    using exec_inv [of c a] exec_const [of c a] exec_view [of c a] Cons.IH [of "exec c a"]
    by simp
qed

lemma pushes_view:
  "inv c \<Longrightarrow> (\<And>r. r \<in> set rs \<Longrightarrow> fits c r) \<Longrightarrow> length (view c) + length rs \<le> bound c \<Longrightarrow>
     view (foldl exec c (map Push rs)) = view c @ rs"
proof (induction rs arbitrary: c)
  case Nil
  then show ?case by simp
next
  case (Cons r rs)
  have v: "view (exec c (Push r)) = view c @ [r]"
    using Cons.prems by (subst exec_view) simp_all
  have "view (foldl exec (exec c (Push r)) (map Push rs)) = view (exec c (Push r)) @ rs"
    using Cons.prems v exec_const [of c "Push r"]
    by (intro Cons.IH exec_inv) (simp_all del: exec.simps)
  then show ?case using v by simp
qed

text \<open>Speculation: rows appended and then cut away leave no trace.\<close>

lemma rollback_view:
  assumes "inv c" "\<And>r. r \<in> set rs \<Longrightarrow> fits c r" "length (view c) + length rs \<le> bound c"
  shows "view (exec (foldl exec c (map Push rs)) (Cut (length (view c)))) = view c"
proof -
  have "inv (foldl exec c (map Push rs))" using run_refines [OF assms(1)] by blast
  then show ?thesis
    using pushes_view [OF assms] by (subst exec_view) simp_all
qed

end

end
