(* ===== verification/PortableKv.thy ===== *)
theory PortableKv
  imports KvFp4 KvSequence
begin

text \<open>
  \<open>nnis-core/src/session.rs\<close>: the host KV cache of portable sessions - one dense \<open>f32\<close> buffer laid out
  \<open>[layer][capacity][row_width]\<close> with one logical length for all layers - with its storage mode
  and its accounting.  Mutating methods return the cache after the call beside their result, since
  an append that fails half way has already written slots.  The locale \<open>kv_sequence\<close>
  is interpreted: to its callers the cache is a bounded list of rows.
\<close>

section \<open>Storage mode and errors\<close>

definition MAX_SYNTHETIC_SESSION_DIM :: nat where "MAX_SYNTHETIC_SESSION_DIM = 1024"

datatype portable_session_error =
    Invalid string
  | StateError string
  | SessionBackend rstr

fun display_session_error :: "portable_session_error \<Rightarrow> rstr" where
  "display_session_error (Invalid message) = lit message"
| "display_session_error (StateError message) = lit message"
| "display_session_error (SessionBackend message) = lit ''portable session backend: '' @ message"

datatype kv_storage_mode =
    DenseMode
  | Fp4Mode (mode_group_size: nat) (mode_scale_encoding: fp4_scale_encoding)

definition tiny_fp4 :: kv_storage_mode where
  "tiny_fp4 = Fp4Mode 4 ScaleF32"

fun is_fp4 :: "kv_storage_mode \<Rightarrow> bool" where
  "is_fp4 DenseMode = False"
| "is_fp4 (Fp4Mode _ _) = True"

fun validate_for_row_width :: "kv_storage_mode \<Rightarrow> nat \<Rightarrow> portable_session_error + kv_storage_mode" where
  "validate_for_row_width DenseMode w = Ok DenseMode"
| "validate_for_row_width (Fp4Mode gs enc) w =
     and_then (ok_or (Invalid ''portable KV row width exceeds u32'') (u32_of_usize w)) (\<lambda>width.
     and_then (map_err (\<lambda>error. SessionBackend
           (lit ''portable FP4 KV mode rejected by DSV41-3 layout: '' @ display_fp4_error error))
         (fp4_layout_new 1 width gs enc)) (\<lambda>_.
       Ok (Fp4Mode gs enc)))"

section \<open>The synthetic model's dimensions\<close>

record synthetic_spec =
  spec_vocab_size :: nat
  spec_hidden_size :: nat
  spec_capacity :: nat
  spec_layers :: nat

definition check_dim :: "nat \<Rightarrow> portable_session_error + unit" where
  "check_dim v =
     (if v = 0 then Err (Invalid ''synthetic portable model dimensions must be positive'')
      else if v > MAX_SYNTHETIC_SESSION_DIM then
        Err (Invalid ''synthetic portable model dimension exceeds v1 maximum'')
      else Ok ())"

definition synthetic_spec_new :: "nat \<Rightarrow> nat \<Rightarrow> nat \<Rightarrow> nat \<Rightarrow> portable_session_error + synthetic_spec" where
  "synthetic_spec_new vocab hidden cap ls =
     and_then (check_all check_dim [vocab, hidden, cap, ls]) (\<lambda>_.
     and_then (ok_or (Invalid ''synthetic portable model storage shape overflows usize'')
         (case checked_mul vocab hidden of None \<Rightarrow> None
          | Some v \<Rightarrow> (case checked_mul v cap of None \<Rightarrow> None | Some v \<Rightarrow> checked_mul v ls))) (\<lambda>_.
       Ok \<lparr>spec_vocab_size = vocab, spec_hidden_size = hidden, spec_capacity = cap, spec_layers = ls\<rparr>))"

section \<open>The cache\<close>

record kv_cache =
  kv_layers :: nat
  kv_capacity :: nat
  kv_row_width :: nat
  kv_length :: nat
  kv_mode :: kv_storage_mode
  kv_storage :: "f32 list"

text \<open>\<open>reserve n\<close> is the allocator's answer to \<open>try_reserve_exact\<close>: whether it can hold \<open>n\<close> scalars.\<close>

definition kv_with_storage_mode ::
  "(nat \<Rightarrow> bool) \<Rightarrow> nat \<Rightarrow> nat \<Rightarrow> nat \<Rightarrow> kv_storage_mode \<Rightarrow> portable_session_error + kv_cache" where
  "kv_with_storage_mode reserve ls cap w mode =
     (if ls = 0 \<or> cap = 0 \<or> w = 0 then Err (Invalid ''portable KV dimensions must be positive'')
      else if ls > MAX_SYNTHETIC_SESSION_DIM \<or> cap > MAX_SYNTHETIC_SESSION_DIM \<or>
        w > MAX_SYNTHETIC_SESSION_DIM
      then Err (Invalid ''portable KV dimension exceeds v1 maximum'')
      else
        and_then (validate_for_row_width mode w) (\<lambda>m.
        and_then (ok_or (Invalid ''portable KV storage shape overflows usize'')
            (case checked_mul ls cap of None \<Rightarrow> None | Some v \<Rightarrow> checked_mul v w)) (\<lambda>total.
          if \<not> reserve total then Err (Invalid ''portable KV storage reservation failed'')
          else Ok \<lparr>kv_layers = ls, kv_capacity = cap, kv_row_width = w, kv_length = 0, kv_mode = m,
                   kv_storage = replicate total f32_zero\<rparr>)))"

definition kv_new :: "(nat \<Rightarrow> bool) \<Rightarrow> nat \<Rightarrow> nat \<Rightarrow> nat \<Rightarrow> portable_session_error + kv_cache" where
  "kv_new reserve ls cap w = kv_with_storage_mode reserve ls cap w DenseMode"

definition row_offset :: "kv_cache \<Rightarrow> nat \<Rightarrow> nat \<Rightarrow> nat" where
  "row_offset c layer index = ((layer * kv_capacity c) + index) * kv_row_width c"

definition row_slot :: "kv_cache \<Rightarrow> nat \<Rightarrow> nat \<Rightarrow> f32 list" where
  "row_slot c layer index = slice (row_offset c layer index) (kv_row_width c) (kv_storage c)"

definition layer_prefix :: "kv_cache \<Rightarrow> nat \<Rightarrow> portable_session_error + f32 list" where
  "layer_prefix c layer =
     (if layer \<ge> kv_layers c then Err (Invalid ''portable KV layer index out of range'')
      else Ok (slice (row_offset c layer 0) (kv_length c * kv_row_width c) (kv_storage c)))"

definition logical_payload_bytes :: "kv_cache \<Rightarrow> nat" where
  "logical_payload_bytes c =
     saturating_mul (saturating_mul (saturating_mul (kv_layers c) (kv_length c)) (kv_row_width c)) 4"

definition capacity_payload_bytes :: "kv_cache \<Rightarrow> nat" where
  "capacity_payload_bytes c =
     saturating_mul (saturating_mul (saturating_mul (kv_layers c) (kv_capacity c)) (kv_row_width c)) 4"

definition kv_row :: "kv_cache \<Rightarrow> nat \<Rightarrow> nat \<Rightarrow> portable_session_error + f32 list" where
  "kv_row c layer index =
     (if layer \<ge> kv_layers c then Err (Invalid ''portable KV layer index out of range'')
      else if index \<ge> kv_length c then Err (Invalid ''portable KV row index out of range'')
      else Ok (row_slot c layer index))"

fun append_rows :: "kv_cache \<Rightarrow> nat \<Rightarrow> f32 list list \<Rightarrow> kv_cache \<times> (portable_session_error + unit)" where
  "append_rows c layer [] = (c, Ok ())"
| "append_rows c layer (row # rest) =
     (if length row \<noteq> kv_row_width c then
        (c, Err (Invalid ''portable KV append row width mismatch''))
      else if \<not> list_all f32_is_finite row then
        (c, Err (Invalid ''portable KV append rejects non-finite values''))
      else
        append_rows
          (c\<lparr>kv_storage := overwrite (row_offset c layer (kv_length c)) row (kv_storage c)\<rparr>)
          (Suc layer) rest)"

definition kv_append :: "kv_cache \<Rightarrow> f32 list list \<Rightarrow> kv_cache \<times> (portable_session_error + unit)" where
  "kv_append c rs =
     (if length rs \<noteq> kv_layers c then
        (c, Err (Invalid ''portable KV append requires one row slice per layer''))
      else if kv_length c \<ge> kv_capacity c then
        (c, Err (StateError ''portable KV append exceeds capacity''))
      else
        (case append_rows c 0 rs of
           (c', Inl e) \<Rightarrow> (c', Err e)
         | (c', Inr _) \<Rightarrow> (c'\<lparr>kv_length := kv_length c' + 1\<rparr>, Ok ())))"

definition kv_truncate :: "kv_cache \<Rightarrow> nat \<Rightarrow> kv_cache \<times> (portable_session_error + unit)" where
  "kv_truncate c n =
     (if n > kv_length c then
        (c, Err (Invalid ''portable KV truncate length exceeds current length''))
      else (c\<lparr>kv_length := n\<rparr>, Ok ()))"

definition kv_reset :: "kv_cache \<Rightarrow> kv_cache" where
  "kv_reset c = c\<lparr>kv_length := 0\<rparr>"

record kv_telemetry =
  tele_mode :: kv_storage_mode
  tele_layers :: nat
  tele_length :: nat
  tele_capacity :: nat
  tele_row_width :: nat
  dense_logical_bytes :: nat
  dense_capacity_bytes :: nat
  fp4_logical :: "fp4_storage option"
  fp4_capacity :: "fp4_storage option"

definition dense_telemetry :: "kv_cache \<Rightarrow> kv_telemetry" where
  "dense_telemetry c =
     \<lparr>tele_mode = kv_mode c, tele_layers = kv_layers c, tele_length = kv_length c,
      tele_capacity = kv_capacity c, tele_row_width = kv_row_width c,
      dense_logical_bytes = logical_payload_bytes c, dense_capacity_bytes = capacity_payload_bytes c,
      fp4_logical = None, fp4_capacity = None\<rparr>"

section \<open>The cache as a list of rows\<close>

definition kv_inv :: "kv_cache \<Rightarrow> bool" where
  "kv_inv c \<longleftrightarrow>
     0 < kv_row_width c \<and> kv_row_width c \<le> 1024 \<and> 0 < kv_layers c \<and> kv_layers c \<le> 1024 \<and>
     kv_capacity c \<le> 1024 \<and> kv_length c \<le> kv_capacity c \<and>
     length (kv_storage c) = kv_layers c * kv_capacity c * kv_row_width c"

definition kv_view :: "kv_cache \<Rightarrow> f32 list list list" where
  "kv_view c = map (\<lambda>i. map (\<lambda>l. row_slot c l i) [0..<kv_layers c]) [0..<kv_length c]"

definition kv_fits :: "kv_cache \<Rightarrow> f32 list list \<Rightarrow> bool" where
  "kv_fits c rs \<longleftrightarrow>
     length rs = kv_layers c \<and> list_all (\<lambda>r. length r = kv_row_width c \<and> list_all f32_is_finite r) rs"

lemma offset_bound:
  assumes "l < ls" "i < cap"
  shows "((l * cap) + i) * w + w \<le> ls * cap * (w :: nat)"
proof -
  have "l * cap + i + 1 \<le> l * cap + cap" using assms(2) by simp
  also have "\<dots> = (l + 1) * cap" by simp
  also have "\<dots> \<le> ls * cap" using assms(1) by (intro mult_le_mono1) simp
  finally have "(l * cap + i + 1) * w \<le> ls * cap * w" by (rule mult_le_mono1)
  then show ?thesis by (simp add: add_mult_distrib)
qed

lemma offset_disjoint:
  assumes "(l :: nat) \<noteq> l' \<or> i \<noteq> i'" "i < cap" "i' < cap"
  shows "(l * cap + i) * w + w \<le> (l' * cap + i') * w \<or> (l' * cap + i') * w + w \<le> (l * cap + i) * w"
proof -
  have "l * cap + i \<noteq> l' * cap + i'"
  proof
    assume eq: "l * cap + i = l' * cap + i'"
    then have "(l * cap + i) div cap = (l' * cap + i') div cap" by simp
    then have "l = l'" using assms(2,3) by simp
    with eq assms(1) show False by simp
  qed
  then consider "l * cap + i + 1 \<le> l' * cap + i'" | "l' * cap + i' + 1 \<le> l * cap + i" by linarith
  then show ?thesis
  proof cases
    case 1
    then have "(l * cap + i + 1) * w \<le> (l' * cap + i') * w" by (rule mult_le_mono1)
    then show ?thesis by (simp add: add_mult_distrib)
  next
    case 2
    then have "(l' * cap + i' + 1) * w \<le> (l * cap + i) * w" by (rule mult_le_mono1)
    then show ?thesis by (simp add: add_mult_distrib)
  qed
qed

text \<open>Writing one row slot.\<close>

definition put_row :: "kv_cache \<Rightarrow> nat \<Rightarrow> nat \<Rightarrow> f32 list \<Rightarrow> kv_cache" where
  "put_row c l i row = c\<lparr>kv_storage := overwrite (row_offset c l i) row (kv_storage c)\<rparr>"

lemma put_row_frame [simp]:
  "kv_layers (put_row c l i row) = kv_layers c" "kv_capacity (put_row c l i row) = kv_capacity c"
  "kv_row_width (put_row c l i row) = kv_row_width c" "kv_length (put_row c l i row) = kv_length c"
  "kv_mode (put_row c l i row) = kv_mode c" "row_offset (put_row c l i row) = row_offset c"
  by (simp_all add: put_row_def row_offset_def fun_eq_iff)

lemma put_row_storage:
  assumes "length (kv_storage c) = kv_layers c * kv_capacity c * kv_row_width c"
    and "l < kv_layers c" "i < kv_capacity c" "length row = kv_row_width c"
  shows "length (kv_storage (put_row c l i row)) = kv_layers c * kv_capacity c * kv_row_width c"
    and "row_slot (put_row c l i row) l i = row"
    and "l' < kv_layers c \<Longrightarrow> i' < kv_capacity c \<Longrightarrow> l' \<noteq> l \<or> i' \<noteq> i \<Longrightarrow>
      row_slot (put_row c l i row) l' i' = row_slot c l' i'"
proof -
  have b: "row_offset c l i + length row \<le> length (kv_storage c)"
    using offset_bound [OF assms(2,3)] assms(1,4) by (simp add: row_offset_def)
  then show "length (kv_storage (put_row c l i row)) = kv_layers c * kv_capacity c * kv_row_width c"
    using assms(1) by (simp add: put_row_def)
  show "row_slot (put_row c l i row) l i = row"
    using slice_overwrite_same [OF b] assms(4) by (simp add: row_slot_def) (simp add: put_row_def)
  assume *: "l' < kv_layers c" "i' < kv_capacity c" "l' \<noteq> l \<or> i' \<noteq> i"
  have b': "row_offset c l' i' + kv_row_width c \<le> length (kv_storage c)"
    using offset_bound [OF *(1,2)] assms(1) by (simp add: row_offset_def)
  have "row_offset c l' i' + kv_row_width c \<le> row_offset c l i \<or>
      row_offset c l i + length row \<le> row_offset c l' i'"
    using offset_disjoint [OF *(3) *(2) assms(3), of "kv_row_width c"] assms(4) by (simp add: row_offset_def)
  from slice_overwrite_disjoint [OF b b' this] show "row_slot (put_row c l i row) l' i' = row_slot c l' i'"
    by (simp add: row_slot_def) (simp add: put_row_def)
qed

text \<open>The loop over the layers touches the slots of position \<open>kv_length c\<close> only; it succeeds exactly on
  rows of the right width and finite, and then each layer's slot holds its row.\<close>

definition row_ok :: "kv_cache \<Rightarrow> f32 list \<Rightarrow> bool" where
  "row_ok c r \<longleftrightarrow> length r = kv_row_width c \<and> list_all f32_is_finite r"

definition same_shape :: "kv_cache \<Rightarrow> kv_cache \<Rightarrow> bool" where
  "same_shape c d \<longleftrightarrow>
     kv_layers d = kv_layers c \<and> kv_capacity d = kv_capacity c \<and> kv_row_width d = kv_row_width c \<and>
     kv_length d = kv_length c \<and> kv_mode d = kv_mode c \<and> length (kv_storage d) = length (kv_storage c)"

lemma append_rows_spec:
  assumes "length (kv_storage c) = kv_layers c * kv_capacity c * kv_row_width c"
    and "kv_length c < kv_capacity c" "layer + length rs \<le> kv_layers c"
    and "append_rows c layer rs = (d, r)"
  shows "same_shape c d \<and> (r = Ok () \<longleftrightarrow> list_all (row_ok c) rs) \<and>
    (\<forall>l i. l < kv_layers c \<longrightarrow> i < kv_capacity c \<longrightarrow> i \<noteq> kv_length c \<or> l < layer \<longrightarrow>
       row_slot d l i = row_slot c l i) \<and>
    (r = Ok () \<longrightarrow> (\<forall>k < length rs. row_slot d (layer + k) (kv_length c) = rs ! k))"
  using assms
proof (induction rs arbitrary: c layer)
  case Nil
  then show ?case by (auto simp: same_shape_def)
next
  case (Cons row rs)
  show ?case
  proof (cases "row_ok c row")
    case False
    with Cons.prems show ?thesis by (auto simp: same_shape_def row_ok_def split: if_splits)
  next
    case True
    define c1 where "c1 = put_row c layer (kv_length c) row"
    have row: "length row = kv_row_width c" and l: "layer < kv_layers c"
      using True Cons.prems by (auto simp: row_ok_def)
    note put = put_row_storage [OF Cons.prems(1) l Cons.prems(2) row]
    have ok1: "row_ok c1 = row_ok c" by (simp add: row_ok_def c1_def fun_eq_iff)
    have "append_rows c1 (Suc layer) rs = (d, r)"
      using Cons.prems(4) True by (auto simp: row_ok_def c1_def put_row_def)
    then have IH: "same_shape c1 d \<and> (r = Ok () \<longleftrightarrow> list_all (row_ok c1) rs) \<and>
      (\<forall>l i. l < kv_layers c1 \<longrightarrow> i < kv_capacity c1 \<longrightarrow> i \<noteq> kv_length c1 \<or> l < Suc layer \<longrightarrow>
         row_slot d l i = row_slot c1 l i) \<and>
      (r = Ok () \<longrightarrow> (\<forall>k < length rs. row_slot d (Suc layer + k) (kv_length c1) = rs ! k))"
      using Cons.prems put(1) by (intro Cons.IH) (simp_all add: c1_def)
    have "row_slot d layer (kv_length c) = row"
      using IH l Cons.prems(2) put(2) by (simp add: c1_def)
    moreover have "row_slot d l' i = row_slot c l' i"
      if "l' < kv_layers c" "i < kv_capacity c" "i \<noteq> kv_length c \<or> l' < layer" for l' i
      using IH that put(3) [of l' i] by (fastforce simp: c1_def)
    moreover have "same_shape c d"
      using IH put(1) Cons.prems(1) by (simp add: same_shape_def c1_def)
    ultimately show ?thesis
      using IH True ok1 by (auto simp: c1_def nth_Cons split: nat.splits)
  qed
qed

lemma kv_append_spec:
  assumes "kv_inv c" "kv_append c rs = (d, r)"
  shows "kv_layers d = kv_layers c \<and> kv_capacity d = kv_capacity c \<and> kv_row_width d = kv_row_width c \<and>
    kv_mode d = kv_mode c \<and> kv_inv d \<and>
    (r = Ok () \<longleftrightarrow> kv_fits c rs \<and> kv_length c < kv_capacity c) \<and>
    kv_view d = (if kv_fits c rs \<and> kv_length c < kv_capacity c then kv_view c @ [rs] else kv_view c)"
proof (cases "length rs = kv_layers c \<and> kv_length c < kv_capacity c")
  case False
  then have "d = c \<and> (\<exists>e. r = Err e)"
    using assms(2) by (auto simp: kv_append_def not_less split: if_splits)
  with False assms(1) show ?thesis by (auto simp: kv_fits_def)
next
  case True
  obtain c1 r1 where run: "append_rows c 0 rs = (c1, r1)" by fastforce
  have st: "length (kv_storage c) = kv_layers c * kv_capacity c * kv_row_width c"
    using assms(1) by (simp add: kv_inv_def)
  note spec = append_rows_spec [OF st _ _ run]
  have fits: "kv_fits c rs \<longleftrightarrow> list_all (row_ok c) rs"
    using True by (simp add: kv_fits_def row_ok_def [abs_def])
  have old: "kv_view c1 = kv_view c"
    using spec True assms(1) by (auto simp: kv_view_def same_shape_def kv_inv_def)
  show ?thesis
  proof (cases r1)
    case (Inl e)
    then have "d = c1" "r = Err e" using assms(2) True run by (auto simp: kv_append_def)
    then show ?thesis
      using spec True Inl fits old assms(1) by (auto simp: same_shape_def kv_inv_def)
  next
    case (Inr u)
    then have d: "d = c1\<lparr>kv_length := kv_length c1 + 1\<rparr>" "r = Ok ()"
      using assms(2) True run by (auto simp: kv_append_def)
    have slot: "row_slot d = row_slot c1" by (simp add: d row_slot_def row_offset_def fun_eq_iff)
    have "map (\<lambda>l. row_slot c1 l (kv_length c)) [0..<kv_layers c] = rs"
      using spec True Inr by (intro nth_equalityI) auto
    then have "kv_view d = kv_view c @ [rs]"
      using old spec True by (simp add: kv_view_def slot) (simp add: d same_shape_def)
    then show ?thesis
      using spec True Inr fits d assms(1) by (auto simp: same_shape_def kv_inv_def)
  qed
qed

lemma kv_truncate_view:
  "n \<le> kv_length c \<Longrightarrow> kv_view (c\<lparr>kv_length := n\<rparr>) = take n (kv_view c)"
  by (simp add: kv_view_def row_slot_def row_offset_def take_map)

lemma length_kv_view [simp]: "length (kv_view c) = kv_length c"
  by (simp add: kv_view_def)

interpretation portable_kv: kv_sequence kv_inv kv_view kv_capacity kv_fits kv_append kv_truncate
proof
  fix c :: kv_cache and r :: "f32 list list" and n :: nat
  assume c: "kv_inv c"
  then show "length (kv_view c) \<le> kv_capacity c" by (simp add: kv_inv_def)
  obtain d res where run: "kv_append c r = (d, res)" by fastforce
  note spec = kv_append_spec [OF c run]
  show "kv_inv (fst (kv_append c r))"
    and "kv_capacity (fst (kv_append c r)) = kv_capacity c \<and> kv_fits (fst (kv_append c r)) = kv_fits c"
    and "snd (kv_append c r) = Ok () \<longleftrightarrow> kv_fits c r \<and> length (kv_view c) < kv_capacity c"
    and "kv_view (fst (kv_append c r)) = kv_exec_list (kv_capacity c) (kv_fits c) (kv_view c) (Push r)"
    using spec by (auto simp: run kv_fits_def fun_eq_iff)
  show "kv_inv (fst (kv_truncate c n))"
    and "kv_capacity (fst (kv_truncate c n)) = kv_capacity c \<and> kv_fits (fst (kv_truncate c n)) = kv_fits c"
    and "snd (kv_truncate c n) = Ok () \<longleftrightarrow> n \<le> length (kv_view c)"
    and "kv_view (fst (kv_truncate c n)) = kv_exec_list (kv_capacity c) (kv_fits c) (kv_view c) (Cut n)"
    using c by (auto simp: kv_truncate_def kv_inv_def kv_fits_def kv_truncate_view fun_eq_iff)
qed

lemma kv_with_storage_mode_Ok:
  "kv_with_storage_mode reserve ls cap w mode = Ok c \<Longrightarrow>
     kv_inv c \<and> kv_view c = [] \<and> kv_layers c = ls \<and> kv_capacity c = cap \<and> kv_row_width c = w \<and>
     kv_mode c = mode"
  by (cases mode)
    (auto simp: kv_with_storage_mode_def kv_inv_def kv_view_def MAX_SYNTHETIC_SESSION_DIM_def
      split: if_splits option.splits)

lemma kv_row_view:
  "kv_row c l i = Ok r \<longleftrightarrow> l < kv_layers c \<and> i < length (kv_view c) \<and> r = kv_view c ! i ! l"
  by (auto simp: kv_row_def kv_view_def)

lemma layer_prefix_view:
  assumes "kv_inv c" "l < kv_layers c"
  shows "layer_prefix c l = Ok (concat (map (\<lambda>rs. rs ! l) (kv_view c)))"
proof -
  have rows: "map (\<lambda>rs. rs ! l) (kv_view c) = map (row_slot c l) [0..<kv_length c]"
    using assms(2) by (simp add: kv_view_def)
  have "slice (row_offset c l 0) (n * kv_row_width c) (kv_storage c) =
      concat (map (row_slot c l) [0..<n])" if "n \<le> kv_capacity c" for n
    using that
  proof (induction n)
    case 0
    then show ?case by simp
  next
    case (Suc n)
    have off: "row_offset c l n = row_offset c l 0 + n * kv_row_width c"
      by (simp add: row_offset_def add_mult_distrib)
    have "take (n * w + w) xs = take (n * w) xs @ take w (drop (n * w) xs)" for w and xs :: "f32 list"
      by (simp add: take_add)
    then show ?case
      using Suc by (simp add: row_slot_def slice_def off add.commute)
  qed
  from this [of "kv_length c"] show ?thesis
    using assms by (simp add: layer_prefix_def rows kv_inv_def)
qed

lemma payload_exact:
  assumes "kv_inv c"
  shows "capacity_payload_bytes c = 4 * length (kv_storage c)"
    and "logical_payload_bytes c = 4 * (kv_layers c * length (kv_view c) * kv_row_width c)"
    and "logical_payload_bytes c \<le> capacity_payload_bytes c"
proof -
  have small: "kv_layers c * n \<le> 1024 * 1024 \<and> kv_layers c * n * kv_row_width c \<le> 1024 * 1024 * 1024"
    if "n \<le> 1024" for n
  proof -
    have a: "kv_layers c * n \<le> 1024 * 1024"
      using assms that by (intro mult_le_mono) (simp_all add: kv_inv_def)
    have "kv_layers c * n * kv_row_width c \<le> 1024 * 1024 * 1024"
      using assms by (intro mult_le_mono a) (simp add: kv_inv_def)
    with a show ?thesis by simp
  qed
  have cap: "capacity_payload_bytes c = kv_layers c * kv_capacity c * kv_row_width c * 4"
    using small [of "kv_capacity c"] assms
    by (simp add: capacity_payload_bytes_def saturating_mul_def kv_inv_def width_defs)
  have log: "logical_payload_bytes c = kv_layers c * kv_length c * kv_row_width c * 4"
    using small [of "kv_length c"] assms
    by (simp add: logical_payload_bytes_def saturating_mul_def kv_inv_def width_defs)
  show "capacity_payload_bytes c = 4 * length (kv_storage c)"
    "logical_payload_bytes c = 4 * (kv_layers c * length (kv_view c) * kv_row_width c)"
    using assms by (simp_all add: cap log kv_inv_def)
  show "logical_payload_bytes c \<le> capacity_payload_bytes c"
    using assms by (simp add: cap log kv_inv_def)
qed

section \<open>Properties\<close>

text \<open>C8. The KV cache is a bounded list of rows.  After any sequence of appends and truncations on a fresh
  cache, failed calls included, what \<open>row\<close> and \<open>layer_prefix\<close> return is what the same sequence leaves in
  a plain list: successful appends extend it, truncations keep a prefix, and a failed call - a wrong
  row count or width, a non-finite value in a later layer's row, a full cache - changes nothing a
  caller can read, although it may have written storage.\<close>

theorem portable_kv_refines_list:
  assumes "kv_with_storage_mode reserve ls cap w mode = Ok c"
    and "d = foldl portable_kv.exec c ops"
    and "xs = foldl (kv_exec_list cap (kv_fits c)) [] ops"
  shows "length xs \<le> cap \<and> kv_length d = length xs \<and>
    (\<forall>l i. kv_row d l i =
       (if l \<ge> ls then Err (Invalid ''portable KV layer index out of range'')
        else if i \<ge> length xs then Err (Invalid ''portable KV row index out of range'')
        else Ok (xs ! i ! l))) \<and>
    (\<forall>l. l < ls \<longrightarrow> layer_prefix d l = Ok (concat (map (\<lambda>rs. rs ! l) xs)))"
proof -
  have c: "kv_inv c" "kv_view c = []" "kv_layers c = ls" "kv_capacity c = cap"
    using kv_with_storage_mode_Ok [OF assms(1)] by simp_all
  have d: "kv_inv d" "kv_view d = xs" "length xs \<le> cap"
    using portable_kv.run_refines [OF c(1), of ops] c assms(2,3) by (auto simp del: length_kv_view)
  have "kv_layers (foldl portable_kv.exec e as) = kv_layers e" if "kv_inv e" for e as
    using that
  proof (induction as arbitrary: e)
    case Nil
    then show ?case by simp
  next
    case (Cons a as)
    have "kv_layers (portable_kv.exec e a) = kv_layers e"
      using kv_append_spec [OF Cons.prems]
      by (cases a) (auto simp: kv_truncate_def, metis prod.collapse)
    then show ?case
      using Cons.IH [of "portable_kv.exec e a"] portable_kv.exec_inv [OF Cons.prems] by simp
  qed
  then have l: "kv_layers d = ls" using c assms(2) by simp
  have len: "kv_length d = length xs" using d(2) by (metis length_kv_view)
  have "kv_row d l i = (if l \<ge> ls then Err (Invalid ''portable KV layer index out of range'')
        else if i \<ge> length xs then Err (Invalid ''portable KV row index out of range'')
        else Ok (xs ! i ! l))" for l i
    using kv_row_view [of d l i] d(2) l len by (auto simp: kv_row_def kv_view_def)
  then show ?thesis
    using d l len layer_prefix_view [OF d(1)] by auto
qed

definition demo_cache :: kv_cache where
  "demo_cache = \<lparr>kv_layers = 1, kv_capacity = 2, kv_row_width = 1, kv_length = 0, kv_mode = DenseMode,
     kv_storage = [f32_zero, f32_zero]\<rparr>"

lemma demo_cache_new: "kv_with_storage_mode (\<lambda>_. True) 1 2 1 DenseMode = Ok demo_cache"
  by (simp add: kv_with_storage_mode_def demo_cache_def MAX_SYNTHETIC_SESSION_DIM_def checked_mul_def
      u64_lim_def numeral_2_eq_2)

theorem portable_kv_refines_list_witness:
  "\<exists>d. d = foldl portable_kv.exec demo_cache [Push [[f32_one]], Push [[0x7FC00000]], Push [[f32_zero]], Cut 1] \<and>
     kv_length d = 1 \<and> kv_row d 0 0 = Ok [f32_one]"
proof -
  have fin: "f32_is_finite f32_one" "f32_is_finite f32_zero" "\<not> f32_is_finite 0x7FC00000"
    by (simp_all add: f32_is_finite_def f32_mag_def f32_one_def f32_zero_def)
  have "foldl (kv_exec_list 2 (kv_fits demo_cache)) []
      [Push [[f32_one]], Push [[0x7FC00000]], Push [[f32_zero]], Cut 1] = [[[f32_one]]]"
    using fin by (simp add: kv_fits_def demo_cache_def)
  then show ?thesis
    using portable_kv_refines_list [OF demo_cache_new refl,
        of "[[[f32_one]]]" "[Push [[f32_one]], Push [[0x7FC00000]], Push [[f32_zero]], Cut 1]"]
    by (simp del: foldl_Cons)
qed

text \<open>Speculative appends can be rolled back: after appending any rows that fit and truncating to the
  earlier length, every row reads as before.\<close>

theorem portable_kv_rollback:
  assumes "kv_inv c" "list_all (kv_fits c) rs" "kv_length c + length rs \<le> kv_capacity c"
    and "d = fst (kv_truncate (foldl (\<lambda>c r. fst (kv_append c r)) c rs) (kv_length c))"
  shows "kv_view d = kv_view c \<and> kv_inv d"
proof -
  have run: "foldl portable_kv.exec c (map Push rs) = foldl (\<lambda>c r. fst (kv_append c r)) c rs"
    by (simp add: foldl_map)
  have inv: "kv_inv (foldl portable_kv.exec c (map Push rs))"
    using portable_kv.run_refines [OF assms(1)] by blast
  show ?thesis
    using portable_kv.rollback_view [of c rs] portable_kv.exec_inv [OF inv, of "Cut (kv_length c)"]
      assms(1-3)
    by (simp add: assms(4) run list_all_iff)
qed

theorem portable_kv_rollback_witness:
  "\<exists>d. d = fst (kv_truncate (fst (kv_append demo_cache [[f32_one]])) 0) \<and> kv_view d = []"
proof -
  have "kv_inv demo_cache" "kv_length demo_cache = 0" "kv_view demo_cache = []"
    using kv_with_storage_mode_Ok [OF demo_cache_new] by (simp_all add: demo_cache_def)
  moreover have "list_all (kv_fits demo_cache) [[[f32_one]]]"
    by (simp add: kv_fits_def demo_cache_def f32_is_finite_def f32_mag_def f32_one_def)
  moreover have "kv_capacity demo_cache = 2" by (simp add: demo_cache_def)
  ultimately show ?thesis
    using portable_kv_rollback [of demo_cache "[[[f32_one]]]"] by simp
qed

text \<open>The reported payload bytes are exact - four per stored scalar, with no saturation - and the logical
  figure never exceeds that of the capacity.\<close>

theorem portable_kv_payload_exact:
  assumes "kv_inv c"
  shows "dense_capacity_bytes (dense_telemetry c) = 4 * length (kv_storage c) \<and>
    dense_logical_bytes (dense_telemetry c) = 4 * (kv_layers c * length (kv_view c) * kv_row_width c) \<and>
    dense_logical_bytes (dense_telemetry c) \<le> dense_capacity_bytes (dense_telemetry c)"
  using payload_exact [OF assms] by (simp add: dense_telemetry_def)

theorem portable_kv_payload_exact_witness:
  "dense_capacity_bytes (dense_telemetry demo_cache) = 8"
  using portable_kv_payload_exact [of demo_cache] kv_with_storage_mode_Ok [OF demo_cache_new]
  by (simp add: demo_cache_def)

end
