(* ===== verification/Pvp.thy ===== *)
theory Pvp
  imports Rust_Str
begin

unbundle bit_operations_syntax

text \<open>
  \<open>nnis-core/src/pvp.rs\<close>: the layout adapter of Pascal Vector Projection banks - one row of gate bits
  per address, packed in \<open>u64\<close> words on the CPU and \<open>u32\<close> words on WGPU, with zero padding.  The
  lemmas view both packings as the same bits, so that conversion and round trip are statements about
  bits.
\<close>

section \<open>Layout\<close>

datatype pvp_physical = CpuU64 | WgpuU32

fun physical_bits :: "pvp_physical \<Rightarrow> nat" where
  "physical_bits CpuU64 = 64"
| "physical_bits WgpuU32 = 32"

fun physical_label :: "pvp_physical \<Rightarrow> string" where
  "physical_label CpuU64 = ''cpu-u64''"
| "physical_label WgpuU32 = ''wgpu-u32''"

datatype pvp_error =
    ZeroAddresses
  | AddressesNotPowerOfTwo nat
  | ZeroGates
  | ArithmeticOverflow
  | StorageLengthMismatch pvp_physical nat nat
  | NonZeroPadding pvp_physical nat

fun display_pvp_error :: "pvp_error \<Rightarrow> rstr" where
  "display_pvp_error ZeroAddresses = lit ''PVP address count must be non-zero''"
| "display_pvp_error (AddressesNotPowerOfTwo n) =
     lit ''PVP address count '' @ dec n @ lit '' is not a power of two''"
| "display_pvp_error ZeroGates = lit ''PVP gate count must be non-zero''"
| "display_pvp_error ArithmeticOverflow = lit ''PVP layout arithmetic overflow''"
| "display_pvp_error (StorageLengthMismatch ph expected actual) =
     lit ''PVP '' @ lit (physical_label ph) @ lit '' storage has '' @ dec actual @
     lit '' words, expected '' @ dec expected"
| "display_pvp_error (NonZeroPadding ph a) =
     lit ''PVP '' @ lit (physical_label ph) @ lit '' row '' @ dec a @
     lit '' contains non-zero canonical padding''"

record pvp_layout =
  pvp_addresses :: nat
  pvp_gates :: nat

fun trailing_zeros :: "nat \<Rightarrow> nat" where
  "trailing_zeros n = (if n = 0 then 64 else if odd n then 0 else Suc (trailing_zeros (n div 2)))"

declare trailing_zeros.simps [simp del]

definition overflow_or :: "'a option \<Rightarrow> pvp_error + 'a" where
  "overflow_or m = ok_or ArithmeticOverflow m"

definition pvp_layout_new :: "nat \<Rightarrow> nat \<Rightarrow> pvp_error + pvp_layout" where
  "pvp_layout_new addresses gates =
     (if addresses = 0 then Err ZeroAddresses
      else if \<not> is_power_of_two addresses then Err (AddressesNotPowerOfTwo addresses)
      else if gates = 0 then Err ZeroGates
      else and_then (overflow_or (checked_mul addresses gates)) (\<lambda>_.
        Ok \<lparr>pvp_addresses = addresses, pvp_gates = gates\<rparr>))"

definition pvp_stages :: "pvp_layout \<Rightarrow> nat" where
  "pvp_stages l = trailing_zeros (pvp_addresses l)"

definition checked_ceil_div :: "nat \<Rightarrow> nat \<Rightarrow> pvp_error + nat" where
  "checked_ceil_div val divisor =
     overflow_or (map_option (\<lambda>s. s div divisor) (checked_add val (divisor - 1)))"

definition logical_bits :: "pvp_layout \<Rightarrow> pvp_error + nat" where
  "logical_bits l = overflow_or (checked_mul (pvp_addresses l) (pvp_gates l))"

definition words_per_address :: "pvp_layout \<Rightarrow> pvp_physical \<Rightarrow> pvp_error + nat" where
  "words_per_address l ph = checked_ceil_div (pvp_gates l) (physical_bits ph)"

definition storage_words :: "pvp_layout \<Rightarrow> pvp_physical \<Rightarrow> pvp_error + nat" where
  "storage_words l ph =
     and_then (words_per_address l ph) (\<lambda>w. overflow_or (checked_mul (pvp_addresses l) w))"

definition storage_bytes :: "pvp_layout \<Rightarrow> pvp_physical \<Rightarrow> pvp_error + nat" where
  "storage_bytes l ph =
     (let bytes_per_word = physical_bits ph div 8 in
      and_then (storage_words l ph) (\<lambda>w. overflow_or (checked_mul w bytes_per_word)))"

definition pvp_padding_bits :: "pvp_layout \<Rightarrow> pvp_physical \<Rightarrow> pvp_error + nat" where
  "pvp_padding_bits l ph =
     and_then (storage_words l ph) (\<lambda>w.
     and_then (overflow_or (checked_mul w (physical_bits ph))) (\<lambda>bits.
     and_then (logical_bits l) (\<lambda>logical. overflow_or (checked_sub bits logical))))"

definition canonical_record :: "pvp_layout \<Rightarrow> pvp_physical \<Rightarrow> pvp_error + rstr" where
  "canonical_record l ph =
     and_then (words_per_address l ph) (\<lambda>wpa.
     and_then (storage_bytes l ph) (\<lambda>bytes.
     and_then (pvp_padding_bits l ph) (\<lambda>padding.
       Ok (lit ''nnis.pvp-layout-adapter.v1'' @ lit '';source_logical='' @ lit ''pvp-bitplanes/v1'' @
           lit '';addresses='' @ dec (pvp_addresses l) @ lit '';gates='' @ dec (pvp_gates l) @
           lit '';physical='' @ lit (physical_label ph) @ lit '';word_bits='' @ dec (physical_bits ph) @
           lit '';order=address-major-gate-word;words_per_address='' @ dec wpa @
           lit '';storage_bytes='' @ dec bytes @ lit '';padding_bits='' @ dec padding))))"

section \<open>Validated banks\<close>

record pvp_cpu =
  cpu_layout :: pvp_layout
  cpu_words :: "64 word list"

record pvp_wgpu =
  wgpu_layout :: pvp_layout
  wgpu_words :: "32 word list"

definition validate_u64 :: "pvp_layout \<Rightarrow> 64 word list \<Rightarrow> pvp_error + unit" where
  "validate_u64 l ws =
     and_then (storage_words l CpuU64) (\<lambda>expected.
       if length ws \<noteq> expected then Err (StorageLengthMismatch CpuU64 expected (length ws))
       else
         let tail = pvp_gates l mod 64 in
         if tail = 0 then Ok ()
         else
           let msk = NOT (push_bit tail 1 - 1) in
           and_then (words_per_address l CpuU64) (\<lambda>row_words.
             check_all (\<lambda>a. if ws ! (a * row_words + (row_words - 1)) AND msk \<noteq> 0
                            then Err (NonZeroPadding CpuU64 a) else Ok ())
               [0..<pvp_addresses l]))"

definition validate_u32 :: "pvp_layout \<Rightarrow> 32 word list \<Rightarrow> pvp_error + unit" where
  "validate_u32 l ws =
     and_then (storage_words l WgpuU32) (\<lambda>expected.
       if length ws \<noteq> expected then Err (StorageLengthMismatch WgpuU32 expected (length ws))
       else
         let tail = pvp_gates l mod 32 in
         if tail = 0 then Ok ()
         else
           let msk = NOT (push_bit tail 1 - 1) in
           and_then (words_per_address l WgpuU32) (\<lambda>row_words.
             check_all (\<lambda>a. if ws ! (a * row_words + (row_words - 1)) AND msk \<noteq> 0
                            then Err (NonZeroPadding WgpuU32 a) else Ok ())
               [0..<pvp_addresses l]))"

definition pvp_cpu_new :: "pvp_layout \<Rightarrow> 64 word list \<Rightarrow> pvp_error + pvp_cpu" where
  "pvp_cpu_new l ws = and_then (validate_u64 l ws) (\<lambda>_. Ok \<lparr>cpu_layout = l, cpu_words = ws\<rparr>)"

definition pvp_wgpu_new :: "pvp_layout \<Rightarrow> 32 word list \<Rightarrow> pvp_error + pvp_wgpu" where
  "pvp_wgpu_new l ws = and_then (validate_u32 l ws) (\<lambda>_. Ok \<lparr>wgpu_layout = l, wgpu_words = ws\<rparr>)"

section \<open>Conversions\<close>

definition to_wgpu_row ::
  "64 word list \<Rightarrow> nat \<Rightarrow> nat \<Rightarrow> 32 word list \<Rightarrow> nat \<Rightarrow> pvp_error + 32 word list" where
  "to_wgpu_row ws source_words target_words output address =
     and_then (overflow_or (checked_mul address source_words)) (\<lambda>source_base.
     and_then (overflow_or (checked_mul address target_words)) (\<lambda>target_base.
       Ok (fold (\<lambda>target_word out.
             let source_word = target_word div 2; shift = (target_word mod 2) * 32
             in out[target_base + target_word :=
                      ucast (drop_bit shift (ws ! (source_base + source_word)))])
           [0..<target_words] output)))"

definition to_wgpu_u32 :: "pvp_cpu \<Rightarrow> pvp_error + pvp_wgpu" where
  "to_wgpu_u32 c =
     and_then (words_per_address (cpu_layout c) CpuU64) (\<lambda>source_words.
     and_then (words_per_address (cpu_layout c) WgpuU32) (\<lambda>target_words.
     and_then (storage_words (cpu_layout c) WgpuU32) (\<lambda>n.
     and_then (for_each_res (to_wgpu_row (cpu_words c) source_words target_words) (replicate n 0)
         [0..<pvp_addresses (cpu_layout c)]) (\<lambda>output.
       pvp_wgpu_new (cpu_layout c) output))))"

definition to_cpu_row ::
  "32 word list \<Rightarrow> nat \<Rightarrow> nat \<Rightarrow> 64 word list \<Rightarrow> nat \<Rightarrow> pvp_error + 64 word list" where
  "to_cpu_row ws source_words target_words output address =
     and_then (overflow_or (checked_mul address source_words)) (\<lambda>source_base.
     and_then (overflow_or (checked_mul address target_words)) (\<lambda>target_base.
       Ok (fold (\<lambda>source_word out.
             let target_word = source_word div 2; shift = (source_word mod 2) * 32
             in out[target_base + target_word :=
                      out ! (target_base + target_word) OR
                      push_bit shift (ucast (ws ! (source_base + source_word)))])
           [0..<source_words] output)))"

definition to_cpu_u64 :: "pvp_wgpu \<Rightarrow> pvp_error + pvp_cpu" where
  "to_cpu_u64 w =
     and_then (words_per_address (wgpu_layout w) WgpuU32) (\<lambda>source_words.
     and_then (words_per_address (wgpu_layout w) CpuU64) (\<lambda>target_words.
     and_then (storage_words (wgpu_layout w) CpuU64) (\<lambda>n.
     and_then (for_each_res (to_cpu_row (wgpu_words w) source_words target_words) (replicate n 0)
         [0..<pvp_addresses (wgpu_layout w)]) (\<lambda>output.
       pvp_cpu_new (wgpu_layout w) output))))"

section \<open>Both packings as bits\<close>

text \<open>Bit \<open>n\<close> of the row of address \<open>a\<close>, for rows of \<open>rw\<close> words of \<open>LENGTH('w)\<close> bits.\<close>

definition row_bit :: "'w::len word list \<Rightarrow> nat \<Rightarrow> nat \<Rightarrow> nat \<Rightarrow> bool" where
  "row_bit ws rw a n = bit (ws ! (a * rw + n div LENGTH('w))) (n mod LENGTH('w))"

definition canonical_rows :: "'w::len word list \<Rightarrow> nat \<Rightarrow> nat \<Rightarrow> nat \<Rightarrow> bool" where
  "canonical_rows ws addresses rw gates \<longleftrightarrow>
     length ws = addresses * rw \<and>
     (\<forall>a < addresses. \<forall>n. gates \<le> n \<longrightarrow> n < LENGTH('w) * rw \<longrightarrow> \<not> row_bit ws rw a n)"

lemma rows_ext:
  fixes ws vs :: "'w::len word list"
  assumes "canonical_rows ws addresses rw gates" "canonical_rows vs addresses rw gates"
    and "\<And>a n. a < addresses \<Longrightarrow> n < gates \<Longrightarrow> n < LENGTH('w) * rw \<Longrightarrow> row_bit ws rw a n = row_bit vs rw a n"
  shows "ws = vs"
proof (rule nth_equalityI)
  show "length ws = length vs" using assms(1,2) by (simp add: canonical_rows_def)
next
  fix i assume "i < length ws"
  then have i: "i < addresses * rw" using assms(1) by (simp add: canonical_rows_def)
  then have rw: "0 < rw" by (cases rw) auto
  define a t where "a = i div rw" and "t = i mod rw"
  have a: "a < addresses" and t: "t < rw" and eq: "i = a * rw + t"
    using i rw by (simp_all add: a_def t_def less_mult_imp_div_less)
  show "ws ! i = vs ! i"
  proof (rule bit_word_eqI)
    fix k assume k: "k < LENGTH('w)"
    define n where "n = t * LENGTH('w) + k"
    have nd: "n div LENGTH('w) = t" "n mod LENGTH('w) = k" using k by (simp_all add: n_def)
    have "Suc t * LENGTH('w) \<le> rw * LENGTH('w)" using t by (intro mult_le_mono1) simp
    then have "n < LENGTH('w) * rw" using k by (simp add: n_def mult.commute)
    then have "row_bit ws rw a n = row_bit vs rw a n"
      using assms a by (cases "n < gates") (auto simp: canonical_rows_def)
    then show "bit (ws ! i) k = bit (vs ! i) k"
      by (simp add: row_bit_def nd eq)
  qed
qed

lemma and_not_low_bits:
  fixes w :: "'w::len word"
  assumes "tail < LENGTH('w)"
  shows "w AND NOT (push_bit tail 1 - 1) = 0 \<longleftrightarrow> (\<forall>n. tail \<le> n \<longrightarrow> n < LENGTH('w) \<longrightarrow> \<not> bit w n)"
proof -
  have "push_bit tail 1 - 1 = (mask tail :: 'w word)"
    by (simp add: mask_eq_exp_minus_1 push_bit_of_1)
  then show ?thesis
    by (auto simp: bit_eq_iff bit_and_iff bit_not_iff bit_mask_iff not_less dest: bit_imp_le_length)
qed

lemma overflow_or_Ok [simp]: "overflow_or m = Ok v \<longleftrightarrow> m = Some v"
  by (simp add: overflow_or_def)

lemma words_per_address_Ok:
  "words_per_address l ph = Ok w \<longleftrightarrow>
     w = (pvp_gates l + (physical_bits ph - 1)) div physical_bits ph \<and>
     pvp_gates l + (physical_bits ph - 1) < u64_lim"
  by (auto simp: words_per_address_def checked_ceil_div_def checked_add_def)

lemma storage_words_Ok:
  "storage_words l ph = Ok n \<longleftrightarrow>
     (\<exists>w. words_per_address l ph = Ok w \<and> n = pvp_addresses l * w \<and> n < u64_lim)"
  by (auto simp: storage_words_def)

text \<open>A row of \<open>rw\<close> words holds the gates, and only its last word can hold padding.\<close>

lemma ceil_rows:
  assumes "0 < b" "0 < g" "rw = (g + (b - 1)) div (b :: nat)"
  shows "0 < rw" "g \<le> b * rw" "b * (rw - 1) < g" "g mod b = 0 \<Longrightarrow> g = b * rw"
    "g mod b \<noteq> 0 \<Longrightarrow> g = b * (rw - 1) + g mod b"
proof -
  have e: "g + (b - 1) = rw * b + (g + (b - 1)) mod b" using assms(3) by simp
  have r: "(g + (b - 1)) mod b < b" using assms(1) by simp
  show pos: "0 < rw" using assms by (simp add: div_greater_zero_iff)
  then have m: "b * rw = b * (rw - 1) + b" by (cases rw) simp_all
  define x r' where "x = b * rw" and "r' = (g + (b - 1)) mod b"
  have "g + (b - 1) = x + r'" "r' < b" using e r by (simp_all add: x_def r'_def mult.commute)
  moreover have "b * (rw - 1) + b = x" using m by (simp add: x_def)
  ultimately show le: "g \<le> b * rw" and lt: "b * (rw - 1) < g"
    using assms(1,2) unfolding x_def [symmetric] by linarith+
  define d where "d = g - b * (rw - 1)"
  have d: "g = b * (rw - 1) + d" "0 < d" "d \<le> b" using le lt m by (simp_all add: d_def)
  have md: "g mod b = d mod b" using d(1) by simp
  show "g mod b = 0 \<Longrightarrow> g = b * rw"
    using d m md by (cases "d = b") auto
  show "g mod b \<noteq> 0 \<Longrightarrow> g = b * (rw - 1) + g mod b"
    using d m md by (cases "d = b") auto
qed

lemma padding_check:
  fixes ws :: "'w::len word list"
  assumes "0 < gates" "rw = (gates + (LENGTH('w) - 1)) div LENGTH('w)"
  shows "gates mod LENGTH('w) = 0 \<or>
      (\<forall>a < addresses. ws ! (a * rw + (rw - 1)) AND NOT (push_bit (gates mod LENGTH('w)) 1 - 1) = 0) \<longleftrightarrow>
    (\<forall>a < addresses. \<forall>n. gates \<le> n \<longrightarrow> n < LENGTH('w) * rw \<longrightarrow> \<not> row_bit ws rw a n)"
proof (cases "gates mod LENGTH('w) = 0")
  case True
  then show ?thesis using ceil_rows(4) [OF _ assms(1) assms(2)] by simp
next
  case False
  define t where "t = gates mod LENGTH('w)"
  have t: "t < LENGTH('w)" by (simp add: t_def)
  have g: "gates = LENGTH('w) * (rw - 1) + t" and rw: "0 < rw"
    using ceil_rows [OF _ assms(1) assms(2)] False by (simp_all add: t_def)
  have top: "LENGTH('w) * rw = LENGTH('w) * (rw - 1) + LENGTH('w)" using rw by (cases rw) simp_all
  have "(\<forall>k. t \<le> k \<longrightarrow> k < LENGTH('w) \<longrightarrow> \<not> bit (ws ! (a * rw + (rw - 1))) k) \<longleftrightarrow>
      (\<forall>n. gates \<le> n \<longrightarrow> n < LENGTH('w) * rw \<longrightarrow> \<not> row_bit ws rw a n)" for a
  proof safe
    fix n assume *: "\<forall>k. t \<le> k \<longrightarrow> k < LENGTH('w) \<longrightarrow> \<not> bit (ws ! (a * rw + (rw - 1))) k"
      "gates \<le> n" "n < LENGTH('w) * rw" "row_bit ws rw a n"
    define k where "k = n - LENGTH('w) * (rw - 1)"
    have k: "n = LENGTH('w) * (rw - 1) + k" "t \<le> k" "k < LENGTH('w)"
      using *(2,3) g top by (simp_all add: k_def)
    then have "n div LENGTH('w) = rw - 1" "n mod LENGTH('w) = k" by simp_all
    with * k show False by (simp add: row_bit_def)
  next
    fix k assume *: "\<forall>n. gates \<le> n \<longrightarrow> n < LENGTH('w) * rw \<longrightarrow> \<not> row_bit ws rw a n"
      "t \<le> k" "k < LENGTH('w)" "bit (ws ! (a * rw + (rw - 1))) k"
    let ?n = "LENGTH('w) * (rw - 1) + k"
    have "row_bit ws rw a ?n" using * by (simp add: row_bit_def)
    then show False using *(1-3) g top by (metis add_le_cancel_left add_less_cancel_left)
  qed
  then show ?thesis
    using False unfolding t_def [symmetric] and_not_low_bits [OF t] by simp
qed

lemma validate_u64_Ok:
  assumes "0 < pvp_gates l"
  shows "validate_u64 l ws = Ok u \<longleftrightarrow>
    (\<exists>rw. words_per_address l CpuU64 = Ok rw \<and> pvp_addresses l * rw < u64_lim \<and>
      canonical_rows ws (pvp_addresses l) rw (pvp_gates l))"
proof (cases "words_per_address l CpuU64")
  case (Inl e)
  then show ?thesis by (simp add: validate_u64_def storage_words_def)
next
  case (Inr rw)
  then have rw: "rw = (pvp_gates l + (LENGTH(64) - 1)) div LENGTH(64)"
    by (simp add: words_per_address_Ok)
  show ?thesis
    using padding_check [OF assms rw, of "pvp_addresses l" ws]
    by (auto simp: validate_u64_def storage_words_def Inr canonical_rows_def Let_def split: if_splits)
qed

lemma validate_u32_Ok:
  assumes "0 < pvp_gates l"
  shows "validate_u32 l ws = Ok u \<longleftrightarrow>
    (\<exists>rw. words_per_address l WgpuU32 = Ok rw \<and> pvp_addresses l * rw < u64_lim \<and>
      canonical_rows ws (pvp_addresses l) rw (pvp_gates l))"
proof (cases "words_per_address l WgpuU32")
  case (Inl e)
  then show ?thesis by (simp add: validate_u32_def storage_words_def)
next
  case (Inr rw)
  then have rw: "rw = (pvp_gates l + (LENGTH(32) - 1)) div LENGTH(32)"
    by (simp add: words_per_address_Ok)
  show ?thesis
    using padding_check [OF assms rw, of "pvp_addresses l" ws]
    by (auto simp: validate_u32_def storage_words_def Inr canonical_rows_def Let_def split: if_splits)
qed

section \<open>Loops over rows\<close>

text \<open>A loop that visits each row of a zeroed output once, writing only that row.\<close>

lemma fill_rows:
  fixes z :: 'b
  assumes row: "\<And>a out. a < A \<Longrightarrow> length out = A * w \<Longrightarrow> (\<forall>t < w. out ! (a * w + t) = z) \<Longrightarrow>
      \<exists>out'. f out a = Ok out' \<and> length out' = A * w \<and>
        (\<forall>b t. b < A \<longrightarrow> t < w \<longrightarrow> b \<noteq> a \<longrightarrow> out' ! (b * w + t) = out ! (b * w + t)) \<and>
        (\<forall>t < w. P a t (out' ! (a * w + t)))"
  shows "\<exists>out. for_each_res f (replicate (A * w) z) [0..<A] = Ok out \<and> length out = A * w \<and>
    (\<forall>a < A. \<forall>t < w. P a t (out ! (a * w + t)))"
proof -
  have idx: "b * w + t < A * w" if "b < A" "t < w" for b t
  proof -
    have "b * w + t < (b + 1) * w" using that by simp
    also have "\<dots> \<le> A * w" using that by (intro mult_le_mono1) simp
    finally show ?thesis .
  qed
  have "\<exists>out. for_each_res f (replicate (A * w) z) [0..<k] = Ok out \<and> length out = A * w \<and>
      (\<forall>a < k. \<forall>t < w. P a t (out ! (a * w + t))) \<and>
      (\<forall>a t. k \<le> a \<longrightarrow> a < A \<longrightarrow> t < w \<longrightarrow> out ! (a * w + t) = z)" if "k \<le> A" for k
    using that
  proof (induction k)
    case 0
    then show ?case by (simp add: idx)
  next
    case (Suc k)
    then obtain out where out: "for_each_res f (replicate (A * w) z) [0..<k] = Ok out" "length out = A * w"
      "\<forall>a < k. \<forall>t < w. P a t (out ! (a * w + t))"
      "\<forall>a t. k \<le> a \<longrightarrow> a < A \<longrightarrow> t < w \<longrightarrow> out ! (a * w + t) = z"
      by auto
    then obtain out' where out': "f out k = Ok out'" "length out' = A * w"
      "\<forall>b t. b < A \<longrightarrow> t < w \<longrightarrow> b \<noteq> k \<longrightarrow> out' ! (b * w + t) = out ! (b * w + t)"
      "\<forall>t < w. P k t (out' ! (k * w + t))"
      using row [of k out] Suc.prems by auto
    have "for_each_res f (replicate (A * w) z) [0..<Suc k] = Ok out'"
      using out(1) out'(1) by (simp add: for_each_res_append)
    then show ?case
      using out out' Suc.prems by (auto simp: less_Suc_eq)
  qed
  from this [of A] show ?thesis by auto
qed

lemma fold_fill_row:
  "base + k \<le> length xs \<Longrightarrow>
     fold (\<lambda>t out. out[base + t := F t]) [0..<k] xs = overwrite base (map F [0..<k]) xs"
proof (induction k)
  case 0
  then show ?case by (simp add: overwrite_def)
next
  case (Suc k)
  then show ?case
    by (intro nth_equalityI) (auto simp: nth_overwrite nth_list_update nth_append less_Suc_eq)
qed

lemma row_indices:
  assumes "b < A" "t < (w :: nat)"
  shows "b * w + t < A * w"
proof -
  have "b * w + t < (b + 1) * w" using assms by simp
  also have "\<dots> \<le> A * w" using assms by (intro mult_le_mono1) simp
  finally show ?thesis .
qed

lemma row_outside:
  assumes "b \<noteq> a" "t < (w :: nat)"
  shows "\<not> (a * w \<le> b * w + t \<and> b * w + t < a * w + w)"
proof
  assume "a * w \<le> b * w + t \<and> b * w + t < a * w + w"
  then have "(b * w + t) div w = a" using assms(2) by (intro div_nat_eqI) (simp_all add: mult.commute)
  then show False using assms by simp
qed

lemma to_wgpu_row_spec:
  assumes "a < A" "length out = A * tw" "A * sw < u64_lim" "A * tw < u64_lim"
  shows "\<exists>out'. to_wgpu_row ws sw tw out a = Ok out' \<and> length out' = A * tw \<and>
    (\<forall>b t. b < A \<longrightarrow> t < tw \<longrightarrow> b \<noteq> a \<longrightarrow> out' ! (b * tw + t) = out ! (b * tw + t)) \<and>
    (\<forall>t < tw. \<forall>m < 32. bit (out' ! (a * tw + t)) m = row_bit ws sw a (t * 32 + m))"
proof -
  define F where "F = (\<lambda>t. ucast (drop_bit ((t mod 2) * 32) (ws ! (a * sw + t div 2))) :: 32 word)"
  have lim: "a * sw < u64_lim" "a * tw < u64_lim"
    using assms mult_le_mono1 [of a A sw] mult_le_mono1 [of a A tw] by linarith+
  have room: "a * tw + tw \<le> length out"
    using mult_le_mono1 [of "a + 1" A tw] assms(1,2) by simp
  have run: "to_wgpu_row ws sw tw out a = Ok (overwrite (a * tw) (map F [0..<tw]) out)"
    using lim fold_fill_row [OF room, of F]
    by (simp add: to_wgpu_row_def Let_def F_def overflow_or_def checked_mul_def)
  have other: "overwrite (a * tw) (map F [0..<tw]) out ! (b * tw + t) = out ! (b * tw + t)"
    if "b < A" "t < tw" "b \<noteq> a" for b t
    using room row_indices [OF that(1,2)] assms(2) row_outside [OF that(3,2)] by (auto simp: nth_overwrite)
  have bits: "bit (overwrite (a * tw) (map F [0..<tw]) out ! (a * tw + t)) m = row_bit ws sw a (t * 32 + m)"
    if "t < tw" "m < 32" for t m
  proof -
    have "overwrite (a * tw) (map F [0..<tw]) out ! (a * tw + t) = F t"
      using room that by (simp add: nth_overwrite)
    moreover have "(t * 32 + m) div 64 = t div 2" "(t * 32 + m) mod 64 = (t mod 2) * 32 + m"
    proof -
      have e: "t * 32 + m = ((t mod 2) * 32 + m) + (t div 2) * 64"
        using div_mult_mod_eq [of t 2] by linarith
      have "t mod 2 \<le> 1" by simp
      then have "(t mod 2) * 32 + m < 64" using that(2) by linarith
      then show "(t * 32 + m) div 64 = t div 2" "(t * 32 + m) mod 64 = (t mod 2) * 32 + m"
        unfolding e by simp_all
    qed
    ultimately show ?thesis
      using that(2) by (simp add: F_def row_bit_def bit_ucast_iff bit_drop_bit_eq)
  qed
  show ?thesis
    using run room assms(2) other bits
    by (intro exI [of _ "overwrite (a * tw) (map F [0..<tw]) out"]) auto
qed

lemma half_words:
  fixes t m k :: nat
  shows "(t * 64 + m) div 32 = 2 * t + m div 32" "(t * 64 + m) mod 32 = m mod 32"
    and "2 * (k div 2) + k mod 2 = k"
proof -
  have "t * 64 + m = m + (2 * t) * 32" by simp
  then show "(t * 64 + m) div 32 = 2 * t + m div 32" "(t * 64 + m) mod 32 = m mod 32"
    by (simp_all only: div_mult_self3 mod_mult_self1)
qed simp

lemma to_cpu_inner:
  fixes ws :: "32 word list"
  assumes "a < A" "length out = A * tw" "\<forall>t < tw. out ! (a * tw + t) = 0" "sw \<le> 2 * tw" "k \<le> sw"
    and "out' = fold (\<lambda>s out. out[a * tw + s div 2 := out ! (a * tw + s div 2) OR
        push_bit ((s mod 2) * 32) (ucast (ws ! (a * sw + s)))]) [0..<k] out"
  shows "length out' = A * tw \<and>
    (\<forall>b t. b < A \<longrightarrow> t < tw \<longrightarrow> b \<noteq> a \<longrightarrow> out' ! (b * tw + t) = out ! (b * tw + t)) \<and>
    (\<forall>t < tw. \<forall>m < 64. bit (out' ! (a * tw + t) :: 64 word) m =
       ((t * 64 + m) div 32 < k \<and> row_bit ws sw a (t * 64 + m)))"
  using assms(5,6)
proof (induction k arbitrary: out')
  case 0
  then show ?case using assms(2,3) by simp
next
  case (Suc k)
  define o1 where "o1 = fold (\<lambda>s out. out[a * tw + s div 2 := out ! (a * tw + s div 2) OR
        push_bit ((s mod 2) * 32) (ucast (ws ! (a * sw + s)))]) [0..<k] out"
  have out': "out' = o1[a * tw + k div 2 := o1 ! (a * tw + k div 2) OR
        push_bit ((k mod 2) * 32) (ucast (ws ! (a * sw + k)))]"
    by (simp add: Suc.prems(2) o1_def)
  have IH: "length o1 = A * tw"
    "\<forall>b t. b < A \<longrightarrow> t < tw \<longrightarrow> b \<noteq> a \<longrightarrow> o1 ! (b * tw + t) = out ! (b * tw + t)"
    "\<forall>t < tw. \<forall>m < 64. bit (o1 ! (a * tw + t)) m =
       ((t * 64 + m) div 32 < k \<and> row_bit ws sw a (t * 64 + m))"
    using Suc.IH [OF _ o1_def] Suc.prems(1) by auto
  have kt: "k div 2 < tw" using Suc.prems(1) assms(4) by linarith
  have i: "a * tw + k div 2 < A * tw" by (rule row_indices [OF assms(1) kt])
  have other: "out' ! (b * tw + t) = out ! (b * tw + t)" if "b < A" "t < tw" "b \<noteq> a" for b t
  proof -
    have "b * tw + t \<noteq> a * tw + k div 2"
      using row_outside [OF that(3,2)] kt by auto
    then show ?thesis using IH(2) that by (simp add: out')
  qed
  have bits: "bit (out' ! (a * tw + t)) m = ((t * 64 + m) div 32 < Suc k \<and> row_bit ws sw a (t * 64 + m))"
    if "t < tw" "m < 64" for t m
  proof (cases "t = k div 2")
    case False
    have "m div 32 < 2" using that(2) by simp
    with False have "(t * 64 + m) div 32 \<noteq> k" using half_words(1) [of t m] half_words(3) [of k] by simp
    then show ?thesis using IH(3) that False by (auto simp: out' less_Suc_eq)
  next
    case True
    have "out' ! (a * tw + t) = o1 ! (a * tw + t) OR push_bit ((k mod 2) * 32) (ucast (ws ! (a * sw + k)))"
      using i IH(1) by (simp add: out' True)
    then have b: "bit (out' ! (a * tw + t)) m = (((t * 64 + m) div 32 < k \<and> row_bit ws sw a (t * 64 + m)) \<or>
        ((k mod 2) * 32 \<le> m \<and> m - (k mod 2) * 32 < 32 \<and> bit (ws ! (a * sw + k)) (m - (k mod 2) * 32)))"
      using IH(3) that
      by (auto simp: bit_or_iff bit_push_bit_iff bit_ucast_iff dest: bit_imp_le_length)
    show ?thesis
    proof (cases "(k mod 2) * 32 \<le> m \<and> m - (k mod 2) * 32 < 32")
      case in_word: True
      then have md: "m = (k mod 2) * 32 + (m - (k mod 2) * 32)" and lt: "m - (k mod 2) * 32 < 32" by simp_all
      have "m div 32 = k mod 2" "m mod 32 = m - (k mod 2) * 32"
        by (subst md; simp add: lt)+
      then have d: "(t * 64 + m) div 32 = k" "(t * 64 + m) mod 32 = m - (k mod 2) * 32"
        using True half_words(1,2) [of t m] half_words(3) [of k] by simp_all
      then show ?thesis using b in_word by (simp add: row_bit_def)
    next
      case out_word: False
      have "m div 32 * 32 \<le> m" "m < m div 32 * 32 + 32"
        by (simp_all add: div_times_less_eq_dividend dividend_less_div_times)
      with out_word have "m div 32 \<noteq> k mod 2" by auto
      then have "(t * 64 + m) div 32 \<noteq> k" using True half_words(1) [of t m] half_words(3) [of k] by linarith
      then show ?thesis using b out_word by (auto simp: less_Suc_eq)
    qed
  qed
  show ?case using IH(1) other bits by (simp add: out')
qed

section \<open>Conversions preserve bits\<close>

definition pvp_wf :: "pvp_layout \<Rightarrow> bool" where
  "pvp_wf l \<longleftrightarrow> is_power_of_two (pvp_addresses l) \<and> 0 < pvp_gates l \<and> pvp_addresses l * pvp_gates l < u64_lim"

lemma pvp_layout_new_Ok:
  "pvp_layout_new A g = Ok l \<longleftrightarrow> l = \<lparr>pvp_addresses = A, pvp_gates = g\<rparr> \<and> pvp_wf l"
  by (auto simp: pvp_layout_new_def pvp_wf_def is_power_of_two_iff)

definition row_words :: "pvp_layout \<Rightarrow> pvp_physical \<Rightarrow> nat" where
  "row_words l ph = (pvp_gates l + (physical_bits ph - 1)) div physical_bits ph"

lemma row_words_bounds:
  assumes "pvp_wf l"
  shows "0 < row_words l ph" "pvp_gates l \<le> physical_bits ph * row_words l ph"
    and "pvp_addresses l * row_words l ph < u64_lim"
    and "row_words l WgpuU32 \<le> 2 * row_words l CpuU64"
    and "pvp_addresses l * row_words l ph \<le> pvp_addresses l * pvp_gates l"
proof -
  have g: "0 < pvp_gates l" using assms by (simp add: pvp_wf_def)
  have b: "0 < physical_bits ph" by (cases ph) simp_all
  note c = ceil_rows [OF b g row_words_def [of l ph]]
  show "0 < row_words l ph" "pvp_gates l \<le> physical_bits ph * row_words l ph" using c by simp_all
  have "row_words l ph \<le> pvp_gates l"
  proof -
    have "row_words l ph - 1 \<le> physical_bits ph * (row_words l ph - 1)" using b by simp
    then show ?thesis using c(3) by linarith
  qed
  then show le: "pvp_addresses l * row_words l ph \<le> pvp_addresses l * pvp_gates l" by simp
  have "pvp_addresses l * pvp_gates l < u64_lim" using assms by (simp add: pvp_wf_def)
  with le show "pvp_addresses l * row_words l ph < u64_lim" by (rule order.strict_trans1)
  have "32 * (row_words l WgpuU32 - 1) < pvp_gates l"
    using ceil_rows(3) [OF _ g row_words_def [of l WgpuU32]] by simp
  moreover have "pvp_gates l \<le> 64 * row_words l CpuU64"
    using ceil_rows(2) [OF _ g row_words_def [of l CpuU64]] by simp
  ultimately show "row_words l WgpuU32 \<le> 2 * row_words l CpuU64" by linarith
qed

lemma pvp_cpu_new_Ok:
  assumes "pvp_wf l"
  shows "pvp_cpu_new l ws = Ok c \<longleftrightarrow> c = \<lparr>cpu_layout = l, cpu_words = ws\<rparr> \<and>
    pvp_gates l + 63 < u64_lim \<and> canonical_rows ws (pvp_addresses l) (row_words l CpuU64) (pvp_gates l)"
  using assms row_words_bounds(3) [OF assms, of CpuU64]
  by (auto simp: pvp_cpu_new_def validate_u64_Ok pvp_wf_def words_per_address_Ok row_words_def)

lemma pvp_wgpu_new_Ok:
  assumes "pvp_wf l"
  shows "pvp_wgpu_new l ws = Ok c \<longleftrightarrow> c = \<lparr>wgpu_layout = l, wgpu_words = ws\<rparr> \<and>
    pvp_gates l + 31 < u64_lim \<and> canonical_rows ws (pvp_addresses l) (row_words l WgpuU32) (pvp_gates l)"
  using assms row_words_bounds(3) [OF assms, of WgpuU32]
  by (auto simp: pvp_wgpu_new_def validate_u32_Ok pvp_wf_def words_per_address_Ok row_words_def)

lemma pvp_new_fields:
  "pvp_cpu_new l ws = Ok c \<Longrightarrow> cpu_layout c = l \<and> cpu_words c = ws"
  "pvp_wgpu_new l vs = Ok w \<Longrightarrow> wgpu_layout w = l \<and> wgpu_words w = vs"
  by (auto simp: pvp_cpu_new_def pvp_wgpu_new_def)

definition cpu_bit :: "pvp_cpu \<Rightarrow> nat \<Rightarrow> nat \<Rightarrow> bool" where
  "cpu_bit c = row_bit (cpu_words c) (row_words (cpu_layout c) CpuU64)"

definition wgpu_bit :: "pvp_wgpu \<Rightarrow> nat \<Rightarrow> nat \<Rightarrow> bool" where
  "wgpu_bit w = row_bit (wgpu_words w) (row_words (wgpu_layout w) WgpuU32)"

lemma to_wgpu_bits:
  assumes "pvp_wf l" "pvp_cpu_new l ws = Ok c"
  shows "\<exists>w. to_wgpu_u32 c = Ok w \<and> pvp_wgpu_new l (wgpu_words w) = Ok w \<and>
    (\<forall>a < pvp_addresses l. \<forall>n < pvp_gates l. wgpu_bit w a n = cpu_bit c a n)"
proof -
  define A g sw tw where "A = pvp_addresses l" and "g = pvp_gates l"
    and "sw = row_words l CpuU64" and "tw = row_words l WgpuU32"
  have c: "c = \<lparr>cpu_layout = l, cpu_words = ws\<rparr>" "g + 63 < u64_lim" "canonical_rows ws A sw g"
    using assms by (simp_all add: pvp_cpu_new_Ok A_def g_def sw_def)
  have lim: "A * sw < u64_lim" "A * tw < u64_lim" and le: "tw \<le> 2 * sw" and gw: "g \<le> 32 * tw"
    using row_words_bounds [OF assms(1)] row_words_bounds(2) [OF assms(1), of WgpuU32]
    by (simp_all add: A_def sw_def tw_def g_def)
  have W: "words_per_address l CpuU64 = Ok sw" "words_per_address l WgpuU32 = Ok tw"
    using c(2) by (simp_all add: words_per_address_Ok sw_def tw_def row_words_def g_def)
  then have S: "storage_words l WgpuU32 = Ok (A * tw)"
    using lim by (simp add: storage_words_Ok A_def)
  obtain out where out: "for_each_res (to_wgpu_row ws sw tw) (replicate (A * tw) 0) [0..<A] = Ok out"
    "length out = A * tw" "\<forall>a < A. \<forall>t < tw. \<forall>m < 32. bit (out ! (a * tw + t)) m = row_bit ws sw a (t * 32 + m)"
    using fill_rows [of A tw 0 "to_wgpu_row ws sw tw"
        "\<lambda>a t v. \<forall>m < 32. bit v m = row_bit ws sw a (t * 32 + m)"]
      to_wgpu_row_spec [OF _ _ lim, of _ _ ws] by auto
  have same: "row_bit out tw a n = row_bit ws sw a n" if "a < A" "n < 32 * tw" for a n
  proof -
    have "n div 32 < tw" using that(2) by (simp add: less_mult_imp_div_less mult.commute)
    then have "bit (out ! (a * tw + n div 32)) (n mod 32) = row_bit ws sw a (n div 32 * 32 + n mod 32)"
      using out(3) that(1) by simp
    then show ?thesis by (simp add: row_bit_def [of out])
  qed
  have "canonical_rows out A tw g"
    using out(2) same c(3) le by (auto simp: canonical_rows_def)
  then have new: "pvp_wgpu_new l out = Ok \<lparr>wgpu_layout = l, wgpu_words = out\<rparr>"
    using c(2) assms(1) by (simp add: pvp_wgpu_new_Ok A_def g_def tw_def)
  have "to_wgpu_u32 c = Ok \<lparr>wgpu_layout = l, wgpu_words = out\<rparr>"
    using W S out(1) new by (simp add: to_wgpu_u32_def c(1) A_def)
  then show ?thesis
    using new same gw
    by (auto simp: wgpu_bit_def cpu_bit_def c(1) A_def g_def sw_def tw_def)
qed

lemma to_cpu_bits:
  assumes "pvp_wf l" "pvp_wgpu_new l ws = Ok c" "pvp_gates l + 63 < u64_lim"
  shows "\<exists>w. to_cpu_u64 c = Ok w \<and> pvp_cpu_new l (cpu_words w) = Ok w \<and>
    (\<forall>a < pvp_addresses l. \<forall>n < pvp_gates l. cpu_bit w a n = wgpu_bit c a n)"
proof -
  define A g sw tw where "A = pvp_addresses l" and "g = pvp_gates l"
    and "sw = row_words l WgpuU32" and "tw = row_words l CpuU64"
  have c: "c = \<lparr>wgpu_layout = l, wgpu_words = ws\<rparr>" "g + 63 < u64_lim" "canonical_rows ws A sw g"
    using assms by (simp_all add: pvp_wgpu_new_Ok A_def g_def sw_def)
  have lim: "A * sw < u64_lim" "A * tw < u64_lim" and le: "sw \<le> 2 * tw"
    and gw: "g \<le> 64 * tw" "g \<le> 32 * sw"
    using row_words_bounds [OF assms(1)] row_words_bounds(2) [OF assms(1), of CpuU64]
      row_words_bounds(2) [OF assms(1), of WgpuU32]
    by (simp_all add: A_def sw_def tw_def g_def)
  have W: "words_per_address l WgpuU32 = Ok sw" "words_per_address l CpuU64 = Ok tw"
    using c(2) by (simp_all add: words_per_address_Ok sw_def tw_def row_words_def g_def)
  then have S: "storage_words l CpuU64 = Ok (A * tw)"
    using lim by (simp add: storage_words_Ok A_def)
  have row: "\<exists>out'. to_cpu_row ws sw tw out a = Ok out' \<and> length out' = A * tw \<and>
      (\<forall>b t. b < A \<longrightarrow> t < tw \<longrightarrow> b \<noteq> a \<longrightarrow> out' ! (b * tw + t) = out ! (b * tw + t)) \<and>
      (\<forall>t < tw. \<forall>m < 64. bit (out' ! (a * tw + t)) m =
         ((t * 64 + m) div 32 < sw \<and> row_bit ws sw a (t * 64 + m)))"
    if "a < A" "length out = A * tw" "\<forall>t < tw. out ! (a * tw + t) = 0" for a out
  proof -
    have l: "a * sw < u64_lim" "a * tw < u64_lim"
      using that(1) lim mult_le_mono1 [of a A sw] mult_le_mono1 [of a A tw] by linarith+
    then show ?thesis
      using to_cpu_inner [OF that le order_refl refl, of ws]
      by (simp add: to_cpu_row_def Let_def overflow_or_def checked_mul_def)
  qed
  obtain out where out: "for_each_res (to_cpu_row ws sw tw) (replicate (A * tw) 0) [0..<A] = Ok out"
    "length out = A * tw"
    "\<forall>a < A. \<forall>t < tw. \<forall>m < 64. bit (out ! (a * tw + t)) m =
       ((t * 64 + m) div 32 < sw \<and> row_bit ws sw a (t * 64 + m))"
    using fill_rows [of A tw 0 "to_cpu_row ws sw tw"
        "\<lambda>a t v. \<forall>m < 64. bit v m = ((t * 64 + m) div 32 < sw \<and> row_bit ws sw a (t * 64 + m))"] row
    by blast
  have same: "row_bit out tw a n = (n div 32 < sw \<and> row_bit ws sw a n)" if "a < A" "n < 64 * tw" for a n
  proof -
    have "n div 64 < tw" using that(2) by (simp add: less_mult_imp_div_less mult.commute)
    then have "bit (out ! (a * tw + n div 64)) (n mod 64) =
        ((n div 64 * 64 + n mod 64) div 32 < sw \<and> row_bit ws sw a (n div 64 * 64 + n mod 64))"
      using out(3) that(1) by simp
    then show ?thesis by (simp add: row_bit_def [of out])
  qed
  have "canonical_rows out A tw g"
    using out(2) same c(3) by (auto simp: canonical_rows_def div_less_iff_less_mult mult.commute)
  then have new: "pvp_cpu_new l out = Ok \<lparr>cpu_layout = l, cpu_words = out\<rparr>"
    using c(2) assms(1) by (simp add: pvp_cpu_new_Ok A_def g_def tw_def)
  have "to_cpu_u64 c = Ok \<lparr>cpu_layout = l, cpu_words = out\<rparr>"
    using W S out(1) new by (simp add: to_cpu_u64_def c(1) A_def)
  moreover have "row_bit out tw a n = row_bit ws sw a n" if "a < A" "n < g" for a n
    using same [of a n] that gw by (simp add: less_mult_imp_div_less mult.commute)
  ultimately show ?thesis
    using new by (auto simp: wgpu_bit_def cpu_bit_def c(1) A_def g_def sw_def tw_def)
qed

section \<open>Properties\<close>

text \<open>Converting a bank to the other physical layout and back is the identity, in both directions, and
  the conversion keeps every gate bit of every address where it was: the two packings are the same
  logical bank.\<close>

theorem pvp_conversion_roundtrip:
  assumes "pvp_layout_new addresses gates = Ok l" "pvp_cpu_new l ws = Ok c"
  shows "\<exists>w. to_wgpu_u32 c = Ok w \<and> to_cpu_u64 w = Ok c \<and>
    (\<forall>a < addresses. \<forall>n < gates. wgpu_bit w a n = cpu_bit c a n) \<and>
    (\<forall>vs v. pvp_wgpu_new l vs = Ok v \<longrightarrow>
       (\<exists>d. to_cpu_u64 v = Ok d \<and> to_wgpu_u32 d = Ok v))"
proof -
  have wf: "pvp_wf l" and l: "pvp_addresses l = addresses" "pvp_gates l = gates"
    using assms(1) by (auto simp: pvp_layout_new_Ok)
  have g63: "pvp_gates l + 63 < u64_lim" using assms(2) by (auto simp: pvp_cpu_new_Ok [OF wf])
  have gw: "physical_bits ph * row_words l ph \<ge> gates" for ph
    using row_words_bounds(2) [OF wf] l by simp
  obtain w where w: "to_wgpu_u32 c = Ok w" "pvp_wgpu_new l (wgpu_words w) = Ok w"
    "\<forall>a < addresses. \<forall>n < gates. wgpu_bit w a n = cpu_bit c a n"
    using to_wgpu_bits [OF wf assms(2)] l by auto
  obtain c2 where c2: "to_cpu_u64 w = Ok c2" "pvp_cpu_new l (cpu_words c2) = Ok c2"
    "\<forall>a < addresses. \<forall>n < gates. cpu_bit c2 a n = wgpu_bit w a n"
    using to_cpu_bits [OF wf w(2) g63] l by auto
  have "cpu_words c2 = cpu_words c"
    using assms(2) c2(2) w(3) c2(3) l pvp_new_fields(1) [OF c2(2)] pvp_new_fields(1) [OF assms(2)]
    by (intro rows_ext [of _ addresses "row_words l CpuU64" gates])
       (simp_all add: pvp_cpu_new_Ok [OF wf] cpu_bit_def)
  then have "c2 = c" using assms(2) c2(2) by (auto simp: pvp_cpu_new_Ok [OF wf])
  moreover have "\<exists>d. to_cpu_u64 v = Ok d \<and> to_wgpu_u32 d = Ok v" if v: "pvp_wgpu_new l vs = Ok v" for vs v
  proof -
    obtain d where d: "to_cpu_u64 v = Ok d" "pvp_cpu_new l (cpu_words d) = Ok d"
      "\<forall>a < addresses. \<forall>n < gates. cpu_bit d a n = wgpu_bit v a n"
      using to_cpu_bits [OF wf v g63] l by auto
    obtain v2 where v2: "to_wgpu_u32 d = Ok v2" "pvp_wgpu_new l (wgpu_words v2) = Ok v2"
      "\<forall>a < addresses. \<forall>n < gates. wgpu_bit v2 a n = cpu_bit d a n"
      using to_wgpu_bits [OF wf d(2)] l by auto
    have "wgpu_words v2 = wgpu_words v"
      using v v2 d l pvp_new_fields(2) [OF v] pvp_new_fields(2) [OF v2(2)]
      by (intro rows_ext [of _ addresses "row_words l WgpuU32" gates])
         (simp_all add: pvp_wgpu_new_Ok [OF wf] wgpu_bit_def)
    then have "v2 = v" using v v2(2) by (auto simp: pvp_wgpu_new_Ok [OF wf])
    with d(1) v2(1) show ?thesis by blast
  qed
  ultimately show ?thesis using w c2 by blast
qed

definition demo_layout :: pvp_layout where
  "demo_layout = \<lparr>pvp_addresses = 2, pvp_gates = 3\<rparr>"

lemma demo_layout_new: "pvp_layout_new 2 3 = Ok demo_layout"
  by (simp add: pvp_layout_new_def is_power_of_two_def demo_layout_def overflow_or_def checked_mul_def
      u64_lim_def upt_rec)

lemma demo_padding:
  "(5 :: 64 word) AND NOT (push_bit 3 1 - 1) = 0" "(2 :: 64 word) AND NOT (push_bit 3 1 - 1) = 0"
  by simp_all

lemma demo_bank_new: "pvp_cpu_new demo_layout [5, 2] = Ok \<lparr>cpu_layout = demo_layout, cpu_words = [5, 2]\<rparr>"
proof -
  have w: "words_per_address demo_layout CpuU64 = Ok 1"
    by (simp add: words_per_address_Ok demo_layout_def u64_lim_def)
  then have s: "storage_words demo_layout CpuU64 = Ok 2"
    by (simp add: storage_words_Ok) (simp add: demo_layout_def u64_lim_def)
  have m: "pvp_gates demo_layout mod 64 = 3" "[0..<pvp_addresses demo_layout] = [0, Suc 0]"
    by (simp_all add: demo_layout_def upt_rec)
  have n: "length [5 :: 64 word, 2] = 2" "(3 :: nat) = 0 \<longleftrightarrow> False" by simp_all
  have c: "check_all (\<lambda>a. if [5, 2] ! (a * 1 + (1 - 1)) AND NOT (push_bit 3 1 - 1) \<noteq> (0 :: 64 word)
      then Err (NonZeroPadding CpuU64 a) else Ok ()) [0, Suc 0] = Ok ()"
    by (simp only: check_all_simps mult_0 mult_1_right diff_self_eq_0 add_0_right nth_Cons_0 nth_Cons_Suc
        demo_padding simp_thms if_False and_then_simps)
  have "validate_u64 demo_layout [5, 2] = Ok ()"
    unfolding validate_u64_def s w and_then_simps Let_def m n if_False simp_thms c ..
  then show ?thesis by (simp add: pvp_cpu_new_def)
qed

theorem pvp_conversion_roundtrip_witness:
  "\<exists>w. to_wgpu_u32 \<lparr>cpu_layout = demo_layout, cpu_words = [5, 2]\<rparr> = Ok w \<and>
     to_cpu_u64 w = Ok \<lparr>cpu_layout = demo_layout, cpu_words = [5, 2]\<rparr>"
  using pvp_conversion_roundtrip [OF demo_layout_new demo_bank_new] by blast

text \<open>A bank is accepted exactly when it has one row per address, each of the rounded-up number of words,
  and no bit is set past the last gate: no non-canonical padding gets in.\<close>

theorem pvp_bank_canonical:
  assumes "pvp_layout_new addresses gates = Ok l" "gates + 63 < u64_lim"
  shows "(\<exists>c. pvp_cpu_new l ws = Ok c) \<longleftrightarrow>
      length ws = addresses * ((gates + 63) div 64) \<and>
      (\<forall>a < addresses. \<forall>n. gates \<le> n \<longrightarrow> n < 64 * ((gates + 63) div 64) \<longrightarrow>
         \<not> bit (ws ! (a * ((gates + 63) div 64) + n div 64)) (n mod 64))"
proof -
  have wf: "pvp_wf l" and l: "pvp_addresses l = addresses" "pvp_gates l = gates"
    using assms(1) by (auto simp: pvp_layout_new_Ok)
  show ?thesis
    using assms(2) l by (simp add: pvp_cpu_new_Ok [OF wf] canonical_rows_def row_words_def row_bit_def)
qed

theorem pvp_bank_canonical_witness:
  "(\<exists>c. pvp_cpu_new demo_layout [5, 2] = Ok c) \<and> bit (5 :: 64 word) 0 \<and> \<not> bit (5 :: 64 word) 3"
proof -
  have "(3 :: nat) + 63 < u64_lim" by (simp add: u64_lim_def)
  from pvp_bank_canonical [OF demo_layout_new this, of "[5, 2]"] show ?thesis
    using demo_bank_new by (auto simp: bit_iff_odd)
qed

end
