(* ===== verification/PvpCpu.thy ===== *)
theory PvpCpu
  imports Pvp
begin

text \<open>
  \<open>nnis-cpu/src/pvp.rs\<close>: the CPU session that runs the subset-zeta (Pascal) transform in place as an XOR
  butterfly over the packed rows.  The loops are modelled as they run, with partial functions, so that
  termination is proved and not assumed; the results are that each row becomes the XOR of the rows at
  all submasks of its address, and that the transform undoes itself.
\<close>

section \<open>Session\<close>

record pvp_stats =
  stats_stages :: nat
  logical_gate_xor_ops :: nat
  packed_u64_updates :: nat
  state_words :: nat
  state_bytes :: nat
  scratch_words :: nat
  execution_index :: nat

record pvp_session =
  ses_layout :: pvp_layout
  ses_words :: "64 word list"
  ses_executions :: nat

definition pvp_session_new :: "pvp_cpu \<Rightarrow> pvp_session" where
  "pvp_session_new initial =
     \<lparr>ses_layout = cpu_layout initial, ses_words = cpu_words initial, ses_executions = 0\<rparr>"

definition pvp_session_from_words :: "pvp_layout \<Rightarrow> 64 word list \<Rightarrow> pvp_error + pvp_session" where
  "pvp_session_from_words l ws =
     and_then (pvp_cpu_new l ws) (\<lambda>initial.
       Ok \<lparr>ses_layout = l, ses_words = cpu_words initial, ses_executions = 0\<rparr>)"

definition pvp_snapshot :: "pvp_session \<Rightarrow> pvp_error + pvp_cpu" where
  "pvp_snapshot s = pvp_cpu_new (ses_layout s) (ses_words s)"

definition zeta_offset ::
  "nat \<Rightarrow> nat \<Rightarrow> nat \<Rightarrow> 64 word list \<Rightarrow> nat \<Rightarrow> 64 word list \<times> (pvp_error + unit)" where
  "zeta_offset rw stride block_start ws offset =
     (let source_address = block_start + offset; target_address = source_address + stride in
      case checked_mul source_address rw of
        None \<Rightarrow> (ws, Err ArithmeticOverflow)
      | Some source_base \<Rightarrow>
          (case checked_mul target_address rw of
             None \<Rightarrow> (ws, Err ArithmeticOverflow)
           | Some target_base \<Rightarrow>
               (fold (\<lambda>w ws. ws[target_base + w := ws ! (target_base + w) XOR ws ! (source_base + w)])
                  [0..<rw] ws, Ok ())))"

partial_function (option) zeta_blocks ::
  "nat \<Rightarrow> nat \<Rightarrow> nat \<Rightarrow> nat \<Rightarrow> nat \<Rightarrow> 64 word list \<Rightarrow> (64 word list \<times> (pvp_error + unit)) option" where
  "zeta_blocks addresses rw stride block block_start ws =
     (if block_start < addresses then
        case for_each_st (zeta_offset rw stride block_start) ws [0..<stride] of
          (ws', Inl e) \<Rightarrow> Some (ws', Err e)
        | (ws', Inr _) \<Rightarrow>
            (case checked_add block_start block of
               None \<Rightarrow> Some (ws', Err ArithmeticOverflow)
             | Some next \<Rightarrow> zeta_blocks addresses rw stride block next ws')
      else Some (ws, Ok ()))"

partial_function (option) zeta_stages ::
  "nat \<Rightarrow> nat \<Rightarrow> nat \<Rightarrow> 64 word list \<Rightarrow> (64 word list \<times> (pvp_error + unit)) option" where
  "zeta_stages addresses rw stride ws =
     (if stride < addresses then
        case checked_mul stride 2 of
          None \<Rightarrow> Some (ws, Err ArithmeticOverflow)
        | Some block \<Rightarrow>
            Option.bind (zeta_blocks addresses rw stride block 0 ws) (\<lambda>(ws', r).
              case r of Inl e \<Rightarrow> Some (ws', Err e) | Inr _ \<Rightarrow> zeta_stages addresses rw block ws')
      else Some (ws, Ok ()))"

definition zeta_finish :: "pvp_session \<Rightarrow> nat \<Rightarrow> 64 word list \<Rightarrow> pvp_session \<times> (pvp_error + pvp_stats)" where
  "zeta_finish s rw ws =
     (let l = ses_layout s; s1 = s\<lparr>ses_words := ws\<rparr> in
      case pvp_cpu_new l ws of
        Inl e \<Rightarrow> (s1, Err e)
      | Inr _ \<Rightarrow>
          (case checked_add (ses_executions s) 1 of
             None \<Rightarrow> (s1, Err ArithmeticOverflow)
           | Some n \<Rightarrow>
               let s2 = s1\<lparr>ses_executions := n\<rparr>; pairs = (pvp_addresses l div 2) * pvp_stages l in
               (s2, and_then (storage_words l CpuU64) (\<lambda>sw. and_then (storage_bytes l CpuU64) (\<lambda>sb.
                  Ok \<lparr>stats_stages = pvp_stages l, logical_gate_xor_ops = pairs * pvp_gates l,
                      packed_u64_updates = pairs * rw, state_words = sw, state_bytes = sb,
                      scratch_words = 0, execution_index = n\<rparr>)))))"

text \<open>\<open>execute_subset_zeta(&mut self)\<close>: the session after the call and its result; \<open>None\<close> would be a loop that
  does not end.\<close>

definition execute_subset_zeta :: "pvp_session \<Rightarrow> (pvp_session \<times> (pvp_error + pvp_stats)) option" where
  "execute_subset_zeta s =
     (case words_per_address (ses_layout s) CpuU64 of
        Inl e \<Rightarrow> Some (s, Err e)
      | Inr rw \<Rightarrow>
          Option.bind (zeta_stages (pvp_addresses (ses_layout s)) rw 1 (ses_words s)) (\<lambda>(ws, r).
            case r of
              Inl e \<Rightarrow> Some (s\<lparr>ses_words := ws\<rparr>, Err e)
            | Inr _ \<Rightarrow> Some (zeta_finish s rw ws)))"

definition session_canonical_record :: "pvp_session \<Rightarrow> pvp_error + rstr" where
  "session_canonical_record s =
     and_then (canonical_record (ses_layout s) CpuU64) (\<lambda>r.
       Ok (lit ''nnis.pvp-cpu-session.v1'' @ lit '';backend='' @ lit ''nnis-cpu-reference'' @
           lit '';executions='' @ dec (ses_executions s) @ lit '';'' @ r))"

section \<open>The butterfly on functions\<close>

text \<open>\<open>rows_are A rw ws f\<close>: word \<open>w\<close> of row \<open>b\<close> is \<open>f b w\<close>.  \<open>butterfly k\<close> is one stage, \<open>zeta m\<close> all of them.\<close>

definition rows_are :: "nat \<Rightarrow> nat \<Rightarrow> 64 word list \<Rightarrow> (nat \<Rightarrow> nat \<Rightarrow> 64 word) \<Rightarrow> bool" where
  "rows_are A rw ws f \<longleftrightarrow> length ws = A * rw \<and> (\<forall>b < A. \<forall>w < rw. ws ! (b * rw + w) = f b w)"

definition butterfly :: "nat \<Rightarrow> (nat \<Rightarrow> nat \<Rightarrow> 64 word) \<Rightarrow> nat \<Rightarrow> nat \<Rightarrow> 64 word" where
  "butterfly k f b w = (if bit b k then f b w XOR f (b - 2 ^ k) w else f b w)"

fun zeta :: "nat \<Rightarrow> (nat \<Rightarrow> nat \<Rightarrow> 64 word) \<Rightarrow> nat \<Rightarrow> nat \<Rightarrow> 64 word" where
  "zeta 0 f = f"
| "zeta (Suc k) f = butterfly k (zeta k f)"

lemma minus_bit:
  assumes "bit (b :: nat) k"
  shows "bit (b - 2 ^ k) i \<longleftrightarrow> bit b i \<and> i \<noteq> k"
proof -
  have "b = set_bit k (unset_bit k b)"
    using assms by (intro bit_eqI) (auto simp: bit_set_bit_iff bit_unset_bit_iff)
  also have "\<dots> = unset_bit k b + 2 ^ k"
    by (simp add: set_bit_eq bit_unset_bit_iff)
  finally have "b - 2 ^ k = unset_bit k b" by simp
  then show ?thesis by (auto simp: bit_unset_bit_iff)
qed

lemma butterfly_involution: "butterfly k (butterfly k f) = f"
  by (intro ext) (simp add: butterfly_def minus_bit xor.assoc)

lemma butterfly_commute: "butterfly j (butterfly k f) = butterfly k (butterfly j f)"
proof (cases "j = k")
  case False
  have "b - 2 ^ j - 2 ^ k = b - 2 ^ k - (2 ^ j :: nat)" for b by simp
  with False show ?thesis
    by (intro ext) (simp add: butterfly_def minus_bit xor.assoc xor.left_commute)
qed simp

lemma butterfly_zeta: "j \<ge> k \<Longrightarrow> butterfly j (zeta k f) = zeta k (butterfly j f)"
  by (induction k) (simp_all add: butterfly_commute)

lemma zeta_involution: "zeta m (zeta m f) = f"
  by (induction m) (simp_all add: butterfly_involution flip: butterfly_zeta)

text \<open>The bit a stage leaves is a parity over submasks.\<close>

definition masks :: "nat \<Rightarrow> nat \<Rightarrow> nat set" where
  "masks k a = {b. (\<forall>i. bit b i \<longrightarrow> bit a i) \<and> (\<forall>i \<ge> k. bit b i = bit a i)}"

lemma masks_0: "masks 0 a = {a}"
  by (auto simp: masks_def bit_eq_iff)

lemma all_ge_split: "(\<forall>i \<ge> k. P i) \<longleftrightarrow> P k \<and> (\<forall>i \<ge> Suc k. P i)"
proof -
  have "i \<ge> k \<longleftrightarrow> i = k \<or> i \<ge> Suc k" for i by auto
  then show ?thesis by auto
qed

lemma masks_Suc:
  "masks (Suc k) a = (if bit a k then masks k a \<union> masks k (a - 2 ^ k) else masks k a)"
proof (cases "bit a k")
  case True
  have "b \<in> masks (Suc k) a \<longleftrightarrow> b \<in> masks k a \<or> b \<in> masks k (a - 2 ^ k)" for b
    using True unfolding masks_def mem_Collect_eq all_ge_split [of k]
    by (cases "bit b k") (auto simp: minus_bit)
  with True show ?thesis by auto
next
  case False
  have "b \<in> masks (Suc k) a \<longleftrightarrow> b \<in> masks k a" for b
    using False unfolding masks_def mem_Collect_eq all_ge_split [of k] by auto
  with False show ?thesis by auto
qed

lemma masks_disjoint: "bit a k \<Longrightarrow> masks k a \<inter> masks k (a - 2 ^ k) = {}"
  by (auto simp: masks_def minus_bit)

lemma masks_finite: "finite (masks k a)"
  by (induction k arbitrary: a) (simp_all add: masks_0 masks_Suc)

lemma zeta_parity:
  "bit (zeta k f a w) n \<longleftrightarrow> odd (card {b \<in> masks k a. bit (f b w) n})"
proof (induction k arbitrary: a)
  case 0
  have "{b \<in> {a}. bit (f b w) n} = (if bit (f a w) n then {a} else {})" by auto
  then show ?case by (simp add: masks_0)
next
  case (Suc k)
  show ?case
  proof (cases "bit a k")
    case True
    let ?P = "\<lambda>b. bit (f b w) n"
    have "{b \<in> masks (Suc k) a. ?P b} = {b \<in> masks k a. ?P b} \<union> {b \<in> masks k (a - 2 ^ k). ?P b}"
      using True by (auto simp: masks_Suc)
    moreover have "card ({b \<in> masks k a. ?P b} \<union> {b \<in> masks k (a - 2 ^ k). ?P b}) =
        card {b \<in> masks k a. ?P b} + card {b \<in> masks k (a - 2 ^ k). ?P b}"
      using masks_disjoint [OF True] masks_finite by (intro card_Un_disjoint) auto
    ultimately show ?thesis
      using True Suc.IH by (simp add: butterfly_def bit_xor_iff)
  next
    case False
    then show ?thesis using Suc.IH by (simp add: butterfly_def masks_Suc)
  qed
qed

lemma masks_all:
  assumes "a < 2 ^ m"
  shows "masks m a = {b. b < 2 ^ m \<and> b AND a = b}"
proof -
  have hi: "\<not> bit a i" if "m \<le> i" for i
    using assms that by (metis bit_take_bit_iff not_le take_bit_nat_eq_self)
  have sub: "b AND a = b \<longleftrightarrow> (\<forall>i. bit b i \<longrightarrow> bit a i)" for b
    by (auto simp: bit_eq_iff bit_and_iff)
  have lt: "b < 2 ^ m" if "\<forall>i. bit b i \<longrightarrow> bit a i" for b :: nat
  proof -
    have "take_bit m b = b"
      using that hi by (intro bit_eqI) (auto simp: bit_take_bit_iff intro: leI)
    then show ?thesis by (metis take_bit_nat_less_exp)
  qed
  show ?thesis
    unfolding masks_def sub using hi lt by auto
qed

section \<open>The loops compute the butterfly\<close>

lemma rows_are_cong:
  "rows_are A rw ws f \<Longrightarrow> (\<And>b w. b < A \<Longrightarrow> w < rw \<Longrightarrow> f b w = g b w) \<Longrightarrow> rows_are A rw ws g"
  by (simp add: rows_are_def)

lemma xor_fold:
  fixes xs :: "64 word list"
  assumes "tb + K \<le> length xs" "sb + K \<le> tb" "k \<le> K"
  shows "fold (\<lambda>w xs. xs[tb + w := xs ! (tb + w) XOR xs ! (sb + w)]) [0..<k] xs =
    overwrite tb (map (\<lambda>w. xs ! (tb + w) XOR xs ! (sb + w)) [0..<k]) xs"
  using assms(3)
proof (induction k)
  case 0
  then show ?case by (simp add: overwrite_def)
next
  case (Suc k)
  then show ?case
    using assms(1,2)
    by (intro nth_equalityI) (auto simp: nth_overwrite nth_list_update nth_append less_Suc_eq)
qed

lemma zeta_offset_run:
  assumes "rows_are A rw ws f" "A * rw < u64_lim" "0 < stride" "bs + off + stride < A"
  shows "\<exists>ws'. zeta_offset rw stride bs ws off = (ws', Ok ()) \<and>
    rows_are A rw ws' (f(bs + off + stride := (\<lambda>w. f (bs + off + stride) w XOR f (bs + off) w)))"
proof -
  define s t where "s = bs + off" and "t = s + stride"
  have st: "s < t" "t < A" "s < A" using assms(3,4) by (simp_all add: s_def t_def)
  have len: "length ws = A * rw" and nth: "\<And>b w. b < A \<Longrightarrow> w < rw \<Longrightarrow> ws ! (b * rw + w) = f b w"
    using assms(1) by (simp_all add: rows_are_def)
  have tb: "t * rw + rw \<le> length ws"
    using mult_le_mono1 [of "t + 1" A rw] st len by simp
  have sb: "s * rw + rw \<le> t * rw"
    using mult_le_mono1 [of "s + 1" t rw] st by simp
  have lim: "s * rw < u64_lim" "t * rw < u64_lim" using tb sb len assms(2) by linarith+
  define ws' where "ws' = overwrite (t * rw) (map (\<lambda>w. ws ! (t * rw + w) XOR ws ! (s * rw + w)) [0..<rw]) ws"
  have run: "zeta_offset rw stride bs ws off = (ws', Ok ())"
    using lim xor_fold [OF tb sb order_refl]
    by (simp add: zeta_offset_def Let_def checked_mul_def ws'_def flip: s_def t_def)
  have "ws' ! (b * rw + w) = (f(t := (\<lambda>w. f t w XOR f s w))) b w" if "b < A" "w < rw" for b w
  proof (cases "b = t")
    case True
    then show ?thesis
      using tb that st nth [of t w] nth [of s w] by (simp add: ws'_def nth_overwrite)
  next
    case False
    then show ?thesis
      using tb row_indices [OF that] row_outside [OF False that(2)] len nth [OF that]
      by (auto simp: ws'_def nth_overwrite)
  qed
  moreover have "length ws' = A * rw" using tb len by (simp add: ws'_def)
  ultimately show ?thesis using run by (auto simp: rows_are_def s_def t_def)
qed

lemma block_run:
  assumes "rows_are A rw ws f" "A * rw < u64_lim" "0 < stride" "bs + 2 * stride \<le> A"
  shows "\<exists>ws'. for_each_st (zeta_offset rw stride bs) ws [0..<stride] = (ws', Ok ()) \<and>
    rows_are A rw ws' (\<lambda>b w. if bs + stride \<le> b \<and> b < bs + 2 * stride
                             then f b w XOR f (b - stride) w else f b w)"
proof -
  have "\<exists>ws'. for_each_st (zeta_offset rw stride bs) ws [0..<k] = (ws', Ok ()) \<and>
    rows_are A rw ws' (\<lambda>b w. if bs + stride \<le> b \<and> b < bs + stride + k
                             then f b w XOR f (b - stride) w else f b w)"
    if "k \<le> stride" for k
    using that
  proof (induction k)
    case 0
    then show ?case using assms(1) by (auto simp: rows_are_def)
  next
    case (Suc k)
    let ?g = "\<lambda>b w. if bs + stride \<le> b \<and> b < bs + stride + k then f b w XOR f (b - stride) w else f b w"
    obtain w1 where w1: "for_each_st (zeta_offset rw stride bs) ws [0..<k] = (w1, Ok ())"
      "rows_are A rw w1 ?g"
      using Suc by auto
    have "bs + k + stride < A" using assms(4) Suc.prems by simp
    from zeta_offset_run [OF w1(2) assms(2,3) this] obtain w2 where
      w2: "zeta_offset rw stride bs w1 k = (w2, Ok ())"
      "rows_are A rw w2 (?g(bs + k + stride := (\<lambda>w. ?g (bs + k + stride) w XOR ?g (bs + k) w)))"
      by blast
    have "for_each_st (zeta_offset rw stride bs) ws [0..<Suc k] = (w2, Ok ())"
      using w1(1) w2(1) by (simp add: for_each_st_append)
    moreover have "rows_are A rw w2 (\<lambda>b w. if bs + stride \<le> b \<and> b < bs + stride + Suc k
        then f b w XOR f (b - stride) w else f b w)"
      using Suc.prems by (intro rows_are_cong [OF w2(2)]) (auto simp: less_Suc_eq add_ac)
    ultimately show ?case by blast
  qed
  from this [of stride] show ?thesis by (simp add: mult_2 add.assoc)
qed

lemma odd_block:
  assumes "q * (2 * stride) \<le> b" "b < q * (2 * stride) + 2 * stride" "0 < (stride :: nat)"
  shows "odd (b div stride) \<longleftrightarrow> q * (2 * stride) + stride \<le> b"
proof -
  define r where "r = b - q * (2 * stride)"
  have b: "b = r + (2 * q) * stride" and r: "r < 2 * stride" using assms by (simp_all add: r_def)
  have "b div stride = 2 * q + r div stride" unfolding b using assms(3) by simp
  moreover have "r div stride = (if stride \<le> r then 1 else 0)"
    using r assms(3) by (auto intro: div_nat_eqI)
  ultimately show ?thesis using assms(1) by (auto simp: b)
qed

lemma zeta_blocks_run:
  assumes "rows_are A rw ws f" "A * rw < u64_lim" "A < u64_lim" "0 < stride" "A = m * (2 * stride)" "q \<le> m"
  shows "\<exists>ws'. zeta_blocks A rw stride (2 * stride) (q * (2 * stride)) ws = Some (ws', Ok ()) \<and>
    rows_are A rw ws' (\<lambda>b w. if q * (2 * stride) \<le> b \<and> odd (b div stride)
                             then f b w XOR f (b - stride) w else f b w)"
  using assms(1,6)
proof (induction "m - q" arbitrary: q ws f)
  case 0
  then have "q * (2 * stride) = A" using assms(5) by simp
  then show ?case
    using 0 by (subst zeta_blocks.simps) (auto elim: rows_are_cong)
next
  case (Suc d)
  define bs where "bs = q * (2 * stride)"
  have q: "q < m" "d = m - Suc q" using Suc by simp_all
  have "Suc q * (2 * stride) \<le> m * (2 * stride)" using q by (intro mult_le_mono1) simp
  then have room: "bs + 2 * stride \<le> A" by (simp add: bs_def assms(5))
  let ?g = "\<lambda>b w. if bs + stride \<le> b \<and> b < bs + 2 * stride then f b w XOR f (b - stride) w else f b w"
  obtain w1 where w1: "for_each_st (zeta_offset rw stride bs) ws [0..<stride] = (w1, Ok ())"
    "rows_are A rw w1 ?g"
    using block_run [OF Suc.prems(1) assms(2,4) room] by blast
  obtain w2 where w2: "zeta_blocks A rw stride (2 * stride) (Suc q * (2 * stride)) w1 = Some (w2, Ok ())"
    "rows_are A rw w2 (\<lambda>b w. if Suc q * (2 * stride) \<le> b \<and> odd (b div stride)
       then ?g b w XOR ?g (b - stride) w else ?g b w)"
    using Suc.hyps(1) [OF q(2) w1(2)] q(1) by auto
  have lt: "bs < A" using room assms(4) by simp
  have nxt: "bs + 2 * stride = Suc q * (2 * stride)" by (simp add: bs_def)
  have run: "zeta_blocks A rw stride (2 * stride) bs ws = Some (w2, Ok ())"
    using lt room assms(3,4) w1(1) w2(1)
    by (subst zeta_blocks.simps) (simp add: checked_add_def lt nxt del: mult_Suc)
  have eqv: "(if Suc q * (2 * stride) \<le> b \<and> odd (b div stride) then ?g b w XOR ?g (b - stride) w else ?g b w) =
      (if bs \<le> b \<and> odd (b div stride) then f b w XOR f (b - stride) w else f b w)" if "b < A" for b w
  proof (cases "bs + 2 * stride \<le> b")
    case True
    have "bs + 2 * stride \<le> b - stride" if odd: "odd (b div stride)"
    proof (rule ccontr)
      assume "\<not> bs + 2 * stride \<le> b - stride"
      then have "b < Suc q * (2 * stride) + 2 * stride" "b < Suc q * (2 * stride) + stride"
        using True nxt by linarith+
      moreover have "Suc q * (2 * stride) \<le> b" using True nxt by simp
      ultimately show False using odd_block [of "Suc q" stride b] odd assms(4) by linarith
    qed
    then show ?thesis using True nxt by (auto simp: not_less simp del: mult_Suc)
  next
    case False
    then show ?thesis
      using odd_block [of q stride b] assms(4) nxt by (auto simp: bs_def [symmetric] not_le simp del: mult_Suc)
  qed
  have "rows_are A rw w2 (\<lambda>b w. if bs \<le> b \<and> odd (b div stride) then f b w XOR f (b - stride) w else f b w)"
    by (rule rows_are_cong [OF w2(2)]) (rule eqv)
  with run show ?case unfolding bs_def by blast
qed

lemma zeta_stages_run:
  assumes "rows_are (2 ^ m) rw ws (zeta k f)" "2 ^ m * rw < u64_lim" "2 ^ m < u64_lim" "k \<le> m"
  shows "\<exists>ws'. zeta_stages (2 ^ m) rw (2 ^ k) ws = Some (ws', Ok ()) \<and> rows_are (2 ^ m) rw ws' (zeta m f)"
  using assms(1,4)
proof (induction "m - k" arbitrary: k ws)
  case 0
  then show ?case by (subst zeta_stages.simps) simp
next
  case (Suc d)
  then have k: "k < m" "d = m - Suc k" by simp_all
  have A: "(2 :: nat) ^ m = 2 ^ (m - Suc k) * (2 * 2 ^ k)"
  proof -
    have "(2 :: nat) ^ m = 2 ^ (m - Suc k + Suc k)" using k by simp
    then show ?thesis by (simp only: power_add power_Suc)
  qed
  have lt: "(2 :: nat) ^ k < 2 ^ m" and fits: "(2 :: nat) ^ k * 2 \<le> 2 ^ m"
    using k power_increasing [of "Suc k" m "2 :: nat"] by simp_all
  obtain w1 where w1: "zeta_blocks (2 ^ m) rw (2 ^ k) (2 * 2 ^ k) 0 ws = Some (w1, Ok ())"
    "rows_are (2 ^ m) rw w1 (\<lambda>b w. if odd (b div 2 ^ k) then zeta k f b w XOR zeta k f (b - 2 ^ k) w else zeta k f b w)"
    using zeta_blocks_run [OF Suc.prems(1) assms(2,3) _ A, of 0] by auto
  have "rows_are (2 ^ m) rw w1 (zeta (Suc k) f)"
    by (rule rows_are_cong [OF w1(2)]) (simp add: butterfly_def bit_iff_odd)
  then obtain w2 where "zeta_stages (2 ^ m) rw (2 ^ Suc k) w1 = Some (w2, Ok ())"
    "rows_are (2 ^ m) rw w2 (zeta m f)"
    using Suc.hyps(1) [OF k(2)] k(1) by auto
  then show ?case
    using w1(1) lt fits assms(3)
    by (subst zeta_stages.simps) (simp add: checked_mul_def mult.commute [of "2 ^ k" 2])
qed

section \<open>The session\<close>

lemma trailing_zeros_pow: "trailing_zeros (2 ^ m) = m"
proof (induction m)
  case 0
  then show ?case by (simp add: trailing_zeros.simps [of "Suc 0"])
next
  case (Suc m)
  then show ?case by (simp add: trailing_zeros.simps [of "2 * 2 ^ m"])
qed

text \<open>What one execution does to a session whose words are a canonical bank.  The bound on the number
  of words is that of a vector: at most \<open>isize::MAX\<close> bytes.\<close>

lemma canonical_rows_are:
  assumes "rows_are A rw ws f" "rows_are A rw ws' (zeta m f)" "A = 2 ^ m" "canonical_rows ws A rw g"
  shows "canonical_rows ws' A rw g"
proof -
  have "\<not> bit (zeta m f a (n div 64)) (n mod 64)" if a: "a < A" and n: "g \<le> n" "n < 64 * rw" for a n
  proof -
    have "n div 64 < rw" using n by (simp add: less_mult_imp_div_less mult.commute)
    then have "\<not> bit (f b (n div 64)) (n mod 64)" if "b < A" for b
      using assms(1,4) that n by (auto simp: canonical_rows_def row_bit_def rows_are_def)
    then have "{b \<in> masks m a. bit (f b (n div 64)) (n mod 64)} = {}"
      using masks_all [of a m] a assms(3) by auto
    then show ?thesis by (simp only: zeta_parity card.empty even_zero not_not)
  qed
  moreover have "length ws' = A * rw" using assms(2) by (simp add: rows_are_def)
  ultimately show ?thesis
    using assms(2) by (auto simp: canonical_rows_def row_bit_def rows_are_def less_mult_imp_div_less mult.commute)
qed

definition session_ok :: "pvp_session \<Rightarrow> bool" where
  "session_ok s \<longleftrightarrow>
     pvp_wf (ses_layout s) \<and> (\<exists>c. pvp_snapshot s = Ok c) \<and> length (ses_words s) * 8 < u64_lim \<and>
     ses_executions s < u64_lim"

lemma execute_spec:
  assumes "session_ok s" "ses_executions s + 1 < u64_lim" "pvp_addresses (ses_layout s) = 2 ^ m"
  defines "rw \<equiv> row_words (ses_layout s) CpuU64"
  shows "\<exists>f s' st. execute_subset_zeta s = Some (s', Ok st) \<and> session_ok s' \<and>
    ses_layout s' = ses_layout s \<and> ses_executions s' = ses_executions s + 1 \<and>
    rows_are (2 ^ m) rw (ses_words s) f \<and> rows_are (2 ^ m) rw (ses_words s') (zeta m f) \<and>
    stats_stages st = m \<and> logical_gate_xor_ops st = 2 ^ m div 2 * m * pvp_gates (ses_layout s) \<and>
    packed_u64_updates st = 2 ^ m div 2 * m * rw \<and> execution_index st = ses_executions s' \<and>
    state_words st = length (ses_words s') \<and> state_bytes st = 8 * length (ses_words s')"
proof -
  define l ws where "l = ses_layout s" and "ws = ses_words s"
  have wf: "pvp_wf l" and A: "pvp_addresses l = 2 ^ m" using assms by (simp_all add: session_ok_def l_def)
  obtain c where "pvp_cpu_new l ws = Ok c"
    using assms(1) by (auto simp: session_ok_def pvp_snapshot_def l_def ws_def)
  then have new: "pvp_gates l + 63 < u64_lim" "canonical_rows ws (2 ^ m) rw (pvp_gates l)"
    using A by (simp_all add: pvp_cpu_new_Ok [OF wf] rw_def flip: l_def)
  have W: "words_per_address l CpuU64 = Ok rw"
    using new(1) by (simp add: words_per_address_Ok rw_def row_words_def l_def)
  have lim: "2 ^ m * rw < u64_lim" "2 ^ m < u64_lim"
  proof -
    show "2 ^ m * rw < u64_lim" using row_words_bounds(3) [OF wf, of CpuU64] A by (simp add: rw_def l_def)
    have "2 ^ m * 1 \<le> 2 ^ m * pvp_gates l" using wf by (intro mult_le_mono2) (simp add: pvp_wf_def Suc_le_eq)
    also have "\<dots> < u64_lim" using wf A by (simp add: pvp_wf_def)
    finally show "2 ^ m < u64_lim" by simp
  qed
  have len: "length ws = 2 ^ m * rw" using new(2) by (simp add: canonical_rows_def)
  define f where "f b w = ws ! (b * rw + w)" for b w
  have rows: "rows_are (2 ^ m) rw ws f" using len by (simp add: rows_are_def f_def)
  obtain ws' where run: "zeta_stages (2 ^ m) rw 1 ws = Some (ws', Ok ())" "rows_are (2 ^ m) rw ws' (zeta m f)"
    using zeta_stages_run [of m rw ws 0 f] rows lim by auto
  have canon: "canonical_rows ws' (2 ^ m) rw (pvp_gates l)"
    using canonical_rows_are [OF rows run(2) refl new(2)] .
  then have len': "length ws' = 2 ^ m * rw" by (simp add: canonical_rows_def)
  have snap: "pvp_cpu_new l ws' = Ok \<lparr>cpu_layout = l, cpu_words = ws'\<rparr>"
    using canon new(1) A by (simp add: pvp_cpu_new_Ok [OF wf] rw_def flip: l_def)
  have S: "storage_words l CpuU64 = Ok (2 ^ m * rw)" using W lim by (simp add: storage_words_Ok A)
  have bytes: "2 ^ m * rw * 8 < u64_lim" using assms(1) len by (simp add: session_ok_def ws_def)
  then have B: "storage_bytes l CpuU64 = Ok (2 ^ m * rw * 8)"
    using S by (simp add: storage_bytes_def overflow_or_def checked_mul_def)
  let ?s' = "s\<lparr>ses_words := ws', ses_executions := ses_executions s + 1\<rparr>"
  have "execute_subset_zeta s = Some (?s', Ok \<lparr>stats_stages = m,
      logical_gate_xor_ops = 2 ^ m div 2 * m * pvp_gates l, packed_u64_updates = 2 ^ m div 2 * m * rw,
      state_words = 2 ^ m * rw, state_bytes = 2 ^ m * rw * 8, scratch_words = 0,
      execution_index = ses_executions s + 1\<rparr>)"
    using W run(1) snap S B assms(2) A
    by (simp add: execute_subset_zeta_def zeta_finish_def Let_def checked_add_def pvp_stages_def
        trailing_zeros_pow flip: l_def ws_def)
  moreover have "session_ok ?s'"
    using assms(1,2) snap bytes len' by (simp add: session_ok_def pvp_snapshot_def l_def mult.commute)
  ultimately show ?thesis
    using rows run(2) len' by (auto simp: l_def ws_def)
qed

definition session_bit :: "pvp_session \<Rightarrow> nat \<Rightarrow> nat \<Rightarrow> bool" where
  "session_bit s = row_bit (ses_words s) (row_words (ses_layout s) CpuU64)"

section \<open>Properties\<close>

text \<open>C16. Executing the transform terminates without error on any valid resident bank, and computes the
  subset-zeta transform over GF(2): gate \<open>n\<close> of address \<open>a\<close> becomes the parity of gate \<open>n\<close> over all
  submasks \<open>b\<close> of \<open>a\<close>.  The bank stays canonical, the execution is counted, and the reported numbers
  of XOR operations and words are those of the butterfly.\<close>

theorem subset_zeta_correct:
  assumes "session_ok s" "ses_executions s + 1 < u64_lim"
  shows "\<exists>s' st c. execute_subset_zeta s = Some (s', Ok st) \<and> pvp_snapshot s' = Ok c \<and>
    ses_executions s' = ses_executions s + 1 \<and>
    (\<forall>a < pvp_addresses (ses_layout s). \<forall>n < pvp_gates (ses_layout s).
       session_bit s' a n =
         odd (card {b. b < pvp_addresses (ses_layout s) \<and> b AND a = b \<and> session_bit s b n})) \<and>
    logical_gate_xor_ops st =
      pvp_addresses (ses_layout s) div 2 * stats_stages st * pvp_gates (ses_layout s) \<and>
    2 ^ stats_stages st = pvp_addresses (ses_layout s) \<and>
    state_bytes st = 8 * length (ses_words s')"
proof -
  obtain m where A: "pvp_addresses (ses_layout s) = 2 ^ m"
    using assms(1) by (auto simp: session_ok_def pvp_wf_def is_power_of_two_iff)
  define rw where "rw = row_words (ses_layout s) CpuU64"
  obtain f s' st where ex: "execute_subset_zeta s = Some (s', Ok st)" "session_ok s'"
    "ses_layout s' = ses_layout s" "ses_executions s' = ses_executions s + 1"
    "rows_are (2 ^ m) rw (ses_words s) f" "rows_are (2 ^ m) rw (ses_words s') (zeta m f)"
    "stats_stages st = m" "logical_gate_xor_ops st = 2 ^ m div 2 * m * pvp_gates (ses_layout s)"
    "state_bytes st = 8 * length (ses_words s')"
    using execute_spec [OF assms A] unfolding rw_def by blast
  have gw: "pvp_gates (ses_layout s) \<le> 64 * rw"
    using row_words_bounds(2) [of "ses_layout s" CpuU64] assms(1) by (simp add: session_ok_def rw_def)
  have bits: "session_bit s b n = bit (f b (n div 64)) (n mod 64)"
    "session_bit s' b n = bit (zeta m f b (n div 64)) (n mod 64)"
    if "b < 2 ^ m" "n < pvp_gates (ses_layout s)" for b n
  proof -
    have "n div 64 < rw" using that(2) gw by (simp add: less_mult_imp_div_less mult.commute)
    then show "session_bit s b n = bit (f b (n div 64)) (n mod 64)"
      "session_bit s' b n = bit (zeta m f b (n div 64)) (n mod 64)"
      using ex(3,5,6) that(1) by (simp_all add: session_bit_def row_bit_def rows_are_def flip: rw_def)
  qed
  have "session_bit s' a n = odd (card {b. b < 2 ^ m \<and> b AND a = b \<and> session_bit s b n})"
    if "a < 2 ^ m" "n < pvp_gates (ses_layout s)" for a n
  proof -
    have "{b \<in> masks m a. bit (f b (n div 64)) (n mod 64)} =
        {b. b < 2 ^ m \<and> b AND a = b \<and> session_bit s b n}"
      using masks_all [OF that(1)] bits(1) [OF _ that(2)] by auto
    then show ?thesis using bits(2) [OF that] by (simp add: zeta_parity)
  qed
  moreover obtain c where "pvp_snapshot s' = Ok c" using ex(2) by (auto simp: session_ok_def)
  ultimately show ?thesis
    using ex A by (intro exI [of _ s'] exI [of _ st] exI [of _ c]) simp
qed

definition demo_session :: pvp_session where
  "demo_session = pvp_session_new \<lparr>cpu_layout = demo_layout, cpu_words = [5, 2]\<rparr>"

lemma demo_session_ok: "session_ok demo_session"
  using demo_bank_new demo_layout_new
  by (auto simp: session_ok_def demo_session_def pvp_session_new_def pvp_snapshot_def u64_lim_def
      dest: pvp_layout_new_Ok [THEN iffD1])

theorem subset_zeta_correct_witness:
  "\<exists>s' st. execute_subset_zeta demo_session = Some (s', Ok st) \<and> ses_executions s' = 1 \<and>
     logical_gate_xor_ops st = 2 div 2 * stats_stages st * 3"
proof -
  have "ses_executions demo_session + 1 < u64_lim"
    by (simp add: demo_session_def pvp_session_new_def u64_lim_def)
  from subset_zeta_correct [OF demo_session_ok this] show ?thesis
    by (fastforce simp: demo_session_def pvp_session_new_def demo_layout_def)
qed

text \<open>The transform is its own inverse: executing it twice restores every word of the bank.\<close>

theorem subset_zeta_self_inverse:
  assumes "session_ok s" "ses_executions s + 2 < u64_lim"
  shows "\<exists>s1 st1 s2 st2. execute_subset_zeta s = Some (s1, Ok st1) \<and>
    execute_subset_zeta s1 = Some (s2, Ok st2) \<and> ses_words s2 = ses_words s"
proof -
  obtain m where A: "pvp_addresses (ses_layout s) = 2 ^ m"
    using assms(1) by (auto simp: session_ok_def pvp_wf_def is_power_of_two_iff)
  define rw where "rw = row_words (ses_layout s) CpuU64"
  have e: "ses_executions s + 1 < u64_lim" using assms(2) by simp
  obtain f s1 st1 where ex1: "execute_subset_zeta s = Some (s1, Ok st1)" "session_ok s1"
    "ses_layout s1 = ses_layout s" "ses_executions s1 = ses_executions s + 1"
    "rows_are (2 ^ m) rw (ses_words s) f" "rows_are (2 ^ m) rw (ses_words s1) (zeta m f)"
    using execute_spec [OF assms(1) e A] unfolding rw_def by blast
  have A1: "pvp_addresses (ses_layout s1) = 2 ^ m" and e1: "ses_executions s1 + 1 < u64_lim"
    using ex1 A assms(2) by simp_all
  obtain g s2 st2 where ex2: "execute_subset_zeta s1 = Some (s2, Ok st2)"
    "rows_are (2 ^ m) rw (ses_words s1) g" "rows_are (2 ^ m) rw (ses_words s2) (zeta m g)"
    using execute_spec [OF ex1(2) e1 A1] unfolding rw_def ex1(3) by blast
  have zw: "zeta m g a w = f a w" if "a < 2 ^ m" "w < rw" for a w
  proof -
    have same: "g b w = zeta m f b w" if "b < 2 ^ m" for b
      using ex1(6) ex2(2) that \<open>w < rw\<close> by (simp add: rows_are_def)
    have "zeta m g a w = zeta m (zeta m f) a w"
    proof (rule bit_word_eqI)
      fix n
      have "{b \<in> masks m a. bit (g b w) n} = {b \<in> masks m a. bit (zeta m f b w) n}"
        using same masks_all [OF that(1)] by auto
      then show "bit (zeta m g a w) n = bit (zeta m (zeta m f) a w) n"
        by (simp only: zeta_parity)
    qed
    then show ?thesis by (simp add: zeta_involution)
  qed
  have "ses_words s2 = ses_words s"
  proof (rule nth_equalityI)
    show "length (ses_words s2) = length (ses_words s)"
      using ex1(5) ex2(3) by (simp add: rows_are_def)
  next
    fix i assume "i < length (ses_words s2)"
    then have i: "i < 2 ^ m * rw" using ex2(3) by (simp add: rows_are_def)
    then have rw: "0 < rw" by (cases rw) auto
    have a: "i div rw < 2 ^ m" and w: "i mod rw < rw"
      using i rw by (simp_all add: less_mult_imp_div_less)
    have "ses_words s2 ! (i div rw * rw + i mod rw) = ses_words s ! (i div rw * rw + i mod rw)"
      using ex1(5) ex2(3) zw [OF a w] a w by (metis rows_are_def)
    then show "ses_words s2 ! i = ses_words s ! i" by simp
  qed
  with ex1(1) ex2(1) show ?thesis by blast
qed

theorem subset_zeta_self_inverse_witness:
  "\<exists>s1 st1 s2 st2. execute_subset_zeta demo_session = Some (s1, Ok st1) \<and>
     execute_subset_zeta s1 = Some (s2, Ok st2) \<and> ses_words s2 = [5, 2]"
proof -
  have "ses_executions demo_session + 2 < u64_lim"
    by (simp add: demo_session_def pvp_session_new_def u64_lim_def)
  from subset_zeta_self_inverse [OF demo_session_ok this] show ?thesis
    by (simp add: demo_session_def pvp_session_new_def)
qed

end
