(* ===== verification/CpuBackend.thy ===== *)
theory CpuBackend
  imports Portable
begin

text \<open>
  \<open>nnis-cpu/src/lib.rs\<close>: the CPU reference backend - device admission, byte buffers, and the
  queue's write, read and copy, all checked before anything is mutated.  The locale \<open>byte_store\<close> is the
  contract of \<open>PortableQueue\<close> that its users rely on (what is read is what was last written there);
  it is interpreted on the CPU buffers.
\<close>

section \<open>The interface\<close>

locale byte_store =
  fixes contents :: "'b \<Rightarrow> u8 list"
    and readable :: "'b \<Rightarrow> bool"
    and writable :: "'b \<Rightarrow> bool"
    and hosts :: "nat \<Rightarrow> bool"
    and rd :: "'b \<Rightarrow> nat \<Rightarrow> nat \<Rightarrow> 'e + u8 list"
    and wr :: "'b \<Rightarrow> nat \<Rightarrow> u8 list \<Rightarrow> 'b \<times> ('e + unit)"
  assumes read_Ok: "length (contents b) < u64_lim \<Longrightarrow>
      rd b off n = Ok bs \<longleftrightarrow>
        readable b \<and> hosts n \<and> off + n \<le> length (contents b) \<and> bs = slice off n (contents b)"
    and write_Ok: "length (contents b) < u64_lim \<Longrightarrow>
      snd (wr b off bs) = Ok () \<longleftrightarrow> writable b \<and> off + length bs \<le> length (contents b)"
    and write_contents: "length (contents b) < u64_lim \<Longrightarrow>
      contents (fst (wr b off bs)) =
        (if writable b \<and> off + length bs \<le> length (contents b) then overwrite off bs (contents b)
         else contents b)"
    and write_modes: "readable (fst (wr b off bs)) = readable b"
      "writable (fst (wr b off bs)) = writable b"
begin

lemma write_length:
  "length (contents b) < u64_lim \<Longrightarrow> length (contents (fst (wr b off bs))) = length (contents b)"
  by (simp add: write_contents)

lemma read_after_write:
  assumes "length (contents b) < u64_lim" "wr b off bs = (b', Ok ())" "readable b" "hosts (length bs)"
  shows "rd b' off (length bs) = Ok bs"
proof -
  have w: "writable b \<and> off + length bs \<le> length (contents b)"
    using write_Ok [OF assms(1), of off bs] assms(2) by simp
  then have c: "contents b' = overwrite off bs (contents b)"
    using write_contents [OF assms(1), of off bs] assms(2) by simp
  moreover have "readable b'" using write_modes(1) [of b off bs] assms(2,3) by simp
  moreover have "length (contents b') < u64_lim"
    using write_length [OF assms(1), of off bs] assms(1,2) by simp
  ultimately show ?thesis
    using w assms(4) by (simp add: read_Ok slice_overwrite_same)
qed

lemma read_frame:
  assumes "length (contents b) < u64_lim" "fst (wr b off bs) = b'"
    and "s + n \<le> off \<or> off + length bs \<le> s"
  shows "rd b' s n = Ok r \<longleftrightarrow> rd b s n = Ok r"
proof -
  have len: "length (contents b') = length (contents b)" using write_length [OF assms(1)] assms(2) by auto
  have mode: "readable b' = readable b" using write_modes(1) assms(2) by blast
  have "s + n \<le> length (contents b) \<Longrightarrow> slice s n (contents b') = slice s n (contents b)"
    using write_contents [OF assms(1), of off bs] assms(2,3) by (auto simp: slice_overwrite_disjoint)
  then show ?thesis
    using assms(1) len mode by (auto simp: read_Ok)
qed

lemma failed_write:
  "length (contents b) < u64_lim \<Longrightarrow> wr b off bs = (b', Err e) \<Longrightarrow> contents b' = contents b"
  using write_contents [of b off bs] write_Ok [of b off bs] by (auto split: if_splits)

text \<open>Writes to disjoint ranges commute.\<close>

lemma writes_commute:
  assumes "length (contents b) < u64_lim" "off + length bs \<le> s \<or> s + length cs \<le> off"
  shows "contents (fst (wr (fst (wr b off bs)) s cs)) =
    contents (fst (wr (fst (wr b s cs)) off bs))"
proof -
  let ?n = "length (contents b)"
  have *: "overwrite s cs (overwrite off bs xs) = overwrite off bs (overwrite s cs xs)"
    if "off + length bs \<le> length xs" "s + length cs \<le> length xs" for xs :: "u8 list"
    using that assms(2) by (intro nth_equalityI) (auto simp: nth_overwrite)
  show ?thesis
    using assms(1) * [of "contents b"] by (simp add: write_contents write_modes write_length)
qed

end

section \<open>Device\<close>

definition ISIZE_MAX :: nat where "ISIZE_MAX = 9223372036854775807"

record cpu_device =
  dev_backend_id :: backend_id
  dev_capabilities :: capability_set

definition cpu_device_with_max :: "nat \<Rightarrow> portable_error + cpu_device" where
  "cpu_device_with_max max_bytes =
     (if max_bytes = 0 \<or> max_bytes > ISIZE_MAX then
        Err (InvalidDescriptor ''CPU buffer limit must be positive and fit isize::MAX bytes'')
      else
        and_then (backend_id_new Cpu (lit ''nnis-cpu-reference'')) (\<lambda>bid.
        and_then (capability_validate
            \<lparr>max_buffer_bytes = max_bytes, max_workgroup_invocations = 1, max_workgroup_size = [1, 1, 1],
             max_bindings = 1, supports_f16 = False, supports_timestamps = False\<rparr>) (\<lambda>caps.
          Ok \<lparr>dev_backend_id = bid, dev_capabilities = caps\<rparr>)))"

definition cpu_device_new :: "portable_error + cpu_device" where
  "cpu_device_new = cpu_device_with_max ISIZE_MAX"

section \<open>Buffers and the queue\<close>

record cpu_buffer =
  buf_descriptor :: buffer_desc
  buf_bytes :: "u8 list"

text \<open>\<open>alloc n\<close> is the allocator's answer to reserving \<open>n\<close> bytes: no error, or its message.\<close>

definition reserve_bytes :: "(nat \<Rightarrow> rstr option) \<Rightarrow> nat \<Rightarrow> portable_error + u8 list" where
  "reserve_bytes alloc size_n =
     (case alloc size_n of
        Some message \<Rightarrow> Err (Backend (lit ''CPU byte reservation failed: '' @ message))
      | None \<Rightarrow> Ok [])"

definition create_buffer ::
  "(nat \<Rightarrow> rstr option) \<Rightarrow> cpu_device \<Rightarrow> buffer_desc \<Rightarrow> portable_error + cpu_buffer" where
  "create_buffer alloc dev desc =
     and_then (buffer_desc_new (size_bytes desc) (usages desc) (memory desc)) (\<lambda>d.
       if size_bytes d > max_buffer_bytes (dev_capabilities dev) then
         Err (Unsupported (lit ''buffer exceeds CPU backend capability''))
       else if memory d = DeviceLocal then
         Err (Unsupported (lit ''CPU reference backend does not expose DeviceLocal memory''))
       else
         and_then (ok_or (Unsupported (lit ''buffer size does not fit host address space''))
             (usize_of_u64 (size_bytes d))) (\<lambda>n.
         and_then (reserve_bytes alloc n) (\<lambda>bytes.
           Ok \<lparr>buf_descriptor = d, buf_bytes = bytes @ replicate (n - length bytes) 0\<rparr>)))"

definition require_usage :: "cpu_buffer \<Rightarrow> buffer_usages \<Rightarrow> string \<Rightarrow> portable_error + unit" where
  "require_usage b required operation =
     (if \<not> usage_contains (usages (buf_descriptor b)) required then
        Err (Unsupported (lit operation @ lit '' requires buffer usage bits '' @ dec (unat required)))
      else Ok ())"

definition checked_range :: "nat \<Rightarrow> nat \<Rightarrow> nat \<Rightarrow> portable_error + (nat \<times> nat)" where
  "checked_range total_n off n =
     (let e = OutOfBounds off n total_n in
      and_then (ok_or e (usize_of_u64 off)) (\<lambda>start.
      and_then (ok_or e (usize_of_u64 n)) (\<lambda>size_n.
      and_then (ok_or e (checked_add start size_n)) (\<lambda>end_pos.
        if end_pos > total_n then Err e else Ok (start, end_pos)))))"

definition write_checked :: "cpu_buffer \<Rightarrow> nat \<Rightarrow> u8 list \<Rightarrow> portable_error + nat" where
  "write_checked b off bytes =
     and_then (require_usage b usage_copy_dst ''CPU buffer write'') (\<lambda>_.
     and_then (ok_or (Backend (lit ''write size does not fit u64'')) (u64_of_usize (length bytes))) (\<lambda>n.
     and_then (checked_range (length (buf_bytes b)) off n) (\<lambda>(start, _). Ok start)))"

definition write_buffer :: "cpu_buffer \<Rightarrow> nat \<Rightarrow> u8 list \<Rightarrow> cpu_buffer \<times> (portable_error + unit)" where
  "write_buffer b off bytes =
     (case write_checked b off bytes of
        Inl e \<Rightarrow> (b, Err e)
      | Inr start \<Rightarrow> (b\<lparr>buf_bytes := overwrite start bytes (buf_bytes b)\<rparr>, Ok ()))"

definition read_buffer ::
  "(nat \<Rightarrow> rstr option) \<Rightarrow> cpu_buffer \<Rightarrow> nat \<Rightarrow> nat \<Rightarrow> portable_error + u8 list" where
  "read_buffer alloc b off n =
     and_then (require_usage b usage_copy_src ''CPU buffer read'') (\<lambda>_.
     and_then (checked_range (length (buf_bytes b)) off n) (\<lambda>(start, end_pos).
     and_then (reserve_bytes alloc (end_pos - start)) (\<lambda>result.
       Ok (result @ slice start (end_pos - start) (buf_bytes b)))))"

definition copy_checked ::
  "cpu_buffer \<Rightarrow> nat \<Rightarrow> cpu_buffer \<Rightarrow> nat \<Rightarrow> nat \<Rightarrow> portable_error + ((nat \<times> nat) \<times> (nat \<times> nat))" where
  "copy_checked src src_off dst dst_off n =
     and_then (require_usage src usage_copy_src ''CPU copy source'') (\<lambda>_.
     and_then (require_usage dst usage_copy_dst ''CPU copy destination'') (\<lambda>_.
     and_then (checked_range (length (buf_bytes src)) src_off n) (\<lambda>sr.
     and_then (checked_range (length (buf_bytes dst)) dst_off n) (\<lambda>dr. Ok (sr, dr)))))"

definition copy_buffer ::
  "cpu_buffer \<Rightarrow> nat \<Rightarrow> cpu_buffer \<Rightarrow> nat \<Rightarrow> nat \<Rightarrow> cpu_buffer \<times> (portable_error + unit)" where
  "copy_buffer src src_off dst dst_off n =
     (case copy_checked src src_off dst dst_off n of
        Inl e \<Rightarrow> (dst, Err e)
      | Inr ((ss, se), (ds, de)) \<Rightarrow>
          (dst\<lparr>buf_bytes := overwrite ds (slice ss (se - ss) (buf_bytes src)) (buf_bytes dst)\<rparr>, Ok ()))"

section \<open>Success conditions\<close>

definition buf_readable :: "cpu_buffer \<Rightarrow> bool" where
  "buf_readable b \<longleftrightarrow> usage_contains (usages (buf_descriptor b)) usage_copy_src"

definition buf_writable :: "cpu_buffer \<Rightarrow> bool" where
  "buf_writable b \<longleftrightarrow> usage_contains (usages (buf_descriptor b)) usage_copy_dst"

lemma checked_range_Ok:
  "total_n < u64_lim \<Longrightarrow> checked_range total_n off n = Ok r \<longleftrightarrow> r = (off, off + n) \<and> off + n \<le> total_n"
  by (auto simp: checked_range_def Let_def split: if_splits)

lemma require_usage_Ok:
  "require_usage b u op = Ok x \<longleftrightarrow> usage_contains (usages (buf_descriptor b)) u"
  by (simp add: require_usage_def)

lemma write_checked_Ok:
  "length (buf_bytes b) < u64_lim \<Longrightarrow>
     write_checked b off bs = Ok s \<longleftrightarrow>
       s = off \<and> buf_writable b \<and> off + length bs \<le> length (buf_bytes b)"
  by (auto simp: write_checked_def require_usage_Ok buf_writable_def checked_range_Ok)

lemma read_buffer_Ok:
  "length (buf_bytes b) < u64_lim \<Longrightarrow>
     read_buffer alloc b off n = Ok bs \<longleftrightarrow>
       buf_readable b \<and> alloc n = None \<and> off + n \<le> length (buf_bytes b) \<and>
       bs = slice off n (buf_bytes b)"
  by (auto simp: read_buffer_def require_usage_Ok buf_readable_def checked_range_Ok reserve_bytes_def
      split: option.splits)

lemma write_buffer_cases:
  assumes "length (buf_bytes b) < u64_lim"
  shows "if buf_writable b \<and> off + length bs \<le> length (buf_bytes b)
    then write_buffer b off bs = (b\<lparr>buf_bytes := overwrite off bs (buf_bytes b)\<rparr>, Ok ())
    else (\<exists>e. write_buffer b off bs = (b, Err e))"
proof (cases "write_checked b off bs")
  case (Inl e)
  then have "\<not> (buf_writable b \<and> off + length bs \<le> length (buf_bytes b))"
    using write_checked_Ok [OF assms, of off bs off] by auto
  with Inl show ?thesis by (auto simp: write_buffer_def)
next
  case (Inr s)
  then show ?thesis
    using write_checked_Ok [OF assms, of off bs s] by (simp add: write_buffer_def)
qed

interpretation cpu_store: byte_store buf_bytes buf_readable buf_writable "\<lambda>n. alloc n = None"
    "read_buffer alloc" write_buffer
  for alloc
proof
  fix b :: cpu_buffer and off n and bs :: "u8 list"
  assume b: "length (buf_bytes b) < u64_lim"
  show "read_buffer alloc b off n = Ok bs \<longleftrightarrow>
      buf_readable b \<and> alloc n = None \<and> off + n \<le> length (buf_bytes b) \<and> bs = slice off n (buf_bytes b)"
    by (rule read_buffer_Ok [OF b])
  show "snd (write_buffer b off bs) = Ok () \<longleftrightarrow> buf_writable b \<and> off + length bs \<le> length (buf_bytes b)"
    and "buf_bytes (fst (write_buffer b off bs)) =
        (if buf_writable b \<and> off + length bs \<le> length (buf_bytes b) then overwrite off bs (buf_bytes b)
         else buf_bytes b)"
    using write_buffer_cases [OF b, of off bs] by (auto split: if_splits)
next
  fix b off and bs :: "u8 list"
  have "buf_descriptor (fst (write_buffer b off bs)) = buf_descriptor b"
    by (simp add: write_buffer_def split: sum.splits)
  then show "buf_readable (fst (write_buffer b off bs)) = buf_readable b"
    and "buf_writable (fst (write_buffer b off bs)) = buf_writable b"
    by (simp_all add: buf_readable_def buf_writable_def)
qed

section \<open>Properties\<close>

text \<open>Creating a buffer revalidates the public descriptor, enforces the device ceiling, and returns exactly
  the requested number of zero bytes.\<close>

theorem create_buffer_exact:
  assumes "cpu_device_with_max max_bytes = Ok dev"
  shows "create_buffer alloc dev desc = Ok b \<longleftrightarrow>
    0 < size_bytes desc \<and> usages desc \<noteq> 0 \<and> size_bytes desc \<le> max_bytes \<and>
    memory desc \<noteq> DeviceLocal \<and> alloc (size_bytes desc) = None \<and>
    b = \<lparr>buf_descriptor = desc, buf_bytes = replicate (size_bytes desc) 0\<rparr>"
proof -
  have max: "max_buffer_bytes (dev_capabilities dev) = max_bytes" "max_bytes \<le> ISIZE_MAX"
    using assms by (auto simp: cpu_device_with_max_def capability_validate_Ok split: if_splits)
  then have "size_bytes desc \<le> max_bytes \<Longrightarrow> size_bytes desc < u64_lim"
    by (simp add: ISIZE_MAX_def u64_lim_def)
  then show ?thesis
    by (auto simp: create_buffer_def buffer_desc_new_def max reserve_bytes_def split: option.splits)
qed

lemma trim_reference: "trim (lit ''nnis-cpu-reference'') \<noteq> []"
  by (simp add: trim_Nil_iff lit_def is_white_def)

lemma demo_device: "\<exists>dev. cpu_device_with_max 64 = Ok dev"
  by (simp add: cpu_device_with_max_def ISIZE_MAX_def backend_id_new_def trim_reference capability_validate_def)

definition demo_desc :: buffer_desc where
  "demo_desc = \<lparr>size_bytes = 4, usages = usage_or usage_copy_src usage_copy_dst, memory = Host\<rparr>"

lemma demo_usages: "usages demo_desc = 12"
  by (simp add: demo_desc_def usage_or_def usage_copy_src_def usage_copy_dst_def)

theorem create_buffer_exact_witness:
  "\<exists>dev. cpu_device_with_max 64 = Ok dev \<and>
     create_buffer (\<lambda>_. None) dev demo_desc = Ok \<lparr>buf_descriptor = demo_desc, buf_bytes = [0, 0, 0, 0]\<rparr>"
proof -
  obtain dev where dev: "cpu_device_with_max 64 = Ok dev" using demo_device by blast
  have "replicate 4 0 = [0, 0, 0, 0 :: u8]" by (simp add: numeral_eq_Suc)
  then have "create_buffer (\<lambda>_. None) dev demo_desc = Ok \<lparr>buf_descriptor = demo_desc, buf_bytes = [0, 0, 0, 0]\<rparr>"
    using create_buffer_exact [OF dev, of "\<lambda>_. None" demo_desc] demo_usages by (simp add: demo_desc_def)
  with dev show ?thesis by blast
qed

text \<open>Reads return what was written.  After a successful write, reading the range back gives the bytes
  written and reading any disjoint range gives what it gave before; a failed write changes no byte.\<close>

theorem cpu_queue_read_after_write:
  assumes "length (buf_bytes b) < u64_lim" "write_buffer b off bs = (b', r)"
  shows "(r = Ok () \<and> buf_readable b \<and> alloc (length bs) = None \<longrightarrow>
        read_buffer alloc b' off (length bs) = Ok bs) \<and>
    (\<forall>s n x. s + n \<le> off \<or> off + length bs \<le> s \<longrightarrow>
        read_buffer alloc b' s n = Ok x \<longleftrightarrow> read_buffer alloc b s n = Ok x) \<and>
    (r \<noteq> Ok () \<longrightarrow> buf_bytes b' = buf_bytes b)"
proof (intro conjI allI impI)
  assume "r = Ok () \<and> buf_readable b \<and> alloc (length bs) = None"
  then show "read_buffer alloc b' off (length bs) = Ok bs"
    using cpu_store.read_after_write [OF assms(1)] assms(2) by simp
next
  fix s n x assume "s + n \<le> off \<or> off + length bs \<le> s"
  then show "read_buffer alloc b' s n = Ok x \<longleftrightarrow> read_buffer alloc b s n = Ok x"
    using cpu_store.read_frame [OF assms(1)] assms(2) by (metis fst_conv)
next
  assume "r \<noteq> Ok ()"
  then obtain e where "r = Err e" by (cases r) auto
  then show "buf_bytes b' = buf_bytes b"
    using cpu_store.failed_write [OF assms(1)] assms(2) by blast
qed

definition demo_buffer :: cpu_buffer where
  "demo_buffer = \<lparr>buf_descriptor = demo_desc, buf_bytes = [0, 0, 0, 0]\<rparr>"

theorem cpu_queue_read_after_write_witness:
  "\<exists>b'. write_buffer demo_buffer 1 [7, 8] = (b', Ok ()) \<and> read_buffer (\<lambda>_. None) b' 1 2 = Ok [7, 8]"
proof -
  have len: "length (buf_bytes demo_buffer) < u64_lim" by (simp add: demo_buffer_def u64_lim_def)
  have modes: "buf_writable demo_buffer" "buf_readable demo_buffer"
    using demo_usages
    by (simp_all add: buf_writable_def buf_readable_def demo_buffer_def usage_contains_def
        usage_copy_src_def usage_copy_dst_def)
  have "snd (write_buffer demo_buffer 1 [7, 8]) = Ok ()"
    using cpu_store.write_Ok [OF len, of 1 "[7, 8]"] modes by (simp add: demo_buffer_def)
  then obtain b' where w: "write_buffer demo_buffer 1 [7, 8] = (b', Ok ())" by (metis prod.collapse)
  show ?thesis
    using cpu_queue_read_after_write [OF len w, of "\<lambda>_. None"] w modes by (auto simp: numeral_2_eq_2)
qed

text \<open>A copy succeeds exactly when both usages allow it and both ranges are in bounds; then the destination
  range holds the source range and no other byte of it changes, and otherwise nothing changes.  The
  end of a range that overflows \<open>u64\<close> is refused.\<close>

theorem cpu_copy_exact:
  assumes "length (buf_bytes src) < u64_lim" "length (buf_bytes dst) < u64_lim"
  shows "if buf_readable src \<and> buf_writable dst \<and> so + n \<le> length (buf_bytes src) \<and>
        dof + n \<le> length (buf_bytes dst)
     then copy_buffer src so dst dof n =
       (dst\<lparr>buf_bytes := overwrite dof (slice so n (buf_bytes src)) (buf_bytes dst)\<rparr>, Ok ())
     else (\<exists>e. copy_buffer src so dst dof n = (dst, Err e))"
proof -
  have "copy_checked src so dst dof n = Ok r \<longleftrightarrow>
      r = ((so, so + n), (dof, dof + n)) \<and> buf_readable src \<and> buf_writable dst \<and>
      so + n \<le> length (buf_bytes src) \<and> dof + n \<le> length (buf_bytes dst)" for r
    using assms
    by (auto simp: copy_checked_def require_usage_Ok buf_readable_def buf_writable_def checked_range_Ok)
  then show ?thesis
    by (cases "copy_checked src so dst dof n") (auto simp: copy_buffer_def split: prod.splits)
qed

theorem cpu_copy_exact_witness:
  "\<exists>e. copy_buffer demo_buffer 0 demo_buffer 3 2 = (demo_buffer, Err e)"
proof -
  have len: "length (buf_bytes demo_buffer) < u64_lim" by (simp add: demo_buffer_def u64_lim_def)
  show ?thesis using cpu_copy_exact [OF len len, of 0 2 3] by (simp add: demo_buffer_def)
qed

end
