(* ===== verification/KernelArtifact.thy ===== *)
theory KernelArtifact
  imports Portable Sha256 Identity
begin

text \<open>
  \<open>nnis-core/src/kernel_artifact.rs\<close>: the portable kernel artifact - its validation, the capability
  requirements derived from it, its SHA-256 fingerprints, and fail-closed binding to a backend.  The
  lemmas characterise what is accepted and bound, and show that the canonical descriptor that is
  fingerprinted determines every field, so two different artifacts share a fingerprint only through a
  SHA-256 collision.
\<close>

section \<open>Data\<close>

definition MAX_KERNEL_ARTIFACT_ID_BYTES :: nat where "MAX_KERNEL_ARTIFACT_ID_BYTES = 128"
definition MAX_KERNEL_ARTIFACT_BINDINGS :: nat where "MAX_KERNEL_ARTIFACT_BINDINGS = 64"
definition MAX_KERNEL_ARTIFACT_SOURCE_BYTES :: nat where
  "MAX_KERNEL_ARTIFACT_SOURCE_BYTES = 16 * 1024 * 1024"

datatype kernel_source_kind = Wgsl | PortableIr | CpuBuiltin

fun source_backend_family :: "kernel_source_kind \<Rightarrow> backend_family" where
  "source_backend_family Wgsl = Wgpu"
| "source_backend_family PortableIr = Wgpu"
| "source_backend_family CpuBuiltin = Cpu"

fun source_kind_tag :: "kernel_source_kind \<Rightarrow> u8" where
  "source_kind_tag Wgsl = 1"
| "source_kind_tag PortableIr = 2"
| "source_kind_tag CpuBuiltin = 3"

datatype kernel_binding_kind = StorageReadOnly | StorageReadWrite | UniformBinding

fun required_usage :: "kernel_binding_kind \<Rightarrow> buffer_usages" where
  "required_usage StorageReadOnly = usage_storage"
| "required_usage StorageReadWrite = usage_storage"
| "required_usage UniformBinding = usage_uniform"

fun binding_kind_tag :: "kernel_binding_kind \<Rightarrow> u8" where
  "binding_kind_tag StorageReadOnly = 1"
| "binding_kind_tag StorageReadWrite = 2"
| "binding_kind_tag UniformBinding = 3"

datatype kernel_element_type = ElemF32 | ElemF16 | ElemU32

fun element_bytes :: "kernel_element_type \<Rightarrow> nat" where
  "element_bytes ElemF32 = 4"
| "element_bytes ElemU32 = 4"
| "element_bytes ElemF16 = 2"

fun element_tag :: "kernel_element_type \<Rightarrow> u8" where
  "element_tag ElemF32 = 1"
| "element_tag ElemF16 = 2"
| "element_tag ElemU32 = 3"

record kernel_binding =
  bind_group :: nat
  bind_index :: nat
  bind_kind :: kernel_binding_kind
  bind_element :: kernel_element_type
  min_size_bytes :: nat

record artifact_fields =
  artifact_id :: rstr
  artifact_revision :: nat
  source_kind :: kernel_source_kind
  source_bytes :: "u8 list"
  entry_point :: rstr
  bindings :: "kernel_binding list"
  workgroup_size :: "nat list"
  artifact_policy :: rstr
  qualification_evidence :: "rstr option"

record kernel_requirements =
  req_family :: backend_family
  req_workgroup_size :: "nat list"
  req_invocations :: nat
  req_bindings :: nat
  req_binding_bytes :: nat
  req_f16 :: bool

record kernel_artifact =
  art_fields :: artifact_fields
  art_requirements :: kernel_requirements
  art_source_sha256 :: "u8 list"
  art_fingerprint :: "u8 list"

record bound_artifact =
  bound_id :: rstr
  bound_revision :: nat
  bound_fingerprint :: "u8 list"
  bound_backend :: backend_id
  bound_capabilities :: capability_set

datatype kernel_capability = WorkgroupSizeAxis nat | WorkgroupInvocations | Bindings | BufferBytes | F16

datatype kernel_artifact_error =
    EmptyField string
  | InvalidField string
  | ZeroArtifactRevision
  | InvalidSourceSize nat
  | SourceNotUtf8
  | InvalidEntryPoint
  | InvalidEvidenceFingerprint
  | InvalidBindingCount nat
  | UnorderedOrDuplicateBinding nat nat
  | InvalidBindingSize nat nat
  | NoWritableBinding
  | InvalidWorkgroupSize
  | CapabilityMissing kernel_capability
  | FingerprintMismatch
  | BackendFamilyMismatch

text \<open>\<open>{capability:?}\<close>.\<close>

fun debug_capability :: "kernel_capability \<Rightarrow> rstr" where
  "debug_capability (WorkgroupSizeAxis axis) = lit ''WorkgroupSize { axis: '' @ dec axis @ lit '' }''"
| "debug_capability WorkgroupInvocations = lit ''WorkgroupInvocations''"
| "debug_capability Bindings = lit ''Bindings''"
| "debug_capability BufferBytes = lit ''BufferBytes''"
| "debug_capability F16 = lit ''F16''"

fun display_artifact_error :: "kernel_artifact_error \<Rightarrow> rstr" where
  "display_artifact_error (EmptyField field) = lit field @ lit '' must not be empty''"
| "display_artifact_error (InvalidField field) = lit field @ lit '' is non-canonical or too long''"
| "display_artifact_error ZeroArtifactRevision = lit ''artifact revision must be non-zero''"
| "display_artifact_error (InvalidSourceSize bytes) =
     lit ''artifact source has '' @ dec bytes @ lit '' bytes, expected 1..='' @
     dec MAX_KERNEL_ARTIFACT_SOURCE_BYTES"
| "display_artifact_error SourceNotUtf8 = lit ''artifact source must be UTF-8''"
| "display_artifact_error InvalidEntryPoint = lit ''entry point must be an ASCII identifier''"
| "display_artifact_error InvalidEvidenceFingerprint =
     lit ''qualification evidence fingerprint must be 64 lowercase hex digits''"
| "display_artifact_error (InvalidBindingCount n) =
     lit ''artifact declares '' @ dec n @ lit '' bindings, expected 1..='' @ dec MAX_KERNEL_ARTIFACT_BINDINGS"
| "display_artifact_error (UnorderedOrDuplicateBinding g b) =
     lit ''binding ('' @ dec g @ lit '', '' @ dec b @ lit '') is out of order or duplicated''"
| "display_artifact_error (InvalidBindingSize g b) =
     lit ''binding ('' @ dec g @ lit '', '' @ dec b @ lit '') size must be non-zero and element aligned''"
| "display_artifact_error NoWritableBinding = lit ''artifact needs a read-write storage binding''"
| "display_artifact_error InvalidWorkgroupSize = lit ''workgroup size is zero or overflows''"
| "display_artifact_error (CapabilityMissing capability) =
     lit ''backend lacks required capability '' @ debug_capability capability"
| "display_artifact_error FingerprintMismatch = lit ''artifact fingerprint does not match expectation''"
| "display_artifact_error BackendFamilyMismatch =
     lit ''backend family cannot consume this artifact source kind''"

section \<open>Validation\<close>

definition artifact_validate_id :: "string \<Rightarrow> rstr \<Rightarrow> kernel_artifact_error + unit" where
  "artifact_validate_id field val =
     (let trimmed = trim val in
      if trimmed = [] then Err (EmptyField field)
      else if trimmed \<noteq> val \<or> str_len val > MAX_KERNEL_ARTIFACT_ID_BYTES then Err (InvalidField field)
      else Ok ())"

definition ascii_alpha :: "nat \<Rightarrow> bool" where
  "ascii_alpha b \<longleftrightarrow> (65 \<le> b \<and> b \<le> 90) \<or> (97 \<le> b \<and> b \<le> 122)"

definition validate_entry_point :: "rstr \<Rightarrow> kernel_artifact_error + unit" where
  "validate_entry_point val =
     (let bytes = map unat (as_bytes val);
          valid_first = (case bytes of [] \<Rightarrow> False | b # _ \<Rightarrow> ascii_alpha b \<or> b = 95)
      in if \<not> valid_first \<or> str_len val > MAX_KERNEL_ARTIFACT_ID_BYTES \<or>
           \<not> list_all (\<lambda>b. ascii_alpha b \<or> is_digit b \<or> b = 95) (tl bytes)
         then Err InvalidEntryPoint else Ok ())"

definition validate_evidence :: "rstr option \<Rightarrow> kernel_artifact_error + unit" where
  "validate_evidence e =
     (case e of
        None \<Rightarrow> Ok ()
      | Some evidence \<Rightarrow>
          if str_len evidence \<noteq> 64 \<or> \<not> list_all (\<lambda>b. is_lower_hex (unat b)) (as_bytes evidence)
          then Err InvalidEvidenceFingerprint else Ok ())"

definition binding_less :: "kernel_binding \<Rightarrow> kernel_binding \<Rightarrow> bool" where
  "binding_less a b \<longleftrightarrow>
     bind_group a < bind_group b \<or> bind_group a = bind_group b \<and> bind_index a < bind_index b"

definition binding_step ::
  "kernel_binding list \<Rightarrow> nat \<times> bool \<Rightarrow> nat \<times> kernel_binding \<Rightarrow> kernel_artifact_error + (nat \<times> bool)" where
  "binding_step bs = (\<lambda>(max_bytes, f16) (index, b).
     if index > 0 \<and> \<not> binding_less (bs ! (index - 1)) b then
       Err (UnorderedOrDuplicateBinding (bind_group b) (bind_index b))
     else if min_size_bytes b = 0 \<or> min_size_bytes b mod element_bytes (bind_element b) \<noteq> 0 then
       Err (InvalidBindingSize (bind_group b) (bind_index b))
     else Ok (max max_bytes (min_size_bytes b), f16 \<or> bind_element b = ElemF16))"

definition workgroup_product :: "nat list \<Rightarrow> nat option" where
  "workgroup_product dims =
     foldl (\<lambda>product d. case product of None \<Rightarrow> None | Some p \<Rightarrow> checked_mul32 p d) (Some 1) dims"

section \<open>Fingerprints\<close>

definition hash_text :: "sha256 \<Rightarrow> rstr \<Rightarrow> sha256" where
  "hash_text h val = sha_update (sha_update h (le_bytes 4 (as_u32 (str_len val)))) (as_bytes val)"

definition hash_binding :: "sha256 \<Rightarrow> kernel_binding \<Rightarrow> sha256" where
  "hash_binding h b =
     sha_update
       (sha_update (sha_update (sha_update h (le_bytes 4 (bind_group b))) (le_bytes 4 (bind_index b)))
         [binding_kind_tag (bind_kind b), element_tag (bind_element b)])
       (le_bytes 8 (min_size_bytes b))"

definition descriptor_fingerprint :: "artifact_fields \<Rightarrow> u8 list \<Rightarrow> u8 list" where
  "descriptor_fingerprint f source_sha =
     (let h = sha_new;
          h = sha_update h (as_bytes (lit ''nnis.portable-kernel-artifact.v1'' @ [0]));
          h = sha_update h (le_bytes 4 1);
          h = hash_text h (artifact_id f);
          h = sha_update h (le_bytes 4 (artifact_revision f));
          h = sha_update h [source_kind_tag (source_kind f)];
          h = sha_update h (le_bytes 8 (length (source_bytes f)));
          h = sha_update h source_sha;
          h = hash_text h (entry_point f);
          h = sha_update h (le_bytes 4 (as_u32 (length (bindings f))));
          h = foldl hash_binding h (bindings f);
          h = foldl (\<lambda>h d. sha_update h (le_bytes 4 d)) h (workgroup_size f);
          h = hash_text h (artifact_policy f);
          h = (case qualification_evidence f of
                 None \<Rightarrow> sha_update h [0]
               | Some e \<Rightarrow> hash_text (sha_update h [1]) e)
      in sha_finalize h)"

definition artifact_new :: "artifact_fields \<Rightarrow> kernel_artifact_error + kernel_artifact" where
  "artifact_new f =
     and_then (artifact_validate_id ''artifact_id'' (artifact_id f)) (\<lambda>_.
     if artifact_revision f = 0 then Err ZeroArtifactRevision
     else if source_bytes f = [] \<or> length (source_bytes f) > MAX_KERNEL_ARTIFACT_SOURCE_BYTES then
       Err (InvalidSourceSize (length (source_bytes f)))
     else if (source_kind f = Wgsl \<or> source_kind f = CpuBuiltin) \<and> from_utf8 (source_bytes f) = None then
       Err SourceNotUtf8
     else
       and_then (validate_entry_point (entry_point f)) (\<lambda>_.
       and_then (artifact_validate_id ''numerical_policy'' (artifact_policy f)) (\<lambda>_.
       and_then (validate_evidence (qualification_evidence f)) (\<lambda>_.
       if bindings f = [] \<or> length (bindings f) > MAX_KERNEL_ARTIFACT_BINDINGS then
         Err (InvalidBindingCount (length (bindings f)))
       else
         and_then (for_each_res (binding_step (bindings f)) (0, False) (enumerate 0 (bindings f)))
           (\<lambda>(max_bytes, f16).
         if \<not> list_ex (\<lambda>b. bind_kind b = StorageReadWrite) (bindings f) then Err NoWritableBinding
         else if 0 \<in> set (workgroup_size f) then Err InvalidWorkgroupSize
         else
           and_then (ok_or InvalidWorkgroupSize (workgroup_product (workgroup_size f))) (\<lambda>invocations.
           let requirements = \<lparr>req_family = source_backend_family (source_kind f),
                 req_workgroup_size = workgroup_size f, req_invocations = invocations,
                 req_bindings = as_u32 (length (bindings f)), req_binding_bytes = max_bytes,
                 req_f16 = f16\<rparr>;
               source_sha = sha256_digest (source_bytes f)
           in Ok \<lparr>art_fields = f, art_requirements = requirements, art_source_sha256 = source_sha,
                  art_fingerprint = descriptor_fingerprint f source_sha\<rparr>))))))"

definition artifact_fingerprint_hex :: "kernel_artifact \<Rightarrow> rstr" where
  "artifact_fingerprint_hex a = to_hex (art_fingerprint a)"

section \<open>Binding\<close>

definition check_axis :: "kernel_requirements \<Rightarrow> capability_set \<Rightarrow> nat \<Rightarrow> kernel_artifact_error + unit" where
  "check_axis r c axis =
     (if req_workgroup_size r ! axis > max_workgroup_size c ! axis then
        Err (CapabilityMissing (WorkgroupSizeAxis axis)) else Ok ())"

definition check_capabilities :: "kernel_artifact \<Rightarrow> capability_set \<Rightarrow> kernel_artifact_error + unit" where
  "check_capabilities a c =
     (let r = art_requirements a in
      and_then (check_all (check_axis r c) [0..<3]) (\<lambda>_.
        if req_invocations r > max_workgroup_invocations c then Err (CapabilityMissing WorkgroupInvocations)
        else if req_bindings r > max_bindings c then Err (CapabilityMissing Bindings)
        else if req_binding_bytes r > max_buffer_bytes c then Err (CapabilityMissing BufferBytes)
        else if req_f16 r \<and> \<not> supports_f16 c then Err (CapabilityMissing F16)
        else Ok ()))"

definition artifact_bind ::
  "kernel_artifact \<Rightarrow> backend_id \<Rightarrow> capability_set \<Rightarrow> u8 list \<Rightarrow> kernel_artifact_error + bound_artifact" where
  "artifact_bind a backend c expected =
     (if art_fingerprint a \<noteq> expected then Err FingerprintMismatch
      else if bid_family backend \<noteq> req_family (art_requirements a) then Err BackendFamilyMismatch
      else and_then (check_capabilities a c) (\<lambda>_.
        Ok \<lparr>bound_id = artifact_id (art_fields a), bound_revision = artifact_revision (art_fields a),
            bound_fingerprint = art_fingerprint a, bound_backend = backend, bound_capabilities = c\<rparr>))"

section \<open>What is accepted\<close>

definition artifact_id_ok :: "rstr \<Rightarrow> bool" where
  "artifact_id_ok s \<longleftrightarrow> id_wf MAX_KERNEL_ARTIFACT_ID_BYTES s"

lemma artifact_validate_id_Ok [simp]: "artifact_validate_id field s = Ok u \<longleftrightarrow> id_wf 128 s"
proof -
  have "artifact_validate_id field s = Ok u \<longleftrightarrow>
      validate_id_with (\<lambda>_. ()) (\<lambda>_. ()) (\<lambda>_ _. ()) 128 field s = Ok ()"
    by (auto simp: artifact_validate_id_def validate_id_with_def Let_def MAX_KERNEL_ARTIFACT_ID_BYTES_def)
  then show ?thesis by (simp add: validate_id_with_Ok)
qed

interpretation artifact_ids: id_validator artifact_validate_id 128
  by unfold_locales simp

definition entry_point_ok :: "rstr \<Rightarrow> bool" where
  "entry_point_ok s \<longleftrightarrow> is_ok (validate_entry_point s)"

definition evidence_ok :: "rstr option \<Rightarrow> bool" where
  "evidence_ok e \<longleftrightarrow> (case e of None \<Rightarrow> True
     | Some s \<Rightarrow> str_len s = 64 \<and> list_all (\<lambda>b. is_lower_hex (unat b)) (as_bytes s))"

definition binding_size_ok :: "kernel_binding \<Rightarrow> bool" where
  "binding_size_ok b \<longleftrightarrow> 0 < min_size_bytes b \<and> element_bytes (bind_element b) dvd min_size_bytes b"

lemma binding_less_transp: "transp binding_less"
  by (auto simp: transp_def binding_less_def)

lemma bindings_loop:
  "for_each_res (binding_step bs) (0, False) (enumerate 0 bs) = Ok r \<longleftrightarrow>
     sorted_wrt binding_less bs \<and> list_all binding_size_ok bs \<and>
     r = (fold max (map min_size_bytes bs) 0, list_ex (\<lambda>b. bind_element b = ElemF16) bs)"
proof -
  let ?ok = "\<lambda>(index, b). (index > 0 \<longrightarrow> binding_less (bs ! (index - 1)) b) \<and> binding_size_ok b"
  let ?g = "\<lambda>(index :: nat, b) (m, f). (max m (min_size_bytes b), f \<or> bind_element b = ElemF16)"
  let ?e = "\<lambda>(index, b). if index > 0 \<and> \<not> binding_less (bs ! (index - 1)) b
      then UnorderedOrDuplicateBinding (bind_group b) (bind_index b)
      else InvalidBindingSize (bind_group b) (bind_index b)"
  have step: "binding_step bs s x = (if ?ok x then Ok (?g x s) else Err (?e x))" for s x
    by (cases s; cases x) (auto simp: binding_step_def binding_size_ok_def dvd_eq_mod_eq_0)
  have fold: "fold ?g (enumerate n ys) (m, f) =
      (fold max (map min_size_bytes ys) m, f \<or> list_ex (\<lambda>b. bind_element b = ElemF16) ys)" for n ys m f
    by (induction ys arbitrary: n m f) (auto simp: max.commute)
  have adj: "(\<forall>i. 0 < i \<and> i < length bs \<longrightarrow> binding_less (bs ! (i - 1)) (bs ! i)) \<longleftrightarrow> sorted_wrt binding_less bs"
    unfolding sorted_wrt_iff_nth_Suc_transp [OF binding_less_transp]
    by (metis Suc_lessD diff_Suc_1 gr0_implies_Suc zero_less_Suc)
  have "(\<forall>x \<in> set (enumerate 0 bs). ?ok x) \<longleftrightarrow> sorted_wrt binding_less bs \<and> list_all binding_size_ok bs"
    unfolding adj [symmetric] by (auto simp: enumerate_map_nth list_all_length)
  then show ?thesis
    unfolding for_each_res_guarded [OF step] fold by auto
qed

lemma workgroup_product_Some:
  "list_all (\<lambda>d. 0 < d) dims \<Longrightarrow> workgroup_product dims = Some p \<longleftrightarrow> p = prod_list dims \<and> p < u32_lim"
proof (induction dims arbitrary: p rule: rev_induct)
  case Nil
  then show ?case by (auto simp: workgroup_product_def u32_lim_def)
next
  case (snoc d dims)
  have split: "workgroup_product (dims @ [d]) =
      (case workgroup_product dims of None \<Rightarrow> None | Some p \<Rightarrow> checked_mul32 p d)"
    by (simp add: workgroup_product_def)
  have le: "prod_list dims \<le> prod_list dims * d" using snoc.prems by simp
  show ?case
  proof (cases "workgroup_product dims")
    case None
    then have "\<not> prod_list dims < u32_lim" using snoc.IH [of "prod_list dims"] snoc.prems by simp
    then have "\<not> prod_list dims * d < u32_lim" using le by linarith
    then show ?thesis using split None by auto
  next
    case (Some q)
    then have "q = prod_list dims" using snoc by auto
    then show ?thesis using split Some by auto
  qed
qed

section \<open>The canonical descriptor\<close>

definition text_bytes :: "rstr \<Rightarrow> u8 list" where
  "text_bytes s = le_bytes 4 (as_u32 (str_len s)) @ as_bytes s"

definition binding_bytes :: "kernel_binding \<Rightarrow> u8 list" where
  "binding_bytes b = le_bytes 4 (bind_group b) @ le_bytes 4 (bind_index b) @
     [binding_kind_tag (bind_kind b), element_tag (bind_element b)] @ le_bytes 8 (min_size_bytes b)"

definition evidence_bytes :: "rstr option \<Rightarrow> u8 list" where
  "evidence_bytes e = (case e of None \<Rightarrow> [0] | Some s \<Rightarrow> [1] @ text_bytes s)"

definition descriptor_bytes :: "artifact_fields \<Rightarrow> u8 list \<Rightarrow> u8 list" where
  "descriptor_bytes f source_sha =
     as_bytes (lit ''nnis.portable-kernel-artifact.v1'' @ [0]) @ le_bytes 4 1 @ text_bytes (artifact_id f) @
     le_bytes 4 (artifact_revision f) @ [source_kind_tag (source_kind f)] @
     le_bytes 8 (length (source_bytes f)) @ source_sha @ text_bytes (entry_point f) @
     le_bytes 4 (as_u32 (length (bindings f))) @ concat (map binding_bytes (bindings f)) @
     concat (map (le_bytes 4) (workgroup_size f)) @ text_bytes (artifact_policy f) @
     evidence_bytes (qualification_evidence f)"

lemma hash_bindings_parts:
  "foldl hash_binding h bs = foldl sha_update h (concat (map (\<lambda>b. [le_bytes 4 (bind_group b),
     le_bytes 4 (bind_index b), [binding_kind_tag (bind_kind b), element_tag (bind_element b)],
     le_bytes 8 (min_size_bytes b)]) bs))"
  by (induction bs arbitrary: h) (simp_all add: hash_binding_def)

lemma hash_dims_parts:
  "foldl (\<lambda>h d. sha_update h (le_bytes 4 d)) h ds = foldl sha_update h (map (le_bytes 4) ds)"
  by (induction ds arbitrary: h) simp_all

lemma descriptor_fingerprint_digest:
  "descriptor_fingerprint f source_sha = sha256_spec (descriptor_bytes f source_sha)"
proof -
  define parts where "parts =
     [as_bytes (lit ''nnis.portable-kernel-artifact.v1'' @ [0]), le_bytes 4 1,
      le_bytes 4 (as_u32 (str_len (artifact_id f))), as_bytes (artifact_id f),
      le_bytes 4 (artifact_revision f), [source_kind_tag (source_kind f)],
      le_bytes 8 (length (source_bytes f)), source_sha,
      le_bytes 4 (as_u32 (str_len (entry_point f))), as_bytes (entry_point f),
      le_bytes 4 (as_u32 (length (bindings f)))] @
     concat (map (\<lambda>b. [le_bytes 4 (bind_group b), le_bytes 4 (bind_index b),
        [binding_kind_tag (bind_kind b), element_tag (bind_element b)], le_bytes 8 (min_size_bytes b)])
        (bindings f)) @
     map (le_bytes 4) (workgroup_size f) @
     [le_bytes 4 (as_u32 (str_len (artifact_policy f))), as_bytes (artifact_policy f)] @
     (case qualification_evidence f of None \<Rightarrow> [[0]]
      | Some e \<Rightarrow> [[1], le_bytes 4 (as_u32 (str_len e)), as_bytes e])"
  have "descriptor_fingerprint f source_sha = sha_finalize (foldl sha_update sha_new parts)"
    by (simp add: descriptor_fingerprint_def parts_def hash_text_def hash_bindings_parts hash_dims_parts
        Let_def split: option.splits)
  also have "\<dots> = sha256_spec (concat parts)" by (rule sha.finish_parts)
  also have "concat parts = descriptor_bytes f source_sha"
  proof -
    have "concat (concat (map (\<lambda>b. [le_bytes 4 (bind_group b), le_bytes 4 (bind_index b),
        [binding_kind_tag (bind_kind b), element_tag (bind_element b)], le_bytes 8 (min_size_bytes b)]) bs)) =
        concat (map binding_bytes bs)" for bs
      by (induction bs) (simp_all add: binding_bytes_def)
    then show ?thesis
      by (simp add: parts_def descriptor_bytes_def text_bytes_def evidence_bytes_def split: option.splits)
  qed
  finally show ?thesis .
qed

text \<open>What the types of the fields guarantee.\<close>

definition fields_typed :: "artifact_fields \<Rightarrow> bool" where
  "fields_typed f \<longleftrightarrow>
     wf_str (artifact_id f) \<and> wf_str (entry_point f) \<and> wf_str (artifact_policy f) \<and>
     (case qualification_evidence f of None \<Rightarrow> True | Some e \<Rightarrow> wf_str e) \<and>
     artifact_revision f < u32_lim \<and> length (workgroup_size f) = 3 \<and>
     list_all (\<lambda>d. d < u32_lim) (workgroup_size f) \<and>
     list_all (\<lambda>b. bind_group b < u32_lim \<and> bind_index b < u32_lim \<and> min_size_bytes b < u64_lim) (bindings f)"

lemma text_bytes_prefix:
  assumes "wf_str s" "wf_str t" "str_len s < u32_lim" "str_len t < u32_lim"
  shows "text_bytes s @ r = text_bytes t @ r' \<longleftrightarrow> s = t \<and> r = r'"
proof
  assume eq: "text_bytes s @ r = text_bytes t @ r'"
  then have "le_bytes 4 (str_len s) @ as_bytes s @ r = le_bytes 4 (str_len t) @ as_bytes t @ r'"
    using assms by (simp add: text_bytes_def)
  then have len: "str_len s = str_len t" and rest: "as_bytes s @ r = as_bytes t @ r'"
    using assms le_bytes_inj [of "str_len s" 4 "str_len t"] by (simp_all add: append_split u32_lim_def)
  then have "as_bytes s = as_bytes t \<and> r = r'"
    by (simp add: append_split str_len_def)
  then show "s = t \<and> r = r'" using as_bytes_inj [OF assms(1,2)] by simp
qed simp

lemma binding_bytes_inj:
  assumes "bind_group b < u32_lim" "bind_index b < u32_lim" "min_size_bytes b < u64_lim"
    and "bind_group c < u32_lim" "bind_index c < u32_lim" "min_size_bytes c < u64_lim"
  shows "binding_bytes b = binding_bytes c \<longleftrightarrow> b = c"
proof
  assume "binding_bytes b = binding_bytes c"
  then have "bind_group b = bind_group c" "bind_index b = bind_index c"
    "binding_kind_tag (bind_kind b) = binding_kind_tag (bind_kind c)"
    "element_tag (bind_element b) = element_tag (bind_element c)"
    "min_size_bytes b = min_size_bytes c"
    using assms le_bytes_inj [of "bind_group b" 4 "bind_group c"] le_bytes_inj [of "bind_index b" 4 "bind_index c"]
      le_bytes_inj [of "min_size_bytes b" 8 "min_size_bytes c"]
    by (simp_all add: binding_bytes_def append_split u32_lim_def u64_lim_def)
  moreover have "bind_kind b = bind_kind c"
    using calculation(3) by (cases "bind_kind b"; cases "bind_kind c") simp_all
  moreover have "bind_element b = bind_element c"
    using calculation(4) by (cases "bind_element b"; cases "bind_element c") simp_all
  ultimately show "b = c" by simp
qed simp

lemma length_binding_bytes [simp]: "length (binding_bytes b) = 18"
  by (simp add: binding_bytes_def)

lemma concat_fixed:
  assumes "length xs = length ys" "\<And>x. length (f x) = (n :: nat)"
  shows "concat (map f xs) @ r = concat (map f ys) @ r' \<longleftrightarrow> map f xs = map f ys \<and> r = r'"
  using assms(1)
proof (induction xs ys rule: list_induct2)
  case Nil
  then show ?case by simp
next
  case (Cons x xs y ys)
  have "length (f x) = length (f y)" by (simp add: assms(2))
  then show ?case using Cons.IH by (auto simp: append_split)
qed

definition fields_valid :: "artifact_fields \<Rightarrow> bool" where
  "fields_valid f \<longleftrightarrow>
     id_wf 128 (artifact_id f) \<and> 0 < artifact_revision f \<and>
     source_bytes f \<noteq> [] \<and> length (source_bytes f) \<le> MAX_KERNEL_ARTIFACT_SOURCE_BYTES \<and>
     (source_kind f \<noteq> PortableIr \<longrightarrow> from_utf8 (source_bytes f) \<noteq> None) \<and>
     entry_point_ok (entry_point f) \<and> id_wf 128 (artifact_policy f) \<and>
     evidence_ok (qualification_evidence f) \<and>
     bindings f \<noteq> [] \<and> length (bindings f) \<le> 64 \<and> sorted_wrt binding_less (bindings f) \<and>
     list_all binding_size_ok (bindings f) \<and> list_ex (\<lambda>b. bind_kind b = StorageReadWrite) (bindings f) \<and>
     list_all (\<lambda>d. 0 < d) (workgroup_size f) \<and> prod_list (workgroup_size f) < u32_lim"

definition derived_requirements :: "artifact_fields \<Rightarrow> kernel_requirements" where
  "derived_requirements f =
     \<lparr>req_family = source_backend_family (source_kind f), req_workgroup_size = workgroup_size f,
      req_invocations = prod_list (workgroup_size f), req_bindings = length (bindings f),
      req_binding_bytes = fold max (map min_size_bytes (bindings f)) 0,
      req_f16 = list_ex (\<lambda>b. bind_element b = ElemF16) (bindings f)\<rparr>"

definition artifact_of :: "artifact_fields \<Rightarrow> kernel_artifact" where
  "artifact_of f =
     \<lparr>art_fields = f, art_requirements = derived_requirements f,
      art_source_sha256 = sha256_spec (source_bytes f),
      art_fingerprint = sha256_spec (descriptor_bytes f (sha256_spec (source_bytes f)))\<rparr>"

lemma validate_evidence_Ok: "validate_evidence e = Ok u \<longleftrightarrow> evidence_ok e"
  by (auto simp: validate_evidence_def evidence_ok_def split: option.splits)

lemma entry_point_Ok: "validate_entry_point s = Ok u \<longleftrightarrow> entry_point_ok s"
  by (cases "validate_entry_point s") (auto simp: entry_point_ok_def)

lemma sha256_digest_spec: "sha256_digest m = sha256_spec m"
  unfolding sha256_digest_def by (rule sha.finish_one)

lemma artifact_new_Ok: "artifact_new f = Ok a \<longleftrightarrow> fields_valid f \<and> a = artifact_of f"
proof -
  have kind: "(source_kind f = Wgsl \<or> source_kind f = CpuBuiltin) \<longleftrightarrow> source_kind f \<noteq> PortableIr"
    by (cases "source_kind f") simp_all
  have pos: "0 \<notin> set (workgroup_size f) \<longleftrightarrow> list_all (\<lambda>d. 0 < d) (workgroup_size f)"
    by (auto simp: list_all_iff intro: gr0I)
  have small: "length (bindings f) \<le> 64 \<Longrightarrow> as_u32 (length (bindings f)) = length (bindings f)"
    by (simp add: u32_lim_def)
  note loop = bindings_loop [of "bindings f"]
  show ?thesis
  proof
    assume ok: "artifact_new f = Ok a"
    then have pos': "list_all (\<lambda>d. 0 < d) (workgroup_size f)"
      by (auto simp: artifact_new_def pos split: if_splits prod.splits)
    show "fields_valid f \<and> a = artifact_of f"
      using ok unfolding artifact_new_def
      by (auto simp: kind small loop workgroup_product_Some [OF pos'] pos' fields_valid_def artifact_of_def
          derived_requirements_def sha256_digest_spec descriptor_fingerprint_digest entry_point_Ok
          validate_evidence_Ok MAX_KERNEL_ARTIFACT_BINDINGS_def Let_def split: if_splits)
  next
    assume v: "fields_valid f \<and> a = artifact_of f"
    then have pos': "list_all (\<lambda>d. 0 < d) (workgroup_size f)" by (simp add: fields_valid_def)
    have s: "artifact_validate_id ''artifact_id'' (artifact_id f) = Ok ()"
      "artifact_validate_id ''numerical_policy'' (artifact_policy f) = Ok ()"
      "validate_entry_point (entry_point f) = Ok ()" "validate_evidence (qualification_evidence f) = Ok ()"
      "workgroup_product (workgroup_size f) = Some (prod_list (workgroup_size f))"
      "for_each_res (binding_step (bindings f)) (0, False) (enumerate 0 (bindings f)) =
         Ok (fold max (map min_size_bytes (bindings f)) 0, list_ex (\<lambda>b. bind_element b = ElemF16) (bindings f))"
      using v by (simp_all add: fields_valid_def entry_point_Ok validate_evidence_Ok loop
          workgroup_product_Some [OF pos'])
    have g: "artifact_revision f \<noteq> 0"
      "\<not> (source_bytes f = [] \<or> length (source_bytes f) > MAX_KERNEL_ARTIFACT_SOURCE_BYTES)"
      "\<not> ((source_kind f = Wgsl \<or> source_kind f = CpuBuiltin) \<and> from_utf8 (source_bytes f) = None)"
      "\<not> (bindings f = [] \<or> length (bindings f) > MAX_KERNEL_ARTIFACT_BINDINGS)"
      "\<not> \<not> list_ex (\<lambda>b. bind_kind b = StorageReadWrite) (bindings f)" "0 \<notin> set (workgroup_size f)"
      using v pos pos' by (auto simp: fields_valid_def kind MAX_KERNEL_ARTIFACT_BINDINGS_def)
    have "as_u32 (length (bindings f)) = length (bindings f)" using v small by (simp add: fields_valid_def)
    then have r: "\<lparr>req_family = source_backend_family (source_kind f), req_workgroup_size = workgroup_size f,
        req_invocations = prod_list (workgroup_size f), req_bindings = as_u32 (length (bindings f)),
        req_binding_bytes = fold max (map min_size_bytes (bindings f)) 0,
        req_f16 = list_ex (\<lambda>b. bind_element b = ElemF16) (bindings f)\<rparr> = derived_requirements f"
      by (simp add: derived_requirements_def)
    have "artifact_new f = Ok (artifact_of f)"
      unfolding artifact_new_def s and_then_simps prod.case ok_or_simps Let_def r
        sha256_digest_spec descriptor_fingerprint_digest artifact_of_def
      using g by (simp only: if_False not_False_eq_True)
    then show "artifact_new f = Ok a" using v by simp
  qed
qed

lemma descriptor_bytes_inj:
  assumes "fields_typed f" "fields_typed g" "fields_valid f" "fields_valid g"
    and "length s = 32" "length s' = 32" "descriptor_bytes f s = descriptor_bytes g s'"
  shows "s = s' \<and> f\<lparr>source_bytes := []\<rparr> = g\<lparr>source_bytes := []\<rparr>"
proof -
  have short: "str_len x < u32_lim" if "id_wf 128 x" for x
    using that by (simp add: id_wf_def u32_lim_def)
  have entry: "str_len x < u32_lim" if "entry_point_ok x" for x
    using that
    by (auto simp: entry_point_ok_def validate_entry_point_def Let_def MAX_KERNEL_ARTIFACT_ID_BYTES_def
        u32_lim_def split: if_splits)
  have lim: "u32_lim = 256 ^ 4" "u64_lim = 256 ^ 8" by (simp_all add: width_defs)
  note len = length_le_bytes
  have src: "length (source_bytes h) < 256 ^ 8" if "fields_valid h" for h
    using that by (simp add: fields_valid_def MAX_KERNEL_ARTIFACT_SOURCE_BYTES_def)
  have F: "wf_str (artifact_id f)" "wf_str (entry_point f)" "wf_str (artifact_policy f)"
    "artifact_revision f < 256 ^ 4" "length (workgroup_size f) = 3" "length (bindings f) < 256 ^ 4"
    using assms(1,3) by (simp_all add: fields_typed_def fields_valid_def lim)
  have G: "wf_str (artifact_id g)" "wf_str (entry_point g)" "wf_str (artifact_policy g)"
    "artifact_revision g < 256 ^ 4" "length (workgroup_size g) = 3" "length (bindings g) < 256 ^ 4"
    using assms(2,4) by (simp_all add: fields_typed_def fields_valid_def lim)
  have ids: "str_len (artifact_id f) < u32_lim" "str_len (artifact_id g) < u32_lim"
    "str_len (artifact_policy f) < u32_lim" "str_len (artifact_policy g) < u32_lim"
    "str_len (entry_point f) < u32_lim" "str_len (entry_point g) < u32_lim"
    using assms(3,4) short entry by (simp_all add: fields_valid_def)
  have nb: "as_u32 (length (bindings f)) = length (bindings f)" "as_u32 (length (bindings g)) = length (bindings g)"
    using F G by (simp_all add: lim)
  have id: "artifact_id f = artifact_id g" and rev: "artifact_revision f = artifact_revision g"
    and kind: "source_kind_tag (source_kind f) = source_kind_tag (source_kind g)"
    and s: "s = s'" and entry_eq: "entry_point f = entry_point g"
    and count: "length (bindings f) = length (bindings g)"
    and tail: "concat (map binding_bytes (bindings f)) @ concat (map (le_bytes 4) (workgroup_size f)) @
        text_bytes (artifact_policy f) @ evidence_bytes (qualification_evidence f) =
      concat (map binding_bytes (bindings g)) @ concat (map (le_bytes 4) (workgroup_size g)) @
        text_bytes (artifact_policy g) @ evidence_bytes (qualification_evidence g)"
    using assms(5-7) F G ids nb src [OF assms(3)] src [OF assms(4)]
    by (simp_all add: descriptor_bytes_def text_bytes_prefix append_split le_bytes_inj)
  have maps: "map binding_bytes (bindings f) = map binding_bytes (bindings g)"
    and tail2: "concat (map (le_bytes 4) (workgroup_size f)) @ text_bytes (artifact_policy f) @
        evidence_bytes (qualification_evidence f) =
      concat (map (le_bytes 4) (workgroup_size g)) @ text_bytes (artifact_policy g) @
        evidence_bytes (qualification_evidence g)"
    using tail unfolding concat_fixed [OF count length_binding_bytes] by simp_all
  have binds: "bindings f = bindings g"
  proof (rule nth_equalityI [OF count])
    fix i assume i: "i < length (bindings f)"
    have "binding_bytes (bindings f ! i) = binding_bytes (bindings g ! i)"
      using arg_cong [OF maps, of "\<lambda>xs. xs ! i"] i count by simp
    then show "bindings f ! i = bindings g ! i"
      using assms(1,2) i count binding_bytes_inj [of "bindings f ! i" "bindings g ! i"]
      by (simp add: fields_typed_def list_all_length)
  qed
  have wl: "length (workgroup_size f) = length (workgroup_size g)" using F G by simp
  have wmaps: "map (le_bytes 4) (workgroup_size f) = map (le_bytes 4) (workgroup_size g)"
    and tail3: "text_bytes (artifact_policy f) @ evidence_bytes (qualification_evidence f) =
      text_bytes (artifact_policy g) @ evidence_bytes (qualification_evidence g)"
    using tail2 unfolding concat_fixed [OF wl length_le_bytes] by simp_all
  have dims: "workgroup_size f = workgroup_size g"
  proof (rule nth_equalityI [OF wl])
    fix i assume i: "i < length (workgroup_size f)"
    have "le_bytes 4 (workgroup_size f ! i) = le_bytes 4 (workgroup_size g ! i)"
      using arg_cong [OF wmaps, of "\<lambda>xs. xs ! i"] i wl by simp
    then show "workgroup_size f ! i = workgroup_size g ! i"
      using assms(1,2) i wl by (simp add: fields_typed_def list_all_length le_bytes_inj lim)
  qed
  have pol: "artifact_policy f = artifact_policy g"
    and ev: "evidence_bytes (qualification_evidence f) = evidence_bytes (qualification_evidence g)"
    using tail3 F G ids by (simp_all add: text_bytes_prefix)
  have evidence: "qualification_evidence f = qualification_evidence g"
  proof (cases "qualification_evidence f"; cases "qualification_evidence g")
    fix x y assume xy: "qualification_evidence f = Some x" "qualification_evidence g = Some y"
    then have "str_len x = 64" "str_len y = 64" "wf_str x" "wf_str y"
      using assms(1-4) by (simp_all add: fields_valid_def evidence_ok_def fields_typed_def)
    then show ?thesis
      using ev xy text_bytes_prefix [of x y "[]" "[]"] by (simp add: evidence_bytes_def u32_lim_def)
  qed (use ev in \<open>simp_all add: evidence_bytes_def\<close>)
  have "source_kind f = source_kind g"
    using kind by (cases "source_kind f"; cases "source_kind g") simp_all
  then show ?thesis
    using id rev s entry_eq binds dims pol evidence by simp
qed

section \<open>Properties\<close>

text \<open>An artifact is accepted exactly when its fields are valid - ids, revision, source size and encoding,
  entry point, evidence, bindings strictly ordered and aligned with one writable, workgroup within
  \<open>u32\<close> - and it then carries the requirements derived from them and the two SHA-256 digests:
  of the source, and of the canonical descriptor built from that digest and every other field.\<close>

theorem artifact_new_exact:
  "artifact_new f = Ok a \<longleftrightarrow>
     fields_valid f \<and> art_fields a = f \<and> art_requirements a = derived_requirements f \<and>
     art_source_sha256 a = sha256_spec (source_bytes f) \<and>
     art_fingerprint a = sha256_spec (descriptor_bytes f (sha256_spec (source_bytes f)))"
  by (auto simp: artifact_new_Ok artifact_of_def)

text \<open>C15. A fingerprint identifies its artifact: if two accepted artifacts have the same fingerprint, either
  all their fields are equal, source bytes included, or one of two explicit pairs of distinct byte
  strings is a SHA-256 collision.  The encoding itself is never ambiguous.\<close>

theorem artifact_fingerprint_identifies:
  assumes "artifact_new f = Ok a" "artifact_new g = Ok b" "fields_typed f" "fields_typed g"
    and "art_fingerprint a = art_fingerprint b"
  shows "f = g \<or>
    (\<exists>m m'. m \<noteq> m' \<and> sha256_digest m = sha256_digest m' \<and>
       (m, m') \<in> {(source_bytes f, source_bytes g),
         (descriptor_bytes f (art_source_sha256 a), descriptor_bytes g (art_source_sha256 b))})"
proof -
  define s s' where "s = sha256_spec (source_bytes f)" and "s' = sha256_spec (source_bytes g)"
  have v: "fields_valid f" "fields_valid g" and src: "art_source_sha256 a = s" "art_source_sha256 b = s'"
    and fp: "sha256_spec (descriptor_bytes f s) = sha256_spec (descriptor_bytes g s')"
    using assms by (auto simp: artifact_new_Ok artifact_of_def s_def s'_def)
  show ?thesis
  proof (cases "descriptor_bytes f s = descriptor_bytes g s'")
    case False
    then show ?thesis using fp src by (auto simp: sha256_digest_spec)
  next
    case True
    have "length s = 32" "length s' = 32" by (simp_all add: s_def s'_def)
    from descriptor_bytes_inj [OF assms(3,4) v this True]
    have eq: "s = s'" "f\<lparr>source_bytes := []\<rparr> = g\<lparr>source_bytes := []\<rparr>" by simp_all
    show ?thesis
    proof (cases "source_bytes f = source_bytes g")
      case True
      have "f = (f\<lparr>source_bytes := []\<rparr>)\<lparr>source_bytes := source_bytes f\<rparr>" by simp
      also have "\<dots> = g" using eq(2) True by simp
      finally show ?thesis ..
    next
      case False
      then show ?thesis using eq(1) by (auto simp: sha256_digest_spec s_def s'_def)
    qed
  qed
qed

definition demo_fields :: artifact_fields where
  "demo_fields =
     \<lparr>artifact_id = lit ''a'', artifact_revision = 1, source_kind = CpuBuiltin, source_bytes = [120],
      entry_point = lit ''m'', bindings = [\<lparr>bind_group = 0, bind_index = 0, bind_kind = StorageReadWrite,
        bind_element = ElemF32, min_size_bytes = 4\<rparr>],
      workgroup_size = [1, 1, 1], artifact_policy = lit ''p'', qualification_evidence = None\<rparr>"

lemma demo_fields_valid: "fields_valid demo_fields"
  by (simp add: fields_valid_def demo_fields_def lit_def is_white_def from_utf8_def entry_point_ok_def
      validate_entry_point_def ascii_alpha_def Let_def str_len_def evidence_ok_def binding_size_ok_def
      MAX_KERNEL_ARTIFACT_SOURCE_BYTES_def MAX_KERNEL_ARTIFACT_ID_BYTES_def u32_lim_def)

lemma demo_fields_typed: "fields_typed demo_fields"
  by (simp add: fields_typed_def demo_fields_def lit_def is_scalar_def wf_str_def u32_lim_def u64_lim_def)

theorem artifact_fingerprint_identifies_witness:
  "\<exists>a g. artifact_new demo_fields = Ok a \<and> g = demo_fields \<and> artifact_new g = Ok a \<and>
     (demo_fields = g \<or> (\<exists>m m'. m \<noteq> m' \<and> sha256_digest m = sha256_digest m'))"
proof -
  have new: "artifact_new demo_fields = Ok (artifact_of demo_fields)"
    using demo_fields_valid by (simp add: artifact_new_Ok)
  show ?thesis
    using artifact_fingerprint_identifies [OF new new demo_fields_typed demo_fields_typed refl] new
    by blast
qed

text \<open>Binding fails closed: it succeeds exactly when the caller's expected fingerprint is the artifact's,
  the backend is of the family its source targets, and every derived requirement - each workgroup
  axis, invocations, bindings, the largest binding, F16 - is within the backend's capabilities.\<close>

theorem artifact_bind_fail_closed:
  assumes "artifact_new f = Ok a" "length (workgroup_size f) = 3" "length (max_workgroup_size c) = 3"
  shows "is_ok (artifact_bind a backend c expected) \<longleftrightarrow>
    expected = sha256_spec (descriptor_bytes f (sha256_spec (source_bytes f))) \<and>
    bid_family backend = source_backend_family (source_kind f) \<and>
    list_all2 (\<le>) (workgroup_size f) (max_workgroup_size c) \<and>
    prod_list (workgroup_size f) \<le> max_workgroup_invocations c \<and>
    length (bindings f) \<le> max_bindings c \<and>
    list_all (\<lambda>b. min_size_bytes b \<le> max_buffer_bytes c \<and>
      (bind_element b = ElemF16 \<longrightarrow> supports_f16 c)) (bindings f)"
proof -
  have a: "a = artifact_of f" using assms(1) by (simp add: artifact_new_Ok)
  have maxle: "fold max xs m \<le> n \<longleftrightarrow> m \<le> n \<and> (\<forall>x \<in> set xs. x \<le> n)" for xs and m n :: nat
    by (induction xs arbitrary: m) auto
  have axes: "check_all (check_axis (derived_requirements f) c) [0..<3] = Ok u \<longleftrightarrow>
      list_all2 (\<le>) (workgroup_size f) (max_workgroup_size c)" for u
    using assms(2,3) by (auto simp: check_axis_def derived_requirements_def list_all2_conv_all_nth not_less)
  have "is_ok (check_capabilities a c) \<longleftrightarrow>
      list_all2 (\<le>) (workgroup_size f) (max_workgroup_size c) \<and>
      prod_list (workgroup_size f) \<le> max_workgroup_invocations c \<and> length (bindings f) \<le> max_bindings c \<and>
      fold max (map min_size_bytes (bindings f)) 0 \<le> max_buffer_bytes c \<and>
      (list_ex (\<lambda>b. bind_element b = ElemF16) (bindings f) \<longrightarrow> supports_f16 c)"
    unfolding is_ok_iff check_capabilities_def Let_def a artifact_of_def
    by (auto simp: axes simp del: check_all_Ok_iff) (auto simp: derived_requirements_def split: if_splits)
  moreover have "is_ok (artifact_bind a backend c expected) \<longleftrightarrow>
      art_fingerprint a = expected \<and> bid_family backend = req_family (art_requirements a) \<and>
      is_ok (check_capabilities a c)"
    by (cases "check_capabilities a c") (auto simp: artifact_bind_def)
  ultimately show ?thesis
    by (auto simp: a artifact_of_def derived_requirements_def maxle list_all_iff list_ex_iff)
qed

theorem artifact_bind_fail_closed_witness:
  "\<exists>a. artifact_new demo_fields = Ok a \<and>
     \<not> is_ok (artifact_bind a \<lparr>bid_family = Wgpu, bid_name = lit ''w''\<rparr>
       \<lparr>max_buffer_bytes = 8, max_workgroup_invocations = 1, max_workgroup_size = [1, 1, 1],
        max_bindings = 1, supports_f16 = False, supports_timestamps = False\<rparr> (art_fingerprint a))"
proof -
  have new: "artifact_new demo_fields = Ok (artifact_of demo_fields)"
    using demo_fields_valid by (simp add: artifact_new_Ok)
  have "length (workgroup_size demo_fields) = 3" "source_kind demo_fields = CpuBuiltin"
    by (simp_all add: demo_fields_def)
  then show ?thesis
    using new artifact_bind_fail_closed [OF new, of "\<lparr>max_buffer_bytes = 8, max_workgroup_invocations = 1,
        max_workgroup_size = [1, 1, 1], max_bindings = 1, supports_f16 = False, supports_timestamps = False\<rparr>"]
    by simp
qed

end
