(* ===== verification/Json.thy ===== *)
theory Json
  imports Rust_Str NNIS_Prelude
begin

text \<open>
  \<open>nnis-core/src/json.rs\<close>: the strict JSON reader and the compact writer behind the evidence and
  campaign records.  The reader's position is the suffix of the input not yet read (bytes as numbers
  below 256); an error carries that suffix, from which \<open>json_parse\<close> computes the offset.  Its
  recursion takes fuel, which the lemmas show never runs out.  The results are that reading what was
  written gives the value back, and that whatever is read is well formed.
\<close>

section \<open>Values and errors\<close>

definition MAX_JSON_BYTES :: nat where "MAX_JSON_BYTES = 16 * 1024 * 1024"
definition MAX_JSON_DEPTH :: nat where "MAX_JSON_DEPTH = 64"

datatype json =
    JNull
  | JBool bool
  | JNumber rstr
  | JString rstr
  | JArray "json list"
  | JObject "(rstr \<times> json) list"

record json_syntax_error =
  err_offset :: nat
  err_reason :: string

type_synonym 'a presult = "(nat list \<times> string) + 'a \<times> nat list"

section \<open>Reader: lexical parts\<close>

definition is_ws :: "nat \<Rightarrow> bool" where
  "is_ws b \<longleftrightarrow> b = 32 \<or> b = 9 \<or> b = 10 \<or> b = 13"

definition skip_ws :: "nat list \<Rightarrow> nat list" where
  "skip_ws bs = dropWhile is_ws bs"

definition json_literal :: "nat list \<Rightarrow> json \<Rightarrow> nat list \<Rightarrow> json presult" where
  "json_literal literal_text val bs =
     (if take (length literal_text) bs = literal_text then Ok (val, drop (length literal_text) bs)
      else Err (bs, ''invalid literal''))"

definition starts_digit :: "nat list \<Rightarrow> bool" where
  "starts_digit bs = (case bs of [] \<Rightarrow> False | b # _ \<Rightarrow> is_digit b)"

definition number_int :: "nat list \<Rightarrow> (nat list \<times> string) + nat list" where
  "number_int bs =
     (case bs of
        [] \<Rightarrow> Err (bs, ''expected digit'')
      | b # r \<Rightarrow>
          if b = 48 then (if starts_digit r then Err (r, ''leading zero'') else Ok r)
          else if 49 \<le> b \<and> b \<le> 57 then Ok (dropWhile is_digit bs)
          else Err (bs, ''expected digit''))"

definition number_frac :: "nat list \<Rightarrow> (nat list \<times> string) + nat list" where
  "number_frac bs =
     (case bs of
        [] \<Rightarrow> Ok bs
      | b # r \<Rightarrow>
          if b = 46 then
            (if \<not> starts_digit r then Err (r, ''expected fraction digit'') else Ok (dropWhile is_digit r))
          else Ok bs)"

definition number_exp :: "nat list \<Rightarrow> (nat list \<times> string) + nat list" where
  "number_exp bs =
     (case bs of
        [] \<Rightarrow> Ok bs
      | b # r \<Rightarrow>
          if b = 101 \<or> b = 69 then
            let r2 = (case r of [] \<Rightarrow> r | s # q \<Rightarrow> if s = 43 \<or> s = 45 then q else r)
            in if \<not> starts_digit r2 then Err (r2, ''expected exponent digit'')
               else Ok (dropWhile is_digit r2)
          else Ok bs)"

definition skip_minus :: "nat list \<Rightarrow> nat list" where
  "skip_minus bs = (case bs of [] \<Rightarrow> bs | b # r \<Rightarrow> if b = 45 then r else bs)"

definition json_number :: "nat list \<Rightarrow> json presult" where
  "json_number bs =
     and_then (number_int (skip_minus bs)) (\<lambda>r1.
     and_then (number_frac r1) (\<lambda>r2.
     and_then (number_exp r2) (\<lambda>r3.
     and_then (ok_or (r3, ''invalid number'') (utf8_decode (take (length bs - length r3) bs))) (\<lambda>number_text.
       Ok (JNumber number_text, r3)))))"

definition hex_value :: "nat \<Rightarrow> nat option" where
  "hex_value b =
     (if 48 \<le> b \<and> b \<le> 57 then Some (b - 48)
      else if 97 \<le> b \<and> b \<le> 102 then Some (b - 97 + 10)
      else if 65 \<le> b \<and> b \<le> 70 then Some (b - 65 + 10)
      else None)"

fun hex_digits :: "nat \<Rightarrow> nat \<Rightarrow> nat list \<Rightarrow> nat presult" where
  "hex_digits 0 v bs = Ok (v, bs)"
| "hex_digits (Suc n) v [] = Err ([], ''invalid unicode escape'')"
| "hex_digits (Suc n) v (b # r) =
     (case hex_value b of
        None \<Rightarrow> Err (b # r, ''invalid unicode escape'')
      | Some d \<Rightarrow> hex_digits n (v * 16 + d) r)"

definition hex4 :: "nat list \<Rightarrow> nat presult" where
  "hex4 bs = hex_digits 4 0 bs"

definition unicode_escape :: "nat list \<Rightarrow> nat presult" where
  "unicode_escape bs =
     and_then (hex4 bs) (\<lambda>(first, r).
     and_then
       (if 0xD800 \<le> first \<and> first < 0xDC00 then
          (if take 2 r \<noteq> [92, 117] then Err (r, ''lone surrogate'')
           else and_then (hex4 (drop 2 r)) (\<lambda>(second, r2).
             if \<not> (0xDC00 \<le> second \<and> second < 0xE000) then Err (r2, ''lone surrogate'')
             else Ok (0x10000 + (first - 0xD800) * 1024 + (second - 0xDC00), r2)))
        else if 0xDC00 \<le> first \<and> first < 0xE000 then Err (r, ''lone surrogate'')
        else Ok (first, r)) (\<lambda>(code, r3).
       if is_scalar code then Ok (code, r3) else Err (r3, ''invalid code point'')))"

definition json_escape :: "nat \<Rightarrow> nat list \<Rightarrow> nat presult" where
  "json_escape esc r =
     (if esc = 34 then Ok (34, r)
      else if esc = 92 then Ok (92, r)
      else if esc = 47 then Ok (47, r)
      else if esc = 98 then Ok (8, r)
      else if esc = 102 then Ok (12, r)
      else if esc = 110 then Ok (10, r)
      else if esc = 114 then Ok (13, r)
      else if esc = 116 then Ok (9, r)
      else if esc = 117 then unicode_escape r
      else Err (r, ''invalid escape''))"

definition plain_byte :: "nat \<Rightarrow> bool" where
  "plain_byte b \<longleftrightarrow> \<not> (b = 34 \<or> b = 92 \<or> b < 32)"

lemma hex_digits_length: "hex_digits n v bs = Ok (w, r) \<Longrightarrow> length bs = n + length r"
  by (induction n v bs rule: hex_digits.induct) (auto split: option.splits)

lemma unicode_escape_length: "unicode_escape bs = Ok (c, r) \<Longrightarrow> length r < length bs"
  by (auto simp: unicode_escape_def hex4_def dest!: hex_digits_length split: if_splits)

lemma json_escape_length: "json_escape e bs = Ok (c, r) \<Longrightarrow> length r \<le> length bs"
  by (auto simp: json_escape_def dest: unicode_escape_length split: if_splits)

text \<open>The loop of \<open>string\<close>, entered after the opening quote: a run of plain bytes, then its end.\<close>

function string_loop :: "rstr \<Rightarrow> nat list \<Rightarrow> rstr presult" where
  "string_loop outp bs =
     (let run = takeWhile plain_byte bs; after = dropWhile plain_byte bs in
      and_then (ok_or (after, ''invalid UTF-8'') (utf8_decode run)) (\<lambda>run_text.
        (case after of
           [] \<Rightarrow> Err (after, ''unterminated string'')
         | b # r \<Rightarrow>
             if b = 34 then Ok (outp @ run_text, r)
             else if b = 92 then
               (case r of
                  [] \<Rightarrow> Err (r, ''unterminated escape'')
                | esc # r2 \<Rightarrow>
                    (case json_escape esc r2 of
                       Inl e \<Rightarrow> Err e
                     | Inr (c, r3) \<Rightarrow> string_loop (outp @ run_text @ [c]) r3))
             else Err (after, ''control character in string''))))"
  by pat_completeness auto
termination
proof (relation "measure (\<lambda>(_, bs). length bs)")
  fix outp :: rstr and bs run after run_text b r esc r2 x c r3
  assume "after = dropWhile plain_byte bs" "after = b # r" "r = esc # r2" "json_escape esc r2 = Inr x" "(c, r3) = x"
  then have eq: "dropWhile plain_byte bs = b # esc # r2" and r3: "length r3 \<le> length r2"
    using json_escape_length [of esc r2 c r3] by simp_all
  have "length (dropWhile plain_byte bs) = Suc (Suc (length r2))" by (simp add: eq)
  moreover have "length (dropWhile plain_byte bs) \<le> length bs" by (rule length_dropWhile_le)
  ultimately show "((outp @ run_text @ [c], r3), outp, bs) \<in> measure (\<lambda>(_, bs). length bs)"
    using r3 by simp
qed simp

declare string_loop.simps [simp del]

definition json_string :: "nat list \<Rightarrow> rstr presult" where
  "json_string bs = string_loop [] (drop 1 bs)"

section \<open>Reader: values\<close>

text \<open>The two loops take the reader of a nested value, \<open>pv\<close>, and as fuel the number of bytes left:
  every round consumes one.\<close>

fun json_items :: "(nat list \<Rightarrow> json presult) \<Rightarrow> nat \<Rightarrow> json list \<Rightarrow> nat list \<Rightarrow> json presult" where
  "json_items pv 0 items bs = Err (bs, ''out of fuel'')"
| "json_items pv (Suc n) items bs =
     and_then (pv (skip_ws bs)) (\<lambda>(v, r).
       let r1 = skip_ws r in
       if take 1 r1 = [44] then json_items pv n (items @ [v]) (drop 1 r1)
       else if take 1 r1 = [93] then Ok (JArray (items @ [v]), drop 1 r1)
       else Err (r1, ''expected ',' or ']'' @ [CHR 0x27]))"

definition json_array :: "(nat list \<Rightarrow> json presult) \<Rightarrow> nat \<Rightarrow> nat list \<Rightarrow> json presult" where
  "json_array pv depth bs =
     (if depth > MAX_JSON_DEPTH then Err (bs, ''nesting too deep'')
      else
        let r = skip_ws (drop 1 bs) in
        if take 1 r = [93] then Ok (JArray [], drop 1 r)
        else json_items pv (Suc (length r)) [] r)"

fun json_members ::
    "(nat list \<Rightarrow> json presult) \<Rightarrow> nat \<Rightarrow> (rstr \<times> json) list \<Rightarrow> nat list \<Rightarrow> json presult" where
  "json_members pv 0 members bs = Err (bs, ''out of fuel'')"
| "json_members pv (Suc n) members bs =
     (let r0 = skip_ws bs in
      if take 1 r0 \<noteq> [34] then Err (r0, ''expected a string key'')
      else
        and_then (json_string r0) (\<lambda>(key, r1).
          if key \<in> set (map fst members) then Err (r0, ''duplicate object key'')
          else
            let r2 = skip_ws r1 in
            if take 1 r2 \<noteq> [58] then Err (r2, ''expected ':'' @ [CHR 0x27])
            else
              and_then (pv (skip_ws (drop 1 r2))) (\<lambda>(v, r).
                let r3 = skip_ws r in
                if take 1 r3 = [44] then json_members pv n (members @ [(key, v)]) (drop 1 r3)
                else if take 1 r3 = [125] then Ok (JObject (members @ [(key, v)]), drop 1 r3)
                else Err (r3, ''expected ',' or '}'' @ [CHR 0x27]))))"

definition json_object :: "(nat list \<Rightarrow> json presult) \<Rightarrow> nat \<Rightarrow> nat list \<Rightarrow> json presult" where
  "json_object pv depth bs =
     (if depth > MAX_JSON_DEPTH then Err (bs, ''nesting too deep'')
      else
        let r = skip_ws (drop 1 bs) in
        if take 1 r = [125] then Ok (JObject [], drop 1 r)
        else json_members pv (Suc (length r)) [] r)"

text \<open>The fuel of \<open>value\<close> is the number of levels it may still open.\<close>

primrec json_value :: "nat \<Rightarrow> nat \<Rightarrow> nat list \<Rightarrow> json presult" where
  "json_value 0 depth bs = Err (bs, ''out of fuel'')"
| "json_value (Suc n) depth bs =
     (case bs of
        [] \<Rightarrow> Err (bs, ''expected a value'')
      | b # _ \<Rightarrow>
          if b = 110 then json_literal [110, 117, 108, 108] JNull bs
          else if b = 116 then json_literal [116, 114, 117, 101] (JBool True) bs
          else if b = 102 then json_literal [102, 97, 108, 115, 101] (JBool False) bs
          else if b = 34 then and_then (json_string bs) (\<lambda>(s, r). Ok (JString s, r))
          else if b = 91 then json_array (json_value n (depth + 1)) (depth + 1) bs
          else if b = 123 then json_object (json_value n (depth + 1)) (depth + 1) bs
          else if b = 45 \<or> is_digit b then json_number bs
          else Err (bs, ''expected a value''))"

definition value_fuel :: nat where "value_fuel = MAX_JSON_DEPTH + 1"

definition json_parse_bytes :: "nat list \<Rightarrow> json presult" where
  "json_parse_bytes bytes =
     and_then (json_value value_fuel 0 (skip_ws bytes)) (\<lambda>(v, r).
       let r1 = skip_ws r in if r1 \<noteq> [] then Err (r1, ''trailing content'') else Ok (v, r1))"

definition json_parse :: "rstr \<Rightarrow> json_syntax_error + json" where
  "json_parse input =
     (let bytes = utf8_nats input in
      if length bytes > MAX_JSON_BYTES then Err \<lparr>err_offset = 0, err_reason = ''input too large''\<rparr>
      else
        case json_parse_bytes bytes of
          Inl (rest, reason) \<Rightarrow> Err \<lparr>err_offset = length bytes - length rest, err_reason = reason\<rparr>
        | Inr (v, _) \<Rightarrow> Ok v)"

section \<open>Writer\<close>

definition hex4_text :: "nat \<Rightarrow> rstr" where
  "hex4_text n =
     map (\<lambda>d. if d < 10 then 48 + d else 87 + d) [n div 4096 mod 16, n div 256 mod 16, n div 16 mod 16, n mod 16]"

definition write_char :: "nat \<Rightarrow> rstr" where
  "write_char c =
     (if c = 34 then [92, 34]
      else if c = 92 then [92, 92]
      else if c = 10 then [92, 110]
      else if c = 13 then [92, 114]
      else if c = 9 then [92, 116]
      else if c < 32 then [92, 117] @ hex4_text c
      else [c])"

definition write_string :: "rstr \<Rightarrow> rstr" where
  "write_string s = [34] @ concat (map write_char s) @ [34]"

fun json_write :: "json \<Rightarrow> rstr"
  and write_items :: "json list \<Rightarrow> rstr"
  and write_members :: "(rstr \<times> json) list \<Rightarrow> rstr" where
  "json_write JNull = lit ''null''"
| "json_write (JBool True) = lit ''true''"
| "json_write (JBool False) = lit ''false''"
| "json_write (JNumber t) = t"
| "json_write (JString s) = write_string s"
| "json_write (JArray vs) = [91] @ write_items vs @ [93]"
| "json_write (JObject ms) = [123] @ write_members ms @ [125]"
| "write_items [] = []"
| "write_items [v] = json_write v"
| "write_items (v # w # vs) = json_write v @ [44] @ write_items (w # vs)"
| "write_members [] = []"
| "write_members [(k, v)] = write_string k @ [58] @ json_write v"
| "write_members ((k, v) # m # ms) = write_string k @ [58] @ json_write v @ [44] @ write_members (m # ms)"

definition json_unsigned :: "nat \<Rightarrow> json" where
  "json_unsigned n = JNumber (dec n)"

section \<open>Well-formed values\<close>

text \<open>The number grammar of RFC 8259: sign, integer part, fraction and exponent.\<close>

definition digits :: "rstr \<Rightarrow> bool" where
  "digits s \<longleftrightarrow> s \<noteq> [] \<and> list_all is_digit s"

definition number_text :: "rstr \<Rightarrow> bool" where
  "number_text t \<longleftrightarrow>
     (\<exists>m i f e. t = m @ i @ f @ e \<and> m \<in> {[], [45]} \<and> (i = [48] \<or> digits i \<and> hd i \<noteq> 48) \<and>
        (f = [] \<or> (\<exists>ds. f = 46 # ds \<and> digits ds)) \<and>
        (e = [] \<or> (\<exists>x s ds. e = x # s @ ds \<and> x \<in> {101, 69} \<and> s \<in> {[], [43], [45]} \<and> digits ds)))"

text \<open>A value inside \<open>d\<close> arrays and objects is well formed when numbers follow the grammar, strings
  are Unicode, keys are distinct and the nesting stays within the limit.\<close>

fun json_wf :: "nat \<Rightarrow> json \<Rightarrow> bool" where
  "json_wf d (JNumber t) \<longleftrightarrow> number_text t"
| "json_wf d (JString s) \<longleftrightarrow> wf_str s"
| "json_wf d (JArray vs) \<longleftrightarrow> d < MAX_JSON_DEPTH \<and> (\<forall>v \<in> set vs. json_wf (d + 1) v)"
| "json_wf d (JObject ms) \<longleftrightarrow> d < MAX_JSON_DEPTH \<and> distinct (map fst ms) \<and>
     (\<forall>m \<in> set ms. wf_str (fst m) \<and> json_wf (d + 1) (snd m))"
| "json_wf d v \<longleftrightarrow> True"

section \<open>Strings read back\<close>

lemma utf8_ascii: "list_all (\<lambda>c. c < 128) s \<Longrightarrow> utf8_nats s = s"
  by (induction s) (simp_all add: utf8_char_def)

lemma plain_byte_char:
  "is_scalar c \<Longrightarrow> plain_byte c \<Longrightarrow> list_all plain_byte (utf8_char c)"
  by (auto simp: utf8_char_def plain_byte_def)

lemma takeWhile_list_all: "list_all P xs \<Longrightarrow> takeWhile P (xs @ ys) = xs @ takeWhile P ys"
  by (induction xs) simp_all

lemma dropWhile_list_all: "list_all P xs \<Longrightarrow> dropWhile P (xs @ ys) = dropWhile P ys"
  by (induction xs) simp_all

lemma string_loop_plain:
  assumes "is_scalar c" "plain_byte c"
  shows "string_loop outp (utf8_char c @ rest) = string_loop (outp @ [c]) rest"
proof -
  have run: "takeWhile plain_byte (utf8_char c @ rest) = utf8_char c @ takeWhile plain_byte rest"
    and after: "dropWhile plain_byte (utf8_char c @ rest) = dropWhile plain_byte rest"
    using plain_byte_char [OF assms] by (simp_all add: takeWhile_list_all dropWhile_list_all)
  show ?thesis
    unfolding string_loop.simps [of outp "utf8_char c @ rest"] string_loop.simps [of "outp @ [c]" rest]
      run after utf8_decode_char [OF assms(1)] Let_def
    by (cases "utf8_decode (takeWhile plain_byte rest)")
       (simp_all cong del: list.case_cong_weak sum.case_cong_weak if_weak_cong)
qed

lemma string_loop_escape:
  "json_escape e r = Ok (c, rest) \<Longrightarrow> string_loop outp (92 # e # r) = string_loop (outp @ [c]) rest"
  by (simp add: string_loop.simps [of outp "92 # e # r"] plain_byte_def)

definition lower_hex :: "nat \<Rightarrow> nat" where
  "lower_hex d = (if d < 10 then 48 + d else 87 + d)"

lemma hex_value_digit: "d < 16 \<Longrightarrow> hex_value (lower_hex d) = Some d"
  by (auto simp: hex_value_def lower_hex_def)

lemma hex4_Cons:
  "a < 16 \<Longrightarrow> b < 16 \<Longrightarrow> c < 16 \<Longrightarrow> d < 16 \<Longrightarrow>
   hex4 (lower_hex a # lower_hex b # lower_hex c # lower_hex d # rest) =
     Ok (((a * 16 + b) * 16 + c) * 16 + d, rest)"
proof -
  have "(4::nat) = Suc (Suc (Suc (Suc 0)))" by simp
  moreover assume "a < 16" "b < 16" "c < 16" "d < 16"
  ultimately show ?thesis by (simp only: hex4_def hex_digits.simps hex_value_digit option.case) simp
qed

lemma hex4_text_digits:
  "hex4_text n = [lower_hex (n div 4096 mod 16), lower_hex (n div 256 mod 16), lower_hex (n div 16 mod 16),
     lower_hex (n mod 16)]"
  by (simp add: hex4_text_def lower_hex_def)

lemma json_escape_control:
  assumes "c < 32"
  shows "json_escape 117 (hex4_text c @ rest) = Ok (c, rest)"
proof -
  have d: "c div 4096 = 0" "c div 256 = 0" "c div 16 mod 16 = c div 16" "c div 16 < 16"
    using assms by simp_all
  have "hex4 (hex4_text c @ rest) = Ok (c, rest)"
    by (simp add: hex4_text_digits d hex4_Cons)
  then show ?thesis
    using assms by (simp add: json_escape_def unicode_escape_def is_scalar_def)
qed

lemma string_loop_char:
  assumes "is_scalar c"
  shows "string_loop outp (utf8_nats (write_char c) @ rest) = string_loop (outp @ [c]) rest"
proof -
  consider "c = 34 \<or> c = 92 \<or> c = 10 \<or> c = 13 \<or> c = 9" | "c < 32" "c \<noteq> 10" "c \<noteq> 13" "c \<noteq> 9"
    | "32 \<le> c" "c \<noteq> 34" "c \<noteq> 92" by linarith
  then show ?thesis
  proof cases
    case 1
    then show ?thesis
      by (auto simp: write_char_def utf8_char_def intro!: string_loop_escape simp: json_escape_def)
  next
    case 2
    then have "utf8_nats (hex4_text c) = hex4_text c"
      by (intro utf8_ascii) (auto simp: hex4_text_def)
    with 2 have "utf8_nats (write_char c) = 92 # 117 # hex4_text c"
      by (simp add: write_char_def utf8_char_def)
    then show ?thesis using 2 by (simp add: string_loop_escape json_escape_control)
  next
    case 3
    then show ?thesis using assms
      by (simp add: write_char_def string_loop_plain plain_byte_def)
  qed
qed

lemma string_loop_end: "string_loop outp (34 # rest) = Ok (outp, rest)"
  by (simp add: string_loop.simps [of outp "34 # rest"] plain_byte_def)

lemma string_loop_chars:
  "wf_str s \<Longrightarrow> string_loop outp (utf8_nats (concat (map write_char s)) @ rest) = string_loop (outp @ s) rest"
  by (induction s arbitrary: outp) (simp_all add: string_loop_char)

lemma json_string_write:
  "wf_str s \<Longrightarrow> json_string (utf8_nats (write_string s) @ rest) = Ok (s, rest)"
  by (simp add: json_string_def write_string_def utf8_char_def string_loop_chars string_loop_end)

section \<open>Numbers\<close>

lemma digits_simps [simp]: "\<not> digits []" "digits (b # s) \<longleftrightarrow> is_digit b \<and> list_all is_digit s"
  by (simp_all add: digits_def)

lemma starts_digit_simps [simp]: "\<not> starts_digit []" "starts_digit (b # r) \<longleftrightarrow> is_digit b"
  by (simp_all add: starts_digit_def)

lemma starts_digit_append: "digits s \<Longrightarrow> starts_digit (s @ r)"
  by (cases s) simp_all

lemma takeWhile_digits: "starts_digit bs \<Longrightarrow> digits (takeWhile is_digit bs)"
  by (cases bs) (auto simp: list_all_iff dest: set_takeWhileD)

lemma dropWhile_digits:
  "list_all is_digit s \<Longrightarrow> \<not> starts_digit r \<Longrightarrow> dropWhile is_digit (s @ r) = r"
  by (cases r) (simp_all add: dropWhile_list_all dropWhile_eq_Nil_conv list_all_iff)

definition int_text :: "rstr \<Rightarrow> bool" where
  "int_text i \<longleftrightarrow> i = [48] \<or> digits i \<and> hd i \<noteq> 48"

definition frac_text :: "rstr \<Rightarrow> bool" where
  "frac_text f \<longleftrightarrow> f = [] \<or> (\<exists>ds. f = 46 # ds \<and> digits ds)"

definition exp_text :: "rstr \<Rightarrow> bool" where
  "exp_text e \<longleftrightarrow> e = [] \<or>
     (\<exists>x s ds. e = x # s @ ds \<and> x \<in> {101, 69} \<and> s \<in> {[], [43], [45]} \<and> digits ds)"

lemma number_text_iff:
  "number_text t \<longleftrightarrow> (\<exists>m i f e. t = m @ i @ f @ e \<and> m \<in> {[], [45]} \<and> int_text i \<and> frac_text f \<and> exp_text e)"
  by (simp add: number_text_def int_text_def frac_text_def exp_text_def)

lemma number_int_append:
  "int_text i \<Longrightarrow> \<not> starts_digit r \<Longrightarrow> number_int (i @ r) = Ok r"
  by (cases i) (auto simp: number_int_def int_text_def is_digit_def dropWhile_digits)

lemma number_frac_append:
  assumes "frac_text f" "\<not> starts_digit r" "take 1 r \<noteq> [46]"
  shows "number_frac (f @ r) = Ok r"
proof (cases "f = []")
  case True
  then show ?thesis using assms(3) by (cases r) (simp_all add: number_frac_def)
next
  case False
  then obtain ds where "f = 46 # ds" "digits ds" using assms(1) by (auto simp: frac_text_def)
  then show ?thesis using assms(2)
    by (simp add: number_frac_def starts_digit_append dropWhile_digits digits_def)
qed

lemma number_exp_append:
  assumes "exp_text e" "\<not> starts_digit r" "take 1 r \<noteq> [101]" "take 1 r \<noteq> [69]"
  shows "number_exp (e @ r) = Ok r"
proof (cases "e = []")
  case True
  then show ?thesis using assms(3,4) by (cases r) (simp_all add: number_exp_def)
next
  case False
  then obtain x s ds where e: "e = x # s @ ds" "x \<in> {101, 69}" "s \<in> {[], [43], [45]}" and ds: "digits ds"
    using assms(1) by (auto simp: exp_text_def)
  from ds obtain d ds' where d: "ds = d # ds'" "d \<noteq> 43" "d \<noteq> 45"
    by (cases ds) (auto simp: is_digit_def)
  have "dropWhile is_digit (ds @ r) = r" "starts_digit (ds @ r)"
    using ds assms(2) by (simp_all add: dropWhile_digits starts_digit_append digits_def)
  then show ?thesis using e(2,3) d by (auto simp: number_exp_def e(1))
qed

lemma number_text_ascii: "number_text t \<Longrightarrow> list_all (\<lambda>c. c < 128) t"
proof -
  have *: "list_all (\<lambda>c. c < 128) s" if "list_all is_digit s" for s
    using that by (induction s) (auto simp: is_digit_def)
  assume "number_text t"
  then show ?thesis
    by (auto simp: number_text_def digits_def *)
qed

lemma ascii_wf_str: "list_all (\<lambda>c. c < 128) t \<Longrightarrow> wf_str t"
  by (induction t) (simp_all add: is_scalar_def)

lemma ascii_decode: "list_all (\<lambda>c. c < 128) t \<Longrightarrow> utf8_decode t = Some t"
  using utf8_decode_nats [OF ascii_wf_str] by (simp add: utf8_ascii)

definition ends_value :: "nat list \<Rightarrow> bool" where
  "ends_value r \<longleftrightarrow> r = [] \<or> hd r \<in> {44, 93, 125}"

lemma json_number_text:
  assumes "number_text t" "ends_value r"
  shows "json_number (t @ r) = Ok (JNumber t, r)"
proof -
  obtain m i f e where t: "t = m @ i @ f @ e" and m: "m \<in> {[], [45]}"
    and i: "int_text i" and f: "frac_text f" and e: "exp_text e"
    using assms(1) by (auto simp: number_text_iff)
  have r: "\<not> starts_digit r" "take 1 r \<noteq> [46]" "take 1 r \<noteq> [101]" "take 1 r \<noteq> [69]"
    using assms(2) by (cases r; auto simp: ends_value_def is_digit_def)+
  have er: "\<not> starts_digit (e @ r)" "take 1 (e @ r) \<noteq> [46]"
    using e r by (auto simp: exp_text_def is_digit_def)
  have fer: "\<not> starts_digit (f @ e @ r)"
    using f er by (auto simp: frac_text_def is_digit_def)
  obtain b i' where "i = b # i'" "is_digit b"
    using i by (cases i) (auto simp: int_text_def is_digit_def)
  then have "skip_minus (t @ r) = i @ f @ e @ r"
    using m by (auto simp: t skip_minus_def is_digit_def)
  then show ?thesis
    using number_text_ascii [OF assms(1)]
    by (simp add: json_number_def number_int_append [OF i fer] number_frac_append [OF f er]
        number_exp_append [OF e r(1,3,4)] ascii_decode)
qed

lemma number_int_Ok: "number_int bs = Ok r \<Longrightarrow> \<exists>i. bs = i @ r \<and> int_text i"
proof (cases bs)
  case (Cons b q)
  moreover assume "number_int bs = Ok r"
  ultimately have "b = 48 \<and> r = q \<or> b \<noteq> 48 \<and> is_digit b \<and> r = dropWhile is_digit bs"
    by (auto simp: number_int_def is_digit_def split: if_splits)
  moreover have "bs = takeWhile is_digit bs @ dropWhile is_digit bs" by simp
  moreover have "digits (takeWhile is_digit bs)" if "is_digit b"
    using that Cons by (intro takeWhile_digits) simp
  ultimately show ?thesis
    using Cons by (cases "b = 48"; intro exI [of _ "if b = 48 then [48] else takeWhile is_digit bs"])
      (auto simp: int_text_def)
qed (simp add: number_int_def)

lemma number_frac_Ok: "number_frac bs = Ok r \<Longrightarrow> \<exists>f. bs = f @ r \<and> frac_text f"
proof (cases bs)
  case (Cons b q)
  moreover assume "number_frac bs = Ok r"
  ultimately consider "r = bs" | "b = 46" "starts_digit q" "r = dropWhile is_digit q"
    by (auto simp: number_frac_def split: if_splits)
  then show ?thesis
  proof cases
    case 1
    then show ?thesis by (intro exI [of _ "[]"]) (simp add: frac_text_def)
  next
    case 2
    then show ?thesis using Cons takeWhile_digits [of q]
      by (intro exI [of _ "46 # takeWhile is_digit q"]) (simp add: frac_text_def)
  qed
qed (simp add: number_frac_def frac_text_def)

lemma number_exp_Ok: "number_exp bs = Ok r \<Longrightarrow> \<exists>e. bs = e @ r \<and> exp_text e"
proof (cases bs)
  case (Cons b q)
  define s where "s = (case q of [] \<Rightarrow> [] | c # _ \<Rightarrow> if c = 43 \<or> c = 45 then [c] else [])"
  define q2 where "q2 = (case q of [] \<Rightarrow> q | c # u \<Rightarrow> if c = 43 \<or> c = 45 then u else q)"
  have q: "q = s @ q2" "s \<in> {[], [43], [45]}"
    by (auto simp: s_def q2_def split: list.split)
  assume "number_exp bs = Ok r"
  with Cons consider "r = bs" | "b \<in> {101, 69}" "starts_digit q2" "r = dropWhile is_digit q2"
    by (auto simp: number_exp_def q2_def [symmetric] Let_def split: if_splits)
  then show ?thesis
  proof cases
    case 1
    then show ?thesis by (intro exI [of _ "[]"]) (simp add: exp_text_def)
  next
    case 2
    then show ?thesis using Cons q takeWhile_digits [of q2]
      by (intro exI [of _ "b # s @ takeWhile is_digit q2"]) (auto simp: exp_text_def)
  qed
qed (simp add: number_exp_def exp_text_def)

lemma skip_minus_split: "\<exists>m. bs = m @ skip_minus bs \<and> m \<in> {[], [45]}"
  by (cases bs) (simp_all add: skip_minus_def)

lemma json_number_Ok:
  assumes "json_number bs = Ok (v, r)"
  shows "\<exists>t. v = JNumber t \<and> number_text t \<and> bs = t @ r"
proof -
  obtain r1 r2 t where "number_int (skip_minus bs) = Ok r1" "number_frac r1 = Ok r2" "number_exp r2 = Ok r"
    and t: "utf8_decode (take (length bs - length r) bs) = Some t" "v = JNumber t"
    using assms by (auto simp: json_number_def)
  then obtain m i f e where "bs = m @ i @ f @ e @ r" "m \<in> {[], [45]}" "int_text i" "frac_text f" "exp_text e"
    using skip_minus_split [of bs] by (metis number_int_Ok number_frac_Ok number_exp_Ok)
  then have "number_text (m @ i @ f @ e)" "bs = (m @ i @ f @ e) @ r"
    by (auto simp: number_text_iff)
  then show ?thesis
    using t ascii_decode [OF number_text_ascii] by (metis append_eq_conv_conj diff_add_inverse2 length_append option.inject)
qed

section \<open>What was written is read back\<close>

definition value_head :: "nat \<Rightarrow> bool" where
  "value_head b \<longleftrightarrow> b \<in> {110, 116, 102, 34, 91, 123, 45} \<or> is_digit b"

lemma value_head_simps [simp]:
  assumes "value_head b"
  shows "\<not> is_ws b" "b \<noteq> 93" "b \<noteq> 125" "b \<noteq> 44" "b \<noteq> 58"
  using assms by (auto simp: value_head_def is_ws_def is_digit_def)

lemma skip_ws_simps [simp]:
  "skip_ws [] = []"
  "\<not> is_ws b \<Longrightarrow> skip_ws (b # r) = b # r"
  by (simp_all add: skip_ws_def)

lemma is_ws_punct [simp]: "\<not> is_ws 34" "\<not> is_ws 44" "\<not> is_ws 58" "\<not> is_ws 93" "\<not> is_ws 125"
  by (simp_all add: is_ws_def)

lemma number_text_head: "number_text t \<Longrightarrow> \<exists>b w. t = b # w \<and> (b = 45 \<or> is_digit b)"
  by (auto simp: number_text_iff int_text_def digits_def is_digit_def neq_Nil_conv)

definition written :: "json \<Rightarrow> nat list" where
  "written v = utf8_nats (json_write v)"

lemma utf8_ascii_char [simp]: "c < 128 \<Longrightarrow> utf8_char c = [c]"
  by (simp add: utf8_char_def)

lemma written_simps:
  "written JNull = [110, 117, 108, 108]"
  "written (JBool True) = [116, 114, 117, 101]"
  "written (JBool False) = [102, 97, 108, 115, 101]"
  "number_text t \<Longrightarrow> written (JNumber t) = t"
  "written (JString s) = utf8_nats (write_string s)"
  "written (JArray vs) = 91 # utf8_nats (write_items vs) @ [93]"
  "written (JObject ms) = 123 # utf8_nats (write_members ms) @ [125]"
  by (simp_all add: written_def lit_def utf8_ascii number_text_ascii)

lemma written_head: "json_wf d v \<Longrightarrow> \<exists>b w. written v = b # w \<and> value_head b"
proof (cases v)
  case (JBool x)
  then show ?thesis by (cases x) (simp_all add: written_simps value_head_def)
next
  case (JNumber t)
  moreover assume "json_wf d v"
  ultimately show ?thesis
    using number_text_head [of t] by (auto simp: written_simps value_head_def)
next
  case (JString s)
  then show ?thesis by (simp add: written_simps write_string_def value_head_def)
qed (simp_all add: written_simps value_head_def)

lemma ends_value_simps [simp]: "ends_value (44 # r)" "ends_value (93 # r)" "ends_value (125 # r)"
  by (simp_all add: ends_value_def)

definition reads_back :: "(nat list \<Rightarrow> json presult) \<Rightarrow> json \<Rightarrow> bool" where
  "reads_back pv v \<longleftrightarrow>
     (\<exists>b w. written v = b # w \<and> value_head b) \<and>
     (\<forall>r. ends_value r \<longrightarrow> pv (written v @ r) = Ok (v, r))"

lemma reads_back_skip: "reads_back pv v \<Longrightarrow> skip_ws (written v @ r) = written v @ r"
  by (auto simp: reads_back_def)

lemma reads_back_Ok: "reads_back pv v \<Longrightarrow> ends_value r \<Longrightarrow> pv (written v @ r) = Ok (v, r)"
  by (simp add: reads_back_def)

lemma write_items_written:
  "utf8_nats (write_items []) = []"
  "utf8_nats (write_items [v]) = written v"
  "utf8_nats (write_items (v # w # vs)) = written v @ 44 # utf8_nats (write_items (w # vs))"
  by (simp_all add: written_def)

lemma json_items_written:
  "vs \<noteq> [] \<Longrightarrow> list_all (reads_back pv) vs \<Longrightarrow> length vs \<le> n \<Longrightarrow>
   json_items pv n items (utf8_nats (write_items vs) @ 93 # r) = Ok (JArray (items @ vs), r)"
proof (induction vs arbitrary: items n rule: induct_list012)
  case (2 v)
  then obtain k where "n = Suc k" by (cases n) auto
  then show ?case using 2
    by (simp add: write_items_written reads_back_skip reads_back_Ok del: write_items.simps)
next
  case (3 v w vs)
  then obtain k where k: "n = Suc k" "length (w # vs) \<le> k" by (cases n) auto
  with 3 show ?case
    by (auto simp: write_items_written reads_back_skip reads_back_Ok simp del: write_items.simps)
qed simp

lemma length_write_items:
  "list_all (reads_back pv) vs \<Longrightarrow> length vs \<le> length (utf8_nats (write_items vs))"
  by (induction vs rule: induct_list012) (auto simp: write_items_written reads_back_def simp del: write_items.simps)

lemma json_array_written:
  assumes "list_all (reads_back pv) vs" "depth \<le> MAX_JSON_DEPTH"
  shows "json_array pv depth (written (JArray vs) @ r) = Ok (JArray vs, r)"
proof (cases vs)
  case Nil
  then show ?thesis using assms by (simp add: json_array_def written_simps)
next
  case (Cons v ws)
  let ?bs = "utf8_nats (write_items vs) @ 93 # r"
  obtain b w where "utf8_nats (write_items vs) = b # w" "value_head b"
    using assms(1) Cons
    by (cases ws) (auto simp: write_items_written reads_back_def simp del: write_items.simps)
  then have "skip_ws ?bs = ?bs" "take 1 ?bs \<noteq> [93]" by simp_all
  moreover have "json_items pv (Suc (length ?bs)) [] ?bs = Ok (JArray vs, r)"
    using json_items_written [of vs pv "Suc (length ?bs)" "[]" r] length_write_items [OF assms(1)] assms(1) Cons
    by simp
  ultimately show ?thesis
    using assms(2) by (simp add: json_array_def written_simps)
qed

lemma write_members_written:
  "utf8_nats (write_members []) = []"
  "utf8_nats (write_members [p]) = utf8_nats (write_string (fst p)) @ 58 # written (snd p)"
  "utf8_nats (write_members (p # q # ms)) =
     utf8_nats (write_string (fst p)) @ 58 # written (snd p) @ 44 # utf8_nats (write_members (q # ms))"
  by (cases p; simp add: written_def)+

lemma json_members_written:
  "ms \<noteq> [] \<Longrightarrow> list_all (reads_back pv \<circ> snd) ms \<Longrightarrow> list_all (wf_str \<circ> fst) ms \<Longrightarrow>
   distinct (map fst (members @ ms)) \<Longrightarrow> length ms \<le> n \<Longrightarrow>
   json_members pv n members (utf8_nats (write_members ms) @ 125 # r) = Ok (JObject (members @ ms), r)"
proof (induction ms arbitrary: members n rule: induct_list012)
  case (2 p)
  then obtain j where "n = Suc j" by (cases n) auto
  then show ?case using 2 json_string_write [of "fst p" "58 # written (snd p) @ 125 # r"]
    by (auto simp add: write_members_written reads_back_skip reads_back_Ok write_string_def simp del: write_members.simps)
next
  case (3 p q ms)
  then obtain j where j: "n = Suc j" "length (q # ms) \<le> j" by (cases n) auto
  have "json_members pv j (members @ [p]) (utf8_nats (write_members (q # ms)) @ 125 # r) =
      Ok (JObject ((members @ [p]) @ q # ms), r)"
    using 3 j(2) by (intro "3.IH"(2)) auto
  with 3(3-) j(1) json_string_write
    [of "fst p" "58 # written (snd p) @ 44 # utf8_nats (write_members (q # ms)) @ 125 # r"]
  show ?case
    by (auto simp add: write_members_written reads_back_skip reads_back_Ok write_string_def simp del: write_members.simps)
qed simp

lemma length_write_members:
  "length ms \<le> length (utf8_nats (write_members ms))"
  by (induction ms rule: induct_list012) (auto simp: write_members_written write_string_def simp del: write_members.simps)

lemma json_object_written:
  assumes "list_all (reads_back pv \<circ> snd) ms" "list_all (wf_str \<circ> fst) ms" "distinct (map fst ms)"
    and "depth \<le> MAX_JSON_DEPTH"
  shows "json_object pv depth (written (JObject ms) @ r) = Ok (JObject ms, r)"
proof (cases ms)
  case Nil
  then show ?thesis using assms by (simp add: json_object_def written_simps)
next
  case (Cons m ms')
  let ?bs = "utf8_nats (write_members ms) @ 125 # r"
  obtain w where "utf8_nats (write_members ms) = 34 # w"
    using Cons by (cases ms') (auto simp: write_members_written write_string_def simp del: write_members.simps)
  then have "skip_ws ?bs = ?bs" "take 1 ?bs \<noteq> [125]" by simp_all
  moreover have "json_members pv (Suc (length ?bs)) [] ?bs = Ok (JObject ms, r)"
    using json_members_written [of ms pv "[]" "Suc (length ?bs)" r] length_write_members [of ms] assms Cons
    by simp
  ultimately show ?thesis
    using assms(4) by (simp add: json_object_def written_simps)
qed

lemma json_value_written:
  "json_wf d v \<Longrightarrow> d \<le> MAX_JSON_DEPTH \<Longrightarrow> MAX_JSON_DEPTH < n + d \<Longrightarrow> ends_value r \<Longrightarrow>
   json_value n d (written v @ r) = Ok (v, r)"
proof (induction n arbitrary: d v r)
  case 0
  then show ?case by simp
next
  case (Suc n)
  have nested: "reads_back (json_value n (d + 1)) u" if "json_wf (d + 1) u" "d < MAX_JSON_DEPTH" for u
    unfolding reads_back_def using Suc.IH [of "d + 1" u] written_head [of "d + 1" u] that Suc.prems by auto
  show ?case
  proof (cases v)
    case (JBool x)
    then show ?thesis by (cases x) (simp_all add: written_simps json_literal_def)
  next
    case (JNumber t)
    with Suc.prems obtain b w where "t = b # w" "b = 45 \<or> is_digit b" "number_text t"
      using number_text_head [of t] by auto
    moreover from this have "json_number (t @ r) = Ok (JNumber t, r)"
      using Suc.prems(4) by (simp only: json_number_text)
    ultimately show ?thesis using JNumber by (auto simp: written_simps is_digit_def)
  next
    case (JString s)
    with Suc.prems json_string_write [of s r] show ?thesis
      by (simp add: written_simps write_string_def)
  next
    case (JArray vs)
    with Suc.prems json_array_written [of "json_value n (d + 1)" vs "d + 1" r] nested show ?thesis
      by (simp add: written_simps list_all_iff)
  next
    case (JObject ms)
    with Suc.prems json_object_written [of "json_value n (d + 1)" ms "d + 1" r] nested show ?thesis
      by (simp add: written_simps list_all_iff)
  qed (simp add: written_simps json_literal_def)
qed

lemma json_parse_written:
  assumes "json_wf 0 v" "length (written v) \<le> MAX_JSON_BYTES"
  shows "json_parse (json_write v) = Ok v"
proof -
  have "skip_ws (written v) = written v"
    using written_head [OF assms(1)] by auto
  then show ?thesis
    using json_value_written [OF assms(1), of value_fuel "[]"] assms(2)
    by (simp add: json_parse_def json_parse_bytes_def value_fuel_def ends_value_def written_def)
qed

section \<open>What is read is well formed\<close>

lemma length_skip_ws: "length (skip_ws bs) \<le> length bs"
  by (simp add: skip_ws_def length_dropWhile_le)

lemma json_escape_scalar: "json_escape e bs = Ok (c, r) \<Longrightarrow> is_scalar c"
  by (auto simp: json_escape_def unicode_escape_def is_scalar_def split: if_splits)

lemma string_loop_Ok:
  "string_loop outp bs = Ok (s, r) \<Longrightarrow> wf_str outp \<Longrightarrow> wf_str s \<and> length r < length bs"
proof (induction outp bs rule: string_loop.induct)
  case (1 outp bs)
  obtain run_text b rest where run: "utf8_decode (takeWhile plain_byte bs) = Some run_text"
    and after: "dropWhile plain_byte bs = b # rest"
    using 1(2)
    by (cases "utf8_decode (takeWhile plain_byte bs)"; cases "dropWhile plain_byte bs")
       (simp_all add: string_loop.simps [of outp bs] del: dropWhile_eq_Nil_conv)
  have wf: "wf_str run_text" using utf8_decode_Some [OF run] by simp
  have le: "Suc (length rest) \<le> length bs"
    using length_dropWhile_le [of plain_byte bs] by (simp add: after)
  show ?case
  proof (cases "b = 34")
    case True
    then show ?thesis using 1(2,3) run wf le by (auto simp: string_loop.simps [of outp bs] Let_def after)
  next
    case False
    with 1(2) run obtain e r2 c r3 where *: "b = 92" "rest = e # r2" "json_escape e r2 = Ok (c, r3)"
      "string_loop (outp @ run_text @ [c]) r3 = Ok (s, r)"
      by (auto simp: string_loop.simps [of outp bs] Let_def after split: list.splits sum.splits if_splits)
    have "wf_str s \<and> length r < length r3"
      using 1(1) [of "takeWhile plain_byte bs" "dropWhile plain_byte bs" b rest e r2 "(c, r3)" c r3 run_text]
        * run after wf 1(3) json_escape_scalar [OF *(3)] by auto
    then show ?thesis using json_escape_length [OF *(3)] *(2) le by simp
  qed
qed

lemma json_string_Ok: "json_string bs = Ok (s, r) \<Longrightarrow> wf_str s \<and> length r < length bs"
  using string_loop_Ok [of "[]" "drop 1 bs" s r] by (auto simp: json_string_def)

text \<open>What the loops rely on in the reader of the nested values: what it returns is well formed at its
  depth, and it consumes input.\<close>

locale value_reader =
  fixes pv :: "nat list \<Rightarrow> json presult" and d :: nat
  assumes pv_Ok: "pv bs = Ok (v, r) \<Longrightarrow> json_wf d v \<and> length r < length bs"
begin

lemma items_Ok:
  "json_items pv n items bs = Ok (v, r) \<Longrightarrow> \<forall>i \<in> set items. json_wf d i \<Longrightarrow>
   \<exists>vs. v = JArray vs \<and> (\<forall>i \<in> set vs. json_wf d i) \<and> length r < length bs"
proof (induction n arbitrary: items bs)
  case (Suc n)
  then obtain u q where u: "pv (skip_ws bs) = Ok (u, q)" by auto
  have wf: "json_wf d u" and q: "length q < length bs"
    using pv_Ok [OF u] length_skip_ws [of bs] by auto
  have le: "length (drop k (skip_ws q)) \<le> length q" for k
    using length_skip_ws [of q] by simp
  have wf': "\<forall>i \<in> set (items @ [u]). json_wf d i" using wf Suc.prems(2) by simp
  show ?case
  proof (cases "take 1 (skip_ws q) = [44]")
    case True
    with Suc.prems(1) u have "json_items pv n (items @ [u]) (drop 1 (skip_ws q)) = Ok (v, r)"
      by simp
    from Suc.IH [OF this wf'] obtain vs
      where "v = JArray vs" "\<forall>i \<in> set vs. json_wf d i" "length r < length (drop 1 (skip_ws q))"
      by blast
    then show ?thesis using q le [of 1] by simp
  next
    case False
    with Suc.prems(1) u have "v = JArray (items @ [u])" "r = drop 1 (skip_ws q)"
      by (simp_all add: Let_def split: if_splits)
    then show ?thesis using wf' q le [of 1] by simp
  qed
qed simp

lemma array_Ok:
  assumes "json_array pv d bs = Ok (v, r)" "d = Suc e" "bs \<noteq> []"
  shows "json_wf e v \<and> length r < length bs"
proof -
  let ?q = "skip_ws (drop 1 bs)"
  have d: "e < MAX_JSON_DEPTH" and le: "length (drop k ?q) < length bs" for k
    using assms length_skip_ws [of "drop 1 bs"]
    by (cases bs; auto simp: json_array_def split: if_splits)+
  consider "v = JArray []" "r = drop 1 ?q" | "json_items pv (Suc (length ?q)) [] ?q = Ok (v, r)"
    using assms(1) by (auto simp: json_array_def Let_def split: if_splits)
  then show ?thesis
  proof cases
    case 1
    then show ?thesis using d le by simp
  next
    case 2
    then show ?thesis using items_Ok [OF 2] d le [of 0] assms(2) by auto
  qed
qed

lemma members_Ok:
  "json_members pv n members bs = Ok (v, r) \<Longrightarrow> distinct (map fst members) \<Longrightarrow>
   \<forall>m \<in> set members. wf_str (fst m) \<and> json_wf d (snd m) \<Longrightarrow>
   \<exists>ms. v = JObject ms \<and> distinct (map fst ms) \<and> (\<forall>m \<in> set ms. wf_str (fst m) \<and> json_wf d (snd m)) \<and>
     length r < length bs"
proof (induction n arbitrary: members bs)
  case (Suc n)
  let ?r0 = "skip_ws bs"
  obtain key r1 u q where key: "json_string ?r0 = Ok (key, r1)" "key \<notin> set (map fst members)"
    and u: "pv (skip_ws (drop 1 (skip_ws r1))) = Ok (u, q)"
    and rest: "(if take 1 (skip_ws q) = [44] then json_members pv n (members @ [(key, u)]) (drop 1 (skip_ws q))
      else if take 1 (skip_ws q) = [125] then Ok (JObject (members @ [(key, u)]), drop 1 (skip_ws q))
      else Err (skip_ws q, ''expected ',' or '}'' @ [CHR 0x27])) = Ok (v, r)"
    using Suc.prems(1) by (auto simp: Let_def split: if_splits)
  have "length q < length bs"
    using pv_Ok [OF u] json_string_Ok [OF key(1)] length_skip_ws [of bs] length_skip_ws [of r1]
      length_skip_ws [of "drop 1 (skip_ws r1)"] by auto
  then have q: "length (drop 1 (skip_ws q)) < length bs"
    using length_skip_ws [of q] by simp
  let ?ms = "members @ [(key, u)]"
  have wf': "distinct (map fst ?ms)" "\<forall>m \<in> set ?ms. wf_str (fst m) \<and> json_wf d (snd m)"
    using Suc.prems key json_string_Ok [OF key(1)] pv_Ok [OF u] by auto
  show ?case
  proof (cases "take 1 (skip_ws q) = [44]")
    case True
    with rest have "json_members pv n ?ms (drop 1 (skip_ws q)) = Ok (v, r)" by simp
    from Suc.IH [OF this wf'] show ?thesis using q by auto
  next
    case False
    with rest have "v = JObject ?ms" "r = drop 1 (skip_ws q)" by (simp_all split: if_splits)
    then show ?thesis using wf' q by blast
  qed
qed simp

lemma object_Ok:
  assumes "json_object pv d bs = Ok (v, r)" "d = Suc e" "bs \<noteq> []"
  shows "json_wf e v \<and> length r < length bs"
proof -
  let ?q = "skip_ws (drop 1 bs)"
  have d: "e < MAX_JSON_DEPTH" and le: "length (drop k ?q) < length bs" for k
    using assms length_skip_ws [of "drop 1 bs"]
    by (cases bs; auto simp: json_object_def split: if_splits)+
  consider "v = JObject []" "r = drop 1 ?q" | "json_members pv (Suc (length ?q)) [] ?q = Ok (v, r)"
    using assms(1) by (auto simp: json_object_def Let_def split: if_splits)
  then show ?thesis
  proof cases
    case 1
    then show ?thesis using d le by simp
  next
    case 2
    then show ?thesis using members_Ok [OF 2] d le [of 0] assms(2) by auto
  qed
qed

end

lemma json_value_reader: "value_reader (json_value n d) d"
proof (induction n arbitrary: d)
  case 0
  show ?case by unfold_locales simp
next
  case (Suc n)
  show ?case
  proof
    fix bs v r
    assume ok: "json_value (Suc n) d bs = Ok (v, r)"
    then obtain b q where bs: "bs = b # q" by (cases bs) simp_all
    consider (array) "json_array (json_value n (Suc d)) (Suc d) bs = Ok (v, r)"
      | (object) "json_object (json_value n (Suc d)) (Suc d) bs = Ok (v, r)"
      | (str) s where "json_string bs = Ok (s, r)" "v = JString s"
      | (number) "json_number bs = Ok (v, r)" "b = 45 \<or> is_digit b"
      | (other) "v \<in> {JNull, JBool True, JBool False}" "length r < length bs"
      using ok by (auto simp: bs json_literal_def split: if_splits)
    then show "json_wf d v \<and> length r < length bs"
    proof cases
      case array
      then show ?thesis using value_reader.array_Ok [OF Suc.IH array] bs by blast
    next
      case object
      then show ?thesis using value_reader.object_Ok [OF Suc.IH object] bs by blast
    next
      case str
      then show ?thesis using json_string_Ok [OF str(1)] by simp
    next
      case number
      then obtain t where "v = JNumber t" "number_text t" "bs = t @ r" using json_number_Ok by blast
      then show ?thesis using number_text_head [of t] by auto
    qed auto
  qed
qed

interpretation json_reader: value_reader "json_value n d" d for n d
  by (rule json_value_reader)

section \<open>Errors\<close>

text \<open>An error is admissible when it points into the input and is not the model's own.\<close>

definition error_at :: "nat list \<Rightarrow> nat list \<times> string \<Rightarrow> bool" where
  "error_at bs e \<longleftrightarrow> length (fst e) \<le> length bs \<and> snd e \<noteq> ''out of fuel''"

lemma error_at_mono: "error_at bs e \<Longrightarrow> length bs \<le> length bs' \<Longrightarrow> error_at bs' e"
  by (simp add: error_at_def)

lemma hex_digits_Err: "hex_digits n v bs = Err e \<Longrightarrow> error_at bs e"
  by (induction n v bs rule: hex_digits.induct) (auto simp: error_at_def split: option.splits)

lemma hex4_Ok: "hex4 bs = Ok (v, r) \<Longrightarrow> length r \<le> length bs"
  using hex_digits_length [of 4 0 bs v r] by (simp add: hex4_def)

lemma hex4_Err: "hex4 bs = Err e \<Longrightarrow> error_at bs e"
  by (simp add: hex4_def hex_digits_Err)

lemma unicode_escape_Err:
  assumes "unicode_escape bs = Err e"
  shows "error_at bs e"
proof (cases "hex4 bs")
  case (Inl x)
  then show ?thesis using assms hex4_Err [OF Inl] by (simp add: unicode_escape_def)
next
  case (Inr p)
  obtain c r where p: "p = (c, r)" by (cases p)
  have r: "length r \<le> length bs" using hex4_Ok Inr p by simp
  have r2: "length q \<le> length bs" if "hex4 (drop 2 r) = Ok (c2, q)" for c2 q
    using hex4_Ok [OF that] r by simp
  have e2: "error_at bs x" if "hex4 (drop 2 r) = Err x" for x
    using error_at_mono [OF hex4_Err [OF that]] r by simp
  show ?thesis
    using assms Inr p r r2
    by (auto simp: unicode_escape_def and_then_Err_iff split: if_splits dest: e2)
       (auto simp: error_at_def)
qed

lemma json_escape_Err: "json_escape c bs = Err e \<Longrightarrow> error_at bs e"
  by (auto simp: json_escape_def split: if_splits dest: unicode_escape_Err) (simp add: error_at_def)

lemma string_loop_Err: "string_loop outp bs = Err e \<Longrightarrow> error_at bs e"
proof (induction outp bs rule: string_loop.induct)
  case (1 outp bs)
  have le: "length (dropWhile plain_byte bs) \<le> length bs" by (rule length_dropWhile_le)
  consider (here) "length (fst e) \<le> length (dropWhile plain_byte bs)" "snd e \<noteq> ''out of fuel''"
    | (escape) c r where "dropWhile plain_byte bs = 92 # c # r" "json_escape c r = Err e"
    | (loop) run_text c r x q where "utf8_decode (takeWhile plain_byte bs) = Some run_text"
        "dropWhile plain_byte bs = 92 # c # r" "json_escape c r = Ok (x, q)"
        "string_loop (outp @ run_text @ [x]) q = Err e"
  proof (cases "utf8_decode (takeWhile plain_byte bs)")
    case None
    then have "e = (dropWhile plain_byte bs, ''invalid UTF-8'')"
      using 1(2) by (simp add: string_loop.simps [of outp bs] Let_def)
    then show thesis using here by simp
  next
    case (Some run_text)
    show thesis
    proof (cases "dropWhile plain_byte bs")
      case Nil
      then have "e = ([], ''unterminated string'')"
        using 1(2) Some by (simp add: string_loop.simps [of outp bs] del: dropWhile_eq_Nil_conv)
      then show thesis using here by simp
    next
      case (Cons b r)
      then show thesis
        using 1(2) Some here escape loop
        by (auto simp: string_loop.simps [of outp bs] Let_def split: if_splits list.splits sum.splits)
    qed
  qed
  then show ?case
  proof cases
    case here
    then show ?thesis using le by (simp add: error_at_def)
  next
    case escape
    then show ?thesis using error_at_mono [OF json_escape_Err [OF escape(2)]] le by simp
  next
    case loop
    have "error_at q e"
      using 1(1) [of "takeWhile plain_byte bs" "dropWhile plain_byte bs" 92 "c # r" c r "(x, q)" x q run_text]
        loop by simp
    then show ?thesis using error_at_mono json_escape_length [OF loop(3)] loop(2) le by fastforce
  qed
qed

lemma number_Err:
  "number_int bs = Err e \<Longrightarrow> error_at bs e"
  "number_frac bs = Err e \<Longrightarrow> error_at bs e"
  "number_exp bs = Err e \<Longrightarrow> error_at bs e"
  by (auto simp: number_int_def number_frac_def number_exp_def error_at_def Let_def
      split: list.splits if_splits)

lemma json_number_Err:
  assumes "json_number bs = Err e"
  shows "error_at bs e"
proof -
  have le: "length (skip_minus bs) \<le> length bs"
    using skip_minus_split [of bs] by (metis length_append le_add2)
  have ok: "length r \<le> length q" if "number_int q = Ok r \<or> number_frac q = Ok r \<or> number_exp q = Ok r" for q r
    using that by (auto dest!: number_int_Ok number_frac_Ok number_exp_Ok)
  consider "number_int (skip_minus bs) = Err e"
    | r1 where "number_int (skip_minus bs) = Ok r1" "number_frac r1 = Err e"
    | r1 r2 where "number_int (skip_minus bs) = Ok r1" "number_frac r1 = Ok r2" "number_exp r2 = Err e"
    | r1 r2 r3 where "number_int (skip_minus bs) = Ok r1" "number_frac r1 = Ok r2" "number_exp r2 = Ok r3"
        "e = (r3, ''invalid number'')"
    using assms by (auto simp: json_number_def and_then_Err_iff ok_or_def split: option.splits)
  then show ?thesis
  proof cases
    case 1
    then show ?thesis using error_at_mono [OF number_Err(1) [OF 1] le] by simp
  next
    case 2
    then show ?thesis using error_at_mono [OF number_Err(2) [OF 2(2)]] ok le le_trans by blast
  next
    case 3
    then show ?thesis using error_at_mono [OF number_Err(3) [OF 3(3)]] ok le le_trans by metis
  next
    case 4
    then have "length r3 \<le> length bs" using ok le le_trans by metis
    then show ?thesis using 4(4) by (simp add: error_at_def)
  qed
qed

text \<open>A reader whose own errors are admissible: the loops then never run out of fuel either.\<close>

locale total_value_reader = value_reader +
  assumes pv_Err: "pv bs = Err e \<Longrightarrow> error_at bs e"
begin

lemma pv_skip_Err: "pv (skip_ws q) = Err e \<Longrightarrow> length q \<le> length bs \<Longrightarrow> error_at bs e"
  using error_at_mono [OF pv_Err] length_skip_ws [of q] le_trans by blast

lemma items_Err:
  "json_items pv n items bs = Err e \<Longrightarrow> length bs < n \<Longrightarrow> error_at bs e"
proof (induction n arbitrary: items bs)
  case (Suc n)
  show ?case
  proof (cases "pv (skip_ws bs)")
    case (Inl x)
    then show ?thesis using Suc.prems(1) pv_skip_Err [OF Inl] by simp
  next
    case (Inr p)
    obtain u q where p: "p = (u, q)" by (cases p)
    have q: "length q < length bs"
      using pv_Ok [of "skip_ws bs" u q] Inr p length_skip_ws [of bs] by simp
    then have le: "length (skip_ws q) < length bs" using length_skip_ws [of q] by simp
    show ?thesis
    proof (cases "take 1 (skip_ws q) = [44]")
      case True
      then have "json_items pv n (items @ [u]) (drop 1 (skip_ws q)) = Err e"
        using Suc.prems(1) Inr p by simp
      from error_at_mono [OF Suc.IH [OF this]] show ?thesis using le Suc.prems(2) by simp
    next
      case False
      then have "e = (skip_ws q, ''expected ',' or ']'' @ [CHR 0x27])"
        using Suc.prems(1) Inr p by (auto simp: Let_def split: if_splits)
      then show ?thesis using le by (simp add: error_at_def)
    qed
  qed
qed simp

lemma array_Err:
  assumes "json_array pv k bs = Err e"
  shows "error_at bs e"
proof -
  let ?r = "skip_ws (drop 1 bs)"
  have "e = (bs, ''nesting too deep'') \<or> json_items pv (Suc (length ?r)) [] ?r = Err e"
    using assms by (simp add: json_array_def Let_def split: if_splits)
  then consider "e = (bs, ''nesting too deep'')" | "json_items pv (Suc (length ?r)) [] ?r = Err e"
    by blast
  then show ?thesis
  proof cases
    case 2
    have "error_at ?r e" by (rule items_Err [OF 2]) simp
    then show ?thesis by (rule error_at_mono) (use length_skip_ws [of "drop 1 bs"] in simp)
  qed (simp add: error_at_def)
qed

lemma members_Err:
  "json_members pv n members bs = Err e \<Longrightarrow> length bs < n \<Longrightarrow> error_at bs e"
proof (induction n arbitrary: members bs)
  case (Suc n)
  let ?r0 = "skip_ws bs"
  have le0: "length ?r0 \<le> length bs" by (rule length_skip_ws)
  show ?case
  proof (cases "json_string ?r0")
    case (Inl x)
    then have "error_at (drop 1 ?r0) x" by (auto simp: json_string_def dest: string_loop_Err)
    then have "error_at bs x" by (rule error_at_mono) (use le0 in simp)
    then show ?thesis using Suc.prems(1) Inl le0 by (auto simp: Let_def error_at_def split: if_splits)
  next
    case (Inr p)
    obtain key r1 where p: "p = (key, r1)" by (cases p)
    let ?r2 = "skip_ws r1"
    have r1: "length r1 < length bs" using json_string_Ok [of ?r0 key r1] Inr p le0 by simp
    then have r2: "length ?r2 < length bs" using length_skip_ws [of r1] by simp
    show ?thesis
    proof (cases "take 1 ?r0 \<noteq> [34] \<or> key \<in> set (map fst members) \<or> take 1 ?r2 \<noteq> [58]")
      case True
      then show ?thesis
        using Suc.prems(1) Inr p le0 r2 by (auto simp: Let_def error_at_def split: if_splits)
    next
      case colon: False
      show ?thesis
      proof (cases "pv (skip_ws (drop 1 ?r2))")
        case x: (Inl x)
        then show ?thesis using Suc.prems(1) Inr p colon pv_skip_Err [OF x, of bs] r2 by (simp add: Let_def)
      next
        case y: (Inr y)
        obtain u q where y': "y = (u, q)" by (cases y)
        have "length q < length bs"
          using pv_Ok [of "skip_ws (drop 1 ?r2)" u q] y y' length_skip_ws [of "drop 1 ?r2"] r2 by auto
        then have le: "length (skip_ws q) < length bs" using length_skip_ws [of q] by simp
        show ?thesis
        proof (cases "take 1 (skip_ws q) = [44]")
          case True
          then have "json_members pv n (members @ [(key, u)]) (drop 1 (skip_ws q)) = Err e"
            using Suc.prems(1) Inr p colon y y' by (simp add: Let_def)
          from error_at_mono [OF Suc.IH [OF this]] show ?thesis using le Suc.prems(2) by simp
        next
          case False
          then have "e = (skip_ws q, ''expected ',' or '}'' @ [CHR 0x27])"
            using Suc.prems(1) Inr p colon y y' by (simp add: Let_def split: if_splits)
          then show ?thesis using le by (simp add: error_at_def)
        qed
      qed
    qed
  qed
qed simp

lemma object_Err:
  assumes "json_object pv k bs = Err e"
  shows "error_at bs e"
proof -
  let ?r = "skip_ws (drop 1 bs)"
  have "e = (bs, ''nesting too deep'') \<or> json_members pv (Suc (length ?r)) [] ?r = Err e"
    using assms by (simp add: json_object_def Let_def split: if_splits)
  then consider "e = (bs, ''nesting too deep'')" | "json_members pv (Suc (length ?r)) [] ?r = Err e"
    by blast
  then show ?thesis
  proof cases
    case 2
    have "error_at ?r e" by (rule members_Err [OF 2]) simp
    then show ?thesis by (rule error_at_mono) (use length_skip_ws [of "drop 1 bs"] in simp)
  qed (simp add: error_at_def)
qed

end

lemma json_value_total:
  "d \<le> MAX_JSON_DEPTH \<Longrightarrow> MAX_JSON_DEPTH < n + d \<Longrightarrow> total_value_reader (json_value n d) d"
proof (induction n arbitrary: d)
  case 0
  then show ?case by simp
next
  case (Suc n)
  show ?case
  proof (intro total_value_reader.intro json_value_reader total_value_reader_axioms.intro)
    fix bs e
    assume err: "json_value (Suc n) d bs = Err e"
    have nested: "total_value_reader (json_value n (Suc d)) (Suc d)" if "Suc d \<le> MAX_JSON_DEPTH"
      using Suc that by simp
    have deep: "e = (bs, ''nesting too deep'')"
      if "json_array pv (Suc d) bs = Err e \<or> json_object pv (Suc d) bs = Err e" "\<not> Suc d \<le> MAX_JSON_DEPTH"
      for pv using that by (auto simp: json_array_def json_object_def)
    consider (array) "json_array (json_value n (Suc d)) (Suc d) bs = Err e"
      | (object) "json_object (json_value n (Suc d)) (Suc d) bs = Err e"
      | (str) "json_string bs = Err e"
      | (number) "json_number bs = Err e"
      | (here) "e = (bs, ''invalid literal'') \<or> e = (bs, ''expected a value'')"
      using err by (cases bs) (auto simp: json_literal_def and_then_Err_iff split: if_splits)
    then show "error_at bs e"
    proof cases
      case array
      then show ?thesis
        using total_value_reader.array_Err [OF nested array] deep [OF disjI1 [OF array]]
        by (cases "Suc d \<le> MAX_JSON_DEPTH") (simp_all add: error_at_def)
    next
      case object
      then show ?thesis
        using total_value_reader.object_Err [OF nested object] deep [OF disjI2 [OF object]]
        by (cases "Suc d \<le> MAX_JSON_DEPTH") (simp_all add: error_at_def)
    next
      case str
      then have "error_at (drop 1 bs) e" by (auto simp: json_string_def dest: string_loop_Err)
      then show ?thesis by (rule error_at_mono) simp
    next
      case number
      then show ?thesis by (rule json_number_Err)
    next
      case here
      then show ?thesis by (auto simp: error_at_def)
    qed
  qed
qed

interpretation json_top: total_value_reader "json_value value_fuel 0" 0
  by (rule json_value_total) (simp_all add: value_fuel_def)

lemma json_parse_bytes_Err: "json_parse_bytes bs = Err e \<Longrightarrow> error_at bs e"
proof -
  assume err: "json_parse_bytes bs = Err e"
  show ?thesis
  proof (cases "json_value value_fuel 0 (skip_ws bs)")
    case (Inl x)
    then show ?thesis using err json_top.pv_skip_Err [OF Inl] by (simp add: json_parse_bytes_def)
  next
    case (Inr p)
    obtain v r where p: "p = (v, r)" by (cases p)
    have "length (skip_ws r) \<le> length bs"
      using json_reader.pv_Ok [of value_fuel 0 "skip_ws bs" v r] Inr p length_skip_ws [of bs] length_skip_ws [of r] by simp
    moreover have "e = (skip_ws r, ''trailing content'')"
      using err Inr p by (simp add: json_parse_bytes_def Let_def split: if_splits)
    ultimately show ?thesis by (simp add: error_at_def)
  qed
qed

text \<open>The recursion limits of the model are never what rejects a text.\<close>

lemma json_parse_fuel:
  assumes "json_parse text = Err e"
  shows "err_reason e \<noteq> ''out of fuel''"
proof (cases "length (utf8_nats text) > MAX_JSON_BYTES")
  case True
  then show ?thesis using assms by (auto simp: json_parse_def)
next
  case False
  then obtain x where "json_parse_bytes (utf8_nats text) = Err x" "err_reason e = snd x"
    using assms by (auto simp: json_parse_def Let_def split: sum.splits)
  then show ?thesis using json_parse_bytes_Err by (simp add: error_at_def)
qed

section \<open>Where a text is refused\<close>

text \<open>\<open>refused_at before rest reason\<close>: what precedes the defect, the text from the defect on, and the reason.\<close>

inductive refused_at :: "rstr \<Rightarrow> rstr \<Rightarrow> string \<Rightarrow> bool" where
  trailing: "json_wf 0 (JObject ms) \<Longrightarrow> list_all is_ws w \<Longrightarrow> \<not> is_ws c \<Longrightarrow>
    refused_at (json_write (JObject ms) @ w) (c # junk) ''trailing content''"
| duplicate: "json_wf 0 (JObject ms) \<Longrightarrow> k \<in> fst ` set ms \<Longrightarrow>
    refused_at ([123] @ write_members ms @ [44]) (write_string k @ junk) ''duplicate object key''"
| nesting: "refused_at (replicate MAX_JSON_DEPTH 91) (91 # junk) ''nesting too deep''"
| zero: "neg = [] \<or> neg = [45] \<Longrightarrow> is_digit d \<Longrightarrow> refused_at (neg @ [48]) (d # junk) ''leading zero''"

lemma utf8_char_head: "\<exists>b w. utf8_char c = b # w \<and> (is_ws b \<longleftrightarrow> is_ws c)"
  by (auto simp: utf8_char_def is_ws_def)

lemma skip_ws_append: "list_all is_ws w \<Longrightarrow> skip_ws (w @ r) = skip_ws r"
  by (simp add: skip_ws_def dropWhile_list_all)

lemma top_object_members:
  assumes "json_wf 0 (JObject ms)"
  shows "list_all (reads_back (json_value 64 1) \<circ> snd) ms" "list_all (wf_str \<circ> fst) ms" "distinct (map fst ms)"
proof -
  have "reads_back (json_value 64 1) v" if "json_wf 1 v" for v
    unfolding reads_back_def using json_value_written [of 1 v 64] written_head [OF that] that by (auto simp: MAX_JSON_DEPTH_def)
  then show "list_all (reads_back (json_value 64 1) \<circ> snd) ms" "list_all (wf_str \<circ> fst) ms" "distinct (map fst ms)"
    using assms by (auto simp: list_all_iff)
qed

lemma value_object: "json_value value_fuel 0 (123 # bs) = json_object (json_value 64 1) 1 (123 # bs)"
proof -
  have "value_fuel = Suc 64" by (simp add: value_fuel_def MAX_JSON_DEPTH_def)
  moreover have "json_value (Suc 64) 0 (123 # bs) = json_object (json_value 64 (0 + 1)) (0 + 1) (123 # bs)"
    by (subst json_value.simps(2)) (simp add: is_digit_def)
  ultimately show ?thesis by simp
qed

lemma trailing_refused:
  assumes "json_wf 0 (JObject ms)" "list_all is_ws w" "\<not> is_ws c"
  shows "json_parse_bytes (utf8_nats (json_write (JObject ms) @ w) @ utf8_nats (c # junk)) = Err (utf8_nats (c # junk), ''trailing content'')"
proof -
  note M = top_object_members [OF assms(1)]
  obtain b q where c: "utf8_char c = b # q" "\<not> is_ws b" using utf8_char_head [of c] assms(3) by auto
  let ?r = "w @ b # q @ utf8_nats junk"
  have w: "utf8_nats w = w" using assms(2) by (intro utf8_ascii) (auto simp: list_all_iff is_ws_def)
  have obj: "json_object (json_value 64 1) 1 (written (JObject ms) @ ?r) = Ok (JObject ms, ?r)"
    by (rule json_object_written [OF M]) (simp add: MAX_JSON_DEPTH_def)
  have "json_value value_fuel 0 (written (JObject ms) @ ?r) = Ok (JObject ms, ?r)"
    using obj by (simp add: written_simps value_object)
  moreover have "skip_ws (written (JObject ms) @ ?r) = written (JObject ms) @ ?r" by (simp add: written_simps is_ws_def)
  ultimately have "json_parse_bytes (written (JObject ms) @ ?r) = Err (b # q @ utf8_nats junk, ''trailing content'')"
    using skip_ws_append [OF assms(2), of "b # q @ utf8_nats junk"] c(2) by (simp add: json_parse_bytes_def)
  then show ?thesis using c w by (simp add: written_def)
qed

lemma members_duplicate:
  "list_all (reads_back pv \<circ> snd) ms \<Longrightarrow> list_all (wf_str \<circ> fst) ms \<Longrightarrow> distinct (map fst (members @ ms)) \<Longrightarrow>
   k \<in> fst ` set (members @ ms) \<Longrightarrow> wf_str k \<Longrightarrow> ms \<noteq> [] \<Longrightarrow> length ms < n \<Longrightarrow>
   json_members pv n members (utf8_nats (write_members ms) @ 44 # utf8_nats (write_string k) @ r) =
     Err (utf8_nats (write_string k) @ r, ''duplicate object key'')"
proof (induction ms arbitrary: members n rule: induct_list012)
  case (2 p)
  then obtain j where j: "n = Suc (Suc j)" by (cases n; cases "n - 1") auto
  have "json_string (utf8_nats (write_string k) @ r) = Ok (k, r)" using json_string_write 2(5) by blast
  with 2 j json_string_write [of "fst p" "58 # written (snd p) @ 44 # utf8_nats (write_string k) @ r"]
  show ?case
    by (auto simp add: write_members_written reads_back_skip reads_back_Ok write_string_def simp del: write_members.simps)
next
  case (3 p q ms)
  then obtain j where j: "n = Suc j" "length (q # ms) < j" by (cases n) auto
  let ?tail = "44 # utf8_nats (write_string k) @ r"
  have "json_members pv j (members @ [p]) (utf8_nats (write_members (q # ms)) @ ?tail) =
      Err (utf8_nats (write_string k) @ r, ''duplicate object key'')"
    using 3 j(2) by (intro "3.IH"(2)) auto
  with 3(3-) j(1) json_string_write [of "fst p" "58 # written (snd p) @ 44 # utf8_nats (write_members (q # ms)) @ ?tail"]
  show ?case
    by (auto simp add: write_members_written reads_back_skip reads_back_Ok write_string_def simp del: write_members.simps)
qed simp

lemma duplicate_refused:
  assumes "json_wf 0 (JObject ms)" "k \<in> fst ` set ms"
  shows "json_parse_bytes (utf8_nats ([123] @ write_members ms @ [44]) @ utf8_nats (write_string k @ junk)) =
    Err (utf8_nats (write_string k @ junk), ''duplicate object key'')"
proof -
  note M = top_object_members [OF assms(1)]
  have k: "wf_str k" "ms \<noteq> []" using assms(2) M(2) by (auto simp: list_all_iff)
  let ?tail = "utf8_nats (write_string k) @ utf8_nats junk"
  let ?bs = "utf8_nats (write_members ms) @ 44 # ?tail"
  obtain m ms' where "ms = m # ms'" using k(2) by (cases ms) simp_all
  then obtain w where "utf8_nats (write_members ms) = 34 # w"
    by (cases ms') (auto simp: write_members_written write_string_def simp del: write_members.simps)
  then have "skip_ws ?bs = ?bs" "take 1 ?bs \<noteq> [125]" by simp_all
  moreover have "json_members (json_value 64 1) (Suc (length ?bs)) [] ?bs = Err (?tail, ''duplicate object key'')"
    using length_write_members [of ms] assms(2) k by (intro members_duplicate M) (simp_all add: M)
  ultimately have "json_object (json_value 64 1) 1 (123 # ?bs) = Err (?tail, ''duplicate object key'')"
    by (simp add: json_object_def MAX_JSON_DEPTH_def)
  then show ?thesis by (simp add: json_parse_bytes_def value_object is_ws_def)
qed

lemma value_array: "json_value (Suc n) d (91 # bs) = json_array (json_value n (d + 1)) (d + 1) (91 # bs)"
  by (simp add: is_digit_def)

lemma brackets_head: "\<exists>bs. replicate n 91 @ 91 # r = 91 # bs"
  by (cases n) simp_all

lemma nesting_Err:
  "n + d = MAX_JSON_DEPTH \<Longrightarrow>
   json_value (Suc n) d (replicate n 91 @ 91 # r) = Err (91 # r, ''nesting too deep'')"
proof (induction n arbitrary: d)
  case 0
  then show ?case by (simp add: json_array_def is_digit_def)
next
  case (Suc n)
  have inner: "json_value (Suc n) (d + 1) (replicate n 91 @ 91 # r) = Err (91 # r, ''nesting too deep'')"
    using Suc.prems by (intro Suc.IH) simp
  obtain bs where bs: "replicate n 91 @ 91 # r = 91 # bs" using brackets_head [of n r] by blast
  have "json_value (Suc (Suc n)) d (replicate (Suc n) 91 @ 91 # r) = json_value (Suc (Suc n)) d (91 # 91 # bs)" using bs by simp
  also have "\<dots> = json_array (json_value (Suc n) (d + 1)) (d + 1) (91 # 91 # bs)" by (rule value_array)
  also have "\<dots> = Err (91 # r, ''nesting too deep'')"
    using inner Suc.prems by (simp add: json_array_def bs is_ws_def del: json_value.simps)
  finally show ?case .
qed

lemma nesting_refused:
  "json_parse_bytes (utf8_nats (replicate MAX_JSON_DEPTH 91) @ utf8_nats (91 # junk)) = Err (utf8_nats (91 # junk), ''nesting too deep'')"
proof -
  let ?bs = "replicate MAX_JSON_DEPTH 91 @ 91 # utf8_nats junk"
  have "skip_ws ?bs = ?bs" using brackets_head [of MAX_JSON_DEPTH "utf8_nats junk"] by (auto simp: is_ws_def)
  moreover have "json_value value_fuel 0 ?bs = Err (91 # utf8_nats junk, ''nesting too deep'')"
    using nesting_Err [of MAX_JSON_DEPTH 0 "utf8_nats junk"] by (simp only: value_fuel_def Suc_eq_plus1 add_0_right)
  moreover have "utf8_nats (replicate MAX_JSON_DEPTH 91) = replicate MAX_JSON_DEPTH 91" by (simp add: utf8_ascii list_all_iff)
  ultimately show ?thesis by (simp add: json_parse_bytes_def)
qed

lemma zero_refused:
  assumes "neg = [] \<or> neg = [45]" "is_digit d"
  shows "json_parse_bytes (utf8_nats (neg @ [48]) @ utf8_nats (d # junk)) = Err (utf8_nats (d # junk), ''leading zero'')"
proof -
  have "utf8_char d = [d]" using assms(2) by (simp add: is_digit_def)
  then show ?thesis using assms
    by (auto simp: json_parse_bytes_def value_fuel_def json_number_def number_int_def skip_minus_def is_digit_def is_ws_def)
qed

section \<open>Properties\<close>

text \<open>C14. The strict JSON reader inverts the writer: every value that is well formed (numbers in the
  grammar, Unicode strings, distinct keys in every object, nesting within the limit) and whose text is
  within the size limit is read back from its compact text exactly, with the members in their order and
  the number texts unchanged.\<close>

theorem json_roundtrip:
  assumes "json_wf 0 v" "length (utf8_nats (json_write v)) \<le> MAX_JSON_BYTES"
  shows "json_parse (json_write v) = Ok v"
  using json_parse_written assms by (simp add: written_def)

theorem json_roundtrip_witness:
  "\<exists>v. v = JObject [(lit ''a'', JArray [JNull, JBool True, JString (lit [CHR 0x22, CHR 0x0A])])] \<and>
     json_parse (json_write v) = Ok v"
proof (intro exI conjI)
  show "json_parse (json_write (JObject [(lit ''a'', JArray [JNull, JBool True, JString (lit [CHR 0x22, CHR 0x0A])])]))
      = Ok (JObject [(lit ''a'', JArray [JNull, JBool True, JString (lit [CHR 0x22, CHR 0x0A])])])"
    by (rule json_roundtrip)
       (simp_all add: MAX_JSON_DEPTH_def MAX_JSON_BYTES_def lit_def is_scalar_def write_string_def write_char_def)
qed simp

text \<open>C34. Whatever the reader accepts is well formed: the numbers follow the grammar of RFC 8259 (so no
  leading zero, no empty fraction or exponent), the strings hold Unicode scalar values only (no lone
  surrogate), no object has a duplicate key, and the nesting is within the limit.\<close>

theorem json_parse_well_formed:
  assumes "json_parse text = Ok v"
  shows "json_wf 0 v"
proof -
  obtain p where "json_parse_bytes (utf8_nats text) = Ok p" "v = fst p"
    using assms by (auto simp: json_parse_def Let_def split: if_splits sum.splits prod.splits)
  then obtain r where "json_value value_fuel 0 (skip_ws (utf8_nats text)) = Ok (v, r)"
    by (auto simp: json_parse_bytes_def Let_def split: if_splits)
  then show ?thesis by (simp add: json_reader.pv_Ok)
qed

theorem json_parse_well_formed_witness: "json_wf 0 (JNumber (lit ''-0.5e+10''))"
proof (rule json_parse_well_formed [of "lit ''-0.5e+10''"])
  have "json_parse_bytes (utf8_nats (lit ''-0.5e+10'')) = Ok (JNumber (lit ''-0.5e+10''), []) \<and>
      length (utf8_nats (lit ''-0.5e+10'')) = 8"
    by code_simp
  then show "json_parse (lit ''-0.5e+10'') = Ok (JNumber (lit ''-0.5e+10''))"
    by (simp add: json_parse_def MAX_JSON_BYTES_def)
qed



end
