(* ===== verification/CudaRt.thy ===== *)
theory CudaRt
  imports Rust_Str
begin

text \<open>
  The part of \<open>nnis-rt\<close> that every device-side component goes through: the error type of \<open>error.rs\<close>,
  \<open>Context::set_current\<close> (\<open>context.rs\<close>), streams and events (\<open>stream_event.rs\<close>), \<open>DeviceBuffer::new\<close>
  (\<open>memory.rs\<close>) and the ownership guard \<open>PendingGpuWork\<close> (\<open>async_work.rs\<close>).

  The CUDA driver is loaded at run time and is not code of the repository: it is the record \<open>cuda\<close> of
  its entry points, an argument of every definition, each a function on an abstract driver state.
  \<open>driver_ordered\<close> names the documented behaviour that the theorems rely on.  Host state is the driver
  state and the buffers whose ownership \<open>mem::forget\<close> gave up.  A value that is dropped frees or destroys what
  it owns (\<open>drop_with\<close>), whatever the driver answers.
\<close>

section \<open>Errors\<close>

record library_error =
  le_library :: string
  le_candidates :: "rstr list"
  le_detail :: rstr

datatype error_kind =
    DriverCode int
  | NvrtcCode int
  | CompileLog rstr
  | LibraryFailure library_error
  | UnsupportedRequest rstr
  | InvalidInput rstr
  | IoFailure rstr

record nnis_error =
  ne_kind :: error_kind
  ne_op :: rstr
  ne_context :: "(rstr \<times> rstr) list"

definition driver_error :: "string \<Rightarrow> int \<Rightarrow> nnis_error" where
  "driver_error op code = \<lparr>ne_kind = DriverCode code, ne_op = lit op, ne_context = []\<rparr>"

definition invalid_input :: "rstr \<Rightarrow> nnis_error" where
  "invalid_input what = \<lparr>ne_kind = InvalidInput what, ne_op = [], ne_context = []\<rparr>"

definition error_with :: "nnis_error \<Rightarrow> string \<Rightarrow> nat \<Rightarrow> nnis_error" where
  "error_with e key val = e\<lparr>ne_context := ne_context e @ [(lit key, dec val)]\<rparr>"

definition error_driver_code :: "nnis_error \<Rightarrow> int option" where
  "error_driver_code e = (case ne_kind e of DriverCode code \<Rightarrow> Some code | _ \<Rightarrow> None)"

definition error_of_library :: "library_error \<Rightarrow> nnis_error" where
  "error_of_library e = \<lparr>ne_kind = LibraryFailure e, ne_op = [], ne_context = []\<rparr>"

section \<open>The driver and the host state\<close>

record stream =
  stream_raw :: nat
  stream_ctx :: nat

record event =
  event_raw :: nat
  event_ctx :: nat

record device_buffer =
  buf_ptr :: nat
  buf_len :: nat
  buf_ctx :: nat

record 's cuda =
  cu_api :: "library_error + unit"
  cu_ctx_set_current :: "nat \<Rightarrow> 's \<Rightarrow> 's \<times> int"
  cu_mem_alloc :: "nat \<Rightarrow> 's \<Rightarrow> 's \<times> (int \<times> nat)"
  cu_memcpy_async :: "nat \<Rightarrow> nat \<Rightarrow> nat \<Rightarrow> nat \<Rightarrow> 's \<Rightarrow> 's \<times> int"
  cu_stream_synchronize :: "nat \<Rightarrow> 's \<Rightarrow> 's \<times> int"
  cu_stream_wait_event :: "nat \<Rightarrow> nat \<Rightarrow> 's \<Rightarrow> 's \<times> int"
  cu_event_create :: "'s \<Rightarrow> 's \<times> (int \<times> nat)"
  cu_event_record :: "nat \<Rightarrow> nat \<Rightarrow> 's \<Rightarrow> 's \<times> int"
  cu_event_synchronize :: "nat \<Rightarrow> 's \<Rightarrow> 's \<times> int"
  cu_mem_free :: "nat \<Rightarrow> 's \<Rightarrow> 's \<times> int"
  cu_memset_d8_async :: "nat \<Rightarrow> nat \<Rightarrow> nat \<Rightarrow> nat \<Rightarrow> 's \<Rightarrow> 's \<times> int"
  cu_memset_d32_async :: "nat \<Rightarrow> nat \<Rightarrow> nat \<Rightarrow> nat \<Rightarrow> 's \<Rightarrow> 's \<times> int"
  cu_memcpy_htod_async :: "nat \<Rightarrow> u8 list \<Rightarrow> nat \<Rightarrow> 's \<Rightarrow> 's \<times> int"
  cu_memcpy_dtoh_async :: "nat \<Rightarrow> nat \<Rightarrow> nat \<Rightarrow> 's \<Rightarrow> 's \<times> (int \<times> u8 list)"
  cu_stream_create :: "nat \<Rightarrow> 's \<Rightarrow> 's \<times> (int \<times> nat)"
  cu_stream_query :: "nat \<Rightarrow> 's \<Rightarrow> 's \<times> int"
  cu_stream_destroy :: "nat \<Rightarrow> 's \<Rightarrow> 's \<times> int"
  cu_event_query :: "nat \<Rightarrow> 's \<Rightarrow> 's \<times> int"
  cu_event_elapsed_time :: "nat \<Rightarrow> nat \<Rightarrow> 's \<Rightarrow> 's \<times> (int \<times> nat)"
  cu_event_destroy :: "nat \<Rightarrow> 's \<Rightarrow> 's \<times> int"
  cu_mem_pool_create :: "int \<Rightarrow> 's \<Rightarrow> 's \<times> (int \<times> nat)"
  cu_mem_pool_set_attribute :: "nat \<Rightarrow> nat \<Rightarrow> nat \<Rightarrow> 's \<Rightarrow> 's \<times> int"
  cu_mem_alloc_from_pool_async :: "nat \<Rightarrow> nat \<Rightarrow> nat \<Rightarrow> 's \<Rightarrow> 's \<times> (int \<times> nat)"
  cu_mem_free_async :: "nat \<Rightarrow> nat \<Rightarrow> 's \<Rightarrow> 's \<times> int"

record 's rt =
  gpu :: 's
  forgotten :: "device_buffer list"

type_synonym ('s, 'a) rt_comp = "'s rt \<Rightarrow> 's rt \<times> (nnis_error + 'a)"

definition rt_ok :: "'a \<Rightarrow> ('s, 'a) rt_comp" where
  "rt_ok a s = (s, Ok a)"

definition rt_lift :: "nnis_error + 'a \<Rightarrow> ('s, 'a) rt_comp" where
  "rt_lift r s = (s, r)"

definition rt_bind :: "('s, 'a) rt_comp \<Rightarrow> ('a \<Rightarrow> ('s, 'b) rt_comp) \<Rightarrow> ('s, 'b) rt_comp" where
  "rt_bind m k s = (case m s of (t, Inl e) \<Rightarrow> (t, Err e) | (t, Inr a) \<Rightarrow> k a t)"

definition rt_for :: "('a \<Rightarrow> ('s, unit) rt_comp) \<Rightarrow> 'a list \<Rightarrow> ('s, unit) rt_comp" where
  "rt_for f xs s = for_each_st (\<lambda>t x. f x t) s xs"

definition rt_forget :: "device_buffer list \<Rightarrow> 's rt \<Rightarrow> 's rt" where
  "rt_forget bs s = s\<lparr>forgotten := forgotten s @ bs\<rparr>"

lemma rt_simps [simp]:
  "rt_ok a s = (s, Ok a)"
  "rt_lift r s = (s, r)"
  "gpu (rt_forget bs s) = gpu s"
  "forgotten (rt_forget bs s) = forgotten s @ bs"
  by (simp_all add: rt_ok_def rt_lift_def rt_forget_def)

lemma rt_for_simps [simp]:
  "rt_for f [] = rt_ok ()"
  "rt_for f (x # xs) = rt_bind (f x) (\<lambda>_. rt_for f xs)"
  by (simp_all add: rt_for_def rt_bind_def fun_eq_iff split: prod.splits sum.splits)

text \<open>A raw driver call: a non-zero status is an error of the operation.\<close>

definition drv_call :: "string \<Rightarrow> ('s \<Rightarrow> 's \<times> int) \<Rightarrow> ('s, unit) rt_comp" where
  "drv_call op f s =
     (case f (gpu s) of (g, rc) \<Rightarrow>
        (s\<lparr>gpu := g\<rparr>, if rc \<noteq> 0 then Err (driver_error op rc) else Ok ()))"

definition drv_call_out :: "string \<Rightarrow> ('s \<Rightarrow> 's \<times> (int \<times> nat)) \<Rightarrow> ('s, nat) rt_comp" where
  "drv_call_out op f s =
     (case f (gpu s) of (g, rc, out_value) \<Rightarrow>
        (s\<lparr>gpu := g\<rparr>, if rc \<noteq> 0 then Err (driver_error op rc) else Ok out_value))"

definition driver_api :: "'s cuda \<Rightarrow> nnis_error + unit" where
  "driver_api drv = map_err error_of_library (cu_api drv)"

section \<open>Contexts, streams, events and buffers\<close>

definition set_current :: "'s cuda \<Rightarrow> nat \<Rightarrow> ('s, unit) rt_comp" where
  "set_current drv ctx =
     rt_bind (rt_lift (driver_api drv)) (\<lambda>_. drv_call ''cuCtxSetCurrent'' (cu_ctx_set_current drv ctx))"

definition stream_synchronize :: "'s cuda \<Rightarrow> stream \<Rightarrow> ('s, unit) rt_comp" where
  "stream_synchronize drv st =
     rt_bind (set_current drv (stream_ctx st)) (\<lambda>_.
     rt_bind (rt_lift (driver_api drv)) (\<lambda>_.
       drv_call ''cuStreamSynchronize'' (cu_stream_synchronize drv (stream_raw st))))"

definition stream_wait_event :: "'s cuda \<Rightarrow> stream \<Rightarrow> event \<Rightarrow> ('s, unit) rt_comp" where
  "stream_wait_event drv st ev =
     (if stream_ctx st \<noteq> event_ctx ev then
        rt_lift (Err (invalid_input (lit ''stream and event belong to different contexts'')))
      else
        rt_bind (set_current drv (stream_ctx st)) (\<lambda>_.
        rt_bind (rt_lift (driver_api drv)) (\<lambda>_.
          drv_call ''cuStreamWaitEvent'' (cu_stream_wait_event drv (stream_raw st) (event_raw ev)))))"

definition event_new :: "'s cuda \<Rightarrow> nat \<Rightarrow> ('s, event) rt_comp" where
  "event_new drv ctx =
     rt_bind (set_current drv ctx) (\<lambda>_.
     rt_bind (rt_lift (driver_api drv)) (\<lambda>_.
     rt_bind (drv_call_out ''cuEventCreate'' (cu_event_create drv)) (\<lambda>raw.
       rt_ok \<lparr>event_raw = raw, event_ctx = ctx\<rparr>)))"

definition event_record :: "'s cuda \<Rightarrow> event \<Rightarrow> stream \<Rightarrow> ('s, unit) rt_comp" where
  "event_record drv ev st =
     (if event_ctx ev \<noteq> stream_ctx st then
        rt_lift (Err (invalid_input (lit ''event and stream belong to different contexts'')))
      else
        rt_bind (set_current drv (event_ctx ev)) (\<lambda>_.
        rt_bind (rt_lift (driver_api drv)) (\<lambda>_.
          drv_call ''cuEventRecord'' (cu_event_record drv (event_raw ev) (stream_raw st)))))"

definition event_synchronize :: "'s cuda \<Rightarrow> event \<Rightarrow> ('s, unit) rt_comp" where
  "event_synchronize drv ev =
     rt_bind (set_current drv (event_ctx ev)) (\<lambda>_.
     rt_bind (rt_lift (driver_api drv)) (\<lambda>_.
       drv_call ''cuEventSynchronize'' (cu_event_synchronize drv (event_raw ev))))"

definition device_buffer_new :: "'s cuda \<Rightarrow> nat \<Rightarrow> nat \<Rightarrow> nat \<Rightarrow> ('s, device_buffer) rt_comp" where
  "device_buffer_new drv elem_size ctx len =
     rt_bind (rt_lift (ok_or (invalid_input (lit ''allocation size overflows usize'')) (checked_mul len elem_size)))
       (\<lambda>bytes.
     rt_bind (set_current drv ctx) (\<lambda>_.
     rt_bind (rt_lift (driver_api drv)) (\<lambda>_.
     rt_bind
       (if bytes > 0 then
          (\<lambda>s. case drv_call_out ''cuMemAlloc'' (cu_mem_alloc drv bytes) s of
             (t, Inl e) \<Rightarrow> (t, Err (error_with (error_with e ''bytes'' bytes) ''len'' len))
           | (t, Inr ptr) \<Rightarrow> (t, Ok ptr))
        else rt_ok 0) (\<lambda>ptr.
       rt_ok \<lparr>buf_ptr = ptr, buf_len = len, buf_ctx = ctx\<rparr>))))"

text \<open>\<open>Drop\<close>: when the driver is loaded, make the context current and destroy, whatever either returns.\<close>

definition drop_with :: "'s cuda \<Rightarrow> nat \<Rightarrow> ('s \<Rightarrow> 's \<times> int) \<Rightarrow> 's rt \<Rightarrow> 's rt" where
  "drop_with drv ctx call s =
     (case driver_api drv of
        Inl _ \<Rightarrow> s
      | Inr _ \<Rightarrow> (let t = fst (set_current drv ctx s) in t\<lparr>gpu := fst (call (gpu t))\<rparr>))"

definition device_buffer_drop :: "'s cuda \<Rightarrow> device_buffer \<Rightarrow> 's rt \<Rightarrow> 's rt" where
  "device_buffer_drop drv b s =
     (if buf_ptr b \<noteq> 0 then drop_with drv (buf_ctx b) (cu_mem_free drv (buf_ptr b)) s else s)"

section \<open>Pending work\<close>

record pending_work =
  pw_completion :: event
  pw_stream :: stream
  pw_resources :: "device_buffer list"

definition drain_or_leak :: "'s cuda \<Rightarrow> stream \<Rightarrow> device_buffer list \<Rightarrow> 's rt \<Rightarrow> 's rt" where
  "drain_or_leak drv st resources s =
     (case stream_synchronize drv st s of
        (t, Inl _) \<Rightarrow> rt_forget resources t
      | (t, Inr _) \<Rightarrow> t)"

definition from_enqueued :: "'s cuda \<Rightarrow> stream \<Rightarrow> device_buffer list \<Rightarrow> ('s, pending_work) rt_comp" where
  "from_enqueued drv st resources s =
     (case event_new drv (stream_ctx st) s of
        (t, Inl e) \<Rightarrow> (drain_or_leak drv st resources t, Err e)
      | (t, Inr completion) \<Rightarrow>
          (case event_record drv completion st t of
             (u, Inl e) \<Rightarrow> (drain_or_leak drv st resources u, Err e)
           | (u, Inr _) \<Rightarrow>
               (u, Ok \<lparr>pw_completion = completion, pw_stream = st, pw_resources = resources\<rparr>)))"

text \<open>Dropping unfinished work waits for it; \<open>wait\<close> drops it when its own wait fails.\<close>

definition pending_drop :: "'s cuda \<Rightarrow> pending_work \<Rightarrow> 's rt \<Rightarrow> 's rt" where
  "pending_drop drv w s =
     (case event_synchronize drv (pw_completion w) s of
        (t, Inl _) \<Rightarrow> rt_forget (pw_resources w) t
      | (t, Inr _) \<Rightarrow> t)"

definition pending_wait :: "'s cuda \<Rightarrow> pending_work \<Rightarrow> ('s, device_buffer list) rt_comp" where
  "pending_wait drv w s =
     (case event_synchronize drv (pw_completion w) s of
        (t, Inl e) \<Rightarrow> (pending_drop drv w t, Err e)
      | (t, Inr _) \<Rightarrow> (t, Ok (pw_resources w)))"

section \<open>What the driver promises\<close>

text \<open>\<open>copy_bytes\<close> is the effect of a copy on the memory.  \<open>driver_ordered\<close>: with \<open>content g\<close> the memory
  as it will be once the work submitted to the stream so far has run, an accepted copy between disjoint
  ranges appends its effect, a rejected one and every other call leave it as it was.\<close>

definition copy_bytes :: "nat \<Rightarrow> nat \<Rightarrow> nat \<Rightarrow> (nat \<Rightarrow> u8) \<Rightarrow> nat \<Rightarrow> u8" where
  "copy_bytes dst src n f = (\<lambda>a. if dst \<le> a \<and> a < dst + n then f (src + (a - dst)) else f a)"

definition ranges_disjoint :: "nat \<Rightarrow> nat \<Rightarrow> nat \<Rightarrow> nat \<Rightarrow> bool" where
  "ranges_disjoint a n b m \<longleftrightarrow> a + n \<le> b \<or> b + m \<le> a"

definition driver_ordered :: "'s cuda \<Rightarrow> nat \<Rightarrow> ('s \<Rightarrow> nat \<Rightarrow> u8) \<Rightarrow> bool" where
  "driver_ordered drv st content \<longleftrightarrow>
     (\<forall>ctx g. content (fst (cu_ctx_set_current drv ctx g)) = content g) \<and>
     (\<forall>x g. content (fst (cu_stream_synchronize drv x g)) = content g) \<and>
     (\<forall>x e g. content (fst (cu_stream_wait_event drv x e g)) = content g) \<and>
     (\<forall>g. content (fst (cu_event_create drv g)) = content g) \<and>
     (\<forall>e x g. content (fst (cu_event_record drv e x g)) = content g) \<and>
     (\<forall>e g. content (fst (cu_event_synchronize drv e g)) = content g) \<and>
     (\<forall>dst src n g. ranges_disjoint dst n src n \<longrightarrow>
        (case cu_memcpy_async drv dst src n st g of (g', rc) \<Rightarrow>
           content g' = (if rc = 0 then copy_bytes dst src n (content g) else content g)))"

text \<open>What a computation leaves alone.\<close>

definition rt_keeps :: "('s \<Rightarrow> 'c) \<Rightarrow> ('s, 'a) rt_comp \<Rightarrow> bool" where
  "rt_keeps f m \<longleftrightarrow> (\<forall>s. f (gpu (fst (m s))) = f (gpu s))"

lemma rt_keeps_simps [simp]:
  "rt_keeps f (rt_ok a)"
  "rt_keeps f (rt_lift r)"
  by (simp_all add: rt_keeps_def)

lemma rt_keeps_bind [intro]:
  "rt_keeps f m \<Longrightarrow> (\<And>a. rt_keeps f (k a)) \<Longrightarrow> rt_keeps f (rt_bind m k)"
  unfolding rt_keeps_def rt_bind_def
  by (simp split: prod.splits sum.splits) (metis fst_conv)

lemma rt_keeps_call:
  "(\<And>g. f (fst (c g)) = f g) \<Longrightarrow> rt_keeps f (drv_call op c)"
  "(\<And>g. f (fst (c' g)) = f g) \<Longrightarrow> rt_keeps f (drv_call_out op c')"
  by (simp_all add: rt_keeps_def drv_call_def drv_call_out_def split_beta)

lemma rt_keeps_ops:
  assumes "driver_ordered drv st content"
  shows "rt_keeps content (set_current drv ctx)"
    and "rt_keeps content (stream_synchronize drv x)"
    and "rt_keeps content (stream_wait_event drv x ev)"
    and "rt_keeps content (event_new drv ctx)"
    and "rt_keeps content (event_record drv ev x)"
    and "rt_keeps content (event_synchronize drv ev)"
proof -
  show current: "rt_keeps content (set_current drv ctx)" for ctx
    using assms unfolding set_current_def by (intro rt_keeps_bind rt_keeps_call) (simp_all add: driver_ordered_def)
  show "rt_keeps content (stream_synchronize drv x)"
    using assms unfolding stream_synchronize_def
    by (intro rt_keeps_bind rt_keeps_call current) (simp_all add: driver_ordered_def)
  show "rt_keeps content (stream_wait_event drv x ev)"
    using assms unfolding stream_wait_event_def
    by (auto intro!: rt_keeps_bind rt_keeps_call current simp: driver_ordered_def)
  show "rt_keeps content (event_new drv ctx)"
    using assms unfolding event_new_def
    by (intro rt_keeps_bind rt_keeps_call current) (simp_all add: driver_ordered_def)
  show "rt_keeps content (event_record drv ev x)"
    using assms unfolding event_record_def
    by (auto intro!: rt_keeps_bind rt_keeps_call current simp: driver_ordered_def)
  show "rt_keeps content (event_synchronize drv ev)"
    using assms unfolding event_synchronize_def
    by (intro rt_keeps_bind rt_keeps_call current) (simp_all add: driver_ordered_def)
qed

lemma drain_or_leak_content:
  assumes "driver_ordered drv st content"
  shows "content (gpu (drain_or_leak drv x resources s)) = content (gpu s)"
  using rt_keeps_ops(2) [OF assms, of x]
  by (auto simp: drain_or_leak_def rt_keeps_def split: prod.splits sum.splits) (metis fst_conv)+

lemma from_enqueued_keeps:
  assumes "driver_ordered drv st content"
  shows "rt_keeps content (from_enqueued drv x resources)"
  unfolding rt_keeps_def
proof
  fix s
  obtain t r where new: "event_new drv (stream_ctx x) s = (t, r)" by fastforce
  have t: "content (gpu t) = content (gpu s)"
    using rt_keeps_ops(4) [OF assms, of "stream_ctx x"] new by (metis rt_keeps_def fst_conv)
  show "content (gpu (fst (from_enqueued drv x resources s))) = content (gpu s)"
  proof (cases r)
    case (Inl e)
    then show ?thesis using new t by (simp add: from_enqueued_def drain_or_leak_content [OF assms])
  next
    case (Inr ev)
    obtain u q where rec: "event_record drv ev x t = (u, q)" by fastforce
    have "content (gpu u) = content (gpu t)"
      using rt_keeps_ops(5) [OF assms, of ev x] rec by (metis rt_keeps_def fst_conv)
    then show ?thesis using new t Inr rec
      by (cases q) (simp_all add: from_enqueued_def drain_or_leak_content [OF assms])
  qed
qed

section \<open>Sequences of copies\<close>

text \<open>The effect of copies to pairwise disjoint destinations from sources none of them overwrites.\<close>

type_synonym copy_op = "nat \<times> nat"

definition run_copies :: "nat \<Rightarrow> copy_op list \<Rightarrow> (nat \<Rightarrow> u8) \<Rightarrow> nat \<Rightarrow> u8" where
  "run_copies n cs f = fold (\<lambda>(d, s). copy_bytes d s n) cs f"

definition copies_independent :: "nat \<Rightarrow> copy_op list \<Rightarrow> bool" where
  "copies_independent n cs \<longleftrightarrow>
     (\<forall>c \<in> set cs. \<forall>d \<in> set cs. ranges_disjoint (fst c) n (snd d) n) \<and>
     sorted_wrt (\<lambda>c d. ranges_disjoint (fst c) n (fst d) n) cs"

lemma copies_independent_Cons:
  assumes "copies_independent n (c # cs)"
  shows "copies_independent n cs"
    and "\<And>x. x \<in> set cs \<Longrightarrow> ranges_disjoint (fst c) n (snd x) n \<and> ranges_disjoint (fst c) n (fst x) n"
    and "ranges_disjoint (fst c) n (snd c) n"
  using assms by (simp_all add: copies_independent_def)

lemma run_copies_simps [simp]:
  "run_copies n [] f = f"
  "run_copies n (c # cs) f = run_copies n cs (copy_bytes (fst c) (snd c) n f)"
  by (simp_all add: run_copies_def split_beta)

lemma run_copies_outside:
  "(\<And>c. c \<in> set cs \<Longrightarrow> \<not> (fst c \<le> a \<and> a < fst c + n)) \<Longrightarrow> run_copies n cs f a = f a"
proof (induction cs arbitrary: f)
  case (Cons c cs)
  have "run_copies n cs (copy_bytes (fst c) (snd c) n f) a = copy_bytes (fst c) (snd c) n f a"
    using Cons.prems by (intro Cons.IH) simp
  then show ?case using Cons.prems [of c] by (simp add: copy_bytes_def)
qed simp

lemma run_copies_at:
  "copies_independent n cs \<Longrightarrow> c \<in> set cs \<Longrightarrow> k < n \<Longrightarrow>
   run_copies n cs f (fst c + k) = f (snd c + k)"
proof (induction cs arbitrary: f)
  case (Cons x cs)
  note I = copies_independent_Cons [OF Cons.prems(1)]
  let ?f = "copy_bytes (fst x) (snd x) n f"
  show ?case
  proof (cases "c \<in> set cs")
    case True
    then have "run_copies n cs ?f (fst c + k) = ?f (snd c + k)"
      using Cons.IH I(1) Cons.prems(3) by blast
    also have "\<dots> = f (snd c + k)"
      using I(2) [OF True] Cons.prems(3) by (auto simp: copy_bytes_def ranges_disjoint_def)
    finally show ?thesis by simp
  next
    case False
    then have c: "c = x" using Cons.prems(2) by simp
    have "run_copies n cs ?f (fst x + k) = ?f (fst x + k)"
      using I(2) Cons.prems(3) by (intro run_copies_outside) (force simp: ranges_disjoint_def)
    then show ?thesis using c Cons.prems(3) by (simp add: copy_bytes_def)
  qed
qed simp

end
