(* ===== verification/KvCacheRt.thy ===== *)
theory KvCacheRt
  imports CudaRt
begin

text \<open>
  \<open>nnis-rt/src/kv_cache.rs\<close> and \<open>kv_telemetry.rs\<close>: the device-resident key/value cache.  Storage is
  \<open>[layer][head][capacity][head_dim]\<close>; an append plans one key and one value copy per head, checks the
  whole plan, then submits the copies to the stream.  The theorems see the two allocations as rows of
  bytes: whatever the driver accepts or rejects, the rows already committed stay, and an accepted
  append adds exactly the source rows.  \<open>elem_size\<close> is \<open>size_of::<T>()\<close>.
\<close>

section \<open>Configuration\<close>

record kv_config =
  kc_layers :: nat
  kc_heads :: nat
  kc_head_dim :: nat
  kc_capacity :: nat

definition invalid_lit :: "string \<Rightarrow> nnis_error" where
  "invalid_lit what = invalid_input (lit what)"

definition checked_bind :: "nat option \<Rightarrow> (nat \<Rightarrow> nat option) \<Rightarrow> nat option" where
  "checked_bind m k = (case m of None \<Rightarrow> None | Some n \<Rightarrow> k n)"

lemma checked_bind_Some [simp]: "checked_bind m k = Some n \<longleftrightarrow> (\<exists>a. m = Some a \<and> k a = Some n)"
  by (cases m) (simp_all add: checked_bind_def)

definition elements_per_side :: "kv_config \<Rightarrow> nnis_error + nat" where
  "elements_per_side c =
     ok_or (invalid_lit ''KV cache shape overflows usize'')
       (checked_bind (checked_bind (checked_mul (kc_layers c) (kc_heads c))
          (\<lambda>n. checked_mul n (kc_capacity c))) (\<lambda>n. checked_mul n (kc_head_dim c)))"

definition kv_config_validate :: "kv_config \<Rightarrow> nnis_error + unit" where
  "kv_config_validate c =
     (if kc_layers c = 0 \<or> kc_heads c = 0 \<or> kc_head_dim c = 0 \<or> kc_capacity c = 0 then
        Err (invalid_input (lit ''KV cache dimensions must be non-zero; got layers='' @ dec (kc_layers c) @
          lit '', heads='' @ dec (kc_heads c) @ lit '', head_dim='' @ dec (kc_head_dim c) @
          lit '', capacity='' @ dec (kc_capacity c)))
      else and_then (elements_per_side c) (\<lambda>_. Ok ()))"

definition kv_config_new :: "nat \<Rightarrow> nat \<Rightarrow> nat \<Rightarrow> nat \<Rightarrow> nnis_error + kv_config" where
  "kv_config_new layers heads head_dim capacity =
     (let config = \<lparr>kc_layers = layers, kc_heads = heads, kc_head_dim = head_dim, kc_capacity = capacity\<rparr>
      in and_then (kv_config_validate config) (\<lambda>_. Ok config))"

section \<open>The cache and its logical lengths\<close>

record rt_kv_cache =
  rc_config :: kv_config
  rc_stream :: stream
  rc_keys :: device_buffer
  rc_values :: device_buffer
  rc_lengths :: "nat list"

definition rt_kv_new :: "'s cuda \<Rightarrow> nat \<Rightarrow> stream \<Rightarrow> kv_config \<Rightarrow> ('s, rt_kv_cache) rt_comp" where
  "rt_kv_new drv elem_size st config =
     rt_bind (rt_lift (kv_config_validate config)) (\<lambda>_.
     rt_bind (rt_lift (elements_per_side config)) (\<lambda>elements.
     rt_bind (device_buffer_new drv elem_size (stream_ctx st) elements) (\<lambda>keys.
     rt_bind (\<lambda>s. case device_buffer_new drv elem_size (stream_ctx st) elements s of
         (t, Inl e) \<Rightarrow> (device_buffer_drop drv keys t, Err e)
       | (t, Inr vals) \<Rightarrow> (t, Ok vals)) (\<lambda>vals.
       rt_ok \<lparr>rc_config = config, rc_stream = st, rc_keys = keys, rc_values = vals,
              rc_lengths = replicate (kc_layers config) 0\<rparr>))))"

definition layer_range_error :: "nat \<Rightarrow> nnis_error" where
  "layer_range_error layer = invalid_input (lit ''KV cache layer '' @ dec layer @ lit '' is out of range'')"

definition rt_kv_len :: "rt_kv_cache \<Rightarrow> nat \<Rightarrow> nnis_error + nat" where
  "rt_kv_len c layer =
     (if layer < length (rc_lengths c) then Ok (rc_lengths c ! layer) else Err (layer_range_error layer))"

definition rt_kv_remaining :: "rt_kv_cache \<Rightarrow> nat \<Rightarrow> nnis_error + nat" where
  "rt_kv_remaining c layer =
     and_then (rt_kv_len c layer) (\<lambda>n. Ok (kc_capacity (rc_config c) - n))"

definition head_base_elements :: "kv_config \<Rightarrow> nat \<Rightarrow> nat \<Rightarrow> nnis_error + nat" where
  "head_base_elements c layer head =
     (if layer \<ge> kc_layers c then
        Err (invalid_input (lit ''KV cache layer '' @ dec layer @ lit '' is out of range for '' @
          dec (kc_layers c) @ lit '' layers''))
      else if head \<ge> kc_heads c then
        Err (invalid_input (lit ''KV cache head '' @ dec head @ lit '' is out of range for '' @
          dec (kc_heads c) @ lit '' heads''))
      else
        ok_or (invalid_lit ''KV cache offset overflows usize'')
          (checked_bind (checked_bind (checked_bind (checked_mul layer (kc_heads c))
             (\<lambda>n. checked_add n head)) (\<lambda>n. checked_mul n (kc_capacity c))) (\<lambda>n. checked_mul n (kc_head_dim c))))"

definition head_range :: "rt_kv_cache \<Rightarrow> nat \<Rightarrow> nat \<Rightarrow> nnis_error + (nat \<times> nat)" where
  "head_range c layer head =
     and_then (rt_kv_len c layer) (\<lambda>len.
       if head \<ge> kc_heads (rc_config c) then
         Err (invalid_input (lit ''KV cache head '' @ dec head @ lit '' is out of range for '' @
           dec (kc_heads (rc_config c)) @ lit '' heads''))
       else
         and_then (head_base_elements (rc_config c) layer head) (\<lambda>start.
         and_then (ok_or (invalid_lit ''KV cache active range overflows usize'')
             (checked_mul len (kc_head_dim (rc_config c)))) (\<lambda>active.
         and_then (ok_or (invalid_lit ''KV cache active range overflows usize'') (checked_add start active))
             (\<lambda>end_pos. Ok (start, end_pos)))))"

definition rt_kv_reset :: "rt_kv_cache \<Rightarrow> rt_kv_cache" where
  "rt_kv_reset c = c\<lparr>rc_lengths := replicate (length (rc_lengths c)) 0\<rparr>"

definition truncate_lengths :: "nat list \<Rightarrow> nat \<Rightarrow> nat list \<times> (nnis_error + unit)" where
  "truncate_lengths lengths len =
     (case find (\<lambda>(_, current). current < len) (enumerate 0 lengths) of
        Some (layer, current) \<Rightarrow>
          (lengths, Err (invalid_input (lit ''cannot truncate KV cache to '' @ dec len @
             lit '' positions: layer '' @ dec layer @ lit '' holds '' @ dec current)))
      | None \<Rightarrow> (replicate (length lengths) len, Ok ()))"

definition rt_kv_truncate :: "rt_kv_cache \<Rightarrow> nat \<Rightarrow> rt_kv_cache \<times> (nnis_error + unit)" where
  "rt_kv_truncate c len =
     (case truncate_lengths (rc_lengths c) len of (ls, r) \<Rightarrow> (c\<lparr>rc_lengths := ls\<rparr>, r))"

definition rt_kv_reset_layer :: "rt_kv_cache \<Rightarrow> nat \<Rightarrow> rt_kv_cache \<times> (nnis_error + unit)" where
  "rt_kv_reset_layer c layer =
     (if layer < length (rc_lengths c) then (c\<lparr>rc_lengths := (rc_lengths c)[layer := 0]\<rparr>, Ok ())
      else (c, Err (layer_range_error layer)))"

section \<open>Appending\<close>

record kv_head_copy =
  hc_source_key :: nat
  hc_source_value :: nat
  hc_destination_key :: nat
  hc_destination_value :: nat

record kv_append_handle =
  ka_work :: pending_work
  ka_layer :: nat
  ka_start :: nat
  ka_tokens :: nat

definition append_base_elements :: "kv_config \<Rightarrow> nat \<Rightarrow> nat \<Rightarrow> nat \<Rightarrow> nnis_error + nat" where
  "append_base_elements c layer head pos =
     and_then (head_base_elements c layer head) (\<lambda>base.
     and_then (ok_or (invalid_lit ''KV cache position offset overflows usize'')
         (checked_mul pos (kc_head_dim c))) (\<lambda>off.
       ok_or (invalid_lit ''KV cache append offset overflows usize'') (checked_add base off)))"

definition device_region_address :: "nat \<Rightarrow> device_buffer \<Rightarrow> nat \<Rightarrow> nat \<Rightarrow> nnis_error + nat" where
  "device_region_address elem_size b off elements =
     and_then (ok_or (invalid_lit ''device element range overflows usize'') (checked_add off elements)) (\<lambda>end_pos.
       if end_pos > buf_len b then
         Err (invalid_input (lit ''device region '' @ dec off @ lit ''..'' @ dec end_pos @
           lit '' exceeds buffer length '' @ dec (buf_len b)))
       else
         and_then (ok_or (invalid_lit ''device byte offset overflows usize'') (checked_mul off elem_size)) (\<lambda>bo.
         and_then (ok_or (invalid_lit ''device byte offset exceeds u64'') (u64_of_usize bo)) (\<lambda>bo.
           ok_or (invalid_lit ''device address overflows u64'') (checked_add (buf_ptr b) bo))))"

definition plan_head ::
  "nat \<Rightarrow> rt_kv_cache \<Rightarrow> nat \<Rightarrow> nat \<Rightarrow> nat \<Rightarrow> device_buffer \<Rightarrow> device_buffer \<Rightarrow> nat \<Rightarrow> nnis_error + kv_head_copy" where
  "plan_head elem_size c layer start per_head keys vals head =
     and_then (ok_or (invalid_lit ''KV source offset overflows usize'') (checked_mul head per_head)) (\<lambda>so.
     and_then (append_base_elements (rc_config c) layer head start) (\<lambda>do.
     and_then (device_region_address elem_size keys so per_head) (\<lambda>sk.
     and_then (device_region_address elem_size vals so per_head) (\<lambda>sv.
     and_then (device_region_address elem_size (rc_keys c) do per_head) (\<lambda>dk.
     and_then (device_region_address elem_size (rc_values c) do per_head) (\<lambda>dv.
       Ok \<lparr>hc_source_key = sk, hc_source_value = sv, hc_destination_key = dk, hc_destination_value = dv\<rparr>))))))"

fun plan_heads :: "(nat \<Rightarrow> nnis_error + kv_head_copy) \<Rightarrow> nat list \<Rightarrow> nnis_error + kv_head_copy list" where
  "plan_heads f [] = Ok []"
| "plan_heads f (h # hs) = and_then (f h) (\<lambda>c. and_then (plan_heads f hs) (\<lambda>cs. Ok (c # cs)))"

text \<open>Everything up to the first driver call: the new length, the copies and their size in bytes.\<close>

definition append_plan ::
  "nat \<Rightarrow> rt_kv_cache \<Rightarrow> nat \<Rightarrow> device_buffer \<Rightarrow> device_buffer \<Rightarrow> nat \<Rightarrow>
   nnis_error + (nat \<times> nat \<times> kv_head_copy list \<times> nat)" where
  "append_plan elem_size c layer keys vals tokens =
     (let config = rc_config c in
      and_then (rt_kv_len c layer) (\<lambda>start.
      and_then (ok_or (invalid_lit ''KV cache position overflows usize'') (checked_add start tokens)) (\<lambda>end_pos.
        if end_pos > kc_capacity config then
          Err (invalid_input (lit ''KV cache overflow at layer '' @ dec layer @ lit '': '' @ dec start @
            lit '' + '' @ dec tokens @ lit '' tokens exceeds capacity '' @ dec (kc_capacity config)))
        else
          and_then (ok_or (invalid_lit ''KV append shape overflows usize'')
              (checked_bind (checked_mul (kc_heads config) tokens) (\<lambda>n. checked_mul n (kc_head_dim config))))
            (\<lambda>expected.
            if buf_len keys \<noteq> expected \<or> buf_len vals \<noteq> expected then
              Err (invalid_input (lit ''KV append source lengths are '' @ dec (buf_len keys) @ lit ''/'' @
                dec (buf_len vals) @ lit '' elements; '' @ dec (kc_heads config) @ lit '' heads x '' @
                dec tokens @ lit '' tokens x '' @ dec (kc_head_dim config) @ lit '' dimensions requires '' @
                dec expected))
            else if stream_ctx (rc_stream c) \<noteq> buf_ctx keys \<or> stream_ctx (rc_stream c) \<noteq> buf_ctx vals then
              Err (invalid_lit ''KV cache and append sources must belong to one CUDA context'')
            else if \<exists>b \<in> set [keys, vals]. buf_ptr b = buf_ptr (rc_keys c) \<or> buf_ptr b = buf_ptr (rc_values c) then
              Err (invalid_lit ''KV append sources must not alias the cache allocations'')
            else
              and_then (ok_or (invalid_lit ''KV append head size overflows usize'')
                  (checked_mul tokens (kc_head_dim config))) (\<lambda>per_head.
              and_then (ok_or (invalid_lit ''KV append byte size overflows usize'')
                  (checked_mul per_head elem_size)) (\<lambda>bytes_per_head.
              and_then (plan_heads (plan_head elem_size c layer start per_head keys vals)
                  [0..<kc_heads config]) (\<lambda>copies. Ok (start, end_pos, copies, bytes_per_head))))))))"

definition append_error ::
  "'s cuda \<Rightarrow> stream \<Rightarrow> device_buffer list \<Rightarrow> nnis_error \<Rightarrow> ('s, unit) rt_comp" where
  "append_error drv st resources e s =
     (case stream_synchronize drv st s of
        (t, Inl _) \<Rightarrow> (rt_forget resources t, Err e)
      | (t, Inr _) \<Rightarrow> (t, Err e))"

definition append_context :: "nnis_error \<Rightarrow> nat \<Rightarrow> nat \<Rightarrow> nat \<Rightarrow> nnis_error" where
  "append_context e layer head tokens =
     error_with (error_with (error_with e ''layer'' layer) ''head'' head) ''tokens'' tokens"

definition submit_copy ::
  "'s cuda \<Rightarrow> stream \<Rightarrow> device_buffer list \<Rightarrow> string \<Rightarrow> nat \<Rightarrow> nat \<Rightarrow> nat \<Rightarrow> nat \<Rightarrow> nat \<Rightarrow> nat \<Rightarrow> ('s, unit) rt_comp"
  where
  "submit_copy drv st resources op layer head tokens bytes dst src s =
     (case drv_call op (cu_memcpy_async drv dst src bytes (stream_raw st)) s of
        (t, Inl e) \<Rightarrow> append_error drv st resources (append_context e layer head tokens) t
      | (t, Inr _) \<Rightarrow> (t, Ok ()))"

definition submit_head ::
  "'s cuda \<Rightarrow> stream \<Rightarrow> device_buffer list \<Rightarrow> nat \<Rightarrow> nat \<Rightarrow> nat \<Rightarrow> nat \<times> kv_head_copy \<Rightarrow> ('s, unit) rt_comp"
  where
  "submit_head drv st resources layer tokens bytes = (\<lambda>(head, c).
     rt_bind (submit_copy drv st resources ''cuMemcpyAsync(KV key append)'' layer head tokens bytes
        (hc_destination_key c) (hc_source_key c)) (\<lambda>_.
     submit_copy drv st resources ''cuMemcpyAsync(KV value append)'' layer head tokens bytes
        (hc_destination_value c) (hc_source_value c)))"

definition append_submit ::
  "'s cuda \<Rightarrow> stream \<Rightarrow> device_buffer list \<Rightarrow> nat \<Rightarrow> nat \<Rightarrow> kv_head_copy list \<Rightarrow> nat \<Rightarrow> ('s, pending_work) rt_comp"
  where
  "append_submit drv st resources layer tokens copies bytes =
     rt_bind
       (if bytes \<noteq> 0 then
          rt_bind (set_current drv (stream_ctx st)) (\<lambda>_.
          rt_bind (rt_lift (driver_api drv)) (\<lambda>_.
            rt_for (submit_head drv st resources layer tokens bytes) (enumerate 0 copies)))
        else rt_ok ())
       (\<lambda>_. from_enqueued drv st resources)"

definition append_layer_async ::
  "'s cuda \<Rightarrow> nat \<Rightarrow> rt_kv_cache \<Rightarrow> nat \<Rightarrow> device_buffer \<Rightarrow> device_buffer \<Rightarrow> nat \<Rightarrow> 's rt \<Rightarrow>
   's rt \<times> rt_kv_cache \<times> (nnis_error + kv_append_handle)" where
  "append_layer_async drv elem_size c layer keys vals tokens s =
     (case append_plan elem_size c layer keys vals tokens of
        Inl e \<Rightarrow> (s, c, Err e)
      | Inr (start, end_pos, copies, bytes) \<Rightarrow>
          (case append_submit drv (rc_stream c) [keys, vals, rc_keys c, rc_values c] layer tokens copies bytes s of
             (t, Inl e) \<Rightarrow> (t, c, Err e)
           | (t, Inr work) \<Rightarrow>
               (t, c\<lparr>rc_lengths := (rc_lengths c)[layer := end_pos]\<rparr>,
                Ok \<lparr>ka_work = work, ka_layer = layer, ka_start = start, ka_tokens = tokens\<rparr>)))"

definition append_layer ::
  "'s cuda \<Rightarrow> nat \<Rightarrow> rt_kv_cache \<Rightarrow> nat \<Rightarrow> device_buffer \<Rightarrow> device_buffer \<Rightarrow> nat \<Rightarrow> 's rt \<Rightarrow>
   's rt \<times> rt_kv_cache \<times> (nnis_error + unit)" where
  "append_layer drv elem_size c layer keys vals tokens s =
     (case append_layer_async drv elem_size c layer keys vals tokens s of
        (t, c', Inl e) \<Rightarrow> (t, c', Err e)
      | (t, c', Inr a) \<Rightarrow>
          (case pending_wait drv (ka_work a) t of
             (u, Inl e) \<Rightarrow> (u, c', Err e)
           | (u, Inr _) \<Rightarrow> (u, c', Ok ())))"

section \<open>Telemetry\<close>

definition NNIS_KV_CACHE_TELEMETRY_VERSION :: nat where "NNIS_KV_CACHE_TELEMETRY_VERSION = 1"

record rt_kv_telemetry =
  kt_schema_version :: nat
  kt_layer_lengths :: "nat list"
  kt_total_live_tokens :: nat
  kt_total_capacity_tokens :: nat
  kt_layers :: nat
  kt_heads :: nat
  kt_head_dim :: nat

definition observe_layer ::
  "rt_kv_cache \<Rightarrow> nat list \<times> nat \<Rightarrow> nat \<Rightarrow> nnis_error + (nat list \<times> nat)" where
  "observe_layer c = (\<lambda>(lens, live) layer.
     and_then (rt_kv_len c layer) (\<lambda>len.
     and_then (ok_or (invalid_lit ''KV telemetry live-token sum overflows usize'') (checked_add live len)) (\<lambda>live'.
       Ok (lens @ [len], live'))))"

definition observe_kv_cache :: "rt_kv_cache \<Rightarrow> nnis_error + rt_kv_telemetry" where
  "observe_kv_cache c =
     (let config = rc_config c in
      and_then (for_each_res (observe_layer c) ([], 0) [0..<kc_layers config]) (\<lambda>(lens, live).
      and_then (ok_or (invalid_lit ''KV telemetry capacity sum overflows usize'')
          (checked_mul (kc_layers config) (kc_capacity config))) (\<lambda>cap.
        Ok \<lparr>kt_schema_version = NNIS_KV_CACHE_TELEMETRY_VERSION, kt_layer_lengths = lens,
            kt_total_live_tokens = live, kt_total_capacity_tokens = cap, kt_layers = kc_layers config,
            kt_heads = kc_heads config, kt_head_dim = kc_head_dim config\<rparr>)))"

section \<open>The cache as rows\<close>

definition row_bytes :: "nat \<Rightarrow> kv_config \<Rightarrow> nat" where
  "row_bytes elem_size c = kc_head_dim c * elem_size"

definition row_index :: "kv_config \<Rightarrow> nat \<Rightarrow> nat \<Rightarrow> nat \<Rightarrow> nat" where
  "row_index c l h p = (l * kc_heads c + h) * kc_capacity c + p"

definition row_at :: "(nat \<Rightarrow> u8) \<Rightarrow> nat \<Rightarrow> device_buffer \<Rightarrow> nat \<Rightarrow> u8 list" where
  "row_at content rb b i = map (\<lambda>k. content (buf_ptr b + i * rb + k)) [0..<rb]"

text \<open>The active rows of one layer and head in the key or value allocation \<open>b\<close>, and the rows an append
  brings for a head.\<close>

definition cache_rows :: "(nat \<Rightarrow> u8) \<Rightarrow> nat \<Rightarrow> rt_kv_cache \<Rightarrow> device_buffer \<Rightarrow> nat \<Rightarrow> nat \<Rightarrow> u8 list list" where
  "cache_rows content elem_size c b l h =
     map (\<lambda>p. row_at content (row_bytes elem_size (rc_config c)) b (row_index (rc_config c) l h p))
       [0..<rc_lengths c ! l]"

definition source_rows :: "(nat \<Rightarrow> u8) \<Rightarrow> nat \<Rightarrow> kv_config \<Rightarrow> device_buffer \<Rightarrow> nat \<Rightarrow> nat \<Rightarrow> u8 list list" where
  "source_rows content elem_size c b tokens h =
     map (\<lambda>t. row_at content (row_bytes elem_size c) b (h * tokens + t)) [0..<tokens]"

definition config_ok :: "nat \<Rightarrow> kv_config \<Rightarrow> bool" where
  "config_ok elem_size c \<longleftrightarrow>
     0 < elem_size \<and> 0 < kc_layers c \<and> 0 < kc_heads c \<and> 0 < kc_head_dim c \<and> 0 < kc_capacity c \<and>
     kc_layers c * kc_heads c * kc_capacity c * row_bytes elem_size c < u64_lim"

definition elements_of :: "kv_config \<Rightarrow> nat" where
  "elements_of c = kc_layers c * kc_heads c * kc_capacity c * kc_head_dim c"

text \<open>Allocations are in the address space and do not overlap.\<close>

definition buffers_apart :: "nat \<Rightarrow> device_buffer \<Rightarrow> device_buffer \<Rightarrow> bool" where
  "buffers_apart elem_size a b \<longleftrightarrow>
     ranges_disjoint (buf_ptr a) (buf_len a * elem_size) (buf_ptr b) (buf_len b * elem_size)"

definition buffer_ok :: "nat \<Rightarrow> device_buffer \<Rightarrow> bool" where
  "buffer_ok elem_size b \<longleftrightarrow> buf_ptr b + buf_len b * elem_size < u64_lim"

definition rt_kv_wf :: "nat \<Rightarrow> rt_kv_cache \<Rightarrow> bool" where
  "rt_kv_wf elem_size c \<longleftrightarrow>
     config_ok elem_size (rc_config c) \<and>
     length (rc_lengths c) = kc_layers (rc_config c) \<and>
     (\<forall>n \<in> set (rc_lengths c). n \<le> kc_capacity (rc_config c)) \<and>
     buf_len (rc_keys c) = elements_of (rc_config c) \<and> buf_len (rc_values c) = elements_of (rc_config c) \<and>
     buffer_ok elem_size (rc_keys c) \<and> buffer_ok elem_size (rc_values c) \<and>
     buffers_apart elem_size (rc_keys c) (rc_values c)"

text \<open>The row numbers of one layer and head are a block of the capacity's length, and blocks are disjoint.\<close>

lemma mixed_radix:
  fixes x y r s n :: nat
  assumes "r < n" "s < n"
  shows "x * n + r = y * n + s \<longleftrightarrow> x = y \<and> r = s"
proof
  assume eq: "x * n + r = y * n + s"
  have "(x * n + r) div n = x" "(y * n + s) div n = y" using assms by simp_all
  with eq have "x = y" by simp
  with eq show "x = y \<and> r = s" by simp
qed simp

lemma row_index_block:
  assumes "h < kc_heads c" "p < kc_capacity c" "h' < kc_heads c" "q < kc_capacity c"
  shows "row_index c l h p = row_index c l' h' q \<longleftrightarrow> l = l' \<and> h = h' \<and> p = q"
  using assms by (simp add: row_index_def mixed_radix)

lemma row_index_less:
  assumes "l < kc_layers c" "h < kc_heads c" "p < kc_capacity c"
  shows "row_index c l h p < kc_layers c * kc_heads c * kc_capacity c"
proof -
  have "l * kc_heads c + h < kc_layers c * kc_heads c"
    using assms(1,2) by (metis add.commute add_less_cancel_left less_le_trans mult_Suc mult_le_mono1 Suc_leI)
  then have "Suc (l * kc_heads c + h) * kc_capacity c \<le> kc_layers c * kc_heads c * kc_capacity c"
    by (intro mult_le_mono1) simp
  then show ?thesis using assms(3) by (simp add: row_index_def)
qed

lemma elements_of_bytes: "elements_of c * elem_size = kc_layers c * kc_heads c * kc_capacity c * row_bytes elem_size c"
  by (simp add: elements_of_def row_bytes_def)

text \<open>Byte ranges of runs of rows.\<close>

lemma row_run_bound: "i + n \<le> m \<Longrightarrow> i * rb + n * rb \<le> m * (rb :: nat)"
  by (metis add_mult_distrib mult_le_mono1)

lemma config_ok_bounds:
  assumes "config_ok elem_size c" "l < kc_layers c" "h < kc_heads c" "p + n \<le> kc_capacity c" "p < kc_capacity c"
  shows "row_index c l h p * row_bytes elem_size c + n * row_bytes elem_size c \<le> elements_of c * elem_size"
    and "elements_of c * elem_size < u64_lim"
proof -
  have "row_index c l h p + n \<le> kc_layers c * kc_heads c * kc_capacity c"
  proof (cases n)
    case 0
    then show ?thesis using row_index_less [OF assms(2,3,5)] by simp
  next
    case (Suc k)
    then have "row_index c l h (p + k) < kc_layers c * kc_heads c * kc_capacity c"
      using assms by (intro row_index_less) simp_all
    then show ?thesis using Suc by (simp add: row_index_def)
  qed
  then show "row_index c l h p * row_bytes elem_size c + n * row_bytes elem_size c \<le> elements_of c * elem_size"
    unfolding elements_of_bytes by (rule row_run_bound)
  show "elements_of c * elem_size < u64_lim"
    using assms(1) by (simp add: config_ok_def elements_of_bytes)
qed

section \<open>The plan of an append\<close>

lemma plan_heads_map:
  "plan_heads f hs = Ok cs \<Longrightarrow> (\<And>h x. h \<in> set hs \<Longrightarrow> f h = Ok x \<Longrightarrow> x = g h) \<Longrightarrow> cs = map g hs"
  by (induction hs arbitrary: cs) auto

definition planned_copy ::
  "nat \<Rightarrow> rt_kv_cache \<Rightarrow> nat \<Rightarrow> device_buffer \<Rightarrow> device_buffer \<Rightarrow> nat \<Rightarrow> nat \<Rightarrow> kv_head_copy" where
  "planned_copy elem_size c layer keys vals tokens h =
     (let rb = row_bytes elem_size (rc_config c);
          src = h * tokens * rb;
          dst = row_index (rc_config c) layer h (rc_lengths c ! layer) * rb
      in \<lparr>hc_source_key = buf_ptr keys + src, hc_source_value = buf_ptr vals + src,
          hc_destination_key = buf_ptr (rc_keys c) + dst, hc_destination_value = buf_ptr (rc_values c) + dst\<rparr>)"

lemma head_base_Ok:
  "head_base_elements c layer head = Ok n \<Longrightarrow>
     n = (layer * kc_heads c + head) * kc_capacity c * kc_head_dim c \<and> layer < kc_layers c \<and> head < kc_heads c"
  by (auto simp: head_base_elements_def split: if_splits)

lemma append_base_Ok:
  "append_base_elements c layer head p = Ok n \<Longrightarrow> n = row_index c layer head p * kc_head_dim c"
  by (auto simp: append_base_elements_def row_index_def add_mult_distrib dest!: head_base_Ok)

lemma device_region_Ok:
  "device_region_address elem_size b off n = Ok a \<Longrightarrow> a = buf_ptr b + off * elem_size \<and> off + n \<le> buf_len b"
  by (auto simp: device_region_address_def split: if_splits)

lemma plan_head_Ok:
  assumes "plan_head elem_size c layer (rc_lengths c ! layer) (tokens * kc_head_dim (rc_config c)) keys vals head = Ok x"
  shows "x = planned_copy elem_size c layer keys vals tokens head"
  using assms
  by (auto simp: plan_head_def planned_copy_def row_bytes_def Let_def mult_ac
      dest!: append_base_Ok device_region_Ok)

lemma append_plan_Ok:
  assumes "append_plan elem_size c layer keys vals tokens = Ok (start, end_pos, copies, bytes)"
  shows "layer < length (rc_lengths c)" and "start = rc_lengths c ! layer" and "end_pos = start + tokens"
    and "end_pos \<le> kc_capacity (rc_config c)" and "bytes = tokens * row_bytes elem_size (rc_config c)"
    and "buf_len keys = kc_heads (rc_config c) * tokens * kc_head_dim (rc_config c)" and "buf_len vals = buf_len keys"
    and "copies = map (planned_copy elem_size c layer keys vals tokens) [0..<kc_heads (rc_config c)]"
proof -
  have *: "layer < length (rc_lengths c) \<and> start = rc_lengths c ! layer \<and> end_pos = start + tokens \<and>
      end_pos \<le> kc_capacity (rc_config c) \<and> bytes = tokens * kc_head_dim (rc_config c) * elem_size \<and>
      buf_len keys = kc_heads (rc_config c) * tokens * kc_head_dim (rc_config c) \<and> buf_len vals = buf_len keys \<and>
      plan_heads (plan_head elem_size c layer start (tokens * kc_head_dim (rc_config c)) keys vals)
        [0..<kc_heads (rc_config c)] = Ok copies"
    using assms by (auto simp: append_plan_def rt_kv_len_def Let_def split: if_splits)
  then show "layer < length (rc_lengths c)" "start = rc_lengths c ! layer" "end_pos = start + tokens"
    "end_pos \<le> kc_capacity (rc_config c)" "bytes = tokens * row_bytes elem_size (rc_config c)"
    "buf_len keys = kc_heads (rc_config c) * tokens * kc_head_dim (rc_config c)" "buf_len vals = buf_len keys"
    by (simp_all add: row_bytes_def)
  show "copies = map (planned_copy elem_size c layer keys vals tokens) [0..<kc_heads (rc_config c)]"
    using * by (intro plan_heads_map [OF _ plan_head_Ok]) auto
qed

text \<open>The copies in the order they are submitted, the key and the value copy of each head.\<close>

definition plan_ops :: "kv_head_copy list \<Rightarrow> copy_op list" where
  "plan_ops copies =
     concat (map (\<lambda>x. [(hc_destination_key x, hc_source_key x), (hc_destination_value x, hc_source_value x)]) copies)"

definition side_buffer :: "device_buffer \<Rightarrow> device_buffer \<Rightarrow> bool \<Rightarrow> device_buffer" where
  "side_buffer keys vals is_value = (if is_value then vals else keys)"

definition append_op ::
  "nat \<Rightarrow> rt_kv_cache \<Rightarrow> nat \<Rightarrow> device_buffer \<Rightarrow> device_buffer \<Rightarrow> nat \<Rightarrow> nat \<times> bool \<Rightarrow> copy_op" where
  "append_op elem_size c layer keys vals tokens = (\<lambda>(h, v).
     (buf_ptr (side_buffer (rc_keys c) (rc_values c) v) +
        row_index (rc_config c) layer h (rc_lengths c ! layer) * row_bytes elem_size (rc_config c),
      buf_ptr (side_buffer keys vals v) + h * tokens * row_bytes elem_size (rc_config c)))"

lemma plan_ops_planned:
  "plan_ops (map (planned_copy elem_size c layer keys vals tokens) hs) =
     map (append_op elem_size c layer keys vals tokens) (List.product hs [False, True])"
  by (induction hs) (simp_all add: plan_ops_def planned_copy_def append_op_def side_buffer_def Let_def)

text \<open>Sources hold exactly one run of rows per head and lie outside the cache.\<close>

definition sources_apart :: "nat \<Rightarrow> rt_kv_cache \<Rightarrow> device_buffer \<Rightarrow> device_buffer \<Rightarrow> bool" where
  "sources_apart elem_size c keys vals \<longleftrightarrow>
     (\<forall>src \<in> {keys, vals}. \<forall>dst \<in> {rc_keys c, rc_values c}. buffers_apart elem_size dst src)"

lemma ranges_disjoint_sub:
  "ranges_disjoint a n b m \<Longrightarrow> a \<le> a' \<Longrightarrow> a' + n' \<le> a + n \<Longrightarrow> b \<le> b' \<Longrightarrow> b' + m' \<le> b + m \<Longrightarrow>
   ranges_disjoint a' n' b' m'"
  by (auto simp: ranges_disjoint_def)

definition append_setting ::
  "nat \<Rightarrow> rt_kv_cache \<Rightarrow> nat \<Rightarrow> device_buffer \<Rightarrow> device_buffer \<Rightarrow> nat \<Rightarrow> bool" where
  "append_setting elem_size c layer keys vals tokens \<longleftrightarrow>
     rt_kv_wf elem_size c \<and> sources_apart elem_size c keys vals \<and> layer < kc_layers (rc_config c) \<and>
     rc_lengths c ! layer + tokens \<le> kc_capacity (rc_config c) \<and>
     buf_len keys = kc_heads (rc_config c) * tokens * kc_head_dim (rc_config c) \<and> buf_len vals = buf_len keys"

lemma op_destination:
  assumes "append_setting elem_size c layer keys vals tokens" "0 < tokens" "h < kc_heads (rc_config c)"
  shows "fst (append_op elem_size c layer keys vals tokens (h, v)) + tokens * row_bytes elem_size (rc_config c)
    \<le> buf_ptr (side_buffer (rc_keys c) (rc_values c) v) + buf_len (side_buffer (rc_keys c) (rc_values c) v) * elem_size"
proof -
  have "row_index (rc_config c) layer h (rc_lengths c ! layer) * row_bytes elem_size (rc_config c) +
      tokens * row_bytes elem_size (rc_config c) \<le> elements_of (rc_config c) * elem_size"
    using assms by (intro config_ok_bounds(1)) (auto simp: append_setting_def rt_kv_wf_def)
  then show ?thesis
    using assms by (simp add: append_op_def side_buffer_def append_setting_def rt_kv_wf_def)
qed

lemma op_source:
  assumes "append_setting elem_size c layer keys vals tokens" "h < kc_heads (rc_config c)"
  shows "snd (append_op elem_size c layer keys vals tokens (h, v)) + tokens * row_bytes elem_size (rc_config c)
    \<le> buf_ptr (side_buffer keys vals v) + buf_len (side_buffer keys vals v) * elem_size"
proof -
  have "h * tokens + tokens \<le> kc_heads (rc_config c) * tokens"
    using row_run_bound [of h 1 _ tokens] assms(2) by simp
  then have "h * tokens * row_bytes elem_size (rc_config c) + tokens * row_bytes elem_size (rc_config c)
      \<le> kc_heads (rc_config c) * tokens * row_bytes elem_size (rc_config c)"
    by (rule row_run_bound)
  then show ?thesis
    using assms by (simp add: append_op_def side_buffer_def append_setting_def row_bytes_def mult_ac)
qed

lemma cache_sides_apart:
  assumes "rt_kv_wf elem_size c" "v \<noteq> w"
  shows "buffers_apart elem_size (side_buffer (rc_keys c) (rc_values c) v) (side_buffer (rc_keys c) (rc_values c) w)"
  using assms by (cases v; cases w) (auto simp: side_buffer_def rt_kv_wf_def buffers_apart_def ranges_disjoint_def)

lemma source_sides_apart:
  assumes "sources_apart elem_size c keys vals"
  shows "buffers_apart elem_size (side_buffer (rc_keys c) (rc_values c) v) (side_buffer keys vals w)"
  using assms by (simp add: sources_apart_def side_buffer_def)

lemma sorted_wrt_distinct:
  "distinct xs \<Longrightarrow> (\<And>x y. x \<in> set xs \<Longrightarrow> y \<in> set xs \<Longrightarrow> x \<noteq> y \<Longrightarrow> P x y) \<Longrightarrow> sorted_wrt P xs"
  by (induction xs) auto

lemma append_ops_independent:
  assumes S: "append_setting elem_size c layer keys vals tokens" and "0 < tokens"
  shows "copies_independent (tokens * row_bytes elem_size (rc_config c))
    (map (append_op elem_size c layer keys vals tokens) (List.product [0..<kc_heads (rc_config c)] [False, True]))"
    (is "copies_independent ?n (map ?op ?ps)")
proof -
  have heads: "\<exists>h v. x = (h, v) \<and> h < kc_heads (rc_config c)" if "x \<in> set ?ps" for x
    using that by auto
  have cross: "ranges_disjoint (fst (?op x)) ?n (snd (?op y)) ?n" if ps: "x \<in> set ?ps" "y \<in> set ?ps" for x y
  proof -
    obtain h v h' w where xy: "x = (h, v)" "y = (h', w)" "h < kc_heads (rc_config c)" "h' < kc_heads (rc_config c)"
      using heads [OF ps(1)] heads [OF ps(2)] by blast
    have "buffers_apart elem_size (side_buffer (rc_keys c) (rc_values c) v) (side_buffer keys vals w)"
      using S by (simp add: append_setting_def source_sides_apart)
    then show ?thesis
      unfolding buffers_apart_def xy
      by (rule ranges_disjoint_sub [OF _ _ op_destination [OF S assms(2) xy(3)] _ op_source [OF S xy(4)]])
        (simp_all add: append_op_def)
  qed
  have dests: "ranges_disjoint (fst (?op x)) ?n (fst (?op y)) ?n" if ps: "x \<in> set ?ps" "y \<in> set ?ps" "x \<noteq> y" for x y
  proof -
    obtain h v h' w where xy: "x = (h, v)" "y = (h', w)" "h < kc_heads (rc_config c)" "h' < kc_heads (rc_config c)"
      using heads [OF ps(1)] heads [OF ps(2)] by blast
    show ?thesis
    proof (cases "v = w")
      case True
      let ?C = "kc_capacity (rc_config c)" and ?rb = "row_bytes elem_size (rc_config c)"
      have block: "row_index (rc_config c) layer a (rc_lengths c ! layer) + tokens
          \<le> row_index (rc_config c) layer b (rc_lengths c ! layer)" if "a < b" for a b
      proof -
        have "Suc (layer * kc_heads (rc_config c) + a) * ?C \<le> (layer * kc_heads (rc_config c) + b) * ?C"
          using that by (intro mult_le_mono1) simp
        then show ?thesis using S by (simp add: row_index_def append_setting_def)
      qed
      have "h \<noteq> h'" using xy True ps(3) by simp
      then consider "h < h'" | "h' < h" by linarith
      then show ?thesis
        using row_run_bound [OF block, of h h' ?rb] row_run_bound [OF block, of h' h ?rb] True
        by cases (auto simp: ranges_disjoint_def append_op_def xy)
    next
      case False
      have "buffers_apart elem_size (side_buffer (rc_keys c) (rc_values c) v) (side_buffer (rc_keys c) (rc_values c) w)"
        using S False by (simp add: append_setting_def cache_sides_apart)
      then show ?thesis
        unfolding buffers_apart_def xy
        by (rule ranges_disjoint_sub [OF _ _ op_destination [OF S assms(2) xy(3)] _ op_destination [OF S assms(2) xy(4)]])
          (simp_all add: append_op_def)
    qed
  qed
  have "distinct ?ps" by (simp add: distinct_product)
  then have "sorted_wrt (\<lambda>x y. ranges_disjoint (fst (?op x)) ?n (fst (?op y)) ?n) ?ps"
    by (rule sorted_wrt_distinct) (rule dests)
  then show ?thesis
    using cross by (auto simp: copies_independent_def sorted_wrt_map)
qed

section \<open>Submitting the plan\<close>

lemma submit_copy_content:
  assumes D: "driver_ordered drv (stream_raw st) content" and "ranges_disjoint dst n src n"
    and "submit_copy drv st resources op layer head tokens n dst src s = (t, r)"
  shows "content (gpu t) = (if r = Ok () then copy_bytes dst src n (content (gpu s)) else content (gpu s))"
proof -
  obtain g rc where g: "cu_memcpy_async drv dst src n (stream_raw st) (gpu s) = (g, rc)" by fastforce
  have c: "content g = (if rc = 0 then copy_bytes dst src n (content (gpu s)) else content (gpu s))"
    using D assms(2) g by (auto simp: driver_ordered_def split: prod.splits)
  have sync: "content (gpu (fst (stream_synchronize drv st u))) = content (gpu u)" for u
    using rt_keeps_ops(2) [OF D, of st] by (simp add: rt_keeps_def)
  show ?thesis
  proof (cases "rc = 0")
    case True
    then show ?thesis using assms(3) g c by (auto simp: submit_copy_def drv_call_def)
  next
    case False
    obtain u q where q: "stream_synchronize drv st (s\<lparr>gpu := g\<rparr>) = (u, q)" by fastforce
    then have "content (gpu u) = content g" using sync [of "s\<lparr>gpu := g\<rparr>"] by simp
    moreover have "gpu t = gpu u" "r \<noteq> Ok ()"
      using assms(3) g False q by (auto simp: submit_copy_def drv_call_def append_error_def split: sum.splits)
    ultimately show ?thesis using c False by simp
  qed
qed

lemma submit_heads_content:
  assumes D: "driver_ordered drv (stream_raw st) content"
  shows "(\<And>x. x \<in> set (plan_ops copies) \<Longrightarrow> ranges_disjoint (fst x) n (snd x) n) \<Longrightarrow>
     rt_for (submit_head drv st resources layer tokens n) (enumerate k copies) s = (t, r) \<Longrightarrow>
     \<exists>m. content (gpu t) = run_copies n (take m (plan_ops copies)) (content (gpu s)) \<and>
         (r = Ok () \<longrightarrow> take m (plan_ops copies) = plan_ops copies)"
proof (induction copies arbitrary: s k)
  case Nil
  then show ?case by (intro exI [of _ 0]) (simp add: plan_ops_def)
next
  case (Cons x copies)
  have ops: "plan_ops (x # copies) = (hc_destination_key x, hc_source_key x) #
      (hc_destination_value x, hc_source_value x) # plan_ops copies"
    by (simp add: plan_ops_def)
  have dk: "ranges_disjoint (hc_destination_key x) n (hc_source_key x) n"
    and dv: "ranges_disjoint (hc_destination_value x) n (hc_source_value x) n"
    using Cons.prems(1) [of "(hc_destination_key x, hc_source_key x)"]
      Cons.prems(1) [of "(hc_destination_value x, hc_source_value x)"] by (simp_all add: ops)
  define kc where "kc = submit_copy drv st resources ''cuMemcpyAsync(KV key append)'' layer k tokens n
      (hc_destination_key x) (hc_source_key x)"
  define vc where "vc = submit_copy drv st resources ''cuMemcpyAsync(KV value append)'' layer k tokens n
      (hc_destination_value x) (hc_source_value x)"
  obtain s1 r1 where k1: "kc s = (s1, r1)" by fastforce
  note c1 = submit_copy_content [OF D dk k1 [unfolded kc_def]]
  have run: "rt_for (submit_head drv st resources layer tokens n) (enumerate k (x # copies)) s =
      (case kc s of (u, Inl e) \<Rightarrow> (u, Err e) | (u, Inr _) \<Rightarrow>
        (case vc u of (w, Inl e) \<Rightarrow> (w, Err e) | (w, Inr _) \<Rightarrow>
           rt_for (submit_head drv st resources layer tokens n) (enumerate (Suc k) copies) w))"
    by (simp add: submit_head_def kc_def vc_def rt_bind_def split: prod.splits sum.splits)
  show ?case
  proof (cases r1)
    case (Inl e)
    then show ?thesis using Cons.prems(2) c1 k1 unfolding run by (intro exI [of _ 0]) auto
  next
    case (Inr _)
    then have c1: "content (gpu s1) = copy_bytes (hc_destination_key x) (hc_source_key x) n (content (gpu s))"
      using c1 by simp
    obtain s2 r2 where k2: "vc s1 = (s2, r2)" by fastforce
    note c2 = submit_copy_content [OF D dv k2 [unfolded vc_def]]
    show ?thesis
    proof (cases r2)
      case (Inl e)
      then show ?thesis using Cons.prems(2) c1 c2 k1 k2 Inr unfolding run
        by (intro exI [of _ 1]) (auto simp: ops)
    next
      case (Inr u)
      then have c2: "content (gpu s2) = copy_bytes (hc_destination_value x) (hc_source_value x) n (content (gpu s1))"
        using c2 by simp
      have rest: "rt_for (submit_head drv st resources layer tokens n) (enumerate (Suc k) copies) s2 = (t, r)"
        using Cons.prems(2) k1 k2 \<open>r1 = Inr _\<close> Inr unfolding run by simp
      obtain m where "content (gpu t) = run_copies n (take m (plan_ops copies)) (content (gpu s2))"
        "r = Ok () \<longrightarrow> take m (plan_ops copies) = plan_ops copies"
        using Cons.IH [OF _ rest] Cons.prems(1) by (auto simp: ops)
      then show ?thesis using c1 c2 by (intro exI [of _ "Suc (Suc m)"]) (simp add: ops)
    qed
  qed
qed

lemma run_copies_0 [simp]: "run_copies 0 cs f = f"
proof -
  have "copy_bytes d s 0 g = g" for d s g by (rule ext) (auto simp: copy_bytes_def)
  then show ?thesis by (induction cs arbitrary: f) simp_all
qed

lemma append_submit_content:
  assumes D: "driver_ordered drv (stream_raw st) content"
    and disj: "\<And>x. x \<in> set (plan_ops copies) \<Longrightarrow> ranges_disjoint (fst x) bytes (snd x) bytes"
    and run: "append_submit drv st resources layer tokens copies bytes s = (t, r)"
  shows "\<exists>cs. set cs \<subseteq> set (plan_ops copies) \<and> content (gpu t) = run_copies bytes cs (content (gpu s)) \<and>
           (is_ok r \<longrightarrow> cs = plan_ops copies)"
proof (cases "bytes = 0")
  case True
  then have "(t, r) = from_enqueued drv st resources s"
    using run by (simp add: append_submit_def rt_bind_def)
  then have "content (gpu t) = content (gpu s)"
    using from_enqueued_keeps [OF D, of st resources] by (metis rt_keeps_def fst_conv)
  then show ?thesis using True by auto
next
  case False
  obtain s1 r1 where c1: "set_current drv (stream_ctx st) s = (s1, r1)" by fastforce
  have k1: "content (gpu s1) = content (gpu s)"
    using rt_keeps_ops(1) [OF D, of "stream_ctx st"] c1 by (metis rt_keeps_def fst_conv)
  define loop where "loop = rt_for (submit_head drv st resources layer tokens bytes) (enumerate 0 copies)"
  obtain s2 r2 where c2: "loop s1 = (s2, r2)" by fastforce
  have run': "(t, r) = (case r1 of Inl e \<Rightarrow> (s1, Err e) | Inr _ \<Rightarrow>
      (case driver_api drv of Inl e \<Rightarrow> (s1, Err e) | Inr _ \<Rightarrow>
      (case r2 of Inl e \<Rightarrow> (s2, Err e) | Inr _ \<Rightarrow> from_enqueued drv st resources s2)))"
    using run [symmetric] False c1 c2
    by (simp add: append_submit_def rt_bind_def loop_def split: sum.splits)
  obtain m where m: "content (gpu s2) = run_copies bytes (take m (plan_ops copies)) (content (gpu s1))"
    "r2 = Ok () \<longrightarrow> take m (plan_ops copies) = plan_ops copies"
    using submit_heads_content [OF D disj c2 [unfolded loop_def]] by blast
  have fe: "content (gpu (fst (from_enqueued drv st resources s2))) = content (gpu s2)"
    using from_enqueued_keeps [OF D, of st resources] by (simp add: rt_keeps_def)
  have t: "t = fst (t, r)" by simp
  show ?thesis
  proof (cases "t = s1 \<and> \<not> is_ok r")
    case True
    then show ?thesis using k1 by (intro exI [of _ "[]"]) simp
  next
    case False
    then have "content (gpu t) = content (gpu s2)" "is_ok r \<longrightarrow> r2 = Ok ()"
      using run' fe by (auto simp: is_ok_def split: sum.splits) (metis fst_conv)+
    then show ?thesis using m k1 by (intro exI [of _ "take m (plan_ops copies)"]) (auto dest: in_set_takeD)
  qed
qed

lemma append_async_content:
  assumes D: "driver_ordered drv (stream_raw (rc_stream c)) content"
    and wf: "rt_kv_wf elem_size c" and apart: "sources_apart elem_size c keys vals"
    and plan: "append_plan elem_size c layer keys vals tokens = Ok (start, end_pos, copies, bytes)"
    and run: "append_layer_async drv elem_size c layer keys vals tokens s = (t, c', r)"
  shows "append_setting elem_size c layer keys vals tokens"
    and "c' = (if is_ok r then c\<lparr>rc_lengths := (rc_lengths c)[layer := rc_lengths c ! layer + tokens]\<rparr> else c)"
    and "\<exists>cs. set cs \<subseteq> set (map (append_op elem_size c layer keys vals tokens)
              (List.product [0..<kc_heads (rc_config c)] [False, True])) \<and>
           content (gpu t) = run_copies (tokens * row_bytes elem_size (rc_config c)) cs (content (gpu s)) \<and>
           (is_ok r \<longrightarrow> cs = map (append_op elem_size c layer keys vals tokens)
              (List.product [0..<kc_heads (rc_config c)] [False, True]))"
proof -
  note P = append_plan_Ok [OF plan]
  show S: "append_setting elem_size c layer keys vals tokens"
    using P wf apart by (simp add: append_setting_def rt_kv_wf_def)
  let ?ops = "map (append_op elem_size c layer keys vals tokens) (List.product [0..<kc_heads (rc_config c)] [False, True])"
  have ops: "plan_ops copies = ?ops" using P(8) by (simp only: plan_ops_planned)
  have disj: "ranges_disjoint (fst x) bytes (snd x) bytes" if "x \<in> set (plan_ops copies)" for x
  proof (cases "tokens = 0")
    case True
    then show ?thesis using P(5) by (auto simp: ranges_disjoint_def)
  next
    case False
    then show ?thesis
      using append_ops_independent [OF S] that P(5) unfolding copies_independent_def ops by blast
  qed
  obtain u q where sub: "append_submit drv (rc_stream c) [keys, vals, rc_keys c, rc_values c] layer tokens copies bytes s = (u, q)"
    by fastforce
  then have res: "t = u \<and> is_ok r = is_ok q \<and> c' = (if is_ok q then c\<lparr>rc_lengths := (rc_lengths c)[layer := end_pos]\<rparr> else c)"
    using run plan by (auto simp: append_layer_async_def is_ok_def split: sum.splits)
  then show "c' = (if is_ok r then c\<lparr>rc_lengths := (rc_lengths c)[layer := rc_lengths c ! layer + tokens]\<rparr> else c)"
    using P by simp
  show "\<exists>cs. set cs \<subseteq> set ?ops \<and>
      content (gpu t) = run_copies (tokens * row_bytes elem_size (rc_config c)) cs (content (gpu s)) \<and>
      (is_ok r \<longrightarrow> cs = ?ops)"
    using append_submit_content [OF D disj sub] res P(5) by (simp add: ops)
qed

section \<open>What an append does to the rows\<close>

lemma row_byte_in_run:
  fixes i j n k rb :: nat
  assumes "k < rb"
  shows "j * rb \<le> i * rb + k \<and> i * rb + k < j * rb + n * rb \<longleftrightarrow> j \<le> i \<and> i < j + n"
proof -
  have "j * rb \<le> i * rb + k \<longleftrightarrow> j \<le> i"
  proof
    assume le: "j * rb \<le> i * rb + k"
    show "j \<le> i"
    proof (rule ccontr)
      assume "\<not> j \<le> i"
      then have "i * rb + rb \<le> j * rb" using row_run_bound [of i 1 j rb] by simp
      with le assms show False by simp
    qed
  qed (simp add: trans_le_add1)
  moreover have "i * rb + k < (j + n) * rb \<longleftrightarrow> i < j + n"
  proof
    assume "i < j + n"
    then have "i * rb + rb \<le> (j + n) * rb" using row_run_bound [of i 1 "j + n" rb] by simp
    with assms show "i * rb + k < (j + n) * rb" by simp
  next
    assume lt: "i * rb + k < (j + n) * rb"
    show "i < j + n"
    proof (rule ccontr)
      assume "\<not> i < j + n"
      then have "(j + n) * rb \<le> i * rb" by simp
      with lt show False by simp
    qed
  qed
  ultimately show ?thesis by (simp add: add_mult_distrib)
qed

lemma row_kept:
  assumes S: "append_setting elem_size c layer keys vals tokens"
    and cs: "set cs \<subseteq> set (map (append_op elem_size c layer keys vals tokens)
        (List.product [0..<kc_heads (rc_config c)] [False, True]))"
    and lh: "l < kc_layers (rc_config c)" "h < kc_heads (rc_config c)" "p < kc_capacity (rc_config c)"
    and out: "l \<noteq> layer \<or> p < rc_lengths c ! layer"
  shows "row_at (run_copies (tokens * row_bytes elem_size (rc_config c)) cs f) (row_bytes elem_size (rc_config c))
      (side_buffer (rc_keys c) (rc_values c) v) (row_index (rc_config c) l h p) =
    row_at f (row_bytes elem_size (rc_config c)) (side_buffer (rc_keys c) (rc_values c) v) (row_index (rc_config c) l h p)"
proof (cases "tokens = 0")
  case False
  let ?rb = "row_bytes elem_size (rc_config c)" and ?b = "side_buffer (rc_keys c) (rc_values c) v"
  let ?start = "rc_lengths c ! layer" and ?i = "row_index (rc_config c) l h p"
  have inb: "?i * ?rb + ?rb \<le> buf_len ?b * elem_size"
    using config_ok_bounds(1) [of elem_size "rc_config c" l h p 1] S lh
    by (simp add: append_setting_def rt_kv_wf_def side_buffer_def)
  have "run_copies (tokens * ?rb) cs f (buf_ptr ?b + ?i * ?rb + k) = f (buf_ptr ?b + ?i * ?rb + k)" if k: "k < ?rb" for k
  proof (rule run_copies_outside)
    fix x assume "x \<in> set cs"
    then obtain h' w where x: "x = append_op elem_size c layer keys vals tokens (h', w)" and h': "h' < kc_heads (rc_config c)"
      using cs by auto
    show "\<not> (fst x \<le> buf_ptr ?b + ?i * ?rb + k \<and> buf_ptr ?b + ?i * ?rb + k < fst x + tokens * ?rb)"
    proof (cases "v = w")
      case True
      have "\<not> (row_index (rc_config c) layer h' ?start \<le> ?i \<and> ?i < row_index (rc_config c) layer h' ?start + tokens)"
      proof
        assume *: "row_index (rc_config c) layer h' ?start \<le> ?i \<and> ?i < row_index (rc_config c) layer h' ?start + tokens"
        define q where "q = ?start + (?i - row_index (rc_config c) layer h' ?start)"
        have "q < kc_capacity (rc_config c)" "row_index (rc_config c) layer h' q = ?i" "?start \<le> q"
          using * S by (auto simp: q_def row_index_def append_setting_def)
        then have "layer = l \<and> q = p" using row_index_block [OF h' _ lh(2,3)] by blast
        with out \<open>?start \<le> q\<close> show False by simp
      qed
      then have "\<not> (row_index (rc_config c) layer h' ?start * ?rb \<le> ?i * ?rb + k \<and>
          ?i * ?rb + k < row_index (rc_config c) layer h' ?start * ?rb + tokens * ?rb)"
        using row_byte_in_run [OF k] by blast
      then show ?thesis using True by (auto simp: x append_op_def)
    next
      case False
      have "buffers_apart elem_size ?b (side_buffer (rc_keys c) (rc_values c) w)"
        using S False by (simp add: append_setting_def cache_sides_apart)
      moreover have "fst x + tokens * ?rb \<le> buf_ptr (side_buffer (rc_keys c) (rc_values c) w) +
          buf_len (side_buffer (rc_keys c) (rc_values c) w) * elem_size"
        using op_destination [OF S _ h', of w] \<open>tokens \<noteq> 0\<close> by (simp add: x)
      moreover have "buf_ptr (side_buffer (rc_keys c) (rc_values c) w) \<le> fst x" by (simp add: x append_op_def)
      ultimately show ?thesis using inb k by (auto simp: buffers_apart_def ranges_disjoint_def)
    qed
  qed
  then show ?thesis by (simp add: row_at_def)
qed simp

lemma row_added:
  assumes S: "append_setting elem_size c layer keys vals tokens"
    and h: "h < kc_heads (rc_config c)" and i: "i < tokens"
  shows "row_at (run_copies (tokens * row_bytes elem_size (rc_config c))
      (map (append_op elem_size c layer keys vals tokens) (List.product [0..<kc_heads (rc_config c)] [False, True])) f)
      (row_bytes elem_size (rc_config c)) (side_buffer (rc_keys c) (rc_values c) v)
      (row_index (rc_config c) layer h (rc_lengths c ! layer + i)) =
    row_at f (row_bytes elem_size (rc_config c)) (side_buffer keys vals v) (h * tokens + i)"
proof -
  let ?rb = "row_bytes elem_size (rc_config c)"
  let ?ops = "map (append_op elem_size c layer keys vals tokens) (List.product [0..<kc_heads (rc_config c)] [False, True])"
  let ?x = "append_op elem_size c layer keys vals tokens (h, v)"
  have "run_copies (tokens * ?rb) ?ops f (fst ?x + (i * ?rb + k)) = f (snd ?x + (i * ?rb + k))" if "k < ?rb" for k
  proof (rule run_copies_at)
    show "copies_independent (tokens * ?rb) ?ops" using i by (intro append_ops_independent [OF S]) simp
    show "?x \<in> set ?ops" using h by (cases v) auto
    show "i * ?rb + k < tokens * ?rb" using row_run_bound [of i 1 tokens ?rb] i that by simp
  qed
  then show ?thesis
    by (simp add: row_at_def append_op_def row_index_def add_mult_distrib add.assoc)
qed

lemma map_upt_add: "map f [0..<n + m] = map f [0..<n] @ map (\<lambda>i. f (n + i)) [0..<m]"
  by (induction m) simp_all

lemma rows_appended:
  assumes D: "driver_ordered drv (stream_raw (rc_stream c)) content"
    and wf: "rt_kv_wf elem_size c" and apart: "sources_apart elem_size c keys vals"
    and run: "append_layer_async drv elem_size c layer keys vals tokens s = (t, c', r)"
    and lh: "l < kc_layers (rc_config c)" "h < kc_heads (rc_config c)"
  shows "cache_rows (content (gpu t)) elem_size c' (side_buffer (rc_keys c) (rc_values c) v) l h =
    cache_rows (content (gpu s)) elem_size c (side_buffer (rc_keys c) (rc_values c) v) l h @
    (if is_ok r \<and> l = layer
     then source_rows (content (gpu s)) elem_size (rc_config c) (side_buffer keys vals v) tokens h else [])"
proof (cases "append_plan elem_size c layer keys vals tokens")
  case (Inl e)
  then have "t = s \<and> c' = c \<and> \<not> is_ok r" using run by (auto simp: append_layer_async_def is_ok_def)
  then show ?thesis by simp
next
  case (Inr p)
  obtain start end_pos copies bytes where p: "p = (start, end_pos, copies, bytes)" by (cases p)
  note A = append_async_content [OF D wf apart Inr [unfolded p] run]
  let ?rb = "row_bytes elem_size (rc_config c)" and ?b = "side_buffer (rc_keys c) (rc_values c) v"
  let ?ops = "map (append_op elem_size c layer keys vals tokens) (List.product [0..<kc_heads (rc_config c)] [False, True])"
  let ?f = "content (gpu s)"
  obtain cs where cs: "set cs \<subseteq> set ?ops" "content (gpu t) = run_copies (tokens * ?rb) cs ?f" "is_ok r \<longrightarrow> cs = ?ops"
    using A(3) by blast
  have len: "n \<le> kc_capacity (rc_config c)" if "n = rc_lengths c ! l" for n
    using wf lh(1) that by (simp add: rt_kv_wf_def)
  have kept: "row_at (content (gpu t)) ?rb ?b (row_index (rc_config c) l h q) = row_at ?f ?rb ?b (row_index (rc_config c) l h q)"
    if "q < rc_lengths c ! l" for q
    unfolding cs(2) using that len by (intro row_kept [OF A(1) cs(1) lh]) auto
  have old: "cache_rows (content (gpu t)) elem_size c ?b l h = cache_rows ?f elem_size c ?b l h"
    using kept by (simp add: cache_rows_def)
  show ?thesis
  proof (cases "is_ok r \<and> l = layer")
    case False
    then have "rc_lengths c' ! l = rc_lengths c ! l" "rc_config c' = rc_config c" using A(2) by auto
    then show ?thesis using old False by (auto simp: cache_rows_def)
  next
    case True
    then have c': "rc_lengths c' ! l = rc_lengths c ! layer + tokens" "rc_config c' = rc_config c"
      using A(2) lh wf by (simp_all add: rt_kv_wf_def)
    have "row_at (content (gpu t)) ?rb ?b (row_index (rc_config c) layer h (rc_lengths c ! layer + i)) =
        row_at ?f ?rb (side_buffer keys vals v) (h * tokens + i)" if "i < tokens" for i
      using row_added [OF A(1) lh(2) that, of ?f v] cs True by simp
    then have "cache_rows (content (gpu t)) elem_size c' ?b l h = cache_rows (content (gpu t)) elem_size c ?b l h @
        source_rows ?f elem_size (rc_config c) (side_buffer keys vals v) tokens h"
      unfolding cache_rows_def c' source_rows_def map_upt_add using True by simp
    then show ?thesis using True old by simp
  qed
qed

lemma append_wf:
  assumes "driver_ordered drv (stream_raw (rc_stream c)) content"
    and "rt_kv_wf elem_size c" "sources_apart elem_size c keys vals"
    and "append_layer_async drv elem_size c layer keys vals tokens s = (t, c', r)"
  shows "rt_kv_wf elem_size c'"
proof (cases "append_plan elem_size c layer keys vals tokens")
  case (Inl e)
  then show ?thesis using assms(2,4) by (auto simp: append_layer_async_def)
next
  case (Inr p)
  obtain start end_pos copies bytes where p: "p = (start, end_pos, copies, bytes)" by (cases p)
  note A = append_async_content(2) [OF assms(1-3) Inr [unfolded p] assms(4)]
  have "\<forall>n \<in> set ((rc_lengths c)[layer := rc_lengths c ! layer + tokens]). n \<le> kc_capacity (rc_config c)"
    using append_plan_Ok(2-4) [OF Inr [unfolded p]] assms(2)
    by (auto simp: rt_kv_wf_def dest: subsetD [OF set_update_subset_insert])
  then show ?thesis using assms(2) A by (simp add: rt_kv_wf_def)
qed

section \<open>Memory stays owned while the device may use it\<close>

text \<open>\<open>pending g\<close>: the copies submitted on the stream that may still touch memory.  Making a context current
  submits none, and a synchronization of the stream that reports success leaves none.\<close>

definition driver_drains :: "'s cuda \<Rightarrow> nat \<Rightarrow> ('s \<Rightarrow> 'w set) \<Rightarrow> bool" where
  "driver_drains drv st pending \<longleftrightarrow>
     (\<forall>ctx g. pending (fst (cu_ctx_set_current drv ctx g)) \<subseteq> pending g) \<and>
     (\<forall>g. snd (cu_stream_synchronize drv st g) = 0 \<longrightarrow> pending (fst (cu_stream_synchronize drv st g)) = {})"

text \<open>Every copy still pending is one of \<open>P\<close>, or the resources were forgotten.\<close>

definition held :: "('s \<Rightarrow> 'w set) \<Rightarrow> 'w set \<Rightarrow> device_buffer list \<Rightarrow> 's rt \<Rightarrow> bool" where
  "held pending P resources s \<longleftrightarrow> pending (gpu s) \<subseteq> P \<or> set resources \<subseteq> set (forgotten s)"

lemma sync_drains:
  assumes "driver_drains drv (stream_raw st) pending" "stream_synchronize drv st s = (t, Ok u)"
  shows "pending (gpu t) = {}"
proof -
  obtain s1 where "drv_call ''cuStreamSynchronize'' (cu_stream_synchronize drv (stream_raw st)) s1 = (t, Ok u)"
    using assms(2) by (auto simp: stream_synchronize_def rt_bind_def split: prod.splits sum.splits)
  then have "snd (cu_stream_synchronize drv (stream_raw st) (gpu s1)) = 0"
    and "gpu t = fst (cu_stream_synchronize drv (stream_raw st) (gpu s1))"
    by (auto simp: drv_call_def split: prod.splits if_splits)
  then show ?thesis using assms(1) by (simp add: driver_drains_def)
qed

lemma append_error_held:
  assumes "driver_drains drv (stream_raw st) pending" "append_error drv st resources e s = (t, r)"
  shows "held pending P resources t"
  using assms(2) sync_drains [OF assms(1)]
  by (auto simp: append_error_def held_def split: prod.splits sum.splits)

lemma drain_held:
  assumes "driver_drains drv (stream_raw st) pending"
  shows "held pending P resources (drain_or_leak drv st resources s)"
  using sync_drains [OF assms]
  by (auto simp: drain_or_leak_def held_def split: prod.splits sum.splits)

lemma from_enqueued_held:
  assumes "driver_drains drv (stream_raw st) pending" "from_enqueued drv st resources s = (t, Err e)"
  shows "held pending P resources t"
  using assms(2) drain_held [OF assms(1)]
  by (auto simp: from_enqueued_def split: prod.splits sum.splits)

lemma submit_copy_held:
  assumes "driver_drains drv (stream_raw st) pending"
    and "submit_copy drv st resources op layer head tokens n dst src s = (t, Err e)"
  shows "held pending P resources t"
  using assms(2) append_error_held [OF assms(1)]
  by (auto simp: submit_copy_def split: prod.splits sum.splits)

lemma submit_heads_held:
  assumes "driver_drains drv (stream_raw st) pending"
  shows "rt_for (submit_head drv st resources layer tokens n) xs s = (t, Err e) \<Longrightarrow> held pending P resources t"
proof (induction xs arbitrary: s)
  case (Cons x xs)
  show ?case
  proof (cases "submit_head drv st resources layer tokens n x s")
    case (Pair u q)
    then show ?thesis
      using Cons submit_copy_held [OF assms]
      by (cases q) (auto simp: rt_bind_def submit_head_def split: prod.splits sum.splits)
  qed
qed simp

lemma append_submit_held:
  assumes D: "driver_drains drv (stream_raw st) pending"
    and run: "append_submit drv st resources layer tokens copies bytes s = (t, Err e)"
  shows "held pending (pending (gpu s)) resources t"
proof (cases "bytes = 0")
  case True
  then show ?thesis using run from_enqueued_held [OF D] by (simp add: append_submit_def rt_bind_def)
next
  case False
  have current: "pending (gpu u) \<subseteq> pending (gpu s)" if "set_current drv (stream_ctx st) s = (u, q)" for u q
    using D that by (auto simp: set_current_def rt_bind_def drv_call_def driver_drains_def split: prod.splits sum.splits) (metis fst_conv subsetD)+
  show ?thesis
    using run False current from_enqueued_held [OF D] submit_heads_held [OF D]
    by (auto simp: append_submit_def rt_bind_def held_def split: prod.splits sum.splits)
qed

text \<open>A driver that runs every call at once on a memory of bytes, one whose copies and synchronizations
  fail, and a cache of one layer with two heads of one byte.\<close>

definition demo_driver :: "int \<Rightarrow> (nat \<Rightarrow> u8) cuda" where
  "demo_driver rc = \<lparr>cu_api = Ok (), cu_ctx_set_current = (\<lambda>_ g. (g, 0)), cu_mem_alloc = (\<lambda>_ g. (g, (0, 4096))),
     cu_memcpy_async = (\<lambda>d s n _ g. (if rc = 0 then copy_bytes d s n g else g, rc)),
     cu_stream_synchronize = (\<lambda>_ g. (g, rc)), cu_stream_wait_event = (\<lambda>_ _ g. (g, 0)),
     cu_event_create = (\<lambda>g. (g, (0, 1))), cu_event_record = (\<lambda>_ _ g. (g, 0)),
     cu_event_synchronize = (\<lambda>_ g. (g, rc)), cu_mem_free = (\<lambda>_ g. (g, 0)),
     cu_memset_d8_async = (\<lambda>d v n _ g. (\<lambda>a. if d \<le> a \<and> a < d + n then of_nat v else g a, 0)),
     cu_memset_d32_async = (\<lambda>d v n _ g. (\<lambda>a. if d \<le> a \<and> a < d + 4 * n then of_nat v else g a, 0)),
     cu_memcpy_htod_async = (\<lambda>d bs _ g. (\<lambda>a. if d \<le> a \<and> a < d + length bs then bs ! (a - d) else g a, 0)),
     cu_memcpy_dtoh_async = (\<lambda>p n _ g. (g, (0, map g [p..<p + n]))),
     cu_stream_create = (\<lambda>_ g. (g, (0, 2))), cu_stream_query = (\<lambda>_ g. (g, rc)), cu_stream_destroy = (\<lambda>_ g. (g, 0)),
     cu_event_query = (\<lambda>_ g. (g, rc)), cu_event_elapsed_time = (\<lambda>_ _ g. (g, (0, 0))), cu_event_destroy = (\<lambda>_ g. (g, 0)),
     cu_mem_pool_create = (\<lambda>_ g. (g, (0, 3))), cu_mem_pool_set_attribute = (\<lambda>_ _ _ g. (g, 0)),
     cu_mem_alloc_from_pool_async = (\<lambda>_ _ _ g. (g, (0, 4096))), cu_mem_free_async = (\<lambda>_ _ g. (g, 0))\<rparr>"

definition demo_rt_cache :: rt_kv_cache where
  "demo_rt_cache =
     \<lparr>rc_config = \<lparr>kc_layers = 1, kc_heads = 2, kc_head_dim = 1, kc_capacity = 2\<rparr>,
      rc_stream = \<lparr>stream_raw = 9, stream_ctx = 7\<rparr>, rc_keys = \<lparr>buf_ptr = 256, buf_len = 4, buf_ctx = 7\<rparr>,
      rc_values = \<lparr>buf_ptr = 512, buf_len = 4, buf_ctx = 7\<rparr>, rc_lengths = [1]\<rparr>"

definition demo_source :: "nat \<Rightarrow> device_buffer" where
  "demo_source ptr = \<lparr>buf_ptr = ptr, buf_len = 2, buf_ctx = 7\<rparr>"

definition demo_rt :: "(nat \<Rightarrow> u8) rt" where
  "demo_rt = \<lparr>gpu = of_nat, forgotten = []\<rparr>"

lemma demo_driver_ordered: "driver_ordered (demo_driver rc) st (\<lambda>g. g)"
  by (simp add: driver_ordered_def demo_driver_def)

lemma demo_rt_wf: "rt_kv_wf 1 demo_rt_cache" "sources_apart 1 demo_rt_cache (demo_source 768) (demo_source 1024)"
  by (simp_all add: rt_kv_wf_def demo_rt_cache_def config_ok_def row_bytes_def elements_of_def buffer_ok_def
      buffers_apart_def ranges_disjoint_def u64_lim_def sources_apart_def demo_source_def)

lemmas append_eval =
  append_layer_async_def append_plan_def rt_kv_len_def plan_head_def append_base_elements_def
  head_base_elements_def device_region_address_def checked_add_def checked_mul_def u64_of_usize_def
  append_submit_def submit_head_def submit_copy_def append_error_def rt_bind_def drv_call_def drv_call_out_def
  set_current_def driver_api_def stream_synchronize_def from_enqueued_def event_new_def event_record_def
  checked_bind_def upt_rec Let_def

section \<open>Properties\<close>

lemma truncate_lengths_spec:
  "truncate_lengths ls n =
     (if \<forall>x \<in> set ls. n \<le> x then (replicate (length ls) n, Ok ()) else (ls, snd (truncate_lengths ls n))) \<and>
   is_ok (snd (truncate_lengths ls n)) = (\<forall>x \<in> set ls. n \<le> x)"
proof (cases "find (\<lambda>(_, current). current < n) (enumerate 0 ls)")
  case None
  then have "\<forall>x \<in> set ls. n \<le> x"
    by (auto simp: find_None_iff enumerate_map_nth in_set_conv_nth not_less)
  then show ?thesis using None by (simp add: truncate_lengths_def is_ok_def)
next
  case (Some p)
  then obtain i where "i < length ls" "ls ! i < n"
    by (auto simp: find_Some_iff nth_enumerate_eq)
  then have "\<not> (\<forall>x \<in> set ls. n \<le> x)" by (metis nth_mem not_less)
  then show ?thesis using Some by (auto simp: truncate_lengths_def is_ok_def split: prod.splits)
qed

text \<open>C7. An append to the device cache adds exactly the source rows or nothing.  With a driver that runs
  the copies of a stream in order, whatever it accepts or rejects: for every layer and head the active
  key rows and value rows afterwards are those before, followed, on success and on the appended layer
  only, by the rows of that head in the packed source; and the cache is well formed again.\<close>

theorem rt_append_refines:
  assumes "driver_ordered drv (stream_raw (rc_stream c)) content"
    and "rt_kv_wf elem_size c" "sources_apart elem_size c keys vals"
    and "append_layer_async drv elem_size c layer keys vals tokens s = (t, c', r)"
  shows "rt_kv_wf elem_size c' \<and>
    (\<forall>l < kc_layers (rc_config c). \<forall>h < kc_heads (rc_config c).
       cache_rows (content (gpu t)) elem_size c' (rc_keys c) l h =
         cache_rows (content (gpu s)) elem_size c (rc_keys c) l h @
         (if is_ok r \<and> l = layer then source_rows (content (gpu s)) elem_size (rc_config c) keys tokens h else []) \<and>
       cache_rows (content (gpu t)) elem_size c' (rc_values c) l h =
         cache_rows (content (gpu s)) elem_size c (rc_values c) l h @
         (if is_ok r \<and> l = layer then source_rows (content (gpu s)) elem_size (rc_config c) vals tokens h else []))"
proof -
  have side: "side_buffer a b False = a" "side_buffer a b True = b" for a b
    by (simp_all add: side_buffer_def)
  show ?thesis
    using append_wf [OF assms] rows_appended [OF assms, where v = False, unfolded side]
      rows_appended [OF assms, where v = True, unfolded side] by blast
qed

theorem rt_append_refines_witness:
  "\<exists>t c' a. append_layer_async (demo_driver 0) 1 demo_rt_cache 0 (demo_source 768) (demo_source 1024) 1 demo_rt =
       (t, c', Ok a) \<and> rt_kv_wf 1 c' \<and>
     cache_rows (gpu t) 1 c' (rc_keys demo_rt_cache) 0 1 = [[2], [1]]"
proof -
  obtain t c' a where run: "append_layer_async (demo_driver 0) 1 demo_rt_cache 0 (demo_source 768) (demo_source 1024) 1
      demo_rt = (t, c', Ok a)"
    by (simp add: append_eval demo_driver_def demo_rt_cache_def demo_source_def demo_rt_def u64_lim_def)
  note R = rt_append_refines [OF demo_driver_ordered demo_rt_wf run]
  have "cache_rows of_nat 1 demo_rt_cache (rc_keys demo_rt_cache) 0 1 = [[2]]"
    "source_rows of_nat 1 (rc_config demo_rt_cache) (demo_source 768) 1 1 = [[1]]"
    by (simp_all add: cache_rows_def source_rows_def row_at_def row_index_def row_bytes_def demo_rt_cache_def
        demo_source_def)
  moreover have "gpu demo_rt = of_nat" "kc_layers (rc_config demo_rt_cache) = 1" "kc_heads (rc_config demo_rt_cache) = 2"
    by (simp_all add: demo_rt_def demo_rt_cache_def)
  ultimately have "rt_kv_wf 1 c' \<and> cache_rows (gpu t) 1 c' (rc_keys demo_rt_cache) 0 1 = [[2], [1]]"
    using R by (simp add: is_ok_def)
  with run show ?thesis by blast
qed

text \<open>C39. No use after free, with any amount of work already enqueued: when an append fails, then every copy that
  may still be running was already running before the call, or both sources and both cache allocations were
  handed to \<open>mem::forget\<close>; so nothing a copy of this call may still write to is released.\<close>

theorem rt_append_failure_keeps_memory:
  assumes "driver_drains drv (stream_raw (rc_stream c)) pending"
    and "append_layer_async drv elem_size c layer keys vals tokens s = (t, c', Err e)"
  shows "pending (gpu t) \<subseteq> pending (gpu s) \<or> {keys, vals, rc_keys c, rc_values c} \<subseteq> set (forgotten t)"
proof (cases "append_plan elem_size c layer keys vals tokens")
  case (Inl x)
  then show ?thesis using assms by (simp add: append_layer_async_def)
next
  case (Inr p)
  obtain start end_pos copies bytes where p: "p = (start, end_pos, copies, bytes)" by (cases p)
  obtain u q where sub: "append_submit drv (rc_stream c) [keys, vals, rc_keys c, rc_values c] layer tokens copies bytes s = (u, q)"
    by fastforce
  then have "q = Err e" "t = u" using assms(2) Inr p by (auto simp: append_layer_async_def split: sum.splits)
  then have "held pending (pending (gpu s)) [keys, vals, rc_keys c, rc_values c] t"
    using append_submit_held [OF assms(1)] sub by simp
  then show ?thesis by (simp add: held_def)
qed

theorem rt_append_failure_keeps_memory_witness:
  "\<exists>t c' e. append_layer_async (demo_driver 700) 1 demo_rt_cache 0 (demo_source 768) (demo_source 1024) 1 demo_rt =
       (t, c', Err e) \<and> (gpu t = of_nat \<or> demo_source 768 \<in> set (forgotten t))"
proof -
  obtain t c' e where run: "append_layer_async (demo_driver 700) 1 demo_rt_cache 0 (demo_source 768) (demo_source 1024) 1
      demo_rt = (t, c', Err e)"
    by (simp add: append_eval demo_driver_def demo_rt_cache_def demo_source_def demo_rt_def u64_lim_def)
  let ?pending = "\<lambda>g. if g = of_nat then {} else {()}"
  have "driver_drains (demo_driver 700) st ?pending" for st
    by (simp add: driver_drains_def demo_driver_def)
  then have "?pending (gpu t) \<subseteq> ?pending (gpu demo_rt) \<or> {demo_source 768, demo_source 1024, rc_keys demo_rt_cache, rc_values demo_rt_cache}
      \<subseteq> set (forgotten t)"
    by (rule rt_append_failure_keeps_memory [OF _ run])
  with run show ?thesis by (auto simp: demo_rt_def split: if_splits)
qed

text \<open>Addressing: in a well-formed cache every layer and head has a range of elements that starts at
  its block and is as long as the layer's rows, no offset computation overflows, the range lies inside the
  allocation, and the ranges of different layers or heads do not meet.\<close>

theorem head_ranges_disjoint:
  assumes "rt_kv_wf elem_size c"
    and "l < kc_layers (rc_config c)" "h < kc_heads (rc_config c)"
    and "l' < kc_layers (rc_config c)" "h' < kc_heads (rc_config c)"
  shows "\<exists>a b a' b'. head_range c l h = Ok (a, b) \<and> head_range c l' h' = Ok (a', b') \<and>
    b = a + rc_lengths c ! l * kc_head_dim (rc_config c) \<and> b \<le> buf_len (rc_keys c) \<and>
    ((l, h) \<noteq> (l', h') \<longrightarrow> b \<le> a' \<or> b' \<le> a)"
proof -
  let ?D = "kc_head_dim (rc_config c)" and ?C = "kc_capacity (rc_config c)" and ?H = "kc_heads (rc_config c)"
  have es: "0 < elem_size" "0 < ?C" "0 < ?H" "0 < ?D" and lens: "\<And>l. l < kc_layers (rc_config c) \<Longrightarrow> rc_lengths c ! l \<le> ?C"
    and len: "length (rc_lengths c) = kc_layers (rc_config c)" and buf: "buf_len (rc_keys c) = elements_of (rc_config c)"
    using assms(1) by (simp_all add: rt_kv_wf_def config_ok_def)
  have lim: "elements_of (rc_config c) < u64_lim"
  proof -
    have "elements_of (rc_config c) \<le> elements_of (rc_config c) * elem_size" using es by simp
    also have "\<dots> < u64_lim" using assms(1) by (simp add: rt_kv_wf_def config_ok_def elements_of_bytes)
    finally show ?thesis .
  qed
  have range: "head_range c l h = Ok ((l * ?H + h) * ?C * ?D, (l * ?H + h) * ?C * ?D + rc_lengths c ! l * ?D) \<and>
      ((l * ?H + h) * ?C + ?C) * ?D \<le> elements_of (rc_config c)"
    if lh: "l < kc_layers (rc_config c)" "h < ?H" for l h
  proof -
    have "(l * ?H + h) * ?C + ?C \<le> kc_layers (rc_config c) * ?H * ?C"
      using row_index_less [OF lh, of "?C - 1"] es by (simp add: row_index_def)
    then have top: "((l * ?H + h) * ?C + ?C) * ?D \<le> elements_of (rc_config c)"
      by (simp add: elements_of_def)
    have "(l * ?H + h) * ?C * ?D + rc_lengths c ! l * ?D \<le> ((l * ?H + h) * ?C + ?C) * ?D"
      using lens [OF lh(1)] by (simp add: add_mult_distrib)
    with top lim have b3: "(l * ?H + h) * ?C * ?D + rc_lengths c ! l * ?D < u64_lim" by linarith
    then have b2: "(l * ?H + h) * ?C * ?D < u64_lim" "rc_lengths c ! l * ?D < u64_lim" by linarith+
    have "(l * ?H + h) * ?C \<le> (l * ?H + h) * ?C * ?D" "l * ?H + h \<le> (l * ?H + h) * ?C" using es by simp_all
    with b2 have b1: "(l * ?H + h) * ?C < u64_lim" "l * ?H + h < u64_lim" "l * ?H < u64_lim" by linarith+
    show ?thesis
      using lh len top b1 b2 b3 by (simp add: head_range_def rt_kv_len_def head_base_elements_def)
  qed
  have before: "(a * ?C) * ?D + n * ?D \<le> (b * ?C) * ?D" if "a < b" "n \<le> ?C" for a b n
  proof -
    have "a * ?C + n \<le> b * ?C" using that row_run_bound [of a 1 b ?C] by simp
    then show ?thesis by (rule row_run_bound)
  qed
  have "l * ?H + h \<noteq> l' * ?H + h'" if "(l, h) \<noteq> (l', h')"
    using that mixed_radix [OF assms(3,5)] by simp
  then have "(l, h) \<noteq> (l', h') \<longrightarrow>
      (l * ?H + h) * ?C * ?D + rc_lengths c ! l * ?D \<le> (l' * ?H + h') * ?C * ?D \<or>
      (l' * ?H + h') * ?C * ?D + rc_lengths c ! l' * ?D \<le> (l * ?H + h) * ?C * ?D"
    using before [of "l * ?H + h" "l' * ?H + h'"] before [of "l' * ?H + h'" "l * ?H + h"]
      lens [OF assms(2)] lens [OF assms(4)] by (meson nat_neq_iff)
  moreover have "(l * ?H + h) * ?C * ?D + rc_lengths c ! l * ?D \<le> elements_of (rc_config c)"
  proof -
    have "(l * ?H + h) * ?C * ?D + rc_lengths c ! l * ?D \<le> ((l * ?H + h) * ?C + ?C) * ?D"
      using lens [OF assms(2)] by (simp add: add_mult_distrib)
    then show ?thesis using range [OF assms(2,3)] by linarith
  qed
  ultimately show ?thesis using range [OF assms(2,3)] range [OF assms(4,5)] buf by auto
qed

theorem head_ranges_disjoint_witness:
  "\<exists>a b a' b'. head_range demo_rt_cache 0 0 = Ok (a, b) \<and> head_range demo_rt_cache 0 1 = Ok (a', b') \<and>
     (b \<le> a' \<or> b' \<le> a)"
  using head_ranges_disjoint [OF demo_rt_wf(1), of 0 0 0 1] by (auto simp: demo_rt_cache_def)

text \<open>C40. Truncation of the device cache is all or nothing: it succeeds exactly when every layer holds at
  least the requested number of rows, and then keeps that many first rows of every layer and head; when
  it fails, nothing changes.\<close>

theorem rt_truncate_all_or_nothing:
  assumes "rt_kv_wf elem_size c"
  shows "is_ok (snd (rt_kv_truncate c n)) = (\<forall>x \<in> set (rc_lengths c). n \<le> x) \<and>
    (\<forall>l < kc_layers (rc_config c). \<forall>h b f.
       cache_rows f elem_size (fst (rt_kv_truncate c n)) b l h =
         (if is_ok (snd (rt_kv_truncate c n)) then take n (cache_rows f elem_size c b l h)
          else cache_rows f elem_size c b l h))"
proof -
  have spec: "rt_kv_truncate c n =
      (if \<forall>x \<in> set (rc_lengths c). n \<le> x then (c\<lparr>rc_lengths := replicate (length (rc_lengths c)) n\<rparr>, Ok ())
       else (c, snd (truncate_lengths (rc_lengths c) n))) \<and>
      is_ok (snd (rt_kv_truncate c n)) = (\<forall>x \<in> set (rc_lengths c). n \<le> x)"
    using truncate_lengths_spec [of "rc_lengths c" n]
    by (auto simp: rt_kv_truncate_def is_ok_def split: prod.splits if_splits)
  show ?thesis
  proof (cases "\<forall>x \<in> set (rc_lengths c). n \<le> x")
    case True
    have "take n [0..<rc_lengths c ! l] = [0..<n]" if "l < kc_layers (rc_config c)" for l
      using True assms that by (simp add: rt_kv_wf_def)
    then show ?thesis
      using spec True assms by (auto simp: cache_rows_def take_map rt_kv_wf_def is_ok_def)
  next
    case False
    then have "fst (rt_kv_truncate c n) = c" "\<not> is_ok (snd (rt_kv_truncate c n))"
      using spec by (metis fst_conv, blast)
    then show ?thesis using False by simp
  qed
qed

theorem rt_truncate_all_or_nothing_witness:
  "\<not> is_ok (snd (rt_kv_truncate demo_rt_cache 2)) \<and> is_ok (snd (rt_kv_truncate demo_rt_cache 0))"
  using rt_truncate_all_or_nothing [OF demo_rt_wf(1), of 2] rt_truncate_all_or_nothing [OF demo_rt_wf(1), of 0]
  by (simp add: demo_rt_cache_def)

end
