(* ===== verification/ErrorText.thy ===== *)
theory ErrorText
  imports CudaRt F32_Bits
begin

text \<open>
  What the messages of the model crates are made of: \<open>NnisError::unsupported\<close> and the \<open>Display\<close>
  implementations of \<open>NnisError\<close> (\<open>nnis-rt/src/error.rs\<close>) and \<open>LibraryError\<close> (\<open>nnis-sys/src/lib.rs\<close>).
  The texts of driver and NVRTC status codes come from the loaded libraries and are an argument.
\<close>

definition unsupported :: "rstr \<Rightarrow> nnis_error" where
  "unsupported what = \<lparr>ne_kind = UnsupportedRequest what, ne_op = [], ne_context = []\<rparr>"

definition unsupported_lit :: "string \<Rightarrow> nnis_error" where
  "unsupported_lit what = unsupported (lit what)"

record status_texts =
  st_error_name :: "int \<Rightarrow> rstr"
  st_error_string :: "int \<Rightarrow> rstr"
  st_nvrtc_string :: "int \<Rightarrow> rstr"

definition dec_int :: "int \<Rightarrow> rstr" where
  "dec_int n = (if n < 0 then lit ''-'' @ dec (nat (- n)) else dec (nat n))"

fun join_with :: "rstr \<Rightarrow> rstr list \<Rightarrow> rstr" where
  "join_with sep [] = []"
| "join_with sep [s] = s"
| "join_with sep (s # t # ts) = s @ sep @ join_with sep (t # ts)"

definition display_library_error :: "library_error \<Rightarrow> rstr" where
  "display_library_error e =
     lit ''failed to load '' @ lit (le_library e) @ lit '' (tried '' @ join_with (lit '', '') (le_candidates e) @
     lit ''): '' @ le_detail e"

definition display_error_kind :: "status_texts \<Rightarrow> nnis_error \<Rightarrow> rstr" where
  "display_error_kind tx e =
     (case ne_kind e of
        DriverCode code \<Rightarrow> ne_op e @ lit '' failed: '' @ st_error_string tx code @ lit '' ('' @
          st_error_name tx code @ lit '', code '' @ dec_int code @ lit '')''
      | NvrtcCode code \<Rightarrow> ne_op e @ lit '' failed: '' @ st_nvrtc_string tx code @ lit '' (code '' @
          dec_int code @ lit '')''
      | CompileLog log \<Rightarrow> ne_op e @ lit '' failed to compile CUDA source'' @
          (if trim log \<noteq> [] then [10] @ lit ''compiler log:'' @ [10] @ trim log else [])
      | LibraryFailure l \<Rightarrow> lit ''native library unavailable: '' @ display_library_error l
      | UnsupportedRequest w \<Rightarrow> lit ''unsupported: '' @ w
      | InvalidInput w \<Rightarrow> lit ''invalid input: '' @ w
      | IoFailure x \<Rightarrow> lit ''io error in '' @ ne_op e @ lit '': '' @ x)"

definition display_nnis_error :: "status_texts \<Rightarrow> nnis_error \<Rightarrow> rstr" where
  "display_nnis_error tx e =
     display_error_kind tx e @
     concat (map (\<lambda>(k, v). [10] @ lit ''  '' @ k @ lit '': '' @ v) (ne_context e))"

text \<open>The decimal text of an \<open>f32\<close> (\<open>{}\<close>): the shortest digits that read back as the same number, nearest
  to it, without an exponent.  A finite value is \<open>m * 2 ^ q / 2 ^ 150\<close>; its neighbours' midpoints are
  half a unit away, a quarter below a power of two.\<close>

definition f32_mant :: "f32 \<Rightarrow> nat" where
  "f32_mant x = (let e = f32_mag x div 8388608; m = f32_mag x mod 8388608 in if e = 0 then m else m + 8388608)"

definition f32_shift :: "f32 \<Rightarrow> nat" where
  "f32_shift x = max 1 (f32_mag x div 8388608)"

definition f32_reads_back :: "f32 \<Rightarrow> nat \<Rightarrow> nat \<Rightarrow> bool" where
  "f32_reads_back x num den =
     (let m = f32_mant x; u = 2 ^ f32_shift x; c = 4 * num * 2 ^ 150;
          below = (if m = 8388608 \<and> 1 < f32_shift x then 1 else 2);
          lo = (4 * m - below) * u * den; hi = (4 * m + 2) * u * den
      in if even m then lo \<le> c \<and> c \<le> hi else lo < c \<and> c < hi)"

text \<open>The candidates with \<open>k\<close> decimal places (\<open>k\<close> may be negative: multiples of a power of ten).\<close>

definition f32_candidates :: "f32 \<Rightarrow> int \<Rightarrow> (nat \<times> nat) list" where
  "f32_candidates x k =
     (let num = f32_mant x * 2 ^ f32_shift x * (if 0 \<le> k then 10 ^ nat k else 1);
          den = 2 ^ 150 * (if 0 \<le> k then 1 else 10 ^ nat (- k));
          d = num div den; unit_num = (if 0 \<le> k then 1 else 10 ^ nat (- k)); unit_den = (if 0 \<le> k then 10 ^ nat k else 1);
          near = (if 2 * (num mod den) < den \<or> (2 * (num mod den) = den \<and> even d) then [d, d + 1] else [d + 1, d])
      in [(c * unit_num, unit_den). c \<leftarrow> near, f32_reads_back x (c * unit_num) unit_den])"

primrec f32_shortest :: "nat \<Rightarrow> f32 \<Rightarrow> int \<Rightarrow> nat \<times> nat" where
  "f32_shortest 0 x k = (0, 1)"
| "f32_shortest (Suc fuel) x k =
     (case f32_candidates x k of c # _ \<Rightarrow> c | [] \<Rightarrow> f32_shortest fuel x (k + 1))"

definition pad_left :: "nat \<Rightarrow> rstr \<Rightarrow> rstr" where
  "pad_left n s = replicate (n - length s) 48 @ s"

definition f32_display :: "f32 \<Rightarrow> rstr" where
  "f32_display x =
     (let sign = (if f32_sign_negative x then lit ''-'' else []) in
      if f32_is_nan x then lit ''NaN''
      else if \<not> f32_is_finite x then sign @ lit ''inf''
      else
        (case f32_shortest 100 x (- 39) of
           (num, den) \<Rightarrow>
             sign @ dec (num div den) @
             (if num mod den = 0 then []
              else lit ''.'' @ pad_left (length (dec den) - 1) (dec (num mod den)))))"

end
