(* ===== verification/DeviceMem.thy ===== *)
theory DeviceMem
  imports KvCacheRt
begin

text \<open>
  The rest of \<open>nnis-rt/src/stream_event.rs\<close> (creation, queries, timing, destruction) and
  \<open>DeviceBuffer\<close> of \<open>memory.rs\<close>: filling, copies between host and device and between buffers, and the free
  when a buffer is dropped.  A host slice is the list of its elements, each the bytes of one \<open>T\<close>; reading
  back yields the bytes.  \<open>driver_transfers\<close> names what the driver documents about these calls on one
  stream.  Page-locked host memory (\<open>PinnedBuffer\<close>) is not modelled.
\<close>

section \<open>Streams and events\<close>

definition CU_STREAM_NON_BLOCKING :: nat where "CU_STREAM_NON_BLOCKING = 1"
definition CUDA_ERROR_NOT_READY :: int where "CUDA_ERROR_NOT_READY = 600"

definition stream_with_flags :: "'s cuda \<Rightarrow> nat \<Rightarrow> nat \<Rightarrow> ('s, stream) rt_comp" where
  "stream_with_flags drv ctx flags =
     rt_bind (set_current drv ctx) (\<lambda>_.
     rt_bind (rt_lift (driver_api drv)) (\<lambda>_.
     rt_bind (drv_call_out ''cuStreamCreate'' (cu_stream_create drv flags)) (\<lambda>raw.
       rt_ok \<lparr>stream_raw = raw, stream_ctx = ctx\<rparr>)))"

definition stream_new :: "'s cuda \<Rightarrow> nat \<Rightarrow> ('s, stream) rt_comp" where
  "stream_new drv ctx = stream_with_flags drv ctx CU_STREAM_NON_BLOCKING"

definition drv_query :: "string \<Rightarrow> ('s \<Rightarrow> 's \<times> int) \<Rightarrow> ('s, bool) rt_comp" where
  "drv_query op f s =
     (case f (gpu s) of (g, rc) \<Rightarrow>
        (s\<lparr>gpu := g\<rparr>,
         if rc = 0 then Ok True else if rc = CUDA_ERROR_NOT_READY then Ok False else Err (driver_error op rc)))"

definition stream_query :: "'s cuda \<Rightarrow> stream \<Rightarrow> ('s, bool) rt_comp" where
  "stream_query drv st =
     rt_bind (set_current drv (stream_ctx st)) (\<lambda>_.
     rt_bind (rt_lift (driver_api drv)) (\<lambda>_.
       drv_query ''cuStreamQuery'' (cu_stream_query drv (stream_raw st))))"

definition event_query :: "'s cuda \<Rightarrow> event \<Rightarrow> ('s, bool) rt_comp" where
  "event_query drv ev =
     rt_bind (set_current drv (event_ctx ev)) (\<lambda>_.
     rt_bind (rt_lift (driver_api drv)) (\<lambda>_.
       drv_query ''cuEventQuery'' (cu_event_query drv (event_raw ev))))"

text \<open>Milliseconds as the \<open>f32\<close> bits the driver returns; widening them to \<open>f64\<close> is exact.\<close>

definition event_elapsed_ms :: "'s cuda \<Rightarrow> event \<Rightarrow> event \<Rightarrow> ('s, nat) rt_comp" where
  "event_elapsed_ms drv ev start =
     (if event_ctx ev \<noteq> event_ctx start then
        rt_lift (Err (invalid_lit ''elapsed-time events belong to different contexts''))
      else
        rt_bind (set_current drv (event_ctx ev)) (\<lambda>_.
        rt_bind (rt_lift (driver_api drv)) (\<lambda>_.
          drv_call_out ''cuEventElapsedTime'' (cu_event_elapsed_time drv (event_raw start) (event_raw ev)))))"

definition stream_drop :: "'s cuda \<Rightarrow> stream \<Rightarrow> 's rt \<Rightarrow> 's rt" where
  "stream_drop drv st = drop_with drv (stream_ctx st) (cu_stream_destroy drv (stream_raw st))"

definition event_drop :: "'s cuda \<Rightarrow> event \<Rightarrow> 's rt \<Rightarrow> 's rt" where
  "event_drop drv ev = drop_with drv (event_ctx ev) (cu_event_destroy drv (event_raw ev))"

section \<open>Device buffers\<close>

definition size_bytes :: "nat \<Rightarrow> device_buffer \<Rightarrow> nat" where
  "size_bytes elem_size b = buf_len b * elem_size"

definition ensure_stream_context :: "device_buffer \<Rightarrow> stream \<Rightarrow> nnis_error + unit" where
  "ensure_stream_context b st =
     (if buf_ctx b \<noteq> stream_ctx st then
        Err (invalid_lit ''device buffer and stream belong to different contexts'')
      else Ok ())"

definition with_bytes :: "nat \<Rightarrow> ('s, 'a) rt_comp \<Rightarrow> ('s, 'a) rt_comp" where
  "with_bytes n m s = (case m s of (t, r) \<Rightarrow> (t, map_err (\<lambda>e. error_with e ''bytes'' n) r))"

definition zero_async :: "'s cuda \<Rightarrow> nat \<Rightarrow> device_buffer \<Rightarrow> stream \<Rightarrow> ('s, unit) rt_comp" where
  "zero_async drv elem_size b st =
     rt_bind (rt_lift (ensure_stream_context b st)) (\<lambda>_.
       if buf_ptr b = 0 then rt_ok ()
       else
         rt_bind (set_current drv (stream_ctx st)) (\<lambda>_.
         rt_bind (rt_lift (driver_api drv)) (\<lambda>_.
           let bytes = size_bytes elem_size b in
           with_bytes bytes (drv_call ''cuMemsetD*''
             (if bytes mod 4 = 0 then cu_memset_d32_async drv (buf_ptr b) 0 (bytes div 4) (stream_raw st)
              else cu_memset_d8_async drv (buf_ptr b) 0 bytes (stream_raw st))))))"

definition then_synchronize :: "'s cuda \<Rightarrow> bool \<Rightarrow> stream \<Rightarrow> ('s, 'a) rt_comp \<Rightarrow> ('s, 'a) rt_comp" where
  "then_synchronize drv needed st m =
     rt_bind m (\<lambda>a. if needed then rt_bind (stream_synchronize drv st) (\<lambda>_. rt_ok a) else rt_ok a)"

definition buffer_zero :: "'s cuda \<Rightarrow> nat \<Rightarrow> device_buffer \<Rightarrow> stream \<Rightarrow> ('s, unit) rt_comp" where
  "buffer_zero drv elem_size b st = then_synchronize drv (buf_ptr b \<noteq> 0) st (zero_async drv elem_size b st)"

definition host_length_error :: "nat \<Rightarrow> device_buffer \<Rightarrow> nnis_error" where
  "host_length_error n b =
     invalid_input (lit ''host slice length '' @ dec n @ lit '' does not match device buffer length '' @ dec (buf_len b))"

definition copy_from_host_async ::
  "'s cuda \<Rightarrow> nat \<Rightarrow> device_buffer \<Rightarrow> stream \<Rightarrow> u8 list list \<Rightarrow> ('s, unit) rt_comp" where
  "copy_from_host_async drv elem_size b st src =
     (if length src \<noteq> buf_len b then rt_lift (Err (host_length_error (length src) b))
      else
        rt_bind (rt_lift (ensure_stream_context b st)) (\<lambda>_.
          if buf_ptr b = 0 then rt_ok ()
          else
            rt_bind (set_current drv (stream_ctx st)) (\<lambda>_.
            rt_bind (rt_lift (driver_api drv)) (\<lambda>_.
              with_bytes (size_bytes elem_size b) (drv_call ''cuMemcpyHtoDAsync''
                (cu_memcpy_htod_async drv (buf_ptr b) (concat src) (stream_raw st)))))))"

definition copy_from_host ::
  "'s cuda \<Rightarrow> nat \<Rightarrow> device_buffer \<Rightarrow> stream \<Rightarrow> u8 list list \<Rightarrow> ('s, unit) rt_comp" where
  "copy_from_host drv elem_size b st src =
     then_synchronize drv (buf_ptr b \<noteq> 0) st (copy_from_host_async drv elem_size b st src)"

text \<open>The copy to the host fills \<open>n\<close> elements; its result is their bytes once the stream has run.  A null buffer leaves
  them as they were, and the callers pass zeroed elements.\<close>

definition drv_read :: "string \<Rightarrow> ('s \<Rightarrow> 's \<times> (int \<times> u8 list)) \<Rightarrow> ('s, u8 list) rt_comp" where
  "drv_read op f s =
     (case f (gpu s) of (g, rc, bs) \<Rightarrow> (s\<lparr>gpu := g\<rparr>, if rc \<noteq> 0 then Err (driver_error op rc) else Ok bs))"

definition copy_to_host_async ::
  "'s cuda \<Rightarrow> nat \<Rightarrow> device_buffer \<Rightarrow> stream \<Rightarrow> nat \<Rightarrow> ('s, u8 list) rt_comp" where
  "copy_to_host_async drv elem_size b st n =
     (if n \<noteq> buf_len b then rt_lift (Err (host_length_error n b))
      else
        rt_bind (rt_lift (ensure_stream_context b st)) (\<lambda>_.
          if buf_ptr b = 0 then rt_ok (replicate (size_bytes elem_size b) 0)
          else
            rt_bind (set_current drv (stream_ctx st)) (\<lambda>_.
            rt_bind (rt_lift (driver_api drv)) (\<lambda>_.
              with_bytes (size_bytes elem_size b) (drv_read ''cuMemcpyDtoHAsync''
                (cu_memcpy_dtoh_async drv (buf_ptr b) (size_bytes elem_size b) (stream_raw st)))))))"

definition copy_to_host :: "'s cuda \<Rightarrow> nat \<Rightarrow> device_buffer \<Rightarrow> stream \<Rightarrow> nat \<Rightarrow> ('s, u8 list) rt_comp" where
  "copy_to_host drv elem_size b st n =
     then_synchronize drv (buf_ptr b \<noteq> 0) st (copy_to_host_async drv elem_size b st n)"

definition buffer_to_vec :: "'s cuda \<Rightarrow> nat \<Rightarrow> device_buffer \<Rightarrow> stream \<Rightarrow> ('s, u8 list) rt_comp" where
  "buffer_to_vec drv elem_size b st = copy_to_host drv elem_size b st (buf_len b)"

definition copy_from_buffer_async ::
  "'s cuda \<Rightarrow> nat \<Rightarrow> device_buffer \<Rightarrow> stream \<Rightarrow> device_buffer \<Rightarrow> ('s, unit) rt_comp" where
  "copy_from_buffer_async drv elem_size b st src =
     (if buf_len src \<noteq> buf_len b then
        rt_lift (Err (invalid_input (lit ''source length '' @ dec (buf_len src) @
          lit '' does not match destination length '' @ dec (buf_len b))))
      else
        rt_bind (rt_lift (ensure_stream_context b st)) (\<lambda>_.
          if buf_ctx b \<noteq> buf_ctx src then
            rt_lift (Err (invalid_lit ''source and destination buffers belong to different contexts''))
          else if buf_ptr b = 0 \<or> buf_ptr src = 0 then rt_ok ()
          else
            rt_bind (set_current drv (stream_ctx st)) (\<lambda>_.
            rt_bind (rt_lift (driver_api drv)) (\<lambda>_.
              with_bytes (size_bytes elem_size b) (drv_call ''cuMemcpyAsync''
                (cu_memcpy_async drv (buf_ptr b) (buf_ptr src) (size_bytes elem_size b) (stream_raw st)))))))"

definition copy_from_buffer ::
  "'s cuda \<Rightarrow> nat \<Rightarrow> device_buffer \<Rightarrow> stream \<Rightarrow> device_buffer \<Rightarrow> ('s, unit) rt_comp" where
  "copy_from_buffer drv elem_size b st src =
     then_synchronize drv (buf_ptr b \<noteq> 0 \<and> buf_ptr src \<noteq> 0) st (copy_from_buffer_async drv elem_size b st src)"

text \<open>\<open>new_zeroed\<close> and \<open>from_host\<close> drop the fresh buffer when filling it fails.\<close>

definition or_drop :: "'s cuda \<Rightarrow> device_buffer \<Rightarrow> ('s, unit) rt_comp \<Rightarrow> ('s, device_buffer) rt_comp" where
  "or_drop drv b m s = (case m s of (t, Inl e) \<Rightarrow> (device_buffer_drop drv b t, Err e) | (t, Inr _) \<Rightarrow> (t, Ok b))"

definition device_buffer_zeroed :: "'s cuda \<Rightarrow> nat \<Rightarrow> nat \<Rightarrow> nat \<Rightarrow> stream \<Rightarrow> ('s, device_buffer) rt_comp" where
  "device_buffer_zeroed drv elem_size ctx len st =
     rt_bind (device_buffer_new drv elem_size ctx len) (\<lambda>b. or_drop drv b (buffer_zero drv elem_size b st))"

definition device_buffer_from_host ::
  "'s cuda \<Rightarrow> nat \<Rightarrow> nat \<Rightarrow> stream \<Rightarrow> u8 list list \<Rightarrow> ('s, device_buffer) rt_comp" where
  "device_buffer_from_host drv elem_size ctx st src =
     rt_bind (device_buffer_new drv elem_size ctx (length src)) (\<lambda>b.
       or_drop drv b (copy_from_host drv elem_size b st src))"

section \<open>What the driver promises about transfers\<close>

text \<open>\<open>content g\<close> is the memory as it will be once the work submitted to the stream has run.\<close>

definition write_bytes :: "nat \<Rightarrow> u8 list \<Rightarrow> (nat \<Rightarrow> u8) \<Rightarrow> nat \<Rightarrow> u8" where
  "write_bytes p bs f = (\<lambda>a. if p \<le> a \<and> a < p + length bs then bs ! (a - p) else f a)"

definition read_bytes :: "nat \<Rightarrow> nat \<Rightarrow> (nat \<Rightarrow> u8) \<Rightarrow> u8 list" where
  "read_bytes p n f = map (\<lambda>k. f (p + k)) [0..<n]"

definition accepted_as :: "('s \<Rightarrow> nat \<Rightarrow> u8) \<Rightarrow> (nat \<Rightarrow> u8) \<Rightarrow> 's \<Rightarrow> 's \<times> int \<Rightarrow> bool" where
  "accepted_as content f g out = (case out of (g', rc) \<Rightarrow> content g' = (if rc = 0 then f else content g))"

definition driver_transfers :: "'s cuda \<Rightarrow> nat \<Rightarrow> ('s \<Rightarrow> nat \<Rightarrow> u8) \<Rightarrow> bool" where
  "driver_transfers drv st content \<longleftrightarrow>
     (\<forall>ctx g. content (fst (cu_ctx_set_current drv ctx g)) = content g) \<and>
     (\<forall>x g. content (fst (cu_stream_synchronize drv x g)) = content g) \<and>
     (\<forall>n g. fst (snd (cu_mem_alloc drv n g)) = 0 \<longrightarrow> snd (snd (cu_mem_alloc drv n g)) \<noteq> 0) \<and>
     (\<forall>p bs g. accepted_as content (write_bytes p bs (content g)) g (cu_memcpy_htod_async drv p bs st g)) \<and>
     (\<forall>p v n g. accepted_as content (write_bytes p (replicate n (of_nat v)) (content g)) g (cu_memset_d8_async drv p v n st g)) \<and>
     (\<forall>p v n g. accepted_as content (write_bytes p (concat (replicate n (le_bytes 4 v))) (content g)) g
        (cu_memset_d32_async drv p v n st g)) \<and>
     (\<forall>p n g. case cu_memcpy_dtoh_async drv p n st g of
        (g', rc, bs) \<Rightarrow> content g' = content g \<and> (rc = 0 \<longrightarrow> bs = read_bytes p n (content g)))"

lemma read_write_bytes: "length bs = n \<Longrightarrow> read_bytes p n (write_bytes p bs f) = bs"
  by (rule nth_equalityI) (simp_all add: read_bytes_def write_bytes_def)

lemma read_bytes_cong: "(\<And>k. k < n \<Longrightarrow> f (p + k) = g (p + k)) \<Longrightarrow> read_bytes p n f = read_bytes p n g"
  by (simp add: read_bytes_def)

lemma transfer_keeps:
  assumes "driver_transfers drv st content"
  shows "rt_keeps content (set_current drv ctx)" "rt_keeps content (stream_synchronize drv x)"
proof -
  show current: "rt_keeps content (set_current drv ctx)" for ctx
    using assms unfolding set_current_def by (intro rt_keeps_bind rt_keeps_call) (simp_all add: driver_transfers_def)
  show "rt_keeps content (stream_synchronize drv x)"
    using assms unfolding stream_synchronize_def
    by (intro rt_keeps_bind rt_keeps_call current) (simp_all add: driver_transfers_def)
qed

text \<open>A successful computation whose only effect on the memory is the one named.\<close>

definition rt_writes :: "('s \<Rightarrow> nat \<Rightarrow> u8) \<Rightarrow> ((nat \<Rightarrow> u8) \<Rightarrow> nat \<Rightarrow> u8) \<Rightarrow> ('s, 'a) rt_comp \<Rightarrow> bool" where
  "rt_writes content w m \<longleftrightarrow> (\<forall>s t a. m s = (t, Ok a) \<longrightarrow> content (gpu t) = w (content (gpu s)))"

lemma rt_writes_call:
  assumes "\<And>g. accepted_as content (w (content g)) g (c g)"
  shows "rt_writes content w (drv_call op c)"
  unfolding rt_writes_def
proof (intro allI impI)
  fix s t and a :: unit assume run: "drv_call op c s = (t, Ok a)"
  then show "content (gpu t) = w (content (gpu s))"
    using assms [of "gpu s"] by (cases "c (gpu s)") (auto simp: drv_call_def accepted_as_def split: if_splits)
qed

lemma rt_writes_bind:
  assumes "rt_keeps content m" "\<And>a. rt_writes content w (k a)"
  shows "rt_writes content w (rt_bind m k)"
  unfolding rt_writes_def
proof (intro allI impI)
  fix s t a assume run: "rt_bind m k s = (t, Ok a)"
  obtain u q where m: "m s = (u, q)" by fastforce
  have u: "content (gpu u) = content (gpu s)" using assms(1) m by (metis rt_keeps_def fst_conv)
  obtain b where b: "q = Ok b" "k b u = (t, Ok a)" using run m by (cases q) (auto simp: rt_bind_def)
  show "content (gpu t) = w (content (gpu s))"
    using assms(2) [of b] b(2) u unfolding rt_writes_def by metis
qed

lemma rt_writes_then:
  assumes "rt_writes content w m" "\<And>a. rt_keeps content (k a)"
  shows "rt_writes content w (rt_bind m k)"
  unfolding rt_writes_def
proof (intro allI impI)
  fix s t a assume run: "rt_bind m k s = (t, Ok a)"
  obtain u q where m: "m s = (u, q)" by fastforce
  then obtain b where q: "q = Ok b" using run by (cases q) (auto simp: rt_bind_def)
  then have "content (gpu u) = w (content (gpu s))" using assms(1) m by (auto simp: rt_writes_def)
  moreover have "content (gpu t) = content (gpu u)"
    using assms(2) [of b] run m q by (simp add: rt_bind_def rt_keeps_def) (metis fst_conv)
  ultimately show "content (gpu t) = w (content (gpu s))" by simp
qed

lemma rt_writes_with_bytes: "rt_writes content w m \<Longrightarrow> rt_writes content w (with_bytes n m)"
  by (simp add: rt_writes_def with_bytes_def split_beta prod_eq_iff)

lemma synchronize_writes:
  assumes "driver_transfers drv (stream_raw st) content" "rt_writes content w m"
  shows "rt_writes content w (then_synchronize drv needed st m)"
  unfolding then_synchronize_def
  by (rule rt_writes_then [OF assms(2)])
    (auto intro!: rt_keeps_bind transfer_keeps(2) [OF assms(1)] simp del: rt_simps)

lemma from_host_writes:
  assumes D: "driver_transfers drv (stream_raw st) content" and "buf_ptr b \<noteq> 0"
  shows "rt_writes content (write_bytes (buf_ptr b) (concat src)) (copy_from_host drv elem_size b st src)"
  unfolding copy_from_host_def
proof (rule synchronize_writes [OF D])
  have "rt_writes content (write_bytes (buf_ptr b) (concat src))
      (drv_call ''cuMemcpyHtoDAsync'' (cu_memcpy_htod_async drv (buf_ptr b) (concat src) (stream_raw st)))"
    using D by (intro rt_writes_call) (simp add: driver_transfers_def)
  moreover have "rt_writes content w (rt_lift (Err e))" for w e by (simp add: rt_writes_def)
  ultimately show "rt_writes content (write_bytes (buf_ptr b) (concat src)) (copy_from_host_async drv elem_size b st src)"
    unfolding copy_from_host_async_def using assms(2)
    by (auto intro!: rt_writes_bind rt_writes_with_bytes transfer_keeps(1) [OF D] simp del: rt_simps)
qed

lemma device_buffer_new_Ok:
  assumes "driver_transfers drv st content" "device_buffer_new drv elem_size ctx len s = (t, Ok b)"
  shows "buf_len b = len" "buf_ptr b = 0 \<longleftrightarrow> len * elem_size = 0"
proof -
  note run = assms(2) [unfolded device_buffer_new_def]
  have alloc: "cu_mem_alloc drv n g = (g', 0, p) \<Longrightarrow> 0 < p" for n g g' p
    using assms(1) unfolding driver_transfers_def by (metis fst_conv snd_conv neq0_conv)
  show "buf_len b = len"
    using run by (auto simp: rt_bind_def split: prod.splits sum.splits if_splits)
  show "buf_ptr b = 0 \<longleftrightarrow> len * elem_size = 0"
    using run alloc by (auto simp: rt_bind_def drv_call_out_def split: prod.splits sum.splits if_splits dest: alloc)
qed

lemma to_vec_reads:
  assumes D: "driver_transfers drv (stream_raw st) content" and "buffer_to_vec drv elem_size b st s = (t, Ok bs)"
    and "buf_ptr b \<noteq> 0"
  shows "bs = read_bytes (buf_ptr b) (size_bytes elem_size b) (content (gpu s))"
proof -
  let ?n = "size_bytes elem_size b"
  obtain u where cur: "set_current drv (stream_ctx st) s = (u, Ok ())"
      "case cu_memcpy_dtoh_async drv (buf_ptr b) ?n (stream_raw st) (gpu u) of (g', rc, out) \<Rightarrow> rc = 0 \<and> out = bs"
    using assms(2,3)
    by (auto simp: buffer_to_vec_def copy_to_host_def then_synchronize_def copy_to_host_async_def rt_bind_def with_bytes_def
        drv_read_def split: prod.splits sum.splits if_splits)
  have "content (gpu u) = content (gpu s)" using transfer_keeps(1) [OF D] cur(1) by (metis rt_keeps_def fst_conv)
  moreover have "case cu_memcpy_dtoh_async drv (buf_ptr b) ?n (stream_raw st) (gpu u) of
      (g', rc, out) \<Rightarrow> content g' = content (gpu u) \<and> (rc = 0 \<longrightarrow> out = read_bytes (buf_ptr b) ?n (content (gpu u)))"
    using D by (simp add: driver_transfers_def)
  ultimately show ?thesis using cur(2) by auto
qed

lemma to_vec_null:
  "buf_ptr b = 0 \<Longrightarrow> buffer_to_vec drv elem_size b st s = (t, Ok bs) \<Longrightarrow> bs = replicate (size_bytes elem_size b) 0"
  by (auto simp: buffer_to_vec_def copy_to_host_def then_synchronize_def copy_to_host_async_def rt_bind_def
      split: prod.splits sum.splits if_splits)

text \<open>After a synchronizing call no copy of the stream is still running.\<close>

lemma then_synchronize_drains:
  assumes "driver_drains drv (stream_raw st) pending" "then_synchronize drv True st m s = (t, Ok a)"
  shows "pending (gpu t) = {}"
proof -
  obtain u where "stream_synchronize drv st u = (t, Ok ())"
    using assms(2) by (auto simp: then_synchronize_def rt_bind_def split: prod.splits sum.splits)
  then show ?thesis by (rule sync_drains [OF assms(1)])
qed

section \<open>A driver on an array of bytes\<close>

definition demo_transfer_driver :: "(nat \<Rightarrow> u8) cuda" where
  "demo_transfer_driver = \<lparr>cu_api = Ok (), cu_ctx_set_current = (\<lambda>_ g. (g, 0)), cu_mem_alloc = (\<lambda>_ g. (g, (0, 256))),
     cu_memcpy_async = (\<lambda>_ _ _ _ g. (g, 801)),
     cu_stream_synchronize = (\<lambda>_ g. (g, 0)), cu_stream_wait_event = (\<lambda>_ _ g. (g, 0)),
     cu_event_create = (\<lambda>g. (g, (0, 1))), cu_event_record = (\<lambda>_ _ g. (g, 0)),
     cu_event_synchronize = (\<lambda>_ g. (g, 0)), cu_mem_free = (\<lambda>_ g. (g, 0)),
     cu_memset_d8_async = (\<lambda>p v n _ g. (write_bytes p (replicate n (of_nat v)) g, 0)),
     cu_memset_d32_async = (\<lambda>p v n _ g. (write_bytes p (concat (replicate n (le_bytes 4 v))) g, 0)),
     cu_memcpy_htod_async = (\<lambda>p bs _ g. (write_bytes p bs g, 0)),
     cu_memcpy_dtoh_async = (\<lambda>p n _ g. (g, (0, read_bytes p n g))),
     cu_stream_create = (\<lambda>_ g. (g, (0, 2))), cu_stream_query = (\<lambda>_ g. (g, 0)), cu_stream_destroy = (\<lambda>_ g. (g, 0)),
     cu_event_query = (\<lambda>_ g. (g, 0)), cu_event_elapsed_time = (\<lambda>_ _ g. (g, (0, 0))), cu_event_destroy = (\<lambda>_ g. (g, 0)),
     cu_mem_pool_create = (\<lambda>_ g. (g, (801, 0))), cu_mem_pool_set_attribute = (\<lambda>_ _ _ g. (g, 801)),
     cu_mem_alloc_from_pool_async = (\<lambda>_ _ _ g. (g, (801, 0))), cu_mem_free_async = (\<lambda>_ _ g. (g, 801))\<rparr>"

lemma demo_transfers: "driver_transfers demo_transfer_driver st id"
  by (simp add: driver_transfers_def accepted_as_def demo_transfer_driver_def)

section \<open>Properties\<close>



end
