(* ===== verification/KvCompaction.thy ===== *)
theory KvCompaction
  imports DeviceMem
begin

text \<open>
  \<open>nnis-rt/src/kv_compaction.rs\<close>: keep chosen rows of a device cache.  The rows are staged into scratch
  buffers, appended to a replacement cache and the replacement is swapped in only when everything has
  succeeded.  Buffers the functions own alone are freed when they go out of scope, unless \<open>mem::forget\<close> kept
  a reference; \<open>handles\<close> are the allocations of the old cache that unfinished append handles of the caller
  still share.  The theorems state the effect on the rows and that a failure leaves the cache as it was.
\<close>

section \<open>Checks\<close>

definition compaction_scratch_elements :: "nat \<Rightarrow> nat \<Rightarrow> nat \<Rightarrow> nnis_error + nat" where
  "compaction_scratch_elements heads retained head_dim =
     ok_or (invalid_lit ''KV compaction scratch shape overflows usize'')
       (checked_bind (checked_mul heads retained) (\<lambda>n. checked_mul n head_dim))"

definition check_retained :: "nat \<Rightarrow> nat option \<Rightarrow> nat \<Rightarrow> nnis_error + nat option" where
  "check_retained active previous pos =
     (if pos \<ge> active then
        Err (invalid_input (lit ''KV compaction position '' @ dec pos @ lit '' is outside active prefix 0..'' @ dec active))
      else if (case previous of Some before \<Rightarrow> pos \<le> before | None \<Rightarrow> False) then
        Err (invalid_lit ''KV compaction positions must be strictly increasing and unique'')
      else Ok (Some pos))"

definition validate_retained_positions :: "nat \<Rightarrow> nat list \<Rightarrow> nnis_error + unit" where
  "validate_retained_positions active retained =
     and_then (for_each_res (check_retained active) None retained) (\<lambda>_. Ok ())"

section \<open>Staging\<close>

record kv_row_copy =
  rw_source_key :: nat
  rw_source_value :: nat
  rw_destination_key :: nat
  rw_destination_value :: nat
  rw_head :: nat
  rw_source_position :: nat
  rw_destination_position :: nat

definition compaction_region_address :: "nat \<Rightarrow> device_buffer \<Rightarrow> nat \<Rightarrow> nat \<Rightarrow> nnis_error + nat" where
  "compaction_region_address elem_size b off elements =
     and_then (ok_or (invalid_lit ''KV compaction region overflows usize'') (checked_add off elements)) (\<lambda>end_pos.
       if end_pos > buf_len b then
         Err (invalid_input (lit ''KV compaction region '' @ dec off @ lit ''..'' @ dec end_pos @
           lit '' exceeds buffer length '' @ dec (buf_len b)))
       else
         and_then (ok_or (invalid_lit ''KV compaction byte offset overflows usize'') (checked_mul off elem_size)) (\<lambda>bo.
         and_then (ok_or (invalid_lit ''KV compaction byte offset exceeds u64'') (u64_of_usize bo)) (\<lambda>bo.
           ok_or (invalid_lit ''KV compaction device address overflows u64'') (checked_add (buf_ptr b) bo))))"

definition compaction_source_element :: "kv_config \<Rightarrow> nat \<Rightarrow> nat \<Rightarrow> nat \<Rightarrow> nnis_error + nat" where
  "compaction_source_element c layer head pos =
     ok_or (invalid_lit ''KV compaction source offset overflows usize'')
       (checked_bind (checked_bind (checked_bind (checked_bind (checked_mul layer (kc_heads c))
          (\<lambda>n. checked_add n head)) (\<lambda>n. checked_mul n (kc_capacity c))) (\<lambda>n. checked_add n pos))
          (\<lambda>n. checked_mul n (kc_head_dim c)))"

definition compaction_destination_element :: "kv_config \<Rightarrow> nat \<Rightarrow> nat \<Rightarrow> nat \<Rightarrow> nnis_error + nat" where
  "compaction_destination_element c retained head pos =
     ok_or (invalid_lit ''KV compaction destination offset overflows usize'')
       (checked_bind (checked_bind (checked_mul head retained) (\<lambda>n. checked_add n pos))
          (\<lambda>n. checked_mul n (kc_head_dim c)))"

definition plan_row ::
  "nat \<Rightarrow> rt_kv_cache \<Rightarrow> nat \<Rightarrow> nat \<Rightarrow> device_buffer \<Rightarrow> device_buffer \<Rightarrow> nat \<times> nat \<times> nat \<Rightarrow> nnis_error + kv_row_copy"
  where
  "plan_row elem_size c layer retained scratch_keys scratch_vals = (\<lambda>(head, dst, src).
     and_then (compaction_source_element (rc_config c) layer head src) (\<lambda>so.
     and_then (compaction_destination_element (rc_config c) retained head dst) (\<lambda>do.
     and_then (compaction_region_address elem_size (rc_keys c) so (kc_head_dim (rc_config c))) (\<lambda>sk.
     and_then (compaction_region_address elem_size (rc_values c) so (kc_head_dim (rc_config c))) (\<lambda>sv.
     and_then (compaction_region_address elem_size scratch_keys do (kc_head_dim (rc_config c))) (\<lambda>dk.
     and_then (compaction_region_address elem_size scratch_vals do (kc_head_dim (rc_config c))) (\<lambda>dv.
       Ok \<lparr>rw_source_key = sk, rw_source_value = sv, rw_destination_key = dk, rw_destination_value = dv,
           rw_head = head, rw_source_position = src, rw_destination_position = dst\<rparr>)))))))"

fun collect_res :: "('a \<Rightarrow> 'e + 'b) \<Rightarrow> 'a list \<Rightarrow> 'e + 'b list" where
  "collect_res f [] = Ok []"
| "collect_res f (x # xs) = and_then (f x) (\<lambda>y. and_then (collect_res f xs) (\<lambda>ys. Ok (y # ys)))"

definition row_steps :: "nat \<Rightarrow> nat list \<Rightarrow> (nat \<times> nat \<times> nat) list" where
  "row_steps heads retained =
     concat (map (\<lambda>head. map (\<lambda>(dst, src). (head, dst, src)) (enumerate 0 retained)) [0..<heads])"

text \<open>Everything before the first driver call: the row size in bytes and the copies.\<close>

definition stage_plan ::
  "nat \<Rightarrow> rt_kv_cache \<Rightarrow> nat \<Rightarrow> nat list \<Rightarrow> device_buffer \<Rightarrow> device_buffer \<Rightarrow> nnis_error + (nat \<times> kv_row_copy list)" where
  "stage_plan elem_size c layer retained scratch_keys scratch_vals =
     and_then (ok_or (invalid_lit ''KV compaction row size overflows usize'')
         (checked_mul (kc_head_dim (rc_config c)) elem_size)) (\<lambda>row_bytes.
     and_then (ok_or (invalid_lit ''KV compaction copy count overflows usize'')
         (checked_mul (kc_heads (rc_config c)) (length retained))) (\<lambda>_.
     and_then (collect_res (plan_row elem_size c layer (length retained) scratch_keys scratch_vals)
         (row_steps (kc_heads (rc_config c)) retained)) (\<lambda>copies. Ok (row_bytes, copies))))"

definition error_with_text :: "nnis_error \<Rightarrow> string \<Rightarrow> string \<Rightarrow> nnis_error" where
  "error_with_text e key val = e\<lparr>ne_context := ne_context e @ [(lit key, lit val)]\<rparr>"

definition stage_error ::
  "'s cuda \<Rightarrow> stream \<Rightarrow> device_buffer list \<Rightarrow> nnis_error \<Rightarrow> ('s, unit) rt_comp" where
  "stage_error drv st scratch e s =
     (case stream_synchronize drv st s of
        (t, Inl _) \<Rightarrow>
          (rt_forget scratch t, Err (error_with_text e ''synchronization'' ''failed after compaction staging error''))
      | (t, Inr _) \<Rightarrow> (t, Err e))"

definition stage_copy ::
  "'s cuda \<Rightarrow> stream \<Rightarrow> device_buffer list \<Rightarrow> string \<Rightarrow> nat \<Rightarrow> kv_row_copy \<Rightarrow> nat \<Rightarrow> nat \<Rightarrow> nat \<Rightarrow> ('s, unit) rt_comp"
  where
  "stage_copy drv st scratch op layer x n dst src s =
     (case drv_call op (cu_memcpy_async drv dst src n (stream_raw st)) s of
        (t, Inl e) \<Rightarrow>
          stage_error drv st scratch
            (error_with (error_with (error_with (error_with e ''layer'' layer) ''head'' (rw_head x))
              ''source_position'' (rw_source_position x)) ''destination_position'' (rw_destination_position x)) t
      | (t, Inr _) \<Rightarrow> (t, Ok ()))"

definition stage_row ::
  "'s cuda \<Rightarrow> stream \<Rightarrow> device_buffer list \<Rightarrow> nat \<Rightarrow> nat \<Rightarrow> kv_row_copy \<Rightarrow> ('s, unit) rt_comp" where
  "stage_row drv st scratch layer n x =
     rt_bind (stage_copy drv st scratch ''cuMemcpyAsync(KV compaction key stage)'' layer x n
        (rw_destination_key x) (rw_source_key x)) (\<lambda>_.
     stage_copy drv st scratch ''cuMemcpyAsync(KV compaction value stage)'' layer x n
        (rw_destination_value x) (rw_source_value x))"

definition stage_finish :: "'s cuda \<Rightarrow> stream \<Rightarrow> device_buffer list \<Rightarrow> ('s, unit) rt_comp" where
  "stage_finish drv st scratch s =
     (case stream_synchronize drv st s of
        (t, Inl e) \<Rightarrow>
          (rt_forget scratch t, Err (error_with_text e ''operation'' ''KV compaction staging synchronization''))
      | (t, Inr _) \<Rightarrow> (t, Ok ()))"

definition stage_selected_rows ::
  "'s cuda \<Rightarrow> nat \<Rightarrow> rt_kv_cache \<Rightarrow> nat \<Rightarrow> nat list \<Rightarrow> device_buffer \<Rightarrow> device_buffer \<Rightarrow> ('s, unit) rt_comp" where
  "stage_selected_rows drv elem_size c layer retained scratch_keys scratch_vals =
     rt_bind (rt_lift (stage_plan elem_size c layer retained scratch_keys scratch_vals)) (\<lambda>(row_bytes, copies).
     rt_bind (set_current drv (stream_ctx (rc_stream c))) (\<lambda>_.
     rt_bind (rt_lift (driver_api drv)) (\<lambda>_.
     rt_bind (rt_for (stage_row drv (rc_stream c) [scratch_keys, scratch_vals] layer row_bytes) copies) (\<lambda>_.
       stage_finish drv (rc_stream c) [scratch_keys, scratch_vals]))))"

section \<open>Rebuilding\<close>

text \<open>The end of the last owner's scope.\<close>

definition release :: "'s cuda \<Rightarrow> device_buffer \<Rightarrow> 's rt \<Rightarrow> 's rt" where
  "release drv b s = (if b \<in> set (forgotten s) then s else device_buffer_drop drv b s)"

definition release_cache :: "'s cuda \<Rightarrow> rt_kv_cache \<Rightarrow> 's rt \<Rightarrow> 's rt" where
  "release_cache drv c s = release drv (rc_values c) (release drv (rc_keys c) s)"

text \<open>One layer: scratch, staging, append; the replacement is the state of the loop.\<close>

definition rebuild_layer ::
  "'s cuda \<Rightarrow> nat \<Rightarrow> rt_kv_cache \<Rightarrow> 's rt \<times> rt_kv_cache \<Rightarrow> nat \<times> nat list \<Rightarrow> ('s rt \<times> rt_kv_cache) \<times> (nnis_error + unit)"
  where
  "rebuild_layer drv elem_size c = (\<lambda>(s, rep) (layer, selection).
     if selection = [] then ((s, rep), Ok ())
     else
       (case compaction_scratch_elements (kc_heads (rc_config c)) (length selection) (kc_head_dim (rc_config c)) of
          Inl e \<Rightarrow> ((s, rep), Err e)
        | Inr elements \<Rightarrow>
       (case device_buffer_new drv elem_size (stream_ctx (rc_stream c)) elements s of
          (s, Inl e) \<Rightarrow> ((s, rep), Err e)
        | (s, Inr sk) \<Rightarrow>
       (case device_buffer_new drv elem_size (stream_ctx (rc_stream c)) elements s of
          (s, Inl e) \<Rightarrow> ((release drv sk s, rep), Err e)
        | (s, Inr sv) \<Rightarrow>
       (case stage_selected_rows drv elem_size c layer selection sk sv s of
          (s, Inl e) \<Rightarrow> ((release drv sk (release drv sv s), rep), Err e)
        | (s, Inr _) \<Rightarrow>
       (case append_layer drv elem_size rep layer sk sv (length selection) s of
          (s, rep, r) \<Rightarrow> ((release drv sk (release drv sv s), rep), r)))))))"

definition check_selection :: "rt_kv_cache \<Rightarrow> nat \<times> nat list \<Rightarrow> nnis_error + unit" where
  "check_selection c = (\<lambda>(layer, selection).
     and_then (rt_kv_len c layer) (\<lambda>active.
     and_then (validate_retained_positions active selection) (\<lambda>_.
       if selection \<noteq> [] then
         and_then (compaction_scratch_elements (kc_heads (rc_config c)) (length selection) (kc_head_dim (rc_config c)))
           (\<lambda>_. Ok ())
       else Ok ())))"

definition rebuild_and_swap ::
  "'s cuda \<Rightarrow> nat \<Rightarrow> device_buffer list \<Rightarrow> rt_kv_cache \<Rightarrow> nat list list \<Rightarrow> 's rt \<Rightarrow> 's rt \<times> rt_kv_cache \<times> (nnis_error + unit)"
  where
  "rebuild_and_swap drv elem_size handles c selections s =
     (if length selections \<noteq> kc_layers (rc_config c) then
        (s, c, Err (invalid_input (lit ''KV compaction requires one selection per layer; got '' @
           dec (length selections) @ lit '' for '' @ dec (kc_layers (rc_config c)) @ lit '' layers'')))
      else
        (case check_all (check_selection c) (enumerate 0 selections) of
           Inl e \<Rightarrow> (s, c, Err e)
         | Inr _ \<Rightarrow>
        (case stream_synchronize drv (rc_stream c) s of
           (s, Inl e) \<Rightarrow> (s, c, Err e)
         | (s, Inr _) \<Rightarrow>
        (case rt_kv_new drv elem_size (rc_stream c) (rc_config c) s of
           (s, Inl e) \<Rightarrow> (s, c, Err e)
         | (s, Inr rep) \<Rightarrow>
        (case for_each_st (rebuild_layer drv elem_size c) (s, rep) (enumerate 0 selections) of
           ((s, rep), Inl e) \<Rightarrow> (release_cache drv rep s, c, Err e)
         | ((s, rep), Inr _) \<Rightarrow>
        (case stream_synchronize drv (rc_stream rep) s of
           (s, Inl e) \<Rightarrow> (release_cache drv rep s, c, Err e)
         | (s, Inr _) \<Rightarrow>
             (fold (\<lambda>b t. if b \<in> set handles then t else release drv b t) [rc_keys c, rc_values c] s, rep, Ok ())))))))"

definition layer_selections ::
  "rt_kv_cache \<Rightarrow> nat \<Rightarrow> nat list \<Rightarrow> nat \<Rightarrow> nnis_error + nat list" where
  "layer_selections c layer retained current =
     and_then (rt_kv_len c current) (\<lambda>active.
       let selection = (if current = layer then retained else [0..<active])
       in and_then (validate_retained_positions active selection) (\<lambda>_.
          and_then
            (if selection \<noteq> [] then
               and_then (compaction_scratch_elements (kc_heads (rc_config c)) (length selection)
                 (kc_head_dim (rc_config c))) (\<lambda>_. Ok ())
             else Ok ()) (\<lambda>_. Ok selection)))"

definition compact_kv_cache_layer ::
  "'s cuda \<Rightarrow> nat \<Rightarrow> device_buffer list \<Rightarrow> rt_kv_cache \<Rightarrow> nat \<Rightarrow> nat list \<Rightarrow> 's rt \<Rightarrow>
   's rt \<times> rt_kv_cache \<times> (nnis_error + unit)" where
  "compact_kv_cache_layer drv elem_size handles c layer retained s =
     (if layer \<ge> kc_layers (rc_config c) then
        (s, c, Err (invalid_input (lit ''KV compaction layer '' @ dec layer @ lit '' is out of range for '' @
           dec (kc_layers (rc_config c)) @ lit '' layers'')))
      else
        (case rt_kv_len c layer of
           Inl e \<Rightarrow> (s, c, Err e)
         | Inr active \<Rightarrow>
        (case validate_retained_positions active retained of
           Inl e \<Rightarrow> (s, c, Err e)
         | Inr _ \<Rightarrow>
             if length retained = active \<and> retained = [0..<active] then
               (case stream_synchronize drv (rc_stream c) s of (t, r) \<Rightarrow> (t, c, r))
             else if retained = [] then
               (case stream_synchronize drv (rc_stream c) s of
                  (t, Inl e) \<Rightarrow> (t, c, Err e)
                | (t, Inr _) \<Rightarrow> (case rt_kv_reset_layer c layer of (c', r) \<Rightarrow> (t, c', r)))
             else
               (case collect_res (layer_selections c layer retained) [0..<kc_layers (rc_config c)] of
                  Inl e \<Rightarrow> (s, c, Err e)
                | Inr selections \<Rightarrow> rebuild_and_swap drv elem_size handles c selections s))))"

definition check_uniform :: "rt_kv_cache \<Rightarrow> nat \<Rightarrow> nat \<Rightarrow> nnis_error + unit" where
  "check_uniform c active layer =
     and_then (rt_kv_len c layer) (\<lambda>layer_active.
       if layer_active \<noteq> active then
         Err (invalid_input (lit ''whole-cache KV compaction requires uniform active lengths; layer 0 has '' @
           dec active @ lit '' rows but layer '' @ dec layer @ lit '' has '' @ dec layer_active))
       else Ok ())"

definition compact_kv_cache ::
  "'s cuda \<Rightarrow> nat \<Rightarrow> device_buffer list \<Rightarrow> rt_kv_cache \<Rightarrow> nat list \<Rightarrow> 's rt \<Rightarrow> 's rt \<times> rt_kv_cache \<times> (nnis_error + unit)"
  where
  "compact_kv_cache drv elem_size handles c retained s =
     (case rt_kv_len c 0 of
        Inl e \<Rightarrow> (s, c, Err e)
      | Inr active \<Rightarrow>
     (case check_all (check_uniform c active) [1..<kc_layers (rc_config c)] of
        Inl e \<Rightarrow> (s, c, Err e)
      | Inr _ \<Rightarrow>
     (case validate_retained_positions active retained of
        Inl e \<Rightarrow> (s, c, Err e)
      | Inr _ \<Rightarrow>
          if length retained = active \<and> retained = [0..<active] then
            (case stream_synchronize drv (rc_stream c) s of (t, r) \<Rightarrow> (t, c, r))
          else if retained = [] then
            (case stream_synchronize drv (rc_stream c) s of
               (t, Inl e) \<Rightarrow> (t, c, Err e)
             | (t, Inr _) \<Rightarrow> (t, rt_kv_reset c, Ok ()))
          else
            (case compaction_scratch_elements (kc_heads (rc_config c)) (length retained) (kc_head_dim (rc_config c)) of
               Inl e \<Rightarrow> (s, c, Err e)
             | Inr _ \<Rightarrow> rebuild_and_swap drv elem_size handles c (replicate (kc_layers (rc_config c)) retained) s))))"

section \<open>Allocations\<close>

text \<open>\<open>live g\<close> is the set of allocations, each an address and a size.  \<open>driver_allocates\<close>: an accepted
  allocation is a range of the address space disjoint from every other, a free ends the allocation at
  its address if anything, no other call changes the set, and memory outside the range concerned stays.\<close>

definition inside :: "nat \<times> nat \<Rightarrow> nat \<Rightarrow> bool" where
  "inside x a \<longleftrightarrow> fst x \<le> a \<and> a < fst x + snd x"

definition disjoint_from :: "nat \<times> nat \<Rightarrow> nat \<times> nat \<Rightarrow> bool" where
  "disjoint_from x y \<longleftrightarrow> ranges_disjoint (fst x) (snd x) (fst y) (snd y)"

definition alloc_step ::
  "('s \<Rightarrow> (nat \<times> nat) set) \<Rightarrow> ('s \<Rightarrow> nat \<Rightarrow> u8) \<Rightarrow> nat \<Rightarrow> 's \<Rightarrow> 's \<times> (int \<times> nat) \<Rightarrow> bool" where
  "alloc_step live content n g = (\<lambda>(g', rc, p).
     if rc = 0 then
       0 < p \<and> p + n < u64_lim \<and> (\<forall>x \<in> live g. disjoint_from (p, n) x) \<and> live g' = insert (p, n) (live g) \<and>
       (\<forall>a. \<not> inside (p, n) a \<longrightarrow> content g' a = content g a)
     else live g' = live g \<and> content g' = content g)"

definition free_step :: "('s \<Rightarrow> (nat \<times> nat) set) \<Rightarrow> ('s \<Rightarrow> nat \<Rightarrow> u8) \<Rightarrow> nat \<Rightarrow> 's \<Rightarrow> 's \<Rightarrow> bool" where
  "free_step live content p g g' \<longleftrightarrow>
     (live g' = live g \<or> live g' = {x \<in> live g. fst x \<noteq> p}) \<and>
     (\<forall>a. (\<forall>x \<in> live g. fst x = p \<longrightarrow> \<not> inside x a) \<longrightarrow> content g' a = content g a)"

definition driver_allocates :: "'s cuda \<Rightarrow> ('s \<Rightarrow> (nat \<times> nat) set) \<Rightarrow> ('s \<Rightarrow> nat \<Rightarrow> u8) \<Rightarrow> bool" where
  "driver_allocates drv live content \<longleftrightarrow>
     (\<forall>ctx g. live (fst (cu_ctx_set_current drv ctx g)) = live g) \<and>
     (\<forall>x g. live (fst (cu_stream_synchronize drv x g)) = live g) \<and>
     (\<forall>g. live (fst (cu_event_create drv g)) = live g) \<and>
     (\<forall>e x g. live (fst (cu_event_record drv e x g)) = live g) \<and>
     (\<forall>e g. live (fst (cu_event_synchronize drv e g)) = live g) \<and>
     (\<forall>d s n x g. live (fst (cu_memcpy_async drv d s n x g)) = live g) \<and>
     (\<forall>n g. 0 < n \<longrightarrow> alloc_step live content n g (cu_mem_alloc drv n g)) \<and>
     (\<forall>p g. free_step live content p g (fst (cu_mem_free drv p g)))"

definition region :: "nat \<Rightarrow> device_buffer \<Rightarrow> nat \<times> nat" where
  "region elem_size b = (buf_ptr b, buf_len b * elem_size)"

definition live_ok :: "(nat \<times> nat) set \<Rightarrow> bool" where
  "live_ok L \<longleftrightarrow> (\<forall>x \<in> L. 0 < fst x \<and> 0 < snd x \<and> fst x + snd x < u64_lim) \<and>
     (\<forall>x \<in> L. \<forall>y \<in> L. x \<noteq> y \<longrightarrow> disjoint_from x y)"

lemma live_ok_subset: "live_ok L \<Longrightarrow> M \<subseteq> L \<Longrightarrow> live_ok M"
  unfolding live_ok_def by blast

lemma live_ok_insert:
  "live_ok L \<Longrightarrow> 0 < fst x \<Longrightarrow> 0 < snd x \<Longrightarrow> fst x + snd x < u64_lim \<Longrightarrow> (\<forall>y \<in> L. disjoint_from x y) \<Longrightarrow>
     live_ok (insert x L)"
  unfolding live_ok_def disjoint_from_def ranges_disjoint_def by auto

lemma live_ok_ptr:
  "live_ok L \<Longrightarrow> x \<in> L \<Longrightarrow> y \<in> L \<Longrightarrow> fst x = fst y \<Longrightarrow> x = y"
  unfolding live_ok_def disjoint_from_def ranges_disjoint_def by force

lemma live_ok_apart:
  "live_ok L \<Longrightarrow> x \<in> L \<Longrightarrow> y \<in> L \<Longrightarrow> x \<noteq> y \<Longrightarrow> inside x a \<Longrightarrow> \<not> inside y a"
  unfolding live_ok_def disjoint_from_def ranges_disjoint_def inside_def by force

text \<open>What a step may do to the memory: the allocations in \<open>K\<close> stay, and so does what they hold.\<close>

definition preserves ::
  "('s \<Rightarrow> (nat \<times> nat) set) \<Rightarrow> ('s \<Rightarrow> nat \<Rightarrow> u8) \<Rightarrow> (nat \<times> nat) set \<Rightarrow> 's rt \<Rightarrow> 's rt \<Rightarrow> bool" where
  "preserves live content K s t \<longleftrightarrow>
     K \<subseteq> live (gpu t) \<and> live_ok (live (gpu t)) \<and> (\<forall>x \<in> K. \<forall>a. inside x a \<longrightarrow> content (gpu t) a = content (gpu s) a)"

lemma preserves_trans:
  "preserves live content K s t \<Longrightarrow> preserves live content K' t u \<Longrightarrow> K \<subseteq> K' \<Longrightarrow> preserves live content K s u"
  unfolding preserves_def by (metis subset_eq)

lemma preserves_same:
  "live (gpu t) = live (gpu s) \<Longrightarrow> content (gpu t) = content (gpu s) \<Longrightarrow> live_ok (live (gpu s)) \<Longrightarrow> K \<subseteq> live (gpu s) \<Longrightarrow>
     preserves live content K s t"
  by (simp add: preserves_def)

lemma live_keeps:
  assumes "driver_allocates drv live content"
  shows "rt_keeps live (set_current drv ctx)"
    and "rt_keeps live (stream_synchronize drv x)"
    and "rt_keeps live (event_new drv ctx)"
    and "rt_keeps live (event_record drv ev x)"
    and "rt_keeps live (event_synchronize drv ev)"
proof -
  show current: "rt_keeps live (set_current drv ctx)" for ctx
    using assms unfolding set_current_def by (intro rt_keeps_bind rt_keeps_call) (simp_all add: driver_allocates_def)
  show "rt_keeps live (stream_synchronize drv x)"
    using assms unfolding stream_synchronize_def
    by (intro rt_keeps_bind rt_keeps_call current) (simp_all add: driver_allocates_def)
  show "rt_keeps live (event_new drv ctx)"
    using assms unfolding event_new_def
    by (intro rt_keeps_bind rt_keeps_call current) (simp_all add: driver_allocates_def)
  show "rt_keeps live (event_record drv ev x)"
    using assms unfolding event_record_def
    by (auto intro!: rt_keeps_bind rt_keeps_call current simp: driver_allocates_def)
  show "rt_keeps live (event_synchronize drv ev)"
    using assms unfolding event_synchronize_def
    by (intro rt_keeps_bind rt_keeps_call current) (simp_all add: driver_allocates_def)
qed

lemma rt_keepsD: "rt_keeps f m \<Longrightarrow> m s = (t, r) \<Longrightarrow> f (gpu t) = f (gpu s)"
  by (metis rt_keeps_def fst_conv)

lemma alloc_effect:
  assumes A: "driver_allocates drv live content" and D: "driver_ordered drv st content"
    and ok: "live_ok (live (gpu s))" and pos: "0 < len * elem_size"
    and run: "device_buffer_new drv elem_size ctx len s = (t, r)"
  shows "preserves live content (live (gpu s)) s t"
    and "r = Ok b \<Longrightarrow> buf_len b = len \<and> buf_ctx b = ctx \<and> region elem_size b \<notin> live (gpu s) \<and> region elem_size b \<in> live (gpu t)"
proof -
  obtain s1 r1 where c1: "set_current drv ctx s = (s1, r1)" by fastforce
  note k1 = rt_keepsD [OF live_keeps(1) [OF A] c1] rt_keepsD [OF rt_keeps_ops(1) [OF D] c1]
  obtain g rc p where al: "cu_mem_alloc drv (len * elem_size) (gpu s1) = (g, rc, p)" by (metis surj_pair)
  have "alloc_step live content (len * elem_size) (gpu s1) (g, rc, p)"
    using A pos al unfolding driver_allocates_def by metis
  then have eff: "if rc = 0 then 0 < p \<and> p + len * elem_size < u64_lim \<and> (\<forall>x \<in> live (gpu s). disjoint_from (p, len * elem_size) x) \<and>
        live g = insert (p, len * elem_size) (live (gpu s)) \<and>
        (\<forall>a. \<not> inside (p, len * elem_size) a \<longrightarrow> content g a = content (gpu s) a)
      else live g = live (gpu s) \<and> content g = content (gpu s)"
    using k1 by (simp add: alloc_step_def)
  have run': "(t, r) = (case checked_mul len elem_size of None \<Rightarrow> (s, Err (invalid_input (lit ''allocation size overflows usize'')))
      | Some _ \<Rightarrow> (case r1 of Inl e \<Rightarrow> (s1, Err e) | Inr _ \<Rightarrow> (case driver_api drv of Inl e \<Rightarrow> (s1, Err e) | Inr _ \<Rightarrow>
        (s1\<lparr>gpu := g\<rparr>, if rc \<noteq> 0 then Err (error_with (error_with (driver_error ''cuMemAlloc'' rc) ''bytes'' (len * elem_size)) ''len'' len)
           else Ok \<lparr>buf_ptr = p, buf_len = len, buf_ctx = ctx\<rparr>))))"
  proof (cases "checked_mul len elem_size")
    case None
    then show ?thesis using run unfolding device_buffer_new_def rt_bind_def None by simp
  next
    case (Some n)
    then have n: "checked_mul len elem_size = Some (len * elem_size)" by simp
    show ?thesis using run c1 al pos unfolding device_buffer_new_def rt_bind_def n drv_call_out_def
      by (cases r1; cases "driver_api drv"; cases "rc = 0") simp_all
  qed
  have same: "preserves live content (live (gpu s)) s s" "preserves live content (live (gpu s)) s s1"
    using k1 ok by (simp_all add: preserves_def)
  have new: "preserves live content (live (gpu s)) s (s1\<lparr>gpu := g\<rparr>)"
  proof (cases "rc = 0")
    case True
    then have "live_ok (live g)"
      using eff ok pos by (simp add: live_ok_insert)
    moreover have "\<not> inside (p, len * elem_size) a" if "x \<in> live (gpu s)" "inside x a" for x a
      using eff True that by (force simp: disjoint_from_def ranges_disjoint_def inside_def)
    ultimately show ?thesis using eff True by (auto simp: preserves_def)
  next
    case False
    then show ?thesis using eff ok by (simp add: preserves_def)
  qed
  show "preserves live content (live (gpu s)) s t"
    using run' same new by (auto split: option.splits sum.splits)
  assume b: "r = Ok b"
  then have b': "rc = 0" "t = s1\<lparr>gpu := g\<rparr>" "b = \<lparr>buf_ptr = p, buf_len = len, buf_ctx = ctx\<rparr>"
    using run' by (auto split: option.splits sum.splits if_splits)
  moreover have "(p, len * elem_size) \<notin> live (gpu s)"
    using eff b'(1) pos by (force simp: disjoint_from_def ranges_disjoint_def)
  ultimately show "buf_len b = len \<and> buf_ctx b = ctx \<and> region elem_size b \<notin> live (gpu s) \<and> region elem_size b \<in> live (gpu t)"
    using eff by (simp add: region_def)
qed

lemma drop_effect:
  assumes A: "driver_allocates drv live content" and D: "driver_ordered drv st content"
    and ok: "live_ok (live (gpu s))"
  shows "preserves live content {x \<in> live (gpu s). fst x \<noteq> buf_ptr b} s (device_buffer_drop drv b s)"
proof -
  let ?u = "fst (set_current drv (buf_ctx b) s)"
  have k: "live (gpu ?u) = live (gpu s)" "content (gpu ?u) = content (gpu s)"
    using live_keeps(1) [OF A] rt_keeps_ops(1) [OF D] by (simp_all add: rt_keeps_def)
  let ?g = "fst (cu_mem_free drv (buf_ptr b) (gpu ?u))"
  have "free_step live content (buf_ptr b) (gpu ?u) ?g"
    using A unfolding driver_allocates_def by blast
  then have f: "live ?g = live (gpu s) \<or> live ?g = {x \<in> live (gpu s). fst x \<noteq> buf_ptr b}"
    "\<forall>a. (\<forall>x \<in> live (gpu s). fst x = buf_ptr b \<longrightarrow> \<not> inside x a) \<longrightarrow> content ?g a = content (gpu s) a"
    using k unfolding free_step_def by simp_all
  have "live_ok (live ?g)" using f(1) ok by (auto intro: live_ok_subset)
  moreover have "content ?g a = content (gpu s) a" if "x \<in> live (gpu s)" "fst x \<noteq> buf_ptr b" "inside x a" for x a
    using f(2) live_ok_apart [OF ok that(1) _ _ that(3)] that(2) by blast
  ultimately have "preserves live content {x \<in> live (gpu s). fst x \<noteq> buf_ptr b} s (?u\<lparr>gpu := ?g\<rparr>)"
    using f(1) by (auto simp: preserves_def)
  then show ?thesis
    using ok by (auto simp: device_buffer_drop_def drop_with_def Let_def preserves_def split: sum.splits)
qed

lemma release_effect:
  assumes A: "driver_allocates drv live content" and D: "driver_ordered drv st content"
    and ok: "live_ok (live (gpu s))"
  shows "preserves live content {x \<in> live (gpu s). fst x \<noteq> buf_ptr b} s (release drv b s)"
  using drop_effect [OF assms] ok by (auto simp: release_def preserves_def)

section \<open>What staging copies\<close>

lemma run_copies_append [simp]: "run_copies n (cs @ ds) f = run_copies n ds (run_copies n cs f)"
  by (simp add: run_copies_def)

text \<open>\<open>copies_some\<close>: of the copies \<open>ops\<close> some were accepted, all of them when the step succeeded.\<close>

definition copies_some ::
  "('s \<Rightarrow> (nat \<times> nat) set) \<Rightarrow> ('s \<Rightarrow> nat \<Rightarrow> u8) \<Rightarrow> nat \<Rightarrow> copy_op list \<Rightarrow> 's rt \<Rightarrow> 's rt \<times> (nnis_error + 'a) \<Rightarrow> bool" where
  "copies_some live content n ops s res \<longleftrightarrow>
     live (gpu (fst res)) = live (gpu s) \<and>
     (\<exists>cs. set cs \<subseteq> set ops \<and> content (gpu (fst res)) = run_copies n cs (content (gpu s)) \<and> (is_ok (snd res) \<longrightarrow> cs = ops))"

lemma copies_some_bind:
  assumes "copies_some live content n ops s (m s)" and "\<And>t a. m s = (t, Ok a) \<Longrightarrow> copies_some live content n ops' t (k a t)"
  shows "copies_some live content n (ops @ ops') s (rt_bind m k s)"
proof (cases "m s")
  case (Pair t r)
  show ?thesis
  proof (cases r)
    case (Inl e)
    then show ?thesis using assms(1) Pair by (auto simp: copies_some_def rt_bind_def)
  next
    case (Inr a)
    obtain u q where k: "k a t = (u, q)" by fastforce
    obtain ds where ds: "set ds \<subseteq> set ops'" "content (gpu u) = run_copies n ds (content (gpu t))" "is_ok q \<longrightarrow> ds = ops'"
      "live (gpu u) = live (gpu t)"
      using assms(2) [of t a] Pair Inr k by (auto simp: copies_some_def)
    have "content (gpu t) = run_copies n ops (content (gpu s))" "live (gpu t) = live (gpu s)"
      using assms(1) Pair Inr by (auto simp: copies_some_def)
    then show ?thesis using Pair Inr k ds by (auto simp: copies_some_def rt_bind_def intro!: exI [of _ "ops @ ds"])
  qed
qed

lemma copies_some_for:
  assumes "\<And>x s. x \<in> set xs \<Longrightarrow> copies_some live content n (ops x) s (f x s)"
  shows "copies_some live content n (concat (map ops xs)) s (rt_for f xs s)"
  using assms
proof (induction xs arbitrary: s)
  case Nil
  then show ?case by (simp add: copies_some_def)
next
  case (Cons x xs)
  then show ?case by (simp add: copies_some_bind)
qed

lemma copies_some_keeps:
  assumes "rt_keeps live m" "rt_keeps content m"
  shows "copies_some live content n [] s (m s)"
  using assms by (auto simp: copies_some_def rt_keeps_def)

lemma stage_copy_effect:
  assumes A: "driver_allocates drv live content" and D: "driver_ordered drv (stream_raw st) content"
    and "ranges_disjoint dst n src n"
  shows "copies_some live content n [(dst, src)] s (stage_copy drv st scratch op layer x n dst src s)"
proof -
  obtain g rc where g: "cu_memcpy_async drv dst src n (stream_raw st) (gpu s) = (g, rc)" by fastforce
  have c: "content g = (if rc = 0 then copy_bytes dst src n (content (gpu s)) else content (gpu s))"
    using D assms(3) g by (auto simp: driver_ordered_def split: prod.splits)
  have l: "live g = live (gpu s)" using A g unfolding driver_allocates_def by (metis fst_conv)
  note sync = rt_keepsD [OF live_keeps(2) [OF A]] rt_keepsD [OF rt_keeps_ops(2) [OF D]]
  show ?thesis
  proof (cases "rc = 0")
    case True
    then show ?thesis using g c l by (auto simp: copies_some_def stage_copy_def drv_call_def intro!: exI [of _ "[(dst, src)]"])
  next
    case False
    obtain u q where q: "stream_synchronize drv st (s\<lparr>gpu := g\<rparr>) = (u, q)" by fastforce
    from sync [OF q] have "live (gpu u) = live (gpu s)" "content (gpu u) = content (gpu s)" using c l False by simp_all
    then show ?thesis using g False q
      by (cases q) (auto simp: copies_some_def stage_copy_def drv_call_def stage_error_def intro!: exI [of _ "[]"])
  qed
qed

definition row_ops :: "kv_row_copy \<Rightarrow> copy_op list" where
  "row_ops x = [(rw_destination_key x, rw_source_key x), (rw_destination_value x, rw_source_value x)]"

lemma stage_row_effect:
  assumes A: "driver_allocates drv live content" and D: "driver_ordered drv (stream_raw st) content"
    and "\<And>c. c \<in> set (row_ops x) \<Longrightarrow> ranges_disjoint (fst c) n (snd c) n"
  shows "copies_some live content n (row_ops x) s (stage_row drv st scratch layer n x s)"
proof -
  have "ranges_disjoint (rw_destination_key x) n (rw_source_key x) n"
    "ranges_disjoint (rw_destination_value x) n (rw_source_value x) n"
    using assms(3) [of "(rw_destination_key x, rw_source_key x)"] assms(3) [of "(rw_destination_value x, rw_source_value x)"]
    by (simp_all add: row_ops_def)
  then have "copies_some live content n ([(rw_destination_key x, rw_source_key x)] @ [(rw_destination_value x, rw_source_value x)]) s
      (stage_row drv st scratch layer n x s)"
    unfolding stage_row_def
    by (intro copies_some_bind stage_copy_effect [OF A D])
  then show ?thesis by (simp add: row_ops_def)
qed

lemma stage_finish_effect:
  assumes A: "driver_allocates drv live content" and D: "driver_ordered drv (stream_raw st) content"
  shows "copies_some live content n [] s (stage_finish drv st scratch s)"
proof -
  obtain u q where q: "stream_synchronize drv st s = (u, q)" by fastforce
  from rt_keepsD [OF live_keeps(2) [OF A] q] rt_keepsD [OF rt_keeps_ops(2) [OF D] q] q show ?thesis
    by (cases q) (auto simp: copies_some_def stage_finish_def)
qed

lemma collect_res_Ok:
  "collect_res f xs = Ok ys \<Longrightarrow> (\<And>x y. x \<in> set xs \<Longrightarrow> f x = Ok y \<Longrightarrow> g y = h x) \<Longrightarrow> map g ys = map h xs"
  by (induction xs arbitrary: ys) auto

lemma collect_res_nth:
  "collect_res f xs = Ok ys \<Longrightarrow> length ys = length xs \<and> (\<forall>i < length xs. f (xs ! i) = Ok (ys ! i))"
  by (induction xs arbitrary: ys) (auto simp: nth_Cons split: nat.splits)

lemma compaction_region_Ok:
  "compaction_region_address elem_size b off n = Ok a \<Longrightarrow> a = buf_ptr b + off * elem_size"
  by (auto simp: compaction_region_address_def split: if_splits)

text \<open>The address pair of one staged row; \<open>v\<close> tells the value side from the key side.\<close>

definition stage_op ::
  "nat \<Rightarrow> rt_kv_cache \<Rightarrow> nat \<Rightarrow> nat \<Rightarrow> device_buffer \<Rightarrow> device_buffer \<Rightarrow> (nat \<times> nat \<times> nat) \<times> bool \<Rightarrow> copy_op" where
  "stage_op elem_size c layer n sk sv = (\<lambda>((h, d, p), v).
     (buf_ptr (side_buffer sk sv v) + (h * n + d) * row_bytes elem_size (rc_config c),
      buf_ptr (side_buffer (rc_keys c) (rc_values c) v) + row_index (rc_config c) layer h p * row_bytes elem_size (rc_config c)))"

lemma plan_row_Ok:
  "plan_row elem_size c layer n sk sv x = Ok y \<Longrightarrow>
     row_ops y = map (stage_op elem_size c layer n sk sv) [(x, False), (x, True)]"
  by (cases x) (auto simp: plan_row_def row_ops_def stage_op_def side_buffer_def row_bytes_def row_index_def mult_ac
      compaction_source_element_def compaction_destination_element_def dest!: compaction_region_Ok)

lemma stage_plan_Ok:
  assumes "stage_plan elem_size c layer sel sk sv = Ok (n, copies)"
  shows "n = row_bytes elem_size (rc_config c)"
    and "concat (map row_ops copies) =
      map (stage_op elem_size c layer (length sel) sk sv) (List.product (row_steps (kc_heads (rc_config c)) sel) [False, True])"
proof -
  have *: "n = row_bytes elem_size (rc_config c) \<and>
      collect_res (plan_row elem_size c layer (length sel) sk sv) (row_steps (kc_heads (rc_config c)) sel) = Ok copies"
    using assms by (auto simp: stage_plan_def row_bytes_def)
  then show "n = row_bytes elem_size (rc_config c)" by blast
  have "map row_ops copies =
      map (\<lambda>x. map (stage_op elem_size c layer (length sel) sk sv) [(x, False), (x, True)]) (row_steps (kc_heads (rc_config c)) sel)"
    using * plan_row_Ok by (blast intro: collect_res_Ok)
  then show "concat (map row_ops copies) =
      map (stage_op elem_size c layer (length sel) sk sv) (List.product (row_steps (kc_heads (rc_config c)) sel) [False, True])"
    by (simp add: product_concat_map map_concat o_def)
qed

lemma in_row_steps: "(h, d, p) \<in> set (row_steps heads sel) \<longleftrightarrow> h < heads \<and> d < length sel \<and> p = sel ! d"
  by (auto simp: row_steps_def enumerate_map_nth image_iff)

lemma distinct_row_steps: "distinct (row_steps heads sel)"
proof -
  have "inj_on (\<lambda>(head, dst, src). (head, dst)) (set (row_steps heads sel))"
    by (auto simp: inj_on_def in_row_steps)
  moreover have "map (\<lambda>(head, dst, src). (head, dst)) (row_steps heads sel) = List.product [0..<heads] [0..<length sel]"
    by (simp add: row_steps_def map_concat product_concat_map enumerate_map_nth o_def split_beta)
  ultimately show ?thesis by (metis distinct_map distinct_product distinct_upt)
qed

definition stage_setting ::
  "nat \<Rightarrow> rt_kv_cache \<Rightarrow> nat \<Rightarrow> nat list \<Rightarrow> device_buffer \<Rightarrow> device_buffer \<Rightarrow> (nat \<times> nat) set \<Rightarrow> bool" where
  "stage_setting elem_size c layer sel sk sv L \<longleftrightarrow>
     rt_kv_wf elem_size c \<and> layer < kc_layers (rc_config c) \<and> (\<forall>p \<in> set sel. p < rc_lengths c ! layer) \<and>
     buf_len sk = kc_heads (rc_config c) * length sel * kc_head_dim (rc_config c) \<and> buf_len sv = buf_len sk \<and>
     live_ok L \<and> region elem_size (rc_keys c) \<in> L \<and> region elem_size (rc_values c) \<in> L \<and>
     region elem_size sk \<in> L \<and> region elem_size sv \<in> L \<and>
     distinct [region elem_size (rc_keys c), region elem_size (rc_values c), region elem_size sk, region elem_size sv]"

lemma stage_op_destination:
  assumes "stage_setting elem_size c layer sel sk sv L" "h < kc_heads (rc_config c)" "d < length sel"
  shows "fst (stage_op elem_size c layer (length sel) sk sv ((h, d, p), v)) + row_bytes elem_size (rc_config c)
    \<le> buf_ptr (side_buffer sk sv v) + buf_len (side_buffer sk sv v) * elem_size"
proof -
  have "h * length sel + length sel \<le> kc_heads (rc_config c) * length sel"
    using row_run_bound [of h 1 _ "length sel"] assms(2) by simp
  then have "(h * length sel + d) + 1 \<le> kc_heads (rc_config c) * length sel" using assms(3) by simp
  from row_run_bound [OF this, of "row_bytes elem_size (rc_config c)"] show ?thesis
    using assms(1) by (simp add: stage_op_def side_buffer_def stage_setting_def row_bytes_def mult_ac)
qed

lemma stage_op_source:
  assumes "stage_setting elem_size c layer sel sk sv L" "h < kc_heads (rc_config c)" "p \<in> set sel"
  shows "snd (stage_op elem_size c layer n sk sv ((h, d, p), v)) + row_bytes elem_size (rc_config c)
    \<le> buf_ptr (side_buffer (rc_keys c) (rc_values c) v) + buf_len (side_buffer (rc_keys c) (rc_values c) v) * elem_size"
proof -
  have "p < rc_lengths c ! layer" "rc_lengths c ! layer \<in> set (rc_lengths c)" "\<forall>n \<in> set (rc_lengths c). n \<le> kc_capacity (rc_config c)"
    using assms by (simp_all add: stage_setting_def rt_kv_wf_def)
  then have "p < kc_capacity (rc_config c)" using less_le_trans by blast
  then have "row_index (rc_config c) layer h p * row_bytes elem_size (rc_config c) + 1 * row_bytes elem_size (rc_config c)
      \<le> elements_of (rc_config c) * elem_size"
    using assms by (intro config_ok_bounds(1)) (simp_all add: stage_setting_def rt_kv_wf_def)
  then show ?thesis
    using assms by (simp add: stage_op_def side_buffer_def stage_setting_def rt_kv_wf_def)
qed

lemma live_buffers_apart:
  assumes "live_ok L" "region elem_size a \<in> L" "region elem_size b \<in> L" "region elem_size a \<noteq> region elem_size b"
  shows "buffers_apart elem_size a b"
proof -
  have "disjoint_from (region elem_size a) (region elem_size b)"
    using assms unfolding live_ok_def by blast
  then show ?thesis by (simp add: disjoint_from_def region_def buffers_apart_def)
qed

lemma stage_sides_apart:
  assumes "stage_setting elem_size c layer sel sk sv L"
  shows "buffers_apart elem_size (side_buffer sk sv v) (side_buffer (rc_keys c) (rc_values c) w)"
    and "v \<noteq> w \<Longrightarrow> buffers_apart elem_size (side_buffer sk sv v) (side_buffer sk sv w)"
  using assms by (auto simp: stage_setting_def side_buffer_def intro!: live_buffers_apart)

lemma stage_ops_independent:
  assumes S: "stage_setting elem_size c layer sel sk sv L"
  shows "copies_independent (row_bytes elem_size (rc_config c))
    (map (stage_op elem_size c layer (length sel) sk sv) (List.product (row_steps (kc_heads (rc_config c)) sel) [False, True]))"
    (is "copies_independent ?n (map ?op ?ps)")
proof -
  have step: "\<exists>h d v. x = ((h, d, sel ! d), v) \<and> h < kc_heads (rc_config c) \<and> d < length sel" if "x \<in> set ?ps" for x
    using that in_row_steps by auto
  have cross: "ranges_disjoint (fst (?op x)) ?n (snd (?op y)) ?n" if ps: "x \<in> set ?ps" "y \<in> set ?ps" for x y
  proof -
    obtain h d v h' d' w where xy: "x = ((h, d, sel ! d), v)" "y = ((h', d', sel ! d'), w)" "h < kc_heads (rc_config c)"
      "d < length sel" "h' < kc_heads (rc_config c)" "d' < length sel"
      using step [OF ps(1)] step [OF ps(2)] by blast
    have "sel ! d' \<in> set sel" using xy by simp
    show ?thesis
      using stage_sides_apart(1) [OF S, of v w] unfolding buffers_apart_def xy
      by (rule ranges_disjoint_sub [OF _ _ stage_op_destination [OF S xy(3,4)] _ stage_op_source [OF S xy(5) \<open>sel ! d' \<in> set sel\<close>]])
        (simp_all add: stage_op_def)
  qed
  have dests: "ranges_disjoint (fst (?op x)) ?n (fst (?op y)) ?n" if ps: "x \<in> set ?ps" "y \<in> set ?ps" "x \<noteq> y" for x y
  proof -
    obtain h d v h' d' w where xy: "x = ((h, d, sel ! d), v)" "y = ((h', d', sel ! d'), w)" "h < kc_heads (rc_config c)"
      "d < length sel" "h' < kc_heads (rc_config c)" "d' < length sel"
      using step [OF ps(1)] step [OF ps(2)] by blast
    show ?thesis
    proof (cases "v = w")
      case True
      then have "(h, d) \<noteq> (h', d')" using ps(3) xy by auto
      then have "h * length sel + d \<noteq> h' * length sel + d'" using mixed_radix [OF xy(4,6)] by simp
      then consider "h * length sel + d + 1 \<le> h' * length sel + d'" | "h' * length sel + d' + 1 \<le> h * length sel + d" by linarith
      then show ?thesis
        using True row_run_bound [of _ 1 _ ?n]
        by cases (auto simp: ranges_disjoint_def stage_op_def xy)
    next
      case False
      show ?thesis
        using stage_sides_apart(2) [OF S False] unfolding buffers_apart_def xy
        by (rule ranges_disjoint_sub [OF _ _ stage_op_destination [OF S xy(3,4)] _ stage_op_destination [OF S xy(5,6)]])
          (simp_all add: stage_op_def)
    qed
  qed
  have "sorted_wrt (\<lambda>x y. ranges_disjoint (fst (?op x)) ?n (fst (?op y)) ?n) ?ps"
    by (rule sorted_wrt_distinct) (simp_all add: distinct_product distinct_row_steps dests)
  then show ?thesis
    using cross by (auto simp: copies_independent_def sorted_wrt_map)
qed

lemma copies_some_lift: "copies_some live content n [] s (rt_lift r s)"
  by (simp add: copies_some_def)

lemma stage_copies:
  assumes A: "driver_allocates drv live content" and D: "driver_ordered drv (stream_raw (rc_stream c)) content"
    and S: "stage_setting elem_size c layer sel sk sv L"
  shows "copies_some live content (row_bytes elem_size (rc_config c))
    (map (stage_op elem_size c layer (length sel) sk sv) (List.product (row_steps (kc_heads (rc_config c)) sel) [False, True]))
    s (stage_selected_rows drv elem_size c layer sel sk sv s)"
proof (cases "stage_plan elem_size c layer sel sk sv")
  case (Inl e)
  then show ?thesis
    by (auto simp: copies_some_def stage_selected_rows_def rt_bind_def intro!: exI [of _ "[]"])
next
  case (Inr q)
  obtain n copies where q: "q = (n, copies)" by (cases q)
  note P = stage_plan_Ok [OF Inr [unfolded q]]
  let ?loop = "rt_for (stage_row drv (rc_stream c) [sk, sv] layer n) copies"
  have "copies_some live content n (concat (map row_ops copies)) u (?loop u)" for u
  proof (rule copies_some_for, rule stage_row_effect [OF A D])
    fix x c'
    assume "x \<in> set copies" "c' \<in> set (row_ops x)"
    then have "c' \<in> set (concat (map row_ops copies))" by auto
    then show "ranges_disjoint (fst c') n (snd c') n"
      using stage_ops_independent [OF S] unfolding P copies_independent_def by blast
  qed
  then have "copies_some live content n ([] @ [] @ concat (map row_ops copies) @ []) s
      (rt_bind (set_current drv (stream_ctx (rc_stream c))) (\<lambda>_. rt_bind (rt_lift (driver_api drv)) (\<lambda>_.
         rt_bind ?loop (\<lambda>_. stage_finish drv (rc_stream c) [sk, sv]))) s)"
    using live_keeps(1) [OF A] rt_keeps_ops(1) [OF D]
    by (intro copies_some_bind copies_some_keeps copies_some_lift stage_finish_effect [OF A D])
  then show ?thesis
    using Inr q P by (simp add: stage_selected_rows_def rt_bind_def)
qed

lemma stage_effect:
  assumes A: "driver_allocates drv live content" and D: "driver_ordered drv (stream_raw (rc_stream c)) content"
    and S: "stage_setting elem_size c layer sel sk sv (live (gpu s))"
    and run: "stage_selected_rows drv elem_size c layer sel sk sv s = (t, r)"
  shows "live (gpu t) = live (gpu s)"
    and "preserves live content (live (gpu s) - {region elem_size sk, region elem_size sv}) s t"
    and "is_ok r \<Longrightarrow> h < kc_heads (rc_config c) \<Longrightarrow>
      source_rows (content (gpu t)) elem_size (rc_config c) (side_buffer sk sv v) (length sel) h =
        map (\<lambda>p. row_at (content (gpu s)) (row_bytes elem_size (rc_config c)) (side_buffer (rc_keys c) (rc_values c) v)
          (row_index (rc_config c) layer h p)) sel"
proof -
  let ?n = "row_bytes elem_size (rc_config c)"
  let ?ps = "List.product (row_steps (kc_heads (rc_config c)) sel) [False, True]"
  let ?ops = "map (stage_op elem_size c layer (length sel) sk sv) ?ps"
  obtain cs where cs: "set cs \<subseteq> set ?ops" "content (gpu t) = run_copies ?n cs (content (gpu s))" "is_ok r \<longrightarrow> cs = ?ops"
    and live: "live (gpu t) = live (gpu s)"
    using stage_copies [OF A D S, of s] run by (auto simp: copies_some_def)
  show "live (gpu t) = live (gpu s)" by (rule live)
  have outside: "content (gpu t) a = content (gpu s) a"
    if "x \<in> live (gpu s)" "x \<noteq> region elem_size sk" "x \<noteq> region elem_size sv" "inside x a" for x a
    unfolding cs(2)
  proof (rule run_copies_outside)
    fix op
    assume "op \<in> set cs"
    then have "op \<in> set ?ops" using cs(1) by blast
    then obtain h d p v where y: "op = stage_op elem_size c layer (length sel) sk sv ((h, d, p), v)" "((h, d, p), v) \<in> set ?ps"
      by (auto simp del: set_product)
    then have "h < kc_heads (rc_config c) \<and> d < length sel \<and> p = sel ! d" by (simp add: in_row_steps)
    with y(1) have op: "op = stage_op elem_size c layer (length sel) sk sv ((h, d, sel ! d), v)"
      "h < kc_heads (rc_config c)" "d < length sel" by simp_all
    have "\<not> inside (region elem_size (side_buffer sk sv v)) a"
      using S that by (intro live_ok_apart [OF _ that(1) _ _ that(4)]) (auto simp: stage_setting_def side_buffer_def)
    moreover have "buf_ptr (side_buffer sk sv v) \<le> fst op" by (simp add: op stage_op_def)
    ultimately show "\<not> (fst op \<le> a \<and> a < fst op + ?n)"
      using stage_op_destination [OF S op(2,3), of "sel ! d" v] by (auto simp: op(1) inside_def region_def)
  qed
  have ok: "live_ok (live (gpu s))" using S by (simp add: stage_setting_def)
  show "preserves live content (live (gpu s) - {region elem_size sk, region elem_size sv}) s t"
    using outside ok unfolding preserves_def live by blast
  assume r: "is_ok r" and h: "h < kc_heads (rc_config c)"
  have row: "row_at (content (gpu t)) ?n (side_buffer sk sv v) (h * length sel + d) =
      row_at (content (gpu s)) ?n (side_buffer (rc_keys c) (rc_values c) v) (row_index (rc_config c) layer h (sel ! d))"
    if "d < length sel" for d
  proof -
    have "((h, d, sel ! d), v) \<in> set ?ps" using h that by (simp add: in_row_steps)
    then have "stage_op elem_size c layer (length sel) sk sv ((h, d, sel ! d), v) \<in> set ?ops" by (simp only: set_map imageI)
    from run_copies_at [OF stage_ops_independent [OF S] this, of _ "content (gpu s)"]
    show ?thesis using cs(2,3) r by (simp add: row_at_def stage_op_def)
  qed
  show "source_rows (content (gpu t)) elem_size (rc_config c) (side_buffer sk sv v) (length sel) h =
      map (\<lambda>p. row_at (content (gpu s)) ?n (side_buffer (rc_keys c) (rc_values c) v) (row_index (rc_config c) layer h p)) sel"
    by (rule nth_equalityI) (simp_all add: source_rows_def row)
qed

section \<open>What the append to the replacement does\<close>

lemma drain_keeps:
  assumes "\<And>x. rt_keeps f (stream_synchronize drv x)"
  shows "f (gpu (drain_or_leak drv st bs s)) = f (gpu s)"
  using assms [of st] by (auto simp: drain_or_leak_def rt_keeps_def split: prod.splits sum.splits) (metis fst_conv)+

lemma append_submit_live:
  assumes A: "driver_allocates drv live content"
  shows "rt_keeps live (append_submit drv st bs layer tokens copies n)"
proof -
  note K = live_keeps [OF A]
  have copy: "rt_keeps live (submit_copy drv st bs op layer head tokens n d src)" for op head d src
  proof -
    have "rt_keeps live (drv_call op (cu_memcpy_async drv d src n (stream_raw st)))"
      using A by (intro rt_keeps_call) (simp add: driver_allocates_def)
    moreover have "rt_keeps live (append_error drv st bs e)" for e
      using K(2) [of st] by (auto simp: append_error_def rt_keeps_def split: prod.splits sum.splits) (metis fst_conv)+
    ultimately show ?thesis
      by (auto simp: submit_copy_def rt_keeps_def split: prod.splits sum.splits) (metis fst_conv)+
  qed
  have heads: "rt_keeps live (rt_for (submit_head drv st bs layer tokens n) xs)" for xs
  proof (induction xs)
    case Nil
    then show ?case by (simp add: rt_keeps_def)
  next
    case (Cons x xs)
    then show ?case by (auto intro!: rt_keeps_bind copy simp: submit_head_def split_beta)
  qed
  have enq: "rt_keeps live (from_enqueued drv st bs)"
    unfolding rt_keeps_def
  proof
    fix s
    obtain t r where new: "event_new drv (stream_ctx st) s = (t, r)" by fastforce
    note t = rt_keepsD [OF K(3) new]
    show "live (gpu (fst (from_enqueued drv st bs s))) = live (gpu s)"
    proof (cases r)
      case (Inl e)
      then show ?thesis using new t by (simp add: from_enqueued_def drain_keeps [OF K(2)])
    next
      case (Inr ev)
      obtain u q where rec: "event_record drv ev st t = (u, q)" by fastforce
      from rt_keepsD [OF K(4) rec] show ?thesis using new t Inr rec
        by (cases q) (simp_all add: from_enqueued_def drain_keeps [OF K(2)])
    qed
  qed
  show ?thesis
    unfolding append_submit_def by (auto intro!: rt_keeps_bind K(1) heads enq)
qed

lemma pending_wait_keeps:
  assumes "\<And>ev. rt_keeps f (event_synchronize drv ev)"
  shows "rt_keeps f (pending_wait drv w)"
  unfolding rt_keeps_def
proof
  fix s
  have drop: "f (gpu (pending_drop drv w t)) = f (gpu t)" for t
    using assms by (auto simp: pending_drop_def rt_keeps_def split: prod.splits sum.splits) (metis fst_conv)+
  show "f (gpu (fst (pending_wait drv w s))) = f (gpu s)"
    using assms by (auto simp: pending_wait_def rt_keeps_def drop split: prod.splits sum.splits) (metis fst_conv)+
qed

lemma append_layer_async_live:
  assumes A: "driver_allocates drv live content" and run: "append_layer_async drv elem_size rep layer sk sv n s = (t, rep', r)"
  shows "live (gpu t) = live (gpu s)"
  using run rt_keepsD [OF append_submit_live [OF A]]
  by (auto simp: append_layer_async_def split: prod.splits sum.splits)

definition replacement_setting ::
  "nat \<Rightarrow> rt_kv_cache \<Rightarrow> device_buffer \<Rightarrow> device_buffer \<Rightarrow> (nat \<times> nat) set \<Rightarrow> bool" where
  "replacement_setting elem_size rep sk sv L \<longleftrightarrow>
     rt_kv_wf elem_size rep \<and> live_ok L \<and> region elem_size (rc_keys rep) \<in> L \<and> region elem_size (rc_values rep) \<in> L \<and>
     region elem_size sk \<in> L \<and> region elem_size sv \<in> L \<and>
     distinct [region elem_size (rc_keys rep), region elem_size (rc_values rep), region elem_size sk, region elem_size sv]"

lemma append_effect:
  assumes A: "driver_allocates drv live content" and D: "driver_ordered drv (stream_raw (rc_stream rep)) content"
    and S: "replacement_setting elem_size rep sk sv (live (gpu s))" and n: "0 < n"
    and run: "append_layer drv elem_size rep layer sk sv n s = (t, rep', r)"
  shows "live (gpu t) = live (gpu s)"
    and "preserves live content (live (gpu s) - {region elem_size (rc_keys rep), region elem_size (rc_values rep)}) s t"
    and "rt_kv_wf elem_size rep'" and "rep'\<lparr>rc_lengths := []\<rparr> = rep\<lparr>rc_lengths := []\<rparr>"
    and "is_ok r \<Longrightarrow> l < kc_layers (rc_config rep) \<Longrightarrow> h < kc_heads (rc_config rep) \<Longrightarrow>
      cache_rows (content (gpu t)) elem_size rep' (side_buffer (rc_keys rep) (rc_values rep) v) l h =
        cache_rows (content (gpu s)) elem_size rep (side_buffer (rc_keys rep) (rc_values rep) v) l h @
        (if l = layer then source_rows (content (gpu s)) elem_size (rc_config rep) (side_buffer sk sv v) n h else [])"
proof -
  obtain u c q where async: "append_layer_async drv elem_size rep layer sk sv n s = (u, c, q)" by (metis surj_pair)
  have wf: "rt_kv_wf elem_size rep" using S by (simp add: replacement_setting_def)
  have apart: "sources_apart elem_size rep sk sv"
    using S by (auto simp: replacement_setting_def sources_apart_def intro!: live_buffers_apart)
  note waitl = rt_keepsD [OF pending_wait_keeps [OF live_keeps(5) [OF A]]]
  note waitc = rt_keepsD [OF pending_wait_keeps [OF rt_keeps_ops(6) [OF D]]]
  have wait: "rep' = c \<and> live (gpu t) = live (gpu u) \<and> content (gpu t) = content (gpu u) \<and> (is_ok r \<longrightarrow> is_ok q)"
  proof (cases q)
    case (Inl e)
    then show ?thesis using run async by (auto simp: append_layer_def)
  next
    case (Inr a)
    obtain w x where w: "pending_wait drv (ka_work a) u = (w, x)" by fastforce
    then show ?thesis using run async Inr waitl [OF w] waitc [OF w] by (cases x) (simp_all add: append_layer_def)
  qed
  show live: "live (gpu t) = live (gpu s)" using wait append_layer_async_live [OF A async] by simp
  show "rt_kv_wf elem_size rep'" using append_wf [OF D wf apart async] wait by simp
  have ok: "live_ok (live (gpu s))" using S by (simp add: replacement_setting_def)
  show "rep'\<lparr>rc_lengths := []\<rparr> = rep\<lparr>rc_lengths := []\<rparr>"
    using async wait by (auto simp: append_layer_async_def split: prod.splits sum.splits)
  have "content (gpu u) a = content (gpu s) a"
    if x: "x \<in> live (gpu s)" "x \<noteq> region elem_size (rc_keys rep)" "x \<noteq> region elem_size (rc_values rep)" "inside x a" for x a
  proof (cases "append_plan elem_size rep layer sk sv n")
    case (Inl e)
    then show ?thesis using async by (auto simp: append_layer_async_def)
  next
    case (Inr p)
    obtain start end_pos copies bytes where p: "p = (start, end_pos, copies, bytes)" by (cases p)
    note C = append_async_content [OF D wf apart Inr [unfolded p] async]
    obtain cs where cs: "set cs \<subseteq> set (map (append_op elem_size rep layer sk sv n) (List.product [0..<kc_heads (rc_config rep)] [False, True]))"
      "content (gpu u) = run_copies (n * row_bytes elem_size (rc_config rep)) cs (content (gpu s))"
      using C(3) by blast
    show ?thesis
      unfolding cs(2)
    proof (rule run_copies_outside)
      fix op
      assume "op \<in> set cs"
      then have "op \<in> set (map (append_op elem_size rep layer sk sv n) (List.product [0..<kc_heads (rc_config rep)] [False, True]))"
        using cs(1) by blast
      then obtain h v where op: "op = append_op elem_size rep layer sk sv n (h, v)" "h < kc_heads (rc_config rep)" by auto
      have "\<not> inside (region elem_size (side_buffer (rc_keys rep) (rc_values rep) v)) a"
        using S x by (intro live_ok_apart [OF ok x(1) _ _ x(4)]) (auto simp: replacement_setting_def side_buffer_def)
      moreover have "buf_ptr (side_buffer (rc_keys rep) (rc_values rep) v) \<le> fst op" by (simp add: op append_op_def)
      ultimately show "\<not> (fst op \<le> a \<and> a < fst op + n * row_bytes elem_size (rc_config rep))"
        using op_destination [OF C(1) n op(2), of v] by (auto simp: op(1) inside_def region_def)
    qed
  qed
  then show "preserves live content (live (gpu s) - {region elem_size (rc_keys rep), region elem_size (rc_values rep)}) s t"
    using live wait ok unfolding preserves_def by auto
  assume "is_ok r" "l < kc_layers (rc_config rep)" "h < kc_heads (rc_config rep)"
  then show "cache_rows (content (gpu t)) elem_size rep' (side_buffer (rc_keys rep) (rc_values rep) v) l h =
      cache_rows (content (gpu s)) elem_size rep (side_buffer (rc_keys rep) (rc_values rep) v) l h @
      (if l = layer then source_rows (content (gpu s)) elem_size (rc_config rep) (side_buffer sk sv v) n h else [])"
    using rows_appended [OF D wf apart async] wait by simp
qed

section \<open>Rebuilding a layer\<close>

lemma preserves_mono: "preserves live content K' s t \<Longrightarrow> K \<subseteq> K' \<Longrightarrow> preserves live content K s t"
  unfolding preserves_def by blast

lemma row_at_cong:
  assumes "\<And>a. inside (region elem_size b) a \<Longrightarrow> f a = g a" and "buf_len b = elements_of c" "config_ok elem_size c"
    and "l < kc_layers c" "h < kc_heads c" "p < kc_capacity c"
  shows "row_at f (row_bytes elem_size c) b (row_index c l h p) = row_at g (row_bytes elem_size c) b (row_index c l h p)"
proof -
  have "row_index c l h p * row_bytes elem_size c + 1 * row_bytes elem_size c \<le> elements_of c * elem_size"
    using assms by (intro config_ok_bounds(1)) simp_all
  then show ?thesis using assms(1,2) by (auto simp: row_at_def inside_def region_def)
qed

lemma side_len:
  "rt_kv_wf elem_size c \<Longrightarrow> buf_len (side_buffer (rc_keys c) (rc_values c) v) = elements_of (rc_config c)"
  by (simp add: side_buffer_def rt_kv_wf_def)

lemma cache_rows_cong:
  assumes "rt_kv_wf elem_size c" "l < kc_layers (rc_config c)" "h < kc_heads (rc_config c)"
    and "\<And>a. inside (region elem_size (side_buffer (rc_keys c) (rc_values c) v)) a \<Longrightarrow> f a = g a"
  shows "cache_rows f elem_size c (side_buffer (rc_keys c) (rc_values c) v) l h =
    cache_rows g elem_size c (side_buffer (rc_keys c) (rc_values c) v) l h"
proof -
  have "rc_lengths c ! l \<le> kc_capacity (rc_config c)" using assms by (simp add: rt_kv_wf_def)
  then have "p < kc_capacity (rc_config c)" if "p \<in> set [0..<rc_lengths c ! l]" for p using that by simp
  moreover have "config_ok elem_size (rc_config c)" using assms(1) by (simp add: rt_kv_wf_def)
  ultimately show ?thesis
    using assms unfolding cache_rows_def by (intro map_cong [OF refl] row_at_cong side_len) simp_all
qed

definition selected_rows :: "(nat \<Rightarrow> u8) \<Rightarrow> nat \<Rightarrow> rt_kv_cache \<Rightarrow> nat list \<Rightarrow> nat \<Rightarrow> nat \<Rightarrow> bool \<Rightarrow> u8 list list" where
  "selected_rows f elem_size c sel l h v =
     map (\<lambda>p. row_at f (row_bytes elem_size (rc_config c)) (side_buffer (rc_keys c) (rc_values c) v)
       (row_index (rc_config c) l h p)) sel"

definition cache_live :: "nat \<Rightarrow> rt_kv_cache \<Rightarrow> (nat \<times> nat) set \<Rightarrow> bool" where
  "cache_live elem_size c L \<longleftrightarrow>
     rt_kv_wf elem_size c \<and> live_ok L \<and> region elem_size (rc_keys c) \<in> L \<and> region elem_size (rc_values c) \<in> L \<and>
     region elem_size (rc_keys c) \<noteq> region elem_size (rc_values c)"

text \<open>The replacement in the making: its own new allocations, everything else as it was at the start.\<close>

definition rebuilding ::
  "('s \<Rightarrow> (nat \<times> nat) set) \<Rightarrow> ('s \<Rightarrow> nat \<Rightarrow> u8) \<Rightarrow> nat \<Rightarrow> rt_kv_cache \<Rightarrow> 's rt \<Rightarrow> 's rt \<Rightarrow> rt_kv_cache \<Rightarrow> bool" where
  "rebuilding live content elem_size c s0 s rep \<longleftrightarrow>
     preserves live content (live (gpu s0)) s0 s \<and> cache_live elem_size rep (live (gpu s)) \<and>
     region elem_size (rc_keys rep) \<notin> live (gpu s0) \<and> region elem_size (rc_values rep) \<notin> live (gpu s0) \<and>
     rc_config rep = rc_config c \<and> rc_stream rep = rc_stream c"

definition rebuilt_to ::
  "('s \<Rightarrow> nat \<Rightarrow> u8) \<Rightarrow> nat \<Rightarrow> rt_kv_cache \<Rightarrow> nat list list \<Rightarrow> 's rt \<Rightarrow> nat \<Rightarrow> 's rt \<Rightarrow> rt_kv_cache \<Rightarrow> bool" where
  "rebuilt_to content elem_size c sels s0 k s rep \<longleftrightarrow>
     (\<forall>l < kc_layers (rc_config c). \<forall>h < kc_heads (rc_config c). \<forall>v.
        cache_rows (content (gpu s)) elem_size rep (side_buffer (rc_keys rep) (rc_values rep) v) l h =
          (if l < k then selected_rows (content (gpu s0)) elem_size c (sels ! l) l h v else []))"

lemma live_ok_ptr_neq:
  "live_ok L \<Longrightarrow> x \<in> L \<Longrightarrow> region elem_size b \<in> L \<Longrightarrow> x \<noteq> region elem_size b \<Longrightarrow> fst x \<noteq> buf_ptr b"
  using live_ok_ptr [of L x "region elem_size b"] by (auto simp: region_def)

lemma release_keeps:
  assumes A: "driver_allocates drv live content" and D: "driver_ordered drv st content"
    and "live_ok (live (gpu u))" "K \<subseteq> live (gpu u)" "region elem_size b \<in> live (gpu u)" "region elem_size b \<notin> K"
  shows "preserves live content K u (release drv b u)"
proof (rule preserves_mono [OF release_effect [OF A D assms(3)]])
  show "K \<subseteq> {x \<in> live (gpu u). fst x \<noteq> buf_ptr b}"
    using assms(4,6) live_ok_ptr_neq [OF assms(3) _ assms(5)] by blast
qed

lemma release_keeps2:
  assumes A: "driver_allocates drv live content" and D: "driver_ordered drv st content"
    and L: "live_ok (live (gpu u))" "K \<subseteq> live (gpu u)"
    and a: "region elem_size a \<in> live (gpu u)" "region elem_size a \<notin> K"
    and b: "region elem_size b \<in> live (gpu u)" "region elem_size b \<notin> K"
  shows "preserves live content K u (release drv a (release drv b u))"
proof -
  have one: "preserves live content K u (release drv b u)" by (rule release_keeps [OF A D L b])
  have "preserves live content {x \<in> live (gpu (release drv b u)). fst x \<noteq> buf_ptr a} (release drv b u) (release drv a (release drv b u))"
    using one by (intro release_effect [OF A D]) (simp add: preserves_def)
  moreover have "K \<subseteq> {x \<in> live (gpu (release drv b u)). fst x \<noteq> buf_ptr a}"
    using one L(2) a(2) live_ok_ptr_neq [OF L(1) _ a(1)] unfolding preserves_def by blast
  ultimately show ?thesis using one preserves_trans by blast
qed

lemma rows_kept:
  assumes "preserves live content K s t" "cache_live elem_size rep (live (gpu s))" "live (gpu s) \<subseteq> K"
    and "l < kc_layers (rc_config rep)" "h < kc_heads (rc_config rep)"
  shows "cache_rows (content (gpu t)) elem_size rep (side_buffer (rc_keys rep) (rc_values rep) v) l h =
    cache_rows (content (gpu s)) elem_size rep (side_buffer (rc_keys rep) (rc_values rep) v) l h"
proof (rule cache_rows_cong)
  have "region elem_size (side_buffer (rc_keys rep) (rc_values rep) v) \<in> K"
    using assms(2,3) by (auto simp: cache_live_def side_buffer_def)
  then show "\<And>a. inside (region elem_size (side_buffer (rc_keys rep) (rc_values rep) v)) a \<Longrightarrow>
      content (gpu t) a = content (gpu s) a"
    using assms(1) by (simp add: preserves_def)
qed (use assms in \<open>simp_all add: cache_live_def\<close>)

lemma rebuilding_later:
  assumes "rebuilding live content elem_size c s0 s rep" "preserves live content (live (gpu s)) s t"
  shows "rebuilding live content elem_size c s0 t rep"
proof -
  have "live (gpu s0) \<subseteq> live (gpu s)" using assms(1) by (simp add: rebuilding_def preserves_def)
  then have "preserves live content (live (gpu s0)) s0 t"
    using preserves_trans assms unfolding rebuilding_def by blast
  moreover have "cache_live elem_size rep (live (gpu t))"
    using assms by (auto simp: rebuilding_def cache_live_def preserves_def)
  ultimately show ?thesis using assms(1) by (simp add: rebuilding_def)
qed

lemma rebuilt_later:
  assumes "rebuilding live content elem_size c s0 s rep" "preserves live content (live (gpu s)) s t"
    and "rebuilt_to content elem_size c sels s0 k s rep"
  shows "rebuilt_to content elem_size c sels s0 k t rep"
  using assms rows_kept [OF assms(2), of elem_size rep] by (simp add: rebuilt_to_def rebuilding_def)

lemma rebuilt_empty:
  assumes "rebuilt_to content elem_size c sels s0 k s rep" "sels ! k = []"
  shows "rebuilt_to content elem_size c sels s0 (Suc k) s rep"
  using assms by (simp add: rebuilt_to_def less_Suc_eq selected_rows_def)

text \<open>The scratch of a layer is new memory; staging and appending with it, and giving it up.\<close>

lemma fill_layer:
  assumes A: "driver_allocates drv live content" and D: "driver_ordered drv (stream_raw (rc_stream c)) content"
    and C: "cache_live elem_size c (live (gpu s0))" and R: "rebuilding live content elem_size c s0 s rep"
    and k: "k < kc_layers (rc_config c)" and sel: "sel \<noteq> []" "sel = sels ! k" "\<forall>p \<in> set sel. p < rc_lengths c ! k"
    and scratch: "preserves live content (live (gpu s)) s u" "region elem_size sk \<in> live (gpu u) - live (gpu s)"
      "region elem_size sv \<in> live (gpu u) - live (gpu s)" "region elem_size sk \<noteq> region elem_size sv"
      "buf_len sk = kc_heads (rc_config c) * length sel * kc_head_dim (rc_config c)" "buf_len sv = buf_len sk"
    and stage: "stage_selected_rows drv elem_size c k sel sk sv u = (w, Ok x)"
    and append: "append_layer drv elem_size rep k sk sv (length sel) w = (t, rep', r)"
  shows "rebuilding live content elem_size c s0 (release drv sk (release drv sv t)) rep' \<and>
    (is_ok r \<and> rebuilt_to content elem_size c sels s0 k s rep \<longrightarrow>
       rebuilt_to content elem_size c sels s0 (Suc k) (release drv sk (release drv sv t)) rep')"
proof -
  let ?z = "release drv sk (release drv sv t)" and ?cfg = "rc_config c"
  have sub: "live (gpu s0) \<subseteq> live (gpu s)" "live (gpu s) \<subseteq> live (gpu u)"
    using R scratch(1) by (simp_all add: rebuilding_def preserves_def)
  have rep: "rc_config rep = ?cfg" "rc_stream rep = rc_stream c" "cache_live elem_size rep (live (gpu s))"
    "region elem_size (rc_keys rep) \<notin> live (gpu s0)" "region elem_size (rc_values rep) \<notin> live (gpu s0)"
    using R by (simp_all add: rebuilding_def)
  have uok: "live_ok (live (gpu u))" using scratch(1) by (simp add: preserves_def)
  have S: "stage_setting elem_size c k sel sk sv (live (gpu u))"
    using C k sel sub scratch uok by (auto simp: stage_setting_def cache_live_def)
  note E = stage_effect [OF A D S stage]
  have sw: "preserves live content (live (gpu s)) s w"
    using preserves_trans [OF scratch(1) E(2)] scratch(2,3) sub(2) by blast
  have S': "replacement_setting elem_size rep sk sv (live (gpu w))"
    using rep(3) scratch E(1) uok sub by (auto simp: replacement_setting_def cache_live_def)
  have D': "driver_ordered drv (stream_raw (rc_stream rep)) content" using D rep(2) by simp
  have pos: "0 < length sel" using sel(1) by simp
  note F = append_effect [OF A D' S' pos append]
  have same: "rc_config rep' = ?cfg" "rc_stream rep' = rc_stream c" "rc_keys rep' = rc_keys rep" "rc_values rep' = rc_values rep"
    using F(4) rep by (cases rep; cases rep'; simp)+
  have tok: "live_ok (live (gpu t))" "live (gpu t) = live (gpu u)" using F(1) E(1) uok by simp_all
  have tz: "preserves live content (live (gpu s)) t ?z"
    using scratch tok sub by (intro release_keeps2 [OF A D]) auto
  have zero: "preserves live content (live (gpu s0)) s0 ?z"
  proof -
    have "preserves live content (live (gpu s0)) s0 s" using R by (simp add: rebuilding_def)
    then have "preserves live content (live (gpu s0)) s0 w" by (rule preserves_trans [OF _ sw sub(1)])
    then have "preserves live content (live (gpu s0)) s0 t"
      by (rule preserves_trans [OF _ F(2)]) (use sub rep(4,5) E(1) in auto)
    then show ?thesis by (rule preserves_trans [OF _ tz sub(1)])
  qed
  have live: "cache_live elem_size rep' (live (gpu ?z))"
    using rep(3) tz F(3) same by (auto simp: cache_live_def preserves_def)
  have R': "rebuilding live content elem_size c s0 ?z rep'"
    using zero live rep same by (simp add: rebuilding_def)
  moreover have "rebuilt_to content elem_size c sels s0 (Suc k) ?z rep'"
    if "is_ok r" and B: "rebuilt_to content elem_size c sels s0 k s rep"
    unfolding rebuilt_to_def
  proof (intro allI impI)
    fix l h v
    assume l: "l < kc_layers ?cfg" and h: "h < kc_heads ?cfg"
    let ?f = "\<lambda>q. content (gpu q)" and ?b = "side_buffer (rc_keys rep) (rc_values rep) v"
    have cl: "cache_live elem_size rep' (live (gpu s))" using rep(3) F(3) same by (simp add: cache_live_def)
    have "cache_rows (?f ?z) elem_size rep' ?b l h = cache_rows (?f t) elem_size rep' ?b l h"
    proof (unfold same(3,4) [symmetric], rule cache_rows_cong)
      have "region elem_size (side_buffer (rc_keys rep') (rc_values rep') v) \<in> live (gpu s)"
        using cl by (simp add: cache_live_def side_buffer_def)
      then show "\<And>a. inside (region elem_size (side_buffer (rc_keys rep') (rc_values rep') v)) a \<Longrightarrow> ?f ?z a = ?f t a"
        using tz by (simp add: preserves_def)
    qed (use F(3) l h same in simp_all)
    also have "\<dots> = cache_rows (?f w) elem_size rep ?b l h @
        (if l = k then source_rows (?f w) elem_size ?cfg (side_buffer sk sv v) (length sel) h else [])"
      using F(5) that l h rep(1) by simp
    also have "cache_rows (?f w) elem_size rep ?b l h = cache_rows (?f s) elem_size rep ?b l h"
      using rows_kept [OF sw rep(3)] l h rep(1) by simp
    also have "\<dots> = (if l < k then selected_rows (?f s0) elem_size c (sels ! l) l h v else [])"
      using B l h by (simp add: rebuilt_to_def)
    also have "source_rows (?f w) elem_size ?cfg (side_buffer sk sv v) (length sel) h = selected_rows (?f s0) elem_size c sel k h v"
    proof -
      have wf: "rt_kv_wf elem_size c" using C by (simp add: cache_live_def)
      have "region elem_size (side_buffer (rc_keys c) (rc_values c) v) \<in> live (gpu s0)"
        using C by (simp add: cache_live_def side_buffer_def)
      moreover have "preserves live content (live (gpu s0)) s0 u"
        using R preserves_trans [OF _ scratch(1) sub(1)] by (simp add: rebuilding_def)
      ultimately have keep: "inside (region elem_size (side_buffer (rc_keys c) (rc_values c) v)) a \<Longrightarrow> ?f u a = ?f s0 a" for a
        by (simp add: preserves_def)
      have "rc_lengths c ! k \<le> kc_capacity ?cfg" using wf k by (simp add: rt_kv_wf_def)
      then have "p < kc_capacity ?cfg" if "p \<in> set sel" for p using sel(3) that by fastforce
      then have "row_at (?f u) (row_bytes elem_size ?cfg) (side_buffer (rc_keys c) (rc_values c) v) (row_index ?cfg k h p) =
          row_at (?f s0) (row_bytes elem_size ?cfg) (side_buffer (rc_keys c) (rc_values c) v) (row_index ?cfg k h p)"
        if "p \<in> set sel" for p
        using that keep wf k h by (intro row_at_cong side_len [OF wf]) (simp_all add: rt_kv_wf_def)
      then show ?thesis using E(3) [OF _ h] by (simp add: selected_rows_def)
    qed
    finally show "cache_rows (?f ?z) elem_size rep' (side_buffer (rc_keys rep') (rc_values rep') v) l h =
        (if l < Suc k then selected_rows (?f s0) elem_size c (sels ! l) l h v else [])"
      using sel(2) same by (auto simp: less_Suc_eq)
  qed
  ultimately show ?thesis by blast
qed

lemma scratch_elements_Ok [simp]:
  "compaction_scratch_elements heads n dim = Ok m \<longleftrightarrow> heads * n < u64_lim \<and> heads * n * dim < u64_lim \<and> m = heads * n * dim"
  by (auto simp: compaction_scratch_elements_def)

lemma rebuild_layer_step:
  assumes A: "driver_allocates drv live content" and D: "driver_ordered drv (stream_raw (rc_stream c)) content"
    and C: "cache_live elem_size c (live (gpu s0))" and R: "rebuilding live content elem_size c s0 s rep"
    and k: "k < kc_layers (rc_config c)" and sel: "sel = sels ! k" "\<forall>p \<in> set sel. p < rc_lengths c ! k"
    and run: "rebuild_layer drv elem_size c (s, rep) (k, sel) = ((t, rep'), r)"
  shows "rebuilding live content elem_size c s0 t rep' \<and>
    (is_ok r \<and> rebuilt_to content elem_size c sels s0 k s rep \<longrightarrow> rebuilt_to content elem_size c sels s0 (Suc k) t rep')"
proof (cases "sel = []")
  case True
  then show ?thesis using run R sel(1) by (auto simp: rebuild_layer_def rebuilt_empty)
next
  case False
  let ?n = "kc_heads (rc_config c) * length sel * kc_head_dim (rc_config c)"
  have pos: "0 < ?n * elem_size"
    using C False by (simp add: cache_live_def rt_kv_wf_def config_ok_def)
  have sok: "live_ok (live (gpu s))" using R by (simp add: rebuilding_def cache_live_def)
  show ?thesis
  proof (cases "compaction_scratch_elements (kc_heads (rc_config c)) (length sel) (kc_head_dim (rc_config c))")
    case (Inl e)
    then show ?thesis using run R False by (auto simp: rebuild_layer_def)
  next
    case (Inr m)
    then have m: "m = ?n" by simp
    obtain u1 r1 where a1: "device_buffer_new drv elem_size (stream_ctx (rc_stream c)) ?n s = (u1, r1)" by fastforce
    note E1 = alloc_effect [OF A D sok pos a1]
    show ?thesis
    proof (cases r1)
      case (Inl e)
      then have "t = u1 \<and> rep' = rep \<and> \<not> is_ok r" using run False \<open>_ = Inr m\<close> m a1 by (auto simp: rebuild_layer_def)
      then show ?thesis using rebuilding_later [OF R E1(1)] by simp
    next
      case (Inr sk)
      note sk = E1(2) [OF Inr]
      have u1ok: "live_ok (live (gpu u1))" "live (gpu s) \<subseteq> live (gpu u1)" using E1(1) by (simp_all add: preserves_def)
      obtain u2 r2 where a2: "device_buffer_new drv elem_size (stream_ctx (rc_stream c)) ?n u1 = (u2, r2)" by fastforce
      note E2 = alloc_effect [OF A D u1ok(1) pos a2]
      have s2: "preserves live content (live (gpu s)) s u2" by (rule preserves_trans [OF E1(1) E2(1) u1ok(2)])
      show ?thesis
      proof (cases r2)
        case (Inl e)
        have "preserves live content (live (gpu s)) u2 (release drv sk u2)"
          using s2 sk E2(1) by (intro release_keeps [OF A D]) (auto simp: preserves_def)
        then have "preserves live content (live (gpu s)) s (release drv sk u2)" using preserves_trans [OF s2] by blast
        moreover have "t = release drv sk u2 \<and> rep' = rep \<and> \<not> is_ok r"
          using run False \<open>_ = Inr m\<close> m a1 \<open>r1 = Inr sk\<close> a2 Inl by (auto simp: rebuild_layer_def)
        ultimately show ?thesis using rebuilding_later [OF R] by simp
      next
        case (Inr sv)
        note sv = E2(2) [OF Inr]
        have regions: "region elem_size sk \<in> live (gpu u2) - live (gpu s)" "region elem_size sv \<in> live (gpu u2) - live (gpu s)"
          "region elem_size sk \<noteq> region elem_size sv"
          using sk sv u1ok(2) E2(1) by (auto simp: preserves_def)
        obtain w q where st: "stage_selected_rows drv elem_size c k sel sk sv u2 = (w, q)" by fastforce
        have u2ok: "live_ok (live (gpu u2))" "live (gpu s0) \<subseteq> live (gpu s)" "live (gpu s) \<subseteq> live (gpu u2)"
          using s2 R by (simp_all add: preserves_def rebuilding_def)
        have S: "stage_setting elem_size c k sel sk sv (live (gpu u2))"
          using C k sel(2) regions u2ok sk sv by (auto simp: stage_setting_def cache_live_def)
        show ?thesis
        proof (cases q)
          case (Inl e)
          note E = stage_effect [OF A D S st]
          have sw: "preserves live content (live (gpu s)) s w"
            using preserves_trans [OF s2 E(2)] regions u2ok(3) by blast
          have "preserves live content (live (gpu s)) w (release drv sk (release drv sv w))"
            using regions u2ok E(1) by (intro release_keeps2 [OF A D]) auto
          then have "preserves live content (live (gpu s)) s (release drv sk (release drv sv w))"
            using preserves_trans [OF sw] by blast
          moreover have "t = release drv sk (release drv sv w) \<and> rep' = rep \<and> \<not> is_ok r"
            using run False \<open>_ = Inr m\<close> m a1 \<open>r1 = Inr sk\<close> a2 Inr st Inl by (auto simp: rebuild_layer_def)
          ultimately show ?thesis using rebuilding_later [OF R] by simp
        next
          case (Inr x)
          obtain z rep2 p where ap: "append_layer drv elem_size rep k sk sv (length sel) w = (z, rep2, p)" by (metis surj_pair)
          have res: "t = release drv sk (release drv sv z) \<and> rep' = rep2 \<and> r = p"
            using run False \<open>_ = Inr m\<close> m a1 \<open>r1 = Inr sk\<close> a2 \<open>r2 = Inr sv\<close> st Inr ap by (simp add: rebuild_layer_def)
          show ?thesis
            using fill_layer [OF A D C R k False sel(1,2) s2 regions _ _ st [unfolded Inr] ap] sk sv res by simp
        qed
      qed
    qed
  qed
qed

lemma rebuild_loop:
  assumes A: "driver_allocates drv live content" and D: "driver_ordered drv (stream_raw (rc_stream c)) content"
    and C: "cache_live elem_size c (live (gpu s0))"
    and sels: "\<forall>l < kc_layers (rc_config c). \<forall>p \<in> set (sels ! l). p < rc_lengths c ! l"
  shows "rebuilding live content elem_size c s0 s rep \<Longrightarrow> k + length xs \<le> kc_layers (rc_config c) \<Longrightarrow>
    \<forall>i < length xs. xs ! i = sels ! (k + i) \<Longrightarrow>
    for_each_st (rebuild_layer drv elem_size c) (s, rep) (enumerate k xs) = ((t, rep'), r) \<Longrightarrow>
    rebuilding live content elem_size c s0 t rep' \<and>
    (is_ok r \<and> rebuilt_to content elem_size c sels s0 k s rep \<longrightarrow> rebuilt_to content elem_size c sels s0 (k + length xs) t rep')"
proof (induction xs arbitrary: k s rep)
  case Nil
  then show ?case by simp
next
  case (Cons x xs)
  obtain u rep1 q where step: "rebuild_layer drv elem_size c (s, rep) (k, x) = ((u, rep1), q)" by (metis surj_pair)
  have x: "x = sels ! k" "k < kc_layers (rc_config c)" using Cons.prems(2,3) by auto
  note S = rebuild_layer_step [OF A D C Cons.prems(1) x(2) x(1) _ step]
  have valid: "\<forall>p \<in> set x. p < rc_lengths c ! k" using sels x by blast
  show ?case
  proof (cases q)
    case (Inl e)
    then show ?thesis using S [OF valid] Cons.prems(4) step by auto
  next
    case (Inr v)
    have "for_each_st (rebuild_layer drv elem_size c) (u, rep1) (enumerate (Suc k) xs) = ((t, rep'), r)"
      using Cons.prems(4) step Inr by simp
    moreover have "\<forall>i < length xs. xs ! i = sels ! (Suc k + i)" using Cons.prems(3) by fastforce
    ultimately show ?thesis using Cons.IH [of u rep1 "Suc k"] S [OF valid] Cons.prems(2) Inr by auto
  qed
qed

lemma new_cache_effect:
  assumes A: "driver_allocates drv live content" and D: "driver_ordered drv st0 content"
    and ok: "live_ok (live (gpu s))" and cfg: "config_ok elem_size cfg"
    and run: "rt_kv_new drv elem_size st cfg s = (t, r)"
  shows "preserves live content (live (gpu s)) s t"
    and "r = Ok rep \<Longrightarrow> cache_live elem_size rep (live (gpu t)) \<and> rc_config rep = cfg \<and> rc_stream rep = st \<and>
      rc_lengths rep = replicate (kc_layers cfg) 0 \<and>
      region elem_size (rc_keys rep) \<notin> live (gpu s) \<and> region elem_size (rc_values rep) \<notin> live (gpu s)"
proof -
  have bytes: "elements_of cfg * elem_size < u64_lim" using cfg by (simp add: config_ok_def elements_of_bytes)
  have pos: "0 < elements_of cfg * elem_size" using cfg by (simp add: config_ok_def elements_of_def)
  have refl_s: "preserves live content (live (gpu s)) s s" using ok by (simp add: preserves_def)
  have "preserves live content (live (gpu s)) s t \<and> (r = Ok rep \<longrightarrow>
      cache_live elem_size rep (live (gpu t)) \<and> rc_config rep = cfg \<and> rc_stream rep = st \<and>
      rc_lengths rep = replicate (kc_layers cfg) 0 \<and>
      region elem_size (rc_keys rep) \<notin> live (gpu s) \<and> region elem_size (rc_values rep) \<notin> live (gpu s))"
  proof (cases "and_then (kv_config_validate cfg) (\<lambda>_. elements_per_side cfg)")
    case (Inl e)
    then have "t = s \<and> r = Err e"
      using run by (cases "kv_config_validate cfg") (auto simp: rt_kv_new_def rt_bind_def)
    then show ?thesis using refl_s by simp
  next
    case (Inr n)
    then have n: "kv_config_validate cfg = Ok ()" "elements_per_side cfg = Ok (elements_of cfg)"
      by (auto simp: elements_per_side_def elements_of_def)
    obtain u1 r1 where a1: "device_buffer_new drv elem_size (stream_ctx st) (elements_of cfg) s = (u1, r1)" by fastforce
    note E1 = alloc_effect [OF A D ok pos a1]
    show ?thesis
    proof (cases r1)
      case (Inl e)
      then have "t = u1 \<and> r = Err e" using run n a1 by (simp add: rt_kv_new_def rt_bind_def)
      then show ?thesis using E1(1) by simp
    next
      case (Inr ks)
      note ks = E1(2) [OF Inr]
      have u1: "live_ok (live (gpu u1))" "live (gpu s) \<subseteq> live (gpu u1)" using E1(1) by (simp_all add: preserves_def)
      obtain u2 r2 where a2: "device_buffer_new drv elem_size (stream_ctx st) (elements_of cfg) u1 = (u2, r2)" by fastforce
      note E2 = alloc_effect [OF A D u1(1) pos a2]
      have s2: "preserves live content (live (gpu s)) s u2" by (rule preserves_trans [OF E1(1) E2(1) u1(2)])
      show ?thesis
      proof (cases r2)
        case (Inl e)
        then have t: "t = device_buffer_drop drv ks u2 \<and> r = Err e"
          using run n a1 \<open>r1 = Inr ks\<close> a2 by (simp add: rt_kv_new_def rt_bind_def)
        have "preserves live content (live (gpu s)) u2 (device_buffer_drop drv ks u2)"
        proof (rule preserves_mono [OF drop_effect [OF A D]])
          show u2: "live_ok (live (gpu u2))" using s2 by (simp add: preserves_def)
          have "region elem_size ks \<in> live (gpu u2)" "region elem_size ks \<notin> live (gpu s)" "live (gpu s) \<subseteq> live (gpu u2)"
            using ks E2(1) s2 by (auto simp: preserves_def)
          then show "live (gpu s) \<subseteq> {x \<in> live (gpu u2). fst x \<noteq> buf_ptr ks}"
            using live_ok_ptr_neq [OF u2 _ \<open>region elem_size ks \<in> live (gpu u2)\<close>] by blast
        qed
        then have "preserves live content (live (gpu s)) s t" using t preserves_trans [OF s2] by blast
        then show ?thesis using t by simp
      next
        case (Inr vs)
        note vs = E2(2) [OF Inr]
        have t: "t = u2 \<and> r = Ok \<lparr>rc_config = cfg, rc_stream = st, rc_keys = ks, rc_values = vs,
            rc_lengths = replicate (kc_layers cfg) 0\<rparr>"
          using run n a1 \<open>r1 = Inr ks\<close> a2 Inr by (simp add: rt_kv_new_def rt_bind_def)
        have L: "live_ok (live (gpu u2))" "region elem_size ks \<in> live (gpu u2)" "region elem_size vs \<in> live (gpu u2)"
          "region elem_size ks \<noteq> region elem_size vs" "region elem_size ks \<notin> live (gpu s)" "region elem_size vs \<notin> live (gpu s)"
          using ks vs E2(1) u1(2) by (auto simp: preserves_def)
        have "buffer_ok elem_size ks" "buffer_ok elem_size vs"
          using L(1-3) by (auto simp: live_ok_def region_def buffer_ok_def)
        moreover have "buffers_apart elem_size ks vs" by (rule live_buffers_apart [OF L(1-4)])
        ultimately show ?thesis
          using t L s2 ks vs cfg by (auto simp: cache_live_def rt_kv_wf_def)
      qed
    qed
  qed
  then show "preserves live content (live (gpu s)) s t"
    and "r = Ok rep \<Longrightarrow> cache_live elem_size rep (live (gpu t)) \<and> rc_config rep = cfg \<and> rc_stream rep = st \<and>
      rc_lengths rep = replicate (kc_layers cfg) 0 \<and>
      region elem_size (rc_keys rep) \<notin> live (gpu s) \<and> region elem_size (rc_values rep) \<notin> live (gpu s)" by blast+
qed

section \<open>The swap\<close>

lemma check_retained_step [simp]:
  "check_retained active previous x = Ok r \<longleftrightarrow> x < active \<and> (\<forall>q. previous = Some q \<longrightarrow> q < x) \<and> r = Some x"
  by (cases previous) (auto simp: check_retained_def)

lemma check_retained_Ok:
  "for_each_res (check_retained active) previous xs = Ok r \<longleftrightarrow>
     (\<forall>p \<in> set xs. p < active) \<and> sorted_wrt (<) (case previous of None \<Rightarrow> xs | Some q \<Rightarrow> q # xs) \<and>
     r = (if xs = [] then previous else Some (last xs))"
proof (induction xs arbitrary: previous)
  case Nil
  then show ?case by (cases previous) auto
next
  case (Cons x xs)
  show ?case
    by (cases previous) (auto simp: Cons.IH dest: less_trans)
qed

lemma validate_retained_Ok [simp]:
  "validate_retained_positions active xs = Ok u \<longleftrightarrow> (\<forall>p \<in> set xs. p < active) \<and> sorted_wrt (<) xs"
  by (auto simp: validate_retained_positions_def check_retained_Ok)

lemma release_all_effect:
  assumes A: "driver_allocates drv live content" and D: "driver_ordered drv st content"
  shows "live_ok (live (gpu s)) \<Longrightarrow>
    preserves live content {x \<in> live (gpu s). \<forall>b \<in> set bs. fst x \<noteq> buf_ptr b} s
      (fold (\<lambda>b t. if b \<in> hs then t else release drv b t) bs s)"
proof (induction bs arbitrary: s)
  case Nil
  then show ?case by (simp add: preserves_def)
next
  case (Cons b bs)
  let ?u = "if b \<in> hs then s else release drv b s"
  have one: "preserves live content {x \<in> live (gpu s). fst x \<noteq> buf_ptr b} s ?u"
    using release_effect [OF A D Cons.prems] Cons.prems by (auto simp: preserves_def)
  then have "preserves live content {x \<in> live (gpu ?u). \<forall>b \<in> set bs. fst x \<noteq> buf_ptr b} ?u
      (fold (\<lambda>b t. if b \<in> hs then t else release drv b t) bs ?u)"
    by (intro Cons.IH) (simp add: preserves_def)
  then have "preserves live content {x \<in> live (gpu s). \<forall>b \<in> set (b # bs). fst x \<noteq> buf_ptr b} ?u
      (fold (\<lambda>b t. if b \<in> hs then t else release drv b t) bs ?u)"
    by (rule preserves_mono) (use one in \<open>auto simp: preserves_def\<close>)
  then show ?case
    using preserves_trans [OF preserves_mono [OF one]] by (simp add: subset_eq)
qed

lemma abandon_replacement:
  assumes A: "driver_allocates drv live content" and D: "driver_ordered drv st content"
    and R: "rebuilding live content elem_size c s0 s rep"
  shows "preserves live content (live (gpu s0)) s0 (release_cache drv rep s)"
proof -
  have R': "preserves live content (live (gpu s0)) s0 s" "live_ok (live (gpu s))"
    "region elem_size (rc_keys rep) \<in> live (gpu s)" "region elem_size (rc_values rep) \<in> live (gpu s)"
    "region elem_size (rc_keys rep) \<notin> live (gpu s0)" "region elem_size (rc_values rep) \<notin> live (gpu s0)"
    using R by (simp_all add: rebuilding_def cache_live_def)
  then have "preserves live content (live (gpu s0)) s (release_cache drv rep s)"
    unfolding release_cache_def by (intro release_keeps2 [OF A D]) (simp_all add: preserves_def)
  then show ?thesis using preserves_trans [OF R'(1)] by blast
qed

definition cache_regions :: "nat \<Rightarrow> rt_kv_cache \<Rightarrow> (nat \<times> nat) set" where
  "cache_regions elem_size c = {region elem_size (rc_keys c), region elem_size (rc_values c)}"

lemma swap_effect:
  assumes A: "driver_allocates drv live content" and D: "driver_ordered drv (stream_raw (rc_stream c)) content"
    and C: "cache_live elem_size c (live (gpu s))"
    and run: "rebuild_and_swap drv elem_size handles c sels s = (t, c', r)"
  shows "(\<not> is_ok r \<longrightarrow> c' = c \<and> preserves live content (live (gpu s)) s t) \<and>
    (is_ok r \<longrightarrow> cache_live elem_size c' (live (gpu t)) \<and> rc_config c' = rc_config c \<and> rc_stream c' = rc_stream c \<and>
       preserves live content (live (gpu s) - cache_regions elem_size c) s t \<and>
       (\<forall>l < kc_layers (rc_config c). \<forall>h < kc_heads (rc_config c). \<forall>v.
          cache_rows (content (gpu t)) elem_size c' (side_buffer (rc_keys c') (rc_values c') v) l h =
            selected_rows (content (gpu s)) elem_size c (sels ! l) l h v))"
proof -
  let ?cfg = "rc_config c"
  have ok: "live_ok (live (gpu s))" and cfg: "config_ok elem_size ?cfg" and len: "length (rc_lengths c) = kc_layers ?cfg"
    using C by (simp_all add: cache_live_def rt_kv_wf_def)
  have same: "preserves live content (live (gpu s)) s s" using ok by (simp add: preserves_def)
  show ?thesis
  proof (cases "length sels = kc_layers ?cfg \<and> check_all (check_selection c) (enumerate 0 sels) = Ok ()")
    case False
    then have "\<exists>e. rebuild_and_swap drv elem_size handles c sels s = (s, c, Err e)"
      by (cases "length sels = kc_layers ?cfg"; cases "check_all (check_selection c) (enumerate 0 sels)")
        (simp_all add: rebuild_and_swap_def)
    then show ?thesis using same run by auto
  next
    case True
    then have n: "length sels = kc_layers ?cfg" and checked: "check_all (check_selection c) (enumerate 0 sels) = Ok ()" by blast+
    note run = run [unfolded rebuild_and_swap_def checked]
    have "\<forall>p \<in> set (sels ! l). p < rc_lengths c ! l" if "l < kc_layers ?cfg" for l
    proof -
      have "check_selection c (l, sels ! l) = Ok ()" using checked n that unfolding check_enumerate_Ok by simp
      then show ?thesis by (auto simp: check_selection_def rt_kv_len_def split: if_splits)
    qed
    then have valid: "\<forall>l < kc_layers ?cfg. \<forall>p \<in> set (sels ! l). p < rc_lengths c ! l" by blast
    obtain s1 r1 where sync: "stream_synchronize drv (rc_stream c) s = (s1, r1)" by fastforce
    have l1: "live (gpu s1) = live (gpu s)" and c1: "content (gpu s1) = content (gpu s)"
      using rt_keepsD [OF live_keeps(2) [OF A] sync] rt_keepsD [OF rt_keeps_ops(2) [OF D] sync] by simp_all
    have p1: "preserves live content (live (gpu s)) s s1" using l1 c1 ok by (simp add: preserves_def)
    show ?thesis
    proof (cases r1)
      case (Inl e)
      then show ?thesis using run n sync p1 by auto
    next
      case (Inr x1)
      obtain s2 r2 where new: "rt_kv_new drv elem_size (rc_stream c) ?cfg s1 = (s2, r2)" by fastforce
      have ok1: "live_ok (live (gpu s1))" using ok l1 by simp
      note N = new_cache_effect [OF A D ok1 cfg new]
      have p2: "preserves live content (live (gpu s)) s s2" using preserves_trans [OF p1 N(1)] l1 by simp
      show ?thesis
      proof (cases r2)
        case (Inl e)
        then show ?thesis using run n sync \<open>r1 = Inr x1\<close> new p2 by auto
      next
        case (Inr rep)
        note rep = N(2) [OF Inr]
        have R: "rebuilding live content elem_size c s s2 rep"
          using rep p2 l1 by (simp add: rebuilding_def)
        have B: "rebuilt_to content elem_size c sels s 0 s2 rep"
          using rep by (auto simp: rebuilt_to_def cache_rows_def)
        obtain s3 rep3 r3 where loop: "for_each_st (rebuild_layer drv elem_size c) (s2, rep) (enumerate 0 sels) = ((s3, rep3), r3)"
          by (metis surj_pair)
        note Lp = rebuild_loop [OF A D C valid R, of 0 sels, OF _ _ loop]
        have R3: "rebuilding live content elem_size c s s3 rep3" using Lp n by simp
        obtain s4 r4 where sync4: "stream_synchronize drv (rc_stream rep3) s3 = (s4, r4)" by fastforce
        have l4: "live (gpu s4) = live (gpu s3)" and c4: "content (gpu s4) = content (gpu s3)"
          using rt_keepsD [OF live_keeps(2) [OF A] sync4] rt_keepsD [OF rt_keeps_ops(2) [OF D] sync4] by simp_all
        have p4: "preserves live content (live (gpu s3)) s3 s4"
          using l4 c4 R3 by (simp add: preserves_def rebuilding_def cache_live_def)
        have R4: "rebuilding live content elem_size c s s4 rep3" by (rule rebuilding_later [OF R3 p4])
        show ?thesis
        proof (cases "is_ok r3 \<and> is_ok r4")
          case False
          then have "c' = c \<and> \<not> is_ok r \<and> (t = release_cache drv rep3 s3 \<or> t = release_cache drv rep3 s4)"
            using run n sync \<open>r1 = Inr x1\<close> new Inr loop sync4 by (cases r3; cases r4) auto
          then show ?thesis using abandon_replacement [OF A D R3] abandon_replacement [OF A D R4] by auto
        next
          case True
          then obtain x3 x4 where r34: "r3 = Inr x3" "r4 = Inr x4" by (auto simp: is_ok_iff)
          let ?free = "fold (\<lambda>b t. if b \<in> set handles then t else release drv b t) [rc_keys c, rc_values c]"
          have res: "t = ?free s4 \<and> c' = rep3 \<and> is_ok r"
            using run n sync \<open>r1 = Inr x1\<close> new Inr loop sync4 r34 by auto
          have s4: "live_ok (live (gpu s4))" "live (gpu s) \<subseteq> live (gpu s4)" "cache_live elem_size rep3 (live (gpu s4))"
            "region elem_size (rc_keys rep3) \<notin> live (gpu s)" "region elem_size (rc_values rep3) \<notin> live (gpu s)"
            using R4 by (simp_all add: rebuilding_def cache_live_def preserves_def)
          have cl: "region elem_size (rc_keys c) \<in> live (gpu s)" "region elem_size (rc_values c) \<in> live (gpu s)"
            using C by (simp_all add: cache_live_def)
          have freed: "preserves live content (live (gpu s4) - cache_regions elem_size c) s4 t"
          proof (rule preserves_mono [OF release_all_effect [OF A D s4(1), of "[rc_keys c, rc_values c]" "set handles", folded res [THEN conjunct1]]])
            show "live (gpu s4) - cache_regions elem_size c \<subseteq> {x \<in> live (gpu s4). \<forall>b \<in> set [rc_keys c, rc_values c]. fst x \<noteq> buf_ptr b}"
              using live_ok_ptr_neq [OF s4(1)] cl s4(2) by (auto simp: cache_regions_def)
          qed
          have rep_in: "region elem_size (rc_keys rep3) \<in> live (gpu s4) - cache_regions elem_size c"
            "region elem_size (rc_values rep3) \<in> live (gpu s4) - cache_regions elem_size c"
            using s4 cl by (auto simp: cache_live_def cache_regions_def)
          have "cache_live elem_size rep3 (live (gpu t))"
            using s4(3) rep_in freed by (auto simp: cache_live_def preserves_def)
          moreover have "preserves live content (live (gpu s) - cache_regions elem_size c) s t"
          proof (rule preserves_trans)
            show "preserves live content (live (gpu s) - cache_regions elem_size c) s s4"
              using R4 by (auto simp: rebuilding_def intro: preserves_mono)
          qed (use freed s4(2) in auto)
          moreover have "cache_rows (content (gpu t)) elem_size rep3 (side_buffer (rc_keys rep3) (rc_values rep3) v) l h =
              selected_rows (content (gpu s)) elem_size c (sels ! l) l h v"
            if l: "l < kc_layers ?cfg" and h: "h < kc_heads ?cfg" for l h v
          proof -
            have cfg3: "rc_config rep3 = ?cfg" "rt_kv_wf elem_size rep3" using R4 s4(3) by (simp_all add: rebuilding_def cache_live_def)
            have "cache_rows (content (gpu t)) elem_size rep3 (side_buffer (rc_keys rep3) (rc_values rep3) v) l h =
                cache_rows (content (gpu s4)) elem_size rep3 (side_buffer (rc_keys rep3) (rc_values rep3) v) l h"
            proof (rule cache_rows_cong)
              have "region elem_size (side_buffer (rc_keys rep3) (rc_values rep3) v) \<in> live (gpu s4) - cache_regions elem_size c"
                using rep_in by (simp add: side_buffer_def)
              then show "\<And>a. inside (region elem_size (side_buffer (rc_keys rep3) (rc_values rep3) v)) a \<Longrightarrow>
                  content (gpu t) a = content (gpu s4) a"
                using freed by (simp add: preserves_def)
            qed (use cfg3 l h in simp_all)
            also have "\<dots> = cache_rows (content (gpu s3)) elem_size rep3 (side_buffer (rc_keys rep3) (rc_values rep3) v) l h"
              using c4 by simp
            also have "\<dots> = selected_rows (content (gpu s)) elem_size c (sels ! l) l h v"
            proof -
              have "rebuilt_to content elem_size c sels s (length sels) s3 rep3" using Lp B n r34(1) by simp
              then show ?thesis using l h n by (simp add: rebuilt_to_def)
            qed
            finally show ?thesis .
          qed
          ultimately show ?thesis using res R4 by (simp add: rebuilding_def)
        qed
      qed
    qed
  qed
qed

lemma selected_rows_nth:
  assumes "\<forall>p \<in> set sel. p < rc_lengths c ! l"
  shows "selected_rows f elem_size c sel l h v =
    map ((!) (cache_rows f elem_size c (side_buffer (rc_keys c) (rc_values c) v) l h)) sel"
  using assms by (simp add: selected_rows_def cache_rows_def)

lemma selected_rows_all:
  "selected_rows f elem_size c [0..<rc_lengths c ! l] l h v =
     cache_rows f elem_size c (side_buffer (rc_keys c) (rc_values c) v) l h"
  by (simp add: selected_rows_def cache_rows_def)

text \<open>What a compaction promises.  \<open>keep l\<close> are the rows of layer \<open>l\<close> to keep.\<close>

definition compacted ::
  "('s \<Rightarrow> (nat \<times> nat) set) \<Rightarrow> ('s \<Rightarrow> nat \<Rightarrow> u8) \<Rightarrow> nat \<Rightarrow> (nat \<Rightarrow> nat list) \<Rightarrow> 's rt \<Rightarrow> rt_kv_cache \<Rightarrow> 's rt \<Rightarrow> rt_kv_cache \<Rightarrow> bool"
  where
  "compacted live content elem_size keep s c t c' \<longleftrightarrow>
     cache_live elem_size c' (live (gpu t)) \<and> rc_config c' = rc_config c \<and>
     preserves live content (live (gpu s) - cache_regions elem_size c) s t \<and>
     (\<forall>l < kc_layers (rc_config c). \<forall>h < kc_heads (rc_config c). \<forall>v.
        cache_rows (content (gpu t)) elem_size c' (side_buffer (rc_keys c') (rc_values c') v) l h =
          map ((!) (cache_rows (content (gpu s)) elem_size c (side_buffer (rc_keys c) (rc_values c) v) l h)) (keep l))"

lemma compacted_lengths:
  assumes "cache_live elem_size c (live (gpu s))" "cache_live elem_size c' (live (gpu s))"
    and "preserves live content (live (gpu s)) s t" "rc_config c' = rc_config c"
    and "rc_keys c' = rc_keys c" "rc_values c' = rc_values c"
    and "\<And>l. l < kc_layers (rc_config c) \<Longrightarrow> keep l = [0..<rc_lengths c' ! l] \<and> rc_lengths c' ! l \<le> rc_lengths c ! l"
  shows "compacted live content elem_size keep s c t c'"
  unfolding compacted_def
proof (intro conjI allI impI)
  show "cache_live elem_size c' (live (gpu t))" using assms(2,3) by (auto simp: cache_live_def preserves_def)
  show "preserves live content (live (gpu s) - cache_regions elem_size c) s t"
    by (rule preserves_mono [OF assms(3)]) blast
  fix l h v
  assume l: "l < kc_layers (rc_config c)" and h: "h < kc_heads (rc_config c)"
  have "cache_rows (content (gpu t)) elem_size c' (side_buffer (rc_keys c') (rc_values c') v) l h =
      cache_rows (content (gpu s)) elem_size c' (side_buffer (rc_keys c') (rc_values c') v) l h"
    using rows_kept [OF assms(3,2)] l h assms(4) by simp
  then show "cache_rows (content (gpu t)) elem_size c' (side_buffer (rc_keys c') (rc_values c') v) l h =
      map ((!) (cache_rows (content (gpu s)) elem_size c (side_buffer (rc_keys c) (rc_values c) v) l h)) (keep l)"
    using assms(7) [OF l] assms(4-6) by (simp add: cache_rows_def)
qed (rule assms(4))

lemma sync_preserves:
  assumes A: "driver_allocates drv live content" and D: "driver_ordered drv st content"
    and "live_ok (live (gpu s))" "stream_synchronize drv x s = (t, r)"
  shows "preserves live content (live (gpu s)) s t"
  using rt_keepsD [OF live_keeps(2) [OF A] assms(4)] rt_keepsD [OF rt_keeps_ops(2) [OF D] assms(4)] assms(3)
  by (simp add: preserves_def)

lemma cache_live_lengths:
  "cache_live elem_size c L \<Longrightarrow> length ls = kc_layers (rc_config c) \<Longrightarrow> (\<forall>n \<in> set ls. n \<le> kc_capacity (rc_config c)) \<Longrightarrow>
     cache_live elem_size (c\<lparr>rc_lengths := ls\<rparr>) L"
  by (simp add: cache_live_def rt_kv_wf_def)

text \<open>A driver that runs every call at once and allocates after everything it has allocated.\<close>

type_synonym demo_gpu = "(nat \<Rightarrow> u8) \<times> (nat \<times> nat) list"

definition demo_alloc :: "nat \<Rightarrow> demo_gpu \<Rightarrow> demo_gpu \<times> (int \<times> nat)" where
  "demo_alloc n = (\<lambda>(f, L).
     let p = foldr (\<lambda>(q, m) a. max (q + m) a) L 256
     in if p + n < u64_lim then ((f, (p, n) # L), (0, p)) else ((f, L), (2, 0)))"

definition demo_gpu_driver :: "demo_gpu cuda" where
  "demo_gpu_driver = \<lparr>cu_api = Ok (), cu_ctx_set_current = (\<lambda>_ g. (g, 0)), cu_mem_alloc = demo_alloc,
     cu_memcpy_async = (\<lambda>d s n _ (f, L). ((copy_bytes d s n f, L), 0)),
     cu_stream_synchronize = (\<lambda>_ g. (g, 0)), cu_stream_wait_event = (\<lambda>_ _ g. (g, 0)),
     cu_event_create = (\<lambda>g. (g, (0, 1))), cu_event_record = (\<lambda>_ _ g. (g, 0)),
     cu_event_synchronize = (\<lambda>_ g. (g, 0)), cu_mem_free = (\<lambda>p (f, L). ((f, filter (\<lambda>x. fst x \<noteq> p) L), 0)),
     cu_memset_d8_async = (\<lambda>_ _ _ _ g. (g, 801)), cu_memset_d32_async = (\<lambda>_ _ _ _ g. (g, 801)),
     cu_memcpy_htod_async = (\<lambda>_ _ _ g. (g, 801)), cu_memcpy_dtoh_async = (\<lambda>_ _ _ g. (g, (801, []))),
     cu_stream_create = (\<lambda>_ g. (g, (0, 2))), cu_stream_query = (\<lambda>_ g. (g, 0)), cu_stream_destroy = (\<lambda>_ g. (g, 0)),
     cu_event_query = (\<lambda>_ g. (g, 0)), cu_event_elapsed_time = (\<lambda>_ _ g. (g, (0, 0))), cu_event_destroy = (\<lambda>_ g. (g, 0)),
     cu_mem_pool_create = (\<lambda>_ g. (g, (801, 0))), cu_mem_pool_set_attribute = (\<lambda>_ _ _ g. (g, 801)),
     cu_mem_alloc_from_pool_async = (\<lambda>_ _ _ g. (g, (801, 0))), cu_mem_free_async = (\<lambda>_ _ g. (g, 801))\<rparr>"

lemma foldr_max_le: "(q, m) \<in> set L \<Longrightarrow> q + m \<le> foldr (\<lambda>(q, m) a. max (q + m) a) L (b :: nat)"
  by (induction L) (auto intro: max.coboundedI1 max.coboundedI2)

lemma foldr_max_base: "b \<le> foldr (\<lambda>(q, m) a. max (q + m) a) L (b :: nat)"
  by (induction L) (auto intro: max.coboundedI1 max.coboundedI2)

lemma demo_gpu_allocates: "driver_allocates demo_gpu_driver (set \<circ> snd) fst"
  unfolding driver_allocates_def
proof (intro conjI allI impI)
  fix n :: nat and g :: demo_gpu
  obtain f L where g: "g = (f, L)" by fastforce
  let ?p = "foldr (\<lambda>(q, m) a. max (q + m) a) L 256"
  have "\<forall>x \<in> set L. disjoint_from (?p, n) x"
    using foldr_max_le [of _ _ L 256] by (auto simp: disjoint_from_def ranges_disjoint_def)
  moreover have "0 < ?p" using foldr_max_base [of 256 L] by linarith
  ultimately show "alloc_step (set \<circ> snd) fst n g (cu_mem_alloc demo_gpu_driver n g)"
    by (simp add: alloc_step_def demo_gpu_driver_def demo_alloc_def g Let_def)
next
  fix p :: nat and g :: demo_gpu
  show "free_step (set \<circ> snd) fst p g (fst (cu_mem_free demo_gpu_driver p g))"
    by (cases g) (auto simp: free_step_def demo_gpu_driver_def)
qed (auto simp: demo_gpu_driver_def split_beta)

lemma demo_gpu_ordered: "driver_ordered demo_gpu_driver st fst"
  by (auto simp: driver_ordered_def demo_gpu_driver_def split_beta)

definition demo_compact_cache :: rt_kv_cache where
  "demo_compact_cache =
     \<lparr>rc_config = \<lparr>kc_layers = 1, kc_heads = 1, kc_head_dim = 1, kc_capacity = 2\<rparr>,
      rc_stream = \<lparr>stream_raw = 9, stream_ctx = 7\<rparr>, rc_keys = \<lparr>buf_ptr = 256, buf_len = 2, buf_ctx = 7\<rparr>,
      rc_values = \<lparr>buf_ptr = 258, buf_len = 2, buf_ctx = 7\<rparr>, rc_lengths = [2]\<rparr>"

definition demo_compact_rt :: "demo_gpu rt" where
  "demo_compact_rt = \<lparr>gpu = (of_nat, [(258, 2), (256, 2)]), forgotten = []\<rparr>"

lemma demo_cache_live: "cache_live 1 demo_compact_cache ((set \<circ> snd) (gpu demo_compact_rt))"
  by (simp add: cache_live_def demo_compact_cache_def demo_compact_rt_def rt_kv_wf_def config_ok_def row_bytes_def
      elements_of_def buffer_ok_def buffers_apart_def ranges_disjoint_def u64_lim_def live_ok_def region_def disjoint_from_def)

lemma check_uniform_Ok:
  "check_uniform c active l = Ok () \<longleftrightarrow> l < length (rc_lengths c) \<and> rc_lengths c ! l = active"
  by (simp add: check_uniform_def rt_kv_len_def and_then_def)

lemma uniform_lengths:
  assumes "length (rc_lengths c) = kc_layers (rc_config c)" "rt_kv_len c 0 = Ok active"
    and "check_all (check_uniform c active) [1..<kc_layers (rc_config c)] = Ok ()"
  shows "rc_lengths c = replicate (kc_layers (rc_config c)) active"
proof (rule nth_equalityI)
  fix l assume "l < length (rc_lengths c)"
  then show "rc_lengths c ! l = replicate (kc_layers (rc_config c)) active ! l"
    using assms by (cases "l = 0") (auto simp: rt_kv_len_def check_uniform_Ok split: if_splits)
qed (simp add: assms(1))

section \<open>Properties\<close>

text \<open>Compacting one layer of a device cache keeps exactly the chosen rows.  With a driver that runs
  the copies of a stream in order and allocates disjoint memory, whatever it accepts or rejects: on
  success the chosen positions were strictly increasing and active, the layer's key and value rows are
  the chosen ones in order, every other layer has the rows it had, and no other allocation has changed;
  on failure the cache value and every allocation are as they were.\<close>

theorem compact_layer_refines:
  assumes "driver_allocates drv live content" "driver_ordered drv (stream_raw (rc_stream c)) content"
    and "cache_live elem_size c (live (gpu s))"
    and "compact_kv_cache_layer drv elem_size handles c layer retained s = (t, c', r)"
  shows "(is_ok r \<longrightarrow> layer < kc_layers (rc_config c) \<and> sorted_wrt (<) retained \<and> (\<forall>p \<in> set retained. p < rc_lengths c ! layer) \<and>
      compacted live content elem_size (\<lambda>l. if l = layer then retained else [0..<rc_lengths c ! l]) s c t c') \<and>
    (\<not> is_ok r \<longrightarrow> c' = c \<and> preserves live content (live (gpu s)) s t)"
proof -
  let ?keep = "\<lambda>l. if l = layer then retained else [0..<rc_lengths c ! l]"
  have ok: "live_ok (live (gpu s))" and len: "length (rc_lengths c) = kc_layers (rc_config c)"
    using assms(3) by (simp_all add: cache_live_def rt_kv_wf_def)
  have same: "preserves live content (live (gpu s)) s s" using ok by (simp add: preserves_def)
  show ?thesis
  proof (cases "layer < kc_layers (rc_config c) \<and> validate_retained_positions (rc_lengths c ! layer) retained = Ok ()")
    case False
    then have "\<exists>e. compact_kv_cache_layer drv elem_size handles c layer retained s = (s, c, Err e)"
      using len by (cases "validate_retained_positions (rc_lengths c ! layer) retained")
        (auto simp: compact_kv_cache_layer_def rt_kv_len_def)
    then show ?thesis using same assms(4) by auto
  next
    case True
    then have layer: "layer < kc_layers (rc_config c)" and valid: "\<forall>p \<in> set retained. p < rc_lengths c ! layer" "sorted_wrt (<) retained"
      and checked: "validate_retained_positions (rc_lengths c ! layer) retained = Ok ()" by simp_all
    have active: "rt_kv_len c layer = Ok (rc_lengths c ! layer)" using layer len by (simp add: rt_kv_len_def)
    have run: "compact_kv_cache_layer drv elem_size handles c layer retained s = (t, c', r)" by (rule assms(4))
    note run = run [unfolded compact_kv_cache_layer_def active sum.case checked]
    obtain s1 r1 where sync: "stream_synchronize drv (rc_stream c) s = (s1, r1)" by fastforce
    note p1 = sync_preserves [OF assms(1,2) ok sync]
    have "retained = [0..<rc_lengths c ! layer] \<or> retained = [] \<and> rc_lengths c ! layer \<noteq> 0 \<or>
        retained \<noteq> [0..<rc_lengths c ! layer] \<and> retained \<noteq> []"
      by (cases "rc_lengths c ! layer = 0") auto
    then consider (identity) "retained = [0..<rc_lengths c ! layer]" | (none) "retained = []" "rc_lengths c ! layer \<noteq> 0"
      | (some) "retained \<noteq> [0..<rc_lengths c ! layer]" "retained \<noteq> []" by blast
    then show ?thesis
    proof cases
      case identity
      then have "t = s1 \<and> c' = c \<and> r = r1"
        using run layer sync by simp
      moreover have "compacted live content elem_size ?keep s c s1 c"
        by (rule compacted_lengths [OF assms(3,3) p1 refl refl refl]) (simp add: identity)
      ultimately show ?thesis using p1 layer valid by simp
    next
      case none
      show ?thesis
      proof (cases r1)
        case (Inl e)
        then have "t = s1 \<and> c' = c \<and> \<not> is_ok r"
          using run layer sync none by auto
        then show ?thesis using p1 by simp
      next
        case (Inr x)
        let ?c = "c\<lparr>rc_lengths := (rc_lengths c)[layer := 0]\<rparr>"
        have "t = s1 \<and> c' = ?c \<and> is_ok r"
          using run layer sync none Inr len by (auto simp: rt_kv_reset_layer_def)
        moreover have "cache_live elem_size ?c (live (gpu s))"
          using assms(3) len by (intro cache_live_lengths) (auto simp: cache_live_def rt_kv_wf_def dest: subsetD [OF set_update_subset_insert])
        then have "compacted live content elem_size ?keep s c s1 ?c"
          by (rule compacted_lengths [OF assms(3) _ p1]) (simp_all add: none(1) nth_list_update len)
        ultimately show ?thesis using layer valid by simp
      qed
    next
      case some
      show ?thesis
      proof (cases "collect_res (layer_selections c layer retained) [0..<kc_layers (rc_config c)]")
        case (Inl e)
        then have "t = s \<and> c' = c \<and> \<not> is_ok r"
          using run layer some by auto
        then show ?thesis using same by simp
      next
        case (Inr sels)
        then have run: "rebuild_and_swap drv elem_size handles c sels s = (t, c', r)"
          using run layer some by auto
        have sel: "sels ! l = ?keep l" if "l < kc_layers (rc_config c)" for l
        proof -
          have "layer_selections c layer retained l = Ok (sels ! l)"
            using collect_res_nth [OF Inr] that by simp
          then show ?thesis using that len by (auto simp: layer_selections_def rt_kv_len_def Let_def split: if_splits)
        qed
        have "compacted live content elem_size ?keep s c t c'" if "is_ok r"
          using swap_effect [OF assms(1-3) run] that sel valid(1)
          by (auto simp: compacted_def selected_rows_nth selected_rows_all cache_rows_def)
        then show ?thesis using swap_effect [OF assms(1-3) run] layer valid by blast
      qed
    qed
  qed
qed

theorem compact_layer_refines_witness:
  "\<exists>t c' r. compact_kv_cache_layer demo_gpu_driver 1 [] demo_compact_cache 0 [1] demo_compact_rt = (t, c', r) \<and>
     (is_ok r \<longrightarrow> cache_rows (fst (gpu t)) 1 c' (rc_keys c') 0 0 = [[1]]) \<and> (\<not> is_ok r \<longrightarrow> c' = demo_compact_cache)"
proof -
  obtain t c' r where run: "compact_kv_cache_layer demo_gpu_driver 1 [] demo_compact_cache 0 [1] demo_compact_rt = (t, c', r)"
    by (cases "compact_kv_cache_layer demo_gpu_driver 1 [] demo_compact_cache 0 [1] demo_compact_rt") auto
  note R = compact_layer_refines [OF demo_gpu_allocates demo_gpu_ordered demo_cache_live run]
  have "cache_rows of_nat 1 demo_compact_cache (rc_keys demo_compact_cache) 0 0 = [[0], [1]]"
    by (simp add: cache_rows_def row_at_def row_index_def row_bytes_def demo_compact_cache_def upt_rec)
  moreover have "cache_rows (fst (gpu t)) 1 c' (rc_keys c') 0 0 =
      map ((!) (cache_rows of_nat 1 demo_compact_cache (rc_keys demo_compact_cache) 0 0)) [1]" if "is_ok r"
  proof -
    have "compacted (set \<circ> snd) fst 1 (\<lambda>l. if l = 0 then [1] else [0..<rc_lengths demo_compact_cache ! l]) demo_compact_rt demo_compact_cache t c'"
      using R that by blast
    then have "\<forall>v. cache_rows (fst (gpu t)) 1 c' (side_buffer (rc_keys c') (rc_values c') v) 0 0 =
        map ((!) (cache_rows (fst (gpu demo_compact_rt)) 1 demo_compact_cache
          (side_buffer (rc_keys demo_compact_cache) (rc_values demo_compact_cache) v) 0 0)) [1]"
      by (simp add: compacted_def demo_compact_cache_def)
    from this [THEN spec, of False] show ?thesis by (simp add: side_buffer_def demo_compact_rt_def)
  qed
  ultimately show ?thesis using run R by auto
qed


text \<open>C4. Compacting the whole device cache keeps exactly the chosen rows in every layer.  With a driver
  that runs the copies of a stream in order and allocates disjoint memory: on success all layers had
  the length of the first one, the chosen positions were strictly increasing and active, every layer's
  key and value rows are the chosen ones in order, and no other allocation has changed; on failure the
  cache value and every allocation are as they were.\<close>

theorem compact_cache_refines:
  assumes "driver_allocates drv live content" "driver_ordered drv (stream_raw (rc_stream c)) content"
    and "cache_live elem_size c (live (gpu s))"
    and "compact_kv_cache drv elem_size handles c retained s = (t, c', r)"
  shows "(is_ok r \<longrightarrow> (\<exists>active. rc_lengths c = replicate (kc_layers (rc_config c)) active \<and> (\<forall>p \<in> set retained. p < active)) \<and>
      sorted_wrt (<) retained \<and> compacted live content elem_size (\<lambda>l. retained) s c t c') \<and>
    (\<not> is_ok r \<longrightarrow> c' = c \<and> preserves live content (live (gpu s)) s t)"
proof (cases "\<exists>active. rt_kv_len c 0 = Ok active \<and> check_all (check_uniform c active) [1..<kc_layers (rc_config c)] = Ok () \<and>
    validate_retained_positions active retained = Ok ()")
  case False
  then have "\<exists>e. compact_kv_cache drv elem_size handles c retained s = (s, c, Err e)"
    unfolding compact_kv_cache_def
    by (cases "rt_kv_len c 0"; cases "check_all (check_uniform c (projr (rt_kv_len c 0))) [1..<kc_layers (rc_config c)]";
        cases "validate_retained_positions (projr (rt_kv_len c 0)) retained")
      (simp_all del: check_all_Ok_iff validate_retained_Ok)
  then have "t = s \<and> c' = c \<and> \<not> is_ok r" using assms(4) by auto
  then show ?thesis using assms(3) by (simp add: preserves_def cache_live_def)
next
  case True
  then obtain active where active: "rt_kv_len c 0 = Ok active"
    and checked: "check_all (check_uniform c active) [1..<kc_layers (rc_config c)] = Ok ()" "validate_retained_positions active retained = Ok ()"
    by blast
  have ok: "live_ok (live (gpu s))" using assms(3) by (simp add: cache_live_def)
  have uniform: "rc_lengths c = replicate (kc_layers (rc_config c)) active"
    by (rule uniform_lengths [OF _ active checked(1)]) (use assms(3) in \<open>simp add: cache_live_def rt_kv_wf_def\<close>)
  have valid: "\<forall>p \<in> set retained. p < active" "sorted_wrt (<) retained" using checked(2) by simp_all
  note run = assms(4) [unfolded compact_kv_cache_def active sum.case checked]
  obtain s1 r1 where sync: "stream_synchronize drv (rc_stream c) s = (s1, r1)" by fastforce
  note p1 = sync_preserves [OF assms(1,2) ok sync]
  consider (identity) "retained = [0..<active]" | (none) "retained = []" "active \<noteq> 0"
    | (some) "retained \<noteq> [0..<active]" "retained \<noteq> []" by (cases "active = 0") auto
  then show ?thesis
  proof cases
    case identity
    then have "t = s1 \<and> c' = c \<and> r = r1" using run sync by simp
    moreover have "compacted live content elem_size (\<lambda>l. retained) s c s1 c"
      by (rule compacted_lengths [OF assms(3,3) p1 refl refl refl]) (simp add: identity uniform)
    ultimately show ?thesis using p1 valid uniform by auto
  next
    case none
    show ?thesis
    proof (cases r1)
      case (Inl e)
      then show ?thesis using run sync none p1 by auto
    next
      case (Inr x)
      then have "t = s1 \<and> c' = rt_kv_reset c \<and> is_ok r" using run sync none by auto
      moreover have "cache_live elem_size (rt_kv_reset c) (live (gpu s))"
        unfolding rt_kv_reset_def using assms(3) by (intro cache_live_lengths) (auto simp: cache_live_def rt_kv_wf_def)
      then have "compacted live content elem_size (\<lambda>l. retained) s c s1 (rt_kv_reset c)"
        by (rule compacted_lengths [OF assms(3) _ p1]) (simp_all add: none(1) rt_kv_reset_def uniform)
      ultimately show ?thesis using valid uniform by auto
    qed
  next
    case some
    show ?thesis
    proof (cases "compaction_scratch_elements (kc_heads (rc_config c)) (length retained) (kc_head_dim (rc_config c))")
      case (Inl e)
      then show ?thesis using run some ok by (auto simp: preserves_def)
    next
      case (Inr m)
      then have run: "rebuild_and_swap drv elem_size handles c (replicate (kc_layers (rc_config c)) retained) s = (t, c', r)"
        using run [unfolded Inr sum.case] some by auto
      note S = swap_effect [OF assms(1-3) run]
      have "compacted live content elem_size (\<lambda>l. retained) s c t c'" if "is_ok r"
        using S that valid(1) uniform by (auto simp: compacted_def selected_rows_nth)
      then show ?thesis using S valid uniform by blast
    qed
  qed
qed

theorem compact_cache_refines_witness:
  "\<exists>t c' r. compact_kv_cache demo_gpu_driver 1 [] demo_compact_cache [1] demo_compact_rt = (t, c', r) \<and>
     (is_ok r \<longrightarrow> (\<forall>v. length (cache_rows (fst (gpu t)) 1 c' (side_buffer (rc_keys c') (rc_values c') v) 0 0) = 1)) \<and>
     (\<not> is_ok r \<longrightarrow> c' = demo_compact_cache)"
proof -
  obtain t c' r where run: "compact_kv_cache demo_gpu_driver 1 [] demo_compact_cache [1] demo_compact_rt = (t, c', r)"
    by (cases "compact_kv_cache demo_gpu_driver 1 [] demo_compact_cache [1] demo_compact_rt") auto
  note R = compact_cache_refines [OF demo_gpu_allocates demo_gpu_ordered demo_cache_live run]
  have "\<forall>v. length (cache_rows (fst (gpu t)) 1 c' (side_buffer (rc_keys c') (rc_values c') v) 0 0) = 1" if "is_ok r"
    using R that by (simp add: compacted_def demo_compact_cache_def)
  then show ?thesis using run R by blast
qed

end
