(* ===== verification/GpuPool.thy ===== *)
theory GpuPool
  imports DeviceMem
begin

text \<open>
  \<open>nnis-rt/src/pool.rs\<close>: the stream-ordered allocator and its buffers.  A \<open>pooled_buffer\<close> is the struct's
  pointer, length, pool, allocating stream and the streams granted access, in grant order; the mutex
  guards that list only and is not a part of the model.  Reference counts of streams are not modelled:
  a stream granted access outlives the buffer because the buffer holds it.

  The driver's promise is stated on a log of the calls it accepted (\<open>driver_logs\<close>), and the order in which
  the device may run them is the least relation \<open>runs_before\<close> on the log: the calls of one stream are in order,
  and what waits for an event comes after the latest record of that event.
\<close>

section \<open>The allocator\<close>

definition CU_MEMPOOL_ATTR_REUSE_FOLLOW_EVENT_DEPENDENCIES :: nat where
  "CU_MEMPOOL_ATTR_REUSE_FOLLOW_EVENT_DEPENDENCIES = 1"
definition CU_MEMPOOL_ATTR_REUSE_ALLOW_OPPORTUNISTIC :: nat where
  "CU_MEMPOOL_ATTR_REUSE_ALLOW_OPPORTUNISTIC = 2"
definition CU_MEMPOOL_ATTR_REUSE_ALLOW_INTERNAL_DEPENDENCIES :: nat where
  "CU_MEMPOOL_ATTR_REUSE_ALLOW_INTERNAL_DEPENDENCIES = 3"
definition CU_MEMPOOL_ATTR_RELEASE_THRESHOLD :: nat where
  "CU_MEMPOOL_ATTR_RELEASE_THRESHOLD = 4"

record pool_options =
  reuse_follow_event_dependencies :: bool
  reuse_allow_opportunistic :: bool
  reuse_allow_internal_dependencies :: bool

definition default_pool_options :: pool_options where
  "default_pool_options = \<lparr>reuse_follow_event_dependencies = True, reuse_allow_opportunistic = True,
     reuse_allow_internal_dependencies = True\<rparr>"

record stream_allocator =
  sa_pool :: nat
  sa_stream :: stream

definition pool_attributes :: "pool_options \<Rightarrow> (nat \<times> nat) list" where
  "pool_attributes opts =
     [(CU_MEMPOOL_ATTR_REUSE_FOLLOW_EVENT_DEPENDENCIES, of_bool (reuse_follow_event_dependencies opts)),
      (CU_MEMPOOL_ATTR_REUSE_ALLOW_OPPORTUNISTIC, of_bool (reuse_allow_opportunistic opts)),
      (CU_MEMPOOL_ATTR_REUSE_ALLOW_INTERNAL_DEPENDENCIES, of_bool (reuse_allow_internal_dependencies opts)),
      (CU_MEMPOOL_ATTR_RELEASE_THRESHOLD, u64_lim - 1)]"

text \<open>The ordinal is that of the device the stream's context was created on.\<close>

definition allocator_with_options ::
  "'s cuda \<Rightarrow> int \<Rightarrow> stream \<Rightarrow> pool_options \<Rightarrow> ('s, stream_allocator) rt_comp" where
  "allocator_with_options drv ordinal st opts =
     rt_bind (set_current drv (stream_ctx st)) (\<lambda>_.
     rt_bind (rt_lift (driver_api drv)) (\<lambda>_.
     rt_bind (drv_call_out ''cuMemPoolCreate'' (cu_mem_pool_create drv ordinal)) (\<lambda>pool.
     rt_bind (rt_for (\<lambda>(attribute, v). drv_call ''cuMemPoolSetAttribute'' (cu_mem_pool_set_attribute drv pool attribute v))
       (pool_attributes opts)) (\<lambda>_.
       rt_ok \<lparr>sa_pool = pool, sa_stream = st\<rparr>))))"

definition allocator_new :: "'s cuda \<Rightarrow> int \<Rightarrow> stream \<Rightarrow> ('s, stream_allocator) rt_comp" where
  "allocator_new drv ordinal st = allocator_with_options drv ordinal st default_pool_options"

section \<open>Pooled buffers\<close>

record pooled_buffer =
  pb_ptr :: nat
  pb_len :: nat
  pb_pool :: nat
  pb_stream :: stream
  pb_consumers :: "stream list"

definition pool_alloc :: "'s cuda \<Rightarrow> nat \<Rightarrow> stream_allocator \<Rightarrow> nat \<Rightarrow> ('s, pooled_buffer) rt_comp" where
  "pool_alloc drv elem_size a len =
     rt_bind (rt_lift (ok_or (invalid_lit ''pooled allocation size overflows usize'') (checked_mul len elem_size)))
       (\<lambda>bytes.
     rt_bind (set_current drv (stream_ctx (sa_stream a))) (\<lambda>_.
     rt_bind (rt_lift (driver_api drv)) (\<lambda>_.
     rt_bind
       (if bytes > 0 then
          (\<lambda>s. case drv_call_out ''cuMemAllocFromPoolAsync''
                  (cu_mem_alloc_from_pool_async drv bytes (sa_pool a) (stream_raw (sa_stream a))) s of
             (t, Inl e) \<Rightarrow> (t, Err (error_with (error_with e ''bytes'' bytes) ''len'' len))
           | (t, Inr ptr) \<Rightarrow> (t, Ok ptr))
        else rt_ok 0) (\<lambda>ptr.
       rt_ok \<lparr>pb_ptr = ptr, pb_len = len, pb_pool = sa_pool a, pb_stream = sa_stream a, pb_consumers = []\<rparr>))))"

definition pooled_size_bytes :: "nat \<Rightarrow> pooled_buffer \<Rightarrow> nat" where
  "pooled_size_bytes elem_size b = pb_len b * elem_size"

definition pooled_ctx :: "pooled_buffer \<Rightarrow> nat" where
  "pooled_ctx b = stream_ctx (pb_stream b)"

definition consumer_count :: "pooled_buffer \<Rightarrow> nat" where
  "consumer_count b = length (pb_consumers b)"

definition register_consumer :: "pooled_buffer \<Rightarrow> stream \<Rightarrow> pooled_buffer" where
  "register_consumer b st =
     (if list_ex (\<lambda>x. stream_raw x = stream_raw st) (pb_consumers b) then b
      else b\<lparr>pb_consumers := pb_consumers b @ [st]\<rparr>)"

text \<open>The event is dropped when \<open>share_with\<close> returns, on every path after its creation.\<close>

definition share_with :: "'s cuda \<Rightarrow> pooled_buffer \<Rightarrow> stream \<Rightarrow> 's rt \<Rightarrow> 's rt \<times> pooled_buffer \<times> (nnis_error + unit)" where
  "share_with drv b st s =
     (if pooled_ctx b \<noteq> stream_ctx st then
        (s, b, Err (invalid_lit ''pooled-buffer share target must live in the buffer's context''))
      else if stream_raw (pb_stream b) = stream_raw st then (s, b, Ok ())
      else
        (case event_new drv (pooled_ctx b) s of
           (t, Inl e) \<Rightarrow> (t, b, Err e)
         | (t, Inr produced) \<Rightarrow>
             (case rt_bind (event_record drv produced (pb_stream b)) (\<lambda>_. stream_wait_event drv st produced) t of
                (u, Inl e) \<Rightarrow> (event_drop drv produced u, b, Err e)
              | (u, Inr _) \<Rightarrow> (event_drop drv produced u, register_consumer b st, Ok ()))))"

definition ensure_stream_access :: "pooled_buffer \<Rightarrow> stream \<Rightarrow> nnis_error + unit" where
  "ensure_stream_access b st =
     (if pooled_ctx b \<noteq> stream_ctx st then Err (invalid_lit ''pooled buffer and stream must share one context'')
      else if stream_raw (pb_stream b) = stream_raw st then Ok ()
      else if list_ex (\<lambda>x. stream_raw x = stream_raw st) (pb_consumers b) then Ok ()
      else Err (invalid_lit ''pooled buffer stream access requires share_with() grant''))"

text \<open>The guarded call every access makes: check the grant, skip an empty buffer, enqueue on the stream.\<close>

definition pooled_access ::
  "'s cuda \<Rightarrow> nat \<Rightarrow> pooled_buffer \<Rightarrow> stream \<Rightarrow> 'a \<Rightarrow> ('s, 'a) rt_comp \<Rightarrow> ('s, 'a) rt_comp" where
  "pooled_access drv elem_size b st none call =
     rt_bind (rt_lift (ensure_stream_access b st)) (\<lambda>_.
       if pb_ptr b = 0 then rt_ok none
       else
         rt_bind (set_current drv (stream_ctx st)) (\<lambda>_.
         rt_bind (rt_lift (driver_api drv)) (\<lambda>_. with_bytes (pooled_size_bytes elem_size b) call)))"

definition pooled_zero_async :: "'s cuda \<Rightarrow> nat \<Rightarrow> pooled_buffer \<Rightarrow> stream \<Rightarrow> ('s, unit) rt_comp" where
  "pooled_zero_async drv elem_size b st =
     pooled_access drv elem_size b st () (drv_call ''cuMemsetD8Async''
       (cu_memset_d8_async drv (pb_ptr b) 0 (pooled_size_bytes elem_size b) (stream_raw st)))"

definition pooled_zero :: "'s cuda \<Rightarrow> nat \<Rightarrow> pooled_buffer \<Rightarrow> stream \<Rightarrow> ('s, unit) rt_comp" where
  "pooled_zero drv elem_size b st = then_synchronize drv (pb_ptr b \<noteq> 0) st (pooled_zero_async drv elem_size b st)"

definition pooled_length_error :: "nat \<Rightarrow> pooled_buffer \<Rightarrow> nnis_error" where
  "pooled_length_error n b =
     invalid_input (lit ''host slice length '' @ dec n @ lit '' does not match pooled buffer length '' @ dec (pb_len b))"

definition pooled_from_host_async ::
  "'s cuda \<Rightarrow> nat \<Rightarrow> pooled_buffer \<Rightarrow> stream \<Rightarrow> u8 list list \<Rightarrow> ('s, unit) rt_comp" where
  "pooled_from_host_async drv elem_size b st src =
     (if length src \<noteq> pb_len b then rt_lift (Err (pooled_length_error (length src) b))
      else pooled_access drv elem_size b st () (drv_call ''cuMemcpyHtoDAsync''
        (cu_memcpy_htod_async drv (pb_ptr b) (concat src) (stream_raw st))))"

definition pooled_from_host ::
  "'s cuda \<Rightarrow> nat \<Rightarrow> pooled_buffer \<Rightarrow> stream \<Rightarrow> u8 list list \<Rightarrow> ('s, unit) rt_comp" where
  "pooled_from_host drv elem_size b st src =
     then_synchronize drv (pb_ptr b \<noteq> 0) st (pooled_from_host_async drv elem_size b st src)"

definition pooled_to_host_async ::
  "'s cuda \<Rightarrow> nat \<Rightarrow> pooled_buffer \<Rightarrow> stream \<Rightarrow> nat \<Rightarrow> ('s, u8 list) rt_comp" where
  "pooled_to_host_async drv elem_size b st n =
     (if n \<noteq> pb_len b then rt_lift (Err (pooled_length_error n b))
      else pooled_access drv elem_size b st [] (drv_read ''cuMemcpyDtoHAsync''
        (cu_memcpy_dtoh_async drv (pb_ptr b) (pooled_size_bytes elem_size b) (stream_raw st))))"

definition pooled_to_host :: "'s cuda \<Rightarrow> nat \<Rightarrow> pooled_buffer \<Rightarrow> stream \<Rightarrow> nat \<Rightarrow> ('s, u8 list) rt_comp" where
  "pooled_to_host drv elem_size b st n =
     then_synchronize drv (pb_ptr b \<noteq> 0) st (pooled_to_host_async drv elem_size b st n)"

definition pooled_to_vec :: "'s cuda \<Rightarrow> nat \<Rightarrow> pooled_buffer \<Rightarrow> stream \<Rightarrow> ('s, u8 list) rt_comp" where
  "pooled_to_vec drv elem_size b st = pooled_to_host drv elem_size b st (pb_len b)"

section \<open>Dropping a pooled buffer\<close>

text \<open>Each consumer's event is created on its context, recorded on it and waited for by the allocating
  stream, as far as the driver accepts it, and dropped; then the free is enqueued.\<close>

definition await_consumer :: "'s cuda \<Rightarrow> stream \<Rightarrow> stream \<Rightarrow> 's rt \<Rightarrow> 's rt" where
  "await_consumer drv owner consumer s =
     (case event_new drv (stream_ctx consumer) s of
        (t, Inl _) \<Rightarrow> t
      | (t, Inr consumed) \<Rightarrow>
          (case event_record drv consumed consumer t of
             (u, Inl _) \<Rightarrow> event_drop drv consumed u
           | (u, Inr _) \<Rightarrow> event_drop drv consumed (fst (stream_wait_event drv owner consumed u))))"

definition pooled_drop :: "'s cuda \<Rightarrow> pooled_buffer \<Rightarrow> 's rt \<Rightarrow> 's rt" where
  "pooled_drop drv b s =
     (if pb_ptr b = 0 then s
      else drop_with drv (pooled_ctx b) (cu_mem_free_async drv (pb_ptr b) (stream_raw (pb_stream b)))
        (fold (await_consumer drv (pb_stream b)) (pb_consumers b) s))"

section \<open>The order of the accepted calls\<close>

datatype gpu_op =
    Work nat
  | Record_event nat nat
  | Wait_event nat nat
  | Free_async nat nat

text \<open>\<open>Record_event ev st\<close> and \<open>Wait_event st ev\<close> carry the event and the stream, \<open>Free_async ptr st\<close> the pointer.\<close>

fun op_stream :: "gpu_op \<Rightarrow> nat" where
  "op_stream (Work st) = st"
| "op_stream (Record_event ev st) = st"
| "op_stream (Wait_event st ev) = st"
| "op_stream (Free_async ptr st) = st"

inductive runs_before :: "gpu_op list \<Rightarrow> nat \<Rightarrow> nat \<Rightarrow> bool" for L where
  same_stream: "i < j \<Longrightarrow> j < length L \<Longrightarrow> op_stream (L ! i) = op_stream (L ! j) \<Longrightarrow> runs_before L i j"
| recorded: "i < j \<Longrightarrow> j < length L \<Longrightarrow> L ! i = Record_event ev st \<Longrightarrow> L ! j = Wait_event st' ev \<Longrightarrow>
    (\<And>k x. i < k \<Longrightarrow> k < j \<Longrightarrow> L ! k \<noteq> Record_event ev x) \<Longrightarrow> runs_before L i j"
| transitive: "runs_before L i j \<Longrightarrow> runs_before L j k \<Longrightarrow> runs_before L i k"

definition logs_as :: "('s \<Rightarrow> gpu_op list) \<Rightarrow> gpu_op list \<Rightarrow> 's \<Rightarrow> 's \<times> int \<Rightarrow> bool" where
  "logs_as log ops g out = (case out of (g', rc) \<Rightarrow> log g' = log g @ (if rc = 0 then ops else []))"

definition driver_logs :: "'s cuda \<Rightarrow> ('s \<Rightarrow> gpu_op list) \<Rightarrow> bool" where
  "driver_logs drv log \<longleftrightarrow>
     (\<forall>ctx g. log (fst (cu_ctx_set_current drv ctx g)) = log g) \<and>
     (\<forall>x g. log (fst (cu_stream_synchronize drv x g)) = log g) \<and>
     (\<forall>g. log (fst (cu_event_create drv g)) = log g) \<and>
     (\<forall>ev g. log (fst (cu_event_destroy drv ev g)) = log g) \<and>
     (\<forall>ev st g. logs_as log [Record_event ev st] g (cu_event_record drv ev st g)) \<and>
     (\<forall>st ev g. logs_as log [Wait_event st ev] g (cu_stream_wait_event drv st ev g)) \<and>
     (\<forall>p st g. logs_as log [Free_async p st] g (cu_mem_free_async drv p st g)) \<and>
     (\<forall>p v n st g. logs_as log [Work st] g (cu_memset_d8_async drv p v n st g)) \<and>
     (\<forall>p bs st g. logs_as log [Work st] g (cu_memcpy_htod_async drv p bs st g)) \<and>
     (\<forall>p n st g. case cu_memcpy_dtoh_async drv p n st g of
        (g', rc, bs) \<Rightarrow> logs_as log [Work st] g (g', rc))"

text \<open>The calls that one \<open>Drop\<close> makes are accepted, in the states it makes them in; it cannot report a failure.
  Nothing is asked of any other call.\<close>

fun consumers_awaited :: "'s cuda \<Rightarrow> stream \<Rightarrow> stream list \<Rightarrow> 's rt \<Rightarrow> bool" where
  "consumers_awaited drv owner [] s = True"
| "consumers_awaited drv owner (c # cs) s =
     (case event_new drv (stream_ctx c) s of
        (_, Inl _) \<Rightarrow> False
      | (t, Inr ev) \<Rightarrow>
          (case event_record drv ev c t of
             (u, recorded) \<Rightarrow> is_ok recorded \<and> is_ok (snd (stream_wait_event drv owner ev u))) \<and>
          consumers_awaited drv owner cs (await_consumer drv owner c s))"

definition drop_succeeds :: "'s cuda \<Rightarrow> pooled_buffer \<Rightarrow> 's rt \<Rightarrow> bool" where
  "drop_succeeds drv b s \<longleftrightarrow> consumers_awaited drv (pb_stream b) (pb_consumers b) s \<and>
     (case set_current drv (pooled_ctx b) (fold (await_consumer drv (pb_stream b)) (pb_consumers b) s) of
        (t, r) \<Rightarrow> is_ok r \<and> snd (cu_mem_free_async drv (pb_ptr b) (stream_raw (pb_stream b)) (gpu t)) = 0)"

lemma runs_before_less: "runs_before L i j \<Longrightarrow> i < j \<and> j < length L"
  by (induction rule: runs_before.induct) auto

lemma runs_before_append: "runs_before L i j \<Longrightarrow> runs_before (L @ M) i j"
proof (induction rule: runs_before.induct)
  case (same_stream i j)
  then show ?case by (intro runs_before.same_stream) (simp_all add: nth_append)
next
  case (recorded i j ev st st')
  then show ?case by (intro runs_before.recorded [of i j _ ev st st']) (auto simp: nth_append)
qed (rule runs_before.transitive)

text \<open>A record on one stream followed at once by a wait on another hands over everything before it.\<close>

lemma handed_over:
  assumes "i < length L" "op_stream (L ! i) = a" "length L + 2 \<le> j" "j < length (L @ [Record_event ev a, Wait_event b ev] @ M)"
    and "op_stream ((L @ [Record_event ev a, Wait_event b ev] @ M) ! j) = b"
  shows "runs_before (L @ [Record_event ev a, Wait_event b ev] @ M) i j"
proof -
  let ?L = "L @ [Record_event ev a, Wait_event b ev] @ M"
  have "runs_before ?L i (length L)"
    using assms(1,2) by (intro runs_before.same_stream) (simp_all add: nth_append)
  moreover have "runs_before ?L (length L) (Suc (length L))"
    by (rule runs_before.recorded [of _ _ _ ev a b]) (simp_all add: nth_append)
  moreover have "runs_before ?L (Suc (length L)) j"
    using assms(3-5) by (intro runs_before.same_stream) (simp_all add: nth_append)
  ultimately show ?thesis by (meson runs_before.transitive)
qed

section \<open>What the operations log\<close>

text \<open>A computation that logs \<open>ops\<close> exactly when it succeeds, and one whose entries are all on one stream.\<close>

definition rt_appends :: "('s \<Rightarrow> gpu_op list) \<Rightarrow> gpu_op list \<Rightarrow> ('s, 'a) rt_comp \<Rightarrow> bool" where
  "rt_appends log ops m \<longleftrightarrow> (\<forall>s t r. m s = (t, r) \<longrightarrow> log (gpu t) = log (gpu s) @ (if is_ok r then ops else []))"

definition logs_on :: "nat \<Rightarrow> ('s \<Rightarrow> gpu_op list) \<Rightarrow> 's rt \<Rightarrow> 's rt \<Rightarrow> bool" where
  "logs_on st log s t \<longleftrightarrow> (\<exists>ops. log (gpu t) = log (gpu s) @ ops \<and> (\<forall>x \<in> set ops. op_stream x = st))"

definition rt_on :: "nat \<Rightarrow> ('s \<Rightarrow> gpu_op list) \<Rightarrow> ('s, 'a) rt_comp \<Rightarrow> bool" where
  "rt_on st log m \<longleftrightarrow> (\<forall>s. logs_on st log s (fst (m s)))"

lemma logs_on_refl: "log (gpu t) = log (gpu s) \<Longrightarrow> logs_on st log s t"
  by (simp add: logs_on_def)

lemma logs_on_trans:
  assumes "logs_on st log s t" "logs_on st log t u"
  shows "logs_on st log s u"
proof -
  obtain a b where "log (gpu t) = log (gpu s) @ a" "log (gpu u) = log (gpu t) @ b"
      "\<forall>x \<in> set a. op_stream x = st" "\<forall>x \<in> set b. op_stream x = st"
    using assms by (auto simp: logs_on_def)
  then show ?thesis unfolding logs_on_def by (intro exI [of _ "a @ b"]) auto
qed

lemma rt_appends_call:
  assumes "\<And>g. logs_as log ops g (c g)"
  shows "rt_appends log ops (drv_call op c)"
  unfolding rt_appends_def
proof (intro allI impI)
  fix s t r assume run: "drv_call op c s = (t, r)"
  then show "log (gpu t) = log (gpu s) @ (if is_ok r then ops else [])"
    using assms [of "gpu s"] by (cases "c (gpu s)") (auto simp: drv_call_def logs_as_def)
qed

lemma rt_appends_read:
  assumes "\<And>g. case c g of (g', rc, bs) \<Rightarrow> logs_as log ops g (g', rc)"
  shows "rt_appends log ops (drv_read op c)"
  unfolding rt_appends_def
proof (intro allI impI)
  fix s t r assume run: "drv_read op c s = (t, r)"
  then show "log (gpu t) = log (gpu s) @ (if is_ok r then ops else [])"
    using assms [of "gpu s"] by (cases "c (gpu s)") (auto simp: drv_read_def logs_as_def split: prod.splits)
qed

lemma rt_appends_bind:
  assumes "rt_keeps log m" "\<And>a. rt_appends log ops (k a)"
  shows "rt_appends log ops (rt_bind m k)"
  unfolding rt_appends_def
proof (intro allI impI)
  fix s t r assume run: "rt_bind m k s = (t, r)"
  obtain u q where m: "m s = (u, q)" by fastforce
  have u: "log (gpu u) = log (gpu s)" using assms(1) m by (metis rt_keeps_def fst_conv)
  show "log (gpu t) = log (gpu s) @ (if is_ok r then ops else [])"
    using run m u assms(2) by (cases q) (auto simp: rt_bind_def rt_appends_def)
qed

lemma rt_appends_Err: "rt_appends log ops (rt_lift (Err e))"
  by (simp add: rt_appends_def)

lemma rt_on_appends: "rt_appends log ops m \<Longrightarrow> \<forall>x \<in> set ops. op_stream x = st \<Longrightarrow> rt_on st log m"
  unfolding rt_on_def logs_on_def rt_appends_def
proof
  fix s assume A: "\<forall>s t r. m s = (t, r) \<longrightarrow> log (gpu t) = log (gpu s) @ (if is_ok r then ops else [])" "\<forall>x \<in> set ops. op_stream x = st"
  obtain t r where "m s = (t, r)" by fastforce
  then show "\<exists>ops. log (gpu (fst (m s))) = log (gpu s) @ ops \<and> (\<forall>x \<in> set ops. op_stream x = st)"
    using A by (intro exI [of _ "if is_ok r then ops else []"]) simp
qed

lemma rt_on_keeps: "rt_keeps log m \<Longrightarrow> rt_on st log m"
  by (simp add: rt_on_def logs_on_def rt_keeps_def)

lemma rt_on_bind:
  assumes "rt_on st log m" "\<And>a. rt_on st log (k a)"
  shows "rt_on st log (rt_bind m k)"
  unfolding rt_on_def
proof
  fix s
  obtain u q where m: "m s = (u, q)" by fastforce
  then have "logs_on st log s u" using assms(1) by (metis rt_on_def fst_conv)
  then show "logs_on st log s (fst (rt_bind m k s))"
    using m assms(2) by (cases q) (auto simp: rt_bind_def rt_on_def intro: logs_on_trans)
qed

lemma rt_on_with_bytes: "rt_on st log m \<Longrightarrow> rt_on st log (with_bytes n m)"
  by (simp add: rt_on_def with_bytes_def split_beta)

lemma log_keeps:
  assumes "driver_logs drv log"
  shows "rt_keeps log (set_current drv ctx)" "rt_keeps log (event_new drv ctx)" "rt_keeps log (stream_synchronize drv st)"
    and "log (gpu (event_drop drv ev s)) = log (gpu s)"
proof -
  show current: "rt_keeps log (set_current drv ctx)" for ctx
    using assms unfolding set_current_def by (intro rt_keeps_bind rt_keeps_call) (simp_all add: driver_logs_def)
  show "rt_keeps log (event_new drv ctx)"
    using assms unfolding event_new_def by (intro rt_keeps_bind rt_keeps_call current) (simp_all add: driver_logs_def)
  show "rt_keeps log (stream_synchronize drv st)"
    using assms unfolding stream_synchronize_def
    by (intro rt_keeps_bind rt_keeps_call current) (simp_all add: driver_logs_def)
  have "log (fst (cu_event_destroy drv (event_raw ev) g)) = log g" for g
    using assms by (simp add: driver_logs_def)
  then show "log (gpu (event_drop drv ev s)) = log (gpu s)"
    using current [of "event_ctx ev"] by (auto simp: event_drop_def drop_with_def rt_keeps_def Let_def split: sum.splits)
qed

lemma event_ops_log:
  assumes "driver_logs drv log"
  shows "rt_appends log [Record_event (event_raw ev) (stream_raw st)] (event_record drv ev st)"
    and "rt_appends log [Wait_event (stream_raw st) (event_raw ev)] (stream_wait_event drv st ev)"
  using assms unfolding event_record_def stream_wait_event_def
  by (auto intro!: rt_appends_bind rt_appends_Err rt_appends_call log_keeps(1) [OF assms] simp del: rt_simps(2))
    (simp_all add: driver_logs_def)

lemma access_on:
  assumes "driver_logs drv log" "rt_on (stream_raw st) log call"
  shows "rt_on (stream_raw st) log (pooled_access drv elem_size b st none call)"
  unfolding pooled_access_def
  by (intro rt_on_bind rt_on_keeps [OF rt_keeps_simps(2)])
    (auto intro!: rt_on_bind rt_on_with_bytes rt_on_keeps [OF rt_keeps_simps(1)] rt_on_keeps [OF rt_keeps_simps(2)]
      rt_on_keeps [OF log_keeps(1) [OF assms(1)]] assms(2) simp del: rt_simps)

text \<open>The effect of \<open>share_with\<close> on the log, and what it grants.\<close>

lemma share_effect:
  assumes "driver_logs drv log" "share_with drv b st s = (t, b', r)"
  shows "(is_ok r \<and> stream_raw st = stream_raw (pb_stream b) \<and> stream_ctx st = pooled_ctx b \<and> t = s \<and> b' = b) \<or>
    (is_ok r \<and> stream_raw st \<noteq> stream_raw (pb_stream b) \<and> stream_ctx st = pooled_ctx b \<and> b' = register_consumer b st \<and>
       (\<exists>ev. log (gpu t) = log (gpu s) @ [Record_event ev (stream_raw (pb_stream b)), Wait_event (stream_raw st) ev])) \<or>
    (\<not> is_ok r \<and> b' = b \<and> logs_on (stream_raw (pb_stream b)) log s t)"
proof (cases "pooled_ctx b \<noteq> stream_ctx st \<or> stream_raw (pb_stream b) = stream_raw st")
  case True
  then show ?thesis using assms(2) by (auto simp: share_with_def logs_on_def split: if_splits)
next
  case False
  note run = assms(2) [unfolded share_with_def, simplified False, simplified]
  obtain u q where new: "event_new drv (pooled_ctx b) s = (u, q)" by fastforce
  have u: "log (gpu u) = log (gpu s)" using log_keeps(2) [OF assms(1)] new by (metis rt_keeps_def fst_conv)
  show ?thesis
  proof (cases q)
    case (Inl e)
    then have "t = u \<and> b' = b \<and> \<not> is_ok r" using run new False by auto
    then show ?thesis using u by (simp add: logs_on_def)
  next
    case (Inr ev)
    obtain v p where rec: "event_record drv ev (pb_stream b) u = (v, p)" by fastforce
    then have v: "log (gpu v) = log (gpu u) @ (if is_ok p then [Record_event (event_raw ev) (stream_raw (pb_stream b))] else [])"
      using event_ops_log(1) [OF assms(1)] by (simp add: rt_appends_def)
    obtain w o' where wait: "stream_wait_event drv st ev v = (w, o')" by fastforce
    then have w: "log (gpu w) = log (gpu v) @ (if is_ok o' then [Wait_event (stream_raw st) (event_raw ev)] else [])"
      using event_ops_log(2) [OF assms(1)] by (simp add: rt_appends_def)
    have drop: "log (gpu (event_drop drv ev x)) = log (gpu x)" for x by (rule log_keeps(4) [OF assms(1)])
    show ?thesis
    proof (cases "is_ok p \<and> is_ok o'")
      case True
      then have "t = event_drop drv ev w \<and> b' = register_consumer b st \<and> is_ok r"
        using run new Inr False rec wait by (auto simp: rt_bind_def is_ok_iff)
      then show ?thesis using False drop u v w True by auto
    next
      case fails: False
      then have "t = event_drop drv ev (if is_ok p then w else v) \<and> b' = b \<and> \<not> is_ok r"
        using run new Inr False rec wait by (cases p; cases o') (auto simp: rt_bind_def)
      then show ?thesis using drop u v w fails by (auto simp: logs_on_def)
    qed
  qed
qed

section \<open>A buffer's life\<close>

text \<open>The operations of the public interface between an allocation and the drop; each is also allowed to fail.\<close>

datatype pool_action =
    Share stream
  | Zero stream
  | From_host stream "u8 list list"
  | To_host stream nat

fun pool_step :: "'s cuda \<Rightarrow> nat \<Rightarrow> pool_action \<Rightarrow> 's rt \<times> pooled_buffer \<Rightarrow> 's rt \<times> pooled_buffer" where
  "pool_step drv elem_size (Share st) (s, b) = (case share_with drv b st s of (t, b', _) \<Rightarrow> (t, b'))"
| "pool_step drv elem_size (Zero st) (s, b) = (fst (pooled_zero drv elem_size b st s), b)"
| "pool_step drv elem_size (From_host st src) (s, b) = (fst (pooled_from_host drv elem_size b st src s), b)"
| "pool_step drv elem_size (To_host st n) (s, b) = (fst (pooled_to_host drv elem_size b st n s), b)"

definition pool_run :: "'s cuda \<Rightarrow> nat \<Rightarrow> pool_action list \<Rightarrow> 's rt \<times> pooled_buffer \<Rightarrow> 's rt \<times> pooled_buffer" where
  "pool_run drv elem_size = fold (pool_step drv elem_size)"

text \<open>Streams with access, and the invariant: all the buffer's work so far is on them.\<close>

definition granted :: "pooled_buffer \<Rightarrow> nat set" where
  "granted b = insert (stream_raw (pb_stream b)) (stream_raw ` set (pb_consumers b))"

definition pooled_wf :: "pooled_buffer \<Rightarrow> bool" where
  "pooled_wf b \<longleftrightarrow> (\<forall>x \<in> set (pb_consumers b). stream_ctx x = pooled_ctx b)"

definition life_ok :: "('s \<Rightarrow> gpu_op list) \<Rightarrow> gpu_op list \<Rightarrow> 's rt \<times> pooled_buffer \<Rightarrow> bool" where
  "life_ok log L = (\<lambda>(s, b). pooled_wf b \<and> (\<exists>ops. log (gpu s) = L @ ops \<and> op_stream ` set ops \<subseteq> granted b))"

lemma life_step:
  "life_ok log L (s, b) \<Longrightarrow> logs_on x log s t \<Longrightarrow> x \<in> granted b \<Longrightarrow> life_ok log L (t, b)"
proof -
  assume A: "life_ok log L (s, b)" "logs_on x log s t" "x \<in> granted b"
  obtain ops where "pooled_wf b" "log (gpu s) = L @ ops" "op_stream ` set ops \<subseteq> granted b"
    using A(1) by (auto simp: life_ok_def)
  moreover obtain more where "log (gpu t) = log (gpu s) @ more" "\<forall>y \<in> set more. op_stream y = x"
    using A(2) by (auto simp: logs_on_def)
  ultimately show ?thesis using A(3) unfolding life_ok_def by (auto intro!: exI [of _ "ops @ more"])
qed

lemma granted_register:
  "granted (register_consumer b st) = insert (stream_raw st) (granted b)"
proof (cases "list_ex (\<lambda>x. stream_raw x = stream_raw st) (pb_consumers b)")
  case True
  then have "stream_raw st \<in> stream_raw ` set (pb_consumers b)" unfolding list_ex_iff by (metis imageI)
  then show ?thesis using True by (simp add: granted_def register_consumer_def insert_absorb)
qed (auto simp: granted_def register_consumer_def)

lemma register_keeps [simp]:
  "pb_ptr (register_consumer b st) = pb_ptr b" "pb_len (register_consumer b st) = pb_len b"
  "pb_stream (register_consumer b st) = pb_stream b" "pooled_ctx (register_consumer b st) = pooled_ctx b"
  by (simp_all add: register_consumer_def pooled_ctx_def)

lemma access_denied:
  assumes "stream_raw st \<notin> granted b"
  shows "\<exists>e. ensure_stream_access b st = Err e"
  using assms by (auto simp: ensure_stream_access_def granted_def list_ex_iff image_iff)

lemma access_life:
  assumes "driver_logs drv log" "rt_on (stream_raw st) log call" "life_ok log L (s, b)"
  shows "life_ok log L (fst (then_synchronize drv needed st (pooled_access drv elem_size b st none call) s), b)"
proof (cases "stream_raw st \<in> granted b")
  case True
  have "rt_on (stream_raw st) log (then_synchronize drv needed st (pooled_access drv elem_size b st none call))"
    unfolding then_synchronize_def
    by (intro rt_on_bind access_on assms(1,2))
      (auto intro!: rt_on_bind rt_on_keeps [OF log_keeps(3) [OF assms(1)]] rt_on_keeps [OF rt_keeps_simps(1)] simp del: rt_simps)
  then show ?thesis using life_step [OF assms(3) _ True] by (simp add: rt_on_def)
next
  case False
  then show ?thesis using access_denied [OF False] assms(3)
    by (auto simp: then_synchronize_def pooled_access_def rt_bind_def)
qed

lemma share_life:
  assumes "driver_logs drv log" "life_ok log L (s, b)" "share_with drv b st s = (t, b', r)"
  shows "life_ok log L (t, b')"
  using share_effect [OF assms(1,3)]
proof (elim disjE conjE exE)
  assume "t = s" "b' = b"
  then show ?thesis using assms(2) by simp
next
  assume "b' = b" "logs_on (stream_raw (pb_stream b)) log s t"
  then show ?thesis using life_step [OF assms(2)] by (simp add: granted_def)
next
  fix ev
  assume b': "b' = register_consumer b st" and ctx: "stream_ctx st = pooled_ctx b"
    and log: "log (gpu t) = log (gpu s) @ [Record_event ev (stream_raw (pb_stream b)), Wait_event (stream_raw st) ev]"
  obtain ops where ops: "pooled_wf b" "log (gpu s) = L @ ops" "op_stream ` set ops \<subseteq> granted b"
    using assms(2) by (auto simp: life_ok_def)
  have wf: "pooled_wf b'"
    using ops(1) ctx by (auto simp: b' pooled_wf_def register_consumer_def pooled_ctx_def)
  have log': "log (gpu t) = L @ (ops @ [Record_event ev (stream_raw (pb_stream b)), Wait_event (stream_raw st) ev])"
    using log ops(2) by simp
  have "op_stream ` set (ops @ [Record_event ev (stream_raw (pb_stream b)), Wait_event (stream_raw st) ev]) \<subseteq> granted b'"
    using ops(3) by (auto simp: b' granted_register) (auto simp: granted_def)
  then show ?thesis unfolding life_ok_def using wf log' by blast
qed

lemma pool_step_life:
  assumes D: "driver_logs drv log" and "life_ok log L sb"
  shows "life_ok log L (pool_step drv elem_size act sb)"
proof (cases sb)
  case (Pair s b)
  note life = assms(2) [unfolded Pair]
  note call_on = rt_on_appends [OF rt_appends_call] rt_on_appends [OF rt_appends_read]
  show ?thesis
  proof (cases act)
    case (Share st)
    then show ?thesis
      using share_life [OF D life] by (cases "share_with drv b st s") (simp add: Pair)
  next
    case (Zero st)
    have "rt_on (stream_raw st) log (drv_call ''cuMemsetD8Async'' (cu_memset_d8_async drv (pb_ptr b) 0 n (stream_raw st)))" for n
      by (rule call_on(1) [where ops = "[Work (stream_raw st)]"]) (use D in \<open>simp_all add: driver_logs_def\<close>)
    then show ?thesis
      by (simp add: Zero Pair pooled_zero_def pooled_zero_async_def access_life [OF D _ life])
  next
    case (From_host st src)
    have "rt_on (stream_raw st) log (drv_call ''cuMemcpyHtoDAsync'' (cu_memcpy_htod_async drv (pb_ptr b) (concat src) (stream_raw st)))"
      by (rule call_on(1) [where ops = "[Work (stream_raw st)]"]) (use D in \<open>simp_all add: driver_logs_def\<close>)
    then show ?thesis using life
      by (simp add: From_host Pair pooled_from_host_def pooled_from_host_async_def access_life [OF D _ life])
        (simp add: then_synchronize_def rt_bind_def)
  next
    case (To_host st n)
    have "rt_on (stream_raw st) log (drv_read ''cuMemcpyDtoHAsync''
        (cu_memcpy_dtoh_async drv (pb_ptr b) (pooled_size_bytes elem_size b) (stream_raw st)))"
      by (rule call_on(2) [where ops = "[Work (stream_raw st)]"]) (use D in \<open>simp_all add: driver_logs_def split_beta\<close>)
    then show ?thesis using life
      by (simp add: To_host Pair pooled_to_host_def pooled_to_host_async_def access_life [OF D _ life])
        (simp add: then_synchronize_def rt_bind_def)
  qed
qed

lemma pool_run_life:
  assumes "driver_logs drv log" "life_ok log L sb"
  shows "life_ok log L (pool_run drv elem_size acts sb)"
  using assms(2) unfolding pool_run_def
  by (induction acts arbitrary: sb) (simp_all add: pool_step_life [OF assms(1)])

lemma pool_step_ptr:
  "pb_ptr (snd (pool_step drv elem_size act (s, b))) = pb_ptr b \<and> pb_stream (snd (pool_step drv elem_size act (s, b))) = pb_stream b"
  by (cases act) (auto simp: share_with_def split: prod.splits sum.splits if_splits)

lemma pool_run_ptr:
  "pb_ptr (snd (pool_run drv elem_size acts sb)) = pb_ptr (snd sb) \<and> pb_stream (snd (pool_run drv elem_size acts sb)) = pb_stream (snd sb)"
  unfolding pool_run_def
  by (induction acts arbitrary: sb) (simp_all, metis pool_step_ptr prod.collapse)

section \<open>The drop\<close>

lemma await_consumer_logs:
  assumes D: "driver_logs drv log" and A: "consumers_awaited drv owner (c # cs) s"
  shows "\<exists>ev. log (gpu (await_consumer drv owner c s)) = log (gpu s) @ [Record_event ev (stream_raw c), Wait_event (stream_raw owner) ev]"
    and "consumers_awaited drv owner cs (await_consumer drv owner c s)"
proof -
  obtain t ev where new: "event_new drv (stream_ctx c) s = (t, Ok ev)"
    using A by (cases "event_new drv (stream_ctx c) s") (auto split: sum.splits)
  obtain u q where rec0: "event_record drv ev c t = (u, q)" by fastforce
  obtain v p where wait0: "stream_wait_event drv owner ev u = (v, p)" by fastforce
  have ok: "q = Ok ()" "p = Ok ()" using A new rec0 wait0 by (auto simp: is_ok_iff)
  note rec = rec0 [unfolded ok(1)] and wait = wait0 [unfolded ok(2)]
  show "consumers_awaited drv owner cs (await_consumer drv owner c s)" using A new by simp
  have "log (gpu t) = log (gpu s)" using log_keeps(2) [OF D] new by (metis rt_keeps_def fst_conv)
  moreover have "log (gpu u) = log (gpu t) @ [Record_event (event_raw ev) (stream_raw c)]"
    using event_ops_log(1) [OF D] rec by (fastforce simp: rt_appends_def)
  moreover have "log (gpu v) = log (gpu u) @ [Wait_event (stream_raw owner) (event_raw ev)]"
    using event_ops_log(2) [OF D] wait by (fastforce simp: rt_appends_def)
  ultimately show "\<exists>ev. log (gpu (await_consumer drv owner c s)) = log (gpu s) @ [Record_event ev (stream_raw c), Wait_event (stream_raw owner) ev]"
    using new rec wait log_keeps(4) [OF D] by (auto simp: await_consumer_def)
qed

lemma await_all_logs:
  assumes D: "driver_logs drv log"
  shows "consumers_awaited drv owner cs s \<Longrightarrow>
    (\<exists>M. log (gpu (fold (await_consumer drv owner) cs s)) = log (gpu s) @ M) \<and>
    (\<forall>c \<in> set cs. \<exists>K ev M. log (gpu (fold (await_consumer drv owner) cs s)) =
       (log (gpu s) @ K) @ [Record_event ev (stream_raw c), Wait_event (stream_raw owner) ev] @ M)"
proof (induction cs arbitrary: s)
  case (Cons c cs)
  let ?s = "await_consumer drv owner c s"
  note A = await_consumer_logs [OF D Cons.prems]
  obtain ev where ev: "log (gpu ?s) = log (gpu s) @ [Record_event ev (stream_raw c), Wait_event (stream_raw owner) ev]"
    using A(1) by blast
  note IH = Cons.IH [OF A(2)]
  obtain M where M: "log (gpu (fold (await_consumer drv owner) cs ?s)) = log (gpu ?s) @ M" using IH by blast
  have "\<exists>K ev M. log (gpu (fold (await_consumer drv owner) (c # cs) s)) =
      (log (gpu s) @ K) @ [Record_event ev (stream_raw d), Wait_event (stream_raw owner) ev] @ M" if d: "d \<in> set (c # cs)" for d
  proof (cases "d \<in> set cs")
    case True
    then obtain K ev' N where "log (gpu (fold (await_consumer drv owner) cs ?s)) =
        (log (gpu ?s) @ K) @ [Record_event ev' (stream_raw d), Wait_event (stream_raw owner) ev'] @ N" using IH by blast
    then show ?thesis using ev
      by (intro exI [of _ "[Record_event ev (stream_raw c), Wait_event (stream_raw owner) ev] @ K"] exI [of _ ev'] exI [of _ N]) simp
  next
    case False
    then have "d = c" using d by simp
    then show ?thesis using ev M by (intro exI [of _ "[]"] exI [of _ ev] exI [of _ M]) simp
  qed
  then show ?case using M ev by auto
qed simp

lemma pooled_drop_logs:
  assumes D: "driver_logs drv log" and A: "drop_succeeds drv b s" and "pb_ptr b \<noteq> 0"
  shows "\<exists>M. log (gpu (pooled_drop drv b s)) = log (gpu s) @ M @ [Free_async (pb_ptr b) (stream_raw (pb_stream b))] \<and>
    (\<forall>i < length (log (gpu s)). op_stream (log (gpu s) ! i) \<in> granted b \<longrightarrow>
       runs_before (log (gpu (pooled_drop drv b s))) i (length (log (gpu s) @ M)))"
proof -
  let ?own = "stream_raw (pb_stream b)"
  let ?u = "fold (await_consumer drv (pb_stream b)) (pb_consumers b) s"
  have awaited: "consumers_awaited drv (pb_stream b) (pb_consumers b) s" using A by (simp add: drop_succeeds_def)
  note logs = await_all_logs [OF D awaited]
  obtain M where M: "log (gpu ?u) = log (gpu s) @ M" using logs by blast
  obtain v where v: "set_current drv (pooled_ctx b) ?u = (v, Ok ())"
    and free: "snd (cu_mem_free_async drv (pb_ptr b) ?own (gpu v)) = 0"
    using A by (auto simp: drop_succeeds_def is_ok_iff split: prod.splits)
  have api: "driver_api drv = Ok ()" using v by (cases "driver_api drv") (simp_all add: set_current_def rt_bind_def)
  have logv: "log (gpu v) = log (gpu ?u)" using log_keeps(1) [OF D] v by (metis rt_keeps_def fst_conv)
  have "logs_as log [Free_async (pb_ptr b) ?own] (gpu v) (cu_mem_free_async drv (pb_ptr b) ?own (gpu v))"
    using D by (simp add: driver_logs_def)
  then have final: "log (gpu (pooled_drop drv b s)) = log (gpu s) @ M @ [Free_async (pb_ptr b) ?own]"
    using free assms(3) api v logv M by (auto simp: pooled_drop_def drop_with_def logs_as_def Let_def split: prod.splits)
  have "runs_before (log (gpu (pooled_drop drv b s))) i (length (log (gpu s) @ M))"
    if i: "i < length (log (gpu s))" "op_stream (log (gpu s) ! i) \<in> granted b" for i
  proof (cases "op_stream (log (gpu s) ! i) = ?own")
    case True
    then show ?thesis unfolding final using i(1) by (intro runs_before.same_stream) (simp_all add: nth_append)
  next
    case False
    then obtain c where c: "c \<in> set (pb_consumers b)" "op_stream (log (gpu s) ! i) = stream_raw c"
      using i(2) by (auto simp: granted_def)
    then obtain K ev N where u: "log (gpu ?u) = (log (gpu s) @ K) @ [Record_event ev (stream_raw c), Wait_event ?own ev] @ N"
      using logs by blast
    have eq: "log (gpu (pooled_drop drv b s)) = (log (gpu s) @ K) @ [Record_event ev (stream_raw c), Wait_event ?own ev] @ (N @ [Free_async (pb_ptr b) ?own])"
      using final M u by simp
    have len: "length (log (gpu s) @ M) = length (log (gpu s) @ K) + 2 + length N"
      using arg_cong [OF u, of length] M by simp
    show ?thesis unfolding eq
      by (rule handed_over) (use i(1) c(2) len in \<open>simp_all add: nth_append\<close>)
  qed
  then show ?thesis using final by blast
qed

text \<open>A driver that logs what it accepts and counts its handles; it accepts everything but a wait of stream 9.\<close>

type_synonym demo_log = "gpu_op list \<times> nat"

definition demo_pool_driver :: "demo_log cuda" where
  "demo_pool_driver = \<lparr>cu_api = Ok (), cu_ctx_set_current = (\<lambda>_ g. (g, 0)), cu_mem_alloc = (\<lambda>_ g. (g, (2, 0))),
     cu_memcpy_async = (\<lambda>_ _ _ _ g. (g, 801)),
     cu_stream_synchronize = (\<lambda>_ g. (g, 0)), cu_stream_wait_event = (\<lambda>st ev (l, n). if st = 9 then ((l, n), 700) else ((l @ [Wait_event st ev], n), 0)),
     cu_event_create = (\<lambda>(l, n). ((l, Suc n), (0, n))), cu_event_record = (\<lambda>ev st (l, n). ((l @ [Record_event ev st], n), 0)),
     cu_event_synchronize = (\<lambda>_ g. (g, 0)), cu_mem_free = (\<lambda>_ g. (g, 801)),
     cu_memset_d8_async = (\<lambda>_ _ _ st (l, n). ((l @ [Work st], n), 0)), cu_memset_d32_async = (\<lambda>_ _ _ _ g. (g, 801)),
     cu_memcpy_htod_async = (\<lambda>_ _ st (l, n). ((l @ [Work st], n), 0)),
     cu_memcpy_dtoh_async = (\<lambda>_ k st (l, n). ((l @ [Work st], n), (0, replicate k 0))),
     cu_stream_create = (\<lambda>_ g. (g, (0, 2))), cu_stream_query = (\<lambda>_ g. (g, 0)), cu_stream_destroy = (\<lambda>_ g. (g, 0)),
     cu_event_query = (\<lambda>_ g. (g, 0)), cu_event_elapsed_time = (\<lambda>_ _ g. (g, (0, 0))), cu_event_destroy = (\<lambda>_ g. (g, 0)),
     cu_mem_pool_create = (\<lambda>_ g. (g, (0, 1))), cu_mem_pool_set_attribute = (\<lambda>_ _ _ g. (g, 0)),
     cu_mem_alloc_from_pool_async = (\<lambda>k _ st (l, n). ((l @ [Work st], n), (0, 256))),
     cu_mem_free_async = (\<lambda>p st (l, n). ((l @ [Free_async p st], n), 0))\<rparr>"

lemma demo_pool_logs: "driver_logs demo_pool_driver fst"
  by (simp add: driver_logs_def logs_as_def demo_pool_driver_def split_beta)

definition demo_allocator :: stream_allocator where
  "demo_allocator = \<lparr>sa_pool = 1, sa_stream = \<lparr>stream_raw = 5, stream_ctx = 7\<rparr>\<rparr>"

definition demo_consumer :: stream where
  "demo_consumer = \<lparr>stream_raw = 6, stream_ctx = 7\<rparr>"

text \<open>A stream the driver refuses to make wait.\<close>

definition demo_refused :: stream where
  "demo_refused = \<lparr>stream_raw = 9, stream_ctx = 7\<rparr>"

definition demo_pooled :: pooled_buffer where
  "demo_pooled = \<lparr>pb_ptr = 256, pb_len = 2, pb_pool = 1, pb_stream = \<lparr>stream_raw = 5, stream_ctx = 7\<rparr>, pb_consumers = []\<rparr>"

lemmas pool_eval = pool_alloc_def pool_run_def share_with_def pooled_zero_def pooled_zero_async_def pooled_access_def
  ensure_stream_access_def then_synchronize_def with_bytes_def rt_bind_def drv_call_def drv_call_out_def set_current_def
  driver_api_def stream_synchronize_def event_new_def event_record_def stream_wait_event_def event_drop_def drop_with_def
  register_consumer_def pooled_ctx_def pooled_size_bytes_def checked_mul_def Let_def

lemma demo_pool_alloc:
  "pool_alloc demo_pool_driver 4 demo_allocator 2 \<lparr>gpu = ([], 0), forgotten = []\<rparr> =
     (\<lparr>gpu = ([Work 5], 0), forgotten = []\<rparr>, Ok demo_pooled)"
  by (simp add: pool_eval demo_pool_driver_def demo_allocator_def demo_pooled_def u64_lim_def)

section \<open>Properties\<close>

text \<open>C5. A pooled buffer is freed only after every use of it.  Whatever is done with a fresh buffer
  through its interface on any streams, with whichever of those calls failing, when the driver accepts the calls
  that this drop makes, the free is the last entry of the log, on the allocating stream, and everything
  enqueued on behalf of the buffer since its allocation, on the allocating stream and on every stream it was
  shared with, runs before it.\<close>

theorem pool_free_after_every_use:
  assumes "driver_logs drv log"
    and "pool_alloc drv elem_size a len s0 = (s, Ok b)" "pb_ptr b \<noteq> 0"
    and "pool_run drv elem_size actions (s, b) = (t, b')" "drop_succeeds drv b' t"
  shows "\<exists>end_pos. length (log (gpu (pooled_drop drv b' t))) = Suc end_pos \<and> length (log (gpu t)) \<le> end_pos \<and>
    log (gpu (pooled_drop drv b' t)) ! end_pos = Free_async (pb_ptr b) (stream_raw (sa_stream a)) \<and>
    (\<forall>i. length (log (gpu s)) \<le> i \<and> i < length (log (gpu t)) \<longrightarrow> runs_before (log (gpu (pooled_drop drv b' t))) i end_pos)"
proof -
  have fresh: "pb_consumers b = [] \<and> pb_stream b = sa_stream a"
    using assms(2) by (auto simp: pool_alloc_def rt_bind_def split: prod.splits sum.splits if_splits)
  then have "life_ok log (log (gpu s)) (s, b)" by (auto simp: life_ok_def pooled_wf_def)
  then have life: "life_ok log (log (gpu s)) (t, b')" using pool_run_life [OF assms(1)] assms(4) by metis
  have same: "pb_ptr b' = pb_ptr b" "pb_stream b' = sa_stream a"
    using pool_run_ptr [of drv elem_size actions "(s, b)"] assms(4) fresh by simp_all
  obtain ops where ops: "pooled_wf b'" "log (gpu t) = log (gpu s) @ ops" "op_stream ` set ops \<subseteq> granted b'"
    using life by (auto simp: life_ok_def)
  obtain M where M: "log (gpu (pooled_drop drv b' t)) = log (gpu t) @ M @ [Free_async (pb_ptr b') (stream_raw (pb_stream b'))]"
    "\<forall>i < length (log (gpu t)). op_stream (log (gpu t) ! i) \<in> granted b' \<longrightarrow>
       runs_before (log (gpu (pooled_drop drv b' t))) i (length (log (gpu t) @ M))"
    using pooled_drop_logs [OF assms(1,5)] assms(3) same(1) by auto
  have "op_stream (log (gpu t) ! i) \<in> granted b'" if "length (log (gpu s)) \<le> i" "i < length (log (gpu t))" for i
    using that ops(2,3) by (auto simp: nth_append)
  then show ?thesis using M same by (intro exI [of _ "length (log (gpu t) @ M)"]) (auto simp: nth_append)
qed

theorem pool_free_after_every_use_witness:
  "\<exists>t b'. pool_run demo_pool_driver 4 [Zero (sa_stream demo_allocator), Share demo_refused, Share demo_consumer, Zero demo_consumer]
       (\<lparr>gpu = ([Work 5], 0), forgotten = []\<rparr>, demo_pooled) = (t, b') \<and>
     \<not> is_ok (snd (snd (share_with demo_pool_driver demo_pooled demo_refused \<lparr>gpu = ([Work 5, Work 5], 0), forgotten = []\<rparr>))) \<and>
     (\<exists>end_pos. fst (gpu (pooled_drop demo_pool_driver b' t)) ! end_pos = Free_async 256 5 \<and>
       (\<forall>i. 1 \<le> i \<and> i < length (fst (gpu t)) \<longrightarrow> runs_before (fst (gpu (pooled_drop demo_pool_driver b' t))) i end_pos))"
proof -
  let ?acts = "[Zero (sa_stream demo_allocator), Share demo_refused, Share demo_consumer, Zero demo_consumer]"
  obtain t b' where run: "pool_run demo_pool_driver 4 ?acts (\<lparr>gpu = ([Work 5], 0), forgotten = []\<rparr>, demo_pooled) = (t, b')"
    by fastforce
  have "pb_consumers b' = [demo_consumer] \<and> pb_stream b' = \<lparr>stream_raw = 5, stream_ctx = 7\<rparr>"
    using run by (auto simp: pool_eval demo_pool_driver_def demo_pooled_def demo_consumer_def demo_refused_def demo_allocator_def)
  then have accepted: "drop_succeeds demo_pool_driver b' t"
    by (simp add: drop_succeeds_def await_consumer_def pool_eval demo_pool_driver_def demo_consumer_def split_beta)
  have refused: "\<not> is_ok (snd (snd (share_with demo_pool_driver demo_pooled demo_refused \<lparr>gpu = ([Work 5, Work 5], 0), forgotten = []\<rparr>)))"
    by (simp add: pool_eval demo_pool_driver_def demo_pooled_def demo_refused_def)
  have "pb_ptr demo_pooled \<noteq> 0" by (simp add: demo_pooled_def)
  from pool_free_after_every_use [OF demo_pool_logs demo_pool_alloc this run accepted]
  show ?thesis using run refused by (auto simp: demo_pooled_def demo_allocator_def)
qed

text \<open>A successful \<open>share_with\<close> hands the buffer over.  When it returns \<open>Ok\<close> for another stream of the
  context, that stream may use the buffer, and whatever is enqueued on it from then on runs after everything
  the allocating stream had been given before the call; when it fails, nothing is granted.\<close>

theorem share_with_orders_consumer:
  assumes "driver_logs drv log" "share_with drv b st s = (t, b', r)"
  shows "(is_ok r \<longrightarrow> ensure_stream_access b' st = Ok ()) \<and>
    (is_ok r \<and> stream_raw st \<noteq> stream_raw (pb_stream b) \<longrightarrow>
       (\<forall>later i j. i < length (log (gpu s)) \<and> op_stream (log (gpu s) ! i) = stream_raw (pb_stream b) \<and>
          length (log (gpu t)) \<le> j \<and> j < length (log (gpu t) @ later) \<and> op_stream ((log (gpu t) @ later) ! j) = stream_raw st \<longrightarrow>
          runs_before (log (gpu t) @ later) i j)) \<and>
    (\<not> is_ok r \<longrightarrow> b' = b)"
  using share_effect [OF assms]
proof (elim disjE conjE exE)
  assume "is_ok r" "stream_raw st = stream_raw (pb_stream b)" "stream_ctx st = pooled_ctx b" "t = s" "b' = b"
  then show ?thesis by (simp add: ensure_stream_access_def)
next
  assume "\<not> is_ok r" "b' = b"
  then show ?thesis by simp
next
  fix ev
  assume A: "is_ok r" "stream_raw st \<noteq> stream_raw (pb_stream b)" "stream_ctx st = pooled_ctx b" "b' = register_consumer b st"
    and log: "log (gpu t) = log (gpu s) @ [Record_event ev (stream_raw (pb_stream b)), Wait_event (stream_raw st) ev]"
  have "ensure_stream_access b' st = Ok ()"
    using A(3) unfolding A(4)
    by (cases "list_ex (\<lambda>x. stream_raw x = stream_raw st) (pb_consumers b)")
      (simp_all add: ensure_stream_access_def register_consumer_def pooled_ctx_def)
  moreover have "runs_before (log (gpu t) @ later) i j"
    if "i < length (log (gpu s))" "op_stream (log (gpu s) ! i) = stream_raw (pb_stream b)"
      "length (log (gpu t)) \<le> j" "j < length (log (gpu t) @ later)" "op_stream ((log (gpu t) @ later) ! j) = stream_raw st" for later i j
    using handed_over [OF that(1,2), of j ev "stream_raw st" later] that(3-5) log by simp
  ultimately show ?thesis using A(1) by blast
qed

theorem share_with_orders_consumer_witness:
  "\<exists>t b'. share_with demo_pool_driver demo_pooled demo_consumer \<lparr>gpu = ([Work 5], 0), forgotten = []\<rparr> = (t, b', Ok ()) \<and>
     ensure_stream_access b' demo_consumer = Ok () \<and> runs_before (fst (gpu t) @ [Work 6]) 0 3"
proof -
  obtain t b' where run: "share_with demo_pool_driver demo_pooled demo_consumer \<lparr>gpu = ([Work 5], 0), forgotten = []\<rparr> = (t, b', Ok ())"
    and t: "fst (gpu t) = [Work 5, Record_event 0 5, Wait_event 6 0]"
    by (simp add: pool_eval demo_pool_driver_def demo_pooled_def demo_consumer_def)
  note R = share_with_orders_consumer [OF demo_pool_logs run]
  have "runs_before (fst (gpu t) @ [Work 6]) 0 3"
    using conjunct1 [OF conjunct2 [OF R], rule_format, of 0 3 "[Work 6]"] t by (simp add: demo_pooled_def demo_consumer_def)
  then show ?thesis using run R by (auto simp: demo_pooled_def demo_consumer_def pooled_ctx_def)
qed

end
