(* ===== verification/ModelConfig.thy ===== *)
theory ModelConfig
  imports ErrorText
begin

text \<open>
  \<open>nnis-model/src/config.rs\<close>: the shape of a decoder and the generation envelope, with their checks.  The
  lemmas say what an accepted configuration guarantees to the runtime: whole heads, whole query groups,
  an even rotary dimension and table sizes that do not overflow.
\<close>

datatype weight_dtype = W_F32 | W_Bf16

datatype activation = Silu

record model_config =
  mc_vocab_size :: nat
  mc_eos_token_id :: "nat option"
  mc_hidden_size :: nat
  mc_intermediate_size :: nat
  mc_num_hidden_layers :: nat
  mc_num_attention_heads :: nat
  mc_num_key_value_heads :: nat
  mc_max_position_embeddings :: nat
  mc_rms_norm_eps :: f32
  mc_rope_theta :: f32
  mc_activation :: activation
  mc_weight_dtype :: weight_dtype

definition mc_head_dim :: "model_config \<Rightarrow> nat" where
  "mc_head_dim c = mc_hidden_size c div mc_num_attention_heads c"

definition config_sizes :: "model_config \<Rightarrow> (string \<times> nat) list" where
  "config_sizes c =
     [(''vocab_size'', mc_vocab_size c), (''hidden_size'', mc_hidden_size c),
      (''intermediate_size'', mc_intermediate_size c), (''num_hidden_layers'', mc_num_hidden_layers c),
      (''num_attention_heads'', mc_num_attention_heads c), (''num_key_value_heads'', mc_num_key_value_heads c),
      (''max_position_embeddings'', mc_max_position_embeddings c)]"

definition require_size :: "string \<times> nat \<Rightarrow> nnis_error + unit" where
  "require_size = (\<lambda>(name, n).
     if n = 0 then Err (invalid_input (lit ''model config '' @ lit name @ lit '' must be non-zero'')) else Ok ())"

definition eos_in_vocab :: "string \<Rightarrow> nat option \<Rightarrow> nat \<Rightarrow> nnis_error + unit" where
  "eos_in_vocab what eos vocab =
     (case eos of
        Some e \<Rightarrow>
          if e \<ge> vocab then
            Err (invalid_input (lit what @ dec e @ lit '' is out of range for vocabulary '' @ dec vocab))
          else Ok ()
      | None \<Rightarrow> Ok ())"

definition finite_positive :: "f32 \<Rightarrow> bool" where
  "finite_positive x \<longleftrightarrow> f32_is_finite x \<and> \<not> f32_le x f32_zero"

definition config_validate :: "model_config \<Rightarrow> nnis_error + unit" where
  "config_validate c =
     and_then (check_all require_size (config_sizes c)) (\<lambda>_.
     and_then (eos_in_vocab ''eos_token_id '' (mc_eos_token_id c) (mc_vocab_size c)) (\<lambda>_.
       if mc_hidden_size c mod mc_num_attention_heads c \<noteq> 0 then
         Err (invalid_input (lit ''hidden_size '' @ dec (mc_hidden_size c) @
           lit '' is not divisible by num_attention_heads '' @ dec (mc_num_attention_heads c)))
       else if mc_num_attention_heads c mod mc_num_key_value_heads c \<noteq> 0 then
         Err (invalid_input (lit ''num_attention_heads '' @ dec (mc_num_attention_heads c) @
           lit '' is not divisible by num_key_value_heads '' @ dec (mc_num_key_value_heads c)))
       else if mc_head_dim c mod 2 \<noteq> 0 then
         Err (invalid_input (lit ''rotary head dimension must be even; got '' @ dec (mc_head_dim c)))
       else if \<not> finite_positive (mc_rms_norm_eps c) then
         Err (invalid_input (lit ''rms_norm_eps must be finite and positive; got '' @
           f32_display (mc_rms_norm_eps c)))
       else if \<not> finite_positive (mc_rope_theta c) then
         Err (invalid_input (lit ''rope_theta must be finite and positive; got '' @ f32_display (mc_rope_theta c)))
       else
         and_then (ok_or (invalid_input (lit ''embedding shape overflows usize''))
             (checked_mul (mc_vocab_size c) (mc_hidden_size c))) (\<lambda>_.
         and_then (ok_or (invalid_input (lit ''RoPE cache shape overflows usize''))
             (checked_mul (mc_max_position_embeddings c) (mc_head_dim c))) (\<lambda>_. Ok ()))))"

definition key_value_width :: "model_config \<Rightarrow> nnis_error + nat" where
  "key_value_width c =
     ok_or (invalid_input (lit ''key/value width overflows usize''))
       (checked_mul (mc_num_key_value_heads c) (mc_head_dim c))"

definition validate_execution_support :: "model_config \<Rightarrow> nnis_error + unit" where
  "validate_execution_support c =
     and_then (config_validate c) (\<lambda>_.
       if mc_activation c \<noteq> Silu then
         Err (unsupported_lit ''decoder runtime currently supports only SiLU/SwiGLU MLPs'')
       else Ok ())"

record generation_config =
  gc_max_new_tokens :: nat
  gc_eos_token_id :: "nat option"

definition generation_fixed :: "nat \<Rightarrow> generation_config" where
  "generation_fixed n = \<lparr>gc_max_new_tokens = n, gc_eos_token_id = None\<rparr>"

definition generation_until_eos :: "nat \<Rightarrow> nat \<Rightarrow> generation_config" where
  "generation_until_eos n eos = \<lparr>gc_max_new_tokens = n, gc_eos_token_id = Some eos\<rparr>"

definition generation_validate :: "generation_config \<Rightarrow> nat \<Rightarrow> nnis_error + unit" where
  "generation_validate g vocab = eos_in_vocab ''generation eos_token_id '' (gc_eos_token_id g) vocab"

section \<open>What an accepted configuration guarantees\<close>

lemma eos_in_vocab_Ok [simp]:
  "eos_in_vocab what eos vocab = Ok u \<longleftrightarrow> (\<forall>e. eos = Some e \<longrightarrow> e < vocab)"
  by (auto simp: eos_in_vocab_def split: option.splits)

lemma config_validate_Ok:
  assumes "config_validate c = Ok u"
  shows "0 < mc_vocab_size c" "0 < mc_hidden_size c" "0 < mc_intermediate_size c" "0 < mc_num_hidden_layers c"
    "0 < mc_num_attention_heads c" "0 < mc_num_key_value_heads c" "0 < mc_max_position_embeddings c"
    "mc_hidden_size c = mc_num_attention_heads c * mc_head_dim c"
    "mc_num_key_value_heads c dvd mc_num_attention_heads c" "even (mc_head_dim c)"
    "mc_vocab_size c * mc_hidden_size c < u64_lim" "mc_max_position_embeddings c * mc_head_dim c < u64_lim"
    "\<And>e. mc_eos_token_id c = Some e \<Longrightarrow> e < mc_vocab_size c"
proof -
  have V: "(\<forall>x \<in> set (config_sizes c). require_size x = Ok ()) \<and>
      (\<forall>e. mc_eos_token_id c = Some e \<longrightarrow> e < mc_vocab_size c) \<and>
      mc_hidden_size c mod mc_num_attention_heads c = 0 \<and>
      mc_num_attention_heads c mod mc_num_key_value_heads c = 0 \<and> mc_head_dim c mod 2 = 0 \<and>
      mc_vocab_size c * mc_hidden_size c < u64_lim \<and> mc_max_position_embeddings c * mc_head_dim c < u64_lim"
    using assms unfolding config_validate_def by (simp split: if_split_asm) (elim conjE disjE, simp_all)
  then show "0 < mc_vocab_size c" "0 < mc_hidden_size c" "0 < mc_intermediate_size c" "0 < mc_num_hidden_layers c"
    "0 < mc_num_attention_heads c" "0 < mc_num_key_value_heads c" "0 < mc_max_position_embeddings c"
    by (simp_all add: config_sizes_def require_size_def split: if_split_asm)
  show "mc_hidden_size c = mc_num_attention_heads c * mc_head_dim c"
    using V unfolding mc_head_dim_def by (metis dvd_mult_div_cancel mod_eq_0_iff_dvd)
  show "mc_num_key_value_heads c dvd mc_num_attention_heads c" using V by (simp add: mod_eq_0_iff_dvd)
  show "even (mc_head_dim c)" using V by (simp add: even_iff_mod_2_eq_zero)
  show "mc_vocab_size c * mc_hidden_size c < u64_lim" "mc_max_position_embeddings c * mc_head_dim c < u64_lim"
    "\<And>e. mc_eos_token_id c = Some e \<Longrightarrow> e < mc_vocab_size c" using V by simp_all
qed

lemma config_validate_head_dim:
  assumes "config_validate c = Ok u"
  shows "0 < mc_head_dim c" "key_value_width c = Ok (mc_num_key_value_heads c * mc_head_dim c)"
    "mc_num_key_value_heads c * mc_head_dim c \<le> mc_hidden_size c"
proof -
  note V = config_validate_Ok [OF assms]
  show "0 < mc_head_dim c" using V(2,8) by (cases "mc_head_dim c = 0") auto
  have "mc_num_key_value_heads c \<le> mc_num_attention_heads c" using V(5,9) by (simp add: dvd_imp_le)
  then show le: "mc_num_key_value_heads c * mc_head_dim c \<le> mc_hidden_size c" using V(8) by simp
  have "mc_hidden_size c \<le> mc_vocab_size c * mc_hidden_size c" using V(1) by simp
  then have "mc_num_key_value_heads c * mc_head_dim c < u64_lim" using le V(11) by linarith
  then show "key_value_width c = Ok (mc_num_key_value_heads c * mc_head_dim c)"
    by (simp add: key_value_width_def)
qed

end
