(* ===== verification/ExecTransition.thy ===== *)
theory ExecTransition
  imports ModelConfig
begin

text \<open>
  \<open>nnis-model/src/f16_reference_execution_plan.rs\<close> (with the numeric plan of
  \<open>f16_reference_runtime.rs\<close>) and \<open>execution_transition.rs\<close>: the one-shot coordinator that replaces a
  resident F16 model by one rebuilt for another plan.  The runtime it drives is a trait, here the record
  \<open>rebuild_runtime\<close> of its methods on an abstract state.  The theorems run the coordinator on any runtime
  and look at the calls it makes: their order, what precedes a commit, and that every failure after
  admission ends in a rollback.
\<close>

section \<open>Plans\<close>

datatype f16_storage = S_F16
datatype f16_accumulator = A_F32
datatype f16_logits = L_F32

record f16_plan =
  fp_schema_version :: nat
  fp_weight_storage :: f16_storage
  fp_activation_storage :: f16_storage
  fp_kv_storage :: f16_storage
  fp_projection_accumulator :: f16_accumulator
  fp_attention_accumulator :: f16_accumulator
  fp_logits_storage :: f16_logits

definition F16_REFERENCE_PLAN_VERSION :: nat where "F16_REFERENCE_PLAN_VERSION = 1"

definition edge_llm_alignment :: f16_plan where
  "edge_llm_alignment =
     \<lparr>fp_schema_version = F16_REFERENCE_PLAN_VERSION, fp_weight_storage = S_F16, fp_activation_storage = S_F16,
      fp_kv_storage = S_F16, fp_projection_accumulator = A_F32, fp_attention_accumulator = A_F32,
      fp_logits_storage = L_F32\<rparr>"

definition f16_plan_validate :: "f16_plan \<Rightarrow> model_config \<Rightarrow> nnis_error + unit" where
  "f16_plan_validate p c =
     (if fp_schema_version p \<noteq> F16_REFERENCE_PLAN_VERSION then
        Err (unsupported (lit ''unsupported F16 reference-plan schema '' @ dec (fp_schema_version p) @
          lit ''; expected '' @ dec F16_REFERENCE_PLAN_VERSION))
      else
        and_then (validate_execution_support c) (\<lambda>_.
          if mc_weight_dtype c \<noteq> W_F32 then
            Err (unsupported_lit (''F16 reference runtime requires the model-format-v1 F32 base graph '' @
              ''before explicit resident narrowing''))
          else Ok ()))"

datatype projection_layout =
    KnReference
  | NkTransposedCandidate
  | NkTransposedFusedGroupsCandidate
  | NkTransposedFusedMlpCandidate

record f16_exec_plan =
  ep_schema_version :: nat
  ep_numeric :: f16_plan
  ep_projection_layout :: projection_layout

definition F16_REFERENCE_EXECUTION_PLAN_VERSION :: nat where "F16_REFERENCE_EXECUTION_PLAN_VERSION = 1"

definition exec_plan_with :: "f16_plan \<Rightarrow> projection_layout \<Rightarrow> f16_exec_plan" where
  "exec_plan_with numeric layout =
     \<lparr>ep_schema_version = F16_REFERENCE_EXECUTION_PLAN_VERSION, ep_numeric = numeric, ep_projection_layout = layout\<rparr>"

definition exec_plan_reference :: "f16_plan \<Rightarrow> f16_exec_plan" where
  "exec_plan_reference numeric = exec_plan_with numeric KnReference"

definition transposed_projection_candidate :: f16_exec_plan where
  "transposed_projection_candidate = exec_plan_with edge_llm_alignment NkTransposedCandidate"

definition transposed_fused_groups_candidate :: f16_exec_plan where
  "transposed_fused_groups_candidate = exec_plan_with edge_llm_alignment NkTransposedFusedGroupsCandidate"

definition transposed_fused_mlp_candidate :: f16_exec_plan where
  "transposed_fused_mlp_candidate = exec_plan_with edge_llm_alignment NkTransposedFusedMlpCandidate"

definition exec_plan_validate :: "f16_exec_plan \<Rightarrow> model_config \<Rightarrow> nnis_error + unit" where
  "exec_plan_validate p c =
     (if ep_schema_version p \<noteq> F16_REFERENCE_EXECUTION_PLAN_VERSION then
        Err (unsupported (lit ''unsupported F16 reference execution-plan schema '' @ dec (ep_schema_version p) @
          lit ''; expected '' @ dec F16_REFERENCE_EXECUTION_PLAN_VERSION))
      else f16_plan_validate (ep_numeric p) c)"

text \<open>The literals \<open>1.0e-5\<close> and \<open>100_000.0\<close> as \<open>f32\<close>; comparing with them is comparing bits.\<close>

definition smollm2_geometry :: "model_config \<Rightarrow> bool" where
  "smollm2_geometry c \<longleftrightarrow>
     mc_vocab_size c = 49152 \<and> mc_eos_token_id c = Some 0 \<and> mc_hidden_size c = 576 \<and>
     mc_intermediate_size c = 1536 \<and> mc_num_hidden_layers c = 30 \<and> mc_num_attention_heads c = 9 \<and>
     mc_num_key_value_heads c = 3 \<and> mc_max_position_embeddings c = 8192 \<and>
     mc_rms_norm_eps c = 0x3727C5AC \<and> mc_rope_theta c = 0x47C35000 \<and> mc_activation c = Silu"

definition validate_min_latency_domain :: "f16_exec_plan \<Rightarrow> model_config \<Rightarrow> nnis_error + unit" where
  "validate_min_latency_domain p c =
     and_then (exec_plan_validate p c) (\<lambda>_.
       if p \<noteq> transposed_fused_mlp_candidate then
         Err (unsupported_lit ''SmolLM2 F16 min-latency qualification requires the fused-MLP execution layout'')
       else if \<not> smollm2_geometry c then
         Err (unsupported_lit (''qualified F16 min-latency plan is restricted to the pinned SmolLM2-135M '' @
           ''model geometry''))
       else Ok ())"

record device_props =
  dp_name :: rstr
  dp_compute_capability :: "int \<times> int"
  dp_multiprocessor_count :: nat

definition thor_min_latency :: "model_config \<Rightarrow> device_props \<Rightarrow> nnis_error + f16_exec_plan" where
  "thor_min_latency c props =
     (let plan = transposed_fused_mlp_candidate in
      and_then (validate_min_latency_domain plan c) (\<lambda>_.
        if dp_name props \<noteq> lit ''NVIDIA Thor'' \<or> dp_compute_capability props \<noteq> (11, 0) \<or>
           dp_multiprocessor_count props \<noteq> 20 then
          Err (unsupported (lit ''qualified SmolLM2 F16 min-latency plan requires NVIDIA Thor cc 11.0 with 20 SMs; observed '' @
            dp_name props @ lit '' cc '' @ dec_int (fst (dp_compute_capability props)) @ lit ''.'' @
            dec_int (snd (dp_compute_capability props)) @ lit '' with '' @ dec (dp_multiprocessor_count props) @
            lit '' SMs''))
        else Ok plan))"

section \<open>Transition requirements and memory budget\<close>

definition TRANSITION_REQUIREMENTS_VERSION :: nat where "TRANSITION_REQUIREMENTS_VERSION = 1"
definition REBUILD_TRANSITION_VERSION :: nat where "REBUILD_TRANSITION_VERSION = 1"

datatype transition_mode = ModelRebuildRequired

record transition_requirements =
  tq_schema_version :: nat
  tq_transition_mode :: transition_mode
  tq_source_weights_required :: bool
  tq_active_sessions_preserved :: bool
  tq_kv_state_preserved :: bool
  tq_live_transition_authorized :: bool

definition model_rebuild_required :: transition_requirements where
  "model_rebuild_required =
     \<lparr>tq_schema_version = TRANSITION_REQUIREMENTS_VERSION, tq_transition_mode = ModelRebuildRequired,
      tq_source_weights_required = True, tq_active_sessions_preserved = False, tq_kv_state_preserved = False,
      tq_live_transition_authorized = False\<rparr>"

definition requirements_validate :: "transition_requirements \<Rightarrow> nnis_error + unit" where
  "requirements_validate q =
     (if tq_schema_version q \<noteq> TRANSITION_REQUIREMENTS_VERSION then
        Err (unsupported (lit ''unsupported F16 execution-transition requirements schema '' @
          dec (tq_schema_version q) @ lit ''; expected '' @ dec TRANSITION_REQUIREMENTS_VERSION))
      else
        (case tq_transition_mode q of
           ModelRebuildRequired \<Rightarrow>
             if \<not> tq_source_weights_required q \<or> tq_active_sessions_preserved q \<or> tq_kv_state_preserved q \<or>
                tq_live_transition_authorized q then
               Err (invalid_input (lit (''schema-v1 F16 model-rebuild transition requirements must require source '' @
                 ''weights, invalidate sessions/KV state, and forbid live in-place transition'')))
             else Ok ()))"

definition plan_transition_requirements :: "f16_exec_plan \<Rightarrow> transition_requirements" where
  "plan_transition_requirements _ = model_rebuild_required"

record memory_budget =
  mb_schema_version :: nat
  mb_source_resident :: nat
  mb_target_peak :: nat
  mb_transition_budget :: nat

definition required_double_resident :: "memory_budget \<Rightarrow> nnis_error + nat" where
  "required_double_resident b =
     ok_or (invalid_input (lit ''F16 rebuild double-residency byte accounting overflowed u64''))
       (checked_add (mb_source_resident b) (mb_target_peak b))"

definition budget_headroom :: "memory_budget \<Rightarrow> nnis_error + nat" where
  "budget_headroom b =
     and_then (required_double_resident b) (\<lambda>required.
       ok_or (invalid_input (lit ''F16 rebuild requires '' @ dec required @
           lit '' owned bytes while the source remains resident, exceeding transition budget '' @
           dec (mb_transition_budget b)))
         (checked_sub (mb_transition_budget b) required))"

definition budget_validate :: "memory_budget \<Rightarrow> nnis_error + unit" where
  "budget_validate b =
     (if mb_schema_version b \<noteq> REBUILD_TRANSITION_VERSION then
        Err (unsupported (lit ''unsupported F16 rebuild memory-budget schema '' @ dec (mb_schema_version b) @
          lit ''; expected '' @ dec REBUILD_TRANSITION_VERSION))
      else if mb_source_resident b = 0 \<or> mb_target_peak b = 0 then
        Err (invalid_input (lit (''F16 rebuild memory admission requires non-zero source-resident and '' @
          ''target-peak owned bytes'')))
      else and_then (budget_headroom b) (\<lambda>_. Ok ()))"

definition budget_new :: "nat \<Rightarrow> nat \<Rightarrow> nat \<Rightarrow> nnis_error + memory_budget" where
  "budget_new src target limit =
     (let budget = \<lparr>mb_schema_version = REBUILD_TRANSITION_VERSION, mb_source_resident = src,
                    mb_target_peak = target, mb_transition_budget = limit\<rparr>
      in and_then (budget_validate budget) (\<lambda>_. Ok budget))"

section \<open>The rebuild transaction\<close>

datatype rebuild_phase =
    Prepared | Quiescing | Rebuilding | Verifying | InvalidatingSessionState
  | Committing | Committed | RollingBack | RolledBack

record ('r, 'c) rebuild_runtime =
  rr_begin_quiescence :: "'r \<Rightarrow> 'r \<times> (nnis_error + unit)"
  rr_active_session_count :: "'r \<Rightarrow> nat"
  rr_source_weights_available :: "'r \<Rightarrow> bool"
  rr_rebuild_candidate :: "f16_exec_plan \<Rightarrow> 'r \<Rightarrow> 'r \<times> (nnis_error + 'c)"
  rr_verify_candidate :: "'c \<Rightarrow> 'r \<Rightarrow> 'r \<times> (nnis_error + unit)"
  rr_invalidate_sessions :: "'r \<Rightarrow> 'r \<times> (nnis_error + unit)"
  rr_commit_candidate :: "'c \<Rightarrow> 'r \<Rightarrow> 'r \<times> (nnis_error + unit)"
  rr_rollback_to_source :: "'r \<Rightarrow> 'r \<times> (nnis_error + unit)"

record rebuild_receipt =
  re_schema_version :: nat
  re_source_plan :: f16_exec_plan
  re_target_plan :: f16_exec_plan
  re_required_double_resident :: nat
  re_budget_headroom :: nat
  re_source_retained_until_commit :: bool
  re_sessions_invalidated :: bool
  re_kv_state_reset :: bool
  re_candidate_verified :: bool
  re_committed :: bool
  re_live_transition_claimed :: bool

definition receipt_validate :: "rebuild_receipt \<Rightarrow> nnis_error + unit" where
  "receipt_validate r =
     (if re_schema_version r \<noteq> REBUILD_TRANSITION_VERSION then
        Err (unsupported (lit ''unsupported F16 rebuild receipt schema '' @ dec (re_schema_version r) @
          lit ''; expected '' @ dec REBUILD_TRANSITION_VERSION))
      else if re_source_plan r = re_target_plan r \<or> \<not> re_source_retained_until_commit r \<or>
              \<not> re_sessions_invalidated r \<or> \<not> re_kv_state_reset r \<or> \<not> re_candidate_verified r \<or>
              \<not> re_committed r \<or> re_live_transition_claimed r then
        Err (invalid_input (lit (''F16 rebuild receipt violates the verified rebuild, state-reset, or '' @
          ''no-hot-switch contract'')))
      else Ok ())"

record rebuild_transition =
  tr_schema_version :: nat
  tr_source_plan :: f16_exec_plan
  tr_target_plan :: f16_exec_plan
  tr_memory_budget :: memory_budget
  tr_phase :: rebuild_phase

definition validate_preconditions :: "rebuild_transition \<Rightarrow> nnis_error + unit" where
  "validate_preconditions t =
     (if tr_schema_version t \<noteq> REBUILD_TRANSITION_VERSION then
        Err (unsupported (lit ''unsupported F16 rebuild transaction schema '' @ dec (tr_schema_version t) @
          lit ''; expected '' @ dec REBUILD_TRANSITION_VERSION))
      else if tr_phase t \<noteq> Prepared then
        Err (invalid_input (lit ''F16 rebuild transaction must be in prepared state''))
      else if ep_schema_version (tr_source_plan t) \<noteq> F16_REFERENCE_EXECUTION_PLAN_VERSION \<or>
              ep_schema_version (tr_target_plan t) \<noteq> F16_REFERENCE_EXECUTION_PLAN_VERSION then
        Err (unsupported_lit ''F16 rebuild requires supported source and target execution-plan schemas'')
      else if tr_source_plan t = tr_target_plan t then
        Err (invalid_input (lit ''F16 rebuild source and target execution plans must differ''))
      else
        and_then (requirements_validate (plan_transition_requirements (tr_target_plan t))) (\<lambda>_.
          budget_validate (tr_memory_budget t)))"

definition transition_new ::
  "f16_exec_plan \<Rightarrow> f16_exec_plan \<Rightarrow> memory_budget \<Rightarrow> nnis_error + rebuild_transition" where
  "transition_new src target budget =
     (let transaction = \<lparr>tr_schema_version = REBUILD_TRANSITION_VERSION, tr_source_plan = src,
                         tr_target_plan = target, tr_memory_budget = budget, tr_phase = Prepared\<rparr>
      in and_then (validate_preconditions transaction) (\<lambda>_. Ok transaction))"

definition transition_rollback ::
  "status_texts \<Rightarrow> ('r, 'c) rebuild_runtime \<Rightarrow> rebuild_transition \<Rightarrow> 'r \<Rightarrow> nnis_error \<Rightarrow>
   rebuild_transition \<times> 'r \<times> (nnis_error + rebuild_receipt)" where
  "transition_rollback tx rt t r primary =
     (case rr_rollback_to_source rt r of
        (r', rollback) \<Rightarrow>
          (t\<lparr>tr_phase := RolledBack\<rparr>, r',
           case rollback of
             Inr _ \<Rightarrow> Err primary
           | Inl rollback_error \<Rightarrow>
               Err (invalid_input (lit ''F16 rebuild failed ('' @ display_nnis_error tx primary @
                 lit ''); rollback also failed ('' @ display_nnis_error tx rollback_error @ lit '')''))))"

definition transition_receipt :: "rebuild_transition \<Rightarrow> nnis_error + rebuild_receipt" where
  "transition_receipt t =
     and_then (required_double_resident (tr_memory_budget t)) (\<lambda>required.
     and_then (budget_headroom (tr_memory_budget t)) (\<lambda>headroom.
       let receipt = \<lparr>re_schema_version = REBUILD_TRANSITION_VERSION, re_source_plan = tr_source_plan t,
             re_target_plan = tr_target_plan t, re_required_double_resident = required,
             re_budget_headroom = headroom, re_source_retained_until_commit = True,
             re_sessions_invalidated = True, re_kv_state_reset = True, re_candidate_verified = True,
             re_committed = True, re_live_transition_claimed = False\<rparr>
       in and_then (receipt_validate receipt) (\<lambda>_. Ok receipt)))"

text \<open>The coordinator.  A dropped candidate has no effect on the runtime.\<close>

definition transition_commit ::
  "status_texts \<Rightarrow> ('r, 'c) rebuild_runtime \<Rightarrow> rebuild_transition \<Rightarrow> 'r \<Rightarrow> 'c \<Rightarrow>
   rebuild_transition \<times> 'r \<times> (nnis_error + rebuild_receipt)" where
  "transition_commit tx rt t r candidate =
     (case rr_verify_candidate rt candidate r of
        (r, Inl e) \<Rightarrow> transition_rollback tx rt (t\<lparr>tr_phase := Verifying\<rparr>) r e
      | (r, Inr _) \<Rightarrow>
     (case rr_invalidate_sessions rt r of
        (r, Inl e) \<Rightarrow> transition_rollback tx rt (t\<lparr>tr_phase := InvalidatingSessionState\<rparr>) r e
      | (r, Inr _) \<Rightarrow>
     (case rr_commit_candidate rt candidate r of
        (r, Inl e) \<Rightarrow> transition_rollback tx rt (t\<lparr>tr_phase := Committing\<rparr>) r e
      | (r, Inr _) \<Rightarrow>
          (let t = t\<lparr>tr_phase := Committed\<rparr> in (t, r, transition_receipt t)))))"

definition transition_execute ::
  "status_texts \<Rightarrow> ('r, 'c) rebuild_runtime \<Rightarrow> rebuild_transition \<Rightarrow> 'r \<Rightarrow>
   rebuild_transition \<times> 'r \<times> (nnis_error + rebuild_receipt)" where
  "transition_execute tx rt t r =
     (case validate_preconditions t of
        Inl e \<Rightarrow> (t, r, Err e)
      | Inr _ \<Rightarrow>
     (case rr_begin_quiescence rt r of
        (r, Inl e) \<Rightarrow> transition_rollback tx rt (t\<lparr>tr_phase := Quiescing\<rparr>) r e
      | (r, Inr _) \<Rightarrow>
          if rr_active_session_count rt r \<noteq> 0 then
            transition_rollback tx rt (t\<lparr>tr_phase := Quiescing\<rparr>) r
              (invalid_input (lit ''F16 rebuild quiescence left '' @ dec (rr_active_session_count rt r) @
                lit '' active sessions''))
          else if \<not> rr_source_weights_available rt r then
            transition_rollback tx rt (t\<lparr>tr_phase := Quiescing\<rparr>) r
              (invalid_input (lit ''F16 rebuild requires source weights after quiescence''))
          else
            (case rr_rebuild_candidate rt (tr_target_plan t) r of
               (r, Inl e) \<Rightarrow> transition_rollback tx rt (t\<lparr>tr_phase := Rebuilding\<rparr>) r e
             | (r, Inr candidate) \<Rightarrow> transition_commit tx rt (t\<lparr>tr_phase := Verifying\<rparr>) r candidate)))"

section \<open>The calls a transaction makes\<close>

text \<open>\<open>logged rt\<close> is the runtime \<open>rt\<close> that also records each mutating call and whether it succeeded.\<close>

datatype 'c rebuild_call =
    CallQuiesce bool
  | CallRebuild f16_exec_plan "'c option"
  | CallVerify 'c bool
  | CallInvalidate bool
  | CallCommit 'c bool
  | CallRollback bool

definition log_call ::
  "('a \<Rightarrow> 'c rebuild_call) \<Rightarrow> ('r \<Rightarrow> 'r \<times> 'a) \<Rightarrow> 'r \<times> 'c rebuild_call list \<Rightarrow> ('r \<times> 'c rebuild_call list) \<times> 'a" where
  "log_call f m = (\<lambda>(r, calls). case m r of (r', a) \<Rightarrow> ((r', calls @ [f a]), a))"

definition to_option :: "'e + 'a \<Rightarrow> 'a option" where
  "to_option m = (case m of Inl _ \<Rightarrow> None | Inr a \<Rightarrow> Some a)"

definition logged :: "('r, 'c) rebuild_runtime \<Rightarrow> ('r \<times> 'c rebuild_call list, 'c) rebuild_runtime" where
  "logged rt =
     \<lparr>rr_begin_quiescence = log_call (CallQuiesce \<circ> is_ok) (rr_begin_quiescence rt),
      rr_active_session_count = rr_active_session_count rt \<circ> fst,
      rr_source_weights_available = rr_source_weights_available rt \<circ> fst,
      rr_rebuild_candidate = (\<lambda>p. log_call (CallRebuild p \<circ> to_option) (rr_rebuild_candidate rt p)),
      rr_verify_candidate = (\<lambda>c. log_call (CallVerify c \<circ> is_ok) (rr_verify_candidate rt c)),
      rr_invalidate_sessions = log_call (CallInvalidate \<circ> is_ok) (rr_invalidate_sessions rt),
      rr_commit_candidate = (\<lambda>c. log_call (CallCommit c \<circ> is_ok) (rr_commit_candidate rt c)),
      rr_rollback_to_source = log_call (CallRollback \<circ> is_ok) (rr_rollback_to_source rt)\<rparr>"

definition full_sequence :: "f16_exec_plan \<Rightarrow> 'c \<Rightarrow> 'c rebuild_call list" where
  "full_sequence p c = [CallQuiesce True, CallRebuild p (Some c), CallVerify c True, CallInvalidate True, CallCommit c True]"

definition failed_call :: "f16_exec_plan \<Rightarrow> 'c \<Rightarrow> nat \<Rightarrow> 'c rebuild_call" where
  "failed_call p c k =
     [CallQuiesce False, CallRebuild p None, CallVerify c False, CallInvalidate False, CallCommit c False] ! k"

text \<open>A quiescence that succeeds but leaves active sessions, or after which the source weights are gone.\<close>

definition left_unsettled :: "('r, 'c) rebuild_runtime \<Rightarrow> 'r \<Rightarrow> bool" where
  "left_unsettled rt r \<longleftrightarrow>
     (case rr_begin_quiescence rt r of
        (_, Inl _) \<Rightarrow> False
      | (r1, Inr _) \<Rightarrow> rr_active_session_count rt r1 \<noteq> 0 \<or> \<not> rr_source_weights_available rt r1)"

text \<open>The sequence up to one failing call, then a rollback.\<close>

definition failed_sequence :: "f16_exec_plan \<Rightarrow> 'c rebuild_call list \<Rightarrow> bool" where
  "failed_sequence p calls \<longleftrightarrow>
     (\<exists>k < 5. \<exists>c back. calls = take k (full_sequence p c) @ [failed_call p c k, CallRollback back])"

lemma failed_sequenceI:
  "k < 5 \<Longrightarrow> calls = take k (full_sequence p c) @ [failed_call p c k, CallRollback back] \<Longrightarrow> failed_sequence p calls"
  by (auto simp: failed_sequence_def)

lemma preconditions_Ok:
  assumes "validate_preconditions t = Ok u"
  shows "tr_phase t = Prepared" "tr_source_plan t \<noteq> tr_target_plan t" "budget_validate (tr_memory_budget t) = Ok ()"
  using assms by (auto simp: validate_preconditions_def split: if_splits)

lemma budget_validate_Ok:
  assumes "budget_validate b = Ok u"
  shows "required_double_resident b = Ok (mb_source_resident b + mb_target_peak b)"
    "budget_headroom b = Ok (mb_transition_budget b - (mb_source_resident b + mb_target_peak b))"
    "mb_source_resident b + mb_target_peak b \<le> mb_transition_budget b"
  using assms by (auto simp: budget_validate_def budget_headroom_def required_double_resident_def split: if_splits)

lemma transition_receipt_Ok:
  assumes "budget_validate (tr_memory_budget t) = Ok u" "tr_source_plan t \<noteq> tr_target_plan t"
  shows "\<exists>receipt. transition_receipt t = Ok receipt \<and> re_source_plan receipt = tr_source_plan t \<and>
    re_target_plan receipt = tr_target_plan t \<and>
    re_required_double_resident receipt = mb_source_resident (tr_memory_budget t) + mb_target_peak (tr_memory_budget t) \<and>
    re_required_double_resident receipt + re_budget_headroom receipt = mb_transition_budget (tr_memory_budget t)"
  using budget_validate_Ok [OF assms(1)] assms(2)
  by (simp add: transition_receipt_def receipt_validate_def Let_def)

lemma rollback_result:
  "transition_rollback tx rt t r e = (t', r', res) \<Longrightarrow> t' = t\<lparr>tr_phase := RolledBack\<rparr> \<and> \<not> is_ok res"
  by (auto simp: transition_rollback_def split: prod.splits sum.splits)

lemma rollback_logged:
  "transition_rollback tx (logged rt) t (r, calls) e = (t', (r', calls'), res) \<Longrightarrow>
     \<exists>back. calls' = calls @ [CallRollback back]"
  by (auto simp: transition_rollback_def logged_def log_call_def split: prod.splits)

lemma logged_sel [simp]:
  "rr_active_session_count (logged rt) = rr_active_session_count rt \<circ> fst"
  "rr_source_weights_available (logged rt) = rr_source_weights_available rt \<circ> fst"
  by (simp_all add: logged_def)

lemma logged_calls:
  "rr_begin_quiescence (logged rt) (r, calls) = (x, a) \<Longrightarrow> \<exists>r'. x = (r', calls @ [CallQuiesce (is_ok a)])"
  "rr_rebuild_candidate (logged rt) p (r, calls) = (x, b) \<Longrightarrow> \<exists>r'. x = (r', calls @ [CallRebuild p (to_option b)])"
  "rr_verify_candidate (logged rt) c (r, calls) = (x, a) \<Longrightarrow> \<exists>r'. x = (r', calls @ [CallVerify c (is_ok a)])"
  "rr_invalidate_sessions (logged rt) (r, calls) = (x, a) \<Longrightarrow> \<exists>r'. x = (r', calls @ [CallInvalidate (is_ok a)])"
  "rr_commit_candidate (logged rt) c (r, calls) = (x, a) \<Longrightarrow> \<exists>r'. x = (r', calls @ [CallCommit c (is_ok a)])"
  by (auto simp: logged_def log_call_def split: prod.splits)

lemma commit_result:
  "transition_commit tx rt t r c = (t', r', res) \<Longrightarrow>
     (t' = t\<lparr>tr_phase := Committed\<rparr> \<and> res = transition_receipt t') \<or> (t' = t\<lparr>tr_phase := RolledBack\<rparr> \<and> \<not> is_ok res)"
  unfolding transition_commit_def
  by (auto simp: Let_def split: prod.splits sum.splits dest!: rollback_result)

lemma execute_result:
  assumes "validate_preconditions t = Ok u" and "transition_execute tx rt t r = (t', r', res)"
  shows "(t' = t\<lparr>tr_phase := Committed\<rparr> \<and> res = transition_receipt t') \<or> (t' = t\<lparr>tr_phase := RolledBack\<rparr> \<and> \<not> is_ok res)"
  using assms unfolding transition_execute_def
  by (auto split: prod.splits sum.splits if_splits dest!: rollback_result commit_result)

lemma transition_receipt_phase [simp]: "transition_receipt (t\<lparr>tr_phase := ph\<rparr>) = transition_receipt t"
  by (simp add: transition_receipt_def)

lemma commit_calls:
  assumes run: "transition_commit tx (logged rt) t (r, [CallQuiesce True, CallRebuild p (Some c)]) c = (t', (r', calls), res)"
  shows "(tr_phase t' = Committed \<and> calls = full_sequence p c) \<or> (tr_phase t' = RolledBack \<and> failed_sequence p calls)"
proof -
  let ?before = "[CallQuiesce True, CallRebuild p (Some c)]"
  obtain x a where v: "rr_verify_candidate (logged rt) c (r, ?before) = (x, a)" by fastforce
  obtain r1 where x: "x = (r1, ?before @ [CallVerify c (is_ok a)])" using logged_calls(3) [OF v] by blast
  show ?thesis
  proof (cases a)
    case (Inl e)
    then have "transition_rollback tx (logged rt) (t\<lparr>tr_phase := Verifying\<rparr>) (r1, ?before @ [CallVerify c False]) e =
        (t', (r', calls), res)"
      using run v x by (simp add: transition_commit_def)
    from rollback_logged [OF this] rollback_result [OF this] show ?thesis
      by (auto intro!: failed_sequenceI [of 2 _ p c] simp: full_sequence_def failed_call_def numeral_2_eq_2)
  next
    case (Inr u)
    obtain y b where i: "rr_invalidate_sessions (logged rt) (r1, ?before @ [CallVerify c True]) = (y, b)" by fastforce
    obtain r2 where y: "y = (r2, ?before @ [CallVerify c True, CallInvalidate (is_ok b)])"
      using logged_calls(4) [OF i] by auto
    show ?thesis
    proof (cases b)
      case (Inl e)
      then have "transition_rollback tx (logged rt) (t\<lparr>tr_phase := InvalidatingSessionState\<rparr>)
          (r2, ?before @ [CallVerify c True, CallInvalidate False]) e = (t', (r', calls), res)"
        using run v x i y Inr by (simp add: transition_commit_def)
      from rollback_logged [OF this] rollback_result [OF this] show ?thesis
        by (auto intro!: failed_sequenceI [of 3 _ p c] simp: full_sequence_def failed_call_def numeral_3_eq_3)
    next
      case (Inr w)
      let ?pre = "?before @ [CallVerify c True, CallInvalidate True]"
      obtain z d where k: "rr_commit_candidate (logged rt) c (r2, ?pre) = (z, d)" by fastforce
      obtain r3 where z: "z = (r3, ?pre @ [CallCommit c (is_ok d)])" using logged_calls(5) [OF k] by blast
      show ?thesis
      proof (cases d)
        case (Inl e)
        then have "transition_rollback tx (logged rt) (t\<lparr>tr_phase := Committing\<rparr>) (r3, ?pre @ [CallCommit c False]) e =
            (t', (r', calls), res)"
          using run v x i y k z Inr \<open>a = Inr u\<close> by (simp add: transition_commit_def)
        from rollback_logged [OF this] rollback_result [OF this] show ?thesis
          by (auto intro!: failed_sequenceI [of 4 _ p c] simp: full_sequence_def failed_call_def eval_nat_numeral)
      next
        case (Inr q)
        then show ?thesis
          using run v x i y k z \<open>a = Inr u\<close> \<open>b = Inr w\<close>
          by (auto simp: transition_commit_def full_sequence_def Let_def)
      qed
    qed
  qed
qed

text \<open>A runtime that fails at the \<open>k\<close>-th call, and a transaction.\<close>

definition demo_result :: "nat \<Rightarrow> nat \<Rightarrow> 'a \<Rightarrow> nnis_error + 'a" where
  "demo_result k i a = (if k = i then Err (invalid_input (lit ''injected transition failure'')) else Ok a)"

definition demo_runtime :: "nat \<Rightarrow> (unit, nat) rebuild_runtime" where
  "demo_runtime k =
     \<lparr>rr_begin_quiescence = (\<lambda>r. (r, demo_result k 0 ())), rr_active_session_count = (\<lambda>_. 0),
      rr_source_weights_available = (\<lambda>_. True), rr_rebuild_candidate = (\<lambda>_ r. (r, demo_result k 1 7)),
      rr_verify_candidate = (\<lambda>_ r. (r, demo_result k 2 ())), rr_invalidate_sessions = (\<lambda>r. (r, demo_result k 3 ())),
      rr_commit_candidate = (\<lambda>_ r. (r, demo_result k 4 ())), rr_rollback_to_source = (\<lambda>r. (r, Ok ()))\<rparr>"

definition demo_transition :: rebuild_transition where
  "demo_transition =
     \<lparr>tr_schema_version = 1, tr_source_plan = exec_plan_reference edge_llm_alignment,
      tr_target_plan = transposed_projection_candidate,
      tr_memory_budget = \<lparr>mb_schema_version = 1, mb_source_resident = 100, mb_target_peak = 140,
        mb_transition_budget = 256\<rparr>, tr_phase = Prepared\<rparr>"

lemma demo_transition_ok: "validate_preconditions demo_transition = Ok ()"
proof -
  have "required_double_resident (tr_memory_budget demo_transition) = Ok 240"
    by (simp add: required_double_resident_def demo_transition_def u64_lim_def)
  then have "budget_headroom (tr_memory_budget demo_transition) = Ok 16"
    by (simp add: budget_headroom_def) (simp add: demo_transition_def checked_sub_def)
  then have "budget_validate (tr_memory_budget demo_transition) = Ok ()"
    by (simp add: budget_validate_def) (simp add: demo_transition_def REBUILD_TRANSITION_VERSION_def)
  moreover have "requirements_validate (plan_transition_requirements p) = Ok ()" for p
    by (simp add: requirements_validate_def plan_transition_requirements_def model_rebuild_required_def)
  moreover have "tr_source_plan demo_transition \<noteq> tr_target_plan demo_transition"
    by (simp add: demo_transition_def exec_plan_reference_def transposed_projection_candidate_def exec_plan_with_def)
  moreover have "tr_schema_version demo_transition = REBUILD_TRANSITION_VERSION" "tr_phase demo_transition = Prepared"
    "ep_schema_version (tr_source_plan demo_transition) = F16_REFERENCE_EXECUTION_PLAN_VERSION"
    "ep_schema_version (tr_target_plan demo_transition) = F16_REFERENCE_EXECUTION_PLAN_VERSION"
    by (simp_all add: demo_transition_def REBUILD_TRANSITION_VERSION_def exec_plan_reference_def
        transposed_projection_candidate_def exec_plan_with_def)
  ultimately show ?thesis
    unfolding validate_preconditions_def by (simp only: if_False if_True and_then_simps refl simp_thms not_False_eq_True)
qed

section \<open>Properties\<close>

text \<open>C10. The protocol of the rebuild coordinator, for any runtime: an admitted transaction whose quiescence leaves
  no active session and keeps the source weights makes exactly the calls quiesce, rebuild the target plan, verify that
  candidate, invalidate the sessions and commit the same candidate, each after the one before succeeded, and is
  committed; or it stops at the first call that fails, rolls back once and reports an error.  When the quiescence
  leaves sessions or loses the weights, nothing is rebuilt: it rolls back at once and reports an error.\<close>

theorem rebuild_calls_ordered:
  assumes "validate_preconditions t = Ok u"
    and "transition_execute tx (logged rt) t (r, []) = (t', (r', calls), res)"
  shows "if left_unsettled rt r then
      \<not> is_ok res \<and> tr_phase t' = RolledBack \<and> (\<exists>back. calls = [CallQuiesce True, CallRollback back])
    else
      (is_ok res \<and> tr_phase t' = Committed \<and> (\<exists>c. calls = full_sequence (tr_target_plan t) c)) \<or>
      (\<not> is_ok res \<and> tr_phase t' = RolledBack \<and> failed_sequence (tr_target_plan t) calls)"
proof -
  let ?p = "tr_target_plan t"
  obtain r1 a where q: "rr_begin_quiescence rt r = (r1, a)" by fastforce
  then have lq: "rr_begin_quiescence (logged rt) (r, []) = ((r1, [CallQuiesce (is_ok a)]), a)"
    by (simp add: logged_def log_call_def)
  have ok: "is_ok res \<longleftrightarrow> tr_phase t' = Committed"
    using execute_result [OF assms] transition_receipt_Ok [OF preconditions_Ok(3,2) [OF assms(1)]] by auto
  show ?thesis
  proof (cases a)
    case (Inl e)
    then have "transition_rollback tx (logged rt) (t\<lparr>tr_phase := Quiescing\<rparr>) (r1, [CallQuiesce False]) e = (t', (r', calls), res)"
      using assms lq by (simp add: transition_execute_def)
    from rollback_logged [OF this] rollback_result [OF this] show ?thesis using q Inl
      by (auto intro!: failed_sequenceI [of 0 _ ?p undefined] simp: failed_call_def left_unsettled_def)
  next
    case (Inr v)
    show ?thesis
    proof (cases "left_unsettled rt r")
      case True
      then obtain e where "transition_rollback tx (logged rt) (t\<lparr>tr_phase := Quiescing\<rparr>) (r1, [CallQuiesce True]) e = (t', (r', calls), res)"
        using assms lq q Inr by (auto simp: transition_execute_def left_unsettled_def split: if_splits)
      from rollback_logged [OF this] rollback_result [OF this] show ?thesis using True by auto
    next
      case go: False
      obtain y b where rb: "rr_rebuild_candidate (logged rt) ?p (r1, [CallQuiesce True]) = (y, b)" by fastforce
      obtain r2 where y: "y = (r2, [CallQuiesce True, CallRebuild ?p (to_option b)])" using logged_calls(2) [OF rb] by auto
      show ?thesis
      proof (cases b)
        case (Inl e)
        then have "transition_rollback tx (logged rt) (t\<lparr>tr_phase := Rebuilding\<rparr>)
            (r2, [CallQuiesce True, CallRebuild ?p None]) e = (t', (r', calls), res)"
          using assms q lq \<open>a = Inr v\<close> rb y go by (simp add: transition_execute_def to_option_def left_unsettled_def)
        from rollback_logged [OF this] rollback_result [OF this] show ?thesis using go
          by (auto intro!: failed_sequenceI [of 1 _ ?p undefined] simp: full_sequence_def failed_call_def)
      next
        case (Inr c)
        then have "transition_commit tx (logged rt) (t\<lparr>tr_phase := Verifying\<rparr>)
            (r2, [CallQuiesce True, CallRebuild ?p (Some c)]) c = (t', (r', calls), res)"
          using assms q lq rb y go \<open>a = Inr v\<close> by (simp add: transition_execute_def to_option_def left_unsettled_def)
        from commit_calls [OF this] show ?thesis using go ok by auto
      qed
    qed
  qed
qed

theorem rebuild_calls_ordered_witness:
  "\<forall>tx. (\<exists>t' r' calls res. transition_execute tx (logged (demo_runtime 2)) demo_transition ((), []) = (t', (r', calls), res) \<and>
       ((is_ok res \<and> tr_phase t' = Committed) \<or>
        (\<not> is_ok res \<and> tr_phase t' = RolledBack \<and> failed_sequence (tr_target_plan demo_transition) calls))) \<and>
     (\<exists>t' r' calls res. transition_execute tx (logged ((demo_runtime 2)\<lparr>rr_active_session_count := \<lambda>_. 1\<rparr>)) demo_transition
         ((), []) = (t', (r', calls), res) \<and> \<not> is_ok res \<and> (\<exists>back. calls = [CallQuiesce True, CallRollback back]))"
proof (intro allI conjI)
  fix tx
  have settled: "\<not> left_unsettled (demo_runtime 2) ()" and left: "left_unsettled ((demo_runtime 2)\<lparr>rr_active_session_count := \<lambda>_. 1\<rparr>) ()"
    by (simp_all add: left_unsettled_def demo_runtime_def demo_result_def)
  obtain t' r' calls res where
    run: "transition_execute tx (logged (demo_runtime 2)) demo_transition ((), []) = (t', (r', calls), res)"
    by (cases "transition_execute tx (logged (demo_runtime 2)) demo_transition ((), [])") auto
  show "\<exists>t' r' calls res. transition_execute tx (logged (demo_runtime 2)) demo_transition ((), []) = (t', (r', calls), res) \<and>
       ((is_ok res \<and> tr_phase t' = Committed) \<or>
        (\<not> is_ok res \<and> tr_phase t' = RolledBack \<and> failed_sequence (tr_target_plan demo_transition) calls))"
    using run rebuild_calls_ordered [OF demo_transition_ok run] settled by auto
  let ?rt = "(demo_runtime 2)\<lparr>rr_active_session_count := \<lambda>_. 1\<rparr>"
  obtain t2 r2 calls2 res2 where run2: "transition_execute tx (logged ?rt) demo_transition ((), []) = (t2, (r2, calls2), res2)"
    by (cases "transition_execute tx (logged ?rt) demo_transition ((), [])") auto
  show "\<exists>t' r' calls res. transition_execute tx (logged ?rt) demo_transition ((), []) = (t', (r', calls), res) \<and>
      \<not> is_ok res \<and> (\<exists>back. calls = [CallQuiesce True, CallRollback back])"
    using run2 rebuild_calls_ordered [OF demo_transition_ok run2] left by auto
qed

text \<open>C27. Every transaction settles, whatever the runtime does.  An admitted one is over after one call of
  \<open>execute\<close>: it is committed, with a receipt that accounts the two resident models within the budget,
  or it is rolled back with an error, and no later execution is accepted or touches a runtime again.  A
  transaction that is not admitted is refused before the runtime is touched.\<close>

theorem rebuild_settles:
  assumes "transition_execute tx rt t r = (t', r', res)"
  shows "(validate_preconditions t = Ok () \<and>
      ((tr_phase t' = Committed \<and>
        (\<exists>receipt. res = Ok receipt \<and>
           re_required_double_resident receipt = mb_source_resident (tr_memory_budget t) + mb_target_peak (tr_memory_budget t) \<and>
           re_required_double_resident receipt + re_budget_headroom receipt = mb_transition_budget (tr_memory_budget t))) \<or>
       (tr_phase t' = RolledBack \<and> \<not> is_ok res)) \<and>
      (\<exists>e. transition_execute tx rt2 t' r2 = (t', r2, Err e))) \<or>
    (\<exists>e. validate_preconditions t = Err e \<and> t' = t \<and> r' = r \<and> res = Err e)"
proof (cases "validate_preconditions t")
  case (Inl e)
  then show ?thesis using assms by (simp add: transition_execute_def)
next
  case (Inr u)
  note P = preconditions_Ok [OF Inr]
  obtain receipt where receipt: "transition_receipt t = Ok receipt"
    "re_required_double_resident receipt = mb_source_resident (tr_memory_budget t) + mb_target_peak (tr_memory_budget t)"
    "re_required_double_resident receipt + re_budget_headroom receipt = mb_transition_budget (tr_memory_budget t)"
    using transition_receipt_Ok [OF P(3,2)] by blast
  have phase: "tr_phase t' = Committed \<and> res = Ok receipt \<or> tr_phase t' = RolledBack \<and> \<not> is_ok res"
    using execute_result [OF Inr assms] receipt(1) by auto
  then have "validate_preconditions t' \<noteq> Ok ()"
    using preconditions_Ok(1) [of t'] by auto
  then obtain e where "transition_execute tx rt2 t' r2 = (t', r2, Err e)"
    by (cases "validate_preconditions t'") (auto simp: transition_execute_def)
  then show ?thesis using phase receipt(2,3) Inr by auto
qed

theorem rebuild_settles_witness:
  "\<forall>tx. \<exists>t' r' res. transition_execute tx (demo_runtime 9) demo_transition () = (t', r', res) \<and>
     (\<exists>e. transition_execute tx (demo_runtime 9) t' () = (t', (), Err e))"
proof
  fix tx
  obtain t' r' res where run: "transition_execute tx (demo_runtime 9) demo_transition () = (t', r', res)"
    by (cases "transition_execute tx (demo_runtime 9) demo_transition ()") auto
  from rebuild_settles [OF run, of "demo_runtime 9" "()"] run
  show "\<exists>t' r' res. transition_execute tx (demo_runtime 9) demo_transition () = (t', r', res) \<and>
      (\<exists>e. transition_execute tx (demo_runtime 9) t' () = (t', (), Err e))"
    by (auto simp: demo_transition_ok)
qed

end
