(* ===== verification/ModelPlans.thy ===== *)
theory ModelPlans
  imports ModelConfig
begin

text \<open>
  The explicit execution plans of the decoder, one per axis: \<open>nnis-model/src/projection_plan.rs\<close>,
  \<open>fusion_plan.rs\<close>, \<open>attention_plan.rs\<close> and the enumerations and versions of \<open>representation_plan.rs\<close>.
  The checks of a representation plan against the weights are in \<open>ModelWeights\<close>.
\<close>

fun power_of_two :: "nat \<Rightarrow> bool" where
  "power_of_two n = (if n = 0 then False else if n = 1 then True else even n \<and> power_of_two (n div 2))"

declare power_of_two.simps [simp del]

section \<open>Projections\<close>

datatype projection_kernel = Gemm | Gemv nat

definition projection_kernel_validate :: "projection_kernel \<Rightarrow> nnis_error + unit" where
  "projection_kernel_validate k =
     (case k of
        Gemv block_size \<Rightarrow>
          if block_size = 0 \<or> \<not> power_of_two block_size then
            Err (invalid_input (lit ''projection GEMV block size '' @ dec block_size @
              lit '' is not a non-zero power of two''))
          else Ok ()
      | Gemm \<Rightarrow> Ok ())"

record projection_plan =
  pp_q_o :: projection_kernel
  pp_k_v :: projection_kernel
  pp_gate_up :: projection_kernel
  pp_down :: projection_kernel
  pp_lm_head :: projection_kernel

definition baseline_gemm :: projection_plan where
  "baseline_gemm = \<lparr>pp_q_o = Gemm, pp_k_v = Gemm, pp_gate_up = Gemm, pp_down = Gemm, pp_lm_head = Gemm\<rparr>"

definition thor_e1_1_smollm2_lm_head :: projection_plan where
  "thor_e1_1_smollm2_lm_head =
     \<lparr>pp_q_o = Gemm, pp_k_v = Gemm, pp_gate_up = Gemm, pp_down = Gemm, pp_lm_head = Gemv 64\<rparr>"

definition w1_smollm2_lm_head_gemv32_candidate :: projection_plan where
  "w1_smollm2_lm_head_gemv32_candidate =
     \<lparr>pp_q_o = Gemm, pp_k_v = Gemm, pp_gate_up = Gemm, pp_down = Gemm, pp_lm_head = Gemv 32\<rparr>"

definition projection_plan_validate :: "projection_plan \<Rightarrow> nnis_error + unit" where
  "projection_plan_validate p =
     check_all projection_kernel_validate [pp_q_o p, pp_k_v p, pp_gate_up p, pp_down p, pp_lm_head p]"

section \<open>Fusion\<close>

definition F32_FUSION_PLAN_VERSION :: nat where "F32_FUSION_PLAN_VERSION = 1"

datatype silu_multiply_kernel = Separate | Fused nat

record fusion_plan =
  fp_schema_version :: nat
  fp_silu_multiply :: silu_multiply_kernel

definition fusion_baseline :: fusion_plan where
  "fusion_baseline = \<lparr>fp_schema_version = F32_FUSION_PLAN_VERSION, fp_silu_multiply = Separate\<rparr>"

definition r2_silu_multiply_fused_candidate :: fusion_plan where
  "r2_silu_multiply_fused_candidate =
     \<lparr>fp_schema_version = F32_FUSION_PLAN_VERSION, fp_silu_multiply = Fused 256\<rparr>"

definition fusion_plan_validate :: "fusion_plan \<Rightarrow> nnis_error + unit" where
  "fusion_plan_validate p =
     (if fp_schema_version p \<noteq> F32_FUSION_PLAN_VERSION then
        Err (unsupported (lit ''f32 fusion plan schema '' @ dec (fp_schema_version p) @
          lit ''; supported version is '' @ dec F32_FUSION_PLAN_VERSION))
      else
        (case fp_silu_multiply p of
           Fused block_size \<Rightarrow>
             if block_size \<noteq> 256 then
               Err (unsupported (lit ''R2 fused SiLU-multiply plan currently admits only the physically evaluated block size 256; got '' @
                 dec block_size))
             else Ok ()
         | Separate \<Rightarrow> Ok ()))"

section \<open>Attention\<close>

definition F32_ATTENTION_PLAN_VERSION :: nat where "F32_ATTENTION_PLAN_VERSION = 1"

datatype cached_attention_kernel = Serial_single_thread | Parallel_value nat

record attention_plan =
  ap_schema_version :: nat
  ap_cached_decode :: cached_attention_kernel

definition attention_baseline :: attention_plan where
  "attention_baseline = \<lparr>ap_schema_version = F32_ATTENTION_PLAN_VERSION, ap_cached_decode = Serial_single_thread\<rparr>"

definition r2_parallel_value_candidate :: attention_plan where
  "r2_parallel_value_candidate =
     \<lparr>ap_schema_version = F32_ATTENTION_PLAN_VERSION, ap_cached_decode = Parallel_value 64\<rparr>"

definition attention_plan_validate :: "attention_plan \<Rightarrow> nnis_error + unit" where
  "attention_plan_validate p =
     (if ap_schema_version p \<noteq> F32_ATTENTION_PLAN_VERSION then
        Err (unsupported (lit ''f32 attention plan schema '' @ dec (ap_schema_version p) @
          lit ''; supported version is '' @ dec F32_ATTENTION_PLAN_VERSION))
      else
        (case ap_cached_decode p of
           Parallel_value threads \<Rightarrow>
             if threads \<noteq> 64 then
               Err (unsupported (lit ''R2 parallel-value cached-attention plan currently admits only the physically evaluated 64-thread geometry; got '' @
                 dec threads))
             else Ok ()
         | Serial_single_thread \<Rightarrow> Ok ()))"

section \<open>Weight representation\<close>

definition WEIGHT_REPRESENTATION_PLAN_VERSION :: nat where "WEIGHT_REPRESENTATION_PLAN_VERSION = 1"

datatype physical_representation = P_F32 | P_Bf16

record representation_plan =
  rp_schema_version :: nat
  rp_lm_head :: physical_representation

definition all_f32 :: representation_plan where
  "all_f32 = \<lparr>rp_schema_version = WEIGHT_REPRESENTATION_PLAN_VERSION, rp_lm_head = P_F32\<rparr>"

definition w1_lm_head_bf16 :: representation_plan where
  "w1_lm_head_bf16 = \<lparr>rp_schema_version = WEIGHT_REPRESENTATION_PLAN_VERSION, rp_lm_head = P_Bf16\<rparr>"

definition representation_plan_validate :: "representation_plan \<Rightarrow> nnis_error + unit" where
  "representation_plan_validate p =
     (if rp_schema_version p \<noteq> WEIGHT_REPRESENTATION_PLAN_VERSION then
        Err (unsupported (lit ''weight representation plan schema '' @ dec (rp_schema_version p) @
          lit ''; supported version is '' @ dec WEIGHT_REPRESENTATION_PLAN_VERSION))
      else Ok ())"

lemma power_of_two_exp: "power_of_two n \<longleftrightarrow> (\<exists>k. n = 2 ^ k)"
proof (induction n rule: power_of_two.induct)
  case (1 n)
  show ?case
  proof (cases "n \<le> 1")
    case True
    have "(0 :: nat) \<noteq> 2 ^ k" for k by simp
    moreover have "(1 :: nat) = 2 ^ 0" by simp
    ultimately show ?thesis
      using True power_of_two.simps [of n] by (cases "n = 0") (auto intro: exI [of _ 0] simp: le_Suc_eq)
  next
    case False
    have "(\<exists>k. n = 2 ^ k) \<longleftrightarrow> even n \<and> (\<exists>k. n div 2 = 2 ^ k)"
    proof
      assume "\<exists>k. n = 2 ^ k"
      then obtain k where k: "n = 2 ^ k" by blast
      then have "k \<noteq> 0" using False by (cases "k = 0") simp_all
      then obtain j where "k = Suc j" by (cases k) auto
      then show "even n \<and> (\<exists>k. n div 2 = 2 ^ k)" using k by auto
    next
      assume "even n \<and> (\<exists>k. n div 2 = 2 ^ k)"
      then obtain k where "n div 2 = 2 ^ k" "even n" by blast
      then have "n = 2 ^ Suc k" by (metis dvd_mult_div_cancel power_Suc)
      then show "\<exists>k. n = 2 ^ k" by blast
    qed
    then show ?thesis using 1 False power_of_two.simps [of n] by auto
  qed
qed

lemma warp_sizes: "power_of_two 64" "power_of_two 32"
  unfolding power_of_two_exp by (rule exI [of _ 6]; simp) (rule exI [of _ 5]; simp)

lemma projection_kernel_valid [simp]:
  "projection_kernel_validate k = Ok u \<longleftrightarrow> (\<forall>b. k = Gemv b \<longrightarrow> power_of_two b)"
proof (cases k)
  case (Gemv b)
  have "b \<noteq> 0" if "power_of_two b" using that by (metis power_of_two.simps)
  then show ?thesis using Gemv by (auto simp: projection_kernel_validate_def simp del: dec.simps)
qed (simp add: projection_kernel_validate_def)

lemma projection_plan_valid [simp]:
  "projection_plan_validate p = Ok u \<longleftrightarrow>
     (\<forall>k \<in> set [pp_q_o p, pp_k_v p, pp_gate_up p, pp_down p, pp_lm_head p]. \<forall>b. k = Gemv b \<longrightarrow> power_of_two b)"
  unfolding projection_plan_validate_def check_all_Ok_iff projection_kernel_valid by (rule refl)

lemma fusion_plan_valid [simp]:
  "fusion_plan_validate p = Ok u \<longleftrightarrow>
     fp_schema_version p = F32_FUSION_PLAN_VERSION \<and> (\<forall>b. fp_silu_multiply p = Fused b \<longrightarrow> b = 256)"
  by (cases "fp_silu_multiply p") (auto simp: fusion_plan_validate_def simp del: dec.simps)

lemma attention_plan_valid [simp]:
  "attention_plan_validate p = Ok u \<longleftrightarrow>
     ap_schema_version p = F32_ATTENTION_PLAN_VERSION \<and> (\<forall>n. ap_cached_decode p = Parallel_value n \<longrightarrow> n = 64)"
  by (cases "ap_cached_decode p") (auto simp: attention_plan_validate_def simp del: dec.simps)

lemma representation_plan_valid [simp]:
  "representation_plan_validate p = Ok u \<longleftrightarrow> rp_schema_version p = WEIGHT_REPRESENTATION_PLAN_VERSION"
  by (simp add: representation_plan_validate_def del: dec.simps)

lemma plans_valid:
  "projection_plan_validate baseline_gemm = Ok ()" "projection_plan_validate thor_e1_1_smollm2_lm_head = Ok ()"
  "projection_plan_validate w1_smollm2_lm_head_gemv32_candidate = Ok ()"
  "fusion_plan_validate fusion_baseline = Ok ()" "fusion_plan_validate r2_silu_multiply_fused_candidate = Ok ()"
  "attention_plan_validate attention_baseline = Ok ()" "attention_plan_validate r2_parallel_value_candidate = Ok ()"
  "representation_plan_validate all_f32 = Ok ()" "representation_plan_validate w1_lm_head_bf16 = Ok ()"
  by (simp_all add: baseline_gemm_def warp_sizes
      thor_e1_1_smollm2_lm_head_def w1_smollm2_lm_head_gemv32_candidate_def fusion_baseline_def
      r2_silu_multiply_fused_candidate_def attention_baseline_def r2_parallel_value_candidate_def all_f32_def w1_lm_head_bf16_def)

end
