(* ===== verification/ModelWeights.thy ===== *)
theory ModelWeights
  imports ModelPlans DeviceMem "HOL-Library.AList" "HOL-Library.List_Lexorder"
begin

text \<open>
  \<open>nnis-model/src/weights.rs\<close>: the decoder's weight graph, its checks, the accounting of its device
  allocations and its reconstruction from named tensors; and the checks of \<open>representation_plan.rs\<close>.
  A \<open>BTreeMap\<close> keyed by names is an association list without duplicate keys; only its error message
  depends on the order, which is that of the names.
\<close>

section \<open>Tensors and weights\<close>

datatype device_tensor = T_F32 device_buffer | T_Bf16 device_buffer

fun tensor_buffer :: "device_tensor \<Rightarrow> device_buffer" where
  "tensor_buffer (T_F32 b) = b"
| "tensor_buffer (T_Bf16 b) = b"

fun tensor_dtype :: "device_tensor \<Rightarrow> weight_dtype" where
  "tensor_dtype (T_F32 _) = W_F32"
| "tensor_dtype (T_Bf16 _) = W_Bf16"

datatype allocation_dtype = A_F32 | A_Bf16 | A_F16

fun tensor_allocation_dtype :: "device_tensor \<Rightarrow> allocation_dtype" where
  "tensor_allocation_dtype (T_F32 _) = A_F32"
| "tensor_allocation_dtype (T_Bf16 _) = A_Bf16"

definition tensor_len :: "device_tensor \<Rightarrow> nat" where
  "tensor_len t = buf_len (tensor_buffer t)"

fun tensor_size_bytes :: "device_tensor \<Rightarrow> nat" where
  "tensor_size_bytes (T_F32 b) = size_bytes 4 b"
| "tensor_size_bytes (T_Bf16 b) = size_bytes 2 b"

definition allocation_key :: "device_tensor \<Rightarrow> nat" where
  "allocation_key t = buf_ptr (tensor_buffer t)"

definition tensor_context :: "device_tensor \<Rightarrow> nat" where
  "tensor_context t = buf_ctx (tensor_buffer t)"

fun as_f32 :: "device_tensor \<Rightarrow> nnis_error + device_buffer" where
  "as_f32 (T_F32 b) = Ok b"
| "as_f32 (T_Bf16 _) = Err (unsupported_lit ''this decoder execution path currently requires f32 weights'')"

record matrix_weight =
  mw_tensor :: device_tensor
  mw_rows :: nat
  mw_cols :: nat

definition matrix_weight_new :: "device_tensor \<Rightarrow> nat \<Rightarrow> nat \<Rightarrow> nnis_error + matrix_weight" where
  "matrix_weight_new t rows cols =
     and_then (ok_or (invalid_lit ''matrix weight shape overflows usize'') (checked_mul rows cols)) (\<lambda>expected.
       if tensor_len t \<noteq> expected then
         Err (invalid_input (lit ''matrix weight shape ('' @ dec rows @ lit '', '' @ dec cols @ lit '') requires '' @
           dec expected @ lit '' elements; got '' @ dec (tensor_len t)))
       else Ok \<lparr>mw_tensor = t, mw_rows = rows, mw_cols = cols\<rparr>)"

record vector_weight =
  vw_tensor :: device_tensor
  vw_len :: nat

definition vector_weight_new :: "device_tensor \<Rightarrow> nat \<Rightarrow> nnis_error + vector_weight" where
  "vector_weight_new t len =
     (if tensor_len t \<noteq> len then
        Err (invalid_input (lit ''vector weight requires '' @ dec len @ lit '' elements; got '' @ dec (tensor_len t)))
      else Ok \<lparr>vw_tensor = t, vw_len = len\<rparr>)"

record layer_weights =
  lw_input_norm :: vector_weight
  lw_q_proj :: matrix_weight
  lw_k_proj :: matrix_weight
  lw_v_proj :: matrix_weight
  lw_o_proj :: matrix_weight
  lw_post_attention_norm :: vector_weight
  lw_gate_proj :: matrix_weight
  lw_up_proj :: matrix_weight
  lw_down_proj :: matrix_weight

record model_weights =
  wt_token_embedding :: matrix_weight
  wt_layers :: "layer_weights list"
  wt_final_norm :: vector_weight
  wt_lm_head :: matrix_weight

definition weights_context :: "model_weights \<Rightarrow> nat" where
  "weights_context w = tensor_context (mw_tensor (wt_token_embedding w))"

section \<open>Named tensors\<close>

datatype logical_shape = Matrix_shape nat nat | Vector_shape nat

fun element_count :: "logical_shape \<Rightarrow> nnis_error + nat" where
  "element_count (Matrix_shape rows cols) =
     ok_or (invalid_lit ''logical matrix weight shape overflows usize'') (checked_mul rows cols)"
| "element_count (Vector_shape len) = Ok len"

definition layer_name :: "nat \<Rightarrow> string \<Rightarrow> rstr" where
  "layer_name i suffix = lit ''layers.'' @ dec i @ lit ''.'' @ lit suffix"

type_synonym logical_tensor = "rstr \<times> device_tensor \<times> logical_shape"

definition matrix_entry :: "rstr \<Rightarrow> matrix_weight \<Rightarrow> logical_tensor" where
  "matrix_entry name w = (name, mw_tensor w, Matrix_shape (mw_rows w) (mw_cols w))"

definition vector_entry :: "rstr \<Rightarrow> vector_weight \<Rightarrow> logical_tensor" where
  "vector_entry name w = (name, vw_tensor w, Vector_shape (vw_len w))"

definition layer_tensors :: "nat \<times> layer_weights \<Rightarrow> logical_tensor list" where
  "layer_tensors = (\<lambda>(i, l).
     [vector_entry (layer_name i ''input_norm'') (lw_input_norm l), matrix_entry (layer_name i ''q_proj'') (lw_q_proj l),
      matrix_entry (layer_name i ''k_proj'') (lw_k_proj l), matrix_entry (layer_name i ''v_proj'') (lw_v_proj l),
      matrix_entry (layer_name i ''o_proj'') (lw_o_proj l),
      vector_entry (layer_name i ''post_attention_norm'') (lw_post_attention_norm l),
      matrix_entry (layer_name i ''gate_proj'') (lw_gate_proj l), matrix_entry (layer_name i ''up_proj'') (lw_up_proj l),
      matrix_entry (layer_name i ''down_proj'') (lw_down_proj l)])"

text \<open>\<open>for_each_logical_tensor\<close> visits this list in order, up to the first error.\<close>

definition logical_tensors :: "model_weights \<Rightarrow> logical_tensor list" where
  "logical_tensors w =
     matrix_entry (lit ''token_embedding'') (wt_token_embedding w) #
     concat (map layer_tensors (enumerate 0 (wt_layers w))) @
     [vector_entry (lit ''final_norm'') (wt_final_norm w), matrix_entry (lit ''lm_head'') (wt_lm_head w)]"

definition for_each_logical_tensor ::
  "(logical_tensor \<Rightarrow> nnis_error + unit) \<Rightarrow> model_weights \<Rightarrow> nnis_error + unit" where
  "for_each_logical_tensor visit w = check_all visit (logical_tensors w)"

section \<open>Checks\<close>

datatype expectation = Expect_matrix rstr matrix_weight nat nat | Expect_vector rstr vector_weight nat

definition shape_error :: "rstr \<Rightarrow> matrix_weight \<Rightarrow> nat \<Rightarrow> nat \<Rightarrow> nnis_error" where
  "shape_error name w rows cols =
     invalid_input (lit ''weight '' @ name @ lit '' has shape ('' @ dec (mw_rows w) @ lit '', '' @ dec (mw_cols w) @
       lit ''); expected ('' @ dec rows @ lit '', '' @ dec cols @ lit '')'')"

definition length_error :: "rstr \<Rightarrow> vector_weight \<Rightarrow> nat \<Rightarrow> nnis_error" where
  "length_error name w len =
     invalid_input (lit ''weight '' @ name @ lit '' has length '' @ dec (vw_len w) @ lit ''; expected '' @ dec len)"

fun expect_shape :: "expectation \<Rightarrow> nnis_error + unit" where
  "expect_shape (Expect_matrix name w rows cols) =
     (if mw_rows w \<noteq> rows \<or> mw_cols w \<noteq> cols then Err (shape_error name w rows cols) else Ok ())"
| "expect_shape (Expect_vector name w len) =
     (if vw_len w \<noteq> len then Err (length_error name w len) else Ok ())"

definition outer_expectations :: "model_config \<Rightarrow> model_weights \<Rightarrow> expectation list" where
  "outer_expectations c w =
     [Expect_matrix (lit ''token_embedding'') (wt_token_embedding w) (mc_vocab_size c) (mc_hidden_size c),
      Expect_vector (lit ''final_norm'') (wt_final_norm w) (mc_hidden_size c),
      Expect_matrix (lit ''lm_head'') (wt_lm_head w) (mc_hidden_size c) (mc_vocab_size c)]"

definition layer_expectations :: "model_config \<Rightarrow> nat \<Rightarrow> nat \<times> layer_weights \<Rightarrow> expectation list" where
  "layer_expectations c kv = (\<lambda>(i, l). let hidden = mc_hidden_size c; inter = mc_intermediate_size c in
     [Expect_vector (layer_name i ''input_norm'') (lw_input_norm l) hidden,
      Expect_matrix (layer_name i ''q_proj'') (lw_q_proj l) hidden hidden,
      Expect_matrix (layer_name i ''k_proj'') (lw_k_proj l) hidden kv,
      Expect_matrix (layer_name i ''v_proj'') (lw_v_proj l) hidden kv,
      Expect_matrix (layer_name i ''o_proj'') (lw_o_proj l) hidden hidden,
      Expect_vector (layer_name i ''post_attention_norm'') (lw_post_attention_norm l) hidden,
      Expect_matrix (layer_name i ''gate_proj'') (lw_gate_proj l) hidden inter,
      Expect_matrix (layer_name i ''up_proj'') (lw_up_proj l) hidden inter,
      Expect_matrix (layer_name i ''down_proj'') (lw_down_proj l) inter hidden])"

definition layer_count_error :: "model_config \<Rightarrow> model_weights \<Rightarrow> nnis_error" where
  "layer_count_error c w =
     invalid_input (lit ''model has '' @ dec (length (wt_layers w)) @ lit '' decoder layers; config requires '' @
       dec (mc_num_hidden_layers c))"

fun dtype_debug :: "weight_dtype \<Rightarrow> rstr" where
  "dtype_debug W_F32 = lit ''F32''"
| "dtype_debug W_Bf16 = lit ''Bf16''"

definition check_tensor :: "string \<Rightarrow> weight_dtype \<Rightarrow> nat \<Rightarrow> rstr \<Rightarrow> device_tensor \<Rightarrow> nnis_error + unit" where
  "check_tensor requirer dtype ctx name t =
     (if tensor_dtype t \<noteq> dtype then
        Err (invalid_input (lit ''weight '' @ name @ lit '' uses '' @ dtype_debug (tensor_dtype t) @ lit ''; '' @
          lit requirer @ lit '' requires '' @ dtype_debug dtype))
      else if ctx \<noteq> tensor_context t then
        Err (invalid_input (lit ''weight '' @ name @ lit '' belongs to a different CUDA context''))
      else Ok ())"

definition weights_validate :: "model_config \<Rightarrow> model_weights \<Rightarrow> nnis_error + unit" where
  "weights_validate c w =
     and_then (config_validate c) (\<lambda>_.
       if length (wt_layers w) \<noteq> mc_num_hidden_layers c then Err (layer_count_error c w)
       else
         and_then (check_all expect_shape (outer_expectations c w)) (\<lambda>_.
         and_then (key_value_width c) (\<lambda>kv.
         and_then (check_all expect_shape (concat (map (layer_expectations c kv) (enumerate 0 (wt_layers w))))) (\<lambda>_.
           for_each_logical_tensor
             (\<lambda>(name, t, _). check_tensor ''config'' (mc_weight_dtype c) (weights_context w) name t) w))))"

text \<open>The representation plan checks each weight's shape, type and context together.\<close>

fun expect_resident :: "nat \<Rightarrow> weight_dtype \<Rightarrow> expectation \<Rightarrow> nnis_error + unit" where
  "expect_resident ctx dtype (Expect_matrix name w rows cols) =
     and_then (expect_shape (Expect_matrix name w rows cols))
       (\<lambda>_. check_tensor ''representation plan'' dtype ctx name (mw_tensor w))"
| "expect_resident ctx dtype (Expect_vector name w len) =
     and_then (expect_shape (Expect_vector name w len))
       (\<lambda>_. check_tensor ''representation plan'' dtype ctx name (vw_tensor w))"

definition lm_head_dtype :: "representation_plan \<Rightarrow> weight_dtype" where
  "lm_head_dtype p = (case rp_lm_head p of P_F32 \<Rightarrow> W_F32 | P_Bf16 \<Rightarrow> W_Bf16)"

definition representation_validate_weights ::
  "representation_plan \<Rightarrow> model_config \<Rightarrow> model_weights \<Rightarrow> nnis_error + unit" where
  "representation_validate_weights p c w =
     and_then (representation_plan_validate p) (\<lambda>_.
     and_then (config_validate c) (\<lambda>_.
       if mc_weight_dtype c \<noteq> W_F32 then
         Err (unsupported_lit ''weight representation plan v1 requires an f32 model-format-v1 base graph'')
       else if length (wt_layers w) \<noteq> mc_num_hidden_layers c then Err (layer_count_error c w)
       else
         and_then (check_all (\<lambda>(dtype, e). expect_resident (weights_context w) dtype e)
             (zip [W_F32, W_F32, lm_head_dtype p] (outer_expectations c w))) (\<lambda>_.
         and_then (key_value_width c) (\<lambda>kv.
           check_all (expect_resident (weights_context w) W_F32)
             (concat (map (layer_expectations c kv) (enumerate 0 (wt_layers w))))))))"

section \<open>Accounting of allocations\<close>

definition NNIS_WEIGHT_ALLOCATION_SUMMARY_VERSION :: nat where
  "NNIS_WEIGHT_ALLOCATION_SUMMARY_VERSION = 1"

record allocation_segment =
  sg_allocation_index :: nat
  sg_dtype :: allocation_dtype
  sg_elements :: nat
  sg_bytes :: nat
  sg_logical_names :: "rstr list"

record allocation_summary =
  as_schema_version :: nat
  as_logical_tensor_references :: nat
  as_logical_element_references :: nat
  as_unique_device_allocations :: nat
  as_unique_device_elements :: nat
  as_owned_device_allocation_bytes :: nat
  as_segments :: "allocation_segment list"

record allocation_observation =
  ob_logical_name :: rstr
  ob_allocation_key :: nat
  ob_dtype :: allocation_dtype
  ob_elements :: nat
  ob_bytes :: nat

definition count_up :: "nat \<Rightarrow> nat \<Rightarrow> string \<Rightarrow> nnis_error + nat" where
  "count_up counter n label = ok_or (invalid_input (lit label @ lit '' overflows u64'')) (checked_add counter n)"

text \<open>The counters, the index of each allocation's segment and the segments.\<close>

record summary_state =
  ss_references :: nat
  ss_element_references :: nat
  ss_unique_elements :: nat
  ss_owned_bytes :: nat
  ss_indices :: "nat \<Rightarrow> nat option"
  ss_segments :: "allocation_segment list"

text \<open>\<open>{:?}\<close> of a name between quotes: the names of weights are ASCII, where only control characters, quotes
  and backslashes are escaped.\<close>

definition debug_char :: "nat \<Rightarrow> rstr" where
  "debug_char c =
     (if c = 0 then [92, 48] else if c = 9 then [92, 116] else if c = 10 then [92, 110] else if c = 13 then [92, 114]
      else if c = 34 \<or> c = 92 then [92, c] else [c])"

definition debug_name :: "rstr \<Rightarrow> rstr" where
  "debug_name s = [34] @ concat (map debug_char s) @ [34]"

definition segment_agrees :: "allocation_segment \<Rightarrow> allocation_observation \<Rightarrow> bool" where
  "segment_agrees g ob \<longleftrightarrow> sg_dtype g = ob_dtype ob \<and> sg_elements g = ob_elements ob \<and> sg_bytes g = ob_bytes ob"

definition observe_allocation :: "summary_state \<Rightarrow> allocation_observation \<Rightarrow> nnis_error + summary_state" where
  "observe_allocation st ob =
     and_then (count_up (ss_references st) 1 ''logical tensor reference count'') (\<lambda>refs.
     and_then (count_up (ss_element_references st) (ob_elements ob) ''logical element reference count'') (\<lambda>elems.
       let st = st\<lparr>ss_references := refs, ss_element_references := elems\<rparr> in
       case ss_indices st (ob_allocation_key ob) of
         Some i \<Rightarrow>
           if length (ss_segments st) \<le> i then Err (invalid_lit ''weight allocation index points outside summary'')
           else
             let g = ss_segments st ! i in
             if \<not> segment_agrees g ob then
               Err (invalid_input (lit ''weight allocation alias '' @ debug_name (ob_logical_name ob) @
                 lit '' disagrees with the original allocation contract''))
             else
               Ok (st\<lparr>ss_segments := (ss_segments st)
                 [i := g\<lparr>sg_logical_names := sg_logical_names g @ [ob_logical_name ob]\<rparr>]\<rparr>)
       | None \<Rightarrow>
           and_then (ok_or (invalid_lit ''weight allocation count exceeds u32 contract capacity'')
               (u32_of_usize (length (ss_segments st)))) (\<lambda>index.
           and_then (count_up (ss_unique_elements st) (ob_elements ob) ''unique device element count'') (\<lambda>uelems.
           and_then (count_up (ss_owned_bytes st) (ob_bytes ob) ''owned device allocation bytes'') (\<lambda>bytes.
             Ok (st\<lparr>ss_unique_elements := uelems, ss_owned_bytes := bytes,
                    ss_indices := (ss_indices st)(ob_allocation_key ob \<mapsto> length (ss_segments st)),
                    ss_segments := ss_segments st @
                      [\<lparr>sg_allocation_index = index, sg_dtype = ob_dtype ob, sg_elements = ob_elements ob,
                        sg_bytes = ob_bytes ob, sg_logical_names = [ob_logical_name ob]\<rparr>]\<rparr>))))))"

definition summary_start :: summary_state where
  "summary_start = \<lparr>ss_references = 0, ss_element_references = 0, ss_unique_elements = 0, ss_owned_bytes = 0,
     ss_indices = Map.empty, ss_segments = []\<rparr>"

definition summarize_weight_allocations :: "allocation_observation list \<Rightarrow> nnis_error + allocation_summary" where
  "summarize_weight_allocations obs =
     and_then (for_each_res observe_allocation summary_start obs) (\<lambda>st.
     and_then (ok_or (invalid_lit ''weight allocation count exceeds u64 contract capacity'')
         (u64_of_usize (length (ss_segments st)))) (\<lambda>unique.
       Ok \<lparr>as_schema_version = NNIS_WEIGHT_ALLOCATION_SUMMARY_VERSION,
           as_logical_tensor_references = ss_references st,
           as_logical_element_references = ss_element_references st,
           as_unique_device_allocations = unique,
           as_unique_device_elements = ss_unique_elements st,
           as_owned_device_allocation_bytes = ss_owned_bytes st,
           as_segments = ss_segments st\<rparr>))"

definition observe_tensor ::
  "allocation_observation list \<Rightarrow> logical_tensor \<Rightarrow> nnis_error + allocation_observation list" where
  "observe_tensor obs = (\<lambda>(name, t, _).
     if tensor_len t = 0 \<or> allocation_key t = 0 then
       Err (invalid_input (lit ''weight '' @ name @ lit '' has no live device allocation to account''))
     else
       and_then (ok_or (invalid_input (lit ''weight '' @ name @ lit '' element count exceeds u64''))
           (u64_of_usize (tensor_len t))) (\<lambda>elements.
       and_then (ok_or (invalid_input (lit ''weight '' @ name @ lit '' byte size exceeds u64''))
           (u64_of_usize (tensor_size_bytes t))) (\<lambda>bytes.
         Ok (obs @ [\<lparr>ob_logical_name = name, ob_allocation_key = allocation_key t,
           ob_dtype = tensor_allocation_dtype t, ob_elements = elements, ob_bytes = bytes\<rparr>]))))"

definition weight_allocation_summary :: "model_weights \<Rightarrow> nnis_error + allocation_summary" where
  "weight_allocation_summary w =
     and_then (for_each_res observe_tensor [] (logical_tensors w)) summarize_weight_allocations"

section \<open>Reconstruction from named tensors\<close>

type_synonym tensor_map = "(rstr \<times> logical_shape \<times> device_tensor) list"

fun shape_debug :: "logical_shape \<Rightarrow> rstr" where
  "shape_debug (Matrix_shape rows cols) =
     lit ''Matrix { rows: '' @ dec rows @ lit '', cols: '' @ dec cols @ lit '' }''"
| "shape_debug (Vector_shape len) = lit ''Vector { len: '' @ dec len @ lit '' }''"

definition remove_named :: "tensor_map \<Rightarrow> rstr \<Rightarrow> nnis_error + (logical_shape \<times> device_tensor) \<times> tensor_map" where
  "remove_named m name =
     and_then (ok_or (invalid_input (lit ''logical tensor '' @ name @ lit '' is missing'')) (map_of m name))
       (\<lambda>entry. Ok (entry, AList.delete name m))"

definition take_named_matrix :: "tensor_map \<Rightarrow> rstr \<Rightarrow> nat \<Rightarrow> nat \<Rightarrow> nnis_error + matrix_weight \<times> tensor_map" where
  "take_named_matrix m name rows cols =
     and_then (remove_named m name) (\<lambda>((shape, t), m').
       if shape \<noteq> Matrix_shape rows cols then
         Err (invalid_input (lit ''logical tensor '' @ name @ lit '' has shape '' @ shape_debug shape @
           lit ''; expected matrix ('' @ dec rows @ lit '', '' @ dec cols @ lit '')''))
       else and_then (matrix_weight_new t rows cols) (\<lambda>w. Ok (w, m')))"

definition take_named_vector :: "tensor_map \<Rightarrow> rstr \<Rightarrow> nat \<Rightarrow> nnis_error + vector_weight \<times> tensor_map" where
  "take_named_vector m name len =
     and_then (remove_named m name) (\<lambda>((shape, t), m').
       if shape \<noteq> Vector_shape len then
         Err (invalid_input (lit ''logical tensor '' @ name @ lit '' has shape '' @ shape_debug shape @
           lit ''; expected vector ('' @ dec len @ lit '',)''))
       else and_then (vector_weight_new t len) (\<lambda>w. Ok (w, m')))"

definition take_layer ::
  "model_config \<Rightarrow> nat \<Rightarrow> layer_weights list \<times> tensor_map \<Rightarrow> nat \<Rightarrow> nnis_error + layer_weights list \<times> tensor_map" where
  "take_layer c kv = (\<lambda>(ls, m) i. let hidden = mc_hidden_size c; inter = mc_intermediate_size c in
     and_then (take_named_vector m (layer_name i ''input_norm'') hidden) (\<lambda>(input_norm, m).
     and_then (take_named_matrix m (layer_name i ''q_proj'') hidden hidden) (\<lambda>(q, m).
     and_then (take_named_matrix m (layer_name i ''k_proj'') hidden kv) (\<lambda>(k, m).
     and_then (take_named_matrix m (layer_name i ''v_proj'') hidden kv) (\<lambda>(v, m).
     and_then (take_named_matrix m (layer_name i ''o_proj'') hidden hidden) (\<lambda>(proj_o, m).
     and_then (take_named_vector m (layer_name i ''post_attention_norm'') hidden) (\<lambda>(post, m).
     and_then (take_named_matrix m (layer_name i ''gate_proj'') hidden inter) (\<lambda>(gate, m).
     and_then (take_named_matrix m (layer_name i ''up_proj'') hidden inter) (\<lambda>(up, m).
     and_then (take_named_matrix m (layer_name i ''down_proj'') inter hidden) (\<lambda>(down, m).
       Ok (ls @ [\<lparr>lw_input_norm = input_norm, lw_q_proj = q, lw_k_proj = k, lw_v_proj = v, lw_o_proj = proj_o,
          lw_post_attention_norm = post, lw_gate_proj = gate, lw_up_proj = up, lw_down_proj = down\<rparr>], m)))))))))))"

definition from_named_logical_tensors :: "model_config \<Rightarrow> tensor_map \<Rightarrow> nnis_error + model_weights" where
  "from_named_logical_tensors c m =
     and_then (config_validate c) (\<lambda>_.
     and_then (key_value_width c) (\<lambda>kv.
     and_then (take_named_matrix m (lit ''token_embedding'') (mc_vocab_size c) (mc_hidden_size c)) (\<lambda>(embedding, m).
     and_then (for_each_res (take_layer c kv) ([], m) [0..<mc_num_hidden_layers c]) (\<lambda>(layers, m).
     and_then (take_named_vector m (lit ''final_norm'') (mc_hidden_size c)) (\<lambda>(norm, m).
     and_then (take_named_matrix m (lit ''lm_head'') (mc_hidden_size c) (mc_vocab_size c)) (\<lambda>(head, m).
       let w = \<lparr>wt_token_embedding = embedding, wt_layers = layers, wt_final_norm = norm, wt_lm_head = head\<rparr> in
       if m \<noteq> [] then
         Err (invalid_input (lit ''unexpected logical tensors remain while rebuilding model weights: '' @
           join_with (lit '', '') (sort (map fst m))))
       else and_then (weights_validate c w) (\<lambda>_. Ok w)))))))"

section \<open>The names of the tensors are distinct\<close>

lemma lit_eq_iff: "lit a = lit b \<longleftrightarrow> a = b"
  by (auto simp: lit_def inj_map_eq_map inj_of_char)

lemma layer_name_eq: "layer_name i a = layer_name j b \<longleftrightarrow> i = j \<and> a = b"
proof
  assume eq: "layer_name i a = layer_name j b"
  have digits: "takeWhile is_digit (dec n @ 46 # r) = dec n" "dropWhile is_digit (dec n @ 46 # r) = 46 # r" for n r
    using dec_digits [of _ n] by (simp_all add: takeWhile_append dropWhile_append is_digit_def)
  have "dec i @ 46 # lit a = dec j @ 46 # lit b" using eq by (simp add: layer_name_def lit_def)
  then have "dec i = dec j \<and> lit a = lit b" using digits by (metis list.inject)
  then show "i = j \<and> a = b" by (simp add: dec_inj lit_eq_iff)
qed simp

lemma layer_name_outer:
  "layer_name i a \<noteq> lit ''token_embedding''" "layer_name i a \<noteq> lit ''final_norm''" "layer_name i a \<noteq> lit ''lm_head''"
  by (simp_all add: layer_name_def lit_def)

lemmas layer_names = layer_tensors_def matrix_entry_def vector_entry_def layer_name_eq

lemma in_layer_tensors: "x \<in> set (layer_tensors (i, l)) \<Longrightarrow> \<exists>a. fst x = layer_name i a"
  by (auto simp: layer_tensors_def matrix_entry_def vector_entry_def)

lemma in_all_layers:
  "x \<in> set (concat (map layer_tensors (enumerate k L))) \<Longrightarrow> \<exists>i a. k \<le> i \<and> fst x = layer_name i a"
proof (induction L arbitrary: k)
  case (Cons l L)
  show ?case
  proof (cases "x \<in> set (layer_tensors (k, l))")
    case True
    then show ?thesis using in_layer_tensors [OF True] by auto
  next
    case False
    then have "x \<in> set (concat (map layer_tensors (enumerate (Suc k) L)))" using Cons.prems by simp
    from Cons.IH [OF this] show ?thesis by (meson Suc_leD)
  qed
qed simp

lemma distinct_layer_tensors: "distinct (map fst (layer_tensors (i, l)))"
  by (simp add: layer_names)

lemma distinct_all_layers: "distinct (map fst (concat (map layer_tensors (enumerate k L))))"
proof (induction L arbitrary: k)
  case (Cons l L)
  have "fst x \<noteq> fst y" if x: "x \<in> set (layer_tensors (k, l))" and y: "y \<in> set (concat (map layer_tensors (enumerate (Suc k) L)))" for x y
  proof -
    obtain a where "fst x = layer_name k a" using in_layer_tensors [OF x] by blast
    moreover obtain j b where "Suc k \<le> j" "fst y = layer_name j b" using in_all_layers [OF y] by blast
    ultimately show ?thesis by (simp add: layer_name_eq)
  qed
  then have "fst ` set (layer_tensors (k, l)) \<inter> fst ` set (concat (map layer_tensors (enumerate (Suc k) L))) = {}"
    by blast
  then show ?case using Cons.IH [of "Suc k"] distinct_layer_tensors [of k l]
    by (simp only: enumerate_simps list.map concat.simps map_append distinct_append set_map)
qed simp

section \<open>Rebuilding what was listed\<close>

definition matrix_built :: "matrix_weight \<Rightarrow> bool" where
  "matrix_built w \<longleftrightarrow> matrix_weight_new (mw_tensor w) (mw_rows w) (mw_cols w) = Ok w"

definition vector_built :: "vector_weight \<Rightarrow> bool" where
  "vector_built w \<longleftrightarrow> vector_weight_new (vw_tensor w) (vw_len w) = Ok w"

definition layer_built :: "layer_weights \<Rightarrow> bool" where
  "layer_built l \<longleftrightarrow>
     list_all matrix_built [lw_q_proj l, lw_k_proj l, lw_v_proj l, lw_o_proj l, lw_gate_proj l, lw_up_proj l, lw_down_proj l] \<and>
     list_all vector_built [lw_input_norm l, lw_post_attention_norm l]"

definition weights_built :: "model_weights \<Rightarrow> bool" where
  "weights_built w \<longleftrightarrow> matrix_built (wt_token_embedding w) \<and> list_all layer_built (wt_layers w) \<and>
     vector_built (wt_final_norm w) \<and> matrix_built (wt_lm_head w)"

definition named :: "logical_tensor \<Rightarrow> rstr \<times> logical_shape \<times> device_tensor" where
  "named = (\<lambda>(name, t, s). (name, s, t))"

lemma fst_named [simp]: "fst (named x) = fst x"
  by (simp add: named_def split_beta)

lemma entry_name [simp]: "fst (matrix_entry name w) = name" "fst (vector_entry name v) = name"
  by (simp_all add: matrix_entry_def vector_entry_def)

lemma take_matrix_head:
  assumes "matrix_built w" "name \<notin> fst ` set m" "mw_rows w = r" "mw_cols w = c"
  shows "take_named_matrix (named (matrix_entry name w) # m) name r c = Ok (w, m)"
  using assms unfolding matrix_built_def
  by (simp add: take_named_matrix_def remove_named_def named_def matrix_entry_def)

lemma take_vector_head:
  assumes "vector_built w" "name \<notin> fst ` set m" "vw_len w = n"
  shows "take_named_vector (named (vector_entry name w) # m) name n = Ok (w, m)"
  using assms unfolding vector_built_def
  by (simp add: take_named_vector_def remove_named_def named_def vector_entry_def)

lemma take_layer_head:
  assumes "layer_built l" "list_all (\<lambda>e. expect_shape e = Ok ()) (layer_expectations c kv (i, l))"
    and "\<And>a. layer_name i a \<notin> fst ` set m"
  shows "take_layer c kv (ls, map named (layer_tensors (i, l)) @ m) i = Ok (ls @ [l], m)"
proof -
  have fits: "vw_len (lw_input_norm l) = mc_hidden_size c" "mw_rows (lw_q_proj l) = mc_hidden_size c" "mw_cols (lw_q_proj l) = mc_hidden_size c"
    "mw_rows (lw_k_proj l) = mc_hidden_size c" "mw_cols (lw_k_proj l) = kv" "mw_rows (lw_v_proj l) = mc_hidden_size c" "mw_cols (lw_v_proj l) = kv"
    "mw_rows (lw_o_proj l) = mc_hidden_size c" "mw_cols (lw_o_proj l) = mc_hidden_size c" "vw_len (lw_post_attention_norm l) = mc_hidden_size c"
    "mw_rows (lw_gate_proj l) = mc_hidden_size c" "mw_cols (lw_gate_proj l) = mc_intermediate_size c" "mw_rows (lw_up_proj l) = mc_hidden_size c"
    "mw_cols (lw_up_proj l) = mc_intermediate_size c" "mw_rows (lw_down_proj l) = mc_intermediate_size c" "mw_cols (lw_down_proj l) = mc_hidden_size c"
    using assms(2) by (auto simp: layer_expectations_def Let_def split: if_split_asm)
  show ?thesis
    using assms(1,3) unfolding take_layer_def layer_tensors_def prod.case Let_def list.map append.simps
    by (simp add: layer_built_def take_matrix_head take_vector_head layer_name_eq fits)
qed

lemma take_layers:
  assumes "list_all layer_built L" "\<forall>e \<in> set (concat (map (layer_expectations c kv) (enumerate k L))). expect_shape e = Ok ()"
    and "\<And>i a. layer_name i a \<notin> fst ` set m"
  shows "for_each_res (take_layer c kv) (ls, map named (concat (map layer_tensors (enumerate k L))) @ m) [k..<k + length L] =
    Ok (ls @ L, m)"
  using assms(1,2)
proof (induction L arbitrary: ls k)
  case (Cons l L)
  let ?rest = "map named (concat (map layer_tensors (enumerate (Suc k) L))) @ m"
  have fresh: "layer_name k a \<notin> fst ` set ?rest" for a
  proof
    assume "layer_name k a \<in> fst ` set ?rest"
    then have "layer_name k a \<in> fst ` set (concat (map layer_tensors (enumerate (Suc k) L)))"
      using assms(3) [of k a] by (simp only: set_append image_Un Un_iff set_map image_image fst_named) blast
    then obtain x where x: "x \<in> set (concat (map layer_tensors (enumerate (Suc k) L)))" "layer_name k a = fst x"
      by (rule imageE)
    obtain i b where "Suc k \<le> i" "fst x = layer_name i b" using in_all_layers [OF x(1)] by blast
    then show False using x(2) by (simp add: layer_name_eq)
  qed
  have "list_all (\<lambda>e. expect_shape e = Ok ()) (layer_expectations c kv (k, l))"
    using Cons.prems(2) by (auto simp: list_all_iff)
  then have step: "take_layer c kv (ls, map named (layer_tensors (k, l)) @ ?rest) k = Ok (ls @ [l], ?rest)"
    using Cons.prems(1) fresh by (intro take_layer_head) simp_all
  have rest: "for_each_res (take_layer c kv) (ls @ [l], ?rest) [Suc k..<Suc k + length L] = Ok ((ls @ [l]) @ L, m)"
    using Cons.prems by (intro Cons.IH) simp_all
  have range: "[k..<k + length (l # L)] = k # [Suc k..<Suc k + length L]" by (simp add: upt_conv_Cons del: upt_Suc)
  show ?case unfolding range using step rest by simp
qed simp

section \<open>The accounting\<close>

text \<open>What the summary should observe of a tensor: its name, allocation, type, elements and bytes.\<close>

definition observed_as :: "logical_tensor \<Rightarrow> allocation_observation" where
  "observed_as = (\<lambda>(name, t, _). \<lparr>ob_logical_name = name, ob_allocation_key = allocation_key t,
     ob_dtype = tensor_allocation_dtype t, ob_elements = tensor_len t, ob_bytes = tensor_size_bytes t\<rparr>)"

lemma observe_tensors_Ok:
  "for_each_res observe_tensor before ts = Ok obs \<Longrightarrow>
     obs = before @ map observed_as ts \<and> (\<forall>(_, t, _) \<in> set ts. tensor_len t \<noteq> 0 \<and> allocation_key t \<noteq> 0)"
proof (induction ts arbitrary: before)
  case (Cons x ts)
  obtain name t shape where x: "x = (name, t, shape)" by (cases x)
  then have step: "observe_tensor before x = Ok (before @ [observed_as x])" and live: "tensor_len t \<noteq> 0 \<and> allocation_key t \<noteq> 0"
    using Cons.prems by (auto simp: observe_tensor_def observed_as_def u64_of_usize_def and_then_Ok_iff ok_or_Ok_iff split: if_split_asm)
  from Cons.IH [of "before @ [observed_as x]"] Cons.prems show ?case using live step by (simp add: x)
qed simp

text \<open>The allocation keys in order of first appearance.\<close>

definition first_keys :: "allocation_observation list \<Rightarrow> nat list" where
  "first_keys obs = fold (\<lambda>ob ks. if ob_allocation_key ob \<in> set ks then ks else ks @ [ob_allocation_key ob]) obs []"

definition names_of :: "nat \<Rightarrow> allocation_observation list \<Rightarrow> rstr list" where
  "names_of k obs = map ob_logical_name (filter (\<lambda>ob. ob_allocation_key ob = k) obs)"

lemma first_keys_snoc:
  "first_keys (obs @ [ob]) =
     (if ob_allocation_key ob \<in> set (first_keys obs) then first_keys obs else first_keys obs @ [ob_allocation_key ob])"
  by (simp add: first_keys_def)

lemma first_keys_set: "set (first_keys obs) = ob_allocation_key ` set obs"
  by (induction obs rule: rev_induct) (auto simp: first_keys_snoc first_keys_def [of "[]"])

lemma first_keys_distinct: "distinct (first_keys obs)"
  by (induction obs rule: rev_induct) (auto simp: first_keys_snoc first_keys_def [of "[]"])

definition segments_of :: "allocation_observation list \<Rightarrow> allocation_segment list \<Rightarrow> bool" where
  "segments_of obs gs \<longleftrightarrow> length gs = length (first_keys obs) \<and>
     (\<forall>i < length gs. sg_allocation_index (gs ! i) = i \<and> sg_logical_names (gs ! i) = names_of (first_keys obs ! i) obs \<and>
        (\<forall>ob \<in> set obs. ob_allocation_key ob = first_keys obs ! i \<longrightarrow> segment_agrees (gs ! i) ob))"

definition summary_inv :: "allocation_observation list \<Rightarrow> summary_state \<Rightarrow> bool" where
  "summary_inv obs st \<longleftrightarrow> ss_references st = length obs \<and>
     ss_element_references st = sum_list (map ob_elements obs) \<and>
     ss_unique_elements st = sum_list (map sg_elements (ss_segments st)) \<and>
     ss_owned_bytes st = sum_list (map sg_bytes (ss_segments st)) \<and>
     (\<forall>k i. ss_indices st k = Some i \<longleftrightarrow> i < length (first_keys obs) \<and> first_keys obs ! i = k) \<and>
     segments_of obs (ss_segments st)"

lemma summary_inv_start: "summary_inv [] summary_start"
  by (simp add: summary_inv_def summary_start_def segments_of_def first_keys_def)

lemma names_of_snoc:
  "names_of k (obs @ [ob]) = names_of k obs @ (if ob_allocation_key ob = k then [ob_logical_name ob] else [])"
  by (simp add: names_of_def)

lemma alias_segments:
  assumes S: "segments_of obs gs" and i: "i < length gs" "first_keys obs ! i = ob_allocation_key ob"
    and agrees: "segment_agrees (gs ! i) ob"
  shows "segments_of (obs @ [ob]) (gs[i := (gs ! i)\<lparr>sg_logical_names := sg_logical_names (gs ! i) @ [ob_logical_name ob]\<rparr>])"
proof -
  have len: "length gs = length (first_keys obs)" using S by (simp add: segments_of_def)
  have keys: "first_keys (obs @ [ob]) = first_keys obs"
    using i len by (simp add: first_keys_snoc) (metis nth_mem)
  have other: "first_keys obs ! j \<noteq> ob_allocation_key ob" if "j < length gs" "j \<noteq> i" for j
    using that i len nth_eq_iff_index_eq [OF first_keys_distinct, of j obs i] by simp
  show ?thesis
    using S i agrees other unfolding segments_of_def keys
    by (auto simp: nth_list_update names_of_snoc segment_agrees_def nth_eq_iff_index_eq [OF first_keys_distinct])
qed

lemma fresh_segments:
  assumes S: "segments_of obs gs" and new: "ob_allocation_key ob \<notin> set (first_keys obs)"
  shows "segments_of (obs @ [ob]) (gs @ [\<lparr>sg_allocation_index = length gs, sg_dtype = ob_dtype ob,
    sg_elements = ob_elements ob, sg_bytes = ob_bytes ob, sg_logical_names = [ob_logical_name ob]\<rparr>])"
proof -
  have len: "length gs = length (first_keys obs)" using S by (simp add: segments_of_def)
  have keys: "first_keys (obs @ [ob]) = first_keys obs @ [ob_allocation_key ob]" using new by (simp add: first_keys_snoc)
  have none: "filter (\<lambda>x. ob_allocation_key x = ob_allocation_key ob) obs = []"
    using new unfolding filter_empty_conv first_keys_set by (metis imageI)
  have other: "first_keys obs ! j \<noteq> ob_allocation_key ob" if "j < length gs" for j
    using that new len by (metis nth_mem)
  have absent: "ob_allocation_key x \<noteq> ob_allocation_key ob" if "x \<in> set obs" for x
    using that new unfolding first_keys_set by (metis imageI)
  let ?new = "\<lparr>sg_allocation_index = length gs, sg_dtype = ob_dtype ob,
    sg_elements = ob_elements ob, sg_bytes = ob_bytes ob, sg_logical_names = [ob_logical_name ob]\<rparr>"
  have "sg_allocation_index ((gs @ [?new]) ! i) = i \<and>
      sg_logical_names ((gs @ [?new]) ! i) = names_of ((first_keys obs @ [ob_allocation_key ob]) ! i) (obs @ [ob]) \<and>
      (\<forall>x \<in> set (obs @ [ob]). ob_allocation_key x = (first_keys obs @ [ob_allocation_key ob]) ! i \<longrightarrow>
        segment_agrees ((gs @ [?new]) ! i) x)" if i: "i < Suc (length gs)" for i
  proof (cases "i < length gs")
    case True
    then show ?thesis
      using S other [OF True] len by (simp add: segments_of_def nth_append names_of_snoc)
  next
    case False
    then have "i = length gs" using i by simp
    then show ?thesis using none absent len by (simp add: nth_append names_of_snoc names_of_def [of _ obs] segment_agrees_def)
  qed
  then show ?thesis unfolding segments_of_def keys by (simp add: len)
qed

lemma observe_inv:
  assumes "summary_inv obs st" "observe_allocation st ob = Ok st'"
  shows "summary_inv (obs @ [ob]) st'"
proof (cases "ss_indices st (ob_allocation_key ob)")
  case None
  let ?g = "\<lparr>sg_allocation_index = length (ss_segments st), sg_dtype = ob_dtype ob,
    sg_elements = ob_elements ob, sg_bytes = ob_bytes ob, sg_logical_names = [ob_logical_name ob]\<rparr>"
  have new: "ob_allocation_key ob \<notin> set (first_keys obs)"
  proof
    assume "ob_allocation_key ob \<in> set (first_keys obs)"
    then obtain i where "i < length (first_keys obs)" "first_keys obs ! i = ob_allocation_key ob" by (auto simp: in_set_conv_nth)
    then have "ss_indices st (ob_allocation_key ob) = Some i" using assms(1) by (simp add: summary_inv_def)
    then show False using None by simp
  qed
  have st': "ss_references st' = Suc (ss_references st)" "ss_element_references st' = ss_element_references st + ob_elements ob"
    "ss_unique_elements st' = ss_unique_elements st + ob_elements ob" "ss_owned_bytes st' = ss_owned_bytes st + ob_bytes ob"
    "ss_indices st' = (ss_indices st)(ob_allocation_key ob \<mapsto> length (ss_segments st))" "ss_segments st' = ss_segments st @ [?g]"
    using assms(2) None by (auto simp: observe_allocation_def count_up_def Let_def u32_of_usize_def split: if_split_asm)
  have S: "segments_of obs (ss_segments st)" using assms(1) by (simp add: summary_inv_def)
  have keys: "first_keys (obs @ [ob]) = first_keys obs @ [ob_allocation_key ob]" using new by (simp add: first_keys_snoc)
  have len: "length (ss_segments st) = length (first_keys obs)" using S by (simp add: segments_of_def)
  have idx: "ss_indices st' k = Some i \<longleftrightarrow> i < length (first_keys (obs @ [ob])) \<and> first_keys (obs @ [ob]) ! i = k" for k i
    using assms(1) new unfolding keys st'(5)
    by (auto simp: summary_inv_def nth_append less_Suc_eq len) (metis nth_mem)+
  show ?thesis
    using assms(1) idx fresh_segments [OF S new] by (simp add: summary_inv_def st')
next
  case (Some i)
  have i: "i < length (first_keys obs)" "first_keys obs ! i = ob_allocation_key ob"
    using assms(1) Some by (auto simp: summary_inv_def)
  have S: "segments_of obs (ss_segments st)" using assms(1) by (simp add: summary_inv_def)
  have len: "length (ss_segments st) = length (first_keys obs)" using S by (simp add: segments_of_def)
  let ?g = "ss_segments st ! i"
  have st': "ss_references st' = Suc (ss_references st)" "ss_element_references st' = ss_element_references st + ob_elements ob"
    "ss_unique_elements st' = ss_unique_elements st" "ss_owned_bytes st' = ss_owned_bytes st"
    "ss_indices st' = ss_indices st" "segment_agrees ?g ob"
    "ss_segments st' = (ss_segments st)[i := (?g)\<lparr>sg_logical_names := sg_logical_names ?g @ [ob_logical_name ob]\<rparr>]"
    using assms(2) Some i(1) len by (auto simp: observe_allocation_def count_up_def Let_def split: if_split_asm)
  have keys: "first_keys (obs @ [ob]) = first_keys obs" using i by (simp add: first_keys_snoc) (metis nth_mem)
  have same: "map f (ss_segments st') = map f (ss_segments st)"
    if "\<And>g n. f (g\<lparr>sg_logical_names := n\<rparr>) = f g" for f :: "allocation_segment \<Rightarrow> nat"
    using i(1) len that by (simp add: st'(7) map_update) (metis list_update_id nth_map)
  show ?thesis
    using assms(1) alias_segments [OF S _ i(2) st'(6)] i(1) len same
    by (simp add: summary_inv_def st' keys)
qed

lemma observe_all_inv:
  assumes "summary_inv obs st" "for_each_res observe_allocation st later = Ok st'"
  shows "summary_inv (obs @ later) st'"
  using assms
proof (induction later arbitrary: obs st)
  case (Cons ob later)
  then obtain u where "observe_allocation st ob = Ok u" "for_each_res observe_allocation u later = Ok st'" by auto
  then show ?case using Cons.IH [of "obs @ [ob]" u] observe_inv [OF Cons.prems(1)] by simp
qed simp


text \<open>One layer of width two, with every weight in its own allocation.\<close>

definition demo_config :: model_config where
  "demo_config = \<lparr>mc_vocab_size = 2, mc_eos_token_id = None, mc_hidden_size = 2, mc_intermediate_size = 1,
     mc_num_hidden_layers = 1, mc_num_attention_heads = 1, mc_num_key_value_heads = 1, mc_max_position_embeddings = 8,
     mc_rms_norm_eps = f32_one, mc_rope_theta = f32_one, mc_activation = Silu, mc_weight_dtype = W_F32\<rparr>"

definition demo_matrix :: "nat \<Rightarrow> nat \<Rightarrow> nat \<Rightarrow> matrix_weight" where
  "demo_matrix p r c = \<lparr>mw_tensor = T_F32 \<lparr>buf_ptr = p, buf_len = r * c, buf_ctx = 7\<rparr>, mw_rows = r, mw_cols = c\<rparr>"

definition demo_vector :: "nat \<Rightarrow> nat \<Rightarrow> vector_weight" where
  "demo_vector p n = \<lparr>vw_tensor = T_F32 \<lparr>buf_ptr = p, buf_len = n, buf_ctx = 7\<rparr>, vw_len = n\<rparr>"

definition demo_weights :: model_weights where
  "demo_weights = \<lparr>wt_token_embedding = demo_matrix 4096 2 2,
     wt_layers = [\<lparr>lw_input_norm = demo_vector 4112 2, lw_q_proj = demo_matrix 4128 2 2, lw_k_proj = demo_matrix 4144 2 2,
       lw_v_proj = demo_matrix 4160 2 2, lw_o_proj = demo_matrix 4176 2 2, lw_post_attention_norm = demo_vector 4192 2,
       lw_gate_proj = demo_matrix 4200 2 1, lw_up_proj = demo_matrix 4208 2 1, lw_down_proj = demo_matrix 4216 1 2\<rparr>],
     wt_final_norm = demo_vector 4224 2, wt_lm_head = demo_matrix 4232 2 2\<rparr>"

lemma demo_finite: "finite_positive f32_one"
  by (simp add: finite_positive_def f32_one_def f32_is_finite_def f32_mag_def f32_le_def f32_is_nan_def f32_zero_def
      f32_key_def f32_sign_negative_def)

lemma demo_config_valid: "config_validate demo_config = Ok ()"
proof -
  have sizes: "check_all require_size (config_sizes demo_config) = Ok ()"
    unfolding check_all_Ok_iff by (simp add: config_sizes_def require_size_def demo_config_def)
  have sel: "mc_hidden_size demo_config = 2" "mc_num_attention_heads demo_config = 1" "mc_num_key_value_heads demo_config = 1"
    "mc_head_dim demo_config = 2" "mc_rms_norm_eps demo_config = f32_one" "mc_rope_theta demo_config = f32_one"
    "mc_eos_token_id demo_config = None" "mc_vocab_size demo_config = 2" "mc_max_position_embeddings demo_config = 8"
    by (simp_all add: demo_config_def mc_head_dim_def)
  have "checked_mul 2 2 = Some 4" "checked_mul 8 2 = Some 16" by (simp_all add: checked_mul_def u64_lim_def)
  then show ?thesis
    unfolding config_validate_def sizes sel eos_in_vocab_def option.case and_then_simps
    by (simp only: demo_finite ok_or_simps and_then_simps not_True_eq_False if_False mod_self simp_thms) simp
qed

lemma demo_kv_width: "key_value_width demo_config = Ok 2"
  by (simp add: key_value_width_def demo_config_def mc_head_dim_def checked_mul_def u64_lim_def)

lemma demo_weights_valid: "weights_validate demo_config demo_weights = Ok ()"
proof -
  have outer: "check_all expect_shape (outer_expectations demo_config demo_weights) = Ok ()"
    unfolding check_all_Ok_iff
    by (simp add: demo_weights_def demo_config_def outer_expectations_def demo_matrix_def demo_vector_def)
  have inner: "check_all expect_shape (concat (map (layer_expectations demo_config 2) (enumerate 0 (wt_layers demo_weights)))) = Ok ()"
    unfolding check_all_Ok_iff
    by (simp add: demo_weights_def demo_config_def layer_expectations_def demo_matrix_def demo_vector_def Let_def)
  have tensors: "for_each_logical_tensor (\<lambda>(name, t, _). check_tensor ''config'' (mc_weight_dtype demo_config) (weights_context demo_weights) name t)
      demo_weights = Ok ()"
    unfolding for_each_logical_tensor_def check_all_Ok_iff
    by (simp add: demo_weights_def demo_config_def logical_tensors_def layer_tensors_def matrix_entry_def vector_entry_def
        demo_matrix_def demo_vector_def check_tensor_def weights_context_def tensor_context_def)
  have layers: "length (wt_layers demo_weights) = mc_num_hidden_layers demo_config"
    by (simp add: demo_weights_def demo_config_def)
  show ?thesis unfolding weights_validate_def demo_config_valid demo_kv_width and_then_simps outer inner tensors
    using layers by simp
qed

lemma demo_weights_built: "weights_built demo_weights"
  by (simp add: weights_built_def layer_built_def matrix_built_def vector_built_def matrix_weight_new_def vector_weight_new_def
      demo_weights_def demo_matrix_def demo_vector_def tensor_len_def checked_mul_def u64_lim_def)

section \<open>Rebuilding from the named tensors\<close>

lemma named_tensors_rebuild:
  assumes "weights_validate c w = Ok ()" "weights_built w"
  shows "from_named_logical_tensors c (map (\<lambda>(name, t, shape). (name, shape, t)) (logical_tensors w)) = Ok w"
proof -
  obtain kv where V: "config_validate c = Ok ()" "length (wt_layers w) = mc_num_hidden_layers c" "key_value_width c = Ok kv"
    and outer: "\<forall>e \<in> set (outer_expectations c w). expect_shape e = Ok ()"
    and inner: "\<forall>e \<in> set (concat (map (layer_expectations c kv) (enumerate 0 (wt_layers w)))). expect_shape e = Ok ()"
    using assms(1) unfolding weights_validate_def
    by (auto simp del: set_concat split: if_splits)
  have built: "matrix_built (wt_token_embedding w)" "list_all layer_built (wt_layers w)" "vector_built (wt_final_norm w)" "matrix_built (wt_lm_head w)"
    using assms(2) by (simp_all add: weights_built_def)
  have fits: "mw_rows (wt_token_embedding w) = mc_vocab_size c" "mw_cols (wt_token_embedding w) = mc_hidden_size c"
    "vw_len (wt_final_norm w) = mc_hidden_size c" "mw_rows (wt_lm_head w) = mc_hidden_size c" "mw_cols (wt_lm_head w) = mc_vocab_size c"
    using outer by (auto simp: outer_expectations_def split: if_split_asm)
  let ?tail = "[named (vector_entry (lit ''final_norm'') (wt_final_norm w)), named (matrix_entry (lit ''lm_head'') (wt_lm_head w))]"
  let ?layers = "map named (concat (map layer_tensors (enumerate 0 (wt_layers w))))"
  have entries: "map (\<lambda>(name, t, shape). (name, shape, t)) (logical_tensors w) =
      named (matrix_entry (lit ''token_embedding'') (wt_token_embedding w)) # ?layers @ ?tail"
    unfolding named_def by (simp add: logical_tensors_def)
  have "lit ''token_embedding'' \<notin> fst ` set (?layers @ ?tail)"
  proof
    assume "lit ''token_embedding'' \<in> fst ` set (?layers @ ?tail)"
    then have "lit ''token_embedding'' \<in> fst ` set (concat (map layer_tensors (enumerate 0 (wt_layers w))))"
      by (simp only: set_append image_Un Un_iff set_map image_image fst_named list.set) (simp add: lit_eq_iff)
    then obtain x where x: "x \<in> set (concat (map layer_tensors (enumerate 0 (wt_layers w))))" "lit ''token_embedding'' = fst x"
      by (rule imageE)
    then show False using in_all_layers [OF x(1)] layer_name_outer(1) by metis
  qed
  note take1 = take_matrix_head [OF built(1) this fits(1,2)]
  have "layer_name i a \<notin> fst ` set ?tail" for i a by (simp add: layer_name_outer)
  note take2 = take_layers [OF built(2) inner this, of "[]", unfolded V(2) add_0 append_Nil]
  have take3: "take_named_vector ?tail (lit ''final_norm'') (mc_hidden_size c) =
      Ok (wt_final_norm w, [named (matrix_entry (lit ''lm_head'') (wt_lm_head w))])"
    by (rule take_vector_head [OF built(3) _ fits(3)]) (simp add: lit_eq_iff)
  have take4: "take_named_matrix [named (matrix_entry (lit ''lm_head'') (wt_lm_head w))] (lit ''lm_head'') (mc_hidden_size c) (mc_vocab_size c) =
      Ok (wt_lm_head w, [])"
    by (rule take_matrix_head [OF built(4) _ fits(4,5)]) simp
  have same: "\<lparr>wt_token_embedding = wt_token_embedding w, wt_layers = wt_layers w, wt_final_norm = wt_final_norm w,
      wt_lm_head = wt_lm_head w\<rparr> = w" by simp
  show ?thesis unfolding entries from_named_logical_tensors_def V(1,3)
    by (simp only: and_then_simps prod.case Let_def take1 take2 take3 take4 same assms(1) simp_thms if_False)
qed

text \<open>One tensor for each allocation: the first that refers to it.\<close>

definition tensor_key :: "logical_tensor \<Rightarrow> nat" where
  "tensor_key = (\<lambda>(_, t, _). allocation_key t)"

definition first_tensors :: "logical_tensor list \<Rightarrow> logical_tensor list" where
  "first_tensors ts = fold (\<lambda>x acc. if tensor_key x \<in> tensor_key ` set acc then acc else acc @ [x]) ts []"

lemma first_tensors_snoc:
  "first_tensors (ts @ [x]) =
     (if tensor_key x \<in> tensor_key ` set (first_tensors ts) then first_tensors ts else first_tensors ts @ [x])"
  by (simp add: first_tensors_def)

lemma observed_as_key [simp]: "ob_allocation_key (observed_as x) = tensor_key x"
  by (simp add: observed_as_def tensor_key_def split_beta)

lemma first_tensors_keys: "map tensor_key (first_tensors ts) = first_keys (map observed_as ts)"
  by (induction ts rule: rev_induct)
    (simp_all add: first_tensors_snoc first_keys_snoc first_tensors_def [of "[]"] first_keys_def [of "[]"] flip: set_map)

lemma first_tensors_subset: "set (first_tensors ts) \<subseteq> set ts"
  by (induction ts rule: rev_induct) (auto simp: first_tensors_snoc first_tensors_def [of "[]"])

lemma segments_first:
  assumes "segments_of (map observed_as ts) gs"
  shows "map sg_elements gs = map (\<lambda>(_, t, _). tensor_len t) (first_tensors ts)"
    and "map sg_bytes gs = map (\<lambda>(_, t, _). tensor_size_bytes t) (first_tensors ts)"
proof -
  note keys = first_tensors_keys [of ts]
  have len: "length gs = length (first_tensors ts)" using assms arg_cong [OF keys, of length] by (simp add: segments_of_def)
  have agree: "segment_agrees (gs ! i) (observed_as (first_tensors ts ! i))" if i: "i < length gs" for i
  proof -
    have "tensor_key (first_tensors ts ! i) = first_keys (map observed_as ts) ! i"
      using i len arg_cong [OF keys, of "\<lambda>xs. xs ! i"] by simp
    moreover have "first_tensors ts ! i \<in> set ts" using i len first_tensors_subset [of ts] by auto
    ultimately show ?thesis using assms i by (simp add: segments_of_def)
  qed
  show "map sg_elements gs = map (\<lambda>(_, t, _). tensor_len t) (first_tensors ts)"
    and "map sg_bytes gs = map (\<lambda>(_, t, _). tensor_size_bytes t) (first_tensors ts)"
    using len agree by (auto intro!: nth_equalityI simp: segment_agrees_def observed_as_def split_beta)
qed

lemma summarized:
  assumes "summarize_weight_allocations obs = Ok s"
  shows "as_logical_tensor_references s = length obs \<and>
    as_logical_element_references s = sum_list (map ob_elements obs) \<and>
    as_unique_device_allocations s = card (ob_allocation_key ` set obs) \<and>
    as_unique_device_elements s = sum_list (map sg_elements (as_segments s)) \<and>
    as_owned_device_allocation_bytes s = sum_list (map sg_bytes (as_segments s)) \<and>
    segments_of obs (as_segments s)"
proof -
  obtain st where st: "for_each_res observe_allocation summary_start obs = Ok st"
    and s: "s = \<lparr>as_schema_version = 1, as_logical_tensor_references = ss_references st,
       as_logical_element_references = ss_element_references st, as_unique_device_allocations = length (ss_segments st),
       as_unique_device_elements = ss_unique_elements st, as_owned_device_allocation_bytes = ss_owned_bytes st,
       as_segments = ss_segments st\<rparr>"
    using assms by (auto simp: summarize_weight_allocations_def u64_of_usize_def NNIS_WEIGHT_ALLOCATION_SUMMARY_VERSION_def split: if_splits)
  have inv: "summary_inv obs st" using observe_all_inv [OF summary_inv_start st] by simp
  then have "length (ss_segments st) = card (set (first_keys obs))"
    by (simp add: summary_inv_def segments_of_def distinct_card [OF first_keys_distinct])
  then show ?thesis using inv by (simp add: s summary_inv_def first_keys_set)
qed

lemma summary_counted:
  assumes "weight_allocation_summary w = Ok s"
  shows "as_logical_tensor_references s = length (logical_tensors w) \<and>
    as_logical_element_references s = sum_list (map (\<lambda>(_, t, _). tensor_len t) (logical_tensors w)) \<and>
    as_unique_device_allocations s = card (tensor_key ` set (logical_tensors w)) \<and>
    as_unique_device_elements s = sum_list (map (\<lambda>(_, t, _). tensor_len t) (first_tensors (logical_tensors w))) \<and>
    as_owned_device_allocation_bytes s = sum_list (map (\<lambda>(_, t, _). tensor_size_bytes t) (first_tensors (logical_tensors w)))"
    and "segments_of (map observed_as (logical_tensors w)) (as_segments s)"
    and "\<forall>(_, t, _) \<in> set (logical_tensors w). tensor_len t \<noteq> 0 \<and> allocation_key t \<noteq> 0"
proof -
  let ?ts = "logical_tensors w" and ?obs = "map observed_as (logical_tensors w)"
  obtain obs where obs: "for_each_res observe_tensor [] ?ts = Ok obs" "summarize_weight_allocations obs = Ok s"
    using assms by (auto simp: weight_allocation_summary_def and_then_Ok_iff)
  note O = observe_tensors_Ok [OF obs(1)]
  have run: "summarize_weight_allocations ?obs = Ok s" using O obs(2) by simp
  have eqs: "map ob_elements ?obs = map (\<lambda>(_, t, _). tensor_len t) ?ts" "ob_allocation_key ` set ?obs = tensor_key ` set ?ts"
    by (auto simp: observed_as_def image_image split_beta tensor_key_def)
  show "as_logical_tensor_references s = length ?ts \<and> as_logical_element_references s = sum_list (map (\<lambda>(_, t, _). tensor_len t) ?ts) \<and>
      as_unique_device_allocations s = card (tensor_key ` set ?ts) \<and>
      as_unique_device_elements s = sum_list (map (\<lambda>(_, t, _). tensor_len t) (first_tensors ?ts)) \<and>
      as_owned_device_allocation_bytes s = sum_list (map (\<lambda>(_, t, _). tensor_size_bytes t) (first_tensors ?ts))"
    and "segments_of ?obs (as_segments s)"
    and "\<forall>(_, t, _) \<in> set ?ts. tensor_len t \<noteq> 0 \<and> allocation_key t \<noteq> 0"
    using summarized [OF run, unfolded eqs length_map] segments_first [of ?ts "as_segments s"] O by (metis (no_types, lifting))+
qed

section \<open>Properties\<close>

text \<open>C28. The allocation summary of a weight graph is exact.  An accepted summary counts every logical tensor of the
  graph and all their elements, and each tensor is live; there is one segment for each distinct device allocation of
  the tensors, in order of first appearance, with the names of all the tensors on that allocation, in order, and the
  type, elements and bytes of each of them; the unique elements and the owned bytes count the first
  tensor of each allocation.\<close>

theorem weight_summary_exact:
  assumes "weight_allocation_summary w = Ok s"
  shows "as_logical_tensor_references s = length (logical_tensors w) \<and>
    as_logical_element_references s = sum_list (map (\<lambda>(_, t, _). tensor_len t) (logical_tensors w)) \<and>
    as_unique_device_allocations s = card (tensor_key ` set (logical_tensors w)) \<and>
    as_unique_device_elements s = sum_list (map (\<lambda>(_, t, _). tensor_len t) (first_tensors (logical_tensors w))) \<and>
    as_owned_device_allocation_bytes s = sum_list (map (\<lambda>(_, t, _). tensor_size_bytes t) (first_tensors (logical_tensors w))) \<and>
    segments_of (map observed_as (logical_tensors w)) (as_segments s) \<and>
    (\<forall>(_, t, _) \<in> set (logical_tensors w). tensor_len t \<noteq> 0 \<and> allocation_key t \<noteq> 0)"
  using summary_counted [OF assms] by blast

text \<open>C11. Rebuilding a weight graph from its own named tensors gives it back.  For a graph that passes the checks
  of its configuration and whose weights were built by their constructors, naming each tensor and rebuilding
  from the map of names yields the same graph, with every layer's weights in its place.\<close>

theorem weights_named_roundtrip:
  assumes "weights_validate c w = Ok ()" "weights_built w"
  shows "from_named_logical_tensors c (map (\<lambda>(name, t, shape). (name, shape, t)) (logical_tensors w)) = Ok w"
  by (rule named_tensors_rebuild [OF assms])

theorem weights_named_roundtrip_witness:
  "from_named_logical_tensors demo_config (map (\<lambda>(name, t, shape). (name, shape, t)) (logical_tensors demo_weights)) = Ok demo_weights"
  by (rule weights_named_roundtrip [OF demo_weights_valid demo_weights_built])

end
