(* ===== verification/DecoderModel.thy ===== *)
theory DecoderModel
  imports ModelWeights
begin

text \<open>
  The compiled decoder of \<open>nnis-model/src/runtime.rs\<close> (1--536): which kernels a set of execution plans makes
  it load, the checks before any of them is loaded, and how each stage of a layer is dispatched to one of
  them.  A launch is a \<open>kernel_call\<close>: the kernel with the buffers and sizes it is given.  What the device does
  on a launch is the argument \<open>md_launch\<close>; the kernels' own host wrappers are not modelled, nor is the
  floating point of the rotary tables and of the attention scale, which are arguments as well.
\<close>

section \<open>Launches\<close>

datatype kernel_call =
    Gather device_buffer device_buffer device_buffer nat nat
  | Weighted_rms_norm device_buffer device_buffer device_buffer nat nat f32
  | Gemm_call device_buffer device_buffer device_buffer nat nat nat
  | Gemv_call nat device_buffer device_buffer device_buffer nat nat
  | Bf16_gemv_call device_buffer device_buffer device_buffer nat nat
  | Rope_position device_buffer device_buffer device_buffer device_buffer nat nat nat nat
  | Serial_attention device_buffer rt_kv_cache nat device_buffer f32
  | Parallel_value_attention device_buffer rt_kv_cache nat device_buffer f32
  | Vector_add device_buffer device_buffer device_buffer
  | Silu_call device_buffer device_buffer
  | Multiply device_buffer device_buffer device_buffer
  | Fused_silu_multiply device_buffer device_buffer device_buffer
  | Select_token device_buffer device_buffer nat
  | Record_token device_buffer device_buffer nat
  | Top_k device_buffer device_buffer device_buffer nat "device_buffer list"

text \<open>Arguments are in the order of the source: inputs, then outputs, then sizes.\<close>

record 's decoder_model =
  md_config :: model_config
  md_weights :: model_weights
  md_context :: nat
  md_projection :: projection_plan
  md_representation :: representation_plan
  md_fusion :: fusion_plan
  md_attention :: attention_plan
  md_gemv_blocks :: "nat list"
  md_bf16_lm_head_gemv :: bool
  md_fused_silu_multiply :: bool
  md_parallel_value_attention :: bool
  md_rope_cos :: device_buffer
  md_rope_sin :: device_buffer
  md_launch :: "kernel_call \<Rightarrow> stream \<Rightarrow> ('s, unit) rt_comp"
  md_attention_scale :: "nat \<Rightarrow> f32"
  md_top_k_workspace :: "nat \<Rightarrow> ('s, device_buffer list) rt_comp"

section \<open>Loading\<close>

text \<open>Compiling and loading a kernel; the block size where the source passes one.\<close>

record 's kernel_loads =
  kl_gather :: "('s, unit) rt_comp"
  kl_gemm :: "('s, unit) rt_comp"
  kl_gemv :: "nat \<Rightarrow> ('s, unit) rt_comp"
  kl_bf16_gemv :: "nat \<Rightarrow> ('s, unit) rt_comp"
  kl_silu_multiply :: "nat \<Rightarrow> ('s, unit) rt_comp"
  kl_parallel_value :: "('s, unit) rt_comp"
  kl_elementwise :: "('s, unit) rt_comp"
  kl_top_k :: "('s, unit) rt_comp"
  kl_decoder :: "('s, unit) rt_comp"
  kl_runtime :: "('s, unit) rt_comp"

fun load_gemvs :: "(nat \<Rightarrow> ('s, unit) rt_comp) \<Rightarrow> projection_kernel list \<Rightarrow> nat list \<Rightarrow> ('s, nat list) rt_comp" where
  "load_gemvs load [] blocks = rt_ok blocks"
| "load_gemvs load (k # ks) blocks =
     (case k of
        Gemv b \<Rightarrow> if b \<in> set blocks then load_gemvs load ks blocks
          else rt_bind (load b) (\<lambda>_. load_gemvs load ks (blocks @ [b]))
      | Gemm \<Rightarrow> load_gemvs load ks blocks)"

definition f32_choices :: "projection_plan \<Rightarrow> representation_plan \<Rightarrow> projection_kernel list" where
  "f32_choices p r =
     [pp_q_o p, pp_k_v p, pp_gate_up p, pp_down p] @ (if rp_lm_head r = P_F32 then [pp_lm_head p] else [])"

text \<open>The block sizes loaded, and whether the BF16 kernel is.\<close>

definition projection_kernels_load ::
  "'s kernel_loads \<Rightarrow> projection_plan \<Rightarrow> representation_plan \<Rightarrow> ('s, nat list \<times> bool) rt_comp" where
  "projection_kernels_load kl p r =
     rt_bind (rt_lift (projection_plan_validate p)) (\<lambda>_.
     rt_bind (rt_lift (representation_plan_validate r)) (\<lambda>_.
     rt_bind (load_gemvs (kl_gemv kl) (f32_choices p r) []) (\<lambda>blocks.
       case rp_lm_head r of
         P_F32 \<Rightarrow> rt_ok (blocks, False)
       | P_Bf16 \<Rightarrow>
           (case pp_lm_head p of
              Gemv b \<Rightarrow> rt_bind (kl_bf16_gemv kl b) (\<lambda>_. rt_ok (blocks, True))
            | Gemm \<Rightarrow> rt_lift (Err (unsupported_lit
                ''BF16 LM-head representation currently requires an explicit GEMV kernel plan''))))))"

text \<open>Everything checked before the first kernel is loaded.\<close>

definition model_admission ::
  "model_config \<Rightarrow> model_weights \<Rightarrow> stream \<Rightarrow> projection_plan \<Rightarrow> representation_plan \<Rightarrow> fusion_plan \<Rightarrow> attention_plan \<Rightarrow>
   nnis_error + unit" where
  "model_admission c w st p r f a =
     and_then (projection_plan_validate p) (\<lambda>_.
     and_then (representation_plan_validate r) (\<lambda>_.
     and_then (fusion_plan_validate f) (\<lambda>_.
     and_then (attention_plan_validate a) (\<lambda>_.
     and_then (validate_execution_support c) (\<lambda>_.
       if mc_weight_dtype c \<noteq> W_F32 then
         Err (unsupported_lit ''the first decoder execution path currently requires an f32 model-format-v1 base graph'')
       else
         and_then
           (case ap_cached_decode a of
              Parallel_value threads \<Rightarrow>
                if mc_head_dim c \<noteq> threads then
                  Err (unsupported (lit ''R2 parallel-value attention was physically qualified only for head_dim='' @
                    dec threads @ lit ''; model head_dim is '' @ dec (mc_head_dim c)))
                else Ok ()
            | Serial_single_thread \<Rightarrow> Ok ()) (\<lambda>_.
         and_then (representation_validate_weights r c w) (\<lambda>_.
           if weights_context w \<noteq> stream_ctx st then
             Err (invalid_lit ''model weights and construction stream must share one CUDA context'')
           else Ok ())))))))"

text \<open>The rotary tables are uploaded last; the first is freed when the second fails.  \<open>rope\<close> is
  \<open>build_rope_cache\<close>, each value the bytes of one \<open>f32\<close>.\<close>

definition upload_rope ::
  "'s cuda \<Rightarrow> nat \<Rightarrow> stream \<Rightarrow> u8 list list \<times> u8 list list \<Rightarrow> ('s, device_buffer \<times> device_buffer) rt_comp" where
  "upload_rope drv ctx st = (\<lambda>(cos_host, sin_host).
     rt_bind (device_buffer_from_host drv 4 ctx st cos_host) (\<lambda>rope_cos s.
       case device_buffer_from_host drv 4 ctx st sin_host s of
         (t, Inl e) \<Rightarrow> (device_buffer_drop drv rope_cos t, Err e)
       | (t, Inr rope_sin) \<Rightarrow> (t, Ok (rope_cos, rope_sin))))"

definition model_new_with_execution_plans ::
  "'s cuda \<Rightarrow> 's kernel_loads \<Rightarrow> (model_config \<Rightarrow> nnis_error + u8 list list \<times> u8 list list) \<Rightarrow>
   (kernel_call \<Rightarrow> stream \<Rightarrow> ('s, unit) rt_comp) \<Rightarrow> (nat \<Rightarrow> f32) \<Rightarrow> (nat \<Rightarrow> ('s, device_buffer list) rt_comp) \<Rightarrow>
   model_config \<Rightarrow> model_weights \<Rightarrow> stream \<Rightarrow> projection_plan \<Rightarrow> representation_plan \<Rightarrow> fusion_plan \<Rightarrow> attention_plan \<Rightarrow>
   ('s, 's decoder_model) rt_comp" where
  "model_new_with_execution_plans drv kl rope launch scale top_k_workspace c w st p r f a =
     rt_bind (rt_lift (model_admission c w st p r f a)) (\<lambda>_.
     rt_bind (kl_gather kl) (\<lambda>_.
     rt_bind (kl_gemm kl) (\<lambda>_.
     rt_bind (projection_kernels_load kl p r) (\<lambda>(blocks, bf16).
     rt_bind (case fp_silu_multiply f of Separate \<Rightarrow> rt_ok () | Fused b \<Rightarrow> kl_silu_multiply kl b) (\<lambda>_.
     rt_bind (case ap_cached_decode a of Serial_single_thread \<Rightarrow> rt_ok () | Parallel_value n \<Rightarrow> kl_parallel_value kl) (\<lambda>_.
     rt_bind (kl_elementwise kl) (\<lambda>_.
     rt_bind (kl_top_k kl) (\<lambda>_.
     rt_bind (kl_decoder kl) (\<lambda>_.
     rt_bind (kl_runtime kl) (\<lambda>_.
     rt_bind (rt_lift (rope c)) (\<lambda>tables.
     rt_bind (upload_rope drv (stream_ctx st) st tables) (\<lambda>(rope_cos, rope_sin).
       rt_ok \<lparr>md_config = c, md_weights = w, md_context = stream_ctx st, md_projection = p, md_representation = r,
         md_fusion = f, md_attention = a, md_gemv_blocks = blocks, md_bf16_lm_head_gemv = bf16,
         md_fused_silu_multiply = (fp_silu_multiply f \<noteq> Separate),
         md_parallel_value_attention = (ap_cached_decode a \<noteq> Serial_single_thread),
         md_rope_cos = rope_cos, md_rope_sin = rope_sin, md_launch = launch, md_attention_scale = scale,
         md_top_k_workspace = top_k_workspace\<rparr>))))))))))))"

section \<open>Dispatch\<close>

datatype projection_family = QO | KV | Gate_up | Down | Lm_head

definition projection_choice :: "'s decoder_model \<Rightarrow> projection_family \<Rightarrow> projection_kernel" where
  "projection_choice m family =
     (case family of
        QO \<Rightarrow> pp_q_o (md_projection m) | KV \<Rightarrow> pp_k_v (md_projection m) | Gate_up \<Rightarrow> pp_gate_up (md_projection m)
      | Down \<Rightarrow> pp_down (md_projection m) | Lm_head \<Rightarrow> pp_lm_head (md_projection m))"

definition gemv_kernel :: "'s decoder_model \<Rightarrow> nat \<Rightarrow> nnis_error + nat" where
  "gemv_kernel m block_size =
     (if block_size \<in> set (md_gemv_blocks m) then Ok block_size
      else Err (unsupported (lit ''projection plan selected unavailable GEMV block size '' @ dec block_size)))"

definition projection_call ::
  "'s decoder_model \<Rightarrow> projection_family \<Rightarrow> device_buffer \<Rightarrow> device_buffer \<Rightarrow> device_buffer \<Rightarrow> nat \<Rightarrow> nat \<Rightarrow>
   nnis_error + kernel_call" where
  "projection_call m family inp weight out k n =
     (case projection_choice m family of
        Gemm \<Rightarrow> Ok (Gemm_call inp weight out 1 n k)
      | Gemv block_size \<Rightarrow> and_then (gemv_kernel m block_size) (\<lambda>b. Ok (Gemv_call b inp weight out k n)))"

definition lm_head_call ::
  "'s decoder_model \<Rightarrow> device_buffer \<Rightarrow> device_tensor \<Rightarrow> device_buffer \<Rightarrow> nat \<Rightarrow> nat \<Rightarrow> nnis_error + kernel_call" where
  "lm_head_call m inp weight out k n =
     (case rp_lm_head (md_representation m) of
        P_F32 \<Rightarrow> and_then (as_f32 weight) (\<lambda>b. projection_call m Lm_head inp b out k n)
      | P_Bf16 \<Rightarrow>
          (case weight of
             T_F32 _ \<Rightarrow> Err (invalid_lit ''representation plan selects BF16 LM-head but resident tensor is f32'')
           | T_Bf16 b \<Rightarrow>
               if md_bf16_lm_head_gemv m then Ok (Bf16_gemv_call inp b out k n)
               else Err (unsupported_lit ''BF16 LM-head GEMV was not loaded for this representation plan'')))"

text \<open>One launch when fused, two otherwise; each is prepared when it is reached.\<close>

definition silu_multiply_calls ::
  "'s decoder_model \<Rightarrow> device_buffer \<Rightarrow> device_buffer \<Rightarrow> device_buffer option \<Rightarrow> device_buffer \<Rightarrow>
   (nnis_error + kernel_call) list" where
  "silu_multiply_calls m gate up activated gated =
     (case fp_silu_multiply (md_fusion m) of
        Separate \<Rightarrow>
          (case activated of
             None \<Rightarrow> [Err (invalid_lit ''baseline SiLU-multiply plan requires the activated workspace buffer'')]
           | Some a \<Rightarrow> [Ok (Silu_call gate a), Ok (Multiply a up gated)])
      | Fused b \<Rightarrow>
          [if md_fused_silu_multiply m then Ok (Fused_silu_multiply gate up gated)
           else Err (unsupported_lit ''fusion plan selected fused SiLU-multiply but the kernel was not loaded'')])"

definition attention_call ::
  "'s decoder_model \<Rightarrow> device_buffer \<Rightarrow> rt_kv_cache \<Rightarrow> nat \<Rightarrow> device_buffer \<Rightarrow> f32 \<Rightarrow> nnis_error + kernel_call" where
  "attention_call m query cache layer out scale =
     (case ap_cached_decode (md_attention m) of
        Serial_single_thread \<Rightarrow> Ok (Serial_attention query cache layer out scale)
      | Parallel_value n \<Rightarrow>
          if md_parallel_value_attention m then Ok (Parallel_value_attention query cache layer out scale)
          else Err (unsupported_lit
            ''attention plan selected parallel-value cached attention but the kernel was not loaded''))"

section \<open>What construction establishes\<close>

lemma rt_bind_Ok: "rt_bind m k s = (t, Ok b) \<longleftrightarrow> (\<exists>u a. m s = (u, Ok a) \<and> k a u = (t, Ok b))"
  by (auto simp: rt_bind_def split: prod.splits sum.splits)

lemma rt_bind_pure: "rt_bind (rt_ok a) k = k a" "rt_bind (rt_lift (Ok a)) k = k a"
  by (simp_all add: fun_eq_iff rt_bind_def)

lemma rt_lift_Ok: "rt_lift r s = (t, Ok a) \<longleftrightarrow> t = s \<and> r = Ok a"
  by auto

lemma load_gemvs_blocks:
  "load_gemvs load ks blocks s = (t, Ok bs) \<Longrightarrow> set bs = set blocks \<union> {b. Gemv b \<in> set ks}"
proof (induction ks arbitrary: blocks s)
  case (Cons k ks)
  show ?case
  proof (cases k)
    case Gemm
    then show ?thesis using Cons by auto
  next
    case (Gemv b)
    show ?thesis
    proof (cases "b \<in> set blocks")
      case True
      then show ?thesis using Cons Gemv by auto
    next
      case False
      then obtain u where "load_gemvs load ks (blocks @ [b]) u = (t, Ok bs)"
        using Cons.prems Gemv by (auto simp: rt_bind_Ok)
      then show ?thesis using Cons.IH Gemv by fastforce
    qed
  qed
qed auto

lemma projection_kernels_loaded:
  assumes "projection_kernels_load kl p r s = (t, Ok (blocks, bf16))"
  shows "\<forall>b. Gemv b \<in> set (f32_choices p r) \<longrightarrow> b \<in> set blocks" "rp_lm_head r = P_Bf16 \<Longrightarrow> bf16"
proof -
  obtain u bs where load: "load_gemvs (kl_gemv kl) (f32_choices p r) [] s = (u, Ok bs)"
    and rest: "(case rp_lm_head r of P_F32 \<Rightarrow> rt_ok (bs, False) | P_Bf16 \<Rightarrow>
       (case pp_lm_head p of Gemv b \<Rightarrow> rt_bind (kl_bf16_gemv kl b) (\<lambda>_. rt_ok (bs, True))
        | Gemm \<Rightarrow> rt_lift (Err (unsupported_lit
            ''BF16 LM-head representation currently requires an explicit GEMV kernel plan'')))) u = (t, Ok (blocks, bf16))"
    using assms unfolding projection_kernels_load_def rt_bind_Ok rt_lift_Ok by blast
  have blocks: "blocks = bs"
    using rest by (cases "rp_lm_head r"; cases "pp_lm_head p") (auto simp: rt_bind_Ok)
  then show "\<forall>b. Gemv b \<in> set (f32_choices p r) \<longrightarrow> b \<in> set blocks" using load_gemvs_blocks [OF load] by simp
  show "bf16" if "rp_lm_head r = P_Bf16"
    using rest that by (cases "pp_lm_head p") (auto simp: rt_bind_Ok)
qed

lemma guard_Ok: "(if b then Err e else m) = Ok a \<longleftrightarrow> \<not> b \<and> m = Ok a"
  by simp

lemma check_tensor_Ok [simp]:
  "check_tensor requirer dtype ctx name t = Ok u \<longleftrightarrow> tensor_dtype t = dtype \<and> tensor_context t = ctx"
  by (auto simp: check_tensor_def)

lemma as_f32_Ok: "tensor_dtype t = W_F32 \<Longrightarrow> as_f32 t = Ok (tensor_buffer t)"
  by (cases t) simp_all

definition layer_f32 :: "layer_weights \<Rightarrow> bool" where
  "layer_f32 l \<longleftrightarrow>
     list_all (\<lambda>w. tensor_dtype (mw_tensor w) = W_F32)
       [lw_q_proj l, lw_k_proj l, lw_v_proj l, lw_o_proj l, lw_gate_proj l, lw_up_proj l, lw_down_proj l] \<and>
     list_all (\<lambda>w. tensor_dtype (vw_tensor w) = W_F32) [lw_input_norm l, lw_post_attention_norm l]"

lemma layer_resident:
  "\<forall>e \<in> set (layer_expectations c kv (i, l)). expect_resident ctx W_F32 e = Ok () \<Longrightarrow> layer_f32 l"
  by (simp add: layer_expectations_def layer_f32_def Let_def split: if_split_asm)

lemma resident_layers:
  "\<forall>e \<in> set (concat (map (layer_expectations c kv) (enumerate k L))). expect_resident ctx W_F32 e = Ok () \<Longrightarrow> list_all layer_f32 L"
proof (induction L arbitrary: k)
  case (Cons l L)
  then have "\<forall>e \<in> set (layer_expectations c kv (k, l)). expect_resident ctx W_F32 e = Ok ()" by simp
  then have "layer_f32 l" by (rule layer_resident)
  moreover have "\<forall>e \<in> set (concat (map (layer_expectations c kv) (enumerate (Suc k) L))). expect_resident ctx W_F32 e = Ok ()"
    using Cons.prems by simp
  ultimately show ?case using Cons.IH [of "Suc k"] by simp
qed simp

lemma representation_weights_Ok:
  assumes "representation_validate_weights r c w = Ok ()"
  shows "length (wt_layers w) = mc_num_hidden_layers c" "tensor_dtype (mw_tensor (wt_token_embedding w)) = W_F32"
    "tensor_dtype (vw_tensor (wt_final_norm w)) = W_F32" "tensor_dtype (mw_tensor (wt_lm_head w)) = lm_head_dtype r"
    "list_all layer_f32 (wt_layers w)"
proof -
  obtain kv where V: "length (wt_layers w) = mc_num_hidden_layers c"
    and outer: "\<forall>x \<in> set (zip [W_F32, W_F32, lm_head_dtype r] (outer_expectations c w)).
      (case x of (dtype, e) \<Rightarrow> expect_resident (weights_context w) dtype e) = Ok ()"
    and inner: "\<forall>e \<in> set (concat (map (layer_expectations c kv) (enumerate 0 (wt_layers w)))).
      expect_resident (weights_context w) W_F32 e = Ok ()"
    using assms unfolding representation_validate_weights_def
    unfolding and_then_Ok_iff guard_Ok check_all_Ok_iff by blast
  show "length (wt_layers w) = mc_num_hidden_layers c" by (rule V)
  show "tensor_dtype (mw_tensor (wt_token_embedding w)) = W_F32" "tensor_dtype (vw_tensor (wt_final_norm w)) = W_F32"
    "tensor_dtype (mw_tensor (wt_lm_head w)) = lm_head_dtype r"
    using outer by (simp_all add: outer_expectations_def split: if_split_asm)
  show "list_all layer_f32 (wt_layers w)" by (rule resident_layers [OF inner])
qed

text \<open>The small model of \<open>ModelWeights\<close> with the baseline plans, on kernels that always load.\<close>

definition demo_loads :: "'s kernel_loads" where
  "demo_loads = \<lparr>kl_gather = rt_ok (), kl_gemm = rt_ok (), kl_gemv = (\<lambda>_. rt_ok ()), kl_bf16_gemv = (\<lambda>_. rt_ok ()),
     kl_silu_multiply = (\<lambda>_. rt_ok ()), kl_parallel_value = rt_ok (), kl_elementwise = rt_ok (), kl_top_k = rt_ok (),
     kl_decoder = rt_ok (), kl_runtime = rt_ok ()\<rparr>"

definition demo_rope :: "model_config \<Rightarrow> nnis_error + u8 list list \<times> u8 list list" where
  "demo_rope c = Ok ([], [])"

lemma demo_loads_simps [simp]:
  "kl_gather demo_loads = rt_ok ()" "kl_gemm demo_loads = rt_ok ()" "kl_elementwise demo_loads = rt_ok ()"
  "kl_top_k demo_loads = rt_ok ()" "kl_decoder demo_loads = rt_ok ()" "kl_runtime demo_loads = rt_ok ()"
  by (simp_all add: demo_loads_def)

lemma demo_resident: "representation_validate_weights all_f32 demo_config demo_weights = Ok ()"
proof -
  have plan: "representation_plan_validate all_f32 = Ok ()" by (rule plans_valid)
  have outer: "check_all (\<lambda>(dtype, e). expect_resident (weights_context demo_weights) dtype e)
      (zip [W_F32, W_F32, lm_head_dtype all_f32] (outer_expectations demo_config demo_weights)) = Ok ()"
    unfolding check_all_Ok_iff
    by (simp add: demo_weights_def demo_config_def outer_expectations_def demo_matrix_def demo_vector_def lm_head_dtype_def
        all_f32_def weights_context_def tensor_context_def)
  have inner: "check_all (expect_resident (weights_context demo_weights) W_F32)
      (concat (map (layer_expectations demo_config 2) (enumerate 0 (wt_layers demo_weights)))) = Ok ()"
    unfolding check_all_Ok_iff
    by (simp add: demo_weights_def demo_config_def layer_expectations_def demo_matrix_def demo_vector_def Let_def
        weights_context_def tensor_context_def)
  have "mc_weight_dtype demo_config = W_F32" "length (wt_layers demo_weights) = mc_num_hidden_layers demo_config"
    by (simp_all add: demo_weights_def demo_config_def)
  then show ?thesis
    unfolding representation_validate_weights_def plan demo_config_valid demo_kv_width and_then_simps outer inner by simp
qed

lemma demo_admission:
  "model_admission demo_config demo_weights \<lparr>stream_raw = 9, stream_ctx = 7\<rparr> baseline_gemm all_f32 fusion_baseline attention_baseline = Ok ()"
proof -
  have support: "validate_execution_support demo_config = Ok ()"
    unfolding validate_execution_support_def demo_config_valid and_then_simps by (simp add: demo_config_def)
  have "mc_weight_dtype demo_config = W_F32" "weights_context demo_weights = 7" "ap_cached_decode attention_baseline = Serial_single_thread"
    by (simp_all add: demo_weights_def demo_config_def weights_context_def tensor_context_def demo_matrix_def attention_baseline_def)
  then show ?thesis
    unfolding model_admission_def plans_valid support demo_resident and_then_simps
    by (simp only: stream.select_convs cached_attention_kernel.case and_then_simps demo_resident if_False simp_thms)
qed

section \<open>Properties\<close>

text \<open>C12. A constructed model can dispatch every stage its plans select.  When construction succeeds, on any
  driver and with whatever the kernel loads do, every projection, the LM head, the gated activation and
  the cached attention resolve to a loaded kernel, and every weight a decoder layer needs is resident as
  \<open>f32\<close>: the errors for unavailable kernels and representations cannot occur while decoding.\<close>

theorem constructed_model_dispatches:
  assumes "model_new_with_execution_plans drv kl rope launch scale top_k_workspace c w st p r f a s = (t, Ok m)"
  shows "(\<forall>family inp wt out k n. family \<noteq> Lm_head \<longrightarrow> is_ok (projection_call m family inp wt out k n)) \<and>
    (\<forall>inp out k n. is_ok (lm_head_call m inp (mw_tensor (wt_lm_head (md_weights m))) out k n)) \<and>
    (\<forall>gate up activated gated. (fp_silu_multiply f = Separate \<longrightarrow> activated \<noteq> None) \<longrightarrow>
       (\<forall>call \<in> set (silu_multiply_calls m gate up activated gated). is_ok call)) \<and>
    (\<forall>query cache layer out scale. is_ok (attention_call m query cache layer out scale)) \<and>
    length (wt_layers (md_weights m)) = mc_num_hidden_layers (md_config m) \<and> list_all layer_f32 (wt_layers (md_weights m))"
proof -
  obtain u v blocks bf16 rc rs where adm: "model_admission c w st p r f a = Ok ()"
    and load: "projection_kernels_load kl p r u = (v, Ok (blocks, bf16))"
    and m: "m = \<lparr>md_config = c, md_weights = w, md_context = stream_ctx st, md_projection = p, md_representation = r,
         md_fusion = f, md_attention = a, md_gemv_blocks = blocks, md_bf16_lm_head_gemv = bf16,
         md_fused_silu_multiply = (fp_silu_multiply f \<noteq> Separate),
         md_parallel_value_attention = (ap_cached_decode a \<noteq> Serial_single_thread),
         md_rope_cos = rc, md_rope_sin = rs, md_launch = launch, md_attention_scale = scale,
         md_top_k_workspace = top_k_workspace\<rparr>"
    using assms unfolding model_new_with_execution_plans_def rt_bind_Ok rt_lift_Ok by (auto simp: rt_bind_Ok)
  have "\<exists>u. representation_validate_weights r c w = Ok u"
    using adm unfolding model_admission_def and_then_Ok_iff guard_Ok by blast
  then have "representation_validate_weights r c w = Ok ()" by simp
  note W = representation_weights_Ok [OF this]
  note L = projection_kernels_loaded [OF load]
  have proj: "is_ok (projection_call m family inp wt out k n)" if "family \<noteq> Lm_head \<or> rp_lm_head r = P_F32" for family inp wt out k n
    using that L(1) by (cases family)
      (auto simp: m projection_call_def projection_choice_def gemv_kernel_def f32_choices_def split: projection_kernel.splits)
  have "is_ok (lm_head_call m inp (mw_tensor (wt_lm_head (md_weights m))) out k n)" for inp out k n
  proof (cases "rp_lm_head r")
    case P_F32
    then have "as_f32 (mw_tensor (wt_lm_head w)) = Ok (tensor_buffer (mw_tensor (wt_lm_head w)))"
      using W(4) by (intro as_f32_Ok) (simp add: lm_head_dtype_def)
    then show ?thesis using P_F32 proj by (simp add: lm_head_call_def m)
  next
    case P_Bf16
    then show ?thesis using W(4) L(2)
      by (cases "mw_tensor (wt_lm_head w)") (simp_all add: lm_head_call_def m lm_head_dtype_def)
  qed
  moreover have "is_ok call" if "call \<in> set (silu_multiply_calls m gate up activated gated)"
      "fp_silu_multiply f = Separate \<longrightarrow> activated \<noteq> None" for gate up activated gated call
    using that by (auto simp: m silu_multiply_calls_def split: silu_multiply_kernel.splits option.splits)
  moreover have "is_ok (attention_call m query cache layer out scale)" for query cache layer out scale
    by (simp add: attention_call_def m split: cached_attention_kernel.splits)
  ultimately show ?thesis using proj W(1,5) by (simp add: m)
qed

theorem constructed_model_dispatches_witness:
  "\<exists>t m. model_new_with_execution_plans demo_transfer_driver demo_loads demo_rope (\<lambda>_ _. rt_ok ()) (\<lambda>_. 0) (\<lambda>_. rt_ok []) demo_config
       demo_weights \<lparr>stream_raw = 9, stream_ctx = 7\<rparr> baseline_gemm all_f32 fusion_baseline attention_baseline
       \<lparr>gpu = (\<lambda>_. 0), forgotten = []\<rparr> = (t, Ok m) \<and>
     (\<forall>inp out. is_ok (lm_head_call m inp (mw_tensor (wt_lm_head (md_weights m))) out 2 2))"
proof -
  let ?new = "model_new_with_execution_plans demo_transfer_driver demo_loads demo_rope (\<lambda>_ _. rt_ok ()) (\<lambda>_. 0) (\<lambda>_. rt_ok []) demo_config
       demo_weights \<lparr>stream_raw = 9, stream_ctx = 7\<rparr> baseline_gemm all_f32 fusion_baseline attention_baseline
       \<lparr>gpu = (\<lambda>_. 0), forgotten = []\<rparr>"
  have kernels: "projection_kernels_load demo_loads baseline_gemm all_f32 = (rt_ok ([], False) :: ((nat \<Rightarrow> u8), nat list \<times> bool) rt_comp)"
    unfolding projection_kernels_load_def plans_valid
    by (simp add: fun_eq_iff rt_bind_def f32_choices_def baseline_gemm_def all_f32_def)
  have upload: "\<exists>t b. upload_rope demo_transfer_driver 7 \<lparr>stream_raw = 9, stream_ctx = 7\<rparr> ([], []) \<lparr>gpu = (\<lambda>_. 0), forgotten = []\<rparr> = (t, Ok b)"
    by (simp add: upload_rope_def device_buffer_from_host_def device_buffer_new_def rt_bind_def or_drop_def copy_from_host_def
        then_synchronize_def copy_from_host_async_def ensure_stream_context_def drv_call_def
        set_current_def driver_api_def checked_mul_def u64_lim_def demo_transfer_driver_def)
  obtain t rc rs where up: "upload_rope demo_transfer_driver 7 \<lparr>stream_raw = 9, stream_ctx = 7\<rparr> ([], []) \<lparr>gpu = (\<lambda>_. 0), forgotten = []\<rparr> = (t, Ok (rc, rs))"
    using upload by auto
  have sel: "fp_silu_multiply fusion_baseline = Separate" "ap_cached_decode attention_baseline = Serial_single_thread"
    by (simp_all add: fusion_baseline_def attention_baseline_def)
  have "\<exists>m. ?new = (t, Ok m)"
    unfolding model_new_with_execution_plans_def demo_admission rt_bind_pure demo_loads_simps kernels prod.case sel
      silu_multiply_kernel.case cached_attention_kernel.case demo_rope_def stream.select_convs
    unfolding rt_bind_def [of "upload_rope demo_transfer_driver 7 \<lparr>stream_raw = 9, stream_ctx = 7\<rparr> ([], [])"] up prod.case sum.case rt_ok_def
    by (rule exI, rule refl)
  then obtain t m where new: "?new = (t, Ok m)" by blast
  have "\<forall>inp out. is_ok (lm_head_call m inp (mw_tensor (wt_lm_head (md_weights m))) out 2 2)"
    by (intro allI, rule constructed_model_dispatches [OF new, THEN conjunct2, THEN conjunct1, rule_format])
  with new show ?thesis by (intro exI conjI)
qed

end
