(* ===== verification/DecoderSession.thy ===== *)
theory DecoderSession
  imports DecoderModel KvCompaction SpecGreedy
begin

text \<open>
  \<open>InferenceSession\<close> of \<open>nnis-model/src/runtime.rs\<close> (537--1142), with \<open>speculative_session.rs\<close> and
  \<open>runtime/kv_selection.rs\<close>: the mutable state of one sequence.  Its methods are functions on the pair of
  the host state of the device and the session, so an early return shows what it leaves behind.
  Decoding one token is one pass over the layers; each layer appends one row to the cache between the launches
  before and after it, and the position advances last.

  Sharing (\<open>Arc\<close>) of the two append sources is not tracked.  Destroying events and streams when a session
  or an append handle is dropped has no effect on the memory and is left out.
\<close>

section \<open>State\<close>

record workspace =
  ws_hidden :: device_buffer
  ws_normed :: device_buffer
  ws_q :: device_buffer
  ws_k :: device_buffer
  ws_v :: device_buffer
  ws_q_rope :: device_buffer
  ws_k_rope :: device_buffer
  ws_attention :: device_buffer
  ws_projected :: device_buffer
  ws_residual :: device_buffer
  ws_gate :: device_buffer
  ws_up :: device_buffer
  ws_activated :: "device_buffer option"
  ws_gated :: device_buffer
  ws_mlp :: device_buffer
  ws_logits :: device_buffer
  ws_current_token :: device_buffer
  ws_top_value :: device_buffer
  ws_top_k :: "device_buffer list"

record session =
  se_stream :: stream
  se_cache :: rt_kv_cache
  se_workspace :: workspace
  se_pending :: "kv_append_handle list"
  se_position :: nat

type_synonym ('s, 'a) se_comp = "'s rt \<times> session \<Rightarrow> ('s rt \<times> session) \<times> (nnis_error + 'a)"

definition se_ok :: "'a \<Rightarrow> ('s, 'a) se_comp" where
  "se_ok a sx = (sx, Ok a)"

definition se_lift :: "nnis_error + 'a \<Rightarrow> ('s, 'a) se_comp" where
  "se_lift r sx = (sx, r)"

definition se_bind :: "('s, 'a) se_comp \<Rightarrow> ('a \<Rightarrow> ('s, 'b) se_comp) \<Rightarrow> ('s, 'b) se_comp" where
  "se_bind m k sx = (case m sx of (ty, Inl e) \<Rightarrow> (ty, Err e) | (ty, Inr a) \<Rightarrow> k a ty)"

definition se_gpu :: "(session \<Rightarrow> ('s, 'a) rt_comp) \<Rightarrow> ('s, 'a) se_comp" where
  "se_gpu f = (\<lambda>(s, x). case f x s of (t, r) \<Rightarrow> ((t, x), r))"

definition se_get :: "(session \<Rightarrow> 'a) \<Rightarrow> ('s, 'a) se_comp" where
  "se_get f = (\<lambda>(s, x). ((s, x), Ok (f x)))"

definition se_modify :: "(session \<Rightarrow> session) \<Rightarrow> ('s, unit) se_comp" where
  "se_modify f = (\<lambda>(s, x). ((s, f x), Ok ()))"

definition se_for :: "('a \<Rightarrow> ('s, unit) se_comp) \<Rightarrow> 'a list \<Rightarrow> ('s, unit) se_comp" where
  "se_for f xs sx = for_each_st (\<lambda>ty x. f x ty) sx xs"

lemma se_for_simps [simp]:
  "se_for f [] = se_ok ()"
  "se_for f (x # xs) = se_bind (f x) (\<lambda>_. se_for f xs)"
  by (simp_all add: se_for_def se_ok_def se_bind_def fun_eq_iff split: prod.splits sum.splits)

section \<open>Construction\<close>

text \<open>Buffers are allocated in order; when one fails those before it are freed, the newest first.\<close>

fun alloc_all :: "'s cuda \<Rightarrow> nat \<Rightarrow> nat list \<Rightarrow> device_buffer list \<Rightarrow> ('s, device_buffer list) rt_comp" where
  "alloc_all drv ctx [] bs s = (s, Ok (rev bs))"
| "alloc_all drv ctx (n # ns) bs s =
     (case device_buffer_new drv 4 ctx n s of
        (t, Inl e) \<Rightarrow> (fold (device_buffer_drop drv) bs t, Err e)
      | (t, Inr b) \<Rightarrow> alloc_all drv ctx ns (b # bs) t)"

definition workspace_sizes :: "model_config \<Rightarrow> nat \<Rightarrow> bool \<Rightarrow> nat list" where
  "workspace_sizes c kv separate =
     (let hidden = mc_hidden_size c; inter = mc_intermediate_size c in
      (if separate then [inter] else []) @
      [hidden, hidden, hidden, kv, kv, hidden, kv, hidden, hidden, hidden, inter, inter, inter, hidden,
       mc_vocab_size c, 1, 1])"

definition workspace_of :: "bool \<Rightarrow> device_buffer list \<Rightarrow> device_buffer list \<Rightarrow> workspace" where
  "workspace_of separate all top_k =
     (let bs = (if separate then tl all else all) in
      \<lparr>ws_hidden = bs ! 0, ws_normed = bs ! 1, ws_q = bs ! 2, ws_k = bs ! 3, ws_v = bs ! 4, ws_q_rope = bs ! 5,
       ws_k_rope = bs ! 6, ws_attention = bs ! 7, ws_projected = bs ! 8, ws_residual = bs ! 9, ws_gate = bs ! 10,
       ws_up = bs ! 11, ws_activated = (if separate then Some (hd all) else None), ws_gated = bs ! 12,
       ws_mlp = bs ! 13, ws_logits = bs ! 14, ws_current_token = bs ! 15, ws_top_value = bs ! 16, ws_top_k = top_k\<rparr>)"

definition workspace_new :: "'s cuda \<Rightarrow> 's decoder_model \<Rightarrow> ('s, workspace) rt_comp" where
  "workspace_new drv m =
     (let c = md_config m; separate = (fp_silu_multiply (md_fusion m) = Separate) in
      rt_bind (rt_lift (key_value_width c)) (\<lambda>kv.
      rt_bind (alloc_all drv (md_context m) (workspace_sizes c kv separate) []) (\<lambda>bs s.
        case md_top_k_workspace m (mc_vocab_size c) s of
          (t, Inl e) \<Rightarrow> (fold (device_buffer_drop drv) (rev bs) t, Err e)
        | (t, Inr top_k) \<Rightarrow> (t, Ok (workspace_of separate bs top_k)))))"

definition session_new :: "'s cuda \<Rightarrow> 's decoder_model \<Rightarrow> ('s, session) rt_comp" where
  "session_new drv m =
     (let c = md_config m in
      rt_bind (stream_new drv (md_context m)) (\<lambda>st s.
        case rt_bind (rt_lift (kv_config_new (mc_num_hidden_layers c) (mc_num_key_value_heads c) (mc_head_dim c)
               (mc_max_position_embeddings c))) (rt_kv_new drv 4 st) s of
          (t, Inl e) \<Rightarrow> (stream_drop drv st t, Err e)
        | (t, Inr cache) \<Rightarrow>
            (case workspace_new drv m t of
               (u, Inl e) \<Rightarrow>
                 (stream_drop drv st (device_buffer_drop drv (rc_values cache) (device_buffer_drop drv (rc_keys cache) u)), Err e)
             | (u, Inr ws) \<Rightarrow>
                 (u, Ok \<lparr>se_stream = st, se_cache = cache, se_workspace = ws, se_pending = [], se_position = 0\<rparr>))))"

definition session_capacity :: "'s decoder_model \<Rightarrow> nat" where
  "session_capacity m = mc_max_position_embeddings (md_config m)"

section \<open>Draining\<close>

definition clear_pending :: "'s cuda \<Rightarrow> 's rt \<times> session \<Rightarrow> 's rt \<times> session" where
  "clear_pending drv = (\<lambda>(s, x). (fold (\<lambda>a. pending_drop drv (ka_work a)) (se_pending x) s, x\<lparr>se_pending := []\<rparr>))"

text \<open>\<open>stream.synchronize()?; pending_appends.clear()\<close>.\<close>

definition se_drain :: "'s cuda \<Rightarrow> ('s, unit) se_comp" where
  "se_drain drv = se_bind (se_gpu (\<lambda>x. stream_synchronize drv (se_stream x))) (\<lambda>_ sx. (clear_pending drv sx, Ok ()))"

definition se_reset :: "'s cuda \<Rightarrow> ('s, unit) se_comp" where
  "se_reset drv = se_bind (se_drain drv) (\<lambda>_. se_modify (\<lambda>x. x\<lparr>se_cache := rt_kv_reset (se_cache x), se_position := 0\<rparr>))"

definition rewind_to :: "'s cuda \<Rightarrow> nat \<Rightarrow> ('s, unit) se_comp" where
  "rewind_to drv pos =
     se_bind (se_drain drv) (\<lambda>_.
     se_bind (\<lambda>(s, x). case rt_kv_truncate (se_cache x) pos of (c, r) \<Rightarrow> ((s, x\<lparr>se_cache := c\<rparr>), r)) (\<lambda>_.
       se_modify (\<lambda>x. x\<lparr>se_position := pos\<rparr>)))"

definition kv_cache_telemetry :: "'s cuda \<Rightarrow> ('s, rt_kv_telemetry) se_comp" where
  "kv_cache_telemetry drv =
     se_bind (se_drain drv) (\<lambda>_ (s, x). ((s, x), observe_kv_cache (se_cache x)))"

text \<open>\<open>finish\<close> of an enqueue: the stream is always synchronised; an enqueue error wins.\<close>

definition se_finish :: "'s cuda \<Rightarrow> ('s, unit) se_comp \<Rightarrow> ('s, unit) se_comp" where
  "se_finish drv m = (\<lambda>sx.
     case m sx of ((s, x), enqueued) \<Rightarrow>
       (case stream_synchronize drv (se_stream x) s of
          (t, synced) \<Rightarrow> (clear_pending drv (t, x), case enqueued of Inr _ \<Rightarrow> synced | Inl e \<Rightarrow> Err e)))"

section \<open>One token\<close>

definition se_launch :: "'s decoder_model \<Rightarrow> (session \<Rightarrow> nnis_error + kernel_call) \<Rightarrow> ('s, unit) se_comp" where
  "se_launch m f = (\<lambda>(s, x).
     case f x of
       Inl e \<Rightarrow> ((s, x), Err e)
     | Inr call \<Rightarrow> (case md_launch m call (se_stream x) s of (t, r) \<Rightarrow> ((t, x), r)))"

text \<open>A launch whose weight has to be \<open>f32\<close>.\<close>

definition with_weight :: "device_tensor \<Rightarrow> (device_buffer \<Rightarrow> nnis_error + kernel_call) \<Rightarrow> nnis_error + kernel_call" where
  "with_weight t f = and_then (as_f32 t) f"

definition norm_call :: "'s decoder_model \<Rightarrow> device_buffer \<Rightarrow> vector_weight \<Rightarrow> device_buffer \<Rightarrow> nnis_error + kernel_call" where
  "norm_call m inp w out =
     with_weight (vw_tensor w) (\<lambda>b. Ok (Weighted_rms_norm inp b out 1 (mc_hidden_size (md_config m)) (mc_rms_norm_eps (md_config m))))"

definition matrix_call ::
  "'s decoder_model \<Rightarrow> projection_family \<Rightarrow> device_buffer \<Rightarrow> matrix_weight \<Rightarrow> device_buffer \<Rightarrow> nat \<Rightarrow> nat \<Rightarrow> nnis_error + kernel_call"
  where
  "matrix_call m family inp w out k n = with_weight (mw_tensor w) (\<lambda>b. projection_call m family inp b out k n)"

definition rope_call :: "'s decoder_model \<Rightarrow> device_buffer \<Rightarrow> device_buffer \<Rightarrow> nat \<Rightarrow> nat \<Rightarrow> nnis_error + kernel_call" where
  "rope_call m inp out heads pos =
     Ok (Rope_position inp (md_rope_cos m) (md_rope_sin m) out heads (mc_head_dim (md_config m)) pos
       (mc_max_position_embeddings (md_config m)))"

definition before_append :: "'s decoder_model \<Rightarrow> nat \<Rightarrow> nat \<Rightarrow> layer_weights \<Rightarrow> (session \<Rightarrow> nnis_error + kernel_call) list" where
  "before_append m kv pos l =
     (let c = md_config m; hidden = mc_hidden_size c in
      map (\<lambda>f x. f (se_workspace x))
       [\<lambda>w. norm_call m (ws_hidden w) (lw_input_norm l) (ws_normed w),
        \<lambda>w. matrix_call m QO (ws_normed w) (lw_q_proj l) (ws_q w) hidden hidden,
        \<lambda>w. matrix_call m KV (ws_normed w) (lw_k_proj l) (ws_k w) hidden kv,
        \<lambda>w. matrix_call m KV (ws_normed w) (lw_v_proj l) (ws_v w) hidden kv,
        \<lambda>w. rope_call m (ws_q w) (ws_q_rope w) (mc_num_attention_heads c) pos,
        \<lambda>w. rope_call m (ws_k w) (ws_k_rope w) (mc_num_key_value_heads c) pos])"

definition silu_call :: "'s decoder_model \<Rightarrow> nat \<Rightarrow> workspace \<Rightarrow> nnis_error + kernel_call" where
  "silu_call m i w = silu_multiply_calls m (ws_gate w) (ws_up w) (ws_activated w) (ws_gated w) ! i"

text \<open>The gated activation is one launch when it is fused, or when the activated buffer is missing, which is an
  error; two otherwise.\<close>

definition silu_launches :: "'s decoder_model \<Rightarrow> session \<Rightarrow> nat" where
  "silu_launches m x =
     length (silu_multiply_calls m (ws_gate (se_workspace x)) (ws_up (se_workspace x)) (ws_activated (se_workspace x))
       (ws_gated (se_workspace x)))"

definition before_silu :: "'s decoder_model \<Rightarrow> nat \<Rightarrow> layer_weights \<Rightarrow> (session \<Rightarrow> nnis_error + kernel_call) list" where
  "before_silu m layer l =
     (let c = md_config m; hidden = mc_hidden_size c; inter = mc_intermediate_size c in
      (\<lambda>x. attention_call m (ws_q_rope (se_workspace x)) (se_cache x) layer (ws_attention (se_workspace x))
         (md_attention_scale m (mc_head_dim c))) #
      map (\<lambda>f x. f (se_workspace x))
       [\<lambda>w. matrix_call m QO (ws_attention w) (lw_o_proj l) (ws_projected w) hidden hidden,
        \<lambda>w. Ok (Vector_add (ws_hidden w) (ws_projected w) (ws_residual w)),
        \<lambda>w. norm_call m (ws_residual w) (lw_post_attention_norm l) (ws_normed w),
        \<lambda>w. matrix_call m Gate_up (ws_normed w) (lw_gate_proj l) (ws_gate w) hidden inter,
        \<lambda>w. matrix_call m Gate_up (ws_normed w) (lw_up_proj l) (ws_up w) hidden inter])"

definition after_silu :: "'s decoder_model \<Rightarrow> layer_weights \<Rightarrow> (session \<Rightarrow> nnis_error + kernel_call) list" where
  "after_silu m l =
     (let c = md_config m in
      map (\<lambda>f x. f (se_workspace x))
       [\<lambda>w. matrix_call m Down (ws_gated w) (lw_down_proj l) (ws_mlp w) (mc_intermediate_size c) (mc_hidden_size c),
        \<lambda>w. Ok (Vector_add (ws_residual w) (ws_mlp w) (ws_hidden w))])"

definition se_append :: "'s cuda \<Rightarrow> nat \<Rightarrow> ('s, unit) se_comp" where
  "se_append drv layer = (\<lambda>(s, x).
     case append_layer_async drv 4 (se_cache x) layer (ws_k_rope (se_workspace x)) (ws_v (se_workspace x)) 1 s of
       (t, c, Inl e) \<Rightarrow> ((t, x\<lparr>se_cache := c\<rparr>), Err e)
     | (t, c, Inr a) \<Rightarrow> ((t, x\<lparr>se_cache := c, se_pending := se_pending x @ [a]\<rparr>), Ok ()))"

text \<open>\<open>weights.layers[layer_index]\<close> is in range for every constructed model.\<close>

definition enqueue_layer :: "'s cuda \<Rightarrow> 's decoder_model \<Rightarrow> nat \<Rightarrow> nat \<Rightarrow> nat \<Rightarrow> ('s, unit) se_comp" where
  "enqueue_layer drv m kv pos layer =
     (let l = wt_layers (md_weights m) ! layer in
      se_bind (se_for (se_launch m) (before_append m kv pos l)) (\<lambda>_.
      se_bind (se_append drv layer) (\<lambda>_.
      se_bind (se_for (se_launch m) (before_silu m layer l)) (\<lambda>_.
      se_bind (se_get (silu_launches m)) (\<lambda>n.
      se_bind (se_for (\<lambda>i. se_launch m (\<lambda>x. silu_call m i (se_workspace x))) [0..<n]) (\<lambda>_.
        se_for (se_launch m) (after_silu m l)))))))"

definition final_calls :: "'s decoder_model \<Rightarrow> (session \<Rightarrow> nnis_error + kernel_call) list" where
  "final_calls m =
     [\<lambda>x. norm_call m (ws_hidden (se_workspace x)) (wt_final_norm (md_weights m)) (ws_normed (se_workspace x)),
      \<lambda>x. lm_head_call m (ws_normed (se_workspace x)) (mw_tensor (wt_lm_head (md_weights m))) (ws_logits (se_workspace x))
        (mc_hidden_size (md_config m)) (mc_vocab_size (md_config m))]"

definition enqueue_current_token :: "'s cuda \<Rightarrow> 's decoder_model \<Rightarrow> ('s, unit) se_comp" where
  "enqueue_current_token drv m =
     (let c = md_config m in
      se_bind (se_get se_position) (\<lambda>pos.
        if pos \<ge> mc_max_position_embeddings c then
          se_lift (Err (invalid_input (lit ''decoder position '' @ dec pos @ lit '' exceeds max_position_embeddings '' @
            dec (mc_max_position_embeddings c))))
        else
          se_bind (se_launch m (\<lambda>x. with_weight (mw_tensor (wt_token_embedding (md_weights m))) (\<lambda>b.
            Ok (Gather b (ws_current_token (se_workspace x)) (ws_hidden (se_workspace x)) (mc_vocab_size c) (mc_hidden_size c))))) (\<lambda>_.
          se_bind (se_lift (key_value_width c)) (\<lambda>kv.
          se_bind (se_for (enqueue_layer drv m kv pos) [0..<mc_num_hidden_layers c]) (\<lambda>_.
          se_bind (se_for (se_launch m) (final_calls m)) (\<lambda>_.
            se_modify (\<lambda>x. x\<lparr>se_position := se_position x + 1\<rparr>)))))))"

section \<open>Prompts, prefill and decoding\<close>

definition validate_token :: "'s decoder_model \<Rightarrow> nat \<Rightarrow> nnis_error + unit" where
  "validate_token m token =
     (if token \<ge> mc_vocab_size (md_config m) then
        Err (invalid_input (lit ''token id '' @ dec token @ lit '' is out of range for vocabulary '' @
          dec (mc_vocab_size (md_config m))))
      else Ok ())"

definition validate_prompt :: "'s decoder_model \<Rightarrow> nat list \<Rightarrow> nat \<Rightarrow> nnis_error + unit" where
  "validate_prompt m ids extra =
     (if ids = [] then Err (invalid_lit ''decoder prefill requires at least one input token'')
      else
        and_then (check_all (validate_token m) ids) (\<lambda>_.
        and_then (ok_or (invalid_lit ''prompt + generation length overflows usize'') (checked_add (length ids) extra)) (\<lambda>n.
          if n > session_capacity m then
            Err (invalid_input (lit ''prompt + generation requires '' @ dec n @ lit '' positions; session capacity is '' @
              dec (session_capacity m)))
          else Ok ())))"

text \<open>Host values of device memory: little-endian groups of four bytes.\<close>

definition le_value :: "u8 list \<Rightarrow> nat" where
  "le_value bs = foldr (\<lambda>b v. unat b + 256 * v) bs 0"

definition f32_values :: "u8 list \<Rightarrow> f32 list" where
  "f32_values bs = map (\<lambda>c. of_nat (le_value c)) (chunks_exact 4 bs)"

definition u32_values :: "u8 list \<Rightarrow> nat list" where
  "u32_values bs = map le_value (chunks_exact 4 bs)"

definition read_logits :: "'s cuda \<Rightarrow> ('s, f32 list) se_comp" where
  "read_logits drv =
     se_bind (se_gpu (\<lambda>x. buffer_to_vec drv 4 (ws_logits (se_workspace x)) (se_stream x))) (\<lambda>bs. se_ok (f32_values bs))"

definition enqueue_prefill :: "'s cuda \<Rightarrow> 's decoder_model \<Rightarrow> device_buffer \<Rightarrow> ('s, unit) se_comp" where
  "enqueue_prefill drv m ids =
     se_for (\<lambda>pos. se_bind (se_launch m (\<lambda>x. Ok (Select_token ids (ws_current_token (se_workspace x)) pos)))
       (\<lambda>_. enqueue_current_token drv m)) [0..<buf_len ids]"

text \<open>A buffer of the call, freed when it returns.\<close>

definition with_buffer ::
  "'s cuda \<Rightarrow> (session \<Rightarrow> ('s, device_buffer) rt_comp) \<Rightarrow> (device_buffer \<Rightarrow> ('s, 'a) se_comp) \<Rightarrow> ('s, 'a) se_comp" where
  "with_buffer drv fresh body =
     se_bind (se_gpu fresh) (\<lambda>b sx. case body b sx of ((s, x), r) \<Rightarrow> ((device_buffer_drop drv b s, x), r))"

definition upload_ids :: "'s cuda \<Rightarrow> 's decoder_model \<Rightarrow> nat list \<Rightarrow> session \<Rightarrow> ('s, device_buffer) rt_comp" where
  "upload_ids drv m ids x = device_buffer_from_host drv 4 (md_context m) (se_stream x) (map (le_bytes 4) ids)"

definition prefill :: "'s cuda \<Rightarrow> 's decoder_model \<Rightarrow> nat list \<Rightarrow> ('s, f32 list) se_comp" where
  "prefill drv m ids =
     se_bind (se_lift (validate_prompt m ids 0)) (\<lambda>_.
     se_bind (se_reset drv) (\<lambda>_.
       with_buffer drv (upload_ids drv m ids) (\<lambda>b.
         se_bind (se_finish drv (enqueue_prefill drv m b)) (\<lambda>_. read_logits drv))))"

definition decode_one :: "'s cuda \<Rightarrow> 's decoder_model \<Rightarrow> nat \<Rightarrow> ('s, f32 list) se_comp" where
  "decode_one drv m token =
     se_bind (se_lift (validate_token m token)) (\<lambda>_.
     se_bind (se_get se_position) (\<lambda>pos.
       if pos \<ge> session_capacity m then
         se_lift (Err (invalid_input (lit ''decode position '' @ dec pos @ lit '' exceeds session capacity '' @
           dec (session_capacity m))))
       else
         se_bind (se_finish drv
           (se_bind (se_gpu (\<lambda>x. copy_from_host_async drv 4 (ws_current_token (se_workspace x)) (se_stream x) [le_bytes 4 token]))
             (\<lambda>_. enqueue_current_token drv m))) (\<lambda>_. read_logits drv)))"

section \<open>Greedy generation\<close>

definition launch_top_1 :: "'s decoder_model \<Rightarrow> ('s, unit) se_comp" where
  "launch_top_1 m = se_launch m (\<lambda>x. let w = se_workspace x in
     Ok (Top_k (ws_logits w) (ws_top_value w) (ws_current_token w) 1 (ws_top_k w)))"

definition generate_fixed :: "'s cuda \<Rightarrow> 's decoder_model \<Rightarrow> nat list \<Rightarrow> nat \<Rightarrow> ('s, nat list) se_comp" where
  "generate_fixed drv m ids max_new =
     se_bind (se_reset drv) (\<lambda>_.
       with_buffer drv (upload_ids drv m ids) (\<lambda>b.
       with_buffer drv (\<lambda>_. device_buffer_new drv 4 (md_context m) max_new) (\<lambda>generated.
         se_bind (se_finish drv
           (se_bind (enqueue_prefill drv m b) (\<lambda>_.
             se_for (\<lambda>step.
               se_bind (launch_top_1 m) (\<lambda>_.
               se_bind (se_launch m (\<lambda>x. Ok (Record_token (ws_current_token (se_workspace x)) generated step))) (\<lambda>_.
                 enqueue_current_token drv m))) [0..<max_new]))) (\<lambda>_.
           se_bind (se_gpu (\<lambda>x. buffer_to_vec drv 4 generated (se_stream x))) (\<lambda>bs. se_ok (u32_values bs))))))"

text \<open>The loop of \<open>generate_until_eos\<close>: pick a token, look at it on the host, execute it.  An enqueue that fails, or
  the end token, is followed by \<open>finish\<close>.\<close>

definition observe_token :: "'s cuda \<Rightarrow> 's decoder_model \<Rightarrow> ('s, u8 list) se_comp" where
  "observe_token drv m = (\<lambda>sx.
     case se_bind (launch_top_1 m) (\<lambda>_. se_gpu (\<lambda>x. copy_to_host_async drv 4 (ws_current_token (se_workspace x)) (se_stream x) 1)) sx of
       (ty, r) \<Rightarrow> se_bind (se_finish drv (\<lambda>u. (ty, map_sum id (\<lambda>_. ()) r))) (\<lambda>_. se_lift r) ty)"

fun eos_loop :: "'s cuda \<Rightarrow> 's decoder_model \<Rightarrow> nat \<Rightarrow> nat \<Rightarrow> nat list \<Rightarrow> ('s, nat list) se_comp" where
  "eos_loop drv m eos 0 generated = se_bind (se_finish drv (se_ok ())) (\<lambda>_. se_ok generated)"
| "eos_loop drv m eos (Suc n) generated =
     se_bind (observe_token drv m) (\<lambda>bs.
       let token = le_value bs; generated = generated @ [token] in
       (\<lambda>sx. case enqueue_current_token drv m sx of
          (ty, enqueued) \<Rightarrow>
            if token = eos \<or> \<not> is_ok enqueued then
              se_bind (se_finish drv (\<lambda>u. (ty, enqueued))) (\<lambda>_.
                if token = eos then se_ok generated else eos_loop drv m eos n generated) ty
            else eos_loop drv m eos n generated ty))"

definition generate_until_eos :: "'s cuda \<Rightarrow> 's decoder_model \<Rightarrow> nat list \<Rightarrow> nat \<Rightarrow> nat \<Rightarrow> ('s, nat list) se_comp" where
  "generate_until_eos drv m ids max_new eos =
     se_bind (se_reset drv) (\<lambda>_.
       with_buffer drv (upload_ids drv m ids) (\<lambda>b.
         se_bind (se_finish drv (enqueue_prefill drv m b)) (\<lambda>_. eos_loop drv m eos max_new [])))"

definition generate :: "'s cuda \<Rightarrow> 's decoder_model \<Rightarrow> nat list \<Rightarrow> generation_config \<Rightarrow> ('s, nat list) se_comp" where
  "generate drv m ids g =
     se_bind (se_lift (generation_validate g (mc_vocab_size (md_config m)))) (\<lambda>_.
     se_bind (se_lift (validate_prompt m ids (gc_max_new_tokens g))) (\<lambda>_.
       case gc_eos_token_id g of
         Some eos \<Rightarrow> generate_until_eos drv m ids (gc_max_new_tokens g) eos
       | None \<Rightarrow> generate_fixed drv m ids (gc_max_new_tokens g)))"

section \<open>Speculative verification and compaction\<close>

record speculative_step =
  sp_verification :: speculative_verification
  sp_start_position :: nat
  sp_next_logits :: "f32 list"

fun force_rows :: "(nat \<Rightarrow> ('s, f32 list) se_comp) \<Rightarrow> nat \<Rightarrow> f32 list \<Rightarrow> nat list \<Rightarrow> ('s, f32 list) se_comp" where
  "force_rows decode vocab rows [] = se_ok rows"
| "force_rows decode vocab rows (token # tokens) =
     se_bind (decode token) (\<lambda>logits.
       if length logits \<noteq> vocab then
         se_lift (Err (invalid_input (lit ''decode returned '' @ dec (length logits) @ lit '' logits; expected '' @ dec vocab)))
       else force_rows decode vocab (rows @ logits) tokens)"

definition teacher_forced_logits ::
  "f32 list \<Rightarrow> speculative_draft \<Rightarrow> confidence_schedule \<Rightarrow> (nat \<Rightarrow> ('s, f32 list) se_comp) \<Rightarrow> ('s, f32 list) se_comp" where
  "teacher_forced_logits current d sch decode =
     force_rows decode (length current) current (take (scheduled_len sch d) (draft_tokens d))"

definition judge_greedy ::
  "nat \<Rightarrow> speculative_draft \<Rightarrow> confidence_schedule \<Rightarrow> f32 list \<Rightarrow> nnis_error + speculative_verification" where
  "judge_greedy vocab d sch rows =
     and_then (ok_or (invalid_lit ''vocabulary size exceeds u32'') (u32_of_usize vocab)) (\<lambda>v.
       map_err (\<lambda>e. invalid_input (lit ''speculative verification: '' @ display_cpu_speculative_error e))
         (and_then (verifier_new v) (\<lambda>verifier. verifier_verify verifier d sch rows)))"

definition recorded :: "acceptance_stats \<Rightarrow> speculative_verification \<Rightarrow> nnis_error + acceptance_stats" where
  "recorded st outcome =
     (case stats_record st outcome of
        (st', Inr _) \<Rightarrow> Ok st'
      | (st', Inl e) \<Rightarrow> Err (invalid_input (lit ''speculative counters: '' @ display_speculative_error e)))"

definition speculative_body ::
  "'s cuda \<Rightarrow> 's decoder_model \<Rightarrow> speculative_draft \<Rightarrow> confidence_schedule \<Rightarrow> acceptance_stats \<Rightarrow> nat \<Rightarrow> f32 list \<Rightarrow>
   ('s, speculative_verification \<times> acceptance_stats \<times> f32 list) se_comp" where
  "speculative_body drv m d sch st start current =
     se_bind (teacher_forced_logits current d sch (decode_one drv m)) (\<lambda>rows.
     se_bind (se_lift (judge_greedy (mc_vocab_size (md_config m)) d sch rows)) (\<lambda>v.
     se_bind (se_lift (recorded st v)) (\<lambda>next_stats.
     se_bind (rewind_to drv (start + accepted v)) (\<lambda>_.
     se_bind (se_lift (if emitted_tokens v = [] then Err (invalid_lit ''verification emitted no token'')
         else Ok (last (emitted_tokens v)))) (\<lambda>emitted.
     se_bind (decode_one drv m emitted) (\<lambda>next_logits. se_ok (v, next_stats, next_logits)))))))"

text \<open>The device state and session, the caller's statistics, and the result.\<close>

definition verify_greedy_draft ::
  "status_texts \<Rightarrow> 's cuda \<Rightarrow> 's decoder_model \<Rightarrow> speculative_draft \<Rightarrow> confidence_schedule \<Rightarrow> acceptance_stats \<Rightarrow> 's rt \<times> session \<Rightarrow>
   ('s rt \<times> session) \<times> acceptance_stats \<times> (nnis_error + speculative_step)" where
  "verify_greedy_draft texts drv m d sch st sx =
     (let start = se_position (snd sx) in
      case se_bind
        (se_lift
          (if start = 0 then Err (invalid_lit ''speculative verification requires a prefilled session'')
           else
             and_then (check_all (validate_token m) (draft_tokens d)) (\<lambda>_.
             and_then (ok_or (invalid_lit ''speculative positions overflow usize'')
               (checked_bind (checked_add start (scheduled_len sch d)) (\<lambda>n. checked_add n 1))) (\<lambda>required.
               if required > session_capacity m then
                 Err (invalid_input (lit ''speculative step requires '' @ dec required @
                   lit '' positions; session capacity is '' @ dec (session_capacity m)))
               else Ok ())))) (\<lambda>_. se_bind (se_drain drv) (\<lambda>_. read_logits drv)) sx of
        (ty, Inl e) \<Rightarrow> (ty, st, Err e)
      | (ty, Inr current) \<Rightarrow>
          (case speculative_body drv m d sch st start current ty of
             (uz, Inr (v, next_stats, next_logits)) \<Rightarrow>
               (uz, next_stats, Ok \<lparr>sp_verification = v, sp_start_position = start, sp_next_logits = next_logits\<rparr>)
           | (uz, Inl e) \<Rightarrow>
               (case rewind_to drv start uz of
                  (vz, Inr _) \<Rightarrow> (vz, st, Err e)
                | (vz, Inl rewind) \<Rightarrow>
                    (vz, st, Err (invalid_input (display_nnis_error texts e @ lit ''; rewinding to position '' @ dec start @
                      lit '' also failed ('' @ display_nnis_error texts rewind @ lit ''); reset the session''))))))"

text \<open>\<open>compact_kv_cache_rows\<close>: the appends have been retired, so nothing else shares the old allocations.\<close>

definition compact_kv_cache_rows :: "'s cuda \<Rightarrow> nat list \<Rightarrow> ('s, unit) se_comp" where
  "compact_kv_cache_rows drv rows =
     se_bind (se_drain drv) (\<lambda>_ (s, x).
       case compact_kv_cache drv 4 [] (se_cache x) rows s of (t, c, r) \<Rightarrow> ((t, x\<lparr>se_cache := c\<rparr>), r))"

section \<open>How operations move the session\<close>

abbreviation rows :: "session \<Rightarrow> nat list" where
  "rows x \<equiv> rc_lengths (se_cache x)"

abbreviation config :: "session \<Rightarrow> kv_config" where
  "config x \<equiv> rc_config (se_cache x)"

text \<open>\<open>grown\<close>: no layer has lost a row and the position has not gone back; \<open>advanced n\<close>: the position and every
  layer have gone up by \<open>n\<close>.\<close>

definition grown :: "session \<Rightarrow> session \<Rightarrow> bool" where
  "grown x y \<longleftrightarrow> se_stream y = se_stream x \<and> config y = config x \<and> length (rows y) = length (rows x) \<and> se_position x \<le> se_position y \<and>
     (\<forall>l < length (rows x). rows x ! l \<le> rows y ! l)"

definition advanced :: "nat \<Rightarrow> session \<Rightarrow> session \<Rightarrow> bool" where
  "advanced n x y \<longleftrightarrow> se_position y = se_position x + n \<and> rows y = map (\<lambda>r. r + n) (rows x)"

definition se_moves :: "nat \<Rightarrow> nat \<Rightarrow> ('s, 'a) se_comp \<Rightarrow> bool" where
  "se_moves N n m \<longleftrightarrow> (\<forall>s x t y r. length (rows x) = N \<longrightarrow> m (s, x) = ((t, y), r) \<longrightarrow>
     grown x y \<and> (is_ok r \<longrightarrow> advanced n x y))"

lemma grown_refl: "grown x x"
  by (simp add: grown_def)

lemma grown_trans: "grown x y \<Longrightarrow> grown y z \<Longrightarrow> grown x z"
  unfolding grown_def by (metis order_trans)

lemma advanced_refl: "advanced 0 x x"
  by (simp add: advanced_def)

lemma advanced_trans: "advanced a x y \<Longrightarrow> advanced b y z \<Longrightarrow> advanced (a + b) x z"
  by (simp add: advanced_def add.assoc comp_def)

lemma run_split: "\<exists>t y r. m sx = ((t, y), r)"
  by (metis surj_pair)

lemma se_movesD:
  "se_moves N n m \<Longrightarrow> m (s, x) = ((t, y), r) \<Longrightarrow> length (rows x) = N \<Longrightarrow> grown x y \<and> (is_ok r \<longrightarrow> advanced n x y)"
  unfolding se_moves_def by blast

lemma se_moves_still:
  assumes "\<And>s x. snd (fst (m (s, x))) = x"
  shows "se_moves N 0 m"
  unfolding se_moves_def
proof (intro allI impI)
  fix s x t y r assume "m (s, x) = ((t, y), r)"
  then have "y = x" using assms [of s x] by simp
  then show "grown x y \<and> (is_ok r \<longrightarrow> advanced 0 x y)" by (simp add: grown_refl advanced_refl)
qed

lemma se_moves_basic [simp]:
  "se_moves N 0 (se_ok a)" "se_moves N 0 (se_lift r)" "se_moves N 0 (se_gpu f)" "se_moves N 0 (se_get g)"
  "se_moves N 0 (se_launch m h)"
  by (rule se_moves_still,
      simp add: se_ok_def se_lift_def se_gpu_def se_get_def se_launch_def split: prod.splits sum.splits)+

lemma se_moves_Err [simp]: "se_moves N n (se_lift (Err e))"
  by (simp add: se_moves_def se_lift_def grown_refl)

lemma se_moves_bind:
  assumes "se_moves N a m" "\<And>v. se_moves N b (k v)"
  shows "se_moves N (a + b) (se_bind m k)"
  unfolding se_moves_def
proof (intro allI impI)
  fix s x t y r assume len: "length (rows x) = N" and run: "se_bind m k (s, x) = ((t, y), r)"
  obtain u z q where m: "m (s, x) = ((u, z), q)" by (metis surj_pair)
  note M = se_movesD [OF assms(1) m len]
  show "grown x y \<and> (is_ok r \<longrightarrow> advanced (a + b) x y)"
  proof (cases q)
    case (Inl e)
    then show ?thesis using run m M by (auto simp: se_bind_def)
  next
    case (Inr v)
    then have "k v (u, z) = ((t, y), r)" using run m by (simp add: se_bind_def)
    then have "grown z y \<and> (is_ok r \<longrightarrow> advanced b z y)"
      by (rule se_movesD [OF assms(2)]) (use M len in \<open>simp add: grown_def\<close>)
    then show ?thesis using M Inr by (auto intro: grown_trans advanced_trans)
  qed
qed

lemmas se_moves_bind0 = se_moves_bind [where a = 0, unfolded add_0]

lemma se_moves_for:
  assumes "\<And>v. v \<in> set vs \<Longrightarrow> se_moves N k (f v)"
  shows "se_moves N (k * length vs) (se_for f vs)"
  using assms
proof (induction vs)
  case (Cons v vs)
  have "se_moves N (k + k * length vs) (se_bind (f v) (\<lambda>_. se_for f vs))"
    using Cons by (intro se_moves_bind) simp_all
  then show ?case by simp
qed simp

lemma se_moves_launches [simp]: "se_moves N 0 (se_for (se_launch m) fs)"
  using se_moves_for [of fs N 0 "se_launch m"] by simp

lemma clear_pending_simps [simp]:
  "clear_pending drv (s, x) = (t, y) \<Longrightarrow> rows y = rows x \<and> se_position y = se_position x \<and> se_stream y = se_stream x \<and> config y = config x \<and> se_cache y = se_cache x"
  by (auto simp: clear_pending_def)

lemma se_moves_finish:
  assumes "se_moves N n m"
  shows "se_moves N n (se_finish drv m)"
  unfolding se_moves_def
proof (intro allI impI)
  fix s x t y r assume len: "length (rows x) = N" and run: "se_finish drv m (s, x) = ((t, y), r)"
  obtain u z q where m: "m (s, x) = ((u, z), q)" by (metis surj_pair)
  note M = se_movesD [OF assms m len]
  obtain v p where sync: "stream_synchronize drv (se_stream z) u = (v, p)" by fastforce
  have "clear_pending drv (v, z) = (t, y)" and r: "r = (case q of Inr _ \<Rightarrow> p | Inl e \<Rightarrow> Err e)"
    using run m sync by (simp_all add: se_finish_def)
  then have y: "rows y = rows z" "se_position y = se_position z" "se_stream y = se_stream z \<and> config y = config z" by simp_all
  have "is_ok r \<Longrightarrow> is_ok q" using r by (cases q) simp_all
  then show "grown x y \<and> (is_ok r \<longrightarrow> advanced n x y)" using M y by (auto simp: grown_def advanced_def)
qed

lemma se_moves_with_buffer:
  assumes "\<And>b. se_moves N n (body b)"
  shows "se_moves N n (with_buffer drv fresh body)"
  unfolding with_buffer_def
proof (rule se_moves_bind0)
  show "se_moves N n (\<lambda>sx. case body b sx of ((s, x), r) \<Rightarrow> ((device_buffer_drop drv b s, x), r))" for b
    using assms [of b] unfolding se_moves_def by (auto split: prod.splits)
qed simp

section \<open>A token\<close>

lemma append_effect_lengths:
  assumes "append_layer_async drv elem_size c layer keys vals n s = (t, c', r)"
  shows "if is_ok r then layer < length (rc_lengths c) \<and> c' = c\<lparr>rc_lengths := (rc_lengths c)[layer := rc_lengths c ! layer + n]\<rparr> else c' = c"
proof (cases "append_plan elem_size c layer keys vals n")
  case (Inl e)
  then show ?thesis using assms by (auto simp: append_layer_async_def)
next
  case (Inr p)
  obtain start end_pos copies bytes where p: "p = (start, end_pos, copies, bytes)" by (metis surj_pair)
  have start: "layer < length (rc_lengths c)" "end_pos = rc_lengths c ! layer + n"
    using Inr p by (auto simp: append_plan_def rt_kv_len_def Let_def split: if_splits)
  obtain u q where "append_submit drv (rc_stream c) [keys, vals, rc_keys c, rc_values c] layer n copies bytes s = (u, q)"
    by fastforce
  then show ?thesis using assms Inr p start by (cases q) (auto simp: append_layer_async_def)
qed

definition bumped :: "nat \<Rightarrow> nat list \<Rightarrow> nat list" where
  "bumped k R = map Suc (take k R) @ drop k R"

lemma bumped_simps [simp]: "bumped 0 R = R" "length (bumped k R) = length R" "bumped (length R) R = map Suc R"
  by (simp_all add: bumped_def)

lemma bumped_nth: "l < length R \<Longrightarrow> bumped k R ! l = (if l < k then Suc (R ! l) else R ! l)"
  by (simp add: bumped_def nth_append min_def)

lemma bumped_Suc: "k < length R \<Longrightarrow> (bumped k R)[k := Suc (bumped k R ! k)] = bumped (Suc k) R"
  by (rule nth_equalityI) (auto simp: bumped_nth nth_list_update)

lemma se_bind_pure:
  "se_bind (se_get f) k (s, x) = k (f x) (s, x)" "se_bind (se_lift (Ok a)) k sx = k a sx"
  "se_bind (se_lift (Err e)) k sx = (sx, Err e)" "se_bind (se_modify g) k' (s, x) = k' () (s, g x)"
  by (simp_all add: se_bind_def se_get_def se_lift_def se_modify_def)

text \<open>What a layer leaves: the same session but for the cache lengths and the pending appends.\<close>

lemma for_still:
  assumes "\<And>v s x. snd (fst (f v (s, x))) = x"
  shows "se_for f vs (s, x) = ((t, y), r) \<Longrightarrow> y = x"
proof (induction vs arbitrary: s)
  case (Cons v vs)
  obtain u z q where f: "f v (s, x) = ((u, z), q)" by (metis surj_pair)
  then have "z = x" using assms [of v s x] by simp
  then show ?case using Cons f by (cases q) (auto simp: se_bind_def)
qed (simp add: se_ok_def)

lemma launch_still: "snd (fst (se_launch m f (s, x))) = x"
  by (simp add: se_launch_def split: sum.splits prod.splits)

lemma enqueue_layer_effect:
  assumes "enqueue_layer drv m kv pos l (s, x) = ((t, y), r)" "rows x = bumped l R" "l < length R"
  shows "se_position y = se_position x \<and> se_stream y = se_stream x \<and> config y = config x \<and>
    (if is_ok r then rows y = bumped (Suc l) R else \<exists>k \<le> Suc l. rows y = bumped k R)"
proof -
  let ?lw = "wt_layers (md_weights m) ! l"
  obtain s1 x1 r1 where pre: "se_for (se_launch m) (before_append m kv pos ?lw) (s, x) = ((s1, x1), r1)" by (metis surj_pair)
  have x1: "x1 = x" by (rule for_still [OF launch_still pre])
  show ?thesis
  proof (cases r1)
    case (Inl e)
    then have "y = x \<and> \<not> is_ok r" using assms(1) pre x1 by (auto simp: enqueue_layer_def se_bind_def Let_def)
    then show ?thesis using assms(2) le_Suc_eq by auto
  next
    case (Inr _)
    obtain s2 c2 r2 where app: "append_layer_async drv 4 (se_cache x) l (ws_k_rope (se_workspace x)) (ws_v (se_workspace x)) 1 s1 = (s2, c2, r2)"
      by (metis surj_pair)
    note A = append_effect_lengths [OF app]
    define x2 where "x2 = (case r2 of Inl _ \<Rightarrow> x\<lparr>se_cache := c2\<rparr> | Inr a \<Rightarrow> x\<lparr>se_cache := c2, se_pending := se_pending x @ [a]\<rparr>)"
    have x2: "se_position x2 = se_position x" "se_stream x2 = se_stream x" "se_cache x2 = c2"
      by (simp_all add: x2_def split: sum.splits)
    have cfg: "config x2 = config x" using A x2 by (cases "is_ok r2") simp_all
    have app': "se_append drv l (s1, x) = ((s2, x2), map_sum id (\<lambda>_. ()) r2)"
      using app by (simp add: se_append_def x2_def split: sum.splits)
    note run = assms(1) [unfolded enqueue_layer_def Let_def se_bind_def pre Inr x1 prod.case sum.case app']
    show ?thesis
    proof (cases r2)
      case (Inl e)
      then have "y = x2 \<and> \<not> is_ok r" using run by auto
      then show ?thesis using x2 A Inl assms(2) le_Suc_eq by auto
    next
      case (Inr a)
      have bump: "rows x2 = bumped (Suc l) R"
        using A Inr x2 assms(2,3) by (simp add: bumped_Suc)
      have rest: "se_bind (se_for (se_launch m) (before_silu m l ?lw)) (\<lambda>_.
          se_bind (se_get (silu_launches m)) (\<lambda>n.
          se_bind (se_for (\<lambda>i. se_launch m (\<lambda>x. silu_call m i (se_workspace x))) [0..<n]) (\<lambda>_.
            se_for (se_launch m) (after_silu m ?lw)))) (s2, x2) = ((t, y), r)"
        using run Inr unfolding se_bind_def by simp
      obtain s3 x3 r3 where b3: "se_for (se_launch m) (before_silu m l ?lw) (s2, x2) = ((s3, x3), r3)" by (metis surj_pair)
      have x3: "x3 = x2" by (rule for_still [OF launch_still b3])
      obtain s4 x4 r4 where b4: "se_for (\<lambda>i. se_launch m (\<lambda>x. silu_call m i (se_workspace x))) [0..<silu_launches m x2] (s3, x2) = ((s4, x4), r4)"
        by (metis surj_pair)
      have x4: "x4 = x2" by (rule for_still [OF launch_still b4])
      obtain s5 x5 r5 where b5: "se_for (se_launch m) (after_silu m ?lw) (s4, x2) = ((s5, x5), r5)" by (metis surj_pair)
      have x5: "x5 = x2" by (rule for_still [OF launch_still b5])
      have "y = x2"
        using rest b3 x3 b4 x4 b5 x5 by (cases r3; cases r4) (auto simp: se_bind_def se_get_def)
      then show ?thesis using bump x2 cfg by auto
    qed
  qed
qed

lemma layers_effect:
  assumes "rows x = bumped k R" "k \<le> length R" "se_for (enqueue_layer drv m kv pos) [k..<length R] (s, x) = ((t, y), r)"
  shows "se_position y = se_position x \<and> se_stream y = se_stream x \<and> config y = config x \<and>
    (if is_ok r then rows y = map Suc R else \<exists>k. rows y = bumped k R)"
  using assms
proof (induction "length R - k" arbitrary: k s x)
  case 0
  then show ?case by (auto simp: se_ok_def)
next
  case (Suc d)
  then have k: "k < length R" by simp
  obtain s1 x1 r1 where step: "enqueue_layer drv m kv pos k (s, x) = ((s1, x1), r1)" by (metis surj_pair)
  note E = enqueue_layer_effect [OF step Suc.prems(1) k]
  have run: "se_bind (enqueue_layer drv m kv pos k) (\<lambda>_. se_for (enqueue_layer drv m kv pos) [Suc k..<length R]) (s, x) = ((t, y), r)"
    using Suc.prems(3) k by (simp add: upt_conv_Cons)
  show ?case
  proof (cases r1)
    case (Inl e)
    then show ?thesis using run step E by (auto simp: se_bind_def)
  next
    case (Inr _)
    then have "se_for (enqueue_layer drv m kv pos) [Suc k..<length R] (s1, x1) = ((t, y), r)"
      using run step by (simp add: se_bind_def)
    then show ?thesis using Suc.hyps(1) [of "Suc k" x1 s1] Suc.hyps(2) E Inr k by auto
  qed
qed

lemma token_moves:
  assumes "N = mc_num_hidden_layers (md_config m)"
  shows "se_moves N 1 (enqueue_current_token drv m)"
  unfolding se_moves_def
proof (intro allI impI)
  fix s x t y r assume len: "length (rows x) = N" and run: "enqueue_current_token drv m (s, x) = ((t, y), r)"
  let ?c = "md_config m"
  let ?layers = "\<lambda>kv. se_for (enqueue_layer drv m kv (se_position x)) [0..<N]"
  let ?tail = "\<lambda>_. se_bind (se_for (se_launch m) (final_calls m)) (\<lambda>_. se_modify (\<lambda>x. x\<lparr>se_position := se_position x + 1\<rparr>))"
  show "grown x y \<and> (is_ok r \<longrightarrow> advanced 1 x y)"
  proof (cases "se_position x \<ge> mc_max_position_embeddings ?c")
    case True
    then have "y = x \<and> \<not> is_ok r" using run unfolding enqueue_current_token_def Let_def se_bind_pure by (auto simp: se_lift_def)
    then show ?thesis by (simp add: grown_refl)
  next
    case False
    let ?gather = "se_launch m (\<lambda>x. with_weight (mw_tensor (wt_token_embedding (md_weights m))) (\<lambda>b.
            Ok (Gather b (ws_current_token (se_workspace x)) (ws_hidden (se_workspace x)) (mc_vocab_size ?c) (mc_hidden_size ?c))))"
    obtain s1 x1 r1 where g: "?gather (s, x) = ((s1, x1), r1)" using run_split [of ?gather "(s, x)"] by blast
    have "snd (fst (?gather (s, x))) = x" by (rule launch_still)
    then have x1: "x1 = x" unfolding g by simp
    have run': "(case r1 of Inl e \<Rightarrow> ((s1, x), Err e)
        | Inr _ \<Rightarrow> (case key_value_width ?c of Inl e \<Rightarrow> ((s1, x), Err e) | Inr kv \<Rightarrow> se_bind (?layers kv) ?tail (s1, x))) = ((t, y), r)"
      using run unfolding enqueue_current_token_def Let_def se_bind_pure if_not_P [OF False] se_bind_def [of ?gather] g x1 prod.case assms
      by (cases r1; cases "key_value_width ?c") (simp_all only: sum.case se_bind_pure)
    show ?thesis
    proof (cases "\<exists>kv. key_value_width ?c = Ok kv \<and> is_ok r1")
      case False
      then have "y = x \<and> \<not> is_ok r" using run' by (cases r1; cases "key_value_width ?c") auto
      then show ?thesis by (simp add: grown_refl)
    next
      case True
      then obtain kv where body: "se_bind (?layers kv) ?tail (s1, x) = ((t, y), r)" using run' by (cases r1) auto
      obtain s2 x2 r2 where l: "?layers kv (s1, x) = ((s2, x2), r2)" by (metis surj_pair)
      have "rows x = bumped 0 (rows x)" by simp
      note E = layers_effect [OF this le0, unfolded len, OF l]
      have grown2: "grown x x2"
        using E len by (cases r2) (auto simp: grown_def bumped_nth)
      show ?thesis
      proof (cases r2)
        case (Inl e)
        then show ?thesis using body l grown2 by (auto simp: se_bind_def)
      next
        case (Inr _)
        obtain s3 x3 r3 where f: "se_for (se_launch m) (final_calls m) (s2, x2) = ((s3, x3), r3)" by (metis surj_pair)
        have x3: "x3 = x2" by (rule for_still [OF launch_still f])
        have y: "y = (if is_ok r3 then x2\<lparr>se_position := se_position x2 + 1\<rparr> else x2)" "is_ok r = is_ok r3"
          using body unfolding se_bind_def l Inr prod.case sum.case f x3
          by (cases r3; auto simp: se_modify_def)+
        then show ?thesis using E Inr grown2 by (auto simp: grown_def advanced_def)
      qed
    qed
  qed
qed

section \<open>Operations\<close>

lemma se_moves_then: "se_moves N a m \<Longrightarrow> (\<And>v. se_moves N 0 (k v)) \<Longrightarrow> se_moves N a (se_bind m k)"
  using se_moves_bind [of N a m 0 k] by simp

lemma se_moves_drain [simp]: "se_moves N 0 (se_drain drv)"
  unfolding se_drain_def
proof (rule se_moves_bind0)
  have "grown x y \<and> advanced 0 x y" if "clear_pending drv (s, x) = (t, y)" for s t :: "'a rt" and x y
    using clear_pending_simps [OF that] by (simp add: grown_def advanced_def)
  then show "se_moves N 0 (\<lambda>sx. (clear_pending drv sx, Ok ()))" by (simp add: se_moves_def)
qed simp

lemma se_moves_logits [simp]: "se_moves N 0 (read_logits drv)"
  unfolding read_logits_def by (intro se_moves_bind0) simp_all

lemma decode_moves:
  assumes "N = mc_num_hidden_layers (md_config m)"
  shows "se_moves N 1 (decode_one drv m token)"
proof -
  have decode: "se_moves N 1 (se_bind (se_finish drv (se_bind (se_gpu f) (\<lambda>_. enqueue_current_token drv m))) (\<lambda>_. read_logits drv))" for f
    using token_moves [OF assms] by (intro se_moves_then se_moves_finish se_moves_bind0 [where m = "se_gpu f"]) simp_all
  have body: "se_moves N 1 (if c then se_lift (Err e) else se_bind (se_finish drv (se_bind (se_gpu f) (\<lambda>_. enqueue_current_token drv m)))
      (\<lambda>_. read_logits drv))" for c e f
    using decode by (cases c) simp_all
  show ?thesis unfolding decode_one_def by (intro se_moves_bind0 body) simp_all
qed

lemma decode_capacity:
  assumes "decode_one drv m token (s, x) = ((t, y), Ok r)"
  shows "se_position x < session_capacity m"
proof (rule ccontr)
  assume "\<not> se_position x < session_capacity m"
  then show False using assms unfolding decode_one_def
    by (cases "validate_token m token") (simp_all add: se_bind_pure, simp add: se_lift_def)
qed

lemma prefill_moves:
  assumes "N = mc_num_hidden_layers (md_config m)"
  shows "se_moves N (buf_len b) (enqueue_prefill drv m b)"
proof -
  have "se_moves N (1 * length [0..<buf_len b]) (enqueue_prefill drv m b)"
    unfolding enqueue_prefill_def by (intro se_moves_for se_moves_bind0 token_moves [OF assms]) simp
  then show ?thesis by simp
qed

lemma force_moves:
  "(\<And>t. se_moves N 1 (decode t)) \<Longrightarrow> se_moves N (length tokens) (force_rows decode vocab acc tokens)"
proof (induction tokens arbitrary: acc)
  case (Cons a tokens)
  have "se_moves N (1 + length tokens) (force_rows decode vocab acc (a # tokens))"
    unfolding force_rows.simps by (rule se_moves_bind [OF Cons.prems]) (simp add: Cons.IH [OF Cons.prems])
  then show ?case by simp
qed simp

text \<open>Draining and rewinding.\<close>

lemma drain_effect:
  assumes "se_drain drv (s, x) = ((t, y), r)"
  shows "rows y = rows x \<and> se_position y = se_position x \<and> se_stream y = se_stream x \<and> config y = config x \<and> se_cache y = se_cache x \<and>
    (is_ok r \<longleftrightarrow> is_ok (snd (stream_synchronize drv (se_stream x) s)))"
proof -
  obtain u q where sync: "stream_synchronize drv (se_stream x) s = (u, q)" by fastforce
  show ?thesis
  proof (cases q)
    case (Inl e)
    then show ?thesis using assms sync by (auto simp: se_drain_def se_bind_def se_gpu_def)
  next
    case (Inr a)
    then have "clear_pending drv (u, x) = (t, y)" "r = Ok ()" using assms sync by (simp_all add: se_drain_def se_bind_def se_gpu_def)
    then show ?thesis using clear_pending_simps [of drv u x t y] sync Inr by simp
  qed
qed

lemma reset_effect:
  assumes "se_reset drv (s, x) = ((t, y), r)"
  shows "se_stream y = se_stream x \<and> config y = config x \<and> (if is_ok r then se_position y = 0 \<and> rows y = replicate (length (rows x)) 0
    else se_position y = se_position x \<and> rows y = rows x)"
proof -
  obtain u z q where d: "se_drain drv (s, x) = ((u, z), q)" by (metis surj_pair)
  note D = drain_effect [OF d]
  show ?thesis
    using assms d D by (cases q) (auto simp: se_reset_def se_bind_def se_modify_def rt_kv_reset_def)
qed

lemma truncate_effect:
  assumes "rt_kv_truncate c n = (c', r)"
  shows "if is_ok r then (\<forall>k \<in> set (rc_lengths c). n \<le> k) \<and> rc_lengths c' = replicate (length (rc_lengths c)) n \<and> rc_config c' = rc_config c
    else c' = c \<and> (\<exists>k \<in> set (rc_lengths c). k < n)"
proof (cases "find (\<lambda>(_, current). current < n) (enumerate 0 (rc_lengths c))")
  case None
  then have "n \<le> rc_lengths c ! i" if "i < length (rc_lengths c)" for i
    using None that unfolding find_None_iff in_set_enumerate_eq
    by (simp add: not_less) (metis not_less)
  then have "\<forall>k \<in> set (rc_lengths c). n \<le> k"
    by (auto simp: in_set_conv_nth)
  then show ?thesis using assms None by (auto simp: rt_kv_truncate_def truncate_lengths_def)
next
  case (Some p)
  then have "p \<in> set (enumerate 0 (rc_lengths c))" "snd p < n"
    by (auto simp: find_Some_iff case_prod_beta simp del: nth_enumerate_eq intro: nth_mem)
  then have "\<exists>k \<in> set (rc_lengths c). k < n" by (metis in_set_enumerate_eq diff_zero nth_mem add_0_right)
  then show ?thesis using assms Some by (cases p) (auto simp: rt_kv_truncate_def truncate_lengths_def)
qed

lemma rewind_effect:
  assumes "rewind_to drv n (s, x) = ((t, y), r)"
  shows "se_stream y = se_stream x \<and> config y = config x \<and>
    (if is_ok r then se_position y = n \<and> rows y = replicate (length (rows x)) n \<and> (\<forall>k \<in> set (rows x). n \<le> k)
     else se_position y = se_position x \<and> rows y = rows x \<and>
       (\<not> is_ok (snd (stream_synchronize drv (se_stream x) s)) \<or> (\<exists>k \<in> set (rows x). k < n)))"
proof -
  obtain u z q where d: "se_drain drv (s, x) = ((u, z), q)" by (metis surj_pair)
  note D = drain_effect [OF d]
  show ?thesis
  proof (cases q)
    case (Inl e)
    then show ?thesis using assms d D by (auto simp: rewind_to_def se_bind_def)
  next
    case (Inr a)
    obtain c p where tr: "rt_kv_truncate (se_cache z) n = (c, p)" by fastforce
    note T = truncate_effect [OF tr]
    show ?thesis
      using assms d D Inr tr T by (cases p) (auto simp: rewind_to_def se_bind_def se_modify_def)
  qed
qed

text \<open>A \<open>finish\<close> after an enqueue that has already run.\<close>

lemma finish_after:
  assumes "se_finish drv (\<lambda>_. ((u, z), q)) sx = ((t, y), r)"
  shows "rows y = rows z \<and> se_position y = se_position z \<and> se_stream y = se_stream z \<and> config y = config z \<and> (is_ok r \<longrightarrow> is_ok q)"
proof -
  obtain v p where sync: "stream_synchronize drv (se_stream z) u = (v, p)" by fastforce
  have y: "clear_pending drv (v, z) = (t, y)" and r: "r = (case q of Inr _ \<Rightarrow> p | Inl e \<Rightarrow> Err e)"
    using assms sync by (simp_all add: se_finish_def)
  show ?thesis using clear_pending_simps [OF y] r by (cases q) simp_all
qed

lemma se_bind_OkE:
  assumes "se_bind m k sx = (ty, Ok b)"
  obtains u a where "m sx = (u, Ok a)" "k a u = (ty, Ok b)"
  using assms by (auto simp: se_bind_def split: prod.splits sum.splits)

lemma observe_moves [simp]: "se_moves N 0 (observe_token drv m)"
  unfolding se_moves_def
proof (intro allI impI)
  fix s x t y r assume len: "length (rows x) = N" and run: "observe_token drv m (s, x) = ((t, y), r)"
  let ?M = "se_bind (launch_top_1 m) (\<lambda>_. se_gpu (\<lambda>x. copy_to_host_async drv 4 (ws_current_token (se_workspace x)) (se_stream x) 1))"
  obtain u z q where M: "?M (s, x) = ((u, z), q)" using run_split [of ?M "(s, x)"] by blast
  have "se_moves N 0 ?M" unfolding launch_top_1_def by (intro se_moves_bind0) simp_all
  note G = se_movesD [OF this M len]
  obtain t' y' p where F: "se_finish drv (\<lambda>_. ((u, z), map_sum id (\<lambda>_. ()) q)) (u, z) = ((t', y'), p)" by (metis surj_pair)
  have "se_bind (se_finish drv (\<lambda>_. ((u, z), map_sum id (\<lambda>_. ()) q))) (\<lambda>_. se_lift q) (u, z) = ((t, y), r)"
    using run unfolding observe_token_def M prod.case .
  then have "(case p of Inl e \<Rightarrow> ((t', y'), Err e) | Inr _ \<Rightarrow> ((t', y'), q)) = ((t, y), r)"
    unfolding se_bind_def F prod.case se_lift_def .
  then have "(t, y) = (t', y')" and "is_ok r \<longrightarrow> is_ok p \<and> is_ok q" by (cases p; auto)+
  then show "grown x y \<and> (is_ok r \<longrightarrow> advanced 0 x y)"
    using G finish_after [OF F] by (auto simp: grown_def advanced_def)
qed

lemma eos_loop_effect:
  assumes "N = mc_num_hidden_layers (md_config m)"
  shows "eos_loop drv m eos n before (s, x) = ((t, y), Ok out) \<Longrightarrow> length (rows x) = N \<Longrightarrow>
    \<exists>new. out = before @ new \<and> length new \<le> n \<and> eos \<notin> set (butlast new) \<and>
      (length new < n \<longrightarrow> new \<noteq> [] \<and> last new = eos) \<and> advanced (length new) x y"
proof (induction n arbitrary: before s x)
  case 0
  then have f: "se_finish drv (se_ok ()) (s, x) = ((t, y), Ok ())" and "out = before"
    by (auto simp: se_ok_def se_bind_def split: prod.splits sum.splits)
  then have "advanced 0 x y" using se_movesD [OF se_moves_finish [OF se_moves_basic(1)], of drv "()" s x t y "Ok ()"] 0 by simp
  then show ?case using \<open>out = before\<close> by auto
next
  case (Suc n)
  obtain bs uz where obs0: "observe_token drv m (s, x) = (uz, Ok bs)"
    and run0: "(let token = le_value bs; generated = before @ [token] in
       (\<lambda>sx. case enqueue_current_token drv m sx of
          (ty, enqueued) \<Rightarrow>
            if token = eos \<or> \<not> is_ok enqueued then
              se_bind (se_finish drv (\<lambda>u. (ty, enqueued))) (\<lambda>_.
                if token = eos then se_ok generated else eos_loop drv m eos n generated) ty
            else eos_loop drv m eos n generated ty)) uz = ((t, y), Ok out)"
    by (rule se_bind_OkE [OF Suc.prems(1) [unfolded eos_loop.simps]])
  obtain u z where uz: "uz = (u, z)" by fastforce
  have obs: "observe_token drv m (s, x) = ((u, z), Ok bs)"
    and run: "(case enqueue_current_token drv m (u, z) of (ty, enqueued) \<Rightarrow>
        if le_value bs = eos \<or> \<not> is_ok enqueued then
          se_bind (se_finish drv (\<lambda>_. (ty, enqueued))) (\<lambda>_.
            if le_value bs = eos then se_ok (before @ [le_value bs])
            else eos_loop drv m eos n (before @ [le_value bs])) ty
        else eos_loop drv m eos n (before @ [le_value bs]) ty) = ((t, y), Ok out)"
    using obs0 run0 unfolding uz Let_def .
  have A: "advanced 0 x z" using se_movesD [OF observe_moves obs Suc.prems(2)] by simp
  then have len: "length (rows z) = N" using Suc.prems(2) by (simp add: advanced_def)
  obtain v w q where enq: "enqueue_current_token drv m (u, z) = ((v, w), q)" by (metis surj_pair)
  note T = se_movesD [OF token_moves [OF assms] enq len]
  then have lenw: "length (rows w) = N" using len by (simp add: grown_def)
  show ?case
  proof (cases "le_value bs = eos \<or> \<not> is_ok q")
    case False
    then have "eos_loop drv m eos n (before @ [le_value bs]) (v, w) = ((t, y), Ok out)" using run enq by simp
    from Suc.IH [OF this lenw] obtain new where new: "out = (before @ [le_value bs]) @ new" "length new \<le> n"
      "eos \<notin> set (butlast new)" "length new < n \<longrightarrow> new \<noteq> [] \<and> last new = eos" "advanced (length new) w y" by blast
    have "advanced (1 + length new) x y" using advanced_trans [OF A advanced_trans [of 1 z w]] T False new(5) by simp
    then show ?thesis using new False by (intro exI [of _ "le_value bs # new"]) auto
  next
    case True
    obtain ty a where F0: "se_finish drv (\<lambda>_. ((v, w), q)) (v, w) = (ty, Ok a)"
      and rest0: "(if le_value bs = eos then se_ok (before @ [le_value bs])
            else eos_loop drv m eos n (before @ [le_value bs])) ty = ((t, y), Ok out)"
      by (rule se_bind_OkE [OF run [unfolded enq prod.case if_P [OF True]]])
    obtain t' y' where ty: "ty = (t', y')" by fastforce
    note F = F0 [unfolded ty] and rest = rest0 [unfolded ty]
    note F' = finish_after [OF F]
    have eos: "le_value bs = eos" and q: "is_ok q" using True F' by auto
    then have "y = y'" and out: "out = before @ [eos]" using rest by (simp_all add: se_ok_def)
    then have "advanced 1 x y" using advanced_trans [OF A, of 1 w] T q F' by (simp add: advanced_def)
    then show ?thesis using out eos by (intro exI [of _ "[eos]"]) auto
  qed
qed

end
