(* ===== verification/SessionDemo.thy ===== *)
theory SessionDemo
  imports DecoderSession
begin

text \<open>
  One small session, evaluated: a driver on which everything succeeds and every read gives zeros, kernels that do
  nothing, and the equations for decoding a token, reading it back and choosing the next.  The concrete instances of
  the properties of sessions are taken here.
\<close>

text \<open>A driver with a bump allocator on which everything succeeds and every read gives zeros, and kernels that do nothing.\<close>

definition bump_driver :: "nat cuda" where
  "bump_driver = \<lparr>cu_api = Ok (), cu_ctx_set_current = (\<lambda>_ g. (g, 0)), cu_mem_alloc = (\<lambda>_ g. (g + 256, (0, g))),
     cu_memcpy_async = (\<lambda>_ _ _ _ g. (g, 0)),
     cu_stream_synchronize = (\<lambda>_ g. (g, 0)), cu_stream_wait_event = (\<lambda>_ _ g. (g, 0)),
     cu_event_create = (\<lambda>g. (g, (0, 1))), cu_event_record = (\<lambda>_ _ g. (g, 0)),
     cu_event_synchronize = (\<lambda>_ g. (g, 0)), cu_mem_free = (\<lambda>_ g. (g, 0)),
     cu_memset_d8_async = (\<lambda>_ _ _ _ g. (g, 0)), cu_memset_d32_async = (\<lambda>_ _ _ _ g. (g, 0)),
     cu_memcpy_htod_async = (\<lambda>_ _ _ g. (g, 0)), cu_memcpy_dtoh_async = (\<lambda>_ n _ g. (g, (0, replicate n 0))),
     cu_stream_create = (\<lambda>_ g. (g, (0, 2))), cu_stream_query = (\<lambda>_ g. (g, 0)), cu_stream_destroy = (\<lambda>_ g. (g, 0)),
     cu_event_query = (\<lambda>_ g. (g, 0)), cu_event_elapsed_time = (\<lambda>_ _ g. (g, (0, 0))), cu_event_destroy = (\<lambda>_ g. (g, 0)),
     cu_mem_pool_create = (\<lambda>_ g. (g, (801, 0))), cu_mem_pool_set_attribute = (\<lambda>_ _ _ g. (g, 801)),
     cu_mem_alloc_from_pool_async = (\<lambda>_ _ _ g. (g, (801, 0))), cu_mem_free_async = (\<lambda>_ _ g. (g, 801))\<rparr>"

definition demo_decoder :: "nat decoder_model" where
  "demo_decoder = \<lparr>md_config = demo_config, md_weights = demo_weights, md_context = 7, md_projection = baseline_gemm,
     md_representation = all_f32, md_fusion = fusion_baseline, md_attention = attention_baseline, md_gemv_blocks = [],
     md_bf16_lm_head_gemv = False, md_fused_silu_multiply = False, md_parallel_value_attention = False,
     md_rope_cos = \<lparr>buf_ptr = 64, buf_len = 16, buf_ctx = 7\<rparr>, md_rope_sin = \<lparr>buf_ptr = 128, buf_len = 16, buf_ctx = 7\<rparr>,
     md_launch = (\<lambda>_ _. rt_ok ()), md_attention_scale = (\<lambda>_. 0), md_top_k_workspace = (\<lambda>_. rt_ok [])\<rparr>"

lemma bump_simps:
  "driver_api bump_driver = Ok ()" "set_current bump_driver c s = (s, Ok ())"
  "drv_call op (cu_memcpy_async bump_driver a b n st) s = (s, Ok ())"
  "drv_call op (cu_memcpy_htod_async bump_driver a bs st) s = (s, Ok ())"
  "drv_call op (cu_event_record bump_driver e st) s = (s, Ok ())"
  "drv_read op (cu_memcpy_dtoh_async bump_driver a n st) s = (s, Ok (replicate n 0))"
  "stream_synchronize bump_driver stream s = (s, Ok ())"
  "event_new bump_driver c s = (s, Ok \<lparr>event_raw = 1, event_ctx = c\<rparr>)"
  "stream_new bump_driver c s = (s, Ok \<lparr>stream_raw = 2, stream_ctx = c\<rparr>)"
  "device_buffer_drop bump_driver buf s = s" "event_drop bump_driver ev s = s"
  by (simp_all add: driver_api_def set_current_def rt_bind_def drv_call_def drv_read_def stream_synchronize_def event_new_def
     drv_call_out_def device_buffer_drop_def event_drop_def drop_with_def stream_new_def stream_with_flags_def rt_ok_def rt_lift_def bump_driver_def)

lemma bump_new:
  "0 < n \<Longrightarrow> n * 4 < u64_lim \<Longrightarrow> device_buffer_new bump_driver 4 c n s = (s\<lparr>gpu := gpu s + 256\<rparr>, Ok \<lparr>buf_ptr = gpu s, buf_len = n, buf_ctx = c\<rparr>)"
  by (simp add: device_buffer_new_def checked_mul_def rt_bind_def bump_simps drv_call_out_def) (simp add: bump_driver_def)

definition demo_buffer :: "nat \<Rightarrow> nat \<Rightarrow> device_buffer" where
  "demo_buffer i n = \<lparr>buf_ptr = 1024 + 256 * i, buf_len = n, buf_ctx = 7\<rparr>"

definition demo_session :: session where
  "demo_session = \<lparr>se_stream = \<lparr>stream_raw = 2, stream_ctx = 7\<rparr>,
     se_cache = \<lparr>rc_config = \<lparr>kc_layers = 1, kc_heads = 1, kc_head_dim = 2, kc_capacity = 8\<rparr>,
       rc_stream = \<lparr>stream_raw = 2, stream_ctx = 7\<rparr>, rc_keys = demo_buffer 0 16, rc_values = demo_buffer 1 16, rc_lengths = [0]\<rparr>,
     se_workspace = \<lparr>ws_hidden = demo_buffer 3 2, ws_normed = demo_buffer 4 2, ws_q = demo_buffer 5 2, ws_k = demo_buffer 6 2,
       ws_v = demo_buffer 7 2, ws_q_rope = demo_buffer 8 2, ws_k_rope = demo_buffer 9 2, ws_attention = demo_buffer 10 2,
       ws_projected = demo_buffer 11 2, ws_residual = demo_buffer 12 2, ws_gate = demo_buffer 13 1, ws_up = demo_buffer 14 1,
       ws_activated = Some (demo_buffer 2 1), ws_gated = demo_buffer 15 1, ws_mlp = demo_buffer 16 2, ws_logits = demo_buffer 17 2,
       ws_current_token = demo_buffer 18 1, ws_top_value = demo_buffer 19 1, ws_top_k = []\<rparr>,
     se_pending = [], se_position = 0\<rparr>"

lemma demo_decoder_sel [simp]:
  "md_config demo_decoder = demo_config" "md_weights demo_decoder = demo_weights" "md_context demo_decoder = 7"
  "md_projection demo_decoder = baseline_gemm" "md_representation demo_decoder = all_f32" "md_fusion demo_decoder = fusion_baseline"
  "md_attention demo_decoder = attention_baseline" "md_launch demo_decoder call stream = rt_ok ()"
  "md_top_k_workspace demo_decoder n = rt_ok []"
  by (simp_all add: demo_decoder_def)

lemma demo_config_sel [simp]:
  "mc_vocab_size demo_config = 2" "mc_hidden_size demo_config = 2" "mc_intermediate_size demo_config = 1" "mc_num_hidden_layers demo_config = 1"
  "mc_num_attention_heads demo_config = 1" "mc_num_key_value_heads demo_config = 1" "mc_head_dim demo_config = 2"
  "mc_max_position_embeddings demo_config = 8"
  by (simp_all add: demo_config_def mc_head_dim_def)

text \<open>The session with \<open>q\<close> rows, at position \<open>p\<close>.\<close>

definition demo_at :: "nat \<Rightarrow> nat \<Rightarrow> session" where
  "demo_at q p = demo_session\<lparr>se_cache := (se_cache demo_session)\<lparr>rc_lengths := [q]\<rparr>, se_position := p\<rparr>"

lemma demo_new: "session_new bump_driver demo_decoder \<lparr>gpu = 1024, forgotten = []\<rparr> = (\<lparr>gpu = 6144, forgotten = []\<rparr>, Ok (demo_at 0 0))"
proof -
  let ?c = "\<lparr>kc_layers = 1, kc_heads = 1, kc_head_dim = 2, kc_capacity = 8\<rparr>"
  have sizes: "workspace_sizes demo_config 2 True = [1, 2, 2, 2, 2, 2, 2, 2, 2, 2, 2, 1, 1, 1, 2, 2, 1, 1]"
    by (simp add: workspace_sizes_def)
  have sel: "fp_silu_multiply fusion_baseline = Separate" by (simp add: fusion_baseline_def)
  have side [unfolded One_nat_def, simp]: "elements_per_side ?c = Ok 16"
    by (simp add: elements_per_side_def checked_mul_def u64_lim_def)
  have valid [unfolded One_nat_def, simp]: "kv_config_validate ?c = Ok ()" by (simp add: kv_config_validate_def side)
  have cache [unfolded One_nat_def]: "rt_kv_new bump_driver 4 \<lparr>stream_raw = 2, stream_ctx = 7\<rparr> ?c \<lparr>gpu = 1024, forgotten = []\<rparr> =
      (\<lparr>gpu = 1536, forgotten = []\<rparr>, Ok (se_cache demo_session))"
    by (simp add: rt_kv_new_def valid side rt_bind_def bump_new u64_lim_def demo_session_def demo_buffer_def)
  have ws: "workspace_new bump_driver demo_decoder \<lparr>gpu = 1536, forgotten = []\<rparr> =
      (\<lparr>gpu = 6144, forgotten = []\<rparr>, Ok (se_workspace demo_session))"
    by (simp add: workspace_new_def sel Let_def demo_kv_width sizes rt_bind_def bump_new u64_lim_def)
       (simp add: demo_session_def demo_buffer_def workspace_of_def)
  have "session_new bump_driver demo_decoder \<lparr>gpu = 1024, forgotten = []\<rparr> = (\<lparr>gpu = 6144, forgotten = []\<rparr>, Ok demo_session)"
    by (simp add: session_new_def Let_def rt_bind_def bump_simps kv_config_new_def valid cache ws) (simp add: demo_session_def)
  then show ?thesis by (simp add: demo_at_def demo_session_def)
qed

section \<open>One token\<close>

lemma launches_ok:
  "\<forall>f \<in> set fs. is_ok (f x) \<Longrightarrow> se_for (se_launch demo_decoder) fs (s, x) = ((s, x), Ok ())"
proof (induction fs)
  case (Cons f fs)
  then obtain call where "f x = Ok call" by (auto simp: is_ok_iff)
  then have "se_launch demo_decoder f (s, x) = ((s, x), Ok ())" by (simp add: se_launch_def)
  then show ?case using Cons by (simp add: se_bind_def)
qed (simp add: se_ok_def)

lemma demo_layer: "wt_layers demo_weights ! 0 =
    \<lparr>lw_input_norm = demo_vector 4112 2, lw_q_proj = demo_matrix 4128 2 2, lw_k_proj = demo_matrix 4144 2 2,
     lw_v_proj = demo_matrix 4160 2 2, lw_o_proj = demo_matrix 4176 2 2, lw_post_attention_norm = demo_vector 4192 2,
     lw_gate_proj = demo_matrix 4200 2 1, lw_up_proj = demo_matrix 4208 2 1, lw_down_proj = demo_matrix 4216 1 2\<rparr>"
  by (simp add: demo_weights_def)

lemma demo_calls_ok:
  "is_ok (norm_call demo_decoder a (demo_vector n k) b)" "is_ok (matrix_call demo_decoder family a (demo_matrix n i j) b k k')"
  "is_ok (rope_call demo_decoder a b n k)"
  by (simp_all add: norm_call_def matrix_call_def rope_call_def with_weight_def demo_vector_def demo_matrix_def projection_call_def
      projection_choice_def baseline_gemm_def split: projection_family.split)

lemma demo_append:
  assumes "q < 8"
  shows "\<exists>a. append_layer_async bump_driver 4 ((se_cache demo_session)\<lparr>rc_lengths := [q]\<rparr>) 0 (ws_k_rope (se_workspace demo_session))
      (ws_v (se_workspace demo_session)) 1 s = (s, (se_cache demo_session)\<lparr>rc_lengths := [Suc q]\<rparr>, Ok a)"
proof -
  let ?c = "(se_cache demo_session)\<lparr>rc_lengths := [q]\<rparr>"
  let ?k = "ws_k_rope (se_workspace demo_session)" and ?v = "ws_v (se_workspace demo_session)"
  have bufs: "?k = demo_buffer 9 2" "?v = demo_buffer 7 2" "rc_config ?c = \<lparr>kc_layers = 1, kc_heads = 1, kc_head_dim = 2, kc_capacity = 8\<rparr>"
    "rc_keys ?c = demo_buffer 0 16" "rc_values ?c = demo_buffer 1 16" "rc_stream ?c = \<lparr>stream_raw = 2, stream_ctx = 7\<rparr>"
    by (simp_all add: demo_session_def workspace_of_def)
  obtain copies bytes where "append_plan 4 ?c 0 ?k ?v 1 = Ok (q, Suc q, copies, bytes)"
    unfolding append_plan_def Let_def bufs using assms
    by (simp add: rt_kv_len_def checked_add_def checked_mul_def u64_lim_def demo_buffer_def plan_head_def append_base_elements_def
        head_base_elements_def device_region_address_def u64_of_usize_def bufs)
  moreover have "rt_for (submit_head bump_driver st res 0 1 bytes) cs s = (s, Ok ())" for st res cs
    by (induction cs) (auto simp: submit_head_def submit_copy_def rt_bind_def bump_simps split: prod.splits)
  ultimately show ?thesis
    by (simp add: append_layer_async_def append_submit_def rt_bind_def bump_simps from_enqueued_def event_record_def bufs)
qed

lemma demo_token:
  assumes "q < 8" "p < 8"
  shows "\<exists>pending. enqueue_current_token bump_driver demo_decoder (s, (demo_at q p)\<lparr>se_pending := before\<rparr>) =
    ((s, (demo_at (Suc q) (Suc p))\<lparr>se_pending := pending\<rparr>), Ok ())"
proof -
  let ?x = "(demo_at q p)\<lparr>se_pending := before\<rparr>"
  have ws: "se_workspace ?x = se_workspace demo_session" "se_cache ?x = (se_cache demo_session)\<lparr>rc_lengths := [q]\<rparr>"
    by (simp_all add: demo_at_def)
  obtain a where app: "append_layer_async bump_driver 4 (se_cache ?x) 0 (ws_k_rope (se_workspace ?x)) (ws_v (se_workspace ?x)) 1 s =
      (s, (se_cache demo_session)\<lparr>rc_lengths := [Suc q]\<rparr>, Ok a)" using demo_append [OF assms(1)] unfolding ws by blast
  define y where "y = ?x\<lparr>se_cache := (se_cache demo_session)\<lparr>rc_lengths := [Suc q]\<rparr>, se_pending := before @ [a]\<rparr>"
  have gather: "se_launch demo_decoder (\<lambda>x. with_weight (mw_tensor (wt_token_embedding demo_weights))
      (\<lambda>b. Ok (Gather b (ws_current_token (se_workspace x)) (ws_hidden (se_workspace x)) 2 2))) (s, x) = ((s, x), Ok ())" for x
    by (simp add: se_launch_def with_weight_def demo_weights_def demo_matrix_def)
  have act: "ws_activated (se_workspace y) = Some (demo_buffer 2 1)"
    by (simp add: y_def ws demo_at_def demo_session_def workspace_of_def)
  have calls: "silu_multiply_calls demo_decoder g u (Some b) r = [Ok (Silu_call g b), Ok (Multiply b u r)]" for g u b r
    by (simp add: silu_multiply_calls_def fusion_baseline_def)
  have silu: "se_for (\<lambda>i. se_launch demo_decoder (\<lambda>x. silu_call demo_decoder i (se_workspace x))) [0..<silu_launches demo_decoder y] (s, y) = ((s, y), Ok ())"
    by (simp add: silu_launches_def act calls upt_rec silu_call_def se_bind_def se_launch_def se_ok_def)
  let ?l = "wt_layers demo_weights ! 0"
  have pre: "se_for (se_launch demo_decoder) (before_append demo_decoder 2 p ?l) (s, ?x) = ((s, ?x), Ok ())"
    by (rule launches_ok) (simp add: before_append_def demo_layer demo_calls_ok)
  have mid: "se_for (se_launch demo_decoder) (before_silu demo_decoder 0 ?l) (s, y) = ((s, y), Ok ())"
    by (rule launches_ok) (simp add: before_silu_def demo_layer demo_calls_ok attention_call_def attention_baseline_def)
  have post: "se_for (se_launch demo_decoder) (after_silu demo_decoder ?l) (s, y) = ((s, y), Ok ())"
    by (rule launches_ok) (simp add: after_silu_def demo_layer demo_calls_ok)
  have append: "se_append bump_driver 0 (s, ?x) = ((s, y), Ok ())"
    unfolding se_append_def prod.case app sum.case by (simp add: y_def ws)
  have layer: "enqueue_layer bump_driver demo_decoder 2 p 0 (s, ?x) = ((s, y), Ok ())"
    unfolding enqueue_layer_def Let_def demo_decoder_sel se_bind_def pre append mid se_get_def silu post prod.case sum.case ..
  have final: "se_for (se_launch demo_decoder) (final_calls demo_decoder) (s, y) = ((s, y), Ok ())"
    by (rule launches_ok) (simp add: final_calls_def demo_weights_def demo_calls_ok lm_head_call_def all_f32_def demo_matrix_def
      projection_call_def projection_choice_def baseline_gemm_def)
  have pos: "se_position ?x = p" by (simp add: demo_at_def)
  have "enqueue_current_token bump_driver demo_decoder (s, ?x) = ((s, y\<lparr>se_position := Suc p\<rparr>), Ok ())"
    unfolding enqueue_current_token_def Let_def demo_decoder_sel demo_config_sel
    using assms(2)
    by (simp add: se_bind_pure pos se_bind_def [of "se_launch m f" for m f] gather demo_kv_width)
       (simp add: se_bind_def layer se_ok_def final se_modify_def, simp add: y_def demo_at_def)
  then show ?thesis by (intro exI [of _ "before @ [a]"]) (simp add: y_def demo_at_def)
qed

lemma demo_logits:
  "read_logits bump_driver (s, (demo_at q p)\<lparr>se_pending := before\<rparr>) = ((s, (demo_at q p)\<lparr>se_pending := before\<rparr>), Ok [0, 0])"
proof -
  have "se_stream ((demo_at q p)\<lparr>se_pending := before\<rparr>) = \<lparr>stream_raw = 2, stream_ctx = 7\<rparr>"
    "ws_logits (se_workspace ((demo_at q p)\<lparr>se_pending := before\<rparr>)) = demo_buffer 17 2"
    by (simp_all add: demo_at_def demo_session_def)
  moreover have "f32_values (replicate 8 0) = [0, 0]"
  proof -
    have "le_value [0, 0, 0, 0] = 0" by (simp add: le_value_def)
    moreover have four: "replicate 4 (0 :: u8) = [0, 0, 0, 0]" by (simp add: numeral_eq_Suc)
    moreover have "replicate 8 (0 :: u8) = concat [replicate 4 0, replicate 4 0]" by (simp add: replicate_add [symmetric])
    moreover have "chunks_exact 4 (concat [replicate 4 (0 :: u8), replicate 4 0]) = [replicate 4 0, replicate 4 0]"
      by (rule chunks_exact_concat) simp_all
    ultimately show ?thesis by (simp add: f32_values_def)
  qed
  ultimately show ?thesis
    by (simp add: read_logits_def se_bind_def se_gpu_def buffer_to_vec_def copy_to_host_def then_synchronize_def copy_to_host_async_def
        demo_buffer_def ensure_stream_context_def rt_bind_def bump_simps with_bytes_def se_ok_def size_bytes_def)
qed

lemma demo_clear: "clear_pending bump_driver (s, (demo_at q p)\<lparr>se_pending := before\<rparr>) = (s, demo_at q p)"
proof -
  have "pending_drop bump_driver w t = t" for w t
    by (simp add: pending_drop_def event_synchronize_def rt_bind_def bump_simps)
       (simp add: drv_call_def bump_driver_def)
  then have "fold (\<lambda>a. pending_drop bump_driver (ka_work a)) as t = t" for as t by (induction as arbitrary: t) auto
  then show ?thesis by (simp add: clear_pending_def demo_at_def demo_session_def)
qed

lemma demo_finish:
  assumes "m (s, x) = ((s, (demo_at q p)\<lparr>se_pending := before\<rparr>), r)"
  shows "se_finish bump_driver m (s, x) = ((s, demo_at q p), r)"
proof -
  have "(case r of Inl e \<Rightarrow> Err e | Inr _ \<Rightarrow> Ok ()) = r" by (cases r) simp_all
  then show ?thesis by (simp add: se_finish_def assms bump_simps demo_clear)
qed

lemma demo_drain: "se_drain bump_driver (s, demo_at q p) = ((s, demo_at q p), Ok ())"
proof -
  have "(demo_at q p)\<lparr>se_pending := []\<rparr> = demo_at q p" by (simp add: demo_at_def demo_session_def)
  then show ?thesis using demo_clear [where before = "[]" and q = q and p = p] by (simp add: se_drain_def se_bind_def se_gpu_def bump_simps)
qed

lemma demo_decode:
  assumes "q < 8" "p < 8" "token < 2"
  shows "decode_one bump_driver demo_decoder token (s, demo_at q p) = ((s, demo_at (Suc q) (Suc p)), Ok [0, 0])"
proof -
  let ?copy = "se_gpu (\<lambda>x. copy_from_host_async bump_driver 4 (ws_current_token (se_workspace x)) (se_stream x) [le_bytes 4 token])"
  have "ws_current_token (se_workspace (demo_at q p)) = demo_buffer 18 1" "se_stream (demo_at q p) = \<lparr>stream_raw = 2, stream_ctx = 7\<rparr>"
    by (simp_all add: demo_at_def demo_session_def)
  then have copy: "?copy (s, demo_at q p) = ((s, demo_at q p), Ok ())"
    by (simp add: se_gpu_def copy_from_host_async_def demo_buffer_def ensure_stream_context_def rt_bind_def bump_simps with_bytes_def)
  have "(demo_at q p)\<lparr>se_pending := []\<rparr> = demo_at q p" by (simp add: demo_at_def demo_session_def)
  then obtain pending where tok: "enqueue_current_token bump_driver demo_decoder (s, demo_at q p) =
      ((s, (demo_at (Suc q) (Suc p))\<lparr>se_pending := pending\<rparr>), Ok ())"
    using demo_token [OF assms(1,2), of s "[]"] by metis
  have body: "se_bind ?copy (\<lambda>_. enqueue_current_token bump_driver demo_decoder) (s, demo_at q p) =
      ((s, (demo_at (Suc q) (Suc p))\<lparr>se_pending := pending\<rparr>), Ok ())"
    unfolding se_bind_def copy prod.case sum.case by (rule tok)
  have valid: "validate_token demo_decoder token = Ok ()" using assms(3) by (simp add: validate_token_def)
  have room: "\<not> se_position (demo_at q p) \<ge> session_capacity demo_decoder" using assms(2) by (simp add: demo_at_def session_capacity_def)
  have clean: "(demo_at (Suc q) (Suc p))\<lparr>se_pending := []\<rparr> = demo_at (Suc q) (Suc p)" by (simp add: demo_at_def demo_session_def)
  have logits: "read_logits bump_driver (s, demo_at (Suc q) (Suc p)) = ((s, demo_at (Suc q) (Suc p)), Ok [0, 0])"
    using demo_logits [where before = "[]" and q = "Suc q" and p = "Suc p"] unfolding clean .
  show ?thesis
    unfolding decode_one_def valid se_bind_pure if_not_P [OF room]
    unfolding se_bind_def [of "se_finish bump_driver m" for m] demo_finish [where m = "se_bind ?copy (\<lambda>_. enqueue_current_token bump_driver demo_decoder)", OF body] prod.case sum.case
    by (rule logits)
qed

section \<open>A rejected draft\<close>

definition rejected_draft :: speculative_draft where
  "rejected_draft = \<lparr>draft_tokens = [1, 1], draft_confidences = [f32_one, f32_one]\<rparr>"

definition rejected_outcome :: speculative_verification where
  "rejected_outcome = \<lparr>drafted = 2, scheduled = 2, accepted = 0, rejected_at = Some 0, emitted_tokens = [0]\<rparr>"

definition rejected_stats :: acceptance_stats where
  "rejected_stats = \<lparr>stat_steps = 1, stat_drafted = 2, stat_scheduled = 2, stat_accepted = 0, stat_emitted = 1, stat_skipped = 0,
     stat_rejections = 1\<rparr>"

lemma rejected_draft_new: "draft_new [1, 1] [f32_one, f32_one] = Ok rejected_draft"
  by (simp add: draft_new_Ok draft_wf_def rejected_draft_def)

lemma rejected_scheduled: "scheduled_len demo_schedule rejected_draft = 2"
  by (simp add: scheduled_len_def demo_schedule_def rejected_draft_def as_u32_def u32_lim_def Let_def f32_le_def f32_key_def f32_one_def
      f32_mag_def f32_is_nan_def f32_sign_negative_def bit_iff_odd)

lemma rejected_judged: "judge_greedy 2 rejected_draft demo_schedule [0, 0, 0, 0, 0, 0] = Ok rejected_outcome"
proof -
  have "f32_is_finite 0" by (simp add: f32_is_finite_def f32_mag_def)
  then have "greedy_argmax [0, 0] = Ok (as_u32 0)" by (simp add: greedy_argmax_def greedy_step_def f32_lt_def)
  then have zero: "greedy_argmax [0, 0] = Ok 0" by (simp add: as_u32_def)
  have chunks: "chunks_exact 2 [0, 0, 0, 0, 0, 0 :: f32] = [[0, 0], [0, 0], [0, 0]]"
    using chunks_exact_concat [of 2 "[[0, 0], [0, 0], [0, 0 :: f32]]"] by simp
  have "verify_scheduled_draft rejected_draft demo_schedule [0, 0, 0] = Ok rejected_outcome"
    unfolding verify_scheduled_draft_def rejected_scheduled Let_def
    by (simp add: rejected_draft_def rejected_outcome_def draft_len_def as_u32_def u32_lim_def)
  moreover have inside: "position (\<lambda>token. token \<ge> vocab_size \<lparr>vocab_size = 2\<rparr>) (draft_tokens rejected_draft) = None"
    by (simp add: rejected_draft_def)
  ultimately have "verifier_verify \<lparr>vocab_size = 2\<rparr> rejected_draft demo_schedule [0, 0, 0, 0, 0, 0] = Ok rejected_outcome"
    unfolding verifier_verify_def inside option.case rejected_scheduled Let_def by (simp add: chunks push_target_def zero checked_mul_def u64_lim_def)
  then show ?thesis by (simp add: judge_greedy_def u32_of_usize_def u32_lim_def verifier_new_def)
qed

lemma rejected_recorded: "recorded stats_default rejected_outcome = Ok rejected_stats"
proof -
  have "stats_next stats_default rejected_outcome = Ok rejected_stats"
    by (simp add: stats_next_def stats_default_def rejected_outcome_def rejected_stats_def count_add_def checked_add_def u64_lim_def
        skipped_by_schedule_def)
  then show ?thesis by (simp add: recorded_def stats_record_def)
qed

lemma demo_rewind:
  assumes "p \<le> q"
  shows "rewind_to bump_driver p (s, demo_at q n) = ((s, demo_at p p), Ok ())"
proof -
  have "rt_kv_truncate (se_cache (demo_at q n)) p = (se_cache (demo_at p p), Ok ())"
    using assms by (simp add: rt_kv_truncate_def truncate_lengths_def demo_at_def demo_session_def)
  then show ?thesis
    unfolding rewind_to_def se_bind_def demo_drain prod.case sum.case by (simp add: se_modify_def demo_at_def)
qed

text \<open>From two or three rows at position three: two tokens are executed, both are rejected, and the target's token follows.\<close>

lemma demo_verify:
  assumes "q = 2 \<or> q = 3"
  shows "verify_greedy_draft texts bump_driver demo_decoder rejected_draft demo_schedule stats_default (s, demo_at q 3) =
    ((s, demo_at 4 4), rejected_stats, Ok \<lparr>sp_verification = rejected_outcome, sp_start_position = 3, sp_next_logits = [0, 0]\<rparr>)"
proof -
  have clean: "(demo_at q p)\<lparr>se_pending := []\<rparr> = demo_at q p" for q p by (simp add: demo_at_def demo_session_def)
  note logits = demo_logits [where before = "[]", unfolded clean]
  have tokens: "take 2 (draft_tokens rejected_draft) = [1, 1]" "\<forall>t \<in> set (draft_tokens rejected_draft). t < 2"
    by (simp_all add: rejected_draft_def)
  have valid: "check_all (validate_token demo_decoder) (draft_tokens rejected_draft) = Ok ()"
    unfolding check_all_Ok_iff using tokens(2) by (auto simp: validate_token_def)
  have q: "q < 8" "Suc q < 8" using assms by auto
  have d1: "decode_one bump_driver demo_decoder (Suc 0) (s, demo_at q 3) = ((s, demo_at (Suc q) 4), Ok [0, 0])"
    using demo_decode [of q 3 "Suc 0" s] q by simp
  have d2: "decode_one bump_driver demo_decoder (Suc 0) (s, demo_at (Suc q) 4) = ((s, demo_at (Suc (Suc q)) 5), Ok [0, 0])"
    using demo_decode [of "Suc q" 4 "Suc 0" s] q by simp
  have rows: "teacher_forced_logits [0, 0] rejected_draft demo_schedule (decode_one bump_driver demo_decoder) (s, demo_at q 3) =
      ((s, demo_at (Suc (Suc q)) 5), Ok [0, 0, 0, 0, 0, 0])"
    unfolding teacher_forced_logits_def rejected_scheduled tokens(1) by (simp add: se_bind_def d1 d2 se_ok_def)
  have "3 \<le> Suc (Suc q)" using assms by auto
  note rewound = demo_rewind [OF this, of s 5]
  have sel: "emitted_tokens rejected_outcome = [0]" "accepted rejected_outcome = 0" by (simp_all add: rejected_outcome_def)
  have body: "speculative_body bump_driver demo_decoder rejected_draft demo_schedule stats_default 3 [0, 0] (s, demo_at q 3) =
      ((s, demo_at 4 4), Ok (rejected_outcome, rejected_stats, [0, 0]))"
    unfolding speculative_body_def se_bind_def rows prod.case sum.case se_lift_def demo_decoder_sel demo_config_sel rejected_judged
      rejected_recorded sel by (simp add: rewound demo_decode se_ok_def)
  have required: "ok_or e (checked_bind (checked_add 3 2) (\<lambda>n. checked_add n 1)) = Ok (6 :: nat)" for e :: nnis_error
    by (simp add: checked_add_def u64_lim_def)
  have pos: "se_position (demo_at q 3) = 3" "session_capacity demo_decoder = 8" by (simp_all add: demo_at_def session_capacity_def)
  show ?thesis
    unfolding verify_greedy_draft_def Let_def snd_conv pos valid rejected_scheduled and_then_simps required
    by (simp add: se_bind_def se_lift_def demo_drain logits body)
qed

section \<open>Generating until the end token\<close>

lemma demo_upload: "\<exists>t b. upload_ids bump_driver demo_decoder [1] (demo_at q p) s = (t, Ok b) \<and> buf_len b = 1"
  by (simp add: upload_ids_def device_buffer_from_host_def rt_bind_def bump_new u64_lim_def or_drop_def copy_from_host_def
      then_synchronize_def copy_from_host_async_def ensure_stream_context_def bump_simps with_bytes_def demo_at_def demo_session_def)

lemma demo_observe: "observe_token bump_driver demo_decoder (s, demo_at q p) = ((s, demo_at q p), Ok [0, 0, 0, 0])"
proof -
  have clean: "(demo_at q p)\<lparr>se_pending := []\<rparr> = demo_at q p" by (simp add: demo_at_def demo_session_def)
  let ?M = "se_bind (launch_top_1 demo_decoder) (\<lambda>_. se_gpu (\<lambda>x. copy_to_host_async bump_driver 4 (ws_current_token (se_workspace x)) (se_stream x) 1))"
  have four: "replicate 4 (0 :: u8) = [0, 0, 0, 0]" by (simp add: numeral_eq_Suc)
  have "ws_current_token (se_workspace (demo_at q p)) = demo_buffer 18 1" "se_stream (demo_at q p) = \<lparr>stream_raw = 2, stream_ctx = 7\<rparr>"
    by (simp_all add: demo_at_def demo_session_def)
  then have M: "?M (s, demo_at q p) = ((s, demo_at q p), Ok [0, 0, 0, 0])"
    by (simp add: se_bind_def launch_top_1_def se_launch_def Let_def se_gpu_def copy_to_host_async_def demo_buffer_def
        ensure_stream_context_def rt_bind_def bump_simps with_bytes_def size_bytes_def four)
  have "se_finish bump_driver (\<lambda>_. ((s, demo_at q p), Ok ())) (s, demo_at q p) = ((s, demo_at q p), Ok ())"
    by (rule demo_finish [where before = "[]"]) (simp add: clean)
  then show ?thesis unfolding observe_token_def M prod.case by (simp add: se_bind_def se_lift_def)
qed

lemma demo_reset: "se_reset bump_driver (s, demo_at q p) = ((s, demo_at 0 0), Ok ())"
  unfolding se_reset_def se_bind_def demo_drain prod.case sum.case
  by (simp add: se_modify_def rt_kv_reset_def demo_at_def demo_session_def)

lemma demo_prompt_ok:
  assumes "n \<le> 7"
  shows "validate_prompt demo_decoder [1] n = Ok ()"
proof -
  have tokens: "check_all (validate_token demo_decoder) [1] = Ok ()"
    unfolding check_all_Ok_iff by (simp add: validate_token_def)
  have room: "checked_add (length [1 :: nat]) n = Some (Suc n)" "\<not> Suc n > session_capacity demo_decoder"
    using assms by (simp_all add: checked_add_def u64_lim_def session_capacity_def)
  show ?thesis unfolding validate_prompt_def tokens room ok_or_simps and_then_simps if_not_P [OF room(2)] by simp
qed

lemma demo_enqueue:
  assumes "k < 8"
  obtains pending where
    "enqueue_current_token bump_driver demo_decoder (t, demo_at k k) = ((t, (demo_at (Suc k) (Suc k))\<lparr>se_pending := pending\<rparr>), Ok ())"
proof -
  have "(demo_at k k)\<lparr>se_pending := []\<rparr> = demo_at k k" by (simp add: demo_at_def demo_session_def)
  then show ?thesis using that demo_token [OF assms assms, where before = "[]" and s = t] by auto
qed

lemma demo_prompt:
  assumes "buf_len b = 1"
  shows "se_finish bump_driver (enqueue_prefill bump_driver demo_decoder b) (t, demo_at 0 0) = ((t, demo_at 1 1), Ok ())"
proof -
  obtain pending where "enqueue_current_token bump_driver demo_decoder (t, demo_at 0 0) = ((t, (demo_at 1 1)\<lparr>se_pending := pending\<rparr>), Ok ())"
    by (rule demo_enqueue [of 0 t]) simp_all
  then have "enqueue_prefill bump_driver demo_decoder b (t, demo_at 0 0) = ((t, (demo_at 1 1)\<lparr>se_pending := pending\<rparr>), Ok ())"
    unfolding enqueue_prefill_def assms by (simp add: se_bind_def se_launch_def se_ok_def)
  then show ?thesis by (rule demo_finish [where m = "enqueue_prefill bump_driver demo_decoder b"])
qed

lemma demo_prefill: "\<exists>t. prefill bump_driver demo_decoder [1] (s, demo_at q p) = ((t, demo_at 1 1), Ok [0, 0])"
proof -
  obtain t b where up: "upload_ids bump_driver demo_decoder [1] (demo_at 0 0) s = (t, Ok b)" and b: "buf_len b = 1"
    using demo_upload by blast
  have clean: "(demo_at 1 1)\<lparr>se_pending := []\<rparr> = demo_at 1 1" by (simp add: demo_at_def demo_session_def)
  have logits: "read_logits bump_driver (t, demo_at 1 1) = ((t, demo_at 1 1), Ok [0, 0])"
    using demo_logits [where before = "[]" and q = 1 and p = 1 and s = t] unfolding clean .
  have prompt_ok: "validate_prompt demo_decoder [1] 0 = Ok ()" by (rule demo_prompt_ok) simp
  have run: "prefill bump_driver demo_decoder [1] (s, demo_at q p) = ((device_buffer_drop bump_driver b t, demo_at 1 1), Ok [0, 0])"
    unfolding prefill_def prompt_ok se_bind_pure se_bind_def [of "se_reset drv" for drv] demo_reset prod.case sum.case with_buffer_def
    unfolding se_bind_def se_gpu_def prod.case up sum.case demo_prompt [OF b] logits ..
  then show ?thesis by blast
qed

lemma demo_generate:
  "\<exists>t. generate bump_driver demo_decoder [1] (generation_until_eos 3 0) (s, demo_at q p) = ((t, demo_at 2 2), Ok [0])"
proof -
  have prompt_ok: "validate_prompt demo_decoder [1] 3 = Ok ()" by (rule demo_prompt_ok) simp
  have guards: "generation_validate (generation_until_eos 3 0) 2 = Ok ()"
    "gc_max_new_tokens (generation_until_eos 3 0) = 3" "gc_eos_token_id (generation_until_eos 3 0) = Some 0"
    by (simp_all add: generation_validate_def generation_until_eos_def)
  obtain t b where up: "upload_ids bump_driver demo_decoder [1] (demo_at 0 0) s = (t, Ok b)" and b: "buf_len b = 1"
    using demo_upload by blast
  obtain pending where second: "enqueue_current_token bump_driver demo_decoder (t, demo_at 1 1) = ((t, (demo_at 2 2)\<lparr>se_pending := pending\<rparr>), Ok ())"
    by (rule demo_enqueue [of 1 t]) (simp_all add: numeral_2_eq_2)
  have fin2: "se_finish bump_driver (\<lambda>_. ((t, (demo_at 2 2)\<lparr>se_pending := pending\<rparr>), Ok ())) (t, (demo_at 2 2)\<lparr>se_pending := pending\<rparr>) =
      ((t, demo_at 2 2), Ok ())" by (rule demo_finish) simp
  have zero: "le_value [0, 0, 0, 0] = 0" by (simp add: le_value_def)
  have loop: "eos_loop bump_driver demo_decoder 0 3 [] (t, demo_at 1 1) = ((t, demo_at 2 2), Ok [0])"
    unfolding numeral_3_eq_3 eos_loop.simps se_bind_def [of "observe_token drv m" for drv m] demo_observe prod.case sum.case Let_def zero second
    unfolding se_bind_def [of "se_finish drv m" for drv m] by (simp add: fin2 se_ok_def)
  have "generate_until_eos bump_driver demo_decoder [1] 3 0 (s, demo_at q p) = ((device_buffer_drop bump_driver b t, demo_at 2 2), Ok [0])"
    unfolding generate_until_eos_def se_bind_def [of "se_reset drv" for drv] demo_reset prod.case sum.case with_buffer_def
    unfolding se_bind_def se_gpu_def prod.case up sum.case demo_prompt [OF b] loop ..
  then show ?thesis
    unfolding generate_def demo_decoder_sel demo_config_sel guards prompt_ok se_bind_pure option.case by blast
qed

lemma with_buffer_run:
  "fresh x s = (t, Ok b) \<Longrightarrow> body b (t, x) = ((u, y), r) \<Longrightarrow> with_buffer drv fresh body (s, x) = ((device_buffer_drop drv b u, y), r)"
  by (simp add: with_buffer_def se_bind_def se_gpu_def)

lemma demo_fixed:
  "\<exists>t. generate bump_driver demo_decoder [1] (generation_fixed 1) (s, demo_at q p) = ((t, demo_at 2 2), Ok [0])"
proof -
  have prompt_ok: "validate_prompt demo_decoder [1] 1 = Ok ()" by (rule demo_prompt_ok) simp
  have guards: "generation_validate (generation_fixed 1) 2 = Ok ()" "gc_max_new_tokens (generation_fixed 1) = 1"
    "gc_eos_token_id (generation_fixed 1) = None"
    by (simp_all add: generation_validate_def generation_fixed_def eos_in_vocab_def)
  obtain t b where up: "upload_ids bump_driver demo_decoder [1] (demo_at 0 0) s = (t, Ok b)" and b: "buf_len b = 1"
    using demo_upload by blast
  let ?t = "t\<lparr>gpu := gpu t + 256\<rparr>" and ?g = "\<lparr>buf_ptr = gpu t, buf_len = 1, buf_ctx = 7\<rparr>"
  have new: "device_buffer_new bump_driver 4 7 1 t = (?t, Ok ?g)" by (rule bump_new) (simp_all add: u64_lim_def)
  obtain pending where first: "enqueue_current_token bump_driver demo_decoder (?t, demo_at 0 0) = ((?t, (demo_at 1 1)\<lparr>se_pending := pending\<rparr>), Ok ())"
    by (rule demo_enqueue [of 0 ?t]) simp_all
  obtain pending' where second: "enqueue_current_token bump_driver demo_decoder (?t, (demo_at 1 1)\<lparr>se_pending := pending\<rparr>) =
      ((?t, (demo_at 2 2)\<lparr>se_pending := pending'\<rparr>), Ok ())"
    using demo_token [of 1 1 ?t pending] by (auto simp: numeral_2_eq_2)
  let ?enqueue = "se_bind (enqueue_prefill bump_driver demo_decoder b) (\<lambda>_. se_for (\<lambda>step. se_bind (launch_top_1 demo_decoder) (\<lambda>_.
      se_bind (se_launch demo_decoder (\<lambda>x. Ok (Record_token (ws_current_token (se_workspace x)) ?g step))) (\<lambda>_.
        enqueue_current_token bump_driver demo_decoder))) [0..<1])"
  have prompt: "enqueue_prefill bump_driver demo_decoder b (?t, demo_at 0 0) = ((?t, (demo_at 1 1)\<lparr>se_pending := pending\<rparr>), Ok ())"
    unfolding enqueue_prefill_def b by (simp add: se_bind_def se_launch_def se_ok_def first)
  have enq: "?enqueue (?t, demo_at 0 0) = ((?t, (demo_at 2 2)\<lparr>se_pending := pending'\<rparr>), Ok ())"
    unfolding se_bind_def [of "enqueue_prefill drv m b" for drv m b] prompt prod.case sum.case
    by (simp add: se_bind_def launch_top_1_def se_launch_def Let_def second [unfolded One_nat_def] se_ok_def)
  note fin = demo_finish [where m = ?enqueue, OF enq]
  have vec: "buffer_to_vec bump_driver 4 ?g (se_stream (demo_at 2 2)) ?t = (?t, Ok [0, 0, 0, 0])"
    by (simp add: buffer_to_vec_def copy_to_host_def then_synchronize_def copy_to_host_async_def ensure_stream_context_def
        rt_bind_def bump_simps with_bytes_def size_bytes_def demo_at_def demo_session_def numeral_eq_Suc)
  have zero: "u32_values [0, 0, 0, 0] = [0]" by (simp add: u32_values_def chunks_exact.simps [of 4] le_value_def)
  have inner: "se_bind (se_finish bump_driver ?enqueue) (\<lambda>_. se_bind (se_gpu (\<lambda>x. buffer_to_vec bump_driver 4 ?g (se_stream x)))
      (\<lambda>bs. se_ok (u32_values bs))) (?t, demo_at 0 0) = ((?t, demo_at 2 2), Ok [0])"
    unfolding se_bind_def [of "se_finish drv m" for drv m] fin prod.case sum.case
    by (simp only: se_bind_def se_gpu_def vec zero se_ok_def prod.case sum.case)
  have "generate_fixed bump_driver demo_decoder [1] 1 (s, demo_at q p) =
      ((device_buffer_drop bump_driver b (device_buffer_drop bump_driver ?g ?t), demo_at 2 2), Ok [0])"
    unfolding generate_fixed_def se_bind_def [of "se_reset drv" for drv] demo_reset prod.case sum.case demo_decoder_sel
    by (rule with_buffer_run, rule up, rule with_buffer_run, rule new, rule inner)
  then show ?thesis
    unfolding generate_def demo_decoder_sel demo_config_sel guards prompt_ok se_bind_pure option.case by blast
qed

end
