(* ===== verification/SessionRequests.thy ===== *)
theory SessionRequests
  imports SessionDemo
begin

text \<open>
  What a client of an \<open>InferenceSession\<close> (\<open>nnis-model/src/runtime.rs\<close>) can rely on: the alignment of position and
  cache after each successful request, where greedy generation stops, and what a step of speculative verification
  leaves behind, on a session whose rows were compacted too.
\<close>

section \<open>Alignment\<close>

text \<open>A session between calls: every layer holds one row for each executed position.\<close>

definition aligned :: "'s decoder_model \<Rightarrow> session \<Rightarrow> bool" where
  "aligned m x \<longleftrightarrow> rows x = replicate (mc_num_hidden_layers (md_config m)) (se_position x) \<and> se_position x \<le> session_capacity m"

text \<open>The number of layers of the cache, and of its configuration, never changes.\<close>

definition layered :: "nat \<Rightarrow> session \<Rightarrow> bool" where
  "layered N x \<longleftrightarrow> length (rows x) = N \<and> kc_layers (config x) = N"

definition se_keeps :: "nat \<Rightarrow> ('s, 'a) se_comp \<Rightarrow> bool" where
  "se_keeps N m \<longleftrightarrow> (\<forall>s x t y r. layered N x \<longrightarrow> m (s, x) = ((t, y), r) \<longrightarrow> layered N y)"

lemma se_keepsD: "se_keeps N m \<Longrightarrow> m (s, x) = ((t, y), r) \<Longrightarrow> layered N x \<Longrightarrow> layered N y"
  unfolding se_keeps_def by blast

lemma grown_layered: "grown x y \<Longrightarrow> layered N x \<Longrightarrow> layered N y"
  by (simp add: grown_def layered_def)

lemma se_keeps_moves: "se_moves N n m \<Longrightarrow> se_keeps N m"
  unfolding se_keeps_def by (intro allI impI, drule (1) se_movesD) (auto simp: layered_def grown_def)

lemma se_keeps_bind:
  assumes "se_keeps N m" "\<And>v. se_keeps N (k v)"
  shows "se_keeps N (se_bind m k)"
  unfolding se_keeps_def
proof (intro allI impI)
  fix s x t y r assume len: "layered N x" and run: "se_bind m k (s, x) = ((t, y), r)"
  obtain u z q where m: "m (s, x) = ((u, z), q)" by (metis surj_pair)
  have z: "layered N z" by (rule se_keepsD [OF assms(1) m len])
  show "layered N y"
  proof (cases q)
    case (Inl e)
    then show ?thesis using run m z by (auto simp: se_bind_def)
  next
    case (Inr v)
    then have "k v (u, z) = ((t, y), r)" using run m by (simp add: se_bind_def)
    then show ?thesis by (rule se_keepsD [OF assms(2) _ z])
  qed
qed

lemma se_keeps_reset [simp]: "se_keeps N (se_reset drv)"
  unfolding se_keeps_def
proof (intro allI impI)
  fix s x t y r assume "layered N x" "se_reset drv (s, x) = ((t, y), r)"
  then show "layered N y" using reset_effect [of drv s x t y r] by (cases "is_ok r") (simp_all add: layered_def)
qed

lemma se_keeps_basic [simp]: "se_keeps N (se_lift r)" "se_keeps N (se_ok a)"
  by (rule se_keeps_moves [where n = 0], simp)+

lemma se_keeps_with_buffer:
  assumes "\<And>b. se_keeps N (body b)"
  shows "se_keeps N (with_buffer drv fresh body)"
  unfolding with_buffer_def
proof (rule se_keeps_bind)
  show "se_keeps N (se_gpu fresh)" by (rule se_keeps_moves [where n = 0]) simp
  show "se_keeps N (\<lambda>sx. case body b sx of ((s, x), r) \<Rightarrow> ((device_buffer_drop drv b s, x), r))" for b
    using assms [of b] unfolding se_keeps_def by (auto split: prod.splits)
qed

section \<open>Successful requests\<close>

lemma with_buffer_Ok:
  assumes "with_buffer drv fresh body (s, x) = ((t, y), Ok a)"
  obtains u b v where "fresh x s = (u, Ok b)" "body b (u, x) = ((v, y), Ok a)"
  using assms unfolding with_buffer_def
  by (elim se_bind_OkE) (auto simp: se_gpu_def split: prod.splits)

lemma se_reset_Ok:
  assumes "se_reset drv (s, x) = ((t, y), Ok a)"
  shows "rows y = replicate (length (rows x)) 0 \<and> se_position y = 0"
  using reset_effect [OF assms] by simp

lemma from_host_len:
  assumes "device_buffer_from_host drv elem_size ctx st src s = (t, Ok b)"
  shows "buf_len b = length src"
proof -
  obtain u where "device_buffer_new drv elem_size ctx (length src) s = (u, Ok b)"
    using assms by (auto simp: device_buffer_from_host_def rt_bind_def or_drop_def split: prod.splits sum.splits)
  then show ?thesis
    by (auto simp: device_buffer_new_def rt_bind_def rt_ok_def split: prod.splits sum.splits if_splits)
qed

lemma upload_len: "upload_ids drv m ids x s = (t, Ok b) \<Longrightarrow> buf_len b = length ids"
  unfolding upload_ids_def by (drule from_host_len) simp

lemma advanced_from_zero:
  "advanced n x y \<Longrightarrow> rows x = replicate N 0 \<Longrightarrow> se_position x = 0 \<Longrightarrow> rows y = replicate N n \<and> se_position y = n"
  by (simp add: advanced_def)

text \<open>A call that resets the session, uploads the prompt, and then runs it.\<close>

lemma prefill_Ok:
  assumes N: "length (rows x) = mc_num_hidden_layers (md_config m)"
    and run: "prefill drv m ids (s, x) = ((t, y), Ok logits)"
  shows "validate_prompt m ids 0 = Ok () \<and> rows y = replicate (mc_num_hidden_layers (md_config m)) (length ids) \<and>
    se_position y = length ids"
proof -
  let ?N = "mc_num_hidden_layers (md_config m)"
  have valid: "validate_prompt m ids 0 = Ok ()"
    using run unfolding prefill_def by (cases "validate_prompt m ids 0") (simp_all add: se_bind_pure)
  let ?body = "\<lambda>b. se_bind (se_finish drv (enqueue_prefill drv m b)) (\<lambda>_. read_logits drv)"
  have "se_bind (se_reset drv) (\<lambda>_. with_buffer drv (upload_ids drv m ids) ?body) (s, x) = ((t, y), Ok logits)"
    using run unfolding prefill_def valid se_bind_pure .
  then obtain uz a where r: "se_reset drv (s, x) = (uz, Ok a)"
    and w: "with_buffer drv (upload_ids drv m ids) ?body uz = ((t, y), Ok logits)" by (rule se_bind_OkE)
  obtain u z where uz: "uz = (u, z)" by fastforce
  obtain u' b v where up: "upload_ids drv m ids z u = (u', Ok b)" and body: "?body b (u', z) = ((v, y), Ok logits)"
    using with_buffer_Ok [OF w [unfolded uz]] by blast
  note z = se_reset_Ok [OF r [unfolded uz], unfolded N]
  have mv: "se_moves ?N (buf_len b) (?body b)" by (rule se_moves_then [OF se_moves_finish [OF prefill_moves]]) simp_all
  have "advanced (length ids) z y" using se_movesD [OF mv body] z upload_len [OF up] by simp
  then show ?thesis using valid advanced_from_zero z by blast
qed

text \<open>What the driver documents: a copy to the host that is accepted fills the whole slice.\<close>

definition driver_fills :: "'s cuda \<Rightarrow> bool" where
  "driver_fills drv \<longleftrightarrow> (\<forall>p n st g. case cu_memcpy_dtoh_async drv p n st g of (g', rc, bs) \<Rightarrow> rc = 0 \<longrightarrow> length bs = n)"

lemma to_vec_length:
  assumes D: "driver_fills drv" and vec: "buffer_to_vec drv elem_size b st u = (v, Ok bs)"
  shows "length bs = size_bytes elem_size b"
proof (cases "buf_ptr b = 0")
  case True
  then show ?thesis using to_vec_null [OF True vec] by simp
next
  case False
  have fill: "cu_memcpy_dtoh_async drv ptr k raw g = (g', 0, out) \<Longrightarrow> length out = k" for ptr k raw g g' out
    using D unfolding driver_fills_def by (metis (mono_tags, lifting) case_prod_conv)
  show ?thesis
    using vec False by (auto simp: buffer_to_vec_def copy_to_host_def then_synchronize_def copy_to_host_async_def rt_bind_def with_bytes_def
        drv_read_def split: prod.splits sum.splits if_splits dest: fill)
qed

lemma fixed_length:
  assumes D: "driver_fills drv" and run: "generate_fixed drv m ids max_new (s, x) = ((t, y), Ok out)"
  shows "length out = max_new"
proof -
  let ?step = "\<lambda>generated step. se_bind (launch_top_1 m) (\<lambda>_.
      se_bind (se_launch m (\<lambda>x. Ok (Record_token (ws_current_token (se_workspace x)) generated step))) (\<lambda>_. enqueue_current_token drv m))"
  let ?read = "\<lambda>generated. se_bind (se_gpu (\<lambda>x. buffer_to_vec drv 4 generated (se_stream x))) (\<lambda>bs. se_ok (u32_values bs))"
  let ?inner = "\<lambda>b generated. se_bind (se_finish drv (se_bind (enqueue_prefill drv m b) (\<lambda>_. se_for (?step generated) [0..<max_new])))
      (\<lambda>_. ?read generated)"
  let ?body = "\<lambda>b. with_buffer drv (\<lambda>_. device_buffer_new drv 4 (md_context m) max_new) (?inner b)"
  obtain uz a where w: "with_buffer drv (upload_ids drv m ids) ?body uz = ((t, y), Ok out)"
    by (rule se_bind_OkE [OF run [unfolded generate_fixed_def]])
  obtain u z where uz: "uz = (u, z)" by fastforce
  obtain u' b v where body: "?body b (u', z) = ((v, y), Ok out)" using with_buffer_Ok [OF w [unfolded uz]] by blast
  obtain u2 g v2 where new: "device_buffer_new drv 4 (md_context m) max_new u' = (u2, Ok g)"
    and inner: "?inner b g (u2, z) = ((v2, y), Ok out)"
    using with_buffer_Ok [OF body] by blast
  obtain wk c where read: "?read g wk = ((v2, y), Ok out)" by (rule se_bind_OkE [OF inner])
  obtain w k where wk: "wk = (w, k)" by fastforce
  obtain bs where "buffer_to_vec drv 4 g (se_stream k) w = (v2, Ok bs)" "out = u32_values bs"
    using read unfolding wk by (auto simp: se_bind_def se_gpu_def se_ok_def split: prod.splits sum.splits)
  moreover have "buf_len g = max_new"
    using new by (auto simp: device_buffer_new_def rt_bind_def split: prod.splits sum.splits)
  ultimately show ?thesis using to_vec_length [OF D] by (simp add: u32_values_def length_chunks_exact size_bytes_def)
qed

lemma fixed_Ok:
  assumes N: "length (rows x) = mc_num_hidden_layers (md_config m)"
    and run: "generate_fixed drv m ids max_new (s, x) = ((t, y), Ok out)"
  shows "rows y = replicate (mc_num_hidden_layers (md_config m)) (length ids + max_new) \<and> se_position y = length ids + max_new"
proof -
  let ?N = "mc_num_hidden_layers (md_config m)"
  let ?step = "\<lambda>generated step. se_bind (launch_top_1 m) (\<lambda>_.
      se_bind (se_launch m (\<lambda>x. Ok (Record_token (ws_current_token (se_workspace x)) generated step))) (\<lambda>_. enqueue_current_token drv m))"
  let ?inner = "\<lambda>b generated. se_bind (se_finish drv (se_bind (enqueue_prefill drv m b) (\<lambda>_. se_for (?step generated) [0..<max_new])))
      (\<lambda>_. se_bind (se_gpu (\<lambda>x. buffer_to_vec drv 4 generated (se_stream x))) (\<lambda>bs. se_ok (u32_values bs)))"
  let ?body = "\<lambda>b. with_buffer drv (\<lambda>_. device_buffer_new drv 4 (md_context m) max_new) (?inner b)"
  obtain uz a where r: "se_reset drv (s, x) = (uz, Ok a)"
    and w: "with_buffer drv (upload_ids drv m ids) ?body uz = ((t, y), Ok out)"
    by (rule se_bind_OkE [OF run [unfolded generate_fixed_def]])
  obtain u z where uz: "uz = (u, z)" by fastforce
  obtain u' b v where up: "upload_ids drv m ids z u = (u', Ok b)" and body: "?body b (u', z) = ((v, y), Ok out)"
    using with_buffer_Ok [OF w [unfolded uz]] by blast
  note z = se_reset_Ok [OF r [unfolded uz], unfolded N]
  have step: "se_moves ?N 1 (?step g i)" for g i
    unfolding launch_top_1_def by (intro se_moves_bind0 token_moves) simp_all
  have steps: "se_moves ?N max_new (se_for (?step g) [0..<max_new])" for g
    using se_moves_for [of "[0..<max_new]" ?N 1 "?step g", OF step] by simp
  have "se_moves ?N (buf_len b + max_new) (?inner b g)" for g
    by (rule se_moves_then [OF se_moves_finish [OF se_moves_bind [OF prefill_moves steps]]])
       (simp_all add: se_moves_bind0)
  then have mv: "se_moves ?N (buf_len b + max_new) (?body b)" by (rule se_moves_with_buffer)
  have "advanced (length ids + max_new) z y" using se_movesD [OF mv body] z upload_len [OF up] by simp
  then show ?thesis using advanced_from_zero z by blast
qed

lemma until_eos_Ok:
  assumes N: "length (rows x) = mc_num_hidden_layers (md_config m)"
    and run: "generate_until_eos drv m ids max_new eos (s, x) = ((t, y), Ok out)"
  shows "length out \<le> max_new \<and> eos \<notin> set (butlast out) \<and> (length out < max_new \<longrightarrow> out \<noteq> [] \<and> last out = eos) \<and>
    rows y = replicate (mc_num_hidden_layers (md_config m)) (length ids + length out) \<and> se_position y = length ids + length out"
proof -
  let ?N = "mc_num_hidden_layers (md_config m)"
  let ?body = "\<lambda>b. se_bind (se_finish drv (enqueue_prefill drv m b)) (\<lambda>_. eos_loop drv m eos max_new [])"
  obtain uz a where r: "se_reset drv (s, x) = (uz, Ok a)"
    and w: "with_buffer drv (upload_ids drv m ids) ?body uz = ((t, y), Ok out)"
    by (rule se_bind_OkE [OF run [unfolded generate_until_eos_def]])
  obtain u z where uz: "uz = (u, z)" by fastforce
  obtain u' b v where up: "upload_ids drv m ids z u = (u', Ok b)" and body: "?body b (u', z) = ((v, y), Ok out)"
    using with_buffer_Ok [OF w [unfolded uz]] by blast
  note z = se_reset_Ok [OF r [unfolded uz], unfolded N]
  obtain wq c where fin: "se_finish drv (enqueue_prefill drv m b) (u', z) = (wq, Ok c)"
    and loop: "eos_loop drv m eos max_new [] wq = ((v, y), Ok out)" by (rule se_bind_OkE [OF body])
  obtain w' q where wq: "wq = (w', q)" by fastforce
  have "advanced (length ids) z q"
    using se_movesD [OF se_moves_finish [OF prefill_moves] fin [unfolded wq]] z upload_len [OF up] by force
  note q = advanced_from_zero [OF this conjunct1 [OF z] conjunct2 [OF z]]
  have len: "length (rows q) = ?N" using q by simp
  from eos_loop_effect [OF refl loop [unfolded wq] len]
  obtain new where new: "out = new" "length new \<le> max_new" "eos \<notin> set (butlast new)"
    "length new < max_new \<longrightarrow> new \<noteq> [] \<and> last new = eos" "advanced (length new) q y" by auto
  have "rows y = replicate ?N (length ids + length out) \<and> se_position y = length ids + length out"
    using new(1,5) q by (simp add: advanced_def)
  then show ?thesis using new by simp
qed

text \<open>The rows and the position a successful generation ends at.\<close>

definition executed :: "nat list \<Rightarrow> generation_config \<Rightarrow> nat list \<Rightarrow> nat" where
  "executed ids g out = length ids + (case gc_eos_token_id g of None \<Rightarrow> gc_max_new_tokens g | Some _ \<Rightarrow> length out)"

lemma generate_Ok:
  assumes N: "length (rows x) = mc_num_hidden_layers (md_config m)"
    and run: "generate drv m ids g (s, x) = ((t, y), Ok out)"
  shows "aligned m y \<and> se_position y = executed ids g out \<and>
    (\<forall>eos. gc_eos_token_id g = Some eos \<longrightarrow> length out \<le> gc_max_new_tokens g \<and> eos \<notin> set (butlast out) \<and>
       (length out < gc_max_new_tokens g \<longrightarrow> out \<noteq> [] \<and> last out = eos))"
proof -
  have g: "generation_validate g (mc_vocab_size (md_config m)) = Ok ()"
    using run unfolding generate_def
    by (cases "generation_validate g (mc_vocab_size (md_config m))") (simp_all add: se_bind_pure)
  have v: "validate_prompt m ids (gc_max_new_tokens g) = Ok ()"
    using run unfolding generate_def g se_bind_pure
    by (cases "validate_prompt m ids (gc_max_new_tokens g)") (simp_all add: se_bind_pure)
  have fits: "length ids + gc_max_new_tokens g \<le> session_capacity m"
    using v unfolding validate_prompt_def and_then_Ok_iff by (auto split: if_split_asm)
  note run' = run [unfolded generate_def g se_bind_pure v]
  show ?thesis
  proof (cases "gc_eos_token_id g")
    case None
    then show ?thesis using fixed_Ok [OF N] run' fits by (auto simp: aligned_def executed_def)
  next
    case (Some eos)
    then show ?thesis using until_eos_Ok [OF N, of drv ids "gc_max_new_tokens g" eos s t y out] run' fits
      by (auto simp: aligned_def executed_def)
  qed
qed

text \<open>Every request keeps the number of layers, and a success keeps or restores the alignment.\<close>

lemma se_keeps_prefill [simp]: "N = mc_num_hidden_layers (md_config m) \<Longrightarrow> se_keeps N (prefill drv m ids)"
  unfolding prefill_def
  by (intro se_keeps_bind se_keeps_with_buffer se_keeps_moves [OF se_moves_finish [OF prefill_moves]]
      se_keeps_moves [OF se_moves_logits]) simp_all

lemma eos_keeps:
  assumes "N = mc_num_hidden_layers (md_config m)"
  shows "se_keeps N (eos_loop drv m eos n before)"
proof (induction n arbitrary: before)
  case 0
  show ?case unfolding eos_loop.simps
    by (intro se_keeps_bind se_keeps_moves [OF se_moves_finish [OF se_moves_basic(1)]]) simp_all
next
  case (Suc n)
  let ?rest = "\<lambda>bs generated sx. case enqueue_current_token drv m sx of (ty, enqueued) \<Rightarrow>
      if le_value bs = eos \<or> \<not> is_ok enqueued then
        se_bind (se_finish drv (\<lambda>_. (ty, enqueued))) (\<lambda>_.
          if le_value bs = eos then se_ok generated else eos_loop drv m eos n generated) ty
      else eos_loop drv m eos n generated ty"
  have "se_keeps N (?rest bs generated)" for bs generated
    unfolding se_keeps_def
  proof (intro allI impI)
    fix s x t y r assume len: "layered N x" and run: "?rest bs generated (s, x) = ((t, y), r)"
    obtain v w q where enq: "enqueue_current_token drv m (s, x) = ((v, w), q)" by (metis surj_pair)
    have w: "layered N w" by (rule se_keepsD [OF se_keeps_moves [OF token_moves [OF assms]] enq len])
    show "layered N y"
    proof (cases "le_value bs = eos \<or> \<not> is_ok q")
      case False
      show ?thesis by (rule se_keepsD [OF Suc.IH run [unfolded enq prod.case if_not_P [OF False]] w])
    next
      case True
      have fin: "se_keeps N (se_finish drv (\<lambda>_. ((v, w), q)))"
        unfolding se_keeps_def layered_def using finish_after w [unfolded layered_def] by metis
      have whole: "se_keeps N (se_bind (se_finish drv (\<lambda>_. ((v, w), q))) (\<lambda>_.
          if le_value bs = eos then se_ok generated else eos_loop drv m eos n generated))"
        by (rule se_keeps_bind [OF fin]) (simp add: Suc.IH)
      show ?thesis by (rule se_keepsD [OF whole run [unfolded enq prod.case if_P [OF True]] w])
    qed
  qed
  then show ?case unfolding eos_loop.simps Let_def by (intro se_keeps_bind se_keeps_moves [OF observe_moves])
qed

lemma se_keeps_generate:
  assumes N: "N = mc_num_hidden_layers (md_config m)"
  shows "se_keeps N (generate drv m ids g)"
proof -
  have "se_keeps N (generate_until_eos drv m ids n eos)" for n eos
    unfolding generate_until_eos_def
    by (intro se_keeps_bind se_keeps_with_buffer eos_keeps [OF N] se_keeps_moves [OF se_moves_finish [OF prefill_moves [OF N]]]) simp
  moreover have "se_keeps N (generate_fixed drv m ids n)" for n
  proof -
    have one: "se_moves N 1 (se_bind (launch_top_1 m) (\<lambda>_.
        se_bind (se_launch m (\<lambda>x. Ok (Record_token (ws_current_token (se_workspace x)) g i))) (\<lambda>_. enqueue_current_token drv m)))" for g i
      unfolding launch_top_1_def using token_moves [OF N] by (intro se_moves_bind0) simp_all
    have gpu: "se_keeps N (se_gpu f)" for f by (rule se_keeps_moves [OF se_moves_basic(3)])
    show ?thesis unfolding generate_fixed_def
      by (intro se_keeps_bind se_keeps_with_buffer se_keeps_reset se_keeps_basic gpu
          se_keeps_moves [OF se_moves_finish [OF se_moves_bind [OF prefill_moves [OF N] se_moves_for [OF one]]]])
  qed
  ultimately show ?thesis unfolding generate_def by (intro se_keeps_bind) (simp_all split: option.splits)
qed

lemma telemetry_still:
  "kv_cache_telemetry drv (s, x) = ((t, y), r) \<Longrightarrow> rows y = rows x \<and> se_position y = se_position x \<and> config y = config x"
  by (cases "se_drain drv (s, x)", cases "snd (se_drain drv (s, x))")
    (auto simp: kv_cache_telemetry_def se_bind_def dest!: drain_effect)

lemma validate_prompt_fits: "validate_prompt m ids n = Ok u \<Longrightarrow> length ids + n \<le> session_capacity m"
  unfolding validate_prompt_def and_then_Ok_iff by (auto split: if_split_asm)

lemma session_new_aligned:
  assumes "session_new drv m s = (t, Ok x)"
  shows "aligned m x" "layered (mc_num_hidden_layers (md_config m)) x"
proof -
  have "rc_lengths c = replicate (mc_num_hidden_layers (md_config m)) 0 \<and> kc_layers (rc_config c) = mc_num_hidden_layers (md_config m)"
    if "rt_bind (rt_lift (kv_config_new (mc_num_hidden_layers (md_config m)) h d n)) (rt_kv_new drv 4 st) u = (v, Ok c)" for h d n st u v c
    using that by (auto simp: rt_bind_Ok rt_lift_Ok kv_config_new_def and_then_Ok_iff rt_kv_new_def rt_ok_def)
  note fresh = this
  let ?c = "md_config m"
  let ?cache = "\<lambda>st. rt_bind (rt_lift (kv_config_new (mc_num_hidden_layers ?c) (mc_num_key_value_heads ?c) (mc_head_dim ?c)
      (mc_max_position_embeddings ?c))) (rt_kv_new drv 4 st)"
  obtain u st where rest: "(case ?cache st u of
      (t, Inl e) \<Rightarrow> (stream_drop drv st t, Err e)
    | (t, Inr cache) \<Rightarrow> (case workspace_new drv m t of
         (u, Inl e) \<Rightarrow> (stream_drop drv st (device_buffer_drop drv (rc_values cache) (device_buffer_drop drv (rc_keys cache) u)), Err e)
       | (u, Inr ws) \<Rightarrow>
           (u, Ok \<lparr>se_stream = st, se_cache = cache, se_workspace = ws, se_pending = [], se_position = 0\<rparr>))) = (t, Ok x)"
    using assms unfolding session_new_def Let_def rt_bind_Ok by blast
  obtain v q where cache: "?cache st u = (v, q)" by fastforce
  then obtain c where q: "q = Ok c" using rest by (cases q) simp_all
  obtain w p where "workspace_new drv m v = (w, p)" by fastforce
  then have "se_cache x = c" "se_position x = 0" using rest unfolding cache q by (cases p; auto)+
  then show "aligned m x" "layered (mc_num_hidden_layers (md_config m)) x"
    using fresh [OF cache [unfolded q]] by (simp_all add: aligned_def layered_def)
qed

section \<open>A step of speculative verification\<close>

lemma se_bindE:
  assumes "se_bind m k sx = (ty, r)"
  obtains e where "m sx = (ty, Err e)" "r = Err e" | u a where "m sx = (u, Ok a)" "k a u = (ty, r)"
  using assms by (cases "m sx"; cases "snd (m sx)") (auto simp: se_bind_def)

lemma judge_emits:
  assumes "judge_greedy vocab d sch logits = Ok v" "draft_wf d"
  shows "length (emitted_tokens v) = accepted v + 1"
proof -
  obtain targets where "verify_scheduled_draft d sch targets = Ok v"
    using assms(1) unfolding judge_greedy_def verifier_verify_def Let_def
    by (auto simp: and_then_Ok_iff split: option.splits if_split_asm)
  moreover have "agreed (scheduled_len sch d) (draft_tokens d) targets \<le> length (draft_tokens d)"
    if "length targets = scheduled_len sch d + 1"
    using agreed_le [of "scheduled_len sch d" "draft_tokens d" targets] scheduled_len_le [OF assms(2), of sch] that by simp
  ultimately show ?thesis by (auto simp: verify_Ok [OF assms(2)] Let_def)
qed

lemma grown_ge:
  assumes "grown x y" "\<forall>k \<in> set (rows x). p \<le> k"
  shows "\<forall>k \<in> set (rows y). p \<le> k"
proof
  fix k assume "k \<in> set (rows y)"
  then obtain i where i: "i < length (rows x)" "k = rows y ! i" using assms(1) by (auto simp: in_set_conv_nth grown_def)
  then have "p \<le> rows x ! i" "rows x ! i \<le> rows y ! i" using assms by (auto simp: grown_def)
  then show "p \<le> k" using i by simp
qed

text \<open>What the closure of \<open>verify_greedy_draft\<close> does to a session, from any number of rows.\<close>

definition body_post :: "'s decoder_model \<Rightarrow> nat \<Rightarrow> nat \<Rightarrow> acceptance_stats \<Rightarrow> session \<Rightarrow> session \<Rightarrow>
    nnis_error + speculative_verification \<times> acceptance_stats \<times> f32 list \<Rightarrow> bool" where
  "body_post m start n st x y r \<longleftrightarrow> length (rows y) = mc_num_hidden_layers (md_config m) \<and> se_stream y = se_stream x \<and> config y = config x \<and>
     (case r of
        Inr (v, st', _) \<Rightarrow> length (emitted_tokens v) = accepted v + 1 \<and> recorded st v = Ok st' \<and>
          (\<forall>k \<in> set (rows x). start + accepted v \<le> k + n) \<and>
          rows y = replicate (mc_num_hidden_layers (md_config m)) (start + accepted v + 1) \<and>
          se_position y = start + accepted v + 1 \<and> start + accepted v < session_capacity m
      | Inl e \<Rightarrow> (\<forall>k \<in> set (rows x). start \<le> k) \<longrightarrow> (\<forall>k \<in> set (rows y). start \<le> k))"

lemma speculative_body_post:
  assumes N: "length (rows x) = mc_num_hidden_layers (md_config m)" and wf: "draft_wf d"
    and run: "speculative_body drv m d sch st start current (s, x) = ((t, y), r)"
  shows "body_post m start (scheduled_len sch d) st x y r"
proof -
  let ?N = "mc_num_hidden_layers (md_config m)"
  have len: "length (take (scheduled_len sch d) (draft_tokens d)) = scheduled_len sch d"
    using scheduled_len_le [OF wf, of sch] by simp
  have forced: "se_moves ?N (scheduled_len sch d) (teacher_forced_logits current d sch (decode_one drv m))"
    unfolding teacher_forced_logits_def
    by (rule force_moves [where tokens = "take (scheduled_len sch d) (draft_tokens d)", unfolded len]) (rule decode_moves [OF refl])
  have failed: ?thesis if "grown x y" "r = Err e" for e
    using that grown_ge [OF that(1)] N by (auto simp: body_post_def grown_def)
  from run [unfolded speculative_body_def] show ?thesis
  proof (cases rule: se_bindE)
    case (1 e)
    show ?thesis by (rule failed [OF _ 1(2)]) (use se_movesD [OF forced 1(1) N] in simp)
  next
    case (2 uz logits)
    obtain u z where uz: "uz = (u, z)" by fastforce
    note F = se_movesD [OF forced 2(1) [unfolded uz] N]
    have lenz: "length (rows z) = ?N" using F N by (simp add: grown_def)
    from 2(2) [unfolded uz] show ?thesis
    proof (cases rule: se_bindE)
      case (1 e)
      then show ?thesis using F failed by (auto simp: se_lift_def)
    next
      case (2 uz' v)
      then have judged: "judge_greedy (mc_vocab_size (md_config m)) d sch logits = Ok v" and uz': "uz' = (u, z)"
        by (simp_all add: se_lift_def)
      note J = judge_emits [OF judged wf]
      from 2(2) [unfolded uz'] show ?thesis
      proof (cases rule: se_bindE)
        case (1 e)
        then show ?thesis using F failed by (auto simp: se_lift_def)
      next
        case (2 uz'' st')
        then have rec: "recorded st v = Ok st'" and uz'': "uz'' = (u, z)" by (simp_all add: se_lift_def)
        from 2(2) [unfolded uz''] show ?thesis
        proof (cases rule: se_bindE)
          case (1 e)
          then have "rows y = rows z \<and> se_position y = se_position z \<and> se_stream y = se_stream z \<and> config y = config z"
            using rewind_effect [of drv "start + accepted v" u z t y "Err e"] by simp
          then show ?thesis using F failed [OF _ 1(2)] by (auto simp: grown_def)
        next
          case (2 vw a)
          obtain u' w where vw: "vw = (u', w)" by fastforce
          note R = rewind_effect [OF 2(1) [unfolded vw]]
          have w: "se_position w = start + accepted v" "rows w = replicate ?N (start + accepted v)" "se_stream w = se_stream z \<and> config w = config z"
            using R lenz by simp_all
          have enough: "start + accepted v \<le> k + scheduled_len sch d" if "k \<in> set (rows x)" for k
          proof -
            have "rows z = map (\<lambda>r. r + scheduled_len sch d) (rows x)" using F by (simp add: advanced_def)
            then have "k + scheduled_len sch d \<in> set (rows z)" using that by simp
            then show ?thesis using R by simp
          qed
          have emit: "emitted_tokens v \<noteq> []" using J by auto
          from 2(2) [unfolded vw] show ?thesis
          proof (cases rule: se_bindE)
            case (1 e)
            then show ?thesis using emit by (simp add: se_lift_def)
          next
            case (2 vw' token)
            then have vw': "vw' = (u', w)" by (simp add: se_lift_def)
            have lenw: "length (rows w) = ?N" using w by simp
            have floor: "start \<le> k" if "grown w y" "k \<in> set (rows y)" for k
              using grown_ge [OF that(1), of start] that(2) w(2) by auto
            from 2(2) [unfolded vw'] show ?thesis
            proof (cases rule: se_bindE)
              case (1 e)
              then have "grown w y" using se_movesD [OF decode_moves [OF refl] 1(1) lenw] by simp
              then show ?thesis using 1(2) floor F w(3) lenw by (auto simp: body_post_def grown_def)
            next
              case (2 c logits')
              then have ty: "c = (t, y)" "r = Ok (v, st', logits')" by (simp_all add: se_ok_def)
              have room: "start + accepted v < session_capacity m" using decode_capacity 2(1) [unfolded ty] w by (cases vw') force
              have "advanced 1 w y \<and> grown w y" using se_movesD [OF decode_moves [OF refl] 2(1) [unfolded ty] lenw] by simp
              then show ?thesis using ty(2) J rec enough room w F by (auto simp: body_post_def grown_def advanced_def)
            qed
          qed
        qed
      qed
    qed
  qed
qed

text \<open>Draining and reading the logits leave the position and the rows alone, failing or not.\<close>

definition standing :: "session \<Rightarrow> session \<Rightarrow> bool" where
  "standing x y \<longleftrightarrow> rows y = rows x \<and> se_position y = se_position x \<and> se_stream y = se_stream x \<and> config y = config x"

lemma drained_logits:
  assumes "se_bind (se_lift g) (\<lambda>_. se_bind (se_drain drv) (\<lambda>_. read_logits drv)) (s, x) = ((t, y), r)"
  shows "standing x y"
proof (cases g)
  case (Inl e)
  then show ?thesis using assms by (simp add: se_bind_pure standing_def)
next
  case (Inr a)
  obtain u z q where d: "se_drain drv (s, x) = ((u, z), q)" by (metis surj_pair)
  have "y = z"
    using assms d Inr by (cases q) (auto simp: se_bind_def se_lift_def read_logits_def se_gpu_def se_ok_def split: prod.splits sum.splits)
  then show ?thesis using drain_effect [OF d] by (simp add: standing_def)
qed

text \<open>The error when the rewind fails too.\<close>

definition rewind_failure :: "status_texts \<Rightarrow> nat \<Rightarrow> nnis_error \<Rightarrow> nnis_error \<Rightarrow> nnis_error" where
  "rewind_failure texts pos e rewind =
     invalid_input (display_nnis_error texts e @ lit ''; rewinding to position '' @ dec pos @
       lit '' also failed ('' @ display_nnis_error texts rewind @ lit ''); reset the session'')"

lemma rewind_unsynchronized:
  assumes "rewind_to drv n (s, x) = ((t, y), Err f)" "\<forall>k \<in> set (rows x). n \<le> k"
  shows "stream_synchronize drv (se_stream x) s = (t, Err f)"
proof (cases "stream_synchronize drv (se_stream x) s")
  case (Pair u q)
  show ?thesis
  proof (cases q)
    case (Inl e)
    then show ?thesis using assms(1) Pair by (simp add: rewind_to_def se_drain_def se_bind_def se_gpu_def)
  next
    case (Inr a)
    then show ?thesis using rewind_effect [OF assms(1)] assms(2) Pair by (force simp: not_less [symmetric])
  qed
qed

lemma verify_split:
  assumes "verify_greedy_draft texts drv m d sch st (s, x) = ((t, y), st', r)"
  obtains (refused) e where "r = Err e" "st' = st" "standing x y"
  | (stepped) u z current v next_logits where "standing x z"
      "speculative_body drv m d sch st (se_position x) current (u, z) = ((t, y), Ok (v, st', next_logits))"
      "r = Ok \<lparr>sp_verification = v, sp_start_position = se_position x, sp_next_logits = next_logits\<rparr>"
  | (undone) u z current v w e p where "standing x z"
      "se_bind (se_drain drv) (\<lambda>_. read_logits drv) (s, x) = ((u, z), Ok current)"
      "speculative_body drv m d sch st (se_position x) current (u, z) = ((v, w), Err e)"
      "rewind_to drv (se_position x) (v, w) = ((t, y), p)" "st' = st"
      "r = Err (case p of Inr _ \<Rightarrow> e | Inl rewind \<Rightarrow> rewind_failure texts (se_position x) e rewind)"
proof -
  define g where "g = (if se_position x = 0 then Err (invalid_lit ''speculative verification requires a prefilled session'')
           else
             and_then (check_all (validate_token m) (draft_tokens d)) (\<lambda>_.
             and_then (ok_or (invalid_lit ''speculative positions overflow usize'')
               (checked_bind (checked_add (se_position x) (scheduled_len sch d)) (\<lambda>n. checked_add n 1))) (\<lambda>required.
               if required > session_capacity m then
                 Err (invalid_input (lit ''speculative step requires '' @ dec required @
                   lit '' positions; session capacity is '' @ dec (session_capacity m)))
               else Ok ())))"
  let ?first = "se_bind (se_lift g) (\<lambda>_. se_bind (se_drain drv) (\<lambda>_. read_logits drv))"
  note run = assms [unfolded verify_greedy_draft_def Let_def snd_conv, folded g_def]
  obtain u z q where first: "?first (s, x) = ((u, z), q)" using run_split [of ?first "(s, x)"] by blast
  note still = drained_logits [OF first]
  show thesis
  proof (cases q)
    case (Inl e)
    then have "r = Err e" "st' = st" "standing x y" using run first still by simp_all
    then show thesis by (rule refused)
  next
    case (Inr current)
    obtain v w b where body: "speculative_body drv m d sch st (se_position x) current (u, z) = ((v, w), b)" by (metis surj_pair)
    show thesis
    proof (cases b)
      case (Inr a)
      obtain ver ns nl where a: "a = (ver, ns, nl)" by (metis surj_pair)
      show thesis using run first \<open>q = Inr current\<close> body Inr a by (intro stepped [OF still, of current u ver nl]) simp_all
    next
      case (Inl e)
      obtain ty p where rew: "rewind_to drv (se_position x) (v, w) = (ty, p)" by fastforce
      have "ty = (t, y) \<and> st' = st \<and> r = Err (case p of Inr _ \<Rightarrow> e | Inl rewind \<Rightarrow> rewind_failure texts (se_position x) e rewind)"
        using run first \<open>q = Inr current\<close> body Inl rew by (cases p) (auto simp: rewind_failure_def)
      moreover have "se_bind (se_drain drv) (\<lambda>_. read_logits drv) (s, x) = ((u, z), Ok current)"
        using first \<open>q = Inr current\<close> by (cases g) (simp_all add: se_bind_pure)
      ultimately show thesis using undone [OF still _ body [unfolded Inl]] rew by blast
    qed
  qed
qed

section \<open>Properties\<close>

text \<open>C9. Where greedy generation stops.  A successful \<open>generate\<close> returns at most the requested number of tokens, and
  exactly that many without an end token; with one, it has the end token nowhere but at the end, and stops short only at
  the end token.  The session has then executed the prompt and every returned token, the end token included.\<close>

theorem generate_stops:
  assumes "length (rows x) = mc_num_hidden_layers (md_config m)" "driver_fills drv"
    and "generate drv m ids g (s, x) = ((t, y), Ok out)"
  shows "length out \<le> gc_max_new_tokens g \<and> aligned m y \<and> se_position y = length ids + length out \<and>
    (case gc_eos_token_id g of
       None \<Rightarrow> length out = gc_max_new_tokens g
     | Some eos \<Rightarrow> eos \<notin> set (butlast out) \<and> (length out < gc_max_new_tokens g \<longrightarrow> out \<noteq> [] \<and> last out = eos))"
proof (cases "gc_eos_token_id g")
  case None
  have "generation_validate g (mc_vocab_size (md_config m)) = Ok () \<and> validate_prompt m ids (gc_max_new_tokens g) = Ok ()"
    using assms(3) unfolding generate_def
    by (cases "generation_validate g (mc_vocab_size (md_config m))"; cases "validate_prompt m ids (gc_max_new_tokens g)")
      (simp_all add: se_bind_pure)
  then have "generate_fixed drv m ids (gc_max_new_tokens g) (s, x) = ((t, y), Ok out)"
    using assms(3) None by (simp add: generate_def se_bind_pure)
  from fixed_length [OF assms(2) this] show ?thesis using generate_Ok [OF assms(1,3)] None by (simp add: executed_def)
next
  case (Some eos)
  then show ?thesis using generate_Ok [OF assms(1,3)] by (simp add: executed_def)
qed

theorem generate_stops_witness:
  "\<exists>t u. generate bump_driver demo_decoder [1] (generation_until_eos 3 0) (\<lparr>gpu = 6144, forgotten = []\<rparr>, demo_at 5 7) =
     ((t, demo_at 2 2), Ok [0]) \<and>
   generate bump_driver demo_decoder [1] (generation_fixed 1) (\<lparr>gpu = 6144, forgotten = []\<rparr>, demo_at 5 7) = ((u, demo_at 2 2), Ok [0]) \<and>
   aligned demo_decoder (demo_at 2 2) \<and> length [0 :: nat] = gc_max_new_tokens (generation_fixed 1)"
proof -
  obtain t where run: "generate bump_driver demo_decoder [1] (generation_until_eos 3 0) (\<lparr>gpu = 6144, forgotten = []\<rparr>, demo_at 5 7) =
      ((t, demo_at 2 2), Ok [0])" using demo_generate by blast
  obtain u where run2: "generate bump_driver demo_decoder [1] (generation_fixed 1) (\<lparr>gpu = 6144, forgotten = []\<rparr>, demo_at 5 7) =
      ((u, demo_at 2 2), Ok [0])" using demo_fixed by blast
  have len: "length (rows (demo_at 5 7)) = mc_num_hidden_layers (md_config demo_decoder)" by (simp add: demo_at_def)
  have fills: "driver_fills bump_driver" by (simp add: driver_fills_def bump_driver_def)
  show ?thesis
    using generate_stops [OF len fills run] generate_stops [OF len fills run2] run run2 by (simp add: generation_fixed_def)
qed

text \<open>C2. Speculative verification is a transaction.  On a session in step, a successful \<open>verify_greedy_draft\<close> leaves
  it in step exactly the emitted tokens further on, with the statistics of this step recorded.  A failure, in any
  kernel, copy or check, leaves the caller's statistics as they were, and the session's position and rows too, unless
  the rewind of this very call could not synchronise the stream after the verification had failed: then that is the last
  thing done on the device, and the error names both failures and asks for a reset.\<close>

theorem verify_draft_transaction:
  assumes "aligned m x" "draft_new tokens confidences = Ok d"
    and "verify_greedy_draft texts drv m d sch st (s, x) = ((t, y), st', r)"
  shows "case r of
      Inr step \<Rightarrow> recorded st (sp_verification step) = Ok st' \<and> aligned m y \<and>
        se_position y = se_position x + length (emitted_tokens (sp_verification step))
    | Inl e \<Rightarrow> st' = st \<and> ((rows y = rows x \<and> se_position y = se_position x) \<or>
        (\<exists>before current v failed e0 f.
           se_bind (se_drain drv) (\<lambda>_. read_logits drv) (s, x) = (before, Ok current) \<and>
           speculative_body drv m d sch st (se_position x) current before = ((v, failed), Err e0) \<and>
           stream_synchronize drv (se_stream x) v = (t, Err f) \<and> e = rewind_failure texts (se_position x) e0 f))"
proof -
  let ?N = "mc_num_hidden_layers (md_config m)"
  have wf: "draft_wf d" using assms(2) unfolding draft_new_Ok by blast
  have N: "length (rows x) = ?N" and start: "\<forall>k \<in> set (rows x). se_position x \<le> k" using assms(1) by (simp_all add: aligned_def)
  from assms(3) show ?thesis
  proof (cases rule: verify_split)
    case (refused e)
    then show ?thesis by (simp add: standing_def)
  next
    case (stepped u z current v next_logits)
    have "length (rows z) = ?N" using stepped(1) N by (simp add: standing_def)
    from speculative_body_post [OF this wf stepped(2)] show ?thesis
      using stepped by (simp add: body_post_def aligned_def standing_def)
  next
    case (undone u z current v w e p)
    have z: "length (rows z) = ?N" "\<forall>k \<in> set (rows z). se_position x \<le> k" using undone(1) N start by (simp_all add: standing_def)
    note B = speculative_body_post [OF z(1) wf undone(3), unfolded body_post_def]
    then have w: "\<forall>k \<in> set (rows w). se_position x \<le> k" "length (rows w) = ?N" "se_stream w = se_stream x"
      using z undone(1) by (auto simp: standing_def)
    show ?thesis
    proof (cases p)
      case (Inr a)
      then have "rows y = rows x \<and> se_position y = se_position x"
        using rewind_effect [OF undone(4)] w(2) assms(1) by (simp add: aligned_def)
      then show ?thesis using undone(5,6) Inr by simp
    next
      case (Inl f)
      have "stream_synchronize drv (se_stream x) v = (t, Err f)"
        using rewind_unsynchronized [OF undone(4) [unfolded Inl] w(1)] w(3) by simp
      then show ?thesis using undone(2,3) unfolding undone(5,6) Inl by (simp only: sum.case) blast
    qed
  qed
qed

theorem verify_draft_transaction_witness:
  "aligned demo_decoder (demo_at 4 4) \<and> se_position (demo_at 4 4) = 3 + length (emitted_tokens rejected_outcome)"
proof -
  have start: "aligned demo_decoder (demo_at 3 3)" "se_position (demo_at 3 3) = 3"
    by (simp_all add: aligned_def demo_at_def session_capacity_def)
  show ?thesis
    using verify_draft_transaction [OF start(1) rejected_draft_new demo_verify [OF disjI2 [OF refl]]] start(2) by simp
qed

text \<open>C18. On a session whose rows were compacted, verification keeps rejected rows.  With \<open>n\<close> rows in every layer and the
  position at \<open>p > n\<close>, the cache is shortened to the accepted prefix counted from \<open>p\<close>, not from \<open>n\<close>: the step succeeds only
  when at least \<open>p - n\<close> scheduled draft tokens were rejected, and then \<open>p - n\<close> of their rows stay in every layer, so that
  the cache grows by more than the emitted tokens.  A fully accepted draft is always an error.\<close>

theorem verify_after_compaction:
  assumes "rows x = replicate (mc_num_hidden_layers (md_config m)) n" "n < se_position x" "0 < mc_num_hidden_layers (md_config m)"
    and "draft_new tokens confidences = Ok d"
    and "verify_greedy_draft texts drv m d sch st (s, x) = ((t, y), st', Ok step)"
  shows "accepted (sp_verification step) + (se_position x - n) \<le> scheduled_len sch d \<and>
    rows y = map (\<lambda>k. k + length (emitted_tokens (sp_verification step)) + (se_position x - n)) (rows x)"
proof -
  let ?N = "mc_num_hidden_layers (md_config m)"
  have wf: "draft_wf d" using assms(4) unfolding draft_new_Ok by blast
  from assms(5) show ?thesis
  proof (cases rule: verify_split)
    case (stepped u z current v next_logits)
    have "length (rows z) = ?N" using stepped(1) assms(1) by (simp add: standing_def)
    note B = speculative_body_post [OF this wf stepped(2), unfolded body_post_def sum.case prod.case]
    have "n \<in> set (rows z)" using assms(1,3) stepped(1) by (simp add: standing_def)
    then have "se_position x + accepted v \<le> n + scheduled_len sch d" using B by blast
    then show ?thesis using B stepped(3) assms(1,2) by simp
  qed simp_all
qed

theorem verify_after_compaction_witness:
  "accepted rejected_outcome + (3 - 2) \<le> 2 \<and> rows (demo_at 4 4) = [2 + length (emitted_tokens rejected_outcome) + (3 - 2)]"
proof -
  have start: "rows (demo_at 2 3) = replicate (mc_num_hidden_layers (md_config demo_decoder)) 2" "2 < se_position (demo_at 2 3)"
    "0 < mc_num_hidden_layers (md_config demo_decoder)" "se_position (demo_at 2 3) = 3" "rows (demo_at 2 3) = [2]"
    by (simp_all add: demo_at_def)
  show ?thesis
    using verify_after_compaction [OF start(1-3) rejected_draft_new demo_verify [OF disjI1 [OF refl]]] start(4,5) rejected_scheduled by simp
qed

end
