(* ===== verification/Sampling.thy ===== *)
theory Sampling
  imports SessionRequests "HOL-Library.Product_Lexorder"
begin

unbundle bit_operations_syntax

text \<open>
  \<open>nnis-model/src/sampling.rs\<close>, \<open>streaming.rs\<close> and \<open>session_batch.rs\<close>: the seeded host sampler, sampled generation
  with and without token delivery, and batches of independent sessions.  The generator is exact on 64-bit words.
  The double-precision arithmetic of the softmax is a record of operations: the theorems hold for every
  choice of them, so none rests on rounding.  The order of the candidates is total on finite logits with distinct
  tokens, so the unstable sort has one result, given by a sort on the key.
\<close>

section \<open>SplitMix64\<close>

type_synonym u64 = "64 word"

definition SPLITMIX_GAMMA :: u64 where
  "SPLITMIX_GAMMA = 0x9E3779B97F4A7C15"

definition splitmix_new :: "u64 \<Rightarrow> u64" where
  "splitmix_new seed = seed"

definition splitmix_output :: "u64 \<Rightarrow> u64" where
  "splitmix_output v0 =
     (let v1 = (v0 XOR drop_bit 30 v0) * 0xBF58476D1CE4E5B9;
          v2 = (v1 XOR drop_bit 27 v1) * 0x94D049BB133111EB
      in v2 XOR drop_bit 31 v2)"

text \<open>\<open>next_u64(&mut self)\<close>: the state after the call and the output.\<close>

definition next_u64 :: "u64 \<Rightarrow> u64 \<times> u64" where
  "next_u64 state = (let state = state + SPLITMIX_GAMMA in (state, splitmix_output state))"

section \<open>The sampling policy\<close>

definition NNIS_SAMPLING_POLICY_VERSION :: nat where
  "NNIS_SAMPLING_POLICY_VERSION = 1"

record sampling_config =
  sc_temperature :: f32
  sc_top_k :: "nat option"
  sc_top_p :: "f32 option"
  sc_seed :: u64

definition sampling_seeded :: "u64 \<Rightarrow> sampling_config" where
  "sampling_seeded seed = \<lparr>sc_temperature = f32_one, sc_top_k = None, sc_top_p = None, sc_seed = seed\<rparr>"

definition with_temperature :: "f32 \<Rightarrow> sampling_config \<Rightarrow> sampling_config" where
  "with_temperature t c = c\<lparr>sc_temperature := t\<rparr>"

definition with_top_k :: "nat \<Rightarrow> sampling_config \<Rightarrow> sampling_config" where
  "with_top_k k c = c\<lparr>sc_top_k := Some k\<rparr>"

definition with_top_p :: "f32 \<Rightarrow> sampling_config \<Rightarrow> sampling_config" where
  "with_top_p p c = c\<lparr>sc_top_p := Some p\<rparr>"

definition sampling_validate :: "sampling_config \<Rightarrow> nat \<Rightarrow> nnis_error + unit" where
  "sampling_validate c vocab =
     (if vocab = 0 then Err (invalid_lit ''sampling requires a non-zero vocabulary'')
      else if \<not> finite_positive (sc_temperature c) then
        Err (invalid_input (lit ''sampling temperature must be finite and positive; got '' @ f32_display (sc_temperature c)))
      else
        and_then (case sc_top_k c of
            Some k \<Rightarrow>
              if k = 0 \<or> k > vocab then
                Err (invalid_input (lit ''sampling top_k must be in 1..='' @ dec vocab @ lit ''; got '' @ dec k))
              else Ok ()
          | None \<Rightarrow> Ok ()) (\<lambda>_.
          case sc_top_p c of
            Some p \<Rightarrow>
              if \<not> finite_positive p \<or> f32_lt f32_one p then
                Err (invalid_input (lit ''sampling top_p must be finite and in (0, 1]; got '' @ f32_display p))
              else Ok ()
          | None \<Rightarrow> Ok ()))"

section \<open>Sampling a token\<close>

text \<open>The operations of \<open>f64\<close> the sampler uses; \<open>fo_unit\<close> is \<open>mantissa as f64 * (1.0 / 2^53)\<close>.\<close>

record 'd f64_ops =
  fo_of_f32 :: "f32 \<Rightarrow> 'd"
  fo_zero :: 'd
  fo_recip :: "'d \<Rightarrow> 'd"
  fo_mul :: "'d \<Rightarrow> 'd \<Rightarrow> 'd"
  fo_add :: "'d \<Rightarrow> 'd \<Rightarrow> 'd"
  fo_sub :: "'d \<Rightarrow> 'd \<Rightarrow> 'd"
  fo_exp :: "'d \<Rightarrow> 'd"
  fo_sum :: "'d list \<Rightarrow> 'd"
  fo_unit :: "u64 \<Rightarrow> 'd"
  fo_is_finite :: "'d \<Rightarrow> bool"
  fo_lt :: "'d \<Rightarrow> 'd \<Rightarrow> bool"
  fo_le :: "'d \<Rightarrow> 'd \<Rightarrow> bool"

record 'd candidate =
  cd_token :: nat
  cd_logit :: f32
  cd_weight :: 'd

record sampler =
  sm_config :: sampling_config
  sm_rng :: u64
  sm_vocab :: nat

definition sampler_new :: "sampling_config \<Rightarrow> nat \<Rightarrow> nnis_error + sampler" where
  "sampler_new c vocab =
     and_then (sampling_validate c vocab) (\<lambda>_.
       if vocab > u32_lim - 1 then Err (unsupported_lit ''host sampler currently requires vocabulary size <= u32::MAX'')
       else Ok \<lparr>sm_config = c, sm_rng = splitmix_new (sc_seed c), sm_vocab = vocab\<rparr>)"

definition next_unit_f64 :: "'d f64_ops \<Rightarrow> u64 \<Rightarrow> u64 \<times> 'd" where
  "next_unit_f64 fo state = (case next_u64 state of (state', v) \<Rightarrow> (state', fo_unit fo (drop_bit 11 v)))"

definition candidate_key :: "'d candidate \<Rightarrow> int \<times> nat" where
  "candidate_key c = (- f32_key (cd_logit c), cd_token c)"

definition ranked_candidates :: "'d f64_ops \<Rightarrow> sampling_config \<Rightarrow> f32 list \<Rightarrow> 'd candidate list" where
  "ranked_candidates fo c logits =
     (let cs = map (\<lambda>(token, logit). \<lparr>cd_token = as_u32 token, cd_logit = logit, cd_weight = fo_zero fo\<rparr>) (enumerate 0 logits);
          cs = sort_key candidate_key cs
      in case sc_top_k c of Some k \<Rightarrow> take k cs | None \<Rightarrow> cs)"

fun weigh :: "'d f64_ops \<Rightarrow> 'd \<Rightarrow> 'd \<Rightarrow> 'd candidate list \<Rightarrow> 'd candidate list \<Rightarrow> 'd \<Rightarrow> nnis_error + 'd candidate list \<times> 'd" where
  "weigh fo inverse_temperature max_scaled before [] total_weight = Ok (before, total_weight)"
| "weigh fo inverse_temperature max_scaled before (c # cs) total_weight =
     (let scaled = fo_mul fo (fo_of_f32 fo (cd_logit c)) inverse_temperature;
          weight = fo_exp fo (fo_sub fo scaled max_scaled)
      in if \<not> fo_is_finite fo weight \<or> fo_lt fo weight (fo_zero fo) then
           Err (invalid_lit ''sampling softmax produced a non-finite probability weight'')
         else weigh fo inverse_temperature max_scaled (before @ [c\<lparr>cd_weight := weight\<rparr>]) cs (fo_add fo total_weight weight))"

text \<open>How many candidates the nucleus keeps: up to the first whose cumulated weight reaches the threshold.\<close>

fun nucleus :: "'d f64_ops \<Rightarrow> 'd \<Rightarrow> 'd \<Rightarrow> nat \<Rightarrow> 'd candidate list \<Rightarrow> nat option" where
  "nucleus fo threshold cumulative index [] = None"
| "nucleus fo threshold cumulative index (c # cs) =
     (let cumulative = fo_add fo cumulative (cd_weight c) in
      if fo_le fo threshold cumulative then Some (index + 1) else nucleus fo threshold cumulative (index + 1) cs)"

definition truncate_top_p :: "'d f64_ops \<Rightarrow> f32 option \<Rightarrow> 'd candidate list \<Rightarrow> 'd \<Rightarrow> 'd candidate list \<times> 'd" where
  "truncate_top_p fo top_p cs total_weight =
     (case top_p of
        None \<Rightarrow> (cs, total_weight)
      | Some p \<Rightarrow>
          let retained = (case nucleus fo (fo_mul fo (fo_of_f32 fo p) total_weight) (fo_zero fo) 0 cs of
                            Some r \<Rightarrow> r | None \<Rightarrow> length cs);
              kept = take (max retained 1) cs
          in (kept, fo_sum fo (map cd_weight kept)))"

fun pick :: "'d f64_ops \<Rightarrow> 'd \<Rightarrow> 'd \<Rightarrow> 'd candidate list \<Rightarrow> nat option" where
  "pick fo draw cumulative [] = None"
| "pick fo draw cumulative (c # cs) =
     (let cumulative = fo_add fo cumulative (cd_weight c) in
      if fo_lt fo draw cumulative then Some (cd_token c) else pick fo draw cumulative cs)"

text \<open>\<open>candidates[0]\<close> exists: the sampler has checked that there are as many logits as the non-empty vocabulary.\<close>

definition sample :: "'d f64_ops \<Rightarrow> sampler \<Rightarrow> f32 list \<Rightarrow> sampler \<times> (nnis_error + nat)" where
  "sample fo sm logits =
     (if length logits \<noteq> sm_vocab sm then
        (sm, Err (invalid_input (lit ''sampling expected '' @ dec (sm_vocab sm) @ lit '' logits; got '' @ dec (length logits))))
      else
        case find (\<lambda>(_, val). \<not> f32_is_finite val) (enumerate 0 logits) of
          Some (index, val) \<Rightarrow>
            (sm, Err (invalid_input (lit ''sampling logit '' @ dec index @ lit '' is non-finite: '' @ f32_display val)))
        | None \<Rightarrow>
            let cs = ranked_candidates fo (sm_config sm) logits;
                inverse_temperature = fo_recip fo (fo_of_f32 fo (sc_temperature (sm_config sm)));
                max_scaled = fo_mul fo (fo_of_f32 fo (cd_logit (hd cs))) inverse_temperature
            in case weigh fo inverse_temperature max_scaled [] cs (fo_zero fo) of
                 Inl e \<Rightarrow> (sm, Err e)
               | Inr (weighed, total_weight) \<Rightarrow>
                   if \<not> fo_is_finite fo total_weight \<or> fo_le fo total_weight (fo_zero fo) then
                     (sm, Err (invalid_lit ''sampling softmax produced no positive finite probability mass''))
                   else
                     case truncate_top_p fo (sc_top_p (sm_config sm)) weighed total_weight of (kept, mass) \<Rightarrow>
                       case next_unit_f64 fo (sm_rng sm) of (rng, u) \<Rightarrow>
                         (sm\<lparr>sm_rng := rng\<rparr>,
                          case pick fo (fo_mul fo u mass) (fo_zero fo) kept of
                            Some token \<Rightarrow> Ok token
                          | None \<Rightarrow>
                              if kept = [] then Err (invalid_lit ''sampling retained no candidates'')
                              else Ok (cd_token (last kept))))"

section \<open>Sampled generation\<close>

text \<open>The positions the prompt and the requested tokens need, with the wording of the caller.\<close>

definition sampled_envelope :: "string \<Rightarrow> 's decoder_model \<Rightarrow> nat list \<Rightarrow> generation_config \<Rightarrow> nnis_error + unit" where
  "sampled_envelope what m ids g =
     and_then (ok_or (invalid_input (lit ''prompt + '' @ lit what @ lit '' length overflows usize''))
         (checked_add (length ids) (gc_max_new_tokens g))) (\<lambda>n.
       if n > session_capacity m then
         Err (invalid_input (lit ''prompt + '' @ lit what @ lit '' requires '' @ dec n @
           lit '' positions; session capacity is '' @ dec (session_capacity m)))
       else Ok ())"

fun sampled_loop ::
  "'d f64_ops \<Rightarrow> (nat \<Rightarrow> ('s, f32 list) se_comp) \<Rightarrow> nat option \<Rightarrow> nat \<Rightarrow> sampler \<Rightarrow> f32 list \<Rightarrow> nat list \<Rightarrow> ('s, nat list) se_comp"
  where
  "sampled_loop fo decode eos 0 sm logits generated = se_ok generated"
| "sampled_loop fo decode eos (Suc n) sm logits generated =
     (case sample fo sm logits of
        (sm', Inl e) \<Rightarrow> se_lift (Err e)
      | (sm', Inr token) \<Rightarrow>
          se_bind (decode token) (\<lambda>logits.
            if eos = Some token then se_ok (generated @ [token])
            else sampled_loop fo decode eos n sm' logits (generated @ [token])))"

definition generate_sampled ::
  "'d f64_ops \<Rightarrow> 's cuda \<Rightarrow> 's decoder_model \<Rightarrow> nat list \<Rightarrow> generation_config \<Rightarrow> sampling_config \<Rightarrow> ('s, nat list) se_comp" where
  "generate_sampled fo drv m ids g sampling =
     se_bind (se_lift (sampled_envelope ''sampled generation'' m ids g)) (\<lambda>_.
     se_bind (prefill drv m ids) (\<lambda>logits.
     se_bind (se_lift (generation_validate g (length logits))) (\<lambda>_.
     se_bind (se_lift (sampler_new sampling (length logits))) (\<lambda>sm.
       sampled_loop fo (decode_one drv m) (gc_eos_token_id g) (gc_max_new_tokens g) sm logits []))))"

datatype stream_control = Continue | Stop

text \<open>The callback is a function of its own state and the token; the result carries that state, after a failure too.\<close>

fun streaming_loop ::
  "'d f64_ops \<Rightarrow> (nat \<Rightarrow> ('s, f32 list) se_comp) \<Rightarrow> ('c \<Rightarrow> nat \<Rightarrow> 'c \<times> stream_control) \<Rightarrow> nat option \<Rightarrow> nat \<Rightarrow> sampler \<Rightarrow> f32 list \<Rightarrow>
   nat list \<Rightarrow> 'c \<Rightarrow> 's rt \<times> session \<Rightarrow> 'c \<times> ('s rt \<times> session) \<times> (nnis_error + nat list)" where
  "streaming_loop fo decode on_token eos 0 sm logits generated c sx = (c, sx, Ok generated)"
| "streaming_loop fo decode on_token eos (Suc n) sm logits generated c sx =
     (case sample fo sm logits of
        (sm', Inl e) \<Rightarrow> (c, sx, Err e)
      | (sm', Inr token) \<Rightarrow>
          (case decode token sx of
             (ty, Inl e) \<Rightarrow> (c, ty, Err e)
           | (ty, Inr logits) \<Rightarrow>
               (case on_token c token of
                  (c', control) \<Rightarrow>
                    if eos = Some token \<or> control = Stop then (c', ty, Ok (generated @ [token]))
                    else streaming_loop fo decode on_token eos n sm' logits (generated @ [token]) c' ty)))"

definition generate_sampled_streaming ::
  "'d f64_ops \<Rightarrow> 's cuda \<Rightarrow> 's decoder_model \<Rightarrow> nat list \<Rightarrow> generation_config \<Rightarrow> sampling_config \<Rightarrow>
   ('c \<Rightarrow> nat \<Rightarrow> 'c \<times> stream_control) \<Rightarrow> 'c \<Rightarrow> 's rt \<times> session \<Rightarrow> 'c \<times> ('s rt \<times> session) \<times> (nnis_error + nat list)" where
  "generate_sampled_streaming fo drv m ids g sampling on_token c sx =
     (case se_bind (se_lift (sampled_envelope ''sampled streaming generation'' m ids g)) (\<lambda>_.
        se_bind (prefill drv m ids) (\<lambda>logits.
        se_bind (se_lift (generation_validate g (length logits))) (\<lambda>_.
        se_bind (se_lift (sampler_new sampling (length logits))) (\<lambda>sm. se_ok (sm, logits))))) sx of
       (ty, Inl e) \<Rightarrow> (c, ty, Err e)
     | (ty, Inr (sm, logits)) \<Rightarrow>
         streaming_loop fo (decode_one drv m) on_token (gc_eos_token_id g) (gc_max_new_tokens g) sm logits [] c ty)"

section \<open>Batches of sessions\<close>

record sampled_batch_request =
  br_input_ids :: "nat list"
  br_generation :: generation_config
  br_sampling :: sampling_config

text \<open>A session that goes out of scope: its stream, then its buffers and pending appends, in the order of the fields.  The
  stream is shared with the cache and the appends, which only delays its destruction.\<close>

definition session_buffers :: "session \<Rightarrow> device_buffer list" where
  "session_buffers x =
     (let w = se_workspace x in
      [rc_keys (se_cache x), rc_values (se_cache x), ws_hidden w, ws_normed w, ws_q w, ws_k w, ws_v w, ws_q_rope w, ws_k_rope w,
       ws_attention w, ws_projected w, ws_residual w, ws_gate w, ws_up w] @
      (case ws_activated w of Some b \<Rightarrow> [b] | None \<Rightarrow> []) @
      [ws_gated w, ws_mlp w, ws_logits w, ws_current_token w, ws_top_value w] @ ws_top_k w)"

definition session_drop :: "'s cuda \<Rightarrow> session \<Rightarrow> 's rt \<Rightarrow> 's rt" where
  "session_drop drv x s =
     fold (\<lambda>a. pending_drop drv (ka_work a)) (se_pending x)
       (fold (device_buffer_drop drv) (session_buffers x) (stream_drop drv (se_stream x) s))"

fun new_sessions :: "'s cuda \<Rightarrow> 's decoder_model \<Rightarrow> nat \<Rightarrow> session list \<Rightarrow> ('s, session list) rt_comp" where
  "new_sessions drv m 0 sessions = rt_ok sessions"
| "new_sessions drv m (Suc n) sessions = (\<lambda>s.
     case session_new drv m s of
       (t, Inl e) \<Rightarrow> (fold (session_drop drv) sessions t, Err e)
     | (t, Inr x) \<Rightarrow> new_sessions drv m n (sessions @ [x]) t)"

definition session_batch_new :: "'s cuda \<Rightarrow> 's decoder_model \<Rightarrow> nat \<Rightarrow> ('s, session list) rt_comp" where
  "session_batch_new drv m session_count =
     (if session_count = 0 then rt_lift (Err (invalid_lit ''sampled session batch requires at least one session''))
      else new_sessions drv m session_count [])"

definition batch_positions :: "session list \<Rightarrow> nat list" where
  "batch_positions xs = map se_position xs"

fun batch_items ::
  "'d f64_ops \<Rightarrow> 's cuda \<Rightarrow> 's decoder_model \<Rightarrow> (session \<times> sampled_batch_request) list \<Rightarrow> 's rt \<Rightarrow>
   's rt \<times> (session \<times> (nnis_error + nat list)) list" where
  "batch_items fo drv m [] s = (s, [])"
| "batch_items fo drv m ((x, q) # items) s =
     (case generate_sampled fo drv m (br_input_ids q) (br_generation q) (br_sampling q) (s, x) of
        ((t, y), r) \<Rightarrow> (case batch_items fo drv m items t of (u, rs) \<Rightarrow> (u, (y, r) # rs)))"

text \<open>The device, the sessions after the call, and the result.\<close>

definition batch_generate_sampled ::
  "'d f64_ops \<Rightarrow> 's cuda \<Rightarrow> 's decoder_model \<Rightarrow> session list \<Rightarrow> sampled_batch_request list \<Rightarrow> 's rt \<Rightarrow>
   's rt \<times> session list \<times> (nnis_error + (nnis_error + nat list) list)" where
  "batch_generate_sampled fo drv m xs requests s =
     (if length requests \<noteq> length xs then
        (s, xs, Err (invalid_input (lit ''sampled session batch has '' @ dec (length xs) @
           lit '' sessions but received '' @ dec (length requests) @ lit '' requests'')))
      else case batch_items fo drv m (zip xs requests) s of (t, rs) \<Rightarrow> (t, map fst rs, Ok (map snd rs)))"

section \<open>The candidates that can be drawn\<close>

text \<open>\<open>outranks logits i j\<close>: token \<open>i\<close> comes before token \<open>j\<close> in the order of the sampler.\<close>

definition outranks :: "f32 list \<Rightarrow> nat \<Rightarrow> nat \<Rightarrow> bool" where
  "outranks logits i j \<longleftrightarrow> f32_key (logits ! j) < f32_key (logits ! i) \<or> f32_key (logits ! i) = f32_key (logits ! j) \<and> i < j"

definition all_candidates :: "'d \<Rightarrow> f32 list \<Rightarrow> 'd candidate list" where
  "all_candidates z logits = map (\<lambda>i. \<lparr>cd_token = i, cd_logit = logits ! i, cd_weight = z\<rparr>) [0..<length logits]"

lemma enumerate_upt: "enumerate 0 xs = map (\<lambda>i. (i, xs ! i)) [0..<length xs]"
  by (rule nth_equalityI) (simp_all add: nth_enumerate_eq)

lemma ranked_candidates_sorted:
  assumes "length logits \<le> u32_lim"
  shows "ranked_candidates fo c logits =
    (case sc_top_k c of Some k \<Rightarrow> take k (sort_key candidate_key (all_candidates (fo_zero fo) logits))
     | None \<Rightarrow> sort_key candidate_key (all_candidates (fo_zero fo) logits))"
proof -
  have "map (\<lambda>(token, logit). \<lparr>cd_token = as_u32 token, cd_logit = logit, cd_weight = fo_zero fo\<rparr>) (enumerate 0 logits) =
      all_candidates (fo_zero fo) logits"
    using assms by (auto simp: enumerate_upt all_candidates_def as_u32_def)
  then show ?thesis by (simp add: ranked_candidates_def Let_def)
qed

lemma ranked_below:
  assumes "j < length logits" "S = sort_key candidate_key (all_candidates z logits)"
  shows "cd_token (S ! j) < length logits \<and> card {i. i < length logits \<and> outranks logits i (cd_token (S ! j))} \<le> j"
proof -
  let ?n = "length logits"
  have len: "length S = ?n" using assms(2) by (simp add: all_candidates_def)
  have srt: "sorted (map candidate_key S)" by (simp add: assms(2))
  have elem: "cd_token x < ?n \<and> x = \<lparr>cd_token = cd_token x, cd_logit = logits ! cd_token x, cd_weight = z\<rparr>" if "x \<in> set S" for x
    using that by (auto simp: assms(2) all_candidates_def)
  have token: "cd_token (S ! j) < ?n" using elem [of "S ! j"] assms(1) len by simp
  have "{i. i < ?n \<and> outranks logits i (cd_token (S ! j))} \<subseteq> cd_token ` set (take j S)"
  proof
    fix i assume "i \<in> {i. i < ?n \<and> outranks logits i (cd_token (S ! j))}"
    then have i: "i < ?n" "outranks logits i (cd_token (S ! j))" by simp_all
    let ?x = "\<lparr>cd_token = i, cd_logit = logits ! i, cd_weight = z\<rparr>"
    have "?x \<in> set S" using i(1) by (simp add: assms(2) all_candidates_def)
    then obtain p where p: "p < ?n" "S ! p = ?x" unfolding in_set_conv_nth len by blast
    have "p < j"
    proof (rule ccontr)
      assume "\<not> p < j"
      then have "candidate_key (S ! j) \<le> candidate_key (S ! p)"
        using sorted_nth_mono [OF srt, of j p] p(1) len by simp
      moreover have "S ! j = \<lparr>cd_token = cd_token (S ! j), cd_logit = logits ! cd_token (S ! j), cd_weight = z\<rparr>"
        using elem [of "S ! j"] assms(1) len by simp
      then have "cd_logit (S ! j) = logits ! cd_token (S ! j)" by (metis candidate.select_convs(2))
      ultimately show False using i(2) p(2) by (auto simp: candidate_key_def outranks_def less_eq_prod_def)
    qed
    then have "?x \<in> set (take j S)" using p len by (auto simp: in_set_conv_nth)
    then show "i \<in> cd_token ` set (take j S)" by (metis candidate.select_convs(1) image_eqI)
  qed
  then have "card {i. i < ?n \<and> outranks logits i (cd_token (S ! j))} \<le> card (cd_token ` set (take j S))"
    by (intro card_mono) simp_all
  also have "\<dots> \<le> card (set (take j S))" by (rule card_image_le) simp
  also have "\<dots> \<le> length (take j S)" by (rule card_length)
  finally show ?thesis using token by simp
qed

text \<open>Weighing keeps the tokens in order; truncation keeps a prefix; a token is drawn from what is left.\<close>

lemma weigh_tokens: "weigh fo k mx ds cs tot = Ok (ws, mass) \<Longrightarrow> map cd_token ws = map cd_token ds @ map cd_token cs"
  by (induction cs arbitrary: ds tot) (auto simp: Let_def split: if_split_asm)

lemma truncate_prefix: "truncate_top_p fo p cs mass = (kept, mass') \<Longrightarrow> \<exists>n. kept = take n cs"
  by (cases p; simp add: truncate_top_p_def Let_def; metis take_all_iff order_refl)

lemma pick_member: "pick fo d c cs = Some t \<Longrightarrow> t \<in> cd_token ` set cs"
  by (induction cs arbitrary: c) (auto simp: Let_def split: if_split_asm)

lemma sample_Ok:
  assumes "sample fo sm logits = (sm', Ok token)"
  shows "length logits = sm_vocab sm \<and> all_finite logits \<and> token \<in> cd_token ` set (ranked_candidates fo (sm_config sm) logits)"
proof -
  have len: "length logits = sm_vocab sm" using assms by (auto simp: sample_def split: if_split_asm)
  have fin: "find (\<lambda>(_, val). \<not> f32_is_finite val) (enumerate 0 logits) = None"
    using assms len by (auto simp: sample_def split: option.splits)
  then have "all_finite logits" by (auto simp: find_None_iff enumerate_upt all_finite_def list_all_length)
  let ?cs = "ranked_candidates fo (sm_config sm) logits"
  let ?inv = "fo_recip fo (fo_of_f32 fo (sc_temperature (sm_config sm)))"
  let ?max = "fo_mul fo (fo_of_f32 fo (cd_logit (hd ?cs))) ?inv"
  obtain ws tot where w: "weigh fo ?inv ?max [] ?cs (fo_zero fo) = Ok (ws, tot)"
    using assms len fin by (cases "weigh fo ?inv ?max [] ?cs (fo_zero fo)") (auto simp: sample_def Let_def)
  obtain kept mass where k: "truncate_top_p fo (sc_top_p (sm_config sm)) ws tot = (kept, mass)" by fastforce
  obtain rng u where r: "next_unit_f64 fo (sm_rng sm) = (rng, u)" by fastforce
  have out: "(case pick fo (fo_mul fo u mass) (fo_zero fo) kept of Some token \<Rightarrow> Ok token
      | None \<Rightarrow> if kept = [] then Err (invalid_lit ''sampling retained no candidates'') else Ok (cd_token (last kept))) = Ok token"
    using assms len fin w k r by (simp add: sample_def Let_def split: if_split_asm)
  have "token \<in> cd_token ` set kept"
    using out pick_member [of fo "fo_mul fo u mass" "fo_zero fo" kept]
    by (cases "pick fo (fo_mul fo u mass) (fo_zero fo) kept") (auto split: if_split_asm)
  moreover obtain n where "kept = take n ws" using truncate_prefix [OF k] by blast
  ultimately have "token \<in> set (map cd_token ws)" by (auto dest: in_set_takeD)
  then have "token \<in> cd_token ` set ?cs" using weigh_tokens [OF w] by simp
  then show ?thesis using len \<open>all_finite logits\<close> by simp
qed

lemma sample_draws:
  assumes "sample fo sm logits = (sm', Ok token)"
  shows "sm' = sm\<lparr>sm_rng := sm_rng sm + SPLITMIX_GAMMA\<rparr>"
  using assms by (auto simp: sample_def Let_def next_unit_f64_def next_u64_def split: if_split_asm option.splits sum.splits prod.splits)

lemma sampled_rank:
  assumes "sample fo sm logits = (sm', Ok token)" "sm_vocab sm \<le> u32_lim"
  shows "token < sm_vocab sm \<and> all_finite logits \<and> length logits = sm_vocab sm \<and>
    (\<forall>k. sc_top_k (sm_config sm) = Some k \<longrightarrow> card {i. i < sm_vocab sm \<and> outranks logits i token} < k)"
proof -
  note S = sample_Ok [OF assms(1)]
  let ?S = "sort_key candidate_key (all_candidates (fo_zero fo) logits)"
  have len: "length ?S = length logits" by (simp add: all_candidates_def)
  have "token \<in> cd_token ` set (case sc_top_k (sm_config sm) of Some k \<Rightarrow> take k ?S | None \<Rightarrow> ?S)"
    using S assms(2) ranked_candidates_sorted [of logits fo "sm_config sm"] by simp
  then obtain j where j: "j < length logits" "token = cd_token (?S ! j)" "\<forall>k. sc_top_k (sm_config sm) = Some k \<longrightarrow> j < k"
    using len by (cases "sc_top_k (sm_config sm)") (auto simp: in_set_conv_nth simp del: set_sort length_sort)
  then show ?thesis using ranked_below [OF j(1) refl, of "fo_zero fo"] S by fastforce
qed

section \<open>The generator\<close>

lemma xorshift_inj:
  fixes a b :: u64
  assumes "0 < k" "a XOR drop_bit k a = b XOR drop_bit k b"
  shows "a = b"
proof (rule bit_eqI)
  have step: "bit a n \<noteq> bit b n \<Longrightarrow> bit a (n + k) \<noteq> bit b (n + k)" if "n < 64" for n
  proof -
    have "bit (a XOR drop_bit k a) n = bit (b XOR drop_bit k b) n" using assms(2) by simp
    then show "bit a n \<noteq> bit b n \<Longrightarrow> bit a (n + k) \<noteq> bit b (n + k)"
      by (auto simp: bit_xor_iff bit_drop_bit_eq add.commute)
  qed
  have high: "\<not> bit x n" if "64 \<le> n" for x :: u64 and n using that bit_imp_le_length [of x n] by auto
  show "bit a n \<longleftrightarrow> bit b n" for n
  proof (induction "64 - n" arbitrary: n rule: less_induct)
    case less
    show ?case
    proof (cases "n < 64")
      case True
      have "bit a (n + k) \<longleftrightarrow> bit b (n + k)" using less.hyps [of "n + k"] True assms(1) by simp
      then show ?thesis using step [OF True] by blast
    next
      case False
      then show ?thesis using high by simp
    qed
  qed
qed

lemma mult_unit_inj:
  fixes a b c d :: u64
  assumes "c * d = 1" "a * c = b * c"
  shows "a = b"
proof -
  have "a * (c * d) = b * (c * d)" using assms(2) by (metis mult.assoc)
  then show ?thesis using assms(1) by simp
qed

lemma splitmix_output_inj: "splitmix_output a = splitmix_output b \<Longrightarrow> a = b"
  unfolding splitmix_output_def Let_def
  by (drule xorshift_inj [rotated], simp,
      drule mult_unit_inj [where d = "0x319642B2D24D8EC3", rotated], simp,
      drule xorshift_inj [rotated], simp,
      drule mult_unit_inj [where d = "0x96DE1B173F119089", rotated], simp,
      drule xorshift_inj [rotated], simp, assumption)

text \<open>The \<open>i\<close>-th value a generator gives.\<close>

definition splitmix_draw :: "u64 \<Rightarrow> nat \<Rightarrow> u64" where
  "splitmix_draw seed i = snd (next_u64 (((\<lambda>state. fst (next_u64 state)) ^^ i) (splitmix_new seed)))"

lemma splitmix_state: "((\<lambda>state. fst (next_u64 state)) ^^ i) seed = seed + of_nat i * SPLITMIX_GAMMA"
  by (induction i) (simp_all add: next_u64_def Let_def algebra_simps)

lemma splitmix_draw_eq: "splitmix_draw seed i = splitmix_output (seed + of_nat (Suc i) * SPLITMIX_GAMMA)"
proof -
  have "((\<lambda>state. fst (next_u64 state)) ^^ i) (splitmix_new seed) = seed + of_nat i * SPLITMIX_GAMMA"
    by (simp add: splitmix_new_def splitmix_state)
  then show ?thesis by (simp add: splitmix_draw_def next_u64_def Let_def algebra_simps)
qed

section \<open>The loops\<close>

text \<open>A delivered run: the caller's state is the fold of the callback over the new tokens, and the undelivered loop given
  that many tokens does the same.\<close>

lemma streaming_loop_sampled:
  assumes "streaming_loop fo decode on_token eos n sm logits before c sx = (c', ty, Ok out)"
  shows "\<exists>new. out = before @ new \<and> length new \<le> n \<and> c' = fold (\<lambda>token c. fst (on_token c token)) new c \<and>
    sampled_loop fo decode eos (length new) sm logits before sx = (ty, Ok out)"
  using assms
proof (induction n arbitrary: sm logits before c sx)
  case 0
  then show ?case by (auto simp: se_ok_def intro: exI [of _ "[]"])
next
  case (Suc n)
  obtain sm' r where s: "sample fo sm logits = (sm', r)" by fastforce
  obtain token where r: "r = Ok token" using Suc.prems s by (cases r) auto
  obtain uz r2 where d: "decode token sx = (uz, r2)" by fastforce
  obtain next_logits where r2: "r2 = Ok next_logits" using Suc.prems s r d by (cases r2) auto
  obtain c1 control where cb: "on_token c token = (c1, control)" by fastforce
  show ?case
  proof (cases "eos = Some token \<or> control = Stop")
    case True
    then have out: "out = before @ [token]" "c' = c1" "ty = uz" using Suc.prems s r d r2 cb by auto
    have "sampled_loop fo decode eos (Suc 0) sm logits before sx = (ty, Ok out)"
      using s r d r2 out by (simp add: se_bind_def se_ok_def)
    then show ?thesis using out cb by (intro exI [of _ "[token]"]) simp
  next
    case False
    then have "streaming_loop fo decode on_token eos n sm' next_logits (before @ [token]) c1 uz = (c', ty, Ok out)"
      using Suc.prems s r d r2 cb by auto
    from Suc.IH [OF this] obtain new where new: "out = before @ token # new" "length new \<le> n"
      "c' = fold (\<lambda>token c. fst (on_token c token)) new c1"
      "sampled_loop fo decode eos (length new) sm' next_logits (before @ [token]) uz = (ty, Ok out)" by auto
    have "sampled_loop fo decode eos (Suc (length new)) sm logits before sx = (ty, Ok out)"
      using s r d r2 False new(4) by (simp add: se_bind_def)
    then show ?thesis using new(1-3) cb by (intro exI [of _ "token # new"]) simp
  qed
qed

lemma sampled_envelope_less:
  assumes "sampled_envelope what m ids g = Ok u" "n \<le> gc_max_new_tokens g"
  shows "sampled_envelope what' m ids (g\<lparr>gc_max_new_tokens := n\<rparr>) = Ok ()"
proof -
  have "length ids + gc_max_new_tokens g < u64_lim \<and> length ids + gc_max_new_tokens g \<le> session_capacity m"
    using assms(1) by (cases "length ids + gc_max_new_tokens g < u64_lim")
      (simp_all add: sampled_envelope_def checked_add_def split: if_split_asm)
  then have "checked_add (length ids) n = Some (length ids + n)" "\<not> length ids + n > session_capacity m"
    using assms(2) by (simp_all add: checked_add_def)
  then show ?thesis by (simp add: sampled_envelope_def)
qed

lemma eos_in_vocab_Err: "eos_in_vocab what eos vocab = Err e \<Longrightarrow> \<exists>x. eos = Some x \<and> \<not> x < vocab"
  by (auto simp: eos_in_vocab_def split: option.splits if_split_asm)

text \<open>A sampler that may only keep the best candidate is greedy.\<close>

lemma first_max_unique:
  assumes "first_max xs a" "b < length xs" "card {i. i < length xs \<and> outranks xs i b} < 1"
  shows "a = b"
proof (rule ccontr)
  assume "a \<noteq> b"
  have "finite {i. i < length xs \<and> outranks xs i b}" by simp
  then have "{i. i < length xs \<and> outranks xs i b} = {}" using assms(3) by simp
  moreover have "outranks xs a b" "a < length xs"
    using assms(1,2) \<open>a \<noteq> b\<close> by (force simp: first_max_def outranks_def neq_iff)+
  ultimately show False by blast
qed

section \<open>A sampler with equal weights\<close>

definition flat_ops :: "nat f64_ops" where
  "flat_ops = \<lparr>fo_of_f32 = (\<lambda>_. 1), fo_zero = 0, fo_recip = (\<lambda>x. x), fo_mul = (*), fo_add = (+), fo_sub = (-), fo_exp = (\<lambda>_. 1),
     fo_sum = sum_list, fo_unit = (\<lambda>_. 0), fo_is_finite = (\<lambda>_. True), fo_lt = (<), fo_le = (\<le>)\<rparr>"

definition flat_sampler :: "nat option \<Rightarrow> nat \<Rightarrow> sampler" where
  "flat_sampler k vocab = \<lparr>sm_config = (sampling_seeded 7)\<lparr>sc_top_k := k\<rparr>, sm_rng = 7, sm_vocab = vocab\<rparr>"

lemma flat_sampler_new:
  assumes "0 < vocab" "vocab < u32_lim" "k = None \<or> (\<exists>n. k = Some n \<and> 0 < n \<and> n \<le> vocab)"
  shows "sampler_new ((sampling_seeded 7)\<lparr>sc_top_k := k\<rparr>) vocab = Ok (flat_sampler k vocab)"
proof -
  have "finite_positive f32_one"
    by (simp add: finite_positive_def f32_is_finite_def f32_lt_def f32_le_def f32_key_def f32_one_def f32_mag_def f32_is_nan_def
        f32_sign_negative_def f32_zero_def bit_iff_odd)
  then show ?thesis using assms
    by (auto simp: sampler_new_def sampling_validate_def sampling_seeded_def flat_sampler_def splitmix_new_def)
qed

lemma flat_keys: "f32_key f32_zero = 0" "f32_key f32_one = 0x3F800000" "f32_is_finite f32_zero" "f32_is_finite f32_one"
  by (simp_all add: f32_key_def f32_one_def f32_zero_def f32_mag_def f32_sign_negative_def bit_iff_odd f32_is_finite_def)

lemma flat_sample:
  "\<exists>sm. sample flat_ops (flat_sampler (Some k) 3) [f32_zero, f32_one, f32_one] = (sm, Ok 1)" if "0 < k"
  using that
  by (cases k) (simp_all add: sample_def flat_sampler_def sampling_seeded_def ranked_candidates_def flat_keys candidate_key_def
      as_u32_def u32_lim_def Let_def flat_ops_def truncate_top_p_def next_unit_f64_def next_u64_def less_prod_def less_eq_prod_def numeral_3_eq_3
      take_Cons split: nat.split)

lemma flat_sample_zeros: "\<exists>sm. sample flat_ops (flat_sampler None 2) [0, 0] = (sm, Ok 0)"
proof -
  have "f32_is_finite 0" by (simp add: f32_is_finite_def f32_mag_def)
  then show ?thesis
    by (simp add: sample_def flat_sampler_def sampling_seeded_def ranked_candidates_def candidate_key_def
      as_u32_def u32_lim_def Let_def flat_ops_def truncate_top_p_def next_unit_f64_def next_u64_def less_prod_def less_eq_prod_def)
qed

lemma flat_streaming:
  "\<exists>t. generate_sampled_streaming flat_ops bump_driver demo_decoder [1] (generation_until_eos 3 0) (sampling_seeded 7)
     (\<lambda>c token. (token # c, Continue)) [] (s, demo_at q p) = ([0], (t, demo_at 2 2), Ok [0])"
proof -
  let ?g = "generation_until_eos 3 0"
  have env: "sampled_envelope what demo_decoder [1] ?g = Ok ()" for what
  proof -
    have "checked_add (length [1 :: nat]) (gc_max_new_tokens ?g) = Some 4" "\<not> 4 > session_capacity demo_decoder"
      by (simp_all add: checked_add_def u64_lim_def session_capacity_def generation_until_eos_def)
    then show ?thesis by (simp add: sampled_envelope_def)
  qed
  obtain t where pre: "prefill bump_driver demo_decoder [1] (s, demo_at q p) = ((t, demo_at 1 1), Ok [0, 0])" using demo_prefill by blast
  have valid: "generation_validate ?g (length [0 :: f32, 0]) = Ok ()" by (simp add: generation_validate_def generation_until_eos_def)
  have new: "sampler_new (sampling_seeded 7) (length [0 :: f32, 0]) = Ok (flat_sampler None 2)"
    using flat_sampler_new [of 2 None] by (simp add: sampling_seeded_def u32_lim_def numeral_2_eq_2)
  obtain sm where draw: "sample flat_ops (flat_sampler None 2) [0, 0] = (sm, Ok 0)" using flat_sample_zeros by blast
  have decode: "decode_one bump_driver demo_decoder 0 (t, demo_at 1 1) = ((t, demo_at 2 2), Ok [0, 0])"
    using demo_decode [of 1 1 0 t] by (simp add: numeral_2_eq_2)
  have "streaming_loop flat_ops (decode_one bump_driver demo_decoder) (\<lambda>c token. (token # c, Continue)) (Some 0) 3 (flat_sampler None 2) [0, 0] []
      [] (t, demo_at 1 1) = ([0], (t, demo_at 2 2), Ok [0])"
    unfolding numeral_3_eq_3 streaming_loop.simps draw prod.case sum.case decode by simp
  moreover have "gc_eos_token_id ?g = Some 0" "gc_max_new_tokens ?g = 3" by (simp_all add: generation_until_eos_def)
  ultimately show ?thesis
    unfolding generate_sampled_streaming_def env se_bind_pure se_bind_def [of "prefill drv m ids" for drv m ids] pre prod.case sum.case
      valid new se_ok_def
    by simp
qed

section \<open>Properties\<close>

text \<open>C30. What can be sampled.  Whatever the arithmetic, a token that an accepted sampler draws is in the vocabulary and
  has fewer than \<open>top_k\<close> tokens before it in the ranking by logit with ties to the smaller id; the logits are finite
  and exactly one draw of the generator is used.\<close>

theorem sampled_token_ranked:
  assumes "sampler_new c vocab = Ok sm0" "sample fo (sm0\<lparr>sm_rng := state\<rparr>) logits = (sm, Ok token)"
  shows "token < vocab \<and> length logits = vocab \<and> list_all f32_is_finite logits \<and>
    sm = sm0\<lparr>sm_rng := state + SPLITMIX_GAMMA\<rparr> \<and>
    (\<forall>k. sc_top_k c = Some k \<longrightarrow> card {i. i < vocab \<and> outranks logits i token} < k)"
proof -
  have sm0: "sm_config sm0 = c" "sm_vocab sm0 = vocab" "vocab \<le> u32_lim"
    using assms(1) by (auto simp: sampler_new_def split: if_split_asm)
  show ?thesis using sampled_rank [OF assms(2)] sample_draws [OF assms(2)] sm0 by (simp add: all_finite_def)
qed

theorem sampled_token_ranked_witness:
  "\<exists>sm. sample flat_ops (flat_sampler (Some 2) 3) [f32_zero, f32_one, f32_one] = (sm, Ok 1) \<and>
     card {i. i < 3 \<and> outranks [f32_zero, f32_one, f32_one] i 1} < 2"
proof -
  have new: "sampler_new ((sampling_seeded 7)\<lparr>sc_top_k := Some 2\<rparr>) 3 = Ok (flat_sampler (Some 2) 3)"
    by (rule flat_sampler_new) (simp_all add: u32_lim_def)
  obtain sm where "sample flat_ops (flat_sampler (Some 2) 3) [f32_zero, f32_one, f32_one] = (sm, Ok 1)"
    using flat_sample [of 2] by auto
  then have run: "sample flat_ops ((flat_sampler (Some 2) 3)\<lparr>sm_rng := 7\<rparr>) [f32_zero, f32_one, f32_one] = (sm, Ok 1)"
    by (simp add: flat_sampler_def)
  show ?thesis using sampled_token_ranked [OF new run] run by (simp add: flat_sampler_def)
qed

text \<open>C26. With \<open>top_k = 1\<close> sampling is greedy decoding: a token that is drawn is the one the CPU verifier's greedy choice
  gives on the same logits.\<close>

theorem top_1_is_greedy:
  assumes "sampler_new (with_top_k 1 c) vocab = Ok sm0" "sample fo (sm0\<lparr>sm_rng := state\<rparr>) logits = (sm, Ok token)"
  shows "greedy_argmax logits = Ok token"
proof -
  have sm0: "sc_top_k (sm_config sm0) = Some 1" "sm_vocab sm0 \<le> u32_lim" "0 < sm_vocab sm0"
    using assms(1) by (auto simp: sampler_new_def sampling_validate_def with_top_k_def split: if_split_asm)
  then have rank: "token < length logits" "all_finite logits" "length logits = sm_vocab sm0"
    "card {i. i < length logits \<and> outranks logits i token} < 1"
    using sampled_rank [OF assms(2)] by simp_all
  have "logits \<noteq> []" "length logits \<le> u32_lim" using rank(3) sm0 by auto
  then have "greedy_argmax logits = Ok (greedy_token logits)" "greedy_post logits (greedy_argmax logits)"
    using greedy_argmax_finite greedy_argmax_post rank(2) by blast+
  then show ?thesis using first_max_unique [OF _ rank(1,4)] by (simp add: greedy_post_def)
qed

theorem top_1_is_greedy_witness: "greedy_argmax [f32_zero, f32_one, f32_one] = Ok 1"
proof -
  have new: "sampler_new (with_top_k 1 (sampling_seeded 7)) 3 = Ok (flat_sampler (Some 1) 3)"
    unfolding with_top_k_def by (rule flat_sampler_new) (simp_all add: u32_lim_def)
  obtain sm where "sample flat_ops (flat_sampler (Some 1) 3) [f32_zero, f32_one, f32_one] = (sm, Ok 1)"
    using flat_sample [of 1] by auto
  then have "sample flat_ops ((flat_sampler (Some 1) 3)\<lparr>sm_rng := 7\<rparr>) [f32_zero, f32_one, f32_one] = (sm, Ok 1)"
    by (simp add: flat_sampler_def)
  then show ?thesis by (rule top_1_is_greedy [OF new])
qed

text \<open>C25. Delivering tokens changes nothing.  A successful streaming call leaves the caller's callback state after exactly the
  returned tokens, in order, returns at most the requested number, and has the same effect and result as the call without
  delivery for that many tokens.\<close>

theorem streaming_is_sampling:
  assumes "generate_sampled_streaming fo drv m ids g sampling on_token c sx = (c', ty, Ok out)"
  shows "c' = fold (\<lambda>token c. fst (on_token c token)) out c \<and> length out \<le> gc_max_new_tokens g \<and>
    generate_sampled fo drv m ids (g\<lparr>gc_max_new_tokens := length out\<rparr>) sampling sx = (ty, Ok out)"
proof -
  let ?start = "\<lambda>what g. se_bind (se_lift (sampled_envelope what m ids g)) (\<lambda>_.
        se_bind (prefill drv m ids) (\<lambda>logits.
        se_bind (se_lift (generation_validate g (length logits))) (\<lambda>_.
        se_bind (se_lift (sampler_new sampling (length logits))) (\<lambda>sm. se_ok (sm, logits)))))"
  obtain uz sm logits where start: "?start ''sampled streaming generation'' g sx = (uz, Ok (sm, logits))"
    and loop: "streaming_loop fo (decode_one drv m) on_token (gc_eos_token_id g) (gc_max_new_tokens g) sm logits [] c uz = (c', ty, Ok out)"
    using assms unfolding generate_sampled_streaming_def by (auto split: prod.splits sum.splits)
  have len: "length out \<le> gc_max_new_tokens g" and fold: "c' = fold (\<lambda>token c. fst (on_token c token)) out c"
    and run: "sampled_loop fo (decode_one drv m) (gc_eos_token_id g) (length out) sm logits [] uz = (ty, Ok out)"
    using streaming_loop_sampled [OF loop] by auto
  obtain u where env: "sampled_envelope ''sampled streaming generation'' m ids g = Ok u"
    using start by (cases "sampled_envelope ''sampled streaming generation'' m ids g") (simp_all add: se_bind_def se_lift_def)
  note env' = sampled_envelope_less [OF env len, of "''sampled generation''"]
  have "generate_sampled fo drv m ids (g\<lparr>gc_max_new_tokens := length out\<rparr>) sampling sx = (ty, Ok out)"
    using start run unfolding generate_sampled_def env env' se_bind_pure
    by (auto simp: se_bind_def se_lift_def se_ok_def generation_validate_def dest!: eos_in_vocab_Err split: prod.splits sum.splits)
  then show ?thesis using len fold by blast
qed

theorem streaming_is_sampling_witness:
  "\<exists>t. generate_sampled flat_ops bump_driver demo_decoder [1] ((generation_until_eos 3 0)\<lparr>gc_max_new_tokens := 1\<rparr>) (sampling_seeded 7)
     (\<lparr>gpu = 6144, forgotten = []\<rparr>, demo_at 5 7) = ((t, demo_at 2 2), Ok [0])"
proof -
  obtain t where "generate_sampled_streaming flat_ops bump_driver demo_decoder [1] (generation_until_eos 3 0) (sampling_seeded 7)
      (\<lambda>c token. (token # c, Continue)) [] (\<lparr>gpu = 6144, forgotten = []\<rparr>, demo_at 5 7) = ([0], (t, demo_at 2 2), Ok [0])"
    using flat_streaming by blast
  from streaming_is_sampling [OF this] show ?thesis by auto
qed

text \<open>The generator does not repeat.  Two different draws from one seed, among its first \<open>2 ^ 64\<close>, are different
  64-bit values.\<close>

theorem splitmix_draws_distinct:
  assumes "i < j" "j < 2 ^ 64"
  shows "splitmix_draw seed i \<noteq> splitmix_draw seed j"
proof
  assume "splitmix_draw seed i = splitmix_draw seed j"
  then have "of_nat (Suc i) * SPLITMIX_GAMMA = of_nat (Suc j) * SPLITMIX_GAMMA"
    by (simp add: splitmix_draw_eq) (drule splitmix_output_inj, simp)
  then have "(of_nat (Suc i) :: u64) = of_nat (Suc j)"
    by (rule mult_unit_inj [where d = "0xF1DE83E19937733D", rotated]) (simp add: SPLITMIX_GAMMA_def)
  then have "(of_nat i :: u64) = of_nat j" by simp
  then show False using assms by (simp add: of_nat_eq_iff unsigned_of_nat word_of_nat_eq_iff take_bit_nat_eq_self)
qed

theorem splitmix_draws_distinct_witness: "splitmix_draw 7 0 \<noteq> splitmix_draw 7 (2 ^ 64 - 1)"
  using splitmix_draws_distinct [of 0 "2 ^ 64 - 1" 7] by simp

end
