(* ===== verification/SessionClient.thy ===== *)
theory SessionClient
  imports Sampling
begin

text \<open>
  A client of an \<open>InferenceSession\<close>: every public method of \<open>runtime.rs\<close>, \<open>runtime/kv_selection.rs\<close>,
  \<open>sampling.rs\<close> and \<open>streaming.rs\<close> that can change a session is a request, requests come in any order and may
  fail, and the result is that position and cache stay in step.  \<open>position\<close> and \<open>capacity\<close> only read.
\<close>

section \<open>Requests\<close>

datatype 'c session_request =
    Prefill "nat list"
  | Decode nat
  | Generate "nat list" generation_config
  | Generate_sampled "nat list" generation_config sampling_config
  | Generate_streaming "nat list" generation_config sampling_config "'c \<Rightarrow> nat \<Rightarrow> 'c \<times> stream_control" 'c
  | Verify_draft speculative_draft confidence_schedule acceptance_stats
  | Compact_rows "nat list"
  | Reset_session
  | Telemetry

text \<open>What each leaves of device and session, and whether it succeeded.\<close>

fun serve ::
  "status_texts \<Rightarrow> 'd f64_ops \<Rightarrow> 's cuda \<Rightarrow> 's decoder_model \<Rightarrow> 'c session_request \<Rightarrow> 's rt \<times> session \<Rightarrow> ('s rt \<times> session) \<times> bool" where
  "serve texts fo drv m (Prefill ids) sx = (case prefill drv m ids sx of (ty, r) \<Rightarrow> (ty, is_ok r))"
| "serve texts fo drv m (Decode token) sx = (case decode_one drv m token sx of (ty, r) \<Rightarrow> (ty, is_ok r))"
| "serve texts fo drv m (Generate ids g) sx = (case generate drv m ids g sx of (ty, r) \<Rightarrow> (ty, is_ok r))"
| "serve texts fo drv m (Generate_sampled ids g sampling) sx = (case generate_sampled fo drv m ids g sampling sx of (ty, r) \<Rightarrow> (ty, is_ok r))"
| "serve texts fo drv m (Generate_streaming ids g sampling on_token c) sx =
     (case generate_sampled_streaming fo drv m ids g sampling on_token c sx of (_, ty, r) \<Rightarrow> (ty, is_ok r))"
| "serve texts fo drv m (Verify_draft d sch st) sx = (case verify_greedy_draft texts drv m d sch st sx of (ty, _, r) \<Rightarrow> (ty, is_ok r))"
| "serve texts fo drv m (Compact_rows retained) sx = (case compact_kv_cache_rows drv retained sx of (ty, r) \<Rightarrow> (ty, is_ok r))"
| "serve texts fo drv m Reset_session sx = (case se_reset drv sx of (ty, r) \<Rightarrow> (ty, is_ok r))"
| "serve texts fo drv m Telemetry sx = (case kv_cache_telemetry drv sx of (ty, r) \<Rightarrow> (ty, is_ok r))"

text \<open>Requests in order, with a flag: a prefill, generation or reset that succeeds raises it, a compaction or any
  failure lowers it, and the other requests leave it.\<close>

fun settles :: "'c session_request \<Rightarrow> bool \<Rightarrow> bool" where
  "settles (Decode _) settled = settled"
| "settles (Verify_draft _ _ _) settled = settled"
| "settles Telemetry settled = settled"
| "settles (Compact_rows _) settled = False"
| "settles _ settled = True"

fun session_run ::
  "status_texts \<Rightarrow> 'd f64_ops \<Rightarrow> 's cuda \<Rightarrow> 's decoder_model \<Rightarrow> 'c session_request list \<Rightarrow> ('s rt \<times> session) \<times> bool \<Rightarrow>
   ('s rt \<times> session) \<times> bool" where
  "session_run texts fo drv m [] c = c"
| "session_run texts fo drv m (q # qs) (sx, settled) =
     (case serve texts fo drv m q sx of (ty, ok) \<Rightarrow> session_run texts fo drv m qs (ty, ok \<and> settles q settled))"

text \<open>A draft is only made by \<open>SpeculativeDraft::new\<close>.\<close>

fun request_wf :: "'c session_request \<Rightarrow> bool" where
  "request_wf (Verify_draft d _ _) \<longleftrightarrow> draft_new (draft_tokens d) (draft_confidences d) = Ok d"
| "request_wf _ \<longleftrightarrow> True"

section \<open>The number of layers\<close>

lemma layers_model: "layered (mc_num_hidden_layers (md_config m)) x \<Longrightarrow> length (rows x) = mc_num_hidden_layers (md_config m)"
  by (simp add: layered_def)

lemma se_keeps_decode [simp]: "N = mc_num_hidden_layers (md_config m) \<Longrightarrow> se_keeps N (decode_one drv m token)"
  by (rule se_keeps_moves [OF decode_moves])

lemma sampled_loop_keeps:
  assumes "N = mc_num_hidden_layers (md_config m)"
  shows "se_keeps N (sampled_loop fo (decode_one drv m) eos n sm logits generated)"
proof (induction n arbitrary: sm logits generated)
  case (Suc n)
  have step: "se_keeps N (se_bind (decode_one drv m token) (\<lambda>logits.
      if eos = Some token then se_ok (generated @ [token]) else sampled_loop fo (decode_one drv m) eos n sm' logits (generated @ [token])))"
    for token sm'
    by (intro se_keeps_bind se_keeps_decode [OF assms]) (simp add: Suc.IH)
  obtain sm' r where "sample fo sm logits = (sm', r)" by fastforce
  then show ?case using step by (cases r) simp_all
qed simp

lemma streaming_loop_keeps:
  assumes "N = mc_num_hidden_layers (md_config m)"
  shows "layered N x \<Longrightarrow> streaming_loop fo (decode_one drv m) on_token eos n sm logits generated c (s, x) = (c', (t, y), r) \<Longrightarrow> layered N y"
proof (induction n arbitrary: sm logits generated c s x)
  case (Suc n)
  obtain sm' r1 where s: "sample fo sm logits = (sm', r1)" by fastforce
  show ?case
  proof (cases r1)
    case (Inl e)
    then show ?thesis using Suc.prems s by simp
  next
    case (Inr token)
    obtain u z q where d: "decode_one drv m token (s, x) = ((u, z), q)" by (metis surj_pair)
    have z: "layered N z" using se_keepsD [OF se_keeps_decode [OF assms] d Suc.prems(1)] .
    obtain c1 control where cb: "on_token c token = (c1, control)" by fastforce
    show ?thesis using Suc.prems(2) s Inr d z cb Suc.IH [OF z] by (cases q) (auto split: if_split_asm)
  qed
qed simp

lemma rt_kv_new_shape: "rt_kv_new drv es st cfg s = (t, Ok c) \<Longrightarrow> length (rc_lengths c) = kc_layers cfg \<and> rc_config c = cfg"
  by (auto simp: rt_kv_new_def rt_bind_Ok rt_lift_Ok rt_ok_def)

text \<open>A cache after a compaction, with the shape of the one before.\<close>

definition same_shape :: "rt_kv_cache \<Rightarrow> rt_kv_cache \<Rightarrow> bool" where
  "same_shape c c' \<longleftrightarrow> length (rc_lengths c') = length (rc_lengths c) \<and> rc_config c' = rc_config c"

lemma append_layer_shape: "append_layer drv es c l keys vals n s = (t, c', r) \<Longrightarrow> same_shape c c'"
proof -
  assume run: "append_layer drv es c l keys vals n s = (t, c', r)"
  obtain u d q where app: "append_layer_async drv es c l keys vals n s = (u, d, q)" by (metis surj_pair)
  have "c' = d" using run app by (auto simp: append_layer_def split: prod.splits sum.splits)
  then show ?thesis using append_effect_lengths [OF app] by (cases "is_ok q") (simp_all add: same_shape_def)
qed

lemma rebuild_layer_shape: "rebuild_layer drv es c (s, rep) p = ((t, rep'), r) \<Longrightarrow> same_shape rep rep'"
  by (cases p) (auto simp: rebuild_layer_def split: if_split_asm prod.splits sum.splits dest: append_layer_shape, simp_all add: same_shape_def)

lemma rebuild_layers_shape:
  "for_each_st (rebuild_layer drv es c) (s, rep) ps = ((t, rep'), r) \<Longrightarrow> same_shape rep rep'"
proof (induction ps arbitrary: s rep)
  case (Cons p ps)
  obtain u rep1 q where step: "rebuild_layer drv es c (s, rep) p = ((u, rep1), q)" by (metis surj_pair)
  have "same_shape rep rep1" by (rule rebuild_layer_shape [OF step])
  then show ?case using Cons.prems Cons.IH [of u rep1] step by (cases q) (auto simp: same_shape_def)
qed (simp add: same_shape_def)

lemma rebuild_and_swap_shape:
  assumes run: "rebuild_and_swap drv es handles c sels s = (t, c', r)" and len: "length (rc_lengths c) = kc_layers (rc_config c)"
  shows "same_shape c c'"
proof (cases "c' = c")
  case False
  then obtain s1 s2 rep where new: "rt_kv_new drv es (rc_stream c) (rc_config c) s1 = (s2, Ok rep)"
    and loop: "fst (for_each_st (rebuild_layer drv es c) (s2, rep) (enumerate 0 sels)) = (fst (fst (for_each_st (rebuild_layer drv es c) (s2, rep) (enumerate 0 sels))), c')"
    using run by (auto simp: rebuild_and_swap_def split: if_split_asm prod.splits sum.splits)
  then obtain s3 q where "for_each_st (rebuild_layer drv es c) (s2, rep) (enumerate 0 sels) = ((s3, c'), q)" by (metis prod.collapse)
  from rebuild_layers_shape [OF this] rt_kv_new_shape [OF new] len show ?thesis by (simp add: same_shape_def)
qed (simp add: same_shape_def)

lemma compact_shape:
  assumes run: "compact_kv_cache drv es handles c retained s = (t, c', r)" and len: "length (rc_lengths c) = kc_layers (rc_config c)"
  shows "same_shape c c'"
proof -
  have "same_shape c c" "same_shape c (rt_kv_reset c)" by (simp_all add: same_shape_def rt_kv_reset_def)
  then show ?thesis using run rebuild_and_swap_shape [OF _ len]
    by (auto simp: compact_kv_cache_def split: if_split_asm prod.splits sum.splits)
qed

lemma compact_rows_keeps: "se_keeps N (compact_kv_cache_rows drv retained)"
  unfolding se_keeps_def
proof (intro allI impI)
  fix s x t y r assume len: "layered N x" and run: "compact_kv_cache_rows drv retained (s, x) = ((t, y), r)"
  obtain u z q where d: "se_drain drv (s, x) = ((u, z), q)" by (metis surj_pair)
  have z: "layered N z" using drain_effect [OF d] len by (simp add: layered_def)
  show "layered N y"
  proof (cases q)
    case (Inl e)
    then show ?thesis using run d z by (auto simp: compact_kv_cache_rows_def se_bind_def)
  next
    case (Inr a)
    obtain v c p where comp: "compact_kv_cache drv 4 [] (se_cache z) retained u = (v, c, p)" by (metis surj_pair)
    then have "se_cache y = c" using run d Inr by (auto simp: compact_kv_cache_rows_def se_bind_def)
    then show ?thesis using compact_shape [OF comp] z by (simp add: layered_def same_shape_def)
  qed
qed

lemma verify_keeps:
  assumes run: "verify_greedy_draft texts drv m d sch st (s, x) = ((t, y), st', r)" and wf: "draft_wf d"
    and len: "layered (mc_num_hidden_layers (md_config m)) x"
  shows "layered (mc_num_hidden_layers (md_config m)) y"
  using run
proof (cases rule: verify_split)
  case (refused e)
  then show ?thesis using len by (simp add: standing_def layered_def)
next
  case (stepped u z current v next_logits)
  have "length (rows z) = mc_num_hidden_layers (md_config m)" using stepped(1) len by (simp add: standing_def layered_def)
  from speculative_body_post [OF this wf stepped(2)] show ?thesis
    using stepped(1) len by (simp add: body_post_def standing_def layered_def)
next
  case (undone u z current v w e p)
  have "length (rows z) = mc_num_hidden_layers (md_config m)" using undone(1) len by (simp add: standing_def layered_def)
  from speculative_body_post [OF this wf undone(3)] have "layered (mc_num_hidden_layers (md_config m)) w"
    using undone(1) len by (simp add: body_post_def standing_def layered_def)
  then show ?thesis using rewind_effect [OF undone(4)] by (cases "is_ok p") (simp_all add: layered_def)
qed

section \<open>Each request\<close>

lemma request_draft: "draft_new (draft_tokens d) (draft_confidences d) = Ok d \<Longrightarrow> draft_wf d"
  by (simp add: draft_new_Ok)

lemma serve_layered:
  assumes N: "layered (mc_num_hidden_layers (md_config m)) x" and wf: "request_wf q"
    and run: "serve texts fo drv m q (s, x) = ((t, y), ok)"
  shows "layered (mc_num_hidden_layers (md_config m)) y"
proof (cases q)
  case (Prefill ids)
  then show ?thesis using run se_keepsD [OF se_keeps_prefill [OF refl] _ N, of drv ids s t y] by (auto split: prod.splits)
next
  case (Decode token)
  then show ?thesis using run se_keepsD [OF se_keeps_decode [OF refl] _ N, of drv token s t y] by (auto split: prod.splits)
next
  case (Generate ids g)
  then show ?thesis using run se_keepsD [OF se_keeps_generate [OF refl] _ N, of drv ids g s t y] by (auto split: prod.splits)
next
  case (Generate_sampled ids g sampling)
  have "se_keeps (mc_num_hidden_layers (md_config m)) (generate_sampled fo drv m ids g sampling)"
    unfolding generate_sampled_def by (intro se_keeps_bind sampled_loop_keeps) simp_all
  from se_keepsD [OF this _ N, of s t y] show ?thesis using run Generate_sampled by (auto split: prod.splits)
next
  case (Generate_streaming ids g sampling on_token c)
  let ?start = "se_bind (se_lift (sampled_envelope ''sampled streaming generation'' m ids g)) (\<lambda>_.
        se_bind (prefill drv m ids) (\<lambda>logits.
        se_bind (se_lift (generation_validate g (length logits))) (\<lambda>_.
        se_bind (se_lift (sampler_new sampling (length logits))) (\<lambda>sm. se_ok (sm, logits)))))"
  obtain u z q' where st: "?start (s, x) = ((u, z), q')" using run_split [of ?start "(s, x)"] by blast
  have "se_keeps (mc_num_hidden_layers (md_config m)) ?start" by (intro se_keeps_bind) simp_all
  from se_keepsD [OF this st N] have z: "layered (mc_num_hidden_layers (md_config m)) z" .
  show ?thesis using run Generate_streaming st z streaming_loop_keeps [OF refl z]
    by (cases q') (auto simp: generate_sampled_streaming_def split: prod.splits)
next
  case (Verify_draft d sch st)
  then show ?thesis using run verify_keeps [OF _ request_draft N, of texts drv d sch st s t y] wf by (auto split: prod.splits)
next
  case (Compact_rows retained)
  then show ?thesis using run se_keepsD [OF compact_rows_keeps _ N, of drv retained s t y] by (auto split: prod.splits)
next
  case Reset_session
  then show ?thesis using run se_keepsD [OF se_keeps_reset _ N, of drv s t y] by (auto split: prod.splits)
next
  case Telemetry
  then show ?thesis using run telemetry_still [of drv s x t y] N by (auto simp: layered_def split: prod.splits)
qed

text \<open>Alignment after a success.\<close>

lemma prefill_aligned:
  assumes "layered (mc_num_hidden_layers (md_config m)) x" "prefill drv m ids (s, x) = ((t, y), Ok logits)"
  shows "aligned m y"
  using prefill_Ok [OF layers_model [OF assms(1)] assms(2)] validate_prompt_fits [of m ids 0] by (auto simp: aligned_def)

lemma decode_aligned:
  assumes "aligned m x" "decode_one drv m token (s, x) = ((t, y), Ok logits)"
  shows "aligned m y"
proof -
  have "length (rows x) = mc_num_hidden_layers (md_config m)" using assms(1) by (simp add: aligned_def)
  from se_movesD [OF decode_moves [OF refl] assms(2) this] show ?thesis
    using decode_capacity [OF assms(2)] assms(1) by (auto simp: aligned_def advanced_def)
qed

lemma sampled_loop_aligned:
  "aligned m x \<Longrightarrow> sampled_loop fo (decode_one drv m) eos n sm logits before (s, x) = ((t, y), Ok out) \<Longrightarrow> aligned m y"
proof (induction n arbitrary: sm logits before s x)
  case 0
  then show ?case by (simp add: se_ok_def)
next
  case (Suc n)
  obtain sm' r1 where sm: "sample fo sm logits = (sm', r1)" by fastforce
  then obtain token where r1: "r1 = Ok token" using Suc.prems(2) by (cases r1) (simp_all add: se_lift_def)
  obtain uz next_logits where d: "decode_one drv m token (s, x) = (uz, Ok next_logits)"
    and rest: "(if eos = Some token then se_ok (before @ [token])
      else sampled_loop fo (decode_one drv m) eos n sm' next_logits (before @ [token])) uz = ((t, y), Ok out)"
    by (rule se_bind_OkE [OF Suc.prems(2) [unfolded sampled_loop.simps sm r1 prod.case sum.case]])
  obtain u z where uz: "uz = (u, z)" by fastforce
  have z: "aligned m z" using decode_aligned [OF Suc.prems(1)] d uz by simp
  show ?case using rest uz z Suc.IH [OF z] by (auto simp: se_ok_def split: if_split_asm)
qed

lemma serve_aligns:
  assumes N: "layered (mc_num_hidden_layers (md_config m)) x" and wf: "request_wf q"
    and run: "serve texts fo drv m q (s, x) = ((t, y), True)" and before: "settles q settled" "settled \<longrightarrow> aligned m x"
  shows "aligned m y"
proof (cases q)
  case (Prefill ids)
  then show ?thesis using run prefill_aligned [OF N, of drv ids s t y] by (auto simp: is_ok_iff split: prod.splits)
next
  case (Decode token)
  then show ?thesis using run before decode_aligned [of m x drv token s t y] by (auto simp: is_ok_iff split: prod.splits)
next
  case (Generate ids g)
  then show ?thesis using run generate_Ok [OF layers_model [OF N], of drv ids g s t y] by (auto simp: is_ok_iff split: prod.splits)
next
  case (Generate_sampled ids g sampling)
  then obtain out where "generate_sampled fo drv m ids g sampling (s, x) = ((t, y), Ok out)"
    using run by (auto simp: is_ok_iff split: prod.splits)
  then show ?thesis unfolding generate_sampled_def
    by (elim se_bind_OkE) (auto simp: se_lift_def intro: sampled_loop_aligned dest: prefill_aligned [OF N])
next
  case (Generate_streaming ids g sampling on_token c)
  then obtain c' out where "generate_sampled_streaming fo drv m ids g sampling on_token c (s, x) = (c', (t, y), Ok out)"
    using run by (auto simp: is_ok_iff split: prod.splits)
  then obtain u z sm logits where start: "se_bind (se_lift (sampled_envelope ''sampled streaming generation'' m ids g)) (\<lambda>_.
        se_bind (prefill drv m ids) (\<lambda>logits.
        se_bind (se_lift (generation_validate g (length logits))) (\<lambda>_.
        se_bind (se_lift (sampler_new sampling (length logits))) (\<lambda>sm. se_ok (sm, logits))))) (s, x) = ((u, z), Ok (sm, logits))"
    and loop: "streaming_loop fo (decode_one drv m) on_token (gc_eos_token_id g) (gc_max_new_tokens g) sm logits [] c (u, z) = (c', (t, y), Ok out)"
    unfolding generate_sampled_streaming_def by (auto split: prod.splits sum.splits)
  have "aligned m z" using start by (elim se_bind_OkE) (auto simp: se_lift_def se_ok_def dest: prefill_aligned [OF N])
  then show ?thesis using streaming_loop_sampled [OF loop] sampled_loop_aligned by blast
next
  case (Verify_draft d sch st)
  then obtain st' step where v: "verify_greedy_draft texts drv m d sch st (s, x) = ((t, y), st', Ok step)"
    using run by (auto simp: is_ok_iff split: prod.splits)
  then show ?thesis
  proof (cases rule: verify_split)
    case (stepped u z current w next_logits)
    have "length (rows z) = mc_num_hidden_layers (md_config m)" using stepped(1) N by (simp add: standing_def layered_def)
    from speculative_body_post [OF this _ stepped(2)] show ?thesis
      using wf Verify_draft request_draft by (auto simp: body_post_def aligned_def)
  qed simp_all
next
  case Reset_session
  then show ?thesis using run reset_effect [of drv s x t y] N by (auto simp: aligned_def layered_def split: prod.splits)
next
  case Telemetry
  then show ?thesis using run telemetry_still [of drv s x t y] before by (auto simp: aligned_def split: prod.splits)
qed (use before in simp)

lemma session_run_aligned:
  "session_run texts fo drv m qs ((s, x), settled) = ((t, y), settled') \<Longrightarrow> layered (mc_num_hidden_layers (md_config m)) x \<Longrightarrow>
   list_all request_wf qs \<Longrightarrow> (settled \<longrightarrow> aligned m x) \<Longrightarrow> settled' \<Longrightarrow> aligned m y"
proof (induction qs arbitrary: s x settled)
  case (Cons q qs)
  obtain u z ok where q: "serve texts fo drv m q (s, x) = ((u, z), ok)" by (metis surj_pair)
  have wf: "request_wf q" using Cons.prems(3) by simp
  have len: "layered (mc_num_hidden_layers (md_config m)) z" by (rule serve_layered [OF Cons.prems(2) wf q])
  have "ok \<and> settles q settled \<longrightarrow> aligned m z"
    using serve_aligns [OF Cons.prems(2) wf, of texts fo drv s u z settled] q Cons.prems(4) by (cases ok) simp_all
  then show ?case using Cons.IH [of u z "ok \<and> settles q settled"] Cons.prems(1,3,5) q len by simp
qed simp

section \<open>Properties\<close>

text \<open>C3. Position and cache stay in step.  Whatever a client asks of a new session, in any order, greedy, sampled or
  streamed, verifying drafts and compacting rows too, and whatever fails on the way: as long as since the last successful
  prefill, generation or reset (or since the session was created) every request has succeeded and none of them compacted
  the cache, every layer holds exactly one row per executed position, and the position is within the capacity.\<close>

theorem session_stays_aligned:
  assumes "session_new drv m s = (t, Ok x)" and "list_all request_wf requests"
    and "session_run texts fo drv m requests ((t, x), True) = ((u, y), settled)" and "settled"
  shows "rows y = replicate (mc_num_hidden_layers (md_config m)) (se_position y) \<and> se_position y \<le> session_capacity m"
  using session_run_aligned [OF assms(3) session_new_aligned(2) [OF assms(1)] assms(2) _ assms(4)] session_new_aligned(1) [OF assms(1)]
  by (simp add: aligned_def)

theorem session_stays_aligned_witness:
  "\<forall>texts. \<exists>u y. session_run texts flat_ops bump_driver demo_decoder
      [Generate_streaming [1] (generation_until_eos 3 0) (sampling_seeded 7) (\<lambda>c token. (token # c, Continue)) [], Decode 1,
       Verify_draft rejected_draft demo_schedule stats_default]
      ((\<lparr>gpu = 6144, forgotten = []\<rparr>, demo_at 0 0), True) = ((u, y), True) \<and> rows y = [4] \<and> se_position y = 4"
proof
  fix texts
  let ?qs = "[Generate_streaming [1] (generation_until_eos 3 0) (sampling_seeded 7) (\<lambda>c token. (token # c, Continue)) [], Decode 1,
       Verify_draft rejected_draft demo_schedule stats_default]"
  obtain t where s: "generate_sampled_streaming flat_ops bump_driver demo_decoder [1] (generation_until_eos 3 0) (sampling_seeded 7)
     (\<lambda>c token. (token # c, Continue)) [] (\<lparr>gpu = 6144, forgotten = []\<rparr>, demo_at 0 0) = ([0], (t, demo_at 2 2), Ok [0])"
    using flat_streaming by blast
  have d: "decode_one bump_driver demo_decoder 1 (t, demo_at 2 2) = ((t, demo_at 3 3), Ok [0, 0])"
    using demo_decode [of 2 2 1 t] by simp
  have run: "session_run texts flat_ops bump_driver demo_decoder ?qs ((\<lparr>gpu = 6144, forgotten = []\<rparr>, demo_at 0 0), True) =
      ((t, demo_at 4 4), True)"
    by (simp add: s [unfolded One_nat_def] d [unfolded One_nat_def] demo_verify)
  have wf: "list_all request_wf ?qs" using rejected_draft_new by (simp add: rejected_draft_def)
  have "se_position (demo_at 4 4) = 4" by (simp add: demo_at_def)
  then show "\<exists>u y. session_run texts flat_ops bump_driver demo_decoder ?qs ((\<lparr>gpu = 6144, forgotten = []\<rparr>, demo_at 0 0), True) = ((u, y), True) \<and>
      rows y = [4] \<and> se_position y = 4"
    using session_stays_aligned [OF demo_new wf run] run by (simp add: replicate_Suc [symmetric])
qed

end
