(* ===== verification/PackedCodes.thy ===== *)
theory PackedCodes
  imports ModelConfig KvFp4
begin

unbundle bit_operations_syntax

text \<open>
  What the low-bit weight codecs of \<open>nnis-model\<close> share: the operations on \<open>f32\<close> that are exact on bit patterns
  (\<open>abs\<close>, \<open>max\<close>, \<open>min\<close>, the conversions from and to \<open>i8\<close>), the rounding arithmetic as a record of operations, and the
  contract of a payload in which several codes share a byte.  The contract is a locale: a client that packs a
  list of codes reads every one of them back, and a payload is determined by its codes.
\<close>

section \<open>Exact operations on \<open>f32\<close>\<close>

definition f32_abs :: "f32 \<Rightarrow> f32" where
  "f32_abs x = x AND 0x7FFFFFFF"

definition f32_max :: "f32 \<Rightarrow> f32 \<Rightarrow> f32" where
  "f32_max a b = (if f32_is_nan a then b else if f32_is_nan b then a else if f32_lt a b then b else a)"

definition f32_min :: "f32 \<Rightarrow> f32 \<Rightarrow> f32" where
  "f32_min a b = (if f32_is_nan a then b else if f32_is_nan b then a else if f32_lt b a then b else a)"

text \<open>\<open>f32::from(i8)\<close>: every 8-bit integer is an \<open>f32\<close>.\<close>

fun bit_length :: "nat \<Rightarrow> nat" where
  "bit_length n = (if n = 0 then 0 else Suc (bit_length (n div 2)))"

declare bit_length.simps [simp del]

definition f32_of_i8 :: "int \<Rightarrow> f32" where
  "f32_of_i8 i =
     (let m = nat \<bar>i\<bar>; k = bit_length m - 1;
          mag = of_nat ((127 + k) * 2 ^ 23 + (m - 2 ^ k) * 2 ^ (23 - k)) :: f32
      in if m = 0 then 0 else if i < 0 then mag OR 0x80000000 else mag)"

text \<open>\<open>as i8\<close>: towards zero, saturating, and zero for a NaN.\<close>

definition f32_trunc :: "f32 \<Rightarrow> int" where
  "f32_trunc x =
     (let m = int (f32_mant x * 2 ^ f32_shift x div 2 ^ 150) in if f32_sign_negative x then - m else m)"

definition f32_as_i8 :: "f32 \<Rightarrow> int" where
  "f32_as_i8 x = (if f32_is_nan x then 0 else max (- 128) (min 127 (f32_trunc x)))"

text \<open>The rounding operations of \<open>f32\<close> and \<open>f64\<close> the codecs and their kernels use.\<close>

record 'd arith =
  ar_sub :: "f32 \<Rightarrow> f32 \<Rightarrow> f32"
  ar_mul :: "f32 \<Rightarrow> f32 \<Rightarrow> f32"
  ar_div :: "f32 \<Rightarrow> f32 \<Rightarrow> f32"
  ar_round :: "f32 \<Rightarrow> f32"
  ar_fma :: "f32 \<Rightarrow> f32 \<Rightarrow> f32 \<Rightarrow> f32"
  ar_widen :: "f32 \<Rightarrow> 'd"
  ar_zero :: 'd
  ar_add64 :: "'d \<Rightarrow> 'd \<Rightarrow> 'd"
  ar_sub64 :: "'d \<Rightarrow> 'd \<Rightarrow> 'd"
  ar_mul64 :: "'d \<Rightarrow> 'd \<Rightarrow> 'd"
  ar_div64_len :: "'d \<Rightarrow> nat \<Rightarrow> 'd"
  ar_finite64 :: "'d \<Rightarrow> bool"
  ar_negative64 :: "'d \<Rightarrow> bool"

subsection \<open>A clamped value converts to a level\<close>

lemma f32_trunc_level:
  assumes "f32_mag x \<le> 0x40E00000"
  shows "\<bar>f32_trunc x\<bar> \<le> 7"
proof -
  let ?e = "f32_mag x div 8388608" and ?f = "f32_mag x mod 8388608"
  have e: "?e \<le> 129" using assms by simp
  have "f32_mant x * 2 ^ f32_shift x < 8 * 2 ^ 150"
  proof (cases "?e = 129")
    case True
    have "f32_mag x = ?e * 8388608 + ?f" by simp
    then have "?f \<le> 6291456" using assms True by linarith
    then have "f32_mant x \<le> 14680064" "f32_shift x = 129" using True by (simp_all add: f32_mant_def f32_shift_def Let_def)
    then have "f32_mant x * 2 ^ f32_shift x \<le> 14680064 * 2 ^ 129" by simp
    also have "\<dots> < 8 * 2 ^ 150" by simp
    finally show ?thesis .
  next
    case False
    then have "f32_shift x \<le> 128" using e by (simp add: f32_shift_def)
    moreover have "f32_mant x < 2 ^ 24"
      using mod_less_divisor [of 8388608 "f32_mag x"] by (simp add: f32_mant_def Let_def) linarith
    ultimately have "f32_mant x * 2 ^ f32_shift x < 2 ^ 24 * 2 ^ 128"
      by (intro mult_less_le_imp_less power_increasing) simp_all
    then show ?thesis by simp
  qed
  then have "f32_mant x * 2 ^ f32_shift x div 2 ^ 150 < 8" by (intro less_mult_imp_div_less) simp
  then show ?thesis by (simp add: f32_trunc_def Let_def)
qed

lemma clamp_level:
  assumes "\<not> f32_is_nan hi" "\<not> f32_is_nan lo" "f32_key hi = 0x40E00000" "f32_key lo = - 0x40E00000"
  shows "\<bar>f32_as_i8 (f32_min (f32_max x lo) hi)\<bar> \<le> 7"
proof -
  let ?y = "f32_min (f32_max x lo) hi"
  have y: "\<not> f32_is_nan ?y" "- 0x40E00000 \<le> f32_key ?y" "f32_key ?y \<le> 0x40E00000"
    using assms by (auto simp: f32_min_def f32_max_def f32_lt_def)
  then have "f32_mag ?y \<le> 0x40E00000" by (auto simp: f32_key_def split: if_split_asm)
  then show ?thesis using y(1) f32_trunc_level [of ?y] by (simp add: f32_as_i8_def)
qed

section \<open>Codes that share bytes\<close>

text \<open>A store of codes over a byte payload: \<open>put bs i c\<close> is the code's update of lane \<open>i\<close> of a payload in which that lane is
  still clear, \<open>get bs i\<close> its read; \<open>fits\<close> are the codes of the lane's width.\<close>

locale packed_store =
  fixes put :: "u8 list \<Rightarrow> nat \<Rightarrow> 'c \<Rightarrow> u8 list"
    and get :: "u8 list \<Rightarrow> nat \<Rightarrow> 'c"
    and lanes :: nat
    and clear :: 'c
    and fits :: "'c \<Rightarrow> bool"
  assumes lanes_pos: "0 < lanes"
    and put_length: "length (put bs i c) = length bs"
    and get_put: "i div lanes < length bs \<Longrightarrow> fits c \<Longrightarrow> get bs i = clear \<Longrightarrow> get (put bs i c) i = c"
    and get_put_other: "i div lanes < length bs \<Longrightarrow> j div lanes < length bs \<Longrightarrow> fits c \<Longrightarrow> i \<noteq> j \<Longrightarrow> get (put bs i c) j = get bs j"
    and get_clear: "i div lanes < n \<Longrightarrow> get (replicate n 0) i = clear"
    and get_ext: "length bs = length cs \<Longrightarrow> (\<And>i. i div lanes < length bs \<Longrightarrow> get bs i = get cs i) \<Longrightarrow> bs = cs"
begin

definition pack :: "nat \<Rightarrow> 'c list \<Rightarrow> u8 list" where
  "pack n codes = fold (\<lambda>(i, c) bs. put bs i c) (enumerate 0 codes) (replicate n 0)"

lemma pack_snoc: "pack n (codes @ [c]) = put (pack n codes) (length codes) c"
  by (simp add: pack_def enumerate_append_eq)

lemma pack_Nil: "pack n [] = replicate n 0"
  by (simp add: pack_def)

lemma length_pack [simp]: "length (pack n codes) = n"
  by (induction codes rule: rev_induct) (simp_all add: pack_snoc pack_Nil put_length)

lemma get_pack:
  assumes "\<forall>c \<in> set codes. fits c" "length codes \<le> lanes * n" "i div lanes < n"
  shows "get (pack n codes) i = (if i < length codes then codes ! i else clear)"
  using assms(1,2)
proof (induction codes rule: rev_induct)
  case Nil
  then show ?case using get_clear [OF assms(3)] by (simp add: pack_def)
next
  case (snoc c codes)
  have room: "length codes div lanes < n"
    using snoc.prems lanes_pos by (simp add: div_less_iff_less_mult mult.commute)
  show ?case
  proof (cases "i = length codes")
    case True
    then show ?thesis using snoc room by (simp add: pack_snoc get_put)
  next
    case False
    then have "get (pack n (codes @ [c])) i = get (pack n codes) i"
      using snoc.prems room assms(3) by (simp add: pack_snoc get_put_other)
    then show ?thesis using snoc False by (simp add: nth_append)
  qed
qed

text \<open>A payload whose unused lanes are clear is what packing its codes gives.\<close>

lemma pack_get:
  assumes "length bs = n" "m \<le> lanes * n" "\<forall>i < m. fits (get bs i)" "\<And>i. m \<le> i \<Longrightarrow> i div lanes < n \<Longrightarrow> get bs i = clear"
  shows "pack n (map (get bs) [0..<m]) = bs"
proof (rule get_ext)
  show "length (pack n (map (get bs) [0..<m])) = length bs" using assms(1) by simp
  fix i assume "i div lanes < length (pack n (map (get bs) [0..<m]))"
  then have i: "i div lanes < n" by simp
  show "get (pack n (map (get bs) [0..<m])) i = get bs i"
    using get_pack [of "map (get bs) [0..<m]" n i] assms i by auto
qed

end

section \<open>The stores of the codecs\<close>

text \<open>Codes of \<open>w\<close> bits, \<open>L = 8 / w\<close> to a byte, the first in the low bits.\<close>

definition code_put :: "nat \<Rightarrow> nat \<Rightarrow> u8 list \<Rightarrow> nat \<Rightarrow> u8 \<Rightarrow> u8 list" where
  "code_put w L bs i c = bs[i div L := bs ! (i div L) OR push_bit ((i mod L) * w) c]"

definition code_get :: "nat \<Rightarrow> nat \<Rightarrow> u8 list \<Rightarrow> nat \<Rightarrow> u8" where
  "code_get w L bs i = take_bit w (drop_bit ((i mod L) * w) (bs ! (i div L)))"

lemma lane_bits:
  fixes a b n m w :: nat
  assumes "m < w" "n < w" "a \<noteq> b"
  shows "a * w + m \<noteq> b * w + n"
proof
  assume "a * w + m = b * w + n"
  then have "(a * w + m) div w = (b * w + n) div w" by simp
  then show False using assms by simp
qed

lemma bit_code_get: "bit (code_get w L bs i) n \<longleftrightarrow> n < w \<and> bit (bs ! (i div L)) ((i mod L) * w + n)"
  by (simp add: code_get_def bit_take_bit_iff bit_drop_bit_eq)

lemma code_store:
  assumes "w * L = 8" "0 < w"
  shows "packed_store (code_put w L) (code_get w L) L 0 (\<lambda>c. take_bit w c = c)"
proof
  show L: "0 < L" using assms(1) by (cases L) simp_all
  have fits_bit: "n < w" if "take_bit w c = c" "bit c n" for c :: u8 and n
    using that by (metis bit_take_bit_iff)
  have high: "(i mod L) * w + n < 8" if "n < w" for i n
  proof -
    have "(i mod L) * w + n < Suc (i mod L) * w" using that by simp
    also have "\<dots> \<le> L * w" using L by (intro mult_le_mono1) (simp add: Suc_leI)
    finally show ?thesis using assms(1) by (simp add: mult.commute)
  qed
  fix bs cs :: "u8 list" and i j n :: nat and c :: u8
  show "length (code_put w L bs i c) = length bs" by (simp add: code_put_def)
  show "code_get w L (replicate n 0) i = 0" if "i div L < n" using that by (simp add: code_get_def)
  show "code_get w L (code_put w L bs i c) i = c"
    if i: "i div L < length bs" and c: "take_bit w c = c" and clear: "code_get w L bs i = 0"
  proof (rule bit_word_eqI)
    fix k
    have "\<not> bit (code_get w L bs i) k" using clear by simp
    then show "bit (code_get w L (code_put w L bs i c) i) k \<longleftrightarrow> bit c k"
      using i fits_bit [OF c, of k] high [of k i]
      by (auto simp: bit_code_get code_put_def bit_or_iff bit_push_bit_iff)
  qed
  show "code_get w L (code_put w L bs i c) j = code_get w L bs j"
    if ij: "i div L < length bs" "j div L < length bs" "take_bit w c = c" "i \<noteq> j"
  proof (cases "i div L = j div L")
    case True
    then have "i mod L \<noteq> j mod L" using ij(4) by (metis div_mult_mod_eq)
    then have "\<not> bit (push_bit ((i mod L) * w) c) ((j mod L) * w + k)" if "k < w" for k
      using lane_bits [of _ w k "i mod L" "j mod L"] that fits_bit [OF ij(3)]
      by (fastforce simp: bit_push_bit_iff le_iff_add)
    then show ?thesis using True ij(1)
      by (intro bit_word_eqI) (auto simp: bit_code_get code_put_def bit_or_iff)
  next
    case False
    then show ?thesis by (simp add: code_get_def code_put_def)
  qed
  show "bs = cs" if len: "length bs = length cs" and eq: "\<And>i. i div L < length bs \<Longrightarrow> code_get w L bs i = code_get w L cs i"
  proof (rule nth_equalityI [OF len])
    fix k assume k: "k < length bs"
    show "bs ! k = cs ! k"
    proof (rule bit_word_eqI)
      fix n assume n: "n < LENGTH(8)"
      let ?i = "k * L + n div w"
      have "n div w < L" using n assms by (simp add: div_less_iff_less_mult mult.commute)
      then have i: "?i div L = k" "?i mod L = n div w" by simp_all
      have "(n div w) * w + n mod w = n" "n mod w < w" using assms(2) by simp_all
      then show "bit (bs ! k) n \<longleftrightarrow> bit (cs ! k) n"
        using arg_cong [OF eq [of ?i], of "\<lambda>x. bit x (n mod w)"] k i by (simp add: bit_code_get)
    qed
  qed
qed

subsection \<open>Two signed four-bit values per byte\<close>

definition int4_put :: "u8 list \<Rightarrow> nat \<Rightarrow> u8 \<Rightarrow> u8 list" where
  "int4_put packed index nibble =
     (let slot = packed ! (index div 2) in
      packed[index div 2 := (if index mod 2 = 0 then slot OR nibble else slot OR push_bit 4 nibble)])"

definition int4_nibble :: "u8 list \<Rightarrow> nat \<Rightarrow> u8" where
  "int4_nibble packed index =
     (let byte = packed ! (index div 2) in if index mod 2 = 0 then byte AND 0x0F else drop_bit 4 byte AND 0x0F)"

lemma int4_is_code: "int4_put = code_put 4 2" "int4_nibble = code_get 4 2"
proof -
  have mask: "x AND 0x0F = take_bit 4 x" for x :: u8 by (simp add: take_bit_eq_mask mask_eq_exp_minus_1)
  show "int4_put = code_put 4 2"
    by (intro ext) (auto simp: int4_put_def code_put_def Let_def mod2_eq_if)
  show "int4_nibble = code_get 4 2"
    by (intro ext) (auto simp: int4_nibble_def code_get_def Let_def mask mod2_eq_if)
qed

interpretation int4: packed_store int4_put int4_nibble 2 0 "\<lambda>c. take_bit 4 c = c"
  unfolding int4_is_code by (rule code_store) simp_all

subsection \<open>Four ternary values per byte\<close>

definition int2_put :: "u8 list \<Rightarrow> nat \<Rightarrow> u8 \<Rightarrow> u8 list" where
  "int2_put packed index code = packed[index div 4 := packed ! (index div 4) OR push_bit ((index mod 4) * 2) code]"

definition int2_code :: "u8 list \<Rightarrow> nat \<Rightarrow> u8" where
  "int2_code packed index = drop_bit ((index mod 4) * 2) (packed ! (index div 4)) AND 0x03"

lemma int2_is_code: "int2_put = code_put 2 4" "int2_code = code_get 2 4"
proof -
  have mask: "x AND 0x03 = take_bit 2 x" for x :: u8 by (simp add: take_bit_eq_mask mask_eq_exp_minus_1)
  show "int2_put = code_put 2 4" by (intro ext) (simp add: int2_put_def code_put_def)
  show "int2_code = code_get 2 4" by (intro ext) (simp add: int2_code_def code_get_def mask)
qed

interpretation int2: packed_store int2_put int2_code 4 0 "\<lambda>c. take_bit 2 c = c"
  unfolding int2_is_code by (rule code_store) simp_all

subsection \<open>An occupancy bit per value\<close>

definition bitmap_put :: "u8 list \<Rightarrow> nat \<Rightarrow> bool \<Rightarrow> u8 list" where
  "bitmap_put bitmap index occupied =
     (if occupied then bitmap[index div 8 := bitmap ! (index div 8) OR push_bit (index mod 8) 1] else bitmap)"

definition bitmap_get :: "u8 list \<Rightarrow> nat \<Rightarrow> bool" where
  "bitmap_get bitmap index \<longleftrightarrow> bitmap ! (index div 8) AND push_bit (index mod 8) 1 \<noteq> 0"

lemma bitmap_is_code:
  "bitmap_put bs i c = code_put 1 8 bs i (of_bool c)" "code_get 1 8 bs i = of_bool (bitmap_get bs i)"
proof -
  show "bitmap_put bs i c = code_put 1 8 bs i (of_bool c)" by (simp add: bitmap_put_def code_put_def)
  have get: "bitmap_get bs i \<longleftrightarrow> bit (bs ! (i div 8)) (i mod 8)"
    by (simp add: bitmap_get_def bit_iff_and_push_bit_not_eq_0)
  show "code_get 1 8 bs i = of_bool (bitmap_get bs i)"
    unfolding get by (rule bit_word_eqI) (auto simp: bit_code_get bit_1_iff)
qed

interpretation one_bit: packed_store "code_put 1 8" "code_get 1 8" 8 0 "\<lambda>c. take_bit 1 c = c"
  by (rule code_store) simp_all

lemma fits_one_bit: "take_bit 1 (of_bool c :: u8) = of_bool c"
  by (cases c) (simp_all add: take_bit_Suc)

interpretation bitmap: packed_store bitmap_put bitmap_get 8 False "\<lambda>_. True"
proof
  fix bs cs :: "u8 list" and i j n :: nat and c :: bool
  have same: "bitmap_get a k = b \<longleftrightarrow> code_get 1 8 a k = of_bool b" for a k b
    unfolding bitmap_is_code by simp
  show "0 < (8 :: nat)" by simp
  show "length (bitmap_put bs i c) = length bs" unfolding bitmap_is_code by (rule one_bit.put_length)
  show "bitmap_get (bitmap_put bs i c) i = c" if "i div 8 < length bs" "bitmap_get bs i = False"
    using one_bit.get_put [OF that(1) fits_one_bit [of c]] that(2) unfolding same bitmap_is_code(1) by simp
  show "bitmap_get (bitmap_put bs i c) j = bitmap_get bs j" if "i div 8 < length bs" "j div 8 < length bs" "i \<noteq> j"
    using one_bit.get_put_other [OF that(1,2) fits_one_bit [of c] that(3)] unfolding bitmap_is_code(1) same unfolding bitmap_is_code(2) by simp
  show "bitmap_get (replicate n 0) i = False" if "i div 8 < n"
    using one_bit.get_clear [OF that] unfolding same by simp
  show "bs = cs" if "length bs = length cs" "\<And>i. i div 8 < length bs \<Longrightarrow> bitmap_get bs i = bitmap_get cs i"
    by (rule one_bit.get_ext [OF that(1)]) (simp only: bitmap_is_code that(2))
qed

end
