(* ===== verification/LowBit.thy ===== *)
theory LowBit
  imports PackedCodes KvCacheRt
begin

unbundle bit_operations_syntax

text \<open>
  The reference codecs for four-bit and ternary weights, \<open>int4_reference.rs\<close> (the quantizer, its inverse, the
  canonical bytes and the projection plan) and \<open>int2_reference.rs\<close>.  Both quantize a whole tensor with one scale and
  pack the codes in the order of the values.  The rounding arithmetic is the record \<open>arith\<close>, so what is shown holds for
  whatever the operations return.
\<close>

section \<open>What both codecs do\<close>

text \<open>The two tensor types have the same fields.\<close>

record 'd quantized_tensor =
  qt_element_count :: nat
  qt_scale :: f32
  qt_packed :: "u8 list"
  qt_max_abs_error :: f32
  qt_mse :: 'd

type_synonym 'd int2_quantized_tensor = "'d quantized_tensor"

text \<open>The loop that takes the largest magnitude of finite values.\<close>

definition max_abs_of :: "string \<Rightarrow> f32 list \<Rightarrow> nnis_error + f32" where
  "max_abs_of family values =
     for_each_res (\<lambda>max_abs (index, val).
         if \<not> f32_is_finite val then
           Err (invalid_input (lit family @ lit '' reference source value '' @ dec index @ lit '' is not finite''))
         else Ok (f32_max max_abs (f32_abs val)))
       f32_zero (enumerate 0 values)"

text \<open>The error of one value is accounted in the maximum and, in double precision, in the sum of squares.\<close>

definition account_error :: "'d arith \<Rightarrow> f32 \<Rightarrow> f32 \<Rightarrow> f32 \<times> 'd \<Rightarrow> f32 \<times> 'd" where
  "account_error ar val reconstructed = (\<lambda>(max_abs_error, squared_error_sum).
     let error = f32_abs (ar_sub ar val reconstructed);
         error64 = ar_sub64 ar (ar_widen ar val) (ar_widen ar reconstructed)
     in (f32_max max_abs_error error, ar_add64 ar squared_error_sum (ar_mul64 ar error64 error64)))"

definition is_zero :: "f32 \<Rightarrow> bool" where
  "is_zero x \<longleftrightarrow> f32_key x = 0"

definition bad_evidence :: "'d arith \<Rightarrow> f32 \<Rightarrow> 'd \<Rightarrow> bool" where
  "bad_evidence ar max_abs_error mse \<longleftrightarrow>
     \<not> f32_is_finite max_abs_error \<or> \<not> ar_finite64 ar mse \<or> f32_lt max_abs_error f32_zero \<or> ar_negative64 ar mse"

text \<open>The checks before the codes are read: the family's name, the number of codes per byte.\<close>

definition validate_payload :: "'d arith \<Rightarrow> string \<Rightarrow> nat \<Rightarrow> 'd quantized_tensor \<Rightarrow> nnis_error + unit" where
  "validate_payload ar family lanes q =
     (if qt_element_count q = 0 then Err (invalid_input (lit family @ lit '' reference tensor has zero logical elements''))
      else if \<not> finite_positive (qt_scale q) then
        Err (invalid_input (lit family @ lit '' reference tensor scale must be finite and positive''))
      else if bad_evidence ar (qt_max_abs_error q) (qt_mse q) then
        Err (invalid_input (lit family @ lit '' reference reconstruction evidence is invalid''))
      else
        and_then (ok_or (invalid_input (lit family @ lit '' payload size overflows usize''))
            (checked_add (qt_element_count q) (lanes - 1))) (\<lambda>n.
          if length (qt_packed q) \<noteq> n div lanes then
            Err (invalid_input (lit family @ lit '' packed payload has '' @ dec (length (qt_packed q)) @
              lit '' bytes; expected '' @ dec (n div lanes)))
          else Ok ()))"

definition canonical_bytes :: "string \<Rightarrow> 'd quantized_tensor \<Rightarrow> u8 list" where
  "canonical_bytes magic q =
     as_bytes (lit magic) @ le_bytes 8 (qt_element_count q) @ le_bytes 4 (unat (qt_scale q)) @ qt_packed q"

section \<open>INT4\<close>

definition NNIS_INT4_REFERENCE_STORAGE_VERSION :: nat where "NNIS_INT4_REFERENCE_STORAGE_VERSION = 1"
definition NNIS_INT4_REFERENCE_SERIALIZED_HEADER_BYTES :: nat where "NNIS_INT4_REFERENCE_SERIALIZED_HEADER_BYTES = 16"
definition NNIS_INT4_REFERENCE_QUANT_MIN :: int where "NNIS_INT4_REFERENCE_QUANT_MIN = - 7"
definition NNIS_INT4_REFERENCE_QUANT_MAX :: int where "NNIS_INT4_REFERENCE_QUANT_MAX = 7"

definition int4_level :: "'d arith \<Rightarrow> f32 \<Rightarrow> f32 \<Rightarrow> int" where
  "int4_level ar scale val =
     f32_as_i8 (f32_min (f32_max (ar_round ar (ar_div ar val scale)) (f32_of_i8 NNIS_INT4_REFERENCE_QUANT_MIN))
       (f32_of_i8 NNIS_INT4_REFERENCE_QUANT_MAX))"

definition int4_encode :: "int \<Rightarrow> u8" where
  "int4_encode quantized = (word_of_int quantized :: u8) AND 0x0F"

definition int4_decode :: "u8 \<Rightarrow> int" where
  "int4_decode nibble = (if nibble AND 0x08 \<noteq> 0 then uint nibble - 16 else uint nibble)"

definition int4_step :: "'d arith \<Rightarrow> f32 \<Rightarrow> u8 list \<times> f32 \<times> 'd \<Rightarrow> nat \<times> f32 \<Rightarrow> u8 list \<times> f32 \<times> 'd" where
  "int4_step ar scale = (\<lambda>(packed, errors) (index, val).
     let quantized = int4_level ar scale val
     in (int4_put packed index (int4_encode quantized), account_error ar val (ar_mul ar (f32_of_i8 quantized) scale) errors))"

definition int4_validate :: "'d arith \<Rightarrow> 'd quantized_tensor \<Rightarrow> nnis_error + unit" where
  "int4_validate ar q =
     and_then (validate_payload ar ''INT4'' 2 q) (\<lambda>_.
       check_all (\<lambda>index. if int4_nibble (qt_packed q) index = 0x08 then
           Err (invalid_lit ''INT4 reference payload contains reserved -8 code'') else Ok ())
         [0..<qt_element_count q])"

text \<open>The tensor after the loop, over a payload of \<open>n\<close> bytes.\<close>

definition int4_tensor :: "'d arith \<Rightarrow> f32 \<Rightarrow> nat \<Rightarrow> f32 list \<Rightarrow> 'd quantized_tensor" where
  "int4_tensor ar scale n values =
     (case foldl (int4_step ar scale) (replicate n 0, f32_zero, ar_zero ar) (enumerate 0 values) of
        (packed, max_abs_error, squared_error_sum) \<Rightarrow>
          \<lparr>qt_element_count = length values, qt_scale = scale, qt_packed = packed, qt_max_abs_error = max_abs_error,
           qt_mse = ar_div64_len ar squared_error_sum (length values)\<rparr>)"

definition int4_quantize :: "'d arith \<Rightarrow> f32 list \<Rightarrow> nnis_error + 'd quantized_tensor" where
  "int4_quantize ar values =
     (if values = [] then Err (invalid_lit ''INT4 reference quantization requires at least one value'')
      else
        and_then (max_abs_of ''INT4'' values) (\<lambda>max_abs.
          let scale = (if is_zero max_abs then f32_one else ar_div ar max_abs (f32_of_i8 NNIS_INT4_REFERENCE_QUANT_MAX)) in
          if \<not> finite_positive scale then Err (invalid_lit ''INT4 reference scale is not a finite positive F32 value'')
          else
            and_then (ok_or (invalid_lit ''INT4 element count overflows usize'') (checked_add (length values) 1)) (\<lambda>n.
              let q = int4_tensor ar scale (n div 2) values in and_then (int4_validate ar q) (\<lambda>_. Ok q))))"

definition int4_dequantize :: "'d arith \<Rightarrow> 'd quantized_tensor \<Rightarrow> nnis_error + f32 list" where
  "int4_dequantize ar q =
     and_then (int4_validate ar q) (\<lambda>_.
       for_each_res (\<lambda>values index.
           let signed = int4_decode (int4_nibble (qt_packed q) index) in
           if signed = - 8 then Err (invalid_lit ''INT4 reference payload contains reserved -8 code'')
           else Ok (values @ [ar_mul ar (f32_of_i8 signed) (qt_scale q)]))
         [] [0..<qt_element_count q])"

definition int4_canonical_serialized_bytes :: "'d arith \<Rightarrow> 'd quantized_tensor \<Rightarrow> nnis_error + u8 list" where
  "int4_canonical_serialized_bytes ar q =
     and_then (int4_validate ar q) (\<lambda>_.
     and_then (ok_or (invalid_lit ''INT4 serialized size overflows usize'')
         (checked_add NNIS_INT4_REFERENCE_SERIALIZED_HEADER_BYTES (length (qt_packed q)))) (\<lambda>_.
       Ok (canonical_bytes ''NI41'' q)))"

section \<open>INT2\<close>

definition NNIS_INT2_REFERENCE_STORAGE_VERSION :: nat where "NNIS_INT2_REFERENCE_STORAGE_VERSION = 1"
definition NNIS_INT2_REFERENCE_SERIALIZED_HEADER_BYTES :: nat where "NNIS_INT2_REFERENCE_SERIALIZED_HEADER_BYTES = 16"
definition INT2_CODE_ZERO :: u8 where "INT2_CODE_ZERO = 0"
definition INT2_CODE_POSITIVE :: u8 where "INT2_CODE_POSITIVE = 1"
definition INT2_CODE_NEGATIVE :: u8 where "INT2_CODE_NEGATIVE = 2"
definition INT2_CODE_RESERVED :: u8 where "INT2_CODE_RESERVED = 3"

definition F32_HALF :: f32 where "F32_HALF = 0x3F000000"

definition int2_encode :: "f32 \<Rightarrow> f32 \<Rightarrow> u8 \<times> int" where
  "int2_encode threshold val =
     (if f32_le threshold val then (INT2_CODE_POSITIVE, 1)
      else if f32_le val (f32_neg threshold) then (INT2_CODE_NEGATIVE, - 1)
      else (INT2_CODE_ZERO, 0))"

definition int2_decode :: "u8 \<Rightarrow> int option" where
  "int2_decode code =
     (if code = INT2_CODE_ZERO then Some 0 else if code = INT2_CODE_POSITIVE then Some 1
      else if code = INT2_CODE_NEGATIVE then Some (- 1) else None)"

definition int2_step :: "'d arith \<Rightarrow> f32 \<Rightarrow> f32 \<Rightarrow> u8 list \<times> f32 \<times> 'd \<Rightarrow> nat \<times> f32 \<Rightarrow> u8 list \<times> f32 \<times> 'd" where
  "int2_step ar scale threshold = (\<lambda>(packed, errors) (index, val).
     case int2_encode threshold val of (code, level) \<Rightarrow>
       (int2_put packed index code, account_error ar val (ar_mul ar (f32_of_i8 level) scale) errors))"

definition int2_validate :: "'d arith \<Rightarrow> 'd int2_quantized_tensor \<Rightarrow> nnis_error + unit" where
  "int2_validate ar q =
     and_then (validate_payload ar ''INT2'' 4 q) (\<lambda>_.
       check_all (\<lambda>index. if int2_code (qt_packed q) index = INT2_CODE_RESERVED then
           Err (invalid_lit ''INT2 reference payload contains reserved code 3'') else Ok ())
         [0..<qt_element_count q])"

text \<open>The tensor after the loop, over a payload of \<open>n\<close> bytes.\<close>

definition int2_tensor :: "'d arith \<Rightarrow> f32 \<Rightarrow> nat \<Rightarrow> f32 list \<Rightarrow> 'd int2_quantized_tensor" where
  "int2_tensor ar scale n values =
     (case foldl (int2_step ar scale (ar_mul ar scale F32_HALF)) (replicate n 0, f32_zero, ar_zero ar) (enumerate 0 values) of
        (packed, max_abs_error, squared_error_sum) \<Rightarrow>
          \<lparr>qt_element_count = length values, qt_scale = scale, qt_packed = packed, qt_max_abs_error = max_abs_error,
           qt_mse = ar_div64_len ar squared_error_sum (length values)\<rparr>)"

definition int2_quantize :: "'d arith \<Rightarrow> f32 list \<Rightarrow> nnis_error + 'd int2_quantized_tensor" where
  "int2_quantize ar values =
     (if values = [] then Err (invalid_lit ''INT2 reference quantization requires at least one value'')
      else
        and_then (max_abs_of ''INT2'' values) (\<lambda>max_abs.
          let scale = (if is_zero max_abs then f32_one else max_abs) in
          if \<not> finite_positive scale then Err (invalid_lit ''INT2 reference scale is not a finite positive F32 value'')
          else
            and_then (ok_or (invalid_lit ''INT2 element count overflows usize'') (checked_add (length values) 3)) (\<lambda>n.
              let q = int2_tensor ar scale (n div 4) values in and_then (int2_validate ar q) (\<lambda>_. Ok q))))"

definition int2_dequantize :: "'d arith \<Rightarrow> 'd int2_quantized_tensor \<Rightarrow> nnis_error + f32 list" where
  "int2_dequantize ar q =
     and_then (int2_validate ar q) (\<lambda>_.
       for_each_res (\<lambda>values index.
           case int2_decode (int2_code (qt_packed q) index) of
             None \<Rightarrow> Err (invalid_lit ''INT2 reference payload contains reserved code 3'')
           | Some level \<Rightarrow> Ok (values @ [ar_mul ar (f32_of_i8 level) (qt_scale q)]))
         [] [0..<qt_element_count q])"

definition int2_canonical_serialized_bytes :: "'d arith \<Rightarrow> 'd int2_quantized_tensor \<Rightarrow> nnis_error + u8 list" where
  "int2_canonical_serialized_bytes ar q =
     and_then (int2_validate ar q) (\<lambda>_.
     and_then (ok_or (invalid_lit ''INT2 serialized size overflows usize'')
         (checked_add NNIS_INT2_REFERENCE_SERIALIZED_HEADER_BYTES (length (qt_packed q)))) (\<lambda>_.
       Ok (canonical_bytes ''NI21'' q)))"

section \<open>Projection plans\<close>

text \<open>The INT4 and the INT2 plan have the same fields and checks; they differ in their versions, identities and names.\<close>

record low_bit_plan =
  pp_schema_version :: nat
  pp_storage_version :: nat
  pp_logical_weight :: rstr
  pp_rows :: nat
  pp_cols :: nat
  pp_dequantization :: rstr
  pp_accumulation :: rstr
  pp_dense_weight_materialization :: bool

definition low_bit_plan_validate :: "string \<Rightarrow> nat \<Rightarrow> nat \<Rightarrow> string \<Rightarrow> string \<Rightarrow> low_bit_plan \<Rightarrow> nnis_error + unit" where
  "low_bit_plan_validate family schema storage dequantization accumulation p =
     (if pp_schema_version p \<noteq> schema then
        Err (unsupported (lit family @ lit '' projection plan schema '' @ dec (pp_schema_version p) @
          lit ''; supported version is '' @ dec schema))
      else if pp_storage_version p \<noteq> storage then
        Err (unsupported (lit family @ lit '' projection storage version '' @ dec (pp_storage_version p) @
          lit ''; supported version is '' @ dec storage))
      else if pp_logical_weight p = [] \<or> trim (pp_logical_weight p) \<noteq> pp_logical_weight p then
        Err (invalid_input (lit family @ lit '' projection logical weight must be non-empty and trimmed''))
      else if pp_rows p = 0 \<or> pp_cols p = 0 then
        Err (invalid_input (lit family @ lit '' projection matrix dimensions must be non-zero''))
      else if pp_dequantization p \<noteq> lit dequantization then
        Err (unsupported (lit family @ lit '' projection dequantization contract is unsupported''))
      else if pp_accumulation p \<noteq> lit accumulation then
        Err (unsupported (lit family @ lit '' projection accumulation contract is unsupported''))
      else if pp_dense_weight_materialization p then
        Err (unsupported (lit family @ lit '' reference projection forbids dense weight materialization''))
      else Ok ())"

definition int4_plan_validate :: "low_bit_plan \<Rightarrow> nnis_error + unit" where
  "int4_plan_validate =
     low_bit_plan_validate ''INT4'' 1 NNIS_INT4_REFERENCE_STORAGE_VERSION ''signed-int4-to-f32-register-v1'' ''increasing-k-f32-fma-v1''"

definition int4_plan_for_matrix :: "rstr \<Rightarrow> nat \<Rightarrow> nat \<Rightarrow> nnis_error + low_bit_plan" where
  "int4_plan_for_matrix name rows cols =
     (let p = \<lparr>pp_schema_version = 1, pp_storage_version = NNIS_INT4_REFERENCE_STORAGE_VERSION, pp_logical_weight = name,
               pp_rows = rows, pp_cols = cols, pp_dequantization = lit ''signed-int4-to-f32-register-v1'',
               pp_accumulation = lit ''increasing-k-f32-fma-v1'', pp_dense_weight_materialization = False\<rparr>
      in and_then (int4_plan_validate p) (\<lambda>_. Ok p))"

definition int2_plan_validate :: "low_bit_plan \<Rightarrow> nnis_error + unit" where
  "int2_plan_validate =
     low_bit_plan_validate ''INT2'' 1 NNIS_INT2_REFERENCE_STORAGE_VERSION ''ternary-int2-to-f32-register-v1'' ''increasing-k-f32-fma-v1''"

definition int2_plan_for_matrix :: "rstr \<Rightarrow> nat \<Rightarrow> nat \<Rightarrow> nnis_error + low_bit_plan" where
  "int2_plan_for_matrix name rows cols =
     (let p = \<lparr>pp_schema_version = 1, pp_storage_version = NNIS_INT2_REFERENCE_STORAGE_VERSION, pp_logical_weight = name,
               pp_rows = rows, pp_cols = cols, pp_dequantization = lit ''ternary-int2-to-f32-register-v1'',
               pp_accumulation = lit ''increasing-k-f32-fma-v1'', pp_dense_weight_materialization = False\<rparr>
      in and_then (int2_plan_validate p) (\<lambda>_. Ok p))"

section \<open>Lemmas\<close>

lemma for_each_res_collect:
  assumes "\<And>acc x. x \<in> set xs \<Longrightarrow> step acc x = Ok (acc @ [g x])"
  shows "for_each_res step acc xs = Ok (acc @ map g xs)"
  using assms by (induction xs arbitrary: acc) simp_all

lemma validate_payload_Ok:
  assumes "validate_payload ar family lanes q = Ok u"
  shows "0 < qt_element_count q" "finite_positive (qt_scale q)" "qt_element_count q + (lanes - 1) < u64_lim"
    "length (qt_packed q) = (qt_element_count q + (lanes - 1)) div lanes"
proof -
  have *: "0 < qt_element_count q \<and> finite_positive (qt_scale q) \<and> (\<exists>n. checked_add (qt_element_count q) (lanes - 1) = Some n \<and>
      length (qt_packed q) = n div lanes)"
    using assms unfolding validate_payload_def
    by (cases "checked_add (qt_element_count q) (lanes - 1)") (simp_all split: if_split_asm)
  then show "0 < qt_element_count q" "finite_positive (qt_scale q)" "qt_element_count q + (lanes - 1) < u64_lim"
    "length (qt_packed q) = (qt_element_count q + (lanes - 1)) div lanes" by auto
qed

lemma i8_keys: "f32_key (f32_of_i8 7) = 0x40E00000" "f32_key (f32_of_i8 (- 7)) = - 0x40E00000"
    "\<not> f32_is_nan (f32_of_i8 7)" "\<not> f32_is_nan (f32_of_i8 (- 7))"
proof -
  have len: "bit_length 7 = 3" by (simp add: bit_length.simps)
  have val: "f32_of_i8 7 = 0x40E00000" "f32_of_i8 (- 7) = 0xC0E00000" by (simp_all add: f32_of_i8_def len Let_def)
  show "f32_key (f32_of_i8 7) = 0x40E00000" "f32_key (f32_of_i8 (- 7)) = - 0x40E00000"
    "\<not> f32_is_nan (f32_of_i8 7)" "\<not> f32_is_nan (f32_of_i8 (- 7))"
    by (simp_all add: val f32_key_def f32_mag_def f32_sign_negative_def f32_is_nan_def bit_iff_odd)
qed

lemma int4_level_range: "\<bar>int4_level ar scale val\<bar> \<le> 7"
  unfolding int4_level_def NNIS_INT4_REFERENCE_QUANT_MIN_def NNIS_INT4_REFERENCE_QUANT_MAX_def
  by (rule clamp_level) (simp_all add: i8_keys)

lemma int4_code:
  assumes "\<bar>i\<bar> \<le> 7"
  shows "int4_decode (int4_encode i) = i" "int4_encode i \<noteq> 0x08" "take_bit 4 (int4_encode i) = int4_encode i"
proof -
  have "i \<in> {- 7, - 6, - 5, - 4, - 3, - 2, - 1, 0, 1, 2, 3, 4, 5, 6, 7}" using assms unfolding insert_iff empty_iff by presburger
  then show "int4_decode (int4_encode i) = i" "int4_encode i \<noteq> 0x08" "take_bit 4 (int4_encode i) = int4_encode i"
    by (auto simp: int4_encode_def int4_decode_def take_bit_eq_mask mask_eq_exp_minus_1)
qed

lemma int2_code_range:
  "case int2_encode threshold val of (code, level) \<Rightarrow>
     int2_decode code = Some level \<and> code \<noteq> INT2_CODE_RESERVED \<and> take_bit 2 code = code"
  by (auto simp: int2_encode_def int2_decode_def INT2_CODE_ZERO_def INT2_CODE_POSITIVE_def INT2_CODE_NEGATIVE_def
      INT2_CODE_RESERVED_def take_bit_eq_mask mask_eq_exp_minus_1)

text \<open>The payload the loop builds is the packing of the codes.\<close>

lemma enumerate_map: "enumerate n (map f xs) = map (\<lambda>(i, x). (i, f x)) (enumerate n xs)"
  by (induction xs arbitrary: n) simp_all

lemma fst_foldl:
  assumes "\<And>bs e i v. fst (step (bs, e) (i, v)) = put bs i (enc v)"
  shows "fst (foldl step (bs, e) ivs) = fold (\<lambda>(i, c) bs. put bs i c) (map (\<lambda>(i, v). (i, enc v)) ivs) bs"
proof (induction ivs arbitrary: bs e)
  case (Cons iv ivs)
  obtain i v where iv: "iv = (i, v)" by fastforce
  obtain e' where "step (bs, e) (i, v) = (put bs i (enc v), e')" using assms [of bs e i v] by (metis prod.collapse)
  then show ?case using Cons by (simp add: iv)
qed simp

lemma int4_packed: "fst (foldl (int4_step ar scale) (replicate n 0, e) (enumerate 0 values)) =
    int4.pack n (map (\<lambda>v. int4_encode (int4_level ar scale v)) values)"
proof -
  have "fst (int4_step ar scale (bs, e) (i, v)) = int4_put bs i (int4_encode (int4_level ar scale v))" for bs e i v
    by (simp add: int4_step_def Let_def)
  then show ?thesis by (simp add: fst_foldl [where put = int4_put] int4.pack_def enumerate_map)
qed

lemma int2_packed: "fst (foldl (int2_step ar scale threshold) (replicate n 0, e) (enumerate 0 values)) =
    int2.pack n (map (\<lambda>v. fst (int2_encode threshold v)) values)"
proof -
  have "fst (int2_step ar scale threshold (bs, e) (i, v)) = int2_put bs i (fst (int2_encode threshold v))" for bs e i v
    by (simp add: int2_step_def split: prod.split)
  then show ?thesis by (simp add: fst_foldl [where put = int2_put] int2.pack_def enumerate_map)
qed

text \<open>What an accepted quantization holds.\<close>

lemma int4_tensor_fields:
  "qt_element_count (int4_tensor ar scale n values) = length values" "qt_scale (int4_tensor ar scale n values) = scale"
  "qt_packed (int4_tensor ar scale n values) = int4.pack n (map (\<lambda>v. int4_encode (int4_level ar scale v)) values)"
  by (simp_all add: int4_tensor_def int4_packed [symmetric, where e = "(f32_zero, ar_zero ar)"] split: prod.split)

lemma int4_quantize_Ok:
  assumes "int4_quantize ar values = Ok q"
  shows "int4_validate ar q = Ok ()" "qt_element_count q = length values" "finite_positive (qt_scale q)"
    "qt_packed q = int4.pack ((length values + 1) div 2) (map (\<lambda>v. int4_encode (int4_level ar (qt_scale q) v)) values)"
proof -
  have "\<exists>scale. finite_positive scale \<and> int4_validate ar q = Ok () \<and> q = int4_tensor ar scale ((length values + 1) div 2) values"
    using assms unfolding int4_quantize_def and_then_Ok_iff Let_def if_distrib [of "\<lambda>r. r = Ok q"]
    by (simp split: if_split_asm) blast+
  then obtain scale where pos: "finite_positive scale" and valid: "int4_validate ar q = Ok ()"
    and q: "q = int4_tensor ar scale ((length values + 1) div 2) values" by blast
  show "int4_validate ar q = Ok ()" by (rule valid)
  show "qt_element_count q = length values" "finite_positive (qt_scale q)"
    "qt_packed q = int4.pack ((length values + 1) div 2) (map (\<lambda>v. int4_encode (int4_level ar (qt_scale q) v)) values)"
    using pos by (simp_all add: q int4_tensor_fields)
qed

lemma int2_tensor_fields:
  "qt_element_count (int2_tensor ar scale n values) = length values" "qt_scale (int2_tensor ar scale n values) = scale"
  "qt_packed (int2_tensor ar scale n values) = int2.pack n (map (\<lambda>v. fst (int2_encode (ar_mul ar scale F32_HALF) v)) values)"
  by (simp_all add: int2_tensor_def int2_packed [symmetric, where ar = ar and scale = scale and threshold = "ar_mul ar scale F32_HALF" and e = "(f32_zero, ar_zero ar)"] split: prod.split)

lemma int2_quantize_Ok:
  assumes "int2_quantize ar values = Ok q"
  shows "int2_validate ar q = Ok ()" "qt_element_count q = length values" "finite_positive (qt_scale q)"
    "qt_packed q = int2.pack ((length values + 3) div 4) (map (\<lambda>v. fst (int2_encode (ar_mul ar (qt_scale q) F32_HALF) v)) values)"
proof -
  have "\<exists>scale. finite_positive scale \<and> int2_validate ar q = Ok () \<and> q = int2_tensor ar scale ((length values + 3) div 4) values"
    using assms unfolding int2_quantize_def and_then_Ok_iff Let_def if_distrib [of "\<lambda>r. r = Ok q"]
    by (simp split: if_split_asm) blast+
  then obtain scale where pos: "finite_positive scale" and valid: "int2_validate ar q = Ok ()"
    and q: "q = int2_tensor ar scale ((length values + 3) div 4) values" by blast
  show "int2_validate ar q = Ok ()" by (rule valid)
  show "qt_element_count q = length values" "finite_positive (qt_scale q)"
    "qt_packed q = int2.pack ((length values + 3) div 4) (map (\<lambda>v. fst (int2_encode (ar_mul ar (qt_scale q) F32_HALF) v)) values)"
    using pos by (simp_all add: q int2_tensor_fields)
qed

lemma int4_nibbles:
  assumes "int4_quantize ar values = Ok q" "i < length values"
  shows "int4_nibble (qt_packed q) i = int4_encode (int4_level ar (qt_scale q) (values ! i))"
  using int4.get_pack [of "map (\<lambda>v. int4_encode (int4_level ar (qt_scale q) v)) values" "(length values + 1) div 2" i] assms(2)
  by (simp add: int4_quantize_Ok(4) [OF assms(1)] int4_code int4_level_range div_less_iff_less_mult)

lemma int2_codes:
  assumes "int2_quantize ar values = Ok q" "i < length values"
  shows "int2_code (qt_packed q) i = fst (int2_encode (ar_mul ar (qt_scale q) F32_HALF) (values ! i))"
proof -
  have "take_bit 2 (fst (int2_encode t v)) = fst (int2_encode t v)" for t v
    using int2_code_range [of t v] by (simp split: prod.splits)
  then show ?thesis
    using int2.get_pack [of "map (\<lambda>v. fst (int2_encode (ar_mul ar (qt_scale q) F32_HALF) v)) values" "(length values + 3) div 4" i] assms(2)
    by (simp add: int2_quantize_Ok(4) [OF assms(1)] div_less_iff_less_mult)
qed

text \<open>Reading back.\<close>

lemma int4_dequantize_eq:
  assumes "int4_validate ar q = Ok u"
  shows "int4_dequantize ar q = Ok (map (\<lambda>i. ar_mul ar (f32_of_i8 (int4_decode (int4_nibble (qt_packed q) i))) (qt_scale q))
      [0..<qt_element_count q])"
proof -
  have read: "int4_decode (int4_nibble (qt_packed q) i) \<noteq> - 8" if "i < qt_element_count q" for i
  proof -
    let ?b = "int4_nibble (qt_packed q) i"
    have ok: "?b \<noteq> 0x08" using assms that by (auto simp: int4_validate_def check_all_Ok_iff split: if_split_asm)
    have small: "take_bit 4 ?b = ?b" by (simp add: int4_is_code code_get_def)
    show ?thesis
    proof
      assume m8: "int4_decode ?b = - 8"
      then have "uint ?b = 8" by (auto simp: int4_decode_def split: if_split_asm) (use uint_ge_0 [of ?b] in linarith)
      then have "?b = 0x08" by (simp add: word_uint_eq_iff)
      then show False using ok by simp
    qed
  qed
  then show ?thesis
    using assms by (simp add: int4_dequantize_def Let_def)
      (subst for_each_res_collect [where g = "\<lambda>i. ar_mul ar (f32_of_i8 (int4_decode (int4_nibble (qt_packed q) i))) (qt_scale q)"]; simp)
qed

lemma int2_levels:
  assumes "int2_validate ar q = Ok u" "i < qt_element_count q"
  shows "\<exists>level. int2_decode (int2_code (qt_packed q) i) = Some level"
proof -
  let ?c = "int2_code (qt_packed q) i"
  have "?c \<noteq> 3" using assms by (auto simp: int2_validate_def check_all_Ok_iff INT2_CODE_RESERVED_def split: if_split_asm)
  moreover have "uint ?c < 4"
  proof -
    have "?c = take_bit 2 ?c" by (simp add: int2_is_code code_get_def)
    then have "uint ?c = take_bit 2 (uint ?c)" by (metis unsigned_take_bit_eq)
    then show ?thesis using take_bit_int_less_exp [of 2 "uint ?c"] by simp
  qed
  moreover have "0 \<le> x \<Longrightarrow> x < 4 \<Longrightarrow> x \<noteq> 3 \<Longrightarrow> x = 0 \<or> x = 1 \<or> x = 2" for x :: int by presburger
  ultimately have "?c \<in> {0, 1, 2}" by (simp add: word_uint_eq_iff)
  then show ?thesis
    by (auto simp: int2_decode_def INT2_CODE_ZERO_def INT2_CODE_POSITIVE_def INT2_CODE_NEGATIVE_def)
qed

lemma int2_dequantize_eq:
  assumes "int2_validate ar q = Ok u"
  shows "int2_dequantize ar q = Ok (map (\<lambda>i. ar_mul ar (f32_of_i8 (the (int2_decode (int2_code (qt_packed q) i)))) (qt_scale q))
      [0..<qt_element_count q])"
proof -
  have step: "(case int2_decode (int2_code (qt_packed q) i) of
      None \<Rightarrow> Err (invalid_lit ''INT2 reference payload contains reserved code 3'')
    | Some level \<Rightarrow> Ok (acc @ [ar_mul ar (f32_of_i8 level) (qt_scale q)])) =
    Ok (acc @ [ar_mul ar (f32_of_i8 (the (int2_decode (int2_code (qt_packed q) i)))) (qt_scale q)])" if "i \<in> set [0..<qt_element_count q]" for acc i
    using int2_levels [OF assms, of i] that by auto
  show ?thesis using assms
    by (simp add: int2_dequantize_def) (rule for_each_res_collect [where acc = "[]", unfolded append_Nil], erule step)
qed

text \<open>The canonical bytes determine what they were written from.\<close>

lemma canonical_bytes_inj:
  assumes "canonical_bytes magic p = canonical_bytes magic q" "qt_element_count p < u64_lim" "qt_element_count q < u64_lim"
  shows "qt_element_count p = qt_element_count q \<and> qt_scale p = qt_scale q \<and> qt_packed p = qt_packed q"
proof -
  have eq: "le_bytes 8 (qt_element_count p) = le_bytes 8 (qt_element_count q)" "le_bytes 4 (unat (qt_scale p)) = le_bytes 4 (unat (qt_scale q))"
    "qt_packed p = qt_packed q"
    using assms(1) by (simp_all add: canonical_bytes_def append_split)
  have lim: "(256 :: nat) ^ 8 = u64_lim" "(256 :: nat) ^ 4 = 2 ^ 32" by (simp_all add: u64_lim_def)
  have "unat x < 2 ^ LENGTH(32)" for x :: f32 by (rule unsigned_less)
  then have "unat (qt_scale p) < 256 ^ 4" "unat (qt_scale q) < 256 ^ 4" unfolding lim by simp_all
  then show ?thesis using eq assms(2,3) le_bytes_inj [of _ 8] le_bytes_inj [of _ 4] lim(1) by (metis word_unat_eq_iff)
qed

section \<open>A concrete arithmetic\<close>

text \<open>Operations that keep their first operand, enough to run the codecs on the values 1 and -1.\<close>

definition first_arith :: "nat arith" where
  "first_arith = \<lparr>ar_sub = (\<lambda>_ _. 0), ar_mul = (\<lambda>x _. x), ar_div = (\<lambda>x _. x), ar_round = (\<lambda>x. x), ar_fma = (\<lambda>_ w _. w),
     ar_widen = (\<lambda>_. 0), ar_zero = 0, ar_add64 = (+), ar_sub64 = (-), ar_mul64 = (*), ar_div64_len = (\<lambda>x _. x),
     ar_finite64 = (\<lambda>_. True), ar_negative64 = (\<lambda>_. False)\<rparr>"

lemma first_arith_sel [simp]:
  "ar_sub first_arith x y = 0" "ar_mul first_arith x y = x" "ar_div first_arith x y = x" "ar_round first_arith x = x"
  "ar_fma first_arith x w v = w" "ar_widen first_arith x = 0" "ar_zero first_arith = 0" "ar_add64 first_arith a b = a + b"
  "ar_sub64 first_arith a b = a - b" "ar_mul64 first_arith a b = a * b" "ar_div64_len first_arith a n = a"
  "ar_finite64 first_arith a" "\<not> ar_negative64 first_arith a"
  by (simp_all add: first_arith_def)

definition minus_one :: f32 where "minus_one = 0xBF800000"

lemma unit_facts:
  "f32_abs f32_one = f32_one" "f32_abs minus_one = f32_one" "f32_abs 0 = 0" "f32_max f32_zero f32_one = f32_one" "f32_max f32_one f32_one = f32_one"
  "f32_max f32_zero 0 = f32_zero" "f32_is_finite f32_one" "f32_is_finite minus_one" "finite_positive f32_one" "\<not> is_zero f32_one"
  "f32_as_i8 f32_one = 1" "f32_as_i8 minus_one = - 1" "\<not> bad_evidence first_arith f32_zero 0"
  "f32_min (f32_max f32_one (f32_of_i8 (- 7))) (f32_of_i8 7) = f32_one" "f32_min (f32_max minus_one (f32_of_i8 (- 7))) (f32_of_i8 7) = minus_one"
proof -
  have mag: "f32_mag f32_one = 0x3F800000" "f32_mag minus_one = 0x3F800000" "f32_mag 0 = 0" "f32_mag f32_zero = 0"
    by (simp_all add: f32_mag_def f32_one_def minus_one_def f32_zero_def)
  have neg: "\<not> f32_sign_negative f32_one" "f32_sign_negative minus_one" "\<not> f32_sign_negative 0" "\<not> f32_sign_negative f32_zero"
    by (simp_all add: f32_sign_negative_def f32_one_def minus_one_def f32_zero_def bit_iff_odd)
  have key: "f32_key f32_one = 0x3F800000" "f32_key minus_one = - 0x3F800000" "f32_key 0 = 0"
    by (simp_all add: f32_key_def mag neg)
  have nan: "\<not> f32_is_nan f32_one" "\<not> f32_is_nan minus_one" "\<not> f32_is_nan 0" "\<not> f32_is_nan f32_zero" by (simp_all add: f32_is_nan_def mag)
  show abs: "f32_abs f32_one = f32_one" "f32_abs minus_one = f32_one" "f32_abs 0 = 0"
    by (simp_all add: f32_abs_def f32_one_def minus_one_def)
  show "f32_max f32_zero f32_one = f32_one" "f32_max f32_one f32_one = f32_one" "f32_max f32_zero 0 = f32_zero"
    by (simp_all add: f32_max_def f32_lt_def key nan)
  show "f32_is_finite f32_one" "f32_is_finite minus_one" "finite_positive f32_one" "\<not> is_zero f32_one" "\<not> bad_evidence first_arith f32_zero 0"
    by (simp_all add: f32_is_finite_def mag finite_positive_def f32_le_def key is_zero_def bad_evidence_def f32_lt_def)
  show "f32_as_i8 f32_one = 1" "f32_as_i8 minus_one = - 1"
    by (simp_all add: f32_as_i8_def nan f32_trunc_def f32_mant_def f32_shift_def mag neg Let_def)
  show "f32_min (f32_max f32_one (f32_of_i8 (- 7))) (f32_of_i8 7) = f32_one" "f32_min (f32_max minus_one (f32_of_i8 (- 7))) (f32_of_i8 7) = minus_one"
    by (simp_all add: f32_min_def f32_max_def f32_lt_def nan key i8_keys)
qed

lemma unit_levels: "int4_level first_arith scale f32_one = 1" "int4_level first_arith scale minus_one = - 1"
  by (simp_all add: int4_level_def NNIS_INT4_REFERENCE_QUANT_MIN_def NNIS_INT4_REFERENCE_QUANT_MAX_def unit_facts)

lemma sample_bytes:
  "int4_put (int4_put [0] 0 (int4_encode 1)) 1 (int4_encode (- 1)) = [0xF1]"
  "int4_nibble [0xF1] 0 \<noteq> 0x08" "int4_nibble [0xF1] 1 \<noteq> 0x08"
  "int2_put (int2_put [0] 0 INT2_CODE_POSITIVE) 1 INT2_CODE_NEGATIVE = [0x09]"
  "int2_code [0x09] 0 \<noteq> INT2_CODE_RESERVED" "int2_code [0x09] 1 \<noteq> INT2_CODE_RESERVED"
  by code_simp+

lemma check_two: "check_all f [0..<2] = Ok ()" if "f 0 = Ok ()" "f 1 = Ok ()"
proof -
  have "set [0..<2] = {0, 1 :: nat}" by auto
  then show ?thesis unfolding check_all_Ok_iff using that by simp
qed

definition int4_sample :: "nat quantized_tensor" where
  "int4_sample = \<lparr>qt_element_count = 2, qt_scale = f32_one, qt_packed = [0xF1], qt_max_abs_error = f32_zero, qt_mse = 0\<rparr>"

lemma int4_sample_valid: "int4_validate first_arith int4_sample = Ok ()"
proof -
  have "validate_payload first_arith ''INT4'' 2 int4_sample = Ok ()"
    by (simp add: validate_payload_def int4_sample_def unit_facts u64_lim_def checked_add_def)
  moreover have "check_all (\<lambda>i. if int4_nibble [0xF1] i = 0x08 then Err e else Ok ()) [0..<2] = Ok ()" for e :: nnis_error
    by (rule check_two) (simp_all only: sample_bytes if_False)
  ultimately show ?thesis by (simp add: int4_validate_def int4_sample_def)
qed

lemma int4_sample_quantized: "int4_quantize first_arith [f32_one, minus_one] = Ok int4_sample"
proof -
  have mx: "max_abs_of ''INT4'' [f32_one, minus_one] = Ok f32_one" by (simp add: max_abs_of_def unit_facts)
  have "int4_tensor first_arith f32_one 1 [f32_one, minus_one] = int4_sample"
    by (simp add: int4_tensor_def int4_step_def Let_def unit_levels account_error_def unit_facts int4_sample_def sample_bytes [simplified])
  then show ?thesis
    using int4_sample_valid by (simp add: int4_quantize_def mx unit_facts Let_def checked_add_def u64_lim_def)
qed

definition int2_sample :: "nat int2_quantized_tensor" where
  "int2_sample = \<lparr>qt_element_count = 2, qt_scale = f32_one, qt_packed = [0x09], qt_max_abs_error = f32_zero, qt_mse = 0\<rparr>"

lemma int2_sample_valid: "int2_validate first_arith int2_sample = Ok ()"
proof -
  have "validate_payload first_arith ''INT2'' 4 int2_sample = Ok ()"
    by (simp add: validate_payload_def int2_sample_def unit_facts u64_lim_def checked_add_def)
  moreover have "check_all (\<lambda>i. if int2_code [0x09] i = INT2_CODE_RESERVED then Err e else Ok ()) [0..<2] = Ok ()" for e :: nnis_error
    by (rule check_two) (simp_all only: sample_bytes if_False)
  ultimately show ?thesis by (simp add: int2_validate_def int2_sample_def)
qed

lemma int2_sample_quantized: "int2_quantize first_arith [f32_one, minus_one] = Ok int2_sample"
proof -
  have mx: "max_abs_of ''INT2'' [f32_one, minus_one] = Ok f32_one" by (simp add: max_abs_of_def unit_facts)
  have codes: "int2_encode f32_one f32_one = (INT2_CODE_POSITIVE, 1)" "int2_encode f32_one minus_one = (INT2_CODE_NEGATIVE, - 1)"
    by (simp_all add: int2_encode_def f32_le_def f32_key_def f32_neg_def f32_one_def minus_one_def f32_mag_def f32_sign_negative_def
        f32_is_nan_def bit_iff_odd)
  have "int2_tensor first_arith f32_one 1 [f32_one, minus_one] = int2_sample"
    by (simp add: int2_tensor_def int2_step_def Let_def codes account_error_def unit_facts int2_sample_def sample_bytes [simplified])
  then show ?thesis
    using int2_sample_valid by (simp add: int2_quantize_def mx unit_facts Let_def checked_add_def u64_lim_def)
qed

lemma int4_read_back:
  assumes "int4_quantize ar values = Ok q"
  shows "int4_dequantize ar q = Ok (map (\<lambda>v. ar_mul ar (f32_of_i8 (int4_level ar (qt_scale q) v)) (qt_scale q)) values)"
proof -
  have "map (\<lambda>i. ar_mul ar (f32_of_i8 (int4_decode (int4_nibble (qt_packed q) i))) (qt_scale q)) [0..<qt_element_count q] =
      map (\<lambda>v. ar_mul ar (f32_of_i8 (int4_level ar (qt_scale q) v)) (qt_scale q)) values"
    by (rule nth_equalityI) (simp_all add: int4_quantize_Ok(2) [OF assms] int4_nibbles [OF assms] int4_code int4_level_range)
  then show ?thesis using int4_dequantize_eq [OF int4_quantize_Ok(1) [OF assms]] by simp
qed

section \<open>Properties\<close>

text \<open>C17. What four-bit quantization keeps.  Whatever the arithmetic, a successful quantization can be read back, and what
  is read back is, value by value, the rounded and clamped quotient times the scale: the codes are packed and
  unpacked exactly, with levels between -7 and 7, in half a byte per value.\<close>

theorem int4_roundtrip:
  assumes "int4_quantize ar values = Ok q"
  shows "int4_dequantize ar q = Ok (map (\<lambda>v. ar_mul ar (f32_of_i8 (int4_level ar (qt_scale q) v)) (qt_scale q)) values) \<and>
    (\<forall>v \<in> set values. \<bar>int4_level ar (qt_scale q) v\<bar> \<le> 7) \<and> length (qt_packed q) = (length values + 1) div 2"
  using int4_read_back [OF assms] int4_quantize_Ok(4) [OF assms] by (simp add: int4_level_range)

theorem int4_roundtrip_witness:
  "int4_dequantize first_arith int4_sample = Ok [f32_of_i8 1, f32_of_i8 (- 1)] \<and> length (qt_packed int4_sample) = 1"
  using int4_roundtrip [OF int4_sample_quantized] by (simp add: unit_levels)

text \<open>What ternary quantization keeps.  Reading back a quantized tensor gives the scale times +1 for a value at or above
  half the scale, times -1 for one at or below minus that, times 0 otherwise, in two bits per value.\<close>

theorem int2_roundtrip:
  assumes "int2_quantize ar values = Ok q"
  shows "int2_dequantize ar q = Ok (map (\<lambda>v.
        let half = ar_mul ar (qt_scale q) F32_HALF in
        ar_mul ar (f32_of_i8 (if f32_le half v then 1 else if f32_le v (f32_neg half) then - 1 else 0)) (qt_scale q)) values) \<and>
    length (qt_packed q) = (length values + 3) div 4"
proof -
  have level: "the (int2_decode (fst (int2_encode t v))) = (if f32_le t v then 1 else if f32_le v (f32_neg t) then - 1 else 0)" for t v
    by (simp add: int2_encode_def int2_decode_def INT2_CODE_ZERO_def INT2_CODE_POSITIVE_def INT2_CODE_NEGATIVE_def)
  have "map (\<lambda>i. ar_mul ar (f32_of_i8 (the (int2_decode (int2_code (qt_packed q) i)))) (qt_scale q)) [0..<qt_element_count q] =
      map (\<lambda>v. let half = ar_mul ar (qt_scale q) F32_HALF in
        ar_mul ar (f32_of_i8 (if f32_le half v then 1 else if f32_le v (f32_neg half) then - 1 else 0)) (qt_scale q)) values"
    by (rule nth_equalityI) (simp_all add: int2_quantize_Ok(2) [OF assms] int2_codes [OF assms] level Let_def)
  then show ?thesis
    using int2_dequantize_eq [OF int2_quantize_Ok(1) [OF assms]] int2_quantize_Ok(4) [OF assms] by simp
qed

theorem int2_roundtrip_witness: "\<exists>w. int2_dequantize first_arith int2_sample = Ok w \<and> length w = 2 \<and> length (qt_packed int2_sample) = 1"
  using int2_roundtrip [OF int2_sample_quantized] by simp

end
