(* ===== verification/JitKernel.thy ===== *)
theory JitKernel
  imports DeviceMem ErrorText
begin

unbundle bit_operations_syntax

text \<open>
  \<open>nnis-jit/src/module.rs\<close> and \<open>launch.rs\<close>: modules and kernels, their attributes and occupancy, launch shapes and the
  checks before a launch.  The driver's module and launch functions are the record \<open>jit_api\<close>, an argument like the
  record \<open>cuda\<close>; how a launched grid runs is the last section, an execution of all its threads in any order.
\<close>

section \<open>Modules and kernels\<close>

record kernel_attributes =
  ka_max_threads_per_block :: nat
  ka_static_shared_memory_bytes :: nat
  ka_constant_memory_bytes :: nat
  ka_local_memory_bytes_per_thread :: nat
  ka_registers_per_thread :: nat
  ka_ptx_version :: "(nat \<times> nat) option"
  ka_binary_version :: "(nat \<times> nat) option"
  ka_cache_mode_ca :: bool
  ka_max_dynamic_shared_memory_bytes :: nat

record occupancy_recommendation =
  oc_block_size :: nat
  oc_minimum_grid_size :: nat
  oc_active_blocks_per_multiprocessor :: nat

record jit_module =
  jm_handle :: nat
  jm_context :: nat

record kernel =
  kn_handle :: nat
  kn_name :: rstr
  kn_module :: jit_module
  kn_attributes :: "kernel_attributes option"

record dim3 =
  dim_x :: nat
  dim_y :: nat
  dim_z :: nat

record launch_config =
  lc_grid :: dim3
  lc_block :: dim3
  lc_dynamic_shared_memory_bytes :: nat

record 's jit_api =
  ja_module_load :: "u8 list \<Rightarrow> 's \<Rightarrow> 's \<times> (int \<times> nat)"
  ja_module_get_function :: "nat \<Rightarrow> rstr \<Rightarrow> 's \<Rightarrow> 's \<times> (int \<times> nat)"
  ja_module_unload :: "nat \<Rightarrow> 's \<Rightarrow> 's \<times> int"
  ja_func_get_attribute :: "int \<Rightarrow> nat \<Rightarrow> 's \<Rightarrow> 's \<times> (int \<times> int)"
  ja_occupancy_active_blocks :: "nat \<Rightarrow> nat \<Rightarrow> nat \<Rightarrow> 's \<Rightarrow> 's \<times> (int \<times> int)"
  ja_occupancy_block_size :: "nat \<Rightarrow> nat \<Rightarrow> nat \<Rightarrow> 's \<Rightarrow> 's \<times> (int \<times> int \<times> int)"
  ja_launch_kernel :: "nat \<Rightarrow> launch_config \<Rightarrow> nat \<Rightarrow> u8 list list \<Rightarrow> 's \<Rightarrow> 's \<times> int"

definition with_context :: "(rstr \<times> rstr) list \<Rightarrow> ('s, 'a) rt_comp \<Rightarrow> ('s, 'a) rt_comp" where
  "with_context kvs m s = (case m s of (t, r) \<Rightarrow> (t, map_err (\<lambda>e. e\<lparr>ne_context := ne_context e @ kvs\<rparr>) r))"

definition drv_out :: "string \<Rightarrow> ('s \<Rightarrow> 's \<times> (int \<times> 'a)) \<Rightarrow> ('s, 'a) rt_comp" where
  "drv_out op f s = (case f (gpu s) of (g, rc, v) \<Rightarrow> (s\<lparr>gpu := g\<rparr>, if rc \<noteq> 0 then Err (driver_error op rc) else Ok v))"

definition in_context :: "'s cuda \<Rightarrow> nat \<Rightarrow> ('s, 'a) rt_comp \<Rightarrow> ('s, 'a) rt_comp" where
  "in_context drv ctx m = rt_bind (set_current drv ctx) (\<lambda>_. rt_bind (rt_lift (driver_api drv)) (\<lambda>_. m))"

definition load_image :: "'s cuda \<Rightarrow> 's jit_api \<Rightarrow> nat \<Rightarrow> u8 list \<Rightarrow> string \<Rightarrow> ('s, jit_module) rt_comp" where
  "load_image drv ja ctx img kind =
     in_context drv ctx
       (rt_bind (with_context [(lit ''image_kind'', lit kind), (lit ''image_bytes'', dec (length img))]
            (drv_out ''cuModuleLoadDataEx'' (ja_module_load ja img))) (\<lambda>handle.
          rt_ok \<lparr>jm_handle = handle, jm_context = ctx\<rparr>))"

definition load_from_ptx :: "'s cuda \<Rightarrow> 's jit_api \<Rightarrow> nat \<Rightarrow> u8 list \<Rightarrow> ('s, jit_module) rt_comp" where
  "load_from_ptx drv ja ctx ptx =
     (if ptx = [] then rt_lift (Err (invalid_lit ''PTX image is empty''))
      else load_image drv ja ctx (if last ptx = 0 then ptx else ptx @ [0]) ''PTX'')"

definition load_from_cubin :: "'s cuda \<Rightarrow> 's jit_api \<Rightarrow> nat \<Rightarrow> u8 list \<Rightarrow> ('s, jit_module) rt_comp" where
  "load_from_cubin drv ja ctx cubin =
     (if cubin = [] then rt_lift (Err (invalid_lit ''CUBIN image is empty'')) else load_image drv ja ctx cubin ''CUBIN'')"

definition get_function :: "'s cuda \<Rightarrow> 's jit_api \<Rightarrow> jit_module \<Rightarrow> rstr \<Rightarrow> ('s, kernel) rt_comp" where
  "get_function drv ja m name =
     (if 0 \<in> set name then rt_lift (Err (invalid_lit ''kernel name contains an interior NUL''))
      else
        in_context drv (jm_context m)
          (rt_bind (with_context [(lit ''kernel'', name)] (drv_out ''cuModuleGetFunction'' (ja_module_get_function ja (jm_handle m) name)))
             (\<lambda>handle. rt_ok \<lparr>kn_handle = handle, kn_name = name, kn_module = m, kn_attributes = None\<rparr>)))"

definition module_drop :: "'s cuda \<Rightarrow> 's jit_api \<Rightarrow> jit_module \<Rightarrow> 's rt \<Rightarrow> 's rt" where
  "module_drop drv ja m s =
     (case driver_api drv of
        Inl _ \<Rightarrow> s
      | Inr _ \<Rightarrow> fst (drv_call ''cuModuleUnload'' (ja_module_unload ja (jm_handle m)) (fst (set_current drv (jm_context m) s))))"

abbreviation kn_context :: "kernel \<Rightarrow> nat" where
  "kn_context k \<equiv> jm_context (kn_module k)"

section \<open>Attributes and occupancy\<close>

definition nonnegative_driver_output :: "string \<Rightarrow> int \<Rightarrow> nnis_error + nat" where
  "nonnegative_driver_output operation val =
     (if val < 0 then Err (unsupported (lit operation @ lit '' returned an invalid negative value '' @ dec_int val)) else Ok (nat val))"

definition positive_driver_output :: "string \<Rightarrow> int \<Rightarrow> nnis_error + nat" where
  "positive_driver_output operation val =
     and_then (nonnegative_driver_output operation val) (\<lambda>n.
       if n = 0 then Err (unsupported (lit operation @ lit '' returned zero'')) else Ok n)"

definition encoded_version :: "nat \<Rightarrow> (nat \<times> nat) option" where
  "encoded_version val = (if val \<noteq> 0 then Some (val div 10, val mod 10) else None)"

definition kernel_attribute :: "'s cuda \<Rightarrow> 's jit_api \<Rightarrow> kernel \<Rightarrow> int \<Rightarrow> ('s, int) rt_comp" where
  "kernel_attribute drv ja k attribute =
     in_context drv (kn_context k)
       (with_context [(lit ''kernel'', kn_name k), (lit ''attribute'', dec_int attribute)]
          (drv_out ''cuFuncGetAttribute'' (ja_func_get_attribute ja attribute (kn_handle k))))"

definition nonnegative_attribute :: "'s cuda \<Rightarrow> 's jit_api \<Rightarrow> kernel \<Rightarrow> int \<Rightarrow> ('s, nat) rt_comp" where
  "nonnegative_attribute drv ja k attribute =
     rt_bind (kernel_attribute drv ja k attribute) (\<lambda>v. rt_lift (nonnegative_driver_output ''cuFuncGetAttribute'' v))"

text \<open>\<open>attributes(&self)\<close>: the kernel after the call, with the attributes in its cell, and the attributes.  The cell caches
  immutable values: a method that fails after the query gives no kernel back, and the next call asks again.\<close>

definition attributes :: "'s cuda \<Rightarrow> 's jit_api \<Rightarrow> kernel \<Rightarrow> ('s, kernel \<times> kernel_attributes) rt_comp" where
  "attributes drv ja k =
     (case kn_attributes k of
        Some a \<Rightarrow> rt_ok (k, a)
      | None \<Rightarrow>
          rt_bind (nonnegative_attribute drv ja k 0) (\<lambda>max_threads.
          rt_bind (nonnegative_attribute drv ja k 1) (\<lambda>static_shared.
          rt_bind (nonnegative_attribute drv ja k 2) (\<lambda>const_bytes.
          rt_bind (nonnegative_attribute drv ja k 3) (\<lambda>local_bytes.
          rt_bind (nonnegative_attribute drv ja k 4) (\<lambda>registers.
          rt_bind (nonnegative_attribute drv ja k 5) (\<lambda>ptx.
          rt_bind (nonnegative_attribute drv ja k 6) (\<lambda>binary.
          rt_bind (kernel_attribute drv ja k 7) (\<lambda>cache_mode.
          rt_bind (nonnegative_attribute drv ja k 8) (\<lambda>max_dynamic.
            let a = \<lparr>ka_max_threads_per_block = max_threads, ka_static_shared_memory_bytes = static_shared,
                     ka_constant_memory_bytes = const_bytes, ka_local_memory_bytes_per_thread = local_bytes,
                     ka_registers_per_thread = registers, ka_ptx_version = encoded_version ptx,
                     ka_binary_version = encoded_version binary, ka_cache_mode_ca = (cache_mode \<noteq> 0),
                     ka_max_dynamic_shared_memory_bytes = max_dynamic\<rparr>
            in rt_ok (k\<lparr>kn_attributes := Some a\<rparr>, a)))))))))))"

definition validate_block_size :: "nat \<Rightarrow> nat \<Rightarrow> nnis_error + nat" where
  "validate_block_size block_size maximum =
     (if block_size = 0 then Err (invalid_lit ''occupancy block size is zero'')
      else if block_size > maximum then
        Err (invalid_input (lit ''occupancy block size '' @ dec block_size @ lit '' exceeds kernel limit '' @ dec maximum))
      else if block_size \<ge> 2 ^ 31 then Err (invalid_lit ''occupancy block size exceeds i32::MAX'')
      else Ok block_size)"

definition validate_dynamic_shared_memory :: "nat \<Rightarrow> kernel_attributes \<Rightarrow> nnis_error + unit" where
  "validate_dynamic_shared_memory bytes a =
     (if bytes > ka_max_dynamic_shared_memory_bytes a then
        Err (invalid_input (lit ''dynamic shared memory is '' @ dec bytes @ lit '' bytes; kernel limit is '' @
          dec (ka_max_dynamic_shared_memory_bytes a)))
      else Ok ())"

definition max_active_blocks :: "'s cuda \<Rightarrow> 's jit_api \<Rightarrow> kernel \<Rightarrow> nat \<Rightarrow> nat \<Rightarrow> ('s, kernel \<times> nat) rt_comp" where
  "max_active_blocks drv ja k block_size bytes =
     rt_bind (attributes drv ja k) (\<lambda>(k, a).
     rt_bind (rt_lift (validate_block_size block_size (ka_max_threads_per_block a))) (\<lambda>block_size.
     rt_bind (rt_lift (validate_dynamic_shared_memory bytes a)) (\<lambda>_.
       in_context drv (kn_context k)
         (rt_bind (with_context [(lit ''kernel'', kn_name k), (lit ''block_size'', dec block_size), (lit ''dynamic_shared_memory_bytes'', dec bytes)]
              (drv_out ''cuOccupancyMaxActiveBlocksPerMultiprocessor'' (ja_occupancy_active_blocks ja (kn_handle k) block_size bytes))) (\<lambda>v.
            rt_bind (rt_lift (nonnegative_driver_output ''cuOccupancyMaxActiveBlocksPerMultiprocessor'' v)) (\<lambda>n. rt_ok (k, n)))))))"

definition recommend_occupancy ::
  "'s cuda \<Rightarrow> 's jit_api \<Rightarrow> kernel \<Rightarrow> nat \<Rightarrow> nat option \<Rightarrow> ('s, kernel \<times> occupancy_recommendation) rt_comp" where
  "recommend_occupancy drv ja k bytes limit =
     rt_bind (attributes drv ja k) (\<lambda>(k, a).
     rt_bind (rt_lift (validate_dynamic_shared_memory bytes a)) (\<lambda>_.
     rt_bind (rt_lift (case limit of None \<Rightarrow> Ok 0 | Some l \<Rightarrow> validate_block_size l (ka_max_threads_per_block a))) (\<lambda>limit.
     rt_bind (in_context drv (kn_context k)
         (with_context [(lit ''kernel'', kn_name k), (lit ''block_size_limit'', dec limit), (lit ''dynamic_shared_memory_bytes'', dec bytes)]
            (drv_out ''cuOccupancyMaxPotentialBlockSize'' (ja_occupancy_block_size ja (kn_handle k) bytes limit)))) (\<lambda>(grid, block).
     rt_bind (rt_lift (positive_driver_output ''cuOccupancyMaxPotentialBlockSize(minGridSize)'' grid)) (\<lambda>grid.
     rt_bind (rt_lift (positive_driver_output ''cuOccupancyMaxPotentialBlockSize(blockSize)'' block)) (\<lambda>block.
     rt_bind (max_active_blocks drv ja k block bytes) (\<lambda>(k, active).
       rt_ok (k, \<lparr>oc_block_size = block, oc_minimum_grid_size = grid, oc_active_blocks_per_multiprocessor = active\<rparr>))))))))"

section \<open>Launch shapes\<close>

definition dim3_x :: "nat \<Rightarrow> dim3" where
  "dim3_x x = \<lparr>dim_x = x, dim_y = 1, dim_z = 1\<rparr>"

definition dim3_volume :: "dim3 \<Rightarrow> nat option" where
  "dim3_volume d = (case checked_mul (dim_x d) (dim_y d) of None \<Rightarrow> None | Some xy \<Rightarrow> checked_mul xy (dim_z d))"

definition has_zero_axis :: "dim3 \<Rightarrow> bool" where
  "has_zero_axis d \<longleftrightarrow> dim_x d = 0 \<or> dim_y d = 0 \<or> dim_z d = 0"

definition launch_config_new :: "dim3 \<Rightarrow> dim3 \<Rightarrow> launch_config" where
  "launch_config_new grid block = \<lparr>lc_grid = grid, lc_block = block, lc_dynamic_shared_memory_bytes = 0\<rparr>"

definition with_dynamic_shared_memory :: "nat \<Rightarrow> launch_config \<Rightarrow> launch_config" where
  "with_dynamic_shared_memory bytes c = c\<lparr>lc_dynamic_shared_memory_bytes := bytes\<rparr>"

definition for_num_elements :: "nat \<Rightarrow> nat \<Rightarrow> nnis_error + launch_config" where
  "for_num_elements elements block_size =
     (if elements = 0 then Err (invalid_lit ''cannot construct a kernel grid for zero elements'')
      else if block_size = 0 then Err (invalid_lit ''kernel block size is zero'')
      else
        and_then (ok_or (invalid_lit ''kernel grid exceeds u32::MAX blocks'') (u32_of_usize (div_ceil elements block_size)))
          (\<lambda>blocks. Ok (launch_config_new (dim3_x blocks) (dim3_x block_size))))"

text \<open>A kernel's argument pack: the bytes of every value and the contexts of the buffers.\<close>

record kernel_args =
  kr_values :: "u8 list list"
  kr_buffer_contexts :: "nat list"

definition args_new :: kernel_args where
  "args_new = \<lparr>kr_values = [], kr_buffer_contexts = []\<rparr>"

text \<open>\<open>push\<close> of a \<open>width\<close>-byte integer, and \<open>push_buffer\<close>.\<close>

definition args_push :: "nat \<Rightarrow> nat \<Rightarrow> kernel_args \<Rightarrow> kernel_args" where
  "args_push width val a = a\<lparr>kr_values := kr_values a @ [le_bytes width val]\<rparr>"

definition args_push_buffer :: "device_buffer \<Rightarrow> kernel_args \<Rightarrow> kernel_args" where
  "args_push_buffer b a = a\<lparr>kr_values := kr_values a @ [le_bytes 8 (buf_ptr b)], kr_buffer_contexts := kr_buffer_contexts a @ [buf_ctx b]\<rparr>"

text \<open>\<open>shared_limit\<close> is the context's \<open>shared_memory_per_block\<close>.\<close>

definition launch_validate ::
  "'s cuda \<Rightarrow> 's jit_api \<Rightarrow> (nat \<Rightarrow> nat) \<Rightarrow> kernel \<Rightarrow> stream \<Rightarrow> launch_config \<Rightarrow> kernel_args \<Rightarrow> ('s, kernel) rt_comp" where
  "launch_validate drv ja shared_limit k st c args =
     (if has_zero_axis (lc_grid c) then rt_lift (Err (invalid_lit ''kernel grid contains a zero axis''))
      else if has_zero_axis (lc_block c) then rt_lift (Err (invalid_lit ''kernel block contains a zero axis''))
      else
        rt_bind (rt_lift (ok_or (invalid_lit ''kernel block volume overflows u64'') (dim3_volume (lc_block c)))) (\<lambda>threads.
        rt_bind (attributes drv ja k) (\<lambda>(k, a).
          rt_lift
            (if threads > ka_max_threads_per_block a then
               Err (invalid_input (lit ''kernel block has '' @ dec threads @ lit '' threads; function limit is '' @
                 dec (ka_max_threads_per_block a)))
             else if lc_dynamic_shared_memory_bytes c > shared_limit (kn_context k) then
               Err (invalid_input (lit ''dynamic shared memory is '' @ dec (lc_dynamic_shared_memory_bytes c) @
                 lit '' bytes; default device limit is '' @ dec (shared_limit (kn_context k))))
             else if lc_dynamic_shared_memory_bytes c > ka_max_dynamic_shared_memory_bytes a then
               Err (invalid_input (lit ''dynamic shared memory is '' @ dec (lc_dynamic_shared_memory_bytes c) @
                 lit '' bytes; kernel limit is '' @ dec (ka_max_dynamic_shared_memory_bytes a)))
             else if kn_context k \<noteq> stream_ctx st then
               Err (invalid_lit ''kernel module and stream belong to different contexts'')
             else if \<exists>ctx \<in> set (kr_buffer_contexts args). ctx \<noteq> kn_context k then
               Err (invalid_lit ''a kernel buffer belongs to a different context'')
             else Ok k))))"

definition dim3_text :: "dim3 \<Rightarrow> rstr" where
  "dim3_text d = dec (dim_x d) @ lit ''x'' @ dec (dim_y d) @ lit ''x'' @ dec (dim_z d)"

definition launch ::
  "'s cuda \<Rightarrow> 's jit_api \<Rightarrow> (nat \<Rightarrow> nat) \<Rightarrow> kernel \<Rightarrow> stream \<Rightarrow> launch_config \<Rightarrow> kernel_args \<Rightarrow> ('s, kernel) rt_comp" where
  "launch drv ja shared_limit k st c args =
     rt_bind (launch_validate drv ja shared_limit k st c args) (\<lambda>k.
       in_context drv (stream_ctx st)
         (rt_bind (with_context [(lit ''kernel'', kn_name k), (lit ''grid'', dim3_text (lc_grid c)), (lit ''block'', dim3_text (lc_block c))]
              (drv_call ''cuLaunchKernel'' (ja_launch_kernel ja (kn_handle k) c (stream_raw st) (kr_values args)))) (\<lambda>_. rt_ok k)))"

section \<open>What a launched grid does\<close>

text \<open>Reads and writes of a thread: an access outside the buffer has no result.\<close>

definition fetch :: "'a list \<Rightarrow> nat \<Rightarrow> 'a option" where
  "fetch xs i = (if i < length xs then Some (xs ! i) else None)"

definition store_at :: "nat \<Rightarrow> 'a \<Rightarrow> 'a list \<Rightarrow> 'a list option" where
  "store_at i v xs = (if i < length xs then Some (xs[i := v]) else None)"

definition opt_bind :: "'a option \<Rightarrow> ('a \<Rightarrow> 'b option) \<Rightarrow> 'b option" where
  "opt_bind m k = (case m of None \<Rightarrow> None | Some a \<Rightarrow> k a)"

lemma opt_bind_simps [simp]:
  "opt_bind None k = None" "opt_bind (Some a) k = k a"
  by (simp_all add: opt_bind_def)

fun opt_for :: "('s \<Rightarrow> 'a \<Rightarrow> 's option) \<Rightarrow> 's \<Rightarrow> 'a list \<Rightarrow> 's option" where
  "opt_for f s [] = Some s"
| "opt_for f s (x # xs) = opt_bind (f s x) (\<lambda>t. opt_for f t xs)"

text \<open>A one-dimensional grid: every pair of a block and a thread, in any order, each thread as one step.  That is all a
  kernel without shared memory whose threads write to distinct places can do.\<close>

definition schedule_of :: "launch_config \<Rightarrow> (nat \<times> nat) list \<Rightarrow> bool" where
  "schedule_of c order \<longleftrightarrow> distinct order \<and>
     set order = {(b, t). b < dim_x (lc_grid c) \<and> t < dim_x (lc_block c)} \<and>
     dim_y (lc_grid c) = 1 \<and> dim_z (lc_grid c) = 1 \<and> dim_y (lc_block c) = 1 \<and> dim_z (lc_block c) = 1"

definition run_schedule :: "(nat \<Rightarrow> 'o \<Rightarrow> 'o option) \<Rightarrow> launch_config \<Rightarrow> (nat \<times> nat) list \<Rightarrow> 'o \<Rightarrow> 'o option" where
  "run_schedule thread c order out = opt_for (\<lambda>out (b, t). thread (b * dim_x (lc_block c) + t) out) out order"

text \<open>The threads of an elementwise kernel: past the end they return, otherwise they store one value.\<close>

definition column_thread :: "(nat \<Rightarrow> 'a option) \<Rightarrow> nat \<Rightarrow> nat \<Rightarrow> 'a list \<Rightarrow> 'a list option" where
  "column_thread f n col out = (if col \<ge> n then Some out else opt_bind (f col) (\<lambda>v. store_at col v out))"

lemma for_num_elements_Ok:
  assumes "for_num_elements n block = Ok c"
  shows "0 < n" "0 < block" "c = launch_config_new (dim3_x (div_ceil n block)) (dim3_x block)" "div_ceil n block < u32_lim"
  using assms by (auto simp: for_num_elements_def split: if_split_asm)

lemma run_columns_partial:
  assumes "\<forall>col < n. f col = Some (g col)" "length out = n"
  shows "\<exists>out'. opt_for (\<lambda>out (b, t). column_thread f n (b * block + t) out) out order = Some out' \<and> length out' = n \<and>
    (\<forall>i < n. out' ! i = (if \<exists>(b, t) \<in> set order. b * block + t = i then g i else out ! i))"
  using assms(2)
proof (induction order arbitrary: out)
  case Nil
  then show ?case by simp
next
  case (Cons bt order)
  obtain b t where bt: "bt = (b, t)" by fastforce
  let ?col = "b * block + t"
  define out1 where "out1 = (if ?col \<ge> n then out else out[?col := g ?col])"
  have step: "column_thread f n ?col out = Some out1"
    using assms(1) Cons.prems by (simp add: column_thread_def store_at_def out1_def)
  have len: "length out1 = n" using Cons.prems by (simp add: out1_def)
  show ?case using Cons.IH [OF len] Cons.prems step by (auto simp: bt out1_def nth_list_update)
qed

text \<open>Whatever the order of its threads, a grid made for \<open>n\<close> elements fills the output with one value per column.\<close>

lemma run_columns:
  assumes "for_num_elements n block = Ok c" "schedule_of c order" "\<forall>col < n. f col = Some (g col)" "length out = n"
  shows "run_schedule (column_thread f n) c order out = Some (map g [0..<n])"
proof -
  note c = for_num_elements_Ok [OF assms(1)]
  have block: "dim_x (lc_block c) = block" "dim_x (lc_grid c) = div_ceil n block"
    by (simp_all add: c(3) launch_config_new_def dim3_x_def)
  obtain out' where run: "run_schedule (column_thread f n) c order out = Some out'" and len: "length out' = n"
    and val: "\<forall>i < n. out' ! i = (if \<exists>(b, t) \<in> set order. b * block + t = i then g i else out ! i)"
    using run_columns_partial [OF assms(3,4), of block order] by (auto simp: run_schedule_def block)
  have "\<exists>(b, t) \<in> set order. b * block + t = i" if "i < n" for i
  proof -
    have "i div block < div_ceil n block"
      using div_ceil_bounds(1) [OF c(2), of n] that c(2) by (simp add: div_less_iff_less_mult)
    then have "(i div block, i mod block) \<in> set order" using assms(2) c(2) by (simp add: schedule_of_def block)
    then show ?thesis by (rule bexI [rotated]) simp
  qed
  then have "out' = map g [0..<n]" using len val by (intro nth_equalityI) simp_all
  then show ?thesis using run by simp
qed

end
