(* ===== verification/GemvKernels.thy ===== *)
theory GemvKernels
  imports LowBit JitKernel
begin

unbundle bit_operations_syntax

text \<open>
  The batch-one projections of \<open>nnis-kernels\<close>: \<open>gemv.rs\<close> (dense \<open>f32\<close> weights), \<open>int4_weight_gemv.rs\<close> and
  \<open>int2_weight_gemv.rs\<close>, each with its CUDA kernel, its checks and its launch.  One thread computes one output
  column by a sum over the rows in increasing order; the low-bit kernels dequantize a weight in a register.  What is
  shown: the kernels access no buffer out of bounds and, whatever the order of the threads, a low-bit projection
  gives bit for bit what the dense kernel gives on the dequantized weights.
\<close>

section \<open>The CUDA kernels\<close>

text \<open>64-bit index arithmetic of a kernel.\<close>

definition flat_index :: "nat \<Rightarrow> nat \<Rightarrow> nat \<Rightarrow> nat" where
  "flat_index row n col = (row * n + col) mod u64_lim"

text \<open>\<open>value = fmaf(input[row], weight, value)\<close> over the rows, with the weight read by \<open>w\<close>.\<close>

definition fma_row :: "'d arith \<Rightarrow> f32 list \<Rightarrow> (nat \<Rightarrow> f32 option) \<Rightarrow> f32 \<Rightarrow> nat \<Rightarrow> f32 option" where
  "fma_row ar input w acc row = opt_bind (w row) (\<lambda>weight. opt_bind (fetch input row) (\<lambda>x. Some (ar_fma ar x weight acc)))"

definition project_kn_column :: "'d arith \<Rightarrow> f32 list \<Rightarrow> f32 list \<Rightarrow> nat \<Rightarrow> nat \<Rightarrow> nat \<Rightarrow> f32 option" where
  "project_kn_column ar input weight k n col =
     opt_for (fma_row ar input (\<lambda>row. fetch weight (flat_index row n col))) f32_zero [0..<k]"

definition decode_signed_int4 :: "u8 \<Rightarrow> nat \<Rightarrow> int" where
  "decode_signed_int4 packed high =
     (let nibble = (if high \<noteq> 0 then drop_bit 4 packed else packed AND 15)
      in if nibble AND 8 \<noteq> 0 then uint nibble - 16 else uint nibble)"

definition int4_project_column :: "'d arith \<Rightarrow> f32 list \<Rightarrow> u8 list \<Rightarrow> f32 list \<Rightarrow> nat \<Rightarrow> nat \<Rightarrow> nat \<Rightarrow> f32 option" where
  "int4_project_column ar input packed_weight scale k n col =
     opt_bind (fetch scale 0) (\<lambda>weight_scale.
       opt_for (fma_row ar input (\<lambda>row.
           let flat = flat_index row n col in
           opt_bind (fetch packed_weight (flat div 2)) (\<lambda>packed.
             Some (ar_mul ar (f32_of_i8 (decode_signed_int4 packed (flat mod 2))) weight_scale))))
         f32_zero [0..<k])"

definition decode_ternary_int2 :: "u8 \<Rightarrow> nat \<Rightarrow> int" where
  "decode_ternary_int2 packed lane =
     (let code = drop_bit (lane * 2) packed AND 3 in if code = 1 then 1 else if code = 2 then - 1 else 0)"

definition int2_project_column :: "'d arith \<Rightarrow> f32 list \<Rightarrow> u8 list \<Rightarrow> f32 list \<Rightarrow> nat \<Rightarrow> nat \<Rightarrow> nat \<Rightarrow> f32 option" where
  "int2_project_column ar input packed_weight scale k n col =
     opt_bind (fetch scale 0) (\<lambda>weight_scale.
       opt_for (fma_row ar input (\<lambda>row.
           let flat = flat_index row n col in
           opt_bind (fetch packed_weight (flat div 4)) (\<lambda>packed.
             Some (ar_mul ar (f32_of_i8 (decode_ternary_int2 packed (flat mod 4))) weight_scale))))
         f32_zero [0..<k])"

section \<open>Loading\<close>

record project_module =
  gk_project :: kernel
  gk_block_size :: nat

text \<open>\<open>compile_cubin\<close> is an argument, and \<open>Module::load\<close> of its result and \<open>get_function\<close> follow it.\<close>

definition low_bit_gemv_load ::
  "'s cuda \<Rightarrow> 's jit_api \<Rightarrow> (nat \<Rightarrow> ('s, u8 list) rt_comp) \<Rightarrow> string \<Rightarrow> string \<Rightarrow> nat \<Rightarrow> nat \<Rightarrow> ('s, project_module) rt_comp" where
  "low_bit_gemv_load drv ja compile label name ctx block_size =
     (if block_size = 0 \<or> \<not> is_power_of_two block_size then
        rt_lift (Err (invalid_input (lit label @ lit '' project block size '' @ dec block_size @ lit '' is not a non-zero power of two'')))
      else
        rt_bind (compile ctx) (\<lambda>code.
        rt_bind (load_from_cubin drv ja ctx code) (\<lambda>m.
        rt_bind (get_function drv ja m (lit name)) (\<lambda>k.
        rt_bind (attributes drv ja k) (\<lambda>(k, a).
          if block_size > ka_max_threads_per_block a then
            rt_lift (Err (invalid_input (lit label @ lit '' project block size '' @ dec block_size @ lit '' exceeds function limit '' @
              dec (ka_max_threads_per_block a))))
          else rt_ok \<lparr>gk_project = k, gk_block_size = block_size\<rparr>)))))"

definition int4_gemv_load :: "'s cuda \<Rightarrow> 's jit_api \<Rightarrow> (nat \<Rightarrow> ('s, u8 list) rt_comp) \<Rightarrow> nat \<Rightarrow> nat \<Rightarrow> ('s, project_module) rt_comp" where
  "int4_gemv_load drv ja compile = low_bit_gemv_load drv ja compile ''f32-int4'' ''nnis_project_kn_f32_int4_weight''"

definition int2_gemv_load :: "'s cuda \<Rightarrow> 's jit_api \<Rightarrow> (nat \<Rightarrow> ('s, u8 list) rt_comp) \<Rightarrow> nat \<Rightarrow> nat \<Rightarrow> ('s, project_module) rt_comp" where
  "int2_gemv_load drv ja compile = low_bit_gemv_load drv ja compile ''f32-int2'' ''nnis_project_kn_f32_int2_weight''"

section \<open>The checks before a launch\<close>

definition same_context :: "nat \<Rightarrow> stream \<Rightarrow> device_buffer list \<Rightarrow> bool" where
  "same_context ctx st buffers \<longleftrightarrow> ctx = stream_ctx st \<and> (\<forall>b \<in> set buffers. ctx = buf_ctx b)"

definition validate_project_execution ::
  "project_module \<Rightarrow> stream \<Rightarrow> device_buffer \<Rightarrow> device_buffer \<Rightarrow> device_buffer \<Rightarrow> nat \<Rightarrow> nat \<Rightarrow> nnis_error + unit" where
  "validate_project_execution g st input weight out k n =
     and_then (ok_or (invalid_lit ''project-kn shape overflows usize'') (checked_mul k n)) (\<lambda>expected.
       if buf_len input \<noteq> k then
         Err (invalid_input (lit ''project-kn input has '' @ dec (buf_len input) @ lit '' elements; shape requires '' @ dec k))
       else if buf_len weight \<noteq> expected then
         Err (invalid_input (lit ''project-kn weight has '' @ dec (buf_len weight) @ lit '' elements; shape ('' @ dec k @ lit '', '' @ dec n @
           lit '') requires '' @ dec expected))
       else if buf_len out \<noteq> n then
         Err (invalid_input (lit ''project-kn output has '' @ dec (buf_len out) @ lit '' elements; shape requires '' @ dec n))
       else if \<not> same_context (kn_context (gk_project g)) st [input, weight, out] then
         Err (invalid_lit ''project-kn stream, buffers, and kernel must share one context'')
       else Ok ())"

definition low_bit_validate_execution ::
  "string \<Rightarrow> nat \<Rightarrow> project_module \<Rightarrow> stream \<Rightarrow> device_buffer \<Rightarrow> device_buffer \<Rightarrow> device_buffer \<Rightarrow> device_buffer \<Rightarrow> nat \<Rightarrow> nat \<Rightarrow>
   nnis_error + unit" where
  "low_bit_validate_execution label lanes g st input packed scale out k n =
     and_then (ok_or (invalid_input (lit label @ lit '' project shape overflows usize'')) (checked_mul k n)) (\<lambda>elements.
     and_then (ok_or (invalid_input (lit label @ lit '' packed length overflows usize'')) (checked_add elements (lanes - 1))) (\<lambda>padded.
       if buf_len input \<noteq> k then
         Err (invalid_input (lit label @ lit '' project input has '' @ dec (buf_len input) @ lit '' elements; shape requires '' @ dec k))
       else if buf_len packed \<noteq> padded div lanes then
         Err (invalid_input (lit label @ lit '' project packed weight has '' @ dec (buf_len packed) @ lit '' bytes; shape ('' @ dec k @ lit '', '' @
           dec n @ lit '') requires '' @ dec (padded div lanes)))
       else if buf_len scale \<noteq> 1 then
         Err (invalid_input (lit label @ lit '' project scale buffer has '' @ dec (buf_len scale) @ lit '' values; exactly one is required''))
       else if buf_len out \<noteq> n then
         Err (invalid_input (lit label @ lit '' project output has '' @ dec (buf_len out) @ lit '' elements; shape requires '' @ dec n))
       else if \<not> same_context (kn_context (gk_project g)) st [input, packed, scale, out] then
         Err (invalid_input (lit label @ lit '' project stream, buffers and kernel must share one context''))
       else Ok ()))"

section \<open>Enqueueing\<close>

text \<open>The kernel's attributes are cached in it; a method gives the kernel back with its result.\<close>

definition launch_project ::
  "'s cuda \<Rightarrow> 's jit_api \<Rightarrow> (nat \<Rightarrow> nat) \<Rightarrow> project_module \<Rightarrow> stream \<Rightarrow> device_buffer list \<Rightarrow> device_buffer \<Rightarrow> nat \<Rightarrow> nat \<Rightarrow>
   ('s, project_module) rt_comp" where
  "launch_project drv ja shared_limit g st buffers out k n =
     (if n = 0 then rt_ok g
      else if k = 0 then rt_bind (zero_async drv 4 out st) (\<lambda>_. rt_ok g)
      else
        rt_bind (rt_lift (for_num_elements n (gk_block_size g))) (\<lambda>config.
        rt_bind (launch drv ja shared_limit (gk_project g) st config
            (args_push 8 n (args_push 8 k (fold args_push_buffer (buffers @ [out]) args_new)))) (\<lambda>kernel.
          rt_ok (g\<lparr>gk_project := kernel\<rparr>))))"

definition enqueue_project_kn ::
  "'s cuda \<Rightarrow> 's jit_api \<Rightarrow> (nat \<Rightarrow> nat) \<Rightarrow> project_module \<Rightarrow> stream \<Rightarrow> device_buffer \<Rightarrow> device_buffer \<Rightarrow> device_buffer \<Rightarrow> nat \<Rightarrow> nat \<Rightarrow>
   ('s, project_module) rt_comp" where
  "enqueue_project_kn drv ja shared_limit g st input weight out k n =
     rt_bind (rt_lift (validate_project_execution g st input weight out k n)) (\<lambda>_.
       launch_project drv ja shared_limit g st [input, weight] out k n)"

definition int4_enqueue_project_kn ::
  "'s cuda \<Rightarrow> 's jit_api \<Rightarrow> (nat \<Rightarrow> nat) \<Rightarrow> project_module \<Rightarrow> stream \<Rightarrow> device_buffer \<Rightarrow> device_buffer \<Rightarrow> device_buffer \<Rightarrow> device_buffer \<Rightarrow>
   nat \<Rightarrow> nat \<Rightarrow> ('s, project_module) rt_comp" where
  "int4_enqueue_project_kn drv ja shared_limit g st input packed scale out k n =
     rt_bind (rt_lift (low_bit_validate_execution ''f32-int4'' 2 g st input packed scale out k n)) (\<lambda>_.
       launch_project drv ja shared_limit g st [input, packed, scale] out k n)"

definition int2_enqueue_project_kn ::
  "'s cuda \<Rightarrow> 's jit_api \<Rightarrow> (nat \<Rightarrow> nat) \<Rightarrow> project_module \<Rightarrow> stream \<Rightarrow> device_buffer \<Rightarrow> device_buffer \<Rightarrow> device_buffer \<Rightarrow> device_buffer \<Rightarrow>
   nat \<Rightarrow> nat \<Rightarrow> ('s, project_module) rt_comp" where
  "int2_enqueue_project_kn drv ja shared_limit g st input packed scale out k n =
     rt_bind (rt_lift (low_bit_validate_execution ''f32-int2'' 4 g st input packed scale out k n)) (\<lambda>_.
       launch_project drv ja shared_limit g st [input, packed, scale] out k n)"

text \<open>The synchronous methods wait for the stream after a failure too, and then keep the first error.\<close>

definition then_wait :: "'s cuda \<Rightarrow> stream \<Rightarrow> ('s, 'a) rt_comp \<Rightarrow> ('s, 'a) rt_comp" where
  "then_wait drv st m s =
     (case m s of
        (t, Inr a) \<Rightarrow> rt_bind (stream_synchronize drv st) (\<lambda>_. rt_ok a) t
      | (t, Inl e) \<Rightarrow> (fst (stream_synchronize drv st t), Err e))"

definition project_kn where
  "project_kn drv ja shared_limit g st input weight out k n =
     then_wait drv st (enqueue_project_kn drv ja shared_limit g st input weight out k n)"

definition int4_project_kn where
  "int4_project_kn drv ja shared_limit g st input packed scale out k n =
     then_wait drv st (int4_enqueue_project_kn drv ja shared_limit g st input packed scale out k n)"

definition int2_project_kn where
  "int2_project_kn drv ja shared_limit g st input packed scale out k n =
     then_wait drv st (int2_enqueue_project_kn drv ja shared_limit g st input packed scale out k n)"

section \<open>Lemmas\<close>

lemma opt_for_cong:
  assumes "\<And>s x. x \<in> set xs \<Longrightarrow> f s x = g s x"
  shows "opt_for f s xs = opt_for g s xs"
  using assms by (induction xs arbitrary: s) (simp_all add: opt_bind_def split: option.split)

lemma opt_for_total:
  assumes "\<And>s x. x \<in> set xs \<Longrightarrow> f s x = Some (h s x)"
  shows "opt_for f s xs = Some (foldl h s xs)"
  using assms by (induction xs arbitrary: s) simp_all

lemma flat_index_exact:
  assumes "row < k" "col < n" "k * n < u64_lim"
  shows "flat_index row n col = row * n + col" "row * n + col < k * n"
proof -
  have "row * n + col < Suc row * n" using assms(2) by simp
  also have "\<dots> \<le> k * n" using assms(1) by (intro mult_le_mono1) simp
  finally show "row * n + col < k * n" .
  then show "flat_index row n col = row * n + col" using assms(3) by (simp add: flat_index_def)
qed

text \<open>The sum of a column of a dense matrix.\<close>

definition column_sum :: "'d arith \<Rightarrow> f32 list \<Rightarrow> f32 list \<Rightarrow> nat \<Rightarrow> nat \<Rightarrow> nat \<Rightarrow> f32" where
  "column_sum ar input w k n col = foldl (\<lambda>acc row. ar_fma ar (input ! row) (w ! (row * n + col)) acc) f32_zero [0..<k]"

lemma column_reads:
  assumes "length input = k" "length w = k * n" "k * n < u64_lim" "col < n"
    and "\<And>row. row < k \<Longrightarrow> weight row = Some (w ! (row * n + col))"
  shows "opt_for (fma_row ar input weight) f32_zero [0..<k] = Some (column_sum ar input w k n col)"
  unfolding column_sum_def by (rule opt_for_total) (simp add: fma_row_def fetch_def assms)

lemma project_kn_column_eq:
  assumes "length input = k" "length w = k * n" "k * n < u64_lim" "col < n"
  shows "project_kn_column ar input w k n col = Some (column_sum ar input w k n col)"
  unfolding project_kn_column_def
  by (rule column_reads [OF assms]) (use assms flat_index_exact in \<open>simp add: fetch_def\<close>)

lemma decode_int4_nibble: "decode_signed_int4 (bs ! (i div 2)) (i mod 2) = int4_decode (int4_nibble bs i)"
proof -
  have "drop_bit 4 b AND 0x0F = drop_bit 4 b" for b :: u8
  proof -
    have "take_bit 8 b = b" by (rule bit_word_eqI) (simp add: bit_take_bit_iff)
    then have "take_bit 4 (drop_bit 4 b) = drop_bit 4 b" by (simp add: take_bit_drop_bit)
    then show ?thesis by (simp add: take_bit_eq_mask mask_eq_exp_minus_1)
  qed
  then show ?thesis by (simp add: decode_signed_int4_def int4_nibble_def int4_decode_def Let_def mod2_eq_if)
qed

lemma int4_project_column_eq:
  assumes "int4_validate ar q = Ok u" "qt_element_count q = k * n" "int4_dequantize ar q = Ok w" "length input = k" "col < n"
  shows "int4_project_column ar input (qt_packed q) [qt_scale q] k n col = Some (column_sum ar input w k n col)"
proof -
  have lim: "k * n < u64_lim" and len: "length (qt_packed q) = (k * n + 1) div 2"
    using assms(1,2) validate_payload_Ok [of ar "''INT4''" 2 q] by (auto simp: int4_validate_def)
  have w: "w = map (\<lambda>i. ar_mul ar (f32_of_i8 (int4_decode (int4_nibble (qt_packed q) i))) (qt_scale q)) [0..<k * n]"
    using int4_dequantize_eq [OF assms(1)] assms(2,3) by simp
  have "(let flat = flat_index row n col in
      opt_bind (fetch (qt_packed q) (flat div 2)) (\<lambda>packed.
        Some (ar_mul ar (f32_of_i8 (decode_signed_int4 packed (flat mod 2))) (qt_scale q)))) = Some (w ! (row * n + col))" if "row < k" for row
    using flat_index_exact [OF that assms(5) lim] len by (simp add: Let_def fetch_def decode_int4_nibble w div_less_iff_less_mult)
  from column_reads [OF assms(4) _ lim assms(5) this] show ?thesis
    by (simp add: int4_project_column_def fetch_def w)
qed

lemma decode_int2_code:
  assumes "int2_decode (int2_code bs i) = Some level"
  shows "decode_ternary_int2 (bs ! (i div 4)) (i mod 4) = level"
  using assms by (auto simp: decode_ternary_int2_def int2_code_def int2_decode_def INT2_CODE_ZERO_def INT2_CODE_POSITIVE_def
      INT2_CODE_NEGATIVE_def Let_def split: if_split_asm)

lemma int2_project_column_eq:
  assumes "int2_validate ar q = Ok u" "qt_element_count q = k * n" "int2_dequantize ar q = Ok w" "length input = k" "col < n"
  shows "int2_project_column ar input (qt_packed q) [qt_scale q] k n col = Some (column_sum ar input w k n col)"
proof -
  have lim: "k * n < u64_lim" and len: "length (qt_packed q) = (k * n + 3) div 4"
    using assms(1,2) validate_payload_Ok [of ar "''INT2''" 4 q] by (auto simp: int2_validate_def)
  have w: "w = map (\<lambda>i. ar_mul ar (f32_of_i8 (the (int2_decode (int2_code (qt_packed q) i)))) (qt_scale q)) [0..<k * n]"
    using int2_dequantize_eq [OF assms(1)] assms(2,3) by simp
  have "(let flat = flat_index row n col in
      opt_bind (fetch (qt_packed q) (flat div 4)) (\<lambda>packed.
        Some (ar_mul ar (f32_of_i8 (decode_ternary_int2 packed (flat mod 4))) (qt_scale q)))) = Some (w ! (row * n + col))" if "row < k" for row
  proof -
    note flat = flat_index_exact [OF that assms(5) lim]
    obtain level where "int2_decode (int2_code (qt_packed q) (row * n + col)) = Some level"
      using int2_levels [OF assms(1), of "row * n + col"] flat(2) assms(2) by auto
    then show ?thesis using flat len by (simp add: Let_def fetch_def decode_int2_code w div_less_iff_less_mult)
  qed
  from column_reads [OF assms(4) _ lim assms(5) this] show ?thesis
    by (simp add: int2_project_column_def fetch_def w)
qed

text \<open>A grid of one block of two threads.\<close>

definition pair_config :: launch_config where
  "pair_config = launch_config_new (dim3_x 1) (dim3_x 2)"

lemma pair_config: "for_num_elements 2 2 = Ok pair_config"
  by (simp add: for_num_elements_def div_ceil_def pair_config_def u32_of_usize_def u32_lim_def)

lemma pair_schedules: "schedule_of pair_config [(0, 0), (0, 1)]" "schedule_of pair_config [(0, 1), (0, 0)]"
  by (auto simp: schedule_of_def pair_config_def launch_config_new_def dim3_x_def less_Suc_eq numeral_2_eq_2)

section \<open>Properties\<close>

text \<open>C23. A four-bit projection is exact.  Run over the grid the host asks for, with its threads in any order, the INT4
  kernel reads and writes only inside its buffers and leaves in the output, bit for bit, what the dense kernel
  leaves when it is given the dequantized weights: per column, the fused multiply-adds over the rows in order.\<close>

theorem int4_projection_exact:
  assumes "int4_validate ar q = Ok u" "qt_element_count q = k * n" "length input = k" "length out = n"
    and "for_num_elements n block = Ok c" "schedule_of c order" "schedule_of c order'"
  shows "\<exists>w. int4_dequantize ar q = Ok w \<and> length w = k * n \<and>
    run_schedule (column_thread (int4_project_column ar input (qt_packed q) [qt_scale q] k n) n) c order out =
      Some (map (column_sum ar input w k n) [0..<n]) \<and>
    run_schedule (column_thread (project_kn_column ar input w k n) n) c order' out =
      Some (map (column_sum ar input w k n) [0..<n])"
proof -
  obtain w where w: "int4_dequantize ar q = Ok w" "length w = k * n" using int4_dequantize_eq [OF assms(1)] assms(2) by simp
  have lim: "k * n < u64_lim" using assms(1,2) validate_payload_Ok [of ar "''INT4''" 2 q] by (auto simp: int4_validate_def)
  have "run_schedule (column_thread (int4_project_column ar input (qt_packed q) [qt_scale q] k n) n) c order out =
      Some (map (column_sum ar input w k n) [0..<n])"
    by (rule run_columns [OF assms(5,6) _ assms(4)]) (simp add: int4_project_column_eq [OF assms(1,2) w(1) assms(3)])
  moreover have "run_schedule (column_thread (project_kn_column ar input w k n) n) c order' out =
      Some (map (column_sum ar input w k n) [0..<n])"
    by (rule run_columns [OF assms(5,7) _ assms(4)]) (simp add: project_kn_column_eq [OF assms(3) w(2) lim])
  ultimately show ?thesis using w by blast
qed

theorem int4_projection_exact_witness:
  "\<exists>w. int4_dequantize first_arith int4_sample = Ok w \<and>
     run_schedule (column_thread (int4_project_column first_arith [f32_one] [0xF1] [f32_one] 1 2) 2) pair_config [(0, 0), (0, 1)] [0, 0] =
     run_schedule (column_thread (project_kn_column first_arith [f32_one] w 1 2) 2) pair_config [(0, 1), (0, 0)] [0, 0]"
proof -
  have "qt_element_count int4_sample = 1 * 2" "length [f32_one] = 1" "length [0 :: f32, 0] = 2"
    "qt_packed int4_sample = [0xF1]" "qt_scale int4_sample = f32_one" by (simp_all add: int4_sample_def)
  then show ?thesis
    using int4_projection_exact [OF int4_sample_valid _ _ _ pair_config pair_schedules, of 1 "[f32_one]" "[0, 0]"] by metis
qed

text \<open>A ternary projection is exact, in the same sense: any order of the threads of the INT2 kernel gives what the dense
  kernel gives on the dequantized weights, without an access out of bounds.\<close>

theorem int2_projection_exact:
  assumes "int2_validate ar q = Ok u" "qt_element_count q = k * n" "length input = k" "length out = n"
    and "for_num_elements n block = Ok c" "schedule_of c order" "schedule_of c order'"
  shows "\<exists>w. int2_dequantize ar q = Ok w \<and> length w = k * n \<and>
    run_schedule (column_thread (int2_project_column ar input (qt_packed q) [qt_scale q] k n) n) c order out =
      Some (map (column_sum ar input w k n) [0..<n]) \<and>
    run_schedule (column_thread (project_kn_column ar input w k n) n) c order' out =
      Some (map (column_sum ar input w k n) [0..<n])"
proof -
  obtain w where w: "int2_dequantize ar q = Ok w" "length w = k * n" using int2_dequantize_eq [OF assms(1)] assms(2) by simp
  have lim: "k * n < u64_lim" using assms(1,2) validate_payload_Ok [of ar "''INT2''" 4 q] by (auto simp: int2_validate_def)
  have "run_schedule (column_thread (int2_project_column ar input (qt_packed q) [qt_scale q] k n) n) c order out =
      Some (map (column_sum ar input w k n) [0..<n])"
    by (rule run_columns [OF assms(5,6) _ assms(4)]) (simp add: int2_project_column_eq [OF assms(1,2) w(1) assms(3)])
  moreover have "run_schedule (column_thread (project_kn_column ar input w k n) n) c order' out =
      Some (map (column_sum ar input w k n) [0..<n])"
    by (rule run_columns [OF assms(5,7) _ assms(4)]) (simp add: project_kn_column_eq [OF assms(3) w(2) lim])
  ultimately show ?thesis using w by blast
qed

theorem int2_projection_exact_witness:
  "\<exists>w. int2_dequantize first_arith int2_sample = Ok w \<and>
     run_schedule (column_thread (int2_project_column first_arith [f32_one] [0x09] [f32_one] 1 2) 2) pair_config [(0, 0), (0, 1)] [0, 0] =
     run_schedule (column_thread (project_kn_column first_arith [f32_one] w 1 2) 2) pair_config [(0, 1), (0, 0)] [0, 0]"
proof -
  have "qt_element_count int2_sample = 1 * 2" "length [f32_one] = 1" "length [0 :: f32, 0] = 2"
    "qt_packed int2_sample = [0x09]" "qt_scale int2_sample = f32_one" by (simp_all add: int2_sample_def)
  then show ?thesis
    using int2_projection_exact [OF int2_sample_valid _ _ _ pair_config pair_schedules, of 1 "[f32_one]" "[0, 0]"] by metis
qed

end
