(* ===== verification/SparseWeights.thy ===== *)
theory SparseWeights
  imports GemvKernels
begin

unbundle bit_operations_syntax

text \<open>
  The sparse weight references: \<open>sparse_reference.rs\<close> (an occupancy bitmap and the retained values),
  \<open>sparse_csc_reference.rs\<close> (column-compressed matrices and their projection plan) and the CSC projection of
  \<open>nnis-kernels/src/sparse_csc_gemv.rs\<close>.  What is shown: expanding a pruned tensor or matrix gives the source with
  the small values replaced by zero, and the CSC kernel, in any order of its threads, sums per column exactly the
  retained entries in row order without an access out of bounds.
\<close>

section \<open>The occupancy bitmap\<close>

record 'd sparse_tensor =
  sb_element_count :: nat
  sb_threshold :: f32
  sb_bitmap :: "u8 list"
  sb_retained :: "f32 list"
  sb_max_abs_error :: f32
  sb_mse :: 'd

definition bad_threshold :: "f32 \<Rightarrow> bool" where
  "bad_threshold t \<longleftrightarrow> \<not> f32_is_finite t \<or> f32_lt t f32_zero"

text \<open>\<open>value.abs() > threshold\<close>, and the value that is kept in its place.\<close>

definition retained :: "f32 \<Rightarrow> f32 \<Rightarrow> bool" where
  "retained threshold val \<longleftrightarrow> f32_lt threshold (f32_abs val)"

definition pruned :: "f32 \<Rightarrow> f32 \<Rightarrow> f32" where
  "pruned threshold val = (if retained threshold val then val else f32_zero)"

definition sparse_validate :: "'d arith \<Rightarrow> 'd sparse_tensor \<Rightarrow> nnis_error + unit" where
  "sparse_validate ar x =
     (if sb_element_count x = 0 then Err (invalid_lit ''sparse reference tensor has zero logical elements'')
      else if bad_threshold (sb_threshold x) then Err (invalid_lit ''sparse threshold must be finite and non-negative'')
      else if bad_evidence ar (sb_max_abs_error x) (sb_mse x) then Err (invalid_lit ''sparse reconstruction evidence is invalid'')
      else if \<exists>v \<in> set (sb_retained x). \<not> f32_is_finite v then Err (invalid_lit ''sparse retained values must all be finite'')
      else
        and_then (ok_or (invalid_lit ''sparse bitmap size overflows usize'') (checked_add (sb_element_count x) 7)) (\<lambda>n.
          let expected_bitmap = n div 8;
              occupied = length (filter (bitmap_get (sb_bitmap x)) [0..<sb_element_count x])
          in
          if length (sb_bitmap x) \<noteq> expected_bitmap then
            Err (invalid_input (lit ''sparse bitmap has '' @ dec (length (sb_bitmap x)) @ lit '' bytes; expected '' @ dec expected_bitmap))
          else if occupied \<noteq> length (sb_retained x) then
            Err (invalid_input (lit ''sparse bitmap contains '' @ dec occupied @ lit '' occupied values but '' @ dec (length (sb_retained x)) @
              lit '' values are retained''))
          else if sb_element_count x mod 8 \<noteq> 0 \<and>
              sb_bitmap x ! (expected_bitmap - 1) AND NOT (push_bit (sb_element_count x mod 8) 1 - 1) \<noteq> 0 then
            Err (invalid_lit ''sparse bitmap padding bits must be zero'')
          else Ok ()))"

definition sparsify_step ::
  "'d arith \<Rightarrow> f32 \<Rightarrow> u8 list \<times> f32 list \<times> f32 \<times> 'd \<Rightarrow> nat \<times> f32 \<Rightarrow> nnis_error + u8 list \<times> f32 list \<times> f32 \<times> 'd" where
  "sparsify_step ar threshold = (\<lambda>(bitmap, values, errors) (index, val).
     if \<not> f32_is_finite val then Err (invalid_input (lit ''sparse source value '' @ dec index @ lit '' is not finite''))
     else
       Ok (bitmap_put bitmap index (retained threshold val), if retained threshold val then values @ [val] else values,
           account_error ar val (pruned threshold val) errors))"

definition sparsify :: "'d arith \<Rightarrow> f32 list \<Rightarrow> f32 \<Rightarrow> nnis_error + 'd sparse_tensor" where
  "sparsify ar values threshold =
     (if values = [] then Err (invalid_lit ''sparse reference requires at least one value'')
      else if bad_threshold threshold then Err (invalid_lit ''sparse threshold must be finite and non-negative'')
      else
        and_then (ok_or (invalid_lit ''sparse element count overflows usize'') (checked_add (length values) 7)) (\<lambda>n.
        and_then (for_each_res (sparsify_step ar threshold) (replicate (n div 8) 0, [], f32_zero, ar_zero ar) (enumerate 0 values))
          (\<lambda>(bitmap, kept, max_abs_error, squared_error_sum).
             let x = \<lparr>sb_element_count = length values, sb_threshold = threshold, sb_bitmap = bitmap, sb_retained = kept,
                      sb_max_abs_error = max_abs_error, sb_mse = ar_div64_len ar squared_error_sum (length values)\<rparr>
             in and_then (sparse_validate ar x) (\<lambda>_. Ok x))))"

definition densify_step :: "'d sparse_tensor \<Rightarrow> nat \<times> f32 list \<Rightarrow> nat \<Rightarrow> nnis_error + nat \<times> f32 list" where
  "densify_step x = (\<lambda>(retained_index, out) index.
     if bitmap_get (sb_bitmap x) index then
       if retained_index < length (sb_retained x) then Ok (retained_index + 1, out @ [sb_retained x ! retained_index])
       else Err (invalid_lit ''sparse bitmap consumes more values than retained'')
     else Ok (retained_index, out @ [f32_zero]))"

definition densify :: "'d arith \<Rightarrow> 'd sparse_tensor \<Rightarrow> nnis_error + f32 list" where
  "densify ar x =
     and_then (sparse_validate ar x) (\<lambda>_.
     and_then (for_each_res (densify_step x) (0, []) [0..<sb_element_count x]) (\<lambda>(retained_index, out).
       if retained_index \<noteq> length (sb_retained x) then Err (invalid_lit ''sparse retained values exceed bitmap occupancy'')
       else Ok out))"

definition sparse_canonical_serialized_bytes :: "'d arith \<Rightarrow> 'd sparse_tensor \<Rightarrow> nnis_error + u8 list" where
  "sparse_canonical_serialized_bytes ar x =
     and_then (sparse_validate ar x) (\<lambda>_.
     and_then (ok_or (invalid_lit ''sparse value bytes overflow usize'') (checked_mul (length (sb_retained x)) 4)) (\<lambda>value_bytes.
     and_then (ok_or (invalid_lit ''sparse serialized size overflows usize'')
         (case checked_add 24 (length (sb_bitmap x)) of None \<Rightarrow> None | Some n \<Rightarrow> checked_add n value_bytes)) (\<lambda>_.
       Ok (as_bytes (lit ''NSP1'') @ le_bytes 8 (sb_element_count x) @ le_bytes 4 (unat (sb_threshold x)) @
           le_bytes 8 (length (sb_retained x)) @ sb_bitmap x @ concat (map (\<lambda>v. le_bytes 4 (unat v)) (sb_retained x))))))"

section \<open>Column-compressed matrices\<close>

record 'd csc_matrix =
  cm_rows :: nat
  cm_cols :: nat
  cm_threshold :: f32
  cm_column_offsets :: "nat list"
  cm_row_indices :: "nat list"
  cm_values :: "f32 list"
  cm_max_abs_error :: f32
  cm_mse :: 'd

text \<open>One retained entry: the row of the entry before it in the column, if any.\<close>

definition csc_check_entry :: "'d csc_matrix \<Rightarrow> nat option \<Rightarrow> nat \<Rightarrow> nnis_error + nat option" where
  "csc_check_entry m previous index =
     (let row = cm_row_indices m ! index in
      if row \<ge> cm_rows m then Err (invalid_lit ''sparse CSC row index exceeds matrix row count'')
      else if (case previous of None \<Rightarrow> False | Some v \<Rightarrow> row \<le> v) then
        Err (invalid_lit ''sparse CSC rows must be strictly increasing within each column'')
      else if \<not> f32_is_finite (cm_values m ! index) then Err (invalid_lit ''sparse CSC retained values must be finite'')
      else Ok (Some row))"

definition csc_check_column :: "'d csc_matrix \<Rightarrow> nat \<Rightarrow> nnis_error + unit" where
  "csc_check_column m col =
     (let begin_at = cm_column_offsets m ! col; end_at = cm_column_offsets m ! (col + 1) in
      if begin_at > end_at \<or> end_at > length (cm_values m) then
        Err (invalid_lit ''sparse CSC column offsets are not monotonic and bounded'')
      else and_then (for_each_res (csc_check_entry m) None [begin_at..<end_at]) (\<lambda>_. Ok ()))"

definition csc_validate :: "'d arith \<Rightarrow> 'd csc_matrix \<Rightarrow> nnis_error + unit" where
  "csc_validate ar m =
     (if cm_rows m = 0 \<or> cm_cols m = 0 then Err (invalid_lit ''sparse CSC matrix dimensions must be non-zero'')
      else if bad_threshold (cm_threshold m) then Err (invalid_lit ''sparse CSC threshold must be finite and non-negative'')
      else if bad_evidence ar (cm_max_abs_error m) (cm_mse m) then Err (invalid_lit ''sparse CSC reconstruction evidence is invalid'')
      else
        and_then (ok_or (invalid_lit ''sparse CSC offset count overflows usize'') (checked_add (cm_cols m) 1)) (\<lambda>expected.
          if length (cm_column_offsets m) \<noteq> expected then
            Err (invalid_input (lit ''sparse CSC has '' @ dec (length (cm_column_offsets m)) @ lit '' column offsets; expected '' @ dec expected))
          else if length (cm_row_indices m) \<noteq> length (cm_values m) then
            Err (invalid_lit ''sparse CSC row-index and value lengths disagree'')
          else if cm_column_offsets m ! 0 \<noteq> 0 then Err (invalid_lit ''sparse CSC first column offset must be zero'')
          else if last (cm_column_offsets m) \<noteq> length (cm_values m) then
            Err (invalid_lit ''sparse CSC final column offset must equal NNZ'')
          else if cm_rows m \<ge> u32_lim then Err (unsupported_lit ''sparse CSC row count exceeds u32 index domain'')
          else check_all (csc_check_column m) [0..<cm_cols m]))"

definition csc_cell ::
  "'d arith \<Rightarrow> f32 list \<Rightarrow> nat \<Rightarrow> f32 \<Rightarrow> nat \<Rightarrow> nat list \<times> f32 list \<times> f32 \<times> 'd \<Rightarrow> nat \<Rightarrow> nnis_error + nat list \<times> f32 list \<times> f32 \<times> 'd"
  where
  "csc_cell ar dense cols threshold col = (\<lambda>(rows, values, errors) row.
     let val = dense ! (row * cols + col) in
     if \<not> f32_is_finite val then
       Err (invalid_input (lit ''sparse CSC source value ('' @ dec row @ lit '', '' @ dec col @ lit '') is not finite''))
     else
       Ok (if retained threshold val then rows @ [as_u32 row] else rows, if retained threshold val then values @ [val] else values,
           account_error ar val (pruned threshold val) errors))"

definition csc_column ::
  "'d arith \<Rightarrow> f32 list \<Rightarrow> nat \<Rightarrow> nat \<Rightarrow> f32 \<Rightarrow> nat list \<times> nat list \<times> f32 list \<times> f32 \<times> 'd \<Rightarrow> nat \<Rightarrow>
   nnis_error + nat list \<times> nat list \<times> f32 list \<times> f32 \<times> 'd" where
  "csc_column ar dense rows cols threshold = (\<lambda>(offsets, acc) col.
     and_then (for_each_res (csc_cell ar dense cols threshold col) acc [0..<rows]) (\<lambda>(row_indices, values, errors).
       Ok (offsets @ [length values], row_indices, values, errors)))"

definition csc_sparsify :: "'d arith \<Rightarrow> f32 list \<Rightarrow> nat \<Rightarrow> nat \<Rightarrow> f32 \<Rightarrow> nnis_error + 'd csc_matrix" where
  "csc_sparsify ar dense rows cols threshold =
     (if rows = 0 \<or> cols = 0 then Err (invalid_lit ''sparse CSC source dimensions must be non-zero'')
      else if bad_threshold threshold then Err (invalid_lit ''sparse CSC threshold must be finite and non-negative'')
      else
        and_then (ok_or (invalid_lit ''sparse CSC source shape overflows usize'') (checked_mul rows cols)) (\<lambda>elements.
          if length dense \<noteq> elements then
            Err (invalid_input (lit ''sparse CSC source has '' @ dec (length dense) @ lit '' values; shape ('' @ dec rows @ lit '', '' @ dec cols @
              lit '') requires '' @ dec elements))
          else if rows \<ge> u32_lim then Err (unsupported_lit ''sparse CSC rows exceed u32 index domain'')
          else
            and_then (for_each_res (csc_column ar dense rows cols threshold) ([0], [], [], f32_zero, ar_zero ar) [0..<cols])
              (\<lambda>(offsets, row_indices, values, max_abs_error, squared_error_sum).
                 let m = \<lparr>cm_rows = rows, cm_cols = cols, cm_threshold = threshold, cm_column_offsets = offsets,
                          cm_row_indices = row_indices, cm_values = values, cm_max_abs_error = max_abs_error,
                          cm_mse = ar_div64_len ar squared_error_sum elements\<rparr>
                 in and_then (csc_validate ar m) (\<lambda>_. Ok m))))"

definition csc_write :: "'d csc_matrix \<Rightarrow> nat \<Rightarrow> f32 list \<Rightarrow> nat \<Rightarrow> f32 list" where
  "csc_write m col dense index = dense[(cm_row_indices m ! index) * cm_cols m + col := cm_values m ! index]"

definition csc_densify :: "'d arith \<Rightarrow> 'd csc_matrix \<Rightarrow> nnis_error + f32 list" where
  "csc_densify ar m =
     and_then (csc_validate ar m) (\<lambda>_.
     and_then (ok_or (invalid_lit ''sparse CSC dense shape overflows usize'') (checked_mul (cm_rows m) (cm_cols m))) (\<lambda>elements.
       Ok (foldl (\<lambda>dense col. foldl (csc_write m col) dense [cm_column_offsets m ! col..<cm_column_offsets m ! (col + 1)])
             (replicate elements f32_zero) [0..<cm_cols m])))"

definition csc_canonical_serialized_bytes :: "'d arith \<Rightarrow> 'd csc_matrix \<Rightarrow> nnis_error + u8 list" where
  "csc_canonical_serialized_bytes ar m =
     and_then (csc_validate ar m) (\<lambda>_.
     and_then (ok_or (invalid_lit ''sparse CSC offset bytes overflow usize'') (checked_mul (length (cm_column_offsets m)) 8)) (\<lambda>offset_bytes.
     and_then (ok_or (invalid_lit ''sparse CSC index bytes overflow usize'') (checked_mul (length (cm_row_indices m)) 4)) (\<lambda>index_bytes.
     and_then (ok_or (invalid_lit ''sparse CSC value bytes overflow usize'') (checked_mul (length (cm_values m)) 4)) (\<lambda>value_bytes.
     and_then (ok_or (invalid_lit ''sparse CSC serialized size overflows usize'')
         (case checked_add 32 offset_bytes of None \<Rightarrow> None
          | Some n \<Rightarrow> (case checked_add n index_bytes of None \<Rightarrow> None | Some n \<Rightarrow> checked_add n value_bytes))) (\<lambda>_.
       Ok (as_bytes (lit ''NSC1'') @ le_bytes 8 (cm_rows m) @ le_bytes 8 (cm_cols m) @ le_bytes 4 (unat (cm_threshold m)) @
           le_bytes 8 (length (cm_values m)) @ concat (map (le_bytes 8) (cm_column_offsets m)) @
           concat (map (le_bytes 4) (cm_row_indices m)) @ concat (map (\<lambda>v. le_bytes 4 (unat v)) (cm_values m))))))))"

record csc_projection_plan =
  cp_schema_version :: nat
  cp_storage_version :: nat
  cp_logical_weight :: rstr
  cp_rows :: nat
  cp_cols :: nat
  cp_accumulation :: rstr
  cp_dense_weight_materialization :: bool

definition csc_plan_validate :: "csc_projection_plan \<Rightarrow> nnis_error + unit" where
  "csc_plan_validate p =
     (if cp_schema_version p \<noteq> 1 then
        Err (unsupported (lit ''sparse CSC projection plan schema '' @ dec (cp_schema_version p) @ lit ''; supported version is '' @ dec 1))
      else if cp_storage_version p \<noteq> 1 then
        Err (unsupported (lit ''sparse CSC projection storage version '' @ dec (cp_storage_version p) @ lit ''; supported version is '' @ dec 1))
      else if cp_logical_weight p = [] \<or> trim (cp_logical_weight p) \<noteq> cp_logical_weight p then
        Err (invalid_lit ''sparse CSC projection logical weight must be non-empty and trimmed'')
      else if cp_rows p = 0 \<or> cp_cols p = 0 then Err (invalid_lit ''sparse CSC projection dimensions must be non-zero'')
      else if cp_accumulation p \<noteq> lit ''stored-csc-row-order-f32-fma-v1'' then
        Err (unsupported_lit ''sparse CSC projection accumulation contract is unsupported'')
      else if cp_dense_weight_materialization p then
        Err (unsupported_lit ''sparse CSC projection forbids dense weight materialization'')
      else Ok ())"

definition csc_plan_for_matrix :: "rstr \<Rightarrow> nat \<Rightarrow> nat \<Rightarrow> nnis_error + csc_projection_plan" where
  "csc_plan_for_matrix name rows cols =
     (let p = \<lparr>cp_schema_version = 1, cp_storage_version = 1, cp_logical_weight = name, cp_rows = rows, cp_cols = cols,
               cp_accumulation = lit ''stored-csc-row-order-f32-fma-v1'', cp_dense_weight_materialization = False\<rparr>
      in and_then (csc_plan_validate p) (\<lambda>_. Ok p))"

section \<open>The CSC projection\<close>

definition F32_NAN :: f32 where "F32_NAN = 0x7FFFFFFF"

datatype csc_progress = Summing f32 | Poisoned

text \<open>The thread of a column; a column whose offsets or rows are out of range gets a NaN.\<close>

definition csc_project_step :: "'d arith \<Rightarrow> f32 list \<Rightarrow> nat list \<Rightarrow> f32 list \<Rightarrow> nat \<Rightarrow> csc_progress \<Rightarrow> nat \<Rightarrow> csc_progress option" where
  "csc_project_step ar input row_indices values k progress index =
     (case progress of
        Poisoned \<Rightarrow> Some Poisoned
      | Summing val \<Rightarrow>
          opt_bind (fetch row_indices index) (\<lambda>row.
            if row \<ge> k then Some Poisoned
            else
              opt_bind (fetch input row) (\<lambda>x.
              opt_bind (fetch values index) (\<lambda>w. Some (Summing (ar_fma ar x w val))))))"

definition csc_project_column ::
  "'d arith \<Rightarrow> f32 list \<Rightarrow> nat list \<Rightarrow> nat list \<Rightarrow> f32 list \<Rightarrow> nat \<Rightarrow> nat \<Rightarrow> nat \<Rightarrow> f32 option" where
  "csc_project_column ar input column_offsets row_indices values k nnz col =
     opt_bind (fetch column_offsets col) (\<lambda>begin_at.
     opt_bind (fetch column_offsets (col + 1)) (\<lambda>end_at.
       if begin_at > end_at \<or> end_at > nnz then Some F32_NAN
       else
         opt_bind (opt_for (csc_project_step ar input row_indices values k) (Summing f32_zero) [begin_at..<end_at]) (\<lambda>progress.
           Some (case progress of Summing val \<Rightarrow> val | Poisoned \<Rightarrow> F32_NAN))))"

definition csc_validate_execution ::
  "project_module \<Rightarrow> stream \<Rightarrow> device_buffer \<Rightarrow> device_buffer \<Rightarrow> device_buffer \<Rightarrow> device_buffer \<Rightarrow> device_buffer \<Rightarrow> nat \<Rightarrow> nat \<Rightarrow> nnis_error + unit"
  where
  "csc_validate_execution g st input column_offsets row_indices values out k n =
     (if buf_len input \<noteq> k then
        Err (invalid_input (lit ''f32-sparse-csc project input has '' @ dec (buf_len input) @ lit '' elements; shape requires '' @ dec k))
      else
        and_then (ok_or (invalid_lit ''f32-sparse-csc offset count overflows usize'') (checked_add n 1)) (\<lambda>expected.
          if buf_len column_offsets \<noteq> expected then
            Err (invalid_input (lit ''f32-sparse-csc column offsets has '' @ dec (buf_len column_offsets) @ lit '' entries; shape requires '' @
              dec expected))
          else if buf_len row_indices \<noteq> buf_len values then
            Err (invalid_input (lit ''f32-sparse-csc row indices has '' @ dec (buf_len row_indices) @ lit '' entries; values has '' @
              dec (buf_len values)))
          else if k = 0 \<and> buf_len values \<noteq> 0 then
            Err (invalid_lit ''f32-sparse-csc cannot retain values when K is zero'')
          else if buf_len out \<noteq> n then
            Err (invalid_input (lit ''f32-sparse-csc project output has '' @ dec (buf_len out) @ lit '' elements; shape requires '' @ dec n))
          else if \<not> same_context (kn_context (gk_project g)) st [input, column_offsets, row_indices, values, out] then
            Err (invalid_lit ''f32-sparse-csc project stream, buffers and kernel must share one context'')
          else Ok ()))"

definition csc_gemv_load :: "'s cuda \<Rightarrow> 's jit_api \<Rightarrow> (nat \<Rightarrow> ('s, u8 list) rt_comp) \<Rightarrow> nat \<Rightarrow> nat \<Rightarrow> ('s, project_module) rt_comp" where
  "csc_gemv_load drv ja compile = low_bit_gemv_load drv ja compile ''f32-sparse-csc'' ''nnis_project_kn_f32_sparse_csc''"

definition csc_enqueue_project_kn ::
  "'s cuda \<Rightarrow> 's jit_api \<Rightarrow> (nat \<Rightarrow> nat) \<Rightarrow> project_module \<Rightarrow> stream \<Rightarrow> device_buffer \<Rightarrow> device_buffer \<Rightarrow> device_buffer \<Rightarrow> device_buffer \<Rightarrow>
   device_buffer \<Rightarrow> nat \<Rightarrow> nat \<Rightarrow> ('s, project_module) rt_comp" where
  "csc_enqueue_project_kn drv ja shared_limit g st input column_offsets row_indices values out k n =
     rt_bind (rt_lift (csc_validate_execution g st input column_offsets row_indices values out k n)) (\<lambda>_.
       if n = 0 then rt_ok g
       else if buf_len values = 0 then rt_bind (zero_async drv 4 out st) (\<lambda>_. rt_ok g)
       else
         rt_bind (rt_lift (for_num_elements n (gk_block_size g))) (\<lambda>config.
         rt_bind (launch drv ja shared_limit (gk_project g) st config
             (args_push 8 (buf_len values) (args_push 8 n (args_push 8 k
               (fold args_push_buffer [input, column_offsets, row_indices, values, out] args_new))))) (\<lambda>kernel.
           rt_ok (g\<lparr>gk_project := kernel\<rparr>))))"

definition csc_project_kn where
  "csc_project_kn drv ja shared_limit g st input column_offsets row_indices values out k n =
     then_wait drv st (csc_enqueue_project_kn drv ja shared_limit g st input column_offsets row_indices values out k n)"

section \<open>Lemmas on the bitmap\<close>

lemma sparsify_loop:
  assumes "for_each_res (sparsify_step ar t) (bs, ks, e) (enumerate k vs) = Ok (bs', ks', e')"
  shows "bs' = fold (\<lambda>(i, c) bs. bitmap_put bs i c) (enumerate k (map (retained t) vs)) bs \<and> ks' = ks @ filter (retained t) vs \<and>
    list_all f32_is_finite vs"
  using assms
proof (induction vs arbitrary: bs ks e k)
  case (Cons v vs)
  obtain a b where e: "e = (a, b)" by fastforce
  have fin: "f32_is_finite v" using Cons.prems by (simp add: sparsify_step_def split: if_split_asm)
  then have "for_each_res (sparsify_step ar t) (bitmap_put bs k (retained t v), if retained t v then ks @ [v] else ks,
      account_error ar v (pruned t v) e) (enumerate (Suc k) vs) = Ok (bs', ks', e')"
    using Cons.prems by (simp add: sparsify_step_def e)
  from Cons.IH [OF this] show ?case using fin by simp
qed simp

lemma sparsify_Ok:
  assumes "sparsify ar values t = Ok x"
  shows "sparse_validate ar x = Ok ()" "sb_element_count x = length values"
    "sb_bitmap x = bitmap.pack ((length values + 7) div 8) (map (retained t) values)" "sb_retained x = filter (retained t) values"
proof -
  let ?loop = "for_each_res (sparsify_step ar t) (replicate ((length values + 7) div 8) 0, [], f32_zero, ar_zero ar) (enumerate 0 values)"
  have guards: "values \<noteq> []" "\<not> bad_threshold t" using assms by (auto simp: sparsify_def split: if_split_asm)
  have "\<exists>bm kept m s. ?loop = Ok (bm, kept, m, s) \<and> (\<exists>x'. x' = \<lparr>sb_element_count = length values, sb_threshold = t, sb_bitmap = bm,
      sb_retained = kept, sb_max_abs_error = m, sb_mse = ar_div64_len ar s (length values)\<rparr> \<and> sparse_validate ar x' = Ok () \<and> x' = x)"
    using assms guards by (cases ?loop) (auto simp: sparsify_def Let_def)
  then obtain bm kept m s where loop: "?loop = Ok (bm, kept, m, s)" and valid: "sparse_validate ar x = Ok ()"
    and x: "x = \<lparr>sb_element_count = length values, sb_threshold = t, sb_bitmap = bm, sb_retained = kept, sb_max_abs_error = m,
      sb_mse = ar_div64_len ar s (length values)\<rparr>" by blast
  show "sparse_validate ar x = Ok ()" by (rule valid)
  show "sb_element_count x = length values"
    "sb_bitmap x = bitmap.pack ((length values + 7) div 8) (map (retained t) values)" "sb_retained x = filter (retained t) values"
    using sparsify_loop [OF loop] by (simp_all add: x bitmap.pack_def)
qed

lemma filter_upt_length: "i \<le> length xs \<Longrightarrow> length (filter (\<lambda>j. P (xs ! j)) [0..<i]) = length (filter P (take i xs))"
proof (induction i)
  case (Suc i)
  then show ?case by (simp add: take_Suc_conv_app_nth)
qed simp

lemma filter_nth:
  assumes "i < length xs" "P (xs ! i)"
  shows "filter P xs ! length (filter P (take i xs)) = xs ! i"
proof -
  have "filter P xs = filter P (take i xs) @ xs ! i # filter P (drop (Suc i) xs)"
    using assms by (metis append_take_drop_id filter_append filter.simps(2) Cons_nth_drop_Suc)
  then show ?thesis by (metis nth_append_length)
qed

lemma upt_split: "k < n \<Longrightarrow> [0..<n] = [0..<k] @ k # [Suc k..<n]"
  using upt_add_eq_append [of 0 k "n - k"] by (simp add: upt_conv_Cons)

lemma densify_loop:
  assumes "k \<le> sb_element_count x" "length (filter (bitmap_get (sb_bitmap x)) [0..<sb_element_count x]) = length (sb_retained x)"
  shows "for_each_res (densify_step x) (0, []) [0..<k] =
    Ok (length (filter (bitmap_get (sb_bitmap x)) [0..<k]),
        map (\<lambda>i. if bitmap_get (sb_bitmap x) i then sb_retained x ! length (filter (bitmap_get (sb_bitmap x)) [0..<i]) else f32_zero) [0..<k])"
  using assms(1)
proof (induction k)
  case (Suc k)
  let ?bit = "bitmap_get (sb_bitmap x)"
  have "length (filter ?bit [0..<k]) < length (sb_retained x)" if "?bit k"
  proof -
    have "[0..<sb_element_count x] = [0..<k] @ k # [Suc k..<sb_element_count x]"
      using Suc.prems by (intro upt_split) simp
    then have "length (filter ?bit [0..<k]) < length (filter ?bit [0..<sb_element_count x])" using that by simp
    then show ?thesis using assms(2) by simp
  qed
  then show ?case using Suc by (simp add: for_each_res_append densify_step_def)
qed simp

lemma sparse_count:
  assumes "sparse_validate ar x = Ok u"
  shows "length (filter (bitmap_get (sb_bitmap x)) [0..<sb_element_count x]) = length (sb_retained x)"
  using assms unfolding sparse_validate_def Let_def
  by (cases "checked_add (sb_element_count x) 7") (simp_all split: if_split_asm)

lemma sparse_bits:
  assumes "sparsify ar values t = Ok x" "i < length values"
  shows "bitmap_get (sb_bitmap x) i \<longleftrightarrow> retained t (values ! i)"
  using bitmap.get_pack [of "map (retained t) values" "(length values + 7) div 8" i] assms(2)
  by (simp add: sparsify_Ok(3) [OF assms(1)] div_less_iff_less_mult)

section \<open>Lemmas on columns\<close>

text \<open>The retained rows of a column.\<close>

definition col_rows :: "f32 \<Rightarrow> f32 list \<Rightarrow> nat \<Rightarrow> nat \<Rightarrow> nat \<Rightarrow> nat list" where
  "col_rows t dense rows cols col = filter (\<lambda>r. retained t (dense ! (r * cols + col))) [0..<rows]"

lemma csc_cells:
  assumes "for_each_res (csc_cell ar dense cols t col) (rs, vs, e) xs = Ok (rs', vs', e')" "\<forall>r \<in> set xs. r < u32_lim"
  shows "rs' = rs @ filter (\<lambda>r. retained t (dense ! (r * cols + col))) xs \<and>
    vs' = vs @ map (\<lambda>r. dense ! (r * cols + col)) (filter (\<lambda>r. retained t (dense ! (r * cols + col))) xs)"
  using assms
proof (induction xs arbitrary: rs vs e)
  case (Cons r xs)
  let ?v = "dense ! (r * cols + col)"
  have "f32_is_finite ?v" using Cons.prems by (simp add: csc_cell_def Let_def split: if_split_asm)
  then have "csc_cell ar dense cols t col (rs, vs, e) r = Ok (if retained t ?v then rs @ [r] else rs, if retained t ?v then vs @ [?v] else vs,
      account_error ar ?v (pruned t ?v) e)"
    using Cons.prems(2) by (simp add: csc_cell_def Let_def)
  then have "for_each_res (csc_cell ar dense cols t col) (if retained t ?v then rs @ [r] else rs, if retained t ?v then vs @ [?v] else vs,
      account_error ar ?v (pruned t ?v) e) xs = Ok (rs', vs', e')"
    using Cons.prems(1) by simp
  from Cons.IH [OF this] Cons.prems(2) show ?case by auto
qed simp

lemma csc_columns:
  assumes "for_each_res (csc_column ar dense rows cols t) ([0], [], [], e) [0..<c] = Ok (offs, rs, vs, e')" "rows < u32_lim"
  shows "offs = map (\<lambda>j. length (concat (map (col_rows t dense rows cols) [0..<j]))) [0..<Suc c] \<and>
    rs = concat (map (col_rows t dense rows cols) [0..<c]) \<and>
    vs = concat (map (\<lambda>col. map (\<lambda>r. dense ! (r * cols + col)) (col_rows t dense rows cols col)) [0..<c])"
  using assms(1)
proof (induction c arbitrary: offs rs vs e')
  case (Suc c)
  obtain offs1 rs1 vs1 e1 where pre: "for_each_res (csc_column ar dense rows cols t) ([0], [], [], e) [0..<c] = Ok (offs1, rs1, vs1, e1)"
    and cell: "for_each_res (csc_cell ar dense cols t c) (rs1, vs1, e1) [0..<rows] = Ok (rs, vs, e')" and offs: "offs = offs1 @ [length vs]"
    using Suc.prems by (auto simp: for_each_res_append csc_column_def)
  have "length (concat (map (\<lambda>col. map (\<lambda>r. dense ! (r * cols + col)) (col_rows t dense rows cols col)) xs)) =
      length (concat (map (col_rows t dense rows cols) xs))" for xs by (induction xs) simp_all
  moreover have "rs = rs1 @ col_rows t dense rows cols c \<and> vs = vs1 @ map (\<lambda>r. dense ! (r * cols + c)) (col_rows t dense rows cols c)"
    unfolding col_rows_def by (rule csc_cells [OF cell]) (use assms(2) in simp)
  ultimately show ?case using Suc.IH [OF pre] offs by simp
qed simp

text \<open>An accepted matrix, read column by column.\<close>

lemma csc_sparsify_Ok:
  assumes "csc_sparsify ar dense rows cols t = Ok m"
  shows "csc_validate ar m = Ok ()" "cm_rows m = rows" "cm_cols m = cols" "length dense = rows * cols" "rows * cols < u64_lim"
    "cm_column_offsets m = map (\<lambda>j. length (concat (map (col_rows t dense rows cols) [0..<j]))) [0..<Suc cols]"
    "cm_row_indices m = concat (map (col_rows t dense rows cols) [0..<cols])"
    "cm_values m = concat (map (\<lambda>col. map (\<lambda>r. dense ! (r * cols + col)) (col_rows t dense rows cols col)) [0..<cols])"
proof -
  let ?loop = "for_each_res (csc_column ar dense rows cols t) ([0], [], [], f32_zero, ar_zero ar) [0..<cols]"
  have guards: "\<not> (rows = 0 \<or> cols = 0)" "\<not> bad_threshold t" using assms by (auto simp: csc_sparsify_def split: if_split_asm)
  obtain n where n: "checked_mul rows cols = Some n"
    using assms guards by (cases "checked_mul rows cols") (simp_all add: csc_sparsify_def)
  have shape: "length dense = n" "\<not> rows \<ge> u32_lim"
    using assms guards n unfolding csc_sparsify_def by (simp_all split: if_split_asm)
  have "\<exists>offs rs vs mx s. ?loop = Ok (offs, rs, vs, mx, s) \<and> (\<exists>m'. m' = \<lparr>cm_rows = rows, cm_cols = cols, cm_threshold = t,
      cm_column_offsets = offs, cm_row_indices = rs, cm_values = vs, cm_max_abs_error = mx, cm_mse = ar_div64_len ar s n\<rparr> \<and>
      csc_validate ar m' = Ok () \<and> m' = m)"
    using assms guards n shape by (cases ?loop) (auto simp: csc_sparsify_def Let_def)
  then obtain offs rs vs mx s where loop: "?loop = Ok (offs, rs, vs, mx, s)" and valid: "csc_validate ar m = Ok ()"
    and m: "m = \<lparr>cm_rows = rows, cm_cols = cols, cm_threshold = t, cm_column_offsets = offs, cm_row_indices = rs, cm_values = vs,
      cm_max_abs_error = mx, cm_mse = ar_div64_len ar s n\<rparr>" by blast
  show "csc_validate ar m = Ok ()" by (rule valid)
  show "cm_rows m = rows" "cm_cols m = cols" "length dense = rows * cols" "rows * cols < u64_lim" using n shape by (simp_all add: m)
  show "cm_column_offsets m = map (\<lambda>j. length (concat (map (col_rows t dense rows cols) [0..<j]))) [0..<Suc cols]"
    "cm_row_indices m = concat (map (col_rows t dense rows cols) [0..<cols])"
    "cm_values m = concat (map (\<lambda>col. map (\<lambda>r. dense ! (r * cols + col)) (col_rows t dense rows cols col)) [0..<cols])"
    using csc_columns [OF loop] shape(2) by (simp_all add: m del: upt_Suc)
qed

lemma concat_upt_split:
  assumes "col < n"
  shows "concat (map f [0..<n]) = concat (map f [0..<col]) @ f col @ concat (map f [Suc col..<n])"
proof -
  have "[0..<n] = [0..<col] @ col # [Suc col..<n]" using assms by (rule upt_split)
  then show ?thesis by simp
qed

lemma csc_column_slice:
  assumes "csc_sparsify ar dense rows cols t = Ok m" "col < cols"
  defines "R \<equiv> col_rows t dense rows cols col" and "b \<equiv> cm_column_offsets m ! col"
  shows "cm_column_offsets m ! (col + 1) = b + length R" "b + length R \<le> length (cm_values m)"
    "length (cm_row_indices m) = length (cm_values m)"
    "\<forall>j < length R. cm_row_indices m ! (b + j) = R ! j \<and> cm_values m ! (b + j) = dense ! (R ! j * cols + col)"
proof -
  note C = csc_sparsify_Ok [OF assms(1)]
  let ?rows = "col_rows t dense rows cols" and ?vals = "\<lambda>col. map (\<lambda>r. dense ! (r * cols + col)) (col_rows t dense rows cols col)"
  have len: "length (concat (map ?vals xs)) = length (concat (map ?rows xs))" for xs by (induction xs) simp_all
  have b: "b = length (concat (map ?rows [0..<col]))" using assms(2) by (simp add: b_def C(6) del: upt_Suc)
  show "cm_column_offsets m ! (col + 1) = b + length R" using assms(2) by (simp add: C(6) b R_def del: upt_Suc) (simp add: upt_Suc_append)
  show "length (cm_row_indices m) = length (cm_values m)" by (simp only: C(7,8) len)
  have rs: "cm_row_indices m = concat (map ?rows [0..<col]) @ R @ concat (map ?rows [Suc col..<cols])"
    unfolding C(7) R_def by (rule concat_upt_split [OF assms(2)])
  have vs: "cm_values m = concat (map ?vals [0..<col]) @ ?vals col @ concat (map ?vals [Suc col..<cols])"
    unfolding C(8) by (rule concat_upt_split [OF assms(2)])
  show "b + length R \<le> length (cm_values m)" by (simp add: vs len b R_def del: length_concat)
  show "\<forall>j < length R. cm_row_indices m ! (b + j) = R ! j \<and> cm_values m ! (b + j) = dense ! (R ! j * cols + col)"
    by (simp add: rs vs b nth_append len [symmetric] R_def del: length_concat)
qed

text \<open>Writing a column, and all columns.\<close>

lemma write_rows:
  assumes "col < cols" "\<forall>r \<in> set rs. r * cols + col < length d" "i < length d"
  shows "foldl (\<lambda>d r. d[r * cols + col := f r]) d rs ! i =
    (if \<exists>r \<in> set rs. i = r * cols + col then f (i div cols) else d ! i)"
  using assms(2,3)
proof (induction rs arbitrary: d)
  case (Cons r rs)
  have "i = r' * cols + col \<Longrightarrow> i div cols = r'" for r' using assms(1) by simp
  then show ?case using Cons by (auto simp: nth_list_update)
qed simp

lemma length_write_rows [simp]: "length (foldl (\<lambda>d r. d[r * cols + col := f r]) d rs) = length d"
  by (induction rs arbitrary: d) simp_all

lemma foldl_upt_map: "foldl g d [b..<b + length xs] = foldl (\<lambda>d j. g d (b + j)) d [0..<length xs]"
proof -
  have "[b..<b + length xs] = map (\<lambda>j. b + j) [0..<length xs]" by (rule nth_equalityI) simp_all
  then show ?thesis by (simp only: foldl_map)
qed

lemma foldl_nth: "foldl (\<lambda>d j. g d (xs ! j)) d [0..<length xs] = foldl g d xs"
proof -
  have "map (\<lambda>j. xs ! j) [0..<length xs] = xs" by (rule map_nth)
  then show ?thesis by (metis foldl_map)
qed

lemma foldl_range_cong:
  assumes "\<And>j d. j < n \<Longrightarrow> g d j = h d j"
  shows "foldl g d [0..<n] = foldl h d [0..<n]"
  by (rule foldl_cong) (use assms in simp_all)

text \<open>The entries of a column, visited by index, are its retained rows in order.\<close>

lemma csc_visit:
  assumes "csc_sparsify ar dense rows cols t = Ok m" "col < cols"
    and "\<And>j d. j < length (cm_values m) \<Longrightarrow> g d j = h d (cm_row_indices m ! j) (cm_values m ! j)"
  shows "foldl g d [cm_column_offsets m ! col..<cm_column_offsets m ! (col + 1)] =
    foldl (\<lambda>d r. h d r (dense ! (r * cols + col))) d (col_rows t dense rows cols col)"
proof -
  let ?R = "col_rows t dense rows cols col" and ?b = "cm_column_offsets m ! col"
  note S = csc_column_slice [OF assms(1,2)]
  have "foldl g d [?b..<?b + length ?R] = foldl (\<lambda>d j. g d (?b + j)) d [0..<length ?R]" by (rule foldl_upt_map)
  also have "\<dots> = foldl (\<lambda>d j. h d (?R ! j) (dense ! (?R ! j * cols + col))) d [0..<length ?R]"
    by (rule foldl_range_cong) (use S(2,4) assms(3) in simp)
  also have "\<dots> = foldl (\<lambda>d r. h d r (dense ! (r * cols + col))) d ?R"
    by (rule foldl_nth [where g = "\<lambda>d r. h d r (dense ! (r * cols + col))"])
  finally show ?thesis unfolding S(1) .
qed

lemma csc_densify_columns:
  assumes "csc_sparsify ar dense rows cols t = Ok m" "c \<le> cols"
  defines "D \<equiv> foldl (\<lambda>d col. foldl (csc_write m col) d [cm_column_offsets m ! col..<cm_column_offsets m ! (col + 1)])
      (replicate (rows * cols) f32_zero) [0..<c]"
  shows "length D = rows * cols \<and> (\<forall>i < rows * cols. D ! i = (if i mod cols < c then pruned t (dense ! i) else f32_zero))"
  using assms(2) unfolding D_def
proof (induction c)
  case (Suc c)
  define D where "D = foldl (\<lambda>d col. foldl (csc_write m col) d [cm_column_offsets m ! col..<cm_column_offsets m ! (col + 1)])
      (replicate (rows * cols) f32_zero) [0..<c]"
  have IH: "length D = rows * cols" "\<forall>i < rows * cols. D ! i = (if i mod cols < c then pruned t (dense ! i) else f32_zero)"
    using Suc.IH Suc.prems by (simp_all add: D_def)
  have c: "c < cols" using Suc.prems by simp
  have col: "foldl (csc_write m c) D [cm_column_offsets m ! c..<cm_column_offsets m ! (c + 1)] =
      foldl (\<lambda>d r. d[r * cols + c := dense ! (r * cols + c)]) D (col_rows t dense rows cols c)"
    by (rule csc_visit [OF assms(1) c, where h = "\<lambda>d r v. d[r * cols + c := v]"])
       (simp add: csc_write_def csc_sparsify_Ok(3) [OF assms(1)])
  have inside: "\<forall>r \<in> set (col_rows t dense rows cols c). r * cols + c < length D"
  proof
    fix r assume "r \<in> set (col_rows t dense rows cols c)"
    then have "r < rows" by (simp add: col_rows_def)
    then have "r * cols + cols \<le> rows * cols" by (metis Suc_leI add.commute mult_Suc mult_le_mono1)
    then show "r * cols + c < length D" using c IH(1) by simp
  qed
  have "foldl (\<lambda>d r. d[r * cols + c := dense ! (r * cols + c)]) D (col_rows t dense rows cols c) ! i =
      (if i mod cols < Suc c then pruned t (dense ! i) else f32_zero)" if i: "i < rows * cols" for i
  proof -
    have hit: "(\<exists>r \<in> set (col_rows t dense rows cols c). i = r * cols + c) \<longleftrightarrow> i mod cols = c \<and> retained t (dense ! i)"
    proof
      assume "i mod cols = c \<and> retained t (dense ! i)"
      moreover have "i div cols < rows" using i c by (simp add: div_less_iff_less_mult)
      moreover have "i div cols * cols + i mod cols = i" by simp
      ultimately show "\<exists>r \<in> set (col_rows t dense rows cols c). i = r * cols + c"
        by (intro bexI [of _ "i div cols"]) (auto simp: col_rows_def)
    next
      assume "\<exists>r \<in> set (col_rows t dense rows cols c). i = r * cols + c"
      then show "i mod cols = c \<and> retained t (dense ! i)" using c by (auto simp: col_rows_def)
    qed
    have "i mod cols = c \<Longrightarrow> i div cols * cols + c = i" using div_mult_mod_eq [of i cols] by simp
    then show ?thesis
      using write_rows [OF c inside, of i "\<lambda>r. dense ! (r * cols + c)"] i c IH hit by (auto simp: pruned_def)
  qed
  then show ?case using IH(1) by (simp add: D_def [symmetric] col del: One_nat_def)
qed simp

text \<open>The kernel's loop over a column never meets a row out of range.\<close>

lemma csc_project_column_eq:
  assumes "csc_sparsify ar dense k n t = Ok m" "length input = k" "col < n"
  shows "csc_project_column ar' input (cm_column_offsets m) (cm_row_indices m) (cm_values m) k (length (cm_values m)) col =
    Some (foldl (\<lambda>acc r. ar_fma ar' (input ! r) (dense ! (r * n + col)) acc) f32_zero (col_rows t dense k n col))"
proof -
  note S = csc_column_slice [OF assms(1,3)] and C = csc_sparsify_Ok [OF assms(1)]
  let ?b = "cm_column_offsets m ! col" and ?R = "col_rows t dense k n col"
  let ?step = "\<lambda>acc j. ar_fma ar' (input ! (cm_row_indices m ! j)) (cm_values m ! j) acc"
  have row: "cm_row_indices m ! j < k" if "j \<in> set [?b..<?b + length ?R]" for j
  proof -
    note j = that
    obtain i where "j = ?b + i" "i < length ?R" using j by (auto simp: le_iff_add)
    then have "cm_row_indices m ! j \<in> set ?R" using S(4) by simp
    then show ?thesis by (simp add: col_rows_def)
  qed
  have "opt_for (csc_project_step ar' input (cm_row_indices m) (cm_values m) k) (Summing acc) xs = Some (Summing (foldl ?step acc xs))"
    if "set xs \<subseteq> set [?b..<?b + length ?R]" for acc xs
    using that
  proof (induction xs arbitrary: acc)
    case (Cons j xs)
    have "j < length (cm_values m)" using Cons.prems S(2) by auto
    then show ?case using Cons row [of j] S(3) assms(2) by (simp add: csc_project_step_def fetch_def)
  qed simp
  then have "opt_for (csc_project_step ar' input (cm_row_indices m) (cm_values m) k) (Summing f32_zero) [?b..<?b + length ?R] =
      Some (Summing (foldl ?step f32_zero [?b..<?b + length ?R]))" by simp
  also have "foldl ?step f32_zero [?b..<?b + length ?R] = foldl (\<lambda>acc r. ar_fma ar' (input ! r) (dense ! (r * n + col)) acc) f32_zero ?R"
    unfolding S(1) [symmetric] by (rule csc_visit [OF assms(1,3), where h = "\<lambda>acc r v. ar_fma ar' (input ! r) v acc"]) simp
  finally have loop: "opt_for (csc_project_step ar' input (cm_row_indices m) (cm_values m) k) (Summing f32_zero) [?b..<?b + length ?R] =
      Some (Summing (foldl (\<lambda>acc r. ar_fma ar' (input ! r) (dense ! (r * n + col)) acc) f32_zero ?R))" .
  have "length (cm_column_offsets m) = Suc n" by (simp add: C(6) del: upt_Suc)
  then have "fetch (cm_column_offsets m) col = Some ?b" "fetch (cm_column_offsets m) (col + 1) = Some (?b + length ?R)"
    using assms(3) S(1) by (simp_all add: fetch_def)
  then show ?thesis using S(2) by (simp add: csc_project_column_def loop)
qed

section \<open>A concrete matrix\<close>

text \<open>One row of two entries, the second of them zero.\<close>

definition csc_sample :: "nat csc_matrix" where
  "csc_sample = \<lparr>cm_rows = 1, cm_cols = 2, cm_threshold = f32_zero, cm_column_offsets = [0, 1, 1], cm_row_indices = [0], cm_values = [f32_one],
     cm_max_abs_error = f32_zero, cm_mse = 0\<rparr>"

definition sparse_sample :: "nat sparse_tensor" where
  "sparse_sample = \<lparr>sb_element_count = 2, sb_threshold = f32_zero, sb_bitmap = [1], sb_retained = [f32_one], sb_max_abs_error = f32_zero, sb_mse = 0\<rparr>"

lemma retained_units: "retained f32_zero f32_one" "\<not> retained f32_zero 0" "\<not> bad_threshold f32_zero" "f32_is_finite 0"
proof -
  have z: "f32_abs f32_one = f32_one" "f32_abs 0 = 0" by (simp_all add: unit_facts)
  have key: "f32_key f32_one = 0x3F800000" "f32_key 0 = 0" "\<not> f32_is_nan f32_one" "\<not> f32_is_nan 0"
    by (simp_all add: f32_key_def f32_one_def f32_mag_def f32_sign_negative_def f32_is_nan_def bit_iff_odd)
  show "retained f32_zero f32_one" "\<not> retained f32_zero 0" by (simp_all add: retained_def z f32_lt_def key)
  show "\<not> bad_threshold f32_zero" "f32_is_finite 0" by (simp_all add: bad_threshold_def f32_lt_def f32_is_finite_def f32_mag_def f32_zero_def)
qed

lemma sparse_sample_made: "sparsify first_arith [f32_one, 0] f32_zero = Ok sparse_sample"
proof -
  have bytes: "bitmap_put [0] 0 True = [1]" "bitmap_get [1] 0" "\<not> bitmap_get [1] 1" "(1 :: u8) AND NOT (push_bit 2 1 - 1) = 0" by code_simp+
  have upt: "[0..<2] = [0, 1 :: nat]" by (simp add: upt_rec)
  have "sparse_validate first_arith sparse_sample = Ok ()"
    using bytes by (simp add: sparse_validate_def sparse_sample_def retained_units unit_facts checked_add_def u64_lim_def upt)
  moreover have "bitmap_put [1] 1 False = [1]" by (simp add: bitmap_put_def)
  ultimately show ?thesis
    using bytes(1) by (simp add: sparsify_def sparsify_step_def retained_units unit_facts checked_add_def u64_lim_def account_error_def Let_def
        sparse_sample_def numeral_2_eq_2)
qed

lemma csc_sample_valid: "csc_validate first_arith csc_sample = Ok ()"
proof -
  have fields: "cm_rows csc_sample = 1" "cm_cols csc_sample = 2" "cm_threshold csc_sample = f32_zero" "cm_column_offsets csc_sample = [0, 1, 1]"
    "cm_row_indices csc_sample = [0]" "cm_values csc_sample = [f32_one]" "cm_max_abs_error csc_sample = f32_zero" "cm_mse csc_sample = 0"
    by (simp_all add: csc_sample_def)
  have one: "[0..<1] = [0 :: nat]" by simp
  have "csc_check_entry csc_sample None 0 = Ok (Some 0)" by (simp add: csc_check_entry_def fields Let_def unit_facts)
  then have "csc_check_column csc_sample 0 = Ok ()" by (simp add: csc_check_column_def fields Let_def)
  moreover have "csc_check_column csc_sample 1 = Ok ()" by (simp add: csc_check_column_def fields Let_def)
  ultimately have cols: "check_all (csc_check_column csc_sample) [0..<2] = Ok ()" by (rule check_two)
  have add: "checked_add 2 1 = Some 3" by (simp add: checked_add_def u64_lim_def)
  show ?thesis unfolding csc_validate_def fields add ok_or_simps and_then_simps cols
    by (simp add: retained_units unit_facts u32_lim_def)
qed

lemma csc_sample_made: "csc_sparsify first_arith [f32_one, 0] 1 2 f32_zero = Ok csc_sample"
proof -
  have upt: "[0..<2] = [0, 1 :: nat]" "[0..<1] = [0 :: nat]" by (simp_all add: upt_rec)
  have c0: "csc_column first_arith [f32_one, 0] 1 2 f32_zero ([0], [], [], f32_zero, 0) 0 = Ok ([0, 1], [0], [f32_one], f32_zero, 0)"
    unfolding csc_column_def prod.case upt
    by (simp add: csc_cell_def retained_units unit_facts account_error_def Let_def as_u32_def)
  have c1: "csc_column first_arith [f32_one, 0] 1 2 f32_zero ([0, 1], [0], [f32_one], f32_zero, 0) 1 = Ok ([0, 1, 1], [0], [f32_one], f32_zero, 0)"
    unfolding csc_column_def prod.case upt
    by (simp add: csc_cell_def retained_units unit_facts account_error_def Let_def)
  have mul: "checked_mul 1 2 = Some 2" by (simp add: checked_mul_def u64_lim_def)
  have m: "\<lparr>cm_rows = 1, cm_cols = 2, cm_threshold = f32_zero, cm_column_offsets = [0, 1, 1], cm_row_indices = [0], cm_values = [f32_one],
      cm_max_abs_error = f32_zero, cm_mse = ar_div64_len first_arith 0 2\<rparr> = csc_sample"
    by (simp add: csc_sample_def)
  show ?thesis
    unfolding csc_sparsify_def mul ok_or_simps and_then_simps upt for_each_res.simps first_arith_sel(7) c0 c1 prod.case Let_def m csc_sample_valid
    by (simp add: retained_units u32_lim_def)
qed

section \<open>Properties\<close>

text \<open>A pruned tensor expands to its source.  Expanding an accepted sparse tensor gives the source values, those whose
  magnitude does not exceed the threshold replaced by zero: the bitmap and the retained values agree, and no
  expansion runs out of values.\<close>

theorem sparse_roundtrip:
  assumes "sparsify ar values t = Ok x"
  shows "densify ar x = Ok (map (pruned t) values)"
proof -
  note X = sparsify_Ok [OF assms]
  let ?bit = "bitmap_get (sb_bitmap x)"
  note count = sparse_count [OF X(1)]
  have loop: "for_each_res (densify_step x) (0, []) [0..<sb_element_count x] = Ok (length (sb_retained x),
      map (\<lambda>i. if ?bit i then sb_retained x ! length (filter ?bit [0..<i]) else f32_zero) [0..<sb_element_count x])"
    using densify_loop [OF order_refl count] count by simp
  have "map (\<lambda>i. if ?bit i then sb_retained x ! length (filter ?bit [0..<i]) else f32_zero) [0..<sb_element_count x] = map (pruned t) values"
  proof (rule nth_equalityI)
    fix i assume "i < length (map (\<lambda>i. if ?bit i then sb_retained x ! length (filter ?bit [0..<i]) else f32_zero) [0..<sb_element_count x])"
    then have i: "i < length values" by (simp add: X(2))
    have "filter ?bit [0..<i] = filter (\<lambda>j. retained t (values ! j)) [0..<i]"
      by (rule filter_cong) (use i sparse_bits [OF assms] in auto)
    then have "sb_retained x ! length (filter ?bit [0..<i]) = values ! i" if "retained t (values ! i)"
      using filter_nth [OF i, of "retained t"] that i by (simp add: X(4) filter_upt_length)
    then show "map (\<lambda>i. if ?bit i then sb_retained x ! length (filter ?bit [0..<i]) else f32_zero) [0..<sb_element_count x] ! i = map (pruned t) values ! i"
      using i sparse_bits [OF assms i] by (simp add: X(2) pruned_def)
  qed (simp add: X(2))
  then show ?thesis using loop by (simp add: densify_def X(1))
qed

theorem sparse_roundtrip_witness: "densify first_arith sparse_sample = Ok [f32_one, f32_zero]"
  using sparse_roundtrip [OF sparse_sample_made] by (simp add: pruned_def retained_units)

text \<open>A pruned matrix expands to its source.  The column-compressed form of a row-major matrix, expanded again, is the
  matrix with the small values replaced by zero, every entry back in its row and column.\<close>

theorem csc_roundtrip:
  assumes "csc_sparsify ar dense rows cols t = Ok m"
  shows "csc_densify ar m = Ok (map (pruned t) dense)"
proof -
  note C = csc_sparsify_Ok [OF assms]
  let ?D = "foldl (\<lambda>d col. foldl (csc_write m col) d [cm_column_offsets m ! col..<cm_column_offsets m ! (col + 1)])
      (replicate (rows * cols) f32_zero) [0..<cols]"
  have D: "length ?D = rows * cols" "\<forall>i < rows * cols. ?D ! i = (if i mod cols < cols then pruned t (dense ! i) else f32_zero)"
    using csc_densify_columns [OF assms order_refl] by blast+
  have "?D = map (pruned t) dense"
  proof (rule nth_equalityI)
    fix i assume "i < length ?D"
    then have i: "i < rows * cols" using D(1) by simp
    then have "0 < cols" by (cases cols) simp_all
    then show "?D ! i = map (pruned t) dense ! i" using D(2) i C(4) by simp
  qed (simp only: D(1) length_map C(4))
  then show ?thesis using C(2,3,5) by (simp add: csc_densify_def C(1))
qed

theorem csc_roundtrip_witness: "csc_densify first_arith csc_sample = Ok [f32_one, f32_zero]"
  using csc_roundtrip [OF csc_sample_made] by (simp add: pruned_def retained_units)

text \<open>C24. A sparse projection skips exactly the pruned weights.  On the compressed form of a matrix, the CSC kernel, its
  threads in any order, accesses nothing out of bounds, poisons no column, and leaves per column the fused
  multiply-adds over the rows whose weight was retained, in row order, with the source's weights.\<close>

theorem csc_projection_exact:
  assumes "csc_sparsify ar dense k n t = Ok m" "length input = k" "length out = n"
    and "for_num_elements n block = Ok c" "schedule_of c order"
  shows "run_schedule (column_thread (csc_project_column ar' input (cm_column_offsets m) (cm_row_indices m) (cm_values m) k (length (cm_values m))) n)
      c order out =
    Some (map (\<lambda>col. foldl (\<lambda>acc row. ar_fma ar' (input ! row) (dense ! (row * n + col)) acc) f32_zero
      (filter (\<lambda>row. retained t (dense ! (row * n + col))) [0..<k])) [0..<n])"
  by (rule run_columns [OF assms(4,5) _ assms(3)])
     (simp add: csc_project_column_eq [OF assms(1,2)] col_rows_def)

theorem csc_projection_exact_witness:
  "\<exists>out. run_schedule (column_thread (csc_project_column first_arith [f32_one] [0, 1, 1] [0] [f32_one] 1 1) 2) pair_config [(0, 1), (0, 0)] [0, 0] =
     Some out \<and> length out = 2"
proof -
  have "cm_column_offsets csc_sample = [0, 1, 1]" "cm_row_indices csc_sample = [0]" "cm_values csc_sample = [f32_one]"
    "length [f32_one] = 1" "length [0 :: f32, 0] = 2" by (simp_all add: csc_sample_def)
  then show ?thesis
    using csc_projection_exact [OF csc_sample_made _ _ pair_config pair_schedules(2), of "[f32_one]" "[0, 0]" first_arith] by simp
qed

end
