(* ===== verification/Checkpoint.thy ===== *)
theory Checkpoint
  imports ModelWeights PackedCodes Sha256
begin

text \<open>
  Identities that evidence is bound to: \<open>decoder_capabilities.rs\<close>, \<open>exact_checkpoint_spec.rs\<close> and
  \<open>generated_token_evidence.rs\<close>.  These use the external \<open>sha2\<close> crate, so the digest is an argument, and what is
  shown of the hashed records is that equal digests of different records are a collision of it.
\<close>

section \<open>Capabilities of a decoder\<close>

datatype attention_topology = MultiHead | GroupedQuery | MultiQuery

fun topology_name :: "attention_topology \<Rightarrow> rstr" where
  "topology_name MultiHead = lit ''multi_head''"
| "topology_name GroupedQuery = lit ''grouped_query''"
| "topology_name MultiQuery = lit ''multi_query''"

datatype rope_semantics = LlamaRotateHalfUnscaled

fun rope_name :: "rope_semantics \<Rightarrow> rstr" where
  "rope_name LlamaRotateHalfUnscaled = lit ''llama_rotate_half_unscaled''"

datatype mlp_semantics = SwiGluSilu

fun mlp_name :: "mlp_semantics \<Rightarrow> rstr" where
  "mlp_name SwiGluSilu = lit ''swiglu_silu''"

record decoder_capabilities =
  dc_contract_version :: nat
  dc_topology :: attention_topology
  dc_rope :: rope_semantics
  dc_mlp :: mlp_semantics
  dc_weight_dtype :: weight_dtype
  dc_q_heads :: nat
  dc_kv_heads :: nat
  dc_head_dim :: nat

fun dtype_text :: "weight_dtype \<Rightarrow> rstr" where
  "dtype_text W_F32 = lit ''f32''"
| "dtype_text W_Bf16 = lit ''bf16''"

text \<open>A record is a sequence of lines, each ended by a line feed.\<close>

definition lines_text :: "rstr list \<Rightarrow> rstr" where
  "lines_text ls = concat (map (\<lambda>l. l @ [10]) ls)"

definition capability_record :: "decoder_capabilities \<Rightarrow> rstr" where
  "capability_record d = lines_text
     [lit ''NNIS-DECODER-CAPABILITY-V'' @ dec (dc_contract_version d),
      lit ''attention='' @ topology_name (dc_topology d),
      lit ''rope='' @ rope_name (dc_rope d),
      lit ''mlp='' @ mlp_name (dc_mlp d),
      lit ''weight_dtype='' @ dtype_text (dc_weight_dtype d),
      lit ''q_heads='' @ dec (dc_q_heads d),
      lit ''kv_heads='' @ dec (dc_kv_heads d),
      lit ''head_dim='' @ dec (dc_head_dim d)]"

definition NNIS_DECODER_CAPABILITY_VERSION :: nat where "NNIS_DECODER_CAPABILITY_VERSION = 1"

definition config_topology :: "model_config \<Rightarrow> attention_topology" where
  "config_topology c =
     (if mc_num_key_value_heads c = mc_num_attention_heads c then MultiHead
      else if mc_num_key_value_heads c = 1 then MultiQuery else GroupedQuery)"

definition decoder_capabilities_of :: "model_config \<Rightarrow> nnis_error + decoder_capabilities" where
  "decoder_capabilities_of c =
     and_then (validate_execution_support c) (\<lambda>_.
       Ok \<lparr>dc_contract_version = NNIS_DECODER_CAPABILITY_VERSION, dc_topology = config_topology c,
           dc_rope = LlamaRotateHalfUnscaled, dc_mlp = SwiGluSilu, dc_weight_dtype = mc_weight_dtype c,
           dc_q_heads = mc_num_attention_heads c, dc_kv_heads = mc_num_key_value_heads c, dc_head_dim = mc_head_dim c\<rparr>)"

section \<open>The \<open>Debug\<close> text of a configuration\<close>

text \<open>\<open>{:?}\<close> of an \<open>f32\<close>: the shortest digits, in decimal with at least one place between \<open>1e-4\<close> and \<open>1e16\<close>,
  otherwise with an exponent.\<close>

fun strip_zeros :: "rstr \<Rightarrow> rstr" where
  "strip_zeros s = rev (dropWhile (\<lambda>c. c = 48) (rev s))"

definition f32_exponential :: "nat \<Rightarrow> nat \<Rightarrow> rstr" where
  "f32_exponential num den =
     (let digits = strip_zeros (dec num); e = int (length (dec num)) - int (length (dec den))
      in [hd digits] @ (if tl digits = [] then [] else lit ''.'' @ tl digits) @ lit ''e'' @
         (if e < 0 then lit ''-'' @ dec (nat (- e)) else dec (nat e)))"

definition f32_debug :: "f32 \<Rightarrow> rstr" where
  "f32_debug x =
     (if \<not> f32_is_finite x then f32_display x
      else if f32_mag x \<noteq> 0 \<and> (f32_mag x < 0x38D1B717 \<or> 0x5A0E1BCA \<le> f32_mag x) then
        (if f32_sign_negative x then lit ''-'' else []) @
        (case f32_shortest 100 x (- 39) of (num, den) \<Rightarrow> f32_exponential num den)
      else f32_display x @ (if 46 \<in> set (f32_display x) then [] else lit ''.0''))"

fun eos_debug :: "nat option \<Rightarrow> rstr" where
  "eos_debug None = lit ''None''"
| "eos_debug (Some e) = lit ''Some('' @ dec e @ lit '')''"

fun activation_debug :: "activation \<Rightarrow> rstr" where
  "activation_debug Silu = lit ''Silu''"

definition config_debug :: "model_config \<Rightarrow> rstr" where
  "config_debug c =
     lit ''ModelConfig { vocab_size: '' @ dec (mc_vocab_size c) @ lit '', eos_token_id: '' @ eos_debug (mc_eos_token_id c) @
     lit '', hidden_size: '' @ dec (mc_hidden_size c) @ lit '', intermediate_size: '' @ dec (mc_intermediate_size c) @
     lit '', num_hidden_layers: '' @ dec (mc_num_hidden_layers c) @ lit '', num_attention_heads: '' @ dec (mc_num_attention_heads c) @
     lit '', num_key_value_heads: '' @ dec (mc_num_key_value_heads c) @
     lit '', max_position_embeddings: '' @ dec (mc_max_position_embeddings c) @
     lit '', rms_norm_eps: '' @ f32_debug (mc_rms_norm_eps c) @ lit '', rope_theta: '' @ f32_debug (mc_rope_theta c) @
     lit '', activation: '' @ activation_debug (mc_activation c) @ lit '', weight_dtype: '' @ dtype_debug (mc_weight_dtype c) @ lit '' }''"

text \<open>\<open>{:?}\<close> of the capability records: they are ASCII, and \<open>debug_name\<close> escapes the line feeds.\<close>

section \<open>Exact checkpoints\<close>

definition NNIS_EXACT_DECODER_CHECKPOINT_SPEC_VERSION :: nat where "NNIS_EXACT_DECODER_CHECKPOINT_SPEC_VERSION = 1"

record checkpoint_spec =
  ck_contract_version :: nat
  ck_name :: rstr
  ck_source_repo :: rstr
  ck_source_revision :: rstr
  ck_source_model_sha256 :: rstr
  ck_vocab_size :: nat
  ck_eos_token_id :: "nat option"
  ck_hidden_size :: nat
  ck_intermediate_size :: nat
  ck_num_hidden_layers :: nat
  ck_num_attention_heads :: nat
  ck_num_key_value_heads :: nat
  ck_max_position_embeddings :: nat
  ck_rms_norm_eps :: f32
  ck_rope_theta :: f32
  ck_activation :: activation
  ck_weight_dtype :: weight_dtype
  ck_expected_capability_record :: rstr

definition expected_config :: "checkpoint_spec \<Rightarrow> model_config" where
  "expected_config s =
     \<lparr>mc_vocab_size = ck_vocab_size s, mc_eos_token_id = ck_eos_token_id s, mc_hidden_size = ck_hidden_size s,
      mc_intermediate_size = ck_intermediate_size s, mc_num_hidden_layers = ck_num_hidden_layers s,
      mc_num_attention_heads = ck_num_attention_heads s, mc_num_key_value_heads = ck_num_key_value_heads s,
      mc_max_position_embeddings = ck_max_position_embeddings s, mc_rms_norm_eps = ck_rms_norm_eps s,
      mc_rope_theta = ck_rope_theta s, mc_activation = ck_activation s, mc_weight_dtype = ck_weight_dtype s\<rparr>"

text \<open>An \<open>f32\<close> is its bits, so the comparison of the two floating-point fields is one of bits, as in the code.\<close>

definition geometry_matches :: "model_config \<Rightarrow> model_config \<Rightarrow> bool" where
  "geometry_matches c expected \<longleftrightarrow>
     mc_vocab_size c = mc_vocab_size expected \<and> mc_eos_token_id c = mc_eos_token_id expected \<and>
     mc_hidden_size c = mc_hidden_size expected \<and> mc_intermediate_size c = mc_intermediate_size expected \<and>
     mc_num_hidden_layers c = mc_num_hidden_layers expected \<and> mc_num_attention_heads c = mc_num_attention_heads expected \<and>
     mc_num_key_value_heads c = mc_num_key_value_heads expected \<and>
     mc_max_position_embeddings c = mc_max_position_embeddings expected \<and>
     mc_rms_norm_eps c = mc_rms_norm_eps expected \<and> mc_rope_theta c = mc_rope_theta expected \<and>
     mc_activation c = mc_activation expected \<and> mc_weight_dtype c = mc_weight_dtype expected"

definition checkpoint_validate_config :: "checkpoint_spec \<Rightarrow> model_config \<Rightarrow> nnis_error + decoder_capabilities" where
  "checkpoint_validate_config s c =
     (if ck_contract_version s \<noteq> NNIS_EXACT_DECODER_CHECKPOINT_SPEC_VERSION then
        Err (unsupported (lit ''unsupported exact checkpoint spec version '' @ dec (ck_contract_version s) @ lit '' for '' @ ck_name s))
      else
        and_then (validate_execution_support c) (\<lambda>_.
          if \<not> geometry_matches c (expected_config s) then
            Err (invalid_input (lit ''loaded model config does not match exact checkpoint spec '' @ ck_name s @ lit '': got '' @
              config_debug c @ lit '', expected '' @ config_debug (expected_config s)))
          else
            and_then (decoder_capabilities_of c) (\<lambda>d.
              if capability_record d \<noteq> ck_expected_capability_record s then
                Err (invalid_input (lit ''decoder capability record for '' @ ck_name s @ lit '' drifted: got '' @
                  debug_name (capability_record d) @ lit '', expected '' @ debug_name (ck_expected_capability_record s)))
              else Ok d)))"

subsection \<open>The digest of the model file\<close>

text \<open>What \<open>File::open\<close> and each \<open>read\<close> return are given; the file has ended when a read returns no bytes.  The hasher
  keeps what it was given, and \<open>sha\<close> is its digest.\<close>

definition is_hex_digest :: "rstr \<Rightarrow> bool" where
  "is_hex_digest s \<longleftrightarrow> str_len s = 64 \<and> list_all (\<lambda>b. is_lower_hex (unat b)) (as_bytes s)"

definition io_error :: "string \<Rightarrow> rstr \<Rightarrow> nnis_error" where
  "io_error op what = \<lparr>ne_kind = IoFailure what, ne_op = lit op, ne_context = []\<rparr>"

fun hash_reads :: "u8 list \<Rightarrow> (rstr + u8 list) list \<Rightarrow> nnis_error + u8 list" where
  "hash_reads hasher [] = Ok hasher"
| "hash_reads hasher (Inl e # reads) = Err (io_error ''hash exact checkpoint model payload'' e)"
| "hash_reads hasher (Inr bytes # reads) = (if bytes = [] then Ok hasher else hash_reads (hasher @ bytes) reads)"

definition verify_model_file_sha256 ::
  "(u8 list \<Rightarrow> u8 list) \<Rightarrow> checkpoint_spec \<Rightarrow> rstr + unit \<Rightarrow> (rstr + u8 list) list \<Rightarrow> nnis_error + rstr" where
  "verify_model_file_sha256 sha s opened reads =
     (if \<not> is_hex_digest (ck_source_model_sha256 s) then
        Err (invalid_input (lit ''exact checkpoint spec '' @ ck_name s @ lit '' contains an invalid source model SHA-256''))
      else
        and_then (map_err (io_error ''open exact checkpoint model payload'') opened) (\<lambda>_.
        and_then (hash_reads [] reads) (\<lambda>hasher.
          let actual = to_hex (sha hasher) in
          if actual \<noteq> ck_source_model_sha256 s then
            Err (invalid_input (lit ''model payload SHA-256 mismatch for '' @ ck_name s @ lit '': got '' @ actual @
              lit '', expected '' @ ck_source_model_sha256 s))
          else Ok actual)))"

subsection \<open>The identity\<close>

definition canonical_identity :: "checkpoint_spec \<Rightarrow> rstr" where
  "canonical_identity s = lines_text
     [lit ''NNIS-EXACT-DECODER-CHECKPOINT-SPEC-V'' @ dec (ck_contract_version s),
      lit ''name='' @ ck_name s,
      lit ''repo='' @ ck_source_repo s,
      lit ''revision='' @ ck_source_revision s,
      lit ''model_sha256='' @ ck_source_model_sha256 s,
      lit ''vocab_size='' @ dec (ck_vocab_size s),
      lit ''eos_token_id='' @ (case ck_eos_token_id s of None \<Rightarrow> lit ''none'' | Some e \<Rightarrow> dec e),
      lit ''hidden_size='' @ dec (ck_hidden_size s),
      lit ''intermediate_size='' @ dec (ck_intermediate_size s),
      lit ''layers='' @ dec (ck_num_hidden_layers s),
      lit ''q_heads='' @ dec (ck_num_attention_heads s),
      lit ''kv_heads='' @ dec (ck_num_key_value_heads s),
      lit ''max_positions='' @ dec (ck_max_position_embeddings s),
      lit ''rms_norm_eps_bits='' @ dec (unat (ck_rms_norm_eps s)),
      lit ''rope_theta_bits='' @ dec (unat (ck_rope_theta s)),
      lit ''activation=silu'',
      lit ''weight_dtype='' @ dtype_text (ck_weight_dtype s)]"

definition evidence_key :: "(u8 list \<Rightarrow> u8 list) \<Rightarrow> checkpoint_spec \<Rightarrow> rstr" where
  "evidence_key sha s = ck_name s @ lit ''@sha256:'' @ to_hex (sha (as_bytes (canonical_identity s)))"

definition SMOLLM2_135M_CAPABILITY_RECORD :: rstr where
  "SMOLLM2_135M_CAPABILITY_RECORD = lines_text
     [lit ''NNIS-DECODER-CAPABILITY-V1'', lit ''attention=grouped_query'', lit ''rope=llama_rotate_half_unscaled'',
      lit ''mlp=swiglu_silu'', lit ''weight_dtype=bf16'', lit ''q_heads=9'', lit ''kv_heads=3'', lit ''head_dim=64'']"

definition TINYLLAMA_1P1B_CHAT_CAPABILITY_RECORD :: rstr where
  "TINYLLAMA_1P1B_CHAT_CAPABILITY_RECORD = lines_text
     [lit ''NNIS-DECODER-CAPABILITY-V1'', lit ''attention=grouped_query'', lit ''rope=llama_rotate_half_unscaled'',
      lit ''mlp=swiglu_silu'', lit ''weight_dtype=bf16'', lit ''q_heads=32'', lit ''kv_heads=4'', lit ''head_dim=64'']"

definition SMOLLM2_135M_BF16 :: checkpoint_spec where
  "SMOLLM2_135M_BF16 =
     \<lparr>ck_contract_version = NNIS_EXACT_DECODER_CHECKPOINT_SPEC_VERSION, ck_name = lit ''smollm2-135m-bf16'',
      ck_source_repo = lit ''HuggingFaceTB/SmolLM2-135M'', ck_source_revision = lit ''93efa2f097d58c2a74874c7e644dbc9b0cee75a2'',
      ck_source_model_sha256 = lit ''80521b40281d6ce74e35c9282c22539e75aa0ac8578892b2a59955ef78d55da1'',
      ck_vocab_size = 49152, ck_eos_token_id = Some 0, ck_hidden_size = 576, ck_intermediate_size = 1536,
      ck_num_hidden_layers = 30, ck_num_attention_heads = 9, ck_num_key_value_heads = 3, ck_max_position_embeddings = 8192,
      ck_rms_norm_eps = 0x3727C5AC, ck_rope_theta = 0x47C35000, ck_activation = Silu, ck_weight_dtype = W_Bf16,
      ck_expected_capability_record = SMOLLM2_135M_CAPABILITY_RECORD\<rparr>"

definition TINYLLAMA_1P1B_CHAT_BF16 :: checkpoint_spec where
  "TINYLLAMA_1P1B_CHAT_BF16 =
     \<lparr>ck_contract_version = NNIS_EXACT_DECODER_CHECKPOINT_SPEC_VERSION, ck_name = lit ''tinyllama-1.1b-chat-v1.0-bf16'',
      ck_source_repo = lit ''TinyLlama/TinyLlama-1.1B-Chat-v1.0'', ck_source_revision = lit ''d9128824c0c80111be21424e68086f52413fb413'',
      ck_source_model_sha256 = lit ''6e6001da2106d4757498752a021df6c2bdc332c650aae4bae6b0c004dcf14933'',
      ck_vocab_size = 32000, ck_eos_token_id = Some 2, ck_hidden_size = 2048, ck_intermediate_size = 5632,
      ck_num_hidden_layers = 22, ck_num_attention_heads = 32, ck_num_key_value_heads = 4, ck_max_position_embeddings = 2048,
      ck_rms_norm_eps = 0x3727C5AC, ck_rope_theta = 0x461C4000, ck_activation = Silu, ck_weight_dtype = W_Bf16,
      ck_expected_capability_record = TINYLLAMA_1P1B_CHAT_CAPABILITY_RECORD\<rparr>"

section \<open>Generated tokens\<close>

definition NNIS_GENERATED_TOKEN_EVIDENCE_VERSION :: nat where "NNIS_GENERATED_TOKEN_EVIDENCE_VERSION = 1"

definition token_domain :: "u8 list" where
  "token_domain = as_bytes (lit ''NNIS-GENERATED-TOKENS-V1'') @ [0]"

record token_evidence =
  te_schema_version :: nat
  te_token_count :: nat
  te_token_ids_sha256 :: rstr

definition token_evidence_validate :: "token_evidence \<Rightarrow> nnis_error + unit" where
  "token_evidence_validate e =
     (if te_schema_version e \<noteq> NNIS_GENERATED_TOKEN_EVIDENCE_VERSION then
        Err (unsupported (lit ''generated-token evidence schema '' @ dec (te_schema_version e) @ lit ''; supported version is '' @
          dec NNIS_GENERATED_TOKEN_EVIDENCE_VERSION))
      else if te_token_count e = 0 then Err (invalid_lit ''generated-token evidence requires a non-zero token count'')
      else if \<not> is_hex_digest (te_token_ids_sha256 e) then
        Err (invalid_lit ''generated-token SHA-256 must be 64 lowercase hexadecimal characters'')
      else Ok ())"

definition token_envelope :: "nat list \<Rightarrow> u8 list" where
  "token_envelope tokens = foldl (\<lambda>hasher token. hasher @ le_bytes 4 token) (token_domain @ le_bytes 8 (length tokens)) tokens"

definition from_token_ids :: "(u8 list \<Rightarrow> u8 list) \<Rightarrow> nat list \<Rightarrow> nnis_error + token_evidence" where
  "from_token_ids sha tokens =
     (if tokens = [] then Err (invalid_lit ''generated-token evidence requires at least one token'')
      else
        and_then (ok_or (invalid_lit ''generated token count exceeds u64'') (u64_of_usize (length tokens))) (\<lambda>token_count.
          let e = \<lparr>te_schema_version = NNIS_GENERATED_TOKEN_EVIDENCE_VERSION, te_token_count = token_count,
                   te_token_ids_sha256 = to_hex (sha (token_envelope tokens))\<rparr>
          in and_then (token_evidence_validate e) (\<lambda>_. Ok e)))"

text \<open>The label's \<open>Debug\<close> text is that of an ASCII name.\<close>

definition validate_finite_runtime_output :: "rstr \<Rightarrow> f32 list \<Rightarrow> nnis_error + unit" where
  "validate_finite_runtime_output label values =
     (if label = [] \<or> trim label \<noteq> label then Err (invalid_lit ''runtime output label must be non-empty and trimmed'')
      else if values = [] then Err (invalid_input (lit ''runtime output '' @ debug_name label @ lit '' is empty''))
      else
        (case position (\<lambda>x. \<not> f32_is_finite x) values of
           Some index \<Rightarrow>
             Err (invalid_input (lit ''runtime output '' @ debug_name label @ lit '' contains a non-finite value at index '' @ dec index))
         | None \<Rightarrow> Ok ()))"

section \<open>Records of lines\<close>

lemma line_split:
  assumes "10 \<notin> set a" "10 \<notin> set b" "a @ 10 # r = b @ 10 # (s :: rstr)"
  shows "a = b \<and> r = s"
proof -
  have "takeWhile (\<lambda>c. c \<noteq> 10) (x @ 10 # y) = x" "dropWhile (\<lambda>c. c \<noteq> 10) (x @ 10 # y) = 10 # y" if "10 \<notin> set x" for x y :: rstr
    using that by (auto simp: takeWhile_append dropWhile_append split: if_split_asm)
  then show ?thesis using assms by (metis list.inject)
qed

lemma lines_text_inj:
  assumes "list_all (\<lambda>l. 10 \<notin> set l) as" "list_all (\<lambda>l. 10 \<notin> set l) bs" "lines_text as = lines_text bs"
  shows "as = bs"
  using assms
proof (induction as arbitrary: bs)
  case Nil
  then show ?case by (cases bs) (simp_all add: lines_text_def)
next
  case (Cons a as)
  then obtain b bs' where bs: "bs = b # bs'" by (cases bs) (auto simp: lines_text_def)
  have "a @ 10 # lines_text as = b @ 10 # lines_text bs'"
    using Cons.prems(3) by (simp add: bs lines_text_def)
  then have "a = b \<and> lines_text as = lines_text bs'"
    using Cons.prems by (intro line_split) (simp_all add: bs)
  then show ?case using Cons by (simp add: bs)
qed

lemma dec_no_newline: "10 \<notin> set (dec n)"
  using dec_digits [of 10 n] by (auto simp: is_digit_def)

lemma lit_no_newline: "CHR 0x0A \<notin> set a \<Longrightarrow> 10 \<notin> set (lit a)"
proof -
  assume a: "CHR 0x0A \<notin> set a"
  have newline: "(10::nat) = of_char (CHR 0x0A)" by simp
  show ?thesis unfolding lit_def set_map newline using a by (metis imageE of_char_eq_iff)
qed

lemma names_no_newline [simp]:
  "10 \<notin> set (topology_name a)" "10 \<notin> set (rope_name r)" "10 \<notin> set (mlp_name m)" "10 \<notin> set (dtype_text t)"
proof -
  show "10 \<notin> set (topology_name a)" by (cases a) (simp_all add: lit_no_newline)
  show "10 \<notin> set (rope_name r)" by (cases r) (simp_all add: lit_no_newline)
  show "10 \<notin> set (mlp_name m)" by (cases m) (simp_all add: lit_no_newline)
  show "10 \<notin> set (dtype_text t)" by (cases t) (simp_all add: lit_no_newline)
qed

lemma dtype_text_inj: "dtype_text a = dtype_text b \<longleftrightarrow> a = b"
  by (cases a; cases b; simp add: lit_def)

lemma topology_name_inj: "topology_name a = topology_name b \<longleftrightarrow> a = b"
  by (cases a; cases b; simp add: lit_def)

lemma capability_record_inj: "capability_record a = capability_record b \<Longrightarrow> a = (b :: decoder_capabilities)"
proof -
  assume "capability_record a = capability_record b"
  then have "[lit ''NNIS-DECODER-CAPABILITY-V'' @ dec (dc_contract_version a), lit ''attention='' @ topology_name (dc_topology a),
      lit ''rope='' @ rope_name (dc_rope a), lit ''mlp='' @ mlp_name (dc_mlp a), lit ''weight_dtype='' @ dtype_text (dc_weight_dtype a),
      lit ''q_heads='' @ dec (dc_q_heads a), lit ''kv_heads='' @ dec (dc_kv_heads a), lit ''head_dim='' @ dec (dc_head_dim a)] =
    [lit ''NNIS-DECODER-CAPABILITY-V'' @ dec (dc_contract_version b), lit ''attention='' @ topology_name (dc_topology b),
      lit ''rope='' @ rope_name (dc_rope b), lit ''mlp='' @ mlp_name (dc_mlp b), lit ''weight_dtype='' @ dtype_text (dc_weight_dtype b),
      lit ''q_heads='' @ dec (dc_q_heads b), lit ''kv_heads='' @ dec (dc_kv_heads b), lit ''head_dim='' @ dec (dc_head_dim b)]"
    unfolding capability_record_def by (rule lines_text_inj [rotated 2]) (simp_all add: dec_no_newline lit_no_newline)
  then show ?thesis
    by (cases a; cases b) (simp add: dec_inj topology_name_inj dtype_text_inj, metis mlp_semantics.exhaust rope_semantics.exhaust)
qed

text \<open>The strings of a checkpoint are single lines.\<close>

definition single_lines :: "checkpoint_spec \<Rightarrow> bool" where
  "single_lines s \<longleftrightarrow> list_all (\<lambda>l. 10 \<notin> set l) [ck_name s, ck_source_repo s, ck_source_revision s, ck_source_model_sha256 s]"

definition eos_text :: "nat option \<Rightarrow> rstr" where
  "eos_text eos = (case eos of None \<Rightarrow> lit ''none'' | Some e \<Rightarrow> dec e)"

lemma eos_text_inj: "eos_text a = eos_text b \<longleftrightarrow> a = b"
proof -
  have "dec n \<noteq> lit ''none''" for n using dec_digits [of 110 n] by (auto simp: is_digit_def lit_def)
  then show ?thesis by (auto simp: eos_text_def dec_inj split: option.splits) metis
qed

lemma eos_no_newline: "10 \<notin> set (eos_text a)"
  by (cases a) (simp_all add: eos_text_def dec_no_newline lit_no_newline)

lemma canonical_identity_inj:
  assumes "single_lines a" "single_lines b" "canonical_identity a = canonical_identity b"
  shows "expected_config a = expected_config b \<and> ck_name a = ck_name b \<and> ck_source_repo a = ck_source_repo b \<and>
    ck_source_revision a = ck_source_revision b \<and> ck_source_model_sha256 a = ck_source_model_sha256 b \<and>
    ck_contract_version a = ck_contract_version b"
proof -
  have act: "ck_activation a = ck_activation b" by (metis activation.exhaust)
  have lines: "list_all (\<lambda>l. 10 \<notin> set l) [lit ''NNIS-EXACT-DECODER-CHECKPOINT-SPEC-V'' @ dec (ck_contract_version s),
      lit ''name='' @ ck_name s, lit ''repo='' @ ck_source_repo s, lit ''revision='' @ ck_source_revision s,
      lit ''model_sha256='' @ ck_source_model_sha256 s, lit ''vocab_size='' @ dec (ck_vocab_size s),
      lit ''eos_token_id='' @ eos_text (ck_eos_token_id s), lit ''hidden_size='' @ dec (ck_hidden_size s),
      lit ''intermediate_size='' @ dec (ck_intermediate_size s), lit ''layers='' @ dec (ck_num_hidden_layers s),
      lit ''q_heads='' @ dec (ck_num_attention_heads s), lit ''kv_heads='' @ dec (ck_num_key_value_heads s),
      lit ''max_positions='' @ dec (ck_max_position_embeddings s), lit ''rms_norm_eps_bits='' @ dec (unat (ck_rms_norm_eps s)),
      lit ''rope_theta_bits='' @ dec (unat (ck_rope_theta s)), lit ''activation=silu'',
      lit ''weight_dtype='' @ dtype_text (ck_weight_dtype s)]" if "single_lines s" for s
    using that by (simp add: single_lines_def dec_no_newline lit_no_newline eos_no_newline)
  from lines_text_inj [OF lines [OF assms(1)] lines [OF assms(2)]] assms(3) act
  show ?thesis
    by (simp add: canonical_identity_def eos_text_def [symmetric] dec_inj eos_text_inj dtype_text_inj expected_config_def
        word_unat_eq_iff [symmetric])
qed

lemma geometry_matches_eq: "geometry_matches c d \<longleftrightarrow> c = d"
  by (cases c; cases d) (auto simp: geometry_matches_def)

lemma is_scalar_char: "is_scalar (of_char c)"
  using nat_of_char_less_256 [of c] unfolding is_scalar_def by linarith

lemma wf_str_lit: "wf_str (lit a)"
  by (auto simp: wf_str_def lit_def is_scalar_char)

lemma wf_str_dec: "wf_str (dec n)"
  by (auto simp: wf_str_def is_scalar_def is_digit_def dest: dec_digits)

lemma wf_lines_text: "wf_str (lines_text ls) \<longleftrightarrow> (\<forall>l \<in> set ls. wf_str l)"
  by (induction ls) (auto simp: lines_text_def is_scalar_def)

lemma wf_dtype_text: "wf_str (dtype_text t)"
  by (cases t) (simp_all add: wf_str_lit)

lemma wf_eos_text: "wf_str (eos_text a)"
  by (cases a) (simp_all add: eos_text_def wf_str_lit wf_str_dec)

definition checkpoint_typed :: "checkpoint_spec \<Rightarrow> bool" where
  "checkpoint_typed s \<longleftrightarrow> wf_str (ck_name s) \<and> wf_str (ck_source_repo s) \<and> wf_str (ck_source_revision s) \<and>
     wf_str (ck_source_model_sha256 s) \<and> single_lines s"

lemma wf_canonical_identity: "checkpoint_typed s \<Longrightarrow> wf_str (canonical_identity s)"
  by (simp add: canonical_identity_def wf_lines_text checkpoint_typed_def wf_str_lit wf_str_dec wf_dtype_text
      eos_text_def [symmetric] wf_eos_text)

lemma builtin_typed: "checkpoint_typed SMOLLM2_135M_BF16" "checkpoint_typed TINYLLAMA_1P1B_CHAT_BF16"
  by (simp_all add: checkpoint_typed_def single_lines_def SMOLLM2_135M_BF16_def TINYLLAMA_1P1B_CHAT_BF16_def wf_str_lit lit_no_newline)

section \<open>Envelopes of tokens\<close>

lemma token_envelope_concat: "token_envelope tokens = token_domain @ le_bytes 8 (length tokens) @ concat (map (le_bytes 4) tokens)"
proof -
  have "foldl (\<lambda>hasher token. hasher @ le_bytes 4 token) pre tokens = pre @ concat (map (le_bytes 4) tokens)" for pre
    by (induction tokens arbitrary: pre) simp_all
  then show ?thesis by (simp add: token_envelope_def)
qed

lemma le_bytes_concat_inj:
  "\<lbrakk>length xs = length ys; \<forall>t \<in> set xs. t < 256 ^ k; \<forall>t \<in> set ys. t < 256 ^ k;
    concat (map (le_bytes k) xs) = concat (map (le_bytes k) ys)\<rbrakk> \<Longrightarrow> xs = ys"
proof (induction xs ys rule: list_induct2)
  case (Cons x xs y ys)
  then have "le_bytes k x = le_bytes k y \<and> concat (map (le_bytes k) xs) = concat (map (le_bytes k) ys)"
    by (intro append_split [THEN iffD1]) simp_all
  then show ?case using Cons by (simp add: le_bytes_inj)
qed simp

lemma token_envelope_inj:
  assumes "\<forall>t \<in> set xs. t < u32_lim" "\<forall>t \<in> set ys. t < u32_lim" "length xs < u64_lim" "length ys < u64_lim"
    and "token_envelope xs = token_envelope ys"
  shows "xs = ys"
proof -
  have "le_bytes 8 (length xs) = le_bytes 8 (length ys) \<and> concat (map (le_bytes 4) xs) = concat (map (le_bytes 4) ys)"
    using assms(5) unfolding token_envelope_concat same_append_eq by (rule append_split [THEN iffD1, rotated]) simp
  then have "length xs = length ys" "concat (map (le_bytes 4) xs) = concat (map (le_bytes 4) ys)"
    using assms(3,4) by (simp_all add: le_bytes_inj u64_lim_def)
  then show ?thesis using assms(1,2) by (intro le_bytes_concat_inj [of xs ys 4]) (simp_all add: u32_lim_def)
qed

lemma hex_bytes: "list_all is_lower_hex s \<Longrightarrow> as_bytes s = map of_nat s \<and> list_all (\<lambda>b. is_lower_hex (unat b)) (as_bytes s)"
proof (induction s)
  case (Cons c s)
  then have "c < 128" by (simp add: is_lower_hex_def is_digit_def) linarith
  then show ?case using Cons by (auto simp: unat_of_nat)
qed simp

lemma is_hex_digest_to_hex: "length bs = 32 \<Longrightarrow> is_hex_digest (to_hex bs)"
  using hex_bytes [of "to_hex bs"] to_hex_lower [of _ bs] by (simp add: is_hex_digest_def str_len_def list_all_iff)

section \<open>The configurations that are accepted\<close>

lemma checkpoint_validate_Ok:
  "checkpoint_validate_config s c = Ok d \<longleftrightarrow>
     ck_contract_version s = NNIS_EXACT_DECODER_CHECKPOINT_SPEC_VERSION \<and> c = expected_config s \<and>
     decoder_capabilities_of c = Ok d \<and> capability_record d = ck_expected_capability_record s"
  by (auto simp: checkpoint_validate_config_def geometry_matches_eq decoder_capabilities_of_def)

lemma builtin_floats: "finite_positive 0x3727C5AC" "finite_positive 0x47C35000" "finite_positive 0x461C4000"
  by (simp_all add: finite_positive_def f32_is_finite_def f32_mag_def f32_le_def f32_is_nan_def f32_zero_def
      f32_key_def f32_sign_negative_def)

lemma supported_config:
  assumes "check_all require_size (config_sizes c) = Ok ()" "eos_in_vocab ''eos_token_id '' (mc_eos_token_id c) (mc_vocab_size c) = Ok ()"
    "mc_hidden_size c mod mc_num_attention_heads c = 0" "mc_num_attention_heads c mod mc_num_key_value_heads c = 0"
    "mc_head_dim c mod 2 = 0" "finite_positive (mc_rms_norm_eps c)" "finite_positive (mc_rope_theta c)"
    "mc_vocab_size c * mc_hidden_size c < u64_lim" "mc_max_position_embeddings c * mc_head_dim c < u64_lim"
  shows "validate_execution_support c = Ok ()"
  using assms by (cases "mc_activation c") (simp add: validate_execution_support_def config_validate_def checked_mul_def)

lemma smollm2_config:
  "expected_config SMOLLM2_135M_BF16 =
     \<lparr>mc_vocab_size = 49152, mc_eos_token_id = Some 0, mc_hidden_size = 576, mc_intermediate_size = 1536,
      mc_num_hidden_layers = 30, mc_num_attention_heads = 9, mc_num_key_value_heads = 3, mc_max_position_embeddings = 8192,
      mc_rms_norm_eps = 0x3727C5AC, mc_rope_theta = 0x47C35000, mc_activation = Silu, mc_weight_dtype = W_Bf16\<rparr>"
  unfolding expected_config_def SMOLLM2_135M_BF16_def by (simp only: checkpoint_spec.select_convs)

lemma tinyllama_config:
  "expected_config TINYLLAMA_1P1B_CHAT_BF16 =
     \<lparr>mc_vocab_size = 32000, mc_eos_token_id = Some 2, mc_hidden_size = 2048, mc_intermediate_size = 5632,
      mc_num_hidden_layers = 22, mc_num_attention_heads = 32, mc_num_key_value_heads = 4, mc_max_position_embeddings = 2048,
      mc_rms_norm_eps = 0x3727C5AC, mc_rope_theta = 0x461C4000, mc_activation = Silu, mc_weight_dtype = W_Bf16\<rparr>"
  unfolding expected_config_def TINYLLAMA_1P1B_CHAT_BF16_def by (simp only: checkpoint_spec.select_convs)

lemma builtin_supported:
  "validate_execution_support (expected_config SMOLLM2_135M_BF16) = Ok ()"
  "validate_execution_support (expected_config TINYLLAMA_1P1B_CHAT_BF16) = Ok ()"
proof -
  show "validate_execution_support (expected_config SMOLLM2_135M_BF16) = Ok ()"
  proof (rule supported_config)
    show "check_all require_size (config_sizes (expected_config SMOLLM2_135M_BF16)) = Ok ()"
      unfolding check_all_Ok_iff by (simp add: smollm2_config config_sizes_def require_size_def)
  qed (simp_all add: smollm2_config mc_head_dim_def builtin_floats u64_lim_def)
  show "validate_execution_support (expected_config TINYLLAMA_1P1B_CHAT_BF16) = Ok ()"
  proof (rule supported_config)
    show "check_all require_size (config_sizes (expected_config TINYLLAMA_1P1B_CHAT_BF16)) = Ok ()"
      unfolding check_all_Ok_iff by (simp add: tinyllama_config config_sizes_def require_size_def)
  qed (simp_all add: tinyllama_config mc_head_dim_def builtin_floats u64_lim_def)
qed

lemma lit_append: "lit a @ lit b = lit (a @ b)"
  by (simp add: lit_def)

lemma builtin_numbers:
  "dec 1 = lit ''1''" "dec 3 = lit ''3''" "dec 4 = lit ''4''" "dec 9 = lit ''9''" "dec 32 = lit ''32''" "dec 64 = lit ''64''"
  by code_simp+

lemma builtin_records:
  "\<exists>d. decoder_capabilities_of (expected_config SMOLLM2_135M_BF16) = Ok d \<and>
     capability_record d = ck_expected_capability_record SMOLLM2_135M_BF16"
  "\<exists>d. decoder_capabilities_of (expected_config TINYLLAMA_1P1B_CHAT_BF16) = Ok d \<and>
     capability_record d = ck_expected_capability_record TINYLLAMA_1P1B_CHAT_BF16"
proof -
  let ?caps = "\<lambda>q kv. \<lparr>dc_contract_version = 1, dc_topology = GroupedQuery, dc_rope = LlamaRotateHalfUnscaled, dc_mlp = SwiGluSilu,
     dc_weight_dtype = W_Bf16, dc_q_heads = q, dc_kv_heads = kv, dc_head_dim = 64\<rparr>"
  have "decoder_capabilities_of (expected_config SMOLLM2_135M_BF16) = Ok (?caps 9 3)"
    "decoder_capabilities_of (expected_config TINYLLAMA_1P1B_CHAT_BF16) = Ok (?caps 32 4)"
    unfolding decoder_capabilities_of_def builtin_supported and_then_simps
    by (simp_all add: smollm2_config tinyllama_config config_topology_def mc_head_dim_def NNIS_DECODER_CAPABILITY_VERSION_def)
  moreover have "capability_record (?caps 9 3) = ck_expected_capability_record SMOLLM2_135M_BF16"
    unfolding capability_record_def SMOLLM2_135M_BF16_def SMOLLM2_135M_CAPABILITY_RECORD_def checkpoint_spec.select_convs
      decoder_capabilities.select_convs topology_name.simps rope_name.simps mlp_name.simps dtype_text.simps builtin_numbers lit_append
    by (simp only: append.simps)
  moreover have "capability_record (?caps 32 4) = ck_expected_capability_record TINYLLAMA_1P1B_CHAT_BF16"
    unfolding capability_record_def TINYLLAMA_1P1B_CHAT_BF16_def TINYLLAMA_1P1B_CHAT_CAPABILITY_RECORD_def checkpoint_spec.select_convs
      decoder_capabilities.select_convs topology_name.simps rope_name.simps mlp_name.simps dtype_text.simps builtin_numbers lit_append
    by (simp only: append.simps)
  ultimately show "\<exists>d. decoder_capabilities_of (expected_config SMOLLM2_135M_BF16) = Ok d \<and>
     capability_record d = ck_expected_capability_record SMOLLM2_135M_BF16"
    "\<exists>d. decoder_capabilities_of (expected_config TINYLLAMA_1P1B_CHAT_BF16) = Ok d \<and>
     capability_record d = ck_expected_capability_record TINYLLAMA_1P1B_CHAT_BF16" by blast+
qed

lemma builtin_version:
  "ck_contract_version SMOLLM2_135M_BF16 = NNIS_EXACT_DECODER_CHECKPOINT_SPEC_VERSION"
  "ck_contract_version TINYLLAMA_1P1B_CHAT_BF16 = NNIS_EXACT_DECODER_CHECKPOINT_SPEC_VERSION"
  unfolding SMOLLM2_135M_BF16_def TINYLLAMA_1P1B_CHAT_BF16_def by (simp_all only: checkpoint_spec.select_convs)

lemma builtin_accepts:
  "is_ok (checkpoint_validate_config SMOLLM2_135M_BF16 c) \<longleftrightarrow> c = expected_config SMOLLM2_135M_BF16"
  "is_ok (checkpoint_validate_config TINYLLAMA_1P1B_CHAT_BF16 c) \<longleftrightarrow> c = expected_config TINYLLAMA_1P1B_CHAT_BF16"
  using builtin_records
  unfolding is_ok_iff checkpoint_validate_Ok builtin_version by blast+

text \<open>The recorded capabilities are compared, not part of the key.\<close>

lemma key_without_record: "evidence_key sha (s\<lparr>ck_expected_capability_record := r\<rparr>) = evidence_key sha s"
  by (simp add: evidence_key_def canonical_identity_def)

lemma typed_without_record: "checkpoint_typed (s\<lparr>ck_expected_capability_record := r\<rparr>) = checkpoint_typed s"
  by (simp add: checkpoint_typed_def single_lines_def)

section \<open>Properties\<close>

text \<open>An exact checkpoint is bound to one configuration.  A specification of the supported version accepts a
  configuration exactly when every field, floating-point ones by their bits, is the expected one, the decoder supports it,
  and the capability record derived from it is the recorded one; and each of the two built-in checkpoints does accept its
  own configuration.\<close>

theorem exact_checkpoint_binds_config:
  "(checkpoint_validate_config s c = Ok d \<longleftrightarrow>
      ck_contract_version s = NNIS_EXACT_DECODER_CHECKPOINT_SPEC_VERSION \<and> c = expected_config s \<and>
      decoder_capabilities_of c = Ok d \<and> capability_record d = ck_expected_capability_record s) \<and>
   (is_ok (checkpoint_validate_config SMOLLM2_135M_BF16 c) \<longleftrightarrow> c = expected_config SMOLLM2_135M_BF16) \<and>
   (is_ok (checkpoint_validate_config TINYLLAMA_1P1B_CHAT_BF16 c) \<longleftrightarrow> c = expected_config TINYLLAMA_1P1B_CHAT_BF16)"
  using checkpoint_validate_Ok builtin_accepts by blast

text \<open>C33. The evidence key identifies a checkpoint.  Two checkpoints with the same key, of single-line strings, have the
  same name, source, revision, model digest and configuration, or their canonical identities are a collision of the
  digest: the identity itself is never ambiguous.\<close>

theorem evidence_key_identifies:
  assumes "\<And>m. length (sha m) = 32" "checkpoint_typed a" "checkpoint_typed b" "evidence_key sha a = evidence_key sha b"
  shows "ck_name a = ck_name b \<and>
    ((ck_source_repo a = ck_source_repo b \<and> ck_source_revision a = ck_source_revision b \<and>
      ck_source_model_sha256 a = ck_source_model_sha256 b \<and> expected_config a = expected_config b) \<or>
     (as_bytes (canonical_identity a) \<noteq> as_bytes (canonical_identity b) \<and>
      sha (as_bytes (canonical_identity a)) = sha (as_bytes (canonical_identity b))))"
proof -
  have hex: "length (to_hex (sha x)) = length (to_hex (sha y))" for x y using assms(1) by simp
  have same: "ck_name a = ck_name b" "sha (as_bytes (canonical_identity a)) = sha (as_bytes (canonical_identity b))"
    using assms(4) hex by (auto simp: evidence_key_def append_eq_append_conv dest: to_hex_inj)
  have "canonical_identity a = canonical_identity b \<longleftrightarrow> as_bytes (canonical_identity a) = as_bytes (canonical_identity b)"
    using assms(2,3) by (simp add: as_bytes_inj wf_canonical_identity)
  then show ?thesis
    using same canonical_identity_inj [of a b] assms(2,3) by (auto simp: checkpoint_typed_def)
qed

theorem evidence_key_identifies_witness:
  "\<exists>a b. a \<noteq> b \<and> checkpoint_typed a \<and> checkpoint_typed b \<and> evidence_key sha256_digest a = evidence_key sha256_digest b \<and>
     ck_name a = ck_name b"
proof -
  let ?a = "SMOLLM2_135M_BF16" and ?b = "SMOLLM2_135M_BF16\<lparr>ck_expected_capability_record := []\<rparr>"
  have same: "evidence_key sha256_digest ?a = evidence_key sha256_digest ?b" by (simp only: key_without_record)
  have typed: "checkpoint_typed ?a" "checkpoint_typed ?b" using builtin_typed(1) by (simp_all only: typed_without_record)
  have "ck_expected_capability_record ?a \<noteq> []"
    by (simp add: SMOLLM2_135M_BF16_def SMOLLM2_135M_CAPABILITY_RECORD_def lines_text_def)
  moreover have "ck_expected_capability_record (s\<lparr>ck_expected_capability_record := r\<rparr>) = r" for s r by simp
  ultimately have "?a \<noteq> ?b" by metis
  moreover have "ck_name ?a = ck_name ?b"
    using evidence_key_identifies [of sha256_digest ?a ?b] typed same by (simp add: sha256_digest_def sha.finish_one)
  ultimately show ?thesis using typed same by blast
qed

text \<open>The evidence of generated tokens identifies them.  It can be made for every non-empty sequence, and two
  sequences with the same evidence are equal, or their envelopes are a collision of the digest.\<close>

theorem token_evidence_identifies:
  assumes "\<And>m. length (sha m) = 32" "\<forall>t \<in> set xs \<union> set ys. t < u32_lim"
    and "xs \<noteq> []" "ys \<noteq> []" "length xs < u64_lim" "length ys < u64_lim"
  shows "\<exists>e f. from_token_ids sha xs = Ok e \<and> from_token_ids sha ys = Ok f \<and>
    te_token_count e = length xs \<and>
    (e = f \<longrightarrow> xs = ys \<or> token_envelope xs \<noteq> token_envelope ys \<and> sha (token_envelope xs) = sha (token_envelope ys))"
proof -
  have made: "from_token_ids sha zs = Ok \<lparr>te_schema_version = NNIS_GENERATED_TOKEN_EVIDENCE_VERSION, te_token_count = length zs,
      te_token_ids_sha256 = to_hex (sha (token_envelope zs))\<rparr>" if "zs \<noteq> []" "length zs < u64_lim" for zs
    using that assms(1)
    by (simp add: from_token_ids_def u64_of_usize_def token_evidence_validate_def is_hex_digest_to_hex Let_def)
  show ?thesis
    using made [OF assms(3,5)] made [OF assms(4,6)] token_envelope_inj [of xs ys] assms(2,5,6)
    by (auto dest: to_hex_inj)
qed

theorem token_evidence_identifies_witness:
  "\<exists>e f. from_token_ids sha256_digest [10, 20, 30] = Ok e \<and> from_token_ids sha256_digest [30] = Ok f \<and> te_token_count e = 3"
  using token_evidence_identifies [of sha256_digest "[10, 20, 30]" "[30]"]
  by (fastforce simp: sha256_digest_def sha.finish_one u32_lim_def u64_lim_def)

end
