(* ===== verification/WeightEvidence.thy ===== *)
theory WeightEvidence
  imports LowBit Checkpoint
begin

text \<open>
  The accounting and the evidence of compact weights: \<open>weight_representation_accounting.rs\<close>,
  \<open>dense_weight_materialization.rs\<close>, \<open>weight_representation_qualification.rs\<close> and \<open>weight_full_model_evidence.rs\<close>.
  Byte counts are exact; the ratios are double-precision divisions, a parameter, and two of them agree when their
  bits do.
\<close>

section \<open>Double-precision ratios\<close>

record 'd arith64 =
  a64 :: "'d arith"
  a64_of_u64 :: "nat \<Rightarrow> 'd"
  a64_div :: "'d \<Rightarrow> 'd \<Rightarrow> 'd"
  a64_bits :: "'d \<Rightarrow> nat"

text \<open>\<open>bytes as f64 * 8.0 / values\<close>; the conversion of a small integer is the literal.\<close>

definition bits_per_value :: "'d arith64 \<Rightarrow> nat \<Rightarrow> nat \<Rightarrow> 'd" where
  "bits_per_value ar bytes values = a64_div ar (ar_mul64 (a64 ar) (a64_of_u64 ar bytes) (a64_of_u64 ar 8)) (a64_of_u64 ar values)"

definition finite_ratio :: "'d arith64 \<Rightarrow> 'd \<Rightarrow> bool" where
  "finite_ratio ar x = ar_finite64 (a64 ar) x"

section \<open>The canonical denominator\<close>

definition NNIS_WEIGHT_REPRESENTATION_ACCOUNTING_VERSION :: nat where "NNIS_WEIGHT_REPRESENTATION_ACCOUNTING_VERSION = 1"

record weight_denominator =
  wd_schema_version :: nat
  wd_tensor_references :: nat
  wd_element_references :: nat
  wd_unique_allocations :: nat
  wd_unique_values :: nat
  wd_source_bytes :: nat

definition schema_error :: "string \<Rightarrow> nat \<Rightarrow> nat \<Rightarrow> nnis_error" where
  "schema_error what got supported =
     unsupported (lit what @ lit '' schema '' @ dec got @ lit ''; supported version is '' @ dec supported)"

text \<open>The counts of the segments seen so far: elements, bytes, tensor references, element references.\<close>

definition count_segment ::
  "nat \<times> nat \<times> nat \<times> nat \<Rightarrow> nat \<times> allocation_segment \<Rightarrow> nnis_error + nat \<times> nat \<times> nat \<times> nat" where
  "count_segment = (\<lambda>(elements, bytes, tensors, references) (index, g).
     and_then (ok_or (invalid_lit ''weight allocation index exceeds u32'') (u32_of_usize index)) (\<lambda>index.
       if sg_allocation_index g \<noteq> index then
         Err (invalid_lit ''weight allocation indices are not canonical and contiguous'')
       else if sg_elements g = 0 \<or> sg_bytes g = 0 \<or> sg_logical_names g = [] then
         Err (invalid_lit ''weight allocation segment contains a zero count or no logical names'')
       else
         and_then (ok_or (invalid_lit ''unique device element count overflows u64'') (checked_add elements (sg_elements g))) (\<lambda>elements.
         and_then (ok_or (invalid_lit ''owned device byte count overflows u64'') (checked_add bytes (sg_bytes g))) (\<lambda>bytes.
         and_then (ok_or (invalid_lit ''logical alias count exceeds u64'') (u64_of_usize (length (sg_logical_names g)))) (\<lambda>aliases.
         and_then (ok_or (invalid_lit ''logical tensor reference count overflows u64'') (checked_add tensors aliases)) (\<lambda>tensors.
         and_then (ok_or (invalid_lit ''logical element alias accounting overflows u64'') (checked_mul (sg_elements g) aliases)) (\<lambda>n.
         and_then (ok_or (invalid_lit ''logical element reference count overflows u64'') (checked_add references n)) (\<lambda>references.
           Ok (elements, bytes, tensors, references)))))))))"

definition validate_source_summary :: "allocation_summary \<Rightarrow> nnis_error + unit" where
  "validate_source_summary s =
     (if as_schema_version s \<noteq> NNIS_WEIGHT_ALLOCATION_SUMMARY_VERSION then
        Err (schema_error ''weight allocation summary'' (as_schema_version s) NNIS_WEIGHT_ALLOCATION_SUMMARY_VERSION)
      else
        and_then (ok_or (invalid_lit ''weight allocation count does not fit usize'') (usize_of_u64 (as_unique_device_allocations s))) (\<lambda>n.
          if length (as_segments s) \<noteq> n then Err (invalid_lit ''weight allocation segment count disagrees with summary'')
          else
            and_then (for_each_res count_segment (0, 0, 0, 0) (enumerate 0 (as_segments s))) (\<lambda>(elements, bytes, tensors, references).
              if elements \<noteq> as_unique_device_elements s \<or> bytes \<noteq> as_owned_device_allocation_bytes s \<or>
                 tensors \<noteq> as_logical_tensor_references s \<or> references \<noteq> as_logical_element_references s
              then Err (invalid_lit ''weight allocation summary totals do not reconcile with segments'')
              else Ok ())))"

definition from_weight_allocation_summary :: "allocation_summary \<Rightarrow> nnis_error + weight_denominator" where
  "from_weight_allocation_summary s =
     and_then (validate_source_summary s) (\<lambda>_.
       Ok \<lparr>wd_schema_version = NNIS_WEIGHT_REPRESENTATION_ACCOUNTING_VERSION,
           wd_tensor_references = as_logical_tensor_references s, wd_element_references = as_logical_element_references s,
           wd_unique_allocations = as_unique_device_allocations s, wd_unique_values = as_unique_device_elements s,
           wd_source_bytes = as_owned_device_allocation_bytes s\<rparr>)"

definition validate_denominator :: "weight_denominator \<Rightarrow> nnis_error + unit" where
  "validate_denominator d =
     (if wd_schema_version d \<noteq> NNIS_WEIGHT_REPRESENTATION_ACCOUNTING_VERSION then
        Err (schema_error ''canonical weight denominator'' (wd_schema_version d) NNIS_WEIGHT_REPRESENTATION_ACCOUNTING_VERSION)
      else if wd_tensor_references d = 0 \<or> wd_element_references d = 0 \<or> wd_unique_allocations d = 0 \<or>
        wd_unique_values d = 0 \<or> wd_source_bytes d = 0 then
        Err (invalid_lit ''canonical weight denominator contains a zero required count'')
      else if wd_element_references d < wd_unique_values d then
        Err (invalid_lit ''logical element references cannot be smaller than unique logical values'')
      else Ok ())"

section \<open>The accounting of a representation\<close>

record 'd weight_accounting =
  wa_schema_version :: nat
  wa_denominator :: weight_denominator
  wa_serialized_bytes :: nat
  wa_resident_bytes :: nat
  wa_serialized_bits :: 'd
  wa_resident_bits :: 'd

definition weight_accounting_new ::
  "'d arith64 \<Rightarrow> weight_denominator \<Rightarrow> nat \<Rightarrow> nat \<Rightarrow> nnis_error + 'd weight_accounting" where
  "weight_accounting_new ar d serialized resident =
     and_then (validate_denominator d) (\<lambda>_.
       if serialized = 0 then Err (invalid_lit ''representation serialized byte count must be non-zero'')
       else if resident = 0 then Err (invalid_lit ''representation resident byte count must be non-zero'')
       else
         let serialized_bits = bits_per_value ar serialized (wd_unique_values d);
             resident_bits = bits_per_value ar resident (wd_unique_values d)
         in if \<not> finite_ratio ar serialized_bits \<or> \<not> finite_ratio ar resident_bits then
              Err (invalid_lit ''representation bits/value accounting is not finite'')
            else Ok \<lparr>wa_schema_version = NNIS_WEIGHT_REPRESENTATION_ACCOUNTING_VERSION, wa_denominator = d,
                     wa_serialized_bytes = serialized, wa_resident_bytes = resident,
                     wa_serialized_bits = serialized_bits, wa_resident_bits = resident_bits\<rparr>)"

definition weight_accounting_validate :: "'d arith64 \<Rightarrow> 'd weight_accounting \<Rightarrow> nnis_error + unit" where
  "weight_accounting_validate ar a =
     (if wa_schema_version a \<noteq> NNIS_WEIGHT_REPRESENTATION_ACCOUNTING_VERSION then
        Err (schema_error ''weight representation accounting'' (wa_schema_version a) NNIS_WEIGHT_REPRESENTATION_ACCOUNTING_VERSION)
      else
        and_then (weight_accounting_new ar (wa_denominator a) (wa_serialized_bytes a) (wa_resident_bytes a)) (\<lambda>rebuilt.
          if a64_bits ar (wa_serialized_bits a) \<noteq> a64_bits ar (wa_serialized_bits rebuilt) \<or>
             a64_bits ar (wa_resident_bits a) \<noteq> a64_bits ar (wa_resident_bits rebuilt)
          then Err (invalid_lit ''weight representation bits/value fields disagree with exact byte accounting'')
          else Ok ()))"

section \<open>Dense materialization\<close>

datatype weight_family = Int4Symmetric | Int2Ternary | MagnitudeSparse

definition NNIS_DENSE_WEIGHT_MATERIALIZATION_EVIDENCE_VERSION :: nat where
  "NNIS_DENSE_WEIGHT_MATERIALIZATION_EVIDENCE_VERSION = 1"

record 'd device_ownership =
  do_schema_version :: nat
  do_family :: weight_family
  do_unique_values :: nat
  do_source_bytes :: nat
  do_representation_bytes :: nat
  do_dense_bytes :: nat
  do_temporary_bytes :: nat
  do_final_bytes :: nat
  do_peak_bytes :: nat
  do_duration_ns :: nat
  do_representation_bits :: 'd
  do_dense_bits :: 'd
  do_final_bits :: 'd
  do_execution_storage :: rstr
  do_low_bit_compute :: bool

definition dense_f32_bytes :: "nat \<Rightarrow> nnis_error + nat" where
  "dense_f32_bytes values = ok_or (invalid_lit ''dense F32 execution byte count overflows u64'') (checked_mul values 4)"

definition final_scoped_bytes :: "nat \<Rightarrow> nat \<Rightarrow> nnis_error + nat" where
  "final_scoped_bytes representation dense =
     ok_or (invalid_lit ''final dense-materialization device bytes overflow u64'') (checked_add representation dense)"

definition peak_scoped_bytes :: "nat \<Rightarrow> nat \<Rightarrow> nat \<Rightarrow> nnis_error + nat" where
  "peak_scoped_bytes source final_bytes temporary =
     ok_or (invalid_lit ''peak dense-materialization device bytes overflow u64'')
       (checked_bind (checked_add source final_bytes) (\<lambda>n. checked_add n temporary))"

definition cached_accounting_wrong :: "'d arith64 \<Rightarrow> 'd device_ownership \<Rightarrow> nat \<Rightarrow> nat \<Rightarrow> bool" where
  "cached_accounting_wrong ar e expected_final expected_peak \<longleftrightarrow>
     (let representation_bits = bits_per_value ar (do_representation_bytes e) (do_unique_values e);
          dense_bits = bits_per_value ar (do_dense_bytes e) (do_unique_values e);
          final_bits = bits_per_value ar expected_final (do_unique_values e)
      in \<not> finite_ratio ar representation_bits \<or> \<not> finite_ratio ar dense_bits \<or> \<not> finite_ratio ar final_bits \<or>
         a64_bits ar dense_bits \<noteq> a64_bits ar (a64_of_u64 ar 32) \<or>
         do_final_bytes e \<noteq> expected_final \<or> do_peak_bytes e \<noteq> expected_peak \<or>
         a64_bits ar (do_representation_bits e) \<noteq> a64_bits ar representation_bits \<or>
         a64_bits ar (do_dense_bits e) \<noteq> a64_bits ar dense_bits \<or>
         a64_bits ar (do_final_bits e) \<noteq> a64_bits ar final_bits)"

definition device_ownership_validate :: "'d arith64 \<Rightarrow> 'd device_ownership \<Rightarrow> nnis_error + unit" where
  "device_ownership_validate ar e =
     (if do_schema_version e \<noteq> NNIS_DENSE_WEIGHT_MATERIALIZATION_EVIDENCE_VERSION then
        Err (schema_error ''dense weight materialization evidence'' (do_schema_version e) NNIS_DENSE_WEIGHT_MATERIALIZATION_EVIDENCE_VERSION)
      else if do_execution_storage e \<noteq> lit ''dense_f32_materialized'' then
        Err (unsupported_lit ''dense materialization evidence has an unsupported execution-storage identity'')
      else if do_low_bit_compute e then
        Err (invalid_lit ''dense materialization evidence must never claim low-bit compute'')
      else if do_unique_values e = 0 then
        Err (invalid_lit ''dense materialization requires at least one unique logical value'')
      else
        and_then (dense_f32_bytes (do_unique_values e)) (\<lambda>expected_dense.
          if do_source_bytes e \<noteq> expected_dense \<or> do_dense_bytes e \<noteq> expected_dense then
            Err (invalid_lit ''dense materialization F32 byte counts disagree with the canonical denominator'')
          else if do_representation_bytes e = 0 then
            Err (invalid_lit ''dense materialization representation resident bytes must be non-zero'')
          else
            and_then (final_scoped_bytes (do_representation_bytes e) (do_dense_bytes e)) (\<lambda>expected_final.
            and_then (peak_scoped_bytes (do_source_bytes e) expected_final (do_temporary_bytes e)) (\<lambda>expected_peak.
              if cached_accounting_wrong ar e expected_final expected_peak then
                Err (invalid_lit ''dense materialization cached accounting disagrees with exact integer byte totals'')
              else Ok ()))))"

definition canonical_bytes_error :: "string \<Rightarrow> nat \<Rightarrow> nat \<Rightarrow> nat \<Rightarrow> nnis_error" where
  "canonical_bytes_error what got values expected =
     invalid_input (lit what @ lit '' bytes '' @ dec got @ lit '' disagree with canonical unique-value denominator '' @
       dec values @ lit '' (expected '' @ dec expected @ lit '')'')"

definition device_ownership_new ::
  "'d arith64 \<Rightarrow> weight_family \<Rightarrow> nat \<Rightarrow> nat \<Rightarrow> nat \<Rightarrow> nat \<Rightarrow> nat \<Rightarrow> nat \<Rightarrow> nnis_error + 'd device_ownership" where
  "device_ownership_new ar family values source representation dense temporary duration =
     (if values = 0 then Err (invalid_lit ''dense materialization requires at least one unique logical value'')
      else if source = 0 \<or> representation = 0 \<or> dense = 0 then
        Err (invalid_lit ''dense materialization source, representation and execution byte counts must be non-zero'')
      else
        and_then (dense_f32_bytes values) (\<lambda>expected_dense.
          if source \<noteq> expected_dense then Err (canonical_bytes_error ''source F32 weight'' source values expected_dense)
          else if dense \<noteq> expected_dense then Err (canonical_bytes_error ''dense F32 execution'' dense values expected_dense)
          else
            and_then (final_scoped_bytes representation dense) (\<lambda>final_bytes.
            and_then (peak_scoped_bytes source final_bytes temporary) (\<lambda>peak.
              let representation_bits = bits_per_value ar representation values;
                  dense_bits = bits_per_value ar dense values;
                  final_bits = bits_per_value ar final_bytes values
              in
                and_then
                  (check_all (\<lambda>(label, x). if \<not> finite_ratio ar x then
                       Err (invalid_input (lit ''dense materialization '' @ lit label @ lit '' is not finite'')) else Ok ())
                     [(''representation resident bits/value'', representation_bits), (''dense execution bits/value'', dense_bits),
                      (''final resident bits/value'', final_bits)]) (\<lambda>_.
                  if a64_bits ar dense_bits \<noteq> a64_bits ar (a64_of_u64 ar 32) then
                    Err (invalid_lit ''dense F32 execution must account exactly 32 bits per unique logical value'')
                  else
                    let e = \<lparr>do_schema_version = NNIS_DENSE_WEIGHT_MATERIALIZATION_EVIDENCE_VERSION, do_family = family,
                       do_unique_values = values, do_source_bytes = source, do_representation_bytes = representation,
                       do_dense_bytes = dense, do_temporary_bytes = temporary, do_final_bytes = final_bytes,
                       do_peak_bytes = peak, do_duration_ns = duration, do_representation_bits = representation_bits,
                       do_dense_bits = dense_bits, do_final_bits = final_bits,
                       do_execution_storage = lit ''dense_f32_materialized'', do_low_bit_compute = False\<rparr>
                    in and_then (device_ownership_validate ar e) (\<lambda>_. Ok e))))))"

definition checked_host_payload_bytes :: "nat list \<Rightarrow> nnis_error + nat" where
  "checked_host_payload_bytes parts =
     for_each_res (\<lambda>bytes part. ok_or (invalid_lit ''host materialization payload bytes overflow u64'') (checked_add bytes part)) 0 parts"

definition NNIS_DENSE_WEIGHT_MATERIALIZATION_EVIDENCE_V2_VERSION :: nat where
  "NNIS_DENSE_WEIGHT_MATERIALIZATION_EVIDENCE_V2_VERSION = 2"

record 'd materialization_evidence =
  me_schema_version :: nat
  me_device :: "'d device_ownership"
  me_peak_host_bytes :: nat
  me_host_scope :: rstr

definition host_scope_text :: rstr where
  "host_scope_text = lit ''nnis-owned-host-payload-bytes-during-one-allocation-materialization''"

definition materialization_validate :: "'d arith64 \<Rightarrow> 'd materialization_evidence \<Rightarrow> nnis_error + unit" where
  "materialization_validate ar m =
     (if me_schema_version m \<noteq> NNIS_DENSE_WEIGHT_MATERIALIZATION_EVIDENCE_V2_VERSION then
        Err (schema_error ''dense weight materialization evidence v2'' (me_schema_version m)
          NNIS_DENSE_WEIGHT_MATERIALIZATION_EVIDENCE_V2_VERSION)
      else if me_host_scope m \<noteq> host_scope_text then
        Err (unsupported_lit ''dense materialization host temporary scope is unsupported'')
      else device_ownership_validate ar (me_device m))"

definition materialization_new :: "'d arith64 \<Rightarrow> 'd device_ownership \<Rightarrow> nat \<Rightarrow> nnis_error + 'd materialization_evidence" where
  "materialization_new ar device peak_host =
     and_then (device_ownership_validate ar device) (\<lambda>_.
       let m = \<lparr>me_schema_version = NNIS_DENSE_WEIGHT_MATERIALIZATION_EVIDENCE_V2_VERSION, me_device = device,
                me_peak_host_bytes = peak_host, me_host_scope = host_scope_text\<rparr>
       in and_then (materialization_validate ar m) (\<lambda>_. Ok m))"

section \<open>Qualification records\<close>

definition NNIS_WEIGHT_REPRESENTATION_QUALIFICATION_VERSION :: nat where
  "NNIS_WEIGHT_REPRESENTATION_QUALIFICATION_VERSION = 1"

datatype execution_level = StorageOnly | IsolatedProjection | FullModel

record 'd qualification_record =
  qr_schema_version :: nat
  qr_family :: weight_family
  qr_representation_version :: nat
  qr_exact_checkpoint :: rstr
  qr_execution_level :: execution_level
  qr_physical_execution :: bool
  qr_tokens_verified :: bool
  qr_max_abs_error :: f32
  qr_mse :: 'd
  qr_accounting :: "'d weight_accounting"

fun level_claims :: "execution_level \<Rightarrow> bool \<Rightarrow> bool \<Rightarrow> nnis_error + unit" where
  "level_claims StorageOnly physical tokens =
     (if physical \<or> tokens then Err (invalid_lit ''storage-only qualification cannot claim execution or token verification'')
      else Ok ())"
| "level_claims IsolatedProjection physical tokens =
     (if \<not> physical then Err (invalid_lit ''isolated-projection qualification requires physical execution evidence'')
      else if tokens then Err (invalid_lit ''isolated-projection qualification cannot claim generated-token verification'')
      else Ok ())"
| "level_claims FullModel physical tokens =
     (if \<not> physical \<or> \<not> tokens then
        Err (invalid_lit ''full-model qualification requires physical execution and generated-token verification'')
      else Ok ())"

definition qualification_validate :: "'d arith64 \<Rightarrow> 'd qualification_record \<Rightarrow> nnis_error + unit" where
  "qualification_validate ar q =
     (if qr_schema_version q \<noteq> NNIS_WEIGHT_REPRESENTATION_QUALIFICATION_VERSION then
        Err (schema_error ''weight qualification'' (qr_schema_version q) NNIS_WEIGHT_REPRESENTATION_QUALIFICATION_VERSION)
      else if qr_representation_version q = 0 then Err (invalid_lit ''weight representation version must be non-zero'')
      else if qr_exact_checkpoint q = [] \<or> trim (qr_exact_checkpoint q) \<noteq> qr_exact_checkpoint q then
        Err (invalid_lit ''weight qualification checkpoint identity must be non-empty and trimmed'')
      else if bad_evidence (a64 ar) (qr_max_abs_error q) (qr_mse q) then
        Err (invalid_lit ''weight qualification reconstruction metrics are invalid'')
      else
        and_then (weight_accounting_validate ar (qr_accounting q)) (\<lambda>_.
          level_claims (qr_execution_level q) (qr_physical_execution q) (qr_tokens_verified q)))"

definition qualification_new ::
  "'d arith64 \<Rightarrow> weight_family \<Rightarrow> nat \<Rightarrow> rstr \<Rightarrow> execution_level \<Rightarrow> bool \<Rightarrow> bool \<Rightarrow> f32 \<Rightarrow> 'd \<Rightarrow> 'd weight_accounting \<Rightarrow>
   nnis_error + 'd qualification_record" where
  "qualification_new ar family version checkpoint level physical tokens max_abs_error mse accounting =
     (let q = \<lparr>qr_schema_version = NNIS_WEIGHT_REPRESENTATION_QUALIFICATION_VERSION, qr_family = family,
        qr_representation_version = version, qr_exact_checkpoint = checkpoint, qr_execution_level = level,
        qr_physical_execution = physical, qr_tokens_verified = tokens, qr_max_abs_error = max_abs_error,
        qr_mse = mse, qr_accounting = accounting\<rparr>
      in and_then (qualification_validate ar q) (\<lambda>_. Ok q))"

definition storage_accounting_from_parts ::
  "'d arith64 \<Rightarrow> nat \<Rightarrow> nat \<Rightarrow> nat \<Rightarrow> nat \<Rightarrow> nat \<Rightarrow> nat \<Rightarrow> nat \<Rightarrow> nnis_error + 'd weight_accounting" where
  "storage_accounting_from_parts ar tensors elements allocations values source serialized resident =
     weight_accounting_new ar
       \<lparr>wd_schema_version = NNIS_WEIGHT_REPRESENTATION_ACCOUNTING_VERSION, wd_tensor_references = tensors,
        wd_element_references = elements, wd_unique_allocations = allocations, wd_unique_values = values,
        wd_source_bytes = source\<rparr> serialized resident"

section \<open>Full-model evidence\<close>

definition NNIS_WEIGHT_FULL_MODEL_EVIDENCE_VERSION :: nat where "NNIS_WEIGHT_FULL_MODEL_EVIDENCE_VERSION = 1"
definition NNIS_PHYSICAL_WEIGHT_EXECUTION_OBSERVATION_VERSION :: nat where
  "NNIS_PHYSICAL_WEIGHT_EXECUTION_OBSERVATION_VERSION = 1"

definition validate_trimmed :: "string \<Rightarrow> rstr \<Rightarrow> nnis_error + unit" where
  "validate_trimmed label val =
     (if val = [] \<or> trim val \<noteq> val then Err (invalid_input (lit label @ lit '' must be non-empty and trimmed'')) else Ok ())"

definition validate_lower_hex :: "string \<Rightarrow> rstr \<Rightarrow> nat \<Rightarrow> nnis_error + unit" where
  "validate_lower_hex label val expected_len =
     (if str_len val \<noteq> expected_len \<or> \<not> list_all (\<lambda>b. is_lower_hex (unat b)) (as_bytes val) then
        Err (invalid_input (lit label @ lit '' must contain exactly '' @ dec expected_len @ lit '' lowercase hexadecimal characters''))
      else Ok ())"

record physical_observation =
  po_schema_version :: nat
  po_nnis_commit :: rstr
  po_runtime_entrypoint :: rstr
  po_generated_tokens :: token_evidence
  po_non_finite_output :: bool

definition observation_validate :: "physical_observation \<Rightarrow> nnis_error + unit" where
  "observation_validate ob =
     (if po_schema_version ob \<noteq> NNIS_PHYSICAL_WEIGHT_EXECUTION_OBSERVATION_VERSION then
        Err (schema_error ''physical weight execution observation'' (po_schema_version ob) NNIS_PHYSICAL_WEIGHT_EXECUTION_OBSERVATION_VERSION)
      else
        and_then (validate_lower_hex ''NNIS commit'' (po_nnis_commit ob) 40) (\<lambda>_.
        and_then (validate_trimmed ''runtime entrypoint'' (po_runtime_entrypoint ob)) (\<lambda>_.
        and_then (token_evidence_validate (po_generated_tokens ob)) (\<lambda>_.
          if po_non_finite_output ob then
            Err (invalid_lit ''physical weight execution observation rejects non-finite runtime output'')
          else Ok ()))))"

definition observation_new :: "rstr \<Rightarrow> rstr \<Rightarrow> token_evidence \<Rightarrow> bool \<Rightarrow> nnis_error + physical_observation" where
  "observation_new commit entrypoint tokens non_finite =
     (let ob = \<lparr>po_schema_version = NNIS_PHYSICAL_WEIGHT_EXECUTION_OBSERVATION_VERSION, po_nnis_commit = commit,
        po_runtime_entrypoint = entrypoint, po_generated_tokens = tokens, po_non_finite_output = non_finite\<rparr>
      in and_then (observation_validate ob) (\<lambda>_. Ok ob))"

record 'd full_model_evidence =
  fm_schema_version :: nat
  fm_family :: weight_family
  fm_representation_version :: nat
  fm_exact_checkpoint :: rstr
  fm_nnis_commit :: rstr
  fm_runtime_entrypoint :: rstr
  fm_physical_execution :: bool
  fm_token_count :: nat
  fm_token_ids_sha256 :: rstr
  fm_non_finite_output :: bool
  fm_serialized_bytes :: nat
  fm_tensor_references :: nat
  fm_element_references :: nat
  fm_unique_allocations :: nat
  fm_max_abs_error :: f32
  fm_mse :: 'd
  fm_materialization :: "'d materialization_evidence"

definition full_model_validate :: "'d arith64 \<Rightarrow> 'd full_model_evidence \<Rightarrow> nnis_error + unit" where
  "full_model_validate ar e =
     (if fm_schema_version e \<noteq> NNIS_WEIGHT_FULL_MODEL_EVIDENCE_VERSION then
        Err (schema_error ''weight full-model evidence'' (fm_schema_version e) NNIS_WEIGHT_FULL_MODEL_EVIDENCE_VERSION)
      else if fm_representation_version e = 0 then Err (invalid_lit ''full-model representation version must be non-zero'')
      else
        and_then (validate_trimmed ''exact checkpoint'' (fm_exact_checkpoint e)) (\<lambda>_.
        and_then (validate_trimmed ''runtime entrypoint'' (fm_runtime_entrypoint e)) (\<lambda>_.
        and_then (validate_lower_hex ''NNIS commit'' (fm_nnis_commit e) 40) (\<lambda>_.
        and_then (validate_lower_hex ''generated token ids sha256'' (fm_token_ids_sha256 e) 64) (\<lambda>_.
          if \<not> fm_physical_execution e then Err (invalid_lit ''full-model evidence requires physical execution'')
          else if fm_token_count e = 0 then
            Err (invalid_lit ''full-model evidence requires at least one verified generated token'')
          else if fm_non_finite_output e then Err (invalid_lit ''full-model evidence rejects non-finite runtime output'')
          else if fm_serialized_bytes e = 0 \<or> fm_tensor_references e = 0 \<or> fm_element_references e = 0 \<or>
            fm_unique_allocations e = 0 then
            Err (invalid_lit ''full-model evidence contains a zero required accounting count'')
          else if bad_evidence (a64 ar) (fm_max_abs_error e) (fm_mse e) then
            Err (invalid_lit ''full-model reconstruction metrics are invalid'')
          else
            and_then (materialization_validate ar (fm_materialization e)) (\<lambda>_.
              let device = me_device (fm_materialization e) in
              if do_family device \<noteq> fm_family e then
                Err (invalid_lit ''full-model family disagrees with materialization family'')
              else if do_low_bit_compute device then
                Err (invalid_lit ''dense-materialized full-model evidence cannot claim low-bit compute'')
              else if do_execution_storage device \<noteq> lit ''dense_f32_materialized'' then
                Err (unsupported_lit ''full-model evidence requires the registered dense-F32 materialization boundary'')
              else if fm_element_references e < do_unique_values device then
                Err (invalid_lit ''logical element references cannot be smaller than unique logical values'')
              else Ok ()))))))"

definition from_physical_observation ::
  "'d arith64 \<Rightarrow> (u8 list \<Rightarrow> u8 list) \<Rightarrow> weight_family \<Rightarrow> nat \<Rightarrow> checkpoint_spec \<Rightarrow> physical_observation \<Rightarrow> nat \<Rightarrow> nat \<Rightarrow> nat \<Rightarrow>
   nat \<Rightarrow> f32 \<Rightarrow> 'd \<Rightarrow> 'd materialization_evidence \<Rightarrow> nnis_error + 'd full_model_evidence" where
  "from_physical_observation ar sha family version checkpoint ob serialized tensors elements allocations max_abs_error mse m =
     and_then (observation_validate ob) (\<lambda>_.
       let e = \<lparr>fm_schema_version = NNIS_WEIGHT_FULL_MODEL_EVIDENCE_VERSION, fm_family = family,
          fm_representation_version = version, fm_exact_checkpoint = evidence_key sha checkpoint,
          fm_nnis_commit = po_nnis_commit ob, fm_runtime_entrypoint = po_runtime_entrypoint ob,
          fm_physical_execution = True, fm_token_count = te_token_count (po_generated_tokens ob),
          fm_token_ids_sha256 = te_token_ids_sha256 (po_generated_tokens ob), fm_non_finite_output = False,
          fm_serialized_bytes = serialized, fm_tensor_references = tensors, fm_element_references = elements,
          fm_unique_allocations = allocations, fm_max_abs_error = max_abs_error, fm_mse = mse, fm_materialization = m\<rparr>
       in and_then (full_model_validate ar e) (\<lambda>_. Ok e))"

definition full_model_qualification :: "'d arith64 \<Rightarrow> 'd full_model_evidence \<Rightarrow> nnis_error + 'd qualification_record" where
  "full_model_qualification ar e =
     and_then (full_model_validate ar e) (\<lambda>_.
       let device = me_device (fm_materialization e) in
       and_then (weight_accounting_new ar
           \<lparr>wd_schema_version = NNIS_WEIGHT_REPRESENTATION_ACCOUNTING_VERSION, wd_tensor_references = fm_tensor_references e,
            wd_element_references = fm_element_references e, wd_unique_allocations = fm_unique_allocations e,
            wd_unique_values = do_unique_values device, wd_source_bytes = do_source_bytes device\<rparr>
           (fm_serialized_bytes e) (do_final_bytes device)) (\<lambda>accounting.
         qualification_new ar (fm_family e) (fm_representation_version e) (fm_exact_checkpoint e) FullModel True True
           (fm_max_abs_error e) (fm_mse e) accounting))"

section \<open>Every allocation summary is a denominator\<close>

definition segment_references :: "allocation_segment \<Rightarrow> nat" where
  "segment_references g = sg_elements g * length (sg_logical_names g)"

definition live_segment :: "allocation_segment \<Rightarrow> bool" where
  "live_segment g \<longleftrightarrow> 0 < sg_elements g \<and> 0 < sg_bytes g \<and> sg_logical_names g \<noteq> []"

definition tally :: "summary_state \<Rightarrow> bool" where
  "tally st \<longleftrightarrow> list_all live_segment (ss_segments st) \<and>
     (\<forall>i < length (ss_segments st). sg_allocation_index (ss_segments st ! i) = i \<and> i < u32_lim) \<and>
     ss_references st = sum_list (map (\<lambda>g. length (sg_logical_names g)) (ss_segments st)) \<and>
     ss_element_references st = sum_list (map segment_references (ss_segments st)) \<and>
     ss_unique_elements st = sum_list (map sg_elements (ss_segments st)) \<and>
     ss_owned_bytes st = sum_list (map sg_bytes (ss_segments st)) \<and>
     ss_references st < u64_lim \<and> ss_element_references st < u64_lim \<and> ss_unique_elements st < u64_lim \<and>
     ss_owned_bytes st < u64_lim"

lemma tally_start: "tally summary_start"
  by (simp add: tally_def summary_start_def u64_lim_def)

lemma sum_list_map_update:
  "i < length xs \<Longrightarrow> sum_list (map f (xs[i := y])) = sum_list (map f xs) - f (xs ! i) + (f y :: nat)"
  using member_le_sum_list [of "f (xs ! i)" "map f xs"] by (simp add: map_update sum_list_update)

lemma sum_list_map_ge: "i < length xs \<Longrightarrow> f (xs ! i) \<le> sum_list (map f xs :: nat list)"
  by (rule member_le_sum_list) simp_all

lemma tally_observe:
  assumes "tally st" "observe_allocation st ob = Ok st'" "0 < ob_elements ob" "0 < ob_bytes ob"
  shows "tally st'"
proof (cases "ss_indices st (ob_allocation_key ob)")
  case None
  then show ?thesis
    using assms
    by (auto simp: observe_allocation_def count_up_def u32_of_usize_def Let_def tally_def live_segment_def
        segment_references_def nth_append less_Suc_eq split: if_split_asm)
next
  case (Some i)
  let ?g = "ss_segments st ! i"
  have i: "i < length (ss_segments st)" and same: "segment_agrees ?g ob"
    and st': "st' = st\<lparr>ss_references := ss_references st + 1, ss_element_references := ss_element_references st + ob_elements ob,
      ss_segments := (ss_segments st)[i := ?g\<lparr>sg_logical_names := sg_logical_names ?g @ [ob_logical_name ob]\<rparr>]\<rparr>"
    and lim: "ss_references st + 1 < u64_lim" "ss_element_references st + ob_elements ob < u64_lim"
    using assms(2) Some by (auto simp: observe_allocation_def count_up_def Let_def split: if_split_asm)
  let ?g' = "?g\<lparr>sg_logical_names := sg_logical_names ?g @ [ob_logical_name ob]\<rparr>"
  have live: "live_segment ?g" "live_segment ?g'"
    using assms(1) i by (auto simp: tally_def list_all_length live_segment_def)
  have ge: "length (sg_logical_names ?g) \<le> sum_list (map (\<lambda>g. length (sg_logical_names g)) (ss_segments st))"
    "segment_references ?g \<le> sum_list (map segment_references (ss_segments st))"
    "sg_elements ?g \<le> sum_list (map sg_elements (ss_segments st))" "sg_bytes ?g \<le> sum_list (map sg_bytes (ss_segments st))"
    by (rule sum_list_map_ge [OF i])+
  have refs: "segment_references ?g' = segment_references ?g + ob_elements ob"
    using same by (simp add: segment_references_def segment_agrees_def)
  have all: "list_all live_segment ((ss_segments st)[i := ?g'])"
    using assms(1) live(2) i by (auto simp: tally_def list_all_length nth_list_update)
  have idx: "\<forall>j < length (ss_segments st). sg_allocation_index ((ss_segments st)[i := ?g'] ! j) = j \<and> j < u32_lim"
    using assms(1) i by (auto simp: tally_def nth_list_update)
  show ?thesis
    using assms(1) lim ge all idx unfolding tally_def st'
    by (simp add: sum_list_map_update [OF i] refs)
qed

lemma tally_all:
  assumes "for_each_res observe_allocation st obs = Ok st'" "tally st" "\<forall>ob \<in> set obs. 0 < ob_elements ob \<and> 0 < ob_bytes ob"
  shows "tally st'"
  using assms by (induction obs arbitrary: st) (auto intro: tally_observe)

lemma observed_live:
  assumes "for_each_res observe_tensor obs ts = Ok obs'" "\<forall>ob \<in> set obs. 0 < ob_elements ob \<and> 0 < ob_bytes ob"
  shows "\<forall>ob \<in> set obs'. 0 < ob_elements ob \<and> 0 < ob_bytes ob"
  using assms
proof (induction ts arbitrary: obs)
  case (Cons t ts)
  obtain name tensor shape where t: "t = (name, tensor, shape)" by (cases t)
  have pos: "0 < tensor_size_bytes tensor \<longleftrightarrow> 0 < tensor_len tensor"
    by (cases tensor) (simp_all add: size_bytes_def tensor_len_def)
  from Cons.prems(1) obtain u where u: "observe_tensor obs t = Ok u" "for_each_res observe_tensor u ts = Ok obs'" by auto
  have "\<forall>ob \<in> set u. 0 < ob_elements ob \<and> 0 < ob_bytes ob"
    using u(1) Cons.prems(2) pos by (auto simp: observe_tensor_def t u64_of_usize_def split: if_split_asm)
  then show ?case using Cons.IH u(2) by blast
qed simp

lemma count_segments:
  assumes "list_all live_segment gs" "\<forall>i < length gs. sg_allocation_index (gs ! i) = k + i \<and> k + i < u32_lim"
    and "E + sum_list (map sg_elements gs) < u64_lim" "B + sum_list (map sg_bytes gs) < u64_lim"
    and "T + sum_list (map (\<lambda>g. length (sg_logical_names g)) gs) < u64_lim" "R + sum_list (map segment_references gs) < u64_lim"
  shows "for_each_res count_segment (E, B, T, R) (enumerate k gs) =
    Ok (E + sum_list (map sg_elements gs), B + sum_list (map sg_bytes gs),
        T + sum_list (map (\<lambda>g. length (sg_logical_names g)) gs), R + sum_list (map segment_references gs))"
  using assms
proof (induction gs arbitrary: k E B T R)
  case (Cons g gs)
  have here: "sg_allocation_index g = k" "k < u32_lim" using Cons.prems(2) by (auto dest: spec [of _ 0])
  have tl: "\<forall>i < length gs. sg_allocation_index (gs ! i) = Suc k + i \<and> Suc k + i < u32_lim"
    using Cons.prems(2) by (auto dest: spec [of _ "Suc _"])
  have step: "count_segment (E, B, T, R) (k, g) =
      Ok (E + sg_elements g, B + sg_bytes g, T + length (sg_logical_names g), R + segment_references g)"
    using Cons.prems(1,3-6) here
    by (simp add: count_segment_def u32_of_usize_def u64_of_usize_def checked_add_def checked_mul_def live_segment_def segment_references_def)
  show ?case
    using Cons.IH [OF _ tl, of "E + sg_elements g" "B + sg_bytes g" "T + length (sg_logical_names g)" "R + segment_references g"]
      Cons.prems(1,3-6) by (simp add: step add.assoc)
qed simp

lemma summary_state:
  assumes "weight_allocation_summary w = Ok s"
  obtains st where "tally st" "length (ss_segments st) < u64_lim"
    "s = \<lparr>as_schema_version = NNIS_WEIGHT_ALLOCATION_SUMMARY_VERSION, as_logical_tensor_references = ss_references st,
       as_logical_element_references = ss_element_references st, as_unique_device_allocations = length (ss_segments st),
       as_unique_device_elements = ss_unique_elements st, as_owned_device_allocation_bytes = ss_owned_bytes st,
       as_segments = ss_segments st\<rparr>"
proof -
  obtain obs st where obs: "for_each_res observe_tensor [] (logical_tensors w) = Ok obs"
    and st: "for_each_res observe_allocation summary_start obs = Ok st" and len: "length (ss_segments st) < u64_lim"
    and s: "s = \<lparr>as_schema_version = NNIS_WEIGHT_ALLOCATION_SUMMARY_VERSION, as_logical_tensor_references = ss_references st,
       as_logical_element_references = ss_element_references st, as_unique_device_allocations = length (ss_segments st),
       as_unique_device_elements = ss_unique_elements st, as_owned_device_allocation_bytes = ss_owned_bytes st,
       as_segments = ss_segments st\<rparr>"
    using assms by (auto simp: weight_allocation_summary_def summarize_weight_allocations_def u64_of_usize_def split: if_splits)
  show thesis using that [OF tally_all [OF st tally_start] len s] observed_live [OF obs] by simp
qed

lemma summary_validates:
  assumes "weight_allocation_summary w = Ok s"
  shows "validate_source_summary s = Ok ()"
proof -
  from summary_state [OF assms] obtain st where T: "tally st" and len: "length (ss_segments st) < u64_lim"
    and s: "s = \<lparr>as_schema_version = NNIS_WEIGHT_ALLOCATION_SUMMARY_VERSION, as_logical_tensor_references = ss_references st,
       as_logical_element_references = ss_element_references st, as_unique_device_allocations = length (ss_segments st),
       as_unique_device_elements = ss_unique_elements st, as_owned_device_allocation_bytes = ss_owned_bytes st,
       as_segments = ss_segments st\<rparr>" .
  have "for_each_res count_segment (0, 0, 0, 0) (enumerate 0 (ss_segments st)) =
      Ok (ss_unique_elements st, ss_owned_bytes st, ss_references st, ss_element_references st)"
    using count_segments [of "ss_segments st" 0 0 0 0 0] T by (simp add: tally_def)
  then show ?thesis using len by (simp add: validate_source_summary_def s usize_of_u64_def)
qed

lemma live_sums:
  assumes "list_all live_segment gs" "gs \<noteq> []"
  shows "0 < sum_list (map sg_bytes gs)" "0 < sum_list (map (\<lambda>g. length (sg_logical_names g)) gs)"
    "0 < sum_list (map segment_references gs)"
  using assms by (cases gs; auto simp: live_segment_def segment_references_def)+

lemma references_cover: "list_all live_segment gs \<Longrightarrow> sum_list (map sg_elements gs) \<le> sum_list (map segment_references gs)"
proof (induction gs)
  case (Cons g gs)
  then have "sg_elements g \<le> segment_references g" by (cases "sg_logical_names g") (simp_all add: live_segment_def segment_references_def)
  then show ?case using Cons by simp
qed simp

lemma summary_counts:
  assumes "weight_allocation_summary w = Ok s" "as_unique_device_elements s \<noteq> 0"
  shows "0 < as_logical_tensor_references s" "0 < as_logical_element_references s" "0 < as_unique_device_allocations s"
    "0 < as_owned_device_allocation_bytes s" "as_unique_device_elements s \<le> as_logical_element_references s"
proof -
  from summary_state [OF assms(1)] obtain st where T: "tally st"
    and s: "s = \<lparr>as_schema_version = NNIS_WEIGHT_ALLOCATION_SUMMARY_VERSION, as_logical_tensor_references = ss_references st,
       as_logical_element_references = ss_element_references st, as_unique_device_allocations = length (ss_segments st),
       as_unique_device_elements = ss_unique_elements st, as_owned_device_allocation_bytes = ss_owned_bytes st,
       as_segments = ss_segments st\<rparr>" by metis
  have live: "list_all live_segment (ss_segments st)" "ss_segments st \<noteq> []"
    using T assms(2) by (auto simp: tally_def s)
  show "0 < as_logical_tensor_references s" "0 < as_logical_element_references s" "0 < as_unique_device_allocations s"
    "0 < as_owned_device_allocation_bytes s"
    using live_sums [OF live] live(2) T by (simp_all add: s tally_def)
  show "as_unique_device_elements s \<le> as_logical_element_references s"
    using references_cover [OF live(1)] T by (simp add: s tally_def)
qed

section \<open>What the records guarantee\<close>

lemma device_ownership_valid:
  "device_ownership_validate ar e = Ok () \<longleftrightarrow>
     do_schema_version e = NNIS_DENSE_WEIGHT_MATERIALIZATION_EVIDENCE_VERSION \<and>
     do_execution_storage e = lit ''dense_f32_materialized'' \<and> \<not> do_low_bit_compute e \<and> 0 < do_unique_values e \<and>
     do_source_bytes e = 4 * do_unique_values e \<and> do_dense_bytes e = 4 * do_unique_values e \<and> 0 < do_representation_bytes e \<and>
     4 * do_unique_values e + (do_representation_bytes e + 4 * do_unique_values e) + do_temporary_bytes e < u64_lim \<and>
     \<not> cached_accounting_wrong ar e (do_representation_bytes e + 4 * do_unique_values e)
       (4 * do_unique_values e + (do_representation_bytes e + 4 * do_unique_values e) + do_temporary_bytes e)"
  by (auto simp: device_ownership_validate_def dense_f32_bytes_def final_scoped_bytes_def peak_scoped_bytes_def
      checked_bind_def checked_add_def checked_mul_def mult.commute split: if_split_asm)

lemma device_ownership_new_Ok:
  assumes "device_ownership_new ar family values source representation dense temporary duration = Ok e"
  shows "device_ownership_validate ar e = Ok () \<and> do_family e = family \<and> do_unique_values e = values \<and>
    do_source_bytes e = source \<and> do_representation_bytes e = representation \<and> do_dense_bytes e = dense \<and>
    do_temporary_bytes e = temporary \<and> do_duration_ns e = duration"
  using assms unfolding device_ownership_new_def
  by (auto simp: Let_def simp del: check_all_Ok_iff split: if_split_asm)

lemma cached_accounting_exact:
  assumes "inj (a64_bits ar)" "\<not> cached_accounting_wrong ar e f p"
  shows "do_final_bytes e = f \<and> do_peak_bytes e = p \<and>
    do_representation_bits e = bits_per_value ar (do_representation_bytes e) (do_unique_values e) \<and>
    do_dense_bits e = bits_per_value ar (do_dense_bytes e) (do_unique_values e) \<and>
    do_final_bits e = bits_per_value ar f (do_unique_values e) \<and>
    finite_ratio ar (do_representation_bits e) \<and> finite_ratio ar (do_dense_bits e) \<and> finite_ratio ar (do_final_bits e) \<and>
    a64_bits ar (do_dense_bits e) = a64_bits ar (a64_of_u64 ar 32)"
  using assms by (simp add: cached_accounting_wrong_def Let_def inj_eq)

lemma device_ownership_rebuilds:
  assumes "inj (a64_bits ar)" "device_ownership_validate ar e = Ok ()"
  shows "device_ownership_new ar (do_family e) (do_unique_values e) (do_source_bytes e) (do_representation_bytes e)
    (do_dense_bytes e) (do_temporary_bytes e) (do_duration_ns e) = Ok e"
proof -
  let ?v = "do_unique_values e" and ?r = "do_representation_bytes e" and ?t = "do_temporary_bytes e"
  from assms(2) have v: "do_schema_version e = NNIS_DENSE_WEIGHT_MATERIALIZATION_EVIDENCE_VERSION"
     "do_execution_storage e = lit ''dense_f32_materialized''" "do_low_bit_compute e = False" "0 < ?v"
     "do_source_bytes e = 4 * ?v" "do_dense_bytes e = 4 * ?v" "0 < ?r" "4 * ?v + (?r + 4 * ?v) + ?t < u64_lim"
     "\<not> cached_accounting_wrong ar e (?r + 4 * ?v) (4 * ?v + (?r + 4 * ?v) + ?t)"
    unfolding device_ownership_valid by simp_all
  note exact = cached_accounting_exact [OF assms(1) v(9)]
  have sizes: "dense_f32_bytes ?v = Ok (4 * ?v)" "final_scoped_bytes ?r (4 * ?v) = Ok (?r + 4 * ?v)"
    "peak_scoped_bytes (4 * ?v) (?r + 4 * ?v) ?t = Ok (4 * ?v + (?r + 4 * ?v) + ?t)"
    using v(8) by (simp_all add: dense_f32_bytes_def final_scoped_bytes_def peak_scoped_bytes_def checked_bind_def
        checked_add_def checked_mul_def mult.commute)
  define R where "R = \<lparr>do_schema_version = NNIS_DENSE_WEIGHT_MATERIALIZATION_EVIDENCE_VERSION, do_family = do_family e,
       do_unique_values = ?v, do_source_bytes = 4 * ?v, do_representation_bytes = ?r, do_dense_bytes = 4 * ?v,
       do_temporary_bytes = ?t, do_final_bytes = ?r + 4 * ?v, do_peak_bytes = 4 * ?v + (?r + 4 * ?v) + ?t,
       do_duration_ns = do_duration_ns e, do_representation_bits = bits_per_value ar ?r ?v,
       do_dense_bits = bits_per_value ar (4 * ?v) ?v, do_final_bits = bits_per_value ar (?r + 4 * ?v) ?v,
       do_execution_storage = lit ''dense_f32_materialized'', do_low_bit_compute = False\<rparr>"
  have e: "R = e" unfolding R_def using v(1-6) exact by (cases e) simp
  have fin: "finite_ratio ar (bits_per_value ar ?r ?v)" "finite_ratio ar (bits_per_value ar (4 * ?v) ?v)"
    "finite_ratio ar (bits_per_value ar (?r + 4 * ?v) ?v)" "a64_bits ar (bits_per_value ar (4 * ?v) ?v) = a64_bits ar (a64_of_u64 ar 32)"
    using exact unfolding v(6) by metis+
  have "device_ownership_new ar (do_family e) ?v (4 * ?v) ?r (4 * ?v) ?t (do_duration_ns e) =
      and_then (device_ownership_validate ar R) (\<lambda>_. Ok R)"
    unfolding device_ownership_new_def sizes and_then_simps Let_def R_def [symmetric] check_all_simps prod.case
    using v(4,7) by (simp only: fin not_True_eq_False if_False and_then_simps mult_eq_0_iff neq0_conv [symmetric] simp_thms) simp
  then show ?thesis unfolding v(5,6) e assms(2) by simp
qed

lemma weight_accounting_new_Ok:
  "weight_accounting_new ar d serialized resident = Ok a \<longleftrightarrow>
     validate_denominator d = Ok () \<and> 0 < serialized \<and> 0 < resident \<and>
     finite_ratio ar (bits_per_value ar serialized (wd_unique_values d)) \<and>
     finite_ratio ar (bits_per_value ar resident (wd_unique_values d)) \<and>
     a = \<lparr>wa_schema_version = NNIS_WEIGHT_REPRESENTATION_ACCOUNTING_VERSION, wa_denominator = d,
          wa_serialized_bytes = serialized, wa_resident_bytes = resident,
          wa_serialized_bits = bits_per_value ar serialized (wd_unique_values d),
          wa_resident_bits = bits_per_value ar resident (wd_unique_values d)\<rparr>"
  by (auto simp: weight_accounting_new_def Let_def)

lemma weight_accounting_new_valid:
  "weight_accounting_new ar d serialized resident = Ok a \<Longrightarrow> weight_accounting_validate ar a = Ok ()"
  by (auto simp: weight_accounting_validate_def weight_accounting_new_Ok)

lemma weight_accounting_rebuilds:
  assumes "inj (a64_bits ar)"
  shows "weight_accounting_validate ar a = Ok () \<longleftrightarrow>
    weight_accounting_new ar (wa_denominator a) (wa_serialized_bytes a) (wa_resident_bytes a) = Ok a"
proof
  assume "weight_accounting_validate ar a = Ok ()"
  then show "weight_accounting_new ar (wa_denominator a) (wa_serialized_bytes a) (wa_resident_bytes a) = Ok a"
    using assms by (cases a) (auto simp: weight_accounting_validate_def weight_accounting_new_Ok inj_eq split: if_split_asm)
qed (rule weight_accounting_new_valid)

lemma full_model_valid:
  assumes "full_model_validate ar e = Ok ()"
  shows "fm_physical_execution e \<and> 0 < fm_token_count e \<and> \<not> fm_non_finite_output e \<and>
    \<not> bad_evidence (a64 ar) (fm_max_abs_error e) (fm_mse e) \<and> device_ownership_validate ar (me_device (fm_materialization e)) = Ok () \<and>
    do_family (me_device (fm_materialization e)) = fm_family e"
  using assms by (auto simp: full_model_validate_def materialization_validate_def Let_def split: if_split_asm)

lemma qualification_new_Ok:
  "qualification_new ar family version checkpoint level physical tokens max_abs_error mse accounting = Ok q \<Longrightarrow>
     qualification_validate ar q = Ok () \<and> qr_family q = family \<and> qr_exact_checkpoint q = checkpoint \<and>
     qr_execution_level q = level \<and> qr_physical_execution q = physical \<and> qr_tokens_verified q = tokens \<and> qr_accounting q = accounting"
  by (auto simp: qualification_new_def Let_def)

lemma from_physical_observation_Ok:
  assumes "from_physical_observation ar sha family version ck ob serialized tensors elements allocations max_abs_error mse m = Ok e"
  shows "observation_validate ob = Ok () \<and> full_model_validate ar e = Ok () \<and> fm_exact_checkpoint e = evidence_key sha ck \<and>
    fm_family e = family \<and> fm_token_count e = te_token_count (po_generated_tokens ob) \<and>
    fm_token_ids_sha256 e = te_token_ids_sha256 (po_generated_tokens ob) \<and> fm_materialization e = m \<and> fm_serialized_bytes e = serialized"
  using assms by (auto simp: from_physical_observation_def Let_def)

text \<open>Exact rational arithmetic would do; natural division is enough for the instances below.\<close>

definition nat_arith64 :: "nat arith64" where
  "nat_arith64 = \<lparr>a64 = first_arith, a64_of_u64 = id, a64_div = (div), a64_bits = id\<rparr>"

lemma nat_arith64_sel [simp]:
  "a64 nat_arith64 = first_arith" "a64_of_u64 nat_arith64 n = n" "a64_div nat_arith64 x y = x div y" "a64_bits nat_arith64 x = x"
  "finite_ratio nat_arith64 x"
  by (simp_all add: nat_arith64_def finite_ratio_def)

definition demo_device :: "nat device_ownership" where
  "demo_device = \<lparr>do_schema_version = 1, do_family = Int4Symmetric, do_unique_values = 16, do_source_bytes = 64,
     do_representation_bytes = 12, do_dense_bytes = 64, do_temporary_bytes = 0, do_final_bytes = 76, do_peak_bytes = 140,
     do_duration_ns = 1000, do_representation_bits = 6, do_dense_bits = 32, do_final_bits = 38,
     do_execution_storage = lit ''dense_f32_materialized'', do_low_bit_compute = False\<rparr>"

lemma demo_device_valid: "device_ownership_validate nat_arith64 demo_device = Ok ()"
  unfolding device_ownership_valid
  by (simp add: demo_device_def NNIS_DENSE_WEIGHT_MATERIALIZATION_EVIDENCE_VERSION_def u64_lim_def
      cached_accounting_wrong_def bits_per_value_def)

text \<open>Concrete inputs of the witnesses: three names over two allocations, a checkpoint, an observation of three tokens.\<close>

definition sample_weights :: model_weights where
  "sample_weights =
     \<lparr>wt_token_embedding = \<lparr>mw_tensor = T_F32 \<lparr>buf_ptr = 4096, buf_len = 2, buf_ctx = 7\<rparr>, mw_rows = 1, mw_cols = 2\<rparr>,
      wt_layers = [], wt_final_norm = \<lparr>vw_tensor = T_F32 \<lparr>buf_ptr = 8192, buf_len = 2, buf_ctx = 7\<rparr>, vw_len = 2\<rparr>,
      wt_lm_head = \<lparr>mw_tensor = T_F32 \<lparr>buf_ptr = 4096, buf_len = 2, buf_ctx = 7\<rparr>, mw_rows = 2, mw_cols = 1\<rparr>\<rparr>"

definition zero_digest :: "u8 list \<Rightarrow> u8 list" where "zero_digest m = replicate 32 0"

definition sample_checkpoint :: checkpoint_spec where
  "sample_checkpoint = SMOLLM2_135M_BF16\<lparr>ck_name := [97]\<rparr>"

definition sample_observation :: physical_observation where
  "sample_observation = \<lparr>po_schema_version = 1, po_nnis_commit = replicate 40 48, po_runtime_entrypoint = [97],
     po_generated_tokens = \<lparr>te_schema_version = 1, te_token_count = 3, te_token_ids_sha256 = replicate 64 48\<rparr>,
     po_non_finite_output = False\<rparr>"

definition sample_materialization :: "nat materialization_evidence" where
  "sample_materialization = \<lparr>me_schema_version = 2, me_device = demo_device, me_peak_host_bytes = 100, me_host_scope = host_scope_text\<rparr>"

lemma to_hex_zeros: "to_hex (replicate n 0) = replicate (2 * n) 48"
  by (induction n) (simp_all add: hex_digit_def lit_def)

lemma sample_key: "evidence_key zero_digest sample_checkpoint = 97 # lit ''@sha256:'' @ replicate 64 48"
  using to_hex_zeros [of 32] by (simp add: evidence_key_def zero_digest_def sample_checkpoint_def)

lemma sample_key_trim: "trim (97 # lit ''@sha256:'' @ replicate 64 48) = 97 # lit ''@sha256:'' @ replicate 64 48" "trim [97] = [97]"
  by (simp_all add: trim_id_iff is_white_def)

lemma hex_facts:
  "str_len (replicate 40 48) = 40" "str_len (replicate 64 48) = 64" "list_all (\<lambda>b. is_lower_hex (unat b)) (as_bytes (replicate 40 48))"
  "list_all (\<lambda>b. is_lower_hex (unat b)) (as_bytes (replicate 64 48))" "is_hex_digest (replicate 64 48)"
  by code_simp+

section \<open>Properties\<close>

text \<open>The accounting of a model's weights is a valid denominator.  Whenever the weights of a model can be summarized,
  the summary passes every check of the representation accounting - contiguous indices, live segments, no overflow, totals
  that reconcile with the segments, aliases counted once per name - and the denominator holds its counts.\<close>

theorem weight_summary_is_denominator:
  assumes "weight_allocation_summary w = Ok s"
  shows "from_weight_allocation_summary s =
    Ok \<lparr>wd_schema_version = NNIS_WEIGHT_REPRESENTATION_ACCOUNTING_VERSION,
        wd_tensor_references = as_logical_tensor_references s, wd_element_references = as_logical_element_references s,
        wd_unique_allocations = as_unique_device_allocations s, wd_unique_values = as_unique_device_elements s,
        wd_source_bytes = as_owned_device_allocation_bytes s\<rparr>"
  using summary_validates [OF assms] by (simp add: from_weight_allocation_summary_def)

text \<open>Evidence read back is the evidence that was made.  A record of dense materialization or of a representation's
  accounting passes its checks exactly when it is what its constructor returns for the byte counts in it, every derived
  total and ratio included, if equal bits mean equal ratios.\<close>

theorem evidence_is_canonical:
  assumes "inj (a64_bits ar)"
  shows "(device_ownership_validate ar e = Ok () \<longleftrightarrow>
      device_ownership_new ar (do_family e) (do_unique_values e) (do_source_bytes e) (do_representation_bytes e)
        (do_dense_bytes e) (do_temporary_bytes e) (do_duration_ns e) = Ok e) \<and>
    (weight_accounting_validate ar a = Ok () \<longleftrightarrow>
      weight_accounting_new ar (wa_denominator a) (wa_serialized_bytes a) (wa_resident_bytes a) = Ok a)"
  using device_ownership_rebuilds [OF assms] device_ownership_new_Ok weight_accounting_rebuilds [OF assms] by blast

theorem evidence_is_canonical_witness:
  "device_ownership_new nat_arith64 Int4Symmetric 16 64 12 64 0 1000 = Ok demo_device"
proof -
  have "inj (a64_bits nat_arith64)" by (simp add: inj_def)
  from evidence_is_canonical [OF this, of demo_device] demo_device_valid show ?thesis by (simp add: demo_device_def)
qed

text \<open>C36. A full-model record is backed by everything it claims.  When evidence made from a physical observation of a
  checkpoint yields a qualification record, the record has level full-model and passes its own checks, names the
  checkpoint's evidence key, and the observation had at least one generated token, a well-formed digest and finite output;
  its resident bytes are the compact representation plus four bytes for every unique value, without overflow.\<close>

theorem full_model_record_backed:
  assumes "from_physical_observation ar sha family version ck ob serialized tensors elements allocations max_abs_error mse m = Ok e"
    and "full_model_qualification ar e = Ok q"
  shows "qr_execution_level q = FullModel \<and> qr_physical_execution q \<and> qr_tokens_verified q \<and>
    qualification_validate ar q = Ok () \<and> qr_family q = family \<and> do_family (me_device m) = family \<and>
    qr_exact_checkpoint q = evidence_key sha ck \<and>
    0 < te_token_count (po_generated_tokens ob) \<and> is_hex_digest (te_token_ids_sha256 (po_generated_tokens ob)) \<and>
    \<not> po_non_finite_output ob \<and>
    wa_serialized_bytes (qr_accounting q) = serialized \<and>
    wa_resident_bytes (qr_accounting q) = do_representation_bytes (me_device m) + 4 * do_unique_values (me_device m) \<and>
    wa_resident_bytes (qr_accounting q) < u64_lim \<and>
    wd_source_bytes (wa_denominator (qr_accounting q)) = 4 * wd_unique_values (wa_denominator (qr_accounting q))"
proof -
  note made = from_physical_observation_Ok [OF assms(1)]
  note valid = full_model_valid [of ar e]
  from made have ob: "0 < te_token_count (po_generated_tokens ob)" "is_hex_digest (te_token_ids_sha256 (po_generated_tokens ob))"
    "\<not> po_non_finite_output ob"
    by (auto simp: observation_validate_def token_evidence_validate_def split: if_split_asm)
  obtain a where a: "qualification_new ar (fm_family e) (fm_representation_version e) (fm_exact_checkpoint e) FullModel True True
      (fm_max_abs_error e) (fm_mse e) a = Ok q"
    and acc: "weight_accounting_new ar \<lparr>wd_schema_version = NNIS_WEIGHT_REPRESENTATION_ACCOUNTING_VERSION,
      wd_tensor_references = fm_tensor_references e, wd_element_references = fm_element_references e,
      wd_unique_allocations = fm_unique_allocations e, wd_unique_values = do_unique_values (me_device m),
      wd_source_bytes = do_source_bytes (me_device m)\<rparr> (fm_serialized_bytes e) (do_final_bytes (me_device m)) = Ok a"
    using assms(2) made by (auto simp: full_model_qualification_def Let_def)
  have device: "device_ownership_validate ar (me_device m) = Ok ()" "do_family (me_device m) = fm_family e"
    using valid made by auto
  then have final: "do_final_bytes (me_device m) = do_representation_bytes (me_device m) + 4 * do_unique_values (me_device m)"
    "do_final_bytes (me_device m) < u64_lim" "do_source_bytes (me_device m) = 4 * do_unique_values (me_device m)"
    unfolding device_ownership_valid cached_accounting_wrong_def Let_def by auto
  show ?thesis
    using qualification_new_Ok [OF a] acc made ob device final by (auto simp: weight_accounting_new_Ok)
qed

definition sample_summary :: allocation_summary where
  "sample_summary = \<lparr>as_schema_version = 1, as_logical_tensor_references = 3, as_logical_element_references = 6,
     as_unique_device_allocations = 2, as_unique_device_elements = 4, as_owned_device_allocation_bytes = 16,
     as_segments = [\<lparr>sg_allocation_index = 0, sg_dtype = A_F32, sg_elements = 2, sg_bytes = 8,
         sg_logical_names = [lit ''token_embedding'', lit ''lm_head'']\<rparr>,
       \<lparr>sg_allocation_index = 1, sg_dtype = A_F32, sg_elements = 2, sg_bytes = 8, sg_logical_names = [lit ''final_norm'']\<rparr>]\<rparr>"

lemma sample_summarized: "weight_allocation_summary sample_weights = Ok sample_summary"
  by (simp add: weight_allocation_summary_def logical_tensors_def sample_weights_def matrix_entry_def vector_entry_def observe_tensor_def
      tensor_len_def size_bytes_def allocation_key_def u64_of_usize_def u64_lim_def summarize_weight_allocations_def
      observe_allocation_def summary_start_def count_up_def checked_add_def u32_of_usize_def u32_lim_def segment_agrees_def Let_def
      NNIS_WEIGHT_ALLOCATION_SUMMARY_VERSION_def sample_summary_def)

text \<open>Two of the three tensors share their allocation.\<close>

theorem weight_summary_exact_witness:
  "length (logical_tensors sample_weights) = 3 \<and> card (tensor_key ` set (logical_tensors sample_weights)) = 2"
  using weight_summary_exact [OF sample_summarized] by (simp add: sample_summary_def)

theorem weight_summary_is_denominator_witness:
  "\<exists>s. weight_allocation_summary sample_weights = Ok s \<and>
     from_weight_allocation_summary s =
       Ok \<lparr>wd_schema_version = 1, wd_tensor_references = 3, wd_element_references = 6, wd_unique_allocations = 2,
           wd_unique_values = 4, wd_source_bytes = 16\<rparr>"
  using weight_summary_is_denominator [OF sample_summarized] sample_summarized
  by (simp add: sample_summary_def NNIS_WEIGHT_REPRESENTATION_ACCOUNTING_VERSION_def)

theorem full_model_record_backed_witness:
  "\<exists>e q. from_physical_observation nat_arith64 zero_digest Int4Symmetric 1 sample_checkpoint sample_observation 24 1 16 1 f32_zero 0
       sample_materialization = Ok e \<and>
     full_model_qualification nat_arith64 e = Ok q \<and> wa_resident_bytes (qr_accounting q) = 76"
proof -
  let ?key = "evidence_key zero_digest sample_checkpoint"
  let ?e = "\<lparr>fm_schema_version = 1, fm_family = Int4Symmetric, fm_representation_version = 1, fm_exact_checkpoint = ?key,
     fm_nnis_commit = replicate 40 48, fm_runtime_entrypoint = [97], fm_physical_execution = True, fm_token_count = 3,
     fm_token_ids_sha256 = replicate 64 48, fm_non_finite_output = False, fm_serialized_bytes = 24, fm_tensor_references = 1,
     fm_element_references = 16, fm_unique_allocations = 1, fm_max_abs_error = f32_zero, fm_mse = 0,
     fm_materialization = sample_materialization\<rparr> :: nat full_model_evidence"
  have m: "materialization_validate nat_arith64 sample_materialization = Ok ()" "me_device sample_materialization = demo_device"
    using demo_device_valid
    by (simp_all add: materialization_validate_def sample_materialization_def NNIS_DENSE_WEIGHT_MATERIALIZATION_EVIDENCE_V2_VERSION_def)
  have device: "do_family demo_device = Int4Symmetric" "\<not> do_low_bit_compute demo_device" "do_unique_values demo_device = 16"
    "do_execution_storage demo_device = lit ''dense_f32_materialized''" "do_source_bytes demo_device = 64" "do_final_bytes demo_device = 76"
    "do_representation_bytes demo_device = 12"
    by (simp_all add: demo_device_def)
  have hex: "validate_lower_hex l (replicate 40 48) 40 = Ok ()" "validate_lower_hex l (replicate 64 48) 64 = Ok ()"
    "is_hex_digest (replicate 64 48)" for l
    by (simp_all add: validate_lower_hex_def hex_facts)
  have key: "validate_trimmed l ?key = Ok ()" "validate_trimmed l [97] = Ok ()" "?key \<noteq> []" "trim ?key = ?key" for l
    unfolding validate_trimmed_def sample_key sample_key_trim by simp_all
  have e: "full_model_validate nat_arith64 ?e = Ok ()"
    unfolding full_model_validate_def full_model_evidence.select_convs NNIS_WEIGHT_FULL_MODEL_EVIDENCE_VERSION_def key(1,2) hex
      m device Let_def and_then_simps nat_arith64_sel
    using unit_facts(13) device(2) by simp
  have made: "from_physical_observation nat_arith64 zero_digest Int4Symmetric 1 sample_checkpoint sample_observation 24 1 16 1 f32_zero 0
      sample_materialization = Ok ?e"
  proof -
    have "observation_validate sample_observation = Ok ()"
      unfolding observation_validate_def sample_observation_def physical_observation.select_convs hex key(2) and_then_simps
        token_evidence_validate_def token_evidence.select_convs NNIS_PHYSICAL_WEIGHT_EXECUTION_OBSERVATION_VERSION_def
        NNIS_GENERATED_TOKEN_EVIDENCE_VERSION_def
      by (simp only: hex(3) simp_thms if_False if_True numeral_neq_zero and_then_simps)
    moreover have "po_nnis_commit sample_observation = replicate 40 48" "po_runtime_entrypoint sample_observation = [97]"
      "te_token_count (po_generated_tokens sample_observation) = 3"
      "te_token_ids_sha256 (po_generated_tokens sample_observation) = replicate 64 48"
      by (simp_all add: sample_observation_def)
    ultimately show ?thesis
      unfolding from_physical_observation_def NNIS_WEIGHT_FULL_MODEL_EVIDENCE_VERSION_def and_then_simps Let_def
      by (simp only: e and_then_simps)
  qed
  let ?d = "\<lparr>wd_schema_version = 1, wd_tensor_references = 1, wd_element_references = 16, wd_unique_allocations = 1,
     wd_unique_values = 16, wd_source_bytes = 64\<rparr>"
  obtain a where a: "weight_accounting_new nat_arith64 ?d 24 76 = Ok a"
    by (simp add: weight_accounting_new_def validate_denominator_def NNIS_WEIGHT_REPRESENTATION_ACCOUNTING_VERSION_def)
  obtain q where q: "full_model_qualification nat_arith64 ?e = Ok q"
  proof
    show "full_model_qualification nat_arith64 ?e = Ok \<lparr>qr_schema_version = 1, qr_family = Int4Symmetric,
       qr_representation_version = 1, qr_exact_checkpoint = ?key, qr_execution_level = FullModel, qr_physical_execution = True,
       qr_tokens_verified = True, qr_max_abs_error = f32_zero, qr_mse = 0, qr_accounting = a\<rparr>"
      unfolding full_model_qualification_def e and_then_simps Let_def full_model_evidence.select_convs m device
        NNIS_WEIGHT_REPRESENTATION_ACCOUNTING_VERSION_def a qualification_new_def NNIS_WEIGHT_REPRESENTATION_QUALIFICATION_VERSION_def
        qualification_validate_def qualification_record.select_convs weight_accounting_new_valid [OF a] nat_arith64_sel level_claims.simps
      using unit_facts(13) key(3,4) by simp
  qed
  have "wa_resident_bytes (qr_accounting q) = 76"
    using full_model_record_backed [OF made q] by (simp add: m device)
  then show ?thesis using made q by blast
qed

end
