(* ===== verification/WeightStorage.thy ===== *)
theory WeightStorage
  imports WeightEvidence GemvKernels DecoderModel KvCompaction
begin

text \<open>
  Compact copies of a model's weights in device memory: the storage part of \<open>int4_reference.rs\<close> and
  \<open>int2_model_storage.rs\<close>, which are the same code for two codecs, so the codec is a record.  Every distinct device
  allocation of the source is quantized once; names that share an allocation share its compact copy.  What a failure
  frees is part of the model.
\<close>

section \<open>Codecs\<close>

record 'd codec =
  cx_label :: string
  cx_family :: weight_family
  cx_version :: nat
  cx_header_bytes :: nat
  cx_representation :: string
  cx_quantization :: string
  cx_range :: "(int \<times> int) option"
  cx_quantize :: "f32 list \<Rightarrow> nnis_error + 'd quantized_tensor"
  cx_canonical :: "'d quantized_tensor \<Rightarrow> nnis_error + u8 list"
  cx_dequantize :: "'d quantized_tensor \<Rightarrow> nnis_error + f32 list"

definition int4_codec :: "'d arith64 \<Rightarrow> 'd codec" where
  "int4_codec ar =
     \<lparr>cx_label = ''INT4'', cx_family = Int4Symmetric, cx_version = NNIS_INT4_REFERENCE_STORAGE_VERSION,
      cx_header_bytes = NNIS_INT4_REFERENCE_SERIALIZED_HEADER_BYTES,
      cx_representation = ''symmetric-signed-int4-reference'', cx_quantization = ''round-to-nearest-clamped-minus7-plus7'',
      cx_range = Some (NNIS_INT4_REFERENCE_QUANT_MIN, NNIS_INT4_REFERENCE_QUANT_MAX),
      cx_quantize = int4_quantize (a64 ar), cx_canonical = int4_canonical_serialized_bytes (a64 ar),
      cx_dequantize = int4_dequantize (a64 ar)\<rparr>"

definition int2_codec :: "'d arith64 \<Rightarrow> 'd codec" where
  "int2_codec ar =
     \<lparr>cx_label = ''INT2'', cx_family = Int2Ternary, cx_version = NNIS_INT2_REFERENCE_STORAGE_VERSION,
      cx_header_bytes = NNIS_INT2_REFERENCE_SERIALIZED_HEADER_BYTES,
      cx_representation = ''ternary-int2-reference'', cx_quantization = ''maxabs-half-threshold-minus1-zero-plus1'',
      cx_range = None, cx_quantize = int2_quantize (a64 ar), cx_canonical = int2_canonical_serialized_bytes (a64 ar),
      cx_dequantize = int2_dequantize (a64 ar)\<rparr>"

definition codec_text :: "'d codec \<Rightarrow> string \<Rightarrow> string" where
  "codec_text cx s = cx_label cx @ '' '' @ s"

definition codec_error :: "'d codec \<Rightarrow> string \<Rightarrow> nnis_error" where
  "codec_error cx s = invalid_lit (codec_text cx s)"

definition named_error :: "'d codec \<Rightarrow> string \<Rightarrow> rstr \<Rightarrow> string \<Rightarrow> nnis_error" where
  "named_error cx before name after = invalid_input (lit (codec_text cx before) @ name @ lit after)"

section \<open>The storage\<close>

record packed_allocation =
  pa_packed :: device_buffer
  pa_scale :: device_buffer

record 'd allocation_record =
  ar_allocation_index :: nat
  ar_logical_names :: "rstr list"
  ar_logical_values :: nat
  ar_source_bytes :: nat
  ar_header_bytes :: nat
  ar_payload_bytes :: nat
  ar_serialized_bytes :: nat
  ar_resident_payload :: nat
  ar_resident_scale :: nat
  ar_resident_total :: nat
  ar_scale :: f32
  ar_max_abs_error :: f32
  ar_mse :: 'd

record storage_totals =
  st_tensor_references :: nat
  st_element_references :: nat
  st_unique_values :: nat
  st_source_bytes :: nat
  st_header_bytes :: nat
  st_payload_bytes :: nat
  st_serialized_bytes :: nat
  st_resident_payload :: nat
  st_resident_scale :: nat
  st_resident_bytes :: nat

record 'd storage_summary =
  sm_schema_version :: nat
  sm_representation :: rstr
  sm_quantization :: rstr
  sm_scale_scope :: rstr
  sm_range :: "(int \<times> int) option"
  sm_execution_qualified :: bool
  sm_unique_allocations :: nat
  sm_totals :: storage_totals
  sm_serialized_bits :: 'd
  sm_resident_bits :: 'd
  sm_byte_ratio :: 'd
  sm_max_abs_error :: f32
  sm_mse :: 'd
  sm_allocations :: "'d allocation_record list"

type_synonym bindings = "(rstr \<times> nat \<times> logical_shape) list"

record 'd model_storage =
  ms_allocations :: "packed_allocation list"
  ms_bindings :: bindings
  ms_summary :: "'d storage_summary"

text \<open>The local variables of the closure that visits the tensors.\<close>

record 'd storage_build =
  sb_indices :: "nat \<Rightarrow> nat option"
  sb_allocations :: "packed_allocation list"
  sb_bindings :: bindings
  sb_records :: "'d allocation_record list"
  sb_totals :: storage_totals
  sb_max_abs_error :: f32
  sb_squared_error :: 'd

definition storage_start :: "'d arith64 \<Rightarrow> 'd storage_build" where
  "storage_start ar =
     \<lparr>sb_indices = Map.empty, sb_allocations = [], sb_bindings = [], sb_records = [],
      sb_totals = \<lparr>st_tensor_references = 0, st_element_references = 0, st_unique_values = 0, st_source_bytes = 0,
        st_header_bytes = 0, st_payload_bytes = 0, st_serialized_bytes = 0, st_resident_payload = 0, st_resident_scale = 0,
        st_resident_bytes = 0\<rparr>,
      sb_max_abs_error = f32_zero, sb_squared_error = ar_zero (a64 ar)\<rparr>"

subsection \<open>Resident allocations\<close>

definition check_resident ::
  "'d codec \<Rightarrow> nat \<times> nat \<Rightarrow> packed_allocation \<times> 'd allocation_record \<Rightarrow> nnis_error + nat \<times> nat" where
  "check_resident cx = (\<lambda>(payload_total, scale_total) (a, r).
     and_then (ok_or (codec_error cx ''live payload bytes exceed u64'') (u64_of_usize (size_bytes 1 (pa_packed a)))) (\<lambda>payload.
     and_then (ok_or (codec_error cx ''live scale bytes exceed u64'') (u64_of_usize (size_bytes 4 (pa_scale a)))) (\<lambda>scale.
       if payload \<noteq> ar_resident_payload r \<or> scale \<noteq> ar_resident_scale r then
         Err (codec_error cx ''live allocation bytes disagree with summary'')
       else
         and_then (ok_or (codec_error cx ''live bytes overflow u64'') (checked_add payload scale)) (\<lambda>bytes.
           if bytes \<noteq> ar_resident_total r then Err (codec_error cx ''live allocation bytes disagree with summary'')
           else
             and_then (count_up payload_total payload (codec_text cx ''live payload total'')) (\<lambda>payload_total.
             and_then (count_up scale_total scale (codec_text cx ''live scale total'')) (\<lambda>scale_total.
               Ok (payload_total, scale_total)))))))"

definition validate_resident_allocations :: "'d codec \<Rightarrow> 'd model_storage \<Rightarrow> nnis_error + unit" where
  "validate_resident_allocations cx m =
     (let s = ms_summary m; totals = sm_totals s in
      and_then (ok_or (codec_error cx ''logical binding count exceeds usize'') (usize_of_u64 (st_tensor_references totals))) (\<lambda>expected.
        if length (ms_bindings m) \<noteq> expected then Err (codec_error cx ''logical binding count disagrees with storage summary'')
        else if length (ms_allocations m) \<noteq> length (sm_allocations s) then
          Err (codec_error cx ''live allocation count disagrees with summary'')
        else
          and_then (for_each_res (check_resident cx) (0, 0) (zip (ms_allocations m) (sm_allocations s))) (\<lambda>(payload, scale).
            if payload \<noteq> st_resident_payload totals \<or> scale \<noteq> st_resident_scale totals then
              Err (codec_error cx ''live allocation totals disagree with summary'')
            else
              and_then (ok_or (codec_error cx ''live total bytes overflow u64'') (checked_add payload scale)) (\<lambda>bytes.
                if bytes \<noteq> st_resident_bytes totals then Err (codec_error cx ''live allocation totals disagree with summary'')
                else Ok ()))))"

subsection \<open>Visiting the tensors\<close>

text \<open>The memory of an \<open>f32\<close> slice, little-endian.\<close>

definition f32_bytes :: "f32 \<Rightarrow> u8 list" where
  "f32_bytes x = le_bytes 4 (unat x)"

definition f32_of_le :: "u8 list \<Rightarrow> f32" where
  "f32_of_le bs = of_nat (foldr (\<lambda>b n. unat b + 256 * n) bs 0)"

definition f32s_of_bytes :: "u8 list \<Rightarrow> f32 list" where
  "f32s_of_bytes bs = map f32_of_le (chunks_exact 4 bs)"

definition or_release :: "'s cuda \<Rightarrow> device_buffer list \<Rightarrow> ('s, 'a) rt_comp \<Rightarrow> ('s, 'a) rt_comp" where
  "or_release drv bs m s = (case m s of (t, Inl e) \<Rightarrow> (fold (device_buffer_drop drv) bs t, Err e) | (t, Inr a) \<Rightarrow> (t, Ok a))"

definition allocation_buffers :: "packed_allocation list \<Rightarrow> device_buffer list" where
  "allocation_buffers as = concat (map (\<lambda>a. [pa_packed a, pa_scale a]) as)"

definition insert_binding ::
  "'d codec \<Rightarrow> bindings \<Rightarrow> rstr \<Rightarrow> nat \<Rightarrow> logical_shape \<Rightarrow> nnis_error + bindings" where
  "insert_binding cx m name index shape =
     (if map_of m name \<noteq> None then Err (invalid_input (lit (''duplicate '' @ cx_label cx @ '' logical binding '') @ name)) else Ok (m @ [(name, index, shape)]))"

text \<open>What is checked of a tensor before its allocation is looked up: its length, its bytes and the counters.\<close>

definition visit_checks ::
  "'d codec \<Rightarrow> 'd storage_build \<Rightarrow> rstr \<Rightarrow> device_tensor \<Rightarrow> logical_shape \<Rightarrow> nnis_error + nat \<times> 'd storage_build" where
  "visit_checks cx sb name t shape =
     (case t of
        T_Bf16 _ \<Rightarrow> Err (unsupported (lit (codec_text cx ''reference storage requires F32 source weights; '') @ name @ lit '' is BF16''))
      | T_F32 b \<Rightarrow>
          if buf_ptr b = 0 \<or> tensor_len t = 0 then Err (named_error cx ''source weight '' name '' has no live allocation'')
          else
            and_then (ok_or (named_error cx ''source weight '' name '' length exceeds u64'') (u64_of_usize (tensor_len t))) (\<lambda>n_values.
            and_then (element_count shape) (\<lambda>shape_values.
              if shape_values \<noteq> tensor_len t then
                Err (invalid_input (lit (codec_text cx ''logical shape for '') @ name @ lit '' contains '' @ dec shape_values @
                  lit '' values but the source tensor contains '' @ dec (tensor_len t)))
              else
                let totals = sb_totals sb in
                and_then (count_up (st_tensor_references totals) 1 (codec_text cx ''logical tensor reference count'')) (\<lambda>refs.
                and_then (count_up (st_element_references totals) n_values (codec_text cx ''logical element reference count'')) (\<lambda>elements.
                  Ok (n_values,
                    sb\<lparr>sb_totals := totals\<lparr>st_tensor_references := refs, st_element_references := elements\<rparr>\<rparr>))))))"

definition visit_alias ::
  "'d codec \<Rightarrow> 'd storage_build \<Rightarrow> rstr \<Rightarrow> logical_shape \<Rightarrow> nat \<Rightarrow> nat \<Rightarrow> nat \<Rightarrow> nnis_error + 'd storage_build" where
  "visit_alias cx sb name shape n_values source_bytes index =
     (if length (sb_records sb) \<le> index then Err (codec_error cx ''source allocation index escaped summary'')
      else
        let r = sb_records sb ! index in
        if ar_logical_values r \<noteq> n_values then
          Err (named_error cx ''source alias '' name '' disagrees with its original allocation'')
        else
          and_then (ok_or (codec_error cx ''source byte count exceeds u64'') (u64_of_usize source_bytes)) (\<lambda>bytes.
            if ar_source_bytes r \<noteq> bytes then
              Err (named_error cx ''source alias '' name '' disagrees with its original allocation'')
            else
              and_then (insert_binding cx (sb_bindings sb) name index shape) (\<lambda>bindings.
                Ok (sb\<lparr>sb_records := (sb_records sb)[index := r\<lparr>ar_logical_names := ar_logical_names r @ [name]\<rparr>],
                       sb_bindings := bindings\<rparr>))))"

text \<open>A new allocation, up to the point where the storage owns it.\<close>

definition fresh_record ::
  "'d codec \<Rightarrow> nat \<Rightarrow> rstr \<Rightarrow> nat \<Rightarrow> nat \<Rightarrow> 'd quantized_tensor \<Rightarrow> u8 list \<Rightarrow> device_buffer \<Rightarrow> device_buffer \<Rightarrow>
   nnis_error + 'd allocation_record" where
  "fresh_record cx count name n_values source_bytes q canonical packed scale =
     and_then (ok_or (codec_error cx ''payload byte count exceeds u64'') (u64_of_usize (size_bytes 1 packed))) (\<lambda>payload_bytes.
     and_then (ok_or (codec_error cx ''scale byte count exceeds u64'') (u64_of_usize (size_bytes 4 scale))) (\<lambda>scale_bytes.
     and_then (ok_or (codec_error cx ''resident bytes overflow u64'') (checked_add payload_bytes scale_bytes)) (\<lambda>resident.
     and_then (ok_or (codec_error cx ''serialized bytes exceed u64'') (u64_of_usize (length canonical))) (\<lambda>serialized.
     and_then (ok_or (codec_error cx ''source byte count exceeds u64'') (u64_of_usize source_bytes)) (\<lambda>source.
     and_then (ok_or (codec_error cx ''payload length exceeds u64'') (u64_of_usize (length (qt_packed q)))) (\<lambda>payload.
     and_then (ok_or (codec_error cx ''serialized bytes overflow u64'') (checked_add (cx_header_bytes cx) payload)) (\<lambda>expected.
       if serialized \<noteq> expected then
         Err (codec_error cx ''canonical serialization length disagrees with accounting'')
       else if payload_bytes \<noteq> payload then
         Err (codec_error cx ''device payload bytes disagree with packed host payload bytes'')
       else
         and_then (ok_or (codec_error cx ''allocation count exceeds u32 contract capacity'') (u32_of_usize count)) (\<lambda>index.
           Ok \<lparr>ar_allocation_index = index, ar_logical_names = [name], ar_logical_values = n_values,
               ar_source_bytes = source, ar_header_bytes = cx_header_bytes cx, ar_payload_bytes = payload,
               ar_serialized_bytes = serialized, ar_resident_payload = payload_bytes, ar_resident_scale = scale_bytes,
               ar_resident_total = resident, ar_scale = qt_scale q, ar_max_abs_error = qt_max_abs_error q,
               ar_mse = qt_mse q\<rparr>))))))))"

definition fresh_allocation ::
  "'s cuda \<Rightarrow> 'd codec \<Rightarrow> nat \<Rightarrow> stream \<Rightarrow> nat \<Rightarrow> rstr \<Rightarrow> device_tensor \<Rightarrow> nat \<Rightarrow>
   ('s, packed_allocation \<times> 'd allocation_record) rt_comp" where
  "fresh_allocation drv cx ctx st count name t n_values =
     rt_bind (rt_lift (as_f32 t)) (\<lambda>b.
     rt_bind (buffer_to_vec drv 4 b st) (\<lambda>bytes.
     rt_bind (rt_lift (cx_quantize cx (f32s_of_bytes bytes))) (\<lambda>q.
     rt_bind (rt_lift (cx_canonical cx q)) (\<lambda>canonical.
     rt_bind (device_buffer_from_host drv 1 ctx st (map (\<lambda>byte. [byte]) (qt_packed q))) (\<lambda>packed.
     rt_bind (or_release drv [packed] (device_buffer_from_host drv 4 ctx st [f32_bytes (qt_scale q)])) (\<lambda>scale.
     rt_bind (or_release drv [scale, packed]
         (rt_lift (fresh_record cx count name n_values (tensor_size_bytes t) q canonical packed scale))) (\<lambda>r.
       rt_ok (\<lparr>pa_packed = packed, pa_scale = scale\<rparr>, r))))))))"

text \<open>Once the storage owns the allocation: the binding, the record and the totals.\<close>

definition add_totals :: "'d codec \<Rightarrow> storage_totals \<Rightarrow> 'd allocation_record \<Rightarrow> nnis_error + storage_totals" where
  "add_totals cx totals r =
     and_then (count_up (st_unique_values totals) (ar_logical_values r) (codec_text cx ''unique logical value count'')) (\<lambda>values.
     and_then (count_up (st_source_bytes totals) (ar_source_bytes r) (codec_text cx ''source owned bytes'')) (\<lambda>source.
     and_then (count_up (st_header_bytes totals) (ar_header_bytes r) (codec_text cx ''serialized header bytes'')) (\<lambda>header.
     and_then (count_up (st_payload_bytes totals) (ar_payload_bytes r) (codec_text cx ''serialized payload bytes'')) (\<lambda>payload.
     and_then (count_up (st_serialized_bytes totals) (ar_serialized_bytes r) (codec_text cx ''serialized total bytes'')) (\<lambda>serialized.
     and_then (count_up (st_resident_payload totals) (ar_resident_payload r) (codec_text cx ''resident payload bytes'')) (\<lambda>res_payload.
     and_then (count_up (st_resident_scale totals) (ar_resident_scale r) (codec_text cx ''resident scale bytes'')) (\<lambda>res_scale.
     and_then (count_up (st_resident_bytes totals) (ar_resident_total r) (codec_text cx ''resident device bytes'')) (\<lambda>resident.
       Ok (totals\<lparr>st_unique_values := values, st_source_bytes := source, st_header_bytes := header, st_payload_bytes := payload,
            st_serialized_bytes := serialized, st_resident_payload := res_payload, st_resident_scale := res_scale,
            st_resident_bytes := resident\<rparr>)))))))))"

definition record_allocation ::
  "'d arith64 \<Rightarrow> 'd codec \<Rightarrow> 'd storage_build \<Rightarrow> rstr \<Rightarrow> logical_shape \<Rightarrow> nat \<Rightarrow> packed_allocation \<Rightarrow> 'd allocation_record \<Rightarrow>
   nnis_error + 'd storage_build" where
  "record_allocation ar cx sb name shape source_key a r =
     (let index = length (sb_records sb) in
      and_then (insert_binding cx (sb_bindings sb) name index shape) (\<lambda>bindings.
      and_then (add_totals cx (sb_totals sb) r) (\<lambda>totals.
        Ok (sb\<lparr>sb_indices := (sb_indices sb)(source_key \<mapsto> index), sb_allocations := sb_allocations sb @ [a],
               sb_bindings := bindings, sb_records := sb_records sb @ [r], sb_totals := totals,
               sb_max_abs_error := f32_max (sb_max_abs_error sb) (ar_max_abs_error r),
               sb_squared_error := ar_add64 (a64 ar) (sb_squared_error sb)
                 (ar_mul64 (a64 ar) (ar_mse r) (a64_of_u64 ar (ar_logical_values r)))\<rparr>))))"

text \<open>A failure drops what the storage owns: the allocation of this tensor is the last of it once it is pushed.\<close>

definition storage_visit ::
  "'s cuda \<Rightarrow> 'd arith64 \<Rightarrow> 'd codec \<Rightarrow> nat \<Rightarrow> stream \<Rightarrow> 'd storage_build \<Rightarrow> logical_tensor \<Rightarrow> ('s, 'd storage_build) rt_comp" where
  "storage_visit drv ar cx ctx st sb = (\<lambda>(name, t, shape).
     rt_bind (or_release drv (allocation_buffers (sb_allocations sb))
       (rt_bind (rt_lift (visit_checks cx sb name t shape)) (\<lambda>(n_values, sb).
          case sb_indices sb (allocation_key t) of
            Some index \<Rightarrow>
              rt_bind (rt_lift (visit_alias cx sb name shape n_values (tensor_size_bytes t) index)) (\<lambda>sb. rt_ok (sb, None))
          | None \<Rightarrow>
              rt_bind (fresh_allocation drv cx ctx st (length (sb_allocations sb)) name t n_values) (\<lambda>ar_new. rt_ok (sb, Some ar_new)))))
       (\<lambda>(sb, fresh). case fresh of
            None \<Rightarrow> rt_ok sb
          | Some (a, r) \<Rightarrow>
              or_release drv (allocation_buffers (sb_allocations sb @ [a]))
                (rt_lift (record_allocation ar cx sb name shape (allocation_key t) a r))))"

fun storage_visit_all ::
  "'s cuda \<Rightarrow> 'd arith64 \<Rightarrow> 'd codec \<Rightarrow> nat \<Rightarrow> stream \<Rightarrow> 'd storage_build \<Rightarrow> logical_tensor list \<Rightarrow> ('s, 'd storage_build) rt_comp" where
  "storage_visit_all drv ar cx ctx st sb [] = rt_ok sb"
| "storage_visit_all drv ar cx ctx st sb (t # ts) =
     rt_bind (storage_visit drv ar cx ctx st sb t) (\<lambda>sb. storage_visit_all drv ar cx ctx st sb ts)"

subsection \<open>The finished storage\<close>

definition source_disagrees :: "allocation_summary \<Rightarrow> 'd storage_build \<Rightarrow> nat \<Rightarrow> bool" where
  "source_disagrees src sb allocations \<longleftrightarrow>
     as_logical_tensor_references src \<noteq> st_tensor_references (sb_totals sb) \<or>
     as_logical_element_references src \<noteq> st_element_references (sb_totals sb) \<or>
     as_unique_device_allocations src \<noteq> allocations \<or>
     as_unique_device_elements src \<noteq> st_unique_values (sb_totals sb) \<or>
     as_owned_device_allocation_bytes src \<noteq> st_source_bytes (sb_totals sb)"

definition storage_summary_of :: "'d arith64 \<Rightarrow> 'd codec \<Rightarrow> allocation_summary \<Rightarrow> 'd storage_build \<Rightarrow> 'd storage_summary" where
  "storage_summary_of ar cx src sb = (let totals = sb_totals sb in
     \<lparr>sm_schema_version = cx_version cx, sm_representation = lit (cx_representation cx), sm_quantization = lit (cx_quantization cx),
      sm_scale_scope = lit ''one-f32-scale-per-unique-source-allocation'', sm_range = cx_range cx,
      sm_execution_qualified = False, sm_unique_allocations = as_unique_device_allocations src, sm_totals = totals,
      sm_serialized_bits = bits_per_value ar (st_serialized_bytes totals) (st_unique_values totals),
      sm_resident_bits = bits_per_value ar (st_resident_bytes totals) (st_unique_values totals),
      sm_byte_ratio = a64_div ar (a64_of_u64 ar (st_source_bytes totals)) (a64_of_u64 ar (st_resident_bytes totals)),
      sm_max_abs_error = sb_max_abs_error sb,
      sm_mse = a64_div ar (sb_squared_error sb) (a64_of_u64 ar (st_unique_values totals)),
      sm_allocations = sb_records sb\<rparr>)"

definition finish_storage :: "'d arith64 \<Rightarrow> 'd codec \<Rightarrow> allocation_summary \<Rightarrow> 'd storage_build \<Rightarrow> nnis_error + 'd model_storage" where
  "finish_storage ar cx src sb =
     (if st_unique_values (sb_totals sb) = 0 then
        Err (codec_error cx ''reference model contains no unique logical values'')
      else
        and_then
          (if as_logical_tensor_references src \<noteq> st_tensor_references (sb_totals sb) \<or>
              as_logical_element_references src \<noteq> st_element_references (sb_totals sb)
           then Ok True
           else
             and_then (ok_or (codec_error cx ''allocation count exceeds u64'') (u64_of_usize (length (sb_allocations sb)))) (\<lambda>n.
               Ok (source_disagrees src sb n))) (\<lambda>disagrees.
          if disagrees then
            Err (codec_error cx ''source accounting does not reconcile with WeightAllocationSummaryV1'')
          else
            let m = \<lparr>ms_allocations = sb_allocations sb, ms_bindings = sb_bindings sb, ms_summary = storage_summary_of ar cx src sb\<rparr>
            in and_then (validate_resident_allocations cx m) (\<lambda>_. Ok m)))"

definition storage_from_weights ::
  "'s cuda \<Rightarrow> 'd arith64 \<Rightarrow> 'd codec \<Rightarrow> model_weights \<Rightarrow> stream \<Rightarrow> ('s, 'd model_storage) rt_comp" where
  "storage_from_weights drv ar cx w st =
     rt_bind (rt_lift (weight_allocation_summary w)) (\<lambda>src.
     rt_bind (storage_visit_all drv ar cx (weights_context w) st (storage_start ar) (logical_tensors w)) (\<lambda>sb.
       or_release drv (allocation_buffers (sb_allocations sb))
         (rt_bind (stream_synchronize drv st) (\<lambda>_. rt_lift (finish_storage ar cx src sb)))))"

definition int4_storage_from_weights ::
  "'s cuda \<Rightarrow> 'd arith64 \<Rightarrow> model_weights \<Rightarrow> stream \<Rightarrow> ('s, 'd model_storage) rt_comp" where
  "int4_storage_from_weights drv ar = storage_from_weights drv ar (int4_codec ar)"

definition int2_storage_from_weights ::
  "'s cuda \<Rightarrow> 'd arith64 \<Rightarrow> model_weights \<Rightarrow> stream \<Rightarrow> ('s, 'd model_storage) rt_comp" where
  "int2_storage_from_weights drv ar = storage_from_weights drv ar (int2_codec ar)"

section \<open>Projection from the storage\<close>

text \<open>What is decided before the kernel is called: the plan, the storage, the binding and its shape.\<close>

definition projection_target ::
  "'d codec \<Rightarrow> (low_bit_plan \<Rightarrow> nnis_error + unit) \<Rightarrow> 'd model_storage \<Rightarrow> low_bit_plan \<Rightarrow> nnis_error + packed_allocation \<times> nat \<times> nat" where
  "projection_target cx validate m plan =
     and_then (validate plan) (\<lambda>_.
     and_then (validate_resident_allocations cx m) (\<lambda>_.
     and_then (ok_or (invalid_input (lit (codec_text cx ''projection logical weight '') @ debug_name (pp_logical_weight plan) @
         lit '' is not present in storage'')) (map_of (ms_bindings m) (pp_logical_weight plan))) (\<lambda>(index, shape).
       case shape of
         Vector_shape _ \<Rightarrow>
           Err (invalid_input (lit (codec_text cx ''logical weight '') @ debug_name (pp_logical_weight plan) @
             lit '' is a vector, not a projection matrix''))
       | Matrix_shape rows cols \<Rightarrow>
           and_then (ok_or (codec_error cx ''projection rows do not fit usize'') (usize_of_u64 (pp_rows plan))) (\<lambda>plan_rows.
           and_then (ok_or (codec_error cx ''projection cols do not fit usize'') (usize_of_u64 (pp_cols plan))) (\<lambda>plan_cols.
             if rows \<noteq> plan_rows \<or> cols \<noteq> plan_cols then
               Err (invalid_input (lit (codec_text cx ''projection plan shape ('') @ dec plan_rows @ lit '', '' @ dec plan_cols @
                 lit '') does not match logical weight '' @ debug_name (pp_logical_weight plan) @ lit '' shape ('' @ dec rows @
                 lit '', '' @ dec cols @ lit '')''))
             else if length (ms_allocations m) \<le> index then
               Err (codec_error cx ''projection binding references a missing allocation'')
             else Ok (ms_allocations m ! index, rows, cols))))))"

definition int4_execute_projection where
  "int4_execute_projection drv ja shared_limit ar m plan g st input out =
     rt_bind (rt_lift (projection_target (int4_codec ar) int4_plan_validate m plan)) (\<lambda>(a, rows, cols).
       int4_project_kn drv ja shared_limit g st input (pa_packed a) (pa_scale a) out rows cols)"

definition int2_execute_projection where
  "int2_execute_projection drv ja shared_limit ar m plan g st input out =
     rt_bind (rt_lift (projection_target (int2_codec ar) int2_plan_validate m plan)) (\<lambda>(a, rows, cols).
       int2_project_kn drv ja shared_limit g st input (pa_packed a) (pa_scale a) out rows cols)"

section \<open>Dense materialization\<close>

text \<open>One allocation: read back, checked against its record, dequantized and uploaded as \<open>f32\<close>; with it the host bytes
  that were live at once.\<close>

definition materialize_one ::
  "'s cuda \<Rightarrow> 'd codec \<Rightarrow> stream \<Rightarrow> packed_allocation \<Rightarrow> 'd allocation_record \<Rightarrow> ('s, device_buffer \<times> nat) rt_comp" where
  "materialize_one drv cx st a r =
     rt_bind (buffer_to_vec drv 1 (pa_packed a) st) (\<lambda>packed.
     rt_bind (rt_lift (ok_or (codec_error cx ''host packed bytes exceed u64'') (u64_of_usize (length packed)))) (\<lambda>packed_bytes.
     rt_bind (buffer_to_vec drv 4 (pa_scale a) st) (\<lambda>scale_bytes.
       let scale_values = f32s_of_bytes scale_bytes in
     rt_bind (rt_lift (ok_or (codec_error cx ''host scale count exceeds u64'') (u64_of_usize (length scale_values)))) (\<lambda>n.
     rt_bind (rt_lift (ok_or (codec_error cx ''host scale bytes overflow u64'') (checked_mul n 4))) (\<lambda>scale_host.
     rt_bind (rt_lift (if length scale_values \<noteq> 1 \<or> scale_values ! 0 \<noteq> ar_scale r then
         Err (codec_error cx ''live scale disagrees with immutable storage summary'') else Ok ())) (\<lambda>_.
     rt_bind (rt_lift (cx_dequantize cx
         \<lparr>qt_element_count = ar_logical_values r, qt_scale = ar_scale r, qt_packed = packed,
          qt_max_abs_error = ar_max_abs_error r, qt_mse = ar_mse r\<rparr>)) (\<lambda>dense_host.
     rt_bind (rt_lift (ok_or (codec_error cx ''dense host value count exceeds u64'') (u64_of_usize (length dense_host)))) (\<lambda>k.
     rt_bind (rt_lift (ok_or (codec_error cx ''dense host bytes overflow u64'') (checked_mul k 4))) (\<lambda>dense_bytes.
     rt_bind (rt_lift (checked_host_payload_bytes [packed_bytes, scale_host, dense_bytes])) (\<lambda>host.
     rt_bind (device_buffer_from_host drv 4 (stream_ctx st) st (map f32_bytes dense_host)) (\<lambda>dense.
       rt_ok (dense, host))))))))))))"

fun materialize_all ::
  "'s cuda \<Rightarrow> 'd codec \<Rightarrow> stream \<Rightarrow> device_buffer list \<times> nat \<Rightarrow> (packed_allocation \<times> 'd allocation_record) list \<Rightarrow>
   ('s, device_buffer list \<times> nat) rt_comp" where
  "materialize_all drv cx st (dense, peak) [] = rt_ok (dense, peak)"
| "materialize_all drv cx st (dense, peak) ((a, r) # rest) =
     rt_bind (or_release drv dense (materialize_one drv cx st a r)) (\<lambda>(b, host).
       materialize_all drv cx st (dense @ [b], max peak host) rest)"

text \<open>The map of logical tensors, in the order of the names; a name occurs once in the bindings.\<close>

definition dense_tensors :: "'d codec \<Rightarrow> device_buffer list \<Rightarrow> bindings \<Rightarrow> nnis_error + tensor_map" where
  "dense_tensors cx dense bindings =
     for_each_res (\<lambda>logical (name, index, shape).
         if length dense \<le> index then Err (codec_error cx ''dense logical binding references a missing allocation'')
         else if map_of logical name \<noteq> None then
           Err (invalid_input (lit (''duplicate '' @ cx_label cx @ '' dense logical binding '') @ name))
         else Ok (logical @ [(name, shape, T_F32 (dense ! index))]))
       [] (sort_key fst bindings)"

definition materialize_dense_f32_weights ::
  "'s cuda \<Rightarrow> 'd codec \<Rightarrow> 'd model_storage \<Rightarrow> model_config \<Rightarrow> stream \<Rightarrow> ('s, (model_weights \<times> device_buffer list) \<times> nat) rt_comp" where
  "materialize_dense_f32_weights drv cx m c st =
     rt_bind (rt_lift (validate_resident_allocations cx m)) (\<lambda>_.
     rt_bind (rt_lift (case ms_allocations m of [] \<Rightarrow> Err (codec_error cx ''reference storage has no resident allocations'')
         | a # _ \<Rightarrow> if stream_ctx st \<noteq> buf_ctx (pa_packed a) then
             Err (codec_error cx ''dense materialization stream must share the compact-storage CUDA context'') else Ok ())) (\<lambda>_.
     rt_bind (materialize_all drv cx st ([], 0) (zip (ms_allocations m) (sm_allocations (ms_summary m)))) (\<lambda>(dense, peak).
       or_release drv dense
         (rt_bind (rt_lift (dense_tensors cx dense (ms_bindings m))) (\<lambda>logical.
          rt_bind (stream_synchronize drv st) (\<lambda>_.
          rt_bind (rt_lift (from_named_logical_tensors c logical)) (\<lambda>w. rt_ok ((w, dense), peak))))))))"

section \<open>The model that runs on the materialized weights\<close>

record ('s, 'd) materialized_model =
  mm_storage :: "'d model_storage"
  mm_model :: "'s decoder_model"
  mm_materialization :: "'d materialization_evidence"

definition u64_of_u128 :: "nat \<Rightarrow> nat option" where
  "u64_of_u128 n = (if n < u64_lim then Some n else None)"

text \<open>The evidence of a materialization: \<open>elapsed\<close> is the measured time in nanoseconds.\<close>

definition materialization_of ::
  "'d arith64 \<Rightarrow> 'd codec \<Rightarrow> allocation_summary \<Rightarrow> 'd model_storage \<Rightarrow> model_weights \<Rightarrow> nat \<Rightarrow> nat \<Rightarrow>
   nnis_error + 'd materialization_evidence" where
  "materialization_of ar cx src m dense peak_host elapsed =
     and_then (ok_or (codec_error cx ''dense materialization duration exceeds u64 nanoseconds'') (u64_of_u128 elapsed)) (\<lambda>duration.
     and_then (weight_allocation_summary dense) (\<lambda>dense_summary.
       let totals = sm_totals (ms_summary m) in
       if as_unique_device_elements src \<noteq> st_unique_values totals \<or>
          as_unique_device_elements src \<noteq> as_unique_device_elements dense_summary \<or>
          as_owned_device_allocation_bytes src \<noteq> st_source_bytes totals
       then Err (codec_error cx
         ''dense materialization denominator does not reconcile across source, compact and dense graphs'')
       else
         and_then (device_ownership_new ar (cx_family cx) (as_unique_device_elements src) (as_owned_device_allocation_bytes src)
             (st_resident_bytes totals) (as_owned_device_allocation_bytes dense_summary) 0 duration) (\<lambda>device.
           materialization_new ar device peak_host)))"

text \<open>\<open>new_model\<close> is \<open>Model::new\<close>.  A failure drops the dense weights, then the compact storage.\<close>

definition materialized_from_weights ::
  "'s cuda \<Rightarrow> 'd arith64 \<Rightarrow> 'd codec \<Rightarrow> (model_config \<Rightarrow> model_weights \<Rightarrow> stream \<Rightarrow> ('s, 's decoder_model) rt_comp) \<Rightarrow> nat \<Rightarrow>
   model_config \<Rightarrow> model_weights \<Rightarrow> stream \<Rightarrow> ('s, ('s, 'd) materialized_model) rt_comp" where
  "materialized_from_weights drv ar cx new_model elapsed c w st =
     (if mc_weight_dtype c \<noteq> W_F32 then
        rt_lift (Err (unsupported_lit (codec_text cx ''dense materialization requires an F32 execution source graph'')))
      else
        rt_bind (rt_lift (weights_validate c w)) (\<lambda>_.
        rt_bind (rt_lift (weight_allocation_summary w)) (\<lambda>src.
        rt_bind (storage_from_weights drv ar cx w st) (\<lambda>m.
          or_release drv (allocation_buffers (ms_allocations m))
            (rt_bind (materialize_dense_f32_weights drv cx m c st) (\<lambda>((dense, buffers), peak_host).
               or_release drv buffers
                 (rt_bind (stream_synchronize drv st) (\<lambda>_.
                  rt_bind (rt_lift (materialization_of ar cx src m dense peak_host elapsed)) (\<lambda>e.
                  rt_bind (new_model c dense st) (\<lambda>model.
                    rt_ok \<lparr>mm_storage = m, mm_model = model, mm_materialization = e\<rparr>))))))))))"

definition int4_materialized_from_weights where
  "int4_materialized_from_weights drv ar = materialized_from_weights drv ar (int4_codec ar)"

definition int2_materialized_from_weights where
  "int2_materialized_from_weights drv ar = materialized_from_weights drv ar (int2_codec ar)"

definition dense_full_model_evidence ::
  "'d arith64 \<Rightarrow> (u8 list \<Rightarrow> u8 list) \<Rightarrow> 'd codec \<Rightarrow> checkpoint_spec \<Rightarrow> physical_observation \<Rightarrow> 'd storage_summary \<Rightarrow>
   'd materialization_evidence \<Rightarrow> nnis_error + 'd full_model_evidence" where
  "dense_full_model_evidence ar sha cx ck ob s m =
     (if sm_schema_version s \<noteq> cx_version cx then
        Err (schema_error (codec_text cx ''storage summary'') (sm_schema_version s) (cx_version cx))
      else
        and_then (materialization_validate ar m) (\<lambda>_.
          let device = me_device m; totals = sm_totals s in
          if do_family device \<noteq> cx_family cx \<or> do_unique_values device \<noteq> st_unique_values totals \<or>
             do_source_bytes device \<noteq> st_source_bytes totals \<or> do_representation_bytes device \<noteq> st_resident_bytes totals
          then Err (codec_error cx ''full-model evidence inputs do not reconcile with compact storage'')
          else
            from_physical_observation ar sha (cx_family cx) (cx_version cx) ck ob (st_serialized_bytes totals)
              (st_tensor_references totals) (st_element_references totals) (sm_unique_allocations s) (sm_max_abs_error s)
              (sm_mse s) m))"

definition int4_dense_full_model_evidence where
  "int4_dense_full_model_evidence ar sha = dense_full_model_evidence ar sha (int4_codec ar)"

definition int2_dense_full_model_evidence where
  "int2_dense_full_model_evidence ar sha = dense_full_model_evidence ar sha (int2_codec ar)"

section \<open>Qualification of the storage\<close>

definition storage_qualification_record ::
  "'d arith64 \<Rightarrow> 'd codec \<Rightarrow> rstr \<Rightarrow> 'd storage_summary \<Rightarrow> nnis_error + 'd qualification_record" where
  "storage_qualification_record ar cx checkpoint s =
     (if sm_schema_version s \<noteq> cx_version cx then
        Err (schema_error (codec_text cx ''storage summary'') (sm_schema_version s) (cx_version cx))
      else if sm_execution_qualified s then
        Err (codec_error cx ''storage-only qualification refuses a summary marked execution-qualified'')
      else
        let totals = sm_totals s in
        and_then (storage_accounting_from_parts ar (st_tensor_references totals) (st_element_references totals)
            (sm_unique_allocations s) (st_unique_values totals) (st_source_bytes totals) (st_serialized_bytes totals)
            (st_resident_bytes totals)) (\<lambda>accounting.
          if a64_bits ar (wa_serialized_bits accounting) \<noteq> a64_bits ar (sm_serialized_bits s) \<or>
             a64_bits ar (wa_resident_bits accounting) \<noteq> a64_bits ar (sm_resident_bits s)
          then Err (codec_error cx ''storage summary bits/value disagree with exact byte accounting'')
          else qualification_new ar (cx_family cx) (cx_version cx) checkpoint StorageOnly False False
            (sm_max_abs_error s) (sm_mse s) accounting))"

definition int4_storage_qualification_record where
  "int4_storage_qualification_record ar = storage_qualification_record ar (int4_codec ar)"

definition int2_storage_qualification_record where
  "int2_storage_qualification_record ar = storage_qualification_record ar (int2_codec ar)"

section \<open>Names that share an allocation share its copy\<close>

lemma or_release_Ok [simp]: "or_release drv bs m s = (t, Ok a) \<longleftrightarrow> m s = (t, Ok a)"
  by (auto simp: or_release_def split: prod.splits sum.splits)

definition storage_inv :: "logical_tensor list \<Rightarrow> 'd storage_build \<Rightarrow> bool" where
  "storage_inv ts sb \<longleftrightarrow>
     length (sb_records sb) = length (sb_allocations sb) \<and>
     map fst (sb_bindings sb) = map fst ts \<and>
     (\<forall>i < length ts. case ts ! i of (name, t, shape) \<Rightarrow>
        \<exists>k. sb_bindings sb ! i = (name, k, shape) \<and> sb_indices sb (allocation_key t) = Some k) \<and>
     dom (sb_indices sb) = (\<lambda>(_, t, _). allocation_key t) ` set ts \<and>
     (\<forall>p q k. sb_indices sb p = Some k \<and> sb_indices sb q = Some k \<longrightarrow> p = q) \<and>
     ran (sb_indices sb) = {..<length (sb_allocations sb)}"

lemma storage_inv_start: "storage_inv [] (storage_start ar)"
  by (simp add: storage_inv_def storage_start_def)

lemma visit_checks_keeps:
  "visit_checks cx sb name t shape = Ok (n, sb') \<Longrightarrow>
     sb_indices sb' = sb_indices sb \<and> sb_allocations sb' = sb_allocations sb \<and> sb_bindings sb' = sb_bindings sb \<and>
     sb_records sb' = sb_records sb \<and> (\<exists>b. t = T_F32 b \<and> buf_ptr b \<noteq> 0) \<and> n = tensor_len t \<and> n \<noteq> 0"
  by (auto simp: visit_checks_def Let_def u64_of_usize_def split: device_tensor.splits if_split_asm)

lemma inv_alias:
  assumes I: "storage_inv ts sb" and idx: "sb_indices sb (allocation_key t) = Some k"
    and v: "visit_alias cx sb name shape n bytes k = Ok sb'"
  shows "storage_inv (ts @ [(name, t, shape)]) sb'"
proof -
  have b: "sb_bindings sb' = sb_bindings sb @ [(name, k, shape)]" and rest: "sb_indices sb' = sb_indices sb"
    "sb_allocations sb' = sb_allocations sb" "length (sb_records sb') = length (sb_records sb)"
    using v by (auto simp: visit_alias_def insert_binding_def Let_def u64_of_usize_def split: if_split_asm)
  have len: "length (sb_bindings sb) = length ts" using I unfolding storage_inv_def by (metis length_map)
  have each: "case (ts @ [(name, t, shape)]) ! i of (name, t, shape) \<Rightarrow>
      \<exists>k. sb_bindings sb' ! i = (name, k, shape) \<and> sb_indices sb' (allocation_key t) = Some k" if "i < Suc (length ts)" for i
    using I that idx len by (cases "i = length ts") (auto simp: storage_inv_def b rest nth_append split: prod.splits)
  have "allocation_key t \<in> dom (sb_indices sb)" using idx by blast
  then show ?thesis using I each by (auto simp: storage_inv_def b rest insert_absorb)
qed

lemma inv_fresh:
  assumes I: "storage_inv ts sb" and idx: "sb_indices sb (allocation_key t) = None"
    and v: "record_allocation ar cx sb name shape (allocation_key t) a r = Ok sb'"
  shows "storage_inv (ts @ [(name, t, shape)]) sb'"
proof -
  let ?k = "length (sb_records sb)"
  have b: "sb_bindings sb' = sb_bindings sb @ [(name, ?k, shape)]" and rest: "sb_indices sb' = (sb_indices sb)(allocation_key t \<mapsto> ?k)"
    "sb_allocations sb' = sb_allocations sb @ [a]" "sb_records sb' = sb_records sb @ [r]"
    using v by (auto simp: record_allocation_def insert_binding_def Let_def split: if_split_asm)
  have len: "length (sb_bindings sb) = length ts" "?k = length (sb_allocations sb)"
    using I unfolding storage_inv_def by (metis length_map)+
  have old: "allocation_key u \<noteq> allocation_key t" if "(x, u, y) \<in> set ts" for x u y
  proof -
    have D: "dom (sb_indices sb) = (\<lambda>(_, t, _). allocation_key t) ` set ts" using I by (simp add: storage_inv_def)
    have "(\<lambda>(_, t, _). allocation_key t) (x, u, y) \<in> dom (sb_indices sb)" unfolding D using that by (rule imageI)
    then show ?thesis using idx by auto
  qed
  have each: "case (ts @ [(name, t, shape)]) ! i of (name, t, shape) \<Rightarrow>
      \<exists>k. sb_bindings sb' ! i = (name, k, shape) \<and> sb_indices sb' (allocation_key t) = Some k" if i: "i < Suc (length ts)" for i
  proof (cases "i = length ts")
    case False
    then have "i < length ts" using i by simp
    obtain x u y where u: "ts ! i = (x, u, y)" by (cases "ts ! i")
    note mem = nth_mem [OF \<open>i < length ts\<close>, unfolded u]
    have "case ts ! i of (name, t, shape) \<Rightarrow>
        \<exists>k. sb_bindings sb ! i = (name, k, shape) \<and> sb_indices sb (allocation_key t) = Some k"
      using I [unfolded storage_inv_def] \<open>i < length ts\<close> by simp
    then have "\<exists>k. sb_bindings sb ! i = (x, k, y) \<and> sb_indices sb (allocation_key u) = Some k" using u by simp
    then show ?thesis using \<open>i < length ts\<close> u len(1) old [OF mem] by (simp add: b rest nth_append)
  qed (simp add: b rest nth_append len(1))
  have dom: "dom (sb_indices sb') = insert (allocation_key t) (dom (sb_indices sb))" by (simp add: rest)
  have fresh: "?k \<notin> ran (sb_indices sb)" using I len(2) by (simp add: storage_inv_def)
  have inj: "x = y" if xy: "sb_indices sb' x = Some k" "sb_indices sb' y = Some k" for x y k
  proof -
    have old: "\<And>z. sb_indices sb z \<noteq> Some ?k" using fresh by (auto simp: ran_def)
    have "\<forall>p q k. sb_indices sb p = Some k \<and> sb_indices sb q = Some k \<longrightarrow> p = q" using I unfolding storage_inv_def by blast
    then show ?thesis using xy old by (auto simp: rest(1) split: if_split_asm)
  qed
  have "ran (sb_indices sb') = insert ?k (ran (sb_indices sb))" using idx by (simp add: rest)
  then have ran: "ran (sb_indices sb') = {..<length (sb_allocations sb')}"
    using I len(2) by (auto simp: storage_inv_def rest)
  show ?thesis
    unfolding storage_inv_def using I each inj ran by (auto simp: storage_inv_def b rest(2,3) dom split: prod.splits)
qed

lemma storage_visit_inv:
  assumes "storage_visit drv ar cx ctx st sb x s = (s', Ok sb')" "storage_inv ts sb"
  shows "storage_inv (ts @ [x]) sb'"
proof -
  obtain name t shape where x: "x = (name, t, shape)" by (cases x)
  from assms(1) obtain n sb1 where c: "visit_checks cx sb name t shape = Ok (n, sb1)"
    by (auto simp: storage_visit_def x rt_bind_Ok)
  have I: "storage_inv ts sb1" using assms(2) visit_checks_keeps [OF c] by (simp add: storage_inv_def)
  show ?thesis
  proof (cases "sb_indices sb1 (allocation_key t)")
    case None
    then obtain a r where "record_allocation ar cx sb1 name shape (allocation_key t) a r = Ok sb'"
      using assms(1) c by (auto simp: storage_visit_def x rt_bind_Ok)
    then show ?thesis using inv_fresh [OF I None] x by simp
  next
    case (Some k)
    then have "visit_alias cx sb1 name shape n (tensor_size_bytes t) k = Ok sb'"
      using assms(1) c by (auto simp: storage_visit_def x rt_bind_Ok)
    then show ?thesis using inv_alias [OF I Some] x by simp
  qed
qed

lemma storage_visit_all_inv:
  assumes "storage_visit_all drv ar cx ctx st sb xs s = (s', Ok sb')" "storage_inv ts sb"
  shows "storage_inv (ts @ xs) sb'"
  using assms
proof (induction xs arbitrary: ts sb s)
  case (Cons x xs)
  then obtain u sb1 where v: "storage_visit drv ar cx ctx st sb x s = (u, Ok sb1)"
    and rest: "storage_visit_all drv ar cx ctx st sb1 xs u = (s', Ok sb')" by (auto simp: rt_bind_Ok)
  show ?case using Cons.IH [OF rest storage_visit_inv [OF v Cons.prems(2)]] by simp
qed simp

section \<open>The totals\<close>

definition good_record :: "'d codec \<Rightarrow> 'd allocation_record \<Rightarrow> bool" where
  "good_record cx r \<longleftrightarrow> 0 < ar_logical_values r \<and> ar_header_bytes r = cx_header_bytes cx \<and>
     ar_serialized_bytes r = ar_header_bytes r + ar_payload_bytes r \<and>
     ar_resident_scale r = 4 \<and> ar_resident_payload r = ar_payload_bytes r \<and>
     ar_resident_total r = ar_resident_payload r + ar_resident_scale r"

definition totals_of :: "storage_totals \<Rightarrow> 'd allocation_record list \<Rightarrow> bool" where
  "totals_of t rs \<longleftrightarrow>
     st_unique_values t = sum_list (map ar_logical_values rs) \<and> st_source_bytes t = sum_list (map ar_source_bytes rs) \<and>
     st_header_bytes t = sum_list (map ar_header_bytes rs) \<and> st_payload_bytes t = sum_list (map ar_payload_bytes rs) \<and>
     st_serialized_bytes t = sum_list (map ar_serialized_bytes rs) \<and>
     st_resident_payload t = sum_list (map ar_resident_payload rs) \<and> st_resident_scale t = sum_list (map ar_resident_scale rs) \<and>
     st_resident_bytes t = sum_list (map ar_resident_total rs)"

definition totals_inv :: "'d codec \<Rightarrow> 'd storage_build \<Rightarrow> bool" where
  "totals_inv cx sb \<longleftrightarrow> list_all (good_record cx) (sb_records sb) \<and> totals_of (sb_totals sb) (sb_records sb)"

lemma totals_inv_start: "totals_inv cx (storage_start ar)"
  by (simp add: totals_inv_def totals_of_def storage_start_def)

lemma or_drop_Ok: "or_drop drv b m s = (t, Ok c) \<longleftrightarrow> m s = (t, Ok ()) \<and> c = b"
  by (auto simp: or_drop_def split: prod.splits sum.splits)

lemma copied_len: "device_buffer_from_host drv elem_size ctx st src s = (t, Ok b) \<Longrightarrow> buf_len b = length src"
proof -
  assume "device_buffer_from_host drv elem_size ctx st src s = (t, Ok b)"
  then obtain u where "device_buffer_new drv elem_size ctx (length src) s = (u, Ok b)"
    by (auto simp: device_buffer_from_host_def rt_bind_Ok or_drop_Ok)
  then show ?thesis
    by (auto simp: device_buffer_new_def rt_bind_def split: prod.splits sum.splits if_splits)
qed

lemma fresh_allocation_good:
  assumes "fresh_allocation drv cx ctx st count name t n s = (s', Ok (a, r))" "0 < n"
  shows "good_record cx r \<and> ar_logical_values r = n \<and> ar_source_bytes r = tensor_size_bytes t \<and> ar_logical_names r = [name] \<and>
    ar_allocation_index r = count \<and> count < u32_lim"
proof -
  obtain q canonical packed scale u v where scale: "device_buffer_from_host drv 4 ctx st [f32_bytes (qt_scale q)] u = (v, Ok scale)"
    and r: "fresh_record cx count name n (tensor_size_bytes t) q canonical packed scale = Ok r"
    using assms(1) by (auto simp: fresh_allocation_def rt_bind_Ok)
  have "size_bytes 4 scale = 4" using copied_len [OF scale] by (simp add: size_bytes_def)
  then show ?thesis using r assms(2)
    by (auto simp: fresh_record_def good_record_def u64_of_usize_def u32_of_usize_def split: if_split_asm)
qed

lemma totals_alias:
  assumes "totals_inv cx sb" "visit_alias cx sb name shape n bytes k = Ok sb'"
  shows "totals_inv cx sb'"
proof -
  let ?r = "sb_records sb ! k"
  have k: "k < length (sb_records sb)" and rec: "sb_records sb' = (sb_records sb)[k := ?r\<lparr>ar_logical_names := ar_logical_names ?r @ [name]\<rparr>]"
    and t: "sb_totals sb' = sb_totals sb"
    using assms(2) by (auto simp: visit_alias_def insert_binding_def Let_def u64_of_usize_def split: if_split_asm)
  have same: "map f (sb_records sb') = map f (sb_records sb)" if "\<And>r v. f (r\<lparr>ar_logical_names := v\<rparr>) = f r" for f :: "'a allocation_record \<Rightarrow> nat"
    using k by (simp add: rec map_update that) (metis list_update_id nth_map)
  have "list_all (good_record cx) (sb_records sb')"
    using assms(1) k unfolding rec by (auto simp: totals_inv_def list_all_length nth_list_update good_record_def)
  then show ?thesis using assms(1) same unfolding totals_inv_def totals_of_def t by simp
qed

lemma totals_record:
  assumes "totals_inv cx sb" "record_allocation ar cx sb name shape key a r = Ok sb'" "good_record cx r"
  shows "totals_inv cx sb'"
  using assms
  by (auto simp: record_allocation_def Let_def add_totals_def count_up_def totals_inv_def totals_of_def split: if_split_asm)

lemma visit_checks_totals:
  "totals_inv cx sb \<Longrightarrow> visit_checks cx sb name t shape = Ok (n, sb') \<Longrightarrow> totals_inv cx sb'"
  by (auto simp: visit_checks_def Let_def u64_of_usize_def totals_inv_def totals_of_def split: device_tensor.splits if_split_asm)

lemma storage_visit_totals:
  assumes "storage_visit drv ar cx ctx st sb x s = (s', Ok sb')" "totals_inv cx sb"
  shows "totals_inv cx sb'"
proof -
  obtain name t shape where x: "x = (name, t, shape)" by (cases x)
  from assms(1) obtain n sb1 where c: "visit_checks cx sb name t shape = Ok (n, sb1)"
    by (auto simp: storage_visit_def x rt_bind_Ok)
  have I: "totals_inv cx sb1" using visit_checks_totals [OF assms(2) c] .
  have n: "0 < n" using visit_checks_keeps [OF c] by simp
  show ?thesis
  proof (cases "sb_indices sb1 (allocation_key t)")
    case None
    then obtain a r u v where f: "fresh_allocation drv cx ctx st (length (sb_allocations sb1)) name t n u = (v, Ok (a, r))"
      and "record_allocation ar cx sb1 name shape (allocation_key t) a r = Ok sb'"
      using assms(1) c by (auto simp: storage_visit_def x rt_bind_Ok)
    then show ?thesis using totals_record [OF I] fresh_allocation_good [OF f n] by blast
  next
    case (Some k)
    then have "visit_alias cx sb1 name shape n (tensor_size_bytes t) k = Ok sb'"
      using assms(1) c by (auto simp: storage_visit_def x rt_bind_Ok)
    then show ?thesis using totals_alias [OF I] by simp
  qed
qed

lemma storage_visit_all_totals:
  assumes "storage_visit_all drv ar cx ctx st sb xs s = (s', Ok sb')" "totals_inv cx sb"
  shows "totals_inv cx sb'"
  using assms by (induction xs arbitrary: sb s) (auto simp: rt_bind_Ok intro: storage_visit_totals)

text \<open>The live buffers are what the totals say.\<close>

definition resident_size :: "packed_allocation \<Rightarrow> nat" where
  "resident_size a = size_bytes 1 (pa_packed a) + size_bytes 4 (pa_scale a)"

lemma check_resident_Ok:
  "for_each_res (check_resident cx) (p, q) (zip as rs) = Ok (p', q') \<Longrightarrow> length as = length rs \<Longrightarrow>
     p' + q' = p + q + sum_list (map resident_size as)"
proof (induction as rs arbitrary: p q rule: list_induct2')
  case (4 a as r rs)
  then obtain p1 q1 where c: "check_resident cx (p, q) (a, r) = Ok (p1, q1)"
    and rest: "for_each_res (check_resident cx) (p1, q1) (zip as rs) = Ok (p', q')" by auto
  have "p1 + q1 = p + q + resident_size a"
    using c by (auto simp: check_resident_def resident_size_def count_up_def u64_of_usize_def split: if_split_asm)
  then show ?case using "4.IH" [OF rest] "4.prems"(2) by simp
qed auto

lemma resident_total:
  assumes "validate_resident_allocations cx m = Ok ()"
  shows "st_resident_bytes (sm_totals (ms_summary m)) = sum_list (map resident_size (ms_allocations m))"
proof -
  from assms obtain p q where "for_each_res (check_resident cx) (0, 0) (zip (ms_allocations m) (sm_allocations (ms_summary m))) = Ok (p, q)"
    "length (ms_allocations m) = length (sm_allocations (ms_summary m))" "st_resident_bytes (sm_totals (ms_summary m)) = p + q"
    by (auto simp: validate_resident_allocations_def Let_def split: if_split_asm)
  then show ?thesis using check_resident_Ok [of cx 0 0] by simp
qed

lemma storage_from_weights_Ok:
  assumes "storage_from_weights drv ar cx w st s = (s', Ok m)"
  shows "\<exists>sb src. storage_inv (logical_tensors w) sb \<and> totals_inv cx sb \<and> weight_allocation_summary w = Ok src \<and>
    ms_allocations m = sb_allocations sb \<and> ms_bindings m = sb_bindings sb \<and> ms_summary m = storage_summary_of ar cx src sb \<and>
    validate_resident_allocations cx m = Ok () \<and> st_unique_values (sb_totals sb) \<noteq> 0 \<and>
    \<not> source_disagrees src sb (length (sb_allocations sb))"
proof -
  from assms obtain src u sb v where src: "weight_allocation_summary w = Ok src"
    and visit: "storage_visit_all drv ar cx (weights_context w) st (storage_start ar) (logical_tensors w) u = (v, Ok sb)"
    and fin: "finish_storage ar cx src sb = Ok m"
    by (auto simp: storage_from_weights_def rt_bind_Ok)
  have I: "storage_inv (logical_tensors w) sb" "totals_inv cx sb"
    using storage_visit_all_inv [OF visit storage_inv_start] storage_visit_all_totals [OF visit totals_inv_start] by simp_all
  have F: "ms_allocations m = sb_allocations sb \<and> ms_bindings m = sb_bindings sb \<and> ms_summary m = storage_summary_of ar cx src sb \<and>
    validate_resident_allocations cx m = Ok () \<and> st_unique_values (sb_totals sb) \<noteq> 0 \<and>
    \<not> source_disagrees src sb (length (sb_allocations sb))"
    using fin by (auto simp: finish_storage_def Let_def u64_of_usize_def split: if_split_asm)
  show ?thesis by (intro exI [of _ sb] exI [of _ src] conjI I src F [THEN conjunct1] F [THEN conjunct2])
qed

definition binding_index :: "'d model_storage \<Rightarrow> nat \<Rightarrow> nat" where
  "binding_index m i = fst (snd (ms_bindings m ! i))"

lemma stored_bindings:
  assumes "storage_from_weights drv ar cx w st s = (s', Ok m)"
  shows "map (\<lambda>(name, _, shape). (name, shape)) (ms_bindings m) = map (\<lambda>(name, _, shape). (name, shape)) (logical_tensors w)"
    and "length (ms_allocations m) = card ((\<lambda>(_, t, _). allocation_key t) ` set (logical_tensors w))"
    and "i < length (logical_tensors w) \<Longrightarrow> binding_index m i < length (ms_allocations m)"
    and "i < length (logical_tensors w) \<Longrightarrow> j < length (logical_tensors w) \<Longrightarrow>
      binding_index m i = binding_index m j \<longleftrightarrow>
      allocation_key (fst (snd (logical_tensors w ! i))) = allocation_key (fst (snd (logical_tensors w ! j)))"
proof -
  obtain sb src where I: "storage_inv (logical_tensors w) sb"
    and m: "ms_allocations m = sb_allocations sb" "ms_bindings m = sb_bindings sb" "ms_summary m = storage_summary_of ar cx src sb"
    using storage_from_weights_Ok [OF assms] by blast
  let ?ts = "logical_tensors w"
  have len: "length (sb_bindings sb) = length ?ts" using I unfolding storage_inv_def by (metis length_map)
  have each: "sb_bindings sb ! i = (fst (?ts ! i), binding_index m i, snd (snd (?ts ! i))) \<and>
      sb_indices sb (allocation_key (fst (snd (?ts ! i)))) = Some (binding_index m i)" if "i < length ?ts" for i
  proof -
    obtain x u y where u: "?ts ! i = (x, u, y)" by (cases "?ts ! i")
    have "case ?ts ! i of (name, t, shape) \<Rightarrow>
        \<exists>k. sb_bindings sb ! i = (name, k, shape) \<and> sb_indices sb (allocation_key t) = Some k"
      using I [unfolded storage_inv_def] that by simp
    then show ?thesis by (auto simp: u binding_index_def m(2))
  qed
  have uniq: "\<And>p q k. sb_indices sb p = Some k \<Longrightarrow> sb_indices sb q = Some k \<Longrightarrow> p = q"
    and ran: "ran (sb_indices sb) = {..<length (sb_allocations sb)}"
    and dom: "dom (sb_indices sb) = (\<lambda>(_, t, _). allocation_key t) ` set ?ts"
    using I unfolding storage_inv_def by blast+
  show "map (\<lambda>(name, _, shape). (name, shape)) (ms_bindings m) = map (\<lambda>(name, _, shape). (name, shape)) ?ts"
    using each len by (intro nth_equalityI) (auto simp: m split_beta)
  show "i < length ?ts \<Longrightarrow> binding_index m i < length (ms_allocations m)"
    using each [of i] ran by (auto simp: m ran_def set_eq_iff)
  show "i < length ?ts \<Longrightarrow> j < length ?ts \<Longrightarrow>
      binding_index m i = binding_index m j \<longleftrightarrow> allocation_key (fst (snd (?ts ! i))) = allocation_key (fst (snd (?ts ! j)))"
    using each [of i] each [of j] uniq by (metis option.inject)
  have "inj_on (the \<circ> sb_indices sb) (dom (sb_indices sb))"
    using uniq by (auto simp: inj_on_def)
  moreover have "(the \<circ> sb_indices sb) ` dom (sb_indices sb) = {..<length (sb_allocations sb)}"
    unfolding ran [symmetric] by (force simp: ran_def image_iff)
  ultimately show "length (ms_allocations m) = card ((\<lambda>(_, t, _). allocation_key t) ` set ?ts)"
    using card_image [of "the \<circ> sb_indices sb" "dom (sb_indices sb)"] by (simp add: m dom)
qed

section \<open>Slices of \<open>f32\<close> in memory\<close>

lemma f32_of_le_bytes: "f32_of_le (f32_bytes x) = x"
proof -
  have "foldr (\<lambda>b n. unat b + 256 * n) (le_bytes k n) 0 = n mod 256 ^ k" for k n
  proof (induction k arbitrary: n)
    case (Suc k)
    have "n mod 256 + 256 * (n div 256 mod 256 ^ k) = n mod 256 ^ Suc k" by (simp add: mod_mult2_eq)
    then show ?case using Suc by (simp add: unat_of_nat)
  qed simp
  moreover have "unat x < 256 ^ 4" using unsigned_less [of x] by simp
  ultimately show ?thesis by (simp add: f32_of_le_def f32_bytes_def)
qed

lemma length_f32_bytes [simp]: "length (f32_bytes x) = 4"
  by (simp add: f32_bytes_def)

lemma f32s_of_f32_bytes: "f32s_of_bytes (concat (map f32_bytes xs)) = xs"
proof (induction xs)
  case (Cons x xs)
  have "chunks_exact 4 (f32_bytes x @ concat (map f32_bytes xs)) = f32_bytes x # chunks_exact 4 (concat (map f32_bytes xs))"
    by simp
  then show ?case using Cons by (simp add: f32s_of_bytes_def f32_of_le_bytes)
qed (simp add: f32s_of_bytes_def)

section \<open>A built storage qualifies\<close>

lemma good_sums:
  assumes "list_all (good_record cx) rs" "totals_of t rs" "st_unique_values t \<noteq> 0" "0 < cx_header_bytes cx"
  shows "0 < st_serialized_bytes t" "0 < st_resident_bytes t"
proof -
  obtain r rest where rs: "rs = r # rest" using assms(2,3) by (cases rs) (auto simp: totals_of_def)
  show "0 < st_serialized_bytes t" "0 < st_resident_bytes t"
    using assms by (simp_all add: rs totals_of_def good_record_def)
qed

lemma built_summary:
  assumes "storage_from_weights drv ar cx w st s = (s', Ok m)"
  obtains src where "weight_allocation_summary w = Ok src" "sm_schema_version (ms_summary m) = cx_version cx"
    "\<not> sm_execution_qualified (ms_summary m)" "sm_unique_allocations (ms_summary m) = as_unique_device_allocations src"
    "st_tensor_references (sm_totals (ms_summary m)) = as_logical_tensor_references src"
    "st_element_references (sm_totals (ms_summary m)) = as_logical_element_references src"
    "st_unique_values (sm_totals (ms_summary m)) = as_unique_device_elements src"
    "st_source_bytes (sm_totals (ms_summary m)) = as_owned_device_allocation_bytes src"
    "as_unique_device_elements src \<noteq> 0"
    "sm_serialized_bits (ms_summary m) = bits_per_value ar (st_serialized_bytes (sm_totals (ms_summary m))) (as_unique_device_elements src)"
    "sm_resident_bits (ms_summary m) = bits_per_value ar (st_resident_bytes (sm_totals (ms_summary m))) (as_unique_device_elements src)"
    "0 < cx_header_bytes cx \<longrightarrow> 0 < st_serialized_bytes (sm_totals (ms_summary m)) \<and> 0 < st_resident_bytes (sm_totals (ms_summary m))"
    "length (ms_allocations m) = as_unique_device_allocations src"
    "validate_resident_allocations cx m = Ok ()"
proof -
  obtain sb src where T: "totals_inv cx sb" and src: "weight_allocation_summary w = Ok src" and m: "ms_allocations m = sb_allocations sb"
    "ms_summary m = storage_summary_of ar cx src sb" "validate_resident_allocations cx m = Ok ()"
    and nz: "st_unique_values (sb_totals sb) \<noteq> 0" and agree: "\<not> source_disagrees src sb (length (sb_allocations sb))"
    using storage_from_weights_Ok [OF assms] by blast
  have S: "sm_totals (ms_summary m) = sb_totals sb" by (simp add: m storage_summary_of_def Let_def)
  have A: "st_tensor_references (sb_totals sb) = as_logical_tensor_references src"
    "st_element_references (sb_totals sb) = as_logical_element_references src"
    "st_unique_values (sb_totals sb) = as_unique_device_elements src" "st_source_bytes (sb_totals sb) = as_owned_device_allocation_bytes src"
    "length (sb_allocations sb) = as_unique_device_allocations src"
    using agree by (simp_all add: source_disagrees_def)
  have pos: "0 < st_serialized_bytes (sb_totals sb) \<and> 0 < st_resident_bytes (sb_totals sb)" if "0 < cx_header_bytes cx"
    using good_sums [of cx "sb_records sb" "sb_totals sb"] T nz that by (simp add: totals_inv_def)
  show thesis
  proof (rule that [OF src])
  qed (use A nz pos m(3) in \<open>simp_all add: S, simp_all add: m storage_summary_of_def Let_def\<close>)
qed

section \<open>Properties\<close>

text \<open>C31. The compact storage shares exactly what the source shares.  When the storage is built from a model's weights, its
  bindings are the model's logical tensors with their shapes, in order; two names are bound to the same compact copy exactly
  when their source tensors are the same device allocation; there is one copy per distinct allocation; the validation of
  the live buffers passes and the resident bytes it accounts are those of the copies.\<close>

theorem compact_storage_shares:
  assumes "storage_from_weights drv ar cx w st s = (s', Ok m)"
  shows "map (\<lambda>(name, _, shape). (name, shape)) (ms_bindings m) = map (\<lambda>(name, _, shape). (name, shape)) (logical_tensors w) \<and>
    length (ms_allocations m) = card ((\<lambda>(_, t, _). allocation_key t) ` set (logical_tensors w)) \<and>
    (\<forall>i < length (logical_tensors w). binding_index m i < length (ms_allocations m) \<and>
      (\<forall>j < length (logical_tensors w). binding_index m i = binding_index m j \<longleftrightarrow>
        allocation_key (fst (snd (logical_tensors w ! i))) = allocation_key (fst (snd (logical_tensors w ! j))))) \<and>
    validate_resident_allocations cx m = Ok () \<and>
    st_resident_bytes (sm_totals (ms_summary m)) = sum_list (map resident_size (ms_allocations m))"
proof -
  have v: "validate_resident_allocations cx m = Ok ()" using storage_from_weights_Ok [OF assms] by blast
  show ?thesis
    by (intro conjI allI impI v resident_total [OF v] stored_bindings(1) [OF assms] stored_bindings(2) [OF assms]
        stored_bindings(3) [OF assms] stored_bindings(4) [OF assms])
qed

text \<open>C32. A built storage qualifies.  The summary of any INT4 or INT2 storage built from a model's weights is turned into a
  storage-only qualification record whenever its two ratios and its error metrics are representable and the checkpoint name
  is not empty and is trimmed.  The record claims no physical execution; its denominator counts the model's tensors, their
  elements, the distinct device allocations and, for the first tensor of each allocation, its values and bytes; and its
  resident bytes are those of the compact copies.\<close>

theorem built_storage_qualifies:
  assumes "cx = int4_codec ar \<or> cx = int2_codec ar" "storage_from_weights drv ar cx w st s = (s', Ok m)"
    and "finite_ratio ar (sm_serialized_bits (ms_summary m))" "finite_ratio ar (sm_resident_bits (ms_summary m))"
    and "\<not> bad_evidence (a64 ar) (sm_max_abs_error (ms_summary m)) (sm_mse (ms_summary m))"
    and "checkpoint \<noteq> []" "trim checkpoint = checkpoint"
  shows "\<exists>q. storage_qualification_record ar cx checkpoint (ms_summary m) = Ok q \<and> qr_execution_level q = StorageOnly \<and>
    \<not> qr_physical_execution q \<and> \<not> qr_tokens_verified q \<and> qr_exact_checkpoint q = checkpoint \<and>
    wa_denominator (qr_accounting q) =
      \<lparr>wd_schema_version = NNIS_WEIGHT_REPRESENTATION_ACCOUNTING_VERSION, wd_tensor_references = length (logical_tensors w),
       wd_element_references = sum_list (map (\<lambda>(_, t, _). tensor_len t) (logical_tensors w)),
       wd_unique_allocations = card (tensor_key ` set (logical_tensors w)),
       wd_unique_values = sum_list (map (\<lambda>(_, t, _). tensor_len t) (first_tensors (logical_tensors w))),
       wd_source_bytes = sum_list (map (\<lambda>(_, t, _). tensor_size_bytes t) (first_tensors (logical_tensors w)))\<rparr> \<and>
    wa_resident_bytes (qr_accounting q) = sum_list (map resident_size (ms_allocations m))"
proof -
  obtain src where src: "weight_allocation_summary w = Ok src" and S: "sm_schema_version (ms_summary m) = cx_version cx"
    "\<not> sm_execution_qualified (ms_summary m)" "sm_unique_allocations (ms_summary m) = as_unique_device_allocations src"
    "st_tensor_references (sm_totals (ms_summary m)) = as_logical_tensor_references src"
    "st_element_references (sm_totals (ms_summary m)) = as_logical_element_references src"
    "st_unique_values (sm_totals (ms_summary m)) = as_unique_device_elements src"
    "st_source_bytes (sm_totals (ms_summary m)) = as_owned_device_allocation_bytes src"
    and nz: "as_unique_device_elements src \<noteq> 0"
    and bits: "sm_serialized_bits (ms_summary m) = bits_per_value ar (st_serialized_bytes (sm_totals (ms_summary m))) (as_unique_device_elements src)"
    "sm_resident_bits (ms_summary m) = bits_per_value ar (st_resident_bytes (sm_totals (ms_summary m))) (as_unique_device_elements src)"
    and sizes: "0 < cx_header_bytes cx \<longrightarrow> 0 < st_serialized_bytes (sm_totals (ms_summary m)) \<and> 0 < st_resident_bytes (sm_totals (ms_summary m))"
    and v: "validate_resident_allocations cx m = Ok ()"
    by (rule built_summary [OF assms(2)])
  have codec: "0 < cx_header_bytes cx" "cx_version cx \<noteq> 0"
    using assms(1) by (auto simp: int4_codec_def int2_codec_def NNIS_INT4_REFERENCE_SERIALIZED_HEADER_BYTES_def
        NNIS_INT2_REFERENCE_SERIALIZED_HEADER_BYTES_def NNIS_INT4_REFERENCE_STORAGE_VERSION_def NNIS_INT2_REFERENCE_STORAGE_VERSION_def)
  note pos = sizes [rule_format, OF codec(1)] and counts = summary_counts [OF src nz]
  let ?d = "\<lparr>wd_schema_version = NNIS_WEIGHT_REPRESENTATION_ACCOUNTING_VERSION, wd_tensor_references = as_logical_tensor_references src,
     wd_element_references = as_logical_element_references src, wd_unique_allocations = as_unique_device_allocations src,
     wd_unique_values = as_unique_device_elements src, wd_source_bytes = as_owned_device_allocation_bytes src\<rparr>"
  have d: "validate_denominator ?d = Ok ()" using counts nz by (simp add: validate_denominator_def)
  obtain a where a: "weight_accounting_new ar ?d (st_serialized_bytes (sm_totals (ms_summary m))) (st_resident_bytes (sm_totals (ms_summary m))) = Ok a"
    and fields: "wa_denominator a = ?d" "wa_resident_bytes a = st_resident_bytes (sm_totals (ms_summary m))"
      "wa_serialized_bits a = sm_serialized_bits (ms_summary m)" "wa_resident_bits a = sm_resident_bits (ms_summary m)"
    using d pos assms(3,4) by (simp add: weight_accounting_new_Ok bits)
  have rec: "storage_qualification_record ar cx checkpoint (ms_summary m) =
      qualification_new ar (cx_family cx) (cx_version cx) checkpoint StorageOnly False False
        (sm_max_abs_error (ms_summary m)) (sm_mse (ms_summary m)) a"
    unfolding storage_qualification_record_def storage_accounting_from_parts_def Let_def S using a by (simp add: S(2) fields)
  let ?q = "\<lparr>qr_schema_version = NNIS_WEIGHT_REPRESENTATION_QUALIFICATION_VERSION, qr_family = cx_family cx,
     qr_representation_version = cx_version cx, qr_exact_checkpoint = checkpoint, qr_execution_level = StorageOnly,
     qr_physical_execution = False, qr_tokens_verified = False, qr_max_abs_error = sm_max_abs_error (ms_summary m),
     qr_mse = sm_mse (ms_summary m), qr_accounting = a\<rparr>"
  have "qualification_validate ar ?q = Ok ()"
    unfolding qualification_validate_def qualification_record.select_convs weight_accounting_new_valid [OF a] and_then_simps
      level_claims.simps
    using assms(5-7) codec(2) by simp
  then have q: "qualification_new ar (cx_family cx) (cx_version cx) checkpoint StorageOnly False False
      (sm_max_abs_error (ms_summary m)) (sm_mse (ms_summary m)) a = Ok ?q"
    unfolding qualification_new_def Let_def by simp
  show ?thesis using rec q qualification_new_Ok [OF q] by (simp add: fields summary_counted(1) [OF src] resident_total [OF v])
qed

end
