(* ===== verification/WeightMemory.thy ===== *)
theory WeightMemory
  imports WeightStorage
begin

text \<open>
  What the compact storage and the dense weights hold.  The memory of the device is a parameter, \<open>content\<close>, with the
  live allocations \<open>live\<close>; \<open>store_driver\<close> names the documented behaviour of the driver.  The interface
  \<open>lowbit_codec\<close> is what the storage relies on of a codec; both codecs provide it.
\<close>

section \<open>The driver\<close>

definition driver_hosts :: "'s cuda \<Rightarrow> nat \<Rightarrow> ('s \<Rightarrow> (nat \<times> nat) set) \<Rightarrow> bool" where
  "driver_hosts drv st live \<longleftrightarrow>
     (\<forall>p bs g. live (fst (cu_memcpy_htod_async drv p bs st g)) = live g) \<and>
     (\<forall>p n g. live (fst (cu_memcpy_dtoh_async drv p n st g)) = live g)"

definition store_driver :: "'s cuda \<Rightarrow> nat \<Rightarrow> ('s \<Rightarrow> (nat \<times> nat) set) \<Rightarrow> ('s \<Rightarrow> nat \<Rightarrow> u8) \<Rightarrow> bool" where
  "store_driver drv st live content \<longleftrightarrow>
     driver_transfers drv st content \<and> driver_ordered drv st content \<and> driver_allocates drv live content \<and> driver_hosts drv st live"

lemma store_driverD:
  assumes "store_driver drv st live content"
  shows "driver_transfers drv st content" "driver_ordered drv st content" "driver_allocates drv live content" "driver_hosts drv st live"
  using assms by (simp_all add: store_driver_def)

lemma rt_keeps_with_bytes: "rt_keeps f m \<Longrightarrow> rt_keeps f (with_bytes n m)"
  by (simp add: rt_keeps_def with_bytes_def split_beta)

lemma rt_keeps_read: "(\<And>g. f (fst (c g)) = f g) \<Longrightarrow> rt_keeps f (drv_read op c)"
  by (simp add: rt_keeps_def drv_read_def split_beta)

lemma rt_keeps_synchronize: "rt_keeps f m \<Longrightarrow> rt_keeps f (stream_synchronize drv st) \<Longrightarrow> rt_keeps f (then_synchronize drv needed st m)"
  unfolding then_synchronize_def by (auto intro!: rt_keeps_bind simp del: rt_simps)

lemma to_vec_keeps_by:
  assumes "\<And>c. rt_keeps f (set_current drv c)" "rt_keeps f (stream_synchronize drv st)"
    and "\<And>p n g. f (fst (cu_memcpy_dtoh_async drv p n (stream_raw st) g)) = f g"
  shows "rt_keeps f (buffer_to_vec drv n b st)"
  unfolding buffer_to_vec_def copy_to_host_def copy_to_host_async_def
  by (intro rt_keeps_synchronize assms(2))
    (auto intro!: rt_keeps_bind rt_keeps_with_bytes rt_keeps_read assms simp del: rt_simps)

lemma to_vec_keeps:
  assumes "store_driver drv (stream_raw st) live content"
  shows "rt_keeps content (buffer_to_vec drv n b st)" "rt_keeps live (buffer_to_vec drv n b st)"
proof -
  note D = store_driverD [OF assms]
  have dtoh: "content (fst (cu_memcpy_dtoh_async drv p n (stream_raw st) g)) = content g" for p n g
  proof -
    have "case cu_memcpy_dtoh_async drv p n (stream_raw st) g of
        (g', rc, bs) \<Rightarrow> content g' = content g \<and> (rc = 0 \<longrightarrow> bs = read_bytes p n (content g))"
      using D(1) by (simp add: driver_transfers_def)
    then show ?thesis by (simp add: split_beta)
  qed
  show "rt_keeps content (buffer_to_vec drv n b st)"
    by (rule to_vec_keeps_by [OF transfer_keeps [OF D(1)] dtoh])
  show "rt_keeps live (buffer_to_vec drv n b st)"
    using D(4) by (intro to_vec_keeps_by live_keeps [OF D(3)]) (simp add: driver_hosts_def)
qed

lemma from_host_keeps_live:
  assumes "store_driver drv (stream_raw st) live content"
  shows "rt_keeps live (copy_from_host drv n b st src)"
proof -
  note D = store_driverD [OF assms]
  show ?thesis
    unfolding copy_from_host_def copy_from_host_async_def
    by (intro rt_keeps_synchronize live_keeps [OF D(3)])
      (use D(4) in \<open>auto intro!: rt_keeps_bind rt_keeps_with_bytes rt_keeps_call live_keeps [OF D(3)] simp: driver_hosts_def simp del: rt_simps\<close>)
qed

section \<open>What a buffer holds\<close>

definition stored ::
  "('s \<Rightarrow> (nat \<times> nat) set) \<Rightarrow> ('s \<Rightarrow> nat \<Rightarrow> u8) \<Rightarrow> nat \<Rightarrow> device_buffer \<Rightarrow> u8 list \<Rightarrow> 's rt \<Rightarrow> bool" where
  "stored live content n b bs s \<longleftrightarrow>
     region n b \<in> live (gpu s) \<and> read_bytes (buf_ptr b) (size_bytes n b) (content (gpu s)) = bs"

lemma stored_preserved:
  assumes "preserves live content K s t" "region n b \<in> K" "stored live content n b bs s"
  shows "stored live content n b bs t"
proof -
  have "content (gpu t) (buf_ptr b + k) = content (gpu s) (buf_ptr b + k)" if "k < size_bytes n b" for k
    using assms(1,2) that by (auto simp: preserves_def region_def inside_def size_bytes_def)
  then have "read_bytes (buf_ptr b) (size_bytes n b) (content (gpu t)) = read_bytes (buf_ptr b) (size_bytes n b) (content (gpu s))"
    by (rule read_bytes_cong)
  then show ?thesis using assms by (auto simp: stored_def preserves_def)
qed

lemma preserves_refl: "live_ok (live (gpu s)) \<Longrightarrow> preserves live content (live (gpu s)) s s"
  by (simp add: preserves_def)

lemma preserves_step:
  assumes "preserves live content K s t" "preserves live content (live (gpu t)) t u"
  shows "preserves live content K s u"
  using assms(1) by (intro preserves_trans [OF assms]) (simp add: preserves_def)

lemma preserves_live: "preserves live content K s t \<Longrightarrow> live_ok (live (gpu t))"
  by (simp add: preserves_def)

lemma stored_live: "stored live content n b bs s \<Longrightarrow> preserves live content (live (gpu s)) s t \<Longrightarrow> stored live content n b bs t"
  by (rule stored_preserved) (auto simp: stored_def)

lemma keeps_preserves:
  assumes "rt_keeps content m" "rt_keeps live m" "m s = (t, r)" "live_ok (live (gpu s))"
  shows "preserves live content (live (gpu s)) s t"
  using rt_keepsD [OF assms(1,3)] rt_keepsD [OF assms(2,3)] assms(4) by (simp add: preserves_def)

lemma from_host_effect:
  assumes S: "store_driver drv (stream_raw st) live content" and ok: "live_ok (live (gpu s))"
    and run: "device_buffer_from_host drv n ctx st src s = (t, Ok b)"
    and src: "0 < n" "src \<noteq> []" "\<forall>e \<in> set src. length e = n"
  shows "preserves live content (live (gpu s)) s t \<and> stored live content n b (concat src) t \<and> buf_len b = length src \<and> buf_ctx b = ctx"
proof -
  note D = store_driverD [OF S]
  obtain u where new: "device_buffer_new drv n ctx (length src) s = (u, Ok b)" and fill: "copy_from_host drv n b st src u = (t, Ok ())"
    using run by (auto simp: device_buffer_from_host_def rt_bind_Ok or_drop_Ok)
  have pos: "0 < length src * n" using src by simp
  have size: "length (concat src) = length src * n" using src(3) by (induction src) auto
  have a: "preserves live content (live (gpu s)) s u" "buf_len b = length src \<and> buf_ctx b = ctx" "region n b \<notin> live (gpu s)" "region n b \<in> live (gpu u)"
    using alloc_effect [OF D(3,2) ok pos new] by simp_all
  have ptr: "buf_ptr b \<noteq> 0" using device_buffer_new_Ok(2) [OF D(1) new] pos by simp
  have live: "live (gpu t) = live (gpu u)" by (rule rt_keepsD [OF from_host_keeps_live [OF S] fill])
  have content: "content (gpu t) = write_bytes (buf_ptr b) (concat src) (content (gpu u))"
    using from_host_writes [OF D(1) ptr] fill by (auto simp: rt_writes_def)
  have "content (gpu t) x = content (gpu u) x" if "r \<in> live (gpu s)" "inside r x" for r x
  proof -
    have "r \<in> live (gpu u)" "r \<noteq> region n b" using a that by (auto simp: preserves_def)
    then have "\<not> inside (region n b) x"
      using live_ok_apart [of "live (gpu u)" r "region n b" x] a that by (simp add: preserves_def)
    then show ?thesis using a(2) size by (auto simp: content write_bytes_def region_def inside_def)
  qed
  then have "preserves live content (live (gpu s)) s t" using a(1) live by (simp add: preserves_def)
  moreover have "stored live content n b (concat src) t"
    using a size by (simp add: stored_def live content size_bytes_def read_write_bytes)
  ultimately show ?thesis using a(2) by simp
qed

lemma to_vec_stored:
  assumes S: "store_driver drv (stream_raw st) live content" and "live_ok (live (gpu s))"
    and run: "buffer_to_vec drv n b st s = (t, Ok bs)" and "stored live content n b xs s"
  shows "bs = xs \<and> preserves live content (live (gpu s)) s t"
proof -
  note D = store_driverD [OF S]
  have "buf_ptr b \<noteq> 0" using assms(2,4) by (auto simp: live_ok_def stored_def region_def)
  then have "bs = xs" using to_vec_reads [OF D(1) run] assms(4) by (simp add: stored_def)
  then show ?thesis using keeps_preserves [OF to_vec_keeps [OF S] run assms(2)] by simp
qed

section \<open>Copies\<close>

lemma length_chunks: "0 < n \<Longrightarrow> length (chunks_exact n xs) = length xs div n"
proof (induction n xs rule: chunks_exact.induct)
  case (1 n xs)
  show ?case
  proof (cases "length xs < n")
    case True
    then show ?thesis by simp
  next
    case False
    then have "length (chunks_exact n (drop n xs)) = length (drop n xs) div n" using 1 by simp
    then show ?thesis using False 1(2) chunks_exact.simps [of n xs] by (simp add: le_div_geq)
  qed
qed

definition values_at :: "('s \<Rightarrow> nat \<Rightarrow> u8) \<Rightarrow> 's rt \<Rightarrow> nat \<Rightarrow> nat \<Rightarrow> f32 list" where
  "values_at content s p n = f32s_of_bytes (read_bytes p (n * 4) (content (gpu s)))"

lemma length_values_at: "length (values_at content s p n) = n"
  by (simp add: values_at_def f32s_of_bytes_def length_chunks read_bytes_def)

text \<open>A compact copy of the tensor \<open>q\<close>, with the record kept of it.\<close>

definition copy_of ::
  "('s \<Rightarrow> (nat \<times> nat) set) \<Rightarrow> ('s \<Rightarrow> nat \<Rightarrow> u8) \<Rightarrow> 'd quantized_tensor \<Rightarrow> packed_allocation \<Rightarrow> 'd allocation_record \<Rightarrow> 's rt \<Rightarrow> bool" where
  "copy_of live content q a r s \<longleftrightarrow>
     stored live content 1 (pa_packed a) (qt_packed q) s \<and> stored live content 4 (pa_scale a) (f32_bytes (qt_scale q)) s \<and>
     q = \<lparr>qt_element_count = ar_logical_values r, qt_scale = ar_scale r, qt_packed = qt_packed q,
          qt_max_abs_error = ar_max_abs_error r, qt_mse = ar_mse r\<rparr>"

lemma copy_of_live: "copy_of live content q a r s \<Longrightarrow> preserves live content (live (gpu s)) s t \<Longrightarrow> copy_of live content q a r t"
  unfolding copy_of_def by (blast intro: stored_live)

locale lowbit_codec =
  fixes cx :: "'d codec"
  assumes quantized: "cx_quantize cx xs = Ok q \<Longrightarrow> qt_element_count q = length xs \<and> xs \<noteq> [] \<and> qt_packed q \<noteq> []"
    and dequantized: "cx_quantize cx xs = Ok q \<Longrightarrow> cx_dequantize cx q = Ok ys \<Longrightarrow> length ys = length xs"
begin

lemma fresh_copy:
  assumes S: "store_driver drv (stream_raw st) live content" and ok: "live_ok (live (gpu s))"
    and run: "fresh_allocation drv cx ctx st count name t (tensor_len t) s = (s', Ok (a, r))"
    and src: "region 4 (tensor_buffer t) \<in> live (gpu s)"
  shows "\<exists>q. cx_quantize cx (values_at content s (allocation_key t) (tensor_len t)) = Ok q \<and> copy_of live content q a r s' \<and>
    preserves live content (live (gpu s)) s s'"
proof -
  obtain b s1 bytes q s2 canonical packed s3 scale where b: "as_f32 t = Ok b"
    and read: "buffer_to_vec drv 4 b st s = (s1, Ok bytes)" and q: "cx_quantize cx (f32s_of_bytes bytes) = Ok q"
    and up1: "device_buffer_from_host drv 1 ctx st (map (\<lambda>byte. [byte]) (qt_packed q)) s1 = (s2, Ok packed)"
    and up2: "device_buffer_from_host drv 4 ctx st [f32_bytes (qt_scale q)] s2 = (s', Ok scale)"
    and r: "fresh_record cx count name (tensor_len t) (tensor_size_bytes t) q canonical packed scale = Ok r"
    and a: "a = \<lparr>pa_packed = packed, pa_scale = scale\<rparr>"
    using run by (auto simp: fresh_allocation_def rt_bind_Ok)
  have t: "t = T_F32 b" using b by (cases t) simp_all
  let ?bytes = "read_bytes (buf_ptr b) (size_bytes 4 b) (content (gpu s))"
  have "stored live content 4 b ?bytes s" using src by (simp add: stored_def t)
  from to_vec_stored [OF S ok read this]
  have bytes: "bytes = ?bytes" and p1: "preserves live content (live (gpu s)) s s1" by simp_all
  have vals: "f32s_of_bytes bytes = values_at content s (allocation_key t) (tensor_len t)"
    by (simp add: bytes values_at_def t allocation_key_def tensor_len_def size_bytes_def)
  have two: "preserves live content (live (gpu s1)) s1 s2 \<and> stored live content 1 packed (qt_packed q) s2"
    using from_host_effect [OF S preserves_live [OF p1] up1] quantized [OF q] by simp
  then have ok2: "live_ok (live (gpu s2))" by (simp add: preserves_def)
  have three: "preserves live content (live (gpu s2)) s2 s' \<and> stored live content 4 scale (f32_bytes (qt_scale q)) s'"
    using from_host_effect [OF S ok2 up2] by simp
  have "qt_element_count q = tensor_len t" using quantized [OF q] by (simp add: vals length_values_at)
  then have "copy_of live content q a r s'"
    using r two three stored_live [of live content 1 packed "qt_packed q" s2 s']
    by (auto simp: copy_of_def a fresh_record_def split: if_split_asm)
  moreover have "preserves live content (live (gpu s)) s s'"
    using preserves_step [OF preserves_step [OF p1, of s2], of s'] two three by blast
  ultimately show ?thesis using q by (auto simp: vals)
qed

lemma materialize_copy:
  assumes S: "store_driver drv (stream_raw st) live content" and ok: "live_ok (live (gpu s))"
    and run: "materialize_one drv cx st a r s = (s', Ok (d, host))"
    and copy: "copy_of live content q a r s" and q: "cx_quantize cx xs = Ok q"
  shows "\<exists>ys. cx_dequantize cx q = Ok ys \<and> length ys = length xs \<and> stored live content 4 d (concat (map f32_bytes ys)) s' \<and>
    buf_len d = length ys \<and> preserves live content (live (gpu s)) s s'"
proof -
  obtain s1 packed s2 scale ys where read1: "buffer_to_vec drv 1 (pa_packed a) st s = (s1, Ok packed)"
    and read2: "buffer_to_vec drv 4 (pa_scale a) st s1 = (s2, Ok scale)"
    and ys: "cx_dequantize cx \<lparr>qt_element_count = ar_logical_values r, qt_scale = ar_scale r, qt_packed = packed,
        qt_max_abs_error = ar_max_abs_error r, qt_mse = ar_mse r\<rparr> = Ok ys"
    and up: "device_buffer_from_host drv 4 (stream_ctx st) st (map f32_bytes ys) s2 = (s', Ok d)"
    using run by (auto simp: materialize_one_def rt_bind_Ok Let_def)
  have held: "stored live content 1 (pa_packed a) (qt_packed q) s" "stored live content 4 (pa_scale a) (f32_bytes (qt_scale q)) s"
    and fields: "q = \<lparr>qt_element_count = ar_logical_values r, qt_scale = ar_scale r, qt_packed = qt_packed q,
          qt_max_abs_error = ar_max_abs_error r, qt_mse = ar_mse r\<rparr>"
    using copy by (simp_all add: copy_of_def)
  have one: "packed = qt_packed q" "preserves live content (live (gpu s)) s s1"
    using to_vec_stored [OF S ok read1 held(1)] by simp_all
  have two: "preserves live content (live (gpu s1)) s1 s2"
    using to_vec_stored [OF S preserves_live [OF one(2)] read2 stored_live [OF held(2) one(2)]] by simp
  have deq: "cx_dequantize cx q = Ok ys" using ys one(1) fields by simp
  have len: "length ys = length xs" by (rule dequantized [OF q deq])
  then have "ys \<noteq> []" using quantized [OF q] by auto
  then have three: "preserves live content (live (gpu s2)) s2 s' \<and> stored live content 4 d (concat (map f32_bytes ys)) s' \<and>
      buf_len d = length ys"
    using from_host_effect [OF S preserves_live [OF two] up] by simp
  have "preserves live content (live (gpu s)) s s'"
    using preserves_step [OF preserves_step [OF one(2) two], of s'] three by blast
  then show ?thesis using deq len three by blast
qed

end

section \<open>The compact storage holds the quantized source\<close>

lemma copy_of_names: "copy_of live content q a (r\<lparr>ar_logical_names := names\<rparr>) s = copy_of live content q a r s"
  by (simp add: copy_of_def)

lemma values_preserved:
  assumes "preserves live content K s t" "(p, n * 4) \<in> K"
  shows "values_at content t p n = values_at content s p n"
proof -
  have "read_bytes p (n * 4) (content (gpu t)) = read_bytes p (n * 4) (content (gpu s))"
    using assms by (intro read_bytes_cong) (auto simp: preserves_def inside_def)
  then show ?thesis by (simp add: values_at_def)
qed

text \<open>While the tensors are visited: the source is untouched, every allocation is a copy of its source allocation, and every
  name visited refers to one of its length.\<close>

definition held ::
  "('s \<Rightarrow> (nat \<times> nat) set) \<Rightarrow> ('s \<Rightarrow> nat \<Rightarrow> u8) \<Rightarrow> 'd codec \<Rightarrow> 's rt \<Rightarrow> logical_tensor list \<Rightarrow> 'd storage_build \<Rightarrow> 's rt \<Rightarrow> bool" where
  "held live content cx s0 ts sb s \<longleftrightarrow>
     preserves live content (live (gpu s0)) s0 s \<and>
     (\<forall>p k. sb_indices sb p = Some k \<longrightarrow>
       (\<exists>q. cx_quantize cx (values_at content s0 p (ar_logical_values (sb_records sb ! k))) = Ok q \<and>
          copy_of live content q (sb_allocations sb ! k) (sb_records sb ! k) s)) \<and>
     (\<forall>x \<in> set ts. \<exists>k. sb_indices sb (allocation_key (fst (snd x))) = Some k \<and>
        ar_logical_values (sb_records sb ! k) = tensor_len (fst (snd x)))"

lemma held_alias:
  assumes H: "held live content cx s0 ts sb s" and idx: "sb_indices sb (allocation_key t) = Some k"
    and v: "visit_alias cx sb name shape (tensor_len t) bytes k = Ok sb'"
  shows "held live content cx s0 (ts @ [(name, t, shape)]) sb' s"
proof -
  let ?r = "sb_records sb ! k"
  have k: "k < length (sb_records sb)" and len: "ar_logical_values ?r = tensor_len t" and same: "sb_indices sb' = sb_indices sb"
    "sb_allocations sb' = sb_allocations sb" "sb_records sb' = (sb_records sb)[k := ?r\<lparr>ar_logical_names := ar_logical_names ?r @ [name]\<rparr>]"
    using v by (auto simp: visit_alias_def insert_binding_def Let_def u64_of_usize_def split: if_split_asm)
  have each: "ar_logical_values (sb_records sb' ! j) = ar_logical_values (sb_records sb ! j)"
    "copy_of live content q a (sb_records sb' ! j) s = copy_of live content q a (sb_records sb ! j) s" for j q a
    using k by (cases "j = k", simp_all add: same(3) copy_of_names)+
  show ?thesis using H idx len unfolding held_def same(1,2) each by simp
qed

context lowbit_codec
begin

lemma held_fresh:
  assumes S: "store_driver drv (stream_raw st) live content" and H: "held live content cx s0 ts sb s" and I: "storage_inv ts sb"
    and idx: "sb_indices sb (allocation_key t) = None" and src: "region 4 (tensor_buffer t) \<in> live (gpu s0)" and n: "0 < tensor_len t"
    and run: "fresh_allocation drv cx ctx st count name t (tensor_len t) s = (s', Ok (a, r))"
    and v: "record_allocation ar cx sb name shape (allocation_key t) a r = Ok sb'"
  shows "held live content cx s0 (ts @ [(name, t, shape)]) sb' s'"
proof -
  have P: "preserves live content (live (gpu s0)) s0 s" using H by (simp add: held_def)
  have src': "region 4 (tensor_buffer t) \<in> live (gpu s)" using P src by (auto simp: preserves_def)
  have reg: "(allocation_key t, tensor_len t * 4) \<in> live (gpu s0)"
    using src by (simp add: region_def allocation_key_def tensor_len_def)
  obtain q where q: "cx_quantize cx (values_at content s (allocation_key t) (tensor_len t)) = Ok q" "copy_of live content q a r s'"
    and step: "preserves live content (live (gpu s)) s s'"
    using fresh_copy [OF S preserves_live [OF P] run src'] by blast
  note q' = q(1) [unfolded values_preserved [OF P reg]]
  have r: "ar_logical_values r = tensor_len t" using fresh_allocation_good [OF run n] by simp
  have new: "sb_indices sb' = (sb_indices sb)(allocation_key t \<mapsto> length (sb_records sb))"
    "sb_allocations sb' = sb_allocations sb @ [a]" "sb_records sb' = sb_records sb @ [r]"
    using v by (auto simp: record_allocation_def insert_binding_def Let_def split: if_split_asm)
  have len: "length (sb_records sb) = length (sb_allocations sb)" using I by (simp add: storage_inv_def)
  have small: "k < length (sb_allocations sb)" if "sb_indices sb p = Some k" for p k
    using I that by (auto simp: storage_inv_def ran_def set_eq_iff)
  have copies: "\<exists>q. cx_quantize cx (values_at content s0 p (ar_logical_values (sb_records sb' ! k))) = Ok q \<and>
      copy_of live content q (sb_allocations sb' ! k) (sb_records sb' ! k) s'" if p: "sb_indices sb' p = Some k" for p k
  proof (cases "p = allocation_key t")
    case True
    then have "k = length (sb_records sb)" using p by (simp add: new(1))
    then have "sb_records sb' ! k = r" "sb_allocations sb' ! k = a" by (simp_all add: new(2,3) len nth_append)
    then show ?thesis using q' q(2) True by (simp add: r)
  next
    case False
    then have old: "sb_indices sb p = Some k" using p by (simp add: new(1))
    have same: "sb_records sb' ! k = sb_records sb ! k" "sb_allocations sb' ! k = sb_allocations sb ! k"
      using small [OF old] len by (simp_all add: new(2,3) nth_append)
    from H old obtain q where "cx_quantize cx (values_at content s0 p (ar_logical_values (sb_records sb ! k))) = Ok q"
      "copy_of live content q (sb_allocations sb ! k) (sb_records sb ! k) s" unfolding held_def by blast
    then show ?thesis using copy_of_live [OF _ step] same by metis
  qed
  have names: "\<exists>k. sb_indices sb' (allocation_key (fst (snd x))) = Some k \<and> ar_logical_values (sb_records sb' ! k) = tensor_len (fst (snd x))"
    if x: "x \<in> set (ts @ [(name, t, shape)])" for x
  proof (cases "allocation_key (fst (snd x)) = allocation_key t")
    case True
    have "x \<notin> set ts" using H idx True unfolding held_def by force
    then have "x = (name, t, shape)" using x by simp
    then show ?thesis by (simp add: new(1,3) r)
  next
    case False
    then have "x \<in> set ts" using x by auto
    then obtain k where k: "sb_indices sb (allocation_key (fst (snd x))) = Some k" "ar_logical_values (sb_records sb ! k) = tensor_len (fst (snd x))"
      using H unfolding held_def by blast
    then show ?thesis using False small [OF k(1)] len by (simp add: new(1,3) nth_append)
  qed
  show ?thesis
    unfolding held_def using preserves_step [OF P step] copies names by blast
qed

lemma held_visit:
  assumes S: "store_driver drv (stream_raw st) live content"
    and run: "storage_visit drv ar cx ctx st sb x s = (s', Ok sb')" and I: "storage_inv ts sb" and H: "held live content cx s0 ts sb s"
    and src: "region 4 (tensor_buffer (fst (snd x))) \<in> live (gpu s0)"
  shows "held live content cx s0 (ts @ [x]) sb' s'"
proof -
  obtain name t shape where x: "x = (name, t, shape)" by (cases x)
  from run obtain n sb1 where c: "visit_checks cx sb name t shape = Ok (n, sb1)"
    by (auto simp: storage_visit_def x rt_bind_Ok)
  note keeps = visit_checks_keeps [OF c]
  have I1: "storage_inv ts sb1" and H1: "held live content cx s0 ts sb1 s" and n: "n = tensor_len t" "0 < tensor_len t"
    using I H keeps by (simp_all add: storage_inv_def held_def)
  show ?thesis
  proof (cases "sb_indices sb1 (allocation_key t)")
    case None
    then obtain a r where "fresh_allocation drv cx ctx st (length (sb_allocations sb1)) name t n s = (s', Ok (a, r))"
      and "record_allocation ar cx sb1 name shape (allocation_key t) a r = Ok sb'"
      using run c by (auto simp: storage_visit_def x rt_bind_Ok)
    then show ?thesis using held_fresh [OF S H1 I1 None _ n(2)] src x n(1) by simp
  next
    case (Some k)
    then have "visit_alias cx sb1 name shape n (tensor_size_bytes t) k = Ok sb'" "s' = s"
      using run c by (auto simp: storage_visit_def x rt_bind_Ok)
    then show ?thesis using held_alias [OF H1 Some] x n(1) by simp
  qed
qed

lemma held_visit_all:
  assumes S: "store_driver drv (stream_raw st) live content"
    and "storage_visit_all drv ar cx ctx st sb xs s = (s', Ok sb')" "storage_inv ts sb" "held live content cx s0 ts sb s"
    and "\<forall>x \<in> set xs. region 4 (tensor_buffer (fst (snd x))) \<in> live (gpu s0)"
  shows "held live content cx s0 (ts @ xs) sb' s'"
  using assms(2-)
proof (induction xs arbitrary: ts sb s)
  case (Cons x xs)
  then obtain u sb1 where v: "storage_visit drv ar cx ctx st sb x s = (u, Ok sb1)"
    and rest: "storage_visit_all drv ar cx ctx st sb1 xs u = (s', Ok sb')" by (auto simp: rt_bind_Ok)
  have "held live content cx s0 (ts @ [x]) sb1 u" using held_visit [OF S v Cons.prems(2,3)] Cons.prems(4) by simp
  then show ?case using Cons.IH [OF rest storage_visit_inv [OF v Cons.prems(2)]] Cons.prems(4) by simp
qed simp

end

section \<open>The dense weights\<close>

text \<open>What rebuilding from named tensors returns came from the map.\<close>

definition from_map :: "tensor_map \<Rightarrow> logical_tensor list \<Rightarrow> bool" where
  "from_map m ts \<longleftrightarrow> named ` set ts \<subseteq> set m"

lemma from_map_simps [simp]:
  "from_map m []" "from_map m (x # ts) \<longleftrightarrow> named x \<in> set m \<and> from_map m ts" "from_map m (ts @ us) \<longleftrightarrow> from_map m ts \<and> from_map m us"
  by (auto simp: from_map_def)

lemma from_map_mono: "from_map m ts \<Longrightarrow> set m \<subseteq> set k \<Longrightarrow> from_map k ts"
  by (auto simp: from_map_def)

lemma delete_subset: "set (AList.delete k m) \<subseteq> set m"
  by (auto simp: AList.delete_eq)

lemma taken_matrix:
  assumes "take_named_matrix m name rows cols = Ok (w, k)"
  shows "from_map m [matrix_entry name w]" "set k \<subseteq> set m"
  using assms delete_subset [of name m]
  by (auto simp: take_named_matrix_def remove_named_def matrix_weight_new_def named_def matrix_entry_def dest: map_of_SomeD
      split: if_split_asm)

lemma taken_vector:
  assumes "take_named_vector m name n = Ok (w, k)"
  shows "from_map m [vector_entry name w]" "set k \<subseteq> set m"
  using assms delete_subset [of name m]
  by (auto simp: take_named_vector_def remove_named_def vector_weight_new_def named_def vector_entry_def dest: map_of_SomeD
      split: if_split_asm)

lemma taken_layer:
  assumes "take_layer c kv (ls, m) i = Ok (ls', k)"
  shows "\<exists>l. ls' = ls @ [l] \<and> from_map m (layer_tensors (i, l)) \<and> set k \<subseteq> set m"
proof -
  obtain inorm m1 q m2 kp m3 v m4 po m5 post m6 gate m7 up m8 down where
    t: "take_named_vector m (layer_name i ''input_norm'') (mc_hidden_size c) = Ok (inorm, m1)"
       "take_named_matrix m1 (layer_name i ''q_proj'') (mc_hidden_size c) (mc_hidden_size c) = Ok (q, m2)"
       "take_named_matrix m2 (layer_name i ''k_proj'') (mc_hidden_size c) kv = Ok (kp, m3)"
       "take_named_matrix m3 (layer_name i ''v_proj'') (mc_hidden_size c) kv = Ok (v, m4)"
       "take_named_matrix m4 (layer_name i ''o_proj'') (mc_hidden_size c) (mc_hidden_size c) = Ok (po, m5)"
       "take_named_vector m5 (layer_name i ''post_attention_norm'') (mc_hidden_size c) = Ok (post, m6)"
       "take_named_matrix m6 (layer_name i ''gate_proj'') (mc_hidden_size c) (mc_intermediate_size c) = Ok (gate, m7)"
       "take_named_matrix m7 (layer_name i ''up_proj'') (mc_hidden_size c) (mc_intermediate_size c) = Ok (up, m8)"
       "take_named_matrix m8 (layer_name i ''down_proj'') (mc_intermediate_size c) (mc_hidden_size c) = Ok (down, k)"
    and ls': "ls' = ls @ [\<lparr>lw_input_norm = inorm, lw_q_proj = q, lw_k_proj = kp, lw_v_proj = v, lw_o_proj = po,
          lw_post_attention_norm = post, lw_gate_proj = gate, lw_up_proj = up, lw_down_proj = down\<rparr>]"
    using assms by (auto simp: take_layer_def Let_def)
  note sub = taken_vector(2) [OF t(1)] taken_matrix(2) [OF t(2)] taken_matrix(2) [OF t(3)] taken_matrix(2) [OF t(4)]
    taken_matrix(2) [OF t(5)] taken_vector(2) [OF t(6)] taken_matrix(2) [OF t(7)] taken_matrix(2) [OF t(8)] taken_matrix(2) [OF t(9)]
  have in_m: "set m1 \<subseteq> set m" "set m2 \<subseteq> set m" "set m3 \<subseteq> set m" "set m4 \<subseteq> set m" "set m5 \<subseteq> set m" "set m6 \<subseteq> set m"
    "set m7 \<subseteq> set m" "set m8 \<subseteq> set m" "set k \<subseteq> set m"
    using sub by (meson subset_trans)+
  have got: "from_map m [vector_entry (layer_name i ''input_norm'') inorm]" "from_map m [matrix_entry (layer_name i ''q_proj'') q]"
    "from_map m [matrix_entry (layer_name i ''k_proj'') kp]" "from_map m [matrix_entry (layer_name i ''v_proj'') v]"
    "from_map m [matrix_entry (layer_name i ''o_proj'') po]" "from_map m [vector_entry (layer_name i ''post_attention_norm'') post]"
    "from_map m [matrix_entry (layer_name i ''gate_proj'') gate]" "from_map m [matrix_entry (layer_name i ''up_proj'') up]"
    "from_map m [matrix_entry (layer_name i ''down_proj'') down]"
    using taken_vector(1) [OF t(1)] from_map_mono [OF taken_matrix(1) [OF t(2)] in_m(1)] from_map_mono [OF taken_matrix(1) [OF t(3)] in_m(2)]
      from_map_mono [OF taken_matrix(1) [OF t(4)] in_m(3)] from_map_mono [OF taken_matrix(1) [OF t(5)] in_m(4)]
      from_map_mono [OF taken_vector(1) [OF t(6)] in_m(5)] from_map_mono [OF taken_matrix(1) [OF t(7)] in_m(6)]
      from_map_mono [OF taken_matrix(1) [OF t(8)] in_m(7)] from_map_mono [OF taken_matrix(1) [OF t(9)] in_m(8)]
    by simp_all
  show ?thesis
    by (intro exI [where x = "\<lparr>lw_input_norm = inorm, lw_q_proj = q, lw_k_proj = kp, lw_v_proj = v, lw_o_proj = po,
          lw_post_attention_norm = post, lw_gate_proj = gate, lw_up_proj = up, lw_down_proj = down\<rparr>"] conjI ls' in_m(9))
      (use got in \<open>simp add: layer_tensors_def\<close>)
qed

lemma taken_layers:
  assumes "for_each_res (take_layer c kv) (ls, m) [n..<n + j] = Ok (ls', k)" "length ls = n"
  shows "\<exists>new. ls' = ls @ new \<and> length new = j \<and> from_map m (concat (map layer_tensors (enumerate n new))) \<and> set k \<subseteq> set m"
  using assms
proof (induction j arbitrary: n ls m)
  case (Suc j)
  have "[n..<n + Suc j] = n # [Suc n..<Suc n + j]" by (simp add: upt_conv_Cons)
  then obtain ls1 m1 where one: "take_layer c kv (ls, m) n = Ok (ls1, m1)"
    and rest: "for_each_res (take_layer c kv) (ls1, m1) [Suc n..<Suc n + j] = Ok (ls', k)" using Suc.prems(1) by auto
  from taken_layer [OF one] obtain l where l: "ls1 = ls @ [l]" "from_map m (layer_tensors (n, l))" "set m1 \<subseteq> set m" by blast
  have "length ls1 = Suc n" using l Suc.prems(2) by simp
  from Suc.IH [OF rest this] obtain new where new: "ls' = ls1 @ new" "length new = j"
    "from_map m1 (concat (map layer_tensors (enumerate (Suc n) new)))" "set k \<subseteq> set m1" by blast
  have "from_map m (concat (map layer_tensors (enumerate n (l # new))))"
    using l(2) from_map_mono [OF new(3) l(3)] by simp
  then show ?case using new l by (intro exI [of _ "l # new"]) auto
qed simp

lemma named_tensors_from_map:
  assumes "from_named_logical_tensors c m = Ok w"
  shows "from_map m (logical_tensors w)"
proof -
  obtain kv embedding m1 layers m2 norm m3 head m4 where
    t: "take_named_matrix m (lit ''token_embedding'') (mc_vocab_size c) (mc_hidden_size c) = Ok (embedding, m1)"
       "for_each_res (take_layer c kv) ([], m1) [0..<mc_num_hidden_layers c] = Ok (layers, m2)"
       "take_named_vector m2 (lit ''final_norm'') (mc_hidden_size c) = Ok (norm, m3)"
       "take_named_matrix m3 (lit ''lm_head'') (mc_hidden_size c) (mc_vocab_size c) = Ok (head, m4)"
    and w: "w = \<lparr>wt_token_embedding = embedding, wt_layers = layers, wt_final_norm = norm, wt_lm_head = head\<rparr>"
    using assms by (auto simp: from_named_logical_tensors_def Let_def split: if_split_asm)
  have sub: "set m1 \<subseteq> set m" "set m3 \<subseteq> set m2" using taken_matrix(2) [OF t(1)] taken_vector(2) [OF t(3)] by simp_all
  from taken_layers [of c kv "[]" m1 0 "mc_num_hidden_layers c"] t(2)
  have layers: "from_map m1 (concat (map layer_tensors (enumerate 0 layers)))" "set m2 \<subseteq> set m1" by auto
  have "from_map m [matrix_entry (lit ''token_embedding'') embedding]" "from_map m (concat (map layer_tensors (enumerate 0 layers)))"
    "from_map m [vector_entry (lit ''final_norm'') norm]" "from_map m [matrix_entry (lit ''lm_head'') head]"
    using taken_matrix(1) [OF t(1)] from_map_mono [OF layers(1) sub(1)] from_map_mono [OF taken_vector(1) [OF t(3)]]
      from_map_mono [OF taken_matrix(1) [OF t(4)]] sub layers(2) by blast+
  then show ?thesis by (simp add: logical_tensors_def w)
qed

lemma dense_tensors_sound:
  assumes "dense_tensors cx dense bindings = Ok logical" "(name, shape, t) \<in> set logical"
  shows "\<exists>k. (name, k, shape) \<in> set bindings \<and> k < length dense \<and> t = T_F32 (dense ! k)"
proof -
  let ?step = "\<lambda>logical (name, index, shape).
         if length dense \<le> index then Err (codec_error cx ''dense logical binding references a missing allocation'')
         else if map_of logical name \<noteq> None then
           Err (invalid_input (lit (''duplicate '' @ cx_label cx @ '' dense logical binding '') @ name))
         else Ok (logical @ [(name, shape, T_F32 (dense ! index))])"
  have "for_each_res ?step acc bs = Ok logical \<Longrightarrow> (name, shape, t) \<in> set logical \<Longrightarrow>
      (name, shape, t) \<in> set acc \<or> (\<exists>k. (name, k, shape) \<in> set bs \<and> k < length dense \<and> t = T_F32 (dense ! k))" for acc bs
  proof (induction bs arbitrary: acc)
    case (Cons b bs)
    obtain n k sh where b: "b = (n, k, sh)" by (cases b)
    from Cons.prems(1) have k: "k < length dense" and rest: "for_each_res ?step (acc @ [(n, sh, T_F32 (dense ! k))]) bs = Ok logical"
      by (auto simp: b split: if_split_asm)
    show ?case using Cons.IH [OF rest Cons.prems(2)] k by (auto simp: b)
  qed simp
  from this [of "[]" "sort_key fst bindings"] show ?thesis using assms by (auto simp: dense_tensors_def)
qed

context lowbit_codec
begin

lemma materialize_copies:
  assumes S: "store_driver drv (stream_raw st) live content" and "live_ok (live (gpu s))"
    and "materialize_all drv cx st (ds, peak) ars s = (s', Ok (ds', peak'))"
    and "\<forall>i < length ars. \<exists>xs q. cx_quantize cx xs = Ok q \<and> copy_of live content q (fst (ars ! i)) (snd (ars ! i)) s"
  shows "\<exists>es. ds' = ds @ es \<and> length es = length ars \<and> preserves live content (live (gpu s)) s s' \<and>
    (\<forall>i < length ars. \<forall>xs q. cx_quantize cx xs = Ok q \<and> copy_of live content q (fst (ars ! i)) (snd (ars ! i)) s \<longrightarrow>
      (\<exists>ys. cx_dequantize cx q = Ok ys \<and> stored live content 4 (es ! i) (concat (map f32_bytes ys)) s' \<and> buf_len (es ! i) = length ys))"
  using assms(2-)
proof (induction ars arbitrary: s ds peak)
  case (Cons ar ars)
  obtain a r where ar: "ar = (a, r)" by (cases ar)
  obtain u d host where one: "materialize_one drv cx st a r s = (u, Ok (d, host))"
    and rest: "materialize_all drv cx st (ds @ [d], max peak host) ars u = (s', Ok (ds', peak'))"
    using Cons.prems(2) by (auto simp: ar rt_bind_Ok)
  obtain xs q where q: "cx_quantize cx xs = Ok q" "copy_of live content q a r s"
    using Cons.prems(3) [rule_format, of 0] by (auto simp: ar)
  note first = materialize_copy [OF S Cons.prems(1) one]
  have P: "preserves live content (live (gpu s)) s u" using first [OF q(2,1)] by blast
  have "\<forall>i < length ars. \<exists>xs q. cx_quantize cx xs = Ok q \<and> copy_of live content q (fst (ars ! i)) (snd (ars ! i)) u"
    using Cons.prems(3) copy_of_live [OF _ P] by (metis Suc_less_eq length_Cons nth_Cons_Suc)
  from Cons.IH [OF preserves_live [OF P] rest this] obtain es where es: "ds' = ds @ [d] @ es" "length es = length ars"
    and P2: "preserves live content (live (gpu u)) u s'"
    and later: "\<And>i xs q. i < length ars \<Longrightarrow> cx_quantize cx xs = Ok q \<Longrightarrow> copy_of live content q (fst (ars ! i)) (snd (ars ! i)) u \<Longrightarrow>
      \<exists>ys. cx_dequantize cx q = Ok ys \<and> stored live content 4 (es ! i) (concat (map f32_bytes ys)) s' \<and> buf_len (es ! i) = length ys"
    by auto
  have "\<exists>ys. cx_dequantize cx q = Ok ys \<and> stored live content 4 ((d # es) ! i) (concat (map f32_bytes ys)) s' \<and> buf_len ((d # es) ! i) = length ys"
    if i: "i < length (ar # ars)" and q: "cx_quantize cx xs = Ok q" "copy_of live content q (fst ((ar # ars) ! i)) (snd ((ar # ars) ! i)) s" for i xs q
  proof (cases i)
    case 0
    then have "copy_of live content q a r s" using q(2) ar by simp
    from first [OF this q(1)] show ?thesis using 0 stored_live [OF _ P2] by auto
  next
    case (Suc j)
    then have "copy_of live content q (fst (ars ! j)) (snd (ars ! j)) u" using q(2) copy_of_live [OF _ P] by simp
    from later [OF _ q(1) this] show ?thesis using i Suc by simp
  qed
  then show ?case using es preserves_step [OF P P2] by (intro exI [of _ "d # es"]) auto
qed (simp add: preserves_refl)

end

context lowbit_codec
begin

lemma storage_holds:
  assumes S: "store_driver drv (stream_raw st) live content" and ok: "live_ok (live (gpu s))"
    and run: "storage_from_weights drv ar cx w st s = (s', Ok m)"
    and src: "\<forall>x \<in> set (logical_tensors w). region 4 (tensor_buffer (fst (snd x))) \<in> live (gpu s)"
  shows "preserves live content (live (gpu s)) s s'"
    and "length (sm_allocations (ms_summary m)) = length (ms_allocations m)"
    and "k < length (ms_allocations m) \<Longrightarrow>
      \<exists>xs q. cx_quantize cx xs = Ok q \<and> copy_of live content q (ms_allocations m ! k) (sm_allocations (ms_summary m) ! k) s'"
    and "(name, k, shape) \<in> set (ms_bindings m) \<Longrightarrow> k < length (ms_allocations m) \<and>
      (\<exists>t q. (name, t, shape) \<in> set (logical_tensors w) \<and>
        cx_quantize cx (values_at content s (allocation_key t) (tensor_len t)) = Ok q \<and>
        copy_of live content q (ms_allocations m ! k) (sm_allocations (ms_summary m) ! k) s')"
proof -
  note D = store_driverD [OF S]
  from run obtain summary u sb where visit: "storage_visit_all drv ar cx (weights_context w) st (storage_start ar) (logical_tensors w) s = (u, Ok sb)"
    and sync: "stream_synchronize drv st u = (s', Ok ())" and fin: "finish_storage ar cx summary sb = Ok m"
    by (auto simp: storage_from_weights_def rt_bind_Ok)
  have m: "ms_allocations m = sb_allocations sb" "ms_bindings m = sb_bindings sb" "sm_allocations (ms_summary m) = sb_records sb"
    using fin by (auto simp: finish_storage_def Let_def u64_of_usize_def storage_summary_of_def split: if_split_asm)
  have "held live content cx s [] (storage_start ar) s" using ok by (simp add: held_def storage_start_def preserves_refl)
  from held_visit_all [OF S visit storage_inv_start this src]
  have H: "held live content cx s (logical_tensors w) sb u" by simp
  have I: "storage_inv (logical_tensors w) sb" using storage_visit_all_inv [OF visit storage_inv_start] by simp
  have P: "preserves live content (live (gpu s)) s u" using H by (simp add: held_def)
  have Q: "preserves live content (live (gpu u)) u s'"
    by (rule keeps_preserves [OF transfer_keeps(2) [OF D(1)] live_keeps(2) [OF D(3)] sync preserves_live [OF P]])
  show "preserves live content (live (gpu s)) s s'" by (rule preserves_step [OF P Q])
  show "length (sm_allocations (ms_summary m)) = length (ms_allocations m)" using I by (simp add: m storage_inv_def)
  have copies: "\<exists>q. cx_quantize cx (values_at content s p (ar_logical_values (sb_records sb ! j))) = Ok q \<and>
      copy_of live content q (sb_allocations sb ! j) (sb_records sb ! j) s'" if "sb_indices sb p = Some j" for p j
    using H that copy_of_live [OF _ Q] unfolding held_def by blast
  show "\<exists>xs q. cx_quantize cx xs = Ok q \<and> copy_of live content q (ms_allocations m ! k) (sm_allocations (ms_summary m) ! k) s'"
    if k: "k < length (ms_allocations m)"
  proof -
    have "k \<in> ran (sb_indices sb)" using I k by (simp add: storage_inv_def m)
    then obtain p where "sb_indices sb p = Some k" by (auto simp: ran_def)
    from copies [OF this] show ?thesis unfolding m by blast
  qed
  assume b: "(name, k, shape) \<in> set (ms_bindings m)"
  have len: "length (sb_bindings sb) = length (logical_tensors w)" using I unfolding storage_inv_def by (metis length_map)
  obtain i where i: "i < length (logical_tensors w)" "sb_bindings sb ! i = (name, k, shape)" using b len by (auto simp: m in_set_conv_nth)
  obtain x t y where u: "logical_tensors w ! i = (x, t, y)" by (cases "logical_tensors w ! i")
  have "case logical_tensors w ! i of (name, t, shape) \<Rightarrow> \<exists>k. sb_bindings sb ! i = (name, k, shape) \<and> sb_indices sb (allocation_key t) = Some k"
    using I i(1) by (simp add: storage_inv_def)
  then have idx: "x = name" "y = shape" "sb_indices sb (allocation_key t) = Some k" using i(2) u by auto
  have mem: "(name, t, shape) \<in> set (logical_tensors w)" using nth_mem [OF i(1)] u idx by simp
  have n: "ar_logical_values (sb_records sb ! k) = tensor_len t" using H mem idx(3) unfolding held_def by force
  have "k < length (sb_allocations sb)" using I idx(3) by (auto simp: storage_inv_def ran_def set_eq_iff)
  then show "k < length (ms_allocations m) \<and> (\<exists>t q. (name, t, shape) \<in> set (logical_tensors w) \<and>
        cx_quantize cx (values_at content s (allocation_key t) (tensor_len t)) = Ok q \<and>
        copy_of live content q (ms_allocations m ! k) (sm_allocations (ms_summary m) ! k) s')"
    using mem copies [OF idx(3)] unfolding n m by blast
qed

lemma dense_weights_hold:
  assumes S: "store_driver drv (stream_raw st) live content" and ok: "live_ok (live (gpu s))"
    and src: "\<forall>x \<in> set (logical_tensors w). region 4 (tensor_buffer (fst (snd x))) \<in> live (gpu s)"
    and run: "storage_from_weights drv ar cx w st s = (s1, Ok m)"
    and dense: "materialize_dense_f32_weights drv cx m c st s1 = (s2, Ok ((w', buffers), peak))"
  shows "preserves live content (live (gpu s)) s s2"
    and "(name, t', shape) \<in> set (logical_tensors w') \<Longrightarrow>
      \<exists>t q ys. (name, t, shape) \<in> set (logical_tensors w) \<and> cx_quantize cx (values_at content s (allocation_key t) (tensor_len t)) = Ok q \<and>
        cx_dequantize cx q = Ok ys \<and> tensor_len t' = tensor_len t \<and> values_at content s2 (allocation_key t') (tensor_len t') = ys"
proof -
  note D = store_driverD [OF S] and H = storage_holds [OF S ok run src]
  let ?ars = "zip (ms_allocations m) (sm_allocations (ms_summary m))"
  from dense obtain u logical where all: "materialize_all drv cx st ([], 0) ?ars s1 = (u, Ok (buffers, peak))"
    and tensors: "dense_tensors cx buffers (ms_bindings m) = Ok logical"
    and sync: "stream_synchronize drv st u = (s2, Ok ())" and rebuilt: "from_named_logical_tensors c logical = Ok w'"
    by (auto simp: materialize_dense_f32_weights_def rt_bind_Ok)
  have "\<forall>i < length ?ars. \<exists>xs q. cx_quantize cx xs = Ok q \<and> copy_of live content q (fst (?ars ! i)) (snd (?ars ! i)) s1"
    using H(3) H(2) by simp
  from materialize_copies [OF S preserves_live [OF H(1)] all this]
  have len: "length buffers = length ?ars" and P: "preserves live content (live (gpu s1)) s1 u"
    and each: "\<And>i xs q. i < length ?ars \<Longrightarrow> cx_quantize cx xs = Ok q \<Longrightarrow> copy_of live content q (fst (?ars ! i)) (snd (?ars ! i)) s1 \<Longrightarrow>
      \<exists>ys. cx_dequantize cx q = Ok ys \<and> stored live content 4 (buffers ! i) (concat (map f32_bytes ys)) u \<and> buf_len (buffers ! i) = length ys"
    by auto
  have Q: "preserves live content (live (gpu u)) u s2"
    by (rule keeps_preserves [OF transfer_keeps(2) [OF D(1)] live_keeps(2) [OF D(3)] sync preserves_live [OF P]])
  show "preserves live content (live (gpu s)) s s2" by (rule preserves_step [OF H(1) preserves_step [OF P Q]])
  assume "(name, t', shape) \<in> set (logical_tensors w')"
  then have "(name, shape, t') \<in> set logical" using named_tensors_from_map [OF rebuilt] by (force simp: from_map_def named_def)
  from dense_tensors_sound [OF tensors this] obtain k where b: "(name, k, shape) \<in> set (ms_bindings m)" "k < length buffers"
    and t': "t' = T_F32 (buffers ! k)" by blast
  from H(4) [OF b(1)] obtain t q where t: "(name, t, shape) \<in> set (logical_tensors w)" and k: "k < length (ms_allocations m)"
    and q: "cx_quantize cx (values_at content s (allocation_key t) (tensor_len t)) = Ok q"
    and copy: "copy_of live content q (ms_allocations m ! k) (sm_allocations (ms_summary m) ! k) s1" by blast
  have "copy_of live content q (fst (?ars ! k)) (snd (?ars ! k)) s1" using copy k H(2) by simp
  from each [OF _ q this] obtain ys where ys: "cx_dequantize cx q = Ok ys"
    "stored live content 4 (buffers ! k) (concat (map f32_bytes ys)) u" "buf_len (buffers ! k) = length ys" using k H(2) by auto
  have "stored live content 4 (buffers ! k) (concat (map f32_bytes ys)) s2" by (rule stored_live [OF ys(2) Q])
  then have "values_at content s2 (allocation_key t') (tensor_len t') = ys"
    by (simp add: values_at_def t' allocation_key_def tensor_len_def stored_def size_bytes_def f32s_of_f32_bytes)
  moreover have "tensor_len t' = tensor_len t"
    using dequantized [OF q ys(1)] ys(3) by (simp add: t' tensor_len_def length_values_at)
  ultimately show "\<exists>t q ys. (name, t, shape) \<in> set (logical_tensors w) \<and> cx_quantize cx (values_at content s (allocation_key t) (tensor_len t)) = Ok q \<and>
        cx_dequantize cx q = Ok ys \<and> tensor_len t' = tensor_len t \<and> values_at content s2 (allocation_key t') (tensor_len t') = ys"
    using t q ys(1) by blast
qed

end

interpretation int4_store: lowbit_codec "int4_codec ar" for ar :: "'d arith64"
proof
  fix xs q ys
  assume q: "cx_quantize (int4_codec ar) xs = Ok q"
  then have q': "int4_quantize (a64 ar) xs = Ok q" by (simp add: int4_codec_def)
  then have "xs \<noteq> []" by (auto simp: int4_quantize_def)
  moreover have "length (qt_packed q) = (length xs + 1) div 2" using int4_quantize_Ok(4) [OF q'] by simp
  ultimately show "qt_element_count q = length xs \<and> xs \<noteq> [] \<and> qt_packed q \<noteq> []"
    using int4_quantize_Ok(2) [OF q'] by (cases xs) auto
  assume "cx_dequantize (int4_codec ar) q = Ok ys"
  then show "length ys = length xs" using int4_read_back [OF q'] by (auto simp: int4_codec_def)
qed

interpretation int2_store: lowbit_codec "int2_codec ar" for ar :: "'d arith64"
proof
  fix xs q ys
  assume q: "cx_quantize (int2_codec ar) xs = Ok q"
  then have q': "int2_quantize (a64 ar) xs = Ok q" by (simp add: int2_codec_def)
  then have "xs \<noteq> []" by (auto simp: int2_quantize_def)
  moreover have "length (qt_packed q) = (length xs + 3) div 4" using int2_quantize_Ok(4) [OF q'] by simp
  ultimately show "qt_element_count q = length xs \<and> xs \<noteq> [] \<and> qt_packed q \<noteq> []"
    using int2_quantize_Ok(2) [OF q'] by (cases xs) auto
  assume "cx_dequantize (int2_codec ar) q = Ok ys"
  then show "length ys = length xs"
    using int2_dequantize_eq [OF int2_quantize_Ok(1) [OF q']] int2_quantize_Ok(2) [OF q'] by (auto simp: int2_codec_def)
qed

section \<open>Property\<close>

text \<open>C6. The materialized model is the quantized source, tensor by tensor.  When the compact INT4 or INT2 storage of a model's
  weights is built and then materialized, on a driver that transfers, orders and allocates as documented, every tensor of the
  dense graph has the name, shape and length of a tensor of the source, and holds in device memory exactly the dequantization
  of the quantization of what the source tensor held; for INT4 each value is its level times the scale.  The memory of
  the source is untouched.\<close>

theorem dense_weights_are_dequantized:
  assumes "cx = int4_codec ar \<or> cx = int2_codec ar" "store_driver drv (stream_raw st) live content" "live_ok (live (gpu s))"
    and "\<forall>(name, t, shape) \<in> set (logical_tensors w). region 4 (tensor_buffer t) \<in> live (gpu s)"
    and "storage_from_weights drv ar cx w st s = (s1, Ok m)"
    and "materialize_dense_f32_weights drv cx m c st s1 = (s2, Ok ((w', buffers), peak))"
  shows "(\<forall>(name, t', shape) \<in> set (logical_tensors w'). \<exists>t q. (name, t, shape) \<in> set (logical_tensors w) \<and>
      tensor_len t' = tensor_len t \<and> cx_quantize cx (values_at content s (allocation_key t) (tensor_len t)) = Ok q \<and>
      cx_dequantize cx q = Ok (values_at content s2 (allocation_key t') (tensor_len t')) \<and>
      (cx = int4_codec ar \<longrightarrow> values_at content s2 (allocation_key t') (tensor_len t') =
        map (\<lambda>v. ar_mul (a64 ar) (f32_of_i8 (int4_level (a64 ar) (qt_scale q) v)) (qt_scale q))
          (values_at content s (allocation_key t) (tensor_len t)))) \<and>
    (\<forall>(name, t, shape) \<in> set (logical_tensors w).
      values_at content s2 (allocation_key t) (tensor_len t) = values_at content s (allocation_key t) (tensor_len t))"
proof -
  have src: "\<forall>x \<in> set (logical_tensors w). region 4 (tensor_buffer (fst (snd x))) \<in> live (gpu s)" using assms(4) by auto
  have codec: "lowbit_codec cx" using assms(1) int4_store.lowbit_codec_axioms int2_store.lowbit_codec_axioms by blast
  note holds = lowbit_codec.dense_weights_hold [OF codec assms(2,3) src assms(5,6)]
  have level: "ys = map (\<lambda>v. ar_mul (a64 ar) (f32_of_i8 (int4_level (a64 ar) (qt_scale q) v)) (qt_scale q)) xs"
    if "cx = int4_codec ar" "cx_quantize cx xs = Ok q" "cx_dequantize cx q = Ok ys" for xs q ys
    using that int4_read_back [of "a64 ar" xs q] by (simp add: int4_codec_def)
  have kept: "values_at content s2 (allocation_key t) (tensor_len t) = values_at content s (allocation_key t) (tensor_len t)"
    if "(name, t, shape) \<in> set (logical_tensors w)" for name t shape
    using src that by (intro values_preserved [OF holds(1)]) (force simp: region_def allocation_key_def tensor_len_def)
  show ?thesis
  proof (intro conjI ballI)
    fix x assume "x \<in> set (logical_tensors w')"
    moreover obtain name t' shape where x: "x = (name, t', shape)" by (cases x)
    ultimately obtain t q ys where t: "(name, t, shape) \<in> set (logical_tensors w)" "tensor_len t' = tensor_len t"
      and q: "cx_quantize cx (values_at content s (allocation_key t) (tensor_len t)) = Ok q" "cx_dequantize cx q = Ok ys"
      and ys: "values_at content s2 (allocation_key t') (tensor_len t') = ys"
      using holds(2) by blast
    show "case x of (name, t', shape) \<Rightarrow> \<exists>t q. (name, t, shape) \<in> set (logical_tensors w) \<and>
      tensor_len t' = tensor_len t \<and> cx_quantize cx (values_at content s (allocation_key t) (tensor_len t)) = Ok q \<and>
      cx_dequantize cx q = Ok (values_at content s2 (allocation_key t') (tensor_len t')) \<and>
      (cx = int4_codec ar \<longrightarrow> values_at content s2 (allocation_key t') (tensor_len t') =
        map (\<lambda>v. ar_mul (a64 ar) (f32_of_i8 (int4_level (a64 ar) (qt_scale q) v)) (qt_scale q))
          (values_at content s (allocation_key t) (tensor_len t)))"
      unfolding x prod.case ys using t q level [OF _ q] by (intro exI [of _ t] exI [of _ q] conjI impI) simp_all
  qed (use kept in auto)
qed

end
