(* ===== verification/WeightStorageDemo.thy ===== *)
theory WeightStorageDemo
  imports WeightStorage
begin

text \<open>
  A driver with a memory, and the compact storage of a model of three names over two allocations built on it: the
  concrete input of the witnesses of \<open>WeightStorage\<close>.
\<close>

section \<open>A driver with memory\<close>

definition demo_store_driver :: "demo_gpu cuda" where
  "demo_store_driver = demo_gpu_driver\<lparr>
     cu_memset_d8_async := (\<lambda>p v n _ (f, L). ((write_bytes p (replicate n (of_nat v)) f, L), 0)),
     cu_memset_d32_async := (\<lambda>p v n _ (f, L). ((write_bytes p (concat (replicate n (le_bytes 4 v))) f, L), 0)),
     cu_memcpy_htod_async := (\<lambda>p bs _ (f, L). ((write_bytes p bs f, L), 0)),
     cu_memcpy_dtoh_async := (\<lambda>p n _ (f, L). ((f, L), (0, read_bytes p n f)))\<rparr>"

definition next_address :: "(nat \<times> nat) list \<Rightarrow> nat" where
  "next_address L = foldr (\<lambda>(q, m) a. max (q + m) a) L 256"

definition demo_stream :: stream where
  "demo_stream = \<lparr>stream_raw = 9, stream_ctx = 7\<rparr>"

lemma demo_store_sel:
  "driver_api demo_store_driver = Ok ()" "set_current demo_store_driver c s = (s, Ok ())"
  "stream_synchronize demo_store_driver st s = (s, Ok ())"
  by (simp_all add: driver_api_def set_current_def stream_synchronize_def rt_bind_def drv_call_def demo_store_driver_def
      demo_gpu_driver_def)

lemma demo_store_to_vec:
  "buf_ptr b \<noteq> 0 \<Longrightarrow> buf_ctx b = stream_ctx st \<Longrightarrow> gpu s = (f, L) \<Longrightarrow>
     buffer_to_vec demo_store_driver n b st s = (s, Ok (read_bytes (buf_ptr b) (size_bytes n b) f))"
proof -
  have read: "cu_memcpy_dtoh_async demo_store_driver p k x (f, L) = ((f, L), (0, read_bytes p k f))" for p k x
    by (simp add: demo_store_driver_def)
  show "buf_ptr b \<noteq> 0 \<Longrightarrow> buf_ctx b = stream_ctx st \<Longrightarrow> gpu s = (f, L) \<Longrightarrow> ?thesis"
    by (cases s) (simp add: buffer_to_vec_def copy_to_host_def then_synchronize_def copy_to_host_async_def ensure_stream_context_def
        rt_bind_def demo_store_sel with_bytes_def drv_read_def read)
qed

lemma demo_store_from_host:
  assumes "gpu s = (f, L)" "0 < length src * n" "next_address L + length src * n < u64_lim" "ctx = stream_ctx st"
  shows "device_buffer_from_host demo_store_driver n ctx st src s =
    (s\<lparr>gpu := (write_bytes (next_address L) (concat src) f, (next_address L, length src * n) # L)\<rparr>,
     Ok \<lparr>buf_ptr = next_address L, buf_len = length src, buf_ctx = ctx\<rparr>)"
proof -
  have pos: "0 < next_address L" using foldr_max_base [of 256 L] unfolding next_address_def by linarith
  have alloc: "cu_mem_alloc demo_store_driver m (f, L) = ((f, (next_address L, m) # L), (0, next_address L))"
    if "next_address L + m < u64_lim" for m
    using that by (simp add: demo_store_driver_def demo_gpu_driver_def demo_alloc_def next_address_def Let_def)
  have copy: "cu_memcpy_htod_async demo_store_driver p bs x (f, K) = ((write_bytes p bs f, K), 0)" for p bs x K
    by (simp add: demo_store_driver_def)
  show ?thesis
    using assms pos
    by (simp add: device_buffer_from_host_def device_buffer_new_def rt_bind_def or_drop_def copy_from_host_def then_synchronize_def
        copy_from_host_async_def ensure_stream_context_def demo_store_sel with_bytes_def drv_call_def drv_call_out_def
        checked_mul_def alloc copy)
qed

text \<open>Three names for two allocations of two values.\<close>

definition tied_weights :: model_weights where
  "tied_weights =
     \<lparr>wt_token_embedding = \<lparr>mw_tensor = T_F32 \<lparr>buf_ptr = 4096, buf_len = 2, buf_ctx = 7\<rparr>, mw_rows = 1, mw_cols = 2\<rparr>,
      wt_layers = [], wt_final_norm = \<lparr>vw_tensor = T_F32 \<lparr>buf_ptr = 8192, buf_len = 2, buf_ctx = 7\<rparr>, vw_len = 2\<rparr>,
      wt_lm_head = \<lparr>mw_tensor = T_F32 \<lparr>buf_ptr = 4096, buf_len = 2, buf_ctx = 7\<rparr>, mw_rows = 2, mw_cols = 1\<rparr>\<rparr>"

definition tied_memory :: "nat \<Rightarrow> u8" where
  "tied_memory = write_bytes 8192 (f32_bytes f32_one @ f32_bytes minus_one) (write_bytes 4096 (f32_bytes f32_one @ f32_bytes minus_one) (\<lambda>_. 0))"

definition tied_rt :: "demo_gpu rt" where
  "tied_rt = \<lparr>gpu = (tied_memory, [(8192, 8), (4096, 8)]), forgotten = []\<rparr>"

lemma tied_reads:
  "read_bytes 4096 8 tied_memory = concat (map f32_bytes [f32_one, minus_one])"
  "read_bytes 8192 8 tied_memory = concat (map f32_bytes [f32_one, minus_one])"
proof -
  have keep: "read_bytes 4096 8 (write_bytes 8192 bs f) = read_bytes 4096 8 f" for bs f
    by (simp add: read_bytes_def write_bytes_def)
  show "read_bytes 4096 8 tied_memory = concat (map f32_bytes [f32_one, minus_one])"
    unfolding tied_memory_def keep by (subst read_write_bytes) simp_all
  show "read_bytes 8192 8 tied_memory = concat (map f32_bytes [f32_one, minus_one])"
    unfolding tied_memory_def by (subst read_write_bytes) simp_all
qed

definition sample_record :: "nat \<Rightarrow> rstr \<Rightarrow> nat allocation_record" where
  "sample_record count name =
     \<lparr>ar_allocation_index = count, ar_logical_names = [name], ar_logical_values = 2, ar_source_bytes = 8, ar_header_bytes = 16,
      ar_payload_bytes = 1, ar_serialized_bytes = 17, ar_resident_payload = 1, ar_resident_scale = 4, ar_resident_total = 5,
      ar_scale = f32_one, ar_max_abs_error = f32_zero, ar_mse = 0\<rparr>"

lemma sample_canonical:
  "\<exists>bs. int4_canonical_serialized_bytes first_arith int4_sample = Ok bs \<and> length bs = 17"
proof -
  have "qt_packed int4_sample = [0xF1]" by (simp add: int4_sample_def)
  then show ?thesis
    by (simp add: int4_canonical_serialized_bytes_def int4_sample_valid canonical_bytes_def checked_add_def u64_lim_def
        NNIS_INT4_REFERENCE_SERIALIZED_HEADER_BYTES_def lit_def)
qed

lemma next_address_Cons: "next_address ((q, m) # L) = max (q + m) (next_address L)"
  by (simp add: next_address_def)

abbreviation "demo_codec \<equiv> int4_codec nat_arith64"

lemma demo_codec_sel:
  "cx_quantize demo_codec = int4_quantize first_arith" "cx_canonical demo_codec = int4_canonical_serialized_bytes first_arith"
  "cx_dequantize demo_codec = int4_dequantize first_arith" "cx_header_bytes demo_codec = 16" "cx_version demo_codec = 1"
  by (simp_all add: int4_codec_def NNIS_INT4_REFERENCE_SERIALIZED_HEADER_BYTES_def NNIS_INT4_REFERENCE_STORAGE_VERSION_def)

text \<open>What storing a tensor leaves, and the record of it.\<close>

definition demo_record :: "nat \<Rightarrow> rstr \<Rightarrow> nat quantized_tensor \<Rightarrow> nat allocation_record" where
  "demo_record count name q =
     \<lparr>ar_allocation_index = count, ar_logical_names = [name], ar_logical_values = qt_element_count q,
      ar_source_bytes = qt_element_count q * 4, ar_header_bytes = 16, ar_payload_bytes = length (qt_packed q),
      ar_serialized_bytes = 16 + length (qt_packed q), ar_resident_payload = length (qt_packed q), ar_resident_scale = 4,
      ar_resident_total = length (qt_packed q) + 4, ar_scale = qt_scale q, ar_max_abs_error = qt_max_abs_error q, ar_mse = qt_mse q\<rparr>"

definition demo_stored :: "nat \<Rightarrow> nat quantized_tensor \<Rightarrow> packed_allocation" where
  "demo_stored p q = \<lparr>pa_packed = \<lparr>buf_ptr = p, buf_len = length (qt_packed q), buf_ctx = 7\<rparr>,
     pa_scale = \<lparr>buf_ptr = p + length (qt_packed q), buf_len = 1, buf_ctx = 7\<rparr>\<rparr>"

definition demo_gpu_after :: "nat \<Rightarrow> nat quantized_tensor \<Rightarrow> (nat \<Rightarrow> u8) \<Rightarrow> (nat \<times> nat) list \<Rightarrow> demo_gpu" where
  "demo_gpu_after p q f L = (write_bytes (p + length (qt_packed q)) (f32_bytes (qt_scale q)) (write_bytes p (qt_packed q) f),
     (p + length (qt_packed q), 4) # (p, length (qt_packed q)) # L)"

lemma demo_fresh:
  assumes "gpu s = (f, L)" "buf_ptr b \<noteq> 0" "buf_ctx b = 7" "buf_len b = length xs"
    and "read_bytes (buf_ptr b) (length xs * 4) f = concat (map f32_bytes xs)"
    and q: "int4_quantize first_arith xs = Ok q" "qt_packed q \<noteq> []" "length (qt_packed q) < 1000" "length xs < 1000"
    and room: "next_address L + 2000 < u64_lim" "count < u32_lim"
    and canonical: "int4_canonical_serialized_bytes first_arith q = Ok bs" "length bs = 16 + length (qt_packed q)"
  shows "fresh_allocation demo_store_driver demo_codec 7 demo_stream count name (T_F32 b) (length xs) s =
    (s\<lparr>gpu := demo_gpu_after (next_address L) q f L\<rparr>, Ok (demo_stored (next_address L) q, demo_record count name q))"
proof -
  let ?p = "next_address L" and ?n = "length (qt_packed q)"
  have st: "stream_ctx demo_stream = 7" by (simp add: demo_stream_def)
  have read: "buffer_to_vec demo_store_driver 4 b demo_stream s = (s, Ok (concat (map f32_bytes xs)))"
    using demo_store_to_vec [of b demo_stream s f L 4] assms(1-5) st by (simp add: size_bytes_def)
  let ?s1 = "s\<lparr>gpu := (write_bytes ?p (qt_packed q) f, (?p, ?n) # L)\<rparr>"
  have packed: "device_buffer_from_host demo_store_driver 1 7 demo_stream (map (\<lambda>byte. [byte]) (qt_packed q)) s =
      (?s1, Ok \<lparr>buf_ptr = ?p, buf_len = ?n, buf_ctx = 7\<rparr>)"
    using demo_store_from_host [of s f L "map (\<lambda>byte. [byte]) (qt_packed q)" 1 7 demo_stream] assms(1) q(2,3) room(1) st by simp
  have behind: "next_address ((?p, ?n) # L) = ?p + ?n" by (simp add: next_address_Cons)
  have scale: "device_buffer_from_host demo_store_driver 4 7 demo_stream [f32_bytes (qt_scale q)] ?s1 =
      (s\<lparr>gpu := demo_gpu_after ?p q f L\<rparr>, Ok \<lparr>buf_ptr = ?p + ?n, buf_len = 1, buf_ctx = 7\<rparr>)"
    using demo_store_from_host [of ?s1 "write_bytes ?p (qt_packed q) f" "(?p, ?n) # L" "[f32_bytes (qt_scale q)]" 4 7 demo_stream]
      q(3) room(1) st behind by (simp add: demo_gpu_after_def)
  have limits: "k < u64_lim" if "k < 5000" for k using that by (simp add: u64_lim_def)
  have made: "fresh_record demo_codec count name (length xs) (tensor_size_bytes (T_F32 b)) q bs
      \<lparr>buf_ptr = ?p, buf_len = ?n, buf_ctx = 7\<rparr> \<lparr>buf_ptr = ?p + ?n, buf_len = 1, buf_ctx = 7\<rparr> = Ok (demo_record count name q)"
    using assms(4) room(2) canonical(2) q(3,4) int4_quantize_Ok(2) [OF q(1)] limits
    by (simp add: fresh_record_def demo_codec_sel size_bytes_def u64_of_usize_def u32_of_usize_def checked_add_def demo_record_def)
  have run: "as_f32 (T_F32 b) = Ok b" by simp
  show ?thesis
    unfolding fresh_allocation_def demo_codec_sel rt_bind_def rt_simps run read prod.case sum.case f32s_of_f32_bytes
      q(1) canonical(1) packed or_release_def scale made by (simp add: demo_stored_def)
qed

lemma sample_fresh:
  assumes "gpu s = (f, L)" "buf_ptr b \<noteq> 0" "buf_len b = 2" "buf_ctx b = 7"
    and "read_bytes (buf_ptr b) 8 f = concat (map f32_bytes [f32_one, minus_one])" "next_address L + 2000 < u64_lim" "count < u32_lim"
  shows "fresh_allocation demo_store_driver demo_codec 7 demo_stream count name (T_F32 b) 2 s =
    (s\<lparr>gpu := (write_bytes (next_address L + 1) (f32_bytes f32_one) (write_bytes (next_address L) [0xF1] f),
        (next_address L + 1, 4) # (next_address L, 1) # L)\<rparr>,
     Ok (\<lparr>pa_packed = \<lparr>buf_ptr = next_address L, buf_len = 1, buf_ctx = 7\<rparr>,
          pa_scale = \<lparr>buf_ptr = next_address L + 1, buf_len = 1, buf_ctx = 7\<rparr>\<rparr>, sample_record count name))"
proof -
  obtain canonical where canonical: "int4_canonical_serialized_bytes first_arith int4_sample = Ok canonical" "length canonical = 17"
    using sample_canonical by blast
  have fields: "qt_packed int4_sample = [0xF1]" "qt_scale int4_sample = f32_one" "qt_element_count int4_sample = 2"
    "demo_record count name int4_sample = sample_record count name"
    by (simp_all add: int4_sample_def demo_record_def sample_record_def)
  have "fresh_allocation demo_store_driver demo_codec 7 demo_stream count name (T_F32 b) (length [f32_one, minus_one]) s =
    (s\<lparr>gpu := demo_gpu_after (next_address L) int4_sample f L\<rparr>, Ok (demo_stored (next_address L) int4_sample, demo_record count name int4_sample))"
    by (rule demo_fresh [OF assms(1,2,4) _ _ int4_sample_quantized _ _ _ assms(6,7) canonical(1)])
      (use assms(3,5) canonical(2) in \<open>simp_all add: fields\<close>)
  then show ?thesis by (simp add: demo_gpu_after_def demo_stored_def fields numeral_2_eq_2)
qed

definition tied_storage :: "nat model_storage" where
  "tied_storage =
     \<lparr>ms_allocations =
        [\<lparr>pa_packed = \<lparr>buf_ptr = 8200, buf_len = 1, buf_ctx = 7\<rparr>, pa_scale = \<lparr>buf_ptr = 8201, buf_len = 1, buf_ctx = 7\<rparr>\<rparr>,
         \<lparr>pa_packed = \<lparr>buf_ptr = 8205, buf_len = 1, buf_ctx = 7\<rparr>, pa_scale = \<lparr>buf_ptr = 8206, buf_len = 1, buf_ctx = 7\<rparr>\<rparr>],
      ms_bindings = [(lit ''token_embedding'', 0, Matrix_shape 1 2), (lit ''final_norm'', 1, Vector_shape 2),
         (lit ''lm_head'', 0, Matrix_shape 2 1)],
      ms_summary =
        \<lparr>sm_schema_version = 1, sm_representation = lit ''symmetric-signed-int4-reference'',
         sm_quantization = lit ''round-to-nearest-clamped-minus7-plus7'',
         sm_scale_scope = lit ''one-f32-scale-per-unique-source-allocation'', sm_range = Some (- 7, 7),
         sm_execution_qualified = False, sm_unique_allocations = 2,
         sm_totals = \<lparr>st_tensor_references = 3, st_element_references = 6, st_unique_values = 4, st_source_bytes = 16,
           st_header_bytes = 32, st_payload_bytes = 2, st_serialized_bytes = 34, st_resident_payload = 2, st_resident_scale = 8,
           st_resident_bytes = 10\<rparr>,
         sm_serialized_bits = 68, sm_resident_bits = 20, sm_byte_ratio = 1, sm_max_abs_error = f32_max (f32_max f32_zero f32_zero) f32_zero,
         sm_mse = 0, sm_allocations = [(sample_record 0 (lit ''token_embedding''))
           \<lparr>ar_logical_names := [lit ''token_embedding'', lit ''lm_head'']\<rparr>, sample_record 1 (lit ''final_norm'')]\<rparr>\<rparr>"

lemma tied_run:
  "\<exists>s'. storage_from_weights demo_store_driver nat_arith64 demo_codec tied_weights demo_stream tied_rt = (s', Ok tied_storage)"
proof -
  have src: "weight_allocation_summary tied_weights = Ok
      \<lparr>as_schema_version = 1, as_logical_tensor_references = 3, as_logical_element_references = 6,
       as_unique_device_allocations = 2, as_unique_device_elements = 4, as_owned_device_allocation_bytes = 16,
       as_segments = [\<lparr>sg_allocation_index = 0, sg_dtype = A_F32, sg_elements = 2, sg_bytes = 8,
           sg_logical_names = [lit ''token_embedding'', lit ''lm_head'']\<rparr>,
         \<lparr>sg_allocation_index = 1, sg_dtype = A_F32, sg_elements = 2, sg_bytes = 8, sg_logical_names = [lit ''final_norm'']\<rparr>]\<rparr>"
    by (simp add: weight_allocation_summary_def logical_tensors_def tied_weights_def matrix_entry_def vector_entry_def observe_tensor_def
        tensor_len_def size_bytes_def allocation_key_def u64_of_usize_def u64_lim_def summarize_weight_allocations_def
        observe_allocation_def summary_start_def count_up_def checked_add_def u32_of_usize_def u32_lim_def segment_agrees_def Let_def
        NNIS_WEIGHT_ALLOCATION_SUMMARY_VERSION_def)
  let ?e = "T_F32 \<lparr>buf_ptr = 4096, buf_len = 2, buf_ctx = 7\<rparr>" and ?n = "T_F32 \<lparr>buf_ptr = 8192, buf_len = 2, buf_ctx = 7\<rparr>"
  let ?start = "storage_start nat_arith64 :: nat storage_build"
  define a1 where "a1 = \<lparr>pa_packed = \<lparr>buf_ptr = 8200, buf_len = 1, buf_ctx = 7\<rparr>, pa_scale = \<lparr>buf_ptr = 8201, buf_len = 1, buf_ctx = 7\<rparr>\<rparr>"
  define a2 where "a2 = \<lparr>pa_packed = \<lparr>buf_ptr = 8205, buf_len = 1, buf_ctx = 7\<rparr>, pa_scale = \<lparr>buf_ptr = 8206, buf_len = 1, buf_ctx = 7\<rparr>\<rparr>"
  define f1 where "f1 = write_bytes 8201 (f32_bytes f32_one) (write_bytes 8200 [0xF1] tied_memory)"
  define s1 :: "demo_gpu rt" where "s1 = tied_rt\<lparr>gpu := (f1, [(8201, 4), (8200, 1), (8192, 8), (4096, 8)])\<rparr>"
  have g1: "gpu s1 = (f1, [(8201, 4), (8200, 1), (8192, 8), (4096, 8)])" "gpu tied_rt = (tied_memory, [(8192, 8), (4096, 8)])"
    by (simp_all add: s1_def tied_rt_def)
  have fresh1: "fresh_allocation demo_store_driver demo_codec 7 demo_stream 0 (lit ''token_embedding'') ?e 2 tied_rt =
      (s1, Ok (a1, sample_record 0 (lit ''token_embedding'')))"
    using sample_fresh [of tied_rt tied_memory "[(8192, 8), (4096, 8)]" "\<lparr>buf_ptr = 4096, buf_len = 2, buf_ctx = 7\<rparr>" 0 "lit ''token_embedding''"]
    by (simp add: g1 tied_reads next_address_def u64_lim_def u32_lim_def s1_def f1_def a1_def)
  have read2: "read_bytes 8192 8 f1 = concat (map f32_bytes [f32_one, minus_one])"
  proof -
    have "read_bytes 8192 8 f1 = read_bytes 8192 8 tied_memory"
      unfolding f1_def by (rule read_bytes_cong) (simp add: write_bytes_def)
    then show ?thesis by (simp only: tied_reads)
  qed
  obtain s2 where fresh2: "fresh_allocation demo_store_driver demo_codec 7 demo_stream 1 (lit ''final_norm'') ?n 2 s1 =
      (s2, Ok (a2, sample_record 1 (lit ''final_norm'')))"
    using sample_fresh [of s1 f1 "[(8201, 4), (8200, 1), (8192, 8), (4096, 8)]" "\<lparr>buf_ptr = 8192, buf_len = 2, buf_ctx = 7\<rparr>" 1 "lit ''final_norm''"]
    by (simp add: g1 read2 next_address_def u64_lim_def u32_lim_def a2_def)
  let ?totals1 = "\<lparr>st_tensor_references = 1, st_element_references = 2, st_unique_values = 2, st_source_bytes = 8,
     st_header_bytes = 16, st_payload_bytes = 1, st_serialized_bytes = 17, st_resident_payload = 1, st_resident_scale = 4, st_resident_bytes = 5\<rparr>"
  let ?sb1 = "\<lparr>sb_indices = [4096 \<mapsto> 0], sb_allocations = [a1], sb_bindings = [(lit ''token_embedding'', 0, Matrix_shape 1 2)],
     sb_records = [sample_record 0 (lit ''token_embedding'')], sb_totals = ?totals1,
     sb_max_abs_error = f32_max f32_zero f32_zero, sb_squared_error = 0\<rparr> :: nat storage_build"
  have limits: "(1 :: nat) < u64_lim" "(2 :: nat) < u64_lim" "(17 :: nat) < u64_lim" "(34 :: nat) < u64_lim" by (simp_all add: u64_lim_def)
  have names: "lit ''token_embedding'' \<noteq> lit ''final_norm''" "lit ''token_embedding'' \<noteq> lit ''lm_head''" "lit ''final_norm'' \<noteq> lit ''lm_head''"
    by (simp_all add: lit_eq_iff)
  have v1: "storage_visit demo_store_driver nat_arith64 demo_codec 7 demo_stream ?start (lit ''token_embedding'', ?e, Matrix_shape 1 2) tied_rt =
      (s1, Ok ?sb1)"
    by (simp add: storage_visit_def rt_bind_def or_release_def visit_checks_def storage_start_def tensor_len_def u64_of_usize_def
        checked_mul_def u64_lim_def count_up_def checked_add_def Let_def allocation_key_def fresh1 record_allocation_def
        insert_binding_def add_totals_def sample_record_def)
  let ?totals2 = "\<lparr>st_tensor_references = 2, st_element_references = 4, st_unique_values = 4, st_source_bytes = 16,
     st_header_bytes = 32, st_payload_bytes = 2, st_serialized_bytes = 34, st_resident_payload = 2, st_resident_scale = 8, st_resident_bytes = 10\<rparr>"
  let ?sb2 = "\<lparr>sb_indices = [4096 \<mapsto> 0, 8192 \<mapsto> 1], sb_allocations = [a1, a2],
     sb_bindings = [(lit ''token_embedding'', 0, Matrix_shape 1 2), (lit ''final_norm'', 1, Vector_shape 2)],
     sb_records = [sample_record 0 (lit ''token_embedding''), sample_record 1 (lit ''final_norm'')], sb_totals = ?totals2,
     sb_max_abs_error = f32_max (f32_max f32_zero f32_zero) f32_zero, sb_squared_error = 0\<rparr> :: nat storage_build"
  have v2: "storage_visit demo_store_driver nat_arith64 demo_codec 7 demo_stream ?sb1 (lit ''final_norm'', ?n, Vector_shape 2) s1 = (s2, Ok ?sb2)"
    using fresh2 names
    by (simp add: storage_visit_def rt_bind_def or_release_def visit_checks_def tensor_len_def u64_of_usize_def
        u64_lim_def count_up_def checked_add_def Let_def allocation_key_def record_allocation_def
        insert_binding_def add_totals_def sample_record_def)
  let ?sb3 = "?sb2\<lparr>sb_totals := ?totals2\<lparr>st_tensor_references := 3, st_element_references := 6\<rparr>,
     sb_bindings := [(lit ''token_embedding'', 0, Matrix_shape 1 2), (lit ''final_norm'', 1, Vector_shape 2), (lit ''lm_head'', 0, Matrix_shape 2 1)],
     sb_records := [(sample_record 0 (lit ''token_embedding''))\<lparr>ar_logical_names := [lit ''token_embedding'', lit ''lm_head'']\<rparr>,
       sample_record 1 (lit ''final_norm'')]\<rparr>"
  have v3: "storage_visit demo_store_driver nat_arith64 demo_codec 7 demo_stream ?sb2 (lit ''lm_head'', ?e, Matrix_shape 2 1) s2 = (s2, Ok ?sb3)"
    using names
    by (simp add: storage_visit_def rt_bind_def or_release_def visit_checks_def tensor_len_def u64_of_usize_def checked_mul_def
        u64_lim_def count_up_def checked_add_def Let_def allocation_key_def visit_alias_def size_bytes_def insert_binding_def sample_record_def)
  have tensors: "logical_tensors tied_weights = [(lit ''token_embedding'', ?e, Matrix_shape 1 2), (lit ''final_norm'', ?n, Vector_shape 2),
      (lit ''lm_head'', ?e, Matrix_shape 2 1)]"
    by (simp add: logical_tensors_def tied_weights_def matrix_entry_def vector_entry_def)
  have owner: "weights_context tied_weights = 7" by (simp add: weights_context_def tied_weights_def tensor_context_def)
  have all: "storage_visit_all demo_store_driver nat_arith64 demo_codec 7 demo_stream ?start (logical_tensors tied_weights) tied_rt =
      (s2, Ok ?sb3)"
    unfolding tensors storage_visit_all.simps rt_bind_def v1 v2 v3 prod.case sum.case by (simp add: rt_simps)
  let ?src = "\<lparr>as_schema_version = 1, as_logical_tensor_references = 3, as_logical_element_references = 6,
     as_unique_device_allocations = 2, as_unique_device_elements = 4, as_owned_device_allocation_bytes = 16,
     as_segments = [\<lparr>sg_allocation_index = 0, sg_dtype = A_F32, sg_elements = 2, sg_bytes = 8,
         sg_logical_names = [lit ''token_embedding'', lit ''lm_head'']\<rparr>,
       \<lparr>sg_allocation_index = 1, sg_dtype = A_F32, sg_elements = 2, sg_bytes = 8, sg_logical_names = [lit ''final_norm'']\<rparr>]\<rparr>"
  have summary: "storage_summary_of nat_arith64 demo_codec ?src ?sb3 = ms_summary tied_storage"
    by (simp add: storage_summary_of_def tied_storage_def int4_codec_def NNIS_INT4_REFERENCE_STORAGE_VERSION_def
        NNIS_INT4_REFERENCE_QUANT_MIN_def NNIS_INT4_REFERENCE_QUANT_MAX_def bits_per_value_def)
  have parts: "sb_allocations ?sb3 = ms_allocations tied_storage" "sb_bindings ?sb3 = ms_bindings tied_storage"
    by (simp_all add: tied_storage_def a1_def a2_def)
  have whole: "\<lparr>ms_allocations = ms_allocations tied_storage, ms_bindings = ms_bindings tied_storage, ms_summary = ms_summary tied_storage\<rparr> =
      tied_storage" by simp
  have valid: "validate_resident_allocations demo_codec tied_storage = Ok ()"
    by (simp add: validate_resident_allocations_def tied_storage_def check_resident_def usize_of_u64_def u64_of_usize_def u64_lim_def
        checked_add_def count_up_def size_bytes_def sample_record_def)
  have fin: "finish_storage nat_arith64 demo_codec ?src ?sb3 = Ok tied_storage"
    unfolding finish_storage_def Let_def summary parts whole valid
    by (simp add: u64_of_usize_def u64_lim_def source_disagrees_def tied_storage_def)
  obtain sb summary where run: "weight_allocation_summary tied_weights = Ok summary"
    "storage_visit_all demo_store_driver nat_arith64 demo_codec 7 demo_stream ?start (logical_tensors tied_weights) tied_rt = (s2, Ok sb)"
    "finish_storage nat_arith64 demo_codec summary sb = Ok tied_storage"
    using src all fin by blast
  have "storage_from_weights demo_store_driver nat_arith64 demo_codec tied_weights demo_stream tied_rt = (s2, Ok tied_storage)"
    by (simp add: storage_from_weights_def rt_bind_def or_release_def owner run demo_store_sel)
  then show ?thesis by blast
qed

section \<open>Witnesses\<close>

theorem compact_storage_shares_witness:
  "binding_index tied_storage 0 = binding_index tied_storage 2 \<and> binding_index tied_storage 0 \<noteq> binding_index tied_storage 1 \<and>
   sum_list (map resident_size (ms_allocations tied_storage)) = 10"
proof -
  obtain s' where run: "storage_from_weights demo_store_driver nat_arith64 demo_codec tied_weights demo_stream tied_rt = (s', Ok tied_storage)"
    using tied_run by blast
  let ?e = "T_F32 \<lparr>buf_ptr = 4096, buf_len = 2, buf_ctx = 7\<rparr>" and ?n = "T_F32 \<lparr>buf_ptr = 8192, buf_len = 2, buf_ctx = 7\<rparr>"
  have tensors: "logical_tensors tied_weights = [(lit ''token_embedding'', ?e, Matrix_shape 1 2), (lit ''final_norm'', ?n, Vector_shape 2),
      (lit ''lm_head'', ?e, Matrix_shape 2 1)]"
    by (simp add: logical_tensors_def tied_weights_def matrix_entry_def vector_entry_def)
  have len: "length (logical_tensors tied_weights) = 3" by (simp add: tensors)
  note holds = compact_storage_shares [OF run, unfolded len, THEN conjunct2, THEN conjunct2]
  note shares = holds [THEN conjunct1, rule_format, THEN conjunct2, rule_format]
  have "sum_list (map resident_size (ms_allocations tied_storage)) = st_resident_bytes (sm_totals (ms_summary tied_storage))"
    using holds by simp
  then have bytes: "sum_list (map resident_size (ms_allocations tied_storage)) = 10" by (simp add: tied_storage_def)
  have keys: "allocation_key (fst (snd (logical_tensors tied_weights ! 0))) = allocation_key (fst (snd (logical_tensors tied_weights ! 2)))"
    "allocation_key (fst (snd (logical_tensors tied_weights ! 0))) \<noteq> allocation_key (fst (snd (logical_tensors tied_weights ! 1)))"
    by (simp_all add: tensors allocation_key_def)
  show ?thesis using shares [of 0 2] shares [of 0 1] keys bytes by simp
qed

theorem built_storage_qualifies_witness:
  "\<exists>q. storage_qualification_record nat_arith64 demo_codec (lit ''tied'') (ms_summary tied_storage) = Ok q \<and>
     qr_execution_level q = StorageOnly \<and> wa_resident_bytes (qr_accounting q) = 10"
proof -
  obtain s' where run: "storage_from_weights demo_store_driver nat_arith64 demo_codec tied_weights demo_stream tied_rt = (s', Ok tied_storage)"
    using tied_run by blast
  have bytes: "sum_list (map resident_size (ms_allocations tied_storage)) = 10"
    by (simp add: tied_storage_def resident_size_def size_bytes_def)
  have metrics: "sm_max_abs_error (ms_summary tied_storage) = f32_max (f32_max f32_zero f32_zero) f32_zero" "sm_mse (ms_summary tied_storage) = 0"
    by (simp_all add: tied_storage_def)
  have zero: "f32_max f32_zero f32_zero = f32_zero" using unit_facts(6) unfolding f32_zero_def .
  have errors: "\<not> bad_evidence (a64 nat_arith64) (sm_max_abs_error (ms_summary tied_storage)) (sm_mse (ms_summary tied_storage))"
    unfolding metrics zero nat_arith64_sel by (rule unit_facts(13))
  have name: "lit ''tied'' \<noteq> []" "trim (lit ''tied'') = lit ''tied''" by (simp_all add: lit_def trim_id_iff is_white_def)
  show ?thesis
    using built_storage_qualifies [OF _ run _ _ errors name] bytes by auto
qed

end
