(* ===== verification/DenseDemo.thy ===== *)
theory DenseDemo
  imports WeightMemory WeightStorageDemo
begin

text \<open>
  A model of one layer, its twelve tensors in two allocations, stored in INT4 and materialized on the driver with a memory:
  the concrete input of the witness of \<open>WeightMemory\<close>.  Names that refer to a quantized allocation never touch the
  driver, and rebuilding a weight graph does not depend on the order of the map.
\<close>

section \<open>The order of the named tensors does not matter\<close>

lemma take_matrix_same:
  assumes "map_of m = map_of k" "take_named_matrix m name r c = Ok (w, m')"
  shows "\<exists>k'. take_named_matrix k name r c = Ok (w, k') \<and> map_of m' = map_of k'"
  using assms by (auto simp: take_named_matrix_def remove_named_def AList.delete_conv split: if_split_asm)

lemma take_vector_same:
  assumes "map_of m = map_of k" "take_named_vector m name n = Ok (w, m')"
  shows "\<exists>k'. take_named_vector k name n = Ok (w, k') \<and> map_of m' = map_of k'"
  using assms by (auto simp: take_named_vector_def remove_named_def AList.delete_conv split: if_split_asm)

lemma take_layer_same:
  assumes "map_of m = map_of k" "take_layer c kv (ls, m) i = Ok (ls', m')"
  shows "\<exists>k'. take_layer c kv (ls, k) i = Ok (ls', k') \<and> map_of m' = map_of k'"
proof -
  obtain inorm m1 q m2 kp m3 v m4 po m5 post m6 gate m7 up m8 down where
    t: "take_named_vector m (layer_name i ''input_norm'') (mc_hidden_size c) = Ok (inorm, m1)"
       "take_named_matrix m1 (layer_name i ''q_proj'') (mc_hidden_size c) (mc_hidden_size c) = Ok (q, m2)"
       "take_named_matrix m2 (layer_name i ''k_proj'') (mc_hidden_size c) kv = Ok (kp, m3)"
       "take_named_matrix m3 (layer_name i ''v_proj'') (mc_hidden_size c) kv = Ok (v, m4)"
       "take_named_matrix m4 (layer_name i ''o_proj'') (mc_hidden_size c) (mc_hidden_size c) = Ok (po, m5)"
       "take_named_vector m5 (layer_name i ''post_attention_norm'') (mc_hidden_size c) = Ok (post, m6)"
       "take_named_matrix m6 (layer_name i ''gate_proj'') (mc_hidden_size c) (mc_intermediate_size c) = Ok (gate, m7)"
       "take_named_matrix m7 (layer_name i ''up_proj'') (mc_hidden_size c) (mc_intermediate_size c) = Ok (up, m8)"
       "take_named_matrix m8 (layer_name i ''down_proj'') (mc_intermediate_size c) (mc_hidden_size c) = Ok (down, m')"
    and ls': "ls' = ls @ [\<lparr>lw_input_norm = inorm, lw_q_proj = q, lw_k_proj = kp, lw_v_proj = v, lw_o_proj = po,
          lw_post_attention_norm = post, lw_gate_proj = gate, lw_up_proj = up, lw_down_proj = down\<rparr>]"
    using assms(2) by (auto simp: take_layer_def Let_def)
  from take_vector_same [OF assms(1) t(1)] obtain k1 where
    k1: "take_named_vector k (layer_name i ''input_norm'') (mc_hidden_size c) = Ok (inorm, k1)" "map_of m1 = map_of k1" by blast
  from take_matrix_same [OF k1(2) t(2)] obtain k2 where
    k2: "take_named_matrix k1 (layer_name i ''q_proj'') (mc_hidden_size c) (mc_hidden_size c) = Ok (q, k2)" "map_of m2 = map_of k2" by blast
  from take_matrix_same [OF k2(2) t(3)] obtain k3 where
    k3: "take_named_matrix k2 (layer_name i ''k_proj'') (mc_hidden_size c) kv = Ok (kp, k3)" "map_of m3 = map_of k3" by blast
  from take_matrix_same [OF k3(2) t(4)] obtain k4 where
    k4: "take_named_matrix k3 (layer_name i ''v_proj'') (mc_hidden_size c) kv = Ok (v, k4)" "map_of m4 = map_of k4" by blast
  from take_matrix_same [OF k4(2) t(5)] obtain k5 where
    k5: "take_named_matrix k4 (layer_name i ''o_proj'') (mc_hidden_size c) (mc_hidden_size c) = Ok (po, k5)" "map_of m5 = map_of k5" by blast
  from take_vector_same [OF k5(2) t(6)] obtain k6 where
    k6: "take_named_vector k5 (layer_name i ''post_attention_norm'') (mc_hidden_size c) = Ok (post, k6)" "map_of m6 = map_of k6" by blast
  from take_matrix_same [OF k6(2) t(7)] obtain k7 where
    k7: "take_named_matrix k6 (layer_name i ''gate_proj'') (mc_hidden_size c) (mc_intermediate_size c) = Ok (gate, k7)" "map_of m7 = map_of k7" by blast
  from take_matrix_same [OF k7(2) t(8)] obtain k8 where
    k8: "take_named_matrix k7 (layer_name i ''up_proj'') (mc_hidden_size c) (mc_intermediate_size c) = Ok (up, k8)" "map_of m8 = map_of k8" by blast
  from take_matrix_same [OF k8(2) t(9)] obtain k9 where
    k9: "take_named_matrix k8 (layer_name i ''down_proj'') (mc_intermediate_size c) (mc_hidden_size c) = Ok (down, k9)" "map_of m' = map_of k9" by blast
  show ?thesis
    unfolding take_layer_def prod.case Let_def k1(1) k2(1) k3(1) k4(1) k5(1) k6(1) k7(1) k8(1) k9(1) and_then_simps ls'
    using k9(2) by blast
qed

lemma take_layers_same:
  assumes "map_of m = map_of k" "for_each_res (take_layer c kv) (ls, m) is = Ok (ls', m')"
  shows "\<exists>k'. for_each_res (take_layer c kv) (ls, k) is = Ok (ls', k') \<and> map_of m' = map_of k'"
  using assms
proof (induction "is" arbitrary: ls m k)
  case (Cons i is')
  obtain ls1 m1 where one: "take_layer c kv (ls, m) i = Ok (ls1, m1)" and rest: "for_each_res (take_layer c kv) (ls1, m1) is' = Ok (ls', m')"
    using Cons.prems(2) by auto
  from take_layer_same [OF Cons.prems(1) one] obtain k1 where k1: "take_layer c kv (ls, k) i = Ok (ls1, k1)" "map_of m1 = map_of k1" by blast
  from Cons.IH [OF k1(2) rest] show ?case using k1(1) by auto
qed simp

lemma named_tensors_same:
  assumes "map_of m = map_of k" "from_named_logical_tensors c m = Ok w"
  shows "from_named_logical_tensors c k = Ok w"
proof -
  obtain kv embedding m1 layers m2 norm m3 head where
    t: "config_validate c = Ok ()" "key_value_width c = Ok kv"
       "take_named_matrix m (lit ''token_embedding'') (mc_vocab_size c) (mc_hidden_size c) = Ok (embedding, m1)"
       "for_each_res (take_layer c kv) ([], m1) [0..<mc_num_hidden_layers c] = Ok (layers, m2)"
       "take_named_vector m2 (lit ''final_norm'') (mc_hidden_size c) = Ok (norm, m3)"
       "take_named_matrix m3 (lit ''lm_head'') (mc_hidden_size c) (mc_vocab_size c) = Ok (head, [])"
    and w: "w = \<lparr>wt_token_embedding = embedding, wt_layers = layers, wt_final_norm = norm, wt_lm_head = head\<rparr>"
    and valid: "weights_validate c w = Ok ()"
    using assms(2) by (auto simp: from_named_logical_tensors_def Let_def split: if_split_asm)
  from take_matrix_same [OF assms(1) t(3)] obtain k1 where
    k1: "take_named_matrix k (lit ''token_embedding'') (mc_vocab_size c) (mc_hidden_size c) = Ok (embedding, k1)" "map_of m1 = map_of k1" by blast
  from take_layers_same [OF k1(2) t(4)] obtain k2 where
    k2: "for_each_res (take_layer c kv) ([], k1) [0..<mc_num_hidden_layers c] = Ok (layers, k2)" "map_of m2 = map_of k2" by blast
  from take_vector_same [OF k2(2) t(5)] obtain k3 where
    k3: "take_named_vector k2 (lit ''final_norm'') (mc_hidden_size c) = Ok (norm, k3)" "map_of m3 = map_of k3" by blast
  from take_matrix_same [OF k3(2) t(6)] obtain k4 where
    k4: "take_named_matrix k3 (lit ''lm_head'') (mc_hidden_size c) (mc_vocab_size c) = Ok (head, k4)" "map_of [] = map_of k4" by blast
  have "k4 = []" using k4(2) by (metis map_of.simps(1) map_of_eq_empty_iff)
  then show ?thesis
    unfolding from_named_logical_tensors_def t(1,2) and_then_simps k1(1) k2(1) k3(1) prod.case k4(1) Let_def
    using valid by (simp add: w)
qed

section \<open>Names of a quantized allocation\<close>

text \<open>What visiting a name of an allocation that is already stored does: it never touches the driver.\<close>

definition alias_step :: "'d storage_build \<Rightarrow> logical_tensor \<Rightarrow> 'd storage_build" where
  "alias_step sb = (\<lambda>(name, t, shape). let k = the (sb_indices sb (allocation_key t)); r = sb_records sb ! k; totals = sb_totals sb in
     sb\<lparr>sb_totals := totals\<lparr>st_tensor_references := st_tensor_references totals + 1,
            st_element_references := st_element_references totals + tensor_len t\<rparr>,
        sb_bindings := sb_bindings sb @ [(name, k, shape)],
        sb_records := (sb_records sb)[k := r\<lparr>ar_logical_names := ar_logical_names r @ [name]\<rparr>]\<rparr>)"

definition alias_fits :: "'d storage_build \<Rightarrow> logical_tensor \<Rightarrow> bool" where
  "alias_fits sb = (\<lambda>(name, t, shape). \<exists>b k. t = T_F32 b \<and> buf_ptr b \<noteq> 0 \<and> buf_len b \<noteq> 0 \<and> buf_len b * 4 < u64_lim \<and>
     element_count shape = Ok (buf_len b) \<and> sb_indices sb (buf_ptr b) = Some k \<and> k < length (sb_records sb) \<and>
     ar_logical_values (sb_records sb ! k) = buf_len b \<and> ar_source_bytes (sb_records sb ! k) = buf_len b * 4)"

lemma alias_visit:
  assumes "alias_fits sb (name, t, shape)" "name \<notin> fst ` set (sb_bindings sb)"
    and "st_tensor_references (sb_totals sb) + 1 < u64_lim" "st_element_references (sb_totals sb) + tensor_len t < u64_lim"
  shows "storage_visit drv ar cx ctx st sb (name, t, shape) s = (s, Ok (alias_step sb (name, t, shape)))"
proof -
  obtain b k where t: "t = T_F32 b" "buf_ptr b \<noteq> 0" "buf_len b \<noteq> 0" "buf_len b * 4 < u64_lim" "element_count shape = Ok (buf_len b)"
    and k: "sb_indices sb (buf_ptr b) = Some k" "k < length (sb_records sb)" "ar_logical_values (sb_records sb ! k) = buf_len b"
      "ar_source_bytes (sb_records sb ! k) = buf_len b * 4"
    using assms(1) by (auto simp: alias_fits_def)
  have n: "buf_len b < u64_lim" using t(4) by simp
  have fresh: "map_of (sb_bindings sb) name = None" using assms(2) by (simp add: map_of_eq_None_iff)
  show ?thesis
    using t k n fresh assms(3,4)
    by (simp add: storage_visit_def rt_bind_def or_release_def visit_checks_def tensor_len_def u64_of_usize_def count_up_def
        checked_add_def Let_def allocation_key_def visit_alias_def size_bytes_def insert_binding_def alias_step_def)
qed

lemma alias_step_keeps:
  assumes "alias_fits sb x"
  shows "sb_indices (alias_step sb x) = sb_indices sb" "sb_allocations (alias_step sb x) = sb_allocations sb"
    "map (\<lambda>r. r\<lparr>ar_logical_names := []\<rparr>) (sb_records (alias_step sb x)) = map (\<lambda>r. r\<lparr>ar_logical_names := []\<rparr>) (sb_records sb)"
    "alias_fits (alias_step sb x) y \<longleftrightarrow> alias_fits sb y"
    "sb_bindings (alias_step sb x) = sb_bindings sb @ [(fst x, the (sb_indices sb (allocation_key (fst (snd x)))), snd (snd x))]"
    "sb_totals (alias_step sb x) = (sb_totals sb)\<lparr>st_tensor_references := st_tensor_references (sb_totals sb) + 1,
       st_element_references := st_element_references (sb_totals sb) + tensor_len (fst (snd x))\<rparr>"
    "sb_max_abs_error (alias_step sb x) = sb_max_abs_error sb" "sb_squared_error (alias_step sb x) = sb_squared_error sb"
proof -
  obtain name t shape where x: "x = (name, t, shape)" by (cases x)
  let ?k = "the (sb_indices sb (allocation_key t))" and ?r = "sb_records sb ! the (sb_indices sb (allocation_key t))"
  have k: "?k < length (sb_records sb)" using assms by (auto simp: x alias_fits_def allocation_key_def)
  have records: "sb_records (alias_step sb x) = (sb_records sb)[?k := ?r\<lparr>ar_logical_names := ar_logical_names ?r @ [name]\<rparr>]"
    by (simp add: alias_step_def x Let_def)
  show same: "sb_indices (alias_step sb x) = sb_indices sb" and "sb_allocations (alias_step sb x) = sb_allocations sb"
    and "sb_bindings (alias_step sb x) = sb_bindings sb @ [(fst x, the (sb_indices sb (allocation_key (fst (snd x)))), snd (snd x))]"
    and "sb_totals (alias_step sb x) = (sb_totals sb)\<lparr>st_tensor_references := st_tensor_references (sb_totals sb) + 1,
       st_element_references := st_element_references (sb_totals sb) + tensor_len (fst (snd x))\<rparr>"
    and "sb_max_abs_error (alias_step sb x) = sb_max_abs_error sb" "sb_squared_error (alias_step sb x) = sb_squared_error sb"
    by (simp_all add: alias_step_def x Let_def)
  show "map (\<lambda>r. r\<lparr>ar_logical_names := []\<rparr>) (sb_records (alias_step sb x)) = map (\<lambda>r. r\<lparr>ar_logical_names := []\<rparr>) (sb_records sb)"
    unfolding records using k by (intro nth_equalityI) (auto simp: nth_list_update)
  have fields: "ar_logical_values (sb_records (alias_step sb x) ! j) = ar_logical_values (sb_records sb ! j)"
    "ar_source_bytes (sb_records (alias_step sb x) ! j) = ar_source_bytes (sb_records sb ! j)"
    "length (sb_records (alias_step sb x)) = length (sb_records sb)" for j
    unfolding records using k by (cases "j = ?k", simp_all)+
  show "alias_fits (alias_step sb x) y \<longleftrightarrow> alias_fits sb y" unfolding alias_fits_def same fields ..
qed

lemma alias_visits:
  assumes "\<forall>x \<in> set ts. alias_fits sb x" "distinct (map fst (sb_bindings sb) @ map fst ts)"
    and "st_tensor_references (sb_totals sb) + length ts < u64_lim"
    and "st_element_references (sb_totals sb) + sum_list (map (\<lambda>x. tensor_len (fst (snd x))) ts) < u64_lim"
  shows "storage_visit_all drv ar cx ctx st sb ts s = (s, Ok (foldl alias_step sb ts))"
  using assms
proof (induction ts arbitrary: sb)
  case (Cons x ts)
  obtain name t shape where x: "x = (name, t, shape)" by (cases x)
  have fits: "alias_fits sb x" using Cons.prems(1) by simp
  note keeps = alias_step_keeps [OF fits]
  have visit: "storage_visit drv ar cx ctx st sb x s = (s, Ok (alias_step sb x))"
    using alias_visit [of sb name t shape] fits Cons.prems(2-4) by (simp add: x)
  have "storage_visit_all drv ar cx ctx st (alias_step sb x) ts s = (s, Ok (foldl alias_step (alias_step sb x) ts))"
    by (rule Cons.IH) (use Cons.prems in \<open>simp_all add: keeps(4-6)\<close>)
  then show ?case by (simp add: rt_bind_def visit)
qed (simp add: rt_simps)

lemma aliases_keep:
  assumes "\<forall>x \<in> set ts. alias_fits sb x"
  shows "sb_indices (foldl alias_step sb ts) = sb_indices sb \<and> sb_allocations (foldl alias_step sb ts) = sb_allocations sb \<and>
    map (\<lambda>r. r\<lparr>ar_logical_names := []\<rparr>) (sb_records (foldl alias_step sb ts)) = map (\<lambda>r. r\<lparr>ar_logical_names := []\<rparr>) (sb_records sb) \<and>
    sb_bindings (foldl alias_step sb ts) = sb_bindings sb @ map (\<lambda>x. (fst x, the (sb_indices sb (allocation_key (fst (snd x)))), snd (snd x))) ts \<and>
    sb_totals (foldl alias_step sb ts) = (sb_totals sb)\<lparr>st_tensor_references := st_tensor_references (sb_totals sb) + length ts,
      st_element_references := st_element_references (sb_totals sb) + sum_list (map (\<lambda>x. tensor_len (fst (snd x))) ts)\<rparr>"
  using assms
proof (induction ts arbitrary: sb)
  case (Cons x ts)
  have fits: "alias_fits sb x" using Cons.prems by simp
  note keeps = alias_step_keeps [OF fits]
  have "\<forall>y \<in> set ts. alias_fits (alias_step sb x) y" using Cons.prems keeps(4) by simp
  from Cons.IH [OF this] show ?case by (simp add: keeps(1-3,5,6) add.assoc)
qed simp

lemma check_resident_strip: "check_resident cx pq (a, r\<lparr>ar_logical_names := names\<rparr>) = check_resident cx pq (a, r)"
proof -
  have fields: "ar_resident_payload (r\<lparr>ar_logical_names := names\<rparr>) = ar_resident_payload r"
    "ar_resident_scale (r\<lparr>ar_logical_names := names\<rparr>) = ar_resident_scale r"
    "ar_resident_total (r\<lparr>ar_logical_names := names\<rparr>) = ar_resident_total r" by simp_all
  show ?thesis unfolding check_resident_def by (cases pq) (simp only: prod.case fields)
qed

lemma residents_strip:
  "for_each_res (check_resident cx) pq (zip as rs) = for_each_res (check_resident cx) pq (zip as (map (\<lambda>r. r\<lparr>ar_logical_names := []\<rparr>) rs))"
proof (induction as rs arbitrary: pq rule: list_induct2')
  case (4 a as r rs)
  then show ?case by (simp add: check_resident_strip)
qed simp_all

section \<open>Two values and four values\<close>

definition int4_sample4 :: "nat quantized_tensor" where
  "int4_sample4 = \<lparr>qt_element_count = 4, qt_scale = f32_one, qt_packed = [0xF1, 0xF1], qt_max_abs_error = f32_zero, qt_mse = 0\<rparr>"

lemma sample4_bytes:
  "int4_put (int4_put (int4_put (int4_put [0, 0] 0 (int4_encode 1)) 1 (int4_encode (- 1))) 2 (int4_encode 1)) 3 (int4_encode (- 1)) = [0xF1, 0xF1]"
  "list_all (\<lambda>i. int4_nibble [0xF1, 0xF1] i \<noteq> 0x08) [0..<4]"
  by code_simp+

lemma int4_sample4_valid: "int4_validate first_arith int4_sample4 = Ok ()"
proof -
  have "validate_payload first_arith ''INT4'' 2 int4_sample4 = Ok ()"
    by (simp add: validate_payload_def int4_sample4_def unit_facts u64_lim_def checked_add_def)
  moreover have "check_all (\<lambda>i. if int4_nibble [0xF1, 0xF1] i = 0x08 then Err e else Ok ()) [0..<4] = Ok ()" for e :: nnis_error
    unfolding check_all_Ok_iff using sample4_bytes(2) by (simp only: list_all_iff) simp
  ultimately show ?thesis by (simp add: int4_validate_def int4_sample4_def)
qed

lemma int4_sample4_quantized: "int4_quantize first_arith [f32_one, minus_one, f32_one, minus_one] = Ok int4_sample4"
proof -
  have mx: "max_abs_of ''INT4'' [f32_one, minus_one, f32_one, minus_one] = Ok f32_one" by (simp add: max_abs_of_def unit_facts)
  have "int4_tensor first_arith f32_one 2 [f32_one, minus_one, f32_one, minus_one] = int4_sample4"
    using sample4_bytes(1)
    by (simp add: int4_tensor_def int4_step_def Let_def unit_levels account_error_def unit_facts int4_sample4_def numeral_2_eq_2 numeral_3_eq_3)
  then have "int4_tensor first_arith f32_one (Suc (Suc 0)) [f32_one, minus_one, f32_one, minus_one] = int4_sample4"
    by (simp only: numeral_2_eq_2)
  then show ?thesis
    using int4_sample4_valid by (simp add: int4_quantize_def mx unit_facts Let_def checked_add_def u64_lim_def)
qed

lemma int4_canonical_of:
  assumes "int4_validate first_arith q = Ok ()" "length (qt_packed q) < 1000"
  shows "\<exists>bs. int4_canonical_serialized_bytes first_arith q = Ok bs \<and> length bs = 16 + length (qt_packed q)"
  using assms
  by (simp add: int4_canonical_serialized_bytes_def canonical_bytes_def checked_add_def u64_lim_def
      NNIS_INT4_REFERENCE_SERIALIZED_HEADER_BYTES_def lit_def)

section \<open>The driver\<close>

abbreviation "demo_live \<equiv> set \<circ> snd :: demo_gpu \<Rightarrow> (nat \<times> nat) set"

lemma demo_store_ok: "store_driver demo_store_driver st demo_live fst"
proof -
  have "driver_ordered demo_store_driver st fst"
    using demo_gpu_ordered [of st] by (simp add: driver_ordered_def demo_store_driver_def)
  moreover have "driver_allocates demo_store_driver demo_live fst"
    using demo_gpu_allocates by (simp add: driver_allocates_def demo_store_driver_def)
  moreover have "driver_hosts demo_store_driver st demo_live"
    by (simp add: driver_hosts_def demo_store_driver_def split_beta)
  moreover have "driver_transfers demo_store_driver st fst"
  proof -
    have "0 < snd (snd (cu_mem_alloc demo_gpu_driver n g))" if "fst (snd (cu_mem_alloc demo_gpu_driver n g)) = 0" for n g
      using that foldr_max_base [of 256 "snd g"]
      by (auto simp: demo_gpu_driver_def demo_alloc_def Let_def split: prod.splits if_splits)
    then show ?thesis
      by (auto simp: driver_transfers_def demo_store_driver_def accepted_as_def split_beta)
        (auto simp: demo_gpu_driver_def split: prod.splits)
  qed
  ultimately show ?thesis by (simp add: store_driver_def)
qed

lemma demo_materialize:
  assumes "gpu s = (f, L)" and copy: "copy_of demo_live fst q a r s" and q: "int4_quantize first_arith xs = Ok q"
    and bufs: "buf_ptr (pa_packed a) \<noteq> 0" "buf_ptr (pa_scale a) \<noteq> 0" "buf_ctx (pa_packed a) = 7" "buf_ctx (pa_scale a) = 7"
    and small: "length (qt_packed q) < 1000" "length xs < 1000" "xs \<noteq> []" "next_address L + 5000 < u64_lim"
  shows "\<exists>g h. materialize_one demo_store_driver demo_codec demo_stream a r s =
    (s\<lparr>gpu := (g, (next_address L, length xs * 4) # L)\<rparr>, Ok (\<lparr>buf_ptr = next_address L, buf_len = length xs, buf_ctx = 7\<rparr>, h))"
proof -
  have st: "stream_ctx demo_stream = 7" by (simp add: demo_stream_def)
  have limits: "k < u64_lim" if "k < 20000" for k using that by (simp add: u64_lim_def)
  have held: "read_bytes (buf_ptr (pa_packed a)) (size_bytes 1 (pa_packed a)) f = qt_packed q"
    "read_bytes (buf_ptr (pa_scale a)) (size_bytes 4 (pa_scale a)) f = f32_bytes (qt_scale q)"
    and fields: "q = \<lparr>qt_element_count = ar_logical_values r, qt_scale = ar_scale r, qt_packed = qt_packed q,
          qt_max_abs_error = ar_max_abs_error r, qt_mse = ar_mse r\<rparr>"
    using copy assms(1) by (simp_all add: copy_of_def stored_def)
  have read1: "buffer_to_vec demo_store_driver 1 (pa_packed a) demo_stream s = (s, Ok (qt_packed q))"
    using demo_store_to_vec [of "pa_packed a" demo_stream s f L 1] bufs assms(1) st held by simp
  have read2: "buffer_to_vec demo_store_driver 4 (pa_scale a) demo_stream s = (s, Ok (f32_bytes (qt_scale q)))"
    using demo_store_to_vec [of "pa_scale a" demo_stream s f L 4] bufs assms(1) st held by simp
  have one: "f32s_of_bytes (f32_bytes x) = [x]" for x using f32s_of_f32_bytes [of "[x]"] by simp
  have scale: "qt_scale q = ar_scale r" by (subst fields) simp
  obtain ys where ys: "int4_dequantize first_arith q = Ok ys" "length ys = length xs" using int4_read_back [OF q] by simp
  then have deq: "int4_dequantize first_arith \<lparr>qt_element_count = ar_logical_values r, qt_scale = ar_scale r, qt_packed = qt_packed q,
          qt_max_abs_error = ar_max_abs_error r, qt_mse = ar_mse r\<rparr> = Ok ys"
    using fields by simp
  have sums: "\<exists>h. checked_host_payload_bytes [length (qt_packed q), 4, length xs * 4] = Ok h"
    using small limits by (simp add: checked_host_payload_bytes_def checked_add_def)
  then obtain h where h: "checked_host_payload_bytes [length (qt_packed q), 4, length xs * 4] = Ok h" by blast
  have up: "device_buffer_from_host demo_store_driver 4 7 demo_stream (map f32_bytes ys) s =
      (s\<lparr>gpu := (write_bytes (next_address L) (concat (map f32_bytes ys)) f, (next_address L, length xs * 4) # L)\<rparr>,
       Ok \<lparr>buf_ptr = next_address L, buf_len = length xs, buf_ctx = 7\<rparr>)"
    using demo_store_from_host [of s f L "map f32_bytes ys" 4 7 demo_stream] assms(1) small st ys(2) by simp
  have nums: "u64_of_usize (length (qt_packed q)) = Some (length (qt_packed q))" "u64_of_usize (Suc 0) = Some (Suc 0)"
    "checked_mul (Suc 0) 4 = Some 4" "u64_of_usize (length xs) = Some (length xs)" "checked_mul (length xs) 4 = Some (length xs * 4)"
    using small limits by (simp_all add: u64_of_usize_def checked_mul_def)
  show ?thesis
    unfolding materialize_one_def rt_bind_def read1 read2 prod.case sum.case demo_codec_sel Let_def one st
    by (simp add: nums h up read2 one ys(2) deq scale del: map_map) (rule exI, rule refl)
qed

section \<open>A model of one layer in two allocations\<close>

lemma dense_tensors_ok:
  assumes "distinct (map fst bs)" "\<forall>(n, k, sh) \<in> set bs. k < length dense"
  shows "\<exists>logical. dense_tensors cx dense bs = Ok logical \<and> map_of logical = map_of (map (\<lambda>(n, k, sh). (n, sh, T_F32 (dense ! k))) bs)"
proof -
  let ?f = "\<lambda>(n, k, sh). (n, sh, T_F32 (dense ! k))"
  let ?step = "\<lambda>logical (name, index, shape).
         if length dense \<le> index then Err (codec_error cx ''dense logical binding references a missing allocation'')
         else if map_of logical name \<noteq> None then
           Err (invalid_input (lit (''duplicate '' @ cx_label cx @ '' dense logical binding '') @ name))
         else Ok (logical @ [(name, shape, T_F32 (dense ! index))])"
  have run: "for_each_res ?step acc cs = Ok (acc @ map ?f cs)"
    if "distinct (map fst acc @ map fst cs)" "\<forall>(n, k, sh) \<in> set cs. k < length dense" for acc cs
    using that
  proof (induction cs arbitrary: acc)
    case (Cons c cs)
    obtain n k sh where c: "c = (n, k, sh)" by (cases c)
    have "map_of acc n = None" using Cons.prems(1) by (simp add: c map_of_eq_None_iff)
    moreover have "k < length dense" using Cons.prems(2) by (simp add: c)
    moreover have "for_each_res ?step (acc @ [(n, sh, T_F32 (dense ! k))]) cs = Ok ((acc @ [(n, sh, T_F32 (dense ! k))]) @ map ?f cs)"
      by (rule Cons.IH) (use Cons.prems in \<open>auto simp: c\<close>)
    ultimately show ?case by (simp add: c)
  qed simp
  have fst: "map fst (map ?f cs) = map fst cs" for cs by (simp add: case_prod_unfold comp_def)
  have sorted: "distinct (map fst (sort_key fst bs))" using assms(1) by (metis distinct_map distinct_sort inj_on_cong set_sort)
  have "dense_tensors cx dense bs = Ok (map ?f (sort_key fst bs))"
    using run [of "[]" "sort_key fst bs"] sorted assms(2) by (simp add: dense_tensors_def)
  moreover have "map_of (map ?f (sort_key fst bs)) = map_of (map ?f bs)"
    by (subst map_of_inject_set) (use sorted assms(1) in \<open>simp_all only: fst\<close>, simp)
  ultimately show ?thesis by blast
qed

definition paired :: "device_buffer \<Rightarrow> device_buffer \<Rightarrow> model_weights" where
  "paired p q =
     (let square = \<lparr>mw_tensor = T_F32 p, mw_rows = 2, mw_cols = 2\<rparr>; column = \<lparr>mw_tensor = T_F32 q, mw_rows = 2, mw_cols = 1\<rparr>;
          row = \<lparr>mw_tensor = T_F32 q, mw_rows = 1, mw_cols = 2\<rparr>; norm = \<lparr>vw_tensor = T_F32 q, vw_len = 2\<rparr>
      in \<lparr>wt_token_embedding = square,
          wt_layers = [\<lparr>lw_input_norm = norm, lw_q_proj = square, lw_k_proj = square, lw_v_proj = square, lw_o_proj = square,
            lw_post_attention_norm = norm, lw_gate_proj = column, lw_up_proj = column, lw_down_proj = row\<rparr>],
          wt_final_norm = norm, wt_lm_head = square\<rparr>)"

definition pair_entries :: "device_tensor \<Rightarrow> device_tensor \<Rightarrow> logical_tensor list" where
  "pair_entries p q =
     [(layer_name 0 ''q_proj'', p, Matrix_shape 2 2), (layer_name 0 ''k_proj'', p, Matrix_shape 2 2),
      (layer_name 0 ''v_proj'', p, Matrix_shape 2 2), (layer_name 0 ''o_proj'', p, Matrix_shape 2 2),
      (layer_name 0 ''post_attention_norm'', q, Vector_shape 2), (layer_name 0 ''gate_proj'', q, Matrix_shape 2 1),
      (layer_name 0 ''up_proj'', q, Matrix_shape 2 1), (layer_name 0 ''down_proj'', q, Matrix_shape 1 2),
      (lit ''final_norm'', q, Vector_shape 2), (lit ''lm_head'', p, Matrix_shape 2 2)]"

lemma paired_tensors:
  "logical_tensors (paired p q) = (lit ''token_embedding'', T_F32 p, Matrix_shape 2 2) # (layer_name 0 ''input_norm'', T_F32 q, Vector_shape 2) #
     pair_entries (T_F32 p) (T_F32 q)"
  by (simp add: logical_tensors_def paired_def matrix_entry_def vector_entry_def layer_tensors_def pair_entries_def Let_def)

lemma paired_names: "distinct (map fst ((lit ''token_embedding'', x, y) # (layer_name 0 ''input_norm'', x', y') # pair_entries p q))"
  by (simp add: pair_entries_def lit_eq_iff layer_name_eq layer_name_outer layer_name_outer [symmetric])

lemma paired_valid:
  assumes "buf_len p = 4" "buf_len q = 2" "buf_ctx p = buf_ctx q"
  shows "weights_validate demo_config (paired p q) = Ok ()" "weights_built (paired p q)"
proof -
  have outer: "check_all expect_shape (outer_expectations demo_config (paired p q)) = Ok ()"
    unfolding check_all_Ok_iff by (simp add: paired_def demo_config_def outer_expectations_def Let_def)
  have inner: "check_all expect_shape (concat (map (layer_expectations demo_config 2) (enumerate 0 (wt_layers (paired p q))))) = Ok ()"
    unfolding check_all_Ok_iff by (simp add: paired_def demo_config_def layer_expectations_def Let_def)
  have tensors: "for_each_logical_tensor (\<lambda>(name, t, _). check_tensor ''config'' (mc_weight_dtype demo_config) (weights_context (paired p q)) name t)
      (paired p q) = Ok ()"
    using assms unfolding for_each_logical_tensor_def check_all_Ok_iff paired_tensors pair_entries_def
    by (simp add: paired_def demo_config_def check_tensor_def weights_context_def tensor_context_def Let_def)
  have layers: "length (wt_layers (paired p q)) = mc_num_hidden_layers demo_config" by (simp add: paired_def demo_config_def Let_def)
  show "weights_validate demo_config (paired p q) = Ok ()"
    unfolding weights_validate_def demo_config_valid demo_kv_width and_then_simps outer inner tensors using layers by simp
  show "weights_built (paired p q)"
    using assms by (simp add: weights_built_def layer_built_def matrix_built_def vector_built_def matrix_weight_new_def
        vector_weight_new_def paired_def Let_def tensor_len_def checked_mul_def u64_lim_def)
qed

definition pair_p :: device_buffer where "pair_p = \<lparr>buf_ptr = 4096, buf_len = 4, buf_ctx = 7\<rparr>"
definition pair_q :: device_buffer where "pair_q = \<lparr>buf_ptr = 8192, buf_len = 2, buf_ctx = 7\<rparr>"

lemma pair_summary:
  "\<exists>gs. weight_allocation_summary (paired pair_p pair_q) = Ok
     \<lparr>as_schema_version = 1, as_logical_tensor_references = 12, as_logical_element_references = 36,
      as_unique_device_allocations = 2, as_unique_device_elements = 6, as_owned_device_allocation_bytes = 24, as_segments = gs\<rparr>"
  by (simp add: weight_allocation_summary_def paired_tensors pair_entries_def pair_p_def pair_q_def observe_tensor_def
      tensor_len_def size_bytes_def allocation_key_def u64_of_usize_def u64_lim_def summarize_weight_allocations_def
      observe_allocation_def summary_start_def count_up_def checked_add_def u32_of_usize_def u32_lim_def segment_agrees_def Let_def
      NNIS_WEIGHT_ALLOCATION_SUMMARY_VERSION_def)


section \<open>Storing it\<close>

lemma finish_storage_run:
  assumes "st_unique_values (sb_totals sb) \<noteq> 0" "length (sb_allocations sb) < u64_lim" "\<not> source_disagrees src sb (length (sb_allocations sb))"
    and "st_tensor_references (sb_totals sb) < u64_lim" "length (sb_bindings sb) = st_tensor_references (sb_totals sb)"
    and "length (sb_allocations sb) = length (sb_records sb)"
    and "for_each_res (check_resident cx) (0, 0) (zip (sb_allocations sb) (sb_records sb)) =
      Ok (st_resident_payload (sb_totals sb), st_resident_scale (sb_totals sb))"
    and "checked_add (st_resident_payload (sb_totals sb)) (st_resident_scale (sb_totals sb)) = Some (st_resident_bytes (sb_totals sb))"
  shows "\<exists>m. finish_storage ar cx src sb = Ok m \<and> ms_allocations m = sb_allocations sb \<and> ms_bindings m = sb_bindings sb \<and>
    sm_allocations (ms_summary m) = sb_records sb \<and> validate_resident_allocations cx m = Ok ()"
proof -
  let ?m = "\<lparr>ms_allocations = sb_allocations sb, ms_bindings = sb_bindings sb, ms_summary = storage_summary_of ar cx src sb\<rparr>"
  have valid: "validate_resident_allocations cx ?m = Ok ()"
    using assms by (simp add: validate_resident_allocations_def storage_summary_of_def Let_def usize_of_u64_def)
  have "finish_storage ar cx src sb = Ok ?m"
    using assms(1-3) valid by (simp add: finish_storage_def u64_of_usize_def Let_def source_disagrees_def)
  then show ?thesis using valid by (simp add: storage_summary_of_def Let_def)
qed

definition pair_memory :: "nat \<Rightarrow> u8" where
  "pair_memory = write_bytes 8192 (concat (map f32_bytes [f32_one, minus_one]))
     (write_bytes 4096 (concat (map f32_bytes [f32_one, minus_one, f32_one, minus_one])) (\<lambda>_. 0))"

definition pair_rt :: "demo_gpu rt" where
  "pair_rt = \<lparr>gpu = (pair_memory, [(8192, 8), (4096, 16)]), forgotten = []\<rparr>"

lemma pair_reads:
  "read_bytes 4096 16 pair_memory = concat (map f32_bytes [f32_one, minus_one, f32_one, minus_one])"
  "read_bytes 8192 8 pair_memory = concat (map f32_bytes [f32_one, minus_one])"
proof -
  have keep: "read_bytes 4096 16 (write_bytes 8192 bs f) = read_bytes 4096 16 f" for bs f
    by (simp add: read_bytes_def write_bytes_def)
  show "read_bytes 4096 16 pair_memory = concat (map f32_bytes [f32_one, minus_one, f32_one, minus_one])"
    unfolding pair_memory_def keep by (subst read_write_bytes) simp_all
  show "read_bytes 8192 8 pair_memory = concat (map f32_bytes [f32_one, minus_one])"
    unfolding pair_memory_def by (subst read_write_bytes) simp_all
qed

text \<open>The first two tensors, one per allocation.\<close>

definition pair_build1 :: "nat storage_build" where
  "pair_build1 =
     \<lparr>sb_indices = [4096 \<mapsto> 0], sb_allocations = [demo_stored 8200 int4_sample4],
      sb_bindings = [(lit ''token_embedding'', 0, Matrix_shape 2 2)], sb_records = [demo_record 0 (lit ''token_embedding'') int4_sample4],
      sb_totals = \<lparr>st_tensor_references = 1, st_element_references = 4, st_unique_values = 4, st_source_bytes = 16,
        st_header_bytes = 16, st_payload_bytes = 2, st_serialized_bytes = 18, st_resident_payload = 2, st_resident_scale = 4,
        st_resident_bytes = 6\<rparr>,
      sb_max_abs_error = f32_max f32_zero f32_zero, sb_squared_error = 0\<rparr>"

definition pair_build :: "nat storage_build" where
  "pair_build =
     \<lparr>sb_indices = [4096 \<mapsto> 0, 8192 \<mapsto> 1], sb_allocations = [demo_stored 8200 int4_sample4, demo_stored 8206 int4_sample],
      sb_bindings = [(lit ''token_embedding'', 0, Matrix_shape 2 2), (layer_name 0 ''input_norm'', 1, Vector_shape 2)],
      sb_records = [demo_record 0 (lit ''token_embedding'') int4_sample4, demo_record 1 (layer_name 0 ''input_norm'') int4_sample],
      sb_totals = \<lparr>st_tensor_references = 2, st_element_references = 6, st_unique_values = 6, st_source_bytes = 24,
        st_header_bytes = 32, st_payload_bytes = 3, st_serialized_bytes = 35, st_resident_payload = 3, st_resident_scale = 8,
        st_resident_bytes = 11\<rparr>,
      sb_max_abs_error = f32_max (f32_max f32_zero f32_zero) f32_zero, sb_squared_error = 0\<rparr>"

lemma pair_fields:
  "qt_packed int4_sample4 = [0xF1, 0xF1]" "qt_scale int4_sample4 = f32_one" "qt_element_count int4_sample4 = 4"
  "qt_max_abs_error int4_sample4 = f32_zero" "qt_mse int4_sample4 = 0"
  "qt_packed int4_sample = [0xF1]" "qt_scale int4_sample = f32_one" "qt_element_count int4_sample = 2"
  "qt_max_abs_error int4_sample = f32_zero" "qt_mse int4_sample = 0"
  by (simp_all add: int4_sample4_def int4_sample_def)

lemma pair_buffers:
  "buf_ptr pair_p = 4096" "buf_len pair_p = 4" "buf_ctx pair_p = 7" "buf_ptr pair_q = 8192" "buf_len pair_q = 2" "buf_ctx pair_q = 7"
  by (simp_all add: pair_p_def pair_q_def)

lemma pair_visit1:
  "\<exists>f s. storage_visit demo_store_driver nat_arith64 demo_codec 7 demo_stream (storage_start nat_arith64)
      (lit ''token_embedding'', T_F32 pair_p, Matrix_shape 2 2) pair_rt = (s, Ok pair_build1) \<and>
    gpu s = (f, [(8202, 4), (8200, 2), (8192, 8), (4096, 16)]) \<and>
    read_bytes 8192 8 f = concat (map f32_bytes [f32_one, minus_one])"
proof -
  let ?L = "[(8192, 8), (4096, 16)] :: (nat \<times> nat) list"
  obtain bs where canonical: "int4_canonical_serialized_bytes first_arith int4_sample4 = Ok bs" "length bs = 16 + length (qt_packed int4_sample4)"
    using int4_canonical_of [OF int4_sample4_valid] by (auto simp: pair_fields)
  have L: "next_address ?L = 8200" by (simp add: next_address_def)
  have fresh: "fresh_allocation demo_store_driver demo_codec 7 demo_stream 0 (lit ''token_embedding'') (T_F32 pair_p)
      (length [f32_one, minus_one, f32_one, minus_one]) pair_rt =
      (pair_rt\<lparr>gpu := demo_gpu_after (next_address ?L) int4_sample4 pair_memory ?L\<rparr>,
       Ok (demo_stored (next_address ?L) int4_sample4, demo_record 0 (lit ''token_embedding'') int4_sample4))"
    by (rule demo_fresh [OF _ _ _ _ _ int4_sample4_quantized _ _ _ _ _ canonical])
      (use pair_reads(1) in \<open>simp_all add: pair_rt_def pair_buffers pair_fields L u64_lim_def u32_lim_def\<close>)
  have len: "length [f32_one, minus_one, f32_one, minus_one] = 4" by simp
  note fresh' = fresh [unfolded len L]
  let ?s = "pair_rt\<lparr>gpu := demo_gpu_after 8200 int4_sample4 pair_memory ?L\<rparr>"
  have run: "storage_visit demo_store_driver nat_arith64 demo_codec 7 demo_stream (storage_start nat_arith64)
      (lit ''token_embedding'', T_F32 pair_p, Matrix_shape 2 2) pair_rt = (?s, Ok pair_build1)"
    by (simp add: fresh' storage_visit_def rt_bind_def or_release_def visit_checks_def storage_start_def tensor_len_def u64_of_usize_def
        checked_mul_def u64_lim_def count_up_def checked_add_def Let_def allocation_key_def record_allocation_def
        insert_binding_def add_totals_def demo_record_def pair_fields pair_build1_def pair_buffers)
  have "read_bytes 8192 8 (write_bytes 8202 (f32_bytes f32_one) (write_bytes 8200 [0xF1, 0xF1] pair_memory)) = read_bytes 8192 8 pair_memory"
    by (rule read_bytes_cong) (simp add: write_bytes_def)
  then show ?thesis using run by (intro exI [of _ ?s] exI conjI) (simp_all add: demo_gpu_after_def pair_fields pair_reads)
qed


lemma pair_visit2:
  assumes "gpu s = (f, [(8202, 4), (8200, 2), (8192, 8), (4096, 16)])" "read_bytes 8192 8 f = concat (map f32_bytes [f32_one, minus_one])"
  shows "\<exists>g t. storage_visit demo_store_driver nat_arith64 demo_codec 7 demo_stream pair_build1
      (layer_name 0 ''input_norm'', T_F32 pair_q, Vector_shape 2) s = (t, Ok pair_build) \<and>
    gpu t = (g, [(8207, 4), (8206, 1), (8202, 4), (8200, 2), (8192, 8), (4096, 16)])"
proof -
  let ?L = "[(8202, 4), (8200, 2), (8192, 8), (4096, 16)] :: (nat \<times> nat) list"
  obtain bs where canonical: "int4_canonical_serialized_bytes first_arith int4_sample = Ok bs" "length bs = 16 + length (qt_packed int4_sample)"
    using int4_canonical_of [OF int4_sample_valid] by (auto simp: pair_fields)
  have L: "next_address ?L = 8206" by (simp add: next_address_def)
  have fresh: "fresh_allocation demo_store_driver demo_codec 7 demo_stream 1 (layer_name 0 ''input_norm'') (T_F32 pair_q)
      (length [f32_one, minus_one]) s =
      (s\<lparr>gpu := demo_gpu_after (next_address ?L) int4_sample f ?L\<rparr>,
       Ok (demo_stored (next_address ?L) int4_sample, demo_record 1 (layer_name 0 ''input_norm'') int4_sample))"
    by (rule demo_fresh [OF assms(1) _ _ _ _ int4_sample_quantized _ _ _ _ _ canonical])
      (use assms(2) in \<open>simp_all add: pair_buffers pair_fields L u64_lim_def u32_lim_def\<close>)
  have len: "length [f32_one, minus_one] = 2" by simp
  note fresh' = fresh [unfolded len L One_nat_def]
  have name: "lit ''token_embedding'' \<noteq> layer_name 0 ''input_norm''" by (simp add: layer_name_outer [symmetric])
  let ?t = "s\<lparr>gpu := demo_gpu_after 8206 int4_sample f ?L\<rparr>"
  have "storage_visit demo_store_driver nat_arith64 demo_codec 7 demo_stream pair_build1
      (layer_name 0 ''input_norm'', T_F32 pair_q, Vector_shape 2) s = (?t, Ok pair_build)"
    using name
    by (simp add: fresh' storage_visit_def rt_bind_def or_release_def visit_checks_def tensor_len_def u64_of_usize_def
        checked_mul_def u64_lim_def count_up_def checked_add_def Let_def allocation_key_def record_allocation_def
        insert_binding_def add_totals_def demo_record_def pair_fields pair_build1_def pair_build_def pair_buffers)
  then show ?thesis by (intro exI [of _ ?t] exI conjI) (simp_all add: demo_gpu_after_def pair_fields)
qed


definition pair_bindings :: bindings where
  "pair_bindings = (lit ''token_embedding'', 0, Matrix_shape 2 2) # (layer_name 0 ''input_norm'', 1, Vector_shape 2) #
     [(layer_name 0 ''q_proj'', 0, Matrix_shape 2 2), (layer_name 0 ''k_proj'', 0, Matrix_shape 2 2),
      (layer_name 0 ''v_proj'', 0, Matrix_shape 2 2), (layer_name 0 ''o_proj'', 0, Matrix_shape 2 2),
      (layer_name 0 ''post_attention_norm'', 1, Vector_shape 2), (layer_name 0 ''gate_proj'', 1, Matrix_shape 2 1),
      (layer_name 0 ''up_proj'', 1, Matrix_shape 2 1), (layer_name 0 ''down_proj'', 1, Matrix_shape 1 2),
      (lit ''final_norm'', 1, Vector_shape 2), (lit ''lm_head'', 0, Matrix_shape 2 2)]"

lemma pair_aliases:
  defines "sb \<equiv> foldl alias_step pair_build (pair_entries (T_F32 pair_p) (T_F32 pair_q))"
  shows "storage_visit_all drv ar cx ctx st pair_build (pair_entries (T_F32 pair_p) (T_F32 pair_q)) s = (s, Ok sb)"
    and "sb_allocations sb = [demo_stored 8200 int4_sample4, demo_stored 8206 int4_sample]" and "sb_bindings sb = pair_bindings"
    and "map (\<lambda>r. r\<lparr>ar_logical_names := []\<rparr>) (sb_records sb) =
      map (\<lambda>r. r\<lparr>ar_logical_names := []\<rparr>) [demo_record 0 (lit ''token_embedding'') int4_sample4, demo_record 1 (layer_name 0 ''input_norm'') int4_sample]"
    and "sb_totals sb = (sb_totals pair_build)\<lparr>st_tensor_references := 12, st_element_references := 36\<rparr>"
proof -
  let ?ts = "pair_entries (T_F32 pair_p) (T_F32 pair_q)"
  have fits: "\<forall>x \<in> set ?ts. alias_fits pair_build x"
    by (simp add: pair_entries_def alias_fits_def pair_buffers pair_build_def demo_record_def pair_fields u64_lim_def checked_mul_def)
  have names: "distinct (map fst (sb_bindings pair_build) @ map fst ?ts)"
    using paired_names [of _ _ _ _ "T_F32 pair_p" "T_F32 pair_q"] by (simp add: pair_build_def)
  have sums: "length ?ts = 10" "sum_list (map (\<lambda>x. tensor_len (fst (snd x))) ?ts) = 30"
    by (simp_all add: pair_entries_def tensor_len_def pair_buffers)
  show "storage_visit_all drv ar cx ctx st pair_build ?ts s = (s, Ok sb)"
    unfolding sb_def by (rule alias_visits [OF fits names]) (simp_all add: sums, simp_all add: pair_build_def u64_lim_def)
  note keep = aliases_keep [OF fits, folded sb_def]
  show "sb_allocations sb = [demo_stored 8200 int4_sample4, demo_stored 8206 int4_sample]" using keep by (simp add: pair_build_def)
  show "sb_bindings sb = pair_bindings"
    using keep by (simp add: pair_build_def pair_entries_def pair_bindings_def allocation_key_def pair_buffers)
  show "map (\<lambda>r. r\<lparr>ar_logical_names := []\<rparr>) (sb_records sb) =
      map (\<lambda>r. r\<lparr>ar_logical_names := []\<rparr>) [demo_record 0 (lit ''token_embedding'') int4_sample4, demo_record 1 (layer_name 0 ''input_norm'') int4_sample]"
    using keep by (simp add: pair_build_def)
  show "sb_totals sb = (sb_totals pair_build)\<lparr>st_tensor_references := 12, st_element_references := 36\<rparr>"
    using keep by (simp add: sums, simp add: pair_build_def)
qed

lemma pair_stored:
  "\<exists>f s m. storage_from_weights demo_store_driver nat_arith64 demo_codec (paired pair_p pair_q) demo_stream pair_rt = (s, Ok m) \<and>
    gpu s = (f, [(8207, 4), (8206, 1), (8202, 4), (8200, 2), (8192, 8), (4096, 16)]) \<and>
    ms_allocations m = [demo_stored 8200 int4_sample4, demo_stored 8206 int4_sample] \<and> ms_bindings m = pair_bindings \<and>
    map ar_logical_values (sm_allocations (ms_summary m)) = [4, 2] \<and> validate_resident_allocations demo_codec m = Ok ()"
proof -
  obtain gs where src: "weight_allocation_summary (paired pair_p pair_q) = Ok
     \<lparr>as_schema_version = 1, as_logical_tensor_references = 12, as_logical_element_references = 36,
      as_unique_device_allocations = 2, as_unique_device_elements = 6, as_owned_device_allocation_bytes = 24, as_segments = gs\<rparr>"
    using pair_summary by blast
  obtain f1 s1 where v1: "storage_visit demo_store_driver nat_arith64 demo_codec 7 demo_stream (storage_start nat_arith64)
      (lit ''token_embedding'', T_F32 pair_p, Matrix_shape 2 2) pair_rt = (s1, Ok pair_build1)"
    and g1: "gpu s1 = (f1, [(8202, 4), (8200, 2), (8192, 8), (4096, 16)])" "read_bytes 8192 8 f1 = concat (map f32_bytes [f32_one, minus_one])"
    using pair_visit1 by blast
  obtain f2 s2 where v2: "storage_visit demo_store_driver nat_arith64 demo_codec 7 demo_stream pair_build1
      (layer_name 0 ''input_norm'', T_F32 pair_q, Vector_shape 2) s1 = (s2, Ok pair_build)"
    and g2: "gpu s2 = (f2, [(8207, 4), (8206, 1), (8202, 4), (8200, 2), (8192, 8), (4096, 16)])"
    using pair_visit2 [OF g1] by blast
  define sb where "sb = foldl alias_step pair_build (pair_entries (T_F32 pair_p) (T_F32 pair_q))"
  note A = pair_aliases [folded sb_def]
  have owner: "weights_context (paired pair_p pair_q) = 7" by (simp add: weights_context_def paired_def tensor_context_def pair_buffers Let_def)
  have all: "storage_visit_all demo_store_driver nat_arith64 demo_codec 7 demo_stream (storage_start nat_arith64)
      (logical_tensors (paired pair_p pair_q)) pair_rt = (s2, Ok sb)"
    unfolding paired_tensors storage_visit_all.simps rt_bind_def v1 v2 prod.case sum.case by (rule A(1))
  have two: "length (sb_records sb) = 2" using arg_cong [OF A(4), of length] by simp
  have totals: "st_unique_values (sb_totals sb) = 6" "st_tensor_references (sb_totals sb) = 12" "st_element_references (sb_totals sb) = 36"
    "st_source_bytes (sb_totals sb) = 24" "st_resident_payload (sb_totals sb) = 3" "st_resident_scale (sb_totals sb) = 8"
    "st_resident_bytes (sb_totals sb) = 11"
    by (simp_all add: A(5) pair_build_def)
  have resident: "for_each_res (check_resident demo_codec) (0, 0) (zip (sb_allocations sb) (sb_records sb)) = Ok (3, 8)"
    unfolding residents_strip [of _ _ _ "sb_records sb"] A(2) A(4)
    by (simp add: check_resident_strip, simp add: check_resident_def demo_stored_def demo_record_def pair_fields size_bytes_def u64_of_usize_def u64_lim_def checked_add_def
        count_up_def)
  obtain m where m: "finish_storage nat_arith64 demo_codec \<lparr>as_schema_version = 1, as_logical_tensor_references = 12,
        as_logical_element_references = 36, as_unique_device_allocations = 2, as_unique_device_elements = 6,
        as_owned_device_allocation_bytes = 24, as_segments = gs\<rparr> sb = Ok m" "ms_allocations m = sb_allocations sb" "ms_bindings m = sb_bindings sb"
      "sm_allocations (ms_summary m) = sb_records sb" "validate_resident_allocations demo_codec m = Ok ()"
    using finish_storage_run [of sb "\<lparr>as_schema_version = 1, as_logical_tensor_references = 12,
        as_logical_element_references = 36, as_unique_device_allocations = 2, as_unique_device_elements = 6,
        as_owned_device_allocation_bytes = 24, as_segments = gs\<rparr>" demo_codec nat_arith64] resident two
    by (simp add: totals A(2,3) source_disagrees_def u64_lim_def checked_add_def pair_bindings_def) blast
  have run: "storage_from_weights demo_store_driver nat_arith64 demo_codec (paired pair_p pair_q) demo_stream pair_rt = (s2, Ok m)"
    by (simp add: storage_from_weights_def rt_bind_def or_release_def owner src all m(1) [unfolded One_nat_def] demo_store_sel)
  have "map ar_logical_values (sb_records sb) = map (ar_logical_values \<circ> (\<lambda>r. r\<lparr>ar_logical_names := []\<rparr>)) (sb_records sb)" by simp
  also have "\<dots> = [4, 2]" unfolding map_map [symmetric] A(4) by (simp add: demo_record_def pair_fields)
  finally show ?thesis using run g2 m by (auto simp: A)
qed


section \<open>Materializing it\<close>

lemma pair_live: "live_ok (demo_live (gpu pair_rt))" "\<forall>x \<in> set (logical_tensors (paired pair_p pair_q)). region 4 (tensor_buffer (fst (snd x))) \<in> demo_live (gpu pair_rt)"
proof -
  show "live_ok (demo_live (gpu pair_rt))"
    by (simp add: pair_rt_def live_ok_def disjoint_from_def ranges_disjoint_def u64_lim_def)
  show "\<forall>x \<in> set (logical_tensors (paired pair_p pair_q)). region 4 (tensor_buffer (fst (snd x))) \<in> demo_live (gpu pair_rt)"
    unfolding paired_tensors by (simp add: pair_entries_def region_def pair_buffers pair_rt_def)
qed

lemma paired_rebuilt:
  assumes "buf_len p = 4" "buf_len q = 2" "buf_ctx p = buf_ctx q"
  shows "\<exists>logical. dense_tensors cx [p, q] pair_bindings = Ok logical \<and> from_named_logical_tensors demo_config logical = Ok (paired p q)"
proof -
  have same: "map (\<lambda>(n, k, sh). (n, sh, T_F32 ([p, q] ! k))) pair_bindings = map (\<lambda>(name, t, shape). (name, shape, t)) (logical_tensors (paired p q))"
    unfolding paired_tensors by (simp add: pair_bindings_def pair_entries_def)
  have names: "distinct (map fst pair_bindings)"
    using paired_names [of "T_F32 p" _ _ _ "T_F32 p" "T_F32 q"] by (simp add: pair_bindings_def pair_entries_def)
  have "\<forall>(n, k, sh) \<in> set pair_bindings. k < length [p, q]" by (simp add: pair_bindings_def)
  from dense_tensors_ok [OF names this, of cx] obtain logical where logical: "dense_tensors cx [p, q] pair_bindings = Ok logical"
    "map_of (map (\<lambda>(name, t, shape). (name, shape, t)) (logical_tensors (paired p q))) = map_of logical"
    unfolding same by auto
  show ?thesis
    using logical(1) named_tensors_same [OF logical(2) named_tensors_rebuild [OF paired_valid [OF assms]]] by blast
qed

lemma pair_materialized:
  assumes run: "storage_from_weights demo_store_driver nat_arith64 demo_codec (paired pair_p pair_q) demo_stream pair_rt = (s, Ok m)"
    and gpu: "gpu s = (f, [(8207, 4), (8206, 1), (8202, 4), (8200, 2), (8192, 8), (4096, 16)])"
    and m: "ms_allocations m = [demo_stored 8200 int4_sample4, demo_stored 8206 int4_sample]" "ms_bindings m = pair_bindings"
      "map ar_logical_values (sm_allocations (ms_summary m)) = [4, 2]" "validate_resident_allocations demo_codec m = Ok ()"
  shows "\<exists>t w' buffers peak. materialize_dense_f32_weights demo_store_driver demo_codec m demo_config demo_stream s = (t, Ok ((w', buffers), peak))"
proof -
  let ?L = "[(8207, 4), (8206, 1), (8202, 4), (8200, 2), (8192, 8), (4096, 16)] :: (nat \<times> nat) list"
  note D = demo_store_ok [of "stream_raw demo_stream"] and H = int4_store.storage_holds [OF demo_store_ok pair_live(1) run pair_live(2)]
  obtain r0 r1 where rs: "sm_allocations (ms_summary m) = [r0, r1]" and n: "ar_logical_values r0 = 4" "ar_logical_values r1 = 2"
    using m(3) by auto
  have two: "length (ms_allocations m) = 2" by (simp add: m(1))
  have "\<exists>xs q. int4_quantize first_arith xs = Ok q \<and> copy_of demo_live fst q (demo_stored 8200 int4_sample4) r0 s"
    using H(3) [of 0] unfolding two m(1) rs demo_codec_sel nth_Cons_0 nth_Cons_Suc by (elim meta_mp) simp
  then obtain xs0 q0 where c0: "int4_quantize first_arith xs0 = Ok q0" "copy_of demo_live fst q0 (demo_stored 8200 int4_sample4) r0 s"
    by blast
  have "\<exists>xs q. int4_quantize first_arith xs = Ok q \<and> copy_of demo_live fst q (demo_stored 8206 int4_sample) r1 s"
    using H(3) [of "Suc 0"] unfolding two m(1) rs demo_codec_sel nth_Cons_0 nth_Cons_Suc by (elim meta_mp) simp
  then obtain xs1 q1 where c1: "int4_quantize first_arith xs1 = Ok q1" "copy_of demo_live fst q1 (demo_stored 8206 int4_sample) r1 s"
    by blast
  have shape: "length xs = ar_logical_values r \<and> length (qt_packed q) = (length xs + 1) div 2"
    if "int4_quantize first_arith xs = Ok q" "copy_of demo_live fst q a r u" for xs q a r u
  proof -
    have "qt_element_count q = ar_logical_values r" using that(2) unfolding copy_of_def by (metis quantized_tensor.select_convs(1))
    then show ?thesis using int4_quantize_Ok(2,4) [OF that(1)] by simp
  qed
  have len: "length xs0 = 4" "length (qt_packed q0) = 2" "length xs1 = 2" "length (qt_packed q1) = 1"
    using shape [OF c0] shape [OF c1] n by simp_all
  have ne: "xs0 \<noteq> []" "xs1 \<noteq> []" using len by auto
  let ?d0 = "\<lparr>buf_ptr = 8211, buf_len = 4, buf_ctx = 7\<rparr>" and ?d1 = "\<lparr>buf_ptr = 8227, buf_len = 2, buf_ctx = 7\<rparr>"
  have L: "next_address ?L = 8211" "next_address ((8211, 16) # ?L) = 8227" by (simp_all add: next_address_def)
  have times: "(4 :: nat) * 4 = 16" "(2 :: nat) * 4 = 8" by simp_all
  have at0: "buf_ptr (pa_packed (demo_stored 8200 int4_sample4)) \<noteq> 0" "buf_ptr (pa_scale (demo_stored 8200 int4_sample4)) \<noteq> 0"
    "buf_ctx (pa_packed (demo_stored 8200 int4_sample4)) = 7" "buf_ctx (pa_scale (demo_stored 8200 int4_sample4)) = 7"
    and at1: "buf_ptr (pa_packed (demo_stored 8206 int4_sample)) \<noteq> 0" "buf_ptr (pa_scale (demo_stored 8206 int4_sample)) \<noteq> 0"
    "buf_ctx (pa_packed (demo_stored 8206 int4_sample)) = 7" "buf_ctx (pa_scale (demo_stored 8206 int4_sample)) = 7"
    by (simp_all add: demo_stored_def)
  have small: "length (qt_packed q0) < 1000" "length xs0 < 1000" "length (qt_packed q1) < 1000" "length xs1 < 1000" by (simp_all add: len)
  have room: "next_address ?L + 5000 < u64_lim" "next_address ((8211, 16) # ?L) + 5000 < u64_lim" unfolding L by (simp_all add: u64_lim_def)
  obtain g h where one: "materialize_one demo_store_driver demo_codec demo_stream (demo_stored 8200 int4_sample4) r0 s =
      (s\<lparr>gpu := (g, (8211, 16) # ?L)\<rparr>, Ok (?d0, h))"
    using demo_materialize [OF gpu c0(2,1) at0 small(1,2) ne(1) room(1), unfolded len L, unfolded times] by blast
  let ?u = "s\<lparr>gpu := (g, (8211, 16) # ?L)\<rparr>"
  have ok: "live_ok (demo_live (gpu s))" using preserves_live [OF H(1)] .
  have "cx_quantize demo_codec xs0 = Ok q0" using c0(1) by (simp add: demo_codec_sel)
  from int4_store.materialize_copy [OF demo_store_ok ok one c0(2) this]
  have "preserves demo_live fst (demo_live (gpu s)) s ?u" by blast
  then have c1': "copy_of demo_live fst q1 (demo_stored 8206 int4_sample) r1 ?u" by (rule copy_of_live [OF c1(2)])
  have gpu': "gpu ?u = (g, (8211, 16) # ?L)" by simp
  obtain g' h' where next_one: "materialize_one demo_store_driver demo_codec demo_stream (demo_stored 8206 int4_sample) r1 ?u =
      (?u\<lparr>gpu := (g', (8227, 8) # (8211, 16) # ?L)\<rparr>, Ok (?d1, h'))"
    using demo_materialize [OF gpu' c1' c1(1) at1 small(3,4) ne(2) room(2), unfolded len L, unfolded times] by blast
  have all: "materialize_all demo_store_driver demo_codec demo_stream ([], 0) (zip (ms_allocations m) (sm_allocations (ms_summary m))) s =
      (?u\<lparr>gpu := (g', (8227, 8) # (8211, 16) # ?L)\<rparr>, Ok ([?d0, ?d1], max (max 0 h) h'))"
    unfolding m(1) rs zip_Cons_Cons zip_Nil materialize_all.simps rt_bind_def or_release_def one next_one prod.case sum.case
    by (simp add: rt_simps)
  obtain logical where logical: "dense_tensors demo_codec [?d0, ?d1] pair_bindings = Ok logical"
    "from_named_logical_tensors demo_config logical = Ok (paired ?d0 ?d1)"
    using paired_rebuilt [of ?d0 ?d1 demo_codec] by auto
  have head: "buf_ctx (pa_packed (demo_stored 8200 int4_sample4)) = stream_ctx demo_stream" by (simp add: demo_stored_def demo_stream_def)
  have run: "materialize_dense_f32_weights demo_store_driver demo_codec m demo_config demo_stream s =
      (?u\<lparr>gpu := (g', (8227, 8) # (8211, 16) # ?L)\<rparr>, Ok ((paired ?d0 ?d1, [?d0, ?d1]), max (max 0 h) h'))"
    unfolding materialize_dense_f32_weights_def rt_bind_def m(4) rt_simps prod.case sum.case all m(2) logical(1)
    by (simp add: m(1) head or_release_def demo_store_sel logical(2))
  then show ?thesis by blast
qed

section \<open>Witness\<close>

theorem dense_weights_are_dequantized_witness:
  "\<exists>s1 m s2 w' buffers peak.
     storage_from_weights demo_store_driver nat_arith64 demo_codec (paired pair_p pair_q) demo_stream pair_rt = (s1, Ok m) \<and>
     materialize_dense_f32_weights demo_store_driver demo_codec m demo_config demo_stream s1 = (s2, Ok ((w', buffers), peak)) \<and>
     (\<forall>(name, t', shape) \<in> set (logical_tensors w'). \<exists>t q. (name, t, shape) \<in> set (logical_tensors (paired pair_p pair_q)) \<and>
        tensor_len t' = tensor_len t \<and> cx_quantize demo_codec (values_at fst pair_rt (allocation_key t) (tensor_len t)) = Ok q \<and>
        values_at fst s2 (allocation_key t') (tensor_len t') =
        map (\<lambda>v. ar_mul first_arith (f32_of_i8 (int4_level first_arith (qt_scale q) v)) (qt_scale q))
          (values_at fst pair_rt (allocation_key t) (tensor_len t)))"
proof -
  obtain f s1 m where run: "storage_from_weights demo_store_driver nat_arith64 demo_codec (paired pair_p pair_q) demo_stream pair_rt = (s1, Ok m)"
    and at: "gpu s1 = (f, [(8207, 4), (8206, 1), (8202, 4), (8200, 2), (8192, 8), (4096, 16)])"
      "ms_allocations m = [demo_stored 8200 int4_sample4, demo_stored 8206 int4_sample]" "ms_bindings m = pair_bindings"
      "map ar_logical_values (sm_allocations (ms_summary m)) = [4, 2]" "validate_resident_allocations demo_codec m = Ok ()"
    using pair_stored by (elim exE conjE) (rule that)
  obtain s2 w' buffers peak where dense: "materialize_dense_f32_weights demo_store_driver demo_codec m demo_config demo_stream s1 =
      (s2, Ok ((w', buffers), peak))"
    using pair_materialized [OF run at] by blast
  have src: "\<forall>(name, t, shape) \<in> set (logical_tensors (paired pair_p pair_q)). region 4 (tensor_buffer t) \<in> demo_live (gpu pair_rt)"
    using pair_live(2) by auto
  note holds = dense_weights_are_dequantized [of demo_codec nat_arith64, OF _ demo_store_ok pair_live(1) src run dense, THEN conjunct1]
  have each: "case x of (name, t', shape) \<Rightarrow> \<exists>t q. (name, t, shape) \<in> set (logical_tensors (paired pair_p pair_q)) \<and>
        tensor_len t' = tensor_len t \<and> cx_quantize demo_codec (values_at fst pair_rt (allocation_key t) (tensor_len t)) = Ok q \<and>
        values_at fst s2 (allocation_key t') (tensor_len t') =
        map (\<lambda>v. ar_mul first_arith (f32_of_i8 (int4_level first_arith (qt_scale q) v)) (qt_scale q))
          (values_at fst pair_rt (allocation_key t) (tensor_len t))"
    if "x \<in> set (logical_tensors w')" for x
  proof -
    obtain name t' shape where x: "x = (name, t', shape)" by (cases x)
    from bspec [OF holds [OF disjI1 [OF refl], unfolded nat_arith64_sel] that, unfolded x prod.case]
    show ?thesis unfolding x prod.case by (elim exE conjE) (intro exI conjI, assumption+, erule mp, rule refl)
  qed
  show ?thesis by (rule exI [of _ s1], rule exI [of _ m], rule exI [of _ s2], rule exI [of _ w'], rule exI [of _ buffers], rule exI [of _ peak])
      (intro conjI run dense ballI each)
qed

end
