(* ===== verification/ModelFiles.thy ===== *)
theory ModelFiles
  imports WeightMemory
begin

text \<open>
  The files of a model directory: the path and confinement checks of \<open>safetensors_loader.rs\<close>, which the loader and the
  preflight share, and \<open>resolve_tensor_path\<close> of \<open>format.rs\<close>.  The file system is the record \<open>file_system\<close> of the calls
  made of it, a parameter; it acts on the same abstract state as the driver.  Paths are Unix paths in UTF-8.
\<close>

section \<open>Paths\<close>

datatype component = RootDir | CurDir | ParentDir | Normal rstr

fun split_on :: "nat \<Rightarrow> rstr \<Rightarrow> rstr list" where
  "split_on sep [] = [[]]"
| "split_on sep (c # cs) =
     (if c = sep then [] # split_on sep cs else (c # hd (split_on sep cs)) # tl (split_on sep cs))"

text \<open>A dot counts only at the beginning of a relative path; empty pieces never do.\<close>

definition piece_component :: "rstr \<Rightarrow> component list" where
  "piece_component s = (if s = [] \<or> s = lit ''.'' then [] else if s = lit ''..'' then [ParentDir] else [Normal s])"

definition is_absolute :: "rstr \<Rightarrow> bool" where
  "is_absolute p \<longleftrightarrow> p \<noteq> [] \<and> hd p = 47"

definition path_components :: "rstr \<Rightarrow> component list" where
  "path_components p =
     (if is_absolute p then [RootDir] else if hd (split_on 47 p) = lit ''.'' then [CurDir] else []) @
     concat (map piece_component (split_on 47 p))"

definition path_join :: "rstr \<Rightarrow> rstr \<Rightarrow> rstr" where
  "path_join base p =
     (if is_absolute p then p else if base \<noteq> [] \<and> last base \<noteq> 47 then base @ [47] @ p else base @ p)"

definition path_starts_with :: "rstr \<Rightarrow> rstr \<Rightarrow> bool" where
  "path_starts_with p root \<longleftrightarrow> take (length (path_components root)) (path_components p) = path_components root"

definition normal_components :: "rstr \<Rightarrow> rstr list" where
  "normal_components p = concat (map (\<lambda>c. case c of Normal s \<Rightarrow> [s] | _ \<Rightarrow> []) (path_components p))"

text \<open>\<open>{:?}\<close> of a path, for ASCII text: unlike that of a string it also escapes single quotes.\<close>

definition hex_char :: "nat \<Rightarrow> nat" where
  "hex_char n = (if n < 10 then 48 + n else 87 + n)"

definition path_debug_char :: "nat \<Rightarrow> rstr" where
  "path_debug_char c =
     (if c = 0 then lit [CHR 0x5C, CHR ''0''] else if c = 9 then lit [CHR 0x5C, CHR ''t''] else if c = 10 then lit [CHR 0x5C, CHR ''n'']
      else if c = 13 then lit [CHR 0x5C, CHR ''r''] else if c = 34 \<or> c = 39 \<or> c = 92 then [92, c]
      else if c < 16 then lit [CHR 0x5C, CHR ''u'', CHR 0x7B] @ [hex_char c, 125]
      else if c < 32 \<or> c = 127 then lit [CHR 0x5C, CHR ''u'', CHR 0x7B] @ [hex_char (c div 16), hex_char (c mod 16), 125]
      else [c])"

definition path_debug :: "rstr \<Rightarrow> rstr" where
  "path_debug p = [34] @ concat (map path_debug_char p) @ [34]"

definition plain_component :: "component \<Rightarrow> bool" where
  "plain_component c = (case c of Normal _ \<Rightarrow> True | CurDir \<Rightarrow> True | _ \<Rightarrow> False)"

definition checked_relative_path :: "rstr \<Rightarrow> nnis_error + unit" where
  "checked_relative_path p =
     (if p = [] \<or> is_absolute p \<or> list_ex (\<lambda>c. \<not> plain_component c) (path_components p) then
        Err (invalid_input (lit ''model source path '' @ path_debug p @ lit '' must be relative and may not traverse parents''))
      else Ok ())"

section \<open>The file system\<close>

datatype file_kind = RegularFile | Directory | SymbolicLink | SpecialFile

record file_meta =
  fm_kind :: file_kind
  fm_dev :: nat
  fm_ino :: nat

record io_fault =
  if_not_found :: bool
  if_text :: rstr

record ('s, 'h) file_system =
  fs_symlink_metadata :: "rstr \<Rightarrow> 's \<Rightarrow> 's \<times> (io_fault + file_meta)"
  fs_canonicalize :: "rstr \<Rightarrow> 's \<Rightarrow> 's \<times> (io_fault + rstr)"
  fs_open_nofollow :: "rstr \<Rightarrow> 's \<Rightarrow> 's \<times> (io_fault + 'h)"
  fs_handle_metadata :: "'h \<Rightarrow> 's \<Rightarrow> 's \<times> (io_fault + file_meta)"
  fs_read_to_end :: "'h \<Rightarrow> 's \<Rightarrow> 's \<times> (io_fault + u8 list)"
  fs_close :: "'h \<Rightarrow> 's \<Rightarrow> 's"
  fs_read :: "rstr \<Rightarrow> 's \<Rightarrow> 's \<times> (io_fault + u8 list)"

definition io_failure :: "rstr \<Rightarrow> io_fault \<Rightarrow> nnis_error" where
  "io_failure op e = \<lparr>ne_kind = IoFailure (if_text e), ne_op = op, ne_context = []\<rparr>"

definition not_found :: "rstr \<Rightarrow> io_fault" where
  "not_found text = \<lparr>if_not_found = True, if_text = text\<rparr>"

definition fs_call :: "rstr \<Rightarrow> ('s \<Rightarrow> 's \<times> (io_fault + 'a)) \<Rightarrow> ('s, 'a) rt_comp" where
  "fs_call op f s = (case f (gpu s) of (g, r) \<Rightarrow> (s\<lparr>gpu := g\<rparr>, map_err (io_failure op) r))"

text \<open>The file is closed when it goes out of scope, on an error too.\<close>

definition closing :: "('s, 'h) file_system \<Rightarrow> 'h \<Rightarrow> ('s, 'a) rt_comp \<Rightarrow> ('s, 'a) rt_comp" where
  "closing fs h m s = (case m s of (t, r) \<Rightarrow> (t\<lparr>gpu := fs_close fs h (gpu t)\<rparr>, r))"

section \<open>Confinement\<close>

definition check_model_directory :: "('s, 'h) file_system \<Rightarrow> rstr \<Rightarrow> ('s, unit) rt_comp" where
  "check_model_directory fs directory =
     rt_bind (fs_call (lit ''inspect local model directory'') (fs_symlink_metadata fs directory)) (\<lambda>meta.
       rt_lift (if fm_kind meta \<noteq> Directory then
           Err (invalid_input (lit ''local model directory must be a real directory, not a symlink'')) else Ok ()))"

definition check_entry :: "rstr \<Rightarrow> bool \<Rightarrow> file_meta \<Rightarrow> nnis_error + unit" where
  "check_entry relative is_last meta =
     (if fm_kind meta = SymbolicLink then
        Err (invalid_input (lit ''model source path '' @ relative @ lit '' may not contain symbolic links''))
      else if (\<not> is_last \<and> fm_kind meta \<noteq> Directory) \<or> (is_last \<and> fm_kind meta \<noteq> RegularFile) then
        Err (invalid_input (lit ''model source path '' @ relative @
          lit '' does not resolve to a regular file beneath the model directory''))
      else Ok ())"

fun exists_walk :: "('s, 'h) file_system \<Rightarrow> rstr \<Rightarrow> rstr \<Rightarrow> rstr list \<Rightarrow> ('s, bool) rt_comp" where
  "exists_walk fs relative target [] = rt_ok True"
| "exists_walk fs relative target (c # cs) = (\<lambda>s. let target = path_join target c in
     case fs_symlink_metadata fs target (gpu s) of
       (g, Inl e) \<Rightarrow>
         (s\<lparr>gpu := g\<rparr>, if if_not_found e then Ok False
            else Err (io_failure (lit ''inspect model source entry '' @ relative) e))
     | (g, Inr meta) \<Rightarrow>
         rt_bind (rt_lift (check_entry relative (cs = []) meta)) (\<lambda>_. exists_walk fs relative target cs) (s\<lparr>gpu := g\<rparr>))"

definition confined_regular_file_exists :: "('s, 'h) file_system \<Rightarrow> rstr \<Rightarrow> rstr \<Rightarrow> ('s, bool) rt_comp" where
  "confined_regular_file_exists fs directory relative =
     rt_bind (rt_lift (checked_relative_path relative)) (\<lambda>_.
     rt_bind (check_model_directory fs directory) (\<lambda>_.
       exists_walk fs relative directory (normal_components relative)))"

fun read_walk :: "('s, 'h) file_system \<Rightarrow> rstr \<Rightarrow> rstr \<Rightarrow> rstr list \<Rightarrow> ('s, rstr) rt_comp" where
  "read_walk fs relative target [] = rt_ok target"
| "read_walk fs relative target (c # cs) =
     (let target = path_join target c in
      rt_bind (fs_call (lit ''inspect model source path '' @ target) (fs_symlink_metadata fs target)) (\<lambda>meta.
      rt_bind (rt_lift (check_entry relative (cs = []) meta)) (\<lambda>_.
        read_walk fs relative target cs)))"

definition read_confined_model_file :: "('s, 'h) file_system \<Rightarrow> rstr \<Rightarrow> rstr \<Rightarrow> rstr \<Rightarrow> ('s, u8 list) rt_comp" where
  "read_confined_model_file fs directory relative operation =
     rt_bind (rt_lift (checked_relative_path relative)) (\<lambda>_.
     rt_bind (check_model_directory fs directory) (\<lambda>_.
     rt_bind (fs_call (lit ''canonicalize local model directory'') (fs_canonicalize fs directory)) (\<lambda>root.
     rt_bind (read_walk fs relative root (normal_components relative)) (\<lambda>target.
     rt_bind (fs_call (lit ''canonicalize '' @ target) (fs_canonicalize fs target)) (\<lambda>canonical_target.
     rt_bind (rt_lift (if \<not> path_starts_with canonical_target root then
         Err (invalid_input (lit ''model source path '' @ relative @ lit '' escapes the local model directory'')) else Ok ())) (\<lambda>_.
     rt_bind (fs_call (lit ''inspect '' @ target) (fs_symlink_metadata fs target)) (\<lambda>inspected.
     rt_bind (fs_call operation (fs_open_nofollow fs target)) (\<lambda>file.
       closing fs file
         (rt_bind (fs_call (lit ''inspect opened '' @ target) (fs_handle_metadata fs file)) (\<lambda>opened.
          rt_bind (rt_lift (if fm_kind opened \<noteq> RegularFile \<or> fm_dev opened \<noteq> fm_dev inspected \<or> fm_ino opened \<noteq> fm_ino inspected then
              Err (invalid_input (lit ''model source path '' @ relative @ lit '' changed while it was being opened'')) else Ok ())) (\<lambda>_.
            fs_call operation (fs_read_to_end fs file))))))))))))"

text \<open>\<open>resolve_tensor_path\<close> of the model directory format.\<close>

definition resolve_tensor_path :: "rstr \<Rightarrow> rstr \<Rightarrow> nnis_error + rstr" where
  "resolve_tensor_path directory file =
     (if file = [] \<or> is_absolute file \<or> list_ex (\<lambda>c. \<not> plain_component c) (path_components file) then
        Err (invalid_input (lit ''tensor file path '' @ debug_name file @ lit '' must be a relative path without parent traversal''))
      else Ok (path_join directory file))"


section \<open>Joining and splitting paths\<close>

lemma split_on_nonempty: "split_on sep s \<noteq> []"
  by (induction s) auto

lemma split_on_append: "split_on sep (a @ sep # b) = split_on sep a @ split_on sep b"
  by (induction a) (auto simp: split_on_nonempty)

lemma split_on_plain: "sep \<notin> set s \<Longrightarrow> split_on sep s = [s]"
  by (induction s) auto

lemma split_on_pieces: "p \<in> set (split_on sep s) \<Longrightarrow> sep \<notin> set p"
proof (induction s arbitrary: p)
  case (Cons c s)
  obtain q qs where q: "split_on sep s = q # qs" using split_on_nonempty [of sep s] by (cases "split_on sep s") simp_all
  then have "sep \<notin> set x" if "x \<in> set (q # qs)" for x using Cons.IH that by metis
  then show ?case using Cons.prems q by (auto split: if_split_asm)
qed simp

text \<open>A name of a directory entry.\<close>

definition entry_name :: "rstr \<Rightarrow> bool" where
  "entry_name s \<longleftrightarrow> s \<noteq> [] \<and> 47 \<notin> set s \<and> s \<noteq> lit ''.'' \<and> s \<noteq> lit ''..''"

lemma normal_components_entries: "s \<in> set (normal_components p) \<Longrightarrow> entry_name s"
  using split_on_pieces [of _ 47 p]
  by (auto simp: normal_components_def path_components_def piece_component_def entry_name_def split: component.splits if_split_asm)

lemma path_components_join:
  assumes "entry_name c"
  shows "path_components (path_join base c) = path_components base @ [Normal c]"
proof -
  have c: "\<not> is_absolute c" "split_on 47 c = [c]" "piece_component c = [Normal c]" "c \<noteq> lit ''.''" "c \<noteq> []"
  proof -
    have e: "c \<noteq> []" "47 \<notin> set c" "c \<noteq> lit ''.''" "c \<noteq> lit ''..''" using assms by (simp_all add: entry_name_def)
    show "\<not> is_absolute c" using e(1,2) by (cases c) (simp_all add: is_absolute_def)
    show "split_on 47 c = [c]" using e(2) by (rule split_on_plain)
    show "piece_component c = [Normal c]" using e(1,3,4) by (simp add: piece_component_def)
  qed (use assms in \<open>simp_all add: entry_name_def\<close>)
  have hd: "hd (split_on 47 (a @ 47 # c)) = hd (split_on 47 a)" "is_absolute (a @ 47 # c) = is_absolute a" if "a \<noteq> []" for a
    using that by (simp_all add: split_on_append split_on_nonempty is_absolute_def)
  consider "base = []" | "base \<noteq> []" "last base \<noteq> 47" | "base \<noteq> []" "last base = 47" by blast
  then show ?thesis
  proof cases
    case 1
    have "piece_component [] = []" by (simp add: piece_component_def)
    then show ?thesis using 1 c by (simp add: path_join_def path_components_def is_absolute_def lit_def)
  next
    case 2
    then show ?thesis using c hd by (simp add: path_join_def path_components_def split_on_append)
  next
    case 3
    then obtain b where b: "base = b @ [47]" by (metis append_butlast_last_id)
    have "path_components (b @ [47]) = path_components b" if "b \<noteq> []"
      using that by (simp add: path_components_def split_on_append split_on_nonempty is_absolute_def piece_component_def)
    then show ?thesis
      using 3 c hd [of b]
      by (cases "b = []") (auto simp: b path_join_def path_components_def split_on_append split_on_nonempty is_absolute_def piece_component_def)
  qed
qed

lemma path_components_joins:
  "list_all entry_name cs \<Longrightarrow> path_components (foldl path_join base cs) = path_components base @ map Normal cs"
  by (induction cs arbitrary: base) (simp_all add: path_components_join)

section \<open>A directory that does not change\<close>

text \<open>What a file system shows while the model is admitted, the immutable input that the source asks for.\<close>

record fs_view =
  fv_meta :: "rstr \<Rightarrow> io_fault + file_meta"
  fv_canonical :: "rstr \<Rightarrow> io_fault + rstr"
  fv_opened :: "rstr \<Rightarrow> io_fault + (io_fault + file_meta) \<times> (io_fault + u8 list)"

definition fs_shows :: "('s, 'h) file_system \<Rightarrow> fs_view \<Rightarrow> bool" where
  "fs_shows fs v \<longleftrightarrow>
     (\<forall>p g. snd (fs_symlink_metadata fs p g) = fv_meta v p) \<and> (\<forall>p g. snd (fs_canonicalize fs p g) = fv_canonical v p) \<and>
     (\<forall>p g. case snd (fs_open_nofollow fs p g) of
        Inl e \<Rightarrow> fv_opened v p = Err e
      | Inr h \<Rightarrow> \<exists>m b. fv_opened v p = Ok (m, b) \<and> (\<forall>g. snd (fs_handle_metadata fs h g) = m \<and> snd (fs_read_to_end fs h g) = b))"

text \<open>A computation that answers the same in every state.\<close>

definition gives :: "('s, 'a) rt_comp \<Rightarrow> nnis_error + 'a \<Rightarrow> bool" where
  "gives m r \<longleftrightarrow> (\<forall>s. snd (m s) = r)"

lemma gives_lift: "gives (rt_lift r) r"
  by (simp add: gives_def)

lemma gives_ok: "gives (rt_ok a) (Ok a)"
  by (simp add: gives_def)

lemma gives_bind:
  assumes "gives m r" "\<And>a. r = Ok a \<Longrightarrow> gives (k a) (q a)"
  shows "gives (rt_bind m k) (and_then r q)"
  unfolding gives_def
proof
  fix s
  obtain t x where m: "m s = (t, x)" by (cases "m s")
  then have "x = r" using assms(1) by (metis gives_def snd_conv)
  then show "snd (rt_bind m k s) = and_then r q" using assms(2) by (cases r) (auto simp: rt_bind_def m gives_def)
qed

lemma gives_call: "(\<And>g. snd (f g) = r) \<Longrightarrow> gives (fs_call op f) (map_err (io_failure op) r)"
  by (auto simp: gives_def fs_call_def split_beta)

lemma gives_closing: "gives m r \<Longrightarrow> gives (closing fs h m) r"
  by (auto simp: gives_def closing_def split_beta)

lemma givesD: "gives m r \<Longrightarrow> m s = (t, x) \<Longrightarrow> x = r"
  by (metis gives_def snd_conv)

definition pure_check_directory :: "fs_view \<Rightarrow> rstr \<Rightarrow> nnis_error + unit" where
  "pure_check_directory v directory =
     and_then (map_err (io_failure (lit ''inspect local model directory'')) (fv_meta v directory)) (\<lambda>meta.
       if fm_kind meta \<noteq> Directory then
         Err (invalid_input (lit ''local model directory must be a real directory, not a symlink'')) else Ok ())"

fun pure_walk :: "fs_view \<Rightarrow> rstr \<Rightarrow> rstr \<Rightarrow> rstr list \<Rightarrow> nnis_error + rstr" where
  "pure_walk v relative target [] = Ok target"
| "pure_walk v relative target (c # cs) =
     and_then (map_err (io_failure (lit ''inspect model source path '' @ path_join target c)) (fv_meta v (path_join target c))) (\<lambda>meta.
     and_then (check_entry relative (cs = []) meta) (\<lambda>_. pure_walk v relative (path_join target c) cs))"

fun pure_exists :: "fs_view \<Rightarrow> rstr \<Rightarrow> rstr \<Rightarrow> rstr list \<Rightarrow> nnis_error + bool" where
  "pure_exists v relative target [] = Ok True"
| "pure_exists v relative target (c # cs) =
     (case fv_meta v (path_join target c) of
        Inl e \<Rightarrow> if if_not_found e then Ok False else Err (io_failure (lit ''inspect model source entry '' @ relative) e)
      | Inr meta \<Rightarrow> and_then (check_entry relative (cs = []) meta) (\<lambda>_. pure_exists v relative (path_join target c) cs))"

definition pure_confined_exists :: "fs_view \<Rightarrow> rstr \<Rightarrow> rstr \<Rightarrow> nnis_error + bool" where
  "pure_confined_exists v directory relative =
     and_then (checked_relative_path relative) (\<lambda>_.
     and_then (pure_check_directory v directory) (\<lambda>_. pure_exists v relative directory (normal_components relative)))"

definition pure_confined_read :: "fs_view \<Rightarrow> rstr \<Rightarrow> rstr \<Rightarrow> rstr \<Rightarrow> nnis_error + u8 list" where
  "pure_confined_read v directory relative operation =
     and_then (checked_relative_path relative) (\<lambda>_.
     and_then (pure_check_directory v directory) (\<lambda>_.
     and_then (map_err (io_failure (lit ''canonicalize local model directory'')) (fv_canonical v directory)) (\<lambda>root.
     and_then (pure_walk v relative root (normal_components relative)) (\<lambda>target.
     and_then (map_err (io_failure (lit ''canonicalize '' @ target)) (fv_canonical v target)) (\<lambda>canonical_target.
     and_then (if \<not> path_starts_with canonical_target root then
         Err (invalid_input (lit ''model source path '' @ relative @ lit '' escapes the local model directory'')) else Ok ()) (\<lambda>_.
     and_then (map_err (io_failure (lit ''inspect '' @ target)) (fv_meta v target)) (\<lambda>inspected.
     and_then (map_err (io_failure operation) (fv_opened v target)) (\<lambda>(meta, content).
     and_then (map_err (io_failure (lit ''inspect opened '' @ target)) meta) (\<lambda>opened.
     and_then (if fm_kind opened \<noteq> RegularFile \<or> fm_dev opened \<noteq> fm_dev inspected \<or> fm_ino opened \<noteq> fm_ino inspected then
         Err (invalid_input (lit ''model source path '' @ relative @ lit '' changed while it was being opened'')) else Ok ()) (\<lambda>_.
       map_err (io_failure operation) content))))))))))"

lemma fs_showsD:
  assumes "fs_shows fs v"
  shows "snd (fs_symlink_metadata fs p g) = fv_meta v p" "snd (fs_canonicalize fs p g) = fv_canonical v p"
  using assms by (simp_all add: fs_shows_def)

lemma gives_check_directory: "fs_shows fs v \<Longrightarrow> gives (check_model_directory fs d) (pure_check_directory v d)"
  unfolding check_model_directory_def pure_check_directory_def
  by (intro gives_bind gives_call gives_lift fs_showsD)

lemma gives_walk: "fs_shows fs v \<Longrightarrow> gives (read_walk fs relative target cs) (pure_walk v relative target cs)"
  by (induction cs arbitrary: target) (auto simp: Let_def intro!: gives_bind gives_call gives_lift gives_ok fs_showsD simp del: rt_simps)

lemma gives_exists: "fs_shows fs v \<Longrightarrow> gives (exists_walk fs relative target cs) (pure_exists v relative target cs)"
proof (induction cs arbitrary: target)
  case (Cons c cs)
  show ?case
    unfolding gives_def
  proof
    fix s :: "'a rt"
    obtain g r where r: "fs_symlink_metadata fs (path_join target c) (gpu s) = (g, r)" by (cases "fs_symlink_metadata fs (path_join target c) (gpu s)")
    then have "r = fv_meta v (path_join target c)" using fs_showsD(1) [OF Cons.prems] by (metis snd_conv)
    then show "snd (exists_walk fs relative target (c # cs) s) = pure_exists v relative target (c # cs)"
      using r Cons by (auto simp: rt_bind_def gives_def Let_def split: sum.splits prod.splits)
  qed
qed (simp add: gives_ok)

lemma gives_confined_exists:
  "fs_shows fs v \<Longrightarrow> gives (confined_regular_file_exists fs d relative) (pure_confined_exists v d relative)"
  unfolding confined_regular_file_exists_def pure_confined_exists_def
  by (intro gives_bind gives_lift gives_check_directory gives_exists)

lemma gives_confined_read:
  fixes fs :: "('s, 'h) file_system"
  assumes "fs_shows fs v"
  shows "gives (read_confined_model_file fs d relative operation) (pure_confined_read v d relative operation)"
proof -
  note D = fs_showsD [OF assms]
  have opened: "gives (rt_bind (fs_call operation (fs_open_nofollow fs target)) (\<lambda>file. closing fs file (rest file)))
      (and_then (map_err (io_failure operation) (fv_opened v target)) q)"
    if rest: "\<And>h m b. (\<And>g. snd (fs_handle_metadata fs h g) = m) \<Longrightarrow> (\<And>g. snd (fs_read_to_end fs h g) = b) \<Longrightarrow> gives (rest h) (q (m, b))"
    for target rest and q :: "_ \<Rightarrow> nnis_error + u8 list"
    unfolding gives_def
  proof
    fix s :: "'s rt"
    obtain g r where r: "fs_open_nofollow fs target (gpu s) = (g, r)" by (cases "fs_open_nofollow fs target (gpu s)")
    have "case snd (fs_open_nofollow fs target (gpu s)) of Inl e \<Rightarrow> fv_opened v target = Err e
      | Inr h \<Rightarrow> \<exists>m b. fv_opened v target = Ok (m, b) \<and> (\<forall>g. snd (fs_handle_metadata fs h g) = m \<and> snd (fs_read_to_end fs h g) = b)"
      using assms unfolding fs_shows_def by blast
    then have at: "case r of Inl e \<Rightarrow> fv_opened v target = Err e
      | Inr h \<Rightarrow> \<exists>m b. fv_opened v target = Ok (m, b) \<and> (\<forall>g. snd (fs_handle_metadata fs h g) = m \<and> snd (fs_read_to_end fs h g) = b)"
      unfolding r snd_conv .
    show "snd (rt_bind (fs_call operation (fs_open_nofollow fs target)) (\<lambda>file. closing fs file (rest file)) s) =
        and_then (map_err (io_failure operation) (fv_opened v target)) q"
    proof (cases r)
      case (Inr h)
      then obtain m b where mb: "fv_opened v target = Ok (m, b)" "\<And>g. snd (fs_handle_metadata fs h g) = m" "\<And>g. snd (fs_read_to_end fs h g) = b"
        using at by auto
      have "gives (closing fs h (rest h)) (q (m, b))" by (intro gives_closing rest mb)
      then show ?thesis using Inr r mb(1) by (simp add: rt_bind_def fs_call_def gives_def)
    qed (use r at in \<open>simp add: rt_bind_def fs_call_def\<close>)
  qed
  show ?thesis
    unfolding read_confined_model_file_def pure_confined_read_def
    by (intro gives_bind gives_lift gives_check_directory [OF assms] gives_call D gives_walk [OF assms] opened) (simp, intro gives_bind gives_lift gives_call)
qed

lemma pure_walk_Ok:
  "pure_walk v relative base cs = Ok target \<longleftrightarrow> target = foldl path_join base cs \<and>
    (\<forall>k < length cs. \<exists>m. fv_meta v (foldl path_join base (take (Suc k) cs)) = Ok m \<and>
       fm_kind m = (if Suc k = length cs then RegularFile else Directory))"
proof (induction cs arbitrary: base)
  case (Cons c cs)
  show ?case
    unfolding pure_walk.simps and_then_Ok_iff map_err_Ok_iff Cons.IH all_less_Suc_split length_Cons
    by (auto simp: check_entry_def split: if_split_asm)
qed auto


lemma pure_confined_read_Ok:
  "pure_confined_read v d relative operation = Ok bytes \<longleftrightarrow>
    checked_relative_path relative = Ok () \<and> pure_check_directory v d = Ok () \<and>
    (\<exists>root target canonical_target inspected opened. fv_canonical v d = Ok root \<and>
       pure_walk v relative root (normal_components relative) = Ok target \<and>
       fv_canonical v target = Ok canonical_target \<and> path_starts_with canonical_target root \<and> fv_meta v target = Ok inspected \<and>
       fv_opened v target = Ok (Ok opened, Ok bytes) \<and> fm_kind opened = RegularFile \<and> fm_dev opened = fm_dev inspected \<and>
       fm_ino opened = fm_ino inspected)"
proof -
  have guard: "(if b then Err e else Ok ()) = Ok u \<longleftrightarrow> \<not> b" for b u and e :: nnis_error by simp
  show ?thesis
    unfolding pure_confined_read_def and_then_Ok_iff map_err_Ok_iff guard by (simp add: split_paired_Ex) blast
qed

section \<open>Property\<close>

text \<open>C21. Reading a model file cannot leave the model directory.  On a file system that does not change meanwhile, whatever
  bytes \<open>read_confined_model_file\<close> returns are the contents of a regular file whose path is the canonical path of the directory
  followed by plain names only; every directory on the way is a real one, none of the entries is a symbolic link, the
  canonical path of the file lies below that of the directory, and the file opened is the one that was inspected.\<close>

theorem confined_read_inside:
  fixes fs :: "('s, 'h) file_system"
  assumes "fs_shows fs v" "read_confined_model_file fs directory relative operation s = (t, Ok bytes)"
  defines "names \<equiv> normal_components relative"
  shows "\<exists>root target. fv_canonical v directory = Ok root \<and> target = foldl path_join root names \<and>
    path_components target = path_components root @ map Normal names \<and>
    (\<exists>d. fv_meta v directory = Ok d \<and> fm_kind d = Directory) \<and>
    (\<forall>k < length names. \<exists>m. fv_meta v (foldl path_join root (take (Suc k) names)) = Ok m \<and>
       fm_kind m = (if Suc k = length names then RegularFile else Directory)) \<and>
    (\<exists>canonical. fv_canonical v target = Ok canonical \<and> path_starts_with canonical root) \<and>
    (\<exists>inspected opened. fv_meta v target = Ok inspected \<and> fv_opened v target = Ok (Ok opened, Ok bytes) \<and>
       fm_kind opened = RegularFile \<and> fm_dev opened = fm_dev inspected \<and> fm_ino opened = fm_ino inspected)"
proof -
  have "pure_confined_read v directory relative operation = Ok bytes"
    using givesD [OF gives_confined_read [OF assms(1)] assms(2)] by simp
  then obtain root target canonical inspected opened where R: "pure_check_directory v directory = Ok ()" "fv_canonical v directory = Ok root"
    "pure_walk v relative root names = Ok target" "fv_canonical v target = Ok canonical" "path_starts_with canonical root"
    "fv_meta v target = Ok inspected" "fv_opened v target = Ok (Ok opened, Ok bytes)" "fm_kind opened = RegularFile"
    "fm_dev opened = fm_dev inspected" "fm_ino opened = fm_ino inspected"
    unfolding pure_confined_read_Ok names_def by blast
  have "list_all entry_name names"
    unfolding names_def list_all_iff using normal_components_entries by blast
  then have "path_components (foldl path_join root names) = path_components root @ map Normal names"
    by (rule path_components_joins)
  moreover have "\<exists>d. fv_meta v directory = Ok d \<and> fm_kind d = Directory"
    using R(1) by (auto simp: pure_check_directory_def split: if_split_asm)
  ultimately show ?thesis using R pure_walk_Ok [of v relative root names target] by blast
qed

text \<open>A directory with one file in a subdirectory.\<close>

definition demo_meta :: "rstr \<Rightarrow> io_fault + file_meta" where
  "demo_meta p =
     (if p = lit ''m'' \<or> p = lit ''/m'' \<or> p = lit ''/m/a'' then Ok \<lparr>fm_kind = Directory, fm_dev = 1, fm_ino = 2\<rparr>
      else if p = lit ''/m/a/b'' then Ok \<lparr>fm_kind = RegularFile, fm_dev = 1, fm_ino = 3\<rparr>
      else Err (not_found []))"

definition demo_fs :: "('s, unit) file_system" where
  "demo_fs =
     \<lparr>fs_symlink_metadata = (\<lambda>p g. (g, demo_meta p)), fs_canonicalize = (\<lambda>p g. (g, Ok (if p = lit ''m'' then lit ''/m'' else p))),
      fs_open_nofollow = (\<lambda>p g. (g, if p = lit ''/m/a/b'' then Ok () else Err (not_found []))),
      fs_handle_metadata = (\<lambda>h g. (g, demo_meta (lit ''/m/a/b''))), fs_read_to_end = (\<lambda>h g. (g, Ok [1, 2])),
      fs_close = (\<lambda>h g. g), fs_read = (\<lambda>p g. (g, Ok [1, 2]))\<rparr>"

definition demo_view :: fs_view where
  "demo_view =
     \<lparr>fv_meta = demo_meta, fv_canonical = (\<lambda>p. Ok (if p = lit ''m'' then lit ''/m'' else p)),
      fv_opened = (\<lambda>p. if p = lit ''/m/a/b'' then Ok (demo_meta p, Ok [1, 2]) else Err (not_found []))\<rparr>"

theorem confined_read_inside_witness:
  "\<exists>t. read_confined_model_file demo_fs (lit ''m'') (lit ''./a//b'') [] \<lparr>gpu = (), forgotten = []\<rparr> = (t, Ok [1, 2]) \<and>
    path_components (foldl path_join (lit ''/m'') (normal_components (lit ''./a//b''))) = [RootDir, Normal (lit ''m''), Normal (lit ''a''), Normal (lit ''b'')]"
proof -
  have shows': "fs_shows demo_fs demo_view"
    by (simp add: fs_shows_def demo_fs_def demo_view_def split: if_split)
  have "pure_confined_read demo_view (lit ''m'') (lit ''./a//b'') [] = Ok [1, 2]"
    by code_simp
  moreover have "snd (read_confined_model_file demo_fs (lit ''m'') (lit ''./a//b'') [] \<lparr>gpu = (), forgotten = []\<rparr>) =
      pure_confined_read demo_view (lit ''m'') (lit ''./a//b'') []"
    using gives_confined_read [OF shows'] unfolding gives_def by blast
  ultimately obtain t where t: "read_confined_model_file demo_fs (lit ''m'') (lit ''./a//b'') [] \<lparr>gpu = (), forgotten = []\<rparr> = (t, Ok [1, 2])"
    by (metis prod.collapse)
  have names: "fv_canonical demo_view (lit ''m'') = Ok (lit ''/m'')" "path_components (lit ''/m'') = [RootDir, Normal (lit ''m'')]"
    "normal_components (lit ''./a//b'') = [lit ''a'', lit ''b'']" by code_simp+
  from confined_read_inside [OF shows' t] t show ?thesis by (auto simp: names)
qed

end
