(* ===== verification/Safetensors.thy ===== *)
theory Safetensors
  imports ModelFiles
begin

text \<open>
  Loading a Hugging Face model (\<open>safetensors_loader.rs\<close>) and its validation without a device
  (\<open>safetensors_preflight.rs\<close>).  The crates that parse JSON and the Safetensors container are the record \<open>parsers\<close>, a
  parameter.  A \<open>HashMap\<close> of tensors is an association list in the order of insertion; what a failure drops it drops in
  that order, where the source leaves the order open.
\<close>

section \<open>What the parsing crates return\<close>

datatype eos_value = Eos_single nat | Eos_multiple "nat list"

record hf_config =
  hf_architectures :: "rstr list"
  hf_model_type :: rstr
  hf_vocab_size :: nat
  hf_eos_token_id :: "eos_value option"
  hf_hidden_size :: nat
  hf_intermediate_size :: nat
  hf_num_hidden_layers :: nat
  hf_num_attention_heads :: nat
  hf_num_key_value_heads :: "nat option"
  hf_max_position_embeddings :: nat
  hf_rms_norm_eps :: f32
  hf_rope_theta :: f32
  hf_hidden_act :: rstr
  hf_tie_word_embeddings :: bool
  hf_torch_dtype :: rstr
  hf_attention_bias :: bool
  hf_mlp_bias :: bool
  hf_rope_interleaved :: bool
  hf_rope_scaled :: bool

text \<open>A tensor of the container; of the element types that are not supported only the name and the size matter.\<close>

datatype st_dtype = St_F32 | St_BF16 | St_other rstr nat

fun st_size :: "st_dtype \<Rightarrow> nat" where
  "st_size St_F32 = 4"
| "st_size St_BF16 = 2"
| "st_size (St_other _ n) = n"

fun st_debug :: "st_dtype \<Rightarrow> rstr" where
  "st_debug St_F32 = lit ''F32''"
| "st_debug St_BF16 = lit ''BF16''"
| "st_debug (St_other name _) = name"

record tensor_view =
  tv_dtype :: st_dtype
  tv_shape :: "nat list"
  tv_data :: "u8 list"

record parsers =
  pr_config :: "u8 list \<Rightarrow> rstr + hf_config"
  pr_index :: "u8 list \<Rightarrow> rstr + (rstr \<times> rstr) list"
  pr_tensors :: "u8 list \<Rightarrow> rstr + (rstr \<times> tensor_view) list"

section \<open>The configuration\<close>

definition HF_CONFIG :: rstr where "HF_CONFIG = lit ''config.json''"
definition SINGLE_SAFETENSORS :: rstr where "SINGLE_SAFETENSORS = lit ''model.safetensors''"
definition SAFETENSORS_INDEX :: rstr where "SAFETENSORS_INDEX = lit ''model.safetensors.index.json''"

record load_config =
  lc_repo_id :: "rstr option"
  lc_revision :: "rstr option"
  lc_local_dir :: rstr

record st_metadata =
  sd_architecture :: rstr
  sd_model_type :: rstr
  sd_num_hidden_layers :: nat
  sd_hidden_size :: nat
  sd_intermediate_size :: nat
  sd_num_attention_heads :: nat
  sd_num_key_value_heads :: nat
  sd_head_dim :: nat
  sd_max_position_embeddings :: nat
  sd_rms_norm_eps :: f32
  sd_rope_theta :: f32
  sd_vocab_size :: nat
  sd_eos_token_id :: "nat option"
  sd_tie_word_embeddings :: bool
  sd_weight_dtype :: weight_dtype

definition list_debug :: "('a \<Rightarrow> rstr) \<Rightarrow> 'a list \<Rightarrow> rstr" where
  "list_debug f xs = lit ''['' @ join_with (lit '', '') (map f xs) @ lit '']''"

definition metadata_to_model_config :: "st_metadata \<Rightarrow> nnis_error + model_config" where
  "metadata_to_model_config md =
     (let c = \<lparr>mc_vocab_size = sd_vocab_size md, mc_eos_token_id = sd_eos_token_id md, mc_hidden_size = sd_hidden_size md,
        mc_intermediate_size = sd_intermediate_size md, mc_num_hidden_layers = sd_num_hidden_layers md,
        mc_num_attention_heads = sd_num_attention_heads md, mc_num_key_value_heads = sd_num_key_value_heads md,
        mc_max_position_embeddings = sd_max_position_embeddings md, mc_rms_norm_eps = sd_rms_norm_eps md,
        mc_rope_theta = sd_rope_theta md, mc_activation = Silu, mc_weight_dtype = sd_weight_dtype md\<rparr>
      in and_then (validate_execution_support c) (\<lambda>_. Ok c))"

definition torch_weight_dtype :: "rstr \<Rightarrow> nnis_error + weight_dtype" where
  "torch_weight_dtype s =
     (if s = lit ''float32'' \<or> s = lit ''f32'' then Ok W_F32
      else if s = lit ''bfloat16'' \<or> s = lit ''bf16'' then Ok W_Bf16
      else Err (unsupported (lit ''unsupported Hugging Face torch_dtype '' @ debug_name s @
        lit ''; supported source dtypes are float32 and bfloat16'')))"

definition hf_eos :: "eos_value option \<Rightarrow> nnis_error + nat option" where
  "hf_eos e =
     (case e of
        None \<Rightarrow> Ok None
      | Some (Eos_single v) \<Rightarrow> Ok (Some v)
      | Some (Eos_multiple vs) \<Rightarrow>
          Err (unsupported (lit ''multiple eos_token_id values are not supported yet: '' @ list_debug dec vs)))"

definition validate_hf_config :: "hf_config \<Rightarrow> nnis_error + st_metadata" where
  "validate_hf_config c =
     (if length (hf_architectures c) \<noteq> 1 \<or> hf_architectures c ! 0 \<noteq> lit ''LlamaForCausalLM'' \<or> hf_model_type c \<noteq> lit ''llama'' then
        Err (unsupported (lit ''unsupported Hugging Face architecture '' @ list_debug debug_name (hf_architectures c) @
          lit '' / model_type '' @ debug_name (hf_model_type c) @
          lit ''; current Safetensors loader supports only LlamaForCausalLM with model_type=llama''))
      else if hf_hidden_act c \<noteq> lit ''silu'' then
        Err (unsupported (lit ''unsupported hidden_act '' @ debug_name (hf_hidden_act c) @
          lit ''; current decoder requires silu/SwiGLU''))
      else if hf_attention_bias c \<or> hf_mlp_bias c then
        Err (unsupported_lit ''attention/MLP bias tensors are not supported by the current decoder weight graph'')
      else if hf_rope_interleaved c \<or> hf_rope_scaled c then
        Err (unsupported_lit ''interleaved or scaled RoPE is not supported by this Safetensors loader'')
      else
        and_then (torch_weight_dtype (hf_torch_dtype c)) (\<lambda>dtype.
          if hf_num_attention_heads c = 0 \<or> hf_hidden_size c mod hf_num_attention_heads c \<noteq> 0 then
            Err (invalid_lit ''hidden_size must be divisible by num_attention_heads'')
          else
            let kv_heads = (case hf_num_key_value_heads c of None \<Rightarrow> hf_num_attention_heads c | Some n \<Rightarrow> n);
                head_dim = hf_hidden_size c div hf_num_attention_heads c in
            and_then (hf_eos (hf_eos_token_id c)) (\<lambda>eos.
              let md = \<lparr>sd_architecture = lit ''LlamaForCausalLM'', sd_model_type = lit ''llama'',
                sd_num_hidden_layers = hf_num_hidden_layers c, sd_hidden_size = hf_hidden_size c,
                sd_intermediate_size = hf_intermediate_size c, sd_num_attention_heads = hf_num_attention_heads c,
                sd_num_key_value_heads = kv_heads, sd_head_dim = head_dim,
                sd_max_position_embeddings = hf_max_position_embeddings c, sd_rms_norm_eps = hf_rms_norm_eps c,
                sd_rope_theta = hf_rope_theta c, sd_vocab_size = hf_vocab_size c, sd_eos_token_id = eos,
                sd_tie_word_embeddings = hf_tie_word_embeddings c, sd_weight_dtype = dtype\<rparr>
              in and_then (metadata_to_model_config md) (\<lambda>config.
                 and_then (validate_execution_support config) (\<lambda>_. Ok md)))))"

definition parse_metadata_bytes :: "parsers \<Rightarrow> u8 list \<Rightarrow> nnis_error + st_metadata" where
  "parse_metadata_bytes pr bytes =
     and_then (map_err (\<lambda>e. invalid_input (lit ''invalid Hugging Face config.json: '' @ e)) (pr_config pr bytes)) validate_hf_config"

definition parse_metadata :: "('s, 'h) file_system \<Rightarrow> parsers \<Rightarrow> rstr \<Rightarrow> ('s, st_metadata) rt_comp" where
  "parse_metadata fs pr directory =
     rt_bind (read_confined_model_file fs directory HF_CONFIG (lit ''read Hugging Face config.json'')) (\<lambda>bytes.
       rt_lift (parse_metadata_bytes pr bytes))"

section \<open>The weight files\<close>

text \<open>A \<open>BTreeSet\<close> of paths: ordered by components, and a path that is already there is not replaced.\<close>

fun component_key :: "component \<Rightarrow> nat list" where
  "component_key RootDir = [0]"
| "component_key CurDir = [1]"
| "component_key ParentDir = [2]"
| "component_key (Normal s) = 3 # utf8_nats s"

definition path_key :: "rstr \<Rightarrow> nat list list" where
  "path_key p = map component_key (path_components p)"

definition insert_path :: "rstr \<Rightarrow> rstr list \<Rightarrow> rstr list" where
  "insert_path p ps = (if path_key p \<in> set (map path_key ps) then ps else insort_key path_key p ps)"

fun collect_shards :: "('s, 'h) file_system \<Rightarrow> rstr \<Rightarrow> rstr list \<Rightarrow> rstr list \<Rightarrow> ('s, rstr list) rt_comp" where
  "collect_shards fs directory files [] = rt_ok files"
| "collect_shards fs directory files (file # rest) =
     rt_bind (rt_lift (checked_relative_path file)) (\<lambda>_.
     rt_bind (confined_regular_file_exists fs directory file) (\<lambda>exists.
       if \<not> exists then
         rt_lift (Err (io_failure (lit ''read Safetensors shard'')
           (not_found (lit ''referenced shard '' @ file @ lit '' does not exist''))))
       else collect_shards fs directory (insert_path file files) rest))"

definition discover_weight_files :: "('s, 'h) file_system \<Rightarrow> parsers \<Rightarrow> rstr \<Rightarrow> ('s, rstr list) rt_comp" where
  "discover_weight_files fs pr directory =
     rt_bind (confined_regular_file_exists fs directory SINGLE_SAFETENSORS) (\<lambda>has_single.
     rt_bind (confined_regular_file_exists fs directory SAFETENSORS_INDEX) (\<lambda>has_index.
       if has_single \<and> has_index then
         rt_lift (Err (invalid_lit ''both model.safetensors and model.safetensors.index.json are present; refusing ambiguous source''))
       else if has_single then rt_ok [SINGLE_SAFETENSORS]
       else if \<not> has_index then
         rt_lift (Err (io_failure (lit ''discover Hugging Face Safetensors weights'')
           (not_found (lit ''neither model.safetensors nor model.safetensors.index.json exists''))))
       else
         rt_bind (read_confined_model_file fs directory SAFETENSORS_INDEX (lit ''read Safetensors shard index'')) (\<lambda>bytes.
         rt_bind (rt_lift (map_err (\<lambda>e. invalid_input (lit ''invalid Safetensors shard index: '' @ e)) (pr_index pr bytes)))
           (\<lambda>weight_map.
             if weight_map = [] then rt_lift (Err (invalid_lit ''Safetensors shard index has an empty weight_map''))
             else collect_shards fs directory [] (map snd weight_map)))))"

section \<open>Tensors\<close>

record tensor_spec =
  sp_internal_name :: rstr
  sp_hf_shape :: "nat list"
  sp_internal_shape :: "nat list"
  sp_transpose :: bool

definition hf_layer_name :: "nat \<Rightarrow> string \<Rightarrow> rstr" where
  "hf_layer_name layer suffix = lit ''model.layers.'' @ dec layer @ lit suffix"

text \<open>The tensors of a layer, in the order in which the source compares their names.\<close>

definition layer_parts :: "st_metadata \<Rightarrow> nat \<Rightarrow> (string \<times> string \<times> nat list \<times> nat list \<times> bool) list" where
  "layer_parts md kv = (let h = sd_hidden_size md; m = sd_intermediate_size md in
     [(''.input_layernorm.weight'', ''input_norm'', [h], [h], False),
      (''.self_attn.q_proj.weight'', ''q_proj'', [h, h], [h, h], True),
      (''.self_attn.k_proj.weight'', ''k_proj'', [kv, h], [h, kv], True),
      (''.self_attn.v_proj.weight'', ''v_proj'', [kv, h], [h, kv], True),
      (''.self_attn.o_proj.weight'', ''o_proj'', [h, h], [h, h], True),
      (''.mlp.gate_proj.weight'', ''gate_proj'', [m, h], [h, m], True),
      (''.mlp.up_proj.weight'', ''up_proj'', [m, h], [h, m], True),
      (''.mlp.down_proj.weight'', ''down_proj'', [h, m], [m, h], True),
      (''.post_attention_layernorm.weight'', ''post_attention_norm'', [h], [h], False)])"

fun first_some :: "('a \<Rightarrow> 'b option) \<Rightarrow> 'a list \<Rightarrow> 'b option" where
  "first_some f [] = None"
| "first_some f (x # xs) = (case f x of None \<Rightarrow> first_some f xs | Some y \<Rightarrow> Some y)"

definition layer_spec :: "st_metadata \<Rightarrow> nat \<Rightarrow> rstr \<Rightarrow> nat \<Rightarrow> tensor_spec option" where
  "layer_spec md kv hf_name layer =
     first_some (\<lambda>(suffix, part, hf_shape, internal_shape, turned).
       if hf_name = hf_layer_name layer suffix then
         Some \<lparr>sp_internal_name = layer_name layer part, sp_hf_shape = hf_shape, sp_internal_shape = internal_shape,
           sp_transpose = turned\<rparr>
       else None) (layer_parts md kv)"

definition direct_spec :: "st_metadata \<Rightarrow> rstr \<Rightarrow> tensor_spec option" where
  "direct_spec md hf_name = (let h = sd_hidden_size md; v = sd_vocab_size md in
     if hf_name = lit ''model.embed_tokens.weight'' then
       Some \<lparr>sp_internal_name = lit ''token_embedding'', sp_hf_shape = [v, h], sp_internal_shape = [v, h], sp_transpose = False\<rparr>
     else if hf_name = lit ''model.norm.weight'' then
       Some \<lparr>sp_internal_name = lit ''final_norm'', sp_hf_shape = [h], sp_internal_shape = [h], sp_transpose = False\<rparr>
     else if hf_name = lit ''lm_head.weight'' then
       Some \<lparr>sp_internal_name = lit ''lm_head'', sp_hf_shape = [v, h], sp_internal_shape = [h, v], sp_transpose = True\<rparr>
     else None)"

definition tensor_spec_of :: "rstr \<Rightarrow> st_metadata \<Rightarrow> tensor_spec option" where
  "tensor_spec_of hf_name md =
     (case checked_mul (sd_num_key_value_heads md) (sd_head_dim md) of
        None \<Rightarrow> None
      | Some kv \<Rightarrow>
          (case direct_spec md hf_name of
             Some spec \<Rightarrow> Some spec
           | None \<Rightarrow> first_some (layer_spec md kv hf_name) [0..<sd_num_hidden_layers md]))"

fun dtype_to_weight_dtype :: "st_dtype \<Rightarrow> nnis_error + weight_dtype" where
  "dtype_to_weight_dtype St_F32 = Ok W_F32"
| "dtype_to_weight_dtype St_BF16 = Ok W_Bf16"
| "dtype_to_weight_dtype (St_other name _) =
     Err (unsupported (lit ''unsupported Safetensors dtype '' @ name @ lit ''; supported source dtypes are F32 and BF16''))"

datatype host_tensor = H_F32 "f32 list" | H_Bf16 "bf16 list"

definition bf16_of_le :: "u8 list \<Rightarrow> bf16" where
  "bf16_of_le bs = of_nat (foldr (\<lambda>b n. unat b + 256 * n) bs 0)"

definition bf16_bytes :: "bf16 \<Rightarrow> u8 list" where
  "bf16_bytes x = le_bytes 2 (unat x)"

definition bf16s_of_bytes :: "u8 list \<Rightarrow> bf16 list" where
  "bf16s_of_bytes bs = map bf16_of_le (chunks_exact 2 bs)"

definition decode_host_tensor :: "u8 list \<Rightarrow> st_dtype \<Rightarrow> nat \<Rightarrow> nnis_error + host_tensor" where
  "decode_host_tensor data dtype elements =
     and_then (ok_or (invalid_lit ''Safetensors byte length overflows usize'') (checked_mul elements (st_size dtype))) (\<lambda>expected.
       if length data \<noteq> expected then
         Err (invalid_input (lit ''Safetensors tensor has '' @ dec (length data) @ lit '' bytes; dtype '' @ st_debug dtype @
           lit '' and '' @ dec elements @ lit '' elements require '' @ dec expected))
       else
         case dtype of
           St_F32 \<Rightarrow> Ok (H_F32 (f32s_of_bytes data))
         | St_BF16 \<Rightarrow> Ok (H_Bf16 (bf16s_of_bytes data))
         | St_other name _ \<Rightarrow>
             Err (unsupported (lit ''unsupported Safetensors dtype '' @ name @ lit ''; supported source dtypes are F32 and BF16'')))"

text \<open>\<open>d\<close> is \<open>T::default()\<close>.\<close>

definition transpose_matrix :: "'a \<Rightarrow> 'a list \<Rightarrow> nat \<Rightarrow> nat \<Rightarrow> nnis_error + 'a list" where
  "transpose_matrix d values rows cols =
     and_then (ok_or (invalid_lit ''matrix transpose shape overflows usize'') (checked_mul rows cols)) (\<lambda>elements.
       if length values \<noteq> elements then
         Err (invalid_input (lit ''matrix transpose expected '' @ dec elements @ lit '' values for ('' @ dec rows @ lit '', '' @
           dec cols @ lit ''); got '' @ dec (length values)))
       else
         Ok (foldl (\<lambda>out row. foldl (\<lambda>out col. out[col * rows + row := values ! (row * cols + col)]) out [0..<cols])
           (replicate elements d) [0..<rows]))"

fun materialize_host_dtype :: "host_tensor \<Rightarrow> weight_dtype \<Rightarrow> nnis_error + host_tensor" where
  "materialize_host_dtype (H_Bf16 values) W_F32 = Ok (H_F32 (map bf16_bits_to_f32 values))"
| "materialize_host_dtype (H_F32 values) W_F32 = Ok (H_F32 values)"
| "materialize_host_dtype (H_Bf16 values) W_Bf16 = Ok (H_Bf16 values)"
| "materialize_host_dtype (H_F32 values) W_Bf16 =
     Err (unsupported_lit ''Safetensors loading does not implicitly narrow F32 weights to BF16'')"

definition execution_config_for_dtype :: "model_config \<Rightarrow> weight_dtype option \<Rightarrow> nnis_error + model_config" where
  "execution_config_for_dtype source dtype =
     and_then (validate_execution_support source) (\<lambda>_.
       let execution = (case dtype of None \<Rightarrow> source | Some d \<Rightarrow> source\<lparr>mc_weight_dtype := d\<rparr>) in
       and_then (validate_execution_support execution) (\<lambda>_. Ok execution))"

section \<open>Loading\<close>

type_synonym loaded_map = "(rstr \<times> nat list \<times> device_tensor) list"

definition loaded_buffers :: "loaded_map \<Rightarrow> device_buffer list" where
  "loaded_buffers m = map (\<lambda>(_, _, t). tensor_buffer t) m"

fun upload_host_tensor :: "'s cuda \<Rightarrow> nat \<Rightarrow> stream \<Rightarrow> host_tensor \<Rightarrow> ('s, device_tensor) rt_comp" where
  "upload_host_tensor drv ctx st (H_F32 values) =
     rt_bind (device_buffer_from_host drv 4 ctx st (map f32_bytes values)) (\<lambda>b. rt_ok (T_F32 b))"
| "upload_host_tensor drv ctx st (H_Bf16 values) =
     rt_bind (device_buffer_from_host drv 2 ctx st (map bf16_bytes values)) (\<lambda>b. rt_ok (T_Bf16 b))"

text \<open>On a duplicate the new tensor is in the map and the old one is dropped before the map is.\<close>

definition insert_tensor :: "'s cuda \<Rightarrow> loaded_map \<Rightarrow> rstr \<Rightarrow> nat list \<Rightarrow> device_tensor \<Rightarrow> ('s, loaded_map) rt_comp" where
  "insert_tensor drv m name shape t =
     (case map_of m name of
        None \<Rightarrow> rt_ok (m @ [(name, shape, t)])
      | Some (_, old) \<Rightarrow>
          or_release drv (tensor_buffer old # loaded_buffers (AList.update name (shape, t) m))
            (rt_lift (Err (invalid_input (lit ''duplicate logical tensor '' @ name @ lit '' across Safetensors files'')))))"

definition product_of :: "nat list \<Rightarrow> string \<Rightarrow> nnis_error + nat" where
  "product_of shape message =
     for_each_res (\<lambda>product dimension. ok_or (invalid_lit message) (checked_mul product dimension)) 1 shape"

definition check_view :: "st_metadata \<Rightarrow> rstr \<Rightarrow> tensor_view \<Rightarrow> nat list \<Rightarrow> nnis_error + nat" where
  "check_view md hf_name view expected =
     (if tv_shape view \<noteq> expected then
        Err (invalid_input (lit ''tensor '' @ hf_name @ lit '' has Safetensors shape '' @ list_debug dec (tv_shape view) @
          lit ''; expected '' @ list_debug dec expected))
      else
        and_then (dtype_to_weight_dtype (tv_dtype view)) (\<lambda>dtype.
          if dtype \<noteq> sd_weight_dtype md then
            Err (invalid_input (lit ''tensor '' @ hf_name @ lit '' uses '' @ dtype_debug dtype @ lit ''; config.json declares '' @
              dtype_debug (sd_weight_dtype md)))
          else product_of (tv_shape view) ''Safetensors tensor shape overflows usize''))"

fun transpose_host :: "host_tensor \<Rightarrow> nat list \<Rightarrow> nnis_error + host_tensor" where
  "transpose_host (H_F32 values) shape = and_then (transpose_matrix 0 values (shape ! 0) (shape ! 1)) (\<lambda>vs. Ok (H_F32 vs))"
| "transpose_host (H_Bf16 values) shape = and_then (transpose_matrix 0 values (shape ! 0) (shape ! 1)) (\<lambda>vs. Ok (H_Bf16 vs))"

text \<open>The host side of one tensor: checked, decoded, transposed, widened.\<close>

definition host_of_view :: "st_metadata \<Rightarrow> weight_dtype \<Rightarrow> rstr \<Rightarrow> tensor_view \<Rightarrow> tensor_spec \<Rightarrow> nnis_error + host_tensor" where
  "host_of_view md dtype hf_name view spec =
     and_then (check_view md hf_name view (sp_hf_shape spec)) (\<lambda>elements.
     and_then (decode_host_tensor (tv_data view) (tv_dtype view) elements) (\<lambda>host.
     and_then (if sp_transpose spec then transpose_host host (sp_hf_shape spec) else Ok host) (\<lambda>host.
       materialize_host_dtype host dtype)))"

fun load_views ::
  "'s cuda \<Rightarrow> nat \<Rightarrow> stream \<Rightarrow> st_metadata \<Rightarrow> weight_dtype \<Rightarrow> loaded_map \<Rightarrow> (rstr \<times> tensor_view) list \<Rightarrow> ('s, loaded_map) rt_comp" where
  "load_views drv ctx st md dtype m [] = rt_ok m"
| "load_views drv ctx st md dtype m ((hf_name, view) # views) =
     (case tensor_spec_of hf_name md of
        None \<Rightarrow> load_views drv ctx st md dtype m views
      | Some spec \<Rightarrow>
          rt_bind (or_release drv (loaded_buffers m)
              (rt_bind (rt_lift (host_of_view md dtype hf_name view spec)) (upload_host_tensor drv ctx st))) (\<lambda>t.
          rt_bind (insert_tensor drv m (sp_internal_name spec) (sp_internal_shape spec) t) (\<lambda>m.
            load_views drv ctx st md dtype m views)))"

definition open_shard :: "('s, 'h) file_system \<Rightarrow> parsers \<Rightarrow> rstr \<Rightarrow> rstr \<Rightarrow> ('s, (rstr \<times> tensor_view) list) rt_comp" where
  "open_shard fs pr directory path =
     rt_bind (read_confined_model_file fs directory path (lit ''read Safetensors shard '' @ path)) (\<lambda>data.
       rt_lift (map_err (\<lambda>e. invalid_input (lit ''invalid '' @ path @ lit '': '' @ e)) (pr_tensors pr data)))"

definition load_shard ::
  "'s cuda \<Rightarrow> ('s, 'h) file_system \<Rightarrow> parsers \<Rightarrow> nat \<Rightarrow> stream \<Rightarrow> rstr \<Rightarrow> st_metadata \<Rightarrow> weight_dtype \<Rightarrow> loaded_map \<Rightarrow> rstr \<Rightarrow>
   ('s, loaded_map) rt_comp" where
  "load_shard drv fs pr ctx st directory md dtype m path =
     rt_bind (or_release drv (loaded_buffers m) (open_shard fs pr directory path)) (\<lambda>views.
       load_views drv ctx st md dtype m views)"

fun load_shards ::
  "'s cuda \<Rightarrow> ('s, 'h) file_system \<Rightarrow> parsers \<Rightarrow> nat \<Rightarrow> stream \<Rightarrow> rstr \<Rightarrow> st_metadata \<Rightarrow> weight_dtype \<Rightarrow> loaded_map \<Rightarrow> rstr list \<Rightarrow>
   ('s, loaded_map) rt_comp" where
  "load_shards drv fs pr ctx st directory md dtype m [] = rt_ok m"
| "load_shards drv fs pr ctx st directory md dtype m (path # paths) =
     rt_bind (load_shard drv fs pr ctx st directory md dtype m path) (\<lambda>m.
       load_shards drv fs pr ctx st directory md dtype m paths)"

fun tied_head :: "'s cuda \<Rightarrow> stream \<Rightarrow> st_metadata \<Rightarrow> device_tensor \<Rightarrow> ('s, host_tensor) rt_comp" where
  "tied_head drv st md (T_F32 b) =
     rt_bind (buffer_to_vec drv 4 b st) (\<lambda>bytes.
       rt_lift (transpose_host (H_F32 (f32s_of_bytes bytes)) [sd_vocab_size md, sd_hidden_size md]))"
| "tied_head drv st md (T_Bf16 b) =
     rt_bind (buffer_to_vec drv 2 b st) (\<lambda>bytes.
       rt_lift (transpose_host (H_Bf16 (bf16s_of_bytes bytes)) [sd_vocab_size md, sd_hidden_size md]))"

definition add_tied_lm_head_if_needed ::
  "'s cuda \<Rightarrow> nat \<Rightarrow> stream \<Rightarrow> st_metadata \<Rightarrow> loaded_map \<Rightarrow> ('s, loaded_map) rt_comp" where
  "add_tied_lm_head_if_needed drv ctx st md m =
     (if map_of m (lit ''lm_head'') \<noteq> None \<or> \<not> sd_tie_word_embeddings md then rt_ok m
      else
        rt_bind (or_release drv (loaded_buffers m)
            (rt_bind (rt_lift (ok_or (invalid_lit ''token_embedding missing for tied lm_head'') (map_of m (lit ''token_embedding'')))) (\<lambda>(_, embedding).
             rt_bind (tied_head drv st md embedding) (upload_host_tensor drv ctx st)))) (\<lambda>t.
          insert_tensor drv m (lit ''lm_head'') [sd_hidden_size md, sd_vocab_size md] t))"

definition take_mat :: "loaded_map \<Rightarrow> rstr \<Rightarrow> nat \<Rightarrow> nat \<Rightarrow> nnis_error + matrix_weight \<times> loaded_map" where
  "take_mat m name rows cols =
     and_then (ok_or (invalid_input (lit ''tensor '' @ name @ lit '' not found'')) (map_of m name)) (\<lambda>(shape, t).
       if shape \<noteq> [rows, cols] then
         Err (invalid_input (lit ''tensor '' @ name @ lit '' shape '' @ list_debug dec shape @ lit '' != ('' @ dec rows @ lit '', '' @
           dec cols @ lit '')''))
       else and_then (matrix_weight_new t rows cols) (\<lambda>w. Ok (w, AList.delete name m)))"

definition take_vec :: "loaded_map \<Rightarrow> rstr \<Rightarrow> nat \<Rightarrow> nnis_error + vector_weight \<times> loaded_map" where
  "take_vec m name len =
     and_then (ok_or (invalid_input (lit ''tensor '' @ name @ lit '' not found'')) (map_of m name)) (\<lambda>(shape, t).
       if shape \<noteq> [len] then
         Err (invalid_input (lit ''tensor '' @ name @ lit '' shape '' @ list_debug dec shape @ lit '' != ('' @ dec len @ lit '',)''))
       else and_then (vector_weight_new t len) (\<lambda>w. Ok (w, AList.delete name m)))"

definition st_take_layer ::
  "model_config \<Rightarrow> nat \<Rightarrow> layer_weights list \<times> loaded_map \<Rightarrow> nat \<Rightarrow> nnis_error + layer_weights list \<times> loaded_map" where
  "st_take_layer c kv = (\<lambda>(ls, m) i. let hidden = mc_hidden_size c; inter = mc_intermediate_size c in
     and_then (take_vec m (layer_name i ''input_norm'') hidden) (\<lambda>(input_norm, m).
     and_then (take_mat m (layer_name i ''q_proj'') hidden hidden) (\<lambda>(q, m).
     and_then (take_mat m (layer_name i ''k_proj'') hidden kv) (\<lambda>(k, m).
     and_then (take_mat m (layer_name i ''v_proj'') hidden kv) (\<lambda>(v, m).
     and_then (take_mat m (layer_name i ''o_proj'') hidden hidden) (\<lambda>(proj_o, m).
     and_then (take_mat m (layer_name i ''gate_proj'') hidden inter) (\<lambda>(gate, m).
     and_then (take_mat m (layer_name i ''up_proj'') hidden inter) (\<lambda>(up, m).
     and_then (take_mat m (layer_name i ''down_proj'') inter hidden) (\<lambda>(down, m).
     and_then (take_vec m (layer_name i ''post_attention_norm'') hidden) (\<lambda>(post, m).
       Ok (ls @ [\<lparr>lw_input_norm = input_norm, lw_q_proj = q, lw_k_proj = k, lw_v_proj = v, lw_o_proj = proj_o,
          lw_post_attention_norm = post, lw_gate_proj = gate, lw_up_proj = up, lw_down_proj = down\<rparr>], m)))))))))))"

definition build_model_weights :: "loaded_map \<Rightarrow> model_config \<Rightarrow> nnis_error + model_weights" where
  "build_model_weights m c =
     and_then (key_value_width c) (\<lambda>kv.
     and_then (take_mat m (lit ''token_embedding'') (mc_vocab_size c) (mc_hidden_size c)) (\<lambda>(embedding, m).
     and_then (for_each_res (st_take_layer c kv) ([], m) [0..<mc_num_hidden_layers c]) (\<lambda>(layers, m).
     and_then (take_vec m (lit ''final_norm'') (mc_hidden_size c)) (\<lambda>(norm, m).
     and_then (take_mat m (lit ''lm_head'') (mc_hidden_size c) (mc_vocab_size c)) (\<lambda>(head, m).
       let w = \<lparr>wt_token_embedding = embedding, wt_layers = layers, wt_final_norm = norm, wt_lm_head = head\<rparr> in
       if m \<noteq> [] then
         Err (invalid_input (lit ''unconsumed logical tensors remain after loading: '' @ join_with (lit '', '') (sort (map fst m))))
       else and_then (weights_validate c w) (\<lambda>_. Ok w))))))"

record loaded_model =
  lm_source_config :: model_config
  lm_execution_config :: model_config
  lm_weights :: model_weights

definition load_model_from_safetensors_inner ::
  "'s cuda \<Rightarrow> ('s, 'h) file_system \<Rightarrow> parsers \<Rightarrow> nat \<Rightarrow> stream \<Rightarrow> load_config \<Rightarrow> weight_dtype option \<Rightarrow> ('s, loaded_model) rt_comp" where
  "load_model_from_safetensors_inner drv fs pr ctx st cfg dtype =
     (if ctx \<noteq> stream_ctx st then
        rt_lift (Err (invalid_lit ''Safetensors loader context and upload stream must match''))
      else
        rt_bind (parse_metadata fs pr (lc_local_dir cfg)) (\<lambda>md.
        rt_bind (rt_lift (metadata_to_model_config md)) (\<lambda>source.
        rt_bind (rt_lift (execution_config_for_dtype source dtype)) (\<lambda>execution.
        rt_bind (discover_weight_files fs pr (lc_local_dir cfg)) (\<lambda>files.
        rt_bind (load_shards drv fs pr ctx st (lc_local_dir cfg) md (mc_weight_dtype execution) [] files) (\<lambda>m.
        rt_bind (add_tied_lm_head_if_needed drv ctx st md m) (\<lambda>m.
        rt_bind (or_release drv (loaded_buffers m) (rt_lift (build_model_weights m execution))) (\<lambda>w.
          rt_ok \<lparr>lm_source_config = source, lm_execution_config = execution, lm_weights = w\<rparr>))))))))"

definition load_model_from_safetensors ::
  "'s cuda \<Rightarrow> ('s, 'h) file_system \<Rightarrow> parsers \<Rightarrow> nat \<Rightarrow> stream \<Rightarrow> load_config \<Rightarrow> ('s, model_config \<times> model_weights) rt_comp" where
  "load_model_from_safetensors drv fs pr ctx st cfg =
     rt_bind (load_model_from_safetensors_inner drv fs pr ctx st cfg None) (\<lambda>r. rt_ok (lm_execution_config r, lm_weights r))"

definition load_model_from_safetensors_f32 ::
  "'s cuda \<Rightarrow> ('s, 'h) file_system \<Rightarrow> parsers \<Rightarrow> nat \<Rightarrow> stream \<Rightarrow> load_config \<Rightarrow> ('s, loaded_model) rt_comp" where
  "load_model_from_safetensors_f32 drv fs pr ctx st cfg =
     load_model_from_safetensors_inner drv fs pr ctx st cfg (Some W_F32)"

section \<open>The preflight\<close>

definition NNIS_HF_SAFETENSORS_PREFLIGHT_VERSION :: nat where "NNIS_HF_SAFETENSORS_PREFLIGHT_VERSION = 1"

record preflight_report =
  pf_schema_version :: nat
  pf_metadata :: st_metadata
  pf_weight_files :: "rstr list"
  pf_recognized_tensor_count :: nat
  pf_ignored_tensor_count :: nat
  pf_logical_tensor_count :: nat
  pf_tied_lm_head_required :: bool
  pf_direct_f32_execution_ready :: bool

text \<open>Its tensor table is a second copy, without the internal shapes.\<close>

definition preflight_layer_parts :: "st_metadata \<Rightarrow> nat \<Rightarrow> (string \<times> string \<times> nat list) list" where
  "preflight_layer_parts md kv = (let h = sd_hidden_size md; m = sd_intermediate_size md in
     [(''.input_layernorm.weight'', ''input_norm'', [h]),
      (''.self_attn.q_proj.weight'', ''q_proj'', [h, h]),
      (''.self_attn.k_proj.weight'', ''k_proj'', [kv, h]),
      (''.self_attn.v_proj.weight'', ''v_proj'', [kv, h]),
      (''.self_attn.o_proj.weight'', ''o_proj'', [h, h]),
      (''.mlp.gate_proj.weight'', ''gate_proj'', [m, h]),
      (''.mlp.up_proj.weight'', ''up_proj'', [m, h]),
      (''.mlp.down_proj.weight'', ''down_proj'', [h, m]),
      (''.post_attention_layernorm.weight'', ''post_attention_norm'', [h])])"

definition preflight_tensor_spec :: "rstr \<Rightarrow> st_metadata \<Rightarrow> (rstr \<times> nat list) option" where
  "preflight_tensor_spec hf_name md = (let h = sd_hidden_size md; v = sd_vocab_size md in
     case checked_mul (sd_num_key_value_heads md) (sd_head_dim md) of
       None \<Rightarrow> None
     | Some kv \<Rightarrow>
         if hf_name = lit ''model.embed_tokens.weight'' then Some (lit ''token_embedding'', [v, h])
         else if hf_name = lit ''model.norm.weight'' then Some (lit ''final_norm'', [h])
         else if hf_name = lit ''lm_head.weight'' then Some (lit ''lm_head'', [v, h])
         else
           first_some (\<lambda>layer. first_some (\<lambda>(suffix, part, shape).
             if hf_name = hf_layer_name layer suffix then Some (layer_name layer part, shape) else None)
             (preflight_layer_parts md kv)) [0..<sd_num_hidden_layers md])"

definition expected_parts :: "string list" where
  "expected_parts = [''input_norm'', ''q_proj'', ''k_proj'', ''v_proj'', ''o_proj'', ''gate_proj'', ''up_proj'', ''down_proj'',
     ''post_attention_norm'']"

definition expected_logical_tensors :: "st_metadata \<Rightarrow> rstr set" where
  "expected_logical_tensors md =
     {lit ''token_embedding'', lit ''final_norm'', lit ''lm_head''} \<union>
     (\<Union>layer \<in> set [0..<sd_num_hidden_layers md]. (\<lambda>part. layer_name layer part) ` set expected_parts)"

definition validate_logical_set :: "rstr set \<Rightarrow> st_metadata \<Rightarrow> nnis_error + bool" where
  "validate_logical_set logical md =
     (let tied = sd_tie_word_embeddings md \<and> lit ''lm_head'' \<notin> logical;
          expected = (if tied then expected_logical_tensors md - {lit ''lm_head''} else expected_logical_tensors md);
          missing = expected - logical in
      if missing \<noteq> {} then
        Err (invalid_input (lit ''required logical tensors are missing from the Safetensors source: '' @
          join_with (lit '', '') (sorted_list_of_set missing)))
      else Ok tied)"

definition preflight_view ::
  "st_metadata \<Rightarrow> rstr set \<times> nat \<times> nat \<Rightarrow> rstr \<times> tensor_view \<Rightarrow> nnis_error + rstr set \<times> nat \<times> nat" where
  "preflight_view md = (\<lambda>(logical, recognized, ignored) (hf_name, view).
     case preflight_tensor_spec hf_name md of
       None \<Rightarrow>
         and_then (ok_or (invalid_lit ''ignored tensor count overflows usize'') (checked_add ignored 1)) (\<lambda>ignored.
           Ok (logical, recognized, ignored))
     | Some (name, shape) \<Rightarrow>
         and_then (check_view md hf_name view shape) (\<lambda>elements.
         and_then (ok_or (invalid_lit ''Safetensors byte length overflows usize'') (checked_mul elements (st_size (tv_dtype view)))) (\<lambda>bytes.
           if length (tv_data view) \<noteq> bytes then
             Err (invalid_input (lit ''tensor '' @ hf_name @ lit '' has '' @ dec (length (tv_data view)) @ lit '' bytes; dtype '' @
               st_debug (tv_dtype view) @ lit '' and '' @ dec elements @ lit '' elements require '' @ dec bytes))
           else if name \<in> logical then
             Err (invalid_input (lit ''duplicate logical tensor '' @ name @ lit '' across Safetensors files''))
           else
             and_then (ok_or (invalid_lit ''recognized tensor count overflows usize'') (checked_add recognized 1)) (\<lambda>recognized.
               Ok (insert name logical, recognized, ignored)))))"

definition validate_shard ::
  "('s, 'h) file_system \<Rightarrow> parsers \<Rightarrow> rstr \<Rightarrow> st_metadata \<Rightarrow> rstr set \<Rightarrow> rstr \<Rightarrow> ('s, rstr set \<times> nat \<times> nat) rt_comp" where
  "validate_shard fs pr directory md logical path =
     rt_bind (open_shard fs pr directory path) (\<lambda>views.
       rt_lift (for_each_res (preflight_view md) (logical, 0, 0) views))"

fun validate_shards ::
  "('s, 'h) file_system \<Rightarrow> parsers \<Rightarrow> rstr \<Rightarrow> st_metadata \<Rightarrow> rstr set \<times> nat \<times> nat \<Rightarrow> rstr list \<Rightarrow> ('s, rstr set \<times> nat \<times> nat) rt_comp" where
  "validate_shards fs pr directory md acc [] = rt_ok acc"
| "validate_shards fs pr directory md (logical, seen, skipped) (path # paths) =
     rt_bind (validate_shard fs pr directory md logical path) (\<lambda>(logical, recognized, ignored).
     rt_bind (rt_lift (ok_or (invalid_lit ''recognized tensor count overflows usize'') (checked_add seen recognized))) (\<lambda>seen.
     rt_bind (rt_lift (ok_or (invalid_lit ''ignored tensor count overflows usize'') (checked_add skipped ignored))) (\<lambda>skipped.
       validate_shards fs pr directory md (logical, seen, skipped) paths)))"

definition preflight_hf_safetensors_source ::
  "('s, 'h) file_system \<Rightarrow> parsers \<Rightarrow> load_config \<Rightarrow> ('s, preflight_report) rt_comp" where
  "preflight_hf_safetensors_source fs pr cfg =
     rt_bind (parse_metadata fs pr (lc_local_dir cfg)) (\<lambda>md.
     rt_bind (discover_weight_files fs pr (lc_local_dir cfg)) (\<lambda>files.
     rt_bind (validate_shards fs pr (lc_local_dir cfg) md ({}, 0, 0) files) (\<lambda>(logical, recognized, ignored).
     rt_bind (rt_lift (validate_logical_set logical md)) (\<lambda>tied.
     rt_bind (rt_lift (ok_or (invalid_lit ''logical tensor count overflows usize'')
         (checked_add (card logical) (if tied then 1 else 0)))) (\<lambda>count.
     let expected = card (expected_logical_tensors md) in
       if count \<noteq> expected then
         rt_lift (Err (invalid_input (lit ''validated logical tensor count '' @ dec count @
           lit '' does not match expected decoder graph count '' @ dec expected)))
       else
         rt_ok \<lparr>pf_schema_version = NNIS_HF_SAFETENSORS_PREFLIGHT_VERSION, pf_metadata = md, pf_weight_files = files,
           pf_recognized_tensor_count = recognized, pf_ignored_tensor_count = ignored, pf_logical_tensor_count = count,
           pf_tied_lm_head_required = tied, pf_direct_f32_execution_ready = (sd_weight_dtype md = W_F32)\<rparr>)))))"

end
