(* ===== verification/SafetensorsLoad.thy ===== *)
theory SafetensorsLoad
  imports Safetensors
begin

text \<open>
  What loading and preflight do: which tensors make a weight graph, when the two agree, and what the loaded model holds in
  device memory.
\<close>

section \<open>The tensors of a model\<close>

text \<open>The names and shapes that a weight graph is made of, in the order of its logical tensors.\<close>

definition layer_shapes :: "model_config \<Rightarrow> nat \<Rightarrow> nat \<Rightarrow> (rstr \<times> nat list) list" where
  "layer_shapes c kv i = (let h = mc_hidden_size c; m = mc_intermediate_size c in
     [(layer_name i ''input_norm'', [h]), (layer_name i ''q_proj'', [h, h]), (layer_name i ''k_proj'', [h, kv]),
      (layer_name i ''v_proj'', [h, kv]), (layer_name i ''o_proj'', [h, h]), (layer_name i ''post_attention_norm'', [h]),
      (layer_name i ''gate_proj'', [h, m]), (layer_name i ''up_proj'', [h, m]), (layer_name i ''down_proj'', [m, h])])"

definition graph_shapes :: "model_config \<Rightarrow> nat \<Rightarrow> (rstr \<times> nat list) list" where
  "graph_shapes c kv =
     (lit ''token_embedding'', [mc_vocab_size c, mc_hidden_size c]) #
     concat (map (layer_shapes c kv) [0..<mc_num_hidden_layers c]) @
     [(lit ''final_norm'', [mc_hidden_size c]), (lit ''lm_head'', [mc_hidden_size c, mc_vocab_size c])]"

definition layer_of :: "model_config \<Rightarrow> nat \<Rightarrow> (rstr \<Rightarrow> device_tensor) \<Rightarrow> nat \<Rightarrow> layer_weights" where
  "layer_of c kv f i = (let h = mc_hidden_size c; m = mc_intermediate_size c;
       mat = (\<lambda>part r k. \<lparr>mw_tensor = f (layer_name i part), mw_rows = r, mw_cols = k\<rparr>);
       vec = (\<lambda>part n. \<lparr>vw_tensor = f (layer_name i part), vw_len = n\<rparr>) in
     \<lparr>lw_input_norm = vec ''input_norm'' h, lw_q_proj = mat ''q_proj'' h h, lw_k_proj = mat ''k_proj'' h kv, lw_v_proj = mat ''v_proj'' h kv,
      lw_o_proj = mat ''o_proj'' h h, lw_post_attention_norm = vec ''post_attention_norm'' h, lw_gate_proj = mat ''gate_proj'' h m,
      lw_up_proj = mat ''up_proj'' h m, lw_down_proj = mat ''down_proj'' m h\<rparr>)"

definition graph_of :: "model_config \<Rightarrow> nat \<Rightarrow> (rstr \<Rightarrow> device_tensor) \<Rightarrow> model_weights" where
  "graph_of c kv f =
     \<lparr>wt_token_embedding = \<lparr>mw_tensor = f (lit ''token_embedding''), mw_rows = mc_vocab_size c, mw_cols = mc_hidden_size c\<rparr>,
      wt_layers = map (layer_of c kv f) [0..<mc_num_hidden_layers c],
      wt_final_norm = \<lparr>vw_tensor = f (lit ''final_norm''), vw_len = mc_hidden_size c\<rparr>,
      wt_lm_head = \<lparr>mw_tensor = f (lit ''lm_head''), mw_rows = mc_hidden_size c, mw_cols = mc_vocab_size c\<rparr>\<rparr>"

fun shape_of :: "nat list \<Rightarrow> logical_shape" where
  "shape_of [rows, cols] = Matrix_shape rows cols"
| "shape_of (n # _) = Vector_shape n"
| "shape_of [] = Vector_shape 0"

lemma enumerate_map_upt: "enumerate 0 (map f [0..<n]) = map (\<lambda>i. (i, f i)) [0..<n]"
  by (induction n) (simp_all add: enumerate_append_eq)

lemma graph_of_tensors:
  "logical_tensors (graph_of c kv f) = map (\<lambda>(name, shape). (name, f name, shape_of shape)) (graph_shapes c kv)"
proof -
  have "layer_tensors (i, layer_of c kv f i) = map (\<lambda>(name, shape). (name, f name, shape_of shape)) (layer_shapes c kv i)" for i
    by (simp add: layer_tensors_def layer_of_def layer_shapes_def matrix_entry_def vector_entry_def Let_def)
  then have "concat (map layer_tensors (map (\<lambda>i. (i, layer_of c kv f i)) is)) =
      map (\<lambda>(name, shape). (name, f name, shape_of shape)) (concat (map (layer_shapes c kv) is))" for "is"
    by (induction "is") simp_all
  then show ?thesis
    by (simp add: logical_tensors_def graph_of_def enumerate_map_upt graph_shapes_def matrix_entry_def vector_entry_def)
qed

lemma in_layer_shapes: "x \<in> set (layer_shapes c kv i) \<Longrightarrow> \<exists>part. fst x = layer_name i part"
  by (auto simp: layer_shapes_def Let_def)

lemma distinct_graph_shapes: "distinct (map fst (graph_shapes c kv))"
proof -
  have one: "distinct (map fst (layer_shapes c kv i))" for i by (simp add: layer_shapes_def layer_name_eq Let_def)
  have "distinct (map fst (concat (map (layer_shapes c kv) [0..<n])))" for n
  proof (induction n)
    case (Suc n)
    have "fst ` set (concat (map (layer_shapes c kv) [0..<n])) \<inter> fst ` set (layer_shapes c kv n) = {}"
      by (auto dest!: in_layer_shapes simp: layer_name_eq)
    then show ?case using Suc one [of n] by simp
  qed simp
  moreover have "name \<notin> fst ` set (concat (map (layer_shapes c kv) [0..<n]))"
    if "name \<in> {lit ''token_embedding'', lit ''final_norm'', lit ''lm_head''}" for name n
    using that by (auto dest!: in_layer_shapes simp: layer_name_outer layer_name_outer [symmetric])
  ultimately show ?thesis by (simp add: graph_shapes_def lit_eq_iff del: set_concat)
qed

section \<open>Building the graph\<close>

text \<open>An entry of the map that is what a name needs.\<close>

definition entry_fits :: "loaded_map \<Rightarrow> rstr \<times> nat list \<Rightarrow> bool" where
  "entry_fits m = (\<lambda>(name, shape). \<exists>t. map_of m name = Some (shape, t) \<and> tensor_len t = prod_list shape \<and>
     (length shape = 2 \<longrightarrow> prod_list shape < u64_lim))"

definition tensor_at :: "loaded_map \<Rightarrow> rstr \<Rightarrow> device_tensor" where
  "tensor_at m name = snd (the (map_of m name))"

definition without :: "rstr set \<Rightarrow> loaded_map \<Rightarrow> loaded_map" where
  "without N m = filter (\<lambda>x. fst x \<notin> N) m"

lemma without_simps: "without {} m = m" "AList.delete n (without N m) = without (insert n N) m"
  "map_of (without N m) n = (if n \<in> N then None else map_of m n)"
proof -
  show "AList.delete n (without N m) = without (insert n N) m"
    unfolding without_def AList.delete_eq filter_filter by (rule filter_cong) auto
  show "map_of (without N m) n = (if n \<in> N then None else map_of m n)"
    by (induction m) (auto simp: without_def)
qed (auto simp: without_def)

lemma take_mat_Ok:
  "name \<notin> N \<Longrightarrow> take_mat (without N m) name r k = Ok (w, m') \<longleftrightarrow> entry_fits m (name, [r, k]) \<and>
     w = \<lparr>mw_tensor = tensor_at m name, mw_rows = r, mw_cols = k\<rparr> \<and> m' = without (insert name N) m"
  by (auto simp: take_mat_def entry_fits_def tensor_at_def matrix_weight_new_def checked_mul_def without_simps split: if_split_asm)

lemma take_vec_Ok:
  "name \<notin> N \<Longrightarrow> take_vec (without N m) name n = Ok (w, m') \<longleftrightarrow> entry_fits m (name, [n]) \<and>
     w = \<lparr>vw_tensor = tensor_at m name, vw_len = n\<rparr> \<and> m' = without (insert name N) m"
  by (auto simp: take_vec_def entry_fits_def tensor_at_def vector_weight_new_def without_simps split: if_split_asm)

lemma st_take_layer_Ok:
  assumes "\<forall>part. layer_name i part \<notin> N"
  shows "st_take_layer c kv (ls, without N m) i = Ok (ls', m') \<longleftrightarrow>
    (\<forall>x \<in> set (layer_shapes c kv i). entry_fits m x) \<and> ls' = ls @ [layer_of c kv (tensor_at m) i] \<and>
    m' = without (N \<union> fst ` set (layer_shapes c kv i)) m"
proof -
  have names: "fst ` set (layer_shapes c kv i) = {layer_name i ''input_norm'', layer_name i ''q_proj'', layer_name i ''k_proj'',
      layer_name i ''v_proj'', layer_name i ''o_proj'', layer_name i ''gate_proj'', layer_name i ''up_proj'',
      layer_name i ''down_proj'', layer_name i ''post_attention_norm''}"
    by (auto simp: layer_shapes_def Let_def)
  have set: "insert (layer_name i ''post_attention_norm'') (insert (layer_name i ''down_proj'') (insert (layer_name i ''up_proj'')
      (insert (layer_name i ''gate_proj'') (insert (layer_name i ''o_proj'') (insert (layer_name i ''v_proj'') (insert (layer_name i ''k_proj'')
      (insert (layer_name i ''q_proj'') (insert (layer_name i ''input_norm'') N)))))))) = N \<union> fst ` set (layer_shapes c kv i)"
    unfolding names by blast
  show ?thesis
    unfolding set [symmetric]
    using assms by (auto simp: st_take_layer_def Let_def take_vec_Ok take_mat_Ok layer_name_eq layer_of_def layer_shapes_def)
qed

lemma st_take_layers_Ok:
  "(\<forall>i part. j \<le> i \<longrightarrow> layer_name i part \<notin> N) \<Longrightarrow> for_each_res (st_take_layer c kv) (ls, without N m) [j..<n] = Ok (ls', m') \<longleftrightarrow>
    (\<forall>x \<in> set (concat (map (layer_shapes c kv) [j..<n])). entry_fits m x) \<and> ls' = ls @ map (layer_of c kv (tensor_at m)) [j..<n] \<and>
    m' = without (N \<union> fst ` set (concat (map (layer_shapes c kv) [j..<n]))) m"
proof (induction "n - j" arbitrary: j N ls)
  case (Suc d)
  then have j: "j < n" by simp
  let ?N = "N \<union> fst ` set (layer_shapes c kv j)"
  have fresh: "\<forall>i part. Suc j \<le> i \<longrightarrow> layer_name i part \<notin> ?N"
    using Suc.prems by (auto dest!: in_layer_shapes simp: layer_name_eq)
  have first: "\<forall>part. layer_name j part \<notin> N" using Suc.prems by simp
  note IH = Suc.hyps(1) [OF _ fresh]
  have d: "d = n - Suc j" using Suc.hyps(2) by simp
  have "for_each_res (st_take_layer c kv) (ls, without N m) (j # [Suc j..<n]) = Ok (ls', m') \<longleftrightarrow>
      (\<forall>x \<in> set (layer_shapes c kv j). entry_fits m x) \<and>
      for_each_res (st_take_layer c kv) (ls @ [layer_of c kv (tensor_at m) j], without ?N m) [Suc j..<n] = Ok (ls', m')"
    by (auto simp: st_take_layer_Ok [OF first])
  also have "\<dots> \<longleftrightarrow> (\<forall>x \<in> set (layer_shapes c kv j). entry_fits m x) \<and>
      (\<forall>x \<in> set (concat (map (layer_shapes c kv) [Suc j..<n])). entry_fits m x) \<and>
      ls' = (ls @ [layer_of c kv (tensor_at m) j]) @ map (layer_of c kv (tensor_at m)) [Suc j..<n] \<and>
      m' = without (?N \<union> fst ` set (concat (map (layer_shapes c kv) [Suc j..<n]))) m"
    unfolding IH [OF d] ..
  finally show ?case unfolding upt_conv_Cons [OF j] by (simp add: ball_Un image_Un Un_assoc del: set_concat)
qed (auto simp: without_def)

lemma without_Nil: "without N m = [] \<longleftrightarrow> fst ` set m \<subseteq> N"
  by (auto simp: without_def filter_empty_conv)

theorem build_Ok:
  "build_model_weights m c = Ok w \<longleftrightarrow> (\<exists>kv. key_value_width c = Ok kv \<and> (\<forall>x \<in> set (graph_shapes c kv). entry_fits m x) \<and>
     fst ` set m \<subseteq> fst ` set (graph_shapes c kv) \<and> w = graph_of c kv (tensor_at m) \<and> weights_validate c w = Ok ())"
proof -
  let ?e = "lit ''token_embedding''" and ?n = "lit ''final_norm''" and ?h = "lit ''lm_head''"
  have names: "?n \<noteq> ?e" "?h \<noteq> ?e" "?h \<noteq> ?n" by (simp_all add: lit_eq_iff)
  let ?L = "\<lambda>kv. set (concat (map (layer_shapes c kv) [0..<mc_num_hidden_layers c]))"
  have layers: "\<forall>i part. 0 \<le> i \<longrightarrow> layer_name i part \<notin> {?e}" by (simp add: layer_name_outer)
  have outer: "?n \<notin> {?e} \<union> fst ` ?L kv" "?h \<notin> insert ?n ({?e} \<union> fst ` ?L kv)" for kv
    using names by (auto dest!: in_layer_shapes simp: layer_name_outer [symmetric])
  have set: "set (graph_shapes c kv) = {(?e, [mc_vocab_size c, mc_hidden_size c])} \<union> ?L kv \<union>
      {(?n, [mc_hidden_size c]), (?h, [mc_hidden_size c, mc_vocab_size c])}" for kv
    by (auto simp: graph_shapes_def)
  have fsts: "fst ` set (graph_shapes c kv) = insert ?h (insert ?n ({?e} \<union> fst ` ?L kv))" for kv
    unfolding set image_Un by auto
  have start: "take_mat m ?e r k = take_mat (without {} m) ?e r k" for r k by (simp add: without_simps)
  show ?thesis
  proof
    assume "build_model_weights m c = Ok w"
    then obtain kv emb m1 ls m2 norm m3 head where kv: "key_value_width c = Ok kv"
      and t: "take_mat (without {} m) ?e (mc_vocab_size c) (mc_hidden_size c) = Ok (emb, m1)"
        "for_each_res (st_take_layer c kv) ([], m1) [0..<mc_num_hidden_layers c] = Ok (ls, m2)"
        "take_vec m2 ?n (mc_hidden_size c) = Ok (norm, m3)" "take_mat m3 ?h (mc_hidden_size c) (mc_vocab_size c) = Ok (head, [])"
      and w: "w = \<lparr>wt_token_embedding = emb, wt_layers = ls, wt_final_norm = norm, wt_lm_head = head\<rparr>" "weights_validate c w = Ok ()"
      by (auto simp: build_model_weights_def start Let_def split: if_split_asm)
    have e: "?e \<notin> {}" by simp
    note t1 = t(1) [unfolded take_mat_Ok [OF e]]
    note t2 = t(2) [unfolded t1 [THEN conjunct2, THEN conjunct2] st_take_layers_Ok [OF layers]]
    note t3 = t(3) [unfolded t2 [THEN conjunct2, THEN conjunct2] take_vec_Ok [OF outer(1)]]
    note t4 = t(4) [unfolded t3 [THEN conjunct2, THEN conjunct2] take_mat_Ok [OF outer(2)]]
    have "fst ` set m \<subseteq> fst ` set (graph_shapes c kv)" using t4 without_Nil unfolding fsts by metis
    moreover have "\<forall>x \<in> set (graph_shapes c kv). entry_fits m x" using t1 t2 t3 t4 unfolding set by blast
    moreover have "w = graph_of c kv (tensor_at m)" using t1 t2 t3 t4 w(1) by (simp add: graph_of_def)
    ultimately show "\<exists>kv. key_value_width c = Ok kv \<and> (\<forall>x \<in> set (graph_shapes c kv). entry_fits m x) \<and>
        fst ` set m \<subseteq> fst ` set (graph_shapes c kv) \<and> w = graph_of c kv (tensor_at m) \<and> weights_validate c w = Ok ()"
      using kv w(2) by blast
  next
    assume "\<exists>kv. key_value_width c = Ok kv \<and> (\<forall>x \<in> set (graph_shapes c kv). entry_fits m x) \<and>
        fst ` set m \<subseteq> fst ` set (graph_shapes c kv) \<and> w = graph_of c kv (tensor_at m) \<and> weights_validate c w = Ok ()"
    then obtain kv where kv: "key_value_width c = Ok kv" and fits: "\<forall>x \<in> set (graph_shapes c kv). entry_fits m x"
      and names: "fst ` set m \<subseteq> fst ` set (graph_shapes c kv)" and w: "w = graph_of c kv (tensor_at m)" "weights_validate c w = Ok ()"
      by blast
    have e: "?e \<notin> {}" by simp
    have f: "entry_fits m (?e, [mc_vocab_size c, mc_hidden_size c])" "\<forall>x \<in> ?L kv. entry_fits m x" "entry_fits m (?n, [mc_hidden_size c])"
      "entry_fits m (?h, [mc_hidden_size c, mc_vocab_size c])" using fits unfolding set by blast+
    have t1: "take_mat (without {} m) ?e (mc_vocab_size c) (mc_hidden_size c) = Ok (wt_token_embedding w, without {?e} m)"
      unfolding take_mat_Ok [OF e] using f(1) by (simp add: w(1) graph_of_def)
    have t2: "for_each_res (st_take_layer c kv) ([], without {?e} m) [0..<mc_num_hidden_layers c] = Ok (wt_layers w, without ({?e} \<union> fst ` ?L kv) m)"
      unfolding st_take_layers_Ok [OF layers] using f(2) by (simp add: w(1) graph_of_def)
    have t3: "take_vec (without ({?e} \<union> fst ` ?L kv) m) ?n (mc_hidden_size c) = Ok (wt_final_norm w, without (insert ?n ({?e} \<union> fst ` ?L kv)) m)"
      unfolding take_vec_Ok [OF outer(1)] using f(3) by (simp add: w(1) graph_of_def)
    have t4: "take_mat (without (insert ?n ({?e} \<union> fst ` ?L kv)) m) ?h (mc_hidden_size c) (mc_vocab_size c) = Ok (wt_lm_head w, [])"
      unfolding take_mat_Ok [OF outer(2)] using f(4) names without_Nil by (simp add: w(1) graph_of_def fsts) metis
    have whole: "\<lparr>wt_token_embedding = wt_token_embedding w, wt_layers = wt_layers w, wt_final_norm = wt_final_norm w,
        wt_lm_head = wt_lm_head w\<rparr> = w" by simp
    show "build_model_weights m c = Ok w"
      unfolding build_model_weights_def start kv and_then_simps t1 prod.case t2 t3 t4 Let_def whole using w(2) by simp
  qed
qed


section \<open>The tensor tables\<close>

lemma metadata_config:
  assumes "parse_metadata_bytes pr bytes = Ok md"
  shows "\<exists>c. metadata_to_model_config md = Ok c \<and> validate_execution_support c = Ok () \<and> sd_head_dim md = mc_head_dim c"
proof -
  obtain hc where "validate_hf_config hc = Ok md" using assms by (auto simp: parse_metadata_bytes_def)
  then show ?thesis
    by (auto simp: validate_hf_config_def metadata_to_model_config_def mc_head_dim_def Let_def split: if_split_asm)
qed

lemma config_fields:
  assumes "metadata_to_model_config md = Ok c"
  shows "mc_vocab_size c = sd_vocab_size md" "mc_hidden_size c = sd_hidden_size md" "mc_intermediate_size c = sd_intermediate_size md"
    "mc_num_hidden_layers c = sd_num_hidden_layers md" "mc_num_key_value_heads c = sd_num_key_value_heads md"
    "mc_weight_dtype c = sd_weight_dtype md" "config_validate c = Ok ()" "validate_execution_support c = Ok ()"
  using assms by (auto simp: metadata_to_model_config_def validate_execution_support_def Let_def)

lemma first_some_mem: "first_some f xs = Some y \<Longrightarrow> \<exists>x \<in> set xs. f x = Some y"
  by (induction xs) (auto split: option.splits)

lemma first_some_map: "first_some (\<lambda>x. map_option g (f x)) xs = map_option g (first_some f xs)"
  by (induction xs) (auto split: option.splits)

lemma first_some_None: "first_some f xs = None \<longleftrightarrow> (\<forall>x \<in> set xs. f x = None)"
  by (induction xs) (auto split: option.splits)

text \<open>The two tables agree.\<close>

lemma preflight_table: "preflight_tensor_spec hf_name md = map_option (\<lambda>sp. (sp_internal_name sp, sp_hf_shape sp)) (tensor_spec_of hf_name md)"
proof -
  have "first_some (\<lambda>(suffix, part, shape). if hf_name = hf_layer_name layer suffix then Some (layer_name layer part, shape) else None)
      (preflight_layer_parts md kv) = map_option (\<lambda>sp. (sp_internal_name sp, sp_hf_shape sp)) (layer_spec md kv hf_name layer)" for kv layer
    by (simp add: preflight_layer_parts_def layer_spec_def layer_parts_def Let_def)
  then show ?thesis
    by (auto simp: preflight_tensor_spec_def tensor_spec_of_def direct_spec_def Let_def first_some_map split: option.splits)
qed

lemma tensor_spec_graph:
  assumes "tensor_spec_of hf_name md = Some sp" and c: "metadata_to_model_config md = Ok c" "sd_head_dim md = mc_head_dim c"
    and kv: "key_value_width c = Ok kv"
  shows "(sp_internal_name sp, sp_internal_shape sp) \<in> set (graph_shapes c kv)"
    and "if sp_transpose sp then \<exists>r k. sp_hf_shape sp = [r, k] \<and> sp_internal_shape sp = [k, r] else sp_internal_shape sp = sp_hf_shape sp"
    and "sp_transpose sp \<longleftrightarrow> length (sp_internal_shape sp) = 2 \<and> sp_internal_name sp \<noteq> lit ''token_embedding''"
proof -
  note F = config_fields [OF c(1)]
  have w: "checked_mul (sd_num_key_value_heads md) (sd_head_dim md) = Some kv" using kv c(2) F by (simp add: key_value_width_def)
  consider "direct_spec md hf_name = Some sp" | i where "i < sd_num_hidden_layers md" "layer_spec md kv hf_name i = Some sp"
    using assms(1) w first_some_mem [of "layer_spec md kv hf_name" "[0..<sd_num_hidden_layers md]" sp]
    by (auto simp: tensor_spec_of_def split: option.splits)
  then have all: "(sp_internal_name sp, sp_internal_shape sp) \<in> set (graph_shapes c kv) \<and>
    (if sp_transpose sp then \<exists>r k. sp_hf_shape sp = [r, k] \<and> sp_internal_shape sp = [k, r] else sp_internal_shape sp = sp_hf_shape sp) \<and>
    (sp_transpose sp \<longleftrightarrow> length (sp_internal_shape sp) = 2 \<and> sp_internal_name sp \<noteq> lit ''token_embedding'')"
  proof cases
    case 1
    then show ?thesis by (auto simp: direct_spec_def Let_def graph_shapes_def F lit_eq_iff split: if_split_asm)
  next
    case (2 i)
    then obtain suffix part hf_shape internal_shape turned where x: "(suffix, part, hf_shape, internal_shape, turned) \<in> set (layer_parts md kv)"
      and sp: "sp = \<lparr>sp_internal_name = layer_name i part, sp_hf_shape = hf_shape, sp_internal_shape = internal_shape, sp_transpose = turned\<rparr>"
      by (auto simp: layer_spec_def split: if_split_asm dest!: first_some_mem)
    have "\<forall>(suffix, part, hf_shape, internal_shape, turned) \<in> set (layer_parts md kv). (layer_name i part, internal_shape) \<in> set (layer_shapes c kv i) \<and>
        (if turned then \<exists>r k. hf_shape = [r, k] \<and> internal_shape = [k, r] else internal_shape = hf_shape) \<and> (turned \<longleftrightarrow> length internal_shape = 2)"
      by (simp add: layer_parts_def layer_shapes_def Let_def F)
    from bspec [OF this x]
    have "(sp_internal_name sp, sp_internal_shape sp) \<in> set (layer_shapes c kv i) \<and>
      (if sp_transpose sp then \<exists>r k. sp_hf_shape sp = [r, k] \<and> sp_internal_shape sp = [k, r] else sp_internal_shape sp = sp_hf_shape sp) \<and>
      (sp_transpose sp \<longleftrightarrow> length (sp_internal_shape sp) = 2 \<and> sp_internal_name sp \<noteq> lit ''token_embedding'')"
      by (simp add: sp layer_name_outer)
    moreover have "set (layer_shapes c kv i) \<subseteq> set (graph_shapes c kv)" using 2(1) F by (auto simp: graph_shapes_def)
    ultimately show ?thesis by blast
  qed
  show "(sp_internal_name sp, sp_internal_shape sp) \<in> set (graph_shapes c kv)" by (rule all [THEN conjunct1])
  show "if sp_transpose sp then \<exists>r k. sp_hf_shape sp = [r, k] \<and> sp_internal_shape sp = [k, r] else sp_internal_shape sp = sp_hf_shape sp"
    by (rule all [THEN conjunct2, THEN conjunct1])
  show "sp_transpose sp \<longleftrightarrow> length (sp_internal_shape sp) = 2 \<and> sp_internal_name sp \<noteq> lit ''token_embedding''"
    by (rule all [THEN conjunct2, THEN conjunct2])
qed

lemma expected_names:
  assumes "metadata_to_model_config md = Ok c"
  shows "expected_logical_tensors md = fst ` set (graph_shapes c kv)"
proof -
  have "(\<lambda>part. layer_name i part) ` set expected_parts = fst ` set (layer_shapes c kv i)" for i
    by (auto simp: expected_parts_def layer_shapes_def Let_def)
  then have "(\<Union>i \<in> set [0..<n]. (\<lambda>part. layer_name i part) ` set expected_parts) = fst ` set (concat (map (layer_shapes c kv) [0..<n]))" for n
    by auto
  moreover have "fst ` set (graph_shapes c kv) = {lit ''token_embedding'', lit ''final_norm'', lit ''lm_head''} \<union>
      fst ` set (concat (map (layer_shapes c kv) [0..<mc_num_hidden_layers c]))"
    by (auto simp: graph_shapes_def)
  ultimately show ?thesis by (simp only: expected_logical_tensors_def config_fields(4) [OF assms])
qed

end
