(* ===== verification/SafetensorsAgree.thy ===== *)
theory SafetensorsAgree
  imports SafetensorsLoad SparseWeights
begin

text \<open>
  The loader and the preflight decide alike.  On a file system that does not change and a driver that accepts what it is asked,
  the loader returns a model exactly when the preflight returns a report.
\<close>

section \<open>One tensor on the host\<close>

lemma transpose_matrix_exact:
  assumes "length vs = rows * cols" "rows * cols < u64_lim"
  shows "transpose_matrix d vs rows cols = Ok (map (\<lambda>i. vs ! (i mod rows * cols + i div rows)) [0..<rows * cols])"
proof -
  let ?step = "\<lambda>out row. foldl (\<lambda>out col. out[col * rows + row := vs ! (row * cols + col)]) out [0..<cols]"
  have "length (foldl ?step (replicate (rows * cols) d) [0..<k]) = rows * cols \<and>
      (\<forall>i < rows * cols. foldl ?step (replicate (rows * cols) d) [0..<k] ! i =
        (if i mod rows < k then vs ! (i mod rows * cols + i div rows) else d))" if "k \<le> rows" for k
    using that
  proof (induction k)
    case (Suc k)
    let ?out = "foldl ?step (replicate (rows * cols) d) [0..<k]"
    have k: "k < rows" and len: "length ?out = rows * cols" using Suc by simp_all
    have step: "foldl ?step (replicate (rows * cols) d) [0..<Suc k] = ?step ?out k" by simp
    have inside: "\<forall>r \<in> set [0..<cols]. r * rows + k < length ?out"
    proof
      fix r assume "r \<in> set [0..<cols]"
      then have "(r + 1) * rows \<le> cols * rows" by (intro mult_right_mono) simp_all
      then show "r * rows + k < length ?out" using k len by (simp add: mult.commute)
    qed
    have "?step ?out k ! i = (if i mod rows < Suc k then vs ! (i mod rows * cols + i div rows) else d)" if i: "i < rows * cols" for i
    proof -
      have hit: "(\<exists>r \<in> set [0..<cols]. i = r * rows + k) \<longleftrightarrow> i mod rows = k"
      proof
        assume "i mod rows = k"
        moreover have "i div rows < cols" using i by (simp add: less_mult_imp_div_less mult.commute)
        ultimately show "\<exists>r \<in> set [0..<cols]. i = r * rows + k" using div_mult_mod_eq [of i rows] by (intro bexI [of _ "i div rows"]) simp_all
      qed (use k in auto)
      have "?step ?out k ! i = (if i mod rows = k then vs ! (k * cols + i div rows) else ?out ! i)"
        using write_rows [OF k inside, of i "\<lambda>r. vs ! (k * cols + r)"] i len unfolding hit by simp
      moreover have "?out ! i = (if i mod rows < k then vs ! (i mod rows * cols + i div rows) else d)" using Suc i by simp
      ultimately show ?thesis by (simp add: less_Suc_eq)
    qed
    then show ?case unfolding step using len by simp
  qed simp
  from this [of rows] have "foldl ?step (replicate (rows * cols) d) [0..<rows] = map (\<lambda>i. vs ! (i mod rows * cols + i div rows)) [0..<rows * cols]"
  proof (intro nth_equalityI, goal_cases)
    case (2 i)
    then have "i < rows * cols" "0 < rows" by (auto intro: gr0I)
    then show ?case using 2 by simp
  qed simp
  then show ?thesis using assms by (simp add: transpose_matrix_def checked_mul_def)
qed

fun host_len :: "host_tensor \<Rightarrow> nat" where
  "host_len (H_F32 vs) = length vs"
| "host_len (H_Bf16 vs) = length vs"

fun host_dtype :: "host_tensor \<Rightarrow> weight_dtype" where
  "host_dtype (H_F32 _) = W_F32"
| "host_dtype (H_Bf16 _) = W_Bf16"

lemma product_loop:
  "for_each_res (\<lambda>product dimension. ok_or e (checked_mul product dimension)) acc shape = Ok n \<Longrightarrow>
    n = acc * prod_list shape \<and> (shape \<noteq> [] \<longrightarrow> n < u64_lim)"
proof (induction shape arbitrary: acc)
  case (Cons x xs)
  then obtain p where p: "checked_mul acc x = Some p" and rest: "for_each_res (\<lambda>product dimension. ok_or e (checked_mul product dimension)) p xs = Ok n"
    by auto
  have "p = acc * x" "p < u64_lim" using p by (auto simp: checked_mul_def split: if_split_asm)
  then show ?case using Cons.IH [OF rest] rest by (cases xs) (auto simp: mult.assoc)
qed simp

lemma product_of_Ok: "product_of shape e = Ok n \<Longrightarrow> n = prod_list shape \<and> (shape \<noteq> [] \<longrightarrow> n < u64_lim)"
  unfolding product_of_def using product_loop [of _ 1 shape n] by simp

lemma check_view_Ok:
  assumes "check_view md hf_name view shape = Ok n"
  shows "tv_shape view = shape \<and> dtype_to_weight_dtype (tv_dtype view) = Ok (sd_weight_dtype md) \<and> n = prod_list shape \<and>
    (shape \<noteq> [] \<longrightarrow> n < u64_lim)"
  using assms product_of_Ok by (auto simp: check_view_def split: if_split_asm)

lemma decoded_lengths: "length (f32s_of_bytes bs) = length bs div 4" "length (bf16s_of_bytes bs) = length bs div 2"
  by (simp_all add: f32s_of_bytes_def bf16s_of_bytes_def length_chunks)

lemma transpose_host_keeps:
  assumes "host_len host = r * k" "r * k < u64_lim"
  shows "\<exists>out. transpose_host host [r, k] = Ok out \<and> host_len out = r * k \<and> host_dtype out = host_dtype host"
  using assms by (cases host) (simp_all add: transpose_matrix_exact)

lemma materialized_len: "materialize_host_dtype host dtype = Ok out \<Longrightarrow> host_len out = host_len host \<and> host_dtype out = dtype"
  by (cases "(host, dtype)" rule: materialize_host_dtype.cases) auto

lemma materialize_same: "host_dtype host = dtype \<Longrightarrow> materialize_host_dtype host dtype = Ok host"
  by (cases "(host, dtype)" rule: materialize_host_dtype.cases) auto

lemma decode_Ok:
  assumes "decode_host_tensor data dtype n = Ok host"
  shows "length data = n * st_size dtype \<and> host_len host = n \<and> dtype_to_weight_dtype dtype = Ok (host_dtype host)"
  using assms by (cases dtype) (auto simp: decode_host_tensor_def decoded_lengths checked_mul_def split: if_split_asm)

lemma decode_accepts:
  assumes "checked_mul n (st_size dtype) = Some (length data)" "dtype_to_weight_dtype dtype = Ok wd"
  shows "\<exists>host. decode_host_tensor data dtype n = Ok host"
  using assms by (cases dtype) (simp_all add: decode_host_tensor_def)

text \<open>What makes a tensor acceptable on the host.\<close>

definition view_fits :: "st_metadata \<Rightarrow> rstr \<Rightarrow> tensor_view \<Rightarrow> nat list \<Rightarrow> bool" where
  "view_fits md hf_name view shape \<longleftrightarrow>
     (\<exists>n. check_view md hf_name view shape = Ok n \<and> checked_mul n (st_size (tv_dtype view)) = Some (length (tv_data view)))"

definition spec_ok :: "tensor_spec \<Rightarrow> bool" where
  "spec_ok sp \<longleftrightarrow> sp_hf_shape sp \<noteq> [] \<and>
     (if sp_transpose sp then \<exists>r k. sp_hf_shape sp = [r, k] \<and> sp_internal_shape sp = [k, r] else sp_internal_shape sp = sp_hf_shape sp)"

lemma host_of_view_fits:
  assumes "host_of_view md dtype hf_name view sp = Ok host"
  shows "view_fits md hf_name view (sp_hf_shape sp)"
proof -
  obtain n h where n: "check_view md hf_name view (sp_hf_shape sp) = Ok n" and h: "decode_host_tensor (tv_data view) (tv_dtype view) n = Ok h"
    using assms by (auto simp: host_of_view_def)
  have "checked_mul n (st_size (tv_dtype view)) = Some (length (tv_data view))"
    using h by (auto simp: decode_host_tensor_def split: if_split_asm)
  then show ?thesis using n unfolding view_fits_def by blast
qed

lemma host_of_view_len:
  assumes "host_of_view md dtype hf_name view sp = Ok host" "spec_ok sp"
  shows "host_len host = prod_list (sp_internal_shape sp) \<and> host_dtype host = dtype \<and> prod_list (sp_internal_shape sp) < u64_lim"
proof -
  obtain n h g where n: "check_view md hf_name view (sp_hf_shape sp) = Ok n" and h: "decode_host_tensor (tv_data view) (tv_dtype view) n = Ok h"
    and g: "(if sp_transpose sp then transpose_host h (sp_hf_shape sp) else Ok h) = Ok g" and host: "materialize_host_dtype g dtype = Ok host"
    using assms(1) by (auto simp: host_of_view_def)
  have n': "n = prod_list (sp_hf_shape sp)" "n < u64_lim" using check_view_Ok [OF n] assms(2) by (auto simp: spec_ok_def)
  have len: "host_len h = n" using decode_Ok [OF h] by simp
  have shape: "prod_list (sp_internal_shape sp) = n" using assms(2) n' by (auto simp: spec_ok_def split: if_split_asm)
  have "host_len g = n"
  proof (cases "sp_transpose sp")
    case True
    then obtain r k where rk: "sp_hf_shape sp = [r, k]" using assms(2) by (auto simp: spec_ok_def)
    then have "host_len h = r * k" "r * k < u64_lim" using len n' by simp_all
    from transpose_host_keeps [OF this] show ?thesis using g True rk n' by auto
  qed (use g len in simp)
  then show ?thesis using materialized_len [OF host] shape n' by simp
qed

lemma host_of_view_accepts:
  assumes "view_fits md hf_name view (sp_hf_shape sp)" "spec_ok sp"
  shows "\<exists>host. host_of_view md (sd_weight_dtype md) hf_name view sp = Ok host"
proof -
  obtain n where n: "check_view md hf_name view (sp_hf_shape sp) = Ok n" and bytes: "checked_mul n (st_size (tv_dtype view)) = Some (length (tv_data view))"
    using assms(1) by (auto simp: view_fits_def)
  note C = check_view_Ok [OF n]
  obtain h where h: "decode_host_tensor (tv_data view) (tv_dtype view) n = Ok h" using decode_accepts [OF bytes] C by blast
  have dt: "host_dtype h = sd_weight_dtype md" and len: "host_len h = n" using decode_Ok [OF h] C by simp_all
  have "\<exists>g. (if sp_transpose sp then transpose_host h (sp_hf_shape sp) else Ok h) = Ok g \<and> host_dtype g = sd_weight_dtype md"
  proof (cases "sp_transpose sp")
    case True
    then obtain r k where rk: "sp_hf_shape sp = [r, k]" using assms(2) by (auto simp: spec_ok_def)
    then have "host_len h = r * k" "r * k < u64_lim" using len C by simp_all
    from transpose_host_keeps [OF this] show ?thesis using True rk dt by auto
  qed (use dt in simp)
  then obtain g where "(if sp_transpose sp then transpose_host h (sp_hf_shape sp) else Ok h) = Ok g" "materialize_host_dtype g (sd_weight_dtype md) = Ok g"
    using materialize_same by blast
  then show ?thesis using n h by (simp add: host_of_view_def)
qed

section \<open>The driver\<close>

text \<open>A driver that accepts what it is asked: nothing fails, and a copy to the host has the length asked for.\<close>

definition driver_willing :: "'s cuda \<Rightarrow> nat \<Rightarrow> bool" where
  "driver_willing drv st \<longleftrightarrow> driver_api drv = Ok () \<and> (\<forall>c g. snd (cu_ctx_set_current drv c g) = 0) \<and>
     (\<forall>n g. fst (snd (cu_mem_alloc drv n g)) = 0 \<and> snd (snd (cu_mem_alloc drv n g)) \<noteq> 0) \<and> (\<forall>p bs g. snd (cu_memcpy_htod_async drv p bs st g) = 0) \<and>
     (\<forall>p n g. fst (snd (cu_memcpy_dtoh_async drv p n st g)) = 0 \<and> length (snd (snd (cu_memcpy_dtoh_async drv p n st g))) = n) \<and>
     (\<forall>x g. snd (cu_stream_synchronize drv x g) = 0)"

lemma willing_calls:
  assumes "driver_willing drv (stream_raw st)"
  shows "\<exists>t. set_current drv c s = (t, Ok ())" "\<exists>t. stream_synchronize drv st s = (t, Ok ())"
    "\<exists>t p. drv_call_out op (cu_mem_alloc drv n) s = (t, Ok p)" "\<exists>t. drv_call op (cu_memcpy_htod_async drv p bs (stream_raw st)) s = (t, Ok ())"
    "\<exists>t bs. drv_read op (cu_memcpy_dtoh_async drv p n (stream_raw st)) s = (t, Ok bs) \<and> length bs = n"
proof -
  note W = assms [unfolded driver_willing_def]
  show current: "\<exists>t. set_current drv c s = (t, Ok ())" for c s
    using W by (simp add: set_current_def rt_bind_def drv_call_def split_beta)
  show "\<exists>t. stream_synchronize drv st s = (t, Ok ())"
    using current [of "stream_ctx st" s] W by (auto simp: stream_synchronize_def rt_bind_def drv_call_def split_beta)
  show "\<exists>t p. drv_call_out op (cu_mem_alloc drv n) s = (t, Ok p)" using W by (simp add: drv_call_out_def split_beta)
  show "\<exists>t. drv_call op (cu_memcpy_htod_async drv p bs (stream_raw st)) s = (t, Ok ())" using W by (simp add: drv_call_def split_beta)
  show "\<exists>t bs. drv_read op (cu_memcpy_dtoh_async drv p n (stream_raw st)) s = (t, Ok bs) \<and> length bs = n"
    using W by (simp add: drv_read_def split_beta)
qed

lemma willing_from_host:
  assumes W: "driver_willing drv (stream_raw st)" and size: "length src * n < u64_lim"
  shows "\<exists>t b. device_buffer_from_host drv n (stream_ctx st) st src s = (t, Ok b)"
proof -
  note C = willing_calls [OF W]
  have api: "driver_api drv = Ok ()" using W by (simp add: driver_willing_def)
  have "\<exists>t p. device_buffer_new drv n (stream_ctx st) (length src) s = (t, Ok \<lparr>buf_ptr = p, buf_len = length src, buf_ctx = stream_ctx st\<rparr>)"
  proof -
    obtain t where t: "set_current drv (stream_ctx st) s = (t, Ok ())" using C(1) by blast
    obtain u p where "drv_call_out ''cuMemAlloc'' (cu_mem_alloc drv (length src * n)) t = (u, Ok p)" using C(3) by blast
    then show ?thesis using size t by (simp add: device_buffer_new_def rt_bind_def checked_mul_def api)
  qed
  then obtain u p where new: "device_buffer_new drv n (stream_ctx st) (length src) s = (u, Ok \<lparr>buf_ptr = p, buf_len = length src, buf_ctx = stream_ctx st\<rparr>)"
    by blast
  let ?b = "\<lparr>buf_ptr = p, buf_len = length src, buf_ctx = stream_ctx st\<rparr>"
  have "\<exists>v. copy_from_host drv n ?b st src u = (v, Ok ())"
  proof (cases "p = 0")
    case False
    obtain v where v: "set_current drv (stream_ctx st) u = (v, Ok ())" using C(1) by blast
    obtain w where w: "drv_call ''cuMemcpyHtoDAsync'' (cu_memcpy_htod_async drv p (concat src) (stream_raw st)) v = (w, Ok ())" using C(4) by blast
    obtain x where "stream_synchronize drv st w = (x, Ok ())" using C(2) by blast
    then show ?thesis using False v w
      by (simp add: copy_from_host_def then_synchronize_def copy_from_host_async_def ensure_stream_context_def rt_bind_def with_bytes_def api)
  qed (simp add: copy_from_host_def then_synchronize_def copy_from_host_async_def ensure_stream_context_def rt_bind_def)
  then show ?thesis using new by (auto simp: device_buffer_from_host_def rt_bind_def or_drop_def)
qed

lemma willing_to_vec:
  assumes W: "driver_willing drv (stream_raw st)" and "buf_ctx b = stream_ctx st" "buf_ptr b = 0 \<longrightarrow> size_bytes n b = 0"
  shows "\<exists>t bs. buffer_to_vec drv n b st s = (t, Ok bs) \<and> length bs = size_bytes n b"
proof (cases "buf_ptr b = 0")
  case False
  note C = willing_calls [OF W]
  have api: "driver_api drv = Ok ()" using W by (simp add: driver_willing_def)
  obtain v where v: "set_current drv (stream_ctx st) s = (v, Ok ())" using C(1) by blast
  obtain w bs where w: "drv_read ''cuMemcpyDtoHAsync'' (cu_memcpy_dtoh_async drv (buf_ptr b) (size_bytes n b) (stream_raw st)) v = (w, Ok bs)"
    "length bs = size_bytes n b" using C(5) by blast
  obtain x where "stream_synchronize drv st w = (x, Ok ())" using C(2) by blast
  then show ?thesis using False v w assms(2)
    by (simp add: buffer_to_vec_def copy_to_host_def then_synchronize_def copy_to_host_async_def ensure_stream_context_def rt_bind_def with_bytes_def api)
qed (use assms in \<open>simp add: buffer_to_vec_def copy_to_host_def then_synchronize_def copy_to_host_async_def ensure_stream_context_def rt_bind_def\<close>)


section \<open>The tensors on the device\<close>

definition uploaded :: "nat \<Rightarrow> host_tensor \<Rightarrow> device_tensor \<Rightarrow> bool" where
  "uploaded ctx host t \<longleftrightarrow> tensor_dtype t = host_dtype host \<and> tensor_len t = host_len host \<and> tensor_context t = ctx"

fun host_bytes :: "host_tensor \<Rightarrow> nat" where
  "host_bytes (H_F32 vs) = length vs * 4"
| "host_bytes (H_Bf16 vs) = length vs * 2"

lemma from_host_ctx: "device_buffer_from_host drv n ctx st src s = (t, Ok b) \<Longrightarrow> buf_ctx b = ctx"
proof -
  assume "device_buffer_from_host drv n ctx st src s = (t, Ok b)"
  then obtain u where "device_buffer_new drv n ctx (length src) s = (u, Ok b)"
    by (auto simp: device_buffer_from_host_def rt_bind_Ok or_drop_Ok)
  then show ?thesis by (auto simp: device_buffer_new_def rt_bind_def split: prod.splits sum.splits if_splits)
qed

lemma from_host_live:
  assumes "driver_willing drv x" "device_buffer_from_host drv n ctx st src s = (t, Ok b)"
  shows "buf_ptr b = 0 \<longrightarrow> length src * n = 0"
proof -
  obtain u where u: "device_buffer_new drv n ctx (length src) s = (u, Ok b)"
    using assms(2) by (auto simp: device_buffer_from_host_def rt_bind_Ok or_drop_Ok)
  have "snd (snd (cu_mem_alloc drv m g)) \<noteq> 0" for m g using assms(1) by (simp add: driver_willing_def)
  then show ?thesis
    using u by (auto simp: device_buffer_new_def rt_bind_Ok drv_call_out_def checked_mul_def split_beta split: if_split_asm)
qed

lemma upload_Ok: "upload_host_tensor drv ctx st host s = (t, Ok d) \<Longrightarrow> uploaded ctx host d"
proof (cases host)
  case (H_F32 vs)
  assume "upload_host_tensor drv ctx st host s = (t, Ok d)"
  then obtain b where b: "device_buffer_from_host drv 4 ctx st (map f32_bytes vs) s = (t, Ok b)" and d: "d = T_F32 b"
    using H_F32 by (auto simp: rt_bind_Ok)
  show ?thesis using copied_len [OF b] from_host_ctx [OF b] d H_F32 by (simp add: uploaded_def tensor_len_def tensor_context_def)
next
  case (H_Bf16 vs)
  assume "upload_host_tensor drv ctx st host s = (t, Ok d)"
  then obtain b where b: "device_buffer_from_host drv 2 ctx st (map bf16_bytes vs) s = (t, Ok b)" and d: "d = T_Bf16 b"
    using H_Bf16 by (auto simp: rt_bind_Ok)
  show ?thesis using copied_len [OF b] from_host_ctx [OF b] d H_Bf16 by (simp add: uploaded_def tensor_len_def tensor_context_def)
qed

lemma willing_upload:
  assumes "driver_willing drv (stream_raw st)" "host_bytes host < u64_lim"
  shows "\<exists>t d. upload_host_tensor drv (stream_ctx st) st host s = (t, Ok d)"
proof (cases host)
  case (H_F32 vs)
  then obtain t b where "device_buffer_from_host drv 4 (stream_ctx st) st (map f32_bytes vs) s = (t, Ok b)"
    using willing_from_host [OF assms(1), of "map f32_bytes vs" 4 s] assms(2) by auto
  then show ?thesis using H_F32 by (simp add: rt_bind_def)
next
  case (H_Bf16 vs)
  then obtain t b where "device_buffer_from_host drv 2 (stream_ctx st) st (map bf16_bytes vs) s = (t, Ok b)"
    using willing_from_host [OF assms(1), of "map bf16_bytes vs" 2 s] assms(2) by auto
  then show ?thesis using H_Bf16 by (simp add: rt_bind_def)
qed

text \<open>The configuration that the tensors are loaded for.\<close>

definition source_of :: "st_metadata \<Rightarrow> model_config \<Rightarrow> nat \<Rightarrow> bool" where
  "source_of md c kv \<longleftrightarrow> metadata_to_model_config md = Ok c \<and> sd_head_dim md = mc_head_dim c \<and> key_value_width c = Ok kv"

definition graph_entry :: "model_config \<Rightarrow> nat \<Rightarrow> weight_dtype \<Rightarrow> nat \<Rightarrow> rstr \<times> nat list \<times> device_tensor \<Rightarrow> bool" where
  "graph_entry c kv dtype ctx = (\<lambda>(name, shape, t). (name, shape) \<in> set (graph_shapes c kv) \<and> tensor_len t = prod_list shape \<and>
     prod_list shape < u64_lim \<and> tensor_dtype t = dtype \<and> tensor_context t = ctx)"

lemma graph_shapes_nonempty: "(name, shape) \<in> set (graph_shapes c kv) \<Longrightarrow> shape \<noteq> []"
  by (auto simp: graph_shapes_def layer_shapes_def Let_def)

lemma spec_of_graph:
  assumes "source_of md c kv" "tensor_spec_of hf_name md = Some sp"
  shows "spec_ok sp" "(sp_internal_name sp, sp_internal_shape sp) \<in> set (graph_shapes c kv)"
proof -
  note S = tensor_spec_graph [OF assms(2)]
  show g: "(sp_internal_name sp, sp_internal_shape sp) \<in> set (graph_shapes c kv)" using S(1) assms(1) by (simp add: source_of_def)
  have "if sp_transpose sp then \<exists>r k. sp_hf_shape sp = [r, k] \<and> sp_internal_shape sp = [k, r] else sp_internal_shape sp = sp_hf_shape sp"
    using S(2) assms(1) by (simp add: source_of_def)
  then show "spec_ok sp" using graph_shapes_nonempty [OF g] unfolding spec_ok_def by (metis list.distinct(1))
qed

lemma insert_tensor_Ok:
  "insert_tensor drv m name shape t s = (s', Ok m') \<longleftrightarrow> name \<notin> fst ` set m \<and> m' = m @ [(name, shape, t)] \<and> s' = s"
proof (cases "map_of m name")
  case None
  then have "name \<notin> fst ` set m" by (simp add: map_of_eq_None_iff)
  then show ?thesis using None by (auto simp: insert_tensor_def)
next
  case (Some x)
  then have "name \<in> fst ` set m" by (metis map_of_eq_None_iff option.distinct(1))
  then show ?thesis using Some by (cases x) (simp add: insert_tensor_def or_release_def)
qed

lemma fits_bytes:
  assumes "host_of_view md (sd_weight_dtype md) hf_name view sp = Ok host" "spec_ok sp"
  shows "host_bytes host < u64_lim"
proof -
  obtain n h where n: "check_view md hf_name view (sp_hf_shape sp) = Ok n" and h: "decode_host_tensor (tv_data view) (tv_dtype view) n = Ok h"
    using assms(1) by (auto simp: host_of_view_def)
  note C = check_view_Ok [OF n]
  have "n = prod_list (sp_internal_shape sp)" using C assms(2) by (auto simp: spec_ok_def split: if_split_asm)
  then have len: "host_len host = n" and dt: "host_dtype host = sd_weight_dtype md" using host_of_view_len [OF assms] by simp_all
  have "n * st_size (tv_dtype view) < u64_lim" using h by (auto simp: decode_host_tensor_def checked_mul_def split: if_split_asm)
  then show ?thesis using len dt C by (cases "tv_dtype view"; cases host) auto
qed

section \<open>Loading and validating the tensors of a shard\<close>

lemma load_views_validated:
  assumes "load_views drv ctx st md dtype m views s = (s', Ok m')" "source_of md c kv"
    and "distinct (map fst m)" "\<forall>e \<in> set m. graph_entry c kv dtype ctx e"
    and "seen + length views < u64_lim" "skipped + length views < u64_lim"
  shows "distinct (map fst m') \<and> (\<forall>e \<in> set m'. graph_entry c kv dtype ctx e) \<and>
    (\<exists>r i. for_each_res (preflight_view md) (fst ` set m, seen, skipped) views = Ok (fst ` set m', r, i) \<and>
       r \<le> seen + length views \<and> i \<le> skipped + length views)"
  using assms
proof (induction views arbitrary: m s seen skipped)
  case (Cons x views)
  obtain hf_name view where x: "x = (hf_name, view)" by (cases x)
  show ?case
  proof (cases "tensor_spec_of hf_name md")
    case None
    then have rest: "load_views drv ctx st md dtype m views s = (s', Ok m')" using Cons.prems(1) by (simp add: x)
    have "preflight_view md (fst ` set m, seen, skipped) x = Ok (fst ` set m, seen, skipped + 1)"
      using None Cons.prems(6) by (simp add: preflight_view_def x preflight_table checked_add_def)
    then show ?thesis using Cons.IH [OF rest Cons.prems(2-4), of seen "skipped + 1"] Cons.prems(5,6) by auto
  next
    case (Some sp)
    note G = spec_of_graph [OF Cons.prems(2) Some]
    obtain u host t where host: "host_of_view md dtype hf_name view sp = Ok host" and up: "upload_host_tensor drv ctx st host s = (u, Ok t)"
      and fresh: "sp_internal_name sp \<notin> fst ` set m"
      and rest: "load_views drv ctx st md dtype (m @ [(sp_internal_name sp, sp_internal_shape sp, t)]) views u = (s', Ok m')"
      using Cons.prems(1) Some by (auto simp: x rt_bind_Ok or_release_Ok insert_tensor_Ok)
    have entry: "graph_entry c kv dtype ctx (sp_internal_name sp, sp_internal_shape sp, t)"
      using upload_Ok [OF up] host_of_view_len [OF host G(1)] G(2) by (simp add: graph_entry_def uploaded_def)
    obtain n where n: "check_view md hf_name view (sp_hf_shape sp) = Ok n"
      "checked_mul n (st_size (tv_dtype view)) = Some (length (tv_data view))"
      using host_of_view_fits [OF host] by (auto simp: view_fits_def)
    have step: "preflight_view md (fst ` set m, seen, skipped) x = Ok (insert (sp_internal_name sp) (fst ` set m), seen + 1, skipped)"
      using Some n fresh Cons.prems(5) by (simp add: preflight_view_def x preflight_table checked_add_def)
    have "insert (sp_internal_name sp) (fst ` set m) = fst ` set (m @ [(sp_internal_name sp, sp_internal_shape sp, t)])" by simp
    moreover have "distinct (map fst (m @ [(sp_internal_name sp, sp_internal_shape sp, t)]))" using Cons.prems(3) fresh by simp
    moreover have "\<forall>e \<in> set (m @ [(sp_internal_name sp, sp_internal_shape sp, t)]). graph_entry c kv dtype ctx e"
      using Cons.prems(4) entry by simp
    moreover have "(seen + 1) + length views < u64_lim" "skipped + length views < u64_lim" using Cons.prems(5,6) by simp_all
    ultimately have "distinct (map fst m') \<and> (\<forall>e \<in> set m'. graph_entry c kv dtype ctx e) \<and>
      (\<exists>r i. for_each_res (preflight_view md) (insert (sp_internal_name sp) (fst ` set m), seen + 1, skipped) views = Ok (fst ` set m', r, i) \<and>
        r \<le> (seen + 1) + length views \<and> i \<le> skipped + length views)"
      using Cons.IH [OF rest Cons.prems(2)] by metis
    then show ?thesis using step by (auto intro: le_trans)
  qed
qed simp

lemma validated_loads:
  assumes "for_each_res (preflight_view md) (fst ` set m, seen, skipped) views = Ok (logical, r, i)" "source_of md c kv"
    and "driver_willing drv (stream_raw st)"
  shows "\<exists>s' m'. load_views drv (stream_ctx st) st md (sd_weight_dtype md) m views s = (s', Ok m') \<and> fst ` set m' = logical"
  using assms(1)
proof (induction views arbitrary: m s seen skipped)
  case (Cons x views)
  obtain hf_name view where x: "x = (hf_name, view)" by (cases x)
  show ?case
  proof (cases "tensor_spec_of hf_name md")
    case None
    then show ?thesis
      using Cons.IH Cons.prems by (auto simp: x preflight_view_def preflight_table)
  next
    case (Some sp)
    note G = spec_of_graph [OF assms(2) Some]
    obtain n where n: "check_view md hf_name view (sp_hf_shape sp) = Ok n" "checked_mul n (st_size (tv_dtype view)) = Some (length (tv_data view))"
      and fresh: "sp_internal_name sp \<notin> fst ` set m"
      and rest: "for_each_res (preflight_view md) (insert (sp_internal_name sp) (fst ` set m), seen + 1, skipped) views = Ok (logical, r, i)"
      using Cons.prems Some by (auto simp: x preflight_view_def preflight_table checked_add_def split: if_split_asm)
    obtain host where host: "host_of_view md (sd_weight_dtype md) hf_name view sp = Ok host"
      using host_of_view_accepts [OF _ G(1)] n unfolding view_fits_def by blast
    obtain u t where up: "upload_host_tensor drv (stream_ctx st) st host s = (u, Ok t)"
      using willing_upload [OF assms(3) fits_bytes [OF host G(1)]] by blast
    let ?m = "m @ [(sp_internal_name sp, sp_internal_shape sp, t)]"
    have "insert (sp_internal_name sp) (fst ` set m) = fst ` set ?m" by simp
    then obtain s' m' where "load_views drv (stream_ctx st) st md (sd_weight_dtype md) ?m views u = (s', Ok m')" "fst ` set m' = logical"
      using Cons.IH [of ?m "seen + 1" skipped u] rest by auto
    moreover have "insert_tensor drv m (sp_internal_name sp) (sp_internal_shape sp) t u = (u, Ok ?m)"
      unfolding insert_tensor_Ok using fresh by simp
    ultimately show ?thesis using Some host up by (simp add: x rt_bind_def or_release_def)
  qed
qed simp

end
