(* ===== verification/SafetensorsEquiv.thy ===== *)
theory SafetensorsEquiv
  imports SafetensorsAgree
begin

text \<open>
  The preflight against the loader: on a directory that does not change and with a driver that works, a source passes the
  preflight exactly if it loads.
\<close>

section \<open>The graph that is built validates\<close>

lemma graph_validates:
  assumes c: "config_validate c = Ok ()" "key_value_width c = Ok kv"
    and f: "\<forall>name \<in> fst ` set (graph_shapes c kv). tensor_dtype (f name) = mc_weight_dtype c \<and> tensor_context (f name) = ctx"
  shows "weights_validate c (graph_of c kv f) = Ok ()"
proof -
  have outer: "check_all expect_shape (outer_expectations c (graph_of c kv f)) = Ok ()"
    unfolding check_all_Ok_iff outer_expectations_def graph_of_def by simp
  have one: "\<forall>e \<in> set (layer_expectations c kv (i, layer_of c kv f i)). expect_shape e = Ok ()" for i
    by (simp add: layer_expectations_def layer_of_def Let_def)
  have layers: "enumerate 0 (wt_layers (graph_of c kv f)) = map (\<lambda>i. (i, layer_of c kv f i)) [0..<mc_num_hidden_layers c]"
    by (simp add: graph_of_def enumerate_map_upt)
  have inner: "check_all expect_shape (concat (map (layer_expectations c kv) (enumerate 0 (wt_layers (graph_of c kv f))))) = Ok ()"
    unfolding check_all_Ok_iff layers using one by auto
  have "lit ''token_embedding'' \<in> fst ` set (graph_shapes c kv)" by (simp add: graph_shapes_def)
  then have same: "weights_context (graph_of c kv f) = ctx" using bspec [OF f] by (simp add: weights_context_def graph_of_def)
  have each: "check_tensor ''config'' (mc_weight_dtype c) ctx name (f name) = Ok ()" if "name \<in> fst ` set (graph_shapes c kv)" for name
    using bspec [OF f that] by (simp add: check_tensor_def)
  have tensors: "for_each_logical_tensor (\<lambda>(name, t, _). check_tensor ''config'' (mc_weight_dtype c) (weights_context (graph_of c kv f)) name t)
      (graph_of c kv f) = Ok ()"
    unfolding for_each_logical_tensor_def check_all_Ok_iff graph_of_tensors same set_map using each [OF imageI] by (simp add: split_beta)
  have len: "length (wt_layers (graph_of c kv f)) = mc_num_hidden_layers c" by (simp add: graph_of_def)
  show ?thesis unfolding weights_validate_def c and_then_simps len outer inner using tensors by simp
qed

text \<open>A map with one fitting entry for every name makes a model.\<close>

lemma entries_build:
  assumes s: "key_value_width c = Ok kv" "config_validate c = Ok ()" and m: "distinct (map fst m)" "\<forall>e \<in> set m. graph_entry c kv (mc_weight_dtype c) ctx e"
    and all: "fst ` set m = fst ` set (graph_shapes c kv)"
  shows "\<exists>w. build_model_weights m c = Ok w"
proof -
  have at: "\<exists>t. map_of m name = Some (shape, t) \<and> graph_entry c kv (mc_weight_dtype c) ctx (name, shape, t)"
    if "(name, shape) \<in> set (graph_shapes c kv)" for name shape
  proof -
    have "name \<in> fst ` set m" using that all by force
    then obtain shape' t where e: "(name, shape', t) \<in> set m" by force
    then have "graph_entry c kv (mc_weight_dtype c) ctx (name, shape', t)" using m(2) by blast
    moreover from this have "shape' = shape"
      using that distinct_graph_shapes [of c kv] by (auto simp: graph_entry_def dest: eq_key_imp_eq_value)
    ultimately show ?thesis using m(1) e by auto
  qed
  have fits: "\<forall>x \<in> set (graph_shapes c kv). entry_fits m x"
    using at by (fastforce simp: entry_fits_def graph_entry_def)
  have "\<forall>name \<in> fst ` set (graph_shapes c kv). tensor_dtype (tensor_at m name) = mc_weight_dtype c \<and> tensor_context (tensor_at m name) = ctx"
    using at by (fastforce simp: tensor_at_def graph_entry_def)
  from graph_validates [OF s(2,1) this] show ?thesis unfolding build_Ok using s(1) fits all by auto
qed

lemma built_names:
  assumes "build_model_weights m c = Ok w" "source_of md c kv"
  shows "fst ` set m = fst ` set (graph_shapes c kv)"
proof -
  obtain kv' where "key_value_width c = Ok kv'" and b: "\<forall>x \<in> set (graph_shapes c kv'). entry_fits m x"
    "fst ` set m \<subseteq> fst ` set (graph_shapes c kv')"
    using assms(1) unfolding build_Ok by blast
  then have kv: "kv' = kv" using assms(2) by (simp add: source_of_def)
  have "name \<in> fst ` set m" if "entry_fits m (name, shape)" for name shape
    using that unfolding entry_fits_def prod.case by (metis map_of_SomeD fst_conv image_eqI)
  then show ?thesis using b unfolding kv by (metis (no_types, lifting) image_subsetI prod.collapse subset_antisym)
qed

section \<open>Files that do not change\<close>

definition steady :: "('s, 'a) rt_comp \<Rightarrow> bool" where
  "steady m \<longleftrightarrow> (\<forall>s s'. snd (m s) = snd (m s'))"

lemma steady_gives: "gives m r \<Longrightarrow> steady m"
  by (simp add: gives_def steady_def)

lemma steady_Ok: "steady m \<Longrightarrow> m s = (t, r) \<Longrightarrow> \<exists>t'. m s' = (t', r)"
  unfolding steady_def by (metis prod.collapse snd_conv)

lemma steady_bind:
  assumes "steady m" "\<And>a. steady (k a)"
  shows "steady (rt_bind m k)"
  unfolding steady_def
proof (intro allI)
  fix s s'
  obtain t r where m: "m s = (t, r)" by (cases "m s")
  obtain t' where m': "m s' = (t', r)" using steady_Ok [OF assms(1) m] by blast
  have "snd (k a t) = snd (k a t')" for a using assms(2) unfolding steady_def by blast
  then show "snd (rt_bind m k s) = snd (rt_bind m k s')" by (cases r) (simp_all add: rt_bind_def m m')
qed

lemma steady_simps: "steady (rt_lift r)" "steady (rt_ok a)"
  by (rule steady_gives, rule gives_lift) (rule steady_gives, rule gives_ok)

lemma steady_read: "fs_shows fs v \<Longrightarrow> steady (read_confined_model_file fs d relative operation)"
  by (rule steady_gives) (rule gives_confined_read)

lemma steady_exists: "fs_shows fs v \<Longrightarrow> steady (confined_regular_file_exists fs d relative)"
  by (rule steady_gives) (rule gives_confined_exists)

lemma steady_collect: "fs_shows fs v \<Longrightarrow> steady (collect_shards fs d files rest)"
  by (induction rest arbitrary: files) (auto intro!: steady_bind steady_simps steady_exists simp del: rt_simps)

lemma steady_discover: "fs_shows fs v \<Longrightarrow> steady (discover_weight_files fs pr d)"
  unfolding discover_weight_files_def by (auto intro!: steady_bind steady_simps steady_exists steady_read steady_collect simp del: rt_simps)

lemma steady_metadata: "fs_shows fs v \<Longrightarrow> steady (parse_metadata fs pr d)"
  unfolding parse_metadata_def by (intro steady_bind steady_simps steady_read)

lemma steady_open: "fs_shows fs v \<Longrightarrow> steady (open_shard fs pr d path)"
  unfolding open_shard_def by (intro steady_bind steady_simps steady_read)

lemma steady_shards: "fs_shows fs v \<Longrightarrow> steady (validate_shards fs pr d md acc paths)"
proof (induction paths arbitrary: acc)
  case (Cons path paths)
  obtain logical seen skipped where "acc = (logical, seen, skipped)" by (cases acc)
  then show ?case using Cons
    by (auto simp: validate_shard_def intro!: steady_bind steady_simps steady_open simp del: rt_simps)
qed (simp add: steady_simps)

lemma steady_preflight: "fs_shows fs v \<Longrightarrow> steady (preflight_hf_safetensors_source fs pr cfg)"
  unfolding preflight_hf_safetensors_source_def Let_def
  by (auto intro!: steady_bind steady_simps steady_metadata steady_discover steady_shards simp del: rt_simps)

text \<open>The number of tensors in the shards that are found.\<close>

definition shard_tensors :: "('s, 'h) file_system \<Rightarrow> parsers \<Rightarrow> rstr \<Rightarrow> 's rt \<Rightarrow> rstr \<Rightarrow> nat" where
  "shard_tensors fs pr d s path = (case snd (open_shard fs pr d path s) of Inl _ \<Rightarrow> 0 | Inr views \<Rightarrow> length views)"

definition source_tensors :: "('s, 'h) file_system \<Rightarrow> parsers \<Rightarrow> rstr \<Rightarrow> 's rt \<Rightarrow> nat" where
  "source_tensors fs pr d s =
     (case snd (discover_weight_files fs pr d s) of Inl _ \<Rightarrow> 0 | Inr files \<Rightarrow> sum_list (map (shard_tensors fs pr d s) files))"

section \<open>Loading and validating all shards\<close>

fun held_bytes :: "device_tensor \<Rightarrow> nat" where
  "held_bytes (T_F32 b) = size_bytes 4 b"
| "held_bytes (T_Bf16 b) = size_bytes 2 b"

definition live_tensor :: "device_tensor \<Rightarrow> bool" where
  "live_tensor t \<longleftrightarrow> (buf_ptr (tensor_buffer t) = 0 \<longrightarrow> tensor_len t = 0) \<and> held_bytes t < u64_lim"

lemma from_host_bytes: "device_buffer_from_host drv n ctx st src s = (t, Ok b) \<Longrightarrow> size_bytes n b < u64_lim"
proof -
  assume run: "device_buffer_from_host drv n ctx st src s = (t, Ok b)"
  then obtain u where "device_buffer_new drv n ctx (length src) s = (u, Ok b)"
    by (auto simp: device_buffer_from_host_def rt_bind_Ok or_drop_Ok)
  then have "length src * n < u64_lim"
    by (auto simp: device_buffer_new_def rt_bind_Ok checked_mul_def split: option.splits if_split_asm)
  then show ?thesis using copied_len [OF run] by (simp add: size_bytes_def)
qed

lemma upload_live:
  assumes "driver_willing drv x" "upload_host_tensor drv ctx st host s = (t, Ok d)"
  shows "live_tensor d"
proof (cases host)
  case (H_F32 vs)
  then obtain b where b: "device_buffer_from_host drv 4 ctx st (map f32_bytes vs) s = (t, Ok b)" and d: "d = T_F32 b"
    using assms(2) by (auto simp: rt_bind_Ok)
  show ?thesis using from_host_live [OF assms(1) b] from_host_bytes [OF b] copied_len [OF b] d by (simp add: live_tensor_def tensor_len_def)
next
  case (H_Bf16 vs)
  then obtain b where b: "device_buffer_from_host drv 2 ctx st (map bf16_bytes vs) s = (t, Ok b)" and d: "d = T_Bf16 b"
    using assms(2) by (auto simp: rt_bind_Ok)
  show ?thesis using from_host_live [OF assms(1) b] from_host_bytes [OF b] copied_len [OF b] d by (simp add: live_tensor_def tensor_len_def)
qed

lemma load_views_live:
  assumes "load_views drv ctx st md dtype m views s = (s', Ok m')" "driver_willing drv x" "\<forall>e \<in> set m. live_tensor (snd (snd e))"
  shows "(\<forall>e \<in> set m'. live_tensor (snd (snd e))) \<and> length m' \<le> length m + length views"
  using assms(1,3)
proof (induction views arbitrary: m s)
  case (Cons y views)
  obtain hf_name view where y: "y = (hf_name, view)" by (cases y)
  show ?case
  proof (cases "tensor_spec_of hf_name md")
    case None
    then show ?thesis using Cons.IH [of m s] Cons.prems by (auto simp: y)
  next
    case (Some sp)
    obtain u host t where up: "upload_host_tensor drv ctx st host s = (u, Ok t)"
      and rest: "load_views drv ctx st md dtype (m @ [(sp_internal_name sp, sp_internal_shape sp, t)]) views u = (s', Ok m')"
      using Cons.prems(1) Some by (auto simp: y rt_bind_Ok or_release_Ok insert_tensor_Ok)
    show ?thesis using Cons.IH [OF rest] Cons.prems(2) upload_live [OF assms(2) up] by auto
  qed
qed simp

lemma load_shards_validated:
  assumes "load_shards drv fs pr ctx st d md dtype m paths s = (s', Ok m')" "fs_shows fs v" "driver_willing drv x" "source_of md c kv"
    and "distinct (map fst m)" "\<forall>e \<in> set m. graph_entry c kv dtype ctx e \<and> live_tensor (snd (snd e))"
    and "seen + sum_list (map (shard_tensors fs pr d s0) paths) < u64_lim" "skipped + sum_list (map (shard_tensors fs pr d s0) paths) < u64_lim"
  shows "distinct (map fst m') \<and> (\<forall>e \<in> set m'. graph_entry c kv dtype ctx e \<and> live_tensor (snd (snd e))) \<and>
    length m' \<le> length m + sum_list (map (shard_tensors fs pr d s0) paths) \<and>
    (\<exists>t r i. validate_shards fs pr d md (fst ` set m, seen, skipped) paths s1 = (t, Ok (fst ` set m', r, i)))"
  using assms(1,5-8)
proof (induction paths arbitrary: m s seen skipped s1)
  case (Cons path paths)
  obtain u views w mm where opened: "open_shard fs pr d path s = (u, Ok views)" and views: "load_views drv ctx st md dtype m views u = (w, Ok mm)"
    and rest: "load_shards drv fs pr ctx st d md dtype mm paths w = (s', Ok m')"
    using Cons.prems(1) by (auto simp: load_shard_def rt_bind_Ok or_release_Ok)
  have "steady (open_shard fs pr d path)" by (rule steady_open [OF assms(2)])
  then have snd: "snd (open_shard fs pr d path s0) = Ok views" using opened unfolding steady_def by (metis snd_conv)
  then have n: "shard_tensors fs pr d s0 path = length views" by (simp add: shard_tensors_def)
  obtain t1 where t1: "open_shard fs pr d path s1 = (t1, Ok views)" using steady_Ok [OF steady_open [OF assms(2)] opened] by blast
  have entries: "\<forall>e \<in> set m. graph_entry c kv dtype ctx e" using Cons.prems(3) by blast
  from load_views_validated [OF views assms(4) Cons.prems(2) entries, of 0 0] Cons.prems(4) n
  obtain r i where mm: "distinct (map fst mm)" "\<forall>e \<in> set mm. graph_entry c kv dtype ctx e"
    and ri: "for_each_res (preflight_view md) (fst ` set m, 0, 0) views = Ok (fst ` set mm, r, i)" "r \<le> length views" "i \<le> length views"
    by auto
  have live: "\<forall>e \<in> set mm. live_tensor (snd (snd e))" and len: "length mm \<le> length m + length views"
    using load_views_live [OF views assms(3)] Cons.prems(3) by auto
  have bounds: "(seen + r) + sum_list (map (shard_tensors fs pr d s0) paths) < u64_lim"
    "(skipped + i) + sum_list (map (shard_tensors fs pr d s0) paths) < u64_lim" using Cons.prems(4,5) n ri(2,3) by auto
  have both: "\<forall>e \<in> set mm. graph_entry c kv dtype ctx e \<and> live_tensor (snd (snd e))" using mm(2) live by blast
  note IH = Cons.IH [OF rest mm(1) both bounds, of t1]
  then obtain t r' i' where v: "validate_shards fs pr d md (fst ` set mm, seen + r, skipped + i) paths t1 = (t, Ok (fst ` set m', r', i'))" by blast
  have "seen + r < u64_lim" "skipped + i < u64_lim" using bounds by simp_all
  then have "validate_shards fs pr d md (fst ` set m, seen, skipped) (path # paths) s1 = (t, Ok (fst ` set m', r', i'))"
    using t1 ri(1) v by (simp add: validate_shard_def rt_bind_def checked_add_def)
  then show ?case using IH len n by auto
qed simp

lemma validated_shards_load:
  assumes "validate_shards fs pr d md (fst ` set m, seen, skipped) paths s1 = (t1, Ok (logical, r, i))" "fs_shows fs v" "source_of md c kv"
    and "driver_willing drv (stream_raw st)"
  shows "\<exists>s' m'. load_shards drv fs pr (stream_ctx st) st d md (sd_weight_dtype md) m paths s = (s', Ok m') \<and> fst ` set m' = logical"
  using assms(1)
proof (induction paths arbitrary: m s s1 seen skipped)
  case (Cons path paths)
  obtain u views names r1 i1 sn sk where opened: "open_shard fs pr d path s1 = (u, Ok views)"
    and ok: "for_each_res (preflight_view md) (fst ` set m, 0, 0) views = Ok (names, r1, i1)"
    and rest: "validate_shards fs pr d md (names, sn, sk) paths u = (t1, Ok (logical, r, i))"
    using Cons.prems by (auto simp: validate_shard_def rt_bind_Ok rt_lift_Ok split: prod.splits)
  obtain w where w: "open_shard fs pr d path s = (w, Ok views)" using steady_Ok [OF steady_open [OF assms(2)] opened] by blast
  obtain x mm where mm: "load_views drv (stream_ctx st) st md (sd_weight_dtype md) m views w = (x, Ok mm)" "fst ` set mm = names"
    using validated_loads [OF ok assms(3,4)] by blast
  then obtain s' m' where "load_shards drv fs pr (stream_ctx st) st d md (sd_weight_dtype md) mm paths x = (s', Ok m')" "fst ` set m' = logical"
    using Cons.IH rest by blast
  then show ?case using w mm(1) by (simp add: load_shard_def rt_bind_def or_release_def)
qed simp

section \<open>The tied head\<close>

lemma entry_shape:
  "graph_entry c kv dtype ctx (lit ''token_embedding'', shape, t) \<Longrightarrow> shape = [mc_vocab_size c, mc_hidden_size c]"
  using eq_key_imp_eq_value [OF distinct_graph_shapes [of c kv], of "lit ''token_embedding''" shape "[mc_vocab_size c, mc_hidden_size c]"]
  by (simp add: graph_entry_def) (simp add: graph_shapes_def)

lemma tied_head_ok:
  assumes W: "driver_willing drv (stream_raw st)" and c: "metadata_to_model_config md = Ok c"
    and e: "graph_entry c kv dtype (stream_ctx st) (lit ''token_embedding'', shape, t)" and live: "live_tensor t"
  shows "\<exists>u host. tied_head drv st md t s = (u, Ok host) \<and> host_bytes host < u64_lim"
proof -
  note F = config_fields [OF c]
  let ?shape = "[sd_vocab_size md, sd_hidden_size md]"
  have len: "tensor_len t = sd_vocab_size md * sd_hidden_size md" and small: "sd_vocab_size md * sd_hidden_size md < u64_lim"
    and ctx: "tensor_context t = stream_ctx st"
    using e entry_shape [OF e] F by (simp_all add: graph_entry_def)
  show ?thesis
  proof (cases t)
    case (T_F32 b)
    obtain u bs where u: "buffer_to_vec drv 4 b st s = (u, Ok bs)" "length bs = size_bytes 4 b"
      using willing_to_vec [OF W, of b 4 s] ctx live T_F32 by (auto simp: tensor_context_def live_tensor_def tensor_len_def size_bytes_def)
    have n: "host_len (H_F32 (f32s_of_bytes bs)) = sd_vocab_size md * sd_hidden_size md"
      using u(2) len T_F32 by (simp add: decoded_lengths size_bytes_def tensor_len_def)
    obtain host where host: "transpose_host (H_F32 (f32s_of_bytes bs)) ?shape = Ok host" "host_len host = sd_vocab_size md * sd_hidden_size md"
      "host_dtype host = W_F32"
      using transpose_host_keeps [OF n small] n by auto
    have "host_bytes host < u64_lim" using host live len T_F32 by (cases host) (simp_all add: live_tensor_def tensor_len_def size_bytes_def)
    then show ?thesis using T_F32 u(1) host(1) by (simp add: rt_bind_def del: transpose_host.simps)
  next
    case (T_Bf16 b)
    obtain u bs where u: "buffer_to_vec drv 2 b st s = (u, Ok bs)" "length bs = size_bytes 2 b"
      using willing_to_vec [OF W, of b 2 s] ctx live T_Bf16 by (auto simp: tensor_context_def live_tensor_def tensor_len_def size_bytes_def)
    have n: "host_len (H_Bf16 (bf16s_of_bytes bs)) = sd_vocab_size md * sd_hidden_size md"
      using u(2) len T_Bf16 by (simp add: decoded_lengths size_bytes_def tensor_len_def)
    obtain host where host: "transpose_host (H_Bf16 (bf16s_of_bytes bs)) ?shape = Ok host" "host_len host = sd_vocab_size md * sd_hidden_size md"
      "host_dtype host = W_Bf16"
      using transpose_host_keeps [OF n small] n by auto
    have "host_bytes host < u64_lim" using host live len T_Bf16 by (cases host) (simp_all add: live_tensor_def tensor_len_def size_bytes_def)
    then show ?thesis using T_Bf16 u(1) host(1) by (simp add: rt_bind_def del: transpose_host.simps)
  qed
qed

text \<open>The head that is inserted has the shape and the type that the graph needs.\<close>

lemma transpose_host_Ok:
  assumes "transpose_host h [r, k] = Ok g"
  shows "host_len h = r * k \<and> r * k < u64_lim \<and> host_len g = r * k \<and> host_dtype g = host_dtype h"
proof -
  have n: "host_len h = r * k" "r * k < u64_lim"
    using assms by (cases h; auto simp: transpose_matrix_def checked_mul_def Let_def split: if_split_asm)+
  show ?thesis using transpose_host_keeps [OF n] assms n by auto
qed

lemma tied_head_host:
  assumes "tied_head drv st md t s = (u, Ok host)"
  shows "host_dtype host = tensor_dtype t \<and> host_len host = sd_vocab_size md * sd_hidden_size md \<and> sd_vocab_size md * sd_hidden_size md < u64_lim"
  using assms
  by (cases t) (auto simp: rt_bind_Ok rt_lift_Ok simp del: transpose_host.simps dest!: transpose_host_Ok)

lemma add_tied_Ok:
  assumes "add_tied_lm_head_if_needed drv ctx st md m s = (s', Ok m')" "source_of md c kv"
    and "\<forall>e \<in> set m. graph_entry c kv dtype ctx e"
  shows "if sd_tie_word_embeddings md \<and> lit ''lm_head'' \<notin> fst ` set m then
      \<exists>t. m' = m @ [(lit ''lm_head'', [sd_hidden_size md, sd_vocab_size md], t)] else m' = m"
  using assms(1)
  by (auto simp: add_tied_lm_head_if_needed_def map_of_eq_None_iff rt_bind_Ok insert_tensor_Ok split: if_split_asm)

lemma tied_added:
  assumes W: "driver_willing drv (stream_raw st)" and src: "source_of md c kv"
    and m: "\<forall>e \<in> set m. graph_entry c kv dtype (stream_ctx st) e \<and> live_tensor (snd (snd e))"
    and tie: "sd_tie_word_embeddings md" "lit ''lm_head'' \<notin> fst ` set m" "lit ''token_embedding'' \<in> fst ` set m"
  shows "\<exists>s' t. add_tied_lm_head_if_needed drv (stream_ctx st) st md m s =
      (s', Ok (m @ [(lit ''lm_head'', [sd_hidden_size md, sd_vocab_size md], t)])) \<and>
    graph_entry c kv dtype (stream_ctx st) (lit ''lm_head'', [sd_hidden_size md, sd_vocab_size md], t)"
proof -
  have c: "metadata_to_model_config md = Ok c" using src by (simp add: source_of_def)
  obtain shape e where at: "map_of m (lit ''token_embedding'') = Some (shape, e)"
    using tie(3) by (cases "map_of m (lit ''token_embedding'')") (auto simp: map_of_eq_None_iff)
  then have e: "graph_entry c kv dtype (stream_ctx st) (lit ''token_embedding'', shape, e)" "live_tensor e" using m map_of_SomeD by fastforce+
  obtain u host where host: "tied_head drv st md e s = (u, Ok host)" "host_bytes host < u64_lim" using tied_head_ok [OF W c e] by blast
  obtain w t where t: "upload_host_tensor drv (stream_ctx st) st host u = (w, Ok t)" using willing_upload [OF W host(2)] by blast
  have none: "map_of m (lit ''lm_head'') = None" using tie(2) by (simp add: map_of_eq_None_iff)
  let ?m = "m @ [(lit ''lm_head'', [sd_hidden_size md, sd_vocab_size md], t)]"
  have put: "insert_tensor drv m (lit ''lm_head'') [sd_hidden_size md, sd_vocab_size md] t w = (w, Ok ?m)"
    unfolding insert_tensor_Ok using tie(2) by simp
  have "add_tied_lm_head_if_needed drv (stream_ctx st) st md m s = (w, Ok ?m)"
    using none tie(1) at host(1) t put by (simp add: add_tied_lm_head_if_needed_def rt_bind_def or_release_def)
  moreover have "graph_entry c kv dtype (stream_ctx st) (lit ''lm_head'', [sd_hidden_size md, sd_vocab_size md], t)"
    using upload_Ok [OF t] tied_head_host [OF host(1)] e(1) config_fields [OF c]
    by (simp add: graph_entry_def uploaded_def graph_shapes_def mult.commute)
  ultimately show ?thesis by blast
qed

section \<open>Agreement\<close>

lemma parsed_source:
  assumes "parse_metadata fs pr d s = (t, Ok md)"
  shows "\<exists>c kv. source_of md c kv \<and> config_validate c = Ok () \<and> execution_config_for_dtype c None = Ok c \<and> mc_weight_dtype c = sd_weight_dtype md"
proof -
  obtain bytes where "parse_metadata_bytes pr bytes = Ok md" using assms by (auto simp: parse_metadata_def rt_bind_Ok rt_lift_Ok)
  from metadata_config [OF this] obtain c where c: "metadata_to_model_config md = Ok c" "validate_execution_support c = Ok ()" "sd_head_dim md = mc_head_dim c"
    by blast
  note F = config_fields [OF c(1)]
  show ?thesis using c F config_validate_head_dim(2) [OF F(7)] by (auto simp: source_of_def execution_config_for_dtype_def)
qed

lemma expected_card:
  assumes "metadata_to_model_config md = Ok c"
  shows "card (expected_logical_tensors md) = length (graph_shapes c kv)"
  unfolding expected_names [OF assms, of kv] using distinct_card [OF distinct_graph_shapes [of c kv]] by simp

lemma graph_names: "\<forall>e \<in> set m. graph_entry c kv dtype ctx e \<Longrightarrow> fst ` set m \<subseteq> fst ` set (graph_shapes c kv)"
proof (rule image_subsetI)
  fix e
  assume "\<forall>e \<in> set m. graph_entry c kv dtype ctx e" "e \<in> set m"
  then have "graph_entry c kv dtype ctx e" by blast
  then show "fst e \<in> fst ` set (graph_shapes c kv)" by (cases e) (force simp: graph_entry_def)
qed

lemma preflight_passes:
  assumes "fs_shows fs v" and W: "driver_willing drv (stream_raw st)" and count: "source_tensors fs pr (lc_local_dir cfg) s + 1 < u64_lim"
    and pass: "preflight_hf_safetensors_source fs pr cfg s = (t, Ok r)"
  shows "\<exists>u c w. load_model_from_safetensors drv fs pr (stream_ctx st) st cfg s = (u, Ok (c, w)) \<and>
    metadata_to_model_config (pf_metadata r) = Ok c \<and> pf_logical_tensor_count r = length (logical_tensors w)"
proof -
  let ?d = "lc_local_dir cfg"
  obtain t1 md t2 files t3 logical rec ign tied n where md: "parse_metadata fs pr ?d s = (t1, Ok md)"
    and files: "discover_weight_files fs pr ?d t1 = (t2, Ok files)" and shards: "validate_shards fs pr ?d md ({}, 0, 0) files t2 = (t3, Ok (logical, rec, ign))"
    and tied: "validate_logical_set logical md = Ok tied" and n: "n = card (expected_logical_tensors md)"
    and r: "pf_metadata r = md" "pf_logical_tensor_count r = n"
    using pass unfolding preflight_hf_safetensors_source_def by (auto simp: rt_bind_Ok rt_lift_Ok Let_def split: prod.splits if_split_asm)
  obtain c kv where src: "source_of md c kv" and c: "config_validate c = Ok ()" "execution_config_for_dtype c None = Ok c" "mc_weight_dtype c = sd_weight_dtype md"
    using parsed_source [OF md] by blast
  have conv: "metadata_to_model_config md = Ok c" and width: "key_value_width c = Ok kv" using src by (simp_all add: source_of_def)
  have "snd (discover_weight_files fs pr ?d s) = Ok files" using steady_discover [OF assms(1)] files unfolding steady_def by (metis snd_conv)
  then have total: "sum_list (map (shard_tensors fs pr ?d s) files) + 1 < u64_lim" using count by (simp add: source_tensors_def)
  have shards': "validate_shards fs pr ?d md (fst ` set [], 0, 0) files t2 = (t3, Ok (logical, rec, ign))" using shards by simp
  obtain t4 m where load: "load_shards drv fs pr (stream_ctx st) st ?d md (sd_weight_dtype md) [] files t2 = (t4, Ok m)" and names: "fst ` set m = logical"
    using validated_shards_load [OF shards' assms(1) src W] by blast
  from load_shards_validated [OF load assms(1) W src, of 0 s 0] total
  have dist: "distinct (map fst m)" and entries: "\<forall>e \<in> set m. graph_entry c kv (sd_weight_dtype md) (stream_ctx st) e \<and> live_tensor (snd (snd e))"
    by auto
  have sub: "fst ` set m \<subseteq> fst ` set (graph_shapes c kv)" using graph_names entries by blast
  have "\<exists>t5 m'. add_tied_lm_head_if_needed drv (stream_ctx st) st md m t4 = (t5, Ok m') \<and> distinct (map fst m') \<and>
    (\<forall>e \<in> set m'. graph_entry c kv (sd_weight_dtype md) (stream_ctx st) e) \<and> fst ` set m' = fst ` set (graph_shapes c kv)"
  proof (cases tied)
    case True
    then have t: "sd_tie_word_embeddings md" "lit ''lm_head'' \<notin> fst ` set m" "fst ` set (graph_shapes c kv) - {lit ''lm_head''} \<subseteq> fst ` set m"
      using tied names unfolding expected_names [OF conv, of kv, symmetric] by (auto simp: validate_logical_set_def Let_def split: if_split_asm)
    have "lit ''token_embedding'' \<in> fst ` set (graph_shapes c kv) - {lit ''lm_head''}" by (simp add: graph_shapes_def lit_eq_iff)
    then have "lit ''token_embedding'' \<in> fst ` set m" using t(3) by blast
    from tied_added [OF W src entries t(1,2) this] obtain t5 x
      where x: "add_tied_lm_head_if_needed drv (stream_ctx st) st md m t4 = (t5, Ok (m @ [(lit ''lm_head'', [sd_hidden_size md, sd_vocab_size md], x)]))"
        "graph_entry c kv (sd_weight_dtype md) (stream_ctx st) (lit ''lm_head'', [sd_hidden_size md, sd_vocab_size md], x)" by blast
    have "lit ''lm_head'' \<in> fst ` set (graph_shapes c kv)" by (simp add: graph_shapes_def)
    then show ?thesis using x dist entries t(2,3) sub by auto
  next
    case False
    then have "expected_logical_tensors md \<subseteq> fst ` set m"
      using tied names by (auto simp: validate_logical_set_def Let_def split: if_split_asm)
    then have eq: "fst ` set m = fst ` set (graph_shapes c kv)" using sub expected_names [OF conv, of kv] by blast
    then have "lit ''lm_head'' \<in> fst ` set m" by (simp add: graph_shapes_def)
    then have "map_of m (lit ''lm_head'') \<noteq> None" by (simp add: map_of_eq_None_iff)
    then show ?thesis using eq dist entries by (simp add: add_tied_lm_head_if_needed_def)
  qed
  then obtain t5 m' where add: "add_tied_lm_head_if_needed drv (stream_ctx st) st md m t4 = (t5, Ok m')" and m': "distinct (map fst m')"
    "\<forall>e \<in> set m'. graph_entry c kv (mc_weight_dtype c) (stream_ctx st) e" "fst ` set m' = fst ` set (graph_shapes c kv)"
    unfolding c(3) by blast
  obtain w where w: "build_model_weights m' c = Ok w" using entries_build [OF width c(1) m'] by blast
  then have "length (logical_tensors w) = length (graph_shapes c kv)"
    unfolding build_Ok using src by (auto simp: source_of_def graph_of_tensors)
  then have "pf_logical_tensor_count r = length (logical_tensors w)" using r n expected_card [OF conv, of kv] by simp
  moreover have "load_model_from_safetensors drv fs pr (stream_ctx st) st cfg s = (t5, Ok (c, w))"
    using md conv c files load add w by (simp add: load_model_from_safetensors_def load_model_from_safetensors_inner_def rt_bind_def or_release_def)
  ultimately show ?thesis using r(1) conv by blast
qed

lemma loaded_passes:
  assumes "fs_shows fs v" and W: "driver_willing drv (stream_raw st)" and count: "source_tensors fs pr (lc_local_dir cfg) s + 1 < u64_lim"
    and load: "load_model_from_safetensors drv fs pr (stream_ctx st) st cfg s = (u, Ok (c, w))"
  shows "\<exists>t r. preflight_hf_safetensors_source fs pr cfg s = (t, Ok r)"
proof -
  let ?d = "lc_local_dir cfg"
  obtain t1 md src exec t2 files t3 m t4 m' where md: "parse_metadata fs pr ?d s = (t1, Ok md)" and src0: "metadata_to_model_config md = Ok src"
    and exec: "execution_config_for_dtype src None = Ok exec" and files: "discover_weight_files fs pr ?d t1 = (t2, Ok files)"
    and shards: "load_shards drv fs pr (stream_ctx st) st ?d md (mc_weight_dtype exec) [] files t2 = (t3, Ok m)"
    and add: "add_tied_lm_head_if_needed drv (stream_ctx st) st md m t3 = (t4, Ok m')" and built: "build_model_weights m' exec = Ok w"
    using load unfolding load_model_from_safetensors_def load_model_from_safetensors_inner_def
    by (auto simp: rt_bind_Ok rt_lift_Ok or_release_Ok)
  obtain c' kv where src: "source_of md c' kv" and c: "execution_config_for_dtype c' None = Ok c'" "mc_weight_dtype c' = sd_weight_dtype md"
    using parsed_source [OF md] by blast
  have same: "exec = c'" using src src0 exec c(1) by (simp add: source_of_def)
  have conv: "metadata_to_model_config md = Ok c'" using src by (simp add: source_of_def)
  have "snd (discover_weight_files fs pr ?d s) = Ok files" using steady_discover [OF assms(1)] files unfolding steady_def by (metis snd_conv)
  then have total: "sum_list (map (shard_tensors fs pr ?d s) files) + 1 < u64_lim" using count by (simp add: source_tensors_def)
  have "distinct (map fst [])" "\<forall>e \<in> set []. graph_entry c' kv (mc_weight_dtype exec) (stream_ctx st) e \<and> live_tensor (snd (snd e))"
    "0 + sum_list (map (shard_tensors fs pr ?d s) files) < u64_lim" using total by simp_all
  note L = load_shards_validated [OF shards assms(1) W src this this(3), of t2]
  have dist: "distinct (map fst m)" and both: "\<forall>e \<in> set m. graph_entry c' kv (mc_weight_dtype exec) (stream_ctx st) e \<and> live_tensor (snd (snd e))"
    and short: "length m \<le> length ([] :: loaded_map) + sum_list (map (shard_tensors fs pr ?d s) files)"
    using L by blast+
  have entries: "\<forall>e \<in> set m. graph_entry c' kv (mc_weight_dtype exec) (stream_ctx st) e" using both by blast
  have len: "length m + 1 < u64_lim" using short total by simp
  have "\<exists>t5 r i. validate_shards fs pr ?d md (fst ` set ([] :: loaded_map), 0, 0) files t2 = (t5, Ok (fst ` set m, r, i))" using L by blast
  then obtain t5 r i where v: "validate_shards fs pr ?d md ({}, 0, 0) files t2 = (t5, Ok (fst ` set m, r, i))" by auto
  have names: "fst ` set m' = expected_logical_tensors md" using built_names [OF built [unfolded same] src] expected_names [OF conv, of kv] by simp
  have head: "lit ''lm_head'' \<in> expected_logical_tensors md" by (simp add: expected_logical_tensors_def)
  have card: "card (fst ` set m) = length m" using distinct_card [OF dist] by simp
  have "\<exists>tied. validate_logical_set (fst ` set m) md = Ok tied \<and> card (fst ` set m) + (if tied then 1 else 0) = card (expected_logical_tensors md)"
  proof (cases "sd_tie_word_embeddings md \<and> lit ''lm_head'' \<notin> fst ` set m")
    case True
    then obtain t where "m' = m @ [(lit ''lm_head'', [sd_hidden_size md, sd_vocab_size md], t)]"
      using add_tied_Ok [OF add src entries] by auto
    then have "expected_logical_tensors md = insert (lit ''lm_head'') (fst ` set m)" using names by simp
    then show ?thesis using True by (intro exI [of _ True]) (simp add: validate_logical_set_def Let_def)
  next
    case False
    then have "m' = m" using add_tied_Ok [OF add src entries] by auto
    then show ?thesis using False names head by (auto simp: validate_logical_set_def Let_def)
  qed
  then obtain tied where tied: "validate_logical_set (fst ` set m) md = Ok tied" "card (fst ` set m) + (if tied then 1 else 0) = card (expected_logical_tensors md)"
    by blast
  have small: "card (fst ` set m) + (if tied then 1 else 0) < u64_lim" using len card by auto
  show ?thesis
    unfolding preflight_hf_safetensors_source_def Let_def using md files v tied small
    by (simp add: rt_bind_def checked_add_def split del: if_split)
qed

text \<open>C20. The preflight decides loading.  On a model directory that does not change, and with a driver that carries out what it
  is asked, \<open>preflight_hf_safetensors_source\<close>, which never touches the device, passes exactly if
  \<open>load_model_from_safetensors\<close> succeeds: the same configurations, shards, tensor names, shapes, types and sizes are refused,
  duplicates and missing tensors included, and a missing output head is supplied in both when the embeddings are tied.  When
  it passes, its metadata give the configuration of the loaded model and its count is that of the tensors of the loaded
  graph.  (Of the sizes only that the number of tensors fits in a machine integer is supposed.)\<close>

theorem preflight_decides_loading:
  assumes "fs_shows fs v" "driver_willing drv (stream_raw st)" "source_tensors fs pr (lc_local_dir cfg) s + 1 < u64_lim"
  shows "case snd (preflight_hf_safetensors_source fs pr cfg s) of
      Inl _ \<Rightarrow> \<exists>e. snd (load_model_from_safetensors drv fs pr (stream_ctx st) st cfg s) = Err e
    | Inr r \<Rightarrow> \<exists>c w. snd (load_model_from_safetensors drv fs pr (stream_ctx st) st cfg s) = Ok (c, w) \<and>
        metadata_to_model_config (pf_metadata r) = Ok c \<and> pf_logical_tensor_count r = length (logical_tensors w)"
proof (cases "snd (preflight_hf_safetensors_source fs pr cfg s)")
  case (Inl e)
  have "snd (load_model_from_safetensors drv fs pr (stream_ctx st) st cfg s) \<noteq> Ok x" for x
    using loaded_passes [OF assms] Inl by (metis prod.collapse snd_conv sum.distinct(1))
  then show ?thesis using Inl by (cases "snd (load_model_from_safetensors drv fs pr (stream_ctx st) st cfg s)") auto
next
  case (Inr r)
  then have "preflight_hf_safetensors_source fs pr cfg s = (fst (preflight_hf_safetensors_source fs pr cfg s), Ok r)" by (metis prod.collapse)
  from preflight_passes [OF assms this] show ?thesis using Inr by auto
qed

end
