(* ===== verification/SafetensorsMemory.thy ===== *)
theory SafetensorsMemory
  imports SafetensorsEquiv
begin

text \<open>
  What the tensors of a loaded model hold in device memory: the values of the source, transposed where the decoder keeps
  matrices the other way round and widened to F32.
\<close>

section \<open>Reading files leaves the device alone\<close>

definition files_apart :: "('s, 'h) file_system \<Rightarrow> ('s \<Rightarrow> 'b) \<Rightarrow> bool" where
  "files_apart fs f \<longleftrightarrow>
     (\<forall>p g. f (fst (fs_symlink_metadata fs p g)) = f g) \<and> (\<forall>p g. f (fst (fs_canonicalize fs p g)) = f g) \<and>
     (\<forall>p g. f (fst (fs_open_nofollow fs p g)) = f g) \<and> (\<forall>h g. f (fst (fs_handle_metadata fs h g)) = f g) \<and>
     (\<forall>h g. f (fst (fs_read_to_end fs h g)) = f g) \<and> (\<forall>h g. f (fs_close fs h g) = f g)"

lemma keeps_fs_call: "(\<And>g. f (fst (c g)) = f g) \<Longrightarrow> rt_keeps f (fs_call op c)"
  by (simp add: rt_keeps_def fs_call_def split_beta)

lemma keeps_closing: "files_apart fs f \<Longrightarrow> rt_keeps f m \<Longrightarrow> rt_keeps f (closing fs h m)"
  by (simp add: rt_keeps_def closing_def files_apart_def split_beta)

lemma keeps_directory: "files_apart fs f \<Longrightarrow> rt_keeps f (check_model_directory fs d)"
  unfolding check_model_directory_def by (auto simp: files_apart_def intro!: rt_keeps_bind keeps_fs_call simp del: rt_simps)

lemma keeps_walk: "files_apart fs f \<Longrightarrow> rt_keeps f (read_walk fs relative target cs)"
  by (induction cs arbitrary: target) (auto simp: files_apart_def Let_def intro!: rt_keeps_bind keeps_fs_call simp del: rt_simps)

lemma keeps_exists: "files_apart fs f \<Longrightarrow> rt_keeps f (exists_walk fs relative target cs)"
proof (induction cs arbitrary: target)
  case (Cons c cs)
  have kept: "rt_keeps f (rt_bind (rt_lift (check_entry relative (cs = []) meta)) (\<lambda>_. exists_walk fs relative (path_join target c) cs))" for meta
    using Cons by (intro rt_keeps_bind) auto
  show ?case
    unfolding rt_keeps_def
  proof
    fix s :: "'a rt"
    obtain g r where r: "fs_symlink_metadata fs (path_join target c) (gpu s) = (g, r)" by (cases "fs_symlink_metadata fs (path_join target c) (gpu s)")
    then have "f g = f (gpu s)" using Cons.prems unfolding files_apart_def by (metis fst_conv)
    then show "f (gpu (fst (exists_walk fs relative target (c # cs) s))) = f (gpu s)"
      using r kept by (cases r) (simp_all add: Let_def rt_keeps_def)
  qed
qed simp

lemma keeps_confined:
  assumes "files_apart fs f"
  shows "rt_keeps f (confined_regular_file_exists fs d relative)" "rt_keeps f (read_confined_model_file fs d relative operation)"
proof -
  show "rt_keeps f (confined_regular_file_exists fs d relative)"
    unfolding confined_regular_file_exists_def
    by (intro rt_keeps_bind rt_keeps_simps keeps_directory [OF assms] keeps_exists [OF assms])
  show "rt_keeps f (read_confined_model_file fs d relative operation)"
    unfolding read_confined_model_file_def
    by (intro rt_keeps_bind rt_keeps_simps keeps_directory [OF assms] keeps_walk [OF assms] keeps_closing [OF assms] keeps_fs_call)
      (use assms in \<open>simp_all add: files_apart_def\<close>)
qed

lemma keeps_collect: "files_apart fs f \<Longrightarrow> rt_keeps f (collect_shards fs d files rest)"
  by (induction rest arbitrary: files) (auto intro!: rt_keeps_bind keeps_confined simp del: rt_simps)

lemma keeps_source:
  assumes "files_apart fs f"
  shows "rt_keeps f (parse_metadata fs pr d)" "rt_keeps f (discover_weight_files fs pr d)" "rt_keeps f (open_shard fs pr d path)"
proof -
  note K = keeps_confined [OF assms]
  show "rt_keeps f (parse_metadata fs pr d)" unfolding parse_metadata_def by (intro rt_keeps_bind rt_keeps_simps K)
  show "rt_keeps f (discover_weight_files fs pr d)"
    unfolding discover_weight_files_def by (auto intro!: rt_keeps_bind K keeps_collect [OF assms] simp del: rt_simps)
  show "rt_keeps f (open_shard fs pr d path)" unfolding open_shard_def by (intro rt_keeps_bind rt_keeps_simps K)
qed

section \<open>Values\<close>

definition source_values :: "tensor_view \<Rightarrow> f32 list" where
  "source_values view =
     (case tv_dtype view of St_F32 \<Rightarrow> f32s_of_bytes (tv_data view) | _ \<Rightarrow> map bf16_bits_to_f32 (bf16s_of_bytes (tv_data view)))"

text \<open>The rows of a matrix as columns.\<close>

definition turned :: "nat \<Rightarrow> nat \<Rightarrow> f32 list \<Rightarrow> f32 list" where
  "turned rows cols vs = map (\<lambda>i. vs ! (i mod rows * cols + i div rows)) [0..<rows * cols]"

lemma turned_nth:
  assumes "i < cols" "j < rows"
  shows "turned rows cols vs ! (i * rows + j) = vs ! (j * cols + i)"
proof -
  have "i * rows + j < Suc i * rows" using assms(2) by simp
  also have "\<dots> \<le> cols * rows" using assms(1) by (intro mult_le_mono1) simp
  finally have "i * rows + j < cols * rows" .
  moreover have "(i * rows + j) mod rows = j" "(i * rows + j) div rows = i" using assms(2) by simp_all
  ultimately show ?thesis by (simp add: turned_def mult.commute)
qed

lemma host_values:
  assumes "host_of_view md W_F32 hf_name view sp = Ok host" "spec_ok sp"
  shows "host = H_F32 (if sp_transpose sp then turned (sp_hf_shape sp ! 0) (sp_hf_shape sp ! 1) (source_values view) else source_values view) \<and>
    length (source_values view) = prod_list (sp_hf_shape sp)"
proof -
  obtain n h g where n: "check_view md hf_name view (sp_hf_shape sp) = Ok n" and h: "decode_host_tensor (tv_data view) (tv_dtype view) n = Ok h"
    and g: "(if sp_transpose sp then transpose_host h (sp_hf_shape sp) else Ok h) = Ok g" and host: "materialize_host_dtype g W_F32 = Ok host"
    using assms(1) by (auto simp: host_of_view_def)
  note C = check_view_Ok [OF n]
  have np: "n = prod_list (sp_hf_shape sp)" "n < u64_lim" using C assms(2) by (simp_all add: spec_ok_def)
  have vals: "length (source_values view) = n \<and> (case h of H_F32 vs \<Rightarrow> vs = source_values view | H_Bf16 vs \<Rightarrow> map bf16_bits_to_f32 vs = source_values view)"
    using decode_Ok [OF h] h
    by (cases "tv_dtype view") (auto simp: decode_host_tensor_def source_values_def decoded_lengths split: if_split_asm option.splits)
  show ?thesis
  proof (cases "sp_transpose sp")
    case False
    then show ?thesis using g host vals np by (cases h) auto
  next
    case True
    then obtain r k where rk: "sp_hf_shape sp = [r, k]" using assms(2) by (auto simp: spec_ok_def)
    have len: "host_len h = r * k" "r * k < u64_lim" using decode_Ok [OF h] np rk by simp_all
    have inside: "i mod r * k + i div r < r * k" if "i < r * k" for i
    proof -
      have "0 < r" using that by (cases r) simp_all
      then have "i mod r \<le> r - 1" "i div r < k" using that by (auto simp: less_mult_imp_div_less mult.commute Suc_le_eq less_Suc_eq_le [symmetric])
      then have "i mod r * k + i div r < (r - 1) * k + k" by (meson add_le_less_mono mult_le_mono1)
      also have "\<dots> = r * k" using \<open>0 < r\<close> by (cases r) simp_all
      finally show ?thesis .
    qed
    show ?thesis
    proof (cases h)
      case (H_F32 vs)
      then show ?thesis using True g host vals np rk len by (auto simp: transpose_matrix_exact turned_def)
    next
      case (H_Bf16 vs)
      have "map bf16_bits_to_f32 (map (\<lambda>i. vs ! (i mod r * k + i div r)) [0..<r * k]) = turned r k (source_values view)"
        using H_Bf16 vals len inside by (auto simp: turned_def dest!: sym [of "map bf16_bits_to_f32 vs"])
      then show ?thesis using H_Bf16 True g host vals np rk len by (auto simp: transpose_matrix_exact)
    qed
  qed
qed

section \<open>Tensors in memory\<close>

lemma graph_shapes_pos:
  assumes "config_validate c = Ok ()" "key_value_width c = Ok kv" "(name, shape) \<in> set (graph_shapes c kv)"
  shows "0 < prod_list shape"
proof -
  note V = config_validate_Ok [OF assms(1)] and H = config_validate_head_dim [OF assms(1)]
  have "0 < kv" using V(6) H(1,2) assms(2) by simp
  then show ?thesis using assms(3) V(1-3) by (auto simp: graph_shapes_def layer_shapes_def Let_def)
qed

text \<open>A tensor that holds given values.\<close>

definition holds_values :: "('s \<Rightarrow> (nat \<times> nat) set) \<Rightarrow> ('s \<Rightarrow> nat \<Rightarrow> u8) \<Rightarrow> device_tensor \<Rightarrow> f32 list \<Rightarrow> 's rt \<Rightarrow> bool" where
  "holds_values live content t vs s \<longleftrightarrow> (\<exists>b. t = T_F32 b \<and> buf_len b = length vs \<and> stored live content 4 b (concat (map f32_bytes vs)) s)"

lemma holds_live:
  "holds_values live content t vs s \<Longrightarrow> preserves live content (live (gpu s)) s s' \<Longrightarrow> holds_values live content t vs s'"
  unfolding holds_values_def using stored_live by blast

lemma holds_at: "holds_values live content (T_F32 b) vs s \<Longrightarrow> values_at content s (buf_ptr b) (length vs) = vs \<and> region 4 b \<in> live (gpu s)"
  by (auto simp: holds_values_def stored_def values_at_def size_bytes_def f32s_of_f32_bytes)

lemma upload_holds:
  assumes S: "store_driver drv (stream_raw st) live content" and "live_ok (live (gpu s))"
    and run: "upload_host_tensor drv ctx st (H_F32 vs) s = (t, Ok d)" and "vs \<noteq> []"
  shows "preserves live content (live (gpu s)) s t \<and> holds_values live content d vs t"
proof -
  obtain b where b: "device_buffer_from_host drv 4 ctx st (map f32_bytes vs) s = (t, Ok b)" and d: "d = T_F32 b"
    using run by (auto simp: rt_bind_Ok)
  show ?thesis using from_host_effect [OF S assms(2) b] assms(4) d by (auto simp: holds_values_def)
qed

text \<open>Every tensor of a map holds values that some property allows for its name.\<close>

definition map_holds ::
  "('s \<Rightarrow> (nat \<times> nat) set) \<Rightarrow> ('s \<Rightarrow> nat \<Rightarrow> u8) \<Rightarrow> (rstr \<Rightarrow> f32 list \<Rightarrow> bool) \<Rightarrow> loaded_map \<Rightarrow> 's rt \<Rightarrow> bool" where
  "map_holds live content P m s \<longleftrightarrow> (\<forall>(name, shape, t) \<in> set m. \<exists>vs. P name vs \<and> holds_values live content t vs s)"

lemma map_holds_live:
  "map_holds live content P m s \<Longrightarrow> preserves live content (live (gpu s)) s s' \<Longrightarrow> map_holds live content P m s'"
  unfolding map_holds_def using holds_live by fastforce

lemma load_views_hold:
  assumes S: "store_driver drv (stream_raw st) live content"
    and src: "source_of md c kv" "config_validate c = Ok ()"
    and P: "\<And>hf_name view sp vs. (hf_name, view) \<in> V \<Longrightarrow> tensor_spec_of hf_name md = Some sp \<Longrightarrow>
      host_of_view md W_F32 hf_name view sp = Ok (H_F32 vs) \<Longrightarrow> P (sp_internal_name sp) vs"
    and "load_views drv ctx st md W_F32 m views s = (s', Ok m')" "set views \<subseteq> V" "map_holds live content P m s" "live_ok (live (gpu s))"
  shows "map_holds live content P m' s' \<and> preserves live content (live (gpu s)) s s' \<and> fst ` set m \<subseteq> fst ` set m' \<and>
    (\<forall>(hf_name, view) \<in> set views. \<forall>sp. tensor_spec_of hf_name md = Some sp \<longrightarrow> sp_internal_name sp \<in> fst ` set m')"
  using assms(5-8)
proof (induction views arbitrary: m s)
  case (Cons x views)
  obtain hf_name view where x: "x = (hf_name, view)" by (cases x)
  show ?case
  proof (cases "tensor_spec_of hf_name md")
    case None
    then show ?thesis using Cons.IH [of m s] Cons.prems by (auto simp: x)
  next
    case (Some sp)
    note G = spec_of_graph [OF src(1) Some]
    obtain u host t where host: "host_of_view md W_F32 hf_name view sp = Ok host" and up: "upload_host_tensor drv ctx st host s = (u, Ok t)"
      and rest: "load_views drv ctx st md W_F32 (m @ [(sp_internal_name sp, sp_internal_shape sp, t)]) views u = (s', Ok m')"
      using Cons.prems(1) Some by (auto simp: x rt_bind_Ok or_release_Ok insert_tensor_Ok)
    obtain vs where vs: "host = H_F32 vs" using host_values [OF host G(1)] by blast
    have "0 < length vs" using host_of_view_len [OF host G(1)] graph_shapes_pos [OF src(2) _ G(2)] src(1) vs by (simp add: source_of_def)
    then have "vs \<noteq> []" by simp
    from upload_holds [OF S Cons.prems(4) up [unfolded vs] this]
    have step: "preserves live content (live (gpu s)) s u" and held: "holds_values live content t vs u" by simp_all
    have "P (sp_internal_name sp) vs" using P Cons.prems(2) Some host vs x by auto
    then have "map_holds live content P (m @ [(sp_internal_name sp, sp_internal_shape sp, t)]) u"
      using map_holds_live [OF Cons.prems(3) step] held by (auto simp: map_holds_def)
    from Cons.IH [OF rest _ this preserves_live [OF step]] Cons.prems(2)
    have I: "map_holds live content P m' s'" "preserves live content (live (gpu u)) u s'"
      "fst ` set (m @ [(sp_internal_name sp, sp_internal_shape sp, t)]) \<subseteq> fst ` set m'"
      "\<forall>(hf_name, view) \<in> set views. \<forall>sp. tensor_spec_of hf_name md = Some sp \<longrightarrow> sp_internal_name sp \<in> fst ` set m'"
      by simp_all
    show ?thesis using I preserves_step [OF step I(2)] Some by (simp add: x)
  qed
qed (auto simp: preserves_refl)

lemma load_shards_hold:
  assumes S: "store_driver drv (stream_raw st) live content"
    and src: "source_of md c kv" "config_validate c = Ok ()"
    and P: "\<And>hf_name view sp vs. (hf_name, view) \<in> V \<Longrightarrow> tensor_spec_of hf_name md = Some sp \<Longrightarrow>
      host_of_view md W_F32 hf_name view sp = Ok (H_F32 vs) \<Longrightarrow> P (sp_internal_name sp) vs"
    and fs: "files_apart fs live" "files_apart fs content"
    and "load_shards drv fs pr ctx st d md W_F32 m paths s = (s', Ok m')"
    and "\<forall>path \<in> set paths. \<forall>u u' views. open_shard fs pr d path u = (u', Ok views) \<longrightarrow> set views \<subseteq> V"
    and "map_holds live content P m s" "live_ok (live (gpu s))"
  shows "map_holds live content P m' s' \<and> preserves live content (live (gpu s)) s s' \<and> fst ` set m \<subseteq> fst ` set m' \<and>
    (\<forall>path \<in> set paths. \<exists>u u' views. open_shard fs pr d path u = (u', Ok views) \<and>
       (\<forall>(hf_name, view) \<in> set views. \<forall>sp. tensor_spec_of hf_name md = Some sp \<longrightarrow> sp_internal_name sp \<in> fst ` set m'))"
  using assms(7-10)
proof (induction paths arbitrary: m s)
  case (Cons path paths)
  obtain u views w mm where opened: "open_shard fs pr d path s = (u, Ok views)" and views: "load_views drv ctx st md W_F32 m views u = (w, Ok mm)"
    and rest: "load_shards drv fs pr ctx st d md W_F32 mm paths w = (s', Ok m')"
    using Cons.prems(1) by (auto simp: load_shard_def rt_bind_Ok or_release_Ok)
  have a: "preserves live content (live (gpu s)) s u"
    by (rule keeps_preserves [OF keeps_source(3) [OF fs(2)] keeps_source(3) [OF fs(1)] opened Cons.prems(4)])
  have sub: "set views \<subseteq> V" using Cons.prems(2) opened by (metis list.set_intros(1))
  from load_views_hold [where P = P, OF S src P views sub map_holds_live [OF Cons.prems(3) a] preserves_live [OF a]]
  have b: "map_holds live content P mm w" "preserves live content (live (gpu u)) u w" "fst ` set m \<subseteq> fst ` set mm"
    "\<forall>(hf_name, view) \<in> set views. \<forall>sp. tensor_spec_of hf_name md = Some sp \<longrightarrow> sp_internal_name sp \<in> fst ` set mm" by simp_all
  have V: "\<forall>path \<in> set paths. \<forall>u u' views. open_shard fs pr d path u = (u', Ok views) \<longrightarrow> set views \<subseteq> V"
    using Cons.prems(2) by (meson list.set_intros(2))
  from Cons.IH [OF rest V b(1) preserves_live [OF b(2)]]
  have c: "map_holds live content P m' s'" "preserves live content (live (gpu w)) w s'" "fst ` set mm \<subseteq> fst ` set m'"
    "\<forall>path \<in> set paths. \<exists>u u' views. open_shard fs pr d path u = (u', Ok views) \<and>
       (\<forall>(hf_name, view) \<in> set views. \<forall>sp. tensor_spec_of hf_name md = Some sp \<longrightarrow> sp_internal_name sp \<in> fst ` set m')" by simp_all
  have "\<forall>(hf_name, view) \<in> set views. \<forall>sp. tensor_spec_of hf_name md = Some sp \<longrightarrow> sp_internal_name sp \<in> fst ` set m'"
    using b(4) c(3) by blast
  moreover have "preserves live content (live (gpu s)) s s'" by (rule preserves_step [OF preserves_step [OF a b(2)] c(2)])
  moreover have "fst ` set m \<subseteq> fst ` set m'" using b(3) c(3) by blast
  ultimately show ?case using c(1,4) opened by (simp del: image_subset_iff) blast
qed (auto simp: preserves_refl)

text \<open>The tied head holds the embeddings, turned.\<close>

definition tied_values :: "st_metadata \<Rightarrow> (rstr \<Rightarrow> f32 list \<Rightarrow> bool) \<Rightarrow> rstr set \<Rightarrow> rstr \<Rightarrow> f32 list \<Rightarrow> bool" where
  "tied_values md P names name vs \<longleftrightarrow> P name vs \<or>
     (name = lit ''lm_head'' \<and> sd_tie_word_embeddings md \<and> name \<notin> names \<and>
      (\<exists>ws. P (lit ''token_embedding'') ws \<and> vs = turned (sd_vocab_size md) (sd_hidden_size md) ws))"

lemma add_tied_hold:
  assumes S: "store_driver drv (stream_raw st) live content"
    and src: "source_of md c kv" "config_validate c = Ok ()"
    and run: "add_tied_lm_head_if_needed drv ctx st md m s = (s', Ok m')"
    and m: "map_holds live content P m s" "live_ok (live (gpu s))"
  shows "map_holds live content (tied_values md P (fst ` set m)) m' s' \<and> preserves live content (live (gpu s)) s s'"
proof -
  have weaken: "map_holds live content (tied_values md P N) n u" if "map_holds live content P n u" for N n u
    using that by (fastforce simp: map_holds_def tied_values_def)
  show ?thesis
  proof (cases "sd_tie_word_embeddings md \<and> lit ''lm_head'' \<notin> fst ` set m")
    case False
    then have "m' = m \<and> s' = s" using run by (auto simp: add_tied_lm_head_if_needed_def map_of_eq_None_iff split: if_split_asm)
    then show ?thesis using weaken m preserves_refl by blast
  next
    case True
    obtain shape e u host w t where e: "map_of m (lit ''token_embedding'') = Some (shape, e)" and head: "tied_head drv st md e s = (u, Ok host)"
      and up: "upload_host_tensor drv ctx st host u = (w, Ok t)" and m': "m' = m @ [(lit ''lm_head'', [sd_hidden_size md, sd_vocab_size md], t)]" "s' = w"
      using run True by (auto simp: add_tied_lm_head_if_needed_def map_of_eq_None_iff rt_bind_Ok or_release_Ok insert_tensor_Ok split: option.splits)
    obtain ws where ws: "P (lit ''token_embedding'') ws" "holds_values live content e ws s"
      using m(1) map_of_SomeD [OF e] by (fastforce simp: map_holds_def)
    obtain b where b: "e = T_F32 b" "stored live content 4 b (concat (map f32_bytes ws)) s" using ws(2) by (auto simp: holds_values_def)
    obtain bs where bs: "buffer_to_vec drv 4 b st s = (u, Ok bs)"
      and turn: "transpose_host (H_F32 (f32s_of_bytes bs)) [sd_vocab_size md, sd_hidden_size md] = Ok host"
      using head by (auto simp: b(1) rt_bind_Ok rt_lift_Ok)
    note V = to_vec_stored [OF S m(2) bs b(2)]
    have read: "f32s_of_bytes bs = ws" using V by (simp add: f32s_of_f32_bytes)
    note T = transpose_host_Ok [OF turn]
    have len: "length ws = sd_vocab_size md * sd_hidden_size md" "length ws < u64_lim" using T read by simp_all
    have host: "host = H_F32 (turned (sd_vocab_size md) (sd_hidden_size md) ws)"
      using turn len by (simp add: read transpose_matrix_exact turned_def)
    have "metadata_to_model_config md = Ok c" using src(1) by (simp add: source_of_def)
    note F = config_fields [OF this]
    have "0 < sd_vocab_size md * sd_hidden_size md" using config_validate_Ok(1,2) [OF src(2)] F by simp
    then have "turned (sd_vocab_size md) (sd_hidden_size md) ws \<noteq> []" by (simp add: turned_def)
    from upload_holds [OF S preserves_live [OF V [THEN conjunct2]] up [unfolded host] this]
    have step: "preserves live content (live (gpu u)) u w" and held: "holds_values live content t (turned (sd_vocab_size md) (sd_hidden_size md) ws) w"
      by simp_all
    have all: "preserves live content (live (gpu s)) s w" by (rule preserves_step [OF V [THEN conjunct2] step])
    have "tied_values md P (fst ` set m) (lit ''lm_head'') (turned (sd_vocab_size md) (sd_hidden_size md) ws)"
      using True ws(1) by (auto simp: tied_values_def)
    then show ?thesis using weaken [OF map_holds_live [OF m(1) all]] all held m' by (auto simp: map_holds_def)
  qed
qed

section \<open>The loaded model\<close>

text \<open>The tensors of the source, and the one that a name of the graph stands for.\<close>

definition source_views :: "('s, 'h) file_system \<Rightarrow> parsers \<Rightarrow> rstr \<Rightarrow> 's rt \<Rightarrow> rstr list \<Rightarrow> (rstr \<times> tensor_view) set" where
  "source_views fs pr d s files = {x. \<exists>path \<in> set files. \<exists>views. snd (open_shard fs pr d path s) = Ok views \<and> x \<in> set views}"

definition names_tensor :: "st_metadata \<Rightarrow> (rstr \<times> tensor_view) set \<Rightarrow> rstr \<Rightarrow> tensor_view \<Rightarrow> bool" where
  "names_tensor md V name view \<longleftrightarrow>
     (\<exists>hf_name sp. (hf_name, view) \<in> V \<and> tensor_spec_of hf_name md = Some sp \<and> sp_internal_name sp = name)"

definition stands_for :: "st_metadata \<Rightarrow> (rstr \<times> tensor_view) set \<Rightarrow> rstr \<Rightarrow> tensor_view \<Rightarrow> bool" where
  "stands_for md V name view \<longleftrightarrow> names_tensor md V name view \<or>
     (name = lit ''lm_head'' \<and> sd_tie_word_embeddings md \<and> (\<forall>other. \<not> names_tensor md V name other) \<and>
      names_tensor md V (lit ''token_embedding'') view)"

text \<open>The values that a tensor of the graph has to hold.\<close>

fun graph_values :: "rstr \<Rightarrow> logical_shape \<Rightarrow> f32 list \<Rightarrow> f32 list \<Rightarrow> bool" where
  "graph_values name (Matrix_shape rows cols) src vs \<longleftrightarrow> length src = rows * cols \<and> length vs = rows * cols \<and>
     (\<forall>i < rows. \<forall>j < cols. vs ! (i * cols + j) = (if name = lit ''token_embedding'' then src ! (i * cols + j) else src ! (j * rows + i)))"
| "graph_values name (Vector_shape n) src vs \<longleftrightarrow> length src = n \<and> vs = src"

lemma graph_dims: "(name, dims) \<in> set (graph_shapes c kv) \<Longrightarrow> (\<exists>n. dims = [n]) \<or> (\<exists>r k. dims = [r, k])"
  by (auto simp: graph_shapes_def layer_shapes_def Let_def)

lemma turned_graph_values:
  assumes "name \<noteq> lit ''token_embedding''" "length src = rows * cols"
  shows "graph_values name (Matrix_shape cols rows) src (turned rows cols src)"
proof -
  have "length (turned rows cols src) = rows * cols" by (simp add: turned_def)
  then show ?thesis using assms turned_nth [of _ cols _ rows src] by (simp add: mult.commute)
qed

lemma named_values:
  assumes src: "source_of md c kv" and sp: "tensor_spec_of hf_name md = Some sp" "host_of_view md W_F32 hf_name view sp = Ok (H_F32 vs)"
  shows "graph_values (sp_internal_name sp) (shape_of (sp_internal_shape sp)) (source_values view) vs"
proof -
  note G = spec_of_graph [OF src sp(1)]
  note V = host_values [OF sp(2) G(1)]
  have turns: "sp_transpose sp \<longleftrightarrow> length (sp_internal_shape sp) = 2 \<and> sp_internal_name sp \<noteq> lit ''token_embedding''"
    using tensor_spec_graph(3) [OF sp(1)] src by (simp add: source_of_def)
  show ?thesis
  proof (cases "sp_transpose sp")
    case True
    then obtain r k where rk: "sp_hf_shape sp = [r, k]" "sp_internal_shape sp = [k, r]" using G(1) by (auto simp: spec_ok_def)
    then show ?thesis using True V turns turned_graph_values [of "sp_internal_name sp" "source_values view" r k] by simp
  next
    case False
    then have "vs = source_values view" "length vs = prod_list (sp_internal_shape sp)" using V G(1) by (simp_all add: spec_ok_def)
    moreover have "sp_internal_name sp = lit ''token_embedding''" if "length (sp_internal_shape sp) = 2" using turns False that by simp
    ultimately show ?thesis using graph_dims [OF G(2)] by auto
  qed
qed

text \<open>What a tensor on the host was made of, and how the tensors of a graph come from them.\<close>

definition source_host :: "st_metadata \<Rightarrow> (rstr \<times> tensor_view) set \<Rightarrow> rstr \<Rightarrow> f32 list \<Rightarrow> bool" where
  "source_host md V name vs \<longleftrightarrow> (\<exists>hf_name view sp. (hf_name, view) \<in> V \<and> tensor_spec_of hf_name md = Some sp \<and>
     sp_internal_name sp = name \<and> host_of_view md W_F32 hf_name view sp = Ok (H_F32 vs))"

lemma embedding_values:
  assumes src: "source_of md c kv" and "source_host md V (lit ''token_embedding'') ws"
  shows "\<exists>view. names_tensor md V (lit ''token_embedding'') view \<and> ws = source_values view \<and> length ws = sd_vocab_size md * sd_hidden_size md"
proof -
  obtain hf_name view sp where p: "(hf_name, view) \<in> V" "tensor_spec_of hf_name md = Some sp" "sp_internal_name sp = lit ''token_embedding''"
    "host_of_view md W_F32 hf_name view sp = Ok (H_F32 ws)" using assms(2) unfolding source_host_def by blast
  have conv: "metadata_to_model_config md = Ok c" using src by (simp add: source_of_def)
  note G = spec_of_graph [OF src p(2)] and F = config_fields [OF conv]
  have "\<not> sp_transpose sp" using tensor_spec_graph(3) [OF p(2)] src p(3) by (simp add: source_of_def)
  moreover have "sp_internal_shape sp = [sd_vocab_size md, sd_hidden_size md]"
    using G(2) p(3) eq_key_imp_eq_value [OF distinct_graph_shapes [of c kv], of "lit ''token_embedding''" _ "[sd_vocab_size md, sd_hidden_size md]"]
    by (simp add: graph_shapes_def F)
  ultimately have "sp_hf_shape sp = [sd_vocab_size md, sd_hidden_size md]" "\<not> sp_transpose sp" using G(1) by (simp_all add: spec_ok_def)
  then have "ws = source_values view" "length ws = sd_vocab_size md * sd_hidden_size md" using host_values [OF p(4) G(1)] by simp_all
  then show ?thesis using p unfolding names_tensor_def by blast
qed

lemma host_stands:
  assumes src: "source_of md c kv" and dims: "(name, dims) \<in> set (graph_shapes c kv)"
    and vs: "tied_values md (source_host md V) N name vs" and absent: "\<And>view. name \<notin> N \<Longrightarrow> \<not> names_tensor md V name view"
  shows "\<exists>view. stands_for md V name view \<and> graph_values name (shape_of dims) (source_values view) vs"
proof -
  have unique: "dims' = dims" if "(name, dims') \<in> set (graph_shapes c kv)" for dims'
    using that dims eq_key_imp_eq_value [OF distinct_graph_shapes] by metis
  show ?thesis
  proof (cases "source_host md V name vs")
    case True
    then obtain hf_name view sp where p: "(hf_name, view) \<in> V" "tensor_spec_of hf_name md = Some sp" "sp_internal_name sp = name"
      "host_of_view md W_F32 hf_name view sp = Ok (H_F32 vs)" unfolding source_host_def by blast
    have "sp_internal_shape sp = dims" using unique spec_of_graph(2) [OF src p(2)] p(3) by simp
    then have "graph_values name (shape_of dims) (source_values view) vs" using named_values [OF src p(2,4)] p(3) by simp
    moreover have "stands_for md V name view" using p unfolding stands_for_def names_tensor_def by blast
    ultimately show ?thesis by blast
  next
    case False
    then obtain ws where t: "name = lit ''lm_head''" "sd_tie_word_embeddings md" "name \<notin> N" "source_host md V (lit ''token_embedding'') ws"
      "vs = turned (sd_vocab_size md) (sd_hidden_size md) ws" using vs unfolding tied_values_def by blast
    obtain view where view: "names_tensor md V (lit ''token_embedding'') view" "ws = source_values view" "length ws = sd_vocab_size md * sd_hidden_size md"
      using embedding_values [OF src t(4)] by blast
    have "metadata_to_model_config md = Ok c" using src by (simp add: source_of_def)
    note F = config_fields [OF this]
    have "dims = [sd_hidden_size md, sd_vocab_size md]" using unique [of "[sd_hidden_size md, sd_vocab_size md]"] by (simp add: graph_shapes_def F t(1))
    then have "graph_values name (shape_of dims) (source_values view) vs"
      using turned_graph_values [OF _ view(3), of "lit ''lm_head''"] view(2) t(1,5) by (simp add: lit_eq_iff del: graph_values.simps)
    moreover have "stands_for md V name view" using view(1) t(1,2) absent [OF t(3)] unfolding stands_for_def by blast
    ultimately show ?thesis by blast
  qed
qed

text \<open>What the shards leave in a map.\<close>

lemma shards_hold:
  assumes S: "store_driver drv (stream_raw st) live content" and fs: "fs_shows fs v" "files_apart fs live" "files_apart fs content"
    and src: "source_of md c kv" "config_validate c = Ok ()" and ok: "live_ok (live (gpu s))"
    and shards: "load_shards drv fs pr ctx st d md W_F32 [] files s = (s', Ok m)"
  shows "map_holds live content (source_host md (source_views fs pr d s0 files)) m s' \<and> preserves live content (live (gpu s)) s s' \<and>
    (\<forall>name view. name \<notin> fst ` set m \<longrightarrow> \<not> names_tensor md (source_views fs pr d s0 files) name view)"
proof -
  let ?V = "source_views fs pr d s0 files" and ?P = "source_host md (source_views fs pr d s0 files)"
  have answer: "snd (open_shard fs pr d path s0) = Ok views" if "open_shard fs pr d path u = (u', Ok views)" for path u u' views
    using steady_open [OF fs(1)] that unfolding steady_def by (metis snd_conv)
  have V: "\<forall>path \<in> set files. \<forall>u u' views. open_shard fs pr d path u = (u', Ok views) \<longrightarrow> set views \<subseteq> ?V"
    using answer unfolding source_views_def by blast
  have none: "map_holds live content ?P [] s" by (simp add: map_holds_def)
  have Pv: "?P (sp_internal_name sp) vs" if "(hf_name, view) \<in> ?V" "tensor_spec_of hf_name md = Some sp"
    "host_of_view md W_F32 hf_name view sp = Ok (H_F32 vs)" for hf_name view sp vs using that unfolding source_host_def by blast
  from load_shards_hold [where P = ?P, OF S src Pv fs(2,3) shards V none ok]
  have L: "map_holds live content ?P m s'" "preserves live content (live (gpu s)) s s'"
    and cover: "\<forall>path \<in> set files. \<exists>u u' views. open_shard fs pr d path u = (u', Ok views) \<and>
      (\<forall>(hf_name, view) \<in> set views. \<forall>sp. tensor_spec_of hf_name md = Some sp \<longrightarrow> sp_internal_name sp \<in> fst ` set m)"
    by simp_all
  have "\<not> names_tensor md ?V name view" if "name \<notin> fst ` set m" for name view
  proof
    assume "names_tensor md ?V name view"
    then obtain hf_name sp path views where "path \<in> set files" "snd (open_shard fs pr d path s0) = Ok views" "(hf_name, view) \<in> set views"
      "tensor_spec_of hf_name md = Some sp" "sp_internal_name sp = name"
      by (auto simp: names_tensor_def source_views_def)
    then show False using cover that answer by fastforce
  qed
  then show ?thesis using L by blast
qed

lemma built_entries:
  assumes "build_model_weights m c = Ok w" "key_value_width c = Ok kv" "(name, tensor, shape) \<in> set (logical_tensors w)"
  shows "\<exists>dims. (name, dims) \<in> set (graph_shapes c kv) \<and> shape = shape_of dims \<and> (name, dims, tensor) \<in> set m"
proof -
  obtain dims where d: "(name, dims) \<in> set (graph_shapes c kv)" "shape = shape_of dims" "tensor = tensor_at m name" "entry_fits m (name, dims)"
    using assms unfolding build_Ok by (auto simp: graph_of_tensors)
  then have "(name, dims, tensor) \<in> set m" by (auto simp: entry_fits_def tensor_at_def dest: map_of_SomeD)
  then show ?thesis using d by blast
qed

text \<open>C19. A loaded model holds the tensors of its source.  When \<open>load_model_from_safetensors_f32\<close> returns a model, every
  tensor of its weight graph is an F32 buffer in live device memory whose elements are the values of the tensor that the
  source names for it, BF16 widened bit by bit: the embedding and the norms as they are, every other matrix transposed,
  element \<open>(i, j)\<close> being element \<open>(j, i)\<close> of the source, and the output head taken from the embedding when the embeddings are
  tied and no shard has a head.  No memory that was live before has changed.  The memory behaves as documented, the files do
  not change meanwhile and reading them does not touch the device.\<close>

theorem loaded_tensors_hold_source:
  assumes S: "store_driver drv (stream_raw st) live content" and ok: "live_ok (live (gpu s))"
    and fs: "fs_shows fs v" "files_apart fs live" "files_apart fs content"
    and run: "load_model_from_safetensors_f32 drv fs pr ctx st cfg s = (t, Ok lm)"
  shows "\<exists>md files. snd (parse_metadata fs pr (lc_local_dir cfg) s) = Ok md \<and> snd (discover_weight_files fs pr (lc_local_dir cfg) s) = Ok files \<and>
    preserves live content (live (gpu s)) s t \<and>
    (\<forall>(name, tensor, shape) \<in> set (logical_tensors (lm_weights lm)). \<exists>b view vs. tensor = T_F32 b \<and> region 4 b \<in> live (gpu t) \<and>
       stands_for md (source_views fs pr (lc_local_dir cfg) s files) name view \<and> graph_values name shape (source_values view) vs \<and>
       values_at content t (buf_ptr b) (length vs) = vs)"
proof -
  let ?d = "lc_local_dir cfg"
  obtain s1 md c exec s2 files s3 m m' where md: "parse_metadata fs pr ?d s = (s1, Ok md)" and conv: "metadata_to_model_config md = Ok c"
    and exec: "execution_config_for_dtype c (Some W_F32) = Ok exec" and files: "discover_weight_files fs pr ?d s1 = (s2, Ok files)"
    and shards: "load_shards drv fs pr ctx st ?d md (mc_weight_dtype exec) [] files s2 = (s3, Ok m)"
    and add: "add_tied_lm_head_if_needed drv ctx st md m s3 = (t, Ok m')" and built: "build_model_weights m' exec = Ok (lm_weights lm)"
    using run unfolding load_model_from_safetensors_f32_def load_model_from_safetensors_inner_def
    by (auto simp: rt_bind_Ok rt_lift_Ok or_release_Ok split: if_split_asm)
  obtain c' kv where src0: "source_of md c' kv" "config_validate c' = Ok ()" using parsed_source [OF md] by blast
  have "c' = c" using src0(1) conv by (simp add: source_of_def)
  then have src: "source_of md c kv" "config_validate c = Ok ()" using src0 by simp_all
  have e: "exec = c\<lparr>mc_weight_dtype := W_F32\<rparr>" using exec by (auto simp: execution_config_for_dtype_def Let_def)
  have same: "graph_shapes exec kv = graph_shapes c kv" "key_value_width exec = Ok kv"
    using src(1) by (simp_all add: e source_of_def graph_shapes_def layer_shapes_def key_value_width_def mc_head_dim_def Let_def cong: map_cong)
  let ?V = "source_views fs pr ?d s files"
  have found: "snd (discover_weight_files fs pr ?d s) = Ok files" using steady_discover [OF fs(1)] files unfolding steady_def by (metis snd_conv)
  have a: "preserves live content (live (gpu s)) s s1" by (rule keeps_preserves [OF keeps_source(1) [OF fs(3)] keeps_source(1) [OF fs(2)] md ok])
  have b: "preserves live content (live (gpu s1)) s1 s2"
    by (rule keeps_preserves [OF keeps_source(2) [OF fs(3)] keeps_source(2) [OF fs(2)] files preserves_live [OF a]])
  have "load_shards drv fs pr ctx st ?d md W_F32 [] files s2 = (s3, Ok m)" using shards e by simp
  from shards_hold [OF S fs src preserves_live [OF b] this, of s]
  have L: "map_holds live content (source_host md ?V) m s3" "preserves live content (live (gpu s2)) s2 s3"
    and absent: "\<And>name view. name \<notin> fst ` set m \<Longrightarrow> \<not> names_tensor md ?V name view" by simp_all
  from add_tied_hold [OF S src add L(1) preserves_live [OF L(2)]]
  have T: "map_holds live content (tied_values md (source_host md ?V) (fst ` set m)) m' t" "preserves live content (live (gpu s3)) s3 t" by simp_all
  have kept: "preserves live content (live (gpu s)) s t"
    by (rule preserves_step [OF preserves_step [OF preserves_step [OF a b] L(2)] T(2)])
  have "\<exists>b view vs. tensor = T_F32 b \<and> region 4 b \<in> live (gpu t) \<and> stands_for md ?V name view \<and>
      graph_values name shape (source_values view) vs \<and> values_at content t (buf_ptr b) (length vs) = vs"
    if x: "(name, tensor, shape) \<in> set (logical_tensors (lm_weights lm))" for name tensor shape
  proof -
    obtain dims where dims: "(name, dims) \<in> set (graph_shapes c kv)" "shape = shape_of dims" "(name, dims, tensor) \<in> set m'"
      using built_entries [OF built same(2) x] unfolding same(1) by blast
    then obtain vs where vs: "tied_values md (source_host md ?V) (fst ` set m) name vs" and held: "holds_values live content tensor vs t"
      using T(1) by (fastforce simp: map_holds_def)
    obtain b where b: "tensor = T_F32 b" using held by (auto simp: holds_values_def)
    show ?thesis using host_stands [OF src(1) dims(1) vs absent] holds_at [OF held [unfolded b]] b dims(2) by blast
  qed
  then show ?thesis using md found kept by (intro exI [of _ md] exI [of _ files]) auto
qed

end
