(* ===== verification/SafetensorsDemo.thy ===== *)
theory SafetensorsDemo
  imports SafetensorsMemory DenseDemo
begin

text \<open>
  A model directory with one shard of twelve small tensors: the concrete input of the witnesses of \<open>SafetensorsEquiv\<close> and
  \<open>SafetensorsMemory\<close>.
\<close>

section \<open>The directory\<close>

definition source_meta :: "rstr \<Rightarrow> io_fault + file_meta" where
  "source_meta p =
     (if p = lit ''m'' \<or> p = lit ''/m'' then Ok \<lparr>fm_kind = Directory, fm_dev = 1, fm_ino = 2\<rparr>
      else if p = lit ''m/config.json'' \<or> p = lit ''/m/config.json'' then Ok \<lparr>fm_kind = RegularFile, fm_dev = 1, fm_ino = 3\<rparr>
      else if p = lit ''m/model.safetensors'' \<or> p = lit ''/m/model.safetensors'' then Ok \<lparr>fm_kind = RegularFile, fm_dev = 1, fm_ino = 4\<rparr>
      else Err (not_found []))"

definition source_path :: "rstr \<Rightarrow> rstr" where
  "source_path p = (if p = lit ''m'' then lit ''/m'' else p)"

definition source_fs :: "('s, rstr) file_system" where
  "source_fs =
     \<lparr>fs_symlink_metadata = (\<lambda>p g. (g, source_meta p)), fs_canonicalize = (\<lambda>p g. (g, Ok (source_path p))),
      fs_open_nofollow = (\<lambda>p g. (g, Ok p)), fs_handle_metadata = (\<lambda>h g. (g, source_meta h)), fs_read_to_end = (\<lambda>h g. (g, Ok [])),
      fs_close = (\<lambda>h g. g), fs_read = (\<lambda>p g. (g, Ok []))\<rparr>"

definition source_shows :: fs_view where
  "source_shows = \<lparr>fv_meta = source_meta, fv_canonical = (\<lambda>p. Ok (source_path p)), fv_opened = (\<lambda>p. Ok (source_meta p, Ok []))\<rparr>"

lemma source_fs_ok: "fs_shows source_fs source_shows" "files_apart source_fs f"
  by (simp_all add: fs_shows_def files_apart_def source_fs_def source_shows_def)

definition demo_hf :: hf_config where
  "demo_hf = \<lparr>hf_architectures = [lit ''LlamaForCausalLM''], hf_model_type = lit ''llama'', hf_vocab_size = 2, hf_eos_token_id = None,
     hf_hidden_size = 2, hf_intermediate_size = 1, hf_num_hidden_layers = 1, hf_num_attention_heads = 1, hf_num_key_value_heads = None,
     hf_max_position_embeddings = 8, hf_rms_norm_eps = f32_one, hf_rope_theta = f32_one, hf_hidden_act = lit ''silu'',
     hf_tie_word_embeddings = False, hf_torch_dtype = lit ''float32'', hf_attention_bias = False, hf_mlp_bias = False,
     hf_rope_interleaved = False, hf_rope_scaled = False\<rparr>"

definition demo_md :: st_metadata where
  "demo_md = \<lparr>sd_architecture = lit ''LlamaForCausalLM'', sd_model_type = lit ''llama'', sd_num_hidden_layers = 1, sd_hidden_size = 2,
     sd_intermediate_size = 1, sd_num_attention_heads = 1, sd_num_key_value_heads = 1, sd_head_dim = 2, sd_max_position_embeddings = 8,
     sd_rms_norm_eps = f32_one, sd_rope_theta = f32_one, sd_vocab_size = 2, sd_eos_token_id = None, sd_tie_word_embeddings = False,
     sd_weight_dtype = W_F32\<rparr>"

definition small_view :: "nat list \<Rightarrow> tensor_view" where
  "small_view shape = \<lparr>tv_dtype = St_F32, tv_shape = shape, tv_data = map of_nat [0..<prod_list shape * 4]\<rparr>"

definition demo_names :: "(string \<times> nat list) list" where
  "demo_names = [(''model.embed_tokens.weight'', [2, 2]), (''model.layers.0.input_layernorm.weight'', [2]),
     (''model.layers.0.self_attn.q_proj.weight'', [2, 2]), (''model.layers.0.self_attn.k_proj.weight'', [2, 2]),
     (''model.layers.0.self_attn.v_proj.weight'', [2, 2]), (''model.layers.0.self_attn.o_proj.weight'', [2, 2]),
     (''model.layers.0.mlp.gate_proj.weight'', [1, 2]), (''model.layers.0.mlp.up_proj.weight'', [1, 2]),
     (''model.layers.0.mlp.down_proj.weight'', [2, 1]), (''model.layers.0.post_attention_layernorm.weight'', [2]),
     (''model.norm.weight'', [2]), (''lm_head.weight'', [2, 2])]"

definition demo_views :: "(rstr \<times> tensor_view) list" where
  "demo_views = map (\<lambda>(name, shape). (lit name, small_view shape)) demo_names"

definition demo_parsers :: parsers where
  "demo_parsers = \<lparr>pr_config = (\<lambda>_. Ok demo_hf), pr_index = (\<lambda>_. Err []), pr_tensors = (\<lambda>_. Ok demo_views)\<rparr>"

section \<open>The configuration and the tensors\<close>

lemma demo_executable: "validate_execution_support demo_config = Ok ()"
  unfolding validate_execution_support_def demo_config_valid and_then_simps by (simp add: demo_config_def)

lemma demo_md_config: "metadata_to_model_config demo_md = Ok demo_config"
proof -
  have "\<lparr>mc_vocab_size = sd_vocab_size demo_md, mc_eos_token_id = sd_eos_token_id demo_md, mc_hidden_size = sd_hidden_size demo_md,
      mc_intermediate_size = sd_intermediate_size demo_md, mc_num_hidden_layers = sd_num_hidden_layers demo_md,
      mc_num_attention_heads = sd_num_attention_heads demo_md, mc_num_key_value_heads = sd_num_key_value_heads demo_md,
      mc_max_position_embeddings = sd_max_position_embeddings demo_md, mc_rms_norm_eps = sd_rms_norm_eps demo_md,
      mc_rope_theta = sd_rope_theta demo_md, mc_activation = Silu, mc_weight_dtype = sd_weight_dtype demo_md\<rparr> = demo_config"
    by (simp add: demo_md_def demo_config_def)
  then show ?thesis unfolding metadata_to_model_config_def Let_def by (simp add: demo_executable)
qed

lemma demo_hf_md: "validate_hf_config demo_hf = Ok demo_md"
proof -
  have "torch_weight_dtype (hf_torch_dtype demo_hf) = Ok W_F32" "hf_eos (hf_eos_token_id demo_hf) = Ok None"
    by (simp_all add: torch_weight_dtype_def hf_eos_def demo_hf_def)
  moreover have "(if length (hf_architectures demo_hf) \<noteq> 1 \<or> hf_architectures demo_hf ! 0 \<noteq> lit ''LlamaForCausalLM'' \<or> hf_model_type demo_hf \<noteq> lit ''llama'' then x else y) = y"
    for x y :: "nnis_error + st_metadata" by (simp add: demo_hf_def)
  ultimately show ?thesis
    unfolding validate_hf_config_def using demo_md_config demo_executable
    by (simp add: demo_hf_def) (simp add: demo_md_def Let_def)
qed

definition demo_spec :: "string \<Rightarrow> tensor_spec option" where
  "demo_spec name = (case direct_spec demo_md (lit name) of Some spec \<Rightarrow> Some spec | None \<Rightarrow> layer_spec demo_md 2 (lit name) 0)"

lemma demo_spec: "tensor_spec_of (lit name) demo_md = demo_spec name"
  by (simp add: tensor_spec_of_def demo_spec_def demo_md_def checked_mul_def u64_lim_def split: option.split)

definition demo_internal :: "rstr list" where
  "demo_internal = map (\<lambda>(name, shape). sp_internal_name (the (demo_spec name))) demo_names"

lemma demo_layer_name: "hf_layer_name 0 suffix = lit (''model.layers.0'' @ suffix)"
proof -
  have "dec 0 = lit ''0''" by code_simp
  then show ?thesis by (simp add: hf_layer_name_def lit_append)
qed

lemma demo_specs1:
  "list_all (\<lambda>(name, shape). case demo_spec name of None \<Rightarrow> False | Some sp \<Rightarrow> sp_hf_shape sp = shape) demo_names"
  by (simp add: demo_names_def demo_spec_def direct_spec_def layer_spec_def layer_parts_def demo_layer_name lit_eq_iff Let_def demo_md_def)

lemma demo_internal:
  "demo_internal = lit ''token_embedding'' # map (layer_name 0) expected_parts @ [lit ''final_norm'', lit ''lm_head'']"
  by (simp add: demo_internal_def demo_names_def demo_spec_def direct_spec_def layer_spec_def layer_parts_def demo_layer_name lit_eq_iff
      Let_def demo_md_def expected_parts_def)

lemma small_fits:
  assumes "(name, shape) \<in> set demo_names"
  shows "\<exists>sp. tensor_spec_of (lit name) demo_md = Some sp \<and> sp_hf_shape sp = shape \<and> view_fits demo_md (lit name) (small_view shape) shape"
proof -
  have "case demo_spec name of None \<Rightarrow> False | Some sp \<Rightarrow> sp_hf_shape sp = shape" using demo_specs1 assms by (auto simp: list_all_iff)
  moreover have "shape \<in> {[2], [2, 2], [1, 2], [2, 1]}" using assms by (auto simp: demo_names_def)
  then have size: "product_of shape e = Ok (prod_list shape) \<and> checked_mul (prod_list shape) 4 = Some (prod_list shape * 4)" for e
    by (elim insertE emptyE) (simp_all add: product_of_def checked_mul_def u64_lim_def)
  have "view_fits demo_md (lit name) (small_view shape) shape"
  proof -
    have "sd_weight_dtype demo_md = W_F32" by (simp add: demo_md_def)
    then show ?thesis using size by (simp add: view_fits_def check_view_def small_view_def)
  qed
  ultimately show ?thesis by (cases "demo_spec name") (auto simp: demo_spec)
qed

section \<open>What the parsers and the files give\<close>

lemma plain_name:
  assumes "CHR ''/'' \<notin> set a" "a \<notin> {[], ''.'', ''..''}"
  shows "path_components (lit a) = [Normal (lit a)]" "checked_relative_path (lit a) = Ok ()" "normal_components (lit a) = [lit a]"
    "path_join (lit ''m'') (lit a) = lit (''m/'' @ a)" "path_join (lit ''/m'') (lit a) = lit (''/m/'' @ a)"
proof -
  have char: "(47 :: nat) = of_char (CHR ''/'')" by simp
  have "47 \<notin> set (lit a)" unfolding lit_def set_map char using assms(1) by (metis imageE of_char_eq_iff)
  moreover have "lit a \<noteq> lit []" "lit a \<noteq> lit ''.''" "lit a \<noteq> lit ''..''" using assms(2) unfolding lit_eq_iff by simp_all
  moreover have "lit [] = []" by (simp add: lit_def)
  ultimately have e: "entry_name (lit a)" unfolding entry_name_def by metis
  then have rel: "\<not> is_absolute (lit a)" "lit a \<noteq> []" by (cases "lit a"; simp add: entry_name_def is_absolute_def)+
  show c: "path_components (lit a) = [Normal (lit a)]"
    using path_components_join [OF e, of "[]"] rel by (simp add: path_join_def path_components_def is_absolute_def piece_component_def lit_def)
  show "checked_relative_path (lit a) = Ok ()" using rel c by (simp add: checked_relative_path_def plain_component_def)
  show "normal_components (lit a) = [lit a]" by (simp add: normal_components_def c)
  have base: "lit ''m'' = [109]" "lit ''/m'' = [47, 109]" "lit ''m/'' = [109, 47]" "lit ''/m/'' = [47, 109, 47]" by (simp_all add: lit_def)
  show "path_join (lit ''m'') (lit a) = lit (''m/'' @ a)" "path_join (lit ''/m'') (lit a) = lit (''/m/'' @ a)"
    unfolding lit_append [symmetric] base using rel by (simp_all add: path_join_def)
qed

lemma source_directory: "pure_check_directory source_shows (lit ''m'') = Ok ()"
  by (simp add: pure_check_directory_def source_shows_def source_meta_def)

lemma demo_read:
  assumes "a = ''config.json'' \<or> a = ''model.safetensors''"
  shows "pure_confined_read source_shows (lit ''m'') (lit a) op = Ok []"
proof -
  have a: "CHR ''/'' \<notin> set a" "a \<notin> {[], ''.'', ''..''}" using assms by auto
  note P = plain_name [OF a]
  obtain meta where meta: "source_meta (lit (''/m/'' @ a)) = Ok meta" "fm_kind meta = RegularFile"
    using assms by (auto simp: source_meta_def lit_eq_iff)
  have walk: "pure_walk source_shows (lit a) (lit ''/m'') [lit a] = Ok (lit (''/m/'' @ a))"
    using meta by (simp add: P(5) source_shows_def check_entry_def)
  have root: "fv_canonical source_shows (lit ''m'') = Ok (lit ''/m'')" by (simp add: source_shows_def source_path_def)
  have canonical: "fv_canonical source_shows (lit (''/m/'' @ a)) = Ok (lit (''/m/'' @ a))"
    using assms by (auto simp: source_shows_def source_path_def lit_eq_iff)
  have e: "entry_name (lit a)" using normal_components_entries [of "lit a" "lit a"] P(3) by simp
  have "path_components (lit (''/m/'' @ a)) = path_components (lit ''/m'') @ [Normal (lit a)]"
    using path_components_join [OF e, of "lit ''/m''"] unfolding P(5) .
  then have inside: "path_starts_with (lit (''/m/'' @ a)) (lit ''/m'')" by (simp add: path_starts_with_def)
  have opened: "fv_meta source_shows (lit (''/m/'' @ a)) = Ok meta" "fv_opened source_shows (lit (''/m/'' @ a)) = Ok (Ok meta, Ok [])"
    using meta(1) by (simp_all add: source_shows_def)
  show ?thesis
    unfolding pure_confined_read_Ok P(3) using P(2) source_directory root walk canonical inside opened meta(2) by blast
qed

lemma demo_pure:
  "pure_confined_read source_shows (lit ''m'') HF_CONFIG op = Ok []"
  "pure_confined_read source_shows (lit ''m'') SINGLE_SAFETENSORS op = Ok []"
  "pure_confined_exists source_shows (lit ''m'') SINGLE_SAFETENSORS = Ok True"
  "pure_confined_exists source_shows (lit ''m'') SAFETENSORS_INDEX = Ok False"
proof -
  show "pure_confined_read source_shows (lit ''m'') HF_CONFIG op = Ok []" "pure_confined_read source_shows (lit ''m'') SINGLE_SAFETENSORS op = Ok []"
    unfolding HF_CONFIG_def SINGLE_SAFETENSORS_def by (rule demo_read, simp)+
  have a: "CHR ''/'' \<notin> set ''model.safetensors''" "''model.safetensors'' \<notin> {[], ''.'', ''..''}" by simp_all
  note P = plain_name [OF a]
  have "\<exists>meta. source_meta (lit (''m/'' @ ''model.safetensors'')) = Ok meta \<and> fm_kind meta = RegularFile" by (auto simp: source_meta_def lit_eq_iff)
  then show "pure_confined_exists source_shows (lit ''m'') SINGLE_SAFETENSORS = Ok True"
    unfolding pure_confined_exists_def SINGLE_SAFETENSORS_def P(2,3) source_directory and_then_simps pure_exists.simps P(4)
    by (auto simp: source_shows_def check_entry_def)
  have b: "CHR ''/'' \<notin> set ''model.safetensors.index.json''" "''model.safetensors.index.json'' \<notin> {[], ''.'', ''..''}" by simp_all
  note Q = plain_name [OF b]
  have "source_meta (lit (''m/'' @ ''model.safetensors.index.json'')) = Err (not_found [])" by (simp add: source_meta_def lit_eq_iff)
  then show "pure_confined_exists source_shows (lit ''m'') SAFETENSORS_INDEX = Ok False"
    unfolding pure_confined_exists_def SAFETENSORS_INDEX_def Q(2,3) source_directory and_then_simps pure_exists.simps Q(4)
    by (simp add: source_shows_def not_found_def)
qed

lemma demo_runs:
  "\<exists>t. read_confined_model_file source_fs (lit ''m'') HF_CONFIG op s = (t, Ok [])"
  "\<exists>t. read_confined_model_file source_fs (lit ''m'') SINGLE_SAFETENSORS op s = (t, Ok [])"
  "\<exists>t. confined_regular_file_exists source_fs (lit ''m'') SINGLE_SAFETENSORS s = (t, Ok True)"
  "\<exists>t. confined_regular_file_exists source_fs (lit ''m'') SAFETENSORS_INDEX s = (t, Ok False)"
proof -
  have run: "\<exists>t. m s = (t, r)" if "gives m r" for m :: "('a, 'b) rt_comp" and r s using that unfolding gives_def by (metis prod.collapse)
  have run': "\<exists>t. m s = (t, r)" if "gives m r" for m :: "('a, bool) rt_comp" and r s using that unfolding gives_def by (metis prod.collapse)
  show "\<exists>t. read_confined_model_file source_fs (lit ''m'') HF_CONFIG op s = (t, Ok [])"
    using gives_confined_read [OF source_fs_ok(1), of "lit ''m''" HF_CONFIG op] demo_pure(1) unfolding gives_def by (metis prod.collapse)
  show "\<exists>t. read_confined_model_file source_fs (lit ''m'') SINGLE_SAFETENSORS op s = (t, Ok [])"
    using gives_confined_read [OF source_fs_ok(1), of "lit ''m''" SINGLE_SAFETENSORS op] demo_pure(2) unfolding gives_def by (metis prod.collapse)
  show "\<exists>t. confined_regular_file_exists source_fs (lit ''m'') SINGLE_SAFETENSORS s = (t, Ok True)"
    using gives_confined_exists [OF source_fs_ok(1), of "lit ''m''" SINGLE_SAFETENSORS] demo_pure(3) unfolding gives_def by (metis prod.collapse)
  show "\<exists>t. confined_regular_file_exists source_fs (lit ''m'') SAFETENSORS_INDEX s = (t, Ok False)"
    using gives_confined_exists [OF source_fs_ok(1), of "lit ''m''" SAFETENSORS_INDEX] demo_pure(4) unfolding gives_def by (metis prod.collapse)
qed

lemma demo_source:
  "\<exists>t. parse_metadata source_fs demo_parsers (lit ''m'') s = (t, Ok demo_md)"
  "\<exists>t. discover_weight_files source_fs demo_parsers (lit ''m'') s = (t, Ok [SINGLE_SAFETENSORS])"
  "\<exists>t. open_shard source_fs demo_parsers (lit ''m'') SINGLE_SAFETENSORS s = (t, Ok demo_views)"
proof -
  obtain t where "read_confined_model_file source_fs (lit ''m'') HF_CONFIG (lit ''read Hugging Face config.json'') s = (t, Ok [])"
    using demo_runs(1) by blast
  then show "\<exists>t. parse_metadata source_fs demo_parsers (lit ''m'') s = (t, Ok demo_md)"
    by (simp add: parse_metadata_def rt_bind_def parse_metadata_bytes_def demo_parsers_def demo_hf_md)
  obtain t u where "confined_regular_file_exists source_fs (lit ''m'') SINGLE_SAFETENSORS s = (t, Ok True)"
    "confined_regular_file_exists source_fs (lit ''m'') SAFETENSORS_INDEX t = (u, Ok False)"
    using demo_runs(3,4) by blast
  then show "\<exists>t. discover_weight_files source_fs demo_parsers (lit ''m'') s = (t, Ok [SINGLE_SAFETENSORS])"
    by (simp add: discover_weight_files_def rt_bind_def)
  obtain t where "read_confined_model_file source_fs (lit ''m'') SINGLE_SAFETENSORS (lit ''read Safetensors shard '' @ SINGLE_SAFETENSORS) s = (t, Ok [])"
    using demo_runs(2) by blast
  then show "\<exists>t. open_shard source_fs demo_parsers (lit ''m'') SINGLE_SAFETENSORS s = (t, Ok demo_views)"
    by (simp add: open_shard_def rt_bind_def demo_parsers_def)
qed

section \<open>The preflight passes\<close>

lemma views_pass:
  assumes "\<forall>(name, shape) \<in> set xs. \<exists>sp. tensor_spec_of (lit name) demo_md = Some sp \<and> sp_hf_shape sp = shape \<and> view_fits demo_md (lit name) (small_view shape) shape"
    and "distinct (map (\<lambda>(name, shape). sp_internal_name (the (demo_spec name))) xs)"
    and "(\<lambda>(name, shape). sp_internal_name (the (demo_spec name))) ` set xs \<inter> logical = {}" "seen + length xs < u64_lim"
  shows "for_each_res (preflight_view demo_md) (logical, seen, skipped) (map (\<lambda>(name, shape). (lit name, small_view shape)) xs) =
    Ok (logical \<union> (\<lambda>(name, shape). sp_internal_name (the (demo_spec name))) ` set xs, seen + length xs, skipped)"
  using assms
proof (induction xs arbitrary: logical seen)
  case (Cons x xs)
  obtain name shape where x: "x = (name, shape)" by (cases x)
  obtain sp n where sp: "tensor_spec_of (lit name) demo_md = Some sp" "sp_hf_shape sp = shape"
    and n: "check_view demo_md (lit name) (small_view shape) shape = Ok n"
    "checked_mul n (st_size (tv_dtype (small_view shape))) = Some (length (tv_data (small_view shape)))"
    using Cons.prems(1) by (auto simp: x view_fits_def)
  have d: "sp_internal_name (the (demo_spec name)) = sp_internal_name sp" using sp(1) by (simp add: demo_spec)
  have step: "preflight_view demo_md (logical, seen, skipped) (lit name, small_view shape) = Ok (insert (sp_internal_name sp) logical, seen + 1, skipped)"
    using sp n Cons.prems(3,4) d by (auto simp: x preflight_view_def preflight_table checked_add_def)
  have "for_each_res (preflight_view demo_md) (insert (sp_internal_name sp) logical, seen + 1, skipped) (map (\<lambda>(name, shape). (lit name, small_view shape)) xs) =
      Ok (insert (sp_internal_name sp) logical \<union> (\<lambda>(name, shape). sp_internal_name (the (demo_spec name))) ` set xs, (seen + 1) + length xs, skipped)"
    by (rule Cons.IH) (use Cons.prems d x in auto)
  then show ?case using step d by (simp add: x Un_commute)
qed simp

lemma demo_names_ok: "distinct demo_internal" "set demo_internal = expected_logical_tensors demo_md"
  by (simp_all add: demo_internal expected_parts_def expected_logical_tensors_def demo_md_def lit_eq_iff layer_name_eq layer_name_outer
      layer_name_outer [symmetric] insert_commute)

lemma demo_validated: "for_each_res (preflight_view demo_md) ({}, 0, 0) demo_views = Ok (expected_logical_tensors demo_md, 12, 0)"
proof -
  have "(\<lambda>(name, shape). sp_internal_name (the (demo_spec name))) ` set demo_names = expected_logical_tensors demo_md"
    using demo_names_ok(2) by (simp add: demo_internal_def)
  moreover have "length demo_names = 12" by (simp add: demo_names_def)
  moreover have "\<forall>(name, shape) \<in> set demo_names. \<exists>sp. tensor_spec_of (lit name) demo_md = Some sp \<and> sp_hf_shape sp = shape \<and>
      view_fits demo_md (lit name) (small_view shape) shape" using small_fits by blast
  ultimately show ?thesis
    using views_pass [of demo_names "{}" 0 0] demo_names_ok(1) by (simp add: demo_views_def demo_internal_def u64_lim_def)
qed

abbreviation "demo_load \<equiv> \<lparr>lc_repo_id = None, lc_revision = None, lc_local_dir = lit ''m''\<rparr>"

lemma demo_preflight:
  "\<exists>t r. preflight_hf_safetensors_source source_fs demo_parsers demo_load s = (t, Ok r) \<and> pf_logical_tensor_count r = 12"
proof -
  obtain s1 s2 s3 where run: "parse_metadata source_fs demo_parsers (lit ''m'') s = (s1, Ok demo_md)"
    "discover_weight_files source_fs demo_parsers (lit ''m'') s1 = (s2, Ok [SINGLE_SAFETENSORS])"
    "open_shard source_fs demo_parsers (lit ''m'') SINGLE_SAFETENSORS s2 = (s3, Ok demo_views)"
    using demo_source by blast
  have n: "card (expected_logical_tensors demo_md) = 12"
  proof -
    have "length demo_internal = 12" by (simp add: demo_internal expected_parts_def)
    then show ?thesis using distinct_card [OF demo_names_ok(1)] demo_names_ok(2) by simp
  qed
  have shards: "validate_shards source_fs demo_parsers (lit ''m'') demo_md ({}, 0, 0) [SINGLE_SAFETENSORS] s2 =
      (s3, Ok (expected_logical_tensors demo_md, 12, 0))"
    using run(3) by (simp add: validate_shard_def rt_bind_def demo_validated checked_add_def u64_lim_def)
  have set: "validate_logical_set (expected_logical_tensors demo_md) demo_md = Ok False"
    by (simp add: validate_logical_set_def demo_md_def Let_def)
  show ?thesis
    unfolding preflight_hf_safetensors_source_def Let_def load_config.simps
    using run shards set n by (simp add: rt_bind_def checked_add_def u64_lim_def)
qed

section \<open>Witnesses\<close>

lemma demo_count: "source_tensors source_fs demo_parsers (lit ''m'') s = 12"
proof -
  obtain t where "discover_weight_files source_fs demo_parsers (lit ''m'') s = (t, Ok [SINGLE_SAFETENSORS])" using demo_source(2) by blast
  moreover obtain u where "open_shard source_fs demo_parsers (lit ''m'') SINGLE_SAFETENSORS s = (u, Ok demo_views)" using demo_source(3) by blast
  ultimately show ?thesis by (simp add: source_tensors_def shard_tensors_def demo_views_def demo_names_def)
qed

lemma transfer_willing: "driver_willing demo_transfer_driver x"
  by (simp add: driver_willing_def driver_api_def demo_transfer_driver_def read_bytes_def)

theorem preflight_decides_loading_witness:
  "\<exists>c w. snd (load_model_from_safetensors demo_transfer_driver source_fs demo_parsers 7 demo_stream demo_load \<lparr>gpu = (\<lambda>_. 0), forgotten = []\<rparr>) =
     Ok (c, w) \<and> length (logical_tensors w) = 12"
proof -
  let ?s = "\<lparr>gpu = (\<lambda>_. 0), forgotten = []\<rparr> :: (nat \<Rightarrow> u8) rt"
  obtain t r where r: "preflight_hf_safetensors_source source_fs demo_parsers demo_load ?s = (t, Ok r)" "pf_logical_tensor_count r = 12"
    using demo_preflight by blast
  have ctx: "stream_ctx demo_stream = 7" by (simp add: demo_stream_def)
  have "source_tensors source_fs demo_parsers (lc_local_dir demo_load) ?s + 1 < u64_lim" by (simp add: demo_count u64_lim_def)
  from preflight_decides_loading [OF source_fs_ok(1) transfer_willing [of "stream_raw demo_stream"] this] r
  show ?thesis unfolding ctx by auto
qed

lemma source_upload:
  assumes "gpu s = (f, L)" "vs \<noteq> []" "length vs \<le> 4" "next_address L + 16 < u64_lim"
  shows "\<exists>t d g K. upload_host_tensor demo_store_driver 7 demo_stream (H_F32 vs) s = (t, Ok d) \<and> gpu t = (g, K) \<and>
    next_address K \<le> next_address L + 16"
proof -
  have ctx: "7 = stream_ctx demo_stream" by (simp add: demo_stream_def)
  have "device_buffer_from_host demo_store_driver 4 7 demo_stream (map f32_bytes vs) s =
      (s\<lparr>gpu := (write_bytes (next_address L) (concat (map f32_bytes vs)) f, (next_address L, length vs * 4) # L)\<rparr>,
       Ok \<lparr>buf_ptr = next_address L, buf_len = length vs, buf_ctx = 7\<rparr>)"
    using demo_store_from_host [OF assms(1) _ _ ctx, of "map f32_bytes vs" 4] assms(2-4) by simp
  then show ?thesis using assms(3) by (simp add: rt_bind_def next_address_Cons)
qed

lemma demo_source_of: "source_of demo_md demo_config 2"
proof -
  have "key_value_width demo_config = Ok 2" by (rule demo_kv_width)
  moreover have "sd_head_dim demo_md = mc_head_dim demo_config" by (simp add: demo_md_def demo_config_def mc_head_dim_def)
  ultimately show ?thesis using demo_md_config by (simp add: source_of_def)
qed

lemma small_host:
  assumes "(name, shape) \<in> set demo_names"
  shows "\<exists>sp vs. tensor_spec_of (lit name) demo_md = Some sp \<and> host_of_view demo_md W_F32 (lit name) (small_view shape) sp = Ok (H_F32 vs) \<and>
    vs \<noteq> [] \<and> length vs \<le> 4"
proof -
  obtain sp where sp: "tensor_spec_of (lit name) demo_md = Some sp" "sp_hf_shape sp = shape" "view_fits demo_md (lit name) (small_view shape) shape"
    using small_fits [OF assms] by blast
  note G = spec_of_graph [OF demo_source_of sp(1)]
  have dtype: "sd_weight_dtype demo_md = W_F32" by (simp add: demo_md_def)
  obtain host where host: "host_of_view demo_md W_F32 (lit name) (small_view shape) sp = Ok host"
    using host_of_view_accepts [OF _ G(1)] sp(2,3) dtype by metis
  obtain vs where vs: "host = H_F32 vs" using host_values [OF host G(1)] by blast
  have "length vs = prod_list (sp_internal_shape sp)" using host_of_view_len [OF host G(1)] vs by simp
  moreover have "prod_list (sp_internal_shape sp) \<le> 4" "0 < prod_list (sp_internal_shape sp)"
    using G(2) by (auto simp: graph_shapes_def layer_shapes_def Let_def demo_config_def)
  ultimately show ?thesis using sp(1) host vs by fastforce
qed

lemma demo_views_run:
  assumes "set xs \<subseteq> set demo_names" "distinct (map (\<lambda>(name, shape). sp_internal_name (the (demo_spec name))) xs)"
    and "(\<lambda>(name, shape). sp_internal_name (the (demo_spec name))) ` set xs \<inter> fst ` set m = {}"
    and "gpu s = (f, L)" "next_address L + 16 * length xs < u64_lim"
  shows "\<exists>t m'. load_views demo_store_driver 7 demo_stream demo_md W_F32 m (map (\<lambda>(name, shape). (lit name, small_view shape)) xs) s = (t, Ok m')"
  using assms
proof (induction xs arbitrary: m s f L)
  case (Cons x xs)
  obtain name shape where x: "x = (name, shape)" by (cases x)
  obtain sp vs where sp: "tensor_spec_of (lit name) demo_md = Some sp" "host_of_view demo_md W_F32 (lit name) (small_view shape) sp = Ok (H_F32 vs)"
    and vs: "vs \<noteq> []" "length vs \<le> 4"
    using small_host [of name shape] Cons.prems(1) x by auto
  have d: "sp_internal_name (the (demo_spec name)) = sp_internal_name sp" using sp(1) by (simp add: demo_spec)
  obtain t d' g K where up: "upload_host_tensor demo_store_driver 7 demo_stream (H_F32 vs) s = (t, Ok d')" "gpu t = (g, K)"
    "next_address K \<le> next_address L + 16"
    using source_upload [OF Cons.prems(4) vs] Cons.prems(5) by auto
  let ?m = "m @ [(sp_internal_name sp, sp_internal_shape sp, d')]"
  have put: "insert_tensor demo_store_driver m (sp_internal_name sp) (sp_internal_shape sp) d' t = (t, Ok ?m)"
    unfolding insert_tensor_Ok using Cons.prems(3) d by (auto simp: x)
  have "\<exists>u m'. load_views demo_store_driver 7 demo_stream demo_md W_F32 ?m (map (\<lambda>(name, shape). (lit name, small_view shape)) xs) t = (u, Ok m')"
    by (rule Cons.IH [OF _ _ _ up(2)]) (use Cons.prems up(3) d x in auto)
  then show ?case using sp up(1) put by (simp add: x rt_bind_def or_release_def)
qed simp

definition demo_start :: "demo_gpu rt" where
  "demo_start = \<lparr>gpu = (\<lambda>_. 0, []), forgotten = []\<rparr>"

lemma demo_loads: "\<exists>t lm. load_model_from_safetensors_f32 demo_store_driver source_fs demo_parsers 7 demo_stream demo_load demo_start = (t, Ok lm)"
proof -
  obtain s1 s2 s3 where run: "parse_metadata source_fs demo_parsers (lit ''m'') demo_start = (s1, Ok demo_md)"
    "discover_weight_files source_fs demo_parsers (lit ''m'') s1 = (s2, Ok [SINGLE_SAFETENSORS])"
    "open_shard source_fs demo_parsers (lit ''m'') SINGLE_SAFETENSORS s2 = (s3, Ok demo_views)"
    using demo_source by blast
  have same: "id (gpu s1) = id (gpu demo_start)" "id (gpu s2) = id (gpu s1)" "id (gpu s3) = id (gpu s2)"
    using rt_keepsD [OF keeps_source(1) [OF source_fs_ok(2)] run(1)] rt_keepsD [OF keeps_source(2) [OF source_fs_ok(2)] run(2)]
      rt_keepsD [OF keeps_source(3) [OF source_fs_ok(2)] run(3)] by blast+
  have empty: "gpu s3 = ((\<lambda>_. 0), [])" using same by (simp add: demo_start_def)
  have names: "distinct (map (\<lambda>(name, shape). sp_internal_name (the (demo_spec name))) demo_names)"
    using demo_names_ok(1) by (simp add: demo_internal_def)
  have room: "next_address [] + 16 * length demo_names < u64_lim" by (simp add: next_address_def demo_names_def u64_lim_def)
  obtain s4 m where views: "load_views demo_store_driver 7 demo_stream demo_md W_F32 [] demo_views s3 = (s4, Ok m)"
    using demo_views_run [OF subset_refl names _ empty room, of "[]"] by (auto simp: demo_views_def)
  have ok: "config_validate demo_config = Ok ()" "mc_weight_dtype demo_config = W_F32" by (rule demo_config_valid) (simp add: demo_config_def)
  have small: "0 + length demo_views < u64_lim" by (simp add: demo_views_def demo_names_def u64_lim_def)
  have none: "distinct (map fst ([] :: loaded_map))" "\<forall>e \<in> set ([] :: loaded_map). graph_entry demo_config 2 W_F32 7 e" by simp_all
  note V = load_views_validated [OF views demo_source_of none small small]
  have m: "distinct (map fst m)" "\<forall>e \<in> set m. graph_entry demo_config 2 W_F32 7 e" using V by blast+
  obtain r i where "for_each_res (preflight_view demo_md) (fst ` set ([] :: loaded_map), 0, 0) demo_views = Ok (fst ` set m, r, i)" using V by blast
  then have "for_each_res (preflight_view demo_md) ({}, 0, 0) demo_views = Ok (fst ` set m, r, i)" unfolding list.set image_empty .
  then have all_names: "fst ` set m = expected_logical_tensors demo_md" unfolding demo_validated by (metis prod.inject sum.inject(2))
  have all: "fst ` set m = fst ` set (graph_shapes demo_config 2)"
    unfolding all_names by (rule expected_names [OF demo_md_config])
  obtain w where w: "build_model_weights m demo_config = Ok w"
    using entries_build [OF demo_kv_width ok(1) m(1) m(2) [folded ok(2)] all] by blast
  have exec: "execution_config_for_dtype demo_config (Some W_F32) = Ok demo_config"
  proof -
    have same: "demo_config\<lparr>mc_weight_dtype := W_F32\<rparr> = demo_config" by (simp add: demo_config_def)
    show ?thesis unfolding execution_config_for_dtype_def Let_def option.case same demo_executable and_then_simps ..
  qed
  have untied: "\<not> sd_tie_word_embeddings demo_md" by (simp add: demo_md_def)
  have ctx: "stream_ctx demo_stream = 7" by (simp add: demo_stream_def)
  have shards: "load_shard demo_store_driver source_fs demo_parsers 7 demo_stream (lit ''m'') demo_md W_F32 [] SINGLE_SAFETENSORS s2 = (s4, Ok m)"
    using run(3) views by (simp add: load_shard_def rt_bind_def or_release_def)
  show ?thesis
    unfolding load_model_from_safetensors_f32_def load_model_from_safetensors_inner_def load_config.simps
    using run(1,2) demo_md_config exec ok(2) shards untied w ctx
    by (simp add: rt_bind_def or_release_def add_tied_lm_head_if_needed_def)
qed

theorem loaded_tensors_hold_source_witness:
  "\<exists>t lm b view vs. load_model_from_safetensors_f32 demo_store_driver source_fs demo_parsers 7 demo_stream demo_load demo_start = (t, Ok lm) \<and>
     mw_tensor (wt_lm_head (lm_weights lm)) = T_F32 b \<and>
     graph_values (lit ''lm_head'') (Matrix_shape (mw_rows (wt_lm_head (lm_weights lm))) (mw_cols (wt_lm_head (lm_weights lm)))) (source_values view) vs \<and>
     values_at fst t (buf_ptr b) (length vs) = vs"
proof -
  obtain t lm where run: "load_model_from_safetensors_f32 demo_store_driver source_fs demo_parsers 7 demo_stream demo_load demo_start = (t, Ok lm)"
    using demo_loads by blast
  have ok: "live_ok (demo_live (gpu demo_start))" by (simp add: demo_start_def live_ok_def)
  let ?head = "(lit ''lm_head'', mw_tensor (wt_lm_head (lm_weights lm)), Matrix_shape (mw_rows (wt_lm_head (lm_weights lm))) (mw_cols (wt_lm_head (lm_weights lm))))"
  have "?head \<in> set (logical_tensors (lm_weights lm))" by (simp add: logical_tensors_def matrix_entry_def)
  then show ?thesis
    using loaded_tensors_hold_source [OF demo_store_ok ok source_fs_ok(1) source_fs_ok(2) source_fs_ok(2) run] run by blast
qed

end
