(* ===== verification/ModelFormat.thy ===== *)
theory ModelFormat
  imports SafetensorsMemory
begin

text \<open>
  The model directory format of \<open>format.rs\<close>: a manifest and raw little-endian tensor files.  The JSON parser is the
  parameter \<open>parse\<close>.  The map of tensors is an association list, as for the Safetensors loader.
\<close>

section \<open>The manifest\<close>

definition NNIS_MODEL_FORMAT :: rstr where "NNIS_MODEL_FORMAT = lit ''nnis-model''"
definition NNIS_MODEL_VERSION :: nat where "NNIS_MODEL_VERSION = 1"
definition NNIS_MODEL_MANIFEST :: rstr where "NNIS_MODEL_MANIFEST = lit ''model.json''"

record tensor_manifest =
  tm_name :: rstr
  tm_dtype :: weight_dtype
  tm_shape :: "nat list"
  tm_file :: rstr

record model_manifest =
  mm_format :: rstr
  mm_version :: nat
  mm_config :: model_config
  mm_tensors :: "tensor_manifest list"

definition validate_manifest_header :: "model_manifest \<Rightarrow> nnis_error + unit" where
  "validate_manifest_header mm =
     (if mm_format mm \<noteq> NNIS_MODEL_FORMAT then
        Err (invalid_input (lit ''model format '' @ debug_name (mm_format mm) @ lit '' is not '' @ debug_name NNIS_MODEL_FORMAT))
      else if mm_version mm \<noteq> NNIS_MODEL_VERSION then
        Err (unsupported (lit ''NNIS model format version '' @ dec (mm_version mm) @ lit ''; supported version is '' @ dec NNIS_MODEL_VERSION))
      else Ok ())"

definition checked_elements :: "nat list \<Rightarrow> nnis_error + nat" where
  "checked_elements shape = product_of shape ''tensor shape overflows usize''"

definition validate_tensor_entry :: "tensor_manifest \<Rightarrow> nnis_error + unit" where
  "validate_tensor_entry entry =
     (if tm_name entry = [] then Err (invalid_lit ''tensor name must not be empty'')
      else if tm_shape entry = [] \<or> 0 \<in> set (tm_shape entry) then
        Err (invalid_input (lit ''tensor '' @ tm_name entry @ lit '' shape must contain only non-zero dimensions; got '' @
          list_debug dec (tm_shape entry)))
      else
        and_then (checked_elements (tm_shape entry)) (\<lambda>_.
        and_then (resolve_tensor_path (lit ''.'') (tm_file entry)) (\<lambda>_. Ok ())))"

section \<open>Tensors\<close>

text \<open>The file of an entry as a tensor on the host.\<close>

definition entry_host :: "tensor_manifest \<Rightarrow> u8 list \<Rightarrow> nat \<Rightarrow> nnis_error + host_tensor" where
  "entry_host entry bytes elements =
     (case tm_dtype entry of
        W_F32 \<Rightarrow>
          and_then (ok_or (invalid_lit ''f32 tensor byte size overflows'') (checked_mul elements 4)) (\<lambda>expected.
            if length bytes \<noteq> expected then
              Err (invalid_input (lit ''tensor '' @ tm_name entry @ lit '' file has '' @ dec (length bytes) @ lit '' bytes; shape '' @
                list_debug dec (tm_shape entry) @ lit '' f32 requires '' @ dec expected))
            else Ok (H_F32 (f32s_of_bytes bytes)))
      | W_Bf16 \<Rightarrow>
          and_then (ok_or (invalid_lit ''bf16 tensor byte size overflows'') (checked_mul elements 2)) (\<lambda>expected.
            if length bytes \<noteq> expected then
              Err (invalid_input (lit ''tensor '' @ tm_name entry @ lit '' file has '' @ dec (length bytes) @ lit '' bytes; shape '' @
                list_debug dec (tm_shape entry) @ lit '' bf16 requires '' @ dec expected))
            else Ok (H_Bf16 (bf16s_of_bytes bytes))))"

definition load_entry ::
  "'s cuda \<Rightarrow> ('s, 'h) file_system \<Rightarrow> nat \<Rightarrow> stream \<Rightarrow> rstr \<Rightarrow> loaded_map \<Rightarrow> tensor_manifest \<Rightarrow> ('s, loaded_map) rt_comp" where
  "load_entry drv fs ctx st directory m entry =
     or_release drv (loaded_buffers m)
       (rt_bind (rt_lift (validate_tensor_entry entry)) (\<lambda>_.
        rt_bind (rt_lift (if map_of m (tm_name entry) \<noteq> None then
            Err (invalid_input (lit ''duplicate tensor name '' @ tm_name entry @ lit '' in model manifest'')) else Ok ())) (\<lambda>_.
        rt_bind (rt_lift (resolve_tensor_path directory (tm_file entry))) (\<lambda>path.
        rt_bind (fs_call (lit ''read NNIS tensor'') (fs_read fs path)) (\<lambda>bytes.
        rt_bind (rt_lift (checked_elements (tm_shape entry))) (\<lambda>elements.
        rt_bind (rt_lift (entry_host entry bytes elements)) (\<lambda>host.
        rt_bind (upload_host_tensor drv ctx st host) (\<lambda>t.
          rt_ok (m @ [(tm_name entry, tm_shape entry, t)])))))))))"

fun load_entries ::
  "'s cuda \<Rightarrow> ('s, 'h) file_system \<Rightarrow> nat \<Rightarrow> stream \<Rightarrow> rstr \<Rightarrow> loaded_map \<Rightarrow> tensor_manifest list \<Rightarrow> ('s, loaded_map) rt_comp" where
  "load_entries drv fs ctx st directory m [] = rt_ok m"
| "load_entries drv fs ctx st directory m (entry # entries) =
     rt_bind (load_entry drv fs ctx st directory m entry) (\<lambda>m. load_entries drv fs ctx st directory m entries)"

section \<open>The weight graph\<close>

definition take_tensor :: "loaded_map \<Rightarrow> rstr \<Rightarrow> nat list \<Rightarrow> nnis_error + device_tensor \<times> loaded_map" where
  "take_tensor m name expected =
     and_then (ok_or (invalid_input (lit ''model manifest is missing required tensor '' @ name)) (map_of m name)) (\<lambda>(shape, t).
       if shape \<noteq> expected then
         Err (invalid_input (lit ''tensor '' @ name @ lit '' has manifest shape '' @ list_debug dec shape @ lit ''; expected '' @
           list_debug dec expected))
       else Ok (t, AList.delete name m))"

definition take_matrix :: "loaded_map \<Rightarrow> rstr \<Rightarrow> nat \<Rightarrow> nat \<Rightarrow> nnis_error + matrix_weight \<times> loaded_map" where
  "take_matrix m name rows cols =
     and_then (take_tensor m name [rows, cols]) (\<lambda>(t, m). and_then (matrix_weight_new t rows cols) (\<lambda>w. Ok (w, m)))"

definition take_vector :: "loaded_map \<Rightarrow> rstr \<Rightarrow> nat \<Rightarrow> nnis_error + vector_weight \<times> loaded_map" where
  "take_vector m name len =
     and_then (take_tensor m name [len]) (\<lambda>(t, m). and_then (vector_weight_new t len) (\<lambda>w. Ok (w, m)))"

definition manifest_layer ::
  "model_config \<Rightarrow> nat \<Rightarrow> layer_weights list \<times> loaded_map \<Rightarrow> nat \<Rightarrow> nnis_error + layer_weights list \<times> loaded_map" where
  "manifest_layer c kv = (\<lambda>(ls, m) i. let hidden = mc_hidden_size c; inter = mc_intermediate_size c in
     and_then (take_vector m (layer_name i ''input_norm'') hidden) (\<lambda>(input_norm, m).
     and_then (take_matrix m (layer_name i ''q_proj'') hidden hidden) (\<lambda>(q, m).
     and_then (take_matrix m (layer_name i ''k_proj'') hidden kv) (\<lambda>(k, m).
     and_then (take_matrix m (layer_name i ''v_proj'') hidden kv) (\<lambda>(v, m).
     and_then (take_matrix m (layer_name i ''o_proj'') hidden hidden) (\<lambda>(proj_o, m).
     and_then (take_vector m (layer_name i ''post_attention_norm'') hidden) (\<lambda>(post, m).
     and_then (take_matrix m (layer_name i ''gate_proj'') hidden inter) (\<lambda>(gate, m).
     and_then (take_matrix m (layer_name i ''up_proj'') hidden inter) (\<lambda>(up, m).
     and_then (take_matrix m (layer_name i ''down_proj'') inter hidden) (\<lambda>(down, m).
       Ok (ls @ [\<lparr>lw_input_norm = input_norm, lw_q_proj = q, lw_k_proj = k, lw_v_proj = v, lw_o_proj = proj_o,
          lw_post_attention_norm = post, lw_gate_proj = gate, lw_up_proj = up, lw_down_proj = down\<rparr>], m)))))))))))"

definition build_weight_graph :: "loaded_map \<Rightarrow> model_config \<Rightarrow> nnis_error + model_weights \<times> loaded_map" where
  "build_weight_graph m c =
     and_then (key_value_width c) (\<lambda>kv.
     and_then (take_matrix m (lit ''token_embedding'') (mc_vocab_size c) (mc_hidden_size c)) (\<lambda>(embedding, m).
     and_then (for_each_res (manifest_layer c kv) ([], m) [0..<mc_num_hidden_layers c]) (\<lambda>(layers, m).
     and_then (take_vector m (lit ''final_norm'') (mc_hidden_size c)) (\<lambda>(norm, m).
     and_then (take_matrix m (lit ''lm_head'') (mc_hidden_size c) (mc_vocab_size c)) (\<lambda>(head, m).
       Ok (\<lparr>wt_token_embedding = embedding, wt_layers = layers, wt_final_norm = norm, wt_lm_head = head\<rparr>, m))))))"

text \<open>The end of \<open>load_model_directory\<close>: build, refuse what is left, validate.\<close>

definition manifest_weights :: "loaded_map \<Rightarrow> model_config \<Rightarrow> nnis_error + model_weights" where
  "manifest_weights m c =
     and_then (build_weight_graph m c) (\<lambda>(w, m).
       if m \<noteq> [] then
         Err (invalid_input (lit ''model manifest contains unrecognized tensors: '' @ join_with (lit '', '') (sort (map fst m))))
       else and_then (weights_validate c w) (\<lambda>_. Ok w))"

definition load_model_directory ::
  "'s cuda \<Rightarrow> ('s, 'h) file_system \<Rightarrow> (u8 list \<Rightarrow> rstr + model_manifest) \<Rightarrow> nat \<Rightarrow> stream \<Rightarrow> rstr \<Rightarrow> ('s, model_config \<times> model_weights) rt_comp" where
  "load_model_directory drv fs parse ctx st directory =
     (if ctx \<noteq> stream_ctx st then rt_lift (Err (invalid_lit ''model loader context and upload stream must match''))
      else
        rt_bind (fs_call (lit ''read NNIS model manifest'') (fs_read fs (path_join directory NNIS_MODEL_MANIFEST))) (\<lambda>bytes.
        rt_bind (rt_lift (map_err (\<lambda>e. invalid_input (lit ''invalid NNIS model manifest JSON: '' @ e)) (parse bytes))) (\<lambda>mm.
        rt_bind (rt_lift (validate_manifest_header mm)) (\<lambda>_.
        rt_bind (rt_lift (config_validate (mm_config mm))) (\<lambda>_.
        rt_bind (load_entries drv fs ctx st directory [] (mm_tensors mm)) (\<lambda>m.
        rt_bind (or_release drv (loaded_buffers m) (rt_lift (manifest_weights m (mm_config mm)))) (\<lambda>w.
          rt_ok (mm_config mm, w))))))))"

section \<open>Both loaders build the same graph\<close>

lemma take_matrix_Ok: "take_matrix m name r k = Ok x \<longleftrightarrow> take_mat m name r k = Ok x"
  by (auto simp: take_matrix_def take_tensor_def take_mat_def split: if_split_asm)

lemma take_vector_Ok: "take_vector m name n = Ok x \<longleftrightarrow> take_vec m name n = Ok x"
  by (auto simp: take_vector_def take_tensor_def take_vec_def split: if_split_asm)

lemma manifest_layer_Ok:
  assumes "\<forall>part. layer_name i part \<notin> N"
  shows "manifest_layer c kv (ls, without N m) i = Ok x \<longleftrightarrow> st_take_layer c kv (ls, without N m) i = Ok x"
proof -
  have names: "insert (layer_name i ''down_proj'') (insert (layer_name i ''up_proj'') (insert (layer_name i ''gate_proj'')
      (insert (layer_name i ''post_attention_norm'') N'))) = insert (layer_name i ''post_attention_norm'') (insert (layer_name i ''down_proj'')
      (insert (layer_name i ''up_proj'') (insert (layer_name i ''gate_proj'') N')))" for N' by blast
  show ?thesis
    using assms
    by (cases x) (auto simp: manifest_layer_def st_take_layer_def Let_def take_matrix_Ok take_vector_Ok take_vec_Ok take_mat_Ok layer_name_eq names)
qed

lemma manifest_layers_Ok:
  "(\<forall>i part. j \<le> i \<longrightarrow> layer_name i part \<notin> N) \<Longrightarrow> for_each_res (manifest_layer c kv) (ls, without N m) [j..<n] = Ok x \<longleftrightarrow>
    for_each_res (st_take_layer c kv) (ls, without N m) [j..<n] = Ok x"
proof (induction "n - j" arbitrary: j N ls)
  case (Suc d)
  then have j: "j < n" by simp
  have first: "\<forall>part. layer_name j part \<notin> N" using Suc.prems by simp
  have fresh: "\<forall>i part. Suc j \<le> i \<longrightarrow> layer_name i part \<notin> N \<union> fst ` set (layer_shapes c kv j)"
    using Suc.prems by (auto dest!: in_layer_shapes simp: layer_name_eq)
  have d: "d = n - Suc j" using Suc.hyps(2) by simp
  note IH = Suc.hyps(1) [OF d fresh]
  show ?case
    unfolding upt_conv_Cons [OF j] by (auto simp: manifest_layer_Ok [OF first] st_take_layer_Ok [OF first] IH)
qed simp

theorem manifest_weights_Ok: "manifest_weights m c = Ok w \<longleftrightarrow> build_model_weights m c = Ok w"
proof -
  have layers: "\<forall>i part. 0 \<le> i \<longrightarrow> layer_name i part \<notin> {lit ''token_embedding''}" by (simp add: layer_name_outer)
  have start: "take_mat m (lit ''token_embedding'') r k = take_mat (without {} m) (lit ''token_embedding'') r k" for r k
    by (simp add: without_simps)
  have loop: "for_each_res (manifest_layer c kv) ([], without {lit ''token_embedding''} m) [0..<n] = Ok x \<longleftrightarrow>
      for_each_res (st_take_layer c kv) ([], without {lit ''token_embedding''} m) [0..<n] = Ok x" for kv n x
    by (rule manifest_layers_Ok [OF layers])
  have e: "lit ''token_embedding'' \<notin> {}" by simp
  show ?thesis
    unfolding manifest_weights_def build_weight_graph_def build_model_weights_def
    by (auto simp: take_matrix_Ok take_vector_Ok start take_mat_Ok [OF e] loop Let_def split: if_split_asm)
qed

section \<open>Bytes\<close>

lemma le_value: "length bs = k \<Longrightarrow> foldr (\<lambda>b n. unat b + 256 * n) bs 0 < 256 ^ k \<and> le_bytes k (foldr (\<lambda>b n. unat (b :: u8) + 256 * n) bs 0) = bs"
proof (induction bs arbitrary: k)
  case (Cons b bs)
  obtain j where k: "k = Suc j" "length bs = j" using Cons.prems by (cases k) simp_all
  note IH = Cons.IH [OF k(2)]
  have b: "unat b < 256" using unsigned_less [of b] by simp
  show ?case using IH b by (simp add: k(1))
qed simp

lemma f32_bytes_of_le: "length bs = 4 \<Longrightarrow> f32_bytes (f32_of_le bs) = bs"
  using le_value [of bs 4] by (simp add: f32_bytes_def f32_of_le_def unat_of_nat take_bit_nat_eq_self)

lemma bf16_bytes_of_le: "length bs = 2 \<Longrightarrow> bf16_bytes (bf16_of_le bs) = bs"
  using le_value [of bs 2] by (simp add: bf16_bytes_def bf16_of_le_def unat_of_nat take_bit_nat_eq_self)

lemma concat_chunks:
  assumes "0 < n" "\<And>c. length c = n \<Longrightarrow> f (g c) = c"
  shows "length bs = m * n \<Longrightarrow> concat (map f (map g (chunks_exact n bs))) = bs"
proof (induction m arbitrary: bs)
  case (Suc m)
  have len: "length (take n bs) = n" "length (drop n bs) = m * n" using Suc.prems by simp_all
  have "chunks_exact n bs = take n bs # chunks_exact n (drop n bs)"
    using Suc.prems assms(1) by (subst chunks_exact.simps) (auto simp: Let_def)
  then show ?case using Suc.IH [OF len(2)] assms(2) [OF len(1)] by simp
qed (use assms(1) in \<open>simp add: chunks_exact.simps\<close>)

fun host_image :: "host_tensor \<Rightarrow> u8 list list" where
  "host_image (H_F32 vs) = map f32_bytes vs"
| "host_image (H_Bf16 vs) = map bf16_bytes vs"

fun dtype_width :: "weight_dtype \<Rightarrow> nat" where
  "dtype_width W_F32 = 4"
| "dtype_width W_Bf16 = 2"

lemma entry_host_Ok:
  assumes "entry_host entry bytes n = Ok host"
  shows "host_dtype host = tm_dtype entry \<and> host_len host = n \<and> concat (host_image host) = bytes"
proof (cases "tm_dtype entry")
  case W_F32
  then have "host = H_F32 (f32s_of_bytes bytes)" "length bytes = n * 4"
    using assms by (auto simp: entry_host_def checked_mul_def split: if_split_asm)
  then show ?thesis using W_F32 concat_chunks [where f = f32_bytes and g = f32_of_le and n = 4 and m = n and bs = bytes] f32_bytes_of_le by (simp add: decoded_lengths) (simp add: f32s_of_bytes_def)
next
  case W_Bf16
  then have "host = H_Bf16 (bf16s_of_bytes bytes)" "length bytes = n * 2"
    using assms by (auto simp: entry_host_def checked_mul_def split: if_split_asm)
  then show ?thesis using W_Bf16 concat_chunks [where f = bf16_bytes and g = bf16_of_le and n = 2 and m = n and bs = bytes] bf16_bytes_of_le by (simp add: decoded_lengths) (simp add: bf16s_of_bytes_def)
qed

lemma upload_image:
  assumes S: "store_driver drv (stream_raw st) live content" and ok: "live_ok (live (gpu s))"
    and run: "upload_host_tensor drv ctx st host s = (t, Ok d)" and "0 < host_len host"
  shows "preserves live content (live (gpu s)) s t \<and> tensor_dtype d = host_dtype host \<and>
    stored live content (dtype_width (host_dtype host)) (tensor_buffer d) (concat (host_image host)) t"
proof (cases host)
  case (H_F32 vs)
  then obtain b where b: "device_buffer_from_host drv 4 ctx st (map f32_bytes vs) s = (t, Ok b)" and d: "d = T_F32 b"
    using run by (auto simp: rt_bind_Ok)
  have "vs \<noteq> []" using assms(4) H_F32 by auto
  then show ?thesis using from_host_effect [OF S ok b] d H_F32 by simp
next
  case (H_Bf16 vs)
  then obtain b where b: "device_buffer_from_host drv 2 ctx st (map bf16_bytes vs) s = (t, Ok b)" and d: "d = T_Bf16 b"
    using run by (auto simp: rt_bind_Ok)
  have "vs \<noteq> []" "\<forall>e \<in> set (map bf16_bytes vs). length e = 2" using assms(4) H_Bf16 by (auto simp: bf16_bytes_def)
  then show ?thesis using from_host_effect [OF S ok b] d H_Bf16 by simp
qed

section \<open>Tensors hold their files\<close>

text \<open>A tensor of the map with the entry and the file it was loaded from.\<close>

definition holds_file ::
  "('s \<Rightarrow> (nat \<times> nat) set) \<Rightarrow> ('s \<Rightarrow> nat \<Rightarrow> u8) \<Rightarrow> (rstr \<Rightarrow> io_fault + u8 list) \<Rightarrow> rstr \<Rightarrow> tensor_manifest \<Rightarrow> device_tensor \<Rightarrow> 's rt \<Rightarrow> bool" where
  "holds_file live content files directory entry t s \<longleftrightarrow> tensor_dtype t = tm_dtype entry \<and>
     (\<exists>bytes. files (path_join directory (tm_file entry)) = Ok bytes \<and> stored live content (dtype_width (tm_dtype entry)) (tensor_buffer t) bytes s)"

definition entries_hold ::
  "('s \<Rightarrow> (nat \<times> nat) set) \<Rightarrow> ('s \<Rightarrow> nat \<Rightarrow> u8) \<Rightarrow> (rstr \<Rightarrow> io_fault + u8 list) \<Rightarrow> rstr \<Rightarrow> tensor_manifest list \<Rightarrow> loaded_map \<Rightarrow> 's rt \<Rightarrow> bool" where
  "entries_hold live content files directory entries m s \<longleftrightarrow>
     list_all2 (\<lambda>entry (name, shape, t). name = tm_name entry \<and> shape = tm_shape entry \<and> holds_file live content files directory entry t s) entries m"

lemma entries_hold_live:
  assumes "entries_hold live content files d entries m s" "preserves live content (live (gpu s)) s t"
  shows "entries_hold live content files d entries m t"
  using assms(1) unfolding entries_hold_def
  by (rule list_all2_mono) (auto simp: holds_file_def dest: stored_live [OF _ assms(2)])

lemma read_preserves:
  assumes "\<And>p g. live (fst (fs_read fs p g)) = live g" "\<And>p g. content (fst (fs_read fs p g)) = content g" "live_ok (live (gpu s))"
    and run: "fs_call op (fs_read fs p) s = (u, r)"
  shows "preserves live content (live (gpu s)) s u"
proof -
  have k: "rt_keeps content (fs_call op (fs_read fs p))" "rt_keeps live (fs_call op (fs_read fs p))"
    by (rule keeps_fs_call, rule assms)+
  show ?thesis by (rule keeps_preserves [OF k run assms(3)])
qed

lemma load_entry_holds:
  assumes S: "store_driver drv (stream_raw st) live content" and ok: "live_ok (live (gpu s))"
    and fs: "\<And>p g. snd (fs_read fs p g) = files p" "\<And>p g. live (fst (fs_read fs p g)) = live g" "\<And>p g. content (fst (fs_read fs p g)) = content g"
    and run: "load_entry drv fs ctx st d m entry s = (t, Ok m')"
  shows "preserves live content (live (gpu s)) s t \<and> tm_name entry \<notin> fst ` set m \<and>
    (\<exists>x. m' = m @ [(tm_name entry, tm_shape entry, x)] \<and> holds_file live content files d entry x t)"
proof -
  obtain path u bytes n host x where path: "resolve_tensor_path d (tm_file entry) = Ok path" and valid: "validate_tensor_entry entry = Ok ()"
    and read: "fs_call (lit ''read NNIS tensor'') (fs_read fs path) s = (u, Ok bytes)" and n: "checked_elements (tm_shape entry) = Ok n"
    and host: "entry_host entry bytes n = Ok host" and up: "upload_host_tensor drv ctx st host u = (t, Ok x)"
    and m': "m' = m @ [(tm_name entry, tm_shape entry, x)]" "tm_name entry \<notin> fst ` set m"
    using run by (auto simp: load_entry_def rt_bind_Ok rt_lift_Ok or_release_Ok map_of_eq_None_iff split: if_split_asm)
  have path': "path = path_join d (tm_file entry)" using path by (simp add: resolve_tensor_path_def split: if_split_asm)
  have bytes: "files path = Ok bytes" using read fs(1) [of path "gpu s"] by (auto simp: fs_call_def split_beta)
  have a: "preserves live content (live (gpu s)) s u"
    by (rule read_preserves [OF fs(2,3) ok read])
  have "n = prod_list (tm_shape entry)" using n product_of_Ok unfolding checked_elements_def by blast
  moreover have "0 \<notin> set (tm_shape entry)" using valid by (simp add: validate_tensor_entry_def split: if_split_asm)
  ultimately have "0 < n" by (simp add: prod_list_zero_iff zero_less_iff_neq_zero)
  then have "0 < host_len host" using entry_host_Ok [OF host] by simp
  from upload_image [OF S preserves_live [OF a] up this] entry_host_Ok [OF host]
  show ?thesis using preserves_step [OF a] m' bytes path' by (auto simp: holds_file_def)
qed

lemma load_entries_hold:
  assumes S: "store_driver drv (stream_raw st) live content"
    and fs: "\<And>p g. snd (fs_read fs p g) = files p" "\<And>p g. live (fst (fs_read fs p g)) = live g" "\<And>p g. content (fst (fs_read fs p g)) = content g"
    and "load_entries drv fs ctx st d m entries s = (t, Ok m')" "entries_hold live content files d before m s" "live_ok (live (gpu s))" "distinct (map fst m)"
  shows "entries_hold live content files d (before @ entries) m' t \<and> preserves live content (live (gpu s)) s t \<and> distinct (map fst m')"
  using assms(5-8)
proof (induction entries arbitrary: before m s)
  case (Cons entry entries)
  obtain u mm where one: "load_entry drv fs ctx st d m entry s = (u, Ok mm)" and rest: "load_entries drv fs ctx st d mm entries u = (t, Ok m')"
    using Cons.prems(1) by (auto simp: rt_bind_Ok)
  from load_entry_holds [OF S Cons.prems(3) fs one]
  obtain x where a: "preserves live content (live (gpu s)) s u" and x: "mm = m @ [(tm_name entry, tm_shape entry, x)]"
    "holds_file live content files d entry x u" and new: "tm_name entry \<notin> fst ` set m" by blast
  have "entries_hold live content files d (before @ [entry]) mm u"
    using entries_hold_live [OF Cons.prems(2) a] x by (simp add: entries_hold_def list_all2_appendI)
  have "distinct (map fst mm)" using Cons.prems(4) new x(1) by simp
  from Cons.IH [OF rest \<open>entries_hold live content files d (before @ [entry]) mm u\<close> preserves_live [OF a] this] show ?case using preserves_step [OF a] by simp
qed (simp add: preserves_refl)

text \<open>C22. A model directory is loaded byte for byte.  When \<open>load_model_directory\<close> returns a configuration and a weight graph,
  they are those of the manifest at \<open>model.json\<close>: the configuration is its own and valid, the graph validates against it,
  and the manifest lists every logical tensor of the graph exactly once and nothing else, with its shape and its element
  type; the bytes of each tensor in live device memory are the bytes of the file that its entry names below the directory.
  No memory that was live before has changed.  (The memory behaves as documented; the files do not change meanwhile and
  reading them does not touch the device.)\<close>

theorem directory_model_holds_files:
  assumes S: "store_driver drv (stream_raw st) live content" and ok: "live_ok (live (gpu s))"
    and fs: "\<And>p g. snd (fs_read fs p g) = files p" "\<And>p g. live (fst (fs_read fs p g)) = live g" "\<And>p g. content (fst (fs_read fs p g)) = content g"
    and run: "load_model_directory drv fs parse ctx st directory s = (t, Ok (c, w))"
  shows "\<exists>bytes mm. files (path_join directory NNIS_MODEL_MANIFEST) = Ok bytes \<and> parse bytes = Ok mm \<and> mm_config mm = c \<and>
    weights_validate c w = Ok () \<and> preserves live content (live (gpu s)) s t \<and>
    distinct (map tm_name (mm_tensors mm)) \<and> set (map tm_name (mm_tensors mm)) = fst ` set (logical_tensors w) \<and>
    (\<forall>(name, tensor, shape) \<in> set (logical_tensors w). \<exists>entry \<in> set (mm_tensors mm). tm_name entry = name \<and> shape_of (tm_shape entry) = shape \<and>
       holds_file live content files directory entry tensor t)"
proof -
  obtain u bytes mm v m where read: "fs_call (lit ''read NNIS model manifest'') (fs_read fs (path_join directory NNIS_MODEL_MANIFEST)) s = (u, Ok bytes)"
    and mm: "parse bytes = Ok mm" and entries: "load_entries drv fs ctx st directory [] (mm_tensors mm) u = (t, Ok m)"
    and built: "build_model_weights m (mm_config mm) = Ok w" and c: "c = mm_config mm"
    using run unfolding load_model_directory_def by (auto simp: rt_bind_Ok rt_lift_Ok or_release_Ok manifest_weights_Ok split: if_split_asm)
  have bytes: "files (path_join directory NNIS_MODEL_MANIFEST) = Ok bytes"
    using read fs(1) [of "path_join directory NNIS_MODEL_MANIFEST" "gpu s"] by (auto simp: fs_call_def split_beta)
  have a: "preserves live content (live (gpu s)) s u"
    by (rule read_preserves [OF fs(2,3) ok read])
  have "entries_hold live content files directory [] [] u" by (simp add: entries_hold_def)
  from load_entries_hold [OF S fs entries this preserves_live [OF a]]
  have H: "entries_hold live content files directory (mm_tensors mm) m t" and b: "preserves live content (live (gpu u)) u t"
    and distinct: "distinct (map fst m)" by simp_all
  obtain kv where kv: "key_value_width c = Ok kv" "weights_validate c w = Ok ()" "w = graph_of c kv (tensor_at m)"
    "fst ` set m \<subseteq> fst ` set (graph_shapes c kv)" "\<forall>x \<in> set (graph_shapes c kv). entry_fits m x"
    using built unfolding build_Ok c by blast
  have names: "map tm_name (mm_tensors mm) = map fst m"
    using H unfolding entries_hold_def by (induction rule: list_all2_induct) auto
  have "name \<in> fst ` set m" if "entry_fits m (name, dims)" for name dims
    using that unfolding entry_fits_def prod.case by (metis map_of_SomeD fst_conv image_eqI)
  then have all: "fst ` set m = fst ` set (graph_shapes c kv)" using kv(4,5) by force
  have graph: "fst ` set (logical_tensors w) = fst ` set (graph_shapes c kv)" unfolding kv(3) graph_of_tensors by force
  have "\<exists>entry \<in> set (mm_tensors mm). tm_name entry = name \<and> shape_of (tm_shape entry) = shape \<and>
      holds_file live content files directory entry tensor t" if x: "(name, tensor, shape) \<in> set (logical_tensors w)" for name tensor shape
  proof -
    obtain dims where "shape = shape_of dims" "(name, dims, tensor) \<in> set m" using built_entries [OF built [folded c] kv(1) x] by blast
    then show ?thesis using H by (fastforce simp: entries_hold_def list_all2_conv_all_nth in_set_conv_nth)
  qed
  moreover have "preserves live content (live (gpu s)) s t" by (rule preserves_step [OF a b])
  moreover have "distinct (map tm_name (mm_tensors mm))" "set (map tm_name (mm_tensors mm)) = fst ` set (logical_tensors w)"
    unfolding names by (simp_all add: distinct graph all)
  ultimately show ?thesis using bytes mm c kv(2) by (intro exI [of _ bytes] exI [of _ mm]) auto
qed

end
