(* ===== verification/ModelFormatDemo.thy ===== *)
theory ModelFormatDemo
  imports ModelFormat SafetensorsDemo
begin

text \<open>
  A model directory in the format of \<open>ModelFormat\<close>: the concrete input of its witness.
\<close>

section \<open>Witness\<close>

text \<open>A directory of two tensor files, one of sixteen bytes and one of eight, that twelve entries share.\<close>

definition format_files :: "rstr \<Rightarrow> io_fault + u8 list" where
  "format_files p = (if p = lit ''m/a'' then Ok (map of_nat [0..<16]) else Ok (map of_nat [0..<8]))"

definition format_fs :: "('s, unit) file_system" where
  "format_fs =
     \<lparr>fs_symlink_metadata = (\<lambda>p g. (g, Err (not_found []))), fs_canonicalize = (\<lambda>p g. (g, Err (not_found []))),
      fs_open_nofollow = (\<lambda>p g. (g, Err (not_found []))), fs_handle_metadata = (\<lambda>h g. (g, Err (not_found []))),
      fs_read_to_end = (\<lambda>h g. (g, Err (not_found []))), fs_close = (\<lambda>h g. g), fs_read = (\<lambda>p g. (g, format_files p))\<rparr>"

definition format_entry :: "rstr \<times> nat list \<Rightarrow> tensor_manifest" where
  "format_entry = (\<lambda>(name, shape). \<lparr>tm_name = name, tm_dtype = W_F32, tm_shape = shape,
     tm_file = (if prod_list shape = 4 then lit ''a'' else lit ''b'')\<rparr>)"

definition format_manifest :: model_manifest where
  "format_manifest = \<lparr>mm_format = NNIS_MODEL_FORMAT, mm_version = NNIS_MODEL_VERSION, mm_config = demo_config,
     mm_tensors = map format_entry (graph_shapes demo_config 2)\<rparr>"

lemma format_shapes: "(name, shape) \<in> set (graph_shapes demo_config 2) \<Longrightarrow> shape \<in> {[2], [2, 2], [2, 1], [1, 2]} \<and> name \<noteq> []"
  by (auto simp: graph_shapes_def layer_shapes_def demo_config_def layer_name_def Let_def lit_def)

lemma format_paths: "resolve_tensor_path d (lit [c]) = Ok (path_join d (lit [c]))" if "c \<in> {CHR ''a'', CHR ''b''}"
  using that by (auto simp: resolve_tensor_path_def is_absolute_def path_components_def piece_component_def plain_component_def lit_def)

lemma format_joins: "path_join (lit ''m'') (lit ''a'') = lit ''m/a''" "path_join (lit ''m'') (lit ''b'') = lit ''m/b''" "lit ''m/b'' \<noteq> lit ''m/a''"
  by (simp_all add: path_join_def is_absolute_def lit_def)

lemma format_host:
  assumes "(name, shape) \<in> set (graph_shapes demo_config 2)"
  shows "\<exists>bytes vs. validate_tensor_entry (format_entry (name, shape)) = Ok () \<and>
    resolve_tensor_path (lit ''m'') (tm_file (format_entry (name, shape))) = Ok (path_join (lit ''m'') (tm_file (format_entry (name, shape)))) \<and>
    format_files (path_join (lit ''m'') (tm_file (format_entry (name, shape)))) = Ok bytes \<and> checked_elements shape = Ok (prod_list shape) \<and>
    entry_host (format_entry (name, shape)) bytes (prod_list shape) = Ok (H_F32 vs) \<and> vs \<noteq> [] \<and> length vs \<le> 4"
proof -
  have size: "checked_elements shape = Ok (prod_list shape)" "0 \<notin> set shape" "shape \<noteq> []" "prod_list shape = 4 \<or> prod_list shape = 2" "name \<noteq> []"
    using format_shapes [OF assms] by (auto simp: checked_elements_def product_of_def checked_mul_def u64_lim_def)
  have path: "resolve_tensor_path d (tm_file (format_entry (name, shape))) = Ok (path_join d (tm_file (format_entry (name, shape))))" for d
    using format_paths [of "CHR ''a''" d] format_paths [of "CHR ''b''" d] by (simp add: format_entry_def)
  have valid: "validate_tensor_entry (format_entry (name, shape)) = Ok ()"
    using size path by (simp add: validate_tensor_entry_def format_entry_def)
  let ?bytes = "map of_nat [0..<prod_list shape * 4] :: u8 list"
  have content: "format_files (path_join (lit ''m'') (tm_file (format_entry (name, shape)))) = Ok ?bytes"
    using size(4) by (auto simp: format_entry_def format_joins format_files_def)
  have host: "entry_host (format_entry (name, shape)) ?bytes (prod_list shape) = Ok (H_F32 (f32s_of_bytes ?bytes))"
    using size(4) by (auto simp: entry_host_def format_entry_def checked_mul_def u64_lim_def)
  have len: "length (f32s_of_bytes ?bytes) = prod_list shape" by (simp add: decoded_lengths)
  have "f32s_of_bytes ?bytes \<noteq> []" "length (f32s_of_bytes ?bytes) \<le> 4" using len size(4) by auto
  then show ?thesis using valid path content size(1) host by blast
qed

lemma format_entries_run:
  assumes "set xs \<subseteq> set (graph_shapes demo_config 2)" "distinct (map fst xs)" "fst ` set xs \<inter> fst ` set m = {}"
    and "gpu s = (f, L)" "next_address L + 16 * length xs < u64_lim" "\<forall>e \<in> set m. graph_entry demo_config 2 W_F32 7 e"
    and "distinct (map fst m)"
  shows "\<exists>t m'. load_entries demo_store_driver format_fs 7 demo_stream (lit ''m'') m (map format_entry xs) s = (t, Ok m') \<and>
    fst ` set m' = fst ` set m \<union> fst ` set xs \<and> distinct (map fst m') \<and> (\<forall>e \<in> set m'. graph_entry demo_config 2 W_F32 7 e)"
  using assms
proof (induction xs arbitrary: m s f L)
  case (Cons x xs)
  obtain name shape where x: "x = (name, shape)" by (cases x)
  have inside: "(name, shape) \<in> set (graph_shapes demo_config 2)" using Cons.prems(1) x by simp
  obtain bytes vs where e: "validate_tensor_entry (format_entry (name, shape)) = Ok ()"
    "resolve_tensor_path (lit ''m'') (tm_file (format_entry (name, shape))) = Ok (path_join (lit ''m'') (tm_file (format_entry (name, shape))))"
    "format_files (path_join (lit ''m'') (tm_file (format_entry (name, shape)))) = Ok bytes" "checked_elements shape = Ok (prod_list shape)"
    "entry_host (format_entry (name, shape)) bytes (prod_list shape) = Ok (H_F32 vs)" and vs: "vs \<noteq> []" "length vs \<le> 4"
    using format_host [OF inside] by blast
  have read: "fs_call op (fs_read format_fs p) s = (s, map_err (io_failure op) (format_files p))" for op p
    by (cases s) (simp add: fs_call_def format_fs_def)
  have fields: "tm_name (format_entry (name, shape)) = name" "tm_shape (format_entry (name, shape)) = shape" by (simp_all add: format_entry_def)
  obtain t d g K where up: "upload_host_tensor demo_store_driver 7 demo_stream (H_F32 vs) s = (t, Ok d)" "gpu t = (g, K)"
    "next_address K \<le> next_address L + 16"
    using source_upload [OF Cons.prems(4) vs] Cons.prems(5) by auto
  have fresh: "map_of m name = None" using Cons.prems(3) x by (auto simp: map_of_eq_None_iff)
  have one: "load_entry demo_store_driver format_fs 7 demo_stream (lit ''m'') m (format_entry (name, shape)) s = (t, Ok (m @ [(name, shape, d)]))"
    unfolding load_entry_def fields using e fresh up(1) by (simp add: rt_bind_def or_release_def read)
  have "graph_entry demo_config 2 W_F32 7 (name, shape, d)"
    using upload_Ok [OF up(1)] entry_host_Ok [OF e(5)] inside format_shapes [OF inside]
    by (auto simp: graph_entry_def uploaded_def u64_lim_def)
  moreover have "name \<notin> fst ` set m" using Cons.prems(3) x by auto
  ultimately have "\<exists>u m'. load_entries demo_store_driver format_fs 7 demo_stream (lit ''m'') (m @ [(name, shape, d)]) (map format_entry xs) t = (u, Ok m') \<and>
      fst ` set m' = fst ` set (m @ [(name, shape, d)]) \<union> fst ` set xs \<and> distinct (map fst m') \<and> (\<forall>e \<in> set m'. graph_entry demo_config 2 W_F32 7 e)"
    by (intro Cons.IH [OF _ _ _ up(2)]) (use Cons.prems up(3) x in auto)
  then show ?case using one by (auto simp: x rt_bind_def)
qed simp

lemma format_loads:
  "\<exists>t w. load_model_directory demo_store_driver format_fs (\<lambda>_. Ok format_manifest) 7 demo_stream (lit ''m'')
     \<lparr>gpu = (\<lambda>_. 0, []), forgotten = []\<rparr> = (t, Ok (demo_config, w))"
proof -
  let ?s = "\<lparr>gpu = (\<lambda>_. 0, []), forgotten = []\<rparr> :: demo_gpu rt"
  have read: "fs_call op (fs_read format_fs p) s = (s, map_err (io_failure op) (format_files p))" for op p and s :: "demo_gpu rt"
    by (cases s) (simp add: fs_call_def format_fs_def)
  obtain bytes where bytes: "format_files (path_join (lit ''m'') NNIS_MODEL_MANIFEST) = Ok bytes"
    by (cases "path_join (lit ''m'') NNIS_MODEL_MANIFEST = lit ''m/a''") (simp_all add: format_files_def)
  have header: "validate_manifest_header format_manifest = Ok ()" by (simp add: validate_manifest_header_def format_manifest_def)
  have room: "next_address [] + 16 * length (graph_shapes demo_config 2) < u64_lim"
    by (simp add: next_address_def graph_shapes_def layer_shapes_def demo_config_def Let_def u64_lim_def)
  obtain t m where m: "load_entries demo_store_driver format_fs 7 demo_stream (lit ''m'') [] (mm_tensors format_manifest) ?s = (t, Ok m)"
    "fst ` set m = fst ` set (graph_shapes demo_config 2)" "distinct (map fst m)" "\<forall>e \<in> set m. graph_entry demo_config 2 W_F32 7 e"
    using format_entries_run [OF subset_refl distinct_graph_shapes _ _ room, of "[]" ?s "\<lambda>_. 0"] by (auto simp: format_manifest_def)
  have ok: "config_validate demo_config = Ok ()" "mc_weight_dtype demo_config = W_F32" by (rule demo_config_valid) (simp add: demo_config_def)
  obtain w where w: "manifest_weights m demo_config = Ok w"
    unfolding manifest_weights_Ok using entries_build [OF demo_kv_width ok(1) m(3) m(4) [folded ok(2)] m(2)] by blast
  have config: "mm_config format_manifest = demo_config" by (simp add: format_manifest_def)
  have ctx: "stream_ctx demo_stream = 7" by (simp add: demo_stream_def)
  show ?thesis
    unfolding load_model_directory_def using bytes header m(1) w ok(1)
    by (simp add: rt_bind_def or_release_def read config ctx del: load_entries.simps)
qed

theorem directory_model_holds_files_witness:
  "\<exists>t w. load_model_directory demo_store_driver format_fs (\<lambda>_. Ok format_manifest) 7 demo_stream (lit ''m'')
     \<lparr>gpu = (\<lambda>_. 0, []), forgotten = []\<rparr> = (t, Ok (demo_config, w)) \<and>
     (\<exists>entry. tm_name entry = lit ''lm_head'' \<and> holds_file demo_live fst format_files (lit ''m'') entry (mw_tensor (wt_lm_head w)) t)"
proof -
  obtain t w where run: "load_model_directory demo_store_driver format_fs (\<lambda>_. Ok format_manifest) 7 demo_stream (lit ''m'')
      \<lparr>gpu = (\<lambda>_. 0, []), forgotten = []\<rparr> = (t, Ok (demo_config, w))" using format_loads by blast
  have fs: "snd (fs_read format_fs p g) = format_files p" "demo_live (fst (fs_read format_fs p g)) = demo_live g"
    "fst (fst (fs_read format_fs p g)) = fst g" for p and g :: demo_gpu by (simp_all add: format_fs_def)
  have ok: "live_ok (demo_live (gpu (\<lparr>gpu = (\<lambda>_. 0, []), forgotten = []\<rparr> :: demo_gpu rt)))" by (simp add: live_ok_def)
  have "(lit ''lm_head'', mw_tensor (wt_lm_head w), Matrix_shape (mw_rows (wt_lm_head w)) (mw_cols (wt_lm_head w))) \<in> set (logical_tensors w)"
    by (simp add: logical_tensors_def matrix_entry_def)
  then show ?thesis using directory_model_holds_files [OF demo_store_ok ok fs run] run by blast
qed

end
