(* ===== verification/Spec2Isabelle.thy ===== *)
theory Spec2Isabelle
  imports
    NNIS_Prelude Rust_Str Sha256 F32_Bits Portable Graph Identity KvReusePlan ReplayState KvFp4
    SpecVerify SpecGreedy KvSequence PortableKv Pvp PvpCpu CpuBackend KernelArtifact Json CudaRt KvCacheRt
    ErrorText DeviceMem KvCompaction GpuPool ModelConfig ExecTransition ModelPlans ModelWeights DecoderModel DecoderSession
    SessionDemo SessionRequests Sampling SessionClient
    PackedCodes LowBit JitKernel GemvKernels SparseWeights Checkpoint WeightEvidence WeightStorage WeightMemory WeightStorageDemo DenseDemo
    ModelFiles Safetensors SafetensorsLoad SafetensorsAgree SafetensorsEquiv SafetensorsMemory SafetensorsDemo
    ModelFormat ModelFormatDemo
begin

text \<open>
  NNIS is an inference stack in Rust.  \<open>nnis-core\<close> holds the contracts every backend obeys: buffers and
  capabilities, graph admission, key/value caches and their layouts, speculative verification, kernel
  artifacts, and the records they are written in.  \<open>nnis-cpu\<close> is the reference backend, \<open>nnis-rt\<close> the
  CUDA runtime, \<open>nnis-model\<close> the decoder that runs on it.  This library models the core contracts, the parts
  of the CPU backend that do no floating-point arithmetic beyond comparison, the CUDA runtime's ordering,
  ownership, memory and cache logic, and the decoder's configuration, weights, construction and sessions,
  and proves what makes each correct.

  \<^bold>\<open>Conventions\<close> (\<open>NNIS_Prelude\<close>, \<open>Rust_Str\<close>, \<open>F32_Bits\<close>).  A \<open>Result\<close> is a sum, the \<open>?\<close> operator
  \<open>and_then\<close>; every error is a constructor of the source's error enum, and its \<open>Display\<close> text a function
  \<open>display_...\<close>.  A \<open>&mut self\<close> method returns the new state beside its result, on failure too, so that
  what a failed call leaves behind is visible.  \<open>u32\<close>, \<open>u64\<close> and \<open>usize\<close> on a 64-bit host are naturals
  with their width written out in every checked, saturating or truncating operation; hashing and bit
  planes are words; an \<open>f32\<close> is its bit pattern with the IEEE comparisons.  A string is its list of
  Unicode scalar values with its UTF-8 encoding.

  \<^bold>\<open>Contracts of the core\<close>
  \<^item> \<open>Portable\<close> (\<open>nnis-core/src/lib.rs\<close>): backend identities, capability sets, buffer descriptors.
  \<^item> \<open>Sha256\<close> (\<open>sha256.rs\<close>): the incremental hasher is FIPS 180-4 SHA-256 of everything absorbed,
    however it was split.
  \<^item> \<open>Json\<close> (\<open>json.rs\<close>): the strict reader inverts the writer, accepts only well-formed values, and
    refuses trailing content, duplicate keys, excess nesting and leading zeros, naming the place.
    The reader of nested values is the interface \<open>value_reader\<close>; its laws give the array and object loops theirs.
  \<^item> \<open>Graph\<close> (\<open>graph.rs\<close>): \<open>validate\<close> accepts exactly the admissible plans and returns exactly the
    documented budget; operands precede their users and indices are in range.
  \<^item> \<open>KernelArtifact\<close> (\<open>kernel_artifact.rs\<close>): acceptance is characterised field by field, the
    fingerprint identifies the artifact up to a collision of SHA-256, binding fails closed.
  \<^item> \<open>Identity\<close>, \<open>KvReusePlan\<close>, \<open>ReplayState\<close> (\<open>kv_reuse_plan.rs\<close>, \<open>replay_state.rs\<close>): the identity checks
    share the interface \<open>id_validator\<close>; reuse plans resolve in one step to an earlier owner; replay
    windows lie inside their source.
  \<^item> \<open>KvFp4\<close> (\<open>kv_fp4.rs\<close>): the code table is E2M1 and the storage accounting is exact.
  \<^item> \<open>Pvp\<close>, \<open>PvpCpu\<close> (\<open>pvp.rs\<close>, \<open>nnis-cpu/src/pvp.rs\<close>): the 64-bit and 32-bit packings are the same bank;
    the in-place transform terminates, is the subset-zeta transform over GF(2) and its own inverse.  Its
    loops are \<open>partial_function\<close>s, so that termination is a theorem.
  \<^item> \<open>SpecVerify\<close>, \<open>SpecGreedy\<close> (\<open>speculative_verify.rs\<close>, \<open>nnis-cpu/src/speculative.rs\<close>): verification emits
    what decoding one token at a time would; the CPU verifier is greedy decoding; the statistics stay
    consistent over every reachable history (an \<open>inductive\<close> predicate).

  \<^bold>\<open>Caches and backends\<close>
  \<^item> \<open>KvSequence\<close> is the interface of a key/value cache, a bounded list of rows with append and
    truncate; \<open>PortableKv\<close> (\<open>session.rs\<close>) implements it, and its theorems over call sequences come from
    the interface.
  \<^item> \<open>CpuBackend\<close> (\<open>nnis-cpu/src/lib.rs\<close>): buffers and the queue, an instance of the interface
    \<open>byte_store\<close>.  The host allocator is a parameter.
  \<^item> \<open>CudaRt\<close>, \<open>KvCacheRt\<close> (\<open>nnis-rt\<close>: \<open>error.rs\<close>, \<open>context.rs\<close>, \<open>stream_event.rs\<close>, \<open>memory.rs\<close>,
    \<open>async_work.rs\<close>, \<open>kv_cache.rs\<close>, \<open>kv_telemetry.rs\<close>): the driver is the record \<open>cuda\<close> of its entry points,
    a parameter.  \<open>driver_ordered\<close> (copies of a stream take effect in order) and \<open>driver_drains\<close> (a
    successful synchronization leaves no copy of its stream pending, and making a context current adds none) state its
    documented behaviour.  An append then adds exactly the source rows or nothing, and a failed one releases no
    memory its own copies may still use, whatever was pending before.

  \<^item> \<open>ErrorText\<close>, \<open>DeviceMem\<close> (\<open>error.rs\<close>, \<open>memory.rs\<close>, \<open>stream_event.rs\<close>): the text of errors; streams and
    events from creation to release; device buffers with every copy.  \<open>driver_transfers\<close> is what the driver
    documents of a transfer; bytes copied to the device then come back unchanged, and by \<open>driver_drains\<close> no copy is
    pending when a synchronous call returns.
  \<^item> \<open>KvCompaction\<close> (\<open>kv_compaction.rs\<close>): staging, replacement and swap.  Success leaves exactly the selected rows,
    in order, in every layer concerned; failure leaves the cache as it was.
  \<^item> \<open>GpuPool\<close> (\<open>pool.rs\<close>): stream-ordered pools.  \<open>runs_before\<close> is the order of the device over the log of
    submitted operations; the release of a pooled buffer comes after every use by a stream it was shared with,
    whichever of the calls made on the way fail.

  \<^bold>\<open>The decoder\<close> (\<open>nnis-model\<close>)
  \<^item> \<open>ModelConfig\<close>, \<open>ModelPlans\<close> (\<open>config.rs\<close>, \<open>projection_plan.rs\<close>, \<open>fusion_plan.rs\<close>, \<open>attention_plan.rs\<close>,
    \<open>representation_plan.rs\<close>): the shape of a decoder and the execution plans.
  \<^item> \<open>ExecTransition\<close> (\<open>execution_transition.rs\<close>, \<open>f16_reference_execution_plan.rs\<close>): the coordinator that rebuilds a
    resident model for another plan, on any runtime: the order of its calls, and that it commits or rolls back.
  \<^item> \<open>ModelWeights\<close> (\<open>weights.rs\<close>): the weight graph, its allocation summary and rebuilding it from named tensors.
  \<^item> \<open>DecoderModel\<close>, \<open>DecoderSession\<close> (\<open>runtime.rs\<close>, \<open>runtime/kv_selection.rs\<close>, \<open>speculative_session.rs\<close>): construction,
    the dispatch of every stage, and a session with all its operations.  Kernels are a parameter: the model gives
    their arguments and their order, not what they compute.  \<open>se_moves\<close> says how far an operation moves the
    session, and composes along the code; \<open>SessionRequests\<close> draws from it what clients rely on, and
    \<open>SessionDemo\<close> runs one small session for the concrete instances.
  \<^item> \<open>Sampling\<close> (\<open>sampling.rs\<close>, \<open>streaming.rs\<close>, \<open>session_batch.rs\<close>): the seeded sampler on exact 64-bit words with
    double-precision arithmetic as a parameter, streaming delivery, and batches.
  \<^item> \<open>SessionClient\<close>: the public methods of a session as requests a client makes in any order, failing ones included;
    as long as since the last prefill, generation or reset every request succeeded and none compacted the cache, the
    cache is in step with the position.

  \<^bold>\<open>Low-bit and sparse weights\<close> (\<open>nnis-model\<close>, \<open>nnis-kernels\<close>)
  \<^item> \<open>PackedCodes\<close>, \<open>LowBit\<close> (\<open>int4_reference.rs\<close>, \<open>int2_reference.rs\<close>): the reference codecs.  The interface
    \<open>packed_store\<close>, of codes packed into bytes, is met by four-bit, two-bit and one-bit codes and by bitmaps.  The rounding
    operations are the record \<open>arith\<close>, a parameter: what is proved holds for any rounding.
  \<^item> \<open>SparseWeights\<close> (\<open>sparse_reference.rs\<close>, \<open>sparse_csc_reference.rs\<close>, \<open>sparse_csc_gemv.rs\<close>): the bitmap and the
    compressed-column formats; both return exactly the values they were given.
  \<^item> \<open>JitKernel\<close>, \<open>GemvKernels\<close> (\<open>module.rs\<close>, \<open>launch.rs\<close>, \<open>gemv.rs\<close>, \<open>int4_weight_gemv.rs\<close>, \<open>int2_weight_gemv.rs\<close>):
    loading a module, launching a kernel, and the text of the batch-one projection kernels.  A kernel is what each thread
    stores; the threads run in any order that covers the grid once, and the packed kernels then compute what the dense one
    computes from the dequantised weights.
  \<^item> \<open>Checkpoint\<close> (\<open>decoder_capabilities.rs\<close>, \<open>exact_checkpoint_spec.rs\<close>, \<open>generated_token_evidence.rs\<close>): the registry of
    exact checkpoints, what a configuration must agree on, and the identity of generated tokens under any digest.
  \<^item> \<open>WeightEvidence\<close> (\<open>weight_representation_accounting.rs\<close>, \<open>dense_weight_materialization.rs\<close>,
    \<open>weight_representation_qualification.rs\<close>, \<open>weight_full_model_evidence.rs\<close>): the denominators, byte
    accounts and qualification records of quantised weights, with double-precision arithmetic as the record \<open>arith64\<close>.
  \<^item> \<open>WeightStorage\<close>, \<open>WeightMemory\<close> (\<open>int4_reference.rs\<close>, \<open>int2_model_storage.rs\<close>): the compact copy of a model in
    device memory, its accounting, and the dense model rebuilt from it.  The two families are one code over a \<open>codec\<close>; what
    the storage relies on of a codec is the interface \<open>lowbit_codec\<close>.  \<open>store_driver\<close> collects what the driver documents; the
    dense tensors then hold the dequantised source values.  \<open>WeightStorageDemo\<close> and \<open>DenseDemo\<close> run two small models for
    the concrete instances.  That the source's shared handles may be released early is not part of the model.

  \<^bold>\<open>Model files\<close> (\<open>nnis-model\<close>).  The file system, the JSON and the Safetensors parser are parameters.
  \<^item> \<open>ModelFiles\<close> (\<open>safetensors_loader.rs\<close>, \<open>format.rs\<close>): paths and the confinement of every file that is read.
    \<open>fs_shows\<close> says that a directory does not change; \<open>gives\<close> then turns a computation into its answer.
  \<^item> \<open>Safetensors\<close> (\<open>safetensors_loader.rs\<close>, \<open>safetensors_preflight.rs\<close>): the configuration, the shards, both tensor
    tables, the two loaders and the preflight.  \<open>SafetensorsLoad\<close> says which maps of tensors make a weight graph,
    \<open>SafetensorsAgree\<close> compares one tensor, and then one shard, in the loader and the preflight, \<open>SafetensorsEquiv\<close> the whole of both,
    and \<open>SafetensorsMemory\<close> follows the values of the source into device memory.  \<open>driver_willing\<close> is a driver that
    refuses nothing; \<open>SafetensorsDemo\<close> loads one small model for the concrete instances.
  \<^item> \<open>ModelFormat\<close> (\<open>format.rs\<close>): the directory format of the repository.  It builds its graph as the other loader does,
    and its tensors hold the bytes of their files; \<open>ModelFormatDemo\<close> loads one.

  \<^bold>\<open>Bounds and fuel.\<close>  \<open>json_value\<close> recurses on the number of levels it may still open, \<open>MAX_JSON_DEPTH + 1\<close>
  at the start, which the depth check makes enough; its loops recurse on the number of bytes left, of
  which each round consumes one.  That neither runs out is \<open>json_parse_fuel\<close>.

  \<^bold>\<open>Not modelled.\<close>  Floating-point rounding itself (CPU sessions, graph execution, FP4 quantisation, RoPE tables);
  the text of the CUDA kernels other than the batch-one projections, and run-time compilation; the
  stored sparse models; the F16 runtime; context creation and page-locked memory; the wgpu backend; host, adapter
  and campaign records; benchmarks and command line.
\<close>

end
